(* ===== verification/Prelude.thy ===== *)
theory Prelude
  imports Main "HOL-Library.Word"
begin

section \<open>Prelude: machine types, results, little-endian words, list lemmas\<close>

text \<open>
  What every component theory shares.

  \<^item> Rust's \<^verbatim>\<open>u8\<close>, \<^verbatim>\<open>u16\<close>, \<^verbatim>\<open>u32\<close> and \<^verbatim>\<open>i32\<close> are words of that width: \<open>+\<close>, \<open>-\<close> wrap,
    \<open>drop_bit\<close> is \<^verbatim>\<open>>>\<close>, \<open>push_bit\<close> is \<^verbatim>\<open><<\<close>, \<open>signed_drop_bit\<close> is \<^verbatim>\<open>>>\<close> on \<^verbatim>\<open>i32\<close>; an \<^verbatim>\<open>as\<close> cast
    between \<^verbatim>\<open>u32\<close> and \<^verbatim>\<open>i32\<close> is the identity on the bits, and \<open>sint\<close> reads the signed value.
  \<^item> Rust's \<^verbatim>\<open>u64\<close> and \<^verbatim>\<open>usize\<close> are natural numbers. The source uses \<^verbatim>\<open>u64\<close> where a sum of
    32-bit values must not wrap; where it guards a \<^verbatim>\<open>u64\<close> operation (\<^verbatim>\<open>checked_add\<close>,
    \<^verbatim>\<open>saturating_add\<close>) the bound \<open>2 ^ 64\<close> is written out.
  \<^item> \<^verbatim>\<open>Result<T, E>\<close> is \<open>'e + 'a\<close>, with \<open>Err\<close> and \<open>Ok\<close> for its constructors.
\<close>

unbundle bit_operations_syntax

type_synonym u8 = "8 word"
type_synonym u16 = "16 word"
type_synonym u32 = "32 word"
type_synonym i32 = "32 word"
type_synonym u64 = nat
type_synonym usize = nat
type_synonym ('a, 'e) result = "'e + 'a"

abbreviation Ok :: "'a \<Rightarrow> ('a, 'e) result" where
  "Ok \<equiv> Inr"

abbreviation Err :: "'e \<Rightarrow> ('a, 'e) result" where
  "Err \<equiv> Inl"

named_theorems bits_simps \<open>facts that reduce a claim on words to a claim on their bits\<close>
named_theorems wf_intros \<open>facts that establish a well-formedness predicate\<close>

subsection \<open>Results\<close>

definition result_bind :: "('a, 'e) result \<Rightarrow> ('a \<Rightarrow> ('b, 'e) result) \<Rightarrow> ('b, 'e) result" where
  "result_bind r f = (case r of Err e \<Rightarrow> Err e | Ok x \<Rightarrow> f x)"

lemma result_bind_simps [simp]:
  "result_bind (Err e) f = Err e"
  "result_bind (Ok x) f = f x"
  by (simp_all add: result_bind_def)

lemma result_bind_eq_Ok [simp]:
  "result_bind r f = Ok y \<longleftrightarrow> (\<exists>x. r = Ok x \<and> f x = Ok y)"
  by (cases r) simp_all

lemma result_bind_eq_Err:
  "result_bind r f = Err e \<longleftrightarrow> r = Err e \<or> (\<exists>x. r = Ok x \<and> f x = Err e)"
  by (cases r) auto

definition ok_or :: "'a option \<Rightarrow> 'e \<Rightarrow> ('a, 'e) result" where
  "ok_or x e = (case x of None \<Rightarrow> Err e | Some y \<Rightarrow> Ok y)"

lemma ok_or_simps [simp]: "ok_or None e = Err e" "ok_or (Some x) e = Ok x"
  by (simp_all add: ok_or_def)

lemma ok_or_eq_Ok [simp]: "ok_or x e = Ok y \<longleftrightarrow> x = Some y"
  by (cases x) simp_all

subsection \<open>Words\<close>

definition u32_max :: u64 where
  "u32_max = 2 ^ 32 - 1"

lemma unat_less_2p32 [simp]: "unat (w :: u32) < 4294967296"
  using unsigned_less [of w, where 'a = nat] by simp

lemma unat_le_u32_max [simp]: "unat (w :: u32) \<le> 4294967295"
  using unat_less_2p32 [of w] by linarith

lemma unat_less_2p8 [simp]: "unat (w :: u8) < 256"
  using unsigned_less [of w, where 'a = nat] by simp

lemma unat_less_2p16 [simp]: "unat (w :: u16) < 65536"
  using unsigned_less [of w, where 'a = nat] by simp

lemma unat_add_exact:
  "unat (a :: u32) + unat b < 2 ^ 32 \<Longrightarrow> unat (a + b) = unat a + unat b"
  by (simp add: unat_word_ariths)

lemma unat_of_nat_exact: "n < 2 ^ 32 \<Longrightarrow> unat (of_nat n :: u32) = n"
  by (simp add: unat_of_nat)

declare bit_or_iff [bits_simps] bit_and_iff [bits_simps] bit_xor_iff [bits_simps]
  bit_push_bit_iff [bits_simps] bit_drop_bit_eq [bits_simps] bit_mask_iff [bits_simps]
  bit_1_iff [bits_simps] bit_0_eq [bits_simps] bit_take_bit_iff [bits_simps]
  bit_signed_drop_bit_iff [bits_simps] bit_ucast_iff [bits_simps] possible_bit_word [bits_simps]
  o_apply [bits_simps]

lemma bit_word_high: "bit (w :: 'a::len word) n \<Longrightarrow> n < LENGTH('a)"
  by (rule bit_imp_le_length)

text \<open>A word whose bits from \<open>k\<close> up all equal the sign bit is a \<open>k + 1\<close> bit signed number.\<close>

lemma sint_range_of_bits:
  fixes w :: u32
  assumes "k < 32" and "\<And>n. k \<le> n \<Longrightarrow> n < 32 \<Longrightarrow> bit w n = bit w 31"
  shows "- (2 ^ k) \<le> sint w" and "sint w < 2 ^ k"
proof -
  have "sint w = signed_take_bit k (sint w)"
  proof (rule bit_eqI)
    fix n
    show "bit (sint w) n = bit (signed_take_bit k (sint w)) n"
    proof (cases "n < k")
      case True
      then show ?thesis by (simp add: bit_signed_take_bit_iff)
    next
      case False
      then have "bit (sint w) n = bit w 31"
        using assms(2) [of n] by (cases "n < 32") (auto simp: bit_sint_iff dest: bit_word_high)
      moreover have "bit (sint w) k = bit w 31"
        using assms(1) assms(2) [of k] by (simp add: bit_sint_iff)
      ultimately show ?thesis using False by (simp add: bit_signed_take_bit_iff min_def)
    qed
  qed
  then show "- (2 ^ k) \<le> sint w" and "sint w < 2 ^ k"
    using signed_take_bit_int_greater_eq_minus_exp [of k "sint w"]
      signed_take_bit_int_less_exp [of k "sint w"] by simp_all
qed

lemma bit_and_pow2: "w AND (push_bit n 1 :: 'a::len word) \<noteq> 0 \<longleftrightarrow> bit w n"
  by (metis and_exp_eq_0_iff_not_bit push_bit_eq_mult mult_1)

lemma unat_and_mask: "unat (w AND mask n :: 'a::len word) = unat w mod 2 ^ n"
  by (metis take_bit_eq_mask take_bit_eq_mod unsigned_take_bit_eq)

lemma unat_drop_bit: "unat (drop_bit n w :: 'a::len word) = unat w div 2 ^ n"
  by (metis drop_bit_eq_div unsigned_drop_bit_eq take_bit_eq_mod mod_less unsigned_less)

lemma unat_less_pow_bits:
  assumes "\<And>n. bit (w :: 'a::len word) n \<Longrightarrow> n < k"
  shows "unat w < 2 ^ k"
proof -
  have "w = take_bit k w"
    using assms by (intro bit_word_eqI) (auto simp: bit_simps)
  then have "unat w = take_bit k (unat w)"
    by (metis unsigned_take_bit_eq)
  then show ?thesis by (metis take_bit_nat_less_exp)
qed

lemma bit_of_unat_less:
  assumes "unat (w :: 'a::len word) < 2 ^ k" and "bit w n"
  shows "n < k"
proof (rule ccontr)
  assume "\<not> n < k"
  have "w = take_bit k w"
    using assms(1) by (intro word_unat_eq_iff [THEN iffD2])
      (simp add: unsigned_take_bit_eq take_bit_nat_eq_self)
  with assms(2) \<open>\<not> n < k\<close> show False by (metis bit_take_bit_iff)
qed

text \<open>The converse of \<open>sint_range_of_bits\<close>.\<close>

lemma bits_of_sint_range:
  fixes w :: u32
  assumes "- (2 ^ k) \<le> sint w" "sint w < 2 ^ k" and "k \<le> n" "n < 32"
  shows "bit w n = bit w 31"
proof -
  have eq: "signed_take_bit k (sint w) = sint w"
    using assms(1,2) by (rule signed_take_bit_int_eq_self)
  have high: "bit (sint w) m = bit (sint w) k" if "k \<le> m" for m
    by (subst eq [symmetric]) (use that in \<open>simp add: bit_signed_take_bit_iff min_def\<close>)
  have "bit w m = bit (sint w) m" if "m < 32" for m
    using that by (auto simp: bit_sint_iff)
  with high [of n] high [of 31] assms(3,4) show ?thesis by simp
qed

subsection \<open>Little-endian bytes\<close>

text \<open>
  \<^verbatim>\<open>u16::from_le_bytes\<close>, \<^verbatim>\<open>u32::from_le_bytes\<close> and their inverses. A fixed-width codec is an
  interface: what a reader of an encoded record relies on is stated once, in the locale.
\<close>

definition u16_from_le_bytes :: "u8 list \<Rightarrow> u16" where
  "u16_from_le_bytes bs = ucast (bs ! 0) OR push_bit 8 (ucast (bs ! 1))"

definition u16_to_le_bytes :: "u16 \<Rightarrow> u8 list" where
  "u16_to_le_bytes w = [ucast w, ucast (drop_bit 8 w)]"

definition u32_from_le_bytes :: "u8 list \<Rightarrow> u32" where
  "u32_from_le_bytes bs =
     ucast (bs ! 0) OR push_bit 8 (ucast (bs ! 1)) OR
     push_bit 16 (ucast (bs ! 2)) OR push_bit 24 (ucast (bs ! 3))"

definition u32_to_le_bytes :: "u32 \<Rightarrow> u8 list" where
  "u32_to_le_bytes w =
     [ucast w, ucast (drop_bit 8 w), ucast (drop_bit 16 w), ucast (drop_bit 24 w)]"

locale le_codec =
  fixes enc :: "'v \<Rightarrow> u8 list"
    and dec :: "u8 list \<Rightarrow> 'v"
    and width :: nat
  assumes length_enc: "length (enc v) = width"
    and dec_enc: "dec (enc v) = v"
    and enc_dec: "length bs = width \<Longrightarrow> enc (dec bs) = bs"
begin

lemma enc_inject: "enc v = enc w \<longleftrightarrow> v = w"
  by (metis dec_enc)

lemma dec_slice: "dec (take width (drop (length pre) (pre @ enc v @ post))) = v"
  by (simp add: dec_enc flip: length_enc [of v])

lemma length_concat_enc: "length (concat (map enc vs)) = width * length vs"
  by (induction vs) (simp_all add: length_enc)

lemma take_drop_concat_enc:
  "i < length vs \<Longrightarrow> take width (drop (width * i) (concat (map enc vs))) = enc (vs ! i)"
proof (induction vs arbitrary: i)
  case Nil
  then show ?case by simp
next
  case (Cons v vs)
  show ?case
  proof (cases i)
    case 0
    then show ?thesis by (simp add: length_enc)
  next
    case (Suc j)
    with Cons show ?thesis by (simp add: length_enc)
  qed
qed

lemma dec_concat_enc:
  "i < length vs \<Longrightarrow> dec (take width (drop (width * i) (concat (map enc vs)))) = vs ! i"
  by (simp add: take_drop_concat_enc dec_enc)

end

lemma u32_le_dec_enc: "u32_from_le_bytes (u32_to_le_bytes w) = w"
proof (rule bit_word_eqI)
  fix n assume "n < LENGTH(32)"
  then consider "n < 8" | "8 \<le> n" "n < 16" | "16 \<le> n" "n < 24" | "24 \<le> n" "n < 32"
    by fastforce
  then show "bit (u32_from_le_bytes (u32_to_le_bytes w)) n = bit w n"
    by cases (auto simp: u32_from_le_bytes_def u32_to_le_bytes_def bit_simps nth_Cons')
qed

lemma u32_le_enc_dec:
  assumes "length bs = 4"
  shows "u32_to_le_bytes (u32_from_le_bytes bs) = bs"
proof -
  from assms obtain a b c d where bs: "bs = [a, b, c, d]"
    by (auto simp: length_Suc_conv eval_nat_numeral)
  have "ucast (u32_from_le_bytes bs) = a" "ucast (drop_bit 8 (u32_from_le_bytes bs)) = b"
    "ucast (drop_bit 16 (u32_from_le_bytes bs)) = c" "ucast (drop_bit 24 (u32_from_le_bytes bs)) = d"
    unfolding bs u32_from_le_bytes_def
    by (rule bit_word_eqI; auto simp: bit_simps dest: bit_word_high)+
  then show ?thesis by (simp add: u32_to_le_bytes_def bs)
qed

lemma u16_le_dec_enc: "u16_from_le_bytes (u16_to_le_bytes w) = w"
  by (rule bit_word_eqI)
    (auto simp: u16_from_le_bytes_def u16_to_le_bytes_def bit_simps nth_Cons')

lemma u16_le_enc_dec:
  assumes "length bs = 2"
  shows "u16_to_le_bytes (u16_from_le_bytes bs) = bs"
proof -
  from assms obtain a b where bs: "bs = [a, b]"
    by (auto simp: length_Suc_conv eval_nat_numeral)
  have "ucast (u16_from_le_bytes bs) = a" "ucast (drop_bit 8 (u16_from_le_bytes bs)) = b"
    unfolding bs u16_from_le_bytes_def
    by (rule bit_word_eqI; auto simp: bit_simps dest: bit_word_high)+
  then show ?thesis by (simp add: u16_to_le_bytes_def bs)
qed

lemma length_u32_to_le_bytes [simp]: "length (u32_to_le_bytes w) = 4"
  by (simp add: u32_to_le_bytes_def)

lemma length_u16_to_le_bytes [simp]: "length (u16_to_le_bytes w) = 2"
  by (simp add: u16_to_le_bytes_def)

interpretation u32le: le_codec u32_to_le_bytes u32_from_le_bytes 4
  by unfold_locales (simp_all add: u32_le_dec_enc u32_le_enc_dec)

interpretation u16le: le_codec u16_to_le_bytes u16_from_le_bytes 2
  by unfold_locales (simp_all add: u16_le_dec_enc u16_le_enc_dec)

end
