(* ===== verification/Contracts.thy ===== *)
theory Contracts
  imports Prelude
begin

section \<open>The contracts the components are written against\<close>

text \<open>
  The contracts crate is not part of this repository. Its types are taken from the design documents
  (\<^verbatim>\<open>docs/m0-design.md\<close> 4.1, 4.2 and 5, \<^verbatim>\<open>docs/m1-design.md\<close> 4, \<^verbatim>\<open>docs/m2-design.md\<close>), with the constructors the
  source uses. Phases are ordered as declared and event keys lexicographically.

  A handler runs against a context. The context records the effects in order (\<open>ctx_out\<close>) and may
  refuse one of them with an error (\<open>ctx_refuse\<close>, a parameter: the rules of the scheduler and the
  topology decide it). A handler ends with the new state, with the error it faults the session with,
  or with a panic; a faulted session is never resumed, so the state of a failed handler is dropped.
\<close>

subsection \<open>Time, phases and keys\<close>

type_synonym Tick = nat
type_synonym TxnId = nat
type_synonym PortId = nat
type_synonym ClockDomainId = nat

definition u64_max :: u64 where
  "u64_max = 2 ^ 64 - 1"

datatype Phase = PhRequest | PhTransfer | PhComplete | PhCommit | PhObserve

fun Phase_rank :: "Phase \<Rightarrow> nat" where
  "Phase_rank PhRequest = 0"
| "Phase_rank PhTransfer = 1"
| "Phase_rank PhComplete = 2"
| "Phase_rank PhCommit = 3"
| "Phase_rank PhObserve = 4"

lemma Phase_rank_inject [simp]: "Phase_rank p = Phase_rank q \<longleftrightarrow> p = q"
  by (cases p; cases q) simp_all

instantiation Phase :: linorder
begin

definition less_eq_Phase :: "Phase \<Rightarrow> Phase \<Rightarrow> bool" where
  "p \<le> q \<longleftrightarrow> Phase_rank p \<le> Phase_rank q"

definition less_Phase :: "Phase \<Rightarrow> Phase \<Rightarrow> bool" where
  "p < q \<longleftrightarrow> Phase_rank p < Phase_rank q"

instance
  by standard (auto simp: less_eq_Phase_def less_Phase_def)

end

datatype EventKey = EventKey (key_tick: Tick) (key_phase: Phase) (key_sequence: u64)

instantiation EventKey :: linorder
begin

fun less_eq_EventKey :: "EventKey \<Rightarrow> EventKey \<Rightarrow> bool" where
  "EventKey t p s \<le> EventKey t' p' s' \<longleftrightarrow> t < t' \<or> t = t' \<and> (p < p' \<or> p = p' \<and> s \<le> s')"

definition less_EventKey :: "EventKey \<Rightarrow> EventKey \<Rightarrow> bool" where
  "k < k' \<longleftrightarrow> k \<le> k' \<and> \<not> k' \<le> (k :: EventKey)"

instance
proof
  fix x y z :: EventKey
  show "x \<le> x" by (cases x) simp
  show "x \<le> y \<Longrightarrow> y \<le> z \<Longrightarrow> x \<le> z" by (cases x; cases y; cases z) auto
  show "x \<le> y \<Longrightarrow> y \<le> x \<Longrightarrow> x = y" by (cases x; cases y) auto
  show "x \<le> y \<or> y \<le> x" by (cases x; cases y) auto
qed (simp add: less_EventKey_def)

end

lemma less_EventKey_iff [simp]:
  "EventKey t p s < EventKey t' p' s' \<longleftrightarrow> t < t' \<or> t = t' \<and> (p < p' \<or> p = p' \<and> s < s')"
  by (auto simp: less_EventKey_def)

datatype ScheduleWhen = WhenNow | WhenAfter u64 | WhenCycles ClockDomainId u64

subsection \<open>Protocols\<close>

datatype MemFault = AccessFault

datatype ReadOutcome = ReadData "u8 list" | ReadFault MemFault

datatype WriteOutcome = WriteDone | WriteFault MemFault

datatype MemMsg =
    ReadReq TxnId u64 u32
  | ReadResp TxnId ReadOutcome
  | WriteReq TxnId u64 "u8 list"
  | WriteResp TxnId WriteOutcome

datatype IrqMsg = IrqLevel bool

text \<open>The first memory protocol, whose responses cannot fault, and the block protocol.\<close>

datatype Mem0Msg =
    ReadReq0 TxnId u64 u32
  | ReadResp0 TxnId "u8 list"
  | WriteReq0 TxnId u64 "u8 list"
  | WriteResp0 TxnId

datatype MediaError = MediaOutOfRange | MediaBadBlock

datatype BlockReadOutcome = BlockData "u8 list" | BlockReadError MediaError

datatype BlockWriteOutcome = BlockDone | BlockWriteError MediaError

datatype BlockMsg =
    ReadBlock TxnId u64
  | WriteBlock TxnId u64 "u8 list"
  | ReadResult TxnId BlockReadOutcome
  | WriteResult TxnId BlockWriteOutcome

datatype Message = MsgMem Mem0Msg | MsgMemV1 MemMsg | MsgIrq IrqMsg | MsgBlock BlockMsg

text \<open>
  \<^verbatim>\<open>MemMsg::access\<close> classifies a request by its bytes: none, past the last address, or a range given by
  its first and last byte. Responses have no access.
\<close>

datatype ByteAccess = AccEmpty | AccOutOfRange | AccBytes u64 u64

definition byte_access :: "u64 \<Rightarrow> u64 \<Rightarrow> ByteAccess" where
  "byte_access addr len =
     (if len = 0 then AccEmpty
      else if addr + (len - 1) > u64_max then AccOutOfRange
      else AccBytes addr (addr + (len - 1)))"

fun mem_access :: "MemMsg \<Rightarrow> ByteAccess option" where
  "mem_access (ReadReq txn addr len) = Some (byte_access addr (unat len))"
| "mem_access (WriteReq txn addr data) = Some (byte_access addr (length data))"
| "mem_access _ = None"

datatype LinkLatency = LatAfter u64 | LatCycles ClockDomainId u64

fun latency_when :: "LinkLatency \<Rightarrow> ScheduleWhen" where
  "latency_when (LatAfter d) = WhenAfter d"
| "latency_when (LatCycles domain k) = WhenCycles domain k"

datatype Delivered = DMessage PortId Message | DWake u64

subsection \<open>Contexts and handlers\<close>

datatype TraceValue = VU64 u64 | VI64 int | VBool bool | VStr string | VBytes "u8 list"

type_synonym TraceFields = "(string \<times> TraceValue) list"

datatype SimError =
    ComponentFault string
  | PastTick Tick Tick
  | PhaseViolation Tick Phase Tick Phase
  | SequenceOverflow
  | SameTickLivelock Tick Phase u64
  | ProtocolMismatch
  | UnknownPort
  | UnknownClockDomain

datatype Abort = Fault_session SimError | Panic

datatype CtxEffect =
    EffSend PortId Message ScheduleWhen Phase
  | EffWake ScheduleWhen Phase u64
  | EffTrace string TraceFields

record SimContext =
  ctx_phase :: Phase
  ctx_refuse :: "CtxEffect \<Rightarrow> SimError option"
  ctx_out :: "CtxEffect list"

type_synonym 's handled = "('s \<times> SimContext, Abort) result"

definition ctx_effect :: "CtxEffect \<Rightarrow> SimContext \<Rightarrow> (SimContext, Abort) result" where
  "ctx_effect e ctx =
     (case ctx_refuse ctx e of
        Some err \<Rightarrow> Err (Fault_session err)
      | None \<Rightarrow> Ok (ctx\<lparr>ctx_out := ctx_out ctx @ [e]\<rparr>))"

definition ctx_send :: "PortId \<Rightarrow> Message \<Rightarrow> ScheduleWhen \<Rightarrow> Phase \<Rightarrow> SimContext \<Rightarrow> (SimContext, Abort) result" where
  "ctx_send port msg w phase ctx = ctx_effect (EffSend port msg w phase) ctx"

definition ctx_wake_self :: "ScheduleWhen \<Rightarrow> Phase \<Rightarrow> u64 \<Rightarrow> SimContext \<Rightarrow> (SimContext, Abort) result" where
  "ctx_wake_self w phase token ctx = ctx_effect (EffWake w phase token) ctx"

text \<open>A trace record is never refused.\<close>

definition ctx_trace :: "string \<Rightarrow> TraceFields \<Rightarrow> SimContext \<Rightarrow> SimContext" where
  "ctx_trace kind fs ctx = ctx\<lparr>ctx_out := ctx_out ctx @ [EffTrace kind fs]\<rparr>"

definition component_fault :: "string \<Rightarrow> ('a, Abort) result" where
  "component_fault what = Err (Fault_session (ComponentFault what))"

subsection \<open>What a handler did\<close>

text \<open>The scheduling effects among the recorded ones, in order: each becomes one event.\<close>

fun is_scheduled :: "CtxEffect \<Rightarrow> bool" where
  "is_scheduled (EffTrace _ _) = False"
| "is_scheduled _ = True"

definition scheduled :: "SimContext \<Rightarrow> CtxEffect list" where
  "scheduled ctx = filter is_scheduled (ctx_out ctx)"

definition accepts_all :: "SimContext \<Rightarrow> bool" where
  "accepts_all ctx \<longleftrightarrow> (\<forall>e. ctx_refuse ctx e = None)"

lemma ctx_effect_Ok [simp]:
  "ctx_effect e ctx = Ok ctx' \<longleftrightarrow> ctx_refuse ctx e = None \<and> ctx' = ctx\<lparr>ctx_out := ctx_out ctx @ [e]\<rparr>"
  by (auto simp: ctx_effect_def split: option.splits)

lemma ctx_effect_no_panic [simp]: "ctx_effect e ctx \<noteq> Err Panic"
  by (simp add: ctx_effect_def split: option.splits)

lemma ctx_effect_accepted: "accepts_all ctx \<Longrightarrow> ctx_effect e ctx = Ok (ctx\<lparr>ctx_out := ctx_out ctx @ [e]\<rparr>)"
  by (simp add: accepts_all_def)

lemma component_fault_simps [simp]:
  "component_fault w \<noteq> Ok x" "component_fault w \<noteq> Err Panic"
  "result_bind (component_fault w) f = component_fault w"
  by (simp_all add: component_fault_def)

lemma scheduled_simps [simp]:
  "scheduled (ctx\<lparr>ctx_out := out @ [EffTrace k f]\<rparr>) = scheduled (ctx\<lparr>ctx_out := out\<rparr>)"
  "scheduled (ctx\<lparr>ctx_out := out @ [EffWake w p t]\<rparr>) = scheduled (ctx\<lparr>ctx_out := out\<rparr>) @ [EffWake w p t]"
  "scheduled (ctx\<lparr>ctx_out := out @ [EffSend q m w p]\<rparr>) = scheduled (ctx\<lparr>ctx_out := out\<rparr>) @ [EffSend q m w p]"
  by (simp_all add: scheduled_def)

lemma scheduled_trace [simp]: "scheduled (ctx_trace k f ctx) = scheduled ctx"
  by (simp add: scheduled_def ctx_trace_def)

lemma scheduled_wake: "ctx_wake_self w p t ctx = Ok ctx' \<Longrightarrow> scheduled ctx' = scheduled ctx @ [EffWake w p t]"
  by (auto simp: ctx_wake_self_def scheduled_def)

lemma scheduled_send: "ctx_send q m w p ctx = Ok ctx' \<Longrightarrow> scheduled ctx' = scheduled ctx @ [EffSend q m w p]"
  by (auto simp: ctx_send_def scheduled_def)

lemma accepts_all_update [simp]: "accepts_all (ctx\<lparr>ctx_out := out\<rparr>) = accepts_all ctx"
  by (simp add: accepts_all_def)

text \<open>A context that accepts everything, for the concrete runs below.\<close>

definition quiet_ctx :: SimContext where
  "quiet_ctx = \<lparr>ctx_phase = PhTransfer, ctx_refuse = (\<lambda>_. None), ctx_out = []\<rparr>"

lemma quiet_ctx_accepts [simp]: "accepts_all quiet_ctx" "ctx_out quiet_ctx = []"
  by (simp_all add: quiet_ctx_def accepts_all_def)

end
