(* ===== verification/Rv32_Instr.thy ===== *)
theory Rv32_Instr
  imports Prelude
begin

section \<open>RV32I instructions, immediates, the decoder and the register file\<close>

text \<open>
  Models \<^verbatim>\<open>components/rv32i/src/{instr,immediate,decode,regfile}.rs\<close>. A \<^verbatim>\<open>Reg\<close> wraps a byte; the
  decoder builds it from a 5-bit field. Immediates keep the source's bit assembly; \<^verbatim>\<open>i32\<close> values
  are 32-bit patterns read by \<open>sint\<close>. The decoder is total: every word gives an instruction or
  \<open>Illegal\<close>. The lemmas give the ranges the source documents on each field, that a word outside
  the 32-bit encodings is illegal, and the laws of the register file (\<open>x0\<close> is constant 0).
\<close>

subsection \<open>Instructions (\<^verbatim>\<open>instr.rs\<close>)\<close>

datatype Reg = Reg (reg_index: u8)

definition Reg_ZERO :: Reg where
  "Reg_ZERO = Reg 0"

definition Reg_new :: "u8 \<Rightarrow> Reg option" where
  "Reg_new index = (if index < 32 then Some (Reg index) else None)"

definition Reg_field :: "u32 \<Rightarrow> nat \<Rightarrow> Reg" where
  "Reg_field word shift = Reg (ucast (drop_bit shift word AND 0x1f))"

datatype BranchOp = BranchEq | BranchNe | BranchLt | BranchGe | BranchLtu | BranchGeu

datatype LoadOp = LoadB | LoadH | LoadW | LoadBu | LoadHu

datatype StoreOp = StoreB | StoreH | StoreW

datatype ImmOp = Addi | Slti | Sltiu | Xori | Ori | Andi

datatype ShiftOp = ShiftSll | ShiftSrl | ShiftSra

datatype RegOp = RegAdd | RegSub | RegSll | RegSlt | RegSltu | RegXor | RegSrl | RegSra | RegOr | RegAnd

datatype Instr =
    Lui Reg u32
  | Auipc Reg u32
  | Jal Reg i32
  | Jalr Reg Reg i32
  | Branch BranchOp Reg Reg i32
  | Load LoadOp Reg Reg i32
  | Store StoreOp Reg Reg i32
  | OpImm ImmOp Reg Reg i32
  | ShiftImm ShiftOp Reg Reg u32
  | Op RegOp Reg Reg Reg
  | Fence
  | Ecall
  | Ebreak

subsection \<open>Immediates (\<^verbatim>\<open>immediate.rs\<close>)\<close>

definition imm_i :: "u32 \<Rightarrow> i32" where
  "imm_i word = signed_drop_bit 20 word"

definition imm_s :: "u32 \<Rightarrow> i32" where
  "imm_s word = push_bit 5 (signed_drop_bit 25 word) OR (drop_bit 7 word AND 0x1f)"

definition imm_b :: "u32 \<Rightarrow> i32" where
  "imm_b word =
     push_bit 12 (signed_drop_bit 31 word)
     OR push_bit 11 (drop_bit 7 word AND 0x1)
     OR push_bit 5 (drop_bit 25 word AND 0x3f)
     OR push_bit 1 (drop_bit 8 word AND 0xf)"

definition imm_u :: "u32 \<Rightarrow> u32" where
  "imm_u word = word AND 0xfffff000"

definition imm_j :: "u32 \<Rightarrow> i32" where
  "imm_j word =
     push_bit 20 (signed_drop_bit 31 word)
     OR (word AND 0x000ff000)
     OR push_bit 11 (drop_bit 20 word AND 0x1)
     OR push_bit 1 (drop_bit 21 word AND 0x3ff)"

subsection \<open>The decoder (\<^verbatim>\<open>decode.rs\<close>)\<close>

datatype Illegal = Illegal (illegal_word: u32)

definition OPC_LOAD :: u32 where "OPC_LOAD = 0x03"
definition OPC_MISC_MEM :: u32 where "OPC_MISC_MEM = 0x0f"
definition OPC_OP_IMM :: u32 where "OPC_OP_IMM = 0x13"
definition OPC_AUIPC :: u32 where "OPC_AUIPC = 0x17"
definition OPC_STORE :: u32 where "OPC_STORE = 0x23"
definition OPC_OP :: u32 where "OPC_OP = 0x33"
definition OPC_LUI :: u32 where "OPC_LUI = 0x37"
definition OPC_BRANCH :: u32 where "OPC_BRANCH = 0x63"
definition OPC_JALR :: u32 where "OPC_JALR = 0x67"
definition OPC_JAL :: u32 where "OPC_JAL = 0x6f"
definition OPC_SYSTEM :: u32 where "OPC_SYSTEM = 0x73"
definition WORD_ECALL :: u32 where "WORD_ECALL = 0x00000073"
definition WORD_EBREAK :: u32 where "WORD_EBREAK = 0x00100073"
definition FUNCT7_BASE :: u32 where "FUNCT7_BASE = 0"
definition FUNCT7_ALT :: u32 where "FUNCT7_ALT = 0x20"

lemmas opcode_defs = OPC_LOAD_def OPC_MISC_MEM_def OPC_OP_IMM_def OPC_AUIPC_def OPC_STORE_def
  OPC_OP_def OPC_LUI_def OPC_BRANCH_def OPC_JALR_def OPC_JAL_def OPC_SYSTEM_def
  WORD_ECALL_def WORD_EBREAK_def FUNCT7_BASE_def FUNCT7_ALT_def

definition decode_branch_op :: "u32 \<Rightarrow> BranchOp option" where
  "decode_branch_op funct3 =
     (if funct3 = 0 then Some BranchEq
      else if funct3 = 1 then Some BranchNe
      else if funct3 = 4 then Some BranchLt
      else if funct3 = 5 then Some BranchGe
      else if funct3 = 6 then Some BranchLtu
      else if funct3 = 7 then Some BranchGeu
      else None)"

definition decode_load_op :: "u32 \<Rightarrow> LoadOp option" where
  "decode_load_op funct3 =
     (if funct3 = 0 then Some LoadB
      else if funct3 = 1 then Some LoadH
      else if funct3 = 2 then Some LoadW
      else if funct3 = 4 then Some LoadBu
      else if funct3 = 5 then Some LoadHu
      else None)"

definition decode_store_op :: "u32 \<Rightarrow> StoreOp option" where
  "decode_store_op funct3 =
     (if funct3 = 0 then Some StoreB
      else if funct3 = 1 then Some StoreH
      else if funct3 = 2 then Some StoreW
      else None)"

definition decode_imm_op :: "u32 \<Rightarrow> ImmOp option" where
  "decode_imm_op funct3 =
     (if funct3 = 0 then Some Addi
      else if funct3 = 2 then Some Slti
      else if funct3 = 3 then Some Sltiu
      else if funct3 = 4 then Some Xori
      else if funct3 = 6 then Some Ori
      else if funct3 = 7 then Some Andi
      else None)"

definition decode_shift_op :: "u32 \<Rightarrow> u32 \<Rightarrow> ShiftOp option" where
  "decode_shift_op funct3 funct7 =
     (if funct3 = 1 \<and> funct7 = FUNCT7_BASE then Some ShiftSll
      else if funct3 = 5 \<and> funct7 = FUNCT7_BASE then Some ShiftSrl
      else if funct3 = 5 \<and> funct7 = FUNCT7_ALT then Some ShiftSra
      else None)"

definition decode_reg_op :: "u32 \<Rightarrow> u32 \<Rightarrow> RegOp option" where
  "decode_reg_op funct7 funct3 =
     (if funct7 = FUNCT7_BASE \<and> funct3 = 0 then Some RegAdd
      else if funct7 = FUNCT7_ALT \<and> funct3 = 0 then Some RegSub
      else if funct7 = FUNCT7_BASE \<and> funct3 = 1 then Some RegSll
      else if funct7 = FUNCT7_BASE \<and> funct3 = 2 then Some RegSlt
      else if funct7 = FUNCT7_BASE \<and> funct3 = 3 then Some RegSltu
      else if funct7 = FUNCT7_BASE \<and> funct3 = 4 then Some RegXor
      else if funct7 = FUNCT7_BASE \<and> funct3 = 5 then Some RegSrl
      else if funct7 = FUNCT7_ALT \<and> funct3 = 5 then Some RegSra
      else if funct7 = FUNCT7_BASE \<and> funct3 = 6 then Some RegOr
      else if funct7 = FUNCT7_BASE \<and> funct3 = 7 then Some RegAnd
      else None)"

definition decode :: "u32 \<Rightarrow> (Instr, Illegal) result" where
  "decode word =
     (let rd = Reg_field word 7; rs1 = Reg_field word 15; rs2 = Reg_field word 20;
          funct3 = drop_bit 12 word AND 0x7; funct7 = drop_bit 25 word;
          opcode = word AND 0x7f; illegal = Err (Illegal word)
      in
      if opcode = OPC_LUI then Ok (Lui rd (imm_u word))
      else if opcode = OPC_AUIPC then Ok (Auipc rd (imm_u word))
      else if opcode = OPC_JAL then Ok (Jal rd (imm_j word))
      else if opcode = OPC_JALR \<and> funct3 = 0 then Ok (Jalr rd rs1 (imm_i word))
      else if opcode = OPC_BRANCH then
        (case decode_branch_op funct3 of
           None \<Rightarrow> illegal
         | Some bop \<Rightarrow> Ok (Branch bop rs1 rs2 (imm_b word)))
      else if opcode = OPC_LOAD then
        (case decode_load_op funct3 of
           None \<Rightarrow> illegal
         | Some lop \<Rightarrow> Ok (Load lop rd rs1 (imm_i word)))
      else if opcode = OPC_STORE then
        (case decode_store_op funct3 of
           None \<Rightarrow> illegal
         | Some sop \<Rightarrow> Ok (Store sop rs1 rs2 (imm_s word)))
      else if opcode = OPC_OP_IMM then
        (case decode_imm_op funct3 of
           Some iop \<Rightarrow> Ok (OpImm iop rd rs1 (imm_i word))
         | None \<Rightarrow>
             (case decode_shift_op funct3 funct7 of
                None \<Rightarrow> illegal
              | Some shop \<Rightarrow> Ok (ShiftImm shop rd rs1 (drop_bit 20 word AND 0x1f))))
      else if opcode = OPC_OP then
        (case decode_reg_op funct7 funct3 of
           None \<Rightarrow> illegal
         | Some rop \<Rightarrow> Ok (Op rop rd rs1 rs2))
      else if opcode = OPC_MISC_MEM \<and> funct3 = 0 then Ok Fence
      else if opcode = OPC_SYSTEM \<and> word = WORD_ECALL then Ok Ecall
      else if opcode = OPC_SYSTEM \<and> word = WORD_EBREAK then Ok Ebreak
      else illegal)"

subsection \<open>The register file (\<^verbatim>\<open>regfile.rs\<close>)\<close>

text \<open>
  \<open>xregs ! i\<close> is register \<open>x(i + 1)\<close>. The array has 31 entries; indexing past its end panics in the
  source, which the read and the write make explicit.
\<close>

record RegisterFile =
  xregs :: "u32 list"

definition RegisterFile_new :: RegisterFile where
  "RegisterFile_new = \<lparr>xregs = replicate 31 0\<rparr>"

definition regfile_read :: "RegisterFile \<Rightarrow> Reg \<Rightarrow> u32 option" where
  "regfile_read rf r =
     (case unat (reg_index r) of
        0 \<Rightarrow> Some 0
      | Suc i \<Rightarrow> if i < length (xregs rf) then Some (xregs rf ! i) else None)"

definition regfile_write :: "RegisterFile \<Rightarrow> Reg \<Rightarrow> u32 \<Rightarrow> RegisterFile option" where
  "regfile_write rf r value =
     (case unat (reg_index r) of
        0 \<Rightarrow> Some rf
      | Suc i \<Rightarrow> if i < length (xregs rf) then Some (rf\<lparr>xregs := (xregs rf)[i := value]\<rparr>) else None)"

subsection \<open>Well-formed instructions\<close>

text \<open>The ranges \<^verbatim>\<open>instr.rs\<close> documents on the fields of a decoded instruction.\<close>

definition wf_reg :: "Reg \<Rightarrow> bool" where
  "wf_reg r \<longleftrightarrow> unat (reg_index r) < 32"

definition simm_range :: "nat \<Rightarrow> i32 \<Rightarrow> bool" where
  "simm_range k w \<longleftrightarrow> - (2 ^ k) \<le> sint w \<and> sint w < 2 ^ k"

fun wf_instr :: "Instr \<Rightarrow> bool" where
  "wf_instr (Lui d v) \<longleftrightarrow> wf_reg d \<and> v AND 0xfff = 0"
| "wf_instr (Auipc d v) \<longleftrightarrow> wf_reg d \<and> v AND 0xfff = 0"
| "wf_instr (Jal d off) \<longleftrightarrow> wf_reg d \<and> simm_range 20 off \<and> \<not> bit off 0"
| "wf_instr (Jalr d s1 off) \<longleftrightarrow> wf_reg d \<and> wf_reg s1 \<and> simm_range 11 off"
| "wf_instr (Branch bop s1 s2 off) \<longleftrightarrow> wf_reg s1 \<and> wf_reg s2 \<and> simm_range 12 off \<and> \<not> bit off 0"
| "wf_instr (Load lop d s1 off) \<longleftrightarrow> wf_reg d \<and> wf_reg s1 \<and> simm_range 11 off"
| "wf_instr (Store sop s1 s2 off) \<longleftrightarrow> wf_reg s1 \<and> wf_reg s2 \<and> simm_range 11 off"
| "wf_instr (OpImm iop d s1 v) \<longleftrightarrow> wf_reg d \<and> wf_reg s1 \<and> simm_range 11 v"
| "wf_instr (ShiftImm shop d s1 sh) \<longleftrightarrow> wf_reg d \<and> wf_reg s1 \<and> unat sh < 32"
| "wf_instr (Op rop d s1 s2) \<longleftrightarrow> wf_reg d \<and> wf_reg s1 \<and> wf_reg s2"
| "wf_instr Fence \<longleftrightarrow> True"
| "wf_instr Ecall \<longleftrightarrow> True"
| "wf_instr Ebreak \<longleftrightarrow> True"

lemma mask_numerals:
  "(0x7 :: u32) = mask 3" "(0xf :: u32) = mask 4" "(0x1f :: u32) = mask 5"
  "(0x3f :: u32) = mask 6" "(0x7f :: u32) = mask 7" "(0x3ff :: u32) = mask 10"
  "(0xfff :: u32) = mask 12"
  by (simp_all add: mask_eq_exp_minus_1)

lemma wf_reg_field [simp, wf_intros]: "wf_reg (Reg_field word k)"
proof -
  have "unat (drop_bit k word AND mask 5) < 32"
    by (simp add: unat_and_mask)
  then show ?thesis
    by (simp add: wf_reg_def Reg_field_def mask_numerals unsigned_ucast_eq take_bit_nat_eq_self
        del: and_mask_bintr)
qed

lemma simm_rangeI:
  assumes "k < 31" and "bit w k = bit w 31" and "\<And>n. k < n \<Longrightarrow> n < 31 \<Longrightarrow> bit w n = bit w 31"
  shows "simm_range k w"
proof -
  have bits: "bit w n = bit w 31" if "k \<le> n" "n < 32" for n
  proof -
    note range = that
    consider "n = k" | "k < n" "n < 31" | "n = 31" using range by fastforce
    then show ?thesis by cases (use assms(2,3) in blast)+
  qed
  have "k < 32" using assms(1) by simp
  from sint_range_of_bits [OF this bits] show ?thesis unfolding simm_range_def by (rule conjI)
qed

lemma simm_range_bits: "simm_range k w \<Longrightarrow> k \<le> n \<Longrightarrow> n < 32 \<Longrightarrow> bit w n = bit w 31"
  using bits_of_sint_range by (auto simp: simm_range_def)

lemma simm_range_imm_i [simp, wf_intros]: "simm_range 11 (imm_i w)"
  by (rule simm_rangeI; simp only: imm_i_def mask_numerals bits_simps; auto simp: min_def)

lemma simm_range_imm_s [simp, wf_intros]: "simm_range 11 (imm_s w)"
  by (rule simm_rangeI; simp only: imm_s_def mask_numerals bits_simps; auto simp: min_def)

lemma simm_range_imm_b [simp, wf_intros]: "simm_range 12 (imm_b w)"
  by (rule simm_rangeI; simp only: imm_b_def mask_numerals bits_simps; auto simp: min_def)

lemma imm_b_even [simp, wf_intros]: "\<not> bit (imm_b w) 0"
  by (simp only: imm_b_def mask_numerals bits_simps) simp

lemma bit_imm_j_mid: "bit (w AND 0x000ff000 :: u32) n \<longleftrightarrow> bit w n \<and> 12 \<le> n \<and> n < 20"
proof -
  have eq: "(0x000ff000 :: u32) = push_bit 12 (mask 8)"
    by (simp add: mask_eq_exp_minus_1 push_bit_eq_mult)
  show ?thesis unfolding eq by (auto simp: bit_and_iff bit_push_bit_iff bit_mask_iff dest: bit_word_high)
qed

lemma simm_range_imm_j [simp, wf_intros]: "simm_range 20 (imm_j w)"
  by (rule simm_rangeI; simp only: imm_j_def bit_or_iff bit_imm_j_mid; simp only: mask_numerals bits_simps;
      auto simp: min_def)

lemma imm_j_even [simp, wf_intros]: "\<not> bit (imm_j w) 0"
  by (simp only: imm_j_def bit_or_iff bit_imm_j_mid) (simp only: mask_numerals bits_simps, simp)

lemma imm_u_low [simp, wf_intros]: "imm_u w AND 0xfff = 0"
  by (simp add: imm_u_def and.assoc)

lemma shamt_less [simp, wf_intros]: "unat (w AND 0x1f :: u32) < 32"
  by (simp add: mask_numerals unat_and_mask)

lemma decode_wf_aux: "decode w = Ok i \<Longrightarrow> wf_instr i"
  by (auto simp: decode_def Let_def split: if_splits option.splits)

lemma decode_Err: "decode w = Err e \<Longrightarrow> e = Illegal w"
  by (auto simp: decode_def Let_def split: if_splits option.splits)

subsection \<open>The register file's contract\<close>

text \<open>
  What the CPU relies on: reading and writing a valid register never fails, and a read sees the
  last write to that register, except that the zero register reads 0 for ever. The laws of a whole
  sequence of writes are proved from the contract.
\<close>

locale register_bank =
  fixes get :: "'f \<Rightarrow> 'r \<Rightarrow> 'v option"
    and put :: "'f \<Rightarrow> 'r \<Rightarrow> 'v \<Rightarrow> 'f option"
    and invar :: "'f \<Rightarrow> bool"
    and valid :: "'r \<Rightarrow> bool"
    and zero :: 'r
    and zero_val :: 'v
  assumes put_ok: "invar f \<Longrightarrow> valid r \<Longrightarrow> \<exists>f'. put f r v = Some f' \<and> invar f'"
    and get_ok: "invar f \<Longrightarrow> valid r \<Longrightarrow> \<exists>v. get f r = Some v"
    and get_zero: "invar f \<Longrightarrow> get f zero = Some zero_val"
    and get_put: "invar f \<Longrightarrow> valid r \<Longrightarrow> valid s \<Longrightarrow> put f r v = Some f' \<Longrightarrow>
      get f' s = (if s = r \<and> r \<noteq> zero then Some v else get f s)"
begin

fun writes :: "'f \<Rightarrow> ('r \<times> 'v) list \<Rightarrow> 'f option" where
  "writes f [] = Some f"
| "writes f ((r, v) # ws) = (case put f r v of None \<Rightarrow> None | Some f' \<Rightarrow> writes f' ws)"

lemma writes_ok:
  "invar f \<Longrightarrow> (\<forall>(r, v) \<in> set ws. valid r) \<Longrightarrow> \<exists>f'. writes f ws = Some f' \<and> invar f'"
proof (induction f ws rule: writes.induct)
  case (2 f r v ws)
  then obtain f' where "put f r v = Some f'" "invar f'" using put_ok by fastforce
  with 2 show ?case by auto
qed simp

lemma get_writes:
  "invar f \<Longrightarrow> (\<forall>(r, v) \<in> set ws. valid r) \<Longrightarrow> valid s \<Longrightarrow> writes f ws = Some f' \<Longrightarrow>
     get f' s = (if s = zero then Some zero_val
       else case map_of (rev ws) s of Some v \<Rightarrow> Some v | None \<Rightarrow> get f s)"
proof (induction f ws rule: writes.induct)
  case (1 f)
  then show ?case by (auto simp: get_zero)
next
  case (2 f r v ws)
  then obtain g where g: "put f r v = Some g" "invar g" using put_ok by fastforce
  with 2 have "get f' s = (if s = zero then Some zero_val
       else case map_of (rev ws) s of Some v \<Rightarrow> Some v | None \<Rightarrow> get g s)" by auto
  moreover have "get g s = (if s = r \<and> r \<noteq> zero then Some v else get f s)"
    using 2 g by (intro get_put [where f = f]) auto
  ultimately show ?case by (auto simp: map_add_def split: option.splits)
qed

end

definition wf_regfile :: "RegisterFile \<Rightarrow> bool" where
  "wf_regfile rf \<longleftrightarrow> length (xregs rf) = 31"

lemma reg_index_inject: "unat (reg_index r) = unat (reg_index s) \<longleftrightarrow> r = s"
  by (cases r; cases s) (simp flip: word_unat_eq_iff)

interpretation rf: register_bank regfile_read regfile_write wf_regfile wf_reg Reg_ZERO 0
proof unfold_locales
  fix f r v s f'
  assume inv: "wf_regfile f"
  show "wf_reg r \<Longrightarrow> \<exists>f'. regfile_write f r v = Some f' \<and> wf_regfile f'"
    using inv by (auto simp: regfile_write_def wf_regfile_def wf_reg_def split: nat.splits)
  show "wf_reg r \<Longrightarrow> \<exists>v. regfile_read f r = Some v"
    using inv by (auto simp: regfile_read_def wf_regfile_def wf_reg_def split: nat.splits)
  show "regfile_read f Reg_ZERO = Some 0"
    by (simp add: regfile_read_def Reg_ZERO_def)
  show "wf_reg r \<Longrightarrow> wf_reg s \<Longrightarrow> regfile_write f r v = Some f' \<Longrightarrow>
      regfile_read f' s = (if s = r \<and> r \<noteq> Reg_ZERO then Some v else regfile_read f s)"
    using reg_index_inject [of s r] reg_index_inject [of r Reg_ZERO]
    by (auto simp: regfile_read_def regfile_write_def Reg_ZERO_def nth_list_update
        split: nat.splits if_splits)
qed

text \<open>The writes of a program, in order.\<close>

fun regfile_writes :: "RegisterFile \<Rightarrow> (Reg \<times> u32) list \<Rightarrow> RegisterFile option" where
  "regfile_writes f [] = Some f"
| "regfile_writes f ((r, v) # ws) =
     (case regfile_write f r v of None \<Rightarrow> None | Some f' \<Rightarrow> regfile_writes f' ws)"

lemma regfile_writes_eq: "regfile_writes f ws = rf.writes f ws"
  by (induction f ws rule: regfile_writes.induct) (auto split: option.splits)

lemma wf_RegisterFile_new [simp]: "wf_regfile RegisterFile_new"
  by (simp add: wf_regfile_def RegisterFile_new_def)

text \<open>
  From reset, any sequence of writes to valid registers succeeds (no index panics), and
  afterwards \<open>x0\<close> reads 0 and every other register reads the value last written to it, or 0.
\<close>

theorem regfile_last_write:
  assumes "\<forall>(r, v) \<in> set ws. wf_reg r" and "wf_reg s"
  shows "\<exists>f. regfile_writes RegisterFile_new ws = Some f \<and>
    regfile_read f s =
      Some (if s = Reg_ZERO then 0 else case map_of (rev ws) s of Some v \<Rightarrow> v | None \<Rightarrow> 0)"
proof -
  obtain f where f: "regfile_writes RegisterFile_new ws = Some f"
    using rf.writes_ok [OF _ assms(1), of RegisterFile_new] by (auto simp: regfile_writes_eq)
  have "regfile_read RegisterFile_new s = Some 0"
    using assms(2) by (auto simp: regfile_read_def RegisterFile_new_def wf_reg_def split: nat.splits)
  with rf.get_writes [OF _ assms, of RegisterFile_new f] f show ?thesis
    by (auto simp: regfile_writes_eq split: option.splits)
qed

theorem regfile_last_write_witness:
  "\<exists>f. regfile_writes RegisterFile_new [(Reg 0, 7), (Reg 31, 1), (Reg 31, 2)] = Some f \<and>
     regfile_read f (Reg 31) = Some 2"
  using regfile_last_write [of "[(Reg 0, 7), (Reg 31, 1), (Reg 31, 2)]" "Reg 31"]
  by (simp add: wf_reg_def Reg_ZERO_def)

end
