(* ===== verification/Rv32_Encode.thy ===== *)
theory Rv32_Encode
  imports Rv32_Instr
begin

section \<open>The instruction formats as an encoder, and the decoder's round trips\<close>

text \<open>
  The decoder's specification: \<open>encode\<close> lays an instruction out in the RV32I base formats
  (R, I, S, B, U, J). It is written from the formats, not from the decoder. Decoding an encoded
  well-formed instruction gives it back, and a word that decodes to anything but \<open>Fence\<close> is the
  encoding of what it decodes to, so the decoder accepts each instruction in exactly one encoding.
\<close>

subsection \<open>The six fields of a word\<close>

definition fits :: "nat \<Rightarrow> u32 \<Rightarrow> bool" where
  "fits k w \<longleftrightarrow> (\<forall>n. bit w n \<longrightarrow> n < k)"

definition fmt :: "u32 \<Rightarrow> u32 \<Rightarrow> u32 \<Rightarrow> u32 \<Rightarrow> u32 \<Rightarrow> u32 \<Rightarrow> u32" where
  "fmt f7 r2 r1 f3 d opc =
     push_bit 25 f7 OR push_bit 20 r2 OR push_bit 15 r1 OR push_bit 12 f3 OR push_bit 7 d OR opc"

definition fmt_ok :: "u32 \<Rightarrow> u32 \<Rightarrow> u32 \<Rightarrow> u32 \<Rightarrow> u32 \<Rightarrow> u32 \<Rightarrow> bool" where
  "fmt_ok f7 r2 r1 f3 d opc \<longleftrightarrow>
     fits 7 f7 \<and> fits 5 r2 \<and> fits 5 r1 \<and> fits 3 f3 \<and> fits 5 d \<and> fits 7 opc"

lemma fitsI: "unat w < 2 ^ k \<Longrightarrow> fits k w"
  using bit_of_unat_less by (auto simp: fits_def)

lemma fits_mask [simp]: "fits k (w AND mask k)"
  by (auto simp: fits_def bit_simps)

lemma fits_or: "fits k v \<Longrightarrow> fits k w \<Longrightarrow> fits k (v OR w)"
  by (auto simp: fits_def bit_simps)

lemma fits_drop25 [simp]: "fits 7 (drop_bit 25 w)"
  by (auto simp: fits_def bit_simps dest: bit_word_high)

lemma bit_fmt:
  assumes "fmt_ok f7 r2 r1 f3 d opc" and "n < 32"
  shows "bit (fmt f7 r2 r1 f3 d opc) n =
    (if n < 7 then bit opc n else if n < 12 then bit d (n - 7) else if n < 15 then bit f3 (n - 12)
     else if n < 20 then bit r1 (n - 15) else if n < 25 then bit r2 (n - 20) else bit f7 (n - 25))"
proof -
  have none: "7 \<le> m \<Longrightarrow> \<not> bit opc m" "5 \<le> m \<Longrightarrow> \<not> bit d m" "3 \<le> m \<Longrightarrow> \<not> bit f3 m"
    "5 \<le> m \<Longrightarrow> \<not> bit r1 m" "5 \<le> m \<Longrightarrow> \<not> bit r2 m" for m
    using assms(1) by (auto simp: fmt_ok_def fits_def)
  consider "n < 7" | "7 \<le> n" "n < 12" | "12 \<le> n" "n < 15" | "15 \<le> n" "n < 20"
    | "20 \<le> n" "n < 25" | "25 \<le> n" by fastforce
  then show ?thesis
    by cases (use assms(2) in \<open>simp_all only: fmt_def bits_simps, simp_all add: none\<close>)
qed

lemma fmt_fields:
  assumes "fmt_ok f7 r2 r1 f3 d opc"
  shows "fmt f7 r2 r1 f3 d opc AND mask 7 = opc"
    and "drop_bit 7 (fmt f7 r2 r1 f3 d opc) AND mask 5 = d"
    and "drop_bit 12 (fmt f7 r2 r1 f3 d opc) AND mask 3 = f3"
    and "drop_bit 15 (fmt f7 r2 r1 f3 d opc) AND mask 5 = r1"
    and "drop_bit 20 (fmt f7 r2 r1 f3 d opc) AND mask 5 = r2"
    and "drop_bit 25 (fmt f7 r2 r1 f3 d opc) = f7"
proof -
  have "bit (fmt f7 r2 r1 f3 d opc) (25 + n) = bit f7 n" for n
    using assms bit_fmt [OF assms, of "25 + n"]
    by (cases "n < 7") (auto simp: fmt_ok_def fits_def dest: bit_word_high)
  then show "drop_bit 25 (fmt f7 r2 r1 f3 d opc) = f7"
    by (intro bit_word_eqI) (simp add: bits_simps)
qed (use assms in \<open>auto intro!: bit_word_eqI simp: bits_simps bit_fmt [OF assms] fmt_ok_def fits_def\<close>)

lemma fmt_of_fields:
  "fmt (drop_bit 25 w) (drop_bit 20 w AND mask 5) (drop_bit 15 w AND mask 5)
     (drop_bit 12 w AND mask 3) (drop_bit 7 w AND mask 5) (w AND mask 7) = w"
proof (rule bit_word_eqI)
  fix n assume "n < LENGTH(32)"
  then have n: "n < 32" by simp
  have ok: "fmt_ok (drop_bit 25 w) (drop_bit 20 w AND mask 5) (drop_bit 15 w AND mask 5)
     (drop_bit 12 w AND mask 3) (drop_bit 7 w AND mask 5) (w AND mask 7)"
    by (simp add: fmt_ok_def)
  show "bit (fmt (drop_bit 25 w) (drop_bit 20 w AND mask 5) (drop_bit 15 w AND mask 5)
     (drop_bit 12 w AND mask 3) (drop_bit 7 w AND mask 5) (w AND mask 7)) n = bit w n"
    by (simp only: bit_fmt [OF ok n] bits_simps) (use n in auto)
qed

subsection \<open>The encoder\<close>

definition reg_bits :: "Reg \<Rightarrow> u32" where
  "reg_bits r = ucast (reg_index r)"

definition fmt_i :: "i32 \<Rightarrow> Reg \<Rightarrow> u32 \<Rightarrow> Reg \<Rightarrow> u32 \<Rightarrow> u32" where
  "fmt_i v s1 f3 d opc =
     fmt (drop_bit 5 v AND mask 7) (v AND mask 5) (reg_bits s1) f3 (reg_bits d) opc"

definition fmt_s :: "i32 \<Rightarrow> Reg \<Rightarrow> Reg \<Rightarrow> u32 \<Rightarrow> u32 \<Rightarrow> u32" where
  "fmt_s v s2 s1 f3 opc =
     fmt (drop_bit 5 v AND mask 7) (reg_bits s2) (reg_bits s1) f3 (v AND mask 5) opc"

definition fmt_b :: "i32 \<Rightarrow> Reg \<Rightarrow> Reg \<Rightarrow> u32 \<Rightarrow> u32 \<Rightarrow> u32" where
  "fmt_b v s2 s1 f3 opc =
     fmt (push_bit 6 (drop_bit 12 v AND mask 1) OR (drop_bit 5 v AND mask 6))
       (reg_bits s2) (reg_bits s1) f3
       (push_bit 1 (drop_bit 1 v AND mask 4) OR (drop_bit 11 v AND mask 1)) opc"

definition fmt_u :: "u32 \<Rightarrow> Reg \<Rightarrow> u32 \<Rightarrow> u32" where
  "fmt_u v d opc =
     fmt (drop_bit 25 v) (drop_bit 20 v AND mask 5) (drop_bit 15 v AND mask 5)
       (drop_bit 12 v AND mask 3) (reg_bits d) opc"

definition fmt_j :: "i32 \<Rightarrow> Reg \<Rightarrow> u32 \<Rightarrow> u32" where
  "fmt_j v d opc =
     fmt (push_bit 6 (drop_bit 20 v AND mask 1) OR (drop_bit 5 v AND mask 6))
       (push_bit 1 (drop_bit 1 v AND mask 4) OR (drop_bit 11 v AND mask 1))
       (drop_bit 15 v AND mask 5) (drop_bit 12 v AND mask 3) (reg_bits d) opc"

fun branch_funct3 :: "BranchOp \<Rightarrow> u32" where
  "branch_funct3 BranchEq = 0" | "branch_funct3 BranchNe = 1" | "branch_funct3 BranchLt = 4"
| "branch_funct3 BranchGe = 5" | "branch_funct3 BranchLtu = 6" | "branch_funct3 BranchGeu = 7"

fun load_funct3 :: "LoadOp \<Rightarrow> u32" where
  "load_funct3 LoadB = 0" | "load_funct3 LoadH = 1" | "load_funct3 LoadW = 2"
| "load_funct3 LoadBu = 4" | "load_funct3 LoadHu = 5"

fun store_funct3 :: "StoreOp \<Rightarrow> u32" where
  "store_funct3 StoreB = 0" | "store_funct3 StoreH = 1" | "store_funct3 StoreW = 2"

fun imm_funct3 :: "ImmOp \<Rightarrow> u32" where
  "imm_funct3 Addi = 0" | "imm_funct3 Slti = 2" | "imm_funct3 Sltiu = 3"
| "imm_funct3 Xori = 4" | "imm_funct3 Ori = 6" | "imm_funct3 Andi = 7"

fun shift_functs :: "ShiftOp \<Rightarrow> u32 \<times> u32" where
  "shift_functs ShiftSll = (0, 1)" | "shift_functs ShiftSrl = (0, 5)"
| "shift_functs ShiftSra = (0x20, 5)"

fun reg_functs :: "RegOp \<Rightarrow> u32 \<times> u32" where
  "reg_functs RegAdd = (0, 0)" | "reg_functs RegSub = (0x20, 0)" | "reg_functs RegSll = (0, 1)"
| "reg_functs RegSlt = (0, 2)" | "reg_functs RegSltu = (0, 3)" | "reg_functs RegXor = (0, 4)"
| "reg_functs RegSrl = (0, 5)" | "reg_functs RegSra = (0x20, 5)" | "reg_functs RegOr = (0, 6)"
| "reg_functs RegAnd = (0, 7)"

fun encode :: "Instr \<Rightarrow> u32" where
  "encode (Lui d v) = fmt_u v d OPC_LUI"
| "encode (Auipc d v) = fmt_u v d OPC_AUIPC"
| "encode (Jal d off) = fmt_j off d OPC_JAL"
| "encode (Jalr d s1 off) = fmt_i off s1 0 d OPC_JALR"
| "encode (Branch bop s1 s2 off) = fmt_b off s2 s1 (branch_funct3 bop) OPC_BRANCH"
| "encode (Load lop d s1 off) = fmt_i off s1 (load_funct3 lop) d OPC_LOAD"
| "encode (Store sop s1 s2 off) = fmt_s off s2 s1 (store_funct3 sop) OPC_STORE"
| "encode (OpImm iop d s1 v) = fmt_i v s1 (imm_funct3 iop) d OPC_OP_IMM"
| "encode (ShiftImm shop d s1 sh) =
     fmt (fst (shift_functs shop)) sh (reg_bits s1) (snd (shift_functs shop)) (reg_bits d) OPC_OP_IMM"
| "encode (Op rop d s1 s2) =
     fmt (fst (reg_functs rop)) (reg_bits s2) (reg_bits s1) (snd (reg_functs rop)) (reg_bits d) OPC_OP"
| "encode Fence = OPC_MISC_MEM"
| "encode Ecall = WORD_ECALL"
| "encode Ebreak = WORD_EBREAK"

subsection \<open>Fields and immediates of an encoded instruction\<close>

lemma fits_reg_bits [simp]: "wf_reg r \<Longrightarrow> fits 5 (reg_bits r)"
  by (rule fitsI) (simp add: wf_reg_def reg_bits_def unsigned_ucast_eq take_bit_nat_eq_self)

lemma reg_of_bits [simp]: "Reg (ucast (reg_bits r)) = r"
  by (cases r) (auto intro!: bit_word_eqI simp: reg_bits_def bits_simps)

lemma reg_bits_field [simp]: "reg_bits (Reg_field w k) = drop_bit k w AND mask 5"
  by (auto intro!: bit_word_eqI simp: reg_bits_def Reg_field_def mask_numerals bits_simps)

lemma fits_funct3 [simp]:
  shows "fits 3 (branch_funct3 bop)" and "fits 3 (load_funct3 lop)" and "fits 3 (store_funct3 sop)"
    and "fits 3 (imm_funct3 iop)" and "fits 3 (snd (shift_functs shop))"
    and "fits 3 (snd (reg_functs rop))" and "fits 7 (fst (shift_functs shop))"
    and "fits 7 (fst (reg_functs rop))" and "fits 3 0"
  by (cases bop, simp_all add: fitsI, cases lop, simp_all add: fitsI, cases sop, simp_all add: fitsI,
      cases iop, simp_all add: fitsI, cases shop, simp_all add: fitsI, cases rop, simp_all add: fitsI,
      cases shop, simp_all add: fitsI, cases rop, simp_all add: fitsI)

lemma fits_opc [simp]:
  "fits 7 OPC_LUI" "fits 7 OPC_AUIPC" "fits 7 OPC_JAL" "fits 7 OPC_JALR" "fits 7 OPC_BRANCH"
  "fits 7 OPC_LOAD" "fits 7 OPC_STORE" "fits 7 OPC_OP_IMM" "fits 7 OPC_OP"
  by (rule fitsI; simp add: opcode_defs)+

lemma fits_split_fields [simp]:
  "fits 7 (push_bit 6 (v AND mask 1) OR (w AND mask 6))"
  "fits 5 (push_bit 1 (v AND mask 4) OR (w AND mask 1))"
  unfolding fits_def by (simp only: bits_simps; auto)+

lemma imm_i_fmt:
  assumes "simm_range 11 v" "fits 5 r1" "fits 3 f3" "fits 5 d" "fits 7 opc"
  shows "imm_i (fmt (drop_bit 5 v AND mask 7) (v AND mask 5) r1 f3 d opc) = v"
proof (rule bit_word_eqI)
  fix n assume n: "n < LENGTH(32)"
  have ok: "fmt_ok (drop_bit 5 v AND mask 7) (v AND mask 5) r1 f3 d opc"
    using assms by (simp add: fmt_ok_def)
  have sign: "bit v 11 = bit v 31" by (rule simm_range_bits [OF assms(1)]) simp_all
  show "bit (imm_i (fmt (drop_bit 5 v AND mask 7) (v AND mask 5) r1 f3 d opc)) n = bit v n"
    using n simm_range_bits [OF assms(1), of n] sign
    by (cases "11 \<le> n")
      (auto simp: imm_i_def bits_simps min_def bit_fmt [OF ok])
qed

lemma imm_s_fmt:
  assumes "simm_range 11 v" "fits 5 r2" "fits 5 r1" "fits 3 f3" "fits 7 opc"
  shows "imm_s (fmt (drop_bit 5 v AND mask 7) r2 r1 f3 (v AND mask 5) opc) = v"
proof (rule bit_word_eqI)
  fix n assume n: "n < LENGTH(32)"
  have ok: "fmt_ok (drop_bit 5 v AND mask 7) r2 r1 f3 (v AND mask 5) opc"
    using assms by (simp add: fmt_ok_def)
  have sign: "bit v 11 = bit v 31" by (rule simm_range_bits [OF assms(1)]) simp_all
  show "bit (imm_s (fmt (drop_bit 5 v AND mask 7) r2 r1 f3 (v AND mask 5) opc)) n = bit v n"
    using n simm_range_bits [OF assms(1), of n] sign
    by (cases "11 \<le> n"; cases "5 \<le> n")
      (auto simp: imm_s_def mask_numerals bits_simps min_def bit_fmt [OF ok])
qed

lemma imm_b_fmt:
  fixes v r2 r1 f3 opc :: u32
  assumes "simm_range 12 v" "\<not> bit v 0" "fits 5 r2" "fits 5 r1" "fits 3 f3" "fits 7 opc"
  defines "w \<equiv> fmt (push_bit 6 (drop_bit 12 v AND mask 1) OR (drop_bit 5 v AND mask 6)) r2 r1 f3
      (push_bit 1 (drop_bit 1 v AND mask 4) OR (drop_bit 11 v AND mask 1)) opc"
  shows "imm_b w = v"
proof (rule bit_word_eqI)
  fix n assume "n < LENGTH(32)"
  then have n: "n < 32" by simp
  have ok: "fmt_ok (push_bit 6 (drop_bit 12 v AND mask 1) OR (drop_bit 5 v AND mask 6)) r2 r1 f3
      (push_bit 1 (drop_bit 1 v AND mask 4) OR (drop_bit 11 v AND mask 1)) opc"
    unfolding fmt_ok_def by (intro conjI fits_split_fields fits_mask assms)
  have w31: "bit w 31 = bit v 12" using bit_fmt [OF ok, of 31] by (simp only: w_def bits_simps) auto
  have w7: "bit w 7 = bit v 11" using bit_fmt [OF ok, of 7] by (simp only: w_def bits_simps) auto
  have w25: "bit w (20 + k) = bit v k" if "5 \<le> k" "k < 11" for k
    using bit_fmt [OF ok, of "20 + k"] that by (simp only: w_def bits_simps) auto
  have w8: "bit w (7 + k) = bit v k" if "1 \<le> k" "k < 5" for k
    using bit_fmt [OF ok, of "7 + k"] that by (simp only: w_def bits_simps) auto
  note w = w31 w7 w25 w8
  consider "n = 0" | "1 \<le> n" "n < 5" | "5 \<le> n" "n < 11" | "n = 11" | "n = 12" | "12 < n" by fastforce
  then show "bit (imm_b w) n = bit v n"
    using n assms(2) w simm_range_bits [OF assms(1), of n] simm_range_bits [OF assms(1), of 12]
    by cases (simp_all only: imm_b_def mask_numerals bits_simps, auto simp: min_def)
qed

lemma imm_u_fmt:
  assumes "v AND 0xfff = 0" "fits 5 d" "fits 7 opc"
  shows "imm_u (fmt (drop_bit 25 v) (drop_bit 20 v AND mask 5) (drop_bit 15 v AND mask 5)
       (drop_bit 12 v AND mask 3) d opc) = v"
proof (rule bit_word_eqI)
  fix n assume "n < LENGTH(32)"
  then have n: "n < 32" by simp
  let ?w = "fmt (drop_bit 25 v) (drop_bit 20 v AND mask 5) (drop_bit 15 v AND mask 5)
       (drop_bit 12 v AND mask 3) d opc"
  have ok: "fmt_ok (drop_bit 25 v) (drop_bit 20 v AND mask 5) (drop_bit 15 v AND mask 5)
       (drop_bit 12 v AND mask 3) d opc"
    using assms by (simp add: fmt_ok_def)
  have low: "\<not> bit v n" if "n < 12"
  proof -
    have "\<not> bit (v AND mask 12) n" using assms(1) by (simp add: mask_numerals)
    with that show ?thesis by (simp add: bits_simps)
  qed
  have "(0xfffff000 :: u32) = push_bit 12 (mask 20)"
    by (simp add: mask_eq_exp_minus_1 push_bit_eq_mult)
  then have "bit (imm_u ?w) n \<longleftrightarrow> bit ?w n \<and> 12 \<le> n"
    using n by (simp only: imm_u_def bits_simps) auto
  also have "\<dots> = bit v n"
    using n low by (simp only: bit_fmt [OF ok n] bits_simps) auto
  finally show "bit (imm_u ?w) n = bit v n" .
qed

lemma imm_j_fmt:
  fixes v d opc :: u32
  assumes "simm_range 20 v" "\<not> bit v 0" "fits 5 d" "fits 7 opc"
  defines "w \<equiv> fmt (push_bit 6 (drop_bit 20 v AND mask 1) OR (drop_bit 5 v AND mask 6))
       (push_bit 1 (drop_bit 1 v AND mask 4) OR (drop_bit 11 v AND mask 1))
       (drop_bit 15 v AND mask 5) (drop_bit 12 v AND mask 3) d opc"
  shows "imm_j w = v"
proof (rule bit_word_eqI)
  fix n assume "n < LENGTH(32)"
  then have n: "n < 32" by simp
  have ok: "fmt_ok (push_bit 6 (drop_bit 20 v AND mask 1) OR (drop_bit 5 v AND mask 6))
       (push_bit 1 (drop_bit 1 v AND mask 4) OR (drop_bit 11 v AND mask 1))
       (drop_bit 15 v AND mask 5) (drop_bit 12 v AND mask 3) d opc"
    unfolding fmt_ok_def by (intro conjI fits_split_fields fits_mask assms)
  have w31: "bit w 31 = bit v 20" using bit_fmt [OF ok, of 31] by (simp only: w_def bits_simps) auto
  have w20: "bit w 20 = bit v 11" using bit_fmt [OF ok, of 20] by (simp only: w_def bits_simps) auto
  have w12: "bit w k = bit v k" if "12 \<le> k" "k < 20" for k
    using bit_fmt [OF ok, of k] that by (simp only: w_def bits_simps) auto
  have w25: "bit w (20 + k) = bit v k" if "5 \<le> k" "k < 11" for k
    using bit_fmt [OF ok, of "20 + k"] that by (simp only: w_def bits_simps) auto
  have w21: "bit w (20 + k) = bit v k" if "1 \<le> k" "k < 5" for k
    using bit_fmt [OF ok, of "20 + k"] that by (simp only: w_def bits_simps) auto
  note w = w31 w20 w12 w25 w21
  consider "n = 0" | "1 \<le> n" "n < 5" | "5 \<le> n" "n < 11" | "n = 11" | "12 \<le> n" "n < 20" | "n = 20" | "20 < n"
    by fastforce
  then show "bit (imm_j w) n = bit v n"
    using n assms(2) w simm_range_bits [OF assms(1), of n] simm_range_bits [OF assms(1), of 20]
    by cases (simp_all only: imm_j_def bit_or_iff bit_imm_j_mid,
        simp_all only: mask_numerals bits_simps, auto simp: min_def)
qed

subsection \<open>The decoder on a word given by its fields\<close>

lemma decode_fmt:
  assumes ok: "fmt_ok f7 r2 r1 f3 d opc" and w: "w = fmt f7 r2 r1 f3 d opc"
  shows "decode w =
     (if opc = OPC_LUI then Ok (Lui (Reg (ucast d)) (imm_u w))
      else if opc = OPC_AUIPC then Ok (Auipc (Reg (ucast d)) (imm_u w))
      else if opc = OPC_JAL then Ok (Jal (Reg (ucast d)) (imm_j w))
      else if opc = OPC_JALR \<and> f3 = 0 then Ok (Jalr (Reg (ucast d)) (Reg (ucast r1)) (imm_i w))
      else if opc = OPC_BRANCH then
        (case decode_branch_op f3 of
           None \<Rightarrow> Err (Illegal w)
         | Some bop \<Rightarrow> Ok (Branch bop (Reg (ucast r1)) (Reg (ucast r2)) (imm_b w)))
      else if opc = OPC_LOAD then
        (case decode_load_op f3 of
           None \<Rightarrow> Err (Illegal w)
         | Some lop \<Rightarrow> Ok (Load lop (Reg (ucast d)) (Reg (ucast r1)) (imm_i w)))
      else if opc = OPC_STORE then
        (case decode_store_op f3 of
           None \<Rightarrow> Err (Illegal w)
         | Some sop \<Rightarrow> Ok (Store sop (Reg (ucast r1)) (Reg (ucast r2)) (imm_s w)))
      else if opc = OPC_OP_IMM then
        (case decode_imm_op f3 of
           Some iop \<Rightarrow> Ok (OpImm iop (Reg (ucast d)) (Reg (ucast r1)) (imm_i w))
         | None \<Rightarrow>
             (case decode_shift_op f3 f7 of
                None \<Rightarrow> Err (Illegal w)
              | Some shop \<Rightarrow> Ok (ShiftImm shop (Reg (ucast d)) (Reg (ucast r1)) r2)))
      else if opc = OPC_OP then
        (case decode_reg_op f7 f3 of
           None \<Rightarrow> Err (Illegal w)
         | Some rop \<Rightarrow> Ok (Op rop (Reg (ucast d)) (Reg (ucast r1)) (Reg (ucast r2))))
      else if opc = OPC_MISC_MEM \<and> f3 = 0 then Ok Fence
      else if opc = OPC_SYSTEM \<and> w = WORD_ECALL then Ok Ecall
      else if opc = OPC_SYSTEM \<and> w = WORD_EBREAK then Ok Ebreak
      else Err (Illegal w))"
  using fmt_fields [OF ok, folded w]
  by (simp only: decode_def Let_def Reg_field_def mask_numerals)

lemmas decode_op_defs = decode_branch_op_def decode_load_op_def decode_store_op_def
  decode_imm_op_def decode_shift_op_def decode_reg_op_def

lemma decode_op_functs [simp]:
  "decode_branch_op (branch_funct3 bop) = Some bop"
  "decode_load_op (load_funct3 lop) = Some lop"
  "decode_store_op (store_funct3 sop) = Some sop"
  "decode_imm_op (imm_funct3 iop) = Some iop"
  "decode_imm_op (snd (shift_functs shop)) = None"
  "decode_shift_op (snd (shift_functs shop)) (fst (shift_functs shop)) = Some shop"
  "decode_reg_op (fst (reg_functs rop)) (snd (reg_functs rop)) = Some rop"
  unfolding decode_op_defs opcode_defs
  by (cases bop, simp_all, cases lop, simp_all, cases sop, simp_all, cases iop, simp_all,
      cases shop, simp_all, cases shop, simp_all, cases rop, simp_all)

lemma fmt_u_ok: "wf_reg d \<Longrightarrow> fits 7 opc \<Longrightarrow>
    fmt_ok (drop_bit 25 v) (drop_bit 20 v AND mask 5) (drop_bit 15 v AND mask 5)
       (drop_bit 12 v AND mask 3) (reg_bits d) opc"
  by (simp add: fmt_ok_def)

lemma fmt_j_ok: "wf_reg d \<Longrightarrow> fits 7 opc \<Longrightarrow>
    fmt_ok (push_bit 6 (drop_bit 20 v AND mask 1) OR (drop_bit 5 v AND mask 6))
       (push_bit 1 (drop_bit 1 v AND mask 4) OR (drop_bit 11 v AND mask 1))
       (drop_bit 15 v AND mask 5) (drop_bit 12 v AND mask 3) (reg_bits d) opc"
  unfolding fmt_ok_def by (intro conjI fits_split_fields fits_mask fits_reg_bits)

lemma fmt_b_ok: "wf_reg s1 \<Longrightarrow> wf_reg s2 \<Longrightarrow> fits 3 f3 \<Longrightarrow> fits 7 opc \<Longrightarrow>
    fmt_ok (push_bit 6 (drop_bit 12 v AND mask 1) OR (drop_bit 5 v AND mask 6))
       (reg_bits s2) (reg_bits s1) f3
       (push_bit 1 (drop_bit 1 v AND mask 4) OR (drop_bit 11 v AND mask 1)) opc"
  unfolding fmt_ok_def by (intro conjI fits_split_fields fits_mask fits_reg_bits)

lemma fmt_i_ok: "wf_reg s1 \<Longrightarrow> wf_reg d \<Longrightarrow> fits 3 f3 \<Longrightarrow> fits 7 opc \<Longrightarrow>
    fmt_ok (drop_bit 5 v AND mask 7) (v AND mask 5) (reg_bits s1) f3 (reg_bits d) opc"
  by (simp add: fmt_ok_def)

lemma fmt_s_ok: "wf_reg s1 \<Longrightarrow> wf_reg s2 \<Longrightarrow> fits 3 f3 \<Longrightarrow> fits 7 opc \<Longrightarrow>
    fmt_ok (drop_bit 5 v AND mask 7) (reg_bits s2) (reg_bits s1) f3 (v AND mask 5) opc"
  by (simp add: fmt_ok_def)

lemmas decode_formats =
  decode_fmt [OF fmt_u_ok fmt_u_def] decode_fmt [OF fmt_j_ok fmt_j_def]
  decode_fmt [OF fmt_b_ok fmt_b_def] decode_fmt [OF fmt_i_ok fmt_i_def]
  decode_fmt [OF fmt_s_ok fmt_s_def] decode_fmt [OF _ refl]

lemma imm_formats:
  "v AND 0xfff = 0 \<Longrightarrow> wf_reg d \<Longrightarrow> fits 7 opc \<Longrightarrow> imm_u (fmt_u v d opc) = v"
  "simm_range 20 v \<Longrightarrow> \<not> bit v 0 \<Longrightarrow> wf_reg d \<Longrightarrow> fits 7 opc \<Longrightarrow> imm_j (fmt_j v d opc) = v"
  "simm_range 12 v \<Longrightarrow> \<not> bit v 0 \<Longrightarrow> wf_reg s1 \<Longrightarrow> wf_reg s2 \<Longrightarrow> fits 3 f3 \<Longrightarrow> fits 7 opc \<Longrightarrow>
     imm_b (fmt_b v s2 s1 f3 opc) = v"
  "simm_range 11 v \<Longrightarrow> wf_reg s1 \<Longrightarrow> wf_reg d \<Longrightarrow> fits 3 f3 \<Longrightarrow> fits 7 opc \<Longrightarrow>
     imm_i (fmt_i v s1 f3 d opc) = v"
  "simm_range 11 v \<Longrightarrow> wf_reg s1 \<Longrightarrow> wf_reg s2 \<Longrightarrow> fits 3 f3 \<Longrightarrow> fits 7 opc \<Longrightarrow>
     imm_s (fmt_s v s2 s1 f3 opc) = v"
  unfolding fmt_u_def fmt_j_def fmt_b_def fmt_i_def fmt_s_def
  by - (rule imm_u_fmt imm_j_fmt imm_b_fmt imm_i_fmt imm_s_fmt; (assumption | rule fits_reg_bits)+)+

lemma fits_shamt: "unat sh < 32 \<Longrightarrow> fits 5 sh"
  by (rule fitsI) simp

lemma opcodes_distinct:
  "distinct [OPC_LUI, OPC_AUIPC, OPC_JAL, OPC_JALR, OPC_BRANCH, OPC_LOAD, OPC_STORE, OPC_OP_IMM,
     OPC_OP, OPC_MISC_MEM, OPC_SYSTEM]"
  by (simp add: opcode_defs)

lemma opcodes_distinct_rev:
  "distinct [OPC_SYSTEM, OPC_MISC_MEM, OPC_OP, OPC_OP_IMM, OPC_STORE, OPC_LOAD, OPC_BRANCH, OPC_JALR,
     OPC_JAL, OPC_AUIPC, OPC_LUI]"
  by (simp add: opcode_defs)

lemmas opcodes_neq = opcodes_distinct [unfolded distinct.simps list.set, simplified]
  opcodes_distinct_rev [unfolded distinct.simps list.set, simplified]

lemma decode_encode_aux: "wf_instr i \<Longrightarrow> decode (encode i) = Ok i"
proof (induction i rule: wf_instr.induct)
  case (11)
  then show ?case by (simp add: decode_def opcode_defs Let_def)
next
  case (12)
  then show ?case by (simp add: decode_def opcode_defs Let_def)
next
  case (13)
  then show ?case by (simp add: decode_def opcode_defs Let_def)
qed (simp_all add: decode_formats imm_formats fmt_ok_def fits_shamt opcodes_neq)

subsection \<open>A decoded word is the encoding of its instruction\<close>

lemma opcode_of_mask: "w AND 0x7f = (w AND mask 7 :: u32)"
  by (simp add: mask_numerals)

lemma fmt_i_of_word:
  "fmt_i (imm_i w) (Reg_field w 15) (drop_bit 12 w AND mask 3) (Reg_field w 7) (w AND mask 7) = w"
proof -
  have "drop_bit 5 (imm_i w) AND mask 7 = drop_bit 25 w"
    by (rule bit_word_eqI) (simp only: imm_i_def bits_simps, auto simp: min_def dest: bit_word_high)
  moreover have "imm_i w AND mask 5 = drop_bit 20 w AND mask 5"
    by (rule bit_word_eqI) (simp only: imm_i_def bits_simps, auto simp: min_def)
  ultimately show ?thesis unfolding fmt_i_def reg_bits_field by (simp only: fmt_of_fields)
qed

lemma fmt_s_of_word:
  "fmt_s (imm_s w) (Reg_field w 20) (Reg_field w 15) (drop_bit 12 w AND mask 3) (w AND mask 7) = w"
proof -
  have "drop_bit 5 (imm_s w) AND mask 7 = drop_bit 25 w"
    by (rule bit_word_eqI)
      (simp only: imm_s_def mask_numerals bits_simps, auto simp: min_def dest: bit_word_high)
  moreover have "imm_s w AND mask 5 = drop_bit 7 w AND mask 5"
    by (rule bit_word_eqI) (simp only: imm_s_def mask_numerals bits_simps, auto simp: min_def)
  ultimately show ?thesis unfolding fmt_s_def reg_bits_field by (simp only: fmt_of_fields)
qed

lemma fmt_b_of_word:
  "fmt_b (imm_b w) (Reg_field w 20) (Reg_field w 15) (drop_bit 12 w AND mask 3) (w AND mask 7) = w"
proof -
  have "push_bit 6 (drop_bit 12 (imm_b w) AND mask 1) OR (drop_bit 5 (imm_b w) AND mask 6)
      = drop_bit 25 w"
  proof (rule bit_word_eqI)
    fix n :: nat
    assume "n < LENGTH(32)"
    consider "n < 6" | "n = 6" | "6 < n" by linarith
    then show "bit (push_bit 6 (drop_bit 12 (imm_b w) AND mask 1) OR (drop_bit 5 (imm_b w) AND mask 6)) n
      = bit (drop_bit 25 w) n"
      by cases (simp_all only: imm_b_def mask_numerals bits_simps,
          auto simp: min_def dest: bit_word_high)
  qed
  moreover have "push_bit 1 (drop_bit 1 (imm_b w) AND mask 4) OR (drop_bit 11 (imm_b w) AND mask 1)
      = drop_bit 7 w AND mask 5"
  proof (rule bit_word_eqI)
    fix n :: nat
    assume "n < LENGTH(32)"
    consider "n = 0" | "0 < n" "n < 5" | "5 \<le> n" by linarith
    then show "bit (push_bit 1 (drop_bit 1 (imm_b w) AND mask 4) OR (drop_bit 11 (imm_b w) AND mask 1)) n
      = bit (drop_bit 7 w AND mask 5) n"
      by cases (simp_all only: imm_b_def mask_numerals bits_simps,
          auto simp: min_def dest: bit_word_high)
  qed
  ultimately show ?thesis unfolding fmt_b_def reg_bits_field by (simp only: fmt_of_fields)
qed

lemma fmt_u_of_word: "fmt_u (imm_u w) (Reg_field w 7) (w AND mask 7) = w"
proof -
  have high: "bit (imm_u w) n \<longleftrightarrow> bit w n \<and> 12 \<le> n" for n
  proof -
    have eq: "(0xfffff000 :: u32) = push_bit 12 (mask 20)"
      by (simp add: mask_eq_exp_minus_1 push_bit_eq_mult)
    show ?thesis
      unfolding imm_u_def eq by (simp only: bits_simps) (auto dest: bit_word_high)
  qed
  have "drop_bit 25 (imm_u w) = drop_bit 25 w" "drop_bit 20 (imm_u w) AND mask 5 = drop_bit 20 w AND mask 5"
    "drop_bit 15 (imm_u w) AND mask 5 = drop_bit 15 w AND mask 5"
    "drop_bit 12 (imm_u w) AND mask 3 = drop_bit 12 w AND mask 3"
    by (rule bit_word_eqI; simp only: bits_simps high; simp)+
  then show ?thesis unfolding fmt_u_def reg_bits_field by (simp only: fmt_of_fields)
qed

lemma fmt_j_of_word: "fmt_j (imm_j w) (Reg_field w 7) (w AND mask 7) = w"
proof -
  have bj: "bit (imm_j w) n = (if 20 \<le> n then bit w 31 else if 12 \<le> n then bit w n
      else if n = 11 then bit w 20 else if 1 \<le> n then bit w (20 + n) else False)" if "n < 32" for n
    by (cases "n = 20"; use that in \<open>simp only: imm_j_def bit_or_iff bit_imm_j_mid\<close>;
        simp only: mask_numerals bits_simps; auto simp: min_def)
  have "push_bit 6 (drop_bit 20 (imm_j w) AND mask 1) OR (drop_bit 5 (imm_j w) AND mask 6) = drop_bit 25 w"
  proof (rule bit_word_eqI)
    fix n :: nat
    assume "n < LENGTH(32)"
    consider "n < 6" | "n = 6" | "6 < n" by linarith
    then show "bit (push_bit 6 (drop_bit 20 (imm_j w) AND mask 1) OR (drop_bit 5 (imm_j w) AND mask 6)) n
      = bit (drop_bit 25 w) n"
      by cases (simp_all only: bits_simps, auto simp: bj dest: bit_word_high)
  qed
  moreover have "push_bit 1 (drop_bit 1 (imm_j w) AND mask 4) OR (drop_bit 11 (imm_j w) AND mask 1)
      = drop_bit 20 w AND mask 5"
  proof (rule bit_word_eqI)
    fix n :: nat
    assume "n < LENGTH(32)"
    consider "n = 0" | "0 < n" "n < 5" | "5 \<le> n" by linarith
    then show "bit (push_bit 1 (drop_bit 1 (imm_j w) AND mask 4) OR (drop_bit 11 (imm_j w) AND mask 1)) n
      = bit (drop_bit 20 w AND mask 5) n"
      by cases (simp_all only: bits_simps, auto simp: bj)
  qed
  moreover have "drop_bit 15 (imm_j w) AND mask 5 = drop_bit 15 w AND mask 5"
    by (rule bit_word_eqI) (simp only: bits_simps, auto simp: bj)
  moreover have "drop_bit 12 (imm_j w) AND mask 3 = drop_bit 12 w AND mask 3"
    by (rule bit_word_eqI) (simp only: bits_simps, auto simp: bj)
  ultimately show ?thesis unfolding fmt_j_def reg_bits_field by (simp only: fmt_of_fields)
qed

lemma functs_of_decode_op:
  "decode_branch_op f3 = Some bop \<Longrightarrow> branch_funct3 bop = f3"
  "decode_load_op f3 = Some lop \<Longrightarrow> load_funct3 lop = f3"
  "decode_store_op f3 = Some sop \<Longrightarrow> store_funct3 sop = f3"
  "decode_imm_op f3 = Some iop \<Longrightarrow> imm_funct3 iop = f3"
  "decode_shift_op f3 f7 = Some shop \<Longrightarrow> shift_functs shop = (f7, f3)"
  "decode_reg_op f7 f3 = Some rop \<Longrightarrow> reg_functs rop = (f7, f3)"
  by (auto simp: decode_op_defs opcode_defs split: if_splits)

lemma encode_decode_aux:
  assumes "decode w = Ok i" "i \<noteq> Fence"
  shows "encode i = w"
  using assms
    fmt_u_of_word [of w] fmt_j_of_word [of w] fmt_i_of_word [of w] fmt_s_of_word [of w]
    fmt_b_of_word [of w] fmt_of_fields [of w]
  by (auto simp: decode_def Let_def opcode_of_mask mask_numerals(1,3) functs_of_decode_op
      split: if_splits option.splits)

subsection \<open>Properties\<close>

text \<open>
  C19. The decoder inverts the RV32I formats: every well-formed instruction (fields in the ranges
  \<^verbatim>\<open>instr.rs\<close> documents) is decoded from its encoding.
\<close>

theorem decode_encode: "wf_instr i \<Longrightarrow> decode (encode i) = Ok i"
  by (rule decode_encode_aux)

theorem decode_encode_witness:
  "decode (encode (Branch BranchLtu (Reg 5) (Reg 31) (- 4096))) =
     Ok (Branch BranchLtu (Reg 5) (Reg 31) (- 4096))"
  by (rule decode_encode) (simp add: wf_reg_def simm_range_def)

text \<open>
  The decoder accepts nothing else: a word that decodes is well-formed, is the encoding of the
  instruction it decodes to (\<open>Fence\<close> apart, which the source accepts in every configuration), and
  a word that is rejected is reported as it was fetched.
\<close>

theorem decode_sound:
  "(case decode w of
      Ok i \<Rightarrow> wf_instr i \<and> (if i = Fence then w AND 0x7f = 0x0f \<and> drop_bit 12 w AND 7 = 0 else encode i = w)
    | Err e \<Rightarrow> e = Illegal w)"
proof (cases "decode w")
  case (Inl e)
  then show ?thesis by (simp add: decode_Err)
next
  case (Inr i)
  have "w AND 0x7f = 0x0f \<and> drop_bit 12 w AND 7 = 0" if "i = Fence"
    using Inr that by (auto simp: decode_def Let_def opcode_defs split: if_splits option.splits)
  with Inr show ?thesis by (auto simp: decode_wf_aux encode_decode_aux)
qed

end
