(* ===== verification/Rv32_Execute.thy ===== *)
theory Rv32_Execute
  imports Rv32_Instr Contracts
begin

section \<open>Pure execution: ALU, control transfer, system, loads and stores\<close>

text \<open>
  Models \<^verbatim>\<open>components/rv32i/src/execute.rs\<close> and \<^verbatim>\<open>memory.rs\<close>: what an instruction would do if it
  retired (\<open>PendingEffect\<close>) or the trap it raises (\<open>PendingTrap\<close>). A load or store comes in two
  halves, the request it plans and its completion with the memory's answer; the answer's type is the
  part of the \<^verbatim>\<open>mem.v1\<close> messages the source matches on. Lemmas: every instruction belongs to exactly
  one family; ALU results against integer arithmetic; alignment of the next \<open>pc\<close>; a stored value is
  loaded back; a completion fails exactly on an answer of the wrong shape.
\<close>

subsection \<open>Effects and traps (\<^verbatim>\<open>execute.rs\<close>)\<close>

record RegWrite =
  rw_rd :: Reg
  rw_value :: u32

record PendingEffect =
  pe_reg_write :: "RegWrite option"
  pe_next_pc :: u32

datatype TrapCause =
    InstructionAddressMisaligned
  | LoadAddressMisaligned
  | LoadAccessFault
  | StoreAddressMisaligned
  | StoreAccessFault
  | InstructionAccessFault
  | IllegalInstruction
  | Breakpoint
  | EnvironmentCall
  | EnvironmentCallFromU
  | EnvironmentCallFromS
  | InstructionPageFault
  | LoadPageFault
  | StorePageFault

record PendingTrap =
  pt_cause :: TrapCause
  pt_tval :: u32

fun TrapCause_code :: "TrapCause \<Rightarrow> u32" where
  "TrapCause_code InstructionAddressMisaligned = 0"
| "TrapCause_code InstructionAccessFault = 1"
| "TrapCause_code IllegalInstruction = 2"
| "TrapCause_code Breakpoint = 3"
| "TrapCause_code LoadAddressMisaligned = 4"
| "TrapCause_code LoadAccessFault = 5"
| "TrapCause_code StoreAddressMisaligned = 6"
| "TrapCause_code StoreAccessFault = 7"
| "TrapCause_code EnvironmentCallFromU = 8"
| "TrapCause_code EnvironmentCallFromS = 9"
| "TrapCause_code EnvironmentCall = 11"
| "TrapCause_code InstructionPageFault = 12"
| "TrapCause_code LoadPageFault = 13"
| "TrapCause_code StorePageFault = 15"

datatype ExecOutcome = Effect PendingEffect | Trap PendingTrap

datatype NotAlu = NotAlu
datatype NotControl = NotControl
datatype NotSystem = NotSystem

subsection \<open>Operations on register values\<close>

fun taken :: "BranchOp \<Rightarrow> u32 \<Rightarrow> u32 \<Rightarrow> bool" where
  "taken BranchEq a b \<longleftrightarrow> a = b"
| "taken BranchNe a b \<longleftrightarrow> a \<noteq> b"
| "taken BranchLt a b \<longleftrightarrow> sint a < sint b"
| "taken BranchGe a b \<longleftrightarrow> sint a \<ge> sint b"
| "taken BranchLtu a b \<longleftrightarrow> a < b"
| "taken BranchGeu a b \<longleftrightarrow> a \<ge> b"

fun shift :: "ShiftOp \<Rightarrow> u32 \<Rightarrow> u32 \<Rightarrow> u32" where
  "shift ShiftSll value amount = push_bit (unat (amount AND 0x1f)) value"
| "shift ShiftSrl value amount = drop_bit (unat (amount AND 0x1f)) value"
| "shift ShiftSra value amount = signed_drop_bit (unat (amount AND 0x1f)) value"

fun op_imm :: "ImmOp \<Rightarrow> u32 \<Rightarrow> i32 \<Rightarrow> u32" where
  "op_imm Addi a imm = a + imm"
| "op_imm Slti a imm = of_bool (sint a < sint imm)"
| "op_imm Sltiu a imm = of_bool (a < imm)"
| "op_imm Xori a imm = a XOR imm"
| "op_imm Ori a imm = a OR imm"
| "op_imm Andi a imm = a AND imm"

fun op_reg :: "RegOp \<Rightarrow> u32 \<Rightarrow> u32 \<Rightarrow> u32" where
  "op_reg RegAdd a b = a + b"
| "op_reg RegSub a b = a - b"
| "op_reg RegSll a b = shift ShiftSll a b"
| "op_reg RegSlt a b = of_bool (sint a < sint b)"
| "op_reg RegSltu a b = of_bool (a < b)"
| "op_reg RegXor a b = a XOR b"
| "op_reg RegSrl a b = shift ShiftSrl a b"
| "op_reg RegSra a b = shift ShiftSra a b"
| "op_reg RegOr a b = a OR b"
| "op_reg RegAnd a b = a AND b"

subsection \<open>The instruction families\<close>

definition alu_effect :: "Reg \<Rightarrow> u32 \<Rightarrow> u32 \<Rightarrow> PendingEffect" where
  "alu_effect rd value pc = \<lparr>pe_reg_write = Some \<lparr>rw_rd = rd, rw_value = value\<rparr>, pe_next_pc = pc + 4\<rparr>"

fun execute_alu :: "Instr \<Rightarrow> u32 \<Rightarrow> u32 \<Rightarrow> u32 \<Rightarrow> (PendingEffect, NotAlu) result" where
  "execute_alu (Lui rd imm) pc rs1 rs2 = Ok (alu_effect rd imm pc)"
| "execute_alu (Auipc rd imm) pc rs1 rs2 = Ok (alu_effect rd (pc + imm) pc)"
| "execute_alu (OpImm iop rd _ imm) pc rs1 rs2 = Ok (alu_effect rd (op_imm iop rs1 imm) pc)"
| "execute_alu (ShiftImm shop rd _ shamt) pc rs1 rs2 = Ok (alu_effect rd (shift shop rs1 shamt) pc)"
| "execute_alu (Op rop rd _ _) pc rs1 rs2 = Ok (alu_effect rd (op_reg rop rs1 rs2) pc)"
| "execute_alu _ pc rs1 rs2 = Err NotAlu"

definition jump_to :: "RegWrite option \<Rightarrow> u32 \<Rightarrow> ExecOutcome" where
  "jump_to rw target =
     (if target AND 0x3 \<noteq> 0 then Trap \<lparr>pt_cause = InstructionAddressMisaligned, pt_tval = target\<rparr>
      else Effect \<lparr>pe_reg_write = rw, pe_next_pc = target\<rparr>)"

fun execute_control :: "Instr \<Rightarrow> u32 \<Rightarrow> u32 \<Rightarrow> u32 \<Rightarrow> (ExecOutcome, NotControl) result" where
  "execute_control (Branch bop _ _ offset) pc rs1 rs2 =
     (if \<not> taken bop rs1 rs2 then Ok (Effect \<lparr>pe_reg_write = None, pe_next_pc = pc + 4\<rparr>)
      else Ok (jump_to None (pc + offset)))"
| "execute_control (Jal rd offset) pc rs1 rs2 =
     Ok (jump_to (Some \<lparr>rw_rd = rd, rw_value = pc + 4\<rparr>) (pc + offset))"
| "execute_control (Jalr rd _ offset) pc rs1 rs2 =
     Ok (jump_to (Some \<lparr>rw_rd = rd, rw_value = pc + 4\<rparr>) ((rs1 + offset) AND NOT 1))"
| "execute_control _ pc rs1 rs2 = Err NotControl"

fun execute_system :: "Instr \<Rightarrow> u32 \<Rightarrow> (ExecOutcome, NotSystem) result" where
  "execute_system Fence pc = Ok (Effect \<lparr>pe_reg_write = None, pe_next_pc = pc + 4\<rparr>)"
| "execute_system Ecall pc = Ok (Trap \<lparr>pt_cause = EnvironmentCall, pt_tval = 0\<rparr>)"
| "execute_system Ebreak pc = Ok (Trap \<lparr>pt_cause = Breakpoint, pt_tval = pc\<rparr>)"
| "execute_system _ pc = Err NotSystem"

subsection \<open>Loads and stores (\<^verbatim>\<open>memory.rs\<close>)\<close>

datatype MemWidth = WByte | WHalf | WWord

fun MemWidth_bytes :: "MemWidth \<Rightarrow> u32" where
  "MemWidth_bytes WByte = 1"
| "MemWidth_bytes WHalf = 2"
| "MemWidth_bytes WWord = 4"

datatype LoadExtension = Signed | Unsigned

record LoadPlan =
  lp_rd :: Reg
  lp_addr :: u32
  lp_width :: MemWidth
  lp_extension :: LoadExtension
  lp_next_pc :: u32

record StorePlan =
  sp_addr :: u32
  sp_data :: "u8 list"
  sp_next_pc :: u32

datatype MemoryPlan = PlanLoad LoadPlan | PlanStore StorePlan

datatype MemoryPrep = PrepRequest MemoryPlan | PrepTrap PendingTrap

datatype NotMemory = NotMemory

fun load_shape :: "LoadOp \<Rightarrow> MemWidth \<times> LoadExtension" where
  "load_shape LoadB = (WByte, Signed)"
| "load_shape LoadBu = (WByte, Unsigned)"
| "load_shape LoadH = (WHalf, Signed)"
| "load_shape LoadHu = (WHalf, Unsigned)"
| "load_shape LoadW = (WWord, Signed)"

fun store_width :: "StoreOp \<Rightarrow> MemWidth" where
  "store_width StoreB = WByte"
| "store_width StoreH = WHalf"
| "store_width StoreW = WWord"

definition prepare_aligned :: "u32 \<Rightarrow> MemWidth \<Rightarrow> TrapCause \<Rightarrow> MemoryPlan \<Rightarrow> MemoryPrep" where
  "prepare_aligned addr width misaligned plan =
     (if addr AND (MemWidth_bytes width - 1) \<noteq> 0
      then PrepTrap \<lparr>pt_cause = misaligned, pt_tval = addr\<rparr>
      else PrepRequest plan)"

fun prepare_memory :: "Instr \<Rightarrow> u32 \<Rightarrow> u32 \<Rightarrow> u32 \<Rightarrow> (MemoryPrep, NotMemory) result" where
  "prepare_memory (Load lop rd _ offset) pc rs1 rs2 =
     (let addr = rs1 + offset; (width, extension) = load_shape lop in
      Ok (prepare_aligned addr width LoadAddressMisaligned
        (PlanLoad \<lparr>lp_rd = rd, lp_addr = addr, lp_width = width, lp_extension = extension,
                   lp_next_pc = pc + 4\<rparr>)))"
| "prepare_memory (Store sop _ _ offset) pc rs1 rs2 =
     (let addr = rs1 + offset; bytes = u32_to_le_bytes rs2; width = store_width sop in
      Ok (prepare_aligned addr width StoreAddressMisaligned
        (PlanStore \<lparr>sp_addr = addr, sp_data = take (unat (MemWidth_bytes width)) bytes,
                    sp_next_pc = pc + 4\<rparr>)))"
| "prepare_memory _ pc rs1 rs2 = Err NotMemory"

datatype MemoryCompletionError = DataLength u32 usize | ResponseKind

definition sext8 :: "u8 \<Rightarrow> u32" where "sext8 b = scast b"
definition sext16 :: "u16 \<Rightarrow> u32" where "sext16 h = scast h"

fun load_value :: "MemWidth \<Rightarrow> LoadExtension \<Rightarrow> u8 list \<Rightarrow> u32 option" where
  "load_value WByte Signed [b] = Some (sext8 b)"
| "load_value WByte Unsigned [b] = Some (ucast b)"
| "load_value WHalf Signed [b0, b1] = Some (sext16 (u16_from_le_bytes [b0, b1]))"
| "load_value WHalf Unsigned [b0, b1] = Some (ucast (u16_from_le_bytes [b0, b1]))"
| "load_value WWord _ [b0, b1, b2, b3] = Some (u32_from_le_bytes [b0, b1, b2, b3])"
| "load_value _ _ _ = None"

fun complete_load :: "LoadPlan \<Rightarrow> ReadOutcome \<Rightarrow> (ExecOutcome, MemoryCompletionError) result" where
  "complete_load plan (ReadFault AccessFault) = Ok (Trap \<lparr>pt_cause = LoadAccessFault, pt_tval = lp_addr plan\<rparr>)"
| "complete_load plan (ReadData data) =
     (case load_value (lp_width plan) (lp_extension plan) data of
        None \<Rightarrow> Err (DataLength (MemWidth_bytes (lp_width plan)) (length data))
      | Some value \<Rightarrow>
          Ok (Effect \<lparr>pe_reg_write = Some \<lparr>rw_rd = lp_rd plan, rw_value = value\<rparr>,
                      pe_next_pc = lp_next_pc plan\<rparr>))"

fun complete_store :: "StorePlan \<Rightarrow> WriteOutcome \<Rightarrow> ExecOutcome" where
  "complete_store plan WriteDone = Effect \<lparr>pe_reg_write = None, pe_next_pc = sp_next_pc plan\<rparr>"
| "complete_store plan (WriteFault AccessFault) = Trap \<lparr>pt_cause = StoreAccessFault, pt_tval = sp_addr plan\<rparr>"

fun complete_memory :: "MemoryPlan \<Rightarrow> MemMsg \<Rightarrow> (ExecOutcome, MemoryCompletionError) result" where
  "complete_memory (PlanLoad plan) (ReadResp _ outcome) = complete_load plan outcome"
| "complete_memory (PlanStore plan) (WriteResp _ outcome) = Ok (complete_store plan outcome)"
| "complete_memory _ _ = Err ResponseKind"

subsection \<open>Lemmas\<close>

text \<open>Integer arithmetic of the base integer ISA, as the reference for the ALU.\<close>

fun alu_reference :: "RegOp \<Rightarrow> u32 \<Rightarrow> u32 \<Rightarrow> int" where
  "alu_reference RegAdd a b = (uint a + uint b) mod 2 ^ 32"
| "alu_reference RegSub a b = (uint a - uint b) mod 2 ^ 32"
| "alu_reference RegSll a b = (uint a * 2 ^ (unat b mod 32)) mod 2 ^ 32"
| "alu_reference RegSlt a b = (if sint a < sint b then 1 else 0)"
| "alu_reference RegSltu a b = (if uint a < uint b then 1 else 0)"
| "alu_reference RegXor a b = uint a XOR uint b"
| "alu_reference RegSrl a b = uint a div 2 ^ (unat b mod 32)"
| "alu_reference RegSra a b = (sint a div 2 ^ (unat b mod 32)) mod 2 ^ 32"
| "alu_reference RegOr a b = uint a OR uint b"
| "alu_reference RegAnd a b = uint a AND uint b"

lemma unat_and_31: "unat (b AND 0x1f :: u32) = unat b mod 32"
  by (simp add: mask_numerals unat_and_mask)

lemma uint_push_bit: "uint (push_bit k a :: u32) = (uint a * 2 ^ k) mod 2 ^ 32"
  by (simp only: unsigned_push_bit_eq) (simp add: take_bit_eq_mod push_bit_eq_mult)

lemma uint_drop_bit: "uint (drop_bit k a :: u32) = uint a div 2 ^ k"
  by (simp only: uint_nat unat_drop_bit zdiv_int) simp

lemma uint_signed_drop_bit: "uint (signed_drop_bit k a :: u32) = (sint a div 2 ^ k) mod 2 ^ 32"
proof -
  have "uint w = sint w mod 2 ^ 32" for w :: u32
    by (simp only: uint_sint take_bit_eq_mod) simp
  then show ?thesis by (simp add: sint_signed_drop_bit_eq drop_bit_eq_div)
qed

lemma and_3_add_4: "(w + 4 :: u32) AND 0x3 = w AND 0x3"
proof -
  have "(w + 4) AND mask 2 = w AND mask 2"
    by (rule word_unat_eq_iff [THEN iffD2])
      (simp only: unat_and_mask unat_word_ariths, simp add: mod_mod_cancel)
  then show ?thesis by (simp add: mask_eq_exp_minus_1)
qed

lemma jump_to_Effect: "jump_to rw t = Effect e \<longleftrightarrow> t AND 0x3 = 0 \<and> e = \<lparr>pe_reg_write = rw, pe_next_pc = t\<rparr>"
  by (auto simp: jump_to_def)

lemmas Effect_jump_to = jump_to_Effect [unfolded eq_commute [of "jump_to _ _"]]

lemma complete_load_fault [simp]:
  "complete_load p (ReadFault f) = Ok (Trap \<lparr>pt_cause = LoadAccessFault, pt_tval = lp_addr p\<rparr>)"
  by (cases f) simp

lemma load_value_Some_iff:
  "(\<exists>v. load_value w x data = Some v) \<longleftrightarrow> length data = unat (MemWidth_bytes w)"
  by (cases w; cases "(w, x, data)" rule: load_value.cases) auto

fun plan_next_pc :: "MemoryPlan \<Rightarrow> u32" where
  "plan_next_pc (PlanLoad p) = lp_next_pc p"
| "plan_next_pc (PlanStore p) = sp_next_pc p"

lemma complete_memory_next_pc:
  "complete_memory plan msg = Ok (Effect e) \<Longrightarrow> pe_next_pc e = plan_next_pc plan"
  by (cases "(plan, msg)" rule: complete_memory.cases)
    (auto elim!: complete_load.elims complete_store.elims split: option.splits)

lemma prepare_memory_next_pc:
  "prepare_memory i pc a b = Ok (PrepRequest plan) \<Longrightarrow> plan_next_pc plan = pc + 4"
  by (cases i) (auto simp: prepare_aligned_def Let_def split: prod.splits if_splits)

text \<open>What a load of each width and extension makes of a value, on its bits.\<close>

fun loaded :: "MemWidth \<Rightarrow> LoadExtension \<Rightarrow> u32 \<Rightarrow> u32" where
  "loaded WByte Signed v = signed_take_bit 7 v"
| "loaded WByte Unsigned v = take_bit 8 v"
| "loaded WHalf Signed v = signed_take_bit 15 v"
| "loaded WHalf Unsigned v = take_bit 16 v"
| "loaded WWord x v = v"

lemma load_value_store_bytes:
  "load_value w x (take (unat (MemWidth_bytes w)) (u32_to_le_bytes v)) = Some (loaded w x v)"
proof -
  have half: "u16_from_le_bytes [ucast v, ucast (drop_bit 8 v)] = ucast v"
    by (auto intro!: bit_word_eqI simp: u16_from_le_bytes_def bits_simps nth_Cons')
  have word: "u32_from_le_bytes [ucast v, ucast (drop_bit 8 v), ucast (drop_bit 16 v), ucast (drop_bit 24 v)] = v"
    using u32_le_dec_enc [of v] by (simp add: u32_to_le_bytes_def)
  show ?thesis
    by (cases w; cases x)
      (auto intro!: bit_word_eqI simp: u32_to_le_bytes_def half word sext8_def sext16_def
        bit_simps min_def)
qed

lemma effect_next_pc_aligned:
  assumes "pc AND 0x3 = 0"
    and "execute_alu i pc a b = Ok e \<or> execute_control i pc a b = Ok (Effect e) \<or>
         execute_system i pc = Ok (Effect e) \<or>
         (\<exists>plan msg. prepare_memory i pc a b = Ok (PrepRequest plan) \<and>
            complete_memory plan msg = Ok (Effect e))"
  shows "pe_next_pc e AND 0x3 = 0"
proof -
  have plus4: "(pc + 4) AND 0x3 = 0" using assms(1) by (simp only: and_3_add_4)
  from assms(2) consider "execute_alu i pc a b = Ok e" | "execute_control i pc a b = Ok (Effect e)"
    | "execute_system i pc = Ok (Effect e)"
    | plan msg where "prepare_memory i pc a b = Ok (PrepRequest plan)" "complete_memory plan msg = Ok (Effect e)"
    by blast
  then show ?thesis
  proof cases
    case 4
    with plus4 show ?thesis
      using prepare_memory_next_pc complete_memory_next_pc by metis
  qed (use plus4 in \<open>auto simp: alu_effect_def jump_to_Effect Effect_jump_to
        elim!: execute_alu.elims execute_control.elims execute_system.elims split: if_splits\<close>)
qed

subsection \<open>Properties\<close>

text \<open>
  The register-register ALU computes the integer arithmetic of the ISA: wrapping addition and
  subtraction, signed and unsigned comparison, shifts by the low five bits (arithmetic right shift
  as floor division of the signed value), and the bitwise operations.
\<close>

theorem op_reg_reference: "uint (op_reg rop a b) = alu_reference rop a b"
  by (cases rop)
    (simp_all add: unat_and_31 uint_push_bit uint_drop_bit uint_signed_drop_bit uint_word_ariths
      word_less_def, simp_all add: unsigned_and_eq unsigned_or_eq unsigned_xor_eq)

text \<open>
  The \<open>pc\<close> stays 4-byte aligned: whatever family executes an instruction at an aligned \<open>pc\<close>, if it
  retires its next \<open>pc\<close> is aligned (a misaligned target is the trap instead).
\<close>

theorem next_pc_aligned:
  assumes "pc AND 0x3 = 0"
    and "execute_alu i pc a b = Ok e \<or> execute_control i pc a b = Ok (Effect e) \<or>
         execute_system i pc = Ok (Effect e) \<or>
         (\<exists>plan msg. prepare_memory i pc a b = Ok (PrepRequest plan) \<and>
            complete_memory plan msg = Ok (Effect e))"
  shows "pe_next_pc e AND 0x3 = 0"
  using assms by (rule effect_next_pc_aligned)

theorem next_pc_aligned_witness:
  "\<exists>e. execute_control (Jal (Reg 1) 8) 0x80000000 0 0 = Ok (Effect e) \<and> pe_next_pc e AND 0x3 = 0"
proof -
  let ?e = "\<lparr>pe_reg_write = Some \<lparr>rw_rd = Reg 1, rw_value = 0x80000004\<rparr>, pe_next_pc = 0x80000008 :: u32\<rparr>"
  have e: "execute_control (Jal (Reg 1) 8) 0x80000000 0 0 = Ok (Effect ?e)"
    by (simp add: jump_to_def)
  have "pe_next_pc ?e AND 0x3 = 0"
    by (rule next_pc_aligned [where pc = "0x80000000" and i = "Jal (Reg 1) 8" and a = 0 and b = 0])
      (simp_all only: e, simp_all)
  with e show ?thesis by blast
qed

text \<open>
  A store followed by a load of the same width at the same address returns the stored value: the
  bytes the store plans, answered to the load, retire it with the low bytes of the stored register,
  sign- or zero-extended as the load says.
\<close>

theorem store_load_round_trip:
  assumes "prepare_memory (Store sop s1 s2 off) pc base v = Ok (PrepRequest (PlanStore sp))"
    and "prepare_memory (Load lop d s1 off) pc' base b = Ok (PrepRequest (PlanLoad lp))"
    and "store_width sop = lp_width lp"
  shows "sp_addr sp = lp_addr lp \<and>
    complete_memory (PlanLoad lp) (ReadResp txn (ReadData (sp_data sp))) =
      Ok (Effect \<lparr>pe_reg_write = Some \<lparr>rw_rd = d, rw_value = loaded (lp_width lp) (lp_extension lp) v\<rparr>,
                  pe_next_pc = pc' + 4\<rparr>)"
  using assms by (auto simp: prepare_aligned_def Let_def load_value_store_bytes split: if_splits prod.splits)

theorem store_load_round_trip_witness:
  "complete_memory (PlanLoad \<lparr>lp_rd = Reg 3, lp_addr = 0x100, lp_width = WByte, lp_extension = Signed,
       lp_next_pc = 8\<rparr>) (ReadResp 0 (ReadData [0x80])) =
     Ok (Effect \<lparr>pe_reg_write = Some \<lparr>rw_rd = Reg 3, rw_value = loaded WByte Signed 0x12345680\<rparr>,
                 pe_next_pc = 8\<rparr>)"
  using store_load_round_trip [where sop = StoreB and ?s1.0 = "Reg 1" and ?s2.0 = "Reg 2" and off = 0
      and pc = 0 and base = "0x100" and v = "0x12345680"
      and sp = "\<lparr>sp_addr = 0x100, sp_data = [0x80], sp_next_pc = 4\<rparr>"
      and lop = LoadB and d = "Reg 3" and pc' = 4 and b = 0
      and lp = "\<lparr>lp_rd = Reg 3, lp_addr = 0x100, lp_width = WByte, lp_extension = Signed, lp_next_pc = 8\<rparr>"]
  by (simp add: prepare_aligned_def u32_to_le_bytes_def)

text \<open>
  A load completes exactly when the answer fits its plan: data of the planned width retires it, data
  of any other length is a \<open>DataLength\<close> error carrying the planned width and the actual length, a
  fault is the architectural trap at the effective address, and any other message is \<open>ResponseKind\<close>.
\<close>

theorem complete_load_cases:
  "(case msg of
      ReadResp _ (ReadData data) \<Rightarrow>
        (if length data = unat (MemWidth_bytes (lp_width p))
         then \<exists>v. complete_memory (PlanLoad p) msg =
                Ok (Effect \<lparr>pe_reg_write = Some \<lparr>rw_rd = lp_rd p, rw_value = v\<rparr>, pe_next_pc = lp_next_pc p\<rparr>)
         else complete_memory (PlanLoad p) msg = Err (DataLength (MemWidth_bytes (lp_width p)) (length data)))
    | ReadResp _ (ReadFault f) \<Rightarrow>
        complete_memory (PlanLoad p) msg = Ok (Trap \<lparr>pt_cause = LoadAccessFault, pt_tval = lp_addr p\<rparr>)
    | _ \<Rightarrow> complete_memory (PlanLoad p) msg = Err ResponseKind)"
proof -
  have none: "load_value (lp_width p) (lp_extension p) data = None \<longleftrightarrow>
      length data \<noteq> unat (MemWidth_bytes (lp_width p))" for data
    by (metis load_value_Some_iff not_None_eq)
  have "load_value (lp_width p) (lp_extension p) data = Some v \<Longrightarrow>
      length data = unat (MemWidth_bytes (lp_width p))" for data v
    using load_value_Some_iff by blast
  with none show ?thesis by (auto split: MemMsg.splits ReadOutcome.splits option.splits)
qed

end
