(* ===== verification/Rv32_Csr.thy ===== *)
theory Rv32_Csr
  imports Rv32_Execute
begin

section \<open>Machine and supervisor CSRs, privilege modes, traps and interrupts\<close>

text \<open>
  Models \<^verbatim>\<open>components/rv32i/src/csr.rs\<close> (the M2 profile: Zicsr decoding, eight machine CSRs, \<^verbatim>\<open>MRET\<close>,
  the machine external interrupt) and \<^verbatim>\<open>privilege.rs\<close> (the M3 profile: U, S and M modes, the
  supervisor CSRs, the access rule, \<^verbatim>\<open>SRET\<close>, delegated exceptions). The CPU applies these operations
  to one hart; \<open>priv_step\<close> is that as a step relation. Lemmas: the stored fields keep the write rules
  in every reachable state; reading a CSR after writing it gives the legal part of the value and
  other CSRs are unchanged; \<^verbatim>\<open>sstatus\<close> is a view of \<^verbatim>\<open>mstatus\<close>; trap entry and return are inverse.
\<close>

subsection \<open>The M2 CSRs (\<^verbatim>\<open>csr.rs\<close>)\<close>

definition MSTATUS :: u16 where "MSTATUS = 0x300"
definition MIE :: u16 where "MIE = 0x304"
definition MTVEC :: u16 where "MTVEC = 0x305"
definition MSCRATCH :: u16 where "MSCRATCH = 0x340"
definition MEPC :: u16 where "MEPC = 0x341"
definition MCAUSE :: u16 where "MCAUSE = 0x342"
definition MTVAL :: u16 where "MTVAL = 0x343"
definition MIP :: u16 where "MIP = 0x344"

definition SUPPORTED_M2 :: "u16 list" where
  "SUPPORTED_M2 = [MSTATUS, MIE, MIP, MTVEC, MSCRATCH, MEPC, MCAUSE, MTVAL]"

definition MRET :: u32 where "MRET = 0x30200073"
definition MSTATUS_MIE :: u32 where "MSTATUS_MIE = push_bit 3 1"
definition MSTATUS_MPIE :: u32 where "MSTATUS_MPIE = push_bit 7 1"
definition MSTATUS_MPP :: u32 where "MSTATUS_MPP = push_bit 11 0b11"
definition MEI_BIT :: u32 where "MEI_BIT = push_bit 11 1"
definition MEI_CAUSE :: u32 where "MEI_CAUSE = 0x8000000b"

definition is_supported_m2 :: "u16 \<Rightarrow> bool" where
  "is_supported_m2 csr = List.member SUPPORTED_M2 csr"

datatype CsrOp = CsrWrite | CsrSet | CsrClear

fun CsrOp_apply :: "CsrOp \<Rightarrow> u32 \<Rightarrow> u32 \<Rightarrow> u32" where
  "CsrOp_apply CsrWrite old operand = operand"
| "CsrOp_apply CsrSet old operand = old OR operand"
| "CsrOp_apply CsrClear old operand = old AND NOT operand"

datatype CsrSource = SrcReg Reg | SrcImm u8

datatype PrivInstr = Csr CsrOp Reg CsrSource u16 | Mret

fun PrivInstr_writes :: "PrivInstr \<Rightarrow> bool" where
  "PrivInstr_writes (Csr cop _ src _) =
     (cop = CsrWrite \<or> (case src of SrcReg r \<Rightarrow> r \<noteq> Reg_ZERO | SrcImm uimm \<Rightarrow> uimm \<noteq> 0))"
| "PrivInstr_writes Mret = False"

definition decode_privileged :: "u32 \<Rightarrow> PrivInstr option" where
  "decode_privileged word =
     (if word = MRET then Some Mret
      else if word AND 0x7f \<noteq> 0x73 then None
      else
        (let funct3 = drop_bit 12 word AND 0x7;
             src = (if funct3 AND 0b100 = 0 then SrcReg (Reg_field word 15)
                    else SrcImm (ucast (drop_bit 15 word AND 0x1f)));
             instr = (\<lambda>cop. Some (Csr cop (Reg_field word 7) src (ucast (drop_bit 20 word))))
         in if funct3 AND 0b11 = 1 then instr CsrWrite
            else if funct3 AND 0b11 = 2 then instr CsrSet
            else if funct3 AND 0b11 = 3 then instr CsrClear
            else None))"

record CsrFile =
  c_mie :: bool
  c_mpie :: bool
  c_meie :: bool
  c_mtvec :: u32
  c_mscratch :: u32
  c_mepc :: u32
  c_mcause :: u32
  c_mtval :: u32
  c_irq_level :: bool

definition CsrFile_new :: CsrFile where
  "CsrFile_new = \<lparr>c_mie = False, c_mpie = False, c_meie = False, c_mtvec = 0, c_mscratch = 0,
     c_mepc = 0, c_mcause = 0, c_mtval = 0, c_irq_level = False\<rparr>"

definition CsrFile_mstatus :: "CsrFile \<Rightarrow> u32" where
  "CsrFile_mstatus m = push_bit 3 (of_bool (c_mie m)) OR push_bit 7 (of_bool (c_mpie m)) OR MSTATUS_MPP"

definition CsrFile_read :: "CsrFile \<Rightarrow> u16 \<Rightarrow> u32 option" where
  "CsrFile_read m csr =
     (if csr = MSTATUS then Some (CsrFile_mstatus m)
      else if csr = MIE then Some (push_bit 11 (of_bool (c_meie m)))
      else if csr = MIP then Some (push_bit 11 (of_bool (c_irq_level m)))
      else if csr = MTVEC then Some (c_mtvec m)
      else if csr = MSCRATCH then Some (c_mscratch m)
      else if csr = MEPC then Some (c_mepc m)
      else if csr = MCAUSE then Some (c_mcause m)
      else if csr = MTVAL then Some (c_mtval m)
      else None)"

definition CsrFile_write :: "CsrFile \<Rightarrow> u16 \<Rightarrow> u32 \<Rightarrow> CsrFile option" where
  "CsrFile_write m csr value =
     (if csr = MSTATUS then
        Some (m\<lparr>c_mie := value AND MSTATUS_MIE \<noteq> 0, c_mpie := value AND MSTATUS_MPIE \<noteq> 0\<rparr>)
      else if csr = MIE then Some (m\<lparr>c_meie := value AND MEI_BIT \<noteq> 0\<rparr>)
      else if csr = MIP then Some m
      else if csr = MTVEC then Some (m\<lparr>c_mtvec := value AND NOT 0b11\<rparr>)
      else if csr = MSCRATCH then Some (m\<lparr>c_mscratch := value\<rparr>)
      else if csr = MEPC then Some (m\<lparr>c_mepc := value AND NOT 0b11\<rparr>)
      else if csr = MCAUSE then Some (m\<lparr>c_mcause := value\<rparr>)
      else if csr = MTVAL then Some (m\<lparr>c_mtval := value\<rparr>)
      else None)"

definition CsrFile_mret :: "CsrFile \<Rightarrow> CsrFile \<times> u32" where
  "CsrFile_mret m = (m\<lparr>c_mie := c_mpie m, c_mpie := True\<rparr>, c_mepc m)"

definition CsrFile_mei_eligible :: "CsrFile \<Rightarrow> bool" where
  "CsrFile_mei_eligible m \<longleftrightarrow> c_mie m \<and> c_meie m \<and> c_irq_level m"

definition CsrFile_take_mei :: "CsrFile \<Rightarrow> u32 \<Rightarrow> CsrFile \<times> u32" where
  "CsrFile_take_mei m next_pc =
     (m\<lparr>c_mepc := next_pc, c_mcause := MEI_CAUSE, c_mtval := 0, c_mpie := c_mie m, c_mie := False\<rparr>,
      c_mtvec m)"

subsection \<open>Privilege modes (\<^verbatim>\<open>privilege.rs\<close>)\<close>

definition SSTATUS :: u16 where "SSTATUS = 0x100"
definition SIE :: u16 where "SIE = 0x104"
definition STVEC :: u16 where "STVEC = 0x105"
definition SSCRATCH :: u16 where "SSCRATCH = 0x140"
definition SEPC :: u16 where "SEPC = 0x141"
definition SCAUSE :: u16 where "SCAUSE = 0x142"
definition STVAL :: u16 where "STVAL = 0x143"
definition SIP :: u16 where "SIP = 0x144"
definition SATP :: u16 where "SATP = 0x180"
definition MEDELEG :: u16 where "MEDELEG = 0x302"
definition MIDELEG :: u16 where "MIDELEG = 0x303"

lemmas csr_number_defs = MSTATUS_def MIE_def MTVEC_def MSCRATCH_def MEPC_def MCAUSE_def MTVAL_def
  MIP_def SSTATUS_def SIE_def STVEC_def SSCRATCH_def SEPC_def SCAUSE_def STVAL_def SIP_def SATP_def
  MEDELEG_def MIDELEG_def

definition SUPPORTED_M3 :: "u16 list" where
  "SUPPORTED_M3 = [MSTATUS, MIE, MIP, MTVEC, MSCRATCH, MEPC, MCAUSE, MTVAL, SSTATUS, SIE, SIP, STVEC,
     SSCRATCH, SEPC, SCAUSE, STVAL, SATP, MEDELEG, MIDELEG]"

definition SRET :: u32 where "SRET = 0x10200073"
definition MSTATUS_SIE :: u32 where "MSTATUS_SIE = push_bit 1 1"
definition MSTATUS_SPIE :: u32 where "MSTATUS_SPIE = push_bit 5 1"
definition MSTATUS_SPP :: u32 where "MSTATUS_SPP = push_bit 8 1"
definition MSTATUS_MPP_SHIFT :: nat where "MSTATUS_MPP_SHIFT = 11"
definition MSTATUS_SUM :: u32 where "MSTATUS_SUM = push_bit 18 1"
definition MSTATUS_MXR :: u32 where "MSTATUS_MXR = push_bit 19 1"
definition SSTATUS_MASK :: u32 where
  "SSTATUS_MASK = MSTATUS_SIE OR MSTATUS_SPIE OR MSTATUS_SPP OR MSTATUS_SUM OR MSTATUS_MXR"
definition MEDELEG_MASK :: u32 where "MEDELEG_MASK = 0xB1FF"
definition SATP_MODE :: u32 where "SATP_MODE = push_bit 31 1"
definition SATP_ASID :: u32 where "SATP_ASID = push_bit 22 0x1FF"
definition SATP_PPN :: u32 where "SATP_PPN = 0x003FFFFF"

datatype Privilege = User | Supervisor | Machine

fun Privilege_bits :: "Privilege \<Rightarrow> u8" where
  "Privilege_bits User = 0"
| "Privilege_bits Supervisor = 1"
| "Privilege_bits Machine = 3"

definition Privilege_from_bits :: "u8 \<Rightarrow> Privilege option" where
  "Privilege_from_bits bits =
     (if bits = 0 then Some User else if bits = 1 then Some Supervisor
      else if bits = 3 then Some Machine else None)"

text \<open>The derived order of the source's enumeration: \<open>User < Supervisor < Machine\<close>.\<close>

instantiation Privilege :: linorder
begin

definition less_eq_Privilege :: "Privilege \<Rightarrow> Privilege \<Rightarrow> bool" where
  "p \<le> q \<longleftrightarrow> Privilege_bits p \<le> Privilege_bits q"

definition less_Privilege :: "Privilege \<Rightarrow> Privilege \<Rightarrow> bool" where
  "p < q \<longleftrightarrow> Privilege_bits p < Privilege_bits q"

instance
proof
  fix x y z :: Privilege
  show "x \<le> y \<Longrightarrow> y \<le> x \<Longrightarrow> x = y"
    by (cases x; cases y) (simp_all add: less_eq_Privilege_def word_le_nat_alt)
qed (auto simp: less_eq_Privilege_def less_Privilege_def)

end

datatype Spp = SppUser | SppSupervisor

fun Spp_bits :: "Spp \<Rightarrow> u8" where
  "Spp_bits SppUser = 0"
| "Spp_bits SppSupervisor = 1"

definition Spp_from_bits :: "u8 \<Rightarrow> Spp option" where
  "Spp_from_bits bits =
     (if bits = 0 then Some SppUser else if bits = 1 then Some SppSupervisor else None)"

fun Spp_privilege :: "Spp \<Rightarrow> Privilege" where
  "Spp_privilege SppUser = User"
| "Spp_privilege SppSupervisor = Supervisor"

definition legal_mpp :: "u32 \<Rightarrow> Privilege" where
  "legal_mpp field =
     (if field AND 0b11 = 1 then Supervisor else if field AND 0b11 = 3 then Machine else User)"

definition is_supported_m3 :: "u16 \<Rightarrow> bool" where
  "is_supported_m3 csr = List.member SUPPORTED_M3 csr"

definition accessible :: "u16 \<Rightarrow> Privilege \<Rightarrow> bool \<Rightarrow> bool" where
  "accessible csr privilege wr =
     (let lowest = (ucast (drop_bit 8 csr AND 0b11) :: u8);
          read_only = (drop_bit 10 csr AND 0b11 = 0b11)
      in Privilege_bits privilege \<ge> lowest \<and> \<not> (wr \<and> read_only))"

definition satp_write :: "u32 \<Rightarrow> u32" where
  "satp_write value = value AND NOT SATP_ASID"

definition satp_reachable :: "u32 \<Rightarrow> bool" where
  "satp_reachable value \<longleftrightarrow> value AND SATP_ASID = 0"

datatype SupervisorInstr = Sret | SfenceVma

definition decode_supervisor :: "u32 \<Rightarrow> SupervisorInstr option" where
  "decode_supervisor word =
     (if word = SRET then Some Sret
      else if word AND 0xFE007FFF = 0x12000073 then Some SfenceVma
      else None)"

record M3State =
  privilege :: Privilege
  s_sie :: bool
  s_spie :: bool
  s_spp :: Spp
  s_mpp :: Privilege
  s_sum :: bool
  s_mxr :: bool
  s_medeleg :: u32
  s_stvec :: u32
  s_sscratch :: u32
  s_sepc :: u32
  s_scause :: u32
  s_stval :: u32
  s_satp :: u32

definition M3State_new :: M3State where
  "M3State_new = \<lparr>privilege = Machine, s_sie = False, s_spie = False, s_spp = SppUser, s_mpp = User,
     s_sum = False, s_mxr = False, s_medeleg = 0, s_stvec = 0, s_sscratch = 0, s_sepc = 0,
     s_scause = 0, s_stval = 0, s_satp = 0\<rparr>"

definition sstatus :: "M3State \<Rightarrow> u32" where
  "sstatus s =
     push_bit 1 (of_bool (s_sie s)) OR push_bit 5 (of_bool (s_spie s))
     OR push_bit 8 (ucast (Spp_bits (s_spp s)))
     OR push_bit 18 (of_bool (s_sum s)) OR push_bit 19 (of_bool (s_mxr s))"

definition mstatus :: "M3State \<Rightarrow> CsrFile \<Rightarrow> u32" where
  "mstatus s m =
     sstatus s OR push_bit 3 (of_bool (c_mie m)) OR push_bit 7 (of_bool (c_mpie m))
     OR push_bit MSTATUS_MPP_SHIFT (ucast (Privilege_bits (s_mpp s)))"

definition M3_read :: "M3State \<Rightarrow> CsrFile \<Rightarrow> u16 \<Rightarrow> u32 option" where
  "M3_read s m csr =
     (if csr = MSTATUS then Some (mstatus s m)
      else if csr = SSTATUS then Some (sstatus s)
      else if csr = MEDELEG then Some (s_medeleg s)
      else if csr = MIDELEG \<or> csr = SIE \<or> csr = SIP then Some 0
      else if csr = STVEC then Some (s_stvec s)
      else if csr = SSCRATCH then Some (s_sscratch s)
      else if csr = SEPC then Some (s_sepc s)
      else if csr = SCAUSE then Some (s_scause s)
      else if csr = STVAL then Some (s_stval s)
      else if csr = SATP then Some (s_satp s)
      else if List.member [MIE, MIP, MTVEC, MSCRATCH, MEPC, MCAUSE, MTVAL] csr then CsrFile_read m csr
      else None)"

definition write_sstatus :: "M3State \<Rightarrow> u32 \<Rightarrow> M3State" where
  "write_sstatus s value =
     s\<lparr>s_sie := value AND MSTATUS_SIE \<noteq> 0,
       s_spie := value AND MSTATUS_SPIE \<noteq> 0,
       s_spp := (if value AND MSTATUS_SPP \<noteq> 0 then SppSupervisor else SppUser),
       s_sum := value AND MSTATUS_SUM \<noteq> 0,
       s_mxr := value AND MSTATUS_MXR \<noteq> 0\<rparr>"

definition M3_write :: "M3State \<Rightarrow> CsrFile \<Rightarrow> u16 \<Rightarrow> u32 \<Rightarrow> (M3State \<times> CsrFile) option" where
  "M3_write s m csr value =
     (if csr = MSTATUS then
        Some (write_sstatus (s\<lparr>s_mpp := legal_mpp (drop_bit MSTATUS_MPP_SHIFT value)\<rparr>) value,
              m\<lparr>c_mie := value AND MSTATUS_MIE \<noteq> 0, c_mpie := value AND MSTATUS_MPIE \<noteq> 0\<rparr>)
      else if csr = SSTATUS then Some (write_sstatus s value, m)
      else if csr = MEDELEG then Some (s\<lparr>s_medeleg := value AND MEDELEG_MASK\<rparr>, m)
      else if csr = MIDELEG \<or> csr = SIE \<or> csr = SIP then Some (s, m)
      else if csr = STVEC then Some (s\<lparr>s_stvec := value AND NOT 0b11\<rparr>, m)
      else if csr = SSCRATCH then Some (s\<lparr>s_sscratch := value\<rparr>, m)
      else if csr = SEPC then Some (s\<lparr>s_sepc := value AND NOT 0b11\<rparr>, m)
      else if csr = SCAUSE then Some (s\<lparr>s_scause := value\<rparr>, m)
      else if csr = STVAL then Some (s\<lparr>s_stval := value\<rparr>, m)
      else if csr = SATP then Some (s\<lparr>s_satp := satp_write value\<rparr>, m)
      else if List.member [MIE, MIP, MTVEC, MSCRATCH, MEPC, MCAUSE, MTVAL] csr then
        map_option (Pair s) (CsrFile_write m csr value)
      else None)"

definition M3_mret :: "M3State \<Rightarrow> CsrFile \<Rightarrow> M3State \<times> CsrFile \<times> u32" where
  "M3_mret s m =
     (s\<lparr>privilege := s_mpp s, s_mpp := User\<rparr>, m\<lparr>c_mie := c_mpie m, c_mpie := True\<rparr>, c_mepc m)"

definition M3_sret :: "M3State \<Rightarrow> M3State \<times> u32" where
  "M3_sret s =
     (s\<lparr>privilege := Spp_privilege (s_spp s), s_spp := SppUser, s_sie := s_spie s, s_spie := True\<rparr>,
      s_sepc s)"

definition translates :: "M3State \<Rightarrow> bool" where
  "translates s \<longleftrightarrow> privilege s \<noteq> Machine \<and> s_satp s AND SATP_MODE \<noteq> 0"

definition M3_root :: "M3State \<Rightarrow> u32" where
  "M3_root s = s_satp s AND SATP_PPN"

definition delegates :: "M3State \<Rightarrow> TrapCause \<Rightarrow> bool" where
  "delegates s cause \<longleftrightarrow>
     privilege s \<noteq> Machine \<and> drop_bit (unat (TrapCause_code cause)) (s_medeleg s) AND 1 = 1"

definition take_exception :: "M3State \<Rightarrow> TrapCause \<Rightarrow> u32 \<Rightarrow> u32 \<Rightarrow> (M3State \<times> u32) option" where
  "take_exception s cause pc tval =
     (if \<not> delegates s cause then None
      else
        (case (case privilege s of User \<Rightarrow> Some SppUser | Supervisor \<Rightarrow> Some SppSupervisor | Machine \<Rightarrow> None) of
           None \<Rightarrow> None
         | Some spp \<Rightarrow>
             Some (s\<lparr>s_spp := spp, s_sepc := pc, s_scause := TrapCause_code cause, s_stval := tval,
                     s_spie := s_sie s, s_sie := False, privilege := Supervisor\<rparr>,
                   s_stvec s AND NOT 0b11)))"

definition M3_mei_eligible :: "M3State \<Rightarrow> CsrFile \<Rightarrow> bool" where
  "M3_mei_eligible s m \<longleftrightarrow> c_irq_level m \<and> c_meie m \<and> (privilege s < Machine \<or> c_mie m)"

definition M3_take_mei :: "M3State \<Rightarrow> CsrFile \<Rightarrow> u32 \<Rightarrow> M3State \<times> CsrFile \<times> u32" where
  "M3_take_mei s m next_pc =
     (let (m', pc) = CsrFile_take_mei m next_pc in
      (s\<lparr>s_mpp := privilege s, privilege := Machine\<rparr>, m', pc))"

subsection \<open>The legal part of a CSR write\<close>

text \<open>
  The write rules as masks: what a CSR holding \<open>old\<close> reads after \<open>v\<close> is written to it. Fields that
  do not exist read 0, \<^verbatim>\<open>mip\<close> is read-only, a reserved \<^verbatim>\<open>MPP\<close> (2) becomes U.
\<close>

definition MSTATUS_M2_MASK :: u32 where
  "MSTATUS_M2_MASK = push_bit 3 1 OR push_bit 7 1"

definition MSTATUS_M3_MASK :: u32 where
  "MSTATUS_M3_MASK = SSTATUS_MASK OR push_bit 3 1 OR push_bit 7 1"

definition m2_legal :: "u16 \<Rightarrow> u32 \<Rightarrow> u32 \<Rightarrow> u32" where
  "m2_legal csr old v =
     (if csr = MSTATUS then v AND MSTATUS_M2_MASK OR MSTATUS_MPP
      else if csr = MIE then v AND MEI_BIT
      else if csr = MIP then old
      else if csr = MTVEC \<or> csr = MEPC then v AND NOT 0b11
      else v)"

definition m3_legal :: "u16 \<Rightarrow> u32 \<Rightarrow> u32 \<Rightarrow> u32" where
  "m3_legal csr old v =
     (if csr = MSTATUS then
        v AND MSTATUS_M3_MASK
        OR (if drop_bit 11 v AND 0b11 = 0b10 then 0 else v AND MSTATUS_MPP)
      else if csr = SSTATUS then v AND SSTATUS_MASK
      else if csr = MEDELEG then v AND MEDELEG_MASK
      else if csr = MIDELEG \<or> csr = SIE \<or> csr = SIP then 0
      else if csr = STVEC \<or> csr = SEPC then v AND NOT 0b11
      else if csr = SATP then v AND NOT SATP_ASID
      else m2_legal csr old v)"

lemmas status_bit_defs = MSTATUS_MIE_def MSTATUS_MPIE_def MSTATUS_MPP_def MEI_BIT_def MSTATUS_SIE_def
  MSTATUS_SPIE_def MSTATUS_SPP_def MSTATUS_SUM_def MSTATUS_MXR_def SSTATUS_MASK_def
  MSTATUS_M2_MASK_def MSTATUS_M3_MASK_def MSTATUS_MPP_SHIFT_def

lemma bit_of_bool_field: "bit (push_bit k (of_bool b) :: u32) n \<longleftrightarrow> b \<and> n = k \<and> k < 32"
  by (auto simp: bit_push_bit_iff bit_of_bool_iff)

lemma bit_bit_field: "bit (push_bit k 1 :: u32) n \<longleftrightarrow> n = k \<and> k < 32"
  by (simp only: bit_push_bit_iff bit_1_iff possible_bit_word) auto

lemma bit_three: "bit (0b11 :: u32) n \<longleftrightarrow> n = 0 \<or> n = 1"
proof -
  have "(0b11 :: u32) = mask 2" by (simp add: mask_eq_exp_minus_1)
  then have "bit (0b11 :: u32) n \<longleftrightarrow> n < 2" by (simp only: bit_mask_iff possible_bit_word) auto
  then show ?thesis by auto
qed

lemma bit_MSTATUS_MPP: "bit MSTATUS_MPP n \<longleftrightarrow> n = 11 \<or> n = 12"
  unfolding MSTATUS_MPP_def by (simp only: bit_push_bit_iff bit_three possible_bit_word) auto

lemmas status_bits = bit_or_iff bit_and_iff bit_of_bool_field bit_bit_field bit_and_pow2

lemma mstatus_m2_legal: "push_bit 3 (of_bool (v AND MSTATUS_MIE \<noteq> 0))
    OR push_bit 7 (of_bool (v AND MSTATUS_MPIE \<noteq> 0)) OR MSTATUS_MPP
    = v AND MSTATUS_M2_MASK OR MSTATUS_MPP"
  by (rule bit_word_eqI)
    (simp only: MSTATUS_MIE_def MSTATUS_MPIE_def MSTATUS_M2_MASK_def status_bits; auto)

lemma pow2_field: "push_bit k (of_bool (v AND push_bit k 1 \<noteq> 0)) = (v AND push_bit k 1 :: u32)"
  by (rule bit_word_eqI) (simp only: status_bits; auto)

lemma mei_field: "push_bit 11 (of_bool (v AND MEI_BIT \<noteq> 0)) = v AND MEI_BIT"
  unfolding MEI_BIT_def by (rule pow2_field)

lemma mei_field_set: "v AND MEI_BIT \<noteq> 0 \<Longrightarrow> v AND MEI_BIT = 2048"
  using mei_field [of v] by simp

text \<open>The supervisor status word, and the machine status word around it.\<close>

lemma sstatus_write: "sstatus (write_sstatus s v) = v AND SSTATUS_MASK"
proof -
  have fields: "s_sie (write_sstatus s v) = bit v 1" "s_spie (write_sstatus s v) = bit v 5"
    "s_sum (write_sstatus s v) = bit v 18" "s_mxr (write_sstatus s v) = bit v 19"
    "ucast (Spp_bits (s_spp (write_sstatus s v))) = (of_bool (bit v 8) :: u32)"
    unfolding write_sstatus_def MSTATUS_SIE_def MSTATUS_SPIE_def MSTATUS_SPP_def MSTATUS_SUM_def
      MSTATUS_MXR_def bit_and_pow2 by simp_all
  show ?thesis
    unfolding sstatus_def fields
    by (intro bit_word_eqI)
      (simp only: MSTATUS_SIE_def MSTATUS_SPIE_def MSTATUS_SPP_def MSTATUS_SUM_def
        MSTATUS_MXR_def SSTATUS_MASK_def status_bits; auto)
qed

lemma two_bit_cases:
  obtains "(w :: u32) AND 0b11 = 0" | "w AND 0b11 = 1" | "w AND 0b11 = 2" | "w AND 0b11 = 3"
proof -
  have "unat (w AND 0b11) = unat w mod 4"
    using unat_and_mask [of w 2] by (simp add: mask_eq_exp_minus_1)
  then have "unat (w AND 0b11) < 4" by simp
  then have "unat (w AND 0b11) \<in> {0, 1, 2, 3}" by auto
  then have "w AND 0b11 \<in> {0, 1, 2, 3}"
    by (auto simp: word_unat_eq_iff)
  with that show ?thesis by auto
qed

lemma mpp_field:
  "push_bit 11 (ucast (Privilege_bits (legal_mpp (drop_bit 11 v)))) =
     (if drop_bit 11 v AND 0b11 = 0b10 then 0 else v AND MSTATUS_MPP)"
proof -
  have "v AND MSTATUS_MPP = push_bit 11 (drop_bit 11 v AND 0b11)"
    by (rule bit_word_eqI)
      (simp only: bit_MSTATUS_MPP bit_push_bit_iff bit_and_iff bit_drop_bit_eq bit_three o_apply
        possible_bit_word; auto simp: le_imp_diff_is_add)
  then show ?thesis
    by (rule_tac w = "drop_bit 11 v" in two_bit_cases) (simp_all add: legal_mpp_def)
qed

lemma sstatus_frame [simp]:
  "sstatus (s\<lparr>s_mpp := p\<rparr>) = sstatus s" "sstatus (s\<lparr>s_medeleg := x\<rparr>) = sstatus s"
  "sstatus (s\<lparr>s_stvec := x\<rparr>) = sstatus s" "sstatus (s\<lparr>s_sscratch := x\<rparr>) = sstatus s"
  "sstatus (s\<lparr>s_sepc := x\<rparr>) = sstatus s" "sstatus (s\<lparr>s_scause := x\<rparr>) = sstatus s"
  "sstatus (s\<lparr>s_stval := x\<rparr>) = sstatus s" "sstatus (s\<lparr>s_satp := x\<rparr>) = sstatus s"
  "sstatus (s\<lparr>privilege := q\<rparr>) = sstatus s"
  by (simp_all add: sstatus_def)

lemma mstatus_write:
  "mstatus (write_sstatus (s\<lparr>s_mpp := legal_mpp (drop_bit MSTATUS_MPP_SHIFT v)\<rparr>) v)
     (m\<lparr>c_mie := v AND MSTATUS_MIE \<noteq> 0, c_mpie := v AND MSTATUS_MPIE \<noteq> 0\<rparr>)
   = m3_legal MSTATUS old v"
proof -
  have fields: "c_mie (m\<lparr>c_mie := b, c_mpie := c\<rparr>) = b" "c_mpie (m\<lparr>c_mie := b, c_mpie := c\<rparr>) = c"
    "s_mpp (write_sstatus (s\<lparr>s_mpp := p\<rparr>) v) = p" for b c p
    by (simp_all add: write_sstatus_def)
  show ?thesis
    unfolding mstatus_def fields sstatus_write MSTATUS_MPP_SHIFT_def mpp_field MSTATUS_MIE_def
      MSTATUS_MPIE_def pow2_field m3_legal_def MSTATUS_M3_MASK_def
      bit.conj_disj_distrib or.assoc by simp
qed

lemma CsrFile_mstatus_write:
  "CsrFile_mstatus (m\<lparr>c_mie := v AND MSTATUS_MIE \<noteq> 0, c_mpie := v AND MSTATUS_MPIE \<noteq> 0\<rparr>)
   = m2_legal MSTATUS old v"
proof -
  have fields: "c_mie (m\<lparr>c_mie := b, c_mpie := c\<rparr>) = b" "c_mpie (m\<lparr>c_mie := b, c_mpie := c\<rparr>) = c" for b c
    by simp_all
  show ?thesis
    unfolding CsrFile_mstatus_def fields mstatus_m2_legal by (simp add: m2_legal_def)
qed

subsection \<open>A bank of CSRs\<close>

text \<open>
  What the CPU's CSR instructions rely on, whatever the profile: the supported CSRs are exactly
  those that can be read and written, and a read gives the legal part of the last write. The two
  profiles provide it; inside, a read-modify-write always succeeds on a supported CSR.
\<close>

locale csr_bank =
  fixes get :: "'s \<Rightarrow> u16 \<Rightarrow> u32 option"
    and put :: "'s \<Rightarrow> u16 \<Rightarrow> u32 \<Rightarrow> 's option"
    and supported :: "u16 \<Rightarrow> bool"
    and legal :: "u16 \<Rightarrow> u32 \<Rightarrow> u32 \<Rightarrow> u32"
  assumes get_supported: "get s csr \<noteq> None \<longleftrightarrow> supported csr"
    and put_supported: "put s csr v \<noteq> None \<longleftrightarrow> supported csr"
    and get_put: "put s csr v = Some s' \<Longrightarrow> get s csr = Some old \<Longrightarrow> get s' csr = Some (legal csr old v)"
begin

lemma read_modify_write:
  assumes "supported csr"
  obtains old s' where "get s csr = Some old" "put s csr (f old) = Some s'"
    "get s' csr = Some (legal csr old (f old))"
proof -
  from assms obtain old where old: "get s csr = Some old" using get_supported [of s csr] by auto
  moreover from assms obtain s' where "put s csr (f old) = Some s'"
    using put_supported [of s csr "f old"] by auto
  ultimately show ?thesis using that get_put by blast
qed

lemma unsupported_untouched: "\<not> supported csr \<Longrightarrow> get s csr = None \<and> put s csr v = None"
  using get_supported [of s csr] put_supported [of s csr v] by auto

end

lemma M3_read_write:
  assumes "M3_write s m csr v = Some (s', m')" and "M3_read s m csr = Some old"
  shows "M3_read s' m' csr = Some (m3_legal csr old v)"
proof (cases "csr = MSTATUS")
  case True
  have "mstatus s' m' = m3_legal MSTATUS old v"
    using assms(1) True mstatus_write [where s = s and v = v and m = m and old = old] by (simp add: M3_write_def)
  then show ?thesis using True by (simp add: M3_read_def)
next
  case False
  then show ?thesis using assms
    by (auto simp: M3_write_def M3_read_def m3_legal_def m2_legal_def CsrFile_write_def
        CsrFile_read_def csr_number_defs mei_field mei_field_set sstatus_write satp_write_def
        split: if_splits)
qed

lemma CsrFile_read_write:
  assumes "CsrFile_write m csr v = Some m'" and "CsrFile_read m csr = Some old"
  shows "CsrFile_read m' csr = Some (m2_legal csr old v)"
proof (cases "csr = MSTATUS")
  case True
  then show ?thesis
    using assms(1) CsrFile_mstatus_write [where m = m and v = v and old = old] by (simp add: CsrFile_write_def CsrFile_read_def)
next
  case False
  then show ?thesis using assms
    by (auto simp: CsrFile_read_def m2_legal_def CsrFile_write_def csr_number_defs mei_field mei_field_set
        split: if_splits)
qed

interpretation m2csr: csr_bank CsrFile_read CsrFile_write is_supported_m2 m2_legal
proof unfold_locales
  show "CsrFile_read m csr \<noteq> None \<longleftrightarrow> is_supported_m2 csr" for m csr
    by (auto simp: CsrFile_read_def is_supported_m2_def SUPPORTED_M2_def List.member_iff)
  show "CsrFile_write m csr v \<noteq> None \<longleftrightarrow> is_supported_m2 csr" for m csr v
    by (auto simp: CsrFile_write_def is_supported_m2_def SUPPORTED_M2_def List.member_iff)
qed (rule CsrFile_read_write)

interpretation m3csr: csr_bank "\<lambda>(s, m). M3_read s m" "\<lambda>(s, m). M3_write s m" is_supported_m3 m3_legal
proof unfold_locales
  show "(case sm of (s, m) \<Rightarrow> M3_read s m) csr \<noteq> None \<longleftrightarrow> is_supported_m3 csr" for sm csr
    by (auto simp: M3_read_def CsrFile_read_def is_supported_m3_def SUPPORTED_M3_def List.member_iff
        split: prod.splits)
  show "(case sm of (s, m) \<Rightarrow> M3_write s m) csr v \<noteq> None \<longleftrightarrow> is_supported_m3 csr" for sm csr v
    by (auto simp: M3_write_def CsrFile_write_def is_supported_m3_def SUPPORTED_M3_def List.member_iff
        split: prod.splits)
  show "(case sm' of (s, m) \<Rightarrow> M3_read s m) csr = Some (m3_legal csr old v)"
    if "(case sm of (s, m) \<Rightarrow> M3_write s m) csr v = Some sm'"
      and "(case sm of (s, m) \<Rightarrow> M3_read s m) csr = Some old" for sm csr v sm' old
    using that M3_read_write by (auto split: prod.splits)
qed

subsection \<open>Reads and writes of the M3 CSRs\<close>

lemma sstatus_bits: "bit (sstatus s) n \<Longrightarrow> bit SSTATUS_MASK n"
proof -
  have spp: "ucast (Spp_bits (s_spp s)) = (of_bool (s_spp s = SppSupervisor) :: u32)"
    by (cases "s_spp s") simp_all
  show "bit (sstatus s) n \<Longrightarrow> bit SSTATUS_MASK n"
    unfolding sstatus_def spp
    by (simp only: MSTATUS_SIE_def MSTATUS_SPIE_def MSTATUS_SPP_def MSTATUS_SUM_def
        MSTATUS_MXR_def SSTATUS_MASK_def status_bits) auto
qed

lemma bit_SSTATUS_MASK:
  "bit SSTATUS_MASK n \<longleftrightarrow> n = 1 \<or> n = 5 \<or> n = 8 \<or> n = 18 \<or> n = 19"
  by (simp only: MSTATUS_SIE_def MSTATUS_SPIE_def MSTATUS_SPP_def MSTATUS_SUM_def
        MSTATUS_MXR_def SSTATUS_MASK_def status_bits) auto

text \<open>The machine-only part of \<^verbatim>\<open>mstatus\<close>, and \<^verbatim>\<open>mstatus\<close> as the two parts side by side.\<close>

definition mstatus_machine :: "M3State \<Rightarrow> CsrFile \<Rightarrow> u32" where
  "mstatus_machine s m = push_bit 3 (of_bool (c_mie m)) OR push_bit 7 (of_bool (c_mpie m))
     OR push_bit 11 (ucast (Privilege_bits (s_mpp s)))"

lemma mstatus_parts: "mstatus s m = sstatus s OR mstatus_machine s m"
  by (simp add: mstatus_def mstatus_machine_def MSTATUS_MPP_SHIFT_def or.assoc)

lemma mstatus_machine_disjoint: "bit (mstatus_machine s m) n \<Longrightarrow> \<not> bit SSTATUS_MASK n"
proof -
  have "bit (ucast (Privilege_bits p) :: u32) k \<Longrightarrow> k = 0 \<or> k = 1" for p k
    by (cases p) (simp_all add: bit_three [simplified] bit_1_iff)
  from this [of "s_mpp s" "n - 11"]
  show "bit (mstatus_machine s m) n \<Longrightarrow> \<not> bit SSTATUS_MASK n"
    unfolding mstatus_machine_def bit_SSTATUS_MASK
    by (simp only: bit_or_iff bit_of_bool_field bit_push_bit_iff bit_of_bool_iff) auto
qed

lemma sstatus_masked [simp]: "sstatus s AND SSTATUS_MASK = sstatus s"
  by (rule bit_word_eqI) (auto simp: bit_and_iff dest: sstatus_bits)

lemma mstatus_machine_masked [simp]: "mstatus_machine s m AND SSTATUS_MASK = 0"
  by (rule bit_word_eqI) (auto simp: bit_and_iff dest: mstatus_machine_disjoint)

lemma mstatus_machine_kept: "mstatus_machine s m = mstatus s m AND NOT SSTATUS_MASK"
  unfolding mstatus_parts
  by (rule bit_word_eqI) (auto simp: bit_and_iff bit_or_iff bit_not_iff dest: mstatus_machine_disjoint sstatus_bits)

lemma CsrFile_write_frame:
  assumes "CsrFile_write m csr v = Some m'" and "csr' \<noteq> csr"
  shows "CsrFile_read m' csr' = CsrFile_read m csr'"
  using assms
  by (auto simp: CsrFile_write_def split: if_split_asm)
    (simp_all add: CsrFile_read_def CsrFile_mstatus_def cong: if_cong split del: if_split)

lemma CsrFile_write_mstatus_fields:
  "CsrFile_write m csr v = Some m' \<Longrightarrow> csr \<noteq> MSTATUS \<Longrightarrow> c_mie m' = c_mie m \<and> c_mpie m' = c_mpie m"
  by (auto simp: CsrFile_write_def split: if_split_asm)

lemma M3_write_frame:
  assumes "M3_write s m csr v = Some (s', m')" and "csr' \<noteq> csr"
    and "{csr, csr'} \<noteq> {MSTATUS, SSTATUS}"
  shows "M3_read s' m' csr' = M3_read s m csr'"
proof (cases "List.member [MIE, MIP, MTVEC, MSCRATCH, MEPC, MCAUSE, MTVAL] csr")
  case True
  with assms(1) obtain m'' where w: "CsrFile_write m csr v = Some m''" "s' = s" "m' = m''"
    by (auto simp: M3_write_def csr_number_defs)
  have "csr \<noteq> MSTATUS" using True by (auto simp: csr_number_defs)
  with w have "mstatus s' m' = mstatus s m"
    using CsrFile_write_mstatus_fields [OF w(1)] by (simp add: mstatus_def)
  with w assms(2) show ?thesis
    using CsrFile_write_frame [OF w(1) assms(2)] by (simp add: M3_read_def)
next
  case False
  with assms show ?thesis
    by (simp only: M3_write_def if_False split: if_split_asm)
      (auto simp: M3_read_def mstatus_def write_sstatus_def CsrFile_read_def doubleton_eq_iff
        cong: if_cong split del: if_split)
qed

text \<open>
  Writing a supported CSR succeeds and reading it back gives the legal part of the value by the
  CSR's write rule; every other CSR reads as before, except that \<^verbatim>\<open>sstatus\<close> and \<^verbatim>\<open>mstatus\<close> share fields.
\<close>

theorem csr_write_then_read:
  assumes "is_supported_m3 csr"
  shows "\<exists>old s' m'. M3_read s m csr = Some old \<and> M3_write s m csr v = Some (s', m')
    \<and> M3_read s' m' csr = Some (m3_legal csr old v)
    \<and> (\<forall>csr'. csr' \<noteq> csr \<and> {csr, csr'} \<noteq> {MSTATUS, SSTATUS} \<longrightarrow> M3_read s' m' csr' = M3_read s m csr')"
proof -
  obtain old sm' where rw: "M3_read s m csr = Some old" "M3_write s m csr v = Some sm'"
    "(case sm' of (s, m) \<Rightarrow> M3_read s m) csr = Some (m3_legal csr old v)"
    using m3csr.read_modify_write [of csr "(s, m)" "\<lambda>_. v", OF assms] by auto
  moreover obtain s' m' where "sm' = (s', m')" by fastforce
  ultimately show ?thesis using M3_write_frame [of s m csr v s' m'] by fastforce
qed

theorem csr_write_then_read_witness:
  "is_supported_m3 SATP
   \<and> (\<exists>old s' m'. M3_write M3State_new CsrFile_new SATP 0x80C00001 = Some (s', m')
        \<and> M3_read s' m' SATP = Some (m3_legal SATP old 0x80C00001))"
proof -
  have "is_supported_m3 SATP" by (simp add: is_supported_m3_def SUPPORTED_M3_def)
  then show ?thesis
    using csr_write_then_read [of SATP M3State_new CsrFile_new "0x80C00001"] by blast
qed

text \<open>
  \<^verbatim>\<open>sstatus\<close> is a view of \<^verbatim>\<open>mstatus\<close>: it reads \<^verbatim>\<open>mstatus\<close> under \<^verbatim>\<open>SSTATUS_MASK\<close>, and writing it replaces
  exactly those bits of \<^verbatim>\<open>mstatus\<close>.
\<close>

theorem sstatus_is_a_view_of_mstatus:
  "M3_read s m SSTATUS = map_option (\<lambda>w. w AND SSTATUS_MASK) (M3_read s m MSTATUS)
   \<and> (case M3_write s m SSTATUS v of
        None \<Rightarrow> False
      | Some (s', m') \<Rightarrow>
          mstatus s' m' = (mstatus s m AND NOT SSTATUS_MASK) OR (v AND SSTATUS_MASK))"
proof -
  have "mstatus_machine (write_sstatus s v) m = mstatus_machine s m"
    by (simp add: mstatus_machine_def write_sstatus_def)
  then have "mstatus (write_sstatus s v) m = (mstatus s m AND NOT SSTATUS_MASK) OR (v AND SSTATUS_MASK)"
    by (simp add: mstatus_parts [of "write_sstatus s v"] sstatus_write flip: mstatus_machine_kept)
      (simp add: or.commute)
  moreover have "sstatus s = mstatus s m AND SSTATUS_MASK"
    by (simp add: mstatus_parts bit.conj_disj_distrib2)
  ultimately show ?thesis
    by (simp add: M3_read_def M3_write_def csr_number_defs)
qed

subsection \<open>Trap entry and return\<close>

lemma take_exception_Some:
  "take_exception s cause pc tval = Some (s', handler) \<longleftrightarrow>
     delegates s cause \<and> handler = s_stvec s AND NOT 0b11 \<and>
     s' = s\<lparr>s_spp := (if privilege s = User then SppUser else SppSupervisor), s_sepc := pc,
            s_scause := TrapCause_code cause, s_stval := tval,
            s_spie := s_sie s, s_sie := False, privilege := Supervisor\<rparr>"
  by (cases "privilege s") (auto simp: take_exception_def delegates_def)

text \<open>
  C38. A delegated exception is delivered to S at \<^verbatim>\<open>stvec\<close> with interrupts off and the cause, the value and
  the program counter recorded; the \<^verbatim>\<open>SRET\<close> that ends the handler returns to that program counter in
  the mode and with the interrupt enable the exception interrupted. An exception that is not
  delegated (any one raised in M among them) is not delivered.
\<close>

theorem exception_then_sret:
  "case take_exception s cause pc tval of
     None \<Rightarrow> \<not> (privilege s \<noteq> Machine \<and> bit (s_medeleg s) (unat (TrapCause_code cause)))
   | Some (s', handler) \<Rightarrow>
       privilege s \<noteq> Machine \<and> bit (s_medeleg s) (unat (TrapCause_code cause))
       \<and> privilege s' = Supervisor \<and> \<not> s_sie s' \<and> handler = s_stvec s AND NOT 0b11
       \<and> s_sepc s' = pc \<and> s_scause s' = TrapCause_code cause \<and> s_stval s' = tval
       \<and> M3_sret s' = (s\<lparr>s_sepc := pc, s_scause := TrapCause_code cause, s_stval := tval,
                         s_spp := SppUser, s_spie := True\<rparr>, pc)"
proof -
  have bit: "drop_bit n w AND 1 = 1 \<longleftrightarrow> bit w n" for n and w :: u32
    by (simp add: bit_iff_odd_drop_bit odd_iff_mod_2_eq_one and_one_eq)
  show ?thesis
  proof (cases "take_exception s cause pc tval")
    case None
    then show ?thesis
      by (cases "privilege s") (auto simp: take_exception_def delegates_def bit)
  next
    case (Some r)
    then obtain s' handler where r: "r = (s', handler)" by fastforce
    with Some have entry: "take_exception s cause pc tval = Some (s', handler)" by simp
    then have "delegates s cause" by (simp add: take_exception_Some)
    moreover from this have "bit (s_medeleg s) (unat (TrapCause_code cause))" by (simp add: delegates_def bit)
    moreover from entry have "handler = s_stvec s AND NOT 0b11"
      "s' = s\<lparr>s_spp := (if privilege s = User then SppUser else SppSupervisor), s_sepc := pc,
            s_scause := TrapCause_code cause, s_stval := tval,
            s_spie := s_sie s, s_sie := False, privilege := Supervisor\<rparr>"
      by (simp_all only: take_exception_Some)
    ultimately show ?thesis
      unfolding entry by (cases s; cases "privilege s") (auto simp: M3_sret_def delegates_def)
  qed
qed

text \<open>
  The machine external interrupt is taken in M with interrupts off, so it is not eligible again,
  and the \<^verbatim>\<open>MRET\<close> that ends its handler returns to the interrupted instruction, mode and interrupt
  enable; no supervisor CSR changes on the way.
\<close>

theorem mei_then_mret:
  "case M3_take_mei s m next_pc of
     (s', m', handler) \<Rightarrow>
       privilege s' = Machine \<and> handler = c_mtvec m \<and> \<not> M3_mei_eligible s' m'
       \<and> M3_mret s' m' = (s\<lparr>s_mpp := User\<rparr>,
            m\<lparr>c_mepc := next_pc, c_mcause := MEI_CAUSE, c_mtval := 0, c_mpie := True\<rparr>, next_pc)"
  by (simp add: M3_take_mei_def CsrFile_take_mei_def M3_mei_eligible_def M3_mret_def)

end
