(* ===== verification/Rv32_Sv32.thy ===== *)
theory Rv32_Sv32
  imports Rv32_Csr
begin

section \<open>Sv32 translation\<close>

text \<open>
  Models \<^verbatim>\<open>components/rv32i/src/sv32.rs\<close>: the meaning of one page-table entry (\<open>sv32_step\<close>), the address
  of the next one, and the whole walk against a synchronous reader (\<open>sv32_translate\<close>), which is the
  reference for the walk the CPU does one bus read at a time. Physical addresses and other \<^verbatim>\<open>u64\<close>
  values are natural numbers. The lemmas characterise a successful translation by the entries the
  page tables hold, in arithmetic rather than shifts and masks.
\<close>

definition PTE_V :: u32 where "PTE_V = push_bit 0 1"
definition PTE_R :: u32 where "PTE_R = push_bit 1 1"
definition PTE_W :: u32 where "PTE_W = push_bit 2 1"
definition PTE_X :: u32 where "PTE_X = push_bit 3 1"
definition PTE_U :: u32 where "PTE_U = push_bit 4 1"
definition PTE_G :: u32 where "PTE_G = push_bit 5 1"
definition PTE_A :: u32 where "PTE_A = push_bit 6 1"
definition PTE_D :: u32 where "PTE_D = push_bit 7 1"
definition PAGE_SIZE :: u64 where "PAGE_SIZE = 4096"
definition PA_BITS :: nat where "PA_BITS = 34"

lemmas PTE_bit_defs = PTE_V_def PTE_R_def PTE_W_def PTE_X_def PTE_U_def PTE_G_def PTE_A_def PTE_D_def

datatype Access = AccFetch | AccLoad | AccStore

fun Access_page_fault :: "Access \<Rightarrow> TrapCause" where
  "Access_page_fault AccFetch = InstructionPageFault"
| "Access_page_fault AccLoad = LoadPageFault"
| "Access_page_fault AccStore = StorePageFault"

fun Access_access_fault :: "Access \<Rightarrow> TrapCause" where
  "Access_access_fault AccFetch = InstructionAccessFault"
| "Access_access_fault AccLoad = LoadAccessFault"
| "Access_access_fault AccStore = StoreAccessFault"

record Context =
  ctx_privilege :: Privilege
  ctx_sum :: bool
  ctx_mxr :: bool
  ctx_access :: Access

datatype Fault = FaultPage | FaultAccess

fun Fault_cause :: "Fault \<Rightarrow> Access \<Rightarrow> TrapCause" where
  "Fault_cause FaultPage access = Access_page_fault access"
| "Fault_cause FaultAccess access = Access_access_fault access"

datatype WalkStep = WalkNext u32 | WalkLeaf u64 | WalkPageFault

definition vpn :: "u32 \<Rightarrow> nat \<Rightarrow> u32" where
  "vpn va level = drop_bit (12 + 10 * level) va AND 0x3FF"

definition pte_address :: "u32 \<Rightarrow> u32 \<Rightarrow> nat \<Rightarrow> u64" where
  "pte_address table va level = unat table * PAGE_SIZE + unat (vpn va level) * 4"

definition sv32_step :: "Context \<Rightarrow> u32 \<Rightarrow> nat \<Rightarrow> u32 \<Rightarrow> WalkStep" where
  "sv32_step ctx va level pte =
     (let has = (\<lambda>b. pte AND b \<noteq> 0);
          ppn = drop_bit 10 pte
      in if \<not> has PTE_V \<or> (\<not> has PTE_R \<and> has PTE_W) then WalkPageFault
         else if \<not> has PTE_R \<and> \<not> has PTE_X then
           (if level = 0 \<or> has (PTE_D OR PTE_A OR PTE_U) then WalkPageFault
            else WalkNext ppn)
         else if level = 1 \<and> ppn AND 0x3FF \<noteq> 0 then WalkPageFault
         else
           (let user_ok = (case ctx_privilege ctx of
                  User \<Rightarrow> has PTE_U
                | Supervisor \<Rightarrow> \<not> has PTE_U \<or> (ctx_sum ctx \<and> ctx_access ctx \<noteq> AccFetch)
                | Machine \<Rightarrow> True);
                allowed = (case ctx_access ctx of
                  AccFetch \<Rightarrow> has PTE_X
                | AccLoad \<Rightarrow> has PTE_R \<or> (ctx_mxr ctx \<and> has PTE_X)
                | AccStore \<Rightarrow> has PTE_W);
                dirty_ok = (ctx_access ctx \<noteq> AccStore \<or> has PTE_D)
            in if \<not> user_ok \<or> \<not> allowed \<or> \<not> has PTE_A \<or> \<not> dirty_ok then WalkPageFault
               else WalkLeaf
                 (if level = 1
                  then push_bit 22 (unat (drop_bit 20 pte)) OR unat (va AND 0x003FFFFF)
                  else push_bit 12 (unat ppn) OR unat (va AND 0xFFF))))"

lemma sv32_step_level0: "sv32_step ctx va 0 pte \<noteq> WalkNext table"
  by (simp add: sv32_step_def Let_def)

lemma sv32_step_next_pos: "sv32_step ctx va level pte = WalkNext table \<Longrightarrow> 0 < level"
  by (cases level) (simp_all add: sv32_step_level0)

text \<open>
  The loop of \<^verbatim>\<open>sv32_translate\<close>. The level counts down from 1; it ends because an entry at level 0 is
  never a pointer.
\<close>

function sv32_walk :: "(u64 \<Rightarrow> u32 option) \<Rightarrow> Context \<Rightarrow> u32 \<Rightarrow> nat \<Rightarrow> u32 \<Rightarrow> (u64, Fault) result" where
  "sv32_walk read_pte ctx va level table =
     (case read_pte (pte_address table va level) of
        None \<Rightarrow> Err FaultAccess
      | Some pte \<Rightarrow>
          (case sv32_step ctx va level pte of
             WalkNext next \<Rightarrow> sv32_walk read_pte ctx va (level - 1) next
           | WalkLeaf pa \<Rightarrow> Ok pa
           | WalkPageFault \<Rightarrow> Err FaultPage))"
  by pat_completeness auto

termination
  by (relation "measure (\<lambda>(_, _, _, level, _). level)") (auto dest: sv32_step_next_pos)

declare sv32_walk.simps [simp del]

definition sv32_translate ::
    "u32 \<Rightarrow> Privilege \<Rightarrow> bool \<Rightarrow> bool \<Rightarrow> Access \<Rightarrow> u32 \<Rightarrow> (u64 \<Rightarrow> u32 option) \<Rightarrow> (u64, Fault) result" where
  "sv32_translate satp priv sm mxr access va read_pte =
     (if priv = Machine \<or> satp AND SATP_MODE = 0 then Ok (unat va)
      else sv32_walk read_pte
        \<lparr>ctx_privilege = priv, ctx_sum = sm, ctx_mxr = mxr, ctx_access = access\<rparr>
        va 1 (satp AND SATP_PPN))"

subsection \<open>What an entry means\<close>

text \<open>
  The entry formats of the privileged specification: a valid pointer, and a leaf that permits the
  access. \<open>pte_bit\<close> names a flag by its position.
\<close>

definition pte_pointer :: "u32 \<Rightarrow> bool" where
  "pte_pointer pte \<longleftrightarrow> bit pte 0 \<and> \<not> bit pte 1 \<and> \<not> bit pte 2 \<and> \<not> bit pte 3
     \<and> \<not> bit pte 4 \<and> \<not> bit pte 6 \<and> \<not> bit pte 7"

definition pte_leaf_permits :: "Context \<Rightarrow> u32 \<Rightarrow> bool" where
  "pte_leaf_permits ctx pte \<longleftrightarrow>
     bit pte 0 \<and> bit pte 6
     \<and> (bit pte 2 \<longrightarrow> bit pte 1)
     \<and> (ctx_privilege ctx = User \<longrightarrow> bit pte 4)
     \<and> (ctx_privilege ctx = Supervisor \<longrightarrow> bit pte 4 \<longrightarrow> ctx_sum ctx \<and> ctx_access ctx \<noteq> AccFetch)
     \<and> (ctx_access ctx = AccFetch \<longrightarrow> bit pte 3)
     \<and> (ctx_access ctx = AccLoad \<longrightarrow> bit pte 1 \<or> ctx_mxr ctx \<and> bit pte 3)
     \<and> (ctx_access ctx = AccStore \<longrightarrow> bit pte 1 \<and> bit pte 2 \<and> bit pte 7)"

lemma has_bits:
  "pte AND PTE_V \<noteq> 0 \<longleftrightarrow> bit pte 0" "pte AND PTE_R \<noteq> 0 \<longleftrightarrow> bit pte 1"
  "pte AND PTE_W \<noteq> 0 \<longleftrightarrow> bit pte 2" "pte AND PTE_X \<noteq> 0 \<longleftrightarrow> bit pte 3"
  "pte AND PTE_U \<noteq> 0 \<longleftrightarrow> bit pte 4" "pte AND PTE_A \<noteq> 0 \<longleftrightarrow> bit pte 6"
  "pte AND PTE_D \<noteq> 0 \<longleftrightarrow> bit pte 7"
  unfolding PTE_bit_defs by (rule bit_and_pow2)+

lemma has_DAU: "pte AND (PTE_D OR PTE_A OR PTE_U) \<noteq> 0 \<longleftrightarrow> bit pte 4 \<or> bit pte 6 \<or> bit pte 7"
  unfolding bit.conj_disj_distrib or_eq_0_iff using has_bits by blast

lemma nat_bit_less: "b < 2 ^ k \<Longrightarrow> bit (b :: nat) n \<Longrightarrow> n < k"
  by (metis bit_take_bit_iff take_bit_nat_eq_self)

lemma nat_or_disjoint:
  assumes "b < 2 ^ k"
  shows "push_bit k a OR b = a * 2 ^ k + (b :: nat)"
proof -
  have "push_bit k a AND b = 0"
    using nat_bit_less [OF assms] by (intro bit_eqI) (fastforce simp: bit_and_iff bit_push_bit_iff)
  then show ?thesis by (simp add: disjunctive_add_eq_or push_bit_eq_mult)
qed

lemma low_bits:
  "unat (w AND 0x3FF :: u32) = unat w mod 1024" "unat (w AND 0xFFF :: u32) = unat w mod 4096"
  "unat (w AND 0x3FFFFF :: u32) = unat w mod 4194304"
  using unat_and_mask [of w 10] unat_and_mask [of w 12] unat_and_mask [of w 22]
  by (simp_all add: mask_eq_exp_minus_1)

lemma sv32_leaf_pa:
  "push_bit 22 (unat (drop_bit 20 pte)) OR unat (va AND 0x003FFFFF) =
     unat (pte :: u32) div 1048576 * 4194304 + unat (va :: u32) mod 4194304"
  "push_bit 12 (unat (drop_bit 10 pte)) OR unat (va AND 0xFFF) =
     unat pte div 1024 * 4096 + unat va mod 4096"
  by (subst nat_or_disjoint; simp add: low_bits unat_drop_bit)+

text \<open>One step of the walk, by the kind of the entry.\<close>

definition megapage_aligned :: "u32 \<Rightarrow> bool" where
  "megapage_aligned pte \<longleftrightarrow> unat pte div 1024 mod 1024 = 0"

lemma ppn_low_zero: "drop_bit 10 pte AND 0x3FF \<noteq> 0 \<longleftrightarrow> \<not> megapage_aligned pte"
  unfolding megapage_aligned_def
  by (simp add: word_unat_eq_iff low_bits unat_drop_bit)

lemma sv32_step_next_iff:
  "sv32_step ctx va level pte = WalkNext t \<longleftrightarrow> level \<noteq> 0 \<and> pte_pointer pte \<and> t = drop_bit 10 pte"
  unfolding sv32_step_def Let_def has_bits has_DAU pte_pointer_def by auto

lemma sv32_step_leaf_iff:
  "sv32_step ctx va level pte = WalkLeaf pa \<longleftrightarrow>
     pte_leaf_permits ctx pte \<and> (bit pte 1 \<or> bit pte 3) \<and> (level = 1 \<longrightarrow> megapage_aligned pte)
     \<and> pa = (if level = 1 then unat pte div 1048576 * 4194304 + unat va mod 4194304
             else unat pte div 1024 * 4096 + unat va mod 4096)"
  unfolding sv32_step_def Let_def has_bits has_DAU pte_leaf_permits_def ppn_low_zero sv32_leaf_pa
  by (cases "ctx_privilege ctx"; cases "ctx_access ctx") auto

lemma pte_leaf_permits_kind: "pte_leaf_permits ctx pte \<Longrightarrow> bit pte 1 \<or> bit pte 3"
  unfolding pte_leaf_permits_def by (cases "ctx_access ctx") auto

lemma sv32_step_fault:
  assumes "sv32_step ctx va level pte = WalkPageFault"
  shows "pte_leaf_permits ctx pte \<Longrightarrow> level = 1 \<and> \<not> megapage_aligned pte"
    and "pte_pointer pte \<Longrightarrow> level = 0"
  using assms sv32_step_leaf_iff [of ctx va level pte] sv32_step_next_iff [of ctx va level pte]
    pte_leaf_permits_kind [of ctx pte] by auto

subsection \<open>The whole walk\<close>

lemma sv32_walk_Ok_iff:
  "sv32_walk rd ctx va 1 root = Ok pa \<longleftrightarrow>
     (\<exists>pte1. rd (pte_address root va 1) = Some pte1 \<and>
        (pte_leaf_permits ctx pte1 \<and> megapage_aligned pte1
           \<and> pa = unat pte1 div 1048576 * 4194304 + unat va mod 4194304
         \<or> pte_pointer pte1 \<and>
           (\<exists>pte0. rd (pte_address (drop_bit 10 pte1) va 0) = Some pte0 \<and> pte_leaf_permits ctx pte0
             \<and> pa = unat pte0 div 1024 * 4096 + unat va mod 4096)))"
proof -
  have level0: "sv32_walk rd ctx va 0 t = Ok pa \<longleftrightarrow>
      (\<exists>pte. rd (pte_address t va 0) = Some pte \<and> sv32_step ctx va 0 pte = WalkLeaf pa)" for t
    by (subst sv32_walk.simps) (simp add: sv32_step_level0 split: option.split WalkStep.split)
  have level1: "sv32_walk rd ctx va 1 root = Ok pa \<longleftrightarrow>
      (\<exists>pte. rd (pte_address root va 1) = Some pte \<and>
        (sv32_step ctx va 1 pte = WalkLeaf pa
         \<or> (\<exists>t. sv32_step ctx va 1 pte = WalkNext t \<and> sv32_walk rd ctx va 0 t = Ok pa)))"
    by (subst sv32_walk.simps) (simp split: option.split WalkStep.split)
  show ?thesis
    unfolding level1 level0 sv32_step_leaf_iff sv32_step_next_iff
    using pte_leaf_permits_kind [of ctx] by fastforce
qed

text \<open>
  C20. An access in S or U under Sv32 translates to a physical address exactly when the page tables hold
  a leaf that permits it: either a level-1 leaf aligned to 4 MiB, or a valid pointer to a table
  whose level-0 entry is a permitting leaf. The address is the frame's base plus the offset of the
  virtual address; an access in M, or with \<^verbatim>\<open>satp\<close> bare, goes to its own address.
\<close>

theorem sv32_translate_Ok_iff:
  "sv32_translate satp p sm mxr access va rd = Ok pa \<longleftrightarrow>
     (let ctx = \<lparr>ctx_privilege = p, ctx_sum = sm, ctx_mxr = mxr, ctx_access = access\<rparr>;
          root = unat satp mod 4194304
      in if p \<noteq> Machine \<and> bit satp 31 then
           \<exists>pte1. rd (root * 4096 + unat va div 4194304 * 4) = Some pte1 \<and>
           (pte_leaf_permits ctx pte1 \<and> megapage_aligned pte1
              \<and> pa = unat pte1 div 1048576 * 4194304 + unat va mod 4194304
            \<or> pte_pointer pte1 \<and>
              (\<exists>pte0. rd (unat pte1 div 1024 * 4096 + unat va div 4096 mod 1024 * 4) = Some pte0
                \<and> pte_leaf_permits ctx pte0
                \<and> pa = unat pte0 div 1024 * 4096 + unat va mod 4096))
         else pa = unat va)"
proof -
  have mode: "satp AND SATP_MODE = 0 \<longleftrightarrow> \<not> bit satp 31"
    unfolding SATP_MODE_def using bit_and_pow2 [of satp 31] by blast
  have "unat va div 4194304 mod 1024 = unat va div 4194304"
    using unat_less_2p32 [of va] by (intro mod_less) (simp add: div_less_iff_less_mult)
  then have addr: "pte_address t va 1 = unat t * 4096 + unat va div 4194304 * 4"
    "pte_address t va 0 = unat t * 4096 + unat va div 4096 mod 1024 * 4" for t
    by (simp_all add: pte_address_def PAGE_SIZE_def vpn_def low_bits unat_drop_bit)
  show ?thesis
    by (cases "p = Machine \<or> \<not> bit satp 31")
      (auto simp: sv32_translate_def mode Let_def sv32_walk_Ok_iff [unfolded One_nat_def]
        addr [unfolded One_nat_def] unat_drop_bit SATP_PPN_def low_bits)
qed

text \<open>
  A translated address keeps the page offset of the virtual address and has at most 34 bits.
\<close>

theorem sv32_translate_bounds:
  assumes "sv32_translate satp p sm mxr access va rd = Ok pa"
  shows "pa < 2 ^ PA_BITS \<and> pa mod PAGE_SIZE = unat va mod PAGE_SIZE"
proof -
  have leaf: "unat (q :: u32) div 1048576 * 4194304 + unat va mod 4194304 < 2 ^ 34"
    "unat q div 1024 * 4096 + unat va mod 4096 < 2 ^ 34" for q
  proof -
    have "unat q div 1048576 < 4096" "unat q div 1024 < 4194304"
      by (rule less_mult_imp_div_less; simp)+
    moreover have "unat va mod 4194304 < 4194304" "unat va mod 4096 < 4096" by simp_all
    ultimately show "unat q div 1048576 * 4194304 + unat va mod 4194304 < 2 ^ 34"
      "unat q div 1024 * 4096 + unat va mod 4096 < 2 ^ 34" by simp_all
  qed
  have off: "(k * 4194304 + n mod 4194304) mod 4096 = n mod 4096" for k n :: nat
    by (simp add: mod_add_eq [symmetric, of "k * 4194304"] mod_mod_cancel mod_mult_eq [symmetric, of k])
  have "unat va < 2 ^ 34" by (rule order_less_trans [OF unat_less_2p32]) simp
  with assms leaf show ?thesis
    unfolding sv32_translate_def
    by (auto simp: sv32_walk_Ok_iff [unfolded One_nat_def] PA_BITS_def PAGE_SIZE_def off split: if_splits)
qed

theorem sv32_translate_bounds_witness:
  "\<exists>pa. sv32_translate (0x80000001 :: u32) User False False AccLoad 0x00001234
      (\<lambda>a. if a = 4096 then Some 0x801 else if a = 8196 then Some 0xC53 else None) = Ok pa
     \<and> pa < 2 ^ PA_BITS \<and> pa mod PAGE_SIZE = 0x234"
proof -
  let ?rd = "\<lambda>a :: nat. if a = 4096 then Some (0x801 :: u32) else if a = 8196 then Some 0xC53 else None"
  have "sv32_translate (0x80000001 :: u32) User False False AccLoad 0x00001234 ?rd = Ok 0x3234"
    by (simp add: sv32_translate_def SATP_MODE_def SATP_PPN_def sv32_walk.simps pte_address_def
        vpn_def PAGE_SIZE_def sv32_step_def PTE_bit_defs)
  from this sv32_translate_bounds [OF this] show ?thesis by (auto simp: PAGE_SIZE_def)
qed

end
