(* ===== verification/Rv32_Cpu.thy ===== *)
theory Rv32_Cpu
  imports Rv32_Sv32
begin

section \<open>The RV32I CPU component\<close>

text \<open>
  Models \<^verbatim>\<open>components/rv32i/src/cpu.rs\<close>: the configuration, the execution states, the decoding of a
  fetched word against the profile and the mode (\<open>cpu_step\<close>), and every event handler: wakes, memory
  responses, page-walk responses, the commit of an instruction and the interrupt line. A handler
  gives the new CPU and context, an \<open>Abort\<close> with the session fault it raises, or \<open>Panic\<close> where the
  source would index out of range, overflow or fail an \<^verbatim>\<open>expect\<close>. Snapshots and \<^verbatim>\<open>inspect\<close> are not
  modelled.
\<close>

subsection \<open>Configuration and state\<close>

definition PORT :: PortId where "PORT = 0"
definition IRQ_PORT :: PortId where "IRQ_PORT = 1"
definition FETCH :: u64 where "FETCH = 0"
definition MEMORY :: u64 where "MEMORY = 1"
definition COMMIT :: u64 where "COMMIT = 2"
definition WALK :: u64 where "WALK = 3"

lemmas token_defs = FETCH_def MEMORY_def COMMIT_def WALK_def

definition COMMIT_KIND :: string where "COMMIT_KIND = ''rv32.commit''"
definition TRAP_KIND :: string where "TRAP_KIND = ''rv32.trap''"
definition HALT_KIND :: string where "HALT_KIND = ''rv32.halt''"
definition INTERRUPT_KIND :: string where "INTERRUPT_KIND = ''rv32.interrupt''"
definition EXCEPTION_KIND :: string where "EXCEPTION_KIND = ''rv32.exception''"

datatype Rv32iProfile = M1 | M2 | M3

record Rv32iConfig =
  cfg_clock :: ClockDomainId
  cfg_entry :: u32
  cfg_max_instructions :: u64
  cfg_profile :: Rv32iProfile

datatype CpuConfigError = MisalignedEntry u32

record RvTrap =
  rt_cause :: TrapCause
  rt_pc :: u32
  rt_tval :: u32

datatype Halt = HaltTrap RvTrap | InstructionLimit

datatype Purpose = PurposeFetch | PurposeData u32 MemoryPlan

record Walk =
  wk_purpose :: Purpose
  wk_level :: nat
  wk_table :: u32

record PendingCsr =
  pc_csr :: u16
  pc_op :: CsrOp
  pc_write :: bool
  pc_operand :: u32
  pc_rd :: Reg
  pc_next_pc :: u32

datatype Outcome = OExec ExecOutcome | OCsr PendingCsr | OMret | OSret

datatype State =
    FetchIssue "u64 option"
  | FetchWait TxnId "u64 option"
  | MemIssue u32 MemoryPlan "u64 option"
  | MemWait TxnId u32 MemoryPlan "u64 option"
  | WalkIssue Walk
  | WalkWait TxnId Walk
  | CommitPending "u32 option" Outcome "u64 option"
  | Halted Halt

datatype Step = StepDone Outcome | StepMemory MemoryPlan

datatype Isa = IsaM1 | IsaM2 | IsaM3 Privilege

record Rv32iCpu =
  config :: Rv32iConfig
  cpu_pc :: u32
  cpu_regs :: RegisterFile
  instret :: u64
  next_txn :: u64
  cpu_state :: State
  csrs :: CsrFile
  m3 :: M3State

definition Rv32iCpu_new :: "Rv32iConfig \<Rightarrow> (Rv32iCpu, CpuConfigError) result" where
  "Rv32iCpu_new cfg =
     (if \<not> 4 dvd unat (cfg_entry cfg) then Err (MisalignedEntry (cfg_entry cfg))
      else Ok \<lparr>config = cfg, cpu_pc = cfg_entry cfg, cpu_regs = RegisterFile_new, instret = 0,
               next_txn = 0, cpu_state = FetchIssue None, csrs = CsrFile_new, m3 = M3State_new\<rparr>)"

fun Purpose_access :: "Purpose \<Rightarrow> Access" where
  "Purpose_access PurposeFetch = AccFetch"
| "Purpose_access (PurposeData _ (PlanLoad _)) = AccLoad"
| "Purpose_access (PurposeData _ (PlanStore _)) = AccStore"

fun plan_addr :: "MemoryPlan \<Rightarrow> u32" where
  "plan_addr (PlanLoad load) = lp_addr load"
| "plan_addr (PlanStore store) = sp_addr store"

subsection \<open>What a fetched word does\<close>

definition illegal :: "u32 \<Rightarrow> Outcome" where
  "illegal word = OExec (Trap \<lparr>pt_cause = IllegalInstruction, pt_tval = word\<rparr>)"

fun sources :: "Instr \<Rightarrow> Reg \<times> Reg" where
  "sources (Jalr _ s1 _) = (s1, Reg_ZERO)"
| "sources (Load _ _ s1 _) = (s1, Reg_ZERO)"
| "sources (OpImm _ _ s1 _) = (s1, Reg_ZERO)"
| "sources (ShiftImm _ _ s1 _) = (s1, Reg_ZERO)"
| "sources (Branch _ s1 s2 _) = (s1, s2)"
| "sources (Store _ s1 s2 _) = (s1, s2)"
| "sources (Op _ _ s1 s2) = (s1, s2)"
| "sources _ = (Reg_ZERO, Reg_ZERO)"

text \<open>\<open>None\<close> is an out-of-range register index, which panics.\<close>

definition csr_operation ::
    "CsrOp \<Rightarrow> Reg \<Rightarrow> CsrSource \<Rightarrow> u16 \<Rightarrow> bool \<Rightarrow> u32 \<Rightarrow> RegisterFile \<Rightarrow> PendingCsr option" where
  "csr_operation cop rd src csr wr pc regs =
     map_option (\<lambda>operand. \<lparr>pc_csr = csr, pc_op = cop, pc_write = wr, pc_operand = operand,
                            pc_rd = rd, pc_next_pc = pc + 4\<rparr>)
       (case src of SrcReg s1 \<Rightarrow> regfile_read regs s1 | SrcImm uimm \<Rightarrow> Some (ucast uimm))"

fun privileged :: "PrivInstr \<Rightarrow> u32 \<Rightarrow> u32 \<Rightarrow> RegisterFile \<Rightarrow> Outcome option" where
  "privileged Mret word pc regs = Some OMret"
| "privileged (Csr cop rd src csr) word pc regs =
     (if \<not> is_supported_m2 csr then Some (illegal word)
      else map_option OCsr
        (csr_operation cop rd src csr (PrivInstr_writes (Csr cop rd src csr)) pc regs))"

text \<open>The outer option: whether \<open>word\<close> is a privileged instruction; the inner one: a panic.\<close>

definition privileged_m3 :: "Privilege \<Rightarrow> u32 \<Rightarrow> u32 \<Rightarrow> RegisterFile \<Rightarrow> Outcome option option" where
  "privileged_m3 mode word pc regs =
     (case decode_privileged word of
        Some instr \<Rightarrow>
          Some (case instr of
            Mret \<Rightarrow> if mode = Machine then Some OMret else Some (illegal word)
          | Csr cop rd src csr \<Rightarrow>
              if \<not> is_supported_m3 csr \<or> \<not> accessible csr mode (PrivInstr_writes instr)
              then Some (illegal word)
              else map_option OCsr (csr_operation cop rd src csr (PrivInstr_writes instr) pc regs))
      | None \<Rightarrow>
          map_option
            (\<lambda>s. if mode = User then Some (illegal word)
                 else case s of
                   Sret \<Rightarrow> Some OSret
                 | SfenceVma \<Rightarrow> Some (OExec (Effect \<lparr>pe_reg_write = None, pe_next_pc = pc + 4\<rparr>)))
            (decode_supervisor word))"

fun ecall_cause :: "Isa \<Rightarrow> ExecOutcome \<Rightarrow> ExecOutcome" where
  "ecall_cause (IsaM3 mode) (Trap t) =
     (if pt_cause t = EnvironmentCall then
        Trap \<lparr>pt_cause = (case mode of User \<Rightarrow> EnvironmentCallFromU
                                    | Supervisor \<Rightarrow> EnvironmentCallFromS
                                    | Machine \<Rightarrow> EnvironmentCall), pt_tval = pt_tval t\<rparr>
      else Trap t)"
| "ecall_cause _ outcome = outcome"

definition result_ok :: "('a, 'e) result \<Rightarrow> 'a option" where
  "result_ok r = (case r of Ok x \<Rightarrow> Some x | Err _ \<Rightarrow> None)"

text \<open>The base instruction set, each family by its function.\<close>

definition step_base :: "Isa \<Rightarrow> u32 \<Rightarrow> u32 \<Rightarrow> RegisterFile \<Rightarrow> Step option" where
  "step_base isa word pc regs =
     (case decode word of
        Err (Illegal w) \<Rightarrow>
          Some (StepDone (OExec (Trap \<lparr>pt_cause = IllegalInstruction, pt_tval = w\<rparr>)))
      | Ok instr \<Rightarrow>
          (case sources instr of (s1, s2) \<Rightarrow>
             Option.bind (regfile_read regs s1) (\<lambda>a.
             Option.bind (regfile_read regs s2) (\<lambda>b.
               (let alu = map_option (\<lambda>e. StepDone (OExec (Effect e))) (result_ok (execute_alu instr pc a b));
                    control = map_option (\<lambda>x. StepDone (OExec x)) (result_ok (execute_control instr pc a b));
                    system = map_option (\<lambda>x. StepDone (OExec (ecall_cause isa x))) (result_ok (execute_system instr pc));
                    mem = map_option (\<lambda>prep. case prep of
                              PrepRequest plan \<Rightarrow> StepMemory plan
                            | PrepTrap trap \<Rightarrow> StepDone (OExec (Trap trap)))
                            (result_ok (prepare_memory instr pc a b))
                in case instr of
                     Lui _ _ \<Rightarrow> alu | Auipc _ _ \<Rightarrow> alu | OpImm _ _ _ _ \<Rightarrow> alu
                   | ShiftImm _ _ _ _ \<Rightarrow> alu | Op _ _ _ _ \<Rightarrow> alu
                   | Jal _ _ \<Rightarrow> control | Jalr _ _ _ \<Rightarrow> control | Branch _ _ _ _ \<Rightarrow> control
                   | Fence \<Rightarrow> system | Ecall \<Rightarrow> system | Ebreak \<Rightarrow> system
                   | Load _ _ _ _ \<Rightarrow> mem | Store _ _ _ _ \<Rightarrow> mem)))))"

fun cpu_step :: "Isa \<Rightarrow> u32 \<Rightarrow> u32 \<Rightarrow> RegisterFile \<Rightarrow> Step option" where
  "cpu_step IsaM1 word pc regs = step_base IsaM1 word pc regs"
| "cpu_step IsaM2 word pc regs =
     (case decode_privileged word of
        Some instr \<Rightarrow> map_option StepDone (privileged instr word pc regs)
      | None \<Rightarrow> step_base IsaM2 word pc regs)"
| "cpu_step (IsaM3 mode) word pc regs =
     (case privileged_m3 mode word pc regs of
        Some outcome \<Rightarrow> map_option StepDone outcome
      | None \<Rightarrow> step_base (IsaM3 mode) word pc regs)"

fun completion_fault :: "MemoryCompletionError \<Rightarrow> SimError" where
  "completion_fault (DataLength _ _) = ComponentFault ''rv32 cpu: load data of the wrong length''"
| "completion_fault ResponseKind = ComponentFault ''rv32 cpu: memory response of the wrong kind''"

subsection \<open>Accessors\<close>

definition cpu_isa :: "Rv32iCpu \<Rightarrow> Isa" where
  "cpu_isa c = (case cfg_profile (config c) of M1 \<Rightarrow> IsaM1 | M2 \<Rightarrow> IsaM2 | M3 \<Rightarrow> IsaM3 (privilege (m3 c)))"

definition translating :: "Rv32iCpu \<Rightarrow> bool" where
  "translating c \<longleftrightarrow> cfg_profile (config c) = M3 \<and> translates (m3 c)"

definition walk_va :: "Rv32iCpu \<Rightarrow> Walk \<Rightarrow> u32" where
  "walk_va c walk = (case wk_purpose walk of PurposeFetch \<Rightarrow> cpu_pc c | PurposeData _ plan \<Rightarrow> plan_addr plan)"

definition read_csr :: "Rv32iCpu \<Rightarrow> u16 \<Rightarrow> u32 option" where
  "read_csr c csr =
     (case cfg_profile (config c) of
        M3 \<Rightarrow> M3_read (m3 c) (csrs c) csr
      | _ \<Rightarrow> CsrFile_read (csrs c) csr)"

definition write_csr :: "Rv32iCpu \<Rightarrow> u16 \<Rightarrow> u32 \<Rightarrow> Rv32iCpu option" where
  "write_csr c csr value =
     (case cfg_profile (config c) of
        M3 \<Rightarrow> map_option (\<lambda>(s, m). c\<lparr>m3 := s, csrs := m\<rparr>) (M3_write (m3 c) (csrs c) csr value)
      | _ \<Rightarrow> map_option (\<lambda>m. c\<lparr>csrs := m\<rparr>) (CsrFile_write (csrs c) csr value))"

definition halt :: "Rv32iCpu \<Rightarrow> Halt option" where
  "halt c = (case cpu_state c of Halted h \<Rightarrow> Some h | _ \<Rightarrow> None)"

fun TrapCause_name :: "TrapCause \<Rightarrow> string" where
  "TrapCause_name InstructionAddressMisaligned = ''InstructionAddressMisaligned''"
| "TrapCause_name LoadAddressMisaligned = ''LoadAddressMisaligned''"
| "TrapCause_name LoadAccessFault = ''LoadAccessFault''"
| "TrapCause_name StoreAddressMisaligned = ''StoreAddressMisaligned''"
| "TrapCause_name StoreAccessFault = ''StoreAccessFault''"
| "TrapCause_name InstructionAccessFault = ''InstructionAccessFault''"
| "TrapCause_name IllegalInstruction = ''IllegalInstruction''"
| "TrapCause_name Breakpoint = ''Breakpoint''"
| "TrapCause_name EnvironmentCall = ''EnvironmentCall''"
| "TrapCause_name EnvironmentCallFromU = ''EnvironmentCallFromU''"
| "TrapCause_name EnvironmentCallFromS = ''EnvironmentCallFromS''"
| "TrapCause_name InstructionPageFault = ''InstructionPageFault''"
| "TrapCause_name LoadPageFault = ''LoadPageFault''"
| "TrapCause_name StorePageFault = ''StorePageFault''"

definition TrapCause_m3_name :: "TrapCause \<Rightarrow> string" where
  "TrapCause_m3_name cause =
     (if cause = EnvironmentCall then ''EnvironmentCallFromM'' else TrapCause_name cause)"

fun Privilege_name :: "Privilege \<Rightarrow> string" where
  "Privilege_name User = ''U''"
| "Privilege_name Supervisor = ''S''"
| "Privilege_name Machine = ''M''"

definition cause_name :: "Rv32iCpu \<Rightarrow> TrapCause \<Rightarrow> string" where
  "cause_name c cause =
     (if cfg_profile (config c) = M3 then TrapCause_m3_name cause else TrapCause_name cause)"

subsection \<open>Scheduling and sending\<close>

definition wake_next_cycle :: "Rv32iCpu \<Rightarrow> u64 \<Rightarrow> SimContext \<Rightarrow> (SimContext, Abort) result" where
  "wake_next_cycle c token ctx = ctx_wake_self (WhenCycles (cfg_clock (config c)) 1) PhRequest token ctx"

definition fetch_next :: "Rv32iCpu \<Rightarrow> SimContext \<Rightarrow> Rv32iCpu handled" where
  "fetch_next c ctx =
     (if translating c then
        (let c' = c\<lparr>cpu_state := WalkIssue \<lparr>wk_purpose = PurposeFetch, wk_level = 1, wk_table = M3_root (m3 c)\<rparr>\<rparr>
         in result_bind (wake_next_cycle c' WALK ctx) (\<lambda>ctx'. Ok (c', ctx')))
      else
        (let c' = c\<lparr>cpu_state := FetchIssue None\<rparr>
         in result_bind (wake_next_cycle c' FETCH ctx) (\<lambda>ctx'. Ok (c', ctx'))))"

text \<open>The \<^verbatim>\<open>M1\<close> counter is incremented with overflow checks; \<^verbatim>\<open>M2\<close> and \<^verbatim>\<open>M3\<close> fault before sending.\<close>

definition cpu_send :: "Rv32iCpu \<Rightarrow> SimContext \<Rightarrow> (TxnId \<Rightarrow> MemMsg) \<Rightarrow> (Rv32iCpu \<times> SimContext \<times> TxnId, Abort) result" where
  "cpu_send c ctx msg =
     (let txn = next_txn c in
      if cfg_profile (config c) = M1 then
        result_bind (ctx_send PORT (MsgMemV1 (msg txn)) WhenNow PhRequest ctx) (\<lambda>ctx'.
          if txn = u64_max then Err Panic else Ok (c\<lparr>next_txn := txn + 1\<rparr>, ctx', txn))
      else if txn = u64_max then component_fault ''rv32 cpu: TxnId space exhausted''
      else
        result_bind (ctx_send PORT (MsgMemV1 (msg txn)) WhenNow PhRequest ctx) (\<lambda>ctx'.
          Ok (c\<lparr>next_txn := txn + 1\<rparr>, ctx', txn)))"

subsection \<open>Commit\<close>

definition u64_of :: "u32 \<Rightarrow> TraceValue" where
  "u64_of w = VU64 (unat w)"

definition store_trace_value :: "u8 list \<Rightarrow> u64" where
  "store_trace_value data = fold (\<lambda>b v. push_bit 8 v OR unat b) (rev data) 0"

definition commit_fields :: "Rv32iCpu \<Rightarrow> u32 \<Rightarrow> PendingEffect \<Rightarrow> u64 option \<Rightarrow> TraceFields option" where
  "commit_fields c insn effect pa =
     (let (rd, rd_value) =
            (case pe_reg_write effect of
               Some w \<Rightarrow> if rw_rd w \<noteq> Reg_ZERO then (unat (reg_index (rw_rd w)), rw_value w) else (0, 0)
             | None \<Rightarrow> (0, 0));
          isa = cpu_isa c;
          base = [(''pc'', u64_of (cpu_pc c)), (''insn'', u64_of insn), (''rd'', VU64 rd),
                  (''rd_value'', u64_of rd_value), (''next_pc'', u64_of (pe_next_pc effect))]
            @ (case isa of IsaM3 mode \<Rightarrow> [(''priv'', VU64 (unat (Privilege_bits mode)))] | _ \<Rightarrow> []);
          paddr = (\<lambda>addr. case isa of
                     IsaM3 _ \<Rightarrow> [(''paddr'', VU64 (case pa of Some p \<Rightarrow> p | None \<Rightarrow> unat addr))]
                   | _ \<Rightarrow> [])
      in map_option
           (\<lambda>s. base @ (case s of
                StepMemory (PlanLoad load) \<Rightarrow> [(''addr'', u64_of (lp_addr load))] @ paddr (lp_addr load)
              | StepMemory (PlanStore store) \<Rightarrow>
                  [(''addr'', u64_of (sp_addr store))] @ paddr (sp_addr store)
                  @ [(''width'', VU64 (length (sp_data store))),
                     (''value'', VU64 (store_trace_value (sp_data store)))]
              | StepDone _ \<Rightarrow> []))
           (cpu_step isa insn (cpu_pc c) (cpu_regs c)))"

definition unsupported_csr :: Abort where
  "unsupported_csr =
     Fault_session (ComponentFault ''rv32 cpu: pending CSR operation on an unsupported CSR'')"

definition commit_csr :: "Rv32iCpu \<Rightarrow> u32 \<Rightarrow> PendingCsr \<Rightarrow> (Rv32iCpu \<times> TraceFields, Abort) result" where
  "commit_csr c insn p =
     result_bind (ok_or (read_csr c (pc_csr p)) unsupported_csr) (\<lambda>old.
     let effect = \<lparr>pe_reg_write = Some \<lparr>rw_rd = pc_rd p, rw_value = old\<rparr>, pe_next_pc = pc_next_pc p\<rparr> in
     result_bind (ok_or (commit_fields c insn effect None) Panic) (\<lambda>fields0.
     let fields = fields0 @ [(''csr'', VU64 (unat (pc_csr p)))] in
     result_bind
       (if pc_write p then
          result_bind (ok_or (write_csr c (pc_csr p) (CsrOp_apply (pc_op p) old (pc_operand p))) unsupported_csr) (\<lambda>c1.
          result_bind (ok_or (read_csr c1 (pc_csr p)) unsupported_csr) (\<lambda>stored.
          Ok (c1, fields @ [(''csr_value'', u64_of stored)])))
        else Ok (c, fields)) (\<lambda>(c1, fields1).
     result_bind (ok_or (regfile_write (cpu_regs c1) (pc_rd p) old) Panic) (\<lambda>regs.
     Ok (c1\<lparr>cpu_regs := regs, cpu_pc := pc_next_pc p\<rparr>, fields1)))))"

text \<open>The trap branch of \<^verbatim>\<open>commit\<close>: a delegated exception is delivered to S, any other halts.\<close>

definition commit_trap :: "Rv32iCpu \<Rightarrow> u32 option \<Rightarrow> PendingTrap \<Rightarrow> SimContext \<Rightarrow> Rv32iCpu handled" where
  "commit_trap c insn t ctx =
     (let cause = pt_cause t; tval = pt_tval t; pc = cpu_pc c;
          insn0 = u64_of (case insn of Some w \<Rightarrow> w | None \<Rightarrow> 0)
      in case (if cfg_profile (config c) = M3 then take_exception (m3 c) cause pc tval else None) of
           Some (s', handler) \<Rightarrow>
             fetch_next (c\<lparr>m3 := s', cpu_pc := handler\<rparr>)
               (ctx_trace EXCEPTION_KIND
                  [(''pc'', u64_of pc), (''insn'', insn0), (''cause'', VStr (TrapCause_m3_name cause)),
                   (''tval'', u64_of tval), (''from'', VStr (Privilege_name (privilege (m3 c)))),
                   (''to'', VStr (Privilege_name (privilege s')))] ctx)
         | None \<Rightarrow>
             Ok (c\<lparr>cpu_state := Halted (HaltTrap \<lparr>rt_cause = cause, rt_pc = pc, rt_tval = tval\<rparr>)\<rparr>,
                 ctx_trace TRAP_KIND
                   [(''pc'', u64_of pc), (''insn'', insn0), (''cause'', VStr (cause_name c cause)),
                    (''tval'', u64_of tval)] ctx))"

text \<open>The retiring outcomes of \<^verbatim>\<open>commit\<close>: the new architectural state and the trace fields.\<close>

fun commit_apply :: "Rv32iCpu \<Rightarrow> u32 \<Rightarrow> Outcome \<Rightarrow> u64 option \<Rightarrow> (Rv32iCpu \<times> TraceFields, Abort) result" where
  "commit_apply c insn (OExec (Trap _)) pa = Err Panic"
| "commit_apply c insn (OExec (Effect e)) pa =
     result_bind (ok_or (commit_fields c insn e pa) Panic) (\<lambda>fields.
     result_bind
       (case pe_reg_write e of
          Some w \<Rightarrow> ok_or (regfile_write (cpu_regs c) (rw_rd w) (rw_value w)) Panic
        | None \<Rightarrow> Ok (cpu_regs c)) (\<lambda>regs.
     Ok (c\<lparr>cpu_regs := regs, cpu_pc := pe_next_pc e\<rparr>, fields)))"
| "commit_apply c insn (OCsr p) pa = commit_csr c insn p"
| "commit_apply c insn OMret pa =
     result_bind (ok_or (commit_fields c insn \<lparr>pe_reg_write = None, pe_next_pc = c_mepc (csrs c)\<rparr> None) Panic) (\<lambda>fields.
     Ok (case cfg_profile (config c) of
           M3 \<Rightarrow> (case M3_mret (m3 c) (csrs c) of (s, m, pc) \<Rightarrow> c\<lparr>m3 := s, csrs := m, cpu_pc := pc\<rparr>)
         | _ \<Rightarrow> (case CsrFile_mret (csrs c) of (m, pc) \<Rightarrow> c\<lparr>csrs := m, cpu_pc := pc\<rparr>), fields))"
| "commit_apply c insn OSret pa =
     result_bind (ok_or (commit_fields c insn \<lparr>pe_reg_write = None, pe_next_pc = s_sepc (m3 c)\<rparr> None) Panic) (\<lambda>fields.
     Ok (case M3_sret (m3 c) of (s, pc) \<Rightarrow> c\<lparr>m3 := s, cpu_pc := pc\<rparr>, fields))"

text \<open>The interrupt is sampled here and nowhere else.\<close>

definition sample_interrupt :: "Rv32iCpu \<Rightarrow> SimContext \<Rightarrow> Rv32iCpu \<times> SimContext" where
  "sample_interrupt c ctx =
     (let fields = (\<lambda>c'. [(''mepc'', u64_of (c_mepc (csrs c'))), (''mcause'', u64_of (c_mcause (csrs c'))),
                          (''handler'', u64_of (cpu_pc c'))])
      in if cfg_profile (config c) = M2 \<and> CsrFile_mei_eligible (csrs c) then
           (let (m, pc) = CsrFile_take_mei (csrs c) (cpu_pc c); c' = c\<lparr>csrs := m, cpu_pc := pc\<rparr>
            in (c', ctx_trace INTERRUPT_KIND (fields c') ctx))
         else if cfg_profile (config c) = M3 \<and> M3_mei_eligible (m3 c) (csrs c) then
           (let (s, m, pc) = M3_take_mei (m3 c) (csrs c) (cpu_pc c);
                c' = c\<lparr>m3 := s, csrs := m, cpu_pc := pc\<rparr>
            in (c', ctx_trace INTERRUPT_KIND
                      (fields c' @ [(''from'', VStr (Privilege_name (privilege (m3 c))))]) ctx))
         else (c, ctx))"

definition commit_retire :: "Rv32iCpu \<Rightarrow> TraceFields \<Rightarrow> SimContext \<Rightarrow> Rv32iCpu handled" where
  "commit_retire c fs ctx =
     (if instret c = u64_max then Err Panic
      else
        (let c1 = c\<lparr>instret := instret c + 1\<rparr>;
             ctx1 = ctx_trace COMMIT_KIND fs ctx
         in if instret c1 \<ge> cfg_max_instructions (config c1) then
              Ok (c1\<lparr>cpu_state := Halted InstructionLimit\<rparr>,
                  ctx_trace HALT_KIND [(''instret'', VU64 (instret c1))] ctx1)
            else (case sample_interrupt c1 ctx1 of (c2, ctx2) \<Rightarrow> fetch_next c2 ctx2)))"

definition commit :: "Rv32iCpu \<Rightarrow> u32 option \<Rightarrow> Outcome \<Rightarrow> u64 option \<Rightarrow> SimContext \<Rightarrow> Rv32iCpu handled" where
  "commit c insn outcome pa ctx =
     (case outcome of
        OExec (Trap t) \<Rightarrow> commit_trap c insn t ctx
      | _ \<Rightarrow>
          (case insn of
             None \<Rightarrow> component_fault ''rv32 cpu: a retiring instruction has no instruction word''
           | Some w \<Rightarrow>
               result_bind (commit_apply c w outcome pa) (\<lambda>(c1, fields). commit_retire c1 fields ctx)))"

subsection \<open>Events\<close>

definition request_of :: "MemoryPlan \<Rightarrow> u64 \<Rightarrow> TxnId \<Rightarrow> MemMsg" where
  "request_of plan addr txn =
     (case plan of
        PlanLoad load \<Rightarrow> ReadReq txn addr (MemWidth_bytes (lp_width load))
      | PlanStore store \<Rightarrow> WriteReq txn addr (sp_data store))"

definition cpu_wake :: "Rv32iCpu \<Rightarrow> u64 \<Rightarrow> SimContext \<Rightarrow> Rv32iCpu handled" where
  "cpu_wake c token ctx =
     (case cpu_state c of
        FetchIssue pa \<Rightarrow>
          if token = FETCH then
            (let addr = (case pa of Some p \<Rightarrow> p | None \<Rightarrow> unat (cpu_pc c)) in
             result_bind (cpu_send c ctx (\<lambda>txn. ReadReq txn addr 4)) (\<lambda>(c', ctx', txn).
               Ok (c'\<lparr>cpu_state := FetchWait txn pa\<rparr>, ctx')))
          else component_fault ''rv32 cpu: wake does not match the execution state''
      | MemIssue insn plan pa \<Rightarrow>
          if token = MEMORY then
            (let addr = (case pa of Some p \<Rightarrow> p | None \<Rightarrow> unat (plan_addr plan)) in
             result_bind (cpu_send c ctx (request_of plan addr)) (\<lambda>(c', ctx', txn).
               Ok (c'\<lparr>cpu_state := MemWait txn insn plan pa\<rparr>, ctx')))
          else component_fault ''rv32 cpu: wake does not match the execution state''
      | WalkIssue walk \<Rightarrow>
          if token = WALK then
            (let addr = pte_address (wk_table walk) (walk_va c walk) (wk_level walk) in
             result_bind (cpu_send c ctx (\<lambda>txn. ReadReq txn addr 4)) (\<lambda>(c', ctx', txn).
               Ok (c'\<lparr>cpu_state := WalkWait txn walk\<rparr>, ctx')))
          else component_fault ''rv32 cpu: wake does not match the execution state''
      | CommitPending insn outcome pa \<Rightarrow>
          if token = COMMIT then commit c insn outcome pa ctx
          else component_fault ''rv32 cpu: wake does not match the execution state''
      | _ \<Rightarrow> component_fault ''rv32 cpu: wake does not match the execution state'')"

definition to_commit :: "Rv32iCpu \<Rightarrow> u32 option \<Rightarrow> Outcome \<Rightarrow> u64 option \<Rightarrow> SimContext \<Rightarrow> Rv32iCpu handled" where
  "to_commit c insn outcome pa ctx =
     result_bind (ctx_wake_self WhenNow PhCommit COMMIT ctx) (\<lambda>ctx'.
       Ok (c\<lparr>cpu_state := CommitPending insn outcome pa\<rparr>, ctx'))"

definition walk_response :: "Rv32iCpu \<Rightarrow> Walk \<Rightarrow> MemMsg \<Rightarrow> SimContext \<Rightarrow> Rv32iCpu handled" where
  "walk_response c walk msg ctx =
     (let access = Purpose_access (wk_purpose walk);
          va = walk_va c walk;
          context = \<lparr>ctx_privilege = privilege (m3 c), ctx_sum = s_sum (m3 c),
                     ctx_mxr = s_mxr (m3 c), ctx_access = access\<rparr>;
          fault = (\<lambda>f. to_commit c
                     (case wk_purpose walk of PurposeFetch \<Rightarrow> None | PurposeData insn _ \<Rightarrow> Some insn)
                     (OExec (Trap \<lparr>pt_cause = Fault_cause f access, pt_tval = va\<rparr>)) None ctx)
      in case msg of
           ReadResp _ (ReadData data) \<Rightarrow>
             if length data \<noteq> 4 then component_fault ''rv32 cpu: PTE read returned other than 4 bytes''
             else
               (case sv32_step context va (wk_level walk) (u32_from_le_bytes data) of
                  WalkNext table \<Rightarrow>
                    if wk_level walk = 0 then Err Panic
                    else
                      (let c' = c\<lparr>cpu_state := WalkIssue (walk\<lparr>wk_level := wk_level walk - 1, wk_table := table\<rparr>)\<rparr>
                       in result_bind (wake_next_cycle c' WALK ctx) (\<lambda>ctx'. Ok (c', ctx')))
                | WalkLeaf pa \<Rightarrow>
                    (case wk_purpose walk of
                       PurposeFetch \<Rightarrow>
                         (let c' = c\<lparr>cpu_state := FetchIssue (Some pa)\<rparr>
                          in result_bind (wake_next_cycle c' FETCH ctx) (\<lambda>ctx'. Ok (c', ctx')))
                     | PurposeData insn plan \<Rightarrow>
                         (let c' = c\<lparr>cpu_state := MemIssue insn plan (Some pa)\<rparr>
                          in result_bind (wake_next_cycle c' MEMORY ctx) (\<lambda>ctx'. Ok (c', ctx'))))
                | WalkPageFault \<Rightarrow> fault FaultPage)
         | ReadResp _ (ReadFault _) \<Rightarrow> fault FaultAccess
         | _ \<Rightarrow> component_fault ''rv32 cpu: write response to a PTE read'')"

text \<open>The three states that wait for a response, each with its part of \<^verbatim>\<open>response\<close>.\<close>

definition fetch_response :: "Rv32iCpu \<Rightarrow> MemMsg \<Rightarrow> SimContext \<Rightarrow> Rv32iCpu handled" where
  "fetch_response c msg ctx =
     (case msg of
        ReadResp _ (ReadData data) \<Rightarrow>
          if length data \<noteq> 4 then component_fault ''rv32 cpu: fetch returned other than 4 bytes''
          else
            (let word = u32_from_le_bytes data in
             case cpu_step (cpu_isa c) word (cpu_pc c) (cpu_regs c) of
               None \<Rightarrow> Err Panic
             | Some (StepDone outcome) \<Rightarrow> to_commit c (Some word) outcome None ctx
             | Some (StepMemory plan) \<Rightarrow>
                 if translating c then
                   (let c' = c\<lparr>cpu_state := WalkIssue \<lparr>wk_purpose = PurposeData word plan, wk_level = 1,
                                                        wk_table = M3_root (m3 c)\<rparr>\<rparr>
                    in result_bind (wake_next_cycle c' WALK ctx) (\<lambda>ctx'. Ok (c', ctx')))
                 else
                   (let c' = c\<lparr>cpu_state := MemIssue word plan None\<rparr>
                    in result_bind (wake_next_cycle c' MEMORY ctx) (\<lambda>ctx'. Ok (c', ctx'))))
      | ReadResp _ (ReadFault _) \<Rightarrow>
          to_commit c None (OExec (Trap \<lparr>pt_cause = InstructionAccessFault, pt_tval = cpu_pc c\<rparr>)) None ctx
      | _ \<Rightarrow> component_fault ''rv32 cpu: write response to a fetch'')"

definition mem_response :: "Rv32iCpu \<Rightarrow> u32 \<Rightarrow> MemoryPlan \<Rightarrow> u64 option \<Rightarrow> MemMsg \<Rightarrow> SimContext \<Rightarrow> Rv32iCpu handled" where
  "mem_response c insn plan pa msg ctx =
     (case complete_memory plan msg of
        Err e \<Rightarrow> Err (Fault_session (completion_fault e))
      | Ok outcome \<Rightarrow>
          to_commit c (Some insn) (OExec outcome)
            (case outcome of Effect _ \<Rightarrow> pa | Trap _ \<Rightarrow> None) ctx)"

fun response_txn :: "MemMsg \<Rightarrow> TxnId option" where
  "response_txn (ReadResp txn _) = Some txn"
| "response_txn (WriteResp txn _) = Some txn"
| "response_txn _ = None"

fun awaited_txn :: "State \<Rightarrow> TxnId option" where
  "awaited_txn (FetchWait txn _) = Some txn"
| "awaited_txn (MemWait txn _ _ _) = Some txn"
| "awaited_txn (WalkWait txn _) = Some txn"
| "awaited_txn _ = None"

definition cpu_response :: "Rv32iCpu \<Rightarrow> MemMsg \<Rightarrow> SimContext \<Rightarrow> Rv32iCpu handled" where
  "cpu_response c msg ctx =
     (case response_txn msg of
        None \<Rightarrow> component_fault ''rv32 cpu: request on the initiator port''
      | Some txn \<Rightarrow>
          (case awaited_txn (cpu_state c) of
             None \<Rightarrow> component_fault ''rv32 cpu: response with no transaction outstanding''
           | Some expected \<Rightarrow>
               if txn \<noteq> expected then component_fault ''rv32 cpu: response for a txn that is not outstanding''
               else if ctx_phase ctx \<noteq> PhComplete then component_fault ''rv32 cpu: response arrived outside COMPLETE''
               else
                 (case cpu_state c of
                    WalkWait _ walk \<Rightarrow> walk_response c walk msg ctx
                  | FetchWait _ _ \<Rightarrow> fetch_response c msg ctx
                  | MemWait _ insn plan pa \<Rightarrow> mem_response c insn plan pa msg ctx
                  | _ \<Rightarrow> Err Panic)))"

definition cpu_irq :: "Rv32iCpu \<Rightarrow> IrqMsg \<Rightarrow> SimContext \<Rightarrow> Rv32iCpu handled" where
  "cpu_irq c msg ctx =
     (if ctx_phase ctx \<noteq> PhComplete then component_fault ''rv32 cpu: irq.v0 level arrived outside COMPLETE''
      else (case msg of IrqLevel asserted \<Rightarrow> Ok (c\<lparr>csrs := (csrs c)\<lparr>c_irq_level := asserted\<rparr>\<rparr>, ctx)))"

definition cpu_init :: "Rv32iCpu \<Rightarrow> SimContext \<Rightarrow> Rv32iCpu handled" where
  "cpu_init c ctx =
     result_bind (ctx_wake_self (WhenCycles (cfg_clock (config c)) 0) PhRequest FETCH ctx) (\<lambda>ctx'. Ok (c, ctx'))"

definition handle_event :: "Rv32iCpu \<Rightarrow> Delivered \<Rightarrow> SimContext \<Rightarrow> Rv32iCpu handled" where
  "handle_event c ev ctx =
     (case ev of
        DWake token \<Rightarrow> cpu_wake c token ctx
      | DMessage port msg \<Rightarrow>
          if cfg_profile (config c) = M1 then
            (case msg of
               MsgMemV1 m \<Rightarrow> cpu_response c m ctx
             | _ \<Rightarrow> component_fault ''rv32 cpu: message is not mem.v1'')
          else if port = PORT then
            (case msg of
               MsgMemV1 m \<Rightarrow> cpu_response c m ctx
             | _ \<Rightarrow> component_fault ''rv32 cpu: message on mem is not mem.v1'')
          else if port = IRQ_PORT then
            (case msg of
               MsgIrq m \<Rightarrow> cpu_irq c m ctx
             | _ \<Rightarrow> component_fault ''rv32 cpu: message on irq is not irq.v0'')
          else component_fault ''rv32 cpu: message on an unknown port'')"

end
