(* ===== verification/Rv32_CpuInv.thy ===== *)
theory Rv32_CpuInv
  imports Rv32_Cpu
begin

section \<open>The CPU's invariant\<close>

text \<open>
  What holds of the CPU between events (\<open>cpu_inv\<close>): the register file has its 31 registers, \<^verbatim>\<open>pc\<close> and
  the CSRs that hold addresses are aligned, the CSRs respect their write rules, every state carries
  what its next event needs, and a pending CSR operation is one its mode may perform. Every handler
  keeps it, whatever event is delivered and whatever the context refuses, and under it no handler
  panics and every state but \<open>Halted\<close> waits for exactly one event.
\<close>

definition aligned4 :: "u32 \<Rightarrow> bool" where
  "aligned4 w \<longleftrightarrow> w AND 0x3 = 0"

lemma aligned4_add4 [simp]: "aligned4 (w + 4) = aligned4 w"
  by (simp only: aligned4_def and_3_add_4)

lemma aligned4_clear [simp]: "aligned4 (w AND NOT 0b11)"
  unfolding aligned4_def by (rule bit_word_eqI) (auto simp: bit_simps)

lemma aligned4_clear4 [simp]: "aligned4 (w AND - 4)"
  using aligned4_clear [of w] by simp

lemma aligned4_0 [simp]: "aligned4 0"
  by (simp add: aligned4_def)

lemma aligned4_dvd: "4 dvd unat w \<longleftrightarrow> aligned4 w"
proof -
  have "unat (w AND mask 2) = unat w mod 4" by (simp add: unat_and_mask)
  then show ?thesis
    by (simp add: aligned4_def word_unat_eq_iff mask_eq_exp_minus_1 dvd_eq_mod_eq_0)
qed

fun isa_allows :: "Isa \<Rightarrow> PendingCsr \<Rightarrow> bool" where
  "isa_allows IsaM1 p \<longleftrightarrow> False"
| "isa_allows IsaM2 p \<longleftrightarrow> is_supported_m2 (pc_csr p)"
| "isa_allows (IsaM3 mode) p \<longleftrightarrow> is_supported_m3 (pc_csr p) \<and> accessible (pc_csr p) mode (pc_write p)"

fun outcome_ok :: "Isa \<Rightarrow> Outcome \<Rightarrow> bool" where
  "outcome_ok isa (OExec (Trap t)) \<longleftrightarrow> True"
| "outcome_ok isa (OExec (Effect e)) \<longleftrightarrow>
     aligned4 (pe_next_pc e) \<and> (case pe_reg_write e of Some w \<Rightarrow> wf_reg (rw_rd w) | None \<Rightarrow> True)"
| "outcome_ok isa (OCsr p) \<longleftrightarrow> aligned4 (pc_next_pc p) \<and> wf_reg (pc_rd p) \<and> isa_allows isa p"
| "outcome_ok isa OMret \<longleftrightarrow> (case isa of IsaM1 \<Rightarrow> False | IsaM2 \<Rightarrow> True | IsaM3 mode \<Rightarrow> mode = Machine)"
| "outcome_ok isa OSret \<longleftrightarrow> (case isa of IsaM3 mode \<Rightarrow> mode \<noteq> User | _ \<Rightarrow> False)"

fun plan_ok :: "MemoryPlan \<Rightarrow> bool" where
  "plan_ok (PlanLoad p) \<longleftrightarrow> wf_reg (lp_rd p) \<and> aligned4 (lp_next_pc p)"
| "plan_ok (PlanStore p) \<longleftrightarrow> aligned4 (sp_next_pc p)"

fun step_ok :: "Isa \<Rightarrow> Step \<Rightarrow> bool" where
  "step_ok isa (StepDone outcome) \<longleftrightarrow> outcome_ok isa outcome"
| "step_ok isa (StepMemory plan) \<longleftrightarrow> plan_ok plan"

subsection \<open>Stepping a word\<close>

lemma sources_wf: "wf_instr i \<Longrightarrow> sources i = (s1, s2) \<Longrightarrow> wf_reg s1 \<and> wf_reg s2"
proof -
  have "wf_reg Reg_ZERO" by (simp add: wf_reg_def Reg_ZERO_def)
  then show "wf_instr i \<Longrightarrow> sources i = (s1, s2) \<Longrightarrow> wf_reg s1 \<and> wf_reg s2"
    by (cases i) auto
qed

lemma jump_to_ok:
  "(case rw of Some w \<Rightarrow> wf_reg (rw_rd w) | None \<Rightarrow> True) \<Longrightarrow> outcome_ok isa (OExec (jump_to rw t))"
  by (auto simp: jump_to_def aligned4_def)

lemma prepare_aligned_ok:
  "plan_ok plan \<Longrightarrow> step_ok isa (case prepare_aligned addr w m plan of
      PrepRequest plan \<Rightarrow> StepMemory plan | PrepTrap trap \<Rightarrow> StepDone (OExec (Trap trap)))"
  by (simp add: prepare_aligned_def)

lemma ecall_cause_ok: "outcome_ok isa (OExec x) \<Longrightarrow> outcome_ok isa (OExec (ecall_cause isa x))"
  by (cases isa; cases x) auto

lemma step_base_ok:
  assumes "wf_regfile regs" and "aligned4 pc"
  shows "\<exists>s. step_base isa w pc regs = Some s \<and> step_ok isa s"
proof (cases "decode w")
  case (Inl e)
  then show ?thesis by (cases e) (simp add: step_base_def)
next
  case (Inr i)
  then have wf: "wf_instr i" by (rule decode_wf_aux)
  obtain s1 s2 where s: "sources i = (s1, s2)" by fastforce
  with wf have "wf_reg s1" "wf_reg s2" using sources_wf by blast+
  then obtain a b where "regfile_read regs s1 = Some a" "regfile_read regs s2 = Some b"
    using rf.get_ok assms(1) by meson
  with Inr s wf assms(2) show ?thesis
    by (cases i)
      (auto simp: step_base_def result_ok_def Let_def alu_effect_def jump_to_ok prepare_aligned_ok
        intro: ecall_cause_ok split: prod.splits)
qed

lemma csr_operation_ok:
  assumes "wf_regfile regs" and "\<And>r. src = SrcReg r \<Longrightarrow> wf_reg r"
  shows "\<exists>v. csr_operation cop rd src csr wr pc regs = Some
      \<lparr>pc_csr = csr, pc_op = cop, pc_write = wr, pc_operand = v, pc_rd = rd, pc_next_pc = pc + 4\<rparr>"
  using assms rf.get_ok by (cases src) (force simp: csr_operation_def)+

lemma decode_privileged_wf:
  "decode_privileged w = Some (Csr cop rd src csr) \<Longrightarrow> wf_reg rd \<and> (\<forall>r. src = SrcReg r \<longrightarrow> wf_reg r)"
  by (auto simp: decode_privileged_def Let_def split: if_splits)

lemma privileged_ok:
  assumes "wf_regfile regs" "aligned4 pc" "decode_privileged w = Some i"
  shows "\<exists>s. privileged i w pc regs = Some s \<and> outcome_ok IsaM2 s"
proof (cases i)
  case (Csr cop rd src csr)
  with assms(3) have "wf_reg rd" "\<And>r. src = SrcReg r \<Longrightarrow> wf_reg r"
    using decode_privileged_wf by blast+
  with Csr assms(1,2) csr_operation_ok [of regs src] show ?thesis
    by (force simp: illegal_def)
qed simp

lemma privileged_m3_ok:
  assumes "wf_regfile regs" "aligned4 pc" "privileged_m3 mode w pc regs = Some r"
  shows "\<exists>s. r = Some s \<and> outcome_ok (IsaM3 mode) s"
proof (cases "decode_privileged w")
  case None
  with assms show ?thesis
    by (auto simp: privileged_m3_def illegal_def split: if_splits SupervisorInstr.splits)
next
  case (Some i)
  show ?thesis
  proof (cases i)
    case (Csr cop rd src csr)
    with Some have "wf_reg rd" "\<And>r. src = SrcReg r \<Longrightarrow> wf_reg r"
      using decode_privileged_wf by blast+
    with Csr Some assms csr_operation_ok [of regs src] show ?thesis
      by (force simp: privileged_m3_def illegal_def split: if_splits)
  next
    case Mret
    with Some assms show ?thesis by (auto simp: privileged_m3_def illegal_def split: if_splits)
  qed
qed

lemma cpu_step_ok:
  assumes "wf_regfile regs" and "aligned4 pc"
  obtains s where "cpu_step isa w pc regs = Some s" "step_ok isa s"
proof -
  have "\<exists>s. cpu_step isa w pc regs = Some s \<and> step_ok isa s"
  proof (cases isa)
    case IsaM1
    then show ?thesis using step_base_ok [OF assms] by simp
  next
    case IsaM2
    then show ?thesis
      using step_base_ok [OF assms, of IsaM2 w] privileged_ok [OF assms, of w]
      by (auto split: option.splits)
  next
    case (IsaM3 mode)
    then show ?thesis
      using step_base_ok [OF assms, of isa w] privileged_m3_ok [OF assms, of mode w]
      by (auto split: option.splits)
  qed
  with that show ?thesis by blast
qed

subsection \<open>The invariant\<close>

definition csr_ok :: "CsrFile \<Rightarrow> bool" where
  "csr_ok m \<longleftrightarrow> aligned4 (c_mtvec m) \<and> aligned4 (c_mepc m)"

definition m3_ok :: "M3State \<Rightarrow> bool" where
  "m3_ok s \<longleftrightarrow> aligned4 (s_stvec s) \<and> aligned4 (s_sepc s)
     \<and> s_medeleg s AND NOT MEDELEG_MASK = 0 \<and> satp_reachable (s_satp s)"

definition arch_ok :: "Rv32iCpu \<Rightarrow> bool" where
  "arch_ok c \<longleftrightarrow>
     wf_regfile (cpu_regs c) \<and> aligned4 (cpu_pc c) \<and> csr_ok (csrs c) \<and> m3_ok (m3 c)
     \<and> (cfg_profile (config c) \<noteq> M3 \<longrightarrow> m3 c = M3State_new)
     \<and> (cfg_profile (config c) = M1 \<longrightarrow> csrs c = CsrFile_new)
     \<and> cfg_max_instructions (config c) \<le> u64_max"

definition data_ok :: "Rv32iCpu \<Rightarrow> u32 \<Rightarrow> MemoryPlan \<Rightarrow> bool" where
  "data_ok c insn plan \<longleftrightarrow> cpu_step (cpu_isa c) insn (cpu_pc c) (cpu_regs c) = Some (StepMemory plan)"

definition walk_ok :: "Rv32iCpu \<Rightarrow> Walk \<Rightarrow> bool" where
  "walk_ok c walk \<longleftrightarrow> translating c \<and> wk_level walk \<le> 1
     \<and> (wk_level walk = 1 \<longrightarrow> wk_table walk = M3_root (m3 c))
     \<and> (case wk_purpose walk of PurposeFetch \<Rightarrow> True | PurposeData insn plan \<Rightarrow> data_ok c insn plan)"

fun state_ok :: "Rv32iCpu \<Rightarrow> State \<Rightarrow> bool" where
  "state_ok c (FetchIssue pa) \<longleftrightarrow> (pa \<noteq> None \<longleftrightarrow> translating c)"
| "state_ok c (FetchWait txn pa) \<longleftrightarrow> (pa \<noteq> None \<longleftrightarrow> translating c) \<and> next_txn c = txn + 1"
| "state_ok c (MemIssue insn plan pa) \<longleftrightarrow> (pa \<noteq> None \<longleftrightarrow> translating c) \<and> data_ok c insn plan"
| "state_ok c (MemWait txn insn plan pa) \<longleftrightarrow>
     (pa \<noteq> None \<longleftrightarrow> translating c) \<and> data_ok c insn plan \<and> next_txn c = txn + 1"
| "state_ok c (WalkIssue walk) \<longleftrightarrow> walk_ok c walk"
| "state_ok c (WalkWait txn walk) \<longleftrightarrow> walk_ok c walk \<and> next_txn c = txn + 1"
| "state_ok c (CommitPending insn outcome pa) \<longleftrightarrow>
     outcome_ok (cpu_isa c) outcome \<and> (insn = None \<longrightarrow> (\<exists>t. outcome = OExec (Trap t)))"
| "state_ok c (Halted h) \<longleftrightarrow> (case h of HaltTrap t \<Rightarrow> rt_pc t = cpu_pc c | InstructionLimit \<Rightarrow> True)"

definition cpu_inv :: "Rv32iCpu \<Rightarrow> bool" where
  "cpu_inv c \<longleftrightarrow> arch_ok c \<and> state_ok c (cpu_state c)
     \<and> (halt c = None \<longrightarrow> instret c < cfg_max_instructions (config c))"

definition handled_ok :: "Rv32iCpu handled \<Rightarrow> bool" where
  "handled_ok r \<longleftrightarrow> (case r of Ok (c, ctx) \<Rightarrow> cpu_inv c | Err a \<Rightarrow> a \<noteq> Panic)"

lemma handled_ok_simps [simp]:
  "handled_ok (Ok (c, ctx)) = cpu_inv c"
  "handled_ok (component_fault w)"
  "handled_ok (Err (Fault_session e))"
  "\<not> handled_ok (Err Panic)"
  by (simp_all add: handled_ok_def component_fault_def)

text \<open>A handler that only schedules: it keeps the invariant whether or not the context refuses.\<close>

lemma handled_ok_wake [simp]:
  "cpu_inv c' \<Longrightarrow> handled_ok (result_bind (wake_next_cycle c'' tok ctx) (\<lambda>ctx'. Ok (c', ctx')))"
  "cpu_inv c' \<Longrightarrow> handled_ok (result_bind (ctx_wake_self w ph tok ctx) (\<lambda>ctx'. Ok (c', ctx')))"
  by (simp_all add: wake_next_cycle_def ctx_wake_self_def ctx_effect_def split: option.splits)

lemma reset_ok [simp]: "csr_ok CsrFile_new" "m3_ok M3State_new"
  by (simp_all add: csr_ok_def m3_ok_def CsrFile_new_def M3State_new_def satp_reachable_def)

lemma arch_ok_regs: "arch_ok c \<Longrightarrow> wf_regfile (cpu_regs c)"
  by (simp add: arch_ok_def)

text \<open>What the architectural parts look at, so that a change of the execution state keeps them.\<close>

lemma arch_ok_state [simp]:
  "arch_ok (c\<lparr>cpu_state := st\<rparr>) = arch_ok c" "arch_ok (c\<lparr>next_txn := n\<rparr>) = arch_ok c"
  "arch_ok (c\<lparr>instret := n\<rparr>) = arch_ok c"
  by (simp_all add: arch_ok_def)

lemma view_state [simp]:
  "cpu_isa (c\<lparr>cpu_state := st\<rparr>) = cpu_isa c" "translating (c\<lparr>cpu_state := st\<rparr>) = translating c"
  "cpu_isa (c\<lparr>next_txn := n\<rparr>) = cpu_isa c" "translating (c\<lparr>next_txn := n\<rparr>) = translating c"
  "data_ok (c\<lparr>cpu_state := st\<rparr>) insn plan = data_ok c insn plan"
  "data_ok (c\<lparr>next_txn := n\<rparr>) insn plan = data_ok c insn plan"
  "walk_ok (c\<lparr>cpu_state := st\<rparr>) walk = walk_ok c walk"
  "walk_ok (c\<lparr>next_txn := n\<rparr>) walk = walk_ok c walk"
  "walk_va (c\<lparr>cpu_state := st\<rparr>) walk = walk_va c walk"
  "walk_va (c\<lparr>next_txn := n\<rparr>) walk = walk_va c walk"
  by (simp_all add: cpu_isa_def translating_def data_ok_def walk_ok_def walk_va_def
      split: Rv32iProfile.split Purpose.split)

lemma state_ok_state [simp]: "state_ok (c\<lparr>cpu_state := st'\<rparr>) st = state_ok c st"
  by (cases st) (simp_all split: Halt.split)

lemma halt_simps [simp]:
  "halt (c\<lparr>cpu_state := FetchIssue pa\<rparr>) = None" "halt (c\<lparr>cpu_state := MemIssue i pl pa\<rparr>) = None"
  "halt (c\<lparr>cpu_state := WalkIssue w\<rparr>) = None" "halt (c\<lparr>cpu_state := CommitPending io out pa\<rparr>) = None"
  "halt (c\<lparr>cpu_state := Halted h\<rparr>) = Some h" "halt (c\<lparr>cpu_state := FetchWait x pa\<rparr>) = None"
  "halt (c\<lparr>cpu_state := MemWait x i pl pa\<rparr>) = None" "halt (c\<lparr>cpu_state := WalkWait x w\<rparr>) = None"
  by (simp_all add: halt_def)

lemma fetch_next_ok:
  assumes "arch_ok c" and "instret c < cfg_max_instructions (config c)"
  shows "handled_ok (fetch_next c ctx)"
proof (cases "translating c")
  case True
  with assms have "cpu_inv (c\<lparr>cpu_state := WalkIssue \<lparr>wk_purpose = PurposeFetch, wk_level = 1, wk_table = M3_root (m3 c)\<rparr>\<rparr>)"
    by (simp add: cpu_inv_def walk_ok_def)
  with True show ?thesis by (simp add: fetch_next_def Let_def)
next
  case False
  with assms have "cpu_inv (c\<lparr>cpu_state := FetchIssue None\<rparr>)" by (simp add: cpu_inv_def)
  with False show ?thesis by (simp add: fetch_next_def Let_def)
qed

lemma to_commit_ok:
  assumes "arch_ok c" and "instret c < cfg_max_instructions (config c)"
    and "outcome_ok (cpu_isa c) outcome" and "insn = None \<Longrightarrow> \<exists>t. outcome = OExec (Trap t)"
  shows "handled_ok (to_commit c insn outcome pa ctx)"
  using assms by (auto simp: to_commit_def cpu_inv_def)

subsection \<open>CSR operations keep the CSR rules\<close>

lemma CsrFile_write_ok: "csr_ok m \<Longrightarrow> CsrFile_write m csr v = Some m' \<Longrightarrow> csr_ok m'"
  by (auto simp: CsrFile_write_def csr_ok_def split: if_split_asm)

lemma write_sstatus_ok [simp]: "m3_ok (write_sstatus s v) = m3_ok s"
  by (simp add: m3_ok_def write_sstatus_def)

lemma M3_write_ok:
  assumes "csr_ok m" and "m3_ok s" and "M3_write s m csr v = Some (s', m')"
  shows "csr_ok m' \<and> m3_ok s'"
proof -
  have deleg: "(v AND MEDELEG_MASK) AND NOT MEDELEG_MASK = 0"
    by (rule bit_word_eqI) (auto simp: bit_and_iff bit_not_iff)
  have satp: "satp_reachable (satp_write v)"
    unfolding satp_reachable_def satp_write_def
    by (rule bit_word_eqI) (auto simp: bit_and_iff bit_not_iff)
  have mpp: "m3_ok (s\<lparr>s_mpp := p\<rparr>) = m3_ok s" for p by (simp add: m3_ok_def)
  from assms deleg satp show ?thesis
    by (auto simp: M3_write_def mpp dest: CsrFile_write_ok split: if_split_asm)
      (auto simp: csr_ok_def m3_ok_def)
qed

lemma write_csr_ok:
  assumes "arch_ok c" and "cfg_profile (config c) \<noteq> M1" and "write_csr c csr v = Some c'"
  shows "arch_ok c' \<and> config c' = config c \<and> instret c' = instret c
    \<and> cpu_regs c' = cpu_regs c \<and> cpu_pc c' = cpu_pc c"
proof (cases "cfg_profile (config c)")
  case M2
  with assms obtain m where "CsrFile_write (csrs c) csr v = Some m" "c' = c\<lparr>csrs := m\<rparr>"
    by (auto simp: write_csr_def)
  moreover from this have "csr_ok m"
    using assms(1) by - (rule CsrFile_write_ok [of "csrs c" csr v]; simp add: arch_ok_def)
  ultimately show ?thesis using assms(1) M2 by (simp add: arch_ok_def)
next
  case M3
  with assms obtain s m where "M3_write (m3 c) (csrs c) csr v = Some (s, m)" "c' = c\<lparr>m3 := s, csrs := m\<rparr>"
    by (auto simp: write_csr_def)
  moreover from this have "csr_ok m \<and> m3_ok s"
    using assms(1) by - (rule M3_write_ok [of "csrs c" "m3 c" csr v]; simp add: arch_ok_def)
  ultimately show ?thesis using assms(1) M3 by (simp add: arch_ok_def)
qed (use assms(2) in simp)

lemma read_modify_write_csr:
  assumes "isa_allows (cpu_isa c) p"
  obtains old c' stored where "read_csr c (pc_csr p) = Some old"
    "write_csr c (pc_csr p) (f old) = Some c'" "read_csr c' (pc_csr p) = Some stored"
proof (cases "cfg_profile (config c)")
  case M1
  with assms show ?thesis by (simp add: cpu_isa_def)
next
  case M2
  with assms have "is_supported_m2 (pc_csr p)" by (simp add: cpu_isa_def)
  then obtain old m' where "CsrFile_read (csrs c) (pc_csr p) = Some old"
    "CsrFile_write (csrs c) (pc_csr p) (f old) = Some m'"
    "CsrFile_read m' (pc_csr p) = Some (m2_legal (pc_csr p) old (f old))"
    by (rule m2csr.read_modify_write)
  with M2 show ?thesis
    by (intro that [of old "c\<lparr>csrs := m'\<rparr>"]) (auto simp: read_csr_def write_csr_def)
next
  case M3
  with assms have "is_supported_m3 (pc_csr p)" by (simp add: cpu_isa_def)
  then obtain old sm' where "M3_read (m3 c) (csrs c) (pc_csr p) = Some old"
    "M3_write (m3 c) (csrs c) (pc_csr p) (f old) = Some sm'"
    "(case sm' of (s, m) \<Rightarrow> M3_read s m) (pc_csr p) = Some (m3_legal (pc_csr p) old (f old))"
    using m3csr.read_modify_write [of "pc_csr p" "(m3 c, csrs c)" f] by auto
  moreover obtain s m where "sm' = (s, m)" by fastforce
  ultimately show ?thesis
    using M3 by (intro that [of old "c\<lparr>m3 := s, csrs := m\<rparr>"]) (auto simp: read_csr_def write_csr_def)
qed

subsection \<open>Commit keeps the invariant\<close>

lemma commit_fields_Some: "arch_ok c \<Longrightarrow> \<exists>fs. commit_fields c insn e pa = Some fs"
  unfolding arch_ok_def
  by (rule cpu_step_ok [of "cpu_regs c" "cpu_pc c" "cpu_isa c" insn])
    (auto simp: commit_fields_def Let_def split: prod.splits)

definition keeps :: "Rv32iCpu \<Rightarrow> Rv32iCpu \<Rightarrow> bool" where
  "keeps c c' \<longleftrightarrow> arch_ok c' \<and> config c' = config c \<and> instret c' = instret c"

lemma commit_csr_ok:
  assumes "arch_ok c" and "outcome_ok (cpu_isa c) (OCsr p)"
  shows "\<exists>c' fs. commit_csr c insn p = Ok (c', fs) \<and> keeps c c'"
proof -
  from assms have ok: "isa_allows (cpu_isa c) p" "wf_reg (pc_rd p)" "aligned4 (pc_next_pc p)" by auto
  then have profile: "cfg_profile (config c) \<noteq> M1" by (auto simp: cpu_isa_def)
  obtain old c1 stored where rw: "read_csr c (pc_csr p) = Some old"
    "write_csr c (pc_csr p) (CsrOp_apply (pc_op p) old (pc_operand p)) = Some c1"
    "read_csr c1 (pc_csr p) = Some stored"
    using read_modify_write_csr [OF ok(1), of "\<lambda>old. CsrOp_apply (pc_op p) old (pc_operand p)"] by blast
  have c1: "arch_ok c1" "config c1 = config c" "instret c1 = instret c" "cpu_regs c1 = cpu_regs c"
    using write_csr_ok [OF assms(1) profile rw(2)] by auto
  obtain fs where fs: "commit_fields c insn
      \<lparr>pe_reg_write = Some \<lparr>rw_rd = pc_rd p, rw_value = old\<rparr>, pe_next_pc = pc_next_pc p\<rparr> None = Some fs"
    using commit_fields_Some [OF assms(1)] by blast
  obtain regs where regs: "regfile_write (cpu_regs c) (pc_rd p) old = Some regs" "wf_regfile regs"
    using rf.put_ok [OF arch_ok_regs [OF assms(1)] ok(2)] by blast
  have "keeps c (d\<lparr>cpu_regs := regs, cpu_pc := pc_next_pc p\<rparr>)"
    if "arch_ok d" "config d = config c" "instret d = instret c" for d
    using that regs(2) ok(3) by (simp add: keeps_def arch_ok_def)
  with c1 assms(1) rw fs regs show ?thesis by (simp add: commit_csr_def Let_def)
qed

lemma commit_apply_ok:
  assumes arch: "arch_ok c" and "outcome_ok (cpu_isa c) outcome" and "\<And>t. outcome \<noteq> OExec (Trap t)"
  shows "\<exists>c' fs. commit_apply c insn outcome pa = Ok (c', fs) \<and> keeps c c'"
proof (cases outcome)
  case (OExec x)
  with assms(3) obtain e where e: "x = Effect e" by (cases x) auto
  obtain fs where fs: "commit_fields c insn e pa = Some fs" using commit_fields_Some [OF arch] by blast
  show ?thesis
  proof (cases "pe_reg_write e")
    case None
    with assms OExec e fs show ?thesis by (simp add: keeps_def arch_ok_def)
  next
    case (Some w)
    with assms OExec e have "wf_reg (rw_rd w)" by simp
    then obtain regs where "regfile_write (cpu_regs c) (rw_rd w) (rw_value w) = Some regs"
      "wf_regfile regs" using rf.put_ok [OF arch_ok_regs [OF arch]] by blast
    with assms OExec e fs Some show ?thesis by (simp add: keeps_def arch_ok_def)
  qed
next
  case (OCsr p)
  with assms commit_csr_ok show ?thesis by simp
next
  case OMret
  obtain fs where "commit_fields c insn \<lparr>pe_reg_write = None, pe_next_pc = c_mepc (csrs c)\<rparr> None = Some fs"
    using commit_fields_Some [OF arch] by blast
  moreover have "cfg_profile (config c) \<noteq> M1" using assms OMret by (auto simp: cpu_isa_def)
  ultimately show ?thesis
    using arch OMret
    by (cases "cfg_profile (config c)")
      (auto simp: keeps_def arch_ok_def CsrFile_mret_def M3_mret_def csr_ok_def m3_ok_def)
next
  case OSret
  obtain fs where "commit_fields c insn \<lparr>pe_reg_write = None, pe_next_pc = s_sepc (m3 c)\<rparr> None = Some fs"
    using commit_fields_Some [OF arch] by blast
  moreover have "cfg_profile (config c) = M3"
    using assms OSret by (auto simp: cpu_isa_def split: Rv32iProfile.splits)
  ultimately show ?thesis
    using arch OSret by (auto simp: keeps_def arch_ok_def M3_sret_def m3_ok_def)
qed

lemma sample_interrupt_ok: "arch_ok c \<Longrightarrow> keeps c (fst (sample_interrupt c ctx))"
  by (auto simp: sample_interrupt_def Let_def keeps_def arch_ok_def CsrFile_take_mei_def
      M3_take_mei_def csr_ok_def m3_ok_def split: prod.splits)

lemma commit_retire_ok:
  assumes "arch_ok c" and "instret c < cfg_max_instructions (config c)"
  shows "handled_ok (commit_retire c fs ctx)"
proof -
  let ?c1 = "c\<lparr>instret := instret c + 1\<rparr>" and ?ctx1 = "ctx_trace COMMIT_KIND fs ctx"
  have no_overflow: "instret c \<noteq> u64_max" using assms by (auto simp: arch_ok_def)
  show ?thesis
  proof (cases "instret c + 1 \<ge> cfg_max_instructions (config c)")
    case True
    with assms no_overflow show ?thesis by (simp add: commit_retire_def Let_def cpu_inv_def)
  next
    case False
    obtain c2 ctx2 where s: "sample_interrupt ?c1 ?ctx1 = (c2, ctx2)" by fastforce
    have "keeps ?c1 c2" using sample_interrupt_ok [of ?c1 ?ctx1] assms(1) unfolding s by simp
    with False have "handled_ok (fetch_next c2 ctx2)"
      by (intro fetch_next_ok) (auto simp: keeps_def)
    with False no_overflow s show ?thesis by (simp add: commit_retire_def Let_def)
  qed
qed

lemma commit_trap_ok:
  assumes "arch_ok c" and "instret c < cfg_max_instructions (config c)"
  shows "handled_ok (commit_trap c insn t ctx)"
proof (cases "if cfg_profile (config c) = M3 then take_exception (m3 c) (pt_cause t) (cpu_pc c) (pt_tval t) else None")
  case None
  with assms(1) show ?thesis by (simp add: commit_trap_def Let_def cpu_inv_def)
next
  case (Some r)
  then obtain s handler where r: "r = (s, handler)"
    and entry: "take_exception (m3 c) (pt_cause t) (cpu_pc c) (pt_tval t) = Some (s, handler)"
    and profile: "cfg_profile (config c) = M3"
    by (cases r) (auto split: if_splits)
  have "arch_ok (c\<lparr>m3 := s, cpu_pc := handler\<rparr>)"
    using entry profile assms(1) unfolding take_exception_Some by (auto simp: arch_ok_def m3_ok_def)
  then have "handled_ok (fetch_next (c\<lparr>m3 := s, cpu_pc := handler\<rparr>) ctx')" for ctx'
    using assms(2) by (intro fetch_next_ok) simp_all
  with entry profile show ?thesis by (simp add: commit_trap_def Let_def)
qed

lemma commit_ok:
  assumes "arch_ok c" and "instret c < cfg_max_instructions (config c)"
    and "outcome_ok (cpu_isa c) outcome"
  shows "handled_ok (commit c insn outcome pa ctx)"
proof (cases "\<exists>t. outcome = OExec (Trap t)")
  case True
  then show ?thesis using commit_trap_ok [OF assms(1,2)] by (auto simp: commit_def)
next
  case False
  then have commit: "commit c insn outcome pa ctx =
      (case insn of
         None \<Rightarrow> component_fault ''rv32 cpu: a retiring instruction has no instruction word''
       | Some w \<Rightarrow> result_bind (commit_apply c w outcome pa) (\<lambda>(c1, fields). commit_retire c1 fields ctx))"
    by (auto simp: commit_def split: Outcome.split ExecOutcome.split)
  show ?thesis
  proof (cases insn)
    case (Some w)
    from False assms obtain c' fs where "commit_apply c w outcome pa = Ok (c', fs)" "keeps c c'"
      using commit_apply_ok [of c outcome w pa] by auto
    with assms(2) show ?thesis
      unfolding commit using Some commit_retire_ok [of c' fs ctx] by (simp add: keeps_def)
  next
    case None
    then show ?thesis unfolding commit by simp
  qed
qed

subsection \<open>Every event keeps the invariant\<close>

lemma cpu_send_ok:
  assumes "cfg_profile (config c) = M1 \<longrightarrow> next_txn c < u64_max"
    and "cpu_inv (c\<lparr>next_txn := next_txn c + 1, cpu_state := st (next_txn c)\<rparr>)"
  shows "handled_ok (result_bind (cpu_send c ctx msg)
    (\<lambda>(c', ctx', txn). Ok (c'\<lparr>cpu_state := st txn\<rparr>, ctx')))"
  using assms
  by (auto simp: cpu_send_def Let_def ctx_send_def ctx_effect_def split: option.splits)

lemma cpu_wake_ok:
  assumes inv: "cpu_inv c" and txn: "cfg_profile (config c) = M1 \<longrightarrow> next_txn c < u64_max"
  shows "handled_ok (cpu_wake c token ctx)"
proof (cases "cpu_state c")
  case (CommitPending insn outcome pa)
  with inv have "handled_ok (commit c insn outcome pa ctx)"
    by (intro commit_ok) (auto simp: cpu_inv_def halt_def)
  with CommitPending show ?thesis by (simp add: cpu_wake_def)
next
  case (FetchIssue pa)
  with inv have "cpu_inv (c\<lparr>next_txn := next_txn c + 1, cpu_state := FetchWait (next_txn c) pa\<rparr>)"
    by (simp add: cpu_inv_def halt_def)
  from cpu_send_ok [OF txn, where st = "\<lambda>x. FetchWait x pa", OF this] FetchIssue show ?thesis by (simp add: cpu_wake_def Let_def)
next
  case (MemIssue insn plan pa)
  with inv have "cpu_inv (c\<lparr>next_txn := next_txn c + 1, cpu_state := MemWait (next_txn c) insn plan pa\<rparr>)"
    by (simp add: cpu_inv_def halt_def)
  from cpu_send_ok [OF txn, where st = "\<lambda>x. MemWait x insn plan pa", OF this] MemIssue show ?thesis by (simp add: cpu_wake_def Let_def)
next
  case (WalkIssue walk)
  with inv have "cpu_inv (c\<lparr>next_txn := next_txn c + 1, cpu_state := WalkWait (next_txn c) walk\<rparr>)"
    by (simp add: cpu_inv_def halt_def)
  from cpu_send_ok [OF txn, where st = "\<lambda>x. WalkWait x walk", OF this] WalkIssue show ?thesis by (simp add: cpu_wake_def Let_def)
qed (simp_all add: cpu_wake_def)

lemma complete_store_ok:
  "aligned4 (sp_next_pc p) \<Longrightarrow> outcome_ok isa (OExec (complete_store p answer))"
  by (cases "(p, answer)" rule: complete_store.cases) simp_all

lemma complete_memory_ok:
  "plan_ok plan \<Longrightarrow> complete_memory plan msg = Ok x \<Longrightarrow> outcome_ok isa (OExec x)"
  by (cases "(plan, msg)" rule: complete_memory.cases)
    (auto elim!: complete_load.elims intro: complete_store_ok split: option.splits)

lemma data_ok_plan: "arch_ok c \<Longrightarrow> data_ok c insn plan \<Longrightarrow> plan_ok plan"
  using cpu_step_ok [of "cpu_regs c" "cpu_pc c" "cpu_isa c" insn]
  by (auto simp: arch_ok_def data_ok_def)

lemma walk_response_ok:
  assumes arch: "arch_ok c" and limit: "instret c < cfg_max_instructions (config c)" and walk: "walk_ok c walk"
  shows "handled_ok (walk_response c walk msg ctx)"
proof -
  note commit = to_commit_ok [OF arch limit]
  have wakes: "cpu_inv (c\<lparr>cpu_state := st\<rparr>)" if "state_ok c st" "halt (c\<lparr>cpu_state := st\<rparr>) = None" for st
    using that arch limit by (simp add: cpu_inv_def)
  show ?thesis
    using walk
    by (auto simp: walk_response_def Let_def walk_ok_def sv32_step_level0 intro!: commit wakes handled_ok_wake
        split: MemMsg.split ReadOutcome.split WalkStep.split Purpose.split Purpose.split_asm)
qed

lemma fetch_response_ok:
  assumes arch: "arch_ok c" and limit: "instret c < cfg_max_instructions (config c)"
  shows "handled_ok (fetch_response c msg ctx)"
proof -
  note commit = to_commit_ok [OF arch limit]
  have wakes: "cpu_inv (c\<lparr>cpu_state := st\<rparr>)" if "state_ok c st" "halt (c\<lparr>cpu_state := st\<rparr>) = None" for st
    using that arch limit by (simp add: cpu_inv_def)
  have word: "handled_ok (case cpu_step (cpu_isa c) w (cpu_pc c) (cpu_regs c) of
               None \<Rightarrow> Err Panic
             | Some (StepDone outcome) \<Rightarrow> to_commit c (Some w) outcome None ctx
             | Some (StepMemory plan) \<Rightarrow>
                 if translating c then
                   (let c' = c\<lparr>cpu_state := WalkIssue \<lparr>wk_purpose = PurposeData w plan, wk_level = 1,
                                                        wk_table = M3_root (m3 c)\<rparr>\<rparr>
                    in result_bind (wake_next_cycle c' WALK ctx) (\<lambda>ctx'. Ok (c', ctx')))
                 else
                   (let c' = c\<lparr>cpu_state := MemIssue w plan None\<rparr>
                    in result_bind (wake_next_cycle c' MEMORY ctx) (\<lambda>ctx'. Ok (c', ctx'))))" for w
  proof -
    obtain s where "cpu_step (cpu_isa c) w (cpu_pc c) (cpu_regs c) = Some s" "step_ok (cpu_isa c) s"
      using cpu_step_ok [of "cpu_regs c" "cpu_pc c"] arch by (metis arch_ok_def)
    then show ?thesis
      by (cases s) (auto simp: Let_def data_ok_def walk_ok_def intro!: commit wakes handled_ok_wake)
  qed
  show ?thesis
    by (auto simp: fetch_response_def Let_def intro!: commit word
        split: MemMsg.split ReadOutcome.split)
qed

lemma mem_response_ok:
  assumes "arch_ok c" and "instret c < cfg_max_instructions (config c)" and "data_ok c insn plan"
  shows "handled_ok (mem_response c insn plan pa msg ctx)"
  by (auto simp: mem_response_def split: sum.split
      intro!: to_commit_ok [OF assms(1,2)] complete_memory_ok [OF data_ok_plan [OF assms(1,3)]])

lemma cpu_response_ok:
  assumes "cpu_inv c"
  shows "handled_ok (cpu_response c msg ctx)"
proof (cases "cpu_state c")
  case (FetchWait txn pa)
  with assms fetch_response_ok [of c] show ?thesis
    by (auto simp: cpu_response_def cpu_inv_def halt_def split: option.split)
next
  case (MemWait txn insn plan pa)
  with assms mem_response_ok [of c insn plan] show ?thesis
    by (auto simp: cpu_response_def cpu_inv_def halt_def split: option.split)
next
  case (WalkWait txn walk)
  with assms walk_response_ok [of c walk] show ?thesis
    by (auto simp: cpu_response_def cpu_inv_def halt_def split: option.split)
qed (auto simp: cpu_response_def split: option.split)

lemma cpu_irq_ok:
  assumes "cpu_inv c" and "cfg_profile (config c) \<noteq> M1"
  shows "handled_ok (cpu_irq c msg ctx)"
proof -
  let ?c = "\<lambda>b. c\<lparr>csrs := (csrs c)\<lparr>c_irq_level := b\<rparr>\<rparr>"
  have view: "cpu_isa (?c b) = cpu_isa c" "translating (?c b) = translating c"
    "data_ok (?c b) = data_ok c" "walk_ok (?c b) = walk_ok c" "halt (?c b) = halt c" for b
    by (auto simp: cpu_isa_def translating_def data_ok_def walk_ok_def halt_def fun_eq_iff
        split: Rv32iProfile.split Purpose.split)
  then have "state_ok (?c b) st = state_ok c st" for b st
    by (cases st) (simp_all split: Halt.split)
  with assms view have "cpu_inv (?c b)" for b
    by (simp add: cpu_inv_def arch_ok_def csr_ok_def)
  then show ?thesis by (simp add: cpu_irq_def split: IrqMsg.split)
qed

lemma handle_event_ok:
  assumes "cpu_inv c" and "cfg_profile (config c) = M1 \<longrightarrow> next_txn c < u64_max"
  shows "handled_ok (handle_event c ev ctx)"
  using cpu_wake_ok [OF assms] cpu_response_ok [OF assms(1)] cpu_irq_ok [OF assms(1)]
  by (auto simp: handle_event_def split: Delivered.split Message.split)

lemma cpu_inv_new:
  assumes "Rv32iCpu_new cfg = Ok c" and "0 < cfg_max_instructions cfg" "cfg_max_instructions cfg \<le> u64_max"
  shows "cpu_inv c"
proof -
  have c: "c = \<lparr>config = cfg, cpu_pc = cfg_entry cfg, cpu_regs = RegisterFile_new, instret = 0,
      next_txn = 0, cpu_state = FetchIssue None, csrs = CsrFile_new, m3 = M3State_new\<rparr>"
    and entry: "aligned4 (cfg_entry cfg)"
    using assms(1) by (auto simp: Rv32iCpu_new_def aligned4_dvd split: if_splits)
  have "\<not> translating c" by (simp add: c translating_def translates_def M3State_new_def)
  with entry assms(2,3) show ?thesis by (simp add: c cpu_inv_def arch_ok_def halt_def)
qed

text \<open>
  Runs of the CPU in any environment: whatever is delivered, in whatever order and whatever the
  context refuses, as long as no handler faults the session.
\<close>

inductive cpu_reaches :: "Rv32iConfig \<Rightarrow> Rv32iCpu \<Rightarrow> bool" for cfg where
  cpu_start: "Rv32iCpu_new cfg = Ok c \<Longrightarrow> cpu_reaches cfg c"
| cpu_deliver: "cpu_reaches cfg c \<Longrightarrow> next_txn c < u64_max \<Longrightarrow> handle_event c ev ctx = Ok (c', ctx')
     \<Longrightarrow> cpu_reaches cfg c'"

inductive_cases cpu_reachesE: "cpu_reaches cfg c"

lemma cpu_reaches_inv:
  assumes "cpu_reaches cfg c" and "0 < cfg_max_instructions cfg" "cfg_max_instructions cfg \<le> u64_max"
  shows "cpu_inv c"
  using assms(1)
proof induction
  case (cpu_start c)
  with assms show ?case by (rule_tac cpu_inv_new)
next
  case (cpu_deliver c ev ctx c' ctx')
  with handle_event_ok [of c ev ctx] show ?case by simp
qed

subsection \<open>Properties\<close>

text \<open>
  C2. In every state a run of the CPU reaches, from reset on and in any environment, the invariant
  holds (31 registers; \<^verbatim>\<open>pc\<close>, \<^verbatim>\<open>mtvec\<close>, \<^verbatim>\<open>mepc\<close>, \<^verbatim>\<open>stvec\<close> and \<^verbatim>\<open>sepc\<close> aligned; only delegable causes
  delegated; no ASID; a pending CSR operation is one its mode may perform), and the next event is
  handled without a panic: it succeeds or faults the session.
\<close>

theorem cpu_reachable_safe:
  assumes "cpu_reaches cfg c" and "0 < cfg_max_instructions cfg" "cfg_max_instructions cfg \<le> u64_max"
  shows "cpu_inv c \<and> (next_txn c < u64_max \<longrightarrow> handle_event c ev ctx \<noteq> Err Panic)"
proof -
  have inv: "cpu_inv c" using assms by (rule cpu_reaches_inv)
  then have "next_txn c < u64_max \<Longrightarrow> handled_ok (handle_event c ev ctx)" by (simp add: handle_event_ok)
  with inv show ?thesis by (auto simp: handled_ok_def)
qed

theorem cpu_reachable_safe_witness:
  "\<exists>c. cpu_reaches \<lparr>cfg_clock = 0, cfg_entry = 0x80000000, cfg_max_instructions = 5, cfg_profile = M3\<rparr> c
     \<and> cpu_inv c \<and> handle_event c (DWake 0) \<lparr>ctx_phase = PhRequest, ctx_refuse = \<lambda>_. None, ctx_out = []\<rparr> \<noteq> Err Panic"
proof -
  let ?cfg = "\<lparr>cfg_clock = 0, cfg_entry = 0x80000000, cfg_max_instructions = 5, cfg_profile = M3\<rparr>"
  obtain c where new: "Rv32iCpu_new ?cfg = Ok c" by (simp add: Rv32iCpu_new_def)
  then have reach: "cpu_reaches ?cfg c" by (rule cpu_start)
  have "next_txn c < u64_max" using new by (auto simp: Rv32iCpu_new_def u64_max_def split: if_splits)
  with cpu_reachable_safe [OF reach] reach show ?thesis by (auto simp: u64_max_def)
qed

subsection \<open>One event at a time\<close>

text \<open>The event each state waits for, as the effect that put it into the runtime's queue.\<close>

definition awaits :: "Rv32iCpu \<Rightarrow> CtxEffect list" where
  "awaits c =
     (let wake = (\<lambda>tok. [EffWake (WhenCycles (cfg_clock (config c)) 1) PhRequest tok]);
          request = (\<lambda>m. [EffSend PORT (MsgMemV1 m) WhenNow PhRequest])
      in case cpu_state c of
        FetchIssue _ \<Rightarrow> wake FETCH
      | MemIssue _ _ _ \<Rightarrow> wake MEMORY
      | WalkIssue _ \<Rightarrow> wake WALK
      | CommitPending _ _ _ \<Rightarrow> [EffWake WhenNow PhCommit COMMIT]
      | FetchWait txn pa \<Rightarrow> request (ReadReq txn (case pa of Some p \<Rightarrow> p | None \<Rightarrow> unat (cpu_pc c)) 4)
      | MemWait txn _ plan pa \<Rightarrow>
          request (request_of plan (case pa of Some p \<Rightarrow> p | None \<Rightarrow> unat (plan_addr plan)) txn)
      | WalkWait txn walk \<Rightarrow>
          request (ReadReq txn (pte_address (wk_table walk) (walk_va c walk) (wk_level walk)) 4)
      | Halted _ \<Rightarrow> [])"

definition sched_ok :: "SimContext \<Rightarrow> Rv32iCpu handled \<Rightarrow> bool" where
  "sched_ok ctx r \<longleftrightarrow> (\<forall>c' ctx'. r = Ok (c', ctx') \<longrightarrow> scheduled ctx' = scheduled ctx @ awaits c')"

lemma sched_ok_fault [simp]: "sched_ok ctx (component_fault w)" "sched_ok ctx (Err a)"
  by (simp_all add: sched_ok_def)

lemma sched_ok_wake:
  "awaits c' = [EffWake (WhenCycles (cfg_clock (config c'')) 1) PhRequest tok] \<Longrightarrow>
     sched_ok ctx (result_bind (wake_next_cycle c'' tok ctx) (\<lambda>ctx'. Ok (c', ctx')))"
  by (auto simp: sched_ok_def wake_next_cycle_def dest: scheduled_wake)

lemma fetch_next_sched: "sched_ok ctx (fetch_next c ctx)"
  by (auto simp: fetch_next_def Let_def awaits_def intro!: sched_ok_wake)

lemma sched_ok_trace: "sched_ok (ctx_trace k f ctx) r = sched_ok ctx r"
  by (simp add: sched_ok_def)

lemma to_commit_sched: "sched_ok ctx (to_commit c insn outcome pa ctx)"
  by (auto simp: sched_ok_def to_commit_def awaits_def dest: scheduled_wake)

lemma sample_interrupt_sched: "scheduled (snd (sample_interrupt c ctx)) = scheduled ctx"
  by (simp add: sample_interrupt_def Let_def split: prod.split)

lemma commit_sched: "sched_ok ctx (commit c insn outcome pa ctx)"
proof -
  have trap: "sched_ok ctx (commit_trap c insn t ctx)" for t
    using fetch_next_sched
    by (auto simp: commit_trap_def Let_def sched_ok_def awaits_def split: option.split)
  have retire: "sched_ok ctx (commit_retire c' fs ctx)" for c' fs
  proof -
    let ?c1 = "c'\<lparr>instret := instret c' + 1\<rparr>" and ?ctx1 = "ctx_trace COMMIT_KIND fs ctx"
    obtain c2 ctx2 where s: "sample_interrupt ?c1 ?ctx1 = (c2, ctx2)" by fastforce
    then have "scheduled ctx2 = scheduled ctx" using sample_interrupt_sched [of ?c1 ?ctx1] by simp
    with s fetch_next_sched [of ctx2 c2] show ?thesis
      by (auto simp: commit_retire_def Let_def sched_ok_def awaits_def)
  qed
  have "sched_ok ctx (result_bind (commit_apply c w outcome pa) (\<lambda>(c1, fields). commit_retire c1 fields ctx))" for w
    using retire by (cases "commit_apply c w outcome pa") auto
  with trap show ?thesis
    by (auto simp: commit_def split: Outcome.split ExecOutcome.split option.split)
qed

lemma cpu_send_sched:
  assumes "\<And>txn. awaits (c\<lparr>next_txn := next_txn c + 1, cpu_state := st txn\<rparr>) =
      [EffSend PORT (MsgMemV1 (msg txn)) WhenNow PhRequest]"
  shows "sched_ok ctx (result_bind (cpu_send c ctx msg)
    (\<lambda>(c', ctx', txn). Ok (c'\<lparr>cpu_state := st txn\<rparr>, ctx')))"
  using assms by (auto simp: sched_ok_def cpu_send_def Let_def dest!: scheduled_send split: if_splits)

lemma cpu_wake_sched: "sched_ok ctx (cpu_wake c tok ctx)"
proof (cases "cpu_state c")
  case (FetchIssue pa)
  then show ?thesis
    using cpu_send_sched [where st = "\<lambda>x. FetchWait x pa" and c = c]
    by (cases pa) (simp_all add: cpu_wake_def Let_def awaits_def)
next
  case (MemIssue insn plan pa)
  then show ?thesis
    using cpu_send_sched [where st = "\<lambda>x. MemWait x insn plan pa" and c = c]
    by (simp add: cpu_wake_def Let_def awaits_def)
next
  case (WalkIssue walk)
  then show ?thesis
    using cpu_send_sched [where st = "\<lambda>x. WalkWait x walk" and c = c]
    by (simp add: cpu_wake_def Let_def awaits_def)
qed (simp_all add: cpu_wake_def commit_sched)

lemma walk_response_sched: "sched_ok ctx (walk_response c walk msg ctx)"
  by (auto simp: walk_response_def Let_def awaits_def intro!: to_commit_sched sched_ok_wake
      split: MemMsg.split ReadOutcome.split WalkStep.split Purpose.split)

lemma fetch_response_sched: "sched_ok ctx (fetch_response c msg ctx)"
  by (auto simp: fetch_response_def Let_def awaits_def intro!: to_commit_sched sched_ok_wake
      split: MemMsg.split ReadOutcome.split option.split Step.split)

lemma cpu_response_sched: "sched_ok ctx (cpu_response c msg ctx)"
  by (auto simp: cpu_response_def mem_response_def walk_response_sched fetch_response_sched to_commit_sched
      split: option.split State.split sum.split)

text \<open>
  C21. The CPU has exactly one event in flight: a handler that succeeds on a wake or a memory response
  schedules exactly the event its new state waits for (the wake of an issue or commit state, or the
  one request of a waiting state), and nothing once it has halted. A change of the interrupt line
  schedules nothing and leaves the execution state alone.
\<close>

theorem one_event_outstanding:
  assumes "handle_event c ev ctx = Ok (c', ctx')"
  shows "if (\<exists>port m. ev = DMessage port (MsgIrq m))
    then scheduled ctx' = scheduled ctx \<and> cpu_state c' = cpu_state c
    else scheduled ctx' = scheduled ctx @ awaits c'"
proof (cases "\<exists>port m. ev = DMessage port (MsgIrq m)")
  case True
  with assms show ?thesis
    by (auto simp: handle_event_def cpu_irq_def split: if_splits IrqMsg.splits)
next
  case False
  then have "sched_ok ctx (handle_event c ev ctx)"
    using cpu_wake_sched cpu_response_sched
    by (auto simp: handle_event_def split: Delivered.split Message.split)
  with assms False show ?thesis by (auto simp: sched_ok_def)
qed

theorem one_event_outstanding_witness:
  "\<exists>c' ctx'. handle_event
      \<lparr>config = \<lparr>cfg_clock = 0, cfg_entry = 0, cfg_max_instructions = 1, cfg_profile = M2\<rparr>, cpu_pc = 0,
       cpu_regs = RegisterFile_new, instret = 0, next_txn = 7, cpu_state = FetchIssue None,
       csrs = CsrFile_new, m3 = M3State_new\<rparr>
      (DWake 0) \<lparr>ctx_phase = PhRequest, ctx_refuse = \<lambda>_. None, ctx_out = []\<rparr> = Ok (c', ctx')
    \<and> scheduled ctx' = awaits c'"
proof -
  let ?c = "\<lparr>config = \<lparr>cfg_clock = 0, cfg_entry = 0, cfg_max_instructions = 1, cfg_profile = M2\<rparr>, cpu_pc = 0,
       cpu_regs = RegisterFile_new, instret = 0, next_txn = 7, cpu_state = FetchIssue None,
       csrs = CsrFile_new, m3 = M3State_new\<rparr>"
  let ?ctx = "\<lparr>ctx_phase = PhRequest, ctx_refuse = \<lambda>_. None, ctx_out = []\<rparr>"
  obtain c' ctx' where h: "handle_event ?c (DWake 0) ?ctx = Ok (c', ctx')"
    by (simp add: handle_event_def cpu_wake_def FETCH_def cpu_send_def u64_max_def ctx_send_def
        ctx_effect_def Let_def)
  from one_event_outstanding [OF h] h show ?thesis by (auto simp: scheduled_def)
qed

end
