(* ===== verification/Rv32_CpuAtomic.thy ===== *)
theory Rv32_CpuAtomic
  imports Rv32_CpuInv
begin

section \<open>The event-driven CPU executes instructions atomically\<close>

text \<open>
  The CPU of \<^verbatim>\<open>cpu.rs\<close> spreads an instruction over up to thirteen events. Here it runs against a memory
  that answers each request (\<open>rd\<close>, \<open>wr\<close>: any functions that return as many bytes as were asked for;
  the bus and its devices are not part of this theory), and \<open>atomic_step\<close> says what the instruction
  does as one step: translate, fetch, decode, execute, translate and access, commit. The refinement
  lemma is that running the events from one instruction boundary gives the atomic result.
\<close>

subsection \<open>The environment\<close>

definition quiet :: "Phase \<Rightarrow> SimContext" where
  "quiet ph = \<lparr>ctx_phase = ph, ctx_refuse = \<lambda>_. None, ctx_out = []\<rparr>"

text \<open>The delivery that answers an effect, its phase, and the memory afterwards.\<close>

fun answer ::
    "('m \<Rightarrow> u64 \<Rightarrow> nat \<Rightarrow> u8 list option) \<Rightarrow> ('m \<Rightarrow> u64 \<Rightarrow> u8 list \<Rightarrow> 'm option) \<Rightarrow> 'm \<Rightarrow> CtxEffect
      \<Rightarrow> (Delivered \<times> Phase \<times> 'm) option" where
  "answer rd wr m (EffWake w ph tok) = Some (DWake tok, ph, m)"
| "answer rd wr m (EffSend port (MsgMemV1 (ReadReq txn addr len)) w ph) =
     Some (DMessage port (MsgMemV1 (ReadResp txn
             (case rd m addr (unat len) of Some bs \<Rightarrow> ReadData bs | None \<Rightarrow> ReadFault AccessFault))),
           PhComplete, m)"
| "answer rd wr m (EffSend port (MsgMemV1 (WriteReq txn addr data)) w ph) =
     (case wr m addr data of
        Some m' \<Rightarrow> Some (DMessage port (MsgMemV1 (WriteResp txn WriteDone)), PhComplete, m')
      | None \<Rightarrow> Some (DMessage port (MsgMemV1 (WriteResp txn (WriteFault AccessFault))), PhComplete, m))"
| "answer rd wr m _ = None"

definition env_step ::
    "('m \<Rightarrow> u64 \<Rightarrow> nat \<Rightarrow> u8 list option) \<Rightarrow> ('m \<Rightarrow> u64 \<Rightarrow> u8 list \<Rightarrow> 'm option) \<Rightarrow> Rv32iCpu \<times> 'm
      \<Rightarrow> (Rv32iCpu \<times> 'm) option" where
  "env_step rd wr cm =
     (case cm of (c, m) \<Rightarrow>
       (case awaits c of
          [] \<Rightarrow> None
        | e # _ \<Rightarrow>
            (case answer rd wr m e of
               None \<Rightarrow> None
             | Some (ev, ph, m') \<Rightarrow>
                 (case handle_event c ev (quiet ph) of
                    Err _ \<Rightarrow> None
                  | Ok (c', _) \<Rightarrow> Some (c', m')))))"

fun env_run ::
    "('m \<Rightarrow> u64 \<Rightarrow> nat \<Rightarrow> u8 list option) \<Rightarrow> ('m \<Rightarrow> u64 \<Rightarrow> u8 list \<Rightarrow> 'm option) \<Rightarrow> nat \<Rightarrow> Rv32iCpu \<times> 'm
      \<Rightarrow> (Rv32iCpu \<times> 'm) option" where
  "env_run rd wr 0 cm = Some cm"
| "env_run rd wr (Suc n) cm = Option.bind (env_step rd wr cm) (env_run rd wr n)"

subsection \<open>The atomic instruction\<close>

definition atomic_commit :: "Rv32iCpu \<Rightarrow> 'm \<Rightarrow> u32 option \<Rightarrow> Outcome \<Rightarrow> u64 option \<Rightarrow> (Rv32iCpu \<times> 'm) option" where
  "atomic_commit c m insn outcome pa =
     (case commit c insn outcome pa (quiet PhCommit) of Ok (c', _) \<Rightarrow> Some (c', m) | Err _ \<Rightarrow> None)"

definition pte_reader :: "('m \<Rightarrow> u64 \<Rightarrow> nat \<Rightarrow> u8 list option) \<Rightarrow> 'm \<Rightarrow> u64 \<Rightarrow> u32 option" where
  "pte_reader rd m a = map_option u32_from_le_bytes (rd m a 4)"

definition cpu_translate ::
    "('m \<Rightarrow> u64 \<Rightarrow> nat \<Rightarrow> u8 list option) \<Rightarrow> Rv32iCpu \<Rightarrow> 'm \<Rightarrow> Access \<Rightarrow> u32 \<Rightarrow> (u64 option, Fault) result" where
  "cpu_translate rd c m access va =
     (if cfg_profile (config c) = M3 \<and> translates (m3 c) then
        (case sv32_translate (s_satp (m3 c)) (privilege (m3 c)) (s_sum (m3 c)) (s_mxr (m3 c)) access va
                (pte_reader rd m) of
           Ok pa \<Rightarrow> Ok (Some pa)
         | Err f \<Rightarrow> Err f)
      else Ok None)"

definition address_of :: "u64 option \<Rightarrow> u32 \<Rightarrow> u64" where
  "address_of pa va = (case pa of Some p \<Rightarrow> p | None \<Rightarrow> unat va)"

definition atomic_access ::
    "('m \<Rightarrow> u64 \<Rightarrow> nat \<Rightarrow> u8 list option) \<Rightarrow> ('m \<Rightarrow> u64 \<Rightarrow> u8 list \<Rightarrow> 'm option) \<Rightarrow> 'm \<Rightarrow> MemoryPlan \<Rightarrow> u64
      \<Rightarrow> (ExecOutcome, MemoryCompletionError) result \<times> 'm" where
  "atomic_access rd wr m plan addr =
     (case plan of
        PlanLoad p \<Rightarrow>
          (complete_load p
             (case rd m addr (unat (MemWidth_bytes (lp_width p))) of
                Some bs \<Rightarrow> ReadData bs | None \<Rightarrow> ReadFault AccessFault), m)
      | PlanStore p \<Rightarrow>
          (case wr m addr (sp_data p) of
             Some m' \<Rightarrow> (Ok (complete_store p WriteDone), m')
           | None \<Rightarrow> (Ok (complete_store p (WriteFault AccessFault)), m)))"

definition atomic_complete ::
    "('m \<Rightarrow> u64 \<Rightarrow> nat \<Rightarrow> u8 list option) \<Rightarrow> ('m \<Rightarrow> u64 \<Rightarrow> u8 list \<Rightarrow> 'm option) \<Rightarrow> Rv32iCpu \<Rightarrow> 'm \<Rightarrow> u32 \<Rightarrow> MemoryPlan
      \<Rightarrow> u64 option \<Rightarrow> (Rv32iCpu \<times> 'm) option" where
  "atomic_complete rd wr c m w plan pa =
     (case atomic_access rd wr m plan (address_of pa (plan_addr plan)) of
        (Ok (Effect e), m') \<Rightarrow> atomic_commit c m' (Some w) (OExec (Effect e)) pa
      | (Ok (Trap t), m') \<Rightarrow> atomic_commit c m' (Some w) (OExec (Trap t)) None
      | (Err _, _) \<Rightarrow> None)"

definition atomic_data ::
    "('m \<Rightarrow> u64 \<Rightarrow> nat \<Rightarrow> u8 list option) \<Rightarrow> ('m \<Rightarrow> u64 \<Rightarrow> u8 list \<Rightarrow> 'm option) \<Rightarrow> Rv32iCpu \<Rightarrow> 'm \<Rightarrow> u32 \<Rightarrow> MemoryPlan
      \<Rightarrow> (Rv32iCpu \<times> 'm) option" where
  "atomic_data rd wr c m w plan =
     (let access = Purpose_access (PurposeData w plan); va = plan_addr plan in
      case cpu_translate rd c m access va of
        Err f \<Rightarrow> atomic_commit c m (Some w) (OExec (Trap \<lparr>pt_cause = Fault_cause f access, pt_tval = va\<rparr>)) None
      | Ok pa \<Rightarrow> atomic_complete rd wr c m w plan pa)"

definition atomic_exec ::
    "('m \<Rightarrow> u64 \<Rightarrow> nat \<Rightarrow> u8 list option) \<Rightarrow> ('m \<Rightarrow> u64 \<Rightarrow> u8 list \<Rightarrow> 'm option) \<Rightarrow> Rv32iCpu \<Rightarrow> 'm \<Rightarrow> u64 option
      \<Rightarrow> (Rv32iCpu \<times> 'm) option" where
  "atomic_exec rd wr c m pa =
     (case rd m (address_of pa (cpu_pc c)) 4 of
        None \<Rightarrow> atomic_commit c m None (OExec (Trap \<lparr>pt_cause = InstructionAccessFault, pt_tval = cpu_pc c\<rparr>)) None
      | Some bs \<Rightarrow>
          (let w = u32_from_le_bytes bs in
           case cpu_step (cpu_isa c) w (cpu_pc c) (cpu_regs c) of
             None \<Rightarrow> None
           | Some (StepDone outcome) \<Rightarrow> atomic_commit c m (Some w) outcome None
           | Some (StepMemory plan) \<Rightarrow> atomic_data rd wr c m w plan))"

definition atomic_step ::
    "('m \<Rightarrow> u64 \<Rightarrow> nat \<Rightarrow> u8 list option) \<Rightarrow> ('m \<Rightarrow> u64 \<Rightarrow> u8 list \<Rightarrow> 'm option) \<Rightarrow> Rv32iCpu \<Rightarrow> 'm
      \<Rightarrow> (Rv32iCpu \<times> 'm) option" where
  "atomic_step rd wr c m =
     (case cpu_translate rd c m AccFetch (cpu_pc c) of
        Err f \<Rightarrow>
          atomic_commit c m None (OExec (Trap \<lparr>pt_cause = Fault_cause f AccFetch, pt_tval = cpu_pc c\<rparr>)) None
      | Ok pa \<Rightarrow> atomic_exec rd wr c m pa)"

text \<open>Between instructions the CPU is about to fetch, through a walk when it translates.\<close>

definition at_boundary :: "Rv32iCpu \<Rightarrow> bool" where
  "at_boundary c \<longleftrightarrow>
     cpu_state c = (if translating c
       then WalkIssue \<lparr>wk_purpose = PurposeFetch, wk_level = 1, wk_table = M3_root (m3 c)\<rparr>
       else FetchIssue None)"

subsection \<open>One event\<close>

lemma quiet_effect [simp]:
  "ctx_effect e (quiet ph) = Ok \<lparr>ctx_phase = ph, ctx_refuse = \<lambda>_. None, ctx_out = [e]\<rparr>"
  "ctx_phase (quiet ph) = ph" "ctx_refuse (quiet ph) = (\<lambda>_. None)"
  by (simp_all add: quiet_def)

lemma env_step_issue:
  assumes "next_txn c < u64_max"
  shows "cpu_state c = FetchIssue pa \<Longrightarrow>
      env_step rd wr (c, m) = Some (c\<lparr>next_txn := next_txn c + 1, cpu_state := FetchWait (next_txn c) pa\<rparr>, m)"
    and "cpu_state c = MemIssue w plan pa \<Longrightarrow>
      env_step rd wr (c, m) = Some (c\<lparr>next_txn := next_txn c + 1, cpu_state := MemWait (next_txn c) w plan pa\<rparr>, m)"
    and "cpu_state c = WalkIssue walk \<Longrightarrow>
      env_step rd wr (c, m) = Some (c\<lparr>next_txn := next_txn c + 1, cpu_state := WalkWait (next_txn c) walk\<rparr>, m)"
  using assms
  by (auto simp: env_step_def awaits_def Let_def handle_event_def cpu_wake_def cpu_send_def ctx_send_def)

lemma env_step_commit:
  "cpu_state c = CommitPending insn outcome pa \<Longrightarrow>
     env_step rd wr (c, m) = atomic_commit c m insn outcome pa"
  by (simp add: env_step_def awaits_def Let_def handle_event_def cpu_wake_def atomic_commit_def)

definition sized :: "('m \<Rightarrow> u64 \<Rightarrow> nat \<Rightarrow> u8 list option) \<Rightarrow> bool" where
  "sized rd \<longleftrightarrow> (\<forall>m a n bs. rd m a n = Some bs \<longrightarrow> length bs = n)"

definition walk_context :: "Rv32iCpu \<Rightarrow> Access \<Rightarrow> Context" where
  "walk_context c access = \<lparr>ctx_privilege = privilege (m3 c), ctx_sum = s_sum (m3 c),
     ctx_mxr = s_mxr (m3 c), ctx_access = access\<rparr>"

fun after_walk :: "Purpose \<Rightarrow> u64 \<Rightarrow> State" where
  "after_walk PurposeFetch pa = FetchIssue (Some pa)"
| "after_walk (PurposeData w plan) pa = MemIssue w plan (Some pa)"

fun purpose_insn :: "Purpose \<Rightarrow> u32 option" where
  "purpose_insn PurposeFetch = None"
| "purpose_insn (PurposeData w _) = Some w"

definition walk_trap :: "Rv32iCpu \<Rightarrow> Walk \<Rightarrow> Fault \<Rightarrow> State" where
  "walk_trap c walk f = CommitPending (purpose_insn (wk_purpose walk))
     (OExec (Trap \<lparr>pt_cause = Fault_cause f (Purpose_access (wk_purpose walk)), pt_tval = walk_va c walk\<rparr>)) None"

definition walk_done :: "Rv32iCpu \<Rightarrow> Walk \<Rightarrow> (u64, Fault) result \<Rightarrow> State" where
  "walk_done c walk r = (case r of Ok pa \<Rightarrow> after_walk (wk_purpose walk) pa | Err f \<Rightarrow> walk_trap c walk f)"

lemma case_purpose_insn: "(case p of PurposeFetch \<Rightarrow> None | PurposeData w _ \<Rightarrow> Some w) = purpose_insn p"
  by (cases p) simp_all

lemma to_commit_quiet:
  "to_commit c insn outcome pa (quiet ph) =
     Ok (c\<lparr>cpu_state := CommitPending insn outcome pa\<rparr>,
         \<lparr>ctx_phase = ph, ctx_refuse = \<lambda>_. None, ctx_out = [EffWake WhenNow PhCommit COMMIT]\<rparr>)"
  by (simp add: to_commit_def ctx_wake_self_def)

lemma handle_response:
  "handle_event c (DMessage PORT (MsgMemV1 msg)) ctx = cpu_response c msg ctx"
  by (simp add: handle_event_def)

lemma env_step_walk_wait:
  assumes st: "cpu_state c = WalkWait txn walk" and sized: "sized rd"
  shows "env_step rd wr (c, m) =
    (case pte_reader rd m (pte_address (wk_table walk) (walk_va c walk) (wk_level walk)) of
       None \<Rightarrow> Some (c\<lparr>cpu_state := walk_trap c walk FaultAccess\<rparr>, m)
     | Some pte \<Rightarrow>
         (case sv32_step (walk_context c (Purpose_access (wk_purpose walk))) (walk_va c walk) (wk_level walk) pte of
            WalkNext t \<Rightarrow> Some (c\<lparr>cpu_state := WalkIssue (walk\<lparr>wk_level := wk_level walk - 1, wk_table := t\<rparr>)\<rparr>, m)
          | WalkLeaf pa \<Rightarrow> Some (c\<lparr>cpu_state := after_walk (wk_purpose walk) pa\<rparr>, m)
          | WalkPageFault \<Rightarrow> Some (c\<lparr>cpu_state := walk_trap c walk FaultPage\<rparr>, m)))"
proof -
  let ?addr = "pte_address (wk_table walk) (walk_va c walk) (wk_level walk)"
  have step: "env_step rd wr (c, m) =
      (case walk_response c walk (ReadResp txn
          (case rd m ?addr 4 of Some bs \<Rightarrow> ReadData bs | None \<Rightarrow> ReadFault AccessFault)) (quiet PhComplete) of
         Err _ \<Rightarrow> None | Ok (c', _) \<Rightarrow> Some (c', m))"
    using st by (simp add: env_step_def awaits_def Let_def handle_response cpu_response_def)
  show ?thesis
  proof (cases "rd m ?addr 4")
    case None
    then show ?thesis
      unfolding step
      by (simp add: pte_reader_def walk_response_def Let_def to_commit_quiet walk_trap_def case_purpose_insn)
  next
    case (Some bs)
    with sized have len: "length bs = 4" by (auto simp: sized_def)
    define pte where "pte = u32_from_le_bytes bs"
    show ?thesis
    proof (cases "sv32_step (walk_context c (Purpose_access (wk_purpose walk))) (walk_va c walk) (wk_level walk) pte")
      case (WalkNext t)
      with Some len sv32_step_next_pos [OF this] show ?thesis
        unfolding step
        by (simp add: pte_reader_def walk_response_def Let_def wake_next_cycle_def ctx_wake_self_def
            flip: pte_def walk_context_def)
    next
      case (WalkLeaf pa)
      with Some len show ?thesis
        unfolding step
        by (cases "wk_purpose walk")
          (simp_all add: pte_reader_def walk_response_def Let_def wake_next_cycle_def ctx_wake_self_def
            flip: pte_def walk_context_def)
    next
      case WalkPageFault
      with Some len show ?thesis
        unfolding step
        by (simp add: pte_reader_def walk_response_def Let_def to_commit_quiet walk_trap_def case_purpose_insn
            flip: pte_def walk_context_def)
    qed
  qed
qed

lemma env_run_1: "env_run rd wr (Suc 0) cm = env_step rd wr cm"
proof -
  have "env_run rd wr 0 = Some" by (simp add: fun_eq_iff)
  then show ?thesis by simp
qed

lemma env_run_2: "env_run rd wr 2 cm = Option.bind (env_step rd wr cm) (env_step rd wr)"
  by (cases "env_step rd wr cm")
    (simp_all add: numeral_2_eq_2 env_run.simps(2) [of rd wr "Suc 0"] env_run_1 del: env_run.simps(2))

lemma env_run_add: "env_run rd wr (a + b) cm = Option.bind (env_run rd wr a cm) (env_run rd wr b)"
  by (induction a arbitrary: cm) (auto split: bind_splits)

subsection \<open>A whole walk\<close>

lemma walk_view [simp]:
  "walk_context (c\<lparr>next_txn := n\<rparr>) a = walk_context c a" "walk_context (c\<lparr>cpu_state := st\<rparr>) a = walk_context c a"
  "walk_trap (c\<lparr>next_txn := n\<rparr>) w f = walk_trap c w f" "walk_trap (c\<lparr>cpu_state := st\<rparr>) w f = walk_trap c w f"
  "walk_done (c\<lparr>next_txn := n\<rparr>) w r = walk_done c w r" "walk_done (c\<lparr>cpu_state := st\<rparr>) w r = walk_done c w r"
  by (simp_all add: walk_context_def walk_trap_def walk_done_def split: sum.split)

lemma env_walk_level:
  assumes "cpu_state c = WalkIssue walk" "next_txn c < u64_max" "sized rd"
  defines "c1 \<equiv> c\<lparr>next_txn := next_txn c + 1\<rparr>"
  shows "env_run rd wr 2 (c, m) =
    (case pte_reader rd m (pte_address (wk_table walk) (walk_va c walk) (wk_level walk)) of
       None \<Rightarrow> Some (c1\<lparr>cpu_state := walk_trap c walk FaultAccess\<rparr>, m)
     | Some pte \<Rightarrow>
         (case sv32_step (walk_context c (Purpose_access (wk_purpose walk))) (walk_va c walk) (wk_level walk) pte of
            WalkNext t \<Rightarrow> Some (c1\<lparr>cpu_state := WalkIssue (walk\<lparr>wk_level := wk_level walk - 1, wk_table := t\<rparr>)\<rparr>, m)
          | WalkLeaf pa \<Rightarrow> Some (c1\<lparr>cpu_state := after_walk (wk_purpose walk) pa\<rparr>, m)
          | WalkPageFault \<Rightarrow> Some (c1\<lparr>cpu_state := walk_trap c walk FaultPage\<rparr>, m)))"
  using assms(1-3) env_step_issue(3) [OF assms(2,1), of rd wr m]
    env_step_walk_wait [of "c\<lparr>next_txn := next_txn c + 1, cpu_state := WalkWait (next_txn c) walk\<rparr>" "next_txn c" walk rd wr m]
  by (simp add: env_run_2 c1_def split: option.split WalkStep.split)

lemma env_walk:
  assumes st: "cpu_state c = WalkIssue walk" and lvl: "wk_level walk = 1"
    and txn: "next_txn c + 2 \<le> u64_max" and sized: "sized rd"
  shows "\<exists>n k. n \<le> 4 \<and> k \<le> 2 \<and> env_run rd wr n (c, m) =
    Some (c\<lparr>next_txn := next_txn c + k,
            cpu_state := walk_done c walk (sv32_walk (pte_reader rd m)
              (walk_context c (Purpose_access (wk_purpose walk))) (walk_va c walk) 1 (wk_table walk))\<rparr>, m)"
    (is "\<exists>n k. n \<le> 4 \<and> k \<le> 2 \<and> env_run rd wr n (c, m) = Some (?end k, m)")
proof -
  let ?ctx = "walk_context c (Purpose_access (wk_purpose walk))" and ?va = "walk_va c walk"
  have txn1: "next_txn c < u64_max" using txn by simp
  note level1 = env_walk_level [OF st txn1 sized, of wr m, unfolded lvl]
  show ?thesis
  proof (cases "\<exists>pte t. pte_reader rd m (pte_address (wk_table walk) ?va 1) = Some pte
      \<and> sv32_step ?ctx ?va 1 pte = WalkNext t")
    case False
    then have "env_run rd wr 2 (c, m) = Some (?end 1, m)"
      unfolding level1
      by (subst sv32_walk.simps)
        (auto simp: walk_done_def split: option.split WalkStep.split)
    then show ?thesis by (intro exI [of _ 2] exI [of _ 1]) simp
  next
    case True
    then obtain pte t where pte: "pte_reader rd m (pte_address (wk_table walk) ?va 1) = Some pte"
      and nx: "sv32_step ?ctx ?va 1 pte = WalkNext t" by blast
    let ?walk = "walk\<lparr>wk_level := 0, wk_table := t\<rparr>"
    let ?c1 = "c\<lparr>next_txn := next_txn c + 1, cpu_state := WalkIssue ?walk\<rparr>"
    have first: "env_run rd wr 2 (c, m) = Some (?c1, m)"
      unfolding level1 using pte nx by simp
    have va: "walk_va ?c1 ?walk = ?va"
      by (simp add: walk_va_def split: Purpose.split)
    have trap: "walk_trap ?c1 ?walk f = walk_trap c walk f" for f
      by (simp add: walk_trap_def walk_va_def split: Purpose.split)
    have "env_run rd wr 2 (?c1, m) = Some (?end 2, m)"
      using env_walk_level [of ?c1 ?walk rd wr m] txn sized va trap nx pte sv32_step_level0
      by (subst sv32_walk.simps) (simp add: sv32_walk.simps [of _ _ _ 0] walk_done_def split: option.split WalkStep.split)
    with first have "env_run rd wr (2 + 2) (c, m) = Some (?end 2, m)" by (simp only: env_run_add) simp
    then show ?thesis by (intro exI [of _ 4] exI [of _ 2]) simp
  qed
qed

subsection \<open>Fetch and data accesses\<close>

lemma env_fetch:
  assumes st: "cpu_state c = FetchIssue pa" and txn: "next_txn c < u64_max" and sized: "sized rd"
  defines "c1 \<equiv> c\<lparr>next_txn := next_txn c + 1\<rparr>"
  shows "env_run rd wr 2 (c, m) =
    (case rd m (address_of pa (cpu_pc c)) 4 of
       None \<Rightarrow> Some (c1\<lparr>cpu_state := CommitPending None
                 (OExec (Trap \<lparr>pt_cause = InstructionAccessFault, pt_tval = cpu_pc c\<rparr>)) None\<rparr>, m)
     | Some bs \<Rightarrow>
         (let w = u32_from_le_bytes bs in
          case cpu_step (cpu_isa c) w (cpu_pc c) (cpu_regs c) of
            None \<Rightarrow> None
          | Some (StepDone outcome) \<Rightarrow> Some (c1\<lparr>cpu_state := CommitPending (Some w) outcome None\<rparr>, m)
          | Some (StepMemory plan) \<Rightarrow>
              Some (c1\<lparr>cpu_state :=
                (if translating c
                 then WalkIssue \<lparr>wk_purpose = PurposeData w plan, wk_level = 1, wk_table = M3_root (m3 c)\<rparr>
                 else MemIssue w plan None)\<rparr>, m)))"
proof -
  let ?c2 = "c\<lparr>next_txn := next_txn c + 1, cpu_state := FetchWait (next_txn c) pa\<rparr>"
  let ?addr = "address_of pa (cpu_pc c)"
  have first: "env_step rd wr (c, m) = Some (?c2, m)" by (rule env_step_issue(1) [OF txn st])
  have second: "env_step rd wr (?c2, m) =
      (case fetch_response ?c2 (ReadResp (next_txn c)
          (case rd m ?addr 4 of Some bs \<Rightarrow> ReadData bs | None \<Rightarrow> ReadFault AccessFault)) (quiet PhComplete) of
         Err _ \<Rightarrow> None | Ok (c', _) \<Rightarrow> Some (c', m))"
    by (cases pa) (simp_all add: env_step_def awaits_def Let_def handle_response cpu_response_def address_of_def)
  show ?thesis
  proof (cases "rd m ?addr 4")
    case None
    then show ?thesis
      unfolding env_run_2 first bind.simps second
      by (simp add: fetch_response_def to_commit_quiet c1_def)
  next
    case (Some bs)
    with sized have "length bs = 4" by (auto simp: sized_def)
    with Some show ?thesis
      unfolding env_run_2 first bind.simps second
      by (simp add: fetch_response_def to_commit_quiet c1_def Let_def wake_next_cycle_def ctx_wake_self_def
          split: option.split Step.split)
  qed
qed

lemma env_data:
  assumes st: "cpu_state c = MemIssue w plan pa" and txn: "next_txn c < u64_max"
  defines "c1 \<equiv> c\<lparr>next_txn := next_txn c + 1\<rparr>"
  shows "env_run rd wr 2 (c, m) =
    (case atomic_access rd wr m plan (address_of pa (plan_addr plan)) of
       (Ok outcome, m') \<Rightarrow>
         Some (c1\<lparr>cpu_state := CommitPending (Some w) (OExec outcome)
           (case outcome of Effect _ \<Rightarrow> pa | Trap _ \<Rightarrow> None)\<rparr>, m')
     | (Err _, m') \<Rightarrow> None)"
proof -
  let ?c2 = "c\<lparr>next_txn := next_txn c + 1, cpu_state := MemWait (next_txn c) w plan pa\<rparr>"
  have first: "env_step rd wr (c, m) = Some (?c2, m)" by (rule env_step_issue(2) [OF txn st])
  let ?addr = "address_of pa (plan_addr plan)"
  have await: "awaits ?c2 = [EffSend PORT (MsgMemV1 (request_of plan ?addr (next_txn c))) WhenNow PhRequest]"
    by (simp add: awaits_def address_of_def)
  have second: "env_step rd wr (?c2, m) =
      (case answer rd wr m (EffSend PORT (MsgMemV1 (request_of plan ?addr (next_txn c))) WhenNow PhRequest) of
         None \<Rightarrow> None
       | Some (ev, ph, m') \<Rightarrow>
           (case handle_event ?c2 ev (quiet ph) of Err _ \<Rightarrow> None | Ok (c', _) \<Rightarrow> Some (c', m')))"
    unfolding env_step_def prod.case await list.case ..
  show ?thesis
    unfolding env_run_2 first bind.simps second
    by (cases plan)
      (auto simp: handle_response cpu_response_def request_of_def mem_response_def to_commit_quiet c1_def
        atomic_access_def split: option.split sum.split)
qed

subsection \<open>Commit does not look at the execution state\<close>

definition at_txn :: "nat \<Rightarrow> State \<Rightarrow> Rv32iCpu \<Rightarrow> Rv32iCpu" where
  "at_txn n st c = c\<lparr>next_txn := n, cpu_state := st\<rparr>"

lemma at_txn_view [simp]:
  "next_txn (at_txn n st c) = n" "cpu_state (at_txn n st c) = st"
  "cpu_isa (at_txn n st c) = cpu_isa c" "translating (at_txn n st c) = translating c"
  "config (at_txn n st c) = config c" "m3 (at_txn n st c) = m3 c" "csrs (at_txn n st c) = csrs c"
  "cpu_pc (at_txn n st c) = cpu_pc c" "cpu_regs (at_txn n st c) = cpu_regs c"
  "instret (at_txn n st c) = instret c" "read_csr (at_txn n st c) csr = read_csr c csr"
  "commit_fields (at_txn n st c) w e pa = commit_fields c w e pa"
  "cause_name (at_txn n st c) t = cause_name c t"
  by (simp_all add: at_txn_def cpu_isa_def translating_def read_csr_def commit_fields_def cause_name_def
      split: Rv32iProfile.split)

lemma at_txn_write_csr [simp]:
  "write_csr (at_txn n st c) csr v = map_option (at_txn n st) (write_csr c csr v)"
  by (cases c)
    (simp add: at_txn_def write_csr_def option.map_comp split_def o_def split: Rv32iProfile.split)

lemma at_txn_update [simp]:
  "(at_txn n st c)\<lparr>cpu_regs := r, cpu_pc := p\<rparr> = at_txn n st (c\<lparr>cpu_regs := r, cpu_pc := p\<rparr>)"
  "(at_txn n st c)\<lparr>m3 := s, csrs := x, cpu_pc := p\<rparr> = at_txn n st (c\<lparr>m3 := s, csrs := x, cpu_pc := p\<rparr>)"
  "(at_txn n st c)\<lparr>m3 := s, cpu_pc := p\<rparr> = at_txn n st (c\<lparr>m3 := s, cpu_pc := p\<rparr>)"
  "(at_txn n st c)\<lparr>csrs := x, cpu_pc := p\<rparr> = at_txn n st (c\<lparr>csrs := x, cpu_pc := p\<rparr>)"
  "(at_txn n st c)\<lparr>instret := i\<rparr> = at_txn n st (c\<lparr>instret := i\<rparr>)"
  "(at_txn n st c)\<lparr>cpu_state := st'\<rparr> = (c\<lparr>cpu_state := st'\<rparr>)\<lparr>next_txn := n\<rparr>"
  by (cases c; simp add: at_txn_def)+

definition map_cpu :: "(Rv32iCpu \<Rightarrow> Rv32iCpu) \<Rightarrow> ('e + Rv32iCpu \<times> 'x) \<Rightarrow> ('e + Rv32iCpu \<times> 'x)" where
  "map_cpu f r = (case r of Ok (c, x) \<Rightarrow> Ok (f c, x) | Err e \<Rightarrow> Err e)"

lemma map_cpu_simps [simp]: "map_cpu f (Ok (c, x)) = Ok (f c, x)" "map_cpu f (Err e) = Err e"
  "map_cpu f (component_fault w) = component_fault w"
  by (simp_all add: map_cpu_def component_fault_def)

lemma result_bind_assoc: "result_bind (result_bind r f) g = result_bind r (\<lambda>x. result_bind (f x) g)"
  by (cases r) simp_all

lemma map_cpu_bind: "map_cpu f (result_bind r g) = result_bind r (\<lambda>x. map_cpu f (g x))"
  by (cases r) simp_all

lemma fetch_next_txn: "fetch_next (at_txn n st c) ctx = map_cpu (\<lambda>c. c\<lparr>next_txn := n\<rparr>) (fetch_next c ctx)"
  by (simp add: fetch_next_def Let_def map_cpu_bind wake_next_cycle_def)

lemma commit_apply_txn:
  "commit_apply (at_txn n st c) w outcome pa = map_cpu (at_txn n st) (commit_apply c w outcome pa)"
proof (cases outcome)
  case (OExec x)
  then show ?thesis
    by (cases x) (simp_all add: map_cpu_bind split: option.split)
next
  case (OCsr p)
  show ?thesis
  proof (cases "read_csr c (pc_csr p)")
    case (Some old)
    then show ?thesis
      using OCsr
      by (cases "write_csr c (pc_csr p) (CsrOp_apply (pc_op p) old (pc_operand p))"; cases "pc_write p")
        (simp_all add: commit_csr_def Let_def map_cpu_bind result_bind_assoc)
  qed (use OCsr in \<open>simp add: commit_csr_def\<close>)
qed (simp_all add: map_cpu_bind split: Rv32iProfile.split prod.split)

lemma sample_interrupt_txn:
  "sample_interrupt (at_txn n st c) ctx = map_prod (at_txn n st) id (sample_interrupt c ctx)"
  by (simp add: sample_interrupt_def Let_def split: prod.split)

lemma commit_txn:
  "commit (at_txn n st c) insn outcome pa ctx = map_cpu (\<lambda>c. c\<lparr>next_txn := n\<rparr>) (commit c insn outcome pa ctx)"
proof -
  have trap: "commit_trap (at_txn n st c) insn t ctx = map_cpu (\<lambda>c. c\<lparr>next_txn := n\<rparr>) (commit_trap c insn t ctx)" for t
    by (auto simp: commit_trap_def Let_def fetch_next_txn split: option.split)
  have retire: "commit_retire (at_txn n st d) fs ctx = map_cpu (\<lambda>c. c\<lparr>next_txn := n\<rparr>) (commit_retire d fs ctx)" for d fs
    by (auto simp: commit_retire_def Let_def sample_interrupt_txn fetch_next_txn split: prod.split)
  have "result_bind (commit_apply (at_txn n st c) w outcome pa) (\<lambda>(c1, fields). commit_retire c1 fields ctx) =
      map_cpu (\<lambda>c. c\<lparr>next_txn := n\<rparr>)
        (result_bind (commit_apply c w outcome pa) (\<lambda>(c1, fields). commit_retire c1 fields ctx))" for w
    by (cases "commit_apply c w outcome pa") (auto simp: commit_apply_txn retire)
  with trap show ?thesis
    by (auto simp: commit_def split: Outcome.split ExecOutcome.split option.split)
qed

subsection \<open>Commit ends at the next boundary\<close>

definition boundary :: "Rv32iCpu \<Rightarrow> Rv32iCpu" where
  "boundary c = c\<lparr>cpu_state := (if translating c
     then WalkIssue \<lparr>wk_purpose = PurposeFetch, wk_level = 1, wk_table = M3_root (m3 c)\<rparr>
     else FetchIssue None)\<rparr>"

lemma at_boundary_boundary [simp]: "at_boundary (boundary c)"
  by (simp add: at_boundary_def boundary_def)

lemma accepts_all_trace [simp]: "accepts_all (ctx_trace k f ctx) = accepts_all ctx"
  by (simp add: ctx_trace_def)

lemma accepts_all_quiet [simp]: "accepts_all (quiet ph)"
  by (simp add: accepts_all_def)

definition ends_ok :: "Rv32iCpu handled \<Rightarrow> bool" where
  "ends_ok r \<longleftrightarrow> (\<exists>c ctx. r = Ok (c, ctx) \<and> (at_boundary c \<or> halt c \<noteq> None))"

lemma fetch_next_ends: "accepts_all ctx \<Longrightarrow> ends_ok (fetch_next c ctx)"
  by (auto simp: ends_ok_def fetch_next_def Let_def wake_next_cycle_def ctx_wake_self_def
      ctx_effect_accepted at_boundary_def)

lemma sample_interrupt_accepts: "accepts_all ctx \<Longrightarrow> accepts_all (snd (sample_interrupt c ctx))"
  by (simp add: sample_interrupt_def Let_def split: prod.split)

lemma commit_ends:
  assumes "arch_ok c" "instret c < cfg_max_instructions (config c)" "outcome_ok (cpu_isa c) outcome"
    and "insn = None \<Longrightarrow> \<exists>t. outcome = OExec (Trap t)" and "accepts_all ctx"
  shows "ends_ok (commit c insn outcome pa ctx)"
proof (cases "\<exists>t. outcome = OExec (Trap t)")
  case True
  with assms(5) show ?thesis
    by (auto simp: commit_def commit_trap_def Let_def intro!: fetch_next_ends split: option.split)
      (simp_all add: ends_ok_def)
next
  case False
  with assms(4) obtain w where w: "insn = Some w" by blast
  from False assms obtain c' fs where app: "commit_apply c w outcome pa = Ok (c', fs)" "keeps c c'"
    using commit_apply_ok [of c outcome w pa] by auto
  let ?c1 = "c'\<lparr>instret := instret c' + 1\<rparr>" and ?ctx1 = "ctx_trace COMMIT_KIND fs ctx"
  obtain c2 ctx2 where s: "sample_interrupt ?c1 ?ctx1 = (c2, ctx2)" by fastforce
  with assms(5) have "accepts_all ctx2" using sample_interrupt_accepts [of ?ctx1 ?c1] by simp
  then have "ends_ok (fetch_next c2 ctx2)" by (rule fetch_next_ends)
  moreover have "instret c' \<noteq> u64_max" using app(2) assms(1,2) by (auto simp: keeps_def arch_ok_def)
  ultimately have retire: "ends_ok (commit_retire c' fs ctx)"
    using s by (simp add: commit_retire_def Let_def) (simp add: ends_ok_def)
  have "commit c insn outcome pa ctx = commit_retire c' fs ctx"
    using False w app(1) by (auto simp: commit_def split: Outcome.split ExecOutcome.split)
  with retire show ?thesis by simp
qed

subsection \<open>The refinement\<close>

definition set_txn :: "nat \<Rightarrow> Rv32iCpu \<times> 'm \<Rightarrow> Rv32iCpu \<times> 'm" where
  "set_txn n = map_prod (\<lambda>c. c\<lparr>next_txn := n\<rparr>) id"

text \<open>\<open>runs e t\<close>: running at most \<open>e\<close> events that send at most \<open>t\<close> requests gives \<open>r\<close>, \<open>next_txn\<close> apart.\<close>

definition runs ::
    "('m \<Rightarrow> u64 \<Rightarrow> nat \<Rightarrow> u8 list option) \<Rightarrow> ('m \<Rightarrow> u64 \<Rightarrow> u8 list \<Rightarrow> 'm option) \<Rightarrow> nat \<Rightarrow> nat \<Rightarrow> Rv32iCpu \<times> 'm
      \<Rightarrow> (Rv32iCpu \<times> 'm) option \<Rightarrow> bool" where
  "runs rd wr e t cm r \<longleftrightarrow> (\<exists>n k. n \<le> e \<and> k \<le> t \<and>
     env_run rd wr n cm = map_option (set_txn (next_txn (fst cm) + k)) r)"

lemma at_txn_same: "next_txn c = n \<Longrightarrow> cpu_state c = st \<Longrightarrow> at_txn n st c = c"
  by (simp add: at_txn_def)

lemma runs_after:
  assumes "env_run rd wr n cm = Some (at_txn (next_txn (fst cm) + k) st c, m')"
    and "runs rd wr e t (at_txn (next_txn (fst cm) + k) st c, m') r" and "n + e \<le> e'" "k + t \<le> t'"
  shows "runs rd wr e' t' cm r"
proof -
  from assms(2) obtain n' k' where "n' \<le> e" "k' \<le> t"
    "env_run rd wr n' (at_txn (next_txn (fst cm) + k) st c, m') = map_option (set_txn (next_txn (fst cm) + k + k')) r"
    by (auto simp: runs_def at_txn_def)
  with assms(1,3,4) show ?thesis
    unfolding runs_def by (intro exI [of _ "n + n'"] exI [of _ "k + k'"]) (auto simp: env_run_add add.assoc)
qed

lemma runs_commit:
  "runs rd wr 1 0 (at_txn n (CommitPending insn outcome pa) c, m) (atomic_commit c m insn outcome pa)"
proof -
  have "env_step rd wr (at_txn n (CommitPending insn outcome pa) c, m) =
      atomic_commit (at_txn n (CommitPending insn outcome pa) c) m insn outcome pa"
    by (rule env_step_commit) (simp add: at_txn_def)
  also have "\<dots> = map_option (set_txn n) (atomic_commit c m insn outcome pa)"
    by (simp add: atomic_commit_def commit_txn set_txn_def split: sum.split)
  finally show ?thesis
    unfolding runs_def by (intro exI [of _ 1] exI [of _ 0]) (simp add: env_run_1 del: env_run.simps(2))
qed

lemma cpu_translate_walk:
  "cpu_translate rd c m access va =
     (if translating c
      then (case sv32_walk (pte_reader rd m) (walk_context c access) va 1 (M3_root (m3 c)) of
              Ok pa \<Rightarrow> Ok (Some pa) | Err f \<Rightarrow> Err f)
      else Ok None)"
  by (auto simp: cpu_translate_def translating_def sv32_translate_def translates_def walk_context_def M3_root_def
      split: sum.split)

lemma runs_mono: "runs rd wr e t cm r \<Longrightarrow> e \<le> e' \<Longrightarrow> t \<le> t' \<Longrightarrow> runs rd wr e' t' cm r"
  unfolding runs_def by (meson order_trans)

lemma access_phase:
  assumes "n < u64_max"
  shows "runs rd wr 3 1 (at_txn n (MemIssue w plan pa) c, m) (atomic_complete rd wr c m w plan pa)"
proof -
  let ?d = "at_txn n (MemIssue w plan pa) c"
  note run = env_data [of ?d w plan pa rd wr m]
  obtain r m' where a: "atomic_access rd wr m plan (address_of pa (plan_addr plan)) = (r, m')" by fastforce
  show ?thesis
  proof (cases r)
    case (Inl e)
    with assms a run show ?thesis
      unfolding runs_def by (intro exI [of _ 2] exI [of _ 0]) (simp add: atomic_complete_def)
  next
    case (Inr x)
    let ?st = "CommitPending (Some w) (OExec x) (case x of Effect _ \<Rightarrow> pa | Trap _ \<Rightarrow> None)"
    have "env_run rd wr 2 (?d, m) = Some (at_txn (next_txn (fst (?d, m)) + 1) ?st c, m')"
      using assms a run Inr by (simp add: at_txn_def)
    moreover have "runs rd wr 1 0 (at_txn (next_txn (fst (?d, m)) + 1) ?st c, m')
        (atomic_complete rd wr c m w plan pa)"
      using runs_commit Inr a by (cases x) (simp_all add: atomic_complete_def)
    ultimately show ?thesis by (rule runs_after) simp_all
  qed
qed

lemma data_phase:
  assumes txn: "n + 3 \<le> u64_max" and sized: "sized rd"
  shows "runs rd wr 7 3 (at_txn n (if translating c
       then WalkIssue \<lparr>wk_purpose = PurposeData w plan, wk_level = 1, wk_table = M3_root (m3 c)\<rparr>
       else MemIssue w plan None) c, m) (atomic_data rd wr c m w plan)"
proof (cases "translating c")
  case False
  with access_phase [of n rd wr w plan None c m] txn show ?thesis
    by (auto simp: atomic_data_def cpu_translate_walk Let_def intro: runs_mono)
next
  case True
  let ?access = "Purpose_access (PurposeData w plan)" and ?va = "plan_addr plan"
  let ?walk = "\<lparr>wk_purpose = PurposeData w plan, wk_level = 1, wk_table = M3_root (m3 c)\<rparr>"
  let ?d = "at_txn n (WalkIssue ?walk) c"
  let ?r = "sv32_walk (pte_reader rd m) (walk_context c ?access) ?va 1 (M3_root (m3 c))"
  have view: "walk_va ?d ?walk = ?va" "walk_context ?d a = walk_context c a" for a
    by (simp_all add: walk_va_def walk_context_def)
  obtain n1 k1 where n1: "n1 \<le> 4" "k1 \<le> 2" and walked: "env_run rd wr n1 (?d, m) =
      Some (at_txn (next_txn (fst (?d, m)) + k1) (walk_done ?d ?walk ?r) c, m)"
    using env_walk [of ?d ?walk rd wr m] txn sized view by (auto simp: at_txn_def)
  have "runs rd wr 3 1 (at_txn (next_txn (fst (?d, m)) + k1) (walk_done ?d ?walk ?r) c, m)
      (atomic_data rd wr c m w plan)"
  proof (cases ?r)
    case (Inl f)
    have st: "walk_done ?d ?walk (Err f) =
        CommitPending (Some w) (OExec (Trap \<lparr>pt_cause = Fault_cause f ?access, pt_tval = ?va\<rparr>)) None"
      by (simp add: walk_done_def walk_trap_def walk_va_def)
    with Inl True show ?thesis
      by (auto simp: atomic_data_def cpu_translate_walk Let_def intro: runs_mono [OF runs_commit])
  next
    case (Inr pa)
    with True show ?thesis using access_phase [of "n + k1" rd wr w plan "Some pa" c m] txn n1
      by (simp add: walk_done_def atomic_data_def cpu_translate_walk Let_def)
  qed
  with walked have "runs rd wr 7 3 (?d, m) (atomic_data rd wr c m w plan)"
    by (rule runs_after) (use n1 in simp_all)
  with True show ?thesis by simp
qed

lemma fetch_phase:
  assumes "n + 4 \<le> u64_max" and sized: "sized rd"
  shows "runs rd wr 9 4 (at_txn n (FetchIssue pa) c, m) (atomic_exec rd wr c m pa)"
proof -
  let ?d = "at_txn n (FetchIssue pa) c"
  note run = env_fetch [of ?d pa rd wr m]
  have trap: "runs rd wr 1 0 (at_txn (next_txn (fst (?d, m)) + 1) (CommitPending insn out pa') c, m)
      (atomic_commit c m insn out pa')" for insn out pa'
    by (rule runs_commit)
  show ?thesis
  proof (cases "rd m (address_of pa (cpu_pc c)) 4")
    case None
    let ?out = "OExec (Trap \<lparr>pt_cause = InstructionAccessFault, pt_tval = cpu_pc c\<rparr>)"
    have "env_run rd wr 2 (?d, m) = Some (at_txn (next_txn (fst (?d, m)) + 1) (CommitPending None ?out None) c, m)"
      using assms run None by (simp add: at_txn_def)
    then have "runs rd wr 9 4 (?d, m) (atomic_commit c m None ?out None)"
      by (rule runs_after [OF _ trap]) simp_all
    with None show ?thesis by (simp add: atomic_exec_def)
  next
    case (Some bs)
    define w where "w = u32_from_le_bytes bs"
    consider "cpu_step (cpu_isa c) w (cpu_pc c) (cpu_regs c) = None"
      | out where "cpu_step (cpu_isa c) w (cpu_pc c) (cpu_regs c) = Some (StepDone out)"
      | plan where "cpu_step (cpu_isa c) w (cpu_pc c) (cpu_regs c) = Some (StepMemory plan)"
      by (metis Step.exhaust option.exhaust)
    then show ?thesis
    proof cases
      case 1
      with assms run Some show ?thesis
        unfolding runs_def
        by (intro exI [of _ 2] exI [of _ 0]) (simp add: atomic_exec_def Let_def flip: w_def)
    next
      case 2
      have "env_run rd wr 2 (?d, m) = Some (at_txn (next_txn (fst (?d, m)) + 1) (CommitPending (Some w) out None) c, m)"
        using assms run Some 2 by (simp add: at_txn_def Let_def flip: w_def)
      then have "runs rd wr 9 4 (?d, m) (atomic_commit c m (Some w) out None)"
        by (rule runs_after [OF _ trap]) simp_all
      with Some 2 show ?thesis by (simp add: atomic_exec_def Let_def flip: w_def)
    next
      case 3
      have "env_run rd wr 2 (?d, m) = Some (at_txn (next_txn (fst (?d, m)) + 1) (if translating c
         then WalkIssue \<lparr>wk_purpose = PurposeData w plan, wk_level = 1, wk_table = M3_root (m3 c)\<rparr>
         else MemIssue w plan None) c, m)"
        using assms run Some 3 by (simp add: at_txn_def Let_def flip: w_def)
      then have "runs rd wr 9 4 (?d, m) (atomic_data rd wr c m w plan)"
        by (rule runs_after [OF _ data_phase]) (use assms in simp_all)
      with Some 3 show ?thesis by (simp add: atomic_exec_def Let_def flip: w_def)
    qed
  qed
qed

lemma step_phase:
  assumes "at_boundary c" and txn: "next_txn c + 6 \<le> u64_max" and sized: "sized rd"
  shows "runs rd wr 13 6 (c, m) (atomic_step rd wr c m)"
proof (cases "translating c")
  case False
  with assms(1) have "c = at_txn (next_txn c) (FetchIssue None) c"
    by (simp add: at_boundary_def at_txn_same)
  with fetch_phase [of "next_txn c" rd wr None c m] txn sized have "runs rd wr 9 4 (c, m) (atomic_exec rd wr c m None)"
    by simp
  with False show ?thesis
    by (auto simp: atomic_step_def cpu_translate_walk intro: runs_mono)
next
  case True
  let ?walk = "\<lparr>wk_purpose = PurposeFetch, wk_level = 1, wk_table = M3_root (m3 c)\<rparr>"
  let ?r = "sv32_walk (pte_reader rd m) (walk_context c AccFetch) (cpu_pc c) 1 (M3_root (m3 c))"
  have st: "cpu_state c = WalkIssue ?walk" using True assms(1) by (simp add: at_boundary_def)
  obtain n1 k1 where n1: "n1 \<le> 4" "k1 \<le> 2" and walked: "env_run rd wr n1 (c, m) =
      Some (at_txn (next_txn (fst (c, m)) + k1) (walk_done c ?walk ?r) c, m)"
    using env_walk [OF st, of rd wr m] txn sized by (auto simp: at_txn_def walk_va_def)
  have "runs rd wr 9 4 (at_txn (next_txn (fst (c, m)) + k1) (walk_done c ?walk ?r) c, m) (atomic_step rd wr c m)"
  proof (cases ?r)
    case (Inl f)
    have "walk_done c ?walk (Err f) =
        CommitPending None (OExec (Trap \<lparr>pt_cause = Fault_cause f AccFetch, pt_tval = cpu_pc c\<rparr>)) None"
      by (simp add: walk_done_def walk_trap_def walk_va_def)
    with Inl True show ?thesis
      by (auto simp: atomic_step_def cpu_translate_walk intro: runs_mono [OF runs_commit])
  next
    case (Inr pa)
    with True show ?thesis using fetch_phase [of "next_txn c + k1" rd wr "Some pa" c m] txn n1 sized
      by (simp add: walk_done_def atomic_step_def cpu_translate_walk)
  qed
  with walked show ?thesis by (rule runs_after) (use n1 in simp_all)
qed

subsection \<open>The atomic step never gets stuck\<close>

definition lands :: "(Rv32iCpu \<times> 'm) option \<Rightarrow> bool" where
  "lands r \<longleftrightarrow> (\<exists>c m. r = Some (c, m) \<and> (at_boundary c \<or> halt c \<noteq> None))"

lemma atomic_commit_lands:
  assumes "arch_ok c" "instret c < cfg_max_instructions (config c)" "outcome_ok (cpu_isa c) outcome"
    and "insn = None \<Longrightarrow> \<exists>t. outcome = OExec (Trap t)"
  shows "lands (atomic_commit c m insn outcome pa)"
  using commit_ends [of c outcome insn "quiet PhCommit" pa] assms
  by (auto simp: lands_def atomic_commit_def ends_ok_def)

lemma atomic_access_ok:
  assumes "sized rd" and "plan_ok plan"
  shows "\<exists>x m'. atomic_access rd wr m plan addr = (Ok x, m') \<and> outcome_ok isa (OExec x)"
proof (cases plan)
  case (PlanLoad p)
  have "\<exists>x. complete_load p (case rd m addr (unat (MemWidth_bytes (lp_width p))) of
      Some bs \<Rightarrow> ReadData bs | None \<Rightarrow> ReadFault AccessFault) = Ok x"
  proof (cases "rd m addr (unat (MemWidth_bytes (lp_width p)))")
    case (Some bs)
    with assms(1) have "length bs = unat (MemWidth_bytes (lp_width p))" by (auto simp: sized_def)
    then obtain v where "load_value (lp_width p) (lp_extension p) bs = Some v"
      using load_value_Some_iff by blast
    with Some show ?thesis by simp
  qed simp
  with PlanLoad complete_memory_ok [OF assms(2), of "ReadResp 0 _"] show ?thesis
    by (fastforce simp: atomic_access_def)
next
  case (PlanStore p)
  with assms(2) show ?thesis
    using complete_store_ok [of p isa] by (auto simp: atomic_access_def split: option.split)
qed

lemma atomic_step_lands:
  assumes arch: "arch_ok c" and limit: "instret c < cfg_max_instructions (config c)" and sized: "sized rd"
  shows "lands (atomic_step rd wr c m)"
proof -
  note commit = atomic_commit_lands [OF arch limit]
  have complete: "lands (atomic_complete rd wr c m w plan pa)" if plan: "plan_ok plan" for w plan pa
  proof -
    obtain x m' where "atomic_access rd wr m plan (address_of pa (plan_addr plan)) = (Ok x, m')"
      "outcome_ok (cpu_isa c) (OExec x)" using atomic_access_ok [OF sized plan] by blast
    then show ?thesis by (cases x) (auto simp: atomic_complete_def intro!: commit)
  qed
  have data: "lands (atomic_data rd wr c m w plan)" if "plan_ok plan" for w plan
    using complete that by (auto simp: atomic_data_def Let_def intro!: commit split: sum.split)
  have exec: "lands (atomic_exec rd wr c m pa)" for pa
  proof (cases "rd m (address_of pa (cpu_pc c)) 4")
    case None
    then show ?thesis by (auto simp: atomic_exec_def intro!: commit)
  next
    case (Some bs)
    obtain s where "cpu_step (cpu_isa c) (u32_from_le_bytes bs) (cpu_pc c) (cpu_regs c) = Some s"
      "step_ok (cpu_isa c) s" using cpu_step_ok [of "cpu_regs c" "cpu_pc c"] arch by (metis arch_ok_def)
    with Some show ?thesis by (cases s) (auto simp: atomic_exec_def Let_def intro!: commit data)
  qed
  then show ?thesis by (auto simp: atomic_step_def intro!: commit split: sum.split)
qed

subsection \<open>Property\<close>

text \<open>
  C1. The event-driven CPU refines the atomic instruction. From an instruction boundary of a CPU that
  satisfies the invariant, against any memory that answers its requests, at most thirteen events
  and six requests lead to the result of \<open>atomic_step\<close>: the same registers, program counter, CSRs,
  mode, instruction count and memory (the transaction counter apart), again at an instruction
  boundary or halted.
\<close>

theorem cpu_refines_atomic_step:
  assumes "cpu_inv c" and "at_boundary c" and "sized rd" and "next_txn c + 6 \<le> u64_max"
  shows "\<exists>n k c' m'. n \<le> 13 \<and> k \<le> 6 \<and> atomic_step rd wr c m = Some (c', m')
    \<and> env_run rd wr n (c, m) = Some (c'\<lparr>next_txn := next_txn c + k\<rparr>, m')
    \<and> (at_boundary c' \<or> halt c' \<noteq> None)"
proof -
  have "halt c = None" using assms(2) by (simp add: at_boundary_def halt_def split: if_splits)
  with assms(1) have ok: "arch_ok c" "instret c < cfg_max_instructions (config c)"
    by (simp_all add: cpu_inv_def)
  from atomic_step_lands [OF ok assms(3), of wr m] obtain c' m' where
    atomic: "atomic_step rd wr c m = Some (c', m')" "at_boundary c' \<or> halt c' \<noteq> None"
    by (auto simp: lands_def)
  from step_phase [OF assms(2,4,3), of wr m] obtain n k where "n \<le> 13" "k \<le> 6"
    "env_run rd wr n (c, m) = map_option (set_txn (next_txn c + k)) (atomic_step rd wr c m)"
    by (auto simp: runs_def)
  with atomic show ?thesis by (auto simp: set_txn_def)
qed

theorem cpu_refines_atomic_step_witness:
  "\<exists>c n k c'. Rv32iCpu_new \<lparr>cfg_clock = 0, cfg_entry = 0x80000000, cfg_max_instructions = 5, cfg_profile = M3\<rparr> = Ok c
     \<and> atomic_step (\<lambda>m a n. Some (replicate n 0)) (\<lambda>m a d. Some m) c () = Some (c', ())
     \<and> env_run (\<lambda>m a n. Some (replicate n 0)) (\<lambda>m a d. Some m) n (c, ()) = Some (c'\<lparr>next_txn := next_txn c + k\<rparr>, ())"
proof -
  let ?cfg = "\<lparr>cfg_clock = 0, cfg_entry = 0x80000000, cfg_max_instructions = 5, cfg_profile = M3\<rparr>"
  let ?rd = "\<lambda>(m :: unit) (a :: u64) n. Some (replicate n (0 :: u8))"
  obtain c where new: "Rv32iCpu_new ?cfg = Ok c" by (simp add: Rv32iCpu_new_def)
  then have c: "c = \<lparr>config = ?cfg, cpu_pc = 0x80000000, cpu_regs = RegisterFile_new, instret = 0,
      next_txn = 0, cpu_state = FetchIssue None, csrs = CsrFile_new, m3 = M3State_new\<rparr>"
    by (auto simp: Rv32iCpu_new_def split: if_splits)
  have inv: "cpu_inv c" using new by (rule cpu_inv_new) (simp_all add: u64_max_def)
  have boundary: "at_boundary c"
    by (simp add: c at_boundary_def translating_def translates_def M3State_new_def)
  have sized: "sized ?rd" by (simp add: sized_def)
  have txn: "next_txn c + 6 \<le> u64_max" by (simp add: c u64_max_def)
  show ?thesis
    using cpu_refines_atomic_step [OF inv boundary sized txn, of "\<lambda>m a d. Some m" "()"] new by auto
qed

end
