(* ===== verification/Rust_Iter.thy ===== *)
theory Rust_Iter
  imports Prelude
begin

section \<open>Iteration idioms\<close>

text \<open>
  The loops the source writes again and again, once each: a loop that pushes, skips or returns an error
  (\<open>try_filter_map\<close>), a loop that only checks (\<open>try_for_each\<close>), the check of adjacent pairs of a sorted
  vector (\<open>windows_check\<close>), a bounds-checked slice (\<open>slice_get\<close>) and \<^verbatim>\<open>copy_from_slice\<close> (\<open>slice_put\<close>),
  with what their success means.
\<close>

fun try_filter_map :: "('a \<Rightarrow> ('b option, 'e) result) \<Rightarrow> 'a list \<Rightarrow> ('b list, 'e) result" where
  "try_filter_map f [] = Ok []"
| "try_filter_map f (x # xs) =
     result_bind (f x) (\<lambda>r. result_bind (try_filter_map f xs) (\<lambda>ys.
       Ok (case r of None \<Rightarrow> ys | Some y \<Rightarrow> y # ys)))"

fun try_for_each :: "('a \<Rightarrow> 'e option) \<Rightarrow> 'a list \<Rightarrow> (unit, 'e) result" where
  "try_for_each f [] = Ok ()"
| "try_for_each f (x # xs) = (case f x of Some e \<Rightarrow> Err e | None \<Rightarrow> try_for_each f xs)"

fun windows_check :: "('a \<Rightarrow> 'a \<Rightarrow> 'e option) \<Rightarrow> 'a list \<Rightarrow> (unit, 'e) result" where
  "windows_check f (a # b # xs) = (case f a b of Some e \<Rightarrow> Err e | None \<Rightarrow> windows_check f (b # xs))"
| "windows_check f _ = Ok ()"

definition slice_get :: "'a list \<Rightarrow> usize \<Rightarrow> usize \<Rightarrow> 'a list option" where
  "slice_get xs from to = (if from \<le> to \<and> to \<le> length xs then Some (take (to - from) (drop from xs)) else None)"

definition slice_put :: "'a list \<Rightarrow> usize \<Rightarrow> 'a list \<Rightarrow> 'a list" where
  "slice_put xs at ys = take at xs @ ys @ drop (at + length ys) xs"

lemma try_filter_map_Ok_iff:
  "try_filter_map f xs = Ok ys \<longleftrightarrow>
     (\<forall>x\<in>set xs. \<exists>r. f x = Ok r) \<and>
     ys = List.map_filter (\<lambda>x. case f x of Ok r \<Rightarrow> r | Err _ \<Rightarrow> None) xs"
  by (induction xs arbitrary: ys) (auto simp: List.map_filter_def split: option.splits)

lemma try_filter_map_set:
  "try_filter_map f xs = Ok ys \<Longrightarrow> y \<in> set ys \<longleftrightarrow> (\<exists>x\<in>set xs. f x = Ok (Some y))"
  by (auto simp: try_filter_map_Ok_iff List.map_filter_def image_iff split: sum.splits)
    (metis Inl_Inr_False Inr_inject option.sel option.discI sum.exhaust)+

lemma try_filter_map_all:
  "try_filter_map f xs = Ok ys \<Longrightarrow> x \<in> set xs \<Longrightarrow> \<exists>r. f x = Ok r"
  by (simp add: try_filter_map_Ok_iff)

lemma try_filter_map_cong [fundef_cong]:
  "xs = ys \<Longrightarrow> (\<And>x. x \<in> set ys \<Longrightarrow> f x = g x) \<Longrightarrow> try_filter_map f xs = try_filter_map g ys"
  by (induction xs arbitrary: ys) (auto simp: result_bind_def split: sum.splits)

lemma try_for_each_Ok_iff [simp]:
  "try_for_each f xs = Ok u \<longleftrightarrow> (\<forall>x\<in>set xs. f x = None)"
  by (induction xs) (auto split: option.splits)

lemma try_for_each_Err:
  "try_for_each f xs = Err e \<Longrightarrow> \<exists>x\<in>set xs. f x = Some e"
  by (induction xs) (auto split: option.splits)

text \<open>A check of adjacent pairs is a check of all pairs when its success is transitive.\<close>

lemma windows_check_Ok:
  assumes "windows_check f xs = Ok u"
    and "\<And>a b. a \<in> set xs \<Longrightarrow> b \<in> set xs \<Longrightarrow> f a b = None \<Longrightarrow> R a b"
    and "\<And>a b c. a \<in> set xs \<Longrightarrow> b \<in> set xs \<Longrightarrow> c \<in> set xs \<Longrightarrow> R a b \<Longrightarrow> R b c \<Longrightarrow> R a c"
  shows "sorted_wrt R xs"
  using assms
proof (induction f xs rule: windows_check.induct)
  case (1 f a b xs)
  have head: "f a b = None" and tail: "windows_check f (b # xs) = Ok u"
    using "1.prems"(1) by (auto split: option.splits)
  have "sorted_wrt R (b # xs)"
  proof (rule "1.IH" [OF head tail])
    show "R x y" if "x \<in> set (b # xs)" "y \<in> set (b # xs)" "f x y = None" for x y
      using "1.prems"(2) [of x y] that by simp
    show "R x z" if "x \<in> set (b # xs)" "y \<in> set (b # xs)" "z \<in> set (b # xs)" "R x y" "R y z" for x y z
      using "1.prems"(3) [of x y z] that by simp
  qed
  moreover have ab: "R a b" using "1.prems"(2) [of a b] head by simp
  moreover have "R a c" if "c \<in> set xs" for c
    using "1.prems"(3) [of a b c] ab calculation(1) that by simp
  ultimately show ?case by simp
qed (simp_all (no_asm))

lemma windows_check_adjacent:
  "sorted_wrt (\<lambda>a b. f a b = None) xs \<Longrightarrow> windows_check f xs = Ok ()"
  by (induction f xs rule: windows_check.induct) simp_all

lemma slice_get_Some [simp]:
  "slice_get xs i j = Some ys \<longleftrightarrow> i \<le> j \<and> j \<le> length xs \<and> ys = take (j - i) (drop i xs)"
  by (auto simp: slice_get_def)

lemma slice_get_take: "j \<le> n \<Longrightarrow> i \<le> j \<Longrightarrow> j \<le> length xs \<Longrightarrow> slice_get (take n xs) i j = slice_get xs i j"
  by (simp add: slice_get_def drop_take min_def)

lemma length_slice_put [simp]: "at + length ys \<le> length xs \<Longrightarrow> length (slice_put xs at ys) = length xs"
  by (simp add: slice_put_def)

lemma nth_slice_put:
  "at + length ys \<le> length xs \<Longrightarrow> i < length xs \<Longrightarrow>
     slice_put xs at ys ! i = (if at \<le> i \<and> i < at + length ys then ys ! (i - at) else xs ! i)"
  by (auto simp: slice_put_def nth_append min_def)

lemma slice_put_same: "at + length ys \<le> length xs \<Longrightarrow> take (length ys) (drop at (slice_put xs at ys)) = ys"
  by (simp add: slice_put_def min_def)

lemma slice_put_other:
  assumes "at + length ys \<le> length xs" and "i + n \<le> at \<or> at + length ys \<le> i" and "i + n \<le> length xs"
  shows "take n (drop i (slice_put xs at ys)) = take n (drop i xs)"
  using assms by (intro nth_equalityI) (auto simp: nth_slice_put)

text \<open>The program counts of a file format are \<^verbatim>\<open>u16\<close>: the indices below one.\<close>

definition u16_range :: "u16 \<Rightarrow> u16 list" where
  "u16_range n = map of_nat [0..<unat n]"

lemma set_u16_range: "i \<in> set (u16_range n) \<longleftrightarrow> i < n"
proof
  assume "i \<in> set (u16_range n)"
  then obtain k where k: "i = of_nat k" "k < unat n" by (auto simp: u16_range_def)
  then have "unat i = k" using less_trans [OF k(2) unat_less_2p16] by (simp add: unat_of_nat)
  with k show "i < n" by (simp add: word_less_nat_alt)
next
  assume "i < n"
  then have "unat i < unat n" by (simp add: word_less_nat_alt)
  then show "i \<in> set (u16_range n)" by (force simp: u16_range_def image_iff intro: bexI [of _ "unat i"])
qed

lemma distinct_u16_range: "distinct (u16_range n)"
  unfolding u16_range_def distinct_map
proof
  have "unat (of_nat k :: u16) = k" if "k < unat n" for k
    using less_trans [OF that unat_less_2p16] by (simp add: unat_of_nat)
  then have "inj_on (\<lambda>k. unat (of_nat k :: u16)) {0..<unat n}" by (simp add: inj_on_def)
  then show "inj_on (of_nat :: nat \<Rightarrow> u16) (set [0..<unat n])" by (auto simp: inj_on_def)
qed simp

text \<open>\<^verbatim>\<open>Iterator::position\<close>.\<close>

fun list_position :: "('a \<Rightarrow> bool) \<Rightarrow> 'a list \<Rightarrow> usize option" where
  "list_position P [] = None"
| "list_position P (x # xs) = (if P x then Some 0 else map_option Suc (list_position P xs))"

lemma list_position_Some:
  "list_position P xs = Some i \<longleftrightarrow> i < length xs \<and> P (xs ! i) \<and> (\<forall>j<i. \<not> P (xs ! j))"
proof (induction xs arbitrary: i)
  case (Cons x xs)
  then show ?case by (cases i) (auto simp: All_less_Suc2)
qed simp

lemma list_position_None: "list_position P xs = None \<longleftrightarrow> (\<forall>x\<in>set xs. \<not> P x)"
  by (induction xs) auto

end
