(* ===== verification/Snapshot.thy ===== *)
theory Snapshot
  imports Contracts Rust_Iter
begin

section \<open>The canonical encoding of snapshots\<close>

text \<open>
  A component writes its snapshot with the contracts crate's \<^verbatim>\<open>SnapshotWriter\<close> and reads it back with
  \<^verbatim>\<open>SnapshotReader\<close>. Both are outside this repository; their encoding is specified in
  \<^verbatim>\<open>docs/m0-design.md\<close> 4.5: integers of fixed width, little-endian; a \<^verbatim>\<open>bool\<close> as one byte 0 or 1; a byte
  string, a string and a sequence after a 32-bit count; decoding is strict. A writer is the bytes it
  has appended; a reader takes the bytes left and returns the value and the rest.

  The contract of a primitive, that reading gives back what was written and consumes exactly its
  bytes, is the locale \<open>snap_codec\<close>; every primitive is an interpretation of it, and a round trip of a
  component's snapshot rests on these.
\<close>

text \<open>The errors of a restore; \<open>RestorePanic\<close> stands for a restore that panicked instead of returning one.\<close>

datatype RestoreError = InvalidState string | Decode string | RestorePanic

type_synonym 'a reader = "u8 list \<Rightarrow> ('a \<times> u8 list, RestoreError) result"

definition rd_return :: "'a \<Rightarrow> 'a reader" where
  "rd_return x bs = Ok (x, bs)"

definition rd_fail :: "RestoreError \<Rightarrow> 'a reader" where
  "rd_fail e bs = Err e"

definition rd_bind :: "'a reader \<Rightarrow> ('a \<Rightarrow> 'b reader) \<Rightarrow> 'b reader" where
  "rd_bind m f bs = result_bind (m bs) (\<lambda>(x, rest). f x rest)"

definition invalid :: "string \<Rightarrow> 'a reader" where
  "invalid why = rd_fail (InvalidState why)"

text \<open>A check that reads nothing, as a reader.\<close>

definition of_reader :: "('a, RestoreError) result \<Rightarrow> 'a reader" where
  "of_reader r bs = result_bind r (\<lambda>x. Ok (x, bs))"

lemma rd_simps [simp]:
  "rd_return x bs = Ok (x, bs)" "rd_fail e bs = Err e" "invalid why bs = Err (InvalidState why)"
  by (simp_all add: rd_return_def rd_fail_def invalid_def)

lemma rd_bind_Ok [simp]: "m bs = Ok (x, rest) \<Longrightarrow> rd_bind m f bs = f x rest"
  by (simp add: rd_bind_def)

lemma rd_bind_Ok_iff:
  "rd_bind m f bs = Ok r \<longleftrightarrow> (\<exists>x rest. m bs = Ok (x, rest) \<and> f x rest = Ok r)"
  by (auto simp: rd_bind_def)

subsection \<open>Integers\<close>

definition le_bytes :: "nat \<Rightarrow> nat \<Rightarrow> u8 list" where
  "le_bytes k n = map (\<lambda>i. of_nat (n div 256 ^ i)) [0..<k]"

fun le_value :: "u8 list \<Rightarrow> nat" where
  "le_value [] = 0"
| "le_value (b # bs) = unat b + 256 * le_value bs"

definition r_raw :: "usize \<Rightarrow> u8 list reader" where
  "r_raw n bs = (if length bs < n then Err (Decode ''truncated'') else Ok (take n bs, drop n bs))"

definition r_le :: "nat \<Rightarrow> nat reader" where
  "r_le k = rd_bind (r_raw k) (\<lambda>bs. rd_return (le_value bs))"

lemma length_le_bytes [simp]: "length (le_bytes k n) = k"
  by (simp add: le_bytes_def)

lemma le_bytes_Suc: "le_bytes (Suc k) n = of_nat n # le_bytes k (n div 256)"
  unfolding le_bytes_def upt_conv_Cons [OF zero_less_Suc] map_Suc_upt [symmetric]
  by (simp add: div_mult2_eq o_def)

lemma le_value_bytes: "n < 256 ^ k \<Longrightarrow> le_value (le_bytes k n) = n"
proof (induction k arbitrary: n)
  case 0
  then show ?case by (simp add: le_bytes_def)
next
  case (Suc k)
  then have "n div 256 < 256 ^ k" by (simp add: less_mult_imp_div_less mult.commute)
  with Suc.IH have "le_value (le_bytes (Suc k) n) = n mod 256 + 256 * (n div 256)"
    by (simp add: le_bytes_Suc unat_of_nat)
  then show ?case by simp
qed

text \<open>The writers. A \<^verbatim>\<open>u32\<close> is a word; the wider integers are natural numbers below the width's bound.\<close>

definition w_u8 :: "u8 \<Rightarrow> u8 list" where "w_u8 v = [v]"
definition w_u16 :: "u16 \<Rightarrow> u8 list" where "w_u16 v = le_bytes 2 (unat v)"
definition w_u32 :: "u32 \<Rightarrow> u8 list" where "w_u32 v = le_bytes 4 (unat v)"
definition w_u64 :: "u64 \<Rightarrow> u8 list" where "w_u64 v = le_bytes 8 v"
definition w_u128 :: "nat \<Rightarrow> u8 list" where "w_u128 v = le_bytes 16 v"
definition w_bool :: "bool \<Rightarrow> u8 list" where "w_bool b = [of_bool b]"
definition w_len :: "usize \<Rightarrow> u8 list" where "w_len n = le_bytes 4 n"
definition w_bytes :: "u8 list \<Rightarrow> u8 list" where "w_bytes bs = w_len (length bs) @ bs"

definition r_u8 :: "u8 reader" where
  "r_u8 bs = (case bs of [] \<Rightarrow> Err (Decode ''truncated'') | b # rest \<Rightarrow> Ok (b, rest))"

definition r_u16 :: "u16 reader" where "r_u16 = rd_bind (r_le 2) (\<lambda>n. rd_return (of_nat n))"
definition r_u32 :: "u32 reader" where "r_u32 = rd_bind (r_le 4) (\<lambda>n. rd_return (of_nat n))"
definition r_u64 :: "u64 reader" where "r_u64 = r_le 8"
definition r_u128 :: "nat reader" where "r_u128 = r_le 16"
definition r_len :: "usize reader" where "r_len = r_le 4"

definition r_bool :: "bool reader" where
  "r_bool = rd_bind r_u8 (\<lambda>b. if b = 0 then rd_return False else if b = 1 then rd_return True
     else rd_fail (Decode ''bool''))"

definition r_bytes :: "u8 list reader" where
  "r_bytes = rd_bind r_len r_raw"

text \<open>
  A string is its UTF-8 bytes, a Rust \<^verbatim>\<open>str\<close> as a list of characters. Decoding rejects ill-formed UTF-8:
  overlong forms, surrogates and values past U+10FFFF.
\<close>

definition utf8_cont :: "u8 \<Rightarrow> bool" where
  "utf8_cont b \<longleftrightarrow> 0x80 \<le> b \<and> b \<le> 0xBF"

function utf8_valid :: "u8 list \<Rightarrow> bool" where
  "utf8_valid bs =
     (case bs of
        [] \<Rightarrow> True
      | a # r \<Rightarrow>
          if a \<le> 0x7F then utf8_valid r
          else if 0xC2 \<le> a \<and> a \<le> 0xDF then (case r of b # r \<Rightarrow> utf8_cont b \<and> utf8_valid r | _ \<Rightarrow> False)
          else if 0xE0 \<le> a \<and> a \<le> 0xEF then
            (case r of b # c # r \<Rightarrow> utf8_cont b \<and> (a = 0xE0 \<longrightarrow> 0xA0 \<le> b) \<and> (a = 0xED \<longrightarrow> b \<le> 0x9F)
               \<and> utf8_cont c \<and> utf8_valid r | _ \<Rightarrow> False)
          else if 0xF0 \<le> a \<and> a \<le> 0xF4 then
            (case r of b # c # d # r \<Rightarrow> utf8_cont b \<and> (a = 0xF0 \<longrightarrow> 0x90 \<le> b) \<and> (a = 0xF4 \<longrightarrow> b \<le> 0x8F)
               \<and> utf8_cont c \<and> utf8_cont d \<and> utf8_valid r | _ \<Rightarrow> False)
          else False)"
  by pat_completeness auto

termination
  by (relation "measure length") auto

declare utf8_valid.simps [simp del]

definition str_bytes :: "string \<Rightarrow> u8 list" where
  "str_bytes s = map (\<lambda>c. of_nat (of_char c)) s"

definition bytes_str :: "u8 list \<Rightarrow> string" where
  "bytes_str bs = map (\<lambda>b. char_of (unat b)) bs"

definition w_str :: "string \<Rightarrow> u8 list" where
  "w_str s = w_bytes (str_bytes s)"

definition r_str :: "string reader" where
  "r_str = rd_bind r_bytes (\<lambda>bs. if utf8_valid bs then rd_return (bytes_str bs) else rd_fail (Decode ''utf-8''))"

text \<open>The strings of the source that are written: shorter than a length prefix allows, and UTF-8.\<close>

definition str_fits :: "string \<Rightarrow> bool" where
  "str_fits s \<longleftrightarrow> length s < 256 ^ 4 \<and> utf8_valid (str_bytes s)"

subsection \<open>The contract of a primitive\<close>

locale snap_codec =
  fixes fits :: "'v \<Rightarrow> bool"
    and enc :: "'v \<Rightarrow> u8 list"
    and dec :: "'v reader"
  assumes dec_enc: "fits v \<Longrightarrow> dec (enc v @ rest) = Ok (v, rest)"
begin

lemma enc_inject: "fits v \<Longrightarrow> fits w \<Longrightarrow> enc v @ r = enc w @ s \<Longrightarrow> v = w \<and> r = s"
  by (metis dec_enc Inr_inject prod.inject)

lemma bind_enc: "fits v \<Longrightarrow> rd_bind dec f (enc v @ rest) = f v rest"
  by (simp add: dec_enc)

end

lemma r_raw_app [simp]: "r_raw (length xs) (xs @ rest) = Ok (xs, rest)"
  by (simp add: r_raw_def)

lemma r_le_enc: "n < 256 ^ k \<Longrightarrow> r_le k (le_bytes k n @ rest) = Ok (n, rest)"
  using r_raw_app [of "le_bytes k n" rest] by (simp add: r_le_def le_value_bytes)

lemma unat_of_nat_width:
  "unat (v :: u16) < 256 ^ 2" "unat (w :: u32) < 256 ^ 4"
  using unat_less_2p16 [of v] unat_less_2p32 [of w] by simp_all

interpretation sc8: snap_codec "\<lambda>_. True" w_u8 r_u8
  by unfold_locales (simp add: w_u8_def r_u8_def)

interpretation sc16: snap_codec "\<lambda>_. True" w_u16 r_u16
  by unfold_locales (simp add: w_u16_def r_u16_def r_le_enc [OF unat_of_nat_width(1)])

interpretation sc32: snap_codec "\<lambda>_. True" w_u32 r_u32
  by unfold_locales (simp add: w_u32_def r_u32_def r_le_enc [OF unat_of_nat_width(2)])

interpretation sc64: snap_codec "\<lambda>n. n < 256 ^ 8" w_u64 r_u64
  by unfold_locales (simp add: w_u64_def r_u64_def r_le_enc)

interpretation sc128: snap_codec "\<lambda>n. n < 256 ^ 16" w_u128 r_u128
  by unfold_locales (simp add: w_u128_def r_u128_def r_le_enc)

interpretation scbool: snap_codec "\<lambda>_. True" w_bool r_bool
  by unfold_locales (auto simp: w_bool_def r_bool_def r_u8_def rd_bind_def)

interpretation sclen: snap_codec "\<lambda>n. n < 256 ^ 4" w_len r_len
  by unfold_locales (simp add: w_len_def r_len_def r_le_enc)

interpretation scbytes: snap_codec "\<lambda>bs. length bs < 256 ^ 4" w_bytes r_bytes
  by unfold_locales (simp add: w_bytes_def r_bytes_def sclen.dec_enc)

lemma length_str_bytes [simp]: "length (str_bytes s) = length s"
  by (simp add: str_bytes_def)

lemma bytes_str_bytes [simp]: "bytes_str (str_bytes s) = s"
proof -
  have "unat (of_nat (of_char c) :: u8) = of_char c" for c :: char
    using of_char_mod_256 [of c, where 'a = nat] by (simp add: unat_of_nat)
  then show ?thesis by (simp add: bytes_str_def str_bytes_def o_def)
qed

interpretation scstr: snap_codec str_fits w_str r_str
  by unfold_locales (simp add: str_fits_def w_str_def r_str_def scbytes.dec_enc)

lemma ascii_str_fits:
  assumes "list_all (\<lambda>c. of_nat (of_char c) \<le> (0x7F :: u8)) s" and "length s < 256 ^ 4"
  shows "str_fits s"
proof -
  have "utf8_valid (map (\<lambda>c. of_nat (of_char c)) s)" using assms(1)
    by (induction s) (subst utf8_valid.simps; simp)+
  then show ?thesis using assms(2) by (simp add: str_fits_def str_bytes_def)
qed

lemmas snap_bind = sc8.bind_enc sc16.bind_enc sc32.bind_enc sc64.bind_enc sc128.bind_enc scbool.bind_enc
  sclen.bind_enc scbytes.bind_enc scstr.bind_enc

subsection \<open>Sequences and latencies\<close>

fun r_many :: "nat \<Rightarrow> 'a reader \<Rightarrow> 'a list reader" where
  "r_many 0 m = rd_return []"
| "r_many (Suc n) m = rd_bind m (\<lambda>x. rd_bind (r_many n m) (\<lambda>xs. rd_return (x # xs)))"

context snap_codec
begin

lemma r_many_enc: "list_all fits vs \<Longrightarrow> r_many (length vs) dec (concat (map enc vs) @ rest) = Ok (vs, rest)"
  by (induction vs) (simp_all add: dec_enc)

end

fun w_latency :: "LinkLatency \<Rightarrow> u8 list" where
  "w_latency (LatAfter d) = w_u8 0 @ w_u128 d"
| "w_latency (LatCycles domain k) = w_u8 1 @ w_u32 (of_nat domain) @ w_u64 k"

end
