(* ===== verification/Mem_Codec.thy ===== *)
theory Mem_Codec
  imports Snapshot
begin

section \<open>The canonical encoding of memory and block messages\<close>

text \<open>
  The messages a component stores in its snapshot are written by the contracts crate. The encoding is
  the one \<^verbatim>\<open>docs/m1-design.md\<close> 4.3 and \<^verbatim>\<open>docs/m2-design.md\<close> 8.1 specify: a tag byte in declaration order, then
  the fields. Decoding is strict about tags and accepts any length of data.
\<close>

fun w_mem :: "MemMsg \<Rightarrow> u8 list" where
  "w_mem (ReadReq txn addr len) = w_u8 0 @ w_u64 txn @ w_u64 addr @ w_u32 len"
| "w_mem (ReadResp txn (ReadData data)) = w_u8 1 @ w_u64 txn @ w_u8 0 @ w_bytes data"
| "w_mem (ReadResp txn (ReadFault AccessFault)) = w_u8 1 @ w_u64 txn @ w_u8 1 @ w_u8 0"
| "w_mem (WriteReq txn addr data) = w_u8 2 @ w_u64 txn @ w_u64 addr @ w_bytes data"
| "w_mem (WriteResp txn WriteDone) = w_u8 3 @ w_u64 txn @ w_u8 0"
| "w_mem (WriteResp txn (WriteFault AccessFault)) = w_u8 3 @ w_u64 txn @ w_u8 1 @ w_u8 0"

definition mem_bad_tag :: "string \<Rightarrow> 'a reader" where
  "mem_bad_tag what = rd_fail (Decode what)"

definition r_mem_fault :: "MemFault reader" where
  "r_mem_fault = rd_bind r_u8 (\<lambda>t. if t = 0 then rd_return AccessFault else mem_bad_tag ''MemFault'')"

definition r_read_outcome :: "ReadOutcome reader" where
  "r_read_outcome = rd_bind r_u8 (\<lambda>t.
     if t = 0 then rd_bind r_bytes (\<lambda>data. rd_return (ReadData data))
     else if t = 1 then rd_bind r_mem_fault (\<lambda>f. rd_return (ReadFault f))
     else mem_bad_tag ''ReadOutcome'')"

definition r_write_outcome :: "WriteOutcome reader" where
  "r_write_outcome = rd_bind r_u8 (\<lambda>t.
     if t = 0 then rd_return WriteDone
     else if t = 1 then rd_bind r_mem_fault (\<lambda>f. rd_return (WriteFault f))
     else mem_bad_tag ''WriteOutcome'')"

definition r_mem :: "MemMsg reader" where
  "r_mem = rd_bind r_u8 (\<lambda>t.
     if t = 0 then rd_bind r_u64 (\<lambda>txn. rd_bind r_u64 (\<lambda>addr. rd_bind r_u32 (\<lambda>len. rd_return (ReadReq txn addr len))))
     else if t = 1 then rd_bind r_u64 (\<lambda>txn. rd_bind r_read_outcome (\<lambda>out. rd_return (ReadResp txn out)))
     else if t = 2 then rd_bind r_u64 (\<lambda>txn. rd_bind r_u64 (\<lambda>addr. rd_bind r_bytes (\<lambda>data. rd_return (WriteReq txn addr data))))
     else if t = 3 then rd_bind r_u64 (\<lambda>txn. rd_bind r_write_outcome (\<lambda>out. rd_return (WriteResp txn out)))
     else mem_bad_tag ''MemMsg'')"

text \<open>The messages that exist at run time: fields within their widths.\<close>

fun mem_fits :: "MemMsg \<Rightarrow> bool" where
  "mem_fits (ReadReq txn addr _) \<longleftrightarrow> txn \<le> u64_max \<and> addr \<le> u64_max"
| "mem_fits (ReadResp txn (ReadData data)) \<longleftrightarrow> txn \<le> u64_max \<and> length data < 256 ^ 4"
| "mem_fits (ReadResp txn _) \<longleftrightarrow> txn \<le> u64_max"
| "mem_fits (WriteReq txn addr data) \<longleftrightarrow> txn \<le> u64_max \<and> addr \<le> u64_max \<and> length data < 256 ^ 4"
| "mem_fits (WriteResp txn _) \<longleftrightarrow> txn \<le> u64_max"

lemma u64_width: "n \<le> u64_max \<longleftrightarrow> n < 256 ^ 8"
  by (simp add: u64_max_def less_Suc_eq_le [symmetric])

lemma mem_dec_enc: "mem_fits m \<Longrightarrow> r_mem (w_mem m @ rest) = Ok (m, rest)"
  by (cases m rule: w_mem.cases)
    (simp_all add: r_mem_def r_read_outcome_def r_write_outcome_def r_mem_fault_def snap_bind u64_width)

interpretation scmem: snap_codec mem_fits w_mem r_mem
  by unfold_locales (rule mem_dec_enc)

text \<open>Whatever is decoded fits: reading yields values within their widths.\<close>

lemma le_value_bound: "le_value bs < 256 ^ length bs"
proof (induction bs)
  case (Cons b bs)
  with unat_less_2p8 [of b] have "unat b + 256 * le_value bs < 256 * 256 ^ length bs" by linarith
  then show ?case by simp
qed simp

lemma r_le_bound: "r_le k bs = Ok (n, rest) \<Longrightarrow> n < 256 ^ k"
  using le_value_bound [of "take k bs"] by (auto simp: r_le_def rd_bind_Ok_iff r_raw_def min_def split: if_splits)

lemma r_u64_bound: "r_u64 bs = Ok (n, rest) \<Longrightarrow> n \<le> u64_max"
  by (auto simp: r_u64_def u64_width dest: r_le_bound)

lemma r_bytes_bound: "r_bytes bs = Ok (xs, rest) \<Longrightarrow> length xs < 256 ^ 4"
  by (auto simp: r_bytes_def rd_bind_Ok_iff r_raw_def r_len_def dest: r_le_bound split: if_splits)

lemma r_mem_fits: "r_mem bs = Ok (m, rest) \<Longrightarrow> mem_fits m"
  by (cases m rule: w_mem.cases)
    (auto simp: r_mem_def r_read_outcome_def r_write_outcome_def mem_bad_tag_def rd_bind_Ok_iff
      dest: r_u64_bound r_bytes_bound split: if_splits)

end
