(* ===== verification/Rust_Fmt.thy ===== *)
theory Rust_Fmt
  imports Prelude
begin

section \<open>Formatting of integers\<close>

text \<open>
  The formats of the language the sources use in error texts and inspection views: decimal and
  hexadecimal integers, and \<^verbatim>\<open>join\<close>.
\<close>

definition digit_char :: "nat \<Rightarrow> char" where
  "digit_char d = (''0123456789abcdef'' ! (d mod 16))"

text \<open>\<^verbatim>\<open>{}\<close> and \<^verbatim>\<open>{:x}\<close> of an unsigned integer: its digits, most significant first.\<close>

fun fmt_radix :: "nat \<Rightarrow> nat \<Rightarrow> string" where
  "fmt_radix r n = (if r < 2 \<or> n < r then [digit_char n] else fmt_radix r (n div r) @ [digit_char (n mod r)])"

declare fmt_radix.simps [simp del]

definition fmt_dec :: "nat \<Rightarrow> string" where
  "fmt_dec n = fmt_radix 10 n"

definition fmt_hex :: "nat \<Rightarrow> string" where
  "fmt_hex n = ''0x'' @ fmt_radix 16 n"

text \<open>\<^verbatim>\<open>{:#010x}\<close>: zero-padded to ten characters, the prefix included.\<close>

definition fmt_hex10 :: "nat \<Rightarrow> string" where
  "fmt_hex10 n = (let ds = fmt_radix 16 n in ''0x'' @ replicate (8 - length ds) (CHR ''0'') @ ds)"

definition fmt_int :: "int \<Rightarrow> string" where
  "fmt_int n = (if n < 0 then ''-'' @ fmt_dec (nat (- n)) else fmt_dec (nat n))"

fun join :: "string \<Rightarrow> string list \<Rightarrow> string" where
  "join sep [] = []"
| "join sep [s] = s"
| "join sep (s # ss) = s @ sep @ join sep ss"

end
