(* ===== verification/Rv32_CpuSnap.thy ===== *)
theory Rv32_CpuSnap
  imports Rv32_CpuInv Mem_Codec Rust_Fmt
begin

section \<open>Snapshot, restore and inspection of the CPU (cpu.rs)\<close>

text \<open>
  A snapshot has three layouts, one per profile. It stores a pending instruction as its raw word: the
  plan is recomputed on restore, and a pending outcome is checked against the instruction it belongs
  to. Schemas 1 and 2 check while they read; schema 3 decodes everything first. \<open>None\<close> of the step
  function, a register file of the wrong length, is a panic.
\<close>

subsection \<open>Codes and outcomes\<close>

definition SNAPSHOT_SCHEMA :: nat where "SNAPSHOT_SCHEMA = 1"
definition SNAPSHOT_SCHEMA_M2 :: nat where "SNAPSHOT_SCHEMA_M2 = 2"
definition SNAPSHOT_SCHEMA_M3 :: nat where "SNAPSHOT_SCHEMA_M3 = 3"

fun State_name :: "State \<Rightarrow> string" where
  "State_name (FetchIssue _) = ''fetch_issue''"
| "State_name (FetchWait _ _) = ''fetch_wait''"
| "State_name (MemIssue _ _ _) = ''mem_issue''"
| "State_name (MemWait _ _ _ _) = ''mem_wait''"
| "State_name (WalkIssue _) = ''walk_issue''"
| "State_name (WalkWait _ _) = ''walk_wait''"
| "State_name (CommitPending _ _ _) = ''commit_pending''"
| "State_name (Halted _) = ''halted''"

definition CAUSES :: "TrapCause list" where
  "CAUSES = [InstructionAddressMisaligned, InstructionAccessFault, IllegalInstruction, Breakpoint, EnvironmentCall,
     LoadAddressMisaligned, LoadAccessFault, StoreAddressMisaligned, StoreAccessFault]"

definition CAUSES_M3 :: "TrapCause list" where
  "CAUSES_M3 = [InstructionAddressMisaligned, InstructionAccessFault, IllegalInstruction, Breakpoint, EnvironmentCall,
     LoadAddressMisaligned, LoadAccessFault, StoreAddressMisaligned, StoreAccessFault, EnvironmentCallFromU,
     EnvironmentCallFromS, InstructionPageFault, LoadPageFault, StorePageFault]"

definition CSR_OPS :: "CsrOp list" where
  "CSR_OPS = [CsrWrite, CsrSet, CsrClear]"

definition causes :: "Rv32iProfile \<Rightarrow> TrapCause list" where
  "causes profile = (case profile of M3 \<Rightarrow> CAUSES_M3 | _ \<Rightarrow> CAUSES)"

text \<open>The position of an item in a table of codes; every item written is listed (\<open>coded_listed\<close> below).\<close>

definition write_code :: "'a list \<Rightarrow> 'a \<Rightarrow> u8 list" where
  "write_code table x = (case list_position (\<lambda>y. y = x) table of Some code \<Rightarrow> w_u8 (of_nat code) | None \<Rightarrow> [])"

definition read_code :: "'a list \<Rightarrow> string \<Rightarrow> 'a reader" where
  "read_code table what =
     rd_bind r_u8 (\<lambda>code. if unat code < length table then rd_return (table ! unat code) else mem_bad_tag what)"

definition write_cause :: "TrapCause \<Rightarrow> u8 list" where
  "write_cause cause = write_code CAUSES_M3 cause"

definition read_cause :: "Rv32iProfile \<Rightarrow> TrapCause reader" where
  "read_cause profile = read_code (causes profile) ''rv32 trap cause''"

definition write_reg_write :: "RegWrite option \<Rightarrow> u8 list" where
  "write_reg_write rw = (case rw of None \<Rightarrow> w_u8 0 | Some w \<Rightarrow> w_u8 1 @ w_u8 (reg_index (rw_rd w)) @ w_u32 (rw_value w))"

fun write_outcome :: "Outcome \<Rightarrow> u8 list" where
  "write_outcome (OExec (Effect e)) = w_u8 0 @ write_reg_write (pe_reg_write e) @ w_u32 (pe_next_pc e)"
| "write_outcome (OExec (Trap t)) = w_u8 1 @ write_cause (pt_cause t) @ w_u32 (pt_tval t)"
| "write_outcome (OCsr p) = w_u8 2 @ w_u16 (pc_csr p) @ write_code CSR_OPS (pc_op p) @ w_bool (pc_write p)
     @ w_u32 (pc_operand p) @ w_u8 (reg_index (pc_rd p)) @ w_u32 (pc_next_pc p)"
| "write_outcome OMret = w_u8 3"
| "write_outcome OSret = w_u8 4"

definition read_reg :: "Reg reader" where
  "read_reg = rd_bind r_u8 (\<lambda>index. case Reg_new index of Some rd \<Rightarrow> rd_return rd | None \<Rightarrow> mem_bad_tag ''rv32 register'')"

definition read_reg_write :: "RegWrite option reader" where
  "read_reg_write =
     rd_bind r_u8 (\<lambda>t.
     if t = 0 then rd_return None
     else if t = 1 then rd_bind read_reg (\<lambda>rd. rd_bind r_u32 (\<lambda>value. rd_return (Some \<lparr>rw_rd = rd, rw_value = value\<rparr>)))
     else mem_bad_tag ''rv32 register write'')"

definition read_pending_csr :: "PendingCsr reader" where
  "read_pending_csr =
     rd_bind r_u16 (\<lambda>csr. rd_bind (read_code CSR_OPS ''rv32 CSR operation'') (\<lambda>cop. rd_bind r_bool (\<lambda>wr.
     rd_bind r_u32 (\<lambda>operand. rd_bind read_reg (\<lambda>rd. rd_bind r_u32 (\<lambda>nxt.
     rd_return \<lparr>pc_csr = csr, pc_op = cop, pc_write = wr, pc_operand = operand, pc_rd = rd, pc_next_pc = nxt\<rparr>))))))"

definition read_outcome :: "Rv32iProfile \<Rightarrow> Outcome reader" where
  "read_outcome profile =
     rd_bind r_u8 (\<lambda>t.
     if t = 0 then rd_bind read_reg_write (\<lambda>rw. rd_bind r_u32 (\<lambda>nxt.
       rd_return (OExec (Effect \<lparr>pe_reg_write = rw, pe_next_pc = nxt\<rparr>))))
     else if t = 1 then rd_bind (read_cause profile) (\<lambda>cause. rd_bind r_u32 (\<lambda>tval.
       rd_return (OExec (Trap \<lparr>pt_cause = cause, pt_tval = tval\<rparr>))))
     else if t = 2 \<and> profile \<noteq> M1 then rd_bind read_pending_csr (\<lambda>p. rd_return (OCsr p))
     else if t = 3 \<and> profile \<noteq> M1 then rd_return OMret
     else if t = 4 \<and> profile = M3 then rd_return OSret
     else mem_bad_tag ''rv32 outcome'')"

text \<open>
  Whether an outcome can be the result of an instruction: exactly the pure result when memory is not
  involved, and a retirement or the fault of the access when it is.
\<close>

definition fault_fits :: "bool \<Rightarrow> Access \<Rightarrow> u32 \<Rightarrow> PendingTrap \<Rightarrow> bool" where
  "fault_fits tr access tval t \<longleftrightarrow>
     t = \<lparr>pt_cause = Access_access_fault access, pt_tval = tval\<rparr>
     \<or> tr \<and> t = \<lparr>pt_cause = Access_page_fault access, pt_tval = tval\<rparr>"

fun access_fits :: "bool \<Rightarrow> MemoryPlan \<Rightarrow> Outcome \<Rightarrow> bool" where
  "access_fits tr (PlanLoad load) (OExec (Effect e)) \<longleftrightarrow>
     pe_next_pc e = lp_next_pc load \<and> (case pe_reg_write e of Some w \<Rightarrow> rw_rd w = lp_rd load | None \<Rightarrow> False)"
| "access_fits tr (PlanLoad load) (OExec (Trap t)) \<longleftrightarrow> fault_fits tr AccLoad (lp_addr load) t"
| "access_fits tr (PlanStore store) (OExec (Effect e)) \<longleftrightarrow>
     e = \<lparr>pe_reg_write = None, pe_next_pc = sp_next_pc store\<rparr>"
| "access_fits tr (PlanStore store) (OExec (Trap t)) \<longleftrightarrow> fault_fits tr AccStore (sp_addr store) t"
| "access_fits tr plan _ \<longleftrightarrow> False"

definition consistent :: "Isa \<Rightarrow> bool \<Rightarrow> u32 option \<Rightarrow> Outcome \<Rightarrow> u32 \<Rightarrow> RegisterFile \<Rightarrow> bool option" where
  "consistent isa tr insn outcome pc regs =
     (case insn of
        None \<Rightarrow> Some (case outcome of OExec (Trap t) \<Rightarrow> fault_fits tr AccFetch pc t | _ \<Rightarrow> False)
      | Some word \<Rightarrow>
          map_option (\<lambda>s. case s of StepDone expected \<Rightarrow> expected = outcome | StepMemory plan \<Rightarrow> access_fits tr plan outcome)
            (cpu_step isa word pc regs))"

subsection \<open>The snapshot\<close>

definition write_pa :: "u64 option \<Rightarrow> u8 list" where
  "write_pa pa = (case pa of None \<Rightarrow> w_u8 0 | Some p \<Rightarrow> w_u8 1 @ w_u64 p)"

definition write_purpose :: "Purpose \<Rightarrow> u8 list" where
  "write_purpose p = (case p of PurposeFetch \<Rightarrow> w_u8 0 | PurposeData insn _ \<Rightarrow> w_u8 1 @ w_u32 insn)"

definition write_walk :: "Walk \<Rightarrow> u8 list" where
  "write_walk walk = write_purpose (wk_purpose walk) @ w_u8 (of_nat (wk_level walk)) @ w_u32 (wk_table walk)"

definition write_insn :: "u32 option \<Rightarrow> u8 list" where
  "write_insn insn = (case insn of None \<Rightarrow> w_u8 0 | Some w \<Rightarrow> w_u8 1 @ w_u32 w)"

fun write_halt :: "Halt \<Rightarrow> u8 list" where
  "write_halt (HaltTrap t) = w_u8 0 @ write_cause (rt_cause t) @ w_u32 (rt_pc t) @ w_u32 (rt_tval t)"
| "write_halt InstructionLimit = w_u8 1"

fun write_state :: "bool \<Rightarrow> State \<Rightarrow> u8 list" where
  "write_state in_m3 (FetchIssue pa) = w_u8 0 @ (if in_m3 then write_pa pa else [])"
| "write_state in_m3 (FetchWait txn pa) = w_u8 1 @ w_u64 txn @ (if in_m3 then write_pa pa else [])"
| "write_state in_m3 (MemIssue insn _ pa) = w_u8 2 @ w_u32 insn @ (if in_m3 then write_pa pa else [])"
| "write_state in_m3 (MemWait txn insn _ pa) = w_u8 3 @ w_u64 txn @ w_u32 insn @ (if in_m3 then write_pa pa else [])"
| "write_state in_m3 (WalkIssue walk) = w_u8 6 @ write_walk walk"
| "write_state in_m3 (WalkWait txn walk) = w_u8 7 @ w_u64 txn @ write_walk walk"
| "write_state in_m3 (CommitPending insn outcome pa) =
     w_u8 4 @ write_insn insn @ write_outcome outcome @ (if in_m3 then write_pa pa else [])"
| "write_state in_m3 (Halted h) = w_u8 5 @ write_halt h"

definition stored_registers :: "Reg list" where
  "stored_registers = map (\<lambda>i. Reg (of_nat i)) [1..<32]"

definition cpu_write_config :: "Rv32iConfig \<Rightarrow> u8 list" where
  "cpu_write_config cfg = w_u32 (of_nat (cfg_clock cfg)) @ w_u32 (cfg_entry cfg) @ w_u64 (cfg_max_instructions cfg)"

definition write_registers :: "RegisterFile \<Rightarrow> u8 list" where
  "write_registers regs = concat (map (\<lambda>r. case regfile_read regs r of Some v \<Rightarrow> w_u32 v | None \<Rightarrow> []) stored_registers)"

definition write_csrs :: "CsrFile \<Rightarrow> u8 list" where
  "write_csrs m = w_bool (c_mie m) @ w_bool (c_mpie m) @ w_bool (c_meie m) @ w_u32 (c_mtvec m) @ w_u32 (c_mscratch m)
     @ w_u32 (c_mepc m) @ w_u32 (c_mcause m) @ w_u32 (c_mtval m) @ w_bool (c_irq_level m)"

definition write_m3 :: "M3State \<Rightarrow> u8 list" where
  "write_m3 s = w_u8 (Privilege_bits (privilege s)) @ w_bool (s_sie s) @ w_bool (s_spie s) @ w_u8 (Spp_bits (s_spp s))
     @ w_u8 (Privilege_bits (s_mpp s)) @ w_bool (s_sum s) @ w_bool (s_mxr s) @ w_u32 (s_medeleg s) @ w_u32 (s_stvec s)
     @ w_u32 (s_sscratch s) @ w_u32 (s_sepc s) @ w_u32 (s_scause s) @ w_u32 (s_stval s) @ w_u32 (s_satp s)"

definition snapshot_schema_version :: "Rv32iProfile \<Rightarrow> nat" where
  "snapshot_schema_version profile =
     (case profile of M1 \<Rightarrow> SNAPSHOT_SCHEMA | M2 \<Rightarrow> SNAPSHOT_SCHEMA_M2 | M3 \<Rightarrow> SNAPSHOT_SCHEMA_M3)"

definition cpu_snapshot :: "Rv32iCpu \<Rightarrow> u8 list" where
  "cpu_snapshot c =
     cpu_write_config (config c) @ w_u32 (cpu_pc c) @ write_registers (cpu_regs c) @ w_u64 (instret c) @ w_u64 (next_txn c)
     @ write_state (cfg_profile (config c) = M3) (cpu_state c)
     @ (if cfg_profile (config c) \<noteq> M1 then write_csrs (csrs c) else [])
     @ (if cfg_profile (config c) = M3 then write_m3 (m3 c) else [])"

subsection \<open>Restoring schemas 1 and 2\<close>

definition val_outstanding :: "u64 \<Rightarrow> u64 \<Rightarrow> (TxnId, RestoreError) result" where
  "val_outstanding nxt txn =
     (if nxt = txn + 1 then Ok txn else Err (InvalidState ''rv32 cpu: outstanding txn is not the latest issued''))"

definition val_memory :: "Isa \<Rightarrow> u32 \<Rightarrow> RegisterFile \<Rightarrow> u32 \<Rightarrow> (MemoryPlan, RestoreError) result" where
  "val_memory isa pc regs insn =
     (case cpu_step isa insn pc regs of
        None \<Rightarrow> Err RestorePanic
      | Some (StepMemory plan) \<Rightarrow> Ok plan
      | Some (StepDone _) \<Rightarrow> Err (InvalidState ''rv32 cpu: pending memory instruction is not an aligned load or store''))"

definition read_insn :: "u32 option reader" where
  "read_insn = rd_bind r_u8 (\<lambda>t. if t = 0 then rd_return None else if t = 1 then rd_bind r_u32 (\<lambda>w. rd_return (Some w))
     else mem_bad_tag ''rv32 cpu instruction'')"

definition check_pending :: "Isa \<Rightarrow> bool \<Rightarrow> u32 option \<Rightarrow> Outcome \<Rightarrow> u32 \<Rightarrow> RegisterFile \<Rightarrow> unit reader" where
  "check_pending isa tr insn outcome pc regs =
     (case consistent isa tr insn outcome pc regs of
        None \<Rightarrow> rd_fail RestorePanic
      | Some ok \<Rightarrow> if ok then rd_return () else invalid ''rv32 cpu: pending outcome does not match its instruction'')"

definition read_trap :: "Rv32iProfile \<Rightarrow> RvTrap reader" where
  "read_trap profile = rd_bind (read_cause profile) (\<lambda>cause. rd_bind r_u32 (\<lambda>pc. rd_bind r_u32 (\<lambda>tval.
     rd_return \<lparr>rt_cause = cause, rt_pc = pc, rt_tval = tval\<rparr>)))"

definition read_state :: "Rv32iProfile \<Rightarrow> Isa \<Rightarrow> u32 \<Rightarrow> RegisterFile \<Rightarrow> u64 \<Rightarrow> State reader" where
  "read_state profile isa pc regs nxt =
     rd_bind r_u8 (\<lambda>t.
     if t = 0 then rd_return (FetchIssue None)
     else if t = 1 then rd_bind r_u64 (\<lambda>txn. rd_bind (of_reader (val_outstanding nxt txn)) (\<lambda>txn. rd_return (FetchWait txn None)))
     else if t = 2 then rd_bind r_u32 (\<lambda>insn. rd_bind (of_reader (val_memory isa pc regs insn)) (\<lambda>plan. rd_return (MemIssue insn plan None)))
     else if t = 3 then
       rd_bind r_u64 (\<lambda>txn. rd_bind (of_reader (val_outstanding nxt txn)) (\<lambda>txn. rd_bind r_u32 (\<lambda>insn.
       rd_bind (of_reader (val_memory isa pc regs insn)) (\<lambda>plan. rd_return (MemWait txn insn plan None)))))
     else if t = 4 then
       rd_bind read_insn (\<lambda>insn. rd_bind (read_outcome profile) (\<lambda>outcome.
       rd_bind (check_pending isa False insn outcome pc regs) (\<lambda>_. rd_return (CommitPending insn outcome None))))
     else if t = 5 then
       rd_bind r_u8 (\<lambda>h.
       if h = 0 then rd_bind (read_trap profile) (\<lambda>trap.
         if rt_pc trap \<noteq> pc then invalid ''rv32 cpu: trap pc is not the architectural pc'' else rd_return (Halted (HaltTrap trap)))
       else if h = 1 then rd_return (Halted InstructionLimit)
       else mem_bad_tag ''rv32 cpu halt'')
     else mem_bad_tag ''rv32 cpu state'')"

fun read_registers :: "Reg list \<Rightarrow> RegisterFile \<Rightarrow> RegisterFile reader" where
  "read_registers [] regs = rd_return regs"
| "read_registers (r # rs) regs =
     rd_bind r_u32 (\<lambda>v. case regfile_write regs r v of None \<Rightarrow> rd_fail RestorePanic | Some regs \<Rightarrow> read_registers rs regs)"

definition read_flag :: "bool reader" where
  "read_flag bs = (case r_bool bs of Ok x \<Rightarrow> Ok x | Err _ \<Rightarrow> Err (InvalidState ''rv32 cpu: a CSR flag is not 0 or 1''))"

definition aligned_word :: "string \<Rightarrow> u32 reader" where
  "aligned_word what = rd_bind r_u32 (\<lambda>v. if v AND 0x3 = 0 then rd_return v else invalid what)"

definition read_csrs :: "CsrFile reader" where
  "read_csrs =
     rd_bind read_flag (\<lambda>mie. rd_bind read_flag (\<lambda>mpie. rd_bind read_flag (\<lambda>meie.
     rd_bind (aligned_word ''rv32 cpu: mtvec MODE is not 0'') (\<lambda>mtvec. rd_bind r_u32 (\<lambda>mscratch.
     rd_bind (aligned_word ''rv32 cpu: misaligned mepc'') (\<lambda>mepc. rd_bind r_u32 (\<lambda>mcause. rd_bind r_u32 (\<lambda>mtval.
     rd_bind read_flag (\<lambda>level.
     rd_return \<lparr>c_mie = mie, c_mpie = mpie, c_meie = meie, c_mtvec = mtvec, c_mscratch = mscratch, c_mepc = mepc,
       c_mcause = mcause, c_mtval = mtval, c_irq_level = level\<rparr>)))))))))"

definition consistent_count :: "u64 \<Rightarrow> u64 \<Rightarrow> State \<Rightarrow> bool" where
  "consistent_count limit count st = (case st of Halted InstructionLimit \<Rightarrow> count = limit | _ \<Rightarrow> count < limit)"

definition restore_m1_m2 :: "Rv32iCpu \<Rightarrow> Isa \<Rightarrow> Rv32iCpu reader" where
  "restore_m1_m2 c isa =
     rd_bind (r_raw (length (cpu_write_config (config c)))) (\<lambda>cfg.
     if cfg \<noteq> cpu_write_config (config c) then invalid ''rv32 cpu: snapshot was taken with a different configuration'' else
     rd_bind r_u32 (\<lambda>pc.
     if \<not> 4 dvd unat pc then invalid ''rv32 cpu: misaligned pc'' else
     rd_bind (read_registers stored_registers RegisterFile_new) (\<lambda>regs.
     rd_bind r_u64 (\<lambda>count. rd_bind r_u64 (\<lambda>nxt.
     rd_bind (read_state (cfg_profile (config c)) isa pc regs nxt) (\<lambda>st.
     if \<not> consistent_count (cfg_max_instructions (config c)) count st
       then invalid ''rv32 cpu: instret does not match the instruction limit'' else
     rd_bind (if cfg_profile (config c) = M1 then rd_return CsrFile_new else read_csrs) (\<lambda>m.
     rd_return (c\<lparr>cpu_pc := pc, cpu_regs := regs, instret := count, next_txn := nxt, cpu_state := st, csrs := m\<rparr>))))))))"


subsection \<open>Restoring schema 3\<close>

record WalkRecord =
  wr_data :: "u32 option"
  wr_level :: nat
  wr_table :: u32

datatype StateRecord =
    RecFetchIssue "u64 option"
  | RecFetchWait u64 "u64 option"
  | RecMemIssue u32 "u64 option"
  | RecMemWait u64 u32 "u64 option"
  | RecWalkIssue WalkRecord
  | RecWalkWait u64 WalkRecord
  | RecCommitPending "u32 option" Outcome "u64 option"
  | RecTrap RvTrap
  | RecInstructionLimit

definition read_pa :: "u64 option reader" where
  "read_pa = rd_bind r_u8 (\<lambda>t. if t = 0 then rd_return None else if t = 1 then rd_bind r_u64 (\<lambda>p. rd_return (Some p))
     else mem_bad_tag ''rv32 cpu physical address'')"

definition read_walk_purpose :: "u32 option reader" where
  "read_walk_purpose = rd_bind r_u8 (\<lambda>t. if t = 0 then rd_return None else if t = 1 then rd_bind r_u32 (\<lambda>w. rd_return (Some w))
     else mem_bad_tag ''rv32 cpu walk purpose'')"

definition read_walk :: "WalkRecord reader" where
  "read_walk = rd_bind read_walk_purpose (\<lambda>data. rd_bind r_u8 (\<lambda>level. rd_bind r_u32 (\<lambda>table.
     rd_return \<lparr>wr_data = data, wr_level = unat level, wr_table = table\<rparr>)))"

definition decode_state_m3 :: "StateRecord reader" where
  "decode_state_m3 =
     rd_bind r_u8 (\<lambda>t.
     if t = 0 then rd_bind read_pa (\<lambda>pa. rd_return (RecFetchIssue pa))
     else if t = 1 then rd_bind r_u64 (\<lambda>txn. rd_bind read_pa (\<lambda>pa. rd_return (RecFetchWait txn pa)))
     else if t = 2 then rd_bind r_u32 (\<lambda>insn. rd_bind read_pa (\<lambda>pa. rd_return (RecMemIssue insn pa)))
     else if t = 3 then rd_bind r_u64 (\<lambda>txn. rd_bind r_u32 (\<lambda>insn. rd_bind read_pa (\<lambda>pa. rd_return (RecMemWait txn insn pa))))
     else if t = 4 then rd_bind read_insn (\<lambda>insn. rd_bind (read_outcome M3) (\<lambda>outcome. rd_bind read_pa (\<lambda>pa.
       rd_return (RecCommitPending insn outcome pa))))
     else if t = 5 then rd_bind r_u8 (\<lambda>h.
       if h = 0 then rd_bind (read_trap M3) (\<lambda>trap. rd_return (RecTrap trap))
       else if h = 1 then rd_return RecInstructionLimit
       else mem_bad_tag ''rv32 cpu halt'')
     else if t = 6 then rd_bind read_walk (\<lambda>walk. rd_return (RecWalkIssue walk))
     else if t = 7 then rd_bind r_u64 (\<lambda>txn. rd_bind read_walk (\<lambda>walk. rd_return (RecWalkWait txn walk)))
     else mem_bad_tag ''rv32 cpu state'')"

definition page_fault :: "TrapCause \<Rightarrow> bool" where
  "page_fault cause \<longleftrightarrow> cause \<in> {InstructionPageFault, LoadPageFault, StorePageFault}"

definition is_ecall :: "TrapCause \<Rightarrow> bool" where
  "is_ecall cause \<longleftrightarrow> cause \<in> {EnvironmentCallFromU, EnvironmentCallFromS, EnvironmentCall}"

fun ecall_of :: "Privilege \<Rightarrow> TrapCause" where
  "ecall_of User = EnvironmentCallFromU"
| "ecall_of Supervisor = EnvironmentCallFromS"
| "ecall_of Machine = EnvironmentCall"

text \<open>The further checks of the decoded record, each of them a closure of \<^verbatim>\<open>validate_state_m3\<close>.\<close>

definition val_translated :: "bool \<Rightarrow> u64 option \<Rightarrow> u32 \<Rightarrow> (u64 option, RestoreError) result" where
  "val_translated tr pa va =
     (case pa of
        None \<Rightarrow> if tr then Err (InvalidState ''rv32 cpu: no physical address while translation is on'') else Ok None
      | Some p \<Rightarrow>
          if \<not> tr then Err (InvalidState ''rv32 cpu: physical address while translation is off'')
          else if drop_bit PA_BITS p \<noteq> 0 then Err (InvalidState ''rv32 cpu: physical address wider than 34 bits'')
          else if p AND 0xFFF \<noteq> unat (va AND 0xFFF)
            then Err (InvalidState ''rv32 cpu: physical address offset is not the virtual address's'')
          else Ok (Some p))"

definition val_walk :: "M3State \<Rightarrow> u32 \<Rightarrow> RegisterFile \<Rightarrow> WalkRecord \<Rightarrow> (Walk, RestoreError) result" where
  "val_walk s pc regs rec =
     (if \<not> translates s then Err (InvalidState ''rv32 cpu: walk while translation is off'')
      else if wr_level rec > 1 then Err (InvalidState ''rv32 cpu: walk level above 1'')
      else if wr_table rec AND NOT SATP_PPN \<noteq> 0 then Err (InvalidState ''rv32 cpu: walk table wider than a PPN'')
      else if wr_level rec = 1 \<and> wr_table rec \<noteq> M3_root s then Err (InvalidState ''rv32 cpu: level-1 walk table is not satp.PPN'')
      else result_bind
        (case wr_data rec of
           None \<Rightarrow> Ok PurposeFetch
         | Some insn \<Rightarrow> result_bind (val_memory (IsaM3 (privilege s)) pc regs insn) (\<lambda>plan. Ok (PurposeData insn plan)))
        (\<lambda>purpose. Ok \<lparr>wk_purpose = purpose, wk_level = wr_level rec, wk_table = wr_table rec\<rparr>))"

definition val_pending :: "M3State \<Rightarrow> u32 \<Rightarrow> RegisterFile \<Rightarrow> u32 option \<Rightarrow> Outcome \<Rightarrow> u64 option \<Rightarrow> (State, RestoreError) result" where
  "val_pending s pc regs insn outcome pa =
     (let isa = IsaM3 (privilege s)
      in case consistent isa (translates s) insn outcome pc regs of
           None \<Rightarrow> Err RestorePanic
         | Some ok \<Rightarrow>
             if \<not> ok then Err (InvalidState ''rv32 cpu: pending outcome does not match its instruction'')
             else result_bind
               (case (Option.bind insn (\<lambda>w. cpu_step isa w pc regs), outcome) of
                  (Some (StepMemory plan), OExec (Effect _)) \<Rightarrow> val_translated (translates s) pa (plan_addr plan)
                | _ \<Rightarrow> if pa \<noteq> None then Err (InvalidState ''rv32 cpu: physical address on an outcome that is not an access'')
                       else Ok None)
               (\<lambda>pa. Ok (CommitPending insn outcome pa)))"

definition val_trap :: "M3State \<Rightarrow> u32 \<Rightarrow> RvTrap \<Rightarrow> (State, RestoreError) result" where
  "val_trap s pc trap =
     (if page_fault (rt_cause trap) \<and> \<not> translates s then Err (InvalidState ''rv32 cpu: page fault while translation is off'')
      else if rt_pc trap \<noteq> pc then Err (InvalidState ''rv32 cpu: trap pc is not the architectural pc'')
      else if delegates s (rt_cause trap) then Err (InvalidState ''rv32 cpu: halted on a delegated exception'')
      else if is_ecall (rt_cause trap) \<and> rt_cause trap \<noteq> ecall_of (privilege s)
        then Err (InvalidState ''rv32 cpu: ecall cause does not match priv'')
      else Ok (Halted (HaltTrap trap)))"

fun validate_state_m3 :: "StateRecord \<Rightarrow> M3State \<Rightarrow> u32 \<Rightarrow> RegisterFile \<Rightarrow> u64 \<Rightarrow> (State, RestoreError) result" where
  "validate_state_m3 (RecFetchIssue pa) s pc regs nxt =
     result_bind (val_translated (translates s) pa pc) (\<lambda>pa. Ok (FetchIssue pa))"
| "validate_state_m3 (RecFetchWait txn pa) s pc regs nxt =
     result_bind (val_outstanding nxt txn) (\<lambda>txn. result_bind (val_translated (translates s) pa pc) (\<lambda>pa. Ok (FetchWait txn pa)))"
| "validate_state_m3 (RecMemIssue insn pa) s pc regs nxt =
     result_bind (val_memory (IsaM3 (privilege s)) pc regs insn) (\<lambda>plan.
     result_bind (val_translated (translates s) pa (plan_addr plan)) (\<lambda>pa. Ok (MemIssue insn plan pa)))"
| "validate_state_m3 (RecMemWait txn insn pa) s pc regs nxt =
     result_bind (val_memory (IsaM3 (privilege s)) pc regs insn) (\<lambda>plan.
     result_bind (val_outstanding nxt txn) (\<lambda>txn.
     result_bind (val_translated (translates s) pa (plan_addr plan)) (\<lambda>pa. Ok (MemWait txn insn plan pa))))"
| "validate_state_m3 (RecWalkIssue walk) s pc regs nxt = result_bind (val_walk s pc regs walk) (\<lambda>w. Ok (WalkIssue w))"
| "validate_state_m3 (RecWalkWait txn walk) s pc regs nxt =
     result_bind (val_outstanding nxt txn) (\<lambda>txn. result_bind (val_walk s pc regs walk) (\<lambda>w. Ok (WalkWait txn w)))"
| "validate_state_m3 (RecCommitPending insn outcome pa) s pc regs nxt = val_pending s pc regs insn outcome pa"
| "validate_state_m3 (RecTrap trap) s pc regs nxt = val_trap s pc trap"
| "validate_state_m3 RecInstructionLimit s pc regs nxt = Ok (Halted InstructionLimit)"

text \<open>The mode and the CSRs of schema 3, decoded but not yet checked.\<close>

record M3Raw =
  mr_mode :: u8
  mr_sie :: bool
  mr_spie :: bool
  mr_spp :: u8
  mr_mpp :: u8
  mr_sum :: bool
  mr_mxr :: bool
  mr_medeleg :: u32
  mr_stvec :: u32
  mr_sscratch :: u32
  mr_sepc :: u32
  mr_scause :: u32
  mr_stval :: u32
  mr_satp :: u32

definition read_csrs_raw :: "CsrFile reader" where
  "read_csrs_raw =
     rd_bind read_flag (\<lambda>mie. rd_bind read_flag (\<lambda>mpie. rd_bind read_flag (\<lambda>meie.
     rd_bind r_u32 (\<lambda>mtvec. rd_bind r_u32 (\<lambda>mscratch. rd_bind r_u32 (\<lambda>mepc. rd_bind r_u32 (\<lambda>mcause. rd_bind r_u32 (\<lambda>mtval.
     rd_bind read_flag (\<lambda>level.
     rd_return \<lparr>c_mie = mie, c_mpie = mpie, c_meie = meie, c_mtvec = mtvec, c_mscratch = mscratch, c_mepc = mepc,
       c_mcause = mcause, c_mtval = mtval, c_irq_level = level\<rparr>)))))))))"

definition read_m3_raw :: "M3Raw reader" where
  "read_m3_raw =
     rd_bind r_u8 (\<lambda>mode. rd_bind read_flag (\<lambda>sie. rd_bind read_flag (\<lambda>spie. rd_bind r_u8 (\<lambda>spp. rd_bind r_u8 (\<lambda>mpp.
     rd_bind read_flag (\<lambda>sum. rd_bind read_flag (\<lambda>mxr. rd_bind r_u32 (\<lambda>medeleg. rd_bind r_u32 (\<lambda>stvec. rd_bind r_u32 (\<lambda>sscratch.
     rd_bind r_u32 (\<lambda>sepc. rd_bind r_u32 (\<lambda>scause. rd_bind r_u32 (\<lambda>stval. rd_bind r_u32 (\<lambda>satp.
     rd_return \<lparr>mr_mode = mode, mr_sie = sie, mr_spie = spie, mr_spp = spp, mr_mpp = mpp, mr_sum = sum, mr_mxr = mxr,
       mr_medeleg = medeleg, mr_stvec = stvec, mr_sscratch = sscratch, mr_sepc = sepc, mr_scause = scause,
       mr_stval = stval, mr_satp = satp\<rparr>))))))))))))))"

definition validate_m3 :: "M3Raw \<Rightarrow> (M3State, RestoreError) result" where
  "validate_m3 m =
     result_bind (ok_or (Privilege_from_bits (mr_mode m)) (InvalidState ''rv32 cpu: priv is not U, S, or M'')) (\<lambda>mode.
     result_bind (ok_or (Spp_from_bits (mr_spp m)) (InvalidState ''rv32 cpu: SPP is not U or S'')) (\<lambda>spp.
     result_bind (ok_or (Privilege_from_bits (mr_mpp m)) (InvalidState ''rv32 cpu: MPP is not U, S, or M'')) (\<lambda>mpp.
     if mr_medeleg m AND NOT MEDELEG_MASK \<noteq> 0 then Err (InvalidState ''rv32 cpu: medeleg has a bit outside its mask'')
     else if mr_stvec m AND 0x3 \<noteq> 0 then Err (InvalidState ''rv32 cpu: stvec MODE is not 0'')
     else if mr_sepc m AND 0x3 \<noteq> 0 then Err (InvalidState ''rv32 cpu: misaligned sepc'')
     else if \<not> satp_reachable (mr_satp m) then Err (InvalidState ''rv32 cpu: satp is not a value a write can produce'')
     else Ok \<lparr>privilege = mode, s_sie = mr_sie m, s_spie = mr_spie m, s_spp = spp, s_mpp = mpp, s_sum = mr_sum m,
       s_mxr = mr_mxr m, s_medeleg = mr_medeleg m, s_stvec = mr_stvec m, s_sscratch = mr_sscratch m, s_sepc = mr_sepc m,
       s_scause = mr_scause m, s_stval = mr_stval m, s_satp = mr_satp m\<rparr>)))"

text \<open>The checks of the decoded values together, and the state they make.\<close>

definition validate_restored :: "Rv32iCpu \<Rightarrow> bool \<Rightarrow> u32 \<Rightarrow> RegisterFile \<Rightarrow> u64 \<Rightarrow> u64 \<Rightarrow> StateRecord \<Rightarrow> CsrFile \<Rightarrow> M3Raw \<Rightarrow> (Rv32iCpu, RestoreError) result" where
  "validate_restored c config_matches pc regs count nxt rec m raw =
     (if \<not> config_matches then Err (InvalidState ''rv32 cpu: snapshot was taken with a different configuration'')
      else if \<not> 4 dvd unat pc then Err (InvalidState ''rv32 cpu: misaligned pc'')
      else if c_mtvec m AND 0x3 \<noteq> 0 then Err (InvalidState ''rv32 cpu: mtvec MODE is not 0'')
      else if c_mepc m AND 0x3 \<noteq> 0 then Err (InvalidState ''rv32 cpu: misaligned mepc'')
      else result_bind (validate_m3 raw) (\<lambda>s.
        result_bind (validate_state_m3 rec s pc regs nxt) (\<lambda>st.
        if \<not> consistent_count (cfg_max_instructions (config c)) count st
          then Err (InvalidState ''rv32 cpu: instret does not match the instruction limit'')
        else Ok (c\<lparr>cpu_pc := pc, cpu_regs := regs, instret := count, next_txn := nxt, cpu_state := st, csrs := m, m3 := s\<rparr>))))"

definition restore_m3 :: "Rv32iCpu \<Rightarrow> Rv32iCpu reader" where
  "restore_m3 c =
     rd_bind (r_raw (length (cpu_write_config (config c)))) (\<lambda>cfg.
     rd_bind r_u32 (\<lambda>pc. rd_bind (read_registers stored_registers RegisterFile_new) (\<lambda>regs.
     rd_bind r_u64 (\<lambda>count. rd_bind r_u64 (\<lambda>nxt. rd_bind decode_state_m3 (\<lambda>rec.
     rd_bind read_csrs_raw (\<lambda>m. rd_bind read_m3_raw (\<lambda>raw.
     of_reader (validate_restored c (cfg = cpu_write_config (config c)) pc regs count nxt rec m raw)))))))))"

definition cpu_restore :: "Rv32iCpu \<Rightarrow> nat \<Rightarrow> Rv32iCpu reader" where
  "cpu_restore c schema =
     (if schema \<noteq> snapshot_schema_version (cfg_profile (config c))
        then invalid ''rv32 cpu: snapshot schema does not match the CPU profile''
      else (case cfg_profile (config c) of
        M3 \<Rightarrow> restore_m3 c | M1 \<Rightarrow> restore_m1_m2 c IsaM1 | M2 \<Rightarrow> restore_m1_m2 c IsaM2))"


subsection \<open>Inspection\<close>

definition CSR_NAMES :: "string list" where
  "CSR_NAMES = [''mstatus'', ''mie'', ''mip'', ''mtvec'', ''mscratch'', ''mepc'', ''mcause'', ''mtval'']"

definition CSR_NAMES_M3 :: "string list" where
  "CSR_NAMES_M3 = [''mstatus'', ''mie'', ''mip'', ''mtvec'', ''mscratch'', ''mepc'', ''mcause'', ''mtval'', ''sstatus'', ''sie'',
     ''sip'', ''stvec'', ''sscratch'', ''sepc'', ''scause'', ''stval'', ''satp'', ''medeleg'', ''mideleg'']"

definition REG_NAMES :: "string list" where
  "REG_NAMES = map (\<lambda>i. ''x'' @ fmt_dec i) [1..<32]"

text \<open>The fields of a list of names and readings; a reading that fails is a panic, the whole view then \<open>None\<close>.\<close>

fun named_words :: "(string \<times> u32 option) list \<Rightarrow> TraceFields option" where
  "named_words [] = Some []"
| "named_words ((n, v) # xs) = Option.bind v (\<lambda>v. map_option (\<lambda>fs. (n, u64_of v) # fs) (named_words xs))"

definition walk_fields :: "State \<Rightarrow> TraceFields" where
  "walk_fields st =
     (let view = (\<lambda>walk. [(''walk_purpose'', VStr (case wk_purpose walk of PurposeFetch \<Rightarrow> ''fetch'' | PurposeData _ _ \<Rightarrow> ''data'')),
            (''walk_level'', VU64 (wk_level walk)), (''walk_table'', u64_of (wk_table walk))])
      in case st of WalkIssue walk \<Rightarrow> view walk | WalkWait _ walk \<Rightarrow> view walk | _ \<Rightarrow> [])"

definition halt_view :: "Rv32iCpu \<Rightarrow> TraceFields" where
  "halt_view c =
     (case cpu_state c of
        Halted (HaltTrap trap) \<Rightarrow> [(''halt'', VStr ''trap''), (''cause'', VStr (cause_name c (rt_cause trap))),
          (''trap_pc'', u64_of (rt_pc trap)), (''tval'', u64_of (rt_tval trap))]
      | Halted InstructionLimit \<Rightarrow> [(''halt'', VStr ''instruction_limit'')]
      | _ \<Rightarrow> [])"

definition csr_view :: "Rv32iCpu \<Rightarrow> TraceFields option" where
  "csr_view c =
     (case cfg_profile (config c) of
        M1 \<Rightarrow> Some []
      | M2 \<Rightarrow> named_words (zip CSR_NAMES (map (CsrFile_read (csrs c)) SUPPORTED_M2))
      | M3 \<Rightarrow> map_option (\<lambda>fs. (''priv'', VU64 (unat (Privilege_bits (privilege (m3 c))))) # fs)
          (named_words (zip CSR_NAMES_M3 (map (M3_read (m3 c) (csrs c)) SUPPORTED_M3))))"

definition cpu_inspect :: "Rv32iCpu \<Rightarrow> TraceFields option" where
  "cpu_inspect c =
     Option.bind (named_words (zip REG_NAMES (map (regfile_read (cpu_regs c)) stored_registers))) (\<lambda>regs.
     Option.bind (csr_view c) (\<lambda>view.
     Some ([(''pc'', u64_of (cpu_pc c))] @ regs @ [(''instret'', VU64 (instret c)), (''state'', VStr (State_name (cpu_state c)))]
       @ walk_fields (cpu_state c) @ halt_view c @ view)))"


end
