(* ===== verification/Rv32_CpuSnapInv.thy ===== *)
theory Rv32_CpuSnapInv
  imports Rv32_CpuSnap
begin

section \<open>What a restored CPU is\<close>

text \<open>
  The checks of restore characterise a set of states, \<open>cpu_exact\<close>. Every reachable state is in it, its
  snapshot restores to exactly that state, and whatever bytes are accepted give a state in it, so a
  restored CPU never panics either.
\<close>

subsection \<open>The states restore accepts\<close>

definition trap_fits :: "Isa \<Rightarrow> bool \<Rightarrow> TrapCause \<Rightarrow> bool" where
  "trap_fits isa tr cause \<longleftrightarrow> (page_fault cause \<longrightarrow> tr)
     \<and> (is_ecall cause \<longrightarrow> cause = (case isa of IsaM3 mode \<Rightarrow> ecall_of mode | _ \<Rightarrow> EnvironmentCall))"

definition pa_exact :: "bool \<Rightarrow> u64 option \<Rightarrow> u32 \<Rightarrow> bool" where
  "pa_exact tr pa va \<longleftrightarrow>
     (case pa of None \<Rightarrow> \<not> tr | Some p \<Rightarrow> tr \<and> drop_bit PA_BITS p = 0 \<and> p AND 0xFFF = unat (va AND 0xFFF))"

definition retiring_access :: "Isa \<Rightarrow> u32 \<Rightarrow> RegisterFile \<Rightarrow> u32 option \<Rightarrow> Outcome \<Rightarrow> MemoryPlan option" where
  "retiring_access isa pc regs insn outcome =
     (case (Option.bind insn (\<lambda>w. cpu_step isa w pc regs), outcome) of
        (Some (StepMemory plan), OExec (Effect _)) \<Rightarrow> Some plan | _ \<Rightarrow> None)"

definition pending_exact :: "Isa \<Rightarrow> bool \<Rightarrow> u32 \<Rightarrow> RegisterFile \<Rightarrow> u32 option \<Rightarrow> Outcome \<Rightarrow> u64 option \<Rightarrow> bool" where
  "pending_exact isa tr pc regs insn outcome pa \<longleftrightarrow>
     consistent isa tr insn outcome pc regs = Some True
     \<and> (case retiring_access isa pc regs insn outcome of Some plan \<Rightarrow> pa_exact tr pa (plan_addr plan) | None \<Rightarrow> pa = None)"

fun state_exact :: "Rv32iCpu \<Rightarrow> State \<Rightarrow> bool" where
  "state_exact c (FetchIssue pa) \<longleftrightarrow> pa_exact (translating c) pa (cpu_pc c)"
| "state_exact c (FetchWait txn pa) \<longleftrightarrow> pa_exact (translating c) pa (cpu_pc c) \<and> next_txn c = txn + 1"
| "state_exact c (MemIssue insn plan pa) \<longleftrightarrow> data_ok c insn plan \<and> pa_exact (translating c) pa (plan_addr plan)"
| "state_exact c (MemWait txn insn plan pa) \<longleftrightarrow>
     data_ok c insn plan \<and> pa_exact (translating c) pa (plan_addr plan) \<and> next_txn c = txn + 1"
| "state_exact c (WalkIssue walk) \<longleftrightarrow> walk_ok c walk \<and> wk_table walk AND NOT SATP_PPN = 0"
| "state_exact c (WalkWait txn walk) \<longleftrightarrow> walk_ok c walk \<and> wk_table walk AND NOT SATP_PPN = 0 \<and> next_txn c = txn + 1"
| "state_exact c (CommitPending insn outcome pa) \<longleftrightarrow>
     pending_exact (cpu_isa c) (translating c) (cpu_pc c) (cpu_regs c) insn outcome pa"
| "state_exact c (Halted h) \<longleftrightarrow> (case h of
     HaltTrap t \<Rightarrow> rt_pc t = cpu_pc c \<and> trap_fits (cpu_isa c) (translating c) (rt_cause t)
       \<and> (cfg_profile (config c) = M3 \<longrightarrow> \<not> delegates (m3 c) (rt_cause t))
   | InstructionLimit \<Rightarrow> True)"

definition settled_exact :: "Rv32iCpu \<Rightarrow> bool" where
  "settled_exact c \<longleftrightarrow> state_exact c (cpu_state c) \<and> next_txn c \<le> u64_max
     \<and> consistent_count (cfg_max_instructions (config c)) (instret c) (cpu_state c)"

definition cpu_exact :: "Rv32iCpu \<Rightarrow> bool" where
  "cpu_exact c \<longleftrightarrow> arch_ok c \<and> settled_exact c"

text \<open>A state restore accepts satisfies the invariant of the CPU.\<close>

lemma consistent_outcome_ok:
  assumes "wf_regfile regs" "aligned4 pc" and "consistent isa tr insn outcome pc regs = Some True"
  shows "outcome_ok isa outcome \<and> (insn = None \<longrightarrow> (\<exists>t. outcome = OExec (Trap t)))"
proof (cases insn)
  case None
  with assms(3) show ?thesis by (auto simp: consistent_def split: Outcome.splits ExecOutcome.splits)
next
  case (Some w)
  obtain s where s: "cpu_step isa w pc regs = Some s" "step_ok isa s" using cpu_step_ok [OF assms(1,2)] by blast
  have "outcome_ok isa outcome"
  proof (cases s)
    case (StepDone x)
    with s Some assms(3) show ?thesis by (simp add: consistent_def)
  next
    case (StepMemory plan)
    with s Some assms(3) show ?thesis
      by (cases "(tr, plan, outcome)" rule: access_fits.cases) (auto simp: consistent_def split: option.splits)
  qed
  with Some show ?thesis by simp
qed

lemma cpu_exact_inv: "cpu_exact c \<Longrightarrow> cpu_inv c"
  by (cases "cpu_state c")
    (auto simp: cpu_exact_def settled_exact_def cpu_inv_def halt_def consistent_count_def pa_exact_def pending_exact_def
      arch_ok_def dest: consistent_outcome_ok split: option.splits Halt.splits)

subsection \<open>Every reachable state is one\<close>

lemma trap_causes:
  "jump_to rw target = Trap t \<Longrightarrow> pt_cause t = InstructionAddressMisaligned"
  "prepare_aligned addr width cause plan = PrepTrap t \<Longrightarrow> pt_cause t = cause"
  "ecall_cause isa (Trap \<lparr>pt_cause = EnvironmentCall, pt_tval = v\<rparr>) = Trap t \<Longrightarrow> trap_fits isa tr (pt_cause t)"
  "ecall_cause isa (Trap \<lparr>pt_cause = Breakpoint, pt_tval = v\<rparr>) = Trap t \<Longrightarrow> trap_fits isa tr (pt_cause t)"
  by (auto simp: jump_to_def prepare_aligned_def split: if_splits)
    (cases isa; auto simp: trap_fits_def page_fault_def is_ecall_def split: Privilege.splits)+

lemma plain_trap_fits [simp]:
  "trap_fits isa tr IllegalInstruction" "trap_fits isa tr InstructionAddressMisaligned"
  "trap_fits isa tr LoadAddressMisaligned" "trap_fits isa tr StoreAddressMisaligned"
  by (simp_all add: trap_fits_def page_fault_def is_ecall_def)

lemma step_trap_fits:
  assumes "cpu_step isa w pc regs = Some (StepDone (OExec (Trap t)))"
  shows "trap_fits isa tr (pt_cause t)"
proof -
  have base: "trap_fits isa tr (pt_cause t)" if "step_base isa w pc regs = Some (StepDone (OExec (Trap t)))"
    using that
    by (auto simp: step_base_def Let_def result_ok_def bind_eq_Some_conv
        dest: trap_causes split: sum.splits prod.splits Illegal.splits Instr.splits MemoryPrep.splits if_splits)
  have m2: "pt_cause t = IllegalInstruction" if "privileged i w pc regs = Some (OExec (Trap t))" for i
    using that by (cases i) (auto simp: illegal_def split: if_splits)
  show ?thesis
    using assms base
    by (cases isa) (auto simp: privileged_m3_def illegal_def dest!: m2
        split: option.splits if_splits PrivInstr.splits SupervisorInstr.splits)
qed

lemma consistent_trap_fits:
  assumes "consistent isa tr insn (OExec (Trap t)) pc regs = Some True"
  shows "trap_fits isa tr (pt_cause t)"
proof (cases insn)
  case None
  with assms show ?thesis by (auto simp: consistent_def fault_fits_def trap_fits_def page_fault_def is_ecall_def)
next
  case (Some w)
  with assms obtain s where s: "cpu_step isa w pc regs = Some s"
    "case s of StepDone expected \<Rightarrow> expected = OExec (Trap t) | StepMemory plan \<Rightarrow> access_fits tr plan (OExec (Trap t))"
    by (auto simp: consistent_def)
  show ?thesis
  proof (cases s)
    case (StepDone x)
    with s show ?thesis by (simp add: step_trap_fits)
  next
    case (StepMemory plan)
    with s show ?thesis by (cases plan) (auto simp: fault_fits_def trap_fits_def page_fault_def is_ecall_def)
  qed
qed

text \<open>The handlers, one by one: whatever a delivery leaves is a state restore accepts.\<close>

definition exact_after :: "Rv32iConfig \<Rightarrow> Rv32iCpu handled \<Rightarrow> bool" where
  "exact_after cfg r \<longleftrightarrow> (case r of Ok (c, ctx) \<Rightarrow> settled_exact c \<and> config c = cfg | Err a \<Rightarrow> True)"

lemma exact_after_simps [simp]:
  "exact_after cfg (Ok (c, ctx)) \<longleftrightarrow> settled_exact c \<and> config c = cfg" "exact_after cfg (component_fault w)" "exact_after cfg (Err a)"
  by (simp_all add: exact_after_def component_fault_def)

lemma exact_after_wake [simp]:
  "settled_exact c' \<Longrightarrow> config c' = cfg \<Longrightarrow> exact_after cfg (result_bind (wake_next_cycle c'' tok ctx) (\<lambda>ctx'. Ok (c', ctx')))"
  "settled_exact c' \<Longrightarrow> config c' = cfg \<Longrightarrow> exact_after cfg (result_bind (ctx_wake_self w ph tok ctx) (\<lambda>ctx'. Ok (c', ctx')))"
  by (simp_all add: wake_next_cycle_def ctx_wake_self_def ctx_effect_def split: option.splits)

lemma state_exact_state [simp]: "state_exact (c\<lparr>cpu_state := st'\<rparr>) st = state_exact c st"
  by (cases st) (simp_all split: Halt.split)

lemma running_exact:
  assumes "next_txn c \<le> u64_max" "instret c < cfg_max_instructions (config c)" and "state_exact c st" "\<forall>h. st \<noteq> Halted h"
  shows "settled_exact (c\<lparr>cpu_state := st\<rparr>)"
  using assms by (cases st) (auto simp: settled_exact_def consistent_count_def)

lemma root_is_ppn [simp]: "M3_root s AND NOT SATP_PPN = 0"
  by (simp add: M3_root_def and.assoc)

lemma fetch_next_exact:
  assumes "next_txn c \<le> u64_max" "instret c < cfg_max_instructions (config c)"
  shows "exact_after (config c) (fetch_next c ctx)"
  by (auto simp: fetch_next_def Let_def walk_ok_def pa_exact_def intro!: exact_after_wake running_exact [OF assms])

lemma to_commit_exact:
  assumes "next_txn c \<le> u64_max" "instret c < cfg_max_instructions (config c)"
    and "pending_exact (cpu_isa c) (translating c) (cpu_pc c) (cpu_regs c) insn outcome pa"
  shows "exact_after (config c) (to_commit c insn outcome pa ctx)"
  using assms(3) by (auto simp: to_commit_def intro!: exact_after_wake running_exact [OF assms(1,2)])

lemma leaf_exact:
  assumes "sv32_step cx va level pte = WalkLeaf pa"
  shows "pa_exact True (Some pa) va"
proof -
  have low: "unat pte < 4294967296" "unat va < 4294967296" using unat_less_2p32 [of pte] unat_less_2p32 [of va] by simp_all
  have pa: "pa = unat pte div 1048576 * 4194304 + unat va mod 4194304 \<or> pa = unat pte div 1024 * 4096 + unat va mod 4096"
    using assms by (auto simp: sv32_step_leaf_iff split: if_splits)
  have "unat pte div 1048576 < 4096" "unat pte div 1024 < 4194304" "unat va mod 4194304 < 4194304" "unat va mod 4096 < 4096"
    using low(1) by (simp_all add: less_mult_imp_div_less)
  with pa have "pa < 17179869184" by auto
  moreover have "pa mod 4096 = unat va mod 4096"
  proof -
    have "(a * 4194304 + b mod 4194304) mod 4096 = b mod (4096 :: nat)" for a b
      using mod_mult_self3 [of "a * 1024" 4096 "b mod 4194304"] mod_mod_cancel [of 4096 4194304 b] by (simp add: mult.assoc)
    moreover have "(a * 4096 + b mod 4096) mod 4096 = b mod (4096 :: nat)" for a b by simp
    ultimately show ?thesis using pa by metis
  qed
  moreover have "pa AND 0xFFF = pa mod 4096"
    using take_bit_eq_mask [of 12 pa] by (simp add: take_bit_eq_mod mask_eq_exp_minus_1)
  ultimately show ?thesis by (simp add: pa_exact_def low_bits PA_BITS_def drop_bit_eq_div)
qed

lemma next_is_ppn:
  assumes "sv32_step cx va level pte = WalkNext table"
  shows "table AND NOT SATP_PPN = 0"
proof -
  have table: "table = drop_bit 10 pte" using assms by (simp add: sv32_step_next_iff)
  have ppn: "bit SATP_PPN n \<longleftrightarrow> n < 22" for n
  proof -
    have eq: "SATP_PPN = mask 22" by (simp add: SATP_PPN_def mask_eq_exp_minus_1)
    show ?thesis unfolding eq by (auto simp: bit_mask_iff)
  qed
  have "\<not> bit pte (10 + n)" if "\<not> n < 22" for n using that bit_imp_le_length [of pte "10 + n"] by auto
  then show ?thesis unfolding table by (intro bit_word_eqI) (auto simp: bit_and_iff bit_not_iff bit_drop_bit_eq ppn)
qed

lemma fault_pending:
  assumes "case insn of None \<Rightarrow> access = AccFetch \<and> va = pc
      | Some w \<Rightarrow> \<exists>plan. cpu_step isa w pc regs = Some (StepMemory plan) \<and> access = Purpose_access (PurposeData w plan) \<and> va = plan_addr plan"
    and "cause = Access_access_fault access \<or> tr \<and> cause = Access_page_fault access"
  shows "pending_exact isa tr pc regs insn (OExec (Trap \<lparr>pt_cause = cause, pt_tval = va\<rparr>)) None"
proof (cases insn)
  case None
  with assms show ?thesis by (auto simp: pending_exact_def consistent_def retiring_access_def fault_fits_def)
next
  case (Some w)
  with assms(1) obtain plan where "cpu_step isa w pc regs = Some (StepMemory plan)"
    "access = Purpose_access (PurposeData w plan)" "va = plan_addr plan" by auto
  with Some assms(2) show ?thesis
    by (cases plan) (auto simp: pending_exact_def consistent_def retiring_access_def fault_fits_def)
qed

lemma walk_response_exact:
  assumes run: "next_txn c \<le> u64_max" "instret c < cfg_max_instructions (config c)" and walk: "walk_ok c walk"
  shows "exact_after (config c) (walk_response c walk msg ctx)"
proof -
  note commit = to_commit_exact [OF run] and goes = running_exact [OF run]
  let ?insn = "case wk_purpose walk of PurposeFetch \<Rightarrow> None | PurposeData insn _ \<Rightarrow> Some insn"
  have tr: "translating c" using walk by (simp add: walk_ok_def)
  have fault: "pending_exact (cpu_isa c) True (cpu_pc c) (cpu_regs c) ?insn
      (OExec (Trap \<lparr>pt_cause = cause, pt_tval = walk_va c walk\<rparr>)) None"
    if "cause \<in> {Access_page_fault (Purpose_access (wk_purpose walk)), Access_access_fault (Purpose_access (wk_purpose walk))}" for cause
    by (rule fault_pending [where access = "Purpose_access (wk_purpose walk)"]; use that in \<open>cases "wk_purpose walk"\<close>) (use walk in \<open>auto simp: walk_ok_def data_ok_def walk_va_def\<close>)
  have leaf: "state_exact c (case wk_purpose walk of PurposeFetch \<Rightarrow> FetchIssue (Some pa) | PurposeData insn plan \<Rightarrow> MemIssue insn plan (Some pa))"
    if "sv32_step cx (walk_va c walk) (wk_level walk) pte = WalkLeaf pa" for cx pte pa
    using leaf_exact [OF that] tr walk by (auto simp: walk_ok_def walk_va_def split: Purpose.splits)
  show ?thesis
    using walk fault tr
    by (auto simp: walk_response_def Let_def walk_ok_def dest: next_is_ppn leaf intro!: exact_after_wake goes commit
        split: MemMsg.split ReadOutcome.split WalkStep.split Purpose.split Purpose.split_asm)
qed

lemma fetch_response_exact:
  assumes run: "next_txn c \<le> u64_max" "instret c < cfg_max_instructions (config c)"
  shows "exact_after (config c) (fetch_response c msg ctx)"
proof -
  note commit = to_commit_exact [OF run] and goes = running_exact [OF run]
  have fault: "pending_exact (cpu_isa c) (translating c) (cpu_pc c) (cpu_regs c) None
      (OExec (Trap \<lparr>pt_cause = InstructionAccessFault, pt_tval = cpu_pc c\<rparr>)) None"
    by (rule fault_pending [where access = AccFetch]) simp_all
  show ?thesis
    using fault
    by (auto simp: fetch_response_def Let_def data_ok_def walk_ok_def pa_exact_def pending_exact_def consistent_def retiring_access_def
        intro!: exact_after_wake goes commit split: MemMsg.split ReadOutcome.split option.split Step.split)
qed

lemma complete_fits:
  assumes "complete_memory plan msg = Ok x"
  shows "access_fits tr plan (OExec x)"
proof -
  have store: "access_fits tr (PlanStore p) (OExec (complete_store p out))" for p out
    by (cases "(p, out)" rule: complete_store.cases) (simp_all add: fault_fits_def)
  show ?thesis
    using assms store by (cases "(plan, msg)" rule: complete_memory.cases)
      (auto simp: fault_fits_def elim!: complete_load.elims split: option.splits)
qed

lemma mem_response_exact:
  assumes run: "next_txn c \<le> u64_max" "instret c < cfg_max_instructions (config c)"
    and plan: "data_ok c insn plan" "pa_exact (translating c) pa (plan_addr plan)"
  shows "exact_after (config c) (mem_response c insn plan pa msg ctx)"
  using plan complete_fits [of plan msg _ "translating c"]
  by (auto simp: mem_response_def pending_exact_def consistent_def retiring_access_def data_ok_def
      intro!: to_commit_exact [OF run] split: sum.splits ExecOutcome.splits)


lemma take_exception_None: "take_exception s cause pc tval = None \<longleftrightarrow> \<not> delegates s cause"
  by (cases "privilege s") (auto simp: take_exception_def delegates_def)

lemma commit_trap_exact:
  assumes run: "next_txn c \<le> u64_max" "instret c < cfg_max_instructions (config c)"
    and fits: "trap_fits (cpu_isa c) (translating c) (pt_cause t)"
  shows "exact_after (config c) (commit_trap c insn t ctx)"
proof (cases "if cfg_profile (config c) = M3 then take_exception (m3 c) (pt_cause t) (cpu_pc c) (pt_tval t) else None")
  case None
  then have "cfg_profile (config c) = M3 \<longrightarrow> \<not> delegates (m3 c) (pt_cause t)" by (auto simp: take_exception_None)
  with None run fits show ?thesis by (simp add: commit_trap_def Let_def settled_exact_def consistent_count_def)
next
  case (Some r)
  obtain s handler where r: "r = (s, handler)" by fastforce
  have "exact_after (config c) (fetch_next (c\<lparr>m3 := s, cpu_pc := handler\<rparr>) ctx')" for ctx'
    using fetch_next_exact [of "c\<lparr>m3 := s, cpu_pc := handler\<rparr>" ctx'] run by simp
  with Some r show ?thesis by (simp add: commit_trap_def Let_def)
qed

lemma write_csr_counter: "write_csr c csr v = Some c' \<Longrightarrow> next_txn c' = next_txn c"
  by (auto simp: write_csr_def split: Rv32iProfile.splits)

lemma commit_csr_counter: "commit_csr c w p = Ok (c', fs) \<Longrightarrow> next_txn c' = next_txn c"
  using write_csr_counter [of c "pc_csr p"]
  by (fastforce simp: commit_csr_def Let_def ok_or_def split: option.splits if_splits)

lemma commit_apply_counter: "commit_apply c w outcome pa = Ok (c', fs) \<Longrightarrow> next_txn c' = next_txn c"
  by (cases "(c, w, outcome, pa)" rule: commit_apply.cases)
    (auto simp: Let_def ok_or_def dest: commit_csr_counter split: option.splits if_splits Rv32iProfile.splits prod.splits)

lemma sample_interrupt_counter: "next_txn (fst (sample_interrupt c ctx)) = next_txn c"
  by (simp add: sample_interrupt_def Let_def split: prod.splits)

lemma commit_retire_exact:
  assumes "arch_ok c" "next_txn c \<le> u64_max" "instret c < cfg_max_instructions (config c)"
  shows "exact_after (config c) (commit_retire c fs ctx)"
proof -
  let ?c1 = "c\<lparr>instret := instret c + 1\<rparr>" and ?ctx1 = "ctx_trace COMMIT_KIND fs ctx"
  show ?thesis
  proof (cases "instret c + 1 \<ge> cfg_max_instructions (config c)")
    case True
    with assms show ?thesis by (simp add: commit_retire_def Let_def settled_exact_def consistent_count_def)
  next
    case False
    obtain c2 ctx2 where s: "sample_interrupt ?c1 ?ctx1 = (c2, ctx2)" by fastforce
    have kept: "keeps ?c1 c2" "next_txn c2 = next_txn c"
      using sample_interrupt_ok [of ?c1 ?ctx1] sample_interrupt_counter [of ?c1 ?ctx1] assms(1) unfolding s by simp_all
    with False assms(2) have "exact_after (config c2) (fetch_next c2 ctx2)" by (intro fetch_next_exact) (auto simp: keeps_def)
    with False s kept(1) show ?thesis by (simp add: commit_retire_def Let_def keeps_def)
  qed
qed

lemma commit_exact:
  assumes arch: "arch_ok c" and run: "next_txn c \<le> u64_max" "instret c < cfg_max_instructions (config c)"
    and ok: "consistent (cpu_isa c) (translating c) insn outcome (cpu_pc c) (cpu_regs c) = Some True"
  shows "exact_after (config c) (commit c insn outcome pa ctx)"
proof (cases "\<exists>t. outcome = OExec (Trap t)")
  case True
  then show ?thesis using commit_trap_exact [OF run] consistent_trap_fits ok by (auto simp: commit_def)
next
  case False
  then obtain w where w: "insn = Some w"
    using ok by (cases insn) (auto simp: consistent_def split: Outcome.splits ExecOutcome.splits)
  have commit: "commit c insn outcome pa ctx = result_bind (commit_apply c w outcome pa) (\<lambda>(c1, fields). commit_retire c1 fields ctx)"
    using False by (auto simp: commit_def w split: Outcome.split ExecOutcome.split)
  have out: "outcome_ok (cpu_isa c) outcome"
    using consistent_outcome_ok [OF _ _ ok] arch by (simp add: arch_ok_def)
  with False arch obtain c' fs where "commit_apply c w outcome pa = Ok (c', fs)" "keeps c c'"
    using commit_apply_ok [of c outcome w pa] by auto
  with run show ?thesis
    unfolding commit using commit_retire_exact [of c' fs ctx] commit_apply_counter [of c w outcome pa c' fs] by (simp add: keeps_def)
qed

lemma cpu_send_exact:
  assumes "next_txn c < u64_max" "settled_exact (c\<lparr>next_txn := next_txn c + 1, cpu_state := st (next_txn c)\<rparr>)"
  shows "exact_after (config c) (result_bind (cpu_send c ctx msg) (\<lambda>(c', ctx', txn). Ok (c'\<lparr>cpu_state := st txn\<rparr>, ctx')))"
  using assms by (auto simp: cpu_send_def Let_def ctx_send_def ctx_effect_def component_fault_def split: option.splits)

lemma running:
  assumes "settled_exact c" "\<forall>h. cpu_state c \<noteq> Halted h"
  shows "next_txn c \<le> u64_max" "instret c < cfg_max_instructions (config c)" "state_exact c (cpu_state c)"
  using assms by (cases "cpu_state c"; auto simp: settled_exact_def consistent_count_def)+

lemma sent_exact:
  assumes "next_txn c < u64_max" "instret c < cfg_max_instructions (config c)" "\<forall>h. st \<noteq> Halted h"
    and "state_exact (c\<lparr>next_txn := next_txn c + 1\<rparr>) st"
  shows "settled_exact (c\<lparr>next_txn := next_txn c + 1, cpu_state := st\<rparr>)"
  using running_exact [of "c\<lparr>next_txn := next_txn c + 1\<rparr>" st] assms by simp

lemma cpu_wake_exact:
  assumes inv: "cpu_exact c" and txn: "next_txn c < u64_max"
  shows "exact_after (config c) (cpu_wake c token ctx)"
proof (cases "cpu_state c")
  case (FetchIssue pa)
  with inv have "settled_exact (c\<lparr>next_txn := next_txn c + 1, cpu_state := FetchWait (next_txn c) pa\<rparr>)"
    using running [of c] txn by (intro sent_exact) (auto simp: cpu_exact_def)
  from cpu_send_exact [OF txn, where st = "\<lambda>x. FetchWait x pa", OF this] FetchIssue show ?thesis by (simp add: cpu_wake_def Let_def)
next
  case (MemIssue insn plan pa)
  with inv have "settled_exact (c\<lparr>next_txn := next_txn c + 1, cpu_state := MemWait (next_txn c) insn plan pa\<rparr>)"
    using running [of c] txn by (intro sent_exact) (auto simp: cpu_exact_def)
  from cpu_send_exact [OF txn, where st = "\<lambda>x. MemWait x insn plan pa", OF this] MemIssue show ?thesis by (simp add: cpu_wake_def Let_def)
next
  case (WalkIssue walk)
  with inv have "settled_exact (c\<lparr>next_txn := next_txn c + 1, cpu_state := WalkWait (next_txn c) walk\<rparr>)"
    using running [of c] txn by (intro sent_exact) (auto simp: cpu_exact_def)
  from cpu_send_exact [OF txn, where st = "\<lambda>x. WalkWait x walk", OF this] WalkIssue show ?thesis by (simp add: cpu_wake_def Let_def)
next
  case (CommitPending insn outcome pa)
  with inv have "exact_after (config c) (commit c insn outcome pa ctx)"
    using running [of c] by (intro commit_exact) (auto simp: cpu_exact_def pending_exact_def)
  with CommitPending show ?thesis by (simp add: cpu_wake_def)
qed (simp_all add: cpu_wake_def)

lemma cpu_response_exact:
  assumes "cpu_exact c"
  shows "exact_after (config c) (cpu_response c msg ctx)"
proof -
  have run: "next_txn c \<le> u64_max \<and> instret c < cfg_max_instructions (config c) \<and> state_exact c (cpu_state c)"
    if "\<forall>h. cpu_state c \<noteq> Halted h"
    using running [OF _ that] assms by (simp add: cpu_exact_def)
  show ?thesis
    using run fetch_response_exact [of c msg ctx] mem_response_exact [of c] walk_response_exact [of c]
    by (auto simp: cpu_response_def split: option.split State.split)
qed

lemma cpu_irq_exact:
  assumes "cpu_exact c"
  shows "exact_after (config c) (cpu_irq c msg ctx)"
proof -
  let ?c = "\<lambda>b. c\<lparr>csrs := (csrs c)\<lparr>c_irq_level := b\<rparr>\<rparr>"
  have view: "cpu_isa (?c b) = cpu_isa c" "translating (?c b) = translating c" "data_ok (?c b) = data_ok c" "walk_ok (?c b) = walk_ok c" for b
    by (auto simp: cpu_isa_def translating_def data_ok_def walk_ok_def fun_eq_iff split: Rv32iProfile.split Purpose.split)
  then have "state_exact (?c b) st = state_exact c st" for b st
    by (cases st) (simp_all split: Halt.split)
  with assms have "settled_exact (?c b)" for b by (simp add: cpu_exact_def settled_exact_def)
  then show ?thesis by (simp add: cpu_irq_def split: IrqMsg.split)
qed

lemma handle_event_exact:
  assumes "cpu_exact c" "next_txn c < u64_max"
  shows "exact_after (config c) (handle_event c ev ctx)"
  using cpu_wake_exact [OF assms] cpu_response_exact [OF assms(1)] cpu_irq_exact [OF assms(1)]
  by (auto simp: handle_event_def split: Delivered.split Message.split)

lemma cpu_reaches_exact:
  assumes "cpu_reaches cfg c" and "0 < cfg_max_instructions cfg" "cfg_max_instructions cfg \<le> u64_max"
  shows "cpu_exact c \<and> config c = cfg"
  using assms(1)
proof induction
  case (cpu_start c)
  have c: "c = \<lparr>config = cfg, cpu_pc = cfg_entry cfg, cpu_regs = RegisterFile_new, instret = 0,
      next_txn = 0, cpu_state = FetchIssue None, csrs = CsrFile_new, m3 = M3State_new\<rparr>"
    using cpu_start by (auto simp: Rv32iCpu_new_def split: if_splits)
  have "cpu_inv c" using cpu_start assms(2,3) by (rule cpu_inv_new)
  moreover have "\<not> translating c" by (simp add: c translating_def translates_def M3State_new_def)
  ultimately show ?case
    using assms(2) by (simp add: c cpu_exact_def cpu_inv_def settled_exact_def consistent_count_def pa_exact_def)
next
  case (cpu_deliver c ev ctx c' ctx')
  then have "cpu_exact c" "config c = cfg" by simp_all
  moreover from this have "cpu_inv c" by (simp add: cpu_exact_inv)
  ultimately show ?case
    using handle_event_exact [of c ev ctx] handle_event_ok [of c ev ctx] cpu_deliver.hyps
    by (simp add: cpu_exact_def cpu_inv_def)
qed


subsection \<open>A snapshot decodes to what was written\<close>

lemma of_reader_simps [simp]: "of_reader (Ok x) bs = Ok (x, bs)" "of_reader (Err e) bs = Err e"
  by (simp_all add: of_reader_def)

lemma of_reader_Ok: "of_reader r bs = Ok (x, rest) \<longleftrightarrow> r = Ok x \<and> rest = bs"
  by (cases r) auto

lemma of_reader_bind: "rd_bind (of_reader (Ok x)) f bs = f x bs"
  by (simp add: rd_bind_def)

lemma cause_dec_enc:
  assumes "cause \<in> set (causes profile)"
  shows "read_cause profile (write_cause cause @ rest) = Ok (cause, rest)"
proof -
  note unfolds = CAUSES_def CAUSES_M3_def write_cause_def read_cause_def write_code_def read_code_def
  have "read_code (causes profile) what (write_cause cause @ rest) = Ok (cause, rest)" for what
    by (insert assms; cases profile; cases cause) (simp_all add: unfolds causes_def snap_bind)
  then show ?thesis by (simp add: read_cause_def)
qed

interpretation sccause: snap_codec "\<lambda>cause. cause \<in> set (causes profile)" write_cause "read_cause profile" for profile
  by unfold_locales (rule cause_dec_enc)

interpretation scop: snap_codec "\<lambda>_. True" "write_code CSR_OPS" "read_code CSR_OPS what" for what
proof unfold_locales
  fix v rest
  show "read_code CSR_OPS what (write_code CSR_OPS v @ rest) = Ok (v, rest)"
    by (cases v) (simp_all add: CSR_OPS_def write_code_def read_code_def snap_bind)
qed

interpretation screg: snap_codec wf_reg "\<lambda>r. w_u8 (reg_index r)" read_reg
  by unfold_locales (auto simp: read_reg_def snap_bind Reg_new_def wf_reg_def word_less_nat_alt)

interpretation scflag: snap_codec "\<lambda>_. True" w_bool read_flag
  by unfold_locales (simp add: read_flag_def scbool.dec_enc)

interpretation scpa: snap_codec "pred_option (\<lambda>p. p < 256 ^ 8)" write_pa read_pa
  by unfold_locales (auto simp: write_pa_def read_pa_def snap_bind split: option.split)

interpretation scinsn: snap_codec "\<lambda>_. True" write_insn read_insn
  by unfold_locales (simp add: write_insn_def read_insn_def snap_bind split: option.split)

interpretation screg_write: snap_codec "pred_option (\<lambda>w. wf_reg (rw_rd w))" write_reg_write read_reg_write
  by unfold_locales (auto simp: write_reg_write_def read_reg_write_def snap_bind screg.bind_enc split: option.split)

fun outcome_fits :: "Rv32iProfile \<Rightarrow> Outcome \<Rightarrow> bool" where
  "outcome_fits profile (OExec (Effect e)) \<longleftrightarrow> pred_option (\<lambda>w. wf_reg (rw_rd w)) (pe_reg_write e)"
| "outcome_fits profile (OExec (Trap t)) \<longleftrightarrow> pt_cause t \<in> set (causes profile)"
| "outcome_fits profile (OCsr p) \<longleftrightarrow> profile \<noteq> M1 \<and> wf_reg (pc_rd p)"
| "outcome_fits profile OMret \<longleftrightarrow> profile \<noteq> M1"
| "outcome_fits profile OSret \<longleftrightarrow> profile = M3"

interpretation scoutcome: snap_codec "outcome_fits profile" write_outcome "read_outcome profile" for profile
proof unfold_locales
  fix v rest
  assume "outcome_fits profile v"
  then show "read_outcome profile (write_outcome v @ rest) = Ok (v, rest)"
    by (cases "(profile, v)" rule: outcome_fits.cases)
      (simp_all add: read_outcome_def read_pending_csr_def snap_bind sccause.bind_enc scop.bind_enc screg.bind_enc screg_write.bind_enc)
qed

interpretation sctrap: snap_codec "\<lambda>t. rt_cause t \<in> set (causes profile)"
    "\<lambda>t. write_cause (rt_cause t) @ w_u32 (rt_pc t) @ w_u32 (rt_tval t)" "read_trap profile" for profile
  by unfold_locales (simp add: read_trap_def snap_bind sccause.bind_enc)

definition walk_record :: "Walk \<Rightarrow> WalkRecord" where
  "walk_record walk = \<lparr>wr_data = (case wk_purpose walk of PurposeFetch \<Rightarrow> None | PurposeData insn _ \<Rightarrow> Some insn),
     wr_level = wk_level walk, wr_table = wk_table walk\<rparr>"

fun record_of :: "State \<Rightarrow> StateRecord" where
  "record_of (FetchIssue pa) = RecFetchIssue pa"
| "record_of (FetchWait txn pa) = RecFetchWait txn pa"
| "record_of (MemIssue insn _ pa) = RecMemIssue insn pa"
| "record_of (MemWait txn insn _ pa) = RecMemWait txn insn pa"
| "record_of (WalkIssue walk) = RecWalkIssue (walk_record walk)"
| "record_of (WalkWait txn walk) = RecWalkWait txn (walk_record walk)"
| "record_of (CommitPending insn outcome pa) = RecCommitPending insn outcome pa"
| "record_of (Halted (HaltTrap t)) = RecTrap t"
| "record_of (Halted InstructionLimit) = RecInstructionLimit"

text \<open>The states whose fields fit their widths in a profile.\<close>

fun state_fits :: "Rv32iProfile \<Rightarrow> State \<Rightarrow> bool" where
  "state_fits profile (FetchIssue pa) \<longleftrightarrow> pred_option (\<lambda>p. p < 256 ^ 8) pa"
| "state_fits profile (FetchWait txn pa) \<longleftrightarrow> txn < 256 ^ 8 \<and> pred_option (\<lambda>p. p < 256 ^ 8) pa"
| "state_fits profile (MemIssue insn _ pa) \<longleftrightarrow> pred_option (\<lambda>p. p < 256 ^ 8) pa"
| "state_fits profile (MemWait txn insn _ pa) \<longleftrightarrow> txn < 256 ^ 8 \<and> pred_option (\<lambda>p. p < 256 ^ 8) pa"
| "state_fits profile (WalkIssue walk) \<longleftrightarrow> wk_level walk \<le> 1"
| "state_fits profile (WalkWait txn walk) \<longleftrightarrow> txn < 256 ^ 8 \<and> wk_level walk \<le> 1"
| "state_fits profile (CommitPending insn outcome pa) \<longleftrightarrow> outcome_fits profile outcome \<and> pred_option (\<lambda>p. p < 256 ^ 8) pa"
| "state_fits profile (Halted (HaltTrap t)) \<longleftrightarrow> rt_cause t \<in> set (causes profile)"
| "state_fits profile (Halted InstructionLimit) \<longleftrightarrow> True"

lemma read_walk_enc: "wk_level walk \<le> 1 \<Longrightarrow> read_walk (write_walk walk @ rest) = Ok (walk_record walk, rest)"
proof -
  assume "wk_level walk \<le> 1"
  then have "wk_level walk = 0 \<or> wk_level walk = 1" by auto
  then show ?thesis
    by (cases "wk_purpose walk") (auto simp: read_walk_def write_walk_def write_purpose_def read_walk_purpose_def walk_record_def rd_bind_def
        sc8.dec_enc sc32.dec_enc)
qed

lemma read_walk_bind: "wk_level walk \<le> 1 \<Longrightarrow> rd_bind read_walk f (write_walk walk @ rest) = f (walk_record walk) rest"
  by (simp add: read_walk_enc)

lemma decode_state_enc:
  assumes "state_fits M3 st"
  shows "decode_state_m3 (write_state True st @ rest) = Ok (record_of st, rest)"
  using assms
  by (cases "(M3, st)" rule: state_fits.cases)
    (simp_all add: decode_state_m3_def snap_bind scpa.bind_enc scpa.dec_enc scinsn.bind_enc scoutcome.bind_enc
      sctrap.bind_enc [simplified] read_walk_bind)


lemma stored_registers_Suc: "stored_registers = map (\<lambda>i. Reg (of_nat (Suc i))) [0..<31]"
  unfolding stored_registers_def by (simp add: upt_rec)

lemma write_registers_wf:
  assumes "wf_regfile regs"
  shows "write_registers regs = concat (map w_u32 (xregs regs))"
proof -
  have len: "length (xregs regs) = 31" using assms by (simp add: wf_regfile_def)
  have "regfile_read regs (Reg (of_nat (Suc i))) = Some (xregs regs ! i)" if "i < 31" for i
  proof -
    have "unat (of_nat (Suc i) :: u8) = Suc i" using that by (subst unat_of_nat) simp
    then show ?thesis using that len by (simp add: regfile_read_def del: of_nat_Suc)
  qed
  then have "write_registers regs = concat (map (\<lambda>i. w_u32 (xregs regs ! i)) [0..<31])"
    unfolding write_registers_def stored_registers_Suc map_map o_def
    by (intro arg_cong [where f = concat] map_cong refl) (simp del: of_nat_Suc)
  also have "\<dots> = concat (map w_u32 (map ((!) (xregs regs)) [0..<length (xregs regs)]))" by (simp add: len o_def)
  finally show ?thesis by (simp only: map_nth)
qed

lemma read_registers_from:
  assumes "length xs = 31" "k \<le> 31" and "length (xregs f) = 31"
  shows "read_registers (map (\<lambda>i. Reg (of_nat (Suc i))) [k..<31]) f (concat (map w_u32 (drop k xs)) @ rest) =
      Ok (f\<lparr>xregs := take k (xregs f) @ drop k xs\<rparr>, rest)"
  using assms(2,3)
proof (induction "31 - k" arbitrary: k f)
  case 0
  then show ?case using assms(1) by simp
next
  case (Suc n)
  then have k: "k < 31" by simp
  have u: "unat (of_nat (Suc k) :: u8) = Suc k" using k by (subst unat_of_nat) simp
  let ?f = "f\<lparr>xregs := (xregs f)[k := xs ! k]\<rparr>"
  have wr: "regfile_write f (Reg (of_nat (Suc k))) (xs ! k) = Some ?f"
    using k u Suc.prems by (simp add: regfile_write_def del: of_nat_Suc)
  have step: "[k..<31] = k # [Suc k..<31]" "drop k xs = xs ! k # drop (Suc k) xs"
    using k assms(1) by (simp_all add: upt_conv_Cons Cons_nth_drop_Suc)
  have IH: "read_registers (map (\<lambda>i. Reg (of_nat (Suc i))) [Suc k..<31]) ?f (concat (map w_u32 (drop (Suc k) xs)) @ rest) =
      Ok (?f\<lparr>xregs := take (Suc k) (xregs ?f) @ drop (Suc k) xs\<rparr>, rest)"
    using Suc k by (intro Suc.hyps(1)) simp_all
  have "take (Suc k) ((xregs f)[k := xs ! k]) = take k (xregs f) @ [xs ! k]"
    using k Suc.prems by (simp add: take_Suc_conv_app_nth)
  then show ?case
    using IH wr by (simp add: step snap_bind del: of_nat_Suc)
qed

lemma read_registers_enc:
  assumes "wf_regfile regs"
  shows "rd_bind (read_registers stored_registers RegisterFile_new) g (write_registers regs @ rest) = g regs rest"
proof -
  have "read_registers stored_registers RegisterFile_new (write_registers regs @ rest) = Ok (regs, rest)"
    using read_registers_from [of "xregs regs" 0 RegisterFile_new rest] assms wf_RegisterFile_new
    by (simp add: write_registers_wf stored_registers_Suc wf_regfile_def del: of_nat_Suc)
  then show ?thesis by simp
qed

lemma read_csrs_raw_enc: "rd_bind read_csrs_raw g (write_csrs m @ rest) = g m rest"
proof -
  have "read_csrs_raw (write_csrs m @ rest) = Ok (m, rest)"
    by (simp add: read_csrs_raw_def write_csrs_def scflag.bind_enc snap_bind)
  then show ?thesis by simp
qed

lemma read_csrs_enc: "csr_ok m \<Longrightarrow> rd_bind read_csrs g (write_csrs m @ rest) = g m rest"
proof -
  assume "csr_ok m"
  then have "read_csrs (write_csrs m @ rest) = Ok (m, rest)"
    by (simp add: read_csrs_def write_csrs_def scflag.bind_enc snap_bind aligned_word_def csr_ok_def aligned4_def rd_bind_def sc32.dec_enc scflag.dec_enc)
  then show ?thesis by simp
qed

definition m3_raw :: "M3State \<Rightarrow> M3Raw" where
  "m3_raw s = \<lparr>mr_mode = Privilege_bits (privilege s), mr_sie = s_sie s, mr_spie = s_spie s, mr_spp = Spp_bits (s_spp s),
     mr_mpp = Privilege_bits (s_mpp s), mr_sum = s_sum s, mr_mxr = s_mxr s, mr_medeleg = s_medeleg s, mr_stvec = s_stvec s,
     mr_sscratch = s_sscratch s, mr_sepc = s_sepc s, mr_scause = s_scause s, mr_stval = s_stval s, mr_satp = s_satp s\<rparr>"

lemma read_m3_raw_enc: "rd_bind read_m3_raw g (write_m3 s @ rest) = g (m3_raw s) rest"
proof -
  have "read_m3_raw (write_m3 s @ rest) = Ok (m3_raw s, rest)"
    by (simp add: read_m3_raw_def write_m3_def m3_raw_def scflag.bind_enc snap_bind)
  then show ?thesis by simp
qed

lemma validate_m3_raw: "m3_ok s \<Longrightarrow> validate_m3 (m3_raw s) = Ok s"
  by (cases "privilege s"; cases "s_mpp s"; cases "s_spp s")
    (simp_all add: validate_m3_def m3_raw_def m3_ok_def aligned4_def Privilege_from_bits_def Spp_from_bits_def ok_or_def)


subsection \<open>The checks, as conditions on the state\<close>

lemma val_translated_Ok: "val_translated tr pa va = Ok pa' \<longleftrightarrow> pa' = pa \<and> pa_exact tr pa va"
  by (auto simp: val_translated_def pa_exact_def split: option.splits)

lemma val_outstanding_Ok: "val_outstanding nxt txn = Ok txn' \<longleftrightarrow> txn' = txn \<and> nxt = txn + 1"
  by (auto simp: val_outstanding_def)

lemma val_memory_Ok: "val_memory isa pc regs insn = Ok plan \<longleftrightarrow> cpu_step isa insn pc regs = Some (StepMemory plan)"
  by (auto simp: val_memory_def split: option.splits Step.splits)

lemma val_pending_Ok:
  "val_pending s pc regs insn outcome pa = Ok st \<longleftrightarrow>
     st = CommitPending insn outcome pa \<and> pending_exact (IsaM3 (privilege s)) (translates s) pc regs insn outcome pa"
proof -
  have access: "(case (Option.bind insn (\<lambda>w. cpu_step isa w pc regs), outcome) of
        (Some (StepMemory plan), OExec (Effect _)) \<Rightarrow> val_translated tr pa (plan_addr plan)
      | _ \<Rightarrow> if pa \<noteq> None then Err e else Ok None) =
      (case retiring_access isa pc regs insn outcome of Some plan \<Rightarrow> val_translated tr pa (plan_addr plan)
        | None \<Rightarrow> if pa \<noteq> None then Err e else Ok None)" for isa tr e
    by (auto simp: retiring_access_def split: option.splits Step.splits Outcome.splits ExecOutcome.splits)
  show ?thesis
    unfolding val_pending_def Let_def access pending_exact_def
    by (auto simp: val_translated_Ok split: option.splits if_splits)
qed

lemma val_walk_Ok:
  "val_walk s pc regs rec = Ok walk \<longleftrightarrow> rec = walk_record walk \<and> translates s \<and> wk_level walk \<le> 1
     \<and> wk_table walk AND NOT SATP_PPN = 0 \<and> (wk_level walk = 1 \<longrightarrow> wk_table walk = M3_root s)
     \<and> (case wk_purpose walk of PurposeFetch \<Rightarrow> True
        | PurposeData insn plan \<Rightarrow> cpu_step (IsaM3 (privilege s)) insn pc regs = Some (StepMemory plan))"
  by (cases rec; cases walk) (auto simp: val_walk_def walk_record_def val_memory_Ok split: option.splits if_splits Purpose.splits)

lemma val_trap_Ok:
  "val_trap s pc t = Ok st \<longleftrightarrow> st = Halted (HaltTrap t) \<and> rt_pc t = pc \<and> trap_fits (IsaM3 (privilege s)) (translates s) (rt_cause t)
     \<and> \<not> delegates s (rt_cause t)"
  by (auto simp: val_trap_def trap_fits_def)

lemma m3_views: "cfg_profile (config c) = M3 \<Longrightarrow> cpu_isa c = IsaM3 (privilege (m3 c)) \<and> translating c = translates (m3 c)"
  by (simp add: cpu_isa_def translating_def)

lemma base_views: "cfg_profile (config c) \<noteq> M3 \<Longrightarrow> \<not> translating c"
  by (simp add: translating_def)

lemma validate_state_Ok:
  assumes "cfg_profile (config c) = M3"
  shows "validate_state_m3 rec (m3 c) (cpu_pc c) (cpu_regs c) (next_txn c) = Ok st \<longleftrightarrow> rec = record_of st \<and> state_exact c st"
  using m3_views [OF assms] assms
  by (cases rec; cases st)
    (auto simp: val_translated_Ok val_outstanding_Ok val_memory_Ok val_pending_Ok val_walk_Ok val_trap_Ok data_ok_def walk_ok_def
      split: Halt.splits Purpose.splits)

lemma read_cause_listed: "read_cause profile bs = Ok (cause, rest) \<Longrightarrow> cause \<in> set (causes profile)"
  by (auto simp: read_cause_def read_code_def rd_bind_Ok_iff mem_bad_tag_def split: if_splits)

lemma listed_trap_fits:
  assumes "cfg_profile (config c) \<noteq> M3" "cause \<in> set (causes (cfg_profile (config c)))"
  shows "trap_fits (cpu_isa c) False cause"
  using assms by (auto simp: causes_def CAUSES_def cpu_isa_def trap_fits_def page_fault_def is_ecall_def split: Rv32iProfile.splits)

lemma check_pending_Ok:
  "check_pending isa tr insn outcome pc regs bs = Ok (u, rest) \<longleftrightarrow> consistent isa tr insn outcome pc regs = Some True \<and> rest = bs"
  by (auto simp: check_pending_def split: option.splits if_splits)

lemma pending_plain: "consistent isa False insn outcome pc regs = Some True \<Longrightarrow> pending_exact isa False pc regs insn outcome None"
  by (simp add: pending_exact_def pa_exact_def split: option.splits)

lemma read_state_exact:
  assumes "cfg_profile (config c) \<noteq> M3"
    and "read_state (cfg_profile (config c)) (cpu_isa c) (cpu_pc c) (cpu_regs c) (next_txn c) bs = Ok (st, rest)"
  shows "state_exact c st"
proof -
  have fits: "trap_fits (cpu_isa c) False (rt_cause t)" if "read_trap (cfg_profile (config c)) bs = Ok (t, rest)" for t bs rest
    using that listed_trap_fits [OF assms(1)] by (auto simp: read_trap_def rd_bind_Ok_iff dest: read_cause_listed)
  note views = base_views [OF assms(1)]
  obtain t bs1 where t: "r_u8 bs = Ok (t, bs1)"
    using assms(2) unfolding read_state_def rd_bind_Ok_iff by blast
  note read = assms(2) [unfolded read_state_def rd_bind_Ok [where m = r_u8 and bs = bs, OF t]]
  consider "t = 0" | "t = 1" | "t = 2" | "t = 3" | "t = 4" | "t = 5" | "t \<notin> {0, 1, 2, 3, 4, 5}" by blast
  then show ?thesis
  proof cases
    case 1
    with read views show ?thesis by (auto simp: pa_exact_def)
  next
    case 2
    with read views show ?thesis by (auto simp: rd_bind_Ok_iff of_reader_Ok val_outstanding_Ok pa_exact_def)
  next
    case 3
    with read views show ?thesis by (auto simp: rd_bind_Ok_iff of_reader_Ok val_memory_Ok data_ok_def pa_exact_def)
  next
    case 4
    with read views show ?thesis by (auto simp: rd_bind_Ok_iff of_reader_Ok val_outstanding_Ok val_memory_Ok data_ok_def pa_exact_def)
  next
    case 5
    with read views show ?thesis by (auto simp: rd_bind_Ok_iff check_pending_Ok intro: pending_plain)
  next
    case 6
    with read views assms(1) show ?thesis by (auto simp: rd_bind_Ok_iff mem_bad_tag_def split: if_splits dest: fits)
  next
    case 7
    with read show ?thesis by (simp add: mem_bad_tag_def)
  qed
qed

lemma trap_listed:
  assumes "trap_fits (cpu_isa c) (translating c) cause"
  shows "cause \<in> set (causes (cfg_profile (config c)))"
  using assms by (cases "cfg_profile (config c)"; cases cause)
    (auto simp: trap_fits_def page_fault_def is_ecall_def causes_def CAUSES_def CAUSES_M3_def cpu_isa_def translating_def)

lemma exact_outcome_fits:
  assumes "arch_ok c" and "consistent (cpu_isa c) (translating c) insn outcome (cpu_pc c) (cpu_regs c) = Some True"
  shows "outcome_fits (cfg_profile (config c)) outcome"
proof (cases "\<exists>t. outcome = OExec (Trap t)")
  case True
  then show ?thesis using consistent_trap_fits assms(2) trap_listed by auto
next
  case False
  have "outcome_ok (cpu_isa c) outcome" using consistent_outcome_ok [OF _ _ assms(2)] assms(1) by (simp add: arch_ok_def)
  with False show ?thesis
    by (cases "(cpu_isa c, outcome)" rule: outcome_ok.cases)
      (auto simp: cpu_isa_def split: Rv32iProfile.splits option.splits)
qed

lemma pa_exact_fits: "pa_exact tr pa va \<Longrightarrow> pred_option (\<lambda>p. p < 256 ^ 8) pa"
proof (cases pa)
  case (Some p)
  assume "pa_exact tr pa va"
  with Some have "drop_bit 34 p = 0" by (simp add: pa_exact_def PA_BITS_def)
  then have "p < 2 ^ 34" by (simp add: drop_bit_eq_div div_eq_0_iff)
  with Some show ?thesis by simp
qed simp

lemma exact_fits:
  assumes "cpu_exact c"
  shows "state_fits (cfg_profile (config c)) (cpu_state c)"
proof -
  have txn: "next_txn c < 256 ^ 8" using assms by (simp add: cpu_exact_def settled_exact_def u64_width)
  have arch: "arch_ok c" "state_exact c (cpu_state c)" using assms by (auto simp: cpu_exact_def settled_exact_def)
  from arch(2) show ?thesis
    using txn trap_listed [of c] exact_outcome_fits [OF arch(1)] pa_exact_fits
    by (cases "(cfg_profile (config c), cpu_state c)" rule: state_fits.cases)
      (auto simp: walk_ok_def pending_exact_def split: option.splits)
qed


lemma read_state_enc:
  assumes "cpu_exact c" "cfg_profile (config c) \<noteq> M3"
  shows "rd_bind (read_state (cfg_profile (config c)) (cpu_isa c) (cpu_pc c) (cpu_regs c) (next_txn c)) g (write_state False (cpu_state c) @ rest)
    = g (cpu_state c) rest"
proof -
  have st: "state_exact c (cpu_state c)" "state_fits (cfg_profile (config c)) (cpu_state c)"
    using assms(1) exact_fits by (auto simp: cpu_exact_def settled_exact_def)
  have no: "\<not> translating c" by (rule base_views [OF assms(2)])
  then have none: "pa_exact (translating c) pa va \<Longrightarrow> pa = None" for pa va by (auto simp: pa_exact_def split: option.splits)
  have "read_state (cfg_profile (config c)) (cpu_isa c) (cpu_pc c) (cpu_regs c) (next_txn c) (write_state False (cpu_state c) @ rest) = Ok (cpu_state c, rest)"
  proof (cases "cpu_state c")
    case (CommitPending insn outcome pa)
    with st none have "pa = None" by (auto simp: pending_exact_def split: option.splits)
    with CommitPending st no show ?thesis
      by (simp add: read_state_def snap_bind scinsn.bind_enc scoutcome.bind_enc rd_bind_def check_pending_def pending_exact_def
          sc8.dec_enc scinsn.dec_enc scoutcome.dec_enc)
  next
    case (Halted h)
    show ?thesis
    proof (cases h)
      case (HaltTrap t)
      have dec: "rd_bind (read_trap (cfg_profile (config c))) g (write_cause (rt_cause t) @ w_u32 (rt_pc t) @ w_u32 (rt_tval t) @ r) = g t r" for g r
        using sctrap.bind_enc [of t "cfg_profile (config c)" g r] st(2) Halted HaltTrap by simp
      have "read_state (cfg_profile (config c)) (cpu_isa c) (cpu_pc c) (cpu_regs c) (next_txn c) (write_state False (Halted (HaltTrap t)) @ rest)
          = (if rt_pc t \<noteq> cpu_pc c then invalid ''rv32 cpu: trap pc is not the architectural pc'' else rd_return (Halted (HaltTrap t))) rest"
        by (simp add: read_state_def snap_bind dec del: if_split)
      then show ?thesis using st(1) Halted HaltTrap by simp
    next
      case InstructionLimit
      with Halted show ?thesis by (simp add: read_state_def snap_bind)
    qed
  qed (use st no none in \<open>auto simp: read_state_def snap_bind rd_bind_def of_reader_def val_outstanding_def val_memory_def data_ok_def walk_ok_def
      sc8.dec_enc sc32.dec_enc sc64.dec_enc\<close>)
  then show ?thesis by simp
qed

text \<open>What a restored CPU holds, before its checks are looked at.\<close>

lemma read_registers_wf:
  "read_registers rs regs bs = Ok (regs', rest) \<Longrightarrow> wf_regfile regs \<Longrightarrow> wf_regfile regs'"
  by (induction rs arbitrary: regs bs)
    (auto simp: rd_bind_Ok_iff wf_regfile_def regfile_write_def split: option.splits nat.splits if_splits)

lemma read_csrs_ok: "read_csrs bs = Ok (m, rest) \<Longrightarrow> csr_ok m"
  by (auto simp: read_csrs_def aligned_word_def rd_bind_Ok_iff csr_ok_def aligned4_def split: if_splits)

lemma validate_m3_ok: "validate_m3 raw = Ok s \<Longrightarrow> m3_ok s"
  by (auto simp: validate_m3_def m3_ok_def aligned4_def split: if_splits)

subsection \<open>Properties\<close>

lemma restore_written:
  assumes ex: "cpu_exact c" and arch: "arch_ok c0" "config c0 = config c"
  shows "cpu_restore c0 (snapshot_schema_version (cfg_profile (config c))) (cpu_snapshot c @ rest) = Ok (c, rest)"
proof -
  have ok: "wf_regfile (cpu_regs c)" "4 dvd unat (cpu_pc c)" "csr_ok (csrs c)" "m3_ok (m3 c)"
    "cfg_profile (config c) \<noteq> M3 \<longrightarrow> m3 c = m3 c0" "cfg_profile (config c) = M1 \<longrightarrow> csrs c = CsrFile_new"
    using ex arch by (auto simp: cpu_exact_def arch_ok_def aligned4_dvd)
  have count: "consistent_count (cfg_max_instructions (config c)) (instret c) (cpu_state c)" and nums: "next_txn c \<le> u64_max"
      "cfg_max_instructions (config c) \<le> u64_max"
    using ex by (auto simp: cpu_exact_def settled_exact_def arch_ok_def)
  have "instret c \<le> cfg_max_instructions (config c)"
    using count by (cases "cpu_state c") (auto simp: consistent_count_def split: Halt.splits)
  with nums have bounds: "next_txn c < 256 ^ 8" "instret c < 256 ^ 8"
    unfolding u64_width [symmetric] by simp_all
  note reads = snap_bind read_registers_enc [OF ok(1)]
  have all: "c0\<lparr>cpu_pc := cpu_pc c, cpu_regs := cpu_regs c, instret := instret c, next_txn := next_txn c, cpu_state := cpu_state c,
      csrs := csrs c, m3 := m3 c\<rparr> = c" using arch(2) by (cases c; cases c0) simp
  show ?thesis
  proof (cases "cfg_profile (config c) = M3")
    case True
    have "validate_restored c0 True (cpu_pc c) (cpu_regs c) (instret c) (next_txn c) (record_of (cpu_state c)) (csrs c) (m3_raw (m3 c)) = Ok c"
      using ok count ex validate_state_Ok [OF True, of "record_of (cpu_state c)" "cpu_state c"] arch(2)
      by (simp add: validate_restored_def validate_m3_raw csr_ok_def aligned4_def cpu_exact_def settled_exact_def all)
    moreover have "decode_state_m3 (write_state True (cpu_state c) @ r) = Ok (record_of (cpu_state c), r)" for r
      using decode_state_enc exact_fits [OF ex] True by simp
    ultimately show ?thesis
      using True arch(2) bounds count
      by (simp add: cpu_restore_def restore_m3_def cpu_snapshot_def rd_bind_Ok [where m = "r_raw n" for n] reads read_csrs_raw_enc read_m3_raw_enc)
  next
    case False
    have isa: "cpu_isa c = (case cfg_profile (config c) of M1 \<Rightarrow> IsaM1 | _ \<Rightarrow> IsaM2)"
      using False by (simp add: cpu_isa_def split: Rv32iProfile.split)
    have same: "c0\<lparr>cpu_pc := cpu_pc c, cpu_regs := cpu_regs c, instret := instret c, next_txn := next_txn c, cpu_state := cpu_state c,
        csrs := csrs c\<rparr> = c" using arch(2) ok(5) False by (cases c; cases c0) simp
    have "restore_m1_m2 c0 (cpu_isa c) (cpu_snapshot c @ rest) =
        rd_bind (if cfg_profile (config c) = M1 then rd_return CsrFile_new else read_csrs)
          (\<lambda>m. rd_return (c0\<lparr>cpu_pc := cpu_pc c, cpu_regs := cpu_regs c, instret := instret c, next_txn := next_txn c,
             cpu_state := cpu_state c, csrs := m\<rparr>)) ((if cfg_profile (config c) \<noteq> M1 then write_csrs (csrs c) else []) @ rest)"
      using False ok(2) bounds count arch(2)
      by (simp add: restore_m1_m2_def cpu_snapshot_def reads read_state_enc [OF ex False] del: if_split)
    also have "\<dots> = Ok (c, rest)"
      using ok(6) same by (cases "cfg_profile (config c) = M1") (auto simp: read_csrs_enc [OF ok(3)])
    finally have "restore_m1_m2 c0 (cpu_isa c) (cpu_snapshot c @ rest) = Ok (c, rest)" .
    with False isa arch(2) show ?thesis
      by (cases "cfg_profile (config c)") (simp_all add: cpu_restore_def)
  qed
qed


lemma restore_exact:
  assumes "arch_ok c0" and "cpu_restore c0 schema bytes = Ok (c, rest)"
  shows "cpu_exact c \<and> config c = config c0"
proof -
  have arch: "cfg_max_instructions (config c0) \<le> u64_max" "cfg_profile (config c0) \<noteq> M3 \<longrightarrow> m3 c0 = M3State_new"
    using assms(1) by (auto simp: arch_ok_def)
  have pick: "cpu_restore c0 schema bytes = (case cfg_profile (config c0) of M3 \<Rightarrow> restore_m3 c0 | M1 \<Rightarrow> restore_m1_m2 c0 IsaM1 | M2 \<Rightarrow> restore_m1_m2 c0 IsaM2) bytes"
    using assms(2) by (auto simp: cpu_restore_def split: if_splits)
  show ?thesis
  proof (cases "cfg_profile (config c0) = M3")
    case True
    have "restore_m3 c0 bytes = Ok (c, rest)" using pick assms(2) True by simp
    then obtain cfg pc regs count nxt rec m raw bs1 bs2 bs3 bs4 bs5 where
      regs: "read_registers stored_registers RegisterFile_new bs1 = Ok (regs, bs2)" and nxt: "r_u64 bs3 = Ok (nxt, bs4)"
      and val: "validate_restored c0 (cfg = cpu_write_config (config c0)) pc regs count nxt rec m raw = Ok c"
      by (auto simp: restore_m3_def rd_bind_Ok_iff of_reader_Ok)
    have wf: "wf_regfile regs" by (rule read_registers_wf [OF regs wf_RegisterFile_new])
    from val obtain s st where s: "validate_m3 raw = Ok s" and st: "validate_state_m3 rec s pc regs nxt = Ok st"
      and c: "c = c0\<lparr>cpu_pc := pc, cpu_regs := regs, instret := count, next_txn := nxt, cpu_state := st, csrs := m, m3 := s\<rparr>"
      and ok: "4 dvd unat pc" "c_mtvec m AND 0x3 = 0" "c_mepc m AND 0x3 = 0"
        "consistent_count (cfg_max_instructions (config c0)) count st"
      by (auto simp: validate_restored_def split: if_splits)
    have "state_exact c st"
      using validate_state_Ok [of c rec st] True st by (simp add: c)
    moreover have "arch_ok c"
      using arch True wf ok validate_m3_ok [OF s] by (simp add: c arch_ok_def csr_ok_def aligned4_dvd aligned4_def [symmetric])
    ultimately show ?thesis using ok(4) r_u64_bound [OF nxt] by (simp add: c cpu_exact_def settled_exact_def)
  next
    case False
    define isa where "isa = (if cfg_profile (config c0) = M1 then IsaM1 else IsaM2)"
    have run: "restore_m1_m2 c0 isa bytes = Ok (c, rest)"
      using pick assms(2) False by (cases "cfg_profile (config c0)") (simp_all add: isa_def)
    then obtain pc regs count nxt st m bs1 bs2 bs3 bs4 bs5 bs6 where
      regs: "read_registers stored_registers RegisterFile_new bs1 = Ok (regs, bs2)" and nxt: "r_u64 bs3 = Ok (nxt, bs4)"
      and st: "read_state (cfg_profile (config c0)) isa pc regs nxt bs4 = Ok (st, bs5)"
      and m: "(if cfg_profile (config c0) = M1 then rd_return CsrFile_new else read_csrs) bs5 = Ok (m, bs6)"
      and c: "c = c0\<lparr>cpu_pc := pc, cpu_regs := regs, instret := count, next_txn := nxt, cpu_state := st, csrs := m\<rparr>"
      and ok: "4 dvd unat pc" "consistent_count (cfg_max_instructions (config c0)) count st"
      unfolding restore_m1_m2_def rd_bind_Ok_iff by (auto simp: rd_bind_Ok_iff simp del: r_raw_app split: if_split_asm)
    have wf: "wf_regfile regs" by (rule read_registers_wf [OF regs wf_RegisterFile_new])
    have "csr_ok m \<and> (cfg_profile (config c0) = M1 \<longrightarrow> m = CsrFile_new)" using m by (auto dest: read_csrs_ok split: if_splits)
    moreover have "cpu_isa c = isa" using False by (cases "cfg_profile (config c0)") (simp_all add: c cpu_isa_def isa_def)
    then have "state_exact c st" using read_state_exact [of c bs4 st bs5] False st by (simp add: c)
    ultimately show ?thesis
      using arch False wf ok r_u64_bound [OF nxt] by (simp add: c cpu_exact_def settled_exact_def arch_ok_def aligned4_dvd)
  qed
qed

text \<open>
  C3. The snapshot of a CPU in any state a run reaches, in each of the three profiles, restores to exactly
  that state in a CPU of the same configuration, whatever state that one is in: the plans of pending
  instructions are recomputed, and none of the checks rejects a state that can occur.
\<close>

theorem cpu_restore_snapshot:
  assumes "cpu_reaches cfg c" "cpu_reaches cfg c\<^sub>0" and "0 < cfg_max_instructions cfg" "cfg_max_instructions cfg \<le> u64_max"
  shows "cpu_restore c\<^sub>0 (snapshot_schema_version (cfg_profile cfg)) (cpu_snapshot c @ rest) = Ok (c, rest)"
proof -
  have "cpu_exact c" "config c = cfg" "arch_ok c\<^sub>0" "config c\<^sub>0 = cfg"
    using cpu_reaches_exact [OF _ assms(3,4)] assms(1,2) by (auto simp: cpu_exact_def)
  then show ?thesis using restore_written [of c "c\<^sub>0" rest] by simp
qed

text \<open>
  C4. Whatever bytes a restore accepts, the CPU has its own configuration and is in a state that satisfies
  the invariant of reachable states, with the outcome and the plan of a pending instruction those of the
  instruction, so that no later event makes it panic before the transaction counter is exhausted.
\<close>

theorem cpu_restore_sound:
  assumes "cpu_reaches cfg c\<^sub>0" and "0 < cfg_max_instructions cfg" "cfg_max_instructions cfg \<le> u64_max"
    and "cpu_restore c\<^sub>0 schema bytes = Ok (c, rest)"
  shows "config c = cfg \<and> cpu_inv c \<and> (next_txn c < u64_max \<longrightarrow> handle_event c ev ctx \<noteq> Err Panic)"
proof -
  have "arch_ok c\<^sub>0" "config c\<^sub>0 = cfg" using cpu_reaches_exact [OF assms(1-3)] by (auto simp: cpu_exact_def)
  then have c: "cpu_exact c" "config c = cfg" using restore_exact [OF _ assms(4)] by auto
  have inv: "cpu_inv c" by (rule cpu_exact_inv [OF c(1)])
  then have "next_txn c < u64_max \<Longrightarrow> handled_ok (handle_event c ev ctx)" by (simp add: handle_event_ok)
  with inv c(2) show ?thesis by (auto simp: handled_ok_def)
qed

definition tiny_cpu :: Rv32iCpu where
  "tiny_cpu = \<lparr>config = \<lparr>cfg_clock = 0, cfg_entry = 0x80000000, cfg_max_instructions = 5, cfg_profile = M3\<rparr>, cpu_pc = 0x80000000,
     cpu_regs = RegisterFile_new, instret = 0, next_txn = 0, cpu_state = FetchIssue None, csrs = CsrFile_new, m3 = M3State_new\<rparr>"

lemma tiny_cpu_reaches: "cpu_reaches (config tiny_cpu) tiny_cpu" "cpu_reaches (config tiny_cpu) (tiny_cpu\<lparr>next_txn := 1, cpu_state := FetchWait 0 None\<rparr>)"
proof -
  show start: "cpu_reaches (config tiny_cpu) tiny_cpu"
    by (rule cpu_reaches.cpu_start) (simp add: Rv32iCpu_new_def tiny_cpu_def)
  have step: "\<exists>ctx'. handle_event tiny_cpu (DWake FETCH) quiet_ctx = Ok (tiny_cpu\<lparr>next_txn := 1, cpu_state := FetchWait 0 None\<rparr>, ctx')"
    by (simp add: handle_event_def cpu_wake_def tiny_cpu_def cpu_send_def ctx_send_def ctx_effect_def quiet_ctx_def u64_max_def)
  then show "cpu_reaches (config tiny_cpu) (tiny_cpu\<lparr>next_txn := 1, cpu_state := FetchWait 0 None\<rparr>)"
    using cpu_reaches.cpu_deliver [OF start] by (auto simp: tiny_cpu_def u64_max_def)
qed

theorem cpu_restore_snapshot_witness:
  "cpu_restore tiny_cpu 3 (cpu_snapshot (tiny_cpu\<lparr>next_txn := 1, cpu_state := FetchWait 0 None\<rparr>) @ [7]) =
     Ok (tiny_cpu\<lparr>next_txn := 1, cpu_state := FetchWait 0 None\<rparr>, [7])"
  using cpu_restore_snapshot [OF tiny_cpu_reaches(2,1), of "[7]"]
  by (simp add: tiny_cpu_def u64_max_def snapshot_schema_version_def SNAPSHOT_SCHEMA_M3_def)

theorem cpu_restore_sound_witness:
  "\<exists>bytes c. cpu_restore tiny_cpu 3 bytes = Ok (c, []) \<and> cpu_inv c"
proof -
  have lim: "0 < cfg_max_instructions (config tiny_cpu)" "cfg_max_instructions (config tiny_cpu) \<le> u64_max"
    by (simp_all add: tiny_cpu_def u64_max_def)
  have "cpu_exact tiny_cpu" using cpu_reaches_exact [OF tiny_cpu_reaches(1) lim] by simp
  then have run: "cpu_restore tiny_cpu 3 (cpu_snapshot tiny_cpu @ []) = Ok (tiny_cpu, [])"
    using restore_written [of tiny_cpu tiny_cpu "[]"]
    by (simp add: cpu_exact_def tiny_cpu_def snapshot_schema_version_def SNAPSHOT_SCHEMA_M3_def)
  from cpu_restore_sound [OF tiny_cpu_reaches(1) lim run] run show ?thesis by blast
qed


end
