(* ===== verification/Rt_Scheduler.thy ===== *)
theory Rt_Scheduler
  imports Contracts "HOL-Library.Multiset"
begin

section \<open>The event scheduler\<close>

text \<open>
  Models \<^verbatim>\<open>runtime/src/scheduler.rs\<close>: the queue of pending events, scheduling under the rules S1 to S6,
  dispatch in key order, snapshot and restore. The standard library's binary heap is a bag with
  extract-min: a list of events whose order is not observable, with the operations the source uses
  (\<open>heap_push\<close>, \<open>heap_peek\<close>, \<open>heap_pop\<close>); their contract is the locale \<open>min_queue\<close>. Each operation
  returns its result and the scheduler afterwards, so that what an error leaves behind is visible.
\<close>

subsection \<open>The heap\<close>

record 'p Event =
  ev_key :: EventKey
  ev_payload :: 'p

definition heap_push :: "'p Event \<Rightarrow> 'p Event list \<Rightarrow> 'p Event list" where
  "heap_push e h = h @ [e]"

fun heap_pop :: "'p Event list \<Rightarrow> ('p Event \<times> 'p Event list) option" where
  "heap_pop [] = None"
| "heap_pop (e # es) =
     (case heap_pop es of
        None \<Rightarrow> Some (e, [])
      | Some (m, rest) \<Rightarrow> if ev_key e \<le> ev_key m then Some (e, es) else Some (m, e # rest))"

definition heap_peek :: "'p Event list \<Rightarrow> EventKey option" where
  "heap_peek h = map_option (\<lambda>(e, _). ev_key e) (heap_pop h)"

text \<open>The contract of a queue that hands out a least element.\<close>

locale min_queue =
  fixes bag :: "'q \<Rightarrow> 'e multiset"
    and push :: "'e \<Rightarrow> 'q \<Rightarrow> 'q"
    and pop_min :: "'q \<Rightarrow> ('e \<times> 'q) option"
    and key :: "'e \<Rightarrow> 'k::linorder"
  assumes bag_push: "bag (push e q) = add_mset e (bag q)"
    and pop_None: "pop_min q = None \<longleftrightarrow> bag q = {#}"
    and pop_bag: "pop_min q = Some (e, q') \<Longrightarrow> bag q = add_mset e (bag q')"
    and pop_least: "pop_min q = Some (e, q') \<Longrightarrow> d \<in># bag q \<Longrightarrow> key e \<le> key d"
begin

text \<open>With distinct keys the queue is determined by its bag: two queues with the same bag hand out
  the same element and keep the same bag.\<close>

lemma pop_deterministic:
  assumes "inj_on key (set_mset (bag q))" and "bag q = bag r"
    and "pop_min q = Some (e, q')" "pop_min r = Some (d, r')"
  shows "e = d \<and> bag q' = bag r'"
proof -
  have "e \<in># bag q" "d \<in># bag q"
    using pop_bag [OF assms(3)] pop_bag [OF assms(4)] assms(2) by (metis union_single_eq_member)+
  moreover have "key e \<le> key d" "key d \<le> key e"
    using pop_least [OF assms(3)] pop_least [OF assms(4)] \<open>e \<in># bag q\<close> \<open>d \<in># bag q\<close> assms(2) by auto
  ultimately have "e = d" using assms(1) by (auto simp: inj_on_def)
  with pop_bag [OF assms(3)] pop_bag [OF assms(4)] assms(2) show ?thesis by auto
qed

lemma pop_remaining_greater:
  assumes "inj_on key (set_mset (bag q))" and "pop_min q = Some (e, q')" and "d \<in># bag q'"
    and "e \<notin># bag q'"
  shows "key e < key d"
proof -
  have "d \<in># bag q" "e \<in># bag q" "d \<noteq> e" using pop_bag [OF assms(2)] assms(3,4) by auto
  then show ?thesis using pop_least [OF assms(2)] assms(1) by (fastforce simp: inj_on_def less_le)
qed

end

lemma heap_pop_None [simp]: "heap_pop h = None \<longleftrightarrow> h = []"
  by (cases h) (auto split: option.splits)

lemma heap_pop_bag: "heap_pop h = Some (e, h') \<Longrightarrow> mset h = add_mset e (mset h')"
proof (induction h arbitrary: e h')
  case (Cons d es)
  show ?case
  proof (cases "heap_pop es")
    case None
    with Cons.prems show ?thesis by auto
  next
    case (Some r)
    then obtain m rest where r: "heap_pop es = Some (m, rest)" by (cases r) auto
    with Cons.IH have "mset es = add_mset m (mset rest)" by simp
    with r Cons.prems show ?thesis by (auto split: if_splits)
  qed
qed simp

lemma heap_pop_least: "heap_pop h = Some (e, h') \<Longrightarrow> d \<in> set h \<Longrightarrow> ev_key e \<le> ev_key d"
proof (induction h arbitrary: e h')
  case (Cons c es)
  show ?case
  proof (cases "heap_pop es")
    case None
    with Cons.prems show ?thesis by auto
  next
    case (Some r)
    then obtain m rest where r: "heap_pop es = Some (m, rest)" by (cases r) auto
    show ?thesis
    proof (cases "d \<in> set es")
      case True
      with Cons.IH [OF r] have "ev_key m \<le> ev_key d" by simp
      with r Cons.prems show ?thesis by (auto split: if_splits)
    next
      case False
      with r Cons.prems show ?thesis by (auto split: if_splits)
    qed
  qed
qed simp

interpretation heap: min_queue mset heap_push heap_pop ev_key
proof unfold_locales
  show "ev_key e \<le> ev_key d" if "heap_pop q = Some (e, q')" "d \<in># mset q" for q e q' and d :: "'p Event"
    using that heap_pop_least by simp
qed (auto simp: heap_push_def heap_pop_bag)

lemma heap_peek_pop:
  "heap_peek h = Some k \<longleftrightarrow> (\<exists>e h'. heap_pop h = Some (e, h') \<and> ev_key e = k)"
  "heap_peek h = None \<longleftrightarrow> h = []"
  by (auto simp: heap_peek_def)

subsection \<open>The scheduler\<close>

record SchedulerConfig =
  max_events_per_phase :: u64

definition SchedulerConfig_default :: SchedulerConfig where
  "SchedulerConfig_default = \<lparr>max_events_per_phase = 1000000\<rparr>"

record 'p SchedulerSnapshot =
  snap_last_dispatched :: "EventKey option"
  snap_dispatched_in_phase :: u64
  snap_next_sequence :: u64
  snap_queue :: "'p Event list"

datatype SchedulerRestoreError =
    DuplicateSequence u64
  | SequenceNotYetAssigned u64
  | EventBeforeCursor EventKey
  | ObservePhaseEvent EventKey
  | InvalidPhaseCount u64

record 'p Scheduler =
  sch_config :: SchedulerConfig
  last_dispatched :: "EventKey option"
  dispatched_in_phase :: u64
  next_sequence :: u64
  sch_heap :: "'p Event list"

definition Scheduler_new :: "SchedulerConfig \<Rightarrow> 'p Scheduler" where
  "Scheduler_new config = \<lparr>sch_config = config, last_dispatched = None, dispatched_in_phase = 0,
     next_sequence = 0, sch_heap = []\<rparr>"

definition sched_now :: "'p Scheduler \<Rightarrow> Tick" where
  "sched_now s = (case last_dispatched s of None \<Rightarrow> 0 | Some k \<Rightarrow> key_tick k)"

definition sched_phase :: "'p Scheduler \<Rightarrow> Phase" where
  "sched_phase s = (case last_dispatched s of None \<Rightarrow> PhRequest | Some k \<Rightarrow> key_phase k)"

definition sched_peek_key :: "'p Scheduler \<Rightarrow> EventKey option" where
  "sched_peek_key s = heap_peek (sch_heap s)"

definition schedule :: "'p Scheduler \<Rightarrow> Tick \<Rightarrow> Phase \<Rightarrow> 'p \<Rightarrow> (EventKey, SimError) result \<times> 'p Scheduler" where
  "schedule s tick phase payload =
     (let now = sched_now s; current = sched_phase s;
          violation = PhaseViolation now current tick phase
      in if phase = PhObserve then (Err violation, s)
         else if tick < now then (Err (PastTick now tick), s)
         else if tick = now \<and> phase < current then (Err violation, s)
         else
           (let sequence = next_sequence s in
            if sequence = u64_max then (Err SequenceOverflow, s)
            else
              (let key = EventKey tick phase sequence in
               (Ok key, s\<lparr>next_sequence := sequence + 1,
                          sch_heap := heap_push \<lparr>ev_key = key, ev_payload = payload\<rparr> (sch_heap s)\<rparr>))))"

text \<open>The count is a \<^verbatim>\<open>u64\<close>: incrementing its largest value panics.\<close>

definition sched_pop :: "'p Scheduler \<Rightarrow> ('p Event option, Abort) result \<times> 'p Scheduler" where
  "sched_pop s =
     (case sched_peek_key s of
        None \<Rightarrow> (Ok None, s)
      | Some nxt \<Rightarrow>
          (let same_phase = (case last_dispatched s of
                 None \<Rightarrow> False
               | Some k \<Rightarrow> key_tick k = key_tick nxt \<and> key_phase k = key_phase nxt)
           in if same_phase \<and> dispatched_in_phase s = u64_max then (Err Panic, s)
              else
                (let count = (if same_phase then dispatched_in_phase s + 1 else 1);
                     limit = max_events_per_phase (sch_config s)
                 in if count > limit then
                      (Err (Fault_session (SameTickLivelock (key_tick nxt) (key_phase nxt) limit)), s)
                    else
                      (case heap_pop (sch_heap s) of
                         None \<Rightarrow> (Err Panic, s)
                       | Some (event, rest) \<Rightarrow>
                           (Ok (Some event),
                            s\<lparr>last_dispatched := Some (ev_key event), dispatched_in_phase := count,
                              sch_heap := rest\<rparr>)))))"

definition sched_snapshot :: "'p Scheduler \<Rightarrow> 'p SchedulerSnapshot" where
  "sched_snapshot s = \<lparr>snap_last_dispatched = last_dispatched s,
     snap_dispatched_in_phase = dispatched_in_phase s, snap_next_sequence = next_sequence s,
     snap_queue = sort_key ev_key (sch_heap s)\<rparr>"

fun first_duplicate :: "'p Event list \<Rightarrow> u64 option" where
  "first_duplicate (a # b # es) =
     (if key_sequence (ev_key a) = key_sequence (ev_key b) then Some (key_sequence (ev_key a))
      else first_duplicate (b # es))"
| "first_duplicate _ = None"

fun check_events :: "u64 \<Rightarrow> EventKey option \<Rightarrow> 'p Event list \<Rightarrow> SchedulerRestoreError option" where
  "check_events nextseq cursor [] = None"
| "check_events nextseq cursor (e # es) =
     (let key = ev_key e in
      if key_sequence key \<ge> nextseq then Some (SequenceNotYetAssigned (key_sequence key))
      else if key_phase key = PhObserve then Some (ObservePhaseEvent key)
      else if (case cursor of None \<Rightarrow> False | Some k \<Rightarrow> key \<le> k) then Some (EventBeforeCursor key)
      else check_events nextseq cursor es)"

definition sched_restore ::
    "SchedulerConfig \<Rightarrow> 'p SchedulerSnapshot \<Rightarrow> ('p Scheduler, SchedulerRestoreError) result" where
  "sched_restore config snap =
     (let count_ok = (case snap_last_dispatched snap of
            None \<Rightarrow> snap_dispatched_in_phase snap = 0
          | Some _ \<Rightarrow> 1 \<le> snap_dispatched_in_phase snap
                     \<and> snap_dispatched_in_phase snap \<le> max_events_per_phase config)
      in if \<not> count_ok then Err (InvalidPhaseCount (snap_dispatched_in_phase snap))
         else
           (let queue = sort_key (\<lambda>e. key_sequence (ev_key e)) (snap_queue snap) in
            case first_duplicate queue of
              Some n \<Rightarrow> Err (DuplicateSequence n)
            | None \<Rightarrow>
                (case check_events (snap_next_sequence snap) (snap_last_dispatched snap) queue of
                   Some e \<Rightarrow> Err e
                 | None \<Rightarrow>
                     Ok \<lparr>sch_config = config, last_dispatched = snap_last_dispatched snap,
                         dispatched_in_phase = snap_dispatched_in_phase snap,
                         next_sequence = snap_next_sequence snap, sch_heap = queue\<rparr>)))"

subsection \<open>Histories\<close>

text \<open>
  Any interleaving of \<^verbatim>\<open>schedule\<close> and \<^verbatim>\<open>pop\<close>. A history is the events dispatched so far, in order, and the
  events accepted so far, in the order they were scheduled; a failed operation adds to neither.
\<close>

datatype 'p SchedOp = DoSchedule Tick Phase 'p | DoPop

fun sched_op :: "'p SchedOp \<Rightarrow> 'p Event list \<times> 'p Event list \<times> 'p Scheduler
    \<Rightarrow> 'p Event list \<times> 'p Event list \<times> 'p Scheduler" where
  "sched_op (DoSchedule tick phase payload) (disp, acc, s) =
     (case schedule s tick phase payload of
        (Ok key, s') \<Rightarrow> (disp, acc @ [\<lparr>ev_key = key, ev_payload = payload\<rparr>], s')
      | (Err _, s') \<Rightarrow> (disp, acc, s'))"
| "sched_op DoPop (disp, acc, s) =
     (case sched_pop s of
        (Ok (Some e), s') \<Rightarrow> (disp @ [e], acc, s')
      | (_, s') \<Rightarrow> (disp, acc, s'))"

definition sched_run :: "SchedulerConfig \<Rightarrow> 'p SchedOp list \<Rightarrow> 'p Event list \<times> 'p Event list \<times> 'p Scheduler" where
  "sched_run config ops = fold sched_op ops ([], [], Scheduler_new config)"

definition phase_count :: "Tick \<Rightarrow> Phase \<Rightarrow> 'p Event list \<Rightarrow> nat" where
  "phase_count t p es = length (filter (\<lambda>e. key_tick (ev_key e) = t \<and> key_phase (ev_key e) = p) es)"

lemma phase_count_append [simp]: "phase_count t p (xs @ ys) = phase_count t p xs + phase_count t p ys"
  by (simp add: phase_count_def)

lemma phase_count_mset: "mset xs = mset ys \<Longrightarrow> phase_count t p xs = phase_count t p ys"
  unfolding phase_count_def by (intro mset_eq_length) simp

definition event_seq :: "'p Event \<Rightarrow> u64" where
  "event_seq e = key_sequence (ev_key e)"

definition hist_inv :: "SchedulerConfig \<Rightarrow> 'p Event list \<times> 'p Event list \<times> 'p Scheduler \<Rightarrow> bool" where
  "hist_inv config h = (case h of (disp, acc, s) \<Rightarrow>
     sch_config s = config
     \<and> sorted_wrt (<) (map ev_key disp)
     \<and> last_dispatched s = (if disp = [] then None else Some (ev_key (last disp)))
     \<and> mset acc = mset disp + mset (sch_heap s)
     \<and> map event_seq acc = [0..<next_sequence s] \<and> next_sequence s \<le> u64_max
     \<and> (\<forall>e\<in>set (sch_heap s). key_phase (ev_key e) \<noteq> PhObserve \<and> (\<forall>d\<in>set disp. ev_key d < ev_key e))
     \<and> (\<forall>t p. phase_count t p disp \<le> max_events_per_phase config)
     \<and> dispatched_in_phase s = (if disp = [] then 0
         else phase_count (key_tick (ev_key (last disp))) (key_phase (ev_key (last disp))) disp))"

lemma hist_inv_new: "hist_inv config ([], [], Scheduler_new config)"
  by (simp add: hist_inv_def Scheduler_new_def phase_count_def)

lemma hist_seqs:
  assumes "hist_inv config (disp, acc, s)"
  shows "distinct (map event_seq (disp @ sch_heap s))"
    and "e \<in> set disp \<or> e \<in> set (sch_heap s) \<Longrightarrow> event_seq e < next_sequence s"
proof -
  have acc: "map event_seq acc = [0..<next_sequence s]" and
    bag: "mset acc = mset (disp @ sch_heap s)" using assms by (auto simp: hist_inv_def)
  then have perm: "mset (map event_seq (disp @ sch_heap s)) = mset [0..<next_sequence s]"
    by (metis mset_map)
  then show "distinct (map event_seq (disp @ sch_heap s))"
    by (metis distinct_upt mset_eq_imp_distinct_iff)
  have "set (map event_seq (disp @ sch_heap s)) = {0..<next_sequence s}"
    using perm by (metis mset_eq_setD set_upt)
  then show "e \<in> set disp \<or> e \<in> set (sch_heap s) \<Longrightarrow> event_seq e < next_sequence s" by auto
qed

lemma hist_length:
  assumes "hist_inv config (disp, acc, s)"
  shows "length disp + length (sch_heap s) = next_sequence s"
proof -
  have "size (mset acc) = size (mset disp + mset (sch_heap s))" "length (map event_seq acc) = next_sequence s"
    using assms by (simp_all add: hist_inv_def)
  then show ?thesis by simp
qed

lemma sorted_last_le: "sorted_wrt (<) (map ev_key ds) \<Longrightarrow> d \<in> set ds \<Longrightarrow> ev_key d \<le> ev_key (last ds)"
  by (induction ds) (auto simp: less_imp_le)

lemma hist_keys_inj: "hist_inv config (disp, acc, s) \<Longrightarrow> inj_on ev_key (set (sch_heap s))"
proof -
  assume "hist_inv config (disp, acc, s)"
  then have "distinct (map event_seq (sch_heap s))" using hist_seqs(1) [of config disp acc s] by simp
  then have "inj_on event_seq (set (sch_heap s))" by (simp add: distinct_map)
  then show ?thesis by (auto simp: inj_on_def event_seq_def)
qed

lemma hist_inv_schedule:
  assumes inv: "hist_inv config (disp, acc, s)" and ok: "schedule s tick phase payload = (Ok key, s')"
  shows "hist_inv config (disp, acc @ [\<lparr>ev_key = key, ev_payload = payload\<rparr>], s')"
proof -
  have key: "key = EventKey tick phase (next_sequence s)" and observe: "phase \<noteq> PhObserve"
    and time: "sched_now s \<le> tick" "tick = sched_now s \<Longrightarrow> sched_phase s \<le> phase"
    and room: "next_sequence s \<noteq> u64_max"
    and s': "s' = s\<lparr>next_sequence := next_sequence s + 1,
                sch_heap := sch_heap s @ [\<lparr>ev_key = key, ev_payload = payload\<rparr>]\<rparr>"
    using ok by (auto simp: schedule_def Let_def heap_push_def split: if_splits)
  have after: "ev_key d < key" if "d \<in> set disp" for d
  proof -
    obtain t p n where lastd: "ev_key (last disp) = EventKey t p n" by (cases "ev_key (last disp)")
    have "disp \<noteq> []" using that by auto
    then have "last_dispatched s = Some (EventKey t p n)" using inv lastd by (simp add: hist_inv_def)
    with time have "t \<le> tick" "t = tick \<Longrightarrow> p \<le> phase" by (simp_all add: sched_now_def sched_phase_def)
    moreover have "n < next_sequence s"
      using hist_seqs(2) [OF inv, of "last disp"] \<open>disp \<noteq> []\<close> lastd by (simp add: event_seq_def)
    ultimately have "ev_key (last disp) < key" by (auto simp: lastd key)
    moreover have "ev_key d \<le> ev_key (last disp)"
      using inv that by (intro sorted_last_le) (simp_all add: hist_inv_def)
    ultimately show ?thesis by simp
  qed
  have "next_sequence s + 1 \<le> u64_max" using inv room by (simp add: hist_inv_def)
  with inv after observe show ?thesis
    by (auto simp: hist_inv_def s' key event_seq_def)
qed

lemma hist_phase_count:
  assumes inv: "hist_inv config (disp, acc, s)" and rest: "heap_pop (sch_heap s) = Some (e, rest)"
  shows "phase_count (key_tick (ev_key e)) (key_phase (ev_key e)) disp =
    (if \<exists>k. last_dispatched s = Some k \<and> key_tick k = key_tick (ev_key e) \<and> key_phase k = key_phase (ev_key e)
     then dispatched_in_phase s else 0)" (is "phase_count ?t ?p disp = (if ?same then _ else _)")
proof (cases ?same)
  case True
  then show ?thesis using inv by (auto simp: hist_inv_def split: if_splits)
next
  case False
  have before: "ev_key d < ev_key e" if "d \<in> set disp" for d
    using inv that heap_pop_bag [OF rest] by (auto simp: hist_inv_def dest!: mset_eq_setD [of _ "e # rest", simplified])
  have "\<not> (key_tick (ev_key d) = ?t \<and> key_phase (ev_key d) = ?p)" if d: "d \<in> set disp" for d
  proof
    assume same_d: "key_tick (ev_key d) = ?t \<and> key_phase (ev_key d) = ?p"
    have "ev_key d \<le> ev_key (last disp)"
      using inv d by (intro sorted_last_le) (simp_all add: hist_inv_def)
    moreover have "ev_key (last disp) < ev_key e"
      using d by (intro before last_in_set) auto
    ultimately have "key_tick (ev_key (last disp)) = ?t \<and> key_phase (ev_key (last disp)) = ?p"
      using same_d by (cases "ev_key d"; cases "ev_key (last disp)"; cases "ev_key e") auto
    moreover have "last_dispatched s = Some (ev_key (last disp))" using inv d by (auto simp: hist_inv_def)
    ultimately show False using False by simp
  qed
  then show ?thesis using False by (auto simp: phase_count_def filter_empty_conv)
qed

lemma hist_inv_pop:
  assumes inv: "hist_inv config (disp, acc, s)" and pop: "sched_pop s = (Ok (Some e), s')"
  shows "hist_inv config (disp @ [e], acc, s')"
proof -
  let ?t = "key_tick (ev_key e)" and ?p = "key_phase (ev_key e)"
  obtain rest where rest: "heap_pop (sch_heap s) = Some (e, rest)"
    using pop by (auto simp: sched_pop_def Let_def split: option.splits if_splits)
  have peek: "sched_peek_key s = Some (ev_key e)" using rest by (simp add: sched_peek_key_def heap_peek_def)
  define same where "same = (case last_dispatched s of None \<Rightarrow> False
      | Some k \<Rightarrow> key_tick k = ?t \<and> key_phase k = ?p)"
  have s': "s' = s\<lparr>last_dispatched := Some (ev_key e),
        dispatched_in_phase := (if same then dispatched_in_phase s + 1 else 1), sch_heap := rest\<rparr>"
    and limit: "(if same then dispatched_in_phase s + 1 else 1) \<le> max_events_per_phase config"
    using pop peek rest inv
    by (auto simp: sched_pop_def Let_def hist_inv_def same_def split: if_splits option.splits)
  have bag: "mset (sch_heap s) = add_mset e (mset rest)" by (rule heap_pop_bag [OF rest])
  then have sets: "set (sch_heap s) = insert e (set rest)" by (metis set_mset_add_mset_insert set_mset_mset)
  have "distinct (sch_heap s)" using hist_seqs(1) [OF inv] by (simp add: distinct_map)
  then have fresh: "e \<notin> set rest"
    using bag mset_eq_imp_distinct_iff [of "sch_heap s" "e # rest"] by simp
  have after: "ev_key e < ev_key d" if "d \<in> set rest" for d
    using heap.pop_remaining_greater [of "sch_heap s", OF _ rest] hist_keys_inj [OF inv] that fresh by simp
  have before: "ev_key d < ev_key e" if "d \<in> set disp" for d
    using inv that sets by (auto simp: hist_inv_def)
  have count: "phase_count ?t ?p disp = (if same then dispatched_in_phase s else 0)"
    using hist_phase_count [OF inv rest] by (auto simp: same_def split: option.splits)
  have bound: "phase_count t p (disp @ [e]) \<le> max_events_per_phase config" for t p
  proof (cases "t = ?t \<and> p = ?p")
    case True
    then show ?thesis using count limit by (simp add: phase_count_def split: if_splits)
  next
    case False
    then have "phase_count t p [e] = 0" by (auto simp: phase_count_def)
    then show ?thesis using inv by (simp add: hist_inv_def)
  qed
  have one: "phase_count ?t ?p [e] = 1" by (simp add: phase_count_def)
  show ?thesis
    using inv bag sets after before bound count one
    by (auto simp: hist_inv_def s' sorted_wrt_append)
qed

lemma hist_inv_op: "hist_inv config h \<Longrightarrow> hist_inv config (sched_op op h)"
proof (cases "(op, h)" rule: sched_op.cases)
  case (1 tick phase payload disp acc s)
  assume "hist_inv config h"
  moreover have "schedule s tick phase payload = (Err e, s') \<Longrightarrow> s' = s" for e s'
    by (auto simp: schedule_def Let_def split: if_splits)
  ultimately show ?thesis
    using 1 hist_inv_schedule [of config disp acc s tick phase payload]
    by (auto split: prod.splits sum.splits)
next
  case (2 disp acc s)
  assume "hist_inv config h"
  moreover have "sched_pop s = (Err e, s') \<Longrightarrow> s' = s" "sched_pop s = (Ok None, s') \<Longrightarrow> s' = s" for e s'
    by (auto simp: sched_pop_def Let_def split: option.splits if_splits)
  ultimately show ?thesis
    using 2 hist_inv_pop [of config disp acc s] by (auto split: prod.splits sum.splits option.splits)
qed

lemma hist_inv_fold: "hist_inv config h \<Longrightarrow> hist_inv config (fold sched_op ops h)"
  by (induction ops arbitrary: h) (simp_all add: hist_inv_op)

lemma hist_inv_run: "hist_inv config (sched_run config ops)"
  unfolding sched_run_def by (rule hist_inv_fold [OF hist_inv_new])

subsection \<open>Properties of histories\<close>

text \<open>
  C32. Whatever is scheduled and dispatched, and whatever fails on the way: events are dispatched in
  strictly increasing key order, every accepted event is dispatched at most once and otherwise still
  pending (none is lost, duplicated or invented), and the \<open>n\<close>-th accepted event has sequence number
  \<open>n\<close>, so that events of one tick and phase run in the order they were scheduled.
\<close>

theorem sched_dispatch_order:
  "case sched_run config ops of
     (disp, acc, s) \<Rightarrow>
       sorted_wrt (<) (map ev_key disp)
       \<and> mset acc = mset disp + mset (sch_heap s)
       \<and> map event_seq acc = [0..<length acc]"
proof -
  obtain disp acc s where r: "sched_run config ops = (disp, acc, s)" by (cases "sched_run config ops")
  have inv: "hist_inv config (disp, acc, s)" using hist_inv_run [of config ops] by (simp add: r)
  then have "map event_seq acc = [0..<next_sequence s]" by (simp add: hist_inv_def)
  then have "map event_seq acc = [0..<length acc]" by (metis length_map length_upt diff_zero)
  with inv show ?thesis by (simp add: r hist_inv_def)
qed

text \<open>
  Rule S5: no history dispatches more than \<^verbatim>\<open>max_events_per_phase\<close> events of one tick and phase.
\<close>

theorem sched_phase_bound:
  "case sched_run config ops of
     (disp, acc, s) \<Rightarrow> phase_count t p disp \<le> max_events_per_phase config"
  using hist_inv_run [of config ops] by (auto simp: hist_inv_def split: prod.splits)

text \<open>
  Scheduling is refused exactly by the rules, in their order: never into \<^verbatim>\<open>Observe\<close> (S3), never into
  the past (S1), never into an earlier phase of the current tick (S2), never past the last sequence
  number (S6); a refusal changes nothing, and otherwise the event is queued under the next sequence
  number, which is consumed.
\<close>

theorem schedule_rules:
  "schedule s tick phase payload =
     (if phase = PhObserve then (Err (PhaseViolation (sched_now s) (sched_phase s) tick phase), s)
      else if tick < sched_now s then (Err (PastTick (sched_now s) tick), s)
      else if tick = sched_now s \<and> phase < sched_phase s
        then (Err (PhaseViolation (sched_now s) (sched_phase s) tick phase), s)
      else if next_sequence s = u64_max then (Err SequenceOverflow, s)
      else (Ok (EventKey tick phase (next_sequence s)),
        \<lparr>sch_config = sch_config s, last_dispatched = last_dispatched s,
         dispatched_in_phase = dispatched_in_phase s, next_sequence = next_sequence s + 1,
         sch_heap = sch_heap s @ [\<lparr>ev_key = EventKey tick phase (next_sequence s), ev_payload = payload\<rparr>]\<rparr>))"
  by (cases s) (simp add: schedule_def Let_def heap_push_def)

lemma sched_pop_spec:
  assumes inv: "hist_inv config (disp, acc, s)" and peek: "sched_peek_key s = Some k"
  shows "\<exists>e rest. heap_pop (sch_heap s) = Some (e, rest) \<and> ev_key e = k \<and>
     (if phase_count (key_tick k) (key_phase k) disp < max_events_per_phase config
      then \<exists>s'. sched_pop s = (Ok (Some e), s') \<and> sch_heap s' = rest
      else sched_pop s =
        (Err (Fault_session (SameTickLivelock (key_tick k) (key_phase k) (max_events_per_phase config))), s))"
proof -
  obtain e rest where rest: "heap_pop (sch_heap s) = Some (e, rest)" and k: "ev_key e = k"
    using peek by (auto simp: sched_peek_key_def heap_peek_pop)
  have conf: "sch_config s = config" using inv by (simp add: hist_inv_def)
  let ?same = "\<lambda>kl. key_tick kl = key_tick k \<and> key_phase kl = key_phase k"
  have "length disp + length (sch_heap s) = next_sequence s" by (rule hist_length [OF inv])
  moreover have "sch_heap s \<noteq> []" using rest by auto
  ultimately have "length disp < u64_max" using inv by (cases "sch_heap s") (auto simp: hist_inv_def)
  moreover have "phase_count t p disp \<le> length disp" for t p by (simp add: phase_count_def)
  ultimately have small: "phase_count t p disp < u64_max" for t p by (meson le_less_trans)
  have count: "phase_count (key_tick k) (key_phase k) disp =
      (if \<exists>kl. last_dispatched s = Some kl \<and> ?same kl then dispatched_in_phase s else 0)"
    using hist_phase_count [OF inv rest] k by simp
  show ?thesis
  proof (intro exI conjI)
    show "heap_pop (sch_heap s) = Some (e, rest)" by (rule rest)
    show "ev_key e = k" by (rule k)
    show "if phase_count (key_tick k) (key_phase k) disp < max_events_per_phase config
      then \<exists>s'. sched_pop s = (Ok (Some e), s') \<and> sch_heap s' = rest
      else sched_pop s =
        (Err (Fault_session (SameTickLivelock (key_tick k) (key_phase k) (max_events_per_phase config))), s)"
    proof (cases "\<exists>kl. last_dispatched s = Some kl \<and> ?same kl")
      case True
      then obtain kl where "last_dispatched s = Some kl" "?same kl" by blast
      then show ?thesis
        using count small [of "key_tick k" "key_phase k"] by (simp add: sched_pop_def Let_def peek rest conf)
    next
      case False
      then have "(case last_dispatched s of None \<Rightarrow> False | Some kl \<Rightarrow> ?same kl) = False"
        by (simp split: option.splits)
      moreover have "phase_count (key_tick k) (key_phase k) disp = 0" using count False by auto
      ultimately show ?thesis by (simp add: sched_pop_def Let_def peek rest conf)
    qed
  qed
qed

text \<open>
  A pending event is dispatched or reported, never stuck: popping a reachable scheduler with
  pending events either dispatches the least one, or (when its tick and phase have used up their
  limit) raises the livelock error on it and changes nothing; only an empty scheduler returns no
  event, and the count never overflows.
\<close>

theorem sched_pop_progress:
  "case sched_run config ops of (disp, acc, s) \<Rightarrow>
     (case sched_peek_key s of
        None \<Rightarrow> sch_heap s = [] \<and> sched_pop s = (Ok None, s)
      | Some k \<Rightarrow>
          list_all (\<lambda>e. k \<le> ev_key e) (sch_heap s) \<and>
          (if phase_count (key_tick k) (key_phase k) disp < max_events_per_phase config
           then \<exists>e s'. sched_pop s = (Ok (Some e), s') \<and> ev_key e = k
                  \<and> mset (sch_heap s) = add_mset e (mset (sch_heap s'))
           else sched_pop s =
             (Err (Fault_session (SameTickLivelock (key_tick k) (key_phase k) (max_events_per_phase config))), s)))"
proof -
  obtain disp acc s where r: "sched_run config ops = (disp, acc, s)" by (cases "sched_run config ops")
  have inv: "hist_inv config (disp, acc, s)" using hist_inv_run [of config ops] by (simp add: r)
  show ?thesis
  proof (cases "sched_peek_key s")
    case None
    then show ?thesis by (simp add: r sched_pop_def) (simp add: sched_peek_key_def heap_peek_pop)
  next
    case (Some k)
    with sched_pop_spec [OF inv Some] show ?thesis
      by (auto simp: r list_all_iff heap_pop_least heap_pop_bag split: if_splits)
  qed
qed

subsection \<open>Snapshot and restore\<close>

lemma first_duplicate_None:
  assumes "distinct (map event_seq es)"
  shows "first_duplicate es = None"
  using assms by (induction es rule: first_duplicate.induct) (auto simp: event_seq_def)

lemma check_events_None:
  "check_events n cursor es = None \<longleftrightarrow>
     (\<forall>e\<in>set es. event_seq e < n \<and> key_phase (ev_key e) \<noteq> PhObserve \<and>
        (case cursor of None \<Rightarrow> True | Some k \<Rightarrow> k < ev_key e))"
  by (induction es) (auto simp: Let_def event_seq_def not_le not_less split: option.splits)

text \<open>Two schedulers that differ only in how the heap arranges the same events.\<close>

definition sched_equiv :: "'p Scheduler \<Rightarrow> 'p Scheduler \<Rightarrow> bool" where
  "sched_equiv s r \<longleftrightarrow> sch_config s = sch_config r \<and> last_dispatched s = last_dispatched r
     \<and> dispatched_in_phase s = dispatched_in_phase r \<and> next_sequence s = next_sequence r
     \<and> mset (sch_heap s) = mset (sch_heap r)"

lemma hist_inv_equiv: "sched_equiv s r \<Longrightarrow> hist_inv config (disp, acc, s) \<Longrightarrow> hist_inv config (disp, acc, r)"
  by (auto simp: sched_equiv_def hist_inv_def dest: mset_eq_setD)

lemma equiv_snapshot:
  assumes "sched_equiv s r" and "hist_inv config (disp, acc, s)"
  shows "sched_snapshot s = sched_snapshot r"
proof -
  have "sort_key ev_key (sch_heap s) = sort_key ev_key (sch_heap r)"
    using assms(1) hist_keys_inj [OF assms(2)]
    by (intro sort_key_inj_key_eq) (simp_all add: sched_equiv_def)
  then show ?thesis using assms(1) by (simp add: sched_snapshot_def sched_equiv_def)
qed

lemma equiv_pop:
  assumes eq: "sched_equiv s r" and inv: "hist_inv config (disp, acc, s)"
  shows "fst (sched_pop s) = fst (sched_pop r) \<and> sched_equiv (snd (sched_pop s)) (snd (sched_pop r))"
proof (cases "heap_pop (sch_heap s)")
  case None
  then have "sch_heap s = []" "sch_heap r = []" using eq by (simp_all add: sched_equiv_def)
  then show ?thesis using eq by (simp add: sched_pop_def sched_peek_key_def heap_peek_def)
next
  case (Some x)
  then obtain e rest where s: "heap_pop (sch_heap s) = Some (e, rest)" by (cases x) auto
  have bag: "mset (sch_heap s) = mset (sch_heap r)" using eq by (simp add: sched_equiv_def)
  with s have "sch_heap r \<noteq> []" by auto
  then obtain d rest' where r: "heap_pop (sch_heap r) = Some (d, rest')" by (cases "heap_pop (sch_heap r)") auto
  have same: "d = e" "mset rest = mset rest'"
    using heap.pop_deterministic [OF _ bag s r] hist_keys_inj [OF inv] by simp_all
  then show ?thesis using eq s r
    by (simp add: sched_pop_def sched_peek_key_def heap_peek_def Let_def sched_equiv_def)
qed

lemma equiv_schedule:
  assumes "sched_equiv s r"
  shows "fst (schedule s t p x) = fst (schedule r t p x) \<and> sched_equiv (snd (schedule s t p x)) (snd (schedule r t p x))"
proof -
  have "sched_now s = sched_now r" "sched_phase s = sched_phase r" "next_sequence s = next_sequence r"
    using assms by (simp_all add: sched_equiv_def sched_now_def sched_phase_def)
  with assms show ?thesis by (auto simp: schedule_def Let_def sched_equiv_def heap_push_def)
qed

definition hist_equiv :: "'p Event list \<times> 'p Event list \<times> 'p Scheduler \<Rightarrow> 'p Event list \<times> 'p Event list \<times> 'p Scheduler \<Rightarrow> bool" where
  "hist_equiv h g = (case h of (d, a, s) \<Rightarrow> case g of (d', a', r) \<Rightarrow> d = d' \<and> a = a' \<and> sched_equiv s r)"

lemma equiv_op:
  assumes "sched_equiv s r" and "hist_inv config (disp, acc, s)"
  shows "hist_equiv (sched_op op (disp, acc, s)) (sched_op op (disp, acc, r))"
proof (cases op)
  case (DoSchedule t p x)
  then show ?thesis using equiv_schedule [OF assms(1), of t p x]
    by (cases "schedule s t p x"; cases "schedule r t p x") (auto simp: hist_equiv_def split: sum.splits)
next
  case DoPop
  then show ?thesis using equiv_pop [OF assms]
    by (cases "sched_pop s"; cases "sched_pop r")
      (auto simp: hist_equiv_def split: sum.splits option.splits)
qed

lemma equiv_fold:
  assumes "sched_equiv s r" and "hist_inv config (disp, acc, s)"
  shows "hist_equiv (fold sched_op ops (disp, acc, s)) (fold sched_op ops (disp, acc, r))"
  using assms
proof (induction ops arbitrary: disp acc s r)
  case (Cons op ops)
  obtain d a s1 where 1: "sched_op op (disp, acc, s) = (d, a, s1)" by (cases "sched_op op (disp, acc, s)")
  obtain d' a' r1 where 2: "sched_op op (disp, acc, r) = (d', a', r1)" by (cases "sched_op op (disp, acc, r)")
  have "d' = d" "a' = a" "sched_equiv s1 r1"
    using equiv_op [OF Cons.prems, of op] by (simp_all add: 1 2 hist_equiv_def)
  moreover have "hist_inv config (d, a, s1)" using hist_inv_op [OF Cons.prems(2), of op] by (simp add: 1)
  ultimately show ?case using Cons.IH by (simp add: 1 2)
qed (simp add: hist_equiv_def)

lemma restore_permuted:
  assumes inv: "hist_inv config (disp, acc, s)" and q: "mset q = mset (sch_heap s)"
  shows "\<exists>r. sched_restore config ((sched_snapshot s)\<lparr>snap_queue := q\<rparr>) = Ok r \<and> sched_equiv s r"
proof -
  let ?q = "sort_key (\<lambda>e. key_sequence (ev_key e)) q"
  have sets: "set ?q = set (sch_heap s)" using q by (metis set_mset_mset set_sort)
  have "mset ?q = mset (sch_heap s)" by (simp add: q)
  then have "mset (map event_seq ?q) = mset (map event_seq (sch_heap s))" by (metis mset_map)
  moreover have "distinct (map event_seq (sch_heap s))" using hist_seqs(1) [OF inv] by simp
  ultimately have "distinct (map event_seq ?q)" by (metis mset_eq_imp_distinct_iff)
  then have dup: "first_duplicate ?q = None" by (rule first_duplicate_None)
  have order: "check_events (next_sequence s) (last_dispatched s) ?q = None"
    using inv hist_seqs(2) [OF inv] unfolding check_events_None sets by (auto simp: hist_inv_def)
  have count: "case last_dispatched s of None \<Rightarrow> dispatched_in_phase s = 0
      | Some _ \<Rightarrow> 1 \<le> dispatched_in_phase s \<and> dispatched_in_phase s \<le> max_events_per_phase config"
    using inv by (auto simp: hist_inv_def phase_count_def Suc_le_eq filter_empty_conv intro: last_in_set)
  have conf: "sch_config s = config" using inv by (simp add: hist_inv_def)
  show ?thesis
    using count order by (cases "last_dispatched s")
      (simp_all add: sched_restore_def sched_snapshot_def dup Let_def sched_equiv_def q conf)
qed

text \<open>
  C33. A snapshot of a reachable scheduler, with its queue in any order, is accepted, and the restored
  scheduler cannot be told from the original: whatever is scheduled and popped afterwards, both
  dispatch the same events, accept the same events, and have the same snapshot.
\<close>

theorem restore_resumes:
  assumes "sched_run config ops = (disp, acc, s)" and "mset q = mset (sch_heap s)"
  shows "\<exists>r. sched_restore config ((sched_snapshot s)\<lparr>snap_queue := q\<rparr>) = Ok r \<and>
    (\<forall>more. case fold sched_op more (disp, acc, s) of (disp1, acc1, s1) \<Rightarrow>
       case fold sched_op more (disp, acc, r) of (disp2, acc2, r2) \<Rightarrow>
         disp1 = disp2 \<and> acc1 = acc2 \<and> sched_snapshot s1 = sched_snapshot r2)"
proof -
  have inv: "hist_inv config (disp, acc, s)" using hist_inv_run [of config ops] assms(1) by simp
  from restore_permuted [OF this assms(2)] obtain r where
    r: "sched_restore config ((sched_snapshot s)\<lparr>snap_queue := q\<rparr>) = Ok r" "sched_equiv s r" by blast
  have "case fold sched_op more (disp, acc, s) of (disp1, acc1, s1) \<Rightarrow>
       case fold sched_op more (disp, acc, r) of (disp2, acc2, r2) \<Rightarrow>
         disp1 = disp2 \<and> acc1 = acc2 \<and> sched_snapshot s1 = sched_snapshot r2" for more
    using equiv_fold [OF r(2) inv, of more] hist_inv_fold [OF inv, of more]
    by (auto simp: hist_equiv_def intro: equiv_snapshot)
  with r(1) show ?thesis by blast
qed

theorem restore_resumes_witness:
  "\<exists>r. sched_restore SchedulerConfig_default
      ((sched_snapshot (snd (snd (sched_run SchedulerConfig_default
          [DoSchedule 5 PhCommit ''b'', DoSchedule 2 PhRequest ''a'']))))
       \<lparr>snap_queue := [\<lparr>ev_key = EventKey 2 PhRequest 1, ev_payload = ''a''\<rparr>,
                      \<lparr>ev_key = EventKey 5 PhCommit 0, ev_payload = ''b''\<rparr>]\<rparr>) = Ok r"
proof -
  let ?q = "[\<lparr>ev_key = EventKey 2 PhRequest 1, ev_payload = ''a''\<rparr>,
    \<lparr>ev_key = EventKey 5 PhCommit 0, ev_payload = ''b''\<rparr>]"
  let ?ops = "[DoSchedule 5 PhCommit ''b'', DoSchedule 2 PhRequest ''a'']"
  obtain disp acc s where run: "sched_run SchedulerConfig_default ?ops = (disp, acc, s)"
    by (cases "sched_run SchedulerConfig_default ?ops")
  have "sch_heap (snd (snd (sched_run SchedulerConfig_default ?ops))) = rev ?q"
    by (simp add: Let_def sched_run_def schedule_def Scheduler_new_def sched_now_def sched_phase_def
        u64_max_def heap_push_def less_Phase_def)
  then have "mset ?q = mset (sch_heap s)" by (simp add: run)
  from restore_resumes [OF run this] show ?thesis by (auto simp: run)
qed

text \<open>
  C39. Restore accepts more than its documentation says: a snapshot whose last dispatched event has a
  sequence number that was never assigned is accepted, though no sequence of operations produces
  the resulting scheduler.
\<close>

theorem restore_accepts_unreachable:
  "\<exists>r. sched_restore SchedulerConfig_default
       \<lparr>snap_last_dispatched = Some (EventKey 0 PhRequest 7), snap_dispatched_in_phase = 1,
        snap_next_sequence = 0, snap_queue = []\<rparr> = Ok r
     \<and> r \<notin> range (\<lambda>ops. snd (snd (sched_run SchedulerConfig_default ops)))"
proof -
  have "next_sequence s \<noteq> 0" if "hist_inv c (disp, acc, s)" "last_dispatched s \<noteq> None" for c disp acc and s :: "'a Scheduler"
  proof -
    have "disp \<noteq> []" using that by (auto simp: hist_inv_def)
    with hist_length [OF that(1)] show ?thesis by (cases disp) auto
  qed
  then have "\<not> (last_dispatched (snd (snd (sched_run c ops))) \<noteq> None
      \<and> next_sequence (snd (snd (sched_run c ops)) :: 'a Scheduler) = 0)" for c ops
    using hist_inv_run [of c ops] by (metis prod.collapse)
  then have "r \<notin> range (\<lambda>ops. snd (snd (sched_run c ops)))"
    if "last_dispatched r \<noteq> None" "next_sequence r = 0" for c and r :: "'a Scheduler"
    using that by blast
  then show ?thesis
    by (simp add: sched_restore_def SchedulerConfig_default_def)
qed

lemma drain_step:
  assumes inv: "hist_inv config (disp, acc, s)" and room: "\<And>t p. phase_count t p acc \<le> max_events_per_phase config"
    and "sch_heap s \<noteq> []"
  shows "\<exists>e s'. sched_op DoPop (disp, acc, s) = (disp @ [e], acc, s') \<and>
    length (sch_heap s) = Suc (length (sch_heap s'))"
proof -
  obtain k where k: "sched_peek_key s = Some k"
    using assms(3) by (cases "sched_peek_key s") (auto simp: sched_peek_key_def heap_peek_pop)
  from sched_pop_spec [OF inv k] obtain e rest where rest: "heap_pop (sch_heap s) = Some (e, rest)"
    and ek: "ev_key e = k"
    and pop: "phase_count (key_tick k) (key_phase k) disp < max_events_per_phase config \<Longrightarrow>
      \<exists>s'. sched_pop s = (Ok (Some e), s') \<and> sch_heap s' = rest"
    by (auto split: if_splits)
  have "mset acc = mset (disp @ sch_heap s)" using inv by (simp add: hist_inv_def)
  then have "phase_count t p acc = phase_count t p (disp @ sch_heap s)" for t p
    by (rule phase_count_mset)
  moreover have "e \<in> set (sch_heap s)" using heap_pop_bag [OF rest] by (metis set_mset_mset union_single_eq_member)
  then have "0 < phase_count (key_tick k) (key_phase k) (sch_heap s)"
    using ek by (auto simp: phase_count_def filter_empty_conv)
  ultimately have "phase_count (key_tick k) (key_phase k) disp < max_events_per_phase config"
    using room [of "key_tick k" "key_phase k"] by simp
  from pop [OF this] obtain s' where "sched_pop s = (Ok (Some e), s')" "sch_heap s' = rest" by blast
  moreover have "size (mset (sch_heap s)) = Suc (size (mset rest))" using heap_pop_bag [OF rest] by simp
  ultimately show ?thesis by simp
qed

lemma drain_run:
  assumes "hist_inv config (disp, acc, s)" and "\<And>t p. phase_count t p acc \<le> max_events_per_phase config"
  shows "\<exists>s'. fold sched_op (replicate (length (sch_heap s)) DoPop) (disp, acc, s)
      = (sort_key ev_key acc, acc, s') \<and> sch_heap s' = []"
  using assms(1)
proof (induction "length (sch_heap s)" arbitrary: disp s)
  case 0
  then have "inj_on event_seq (set acc)" "sorted (map ev_key disp)" "mset acc = mset disp"
    using hist_seqs(1) [OF 0(2)] by (auto simp: hist_inv_def distinct_map dest: mset_eq_setD
        intro: sorted_wrt_mono_rel [of _ "(<)" "(\<le>)"] less_imp_le)
  moreover from this have "inj_on ev_key (set acc)" by (auto simp: inj_on_def event_seq_def)
  ultimately have "sort_key ev_key acc = disp" by (intro sort_key_inj_key_eq)
  with 0 show ?case by simp
next
  case (Suc n)
  then obtain e s' where step: "sched_op DoPop (disp, acc, s) = (disp @ [e], acc, s')"
    and len: "length (sch_heap s) = Suc (length (sch_heap s'))"
    using drain_step [OF Suc.prems assms(2)] by fastforce
  have "hist_inv config (disp @ [e], acc, s')" using hist_inv_op [OF Suc.prems, of DoPop] step by simp
  with Suc.hyps len step show ?case by fastforce
qed

text \<open>
  C34. Draining terminates and is fair: when no tick and phase holds more events than the limit of S5,
  popping as often as there are pending events dispatches all of them; the history is then every
  accepted event in key order, whatever the interleaving of scheduling and dispatch was.
\<close>

theorem sched_drain:
  assumes "sched_run config ops = (disp, acc, s)"
    and "\<And>t p. phase_count t p acc \<le> max_events_per_phase config"
  shows "\<exists>s'. fold sched_op (replicate (length (sch_heap s)) DoPop) (disp, acc, s)
      = (sort_key ev_key acc, acc, s') \<and> sch_heap s' = []"
  using drain_run [of config disp acc s] hist_inv_run [of config ops] assms by simp

theorem sched_drain_witness:
  "\<exists>s'. fold sched_op (replicate 2 DoPop) (sched_run SchedulerConfig_default
        [DoSchedule 5 PhCommit ''b'', DoSchedule 2 PhRequest ''a''])
     = ([\<lparr>ev_key = EventKey 2 PhRequest 1, ev_payload = ''a''\<rparr>,
         \<lparr>ev_key = EventKey 5 PhCommit 0, ev_payload = ''b''\<rparr>],
        [\<lparr>ev_key = EventKey 5 PhCommit 0, ev_payload = ''b''\<rparr>,
         \<lparr>ev_key = EventKey 2 PhRequest 1, ev_payload = ''a''\<rparr>], s') \<and> sch_heap s' = []"
proof -
  let ?acc = "[\<lparr>ev_key = EventKey 5 PhCommit 0, ev_payload = ''b''\<rparr>,
    \<lparr>ev_key = EventKey 2 PhRequest 1, ev_payload = ''a''\<rparr>]"
  let ?ops = "[DoSchedule 5 PhCommit ''b'', DoSchedule 2 PhRequest ''a'']"
  have "\<exists>s. sched_run SchedulerConfig_default ?ops = ([], ?acc, s) \<and> length (sch_heap s) = 2"
    by (simp add: Let_def sched_run_def schedule_def Scheduler_new_def sched_now_def sched_phase_def
        u64_max_def heap_push_def less_Phase_def)
  then obtain s where run: "sched_run SchedulerConfig_default ?ops = ([], ?acc, s)"
    and len: "length (sch_heap s) = 2" by blast
  have "phase_count t p ?acc \<le> length ?acc" for t p unfolding phase_count_def by (rule length_filter_le)
  then have "phase_count t p ?acc \<le> max_events_per_phase SchedulerConfig_default" for t p
    by (rule order_trans) (simp add: SchedulerConfig_default_def)
  from sched_drain [OF run this] show ?thesis by (simp add: run len)
qed

end
