(* ===== verification/Elf_Parse.thy ===== *)
theory Elf_Parse
  imports Rust_Iter
begin

section \<open>ELF headers\<close>

text \<open>
  Models \<^verbatim>\<open>elf/src/error.rs\<close> and \<^verbatim>\<open>elf/src/parse.rs\<close>: the bounds-checked field reads, the file header
  checks in their order, and the program headers. Offsets are \<^verbatim>\<open>usize\<close> and \<^verbatim>\<open>u64\<close> values, computed
  without wrap-around as in the source.
\<close>

datatype SegmentError =
    FileSizeExceedsMemSize
  | SegFileRangeOutsideFile
  | AddressMismatch
  | AddressOverflow

datatype ElfError =
    MalformedHeader
  | InvalidMagic
  | UnsupportedClass u8
  | UnsupportedEndian u8
  | UnsupportedVersion u32
  | UnsupportedType u16
  | UnsupportedMachine u16
  | MalformedProgramHeaders
  | InvalidSegment u16 SegmentError
  | InvalidRamRegion
  | SegmentOutsideRam u16
  | OverlappingSegments u16 u16
  | ElfMisalignedEntry u32
  | EntryOutsideSegments u32

definition EHDR_SIZE :: usize where "EHDR_SIZE = 52"
definition PHDR_SIZE :: u16 where "PHDR_SIZE = 32"
definition ELFCLASS32 :: u8 where "ELFCLASS32 = 1"
definition ELFDATA2LSB :: u8 where "ELFDATA2LSB = 1"
definition EV_CURRENT :: u32 where "EV_CURRENT = 1"
definition ET_EXEC :: u16 where "ET_EXEC = 2"
definition EM_RISCV :: u16 where "EM_RISCV = 243"
definition PN_XNUM :: u16 where "PN_XNUM = 0xffff"
definition PT_LOAD :: u32 where "PT_LOAD = 1"

lemmas elf_consts = EHDR_SIZE_def PHDR_SIZE_def ELFCLASS32_def ELFDATA2LSB_def EV_CURRENT_def
  ET_EXEC_def EM_RISCV_def PN_XNUM_def PT_LOAD_def

subsection \<open>Field reads\<close>

definition fields_bytes :: "usize \<Rightarrow> u8 list \<Rightarrow> usize \<Rightarrow> u8 list option" where
  "fields_bytes n f at = slice_get f at (at + n)"

definition fields_u8 :: "u8 list \<Rightarrow> usize \<Rightarrow> u8 option" where
  "fields_u8 f at = (if at < length f then Some (f ! at) else None)"

definition fields_u16 :: "u8 list \<Rightarrow> usize \<Rightarrow> u16 option" where
  "fields_u16 f at = map_option u16_from_le_bytes (fields_bytes 2 f at)"

definition fields_u32 :: "u8 list \<Rightarrow> usize \<Rightarrow> u32 option" where
  "fields_u32 f at = map_option u32_from_le_bytes (fields_bytes 4 f at)"

definition file_len :: "u8 list \<Rightarrow> u64" where
  "file_len elf = length elf"

subsection \<open>The file header\<close>

record Header =
  hdr_entry :: u32
  hdr_phoff :: u32
  hdr_phnum :: u16

definition header :: "u8 list \<Rightarrow> (Header, ElfError) result" where
  "header elf =
     (if length elf < EHDR_SIZE then Err MalformedHeader
      else if fields_bytes 4 elf 0 \<noteq> Some [0x7f, 0x45, 0x4c, 0x46] then Err InvalidMagic
      else
        result_bind (ok_or (fields_u8 elf 4) MalformedHeader) (\<lambda>class_byte.
        if class_byte \<noteq> ELFCLASS32 then Err (UnsupportedClass class_byte) else
        result_bind (ok_or (fields_u8 elf 5) MalformedHeader) (\<lambda>data.
        if data \<noteq> ELFDATA2LSB then Err (UnsupportedEndian data) else
        result_bind (ok_or (fields_u8 elf 6) MalformedHeader) (\<lambda>ident.
        if (ucast ident :: u32) \<noteq> EV_CURRENT then Err (UnsupportedVersion (ucast ident)) else
        result_bind (ok_or (fields_u16 elf 16) MalformedHeader) (\<lambda>e_type.
        if e_type \<noteq> ET_EXEC then Err (UnsupportedType e_type) else
        result_bind (ok_or (fields_u16 elf 18) MalformedHeader) (\<lambda>machine.
        if machine \<noteq> EM_RISCV then Err (UnsupportedMachine machine) else
        result_bind (ok_or (fields_u32 elf 20) MalformedHeader) (\<lambda>version.
        if version \<noteq> EV_CURRENT then Err (UnsupportedVersion version) else
        result_bind (ok_or (fields_u32 elf 24) MalformedHeader) (\<lambda>entry.
        result_bind (ok_or (fields_u32 elf 28) MalformedHeader) (\<lambda>phoff.
        result_bind (ok_or (fields_u16 elf 40) MalformedHeader) (\<lambda>ehsize.
        if unat ehsize \<noteq> EHDR_SIZE then Err MalformedHeader else
        result_bind (ok_or (fields_u16 elf 42) MalformedHeader) (\<lambda>phentsize.
        result_bind (ok_or (fields_u16 elf 44) MalformedHeader) (\<lambda>phnum.
        if phnum = PN_XNUM \<or> (phnum \<noteq> 0 \<and> phentsize \<noteq> PHDR_SIZE) then Err MalformedProgramHeaders else
        if unat phoff + unat phnum * unat PHDR_SIZE > file_len elf then Err MalformedProgramHeaders
        else Ok \<lparr>hdr_entry = entry, hdr_phoff = phoff, hdr_phnum = phnum\<rparr>))))))))))))"

subsection \<open>Program headers\<close>

record ProgramHeader =
  ph_type :: u32
  ph_offset :: u32
  ph_vaddr :: u32
  ph_paddr :: u32
  ph_filesz :: u32
  ph_memsz :: u32

definition program_header :: "u8 list \<Rightarrow> Header \<Rightarrow> u16 \<Rightarrow> (ProgramHeader, ElfError) result" where
  "program_header elf hdr index =
     (let at = unat (hdr_phoff hdr) + unat index * unat PHDR_SIZE;
          field = (\<lambda>n. ok_or (fields_u32 elf (at + n)) MalformedProgramHeaders)
      in result_bind (field 0) (\<lambda>p_type.
         result_bind (field 4) (\<lambda>offset.
         result_bind (field 8) (\<lambda>vaddr.
         result_bind (field 12) (\<lambda>paddr.
         result_bind (field 16) (\<lambda>filesz.
         result_bind (field 20) (\<lambda>memsz.
         Ok \<lparr>ph_type = p_type, ph_offset = offset, ph_vaddr = vaddr, ph_paddr = paddr,
             ph_filesz = filesz, ph_memsz = memsz\<rparr>)))))))"

subsection \<open>What the header checks give\<close>

lemma fields_in_range [simp]:
  "at < length f \<Longrightarrow> fields_u8 f at = Some (f ! at)"
  "at + 2 \<le> length f \<Longrightarrow> fields_u16 f at = Some (u16_from_le_bytes (take 2 (drop at f)))"
  "at + 4 \<le> length f \<Longrightarrow> fields_u32 f at = Some (u32_from_le_bytes (take 4 (drop at f)))"
  by (simp_all add: fields_u8_def fields_u16_def fields_u32_def fields_bytes_def slice_get_def)

text \<open>A read that a prefix of the file allows gives what the whole file gives.\<close>

lemma fields_take:
  "at < n \<Longrightarrow> fields_u8 (take n f) at = fields_u8 f at"
  "at + 2 \<le> n \<Longrightarrow> fields_u16 (take n f) at = fields_u16 f at"
  "at + 4 \<le> n \<Longrightarrow> fields_u32 (take n f) at = fields_u32 f at"
  "at + m \<le> n \<Longrightarrow> fields_bytes m (take n f) at = fields_bytes m f at"
  by (auto simp: fields_u8_def fields_u16_def fields_u32_def fields_bytes_def slice_get_def drop_take min_def)

text \<open>The raw fields of a file of at least a header's length.\<close>

definition raw16 :: "u8 list \<Rightarrow> usize \<Rightarrow> u16" where
  "raw16 f at = u16_from_le_bytes (take 2 (drop at f))"

definition raw32 :: "u8 list \<Rightarrow> usize \<Rightarrow> u32" where
  "raw32 f at = u32_from_le_bytes (take 4 (drop at f))"

definition valid_ident :: "u8 list \<Rightarrow> bool" where
  "valid_ident f \<longleftrightarrow> 52 \<le> length f \<and> take 4 f = [0x7f, 0x45, 0x4c, 0x46] \<and> f ! 4 = 1 \<and> f ! 5 = 1 \<and> f ! 6 = 1
     \<and> raw16 f 16 = 2 \<and> raw16 f 18 = 243 \<and> raw32 f 20 = 1 \<and> raw16 f 40 = 52
     \<and> raw16 f 44 \<noteq> 0xffff \<and> (raw16 f 44 = 0 \<or> raw16 f 42 = 32)"

definition table_end :: "u8 list \<Rightarrow> u64" where
  "table_end f = unat (raw32 f 28) + 32 * unat (raw16 f 44)"

lemma unat_ucast_u8 [simp]: "unat (ucast (b :: u8) :: u32) = unat b"
  using less_trans [OF unat_less_2p8 [of b], of "2 ^ 32"]
  by (simp add: unsigned_ucast_eq take_bit_nat_eq_self)

lemma ucast_u8_eq_1 [simp]: "(ucast (b :: u8) :: u32) = 1 \<longleftrightarrow> b = 1"
proof
  assume "(ucast b :: u32) = 1"
  then have "unat (ucast b :: u32) = 1" by simp
  then have "unat b = 1" unfolding unat_ucast_u8 .
  then show "b = 1" by (simp add: word_unat_eq_iff)
qed simp

lemma header_eq:
  "header f =
     (if length f < 52 then Err MalformedHeader
      else if take 4 f \<noteq> [0x7f, 0x45, 0x4c, 0x46] then Err InvalidMagic
      else if f ! 4 \<noteq> 1 then Err (UnsupportedClass (f ! 4))
      else if f ! 5 \<noteq> 1 then Err (UnsupportedEndian (f ! 5))
      else if f ! 6 \<noteq> 1 then Err (UnsupportedVersion (ucast (f ! 6)))
      else if raw16 f 16 \<noteq> 2 then Err (UnsupportedType (raw16 f 16))
      else if raw16 f 18 \<noteq> 243 then Err (UnsupportedMachine (raw16 f 18))
      else if raw32 f 20 \<noteq> 1 then Err (UnsupportedVersion (raw32 f 20))
      else if raw16 f 40 \<noteq> 52 then Err MalformedHeader
      else if raw16 f 44 = 0xffff \<or> (raw16 f 44 \<noteq> 0 \<and> raw16 f 42 \<noteq> 32) \<or> table_end f > length f
        then Err MalformedProgramHeaders
      else Ok \<lparr>hdr_entry = raw32 f 24, hdr_phoff = raw32 f 28, hdr_phnum = raw16 f 44\<rparr>)"
proof -
  have ehsize: "unat w = 52 \<longleftrightarrow> w = 52" for w :: u16
    by (simp add: word_unat_eq_iff)
  show ?thesis
    by (auto simp: header_def elf_consts raw16_def raw32_def table_end_def file_len_def fields_bytes_def
        slice_get_def ehsize mult.commute)
qed

lemma header_Ok_iff:
  "header f = Ok h \<longleftrightarrow> valid_ident f \<and> table_end f \<le> length f
     \<and> h = \<lparr>hdr_entry = raw32 f 24, hdr_phoff = raw32 f 28, hdr_phnum = raw16 f 44\<rparr>"
  unfolding header_eq valid_ident_def by (auto split: if_splits)

text \<open>The same in two steps: the checks of the fixed fields, then those of the program-header table.\<close>

definition ident_error :: "u8 list \<Rightarrow> ElfError option" where
  "ident_error f =
     (if take 4 f \<noteq> [0x7f, 0x45, 0x4c, 0x46] then Some InvalidMagic
      else if f ! 4 \<noteq> 1 then Some (UnsupportedClass (f ! 4))
      else if f ! 5 \<noteq> 1 then Some (UnsupportedEndian (f ! 5))
      else if f ! 6 \<noteq> 1 then Some (UnsupportedVersion (ucast (f ! 6)))
      else if raw16 f 16 \<noteq> 2 then Some (UnsupportedType (raw16 f 16))
      else if raw16 f 18 \<noteq> 243 then Some (UnsupportedMachine (raw16 f 18))
      else if raw32 f 20 \<noteq> 1 then Some (UnsupportedVersion (raw32 f 20))
      else if raw16 f 40 \<noteq> 52 then Some MalformedHeader
      else None)"

definition table_bad :: "u8 list \<Rightarrow> bool" where
  "table_bad f \<longleftrightarrow> raw16 f 44 = 0xffff \<or> (raw16 f 44 \<noteq> 0 \<and> raw16 f 42 \<noteq> 32)"

definition raw_header :: "u8 list \<Rightarrow> Header" where
  "raw_header f = \<lparr>hdr_entry = raw32 f 24, hdr_phoff = raw32 f 28, hdr_phnum = raw16 f 44\<rparr>"

lemma header_steps:
  assumes "52 \<le> length f"
  shows "header f =
    (case ident_error f of
       Some e \<Rightarrow> Err e
     | None \<Rightarrow> if table_bad f \<or> length f < table_end f then Err MalformedProgramHeaders else Ok (raw_header f))"
proof -
  have "\<not> length f < 52" using assms by simp
  then show ?thesis unfolding header_eq ident_error_def table_bad_def raw_header_def
    by (simp only: if_False de_Morgan_disj de_Morgan_conj not_not if_distrib [of "case_option _ _"]
        option.case disj_assoc cong: if_cong)
qed

lemma ident_error_table: "ident_error f \<noteq> Some MalformedProgramHeaders"
  by (simp add: ident_error_def)

subsection \<open>Prefixes\<close>

lemma raw_take:
  "at + 2 \<le> n \<Longrightarrow> raw16 (take n f) at = raw16 f at"
  "at + 4 \<le> n \<Longrightarrow> raw32 (take n f) at = raw32 f at"
  by (simp_all add: raw16_def raw32_def drop_take min_def)

lemma header_parts_take:
  assumes "52 \<le> n"
  shows "ident_error (take n f) = ident_error f" "table_bad (take n f) = table_bad f"
    "raw_header (take n f) = raw_header f" "table_end (take n f) = table_end f"
proof -
  have "take 4 (take n f) = take 4 f" using assms by (simp add: min_def)
  with assms show "ident_error (take n f) = ident_error f" by (simp add: ident_error_def raw_take)
  show "table_bad (take n f) = table_bad f" "raw_header (take n f) = raw_header f" "table_end (take n f) = table_end f"
    using assms by (simp_all add: table_bad_def raw_header_def table_end_def raw_take)
qed

lemma program_header_take:
  assumes "unat (hdr_phoff h) + 32 * (unat i + 1) \<le> n"
  shows "program_header (take n f) h i = program_header f h i"
proof -
  have "fields_u32 (take n f) (unat (hdr_phoff h) + unat i * 32 + k) = fields_u32 f (unat (hdr_phoff h) + unat i * 32 + k)"
    if "k \<le> 28" for k using assms that by (intro fields_take) simp
  from this this [of 0] show ?thesis by (simp add: program_header_def PHDR_SIZE_def Let_def)
qed

end
