(* ===== verification/Elf_Load.thy ===== *)
theory Elf_Load
  imports Elf_Parse
begin

section \<open>The bare-metal loader\<close>

text \<open>
  Models \<^verbatim>\<open>elf/src/lib.rs\<close>: \<^verbatim>\<open>load_elf32\<close> turns the bytes of an ELF file into the initial contents of the
  RAM and the entry point. The BLAKE3 hash of the file is a parameter: the loader only passes it on.
\<close>

record LoadSegment =
  seg_offset :: u32
  seg_bytes :: "u8 list"

record LoadImage =
  img_segments :: "LoadSegment list"
  img_entry :: u32
  img_hash :: "u8 list"

record Placed =
  pl_index :: u16
  pl_offset :: u32
  pl_bytes :: "u8 list"

definition Placed_end :: "Placed \<Rightarrow> u64" where
  "Placed_end p = unat (pl_offset p) + length (pl_bytes p)"

text \<open>\<^verbatim>\<open>Vec::resize\<close> with zeros.\<close>

definition resize0 :: "u8 list \<Rightarrow> usize \<Rightarrow> u8 list" where
  "resize0 bs n = take n bs @ replicate (n - length bs) 0"

definition place_segment ::
    "u8 list \<Rightarrow> Header \<Rightarrow> u32 \<Rightarrow> u32 \<Rightarrow> u16 \<Rightarrow> (Placed option, ElfError) result" where
  "place_segment elf hdr ram_base ram_size index =
     result_bind (program_header elf hdr index) (\<lambda>ph.
       if ph_type ph \<noteq> PT_LOAD then Ok None
       else if ph_filesz ph > ph_memsz ph then Err (InvalidSegment index FileSizeExceedsMemSize)
       else
         (let file_start = unat (ph_offset ph); file_end = file_start + unat (ph_filesz ph) in
          if file_end > file_len elf then Err (InvalidSegment index SegFileRangeOutsideFile)
          else if ph_memsz ph = 0 then Ok None
          else if ph_vaddr ph \<noteq> ph_paddr ph then Err (InvalidSegment index AddressMismatch)
          else
            (let start = unat (ph_vaddr ph); finish = start + unat (ph_memsz ph);
                 ram_start = unat ram_base; ram_end = ram_start + unat ram_size in
             if finish > 2 ^ 32 then Err (InvalidSegment index AddressOverflow)
             else if start < ram_start \<or> finish > ram_end then Err (SegmentOutsideRam index)
             else
               result_bind (ok_or (slice_get elf file_start file_end)
                   (InvalidSegment index SegFileRangeOutsideFile)) (\<lambda>bytes.
                 Ok (Some \<lparr>pl_index = index, pl_offset = ph_vaddr ph - ram_base,
                           pl_bytes = resize0 bytes (unat (ph_memsz ph))\<rparr>)))))"

definition overlap_check :: "Placed \<Rightarrow> Placed \<Rightarrow> ElfError option" where
  "overlap_check a b =
     (if unat (pl_offset b) < Placed_end a
      then Some (OverlappingSegments (min (pl_index a) (pl_index b)) (max (pl_index a) (pl_index b)))
      else None)"

definition entry_inside :: "u32 \<Rightarrow> u32 \<Rightarrow> Placed \<Rightarrow> bool" where
  "entry_inside ram_base entry p \<longleftrightarrow>
     unat ram_base + unat (pl_offset p) \<le> unat entry \<and> unat entry < unat ram_base + Placed_end p"

definition load_elf32 ::
    "(u8 list \<Rightarrow> u8 list) \<Rightarrow> u8 list \<Rightarrow> u32 \<Rightarrow> u32 \<Rightarrow> (LoadImage, ElfError) result" where
  "load_elf32 blake3 elf ram_base ram_size =
     (if ram_size = 0 \<or> unat ram_base + unat ram_size > 2 ^ 32 then Err InvalidRamRegion
      else
        result_bind (header elf) (\<lambda>hdr.
        result_bind (try_filter_map (place_segment elf hdr ram_base ram_size) (u16_range (hdr_phnum hdr))) (\<lambda>found.
          let placed = sort_key pl_offset found in
          result_bind (windows_check overlap_check placed) (\<lambda>_.
            let entry = hdr_entry hdr in
            if unat entry mod 4 \<noteq> 0 then Err (ElfMisalignedEntry entry)
            else if \<not> list_ex (entry_inside ram_base entry) placed then Err (EntryOutsideSegments entry)
            else Ok \<lparr>img_segments = map (\<lambda>p. \<lparr>seg_offset = pl_offset p, seg_bytes = pl_bytes p\<rparr>) placed,
                     img_entry = entry, img_hash = blake3 elf\<rparr>))))"

subsection \<open>What a loaded image is\<close>

text \<open>The memory image of a program header: its file bytes, then zeros.\<close>

definition ph_memory :: "u8 list \<Rightarrow> ProgramHeader \<Rightarrow> u8 list" where
  "ph_memory elf ph = take (unat (ph_filesz ph)) (drop (unat (ph_offset ph)) elf)
     @ replicate (unat (ph_memsz ph) - unat (ph_filesz ph)) 0"

definition seg_end :: "LoadSegment \<Rightarrow> u64" where
  "seg_end s = unat (seg_offset s) + length (seg_bytes s)"

lemma place_segment_Some:
  assumes "place_segment elf hdr ram_base ram_size index = Ok (Some p)"
  obtains ph where "program_header elf hdr index = Ok ph" and "ph_type ph = PT_LOAD"
    and "0 < unat (ph_memsz ph)" and "unat (ph_filesz ph) \<le> unat (ph_memsz ph)"
    and "ph_paddr ph = ph_vaddr ph"
    and "unat (ph_offset ph) + unat (ph_filesz ph) \<le> length elf"
    and "unat ram_base \<le> unat (ph_vaddr ph)"
    and "unat (ph_vaddr ph) + unat (ph_memsz ph) \<le> unat ram_base + unat ram_size"
    and "p = \<lparr>pl_index = index, pl_offset = ph_vaddr ph - ram_base, pl_bytes = ph_memory elf ph\<rparr>"
proof -
  from assms obtain ph where ph: "program_header elf hdr index = Ok ph"
    by (auto simp: place_segment_def)
  show thesis
    using assms ph
    by (intro that [of ph])
      (auto simp: place_segment_def Let_def resize0_def ph_memory_def file_len_def word_le_nat_alt
        not_less word_less_nat_alt unat_gt_0 min_def split: if_splits)
qed

lemma unat_diff_exact: "unat (b :: u32) \<le> unat a \<Longrightarrow> unat (a - b) = unat a - unat b"
  by (simp add: unat_sub_if')

lemma placed_bounds:
  assumes "place_segment elf hdr ram_base ram_size index = Ok (Some p)"
  shows "0 < length (pl_bytes p)" and "Placed_end p \<le> unat ram_size"
proof -
  from assms obtain ph where ph: "0 < unat (ph_memsz ph)" "unat (ph_filesz ph) \<le> unat (ph_memsz ph)"
    "unat (ph_offset ph) + unat (ph_filesz ph) \<le> length elf"
    "unat ram_base \<le> unat (ph_vaddr ph)"
    "unat (ph_vaddr ph) + unat (ph_memsz ph) \<le> unat ram_base + unat ram_size"
    "p = \<lparr>pl_index = index, pl_offset = ph_vaddr ph - ram_base, pl_bytes = ph_memory elf ph\<rparr>"
    by (rule place_segment_Some)
  then have "length (pl_bytes p) = unat (ph_memsz ph)" by (auto simp: ph_memory_def min_def)
  with ph show "0 < length (pl_bytes p)" "Placed_end p \<le> unat ram_size"
    by (simp_all add: Placed_end_def unat_diff_exact)
qed

lemma load_elf32_Ok:
  assumes "load_elf32 blake3 elf ram_base ram_size = Ok img"
  obtains hdr found where "header elf = Ok hdr"
    and "try_filter_map (place_segment elf hdr ram_base ram_size) (u16_range (hdr_phnum hdr)) = Ok found"
    and "windows_check overlap_check (sort_key pl_offset found) = Ok ()"
    and "unat (hdr_entry hdr) mod 4 = 0"
    and "\<exists>p\<in>set found. entry_inside ram_base (hdr_entry hdr) p"
    and "img = \<lparr>img_segments = map (\<lambda>p. \<lparr>seg_offset = pl_offset p, seg_bytes = pl_bytes p\<rparr>) (sort_key pl_offset found),
         img_entry = hdr_entry hdr, img_hash = blake3 elf\<rparr>"
proof -
  from assms obtain hdr where hdr: "header elf = Ok hdr"
    by (auto simp: load_elf32_def Let_def split: if_splits)
  from assms hdr obtain found where found:
    "try_filter_map (place_segment elf hdr ram_base ram_size) (u16_range (hdr_phnum hdr)) = Ok found"
    by (auto simp: load_elf32_def Let_def split: if_splits)
  show thesis
    by (rule that [OF hdr found])
      (use assms hdr found in \<open>auto simp: load_elf32_def Let_def list_ex_iff split: if_splits\<close>)
qed

text \<open>
  A loaded image is well formed, whatever the file: its segments are not empty, lie inside the RAM,
  are in ascending order and do not overlap, and its entry point is aligned and inside a segment.
\<close>

theorem load_elf32_layout:
  assumes "load_elf32 blake3 elf ram_base ram_size = Ok img"
  shows "(\<forall>s\<in>set (img_segments img). seg_bytes s \<noteq> [] \<and> seg_end s \<le> unat ram_size)
    \<and> sorted_wrt (\<lambda>a b. seg_end a \<le> unat (seg_offset b)) (img_segments img)
    \<and> unat (img_entry img) mod 4 = 0
    \<and> (\<exists>s\<in>set (img_segments img). unat ram_base + unat (seg_offset s) \<le> unat (img_entry img)
         \<and> unat (img_entry img) < unat ram_base + seg_end s)"
proof -
  from assms obtain hdr found where found:
    "try_filter_map (place_segment elf hdr ram_base ram_size) (u16_range (hdr_phnum hdr)) = Ok found"
    "windows_check overlap_check (sort_key pl_offset found) = Ok ()"
    "unat (hdr_entry hdr) mod 4 = 0" "\<exists>p\<in>set found. entry_inside ram_base (hdr_entry hdr) p"
    and img: "img = \<lparr>img_segments = map (\<lambda>p. \<lparr>seg_offset = pl_offset p, seg_bytes = pl_bytes p\<rparr>) (sort_key pl_offset found),
         img_entry = hdr_entry hdr, img_hash = blake3 elf\<rparr>"
    by (rule load_elf32_Ok)
  have bounds: "0 < length (pl_bytes p)" "Placed_end p \<le> unat ram_size" if "p \<in> set found" for p
    using that placed_bounds try_filter_map_set [OF found(1), of p] by blast+
  have "sorted_wrt (\<lambda>a b. Placed_end a \<le> unat (pl_offset b)) (sort_key pl_offset found)"
  proof (rule windows_check_Ok [OF found(2)])
    show "Placed_end a \<le> unat (pl_offset b)" if "overlap_check a b = None" for a b
      using that by (auto simp: overlap_check_def split: if_splits)
    show "Placed_end a \<le> unat (pl_offset c)"
      if "Placed_end a \<le> unat (pl_offset b)" "Placed_end b \<le> unat (pl_offset c)" for a b c
      using that by (simp add: Placed_end_def)
  qed
  then have "sorted_wrt (\<lambda>a b. seg_end a \<le> unat (seg_offset b)) (img_segments img)"
    by (simp add: img seg_end_def Placed_end_def sorted_wrt_map)
  with bounds found(3,4) show ?thesis
    by (fastforce simp: img seg_end_def Placed_end_def entry_inside_def)
qed

text \<open>
  C36. The image holds exactly what the file says: its segments are the memory images (file bytes, then
  zeros) of the \<^verbatim>\<open>PT_LOAD\<close> program headers with a nonzero size, each at its address relative to the
  RAM; every such header has equal addresses and sizes in range, and the entry and hash are the file's.
\<close>

theorem load_elf32_contents:
  assumes "load_elf32 blake3 elf ram_base ram_size = Ok img"
  shows "\<exists>hdr. header elf = Ok hdr \<and> img_entry img = hdr_entry hdr \<and> img_hash img = blake3 elf
    \<and> set (img_segments img) =
        {\<lparr>seg_offset = ph_vaddr ph - ram_base, seg_bytes = ph_memory elf ph\<rparr> | ph.
           \<exists>i<hdr_phnum hdr. program_header elf hdr i = Ok ph \<and> ph_type ph = PT_LOAD \<and> ph_memsz ph \<noteq> 0}"
proof -
  from assms obtain hdr found where hdr: "header elf = Ok hdr" and found:
    "try_filter_map (place_segment elf hdr ram_base ram_size) (u16_range (hdr_phnum hdr)) = Ok found"
    and img: "img = \<lparr>img_segments = map (\<lambda>p. \<lparr>seg_offset = pl_offset p, seg_bytes = pl_bytes p\<rparr>) (sort_key pl_offset found),
         img_entry = hdr_entry hdr, img_hash = blake3 elf\<rparr>"
    by (rule load_elf32_Ok)
  have placed: "p \<in> set found \<longleftrightarrow> (\<exists>i<hdr_phnum hdr. place_segment elf hdr ram_base ram_size i = Ok (Some p))" for p
    using try_filter_map_set [OF found, of p] by (auto simp: set_u16_range)
  have there: "\<exists>p\<in>set found. pl_offset p = ph_vaddr ph - ram_base \<and> pl_bytes p = ph_memory elf ph"
    if i: "i < hdr_phnum hdr" "program_header elf hdr i = Ok ph" "ph_type ph = PT_LOAD" "ph_memsz ph \<noteq> 0" for i ph
  proof -
    obtain r where r: "place_segment elf hdr ram_base ram_size i = Ok r"
      using try_filter_map_all [OF found, of i] i(1) by (auto simp: set_u16_range)
    obtain p where p: "r = Some p"
      using r i by (auto simp: place_segment_def Let_def split: if_splits)
    moreover have "pl_offset p = ph_vaddr ph - ram_base \<and> pl_bytes p = ph_memory elf ph"
      using r unfolding p by (rule place_segment_Some) (use i in auto)
    ultimately show ?thesis using placed r i(1) by blast
  qed
  have origin: "\<exists>ph. \<exists>i<hdr_phnum hdr. program_header elf hdr i = Ok ph \<and> ph_type ph = PT_LOAD \<and> ph_memsz ph \<noteq> 0
      \<and> pl_offset p = ph_vaddr ph - ram_base \<and> pl_bytes p = ph_memory elf ph" if p: "p \<in> set found" for p
  proof -
    obtain i where i: "i < hdr_phnum hdr" "place_segment elf hdr ram_base ram_size i = Ok (Some p)"
      using p placed by blast
    show ?thesis using i(2) by (rule place_segment_Some) (use i(1) in force)
  qed
  have "set (img_segments img) =
      {\<lparr>seg_offset = ph_vaddr ph - ram_base, seg_bytes = ph_memory elf ph\<rparr> | ph.
         \<exists>i<hdr_phnum hdr. program_header elf hdr i = Ok ph \<and> ph_type ph = PT_LOAD \<and> ph_memsz ph \<noteq> 0}"
    (is "?l = ?r")
  proof
    show "?l \<subseteq> ?r" using origin by (fastforce simp: img)
    show "?r \<subseteq> ?l"
    proof clarify
      fix ph i
      assume "i < hdr_phnum hdr" "program_header elf hdr i = Ok ph" "ph_type ph = PT_LOAD" "ph_memsz ph \<noteq> 0"
      from there [OF this] obtain p where "p \<in> set found"
        "pl_offset p = ph_vaddr ph - ram_base" "pl_bytes p = ph_memory elf ph" by blast
      then show "\<lparr>seg_offset = ph_vaddr ph - ram_base, seg_bytes = ph_memory elf ph\<rparr> \<in> ?l"
        by (force simp: img image_iff)
    qed
  qed
  with hdr img show ?thesis by simp
qed

subsection \<open>A small executable\<close>

text \<open>One segment of four file bytes and four zeros at \<^verbatim>\<open>0x80000000\<close>.\<close>

definition tiny_elf :: "u8 list" where
  "tiny_elf =
     [0x7f, 0x45, 0x4c, 0x46, 1, 1, 1, 0, 0, 0, 0, 0, 0, 0, 0, 0,
      2, 0, 243, 0, 1, 0, 0, 0, 0, 0, 0, 0x80, 52, 0, 0, 0,
      0, 0, 0, 0, 0, 0, 0, 0, 52, 0, 32, 0, 1, 0, 0, 0, 0, 0, 0, 0,
      1, 0, 0, 0, 84, 0, 0, 0, 0, 0, 0, 0x80, 0, 0, 0, 0x80,
      4, 0, 0, 0, 8, 0, 0, 0, 5, 0, 0, 0, 4, 0, 0, 0,
      0x13, 0, 0, 0]"

lemma tiny_elf_header: "header tiny_elf = Ok \<lparr>hdr_entry = 0x80000000, hdr_phoff = 52, hdr_phnum = 1\<rparr>"
  by (simp add: header_eq raw16_def raw32_def table_end_def tiny_elf_def u16_from_le_bytes_def u32_from_le_bytes_def)

lemma tiny_elf_program_header:
  "program_header tiny_elf \<lparr>hdr_entry = 0x80000000, hdr_phoff = 52, hdr_phnum = 1\<rparr> 0 =
     Ok \<lparr>ph_type = 1, ph_offset = 84, ph_vaddr = 0x80000000, ph_paddr = 0x80000000, ph_filesz = 4, ph_memsz = 8\<rparr>"
  by (simp add: program_header_def elf_consts tiny_elf_def u32_from_le_bytes_def)

lemma tiny_elf_loads:
  "load_elf32 (\<lambda>_. []) tiny_elf 0x80000000 0x1000 =
     Ok \<lparr>img_segments = [\<lparr>seg_offset = 0, seg_bytes = [0x13, 0, 0, 0, 0, 0, 0, 0]\<rparr>],
         img_entry = 0x80000000, img_hash = []\<rparr>"
  by (simp add: load_elf32_def tiny_elf_header u16_range_def place_segment_def tiny_elf_program_header
      elf_consts file_len_def Let_def entry_inside_def Placed_end_def resize0_def slice_get_def)
    (simp add: tiny_elf_def numeral_eq_Suc)

theorem load_elf32_layout_witness:
  "sorted_wrt (\<lambda>a b. seg_end a \<le> unat (seg_offset b))
     (img_segments (projr (load_elf32 (\<lambda>_. []) tiny_elf 0x80000000 0x1000)))"
  using load_elf32_layout [OF tiny_elf_loads] by (simp add: tiny_elf_loads)

theorem load_elf32_contents_witness:
  "\<exists>hdr. header tiny_elf = Ok hdr \<and>
     {\<lparr>seg_offset = 0, seg_bytes = [0x13, 0, 0, 0, 0, 0, 0, 0]\<rparr>} =
     {\<lparr>seg_offset = ph_vaddr ph - 0x80000000, seg_bytes = ph_memory tiny_elf ph\<rparr> | ph.
        \<exists>i<hdr_phnum hdr. program_header tiny_elf hdr i = Ok ph \<and> ph_type ph = PT_LOAD \<and> ph_memsz ph \<noteq> 0}"
  using load_elf32_contents [OF tiny_elf_loads] by auto

end
