(* ===== verification/Elf_User.thy ===== *)
theory Elf_User
  imports Elf_Parse
begin

section \<open>User executables\<close>

text \<open>
  Models \<^verbatim>\<open>elf/src/user.rs\<close>: the validation of a user executable from a prefix of its file, and the
  page-by-page plan by which the kernel maps it. The properties say that a plan fills every page with
  the memory the program headers describe, and that the prefix is enough: what is accepted or
  rejected from a prefix is what the whole file would give.
\<close>

definition MAX_PHDRS :: u16 where "MAX_PHDRS = 16"
definition USER_PAGE_SIZE :: u32 where "USER_PAGE_SIZE = 4096"
definition PF_X :: u32 where "PF_X = 1"
definition PF_W :: u32 where "PF_W = 2"
definition PF_R :: u32 where "PF_R = 4"
definition P_FLAGS :: u64 where "P_FLAGS = 24"

record Perms =
  perm_read :: bool
  perm_write :: bool
  perm_execute :: bool

record FileCopy =
  fc_file_offset :: u32
  fc_page_offset :: u32
  fc_len :: u32

record PagePlan =
  pp_va :: u32
  pp_perms :: Perms
  pp_copy :: "FileCopy option"

record UserSegment =
  us_index :: u16
  us_vaddr :: u32
  us_memsz :: u32
  us_perms :: Perms
  us_pages :: "PagePlan list"

record UserImage =
  ui_entry :: u32
  ui_segments :: "UserSegment list"

datatype UserElfError =
    HeaderError ElfError
  | PrefixLongerThanFile
  | PrefixTooShort u32
  | InvalidUserRange
  | PhdrCountExceeded u16
  | InvalidSegmentSize u16
  | FileRangeOutsideFile u16
  | NoPermission u16
  | WriteWithoutRead u16
  | SegmentOutsideUserRange u16
  | SegmentOverlap u16 u16
  | SharedPage u16 u16
  | MisalignedEntry u32
  | EntryNotExecutable u32

text \<open>\<^verbatim>\<open>From<ElfError>\<close>, applied by \<^verbatim>\<open>?\<close>.\<close>

definition header_error :: "('a, ElfError) result \<Rightarrow> ('a, UserElfError) result" where
  "header_error r = (case r of Ok x \<Rightarrow> Ok x | Err e \<Rightarrow> Err (HeaderError e))"

subsection \<open>Checked segments and their pages\<close>

record Checked =
  ck_index :: u16
  ck_offset :: u32
  ck_vaddr :: u32
  ck_filesz :: u32
  ck_memsz :: u32
  ck_perms :: Perms

definition narrow :: "u64 \<Rightarrow> u32" where
  "narrow v = (if v < 2 ^ 32 then of_nat v else - 1)"

definition Checked_end :: "Checked \<Rightarrow> u64" where
  "Checked_end s = unat (ck_vaddr s) + unat (ck_memsz s)"

definition last_page :: "Checked \<Rightarrow> u64" where
  "last_page s = (Checked_end s - 1) div unat USER_PAGE_SIZE"

definition first_page :: "Checked \<Rightarrow> u64" where
  "first_page s = unat (ck_vaddr s) div unat USER_PAGE_SIZE"

definition page_plan :: "Checked \<Rightarrow> u64 \<Rightarrow> PagePlan" where
  "page_plan s n =
     (let page = unat USER_PAGE_SIZE;
          file_start = unat (ck_vaddr s);
          file_end = file_start + unat (ck_filesz s);
          va = n * page;
          from = max file_start va;
          to = min file_end (va + page)
      in \<lparr>pp_va = narrow va, pp_perms = ck_perms s,
          pp_copy = (if from < to
            then Some \<lparr>fc_file_offset = narrow (unat (ck_offset s) + (from - file_start)),
                       fc_page_offset = narrow (from - va), fc_len = narrow (to - from)\<rparr>
            else None)\<rparr>)"

definition Checked_pages :: "Checked \<Rightarrow> PagePlan list" where
  "Checked_pages s = map (page_plan s) [first_page s..<last_page s + 1]"

subsection \<open>The checks\<close>

definition checked_header :: "u8 list \<Rightarrow> u32 \<Rightarrow> (Header, UserElfError) result" where
  "checked_header prefix flen =
     (let file_len = unat flen; prefix_len = length prefix in
      if prefix_len > file_len then Err PrefixLongerThanFile
      else if prefix_len < EHDR_SIZE then
        Err (if file_len < EHDR_SIZE then HeaderError MalformedHeader
             else PrefixTooShort (of_nat EHDR_SIZE))
      else
        (case header prefix of
           Ok h \<Rightarrow> if hdr_phnum h > MAX_PHDRS then Err (PhdrCountExceeded (hdr_phnum h)) else Ok h
         | Err MalformedProgramHeaders \<Rightarrow>
             (let field = (\<lambda>at. map_option u16_from_le_bytes (slice_get prefix at (at + 2)));
                  phentsize = (case field 42 of None \<Rightarrow> 0 | Some v \<Rightarrow> v);
                  phnum = (case field 44 of None \<Rightarrow> 0 | Some v \<Rightarrow> v);
                  phoff = (case slice_get prefix 28 32 of None \<Rightarrow> 0 | Some b \<Rightarrow> u32_from_le_bytes b)
              in if phnum = PN_XNUM \<or> (phnum \<noteq> 0 \<and> phentsize \<noteq> PHDR_SIZE)
                 then Err (HeaderError MalformedProgramHeaders)
                 else if phnum > MAX_PHDRS then Err (PhdrCountExceeded phnum)
                 else
                   (let table_end = unat phoff + unat phnum * unat PHDR_SIZE in
                    if table_end \<le> file_len then Err (PrefixTooShort (narrow table_end))
                    else Err (HeaderError MalformedProgramHeaders)))
         | Err e \<Rightarrow> Err (HeaderError e)))"

definition p_flags :: "u8 list \<Rightarrow> u32 \<Rightarrow> u16 \<Rightarrow> (u32, UserElfError) result" where
  "p_flags prefix phoff index =
     (let at = unat phoff + unat index * unat PHDR_SIZE + P_FLAGS in
      ok_or (map_option u32_from_le_bytes (slice_get prefix at (at + 4)))
        (HeaderError MalformedProgramHeaders))"

definition check_segment ::
    "u8 list \<Rightarrow> u32 \<Rightarrow> u32 \<times> u32 \<Rightarrow> Header \<Rightarrow> u16 \<Rightarrow> (Checked option, UserElfError) result" where
  "check_segment prefix flen user_range hdr index =
     result_bind (header_error (program_header prefix hdr index)) (\<lambda>ph.
       if ph_type ph \<noteq> PT_LOAD then Ok None
       else if ph_filesz ph > ph_memsz ph then Err (InvalidSegmentSize index)
       else if unat (ph_offset ph) + unat (ph_filesz ph) > unat flen then Err (FileRangeOutsideFile index)
       else if ph_memsz ph = 0 then Ok None
       else
         result_bind (p_flags prefix (hdr_phoff hdr) index) (\<lambda>flags.
           let perms = \<lparr>perm_read = flags AND PF_R \<noteq> 0, perm_write = flags AND PF_W \<noteq> 0,
                        perm_execute = flags AND PF_X \<noteq> 0\<rparr> in
           if \<not> perm_read perms \<and> \<not> perm_write perms \<and> \<not> perm_execute perms then Err (NoPermission index)
           else if perm_write perms \<and> \<not> perm_read perms then Err (WriteWithoutRead index)
           else
             (let segment = \<lparr>ck_index = index, ck_offset = ph_offset ph, ck_vaddr = ph_vaddr ph,
                    ck_filesz = ph_filesz ph, ck_memsz = ph_memsz ph, ck_perms = perms\<rparr> in
              if ph_vaddr ph < fst user_range \<or> Checked_end segment > unat (snd user_range)
              then Err (SegmentOutsideUserRange index)
              else Ok (Some segment))))"

definition page_check :: "Checked \<Rightarrow> Checked \<Rightarrow> UserElfError option" where
  "page_check a b =
     (let first = min (ck_index a) (ck_index b); second = max (ck_index a) (ck_index b) in
      if unat (ck_vaddr b) < Checked_end a then Some (SegmentOverlap first second)
      else if first_page b \<le> last_page a then Some (SharedPage first second)
      else None)"

definition runs_entry :: "u32 \<Rightarrow> Checked \<Rightarrow> bool" where
  "runs_entry entry s \<longleftrightarrow> perm_execute (ck_perms s) \<and>
     unat (ck_vaddr s) \<le> unat entry \<and> unat entry < Checked_end s"

definition user_segment :: "Checked \<Rightarrow> UserSegment" where
  "user_segment s = \<lparr>us_index = ck_index s, us_vaddr = ck_vaddr s, us_memsz = ck_memsz s,
     us_perms = ck_perms s, us_pages = Checked_pages s\<rparr>"

definition parse_user_elf32 :: "u8 list \<Rightarrow> u32 \<Rightarrow> u32 \<times> u32 \<Rightarrow> (UserImage, UserElfError) result" where
  "parse_user_elf32 prefix flen user_range =
     (let aligned = (\<lambda>v. unat v mod unat USER_PAGE_SIZE = 0) in
      if \<not> fst user_range < snd user_range \<or> \<not> aligned (fst user_range) \<or> \<not> aligned (snd user_range)
      then Err InvalidUserRange
      else
        result_bind (checked_header prefix flen) (\<lambda>hdr.
        result_bind (try_filter_map (check_segment prefix flen user_range hdr) (u16_range (hdr_phnum hdr))) (\<lambda>found.
          let checked = sort_key ck_vaddr found in
          result_bind (windows_check page_check checked) (\<lambda>_.
            let entry = hdr_entry hdr in
            if unat entry mod 4 \<noteq> 0 then Err (MisalignedEntry entry)
            else if \<not> list_ex (runs_entry entry) checked then Err (EntryNotExecutable entry)
            else Ok \<lparr>ui_entry = entry, ui_segments = map user_segment checked\<rparr>))))"

lemmas user_consts = elf_consts MAX_PHDRS_def USER_PAGE_SIZE_def PF_X_def PF_W_def PF_R_def P_FLAGS_def

subsection \<open>What the plan of a page fills it with\<close>

text \<open>Byte \<open>k\<close> of a page filled by its plan, and byte \<open>a\<close> of the memory a program header describes.\<close>

definition plan_byte :: "u8 list \<Rightarrow> PagePlan \<Rightarrow> nat \<Rightarrow> u8" where
  "plan_byte file p k =
     (case pp_copy p of
        None \<Rightarrow> 0
      | Some c \<Rightarrow>
          if unat (fc_page_offset c) \<le> k \<and> k < unat (fc_page_offset c) + unat (fc_len c)
          then file ! (unat (fc_file_offset c) + (k - unat (fc_page_offset c))) else 0)"

definition segment_byte :: "u8 list \<Rightarrow> ProgramHeader \<Rightarrow> nat \<Rightarrow> u8" where
  "segment_byte file ph a =
     (if unat (ph_vaddr ph) \<le> a \<and> a < unat (ph_vaddr ph) + unat (ph_filesz ph)
      then file ! (unat (ph_offset ph) + (a - unat (ph_vaddr ph))) else 0)"

definition checked_ok :: "u32 \<Rightarrow> u32 \<times> u32 \<Rightarrow> Checked \<Rightarrow> bool" where
  "checked_ok flen urange s \<longleftrightarrow> 0 < unat (ck_memsz s) \<and> unat (ck_filesz s) \<le> unat (ck_memsz s)
     \<and> unat (ck_offset s) + unat (ck_filesz s) \<le> unat flen
     \<and> unat (fst urange) \<le> unat (ck_vaddr s) \<and> Checked_end s \<le> unat (snd urange)
     \<and> (perm_read (ck_perms s) \<or> perm_write (ck_perms s) \<or> perm_execute (ck_perms s))
     \<and> (perm_write (ck_perms s) \<longrightarrow> perm_read (ck_perms s))"

lemma unat_narrow [simp]: "v < 2 ^ 32 \<Longrightarrow> unat (narrow v) = v"
  by (simp add: narrow_def unat_of_nat)

lemma last_page_bound:
  assumes "checked_ok flen urange s" and "n \<le> last_page s"
  shows "n * 4096 < Checked_end s"
proof -
  have "n * 4096 \<le> last_page s * 4096" using assms(2) by simp
  also have "\<dots> \<le> Checked_end s - 1" by (simp add: last_page_def USER_PAGE_SIZE_def)
  finally show ?thesis using assms(1) by (auto simp: checked_ok_def Checked_end_def)
qed

lemma checked_small:
  assumes "checked_ok flen urange s"
  shows "Checked_end s < 4294967296" and "unat (ck_offset s) + unat (ck_filesz s) < 4294967296"
    and "unat (ck_vaddr s) + unat (ck_filesz s) \<le> Checked_end s"
proof -
  show "Checked_end s < 4294967296"
    by (rule le_less_trans [OF _ unat_less_2p32 [of "snd urange"]]) (use assms in \<open>simp add: checked_ok_def\<close>)
  show "unat (ck_offset s) + unat (ck_filesz s) < 4294967296"
    by (rule le_less_trans [OF _ unat_less_2p32 [of flen]]) (use assms in \<open>simp add: checked_ok_def\<close>)
  show "unat (ck_vaddr s) + unat (ck_filesz s) \<le> Checked_end s"
    using assms by (simp add: checked_ok_def Checked_end_def)
qed

lemma page_plan_va:
  assumes "checked_ok flen urange s" and "n \<le> last_page s"
  shows "unat (pp_va (page_plan s n)) = n * 4096"
proof -
  have "n * 4096 < 2 ^ 32"
    using last_page_bound [OF assms] checked_small(1) [OF assms(1)] by simp
  then show ?thesis by (simp add: page_plan_def Let_def USER_PAGE_SIZE_def)
qed

lemma plan_byte_window:
  assumes "lo < hi" "va \<le> lo" "hi \<le> va + 4096" "hi < 2 ^ 32" "base \<le> lo" "off + (lo - base) < 2 ^ 32" "k < 4096"
  shows "plan_byte file \<lparr>pp_va = v, pp_perms = pr, pp_copy = Some
      \<lparr>fc_file_offset = narrow (off + (lo - base)), fc_page_offset = narrow (lo - va), fc_len = narrow (hi - lo)\<rparr>\<rparr> k
    = (if lo \<le> va + k \<and> va + k < hi then file ! (off + (va + k - base)) else 0)"
proof -
  have n: "unat (narrow (lo - va)) = lo - va" "unat (narrow (hi - lo)) = hi - lo"
    "unat (narrow (off + (lo - base))) = off + (lo - base)"
    using assms by simp_all
  have idx: "off + (lo - base) + (k - (lo - va)) = off + (va + k - base)" if "lo \<le> va + k"
    using that assms by simp
  have window: "lo - va \<le> k \<and> k < lo - va + (hi - lo) \<longleftrightarrow> lo \<le> va + k \<and> va + k < hi"
    using assms by auto
  show ?thesis using idx by (simp only: plan_byte_def PagePlan.select_convs FileCopy.select_convs
    option.case n window) auto
qed

lemma plan_byte_page_plan:
  assumes ok: "checked_ok flen urange s" and n: "n \<le> last_page s" and k: "k < 4096"
  shows "plan_byte file (page_plan s n) k =
    (if unat (ck_vaddr s) \<le> n * 4096 + k \<and> n * 4096 + k < unat (ck_vaddr s) + unat (ck_filesz s)
     then file ! (unat (ck_offset s) + (n * 4096 + k - unat (ck_vaddr s))) else 0)"
proof -
  let ?fs = "unat (ck_vaddr s)" and ?fe = "unat (ck_vaddr s) + unat (ck_filesz s)"
  let ?from = "max ?fs (n * 4096)" and ?to = "min ?fe (n * 4096 + 4096)"
  have small: "?fe < 2 ^ 32" "unat (ck_offset s) + unat (ck_filesz s) < 2 ^ 32"
    using checked_small [OF ok] by simp_all
  show ?thesis
  proof (cases "?from < ?to")
    case True
    have plan: "page_plan s n = \<lparr>pp_va = narrow (n * 4096), pp_perms = ck_perms s, pp_copy = Some
        \<lparr>fc_file_offset = narrow (unat (ck_offset s) + (?from - ?fs)), fc_page_offset = narrow (?from - n * 4096),
         fc_len = narrow (?to - ?from)\<rparr>\<rparr>"
      using True by (simp add: page_plan_def Let_def USER_PAGE_SIZE_def)
    have "?from - ?fs < unat (ck_filesz s)" using True by (auto simp: max_def)
    then have "unat (ck_offset s) + (?from - ?fs) < 2 ^ 32" using small(2) by linarith
    moreover have "?from \<le> n * 4096 + k \<and> n * 4096 + k < ?to \<longleftrightarrow> ?fs \<le> n * 4096 + k \<and> n * 4096 + k < ?fe"
      using k by auto
    ultimately show ?thesis
      unfolding plan using True small(1) k
      by (subst plan_byte_window) simp_all
  next
    case False
    then have "pp_copy (page_plan s n) = None" by (auto simp: page_plan_def Let_def USER_PAGE_SIZE_def)
    then have "plan_byte file (page_plan s n) k = 0" by (simp add: plan_byte_def)
    then show ?thesis using False k by auto
  qed
qed

subsection \<open>What an accepted image is\<close>

lemma check_segment_Some:
  assumes "check_segment prefix flen urange hdr index = Ok (Some s)"
  obtains ph where "program_header prefix hdr index = Ok ph" and "ph_type ph = PT_LOAD"
    and "checked_ok flen urange s" and "ck_offset s = ph_offset ph" "ck_vaddr s = ph_vaddr ph"
      "ck_filesz s = ph_filesz ph" "ck_memsz s = ph_memsz ph"
proof -
  from assms obtain ph where ph: "program_header prefix hdr index = Ok ph"
    by (auto simp: check_segment_def header_error_def split: sum.splits)
  show thesis
    using assms ph
    by (intro that [of ph])
      (auto simp: check_segment_def header_error_def Let_def checked_ok_def Checked_end_def not_less
        word_le_nat_alt word_less_nat_alt unat_gt_0 split: if_splits)
qed

lemma parse_user_Ok:
  assumes "parse_user_elf32 prefix flen urange = Ok img"
  obtains hdr found where "checked_header prefix flen = Ok hdr"
    and "try_filter_map (check_segment prefix flen urange hdr) (u16_range (hdr_phnum hdr)) = Ok found"
    and "windows_check page_check (sort_key ck_vaddr found) = Ok ()"
    and "unat (hdr_entry hdr) mod 4 = 0" and "\<exists>s\<in>set found. runs_entry (hdr_entry hdr) s"
    and "img = \<lparr>ui_entry = hdr_entry hdr, ui_segments = map user_segment (sort_key ck_vaddr found)\<rparr>"
proof -
  from assms obtain hdr where hdr: "checked_header prefix flen = Ok hdr"
    by (auto simp: parse_user_elf32_def Let_def split: if_splits)
  from assms hdr obtain found where found:
    "try_filter_map (check_segment prefix flen urange hdr) (u16_range (hdr_phnum hdr)) = Ok found"
    by (auto simp: parse_user_elf32_def Let_def split: if_splits)
  show thesis
    by (rule that [OF hdr found])
      (use assms hdr found in \<open>auto simp: parse_user_elf32_def Let_def list_ex_iff split: if_splits\<close>)
qed

text \<open>
  C35. The plan of an accepted executable is its memory: every segment comes from a \<^verbatim>\<open>PT_LOAD\<close> program
  header, its pages are exactly the pages its memory touches, in order, and each page, filled by its
  plan from the file, holds at every address the byte the program header gives that address: the
  file byte inside \<^verbatim>\<open>p_filesz\<close>, zero elsewhere.
\<close>

theorem user_plan_is_segment_memory:
  assumes "parse_user_elf32 prefix flen urange = Ok img" and "s \<in> set (ui_segments img)"
  shows "\<exists>hdr ph. checked_header prefix flen = Ok hdr \<and> us_index s < hdr_phnum hdr
    \<and> program_header prefix hdr (us_index s) = Ok ph \<and> ph_type ph = PT_LOAD
    \<and> us_vaddr s = ph_vaddr ph \<and> us_memsz s = ph_memsz ph
    \<and> map (\<lambda>p. unat (pp_va p)) (us_pages s) =
        map (\<lambda>n. n * 4096) [unat (ph_vaddr ph) div 4096 ..< Suc ((unat (ph_vaddr ph) + unat (ph_memsz ph) - 1) div 4096)]
    \<and> (\<forall>p\<in>set (us_pages s). pp_perms p = us_perms s \<and>
         (\<forall>k<4096. plan_byte file p k = segment_byte file ph (unat (pp_va p) + k)))"
proof -
  from assms(1) obtain hdr found where hdr: "checked_header prefix flen = Ok hdr" and found:
    "try_filter_map (check_segment prefix flen urange hdr) (u16_range (hdr_phnum hdr)) = Ok found"
    and img: "img = \<lparr>ui_entry = hdr_entry hdr, ui_segments = map user_segment (sort_key ck_vaddr found)\<rparr>"
    by (rule parse_user_Ok)
  from assms(2) obtain c where c: "c \<in> set found" "s = user_segment c" by (auto simp: img)
  then obtain i where i: "i < hdr_phnum hdr" "check_segment prefix flen urange hdr i = Ok (Some c)"
    using try_filter_map_set [OF found, of c] by (auto simp: set_u16_range)
  have index: "ck_index c = i"
    using i(2) by (auto simp: check_segment_def Let_def split: if_splits)
  from i(2) obtain ph where ph: "program_header prefix hdr i = Ok ph" "ph_type ph = PT_LOAD"
    and ok: "checked_ok flen urange c" and same: "ck_offset c = ph_offset ph" "ck_vaddr c = ph_vaddr ph"
      "ck_filesz c = ph_filesz ph" "ck_memsz c = ph_memsz ph"
    by (rule check_segment_Some)
  have vas: "map (\<lambda>p. unat (pp_va p)) (us_pages s) =
      map (\<lambda>n. n * 4096) [unat (ph_vaddr ph) div 4096 ..< Suc ((unat (ph_vaddr ph) + unat (ph_memsz ph) - 1) div 4096)]"
    using page_plan_va [OF ok]
    by (auto simp: c(2) user_segment_def Checked_pages_def first_page_def last_page_def Checked_end_def
        USER_PAGE_SIZE_def same)
  have fill: "pp_perms p = us_perms s \<and> (\<forall>k<4096. plan_byte file p k = segment_byte file ph (unat (pp_va p) + k))"
    if "p \<in> set (us_pages s)" for p
  proof -
    from that obtain n where n: "p = page_plan c n" "n \<le> last_page c"
      by (auto simp: c(2) user_segment_def Checked_pages_def)
    have "plan_byte file p k = segment_byte file ph (unat (pp_va p) + k)" if "k < 4096" for k
      using plan_byte_page_plan [OF ok n(2) that] page_plan_va [OF ok n(2)]
      by (simp add: n(1) segment_byte_def same)
    moreover have "pp_perms p = us_perms s"
      by (simp add: n(1) page_plan_def Let_def c(2) user_segment_def)
    ultimately show ?thesis by blast
  qed
  show ?thesis
    by (rule exI [of _ hdr], rule exI [of _ ph])
      (use hdr i(1) ph vas fill in \<open>simp add: c(2) user_segment_def index same\<close>)
qed

lemma pages_in_segment:
  assumes "checked_ok flen urange c" and "p \<in> set (Checked_pages c)"
  shows "\<exists>n. unat (pp_va p) = n * 4096 \<and> first_page c \<le> n \<and> n \<le> last_page c"
  using assms page_plan_va by (fastforce simp: Checked_pages_def)

lemma Checked_pages_sorted:
  assumes "checked_ok flen urange c"
  shows "sorted_wrt (\<lambda>p q. unat (pp_va p) < unat (pp_va q)) (Checked_pages c)"
  unfolding Checked_pages_def sorted_wrt_map
  by (rule sorted_wrt_mono_rel [OF _ sorted_wrt_upt])
    (use page_plan_va [OF assms] in auto)

lemma sorted_wrt_concat_map:
  assumes "\<And>x. x \<in> set xs \<Longrightarrow> sorted_wrt R (f x)"
    and "sorted_wrt (\<lambda>x y. \<forall>a\<in>set (f x). \<forall>b\<in>set (f y). R a b) xs"
  shows "sorted_wrt R (concat (map f xs))"
  using assms by (induction xs) (auto simp: sorted_wrt_append)

lemma checked_pages_in_range:
  assumes ok: "checked_ok flen urange c" and p: "p \<in> set (Checked_pages c)"
    and aligned: "unat (fst urange) mod 4096 = 0" "unat (snd urange) mod 4096 = 0"
  shows "unat (pp_va p) mod 4096 = 0 \<and> unat (fst urange) \<le> unat (pp_va p) \<and> unat (pp_va p) + 4096 \<le> unat (snd urange)"
proof -
  from p obtain n where n: "unat (pp_va p) = n * 4096" "first_page c \<le> n" "n \<le> last_page c"
    using pages_in_segment [OF ok] by blast
  have "unat (fst urange) div 4096 \<le> n"
    using n(2) ok div_le_mono [of "unat (fst urange)" "unat (ck_vaddr c)" 4096]
    by (simp add: first_page_def checked_ok_def USER_PAGE_SIZE_def)
  moreover have "n < unat (snd urange) div 4096"
    using last_page_bound [OF ok n(3)] ok aligned(2)
    by (auto simp: checked_ok_def elim!: dvdE simp flip: dvd_eq_mod_eq_0)
  ultimately show ?thesis using aligned n(1) by (auto simp flip: dvd_eq_mod_eq_0 elim!: dvdE)
qed

lemma checked_pages_nonempty: "checked_ok flen urange c \<Longrightarrow> first_page c \<le> last_page c \<and> Checked_pages c \<noteq> []"
  by (auto simp: Checked_pages_def first_page_def last_page_def checked_ok_def Checked_end_def not_less intro!: div_le_mono)

lemma page_check_sorted:
  assumes "windows_check page_check cs = Ok ()" and ok: "\<And>c. c \<in> set cs \<Longrightarrow> checked_ok flen urange c"
  shows "sorted_wrt (\<lambda>p q. unat (pp_va p) < unat (pp_va q)) (concat (map Checked_pages cs))"
proof (rule sorted_wrt_concat_map)
  have apart: "sorted_wrt (\<lambda>a b. last_page a < first_page b) cs"
  proof (rule windows_check_Ok [OF assms(1)])
    show "last_page a < first_page b" if "page_check a b = None" for a b
      using that by (auto simp: page_check_def Let_def split: if_splits)
    show "last_page a < first_page c" if "last_page a < first_page b" "last_page b < first_page c" "b \<in> set cs" for a b c
      using that checked_pages_nonempty [OF ok [OF that(3)]] by linarith
  qed
  show "sorted_wrt (\<lambda>x y. \<forall>a\<in>set (Checked_pages x). \<forall>b\<in>set (Checked_pages y). unat (pp_va a) < unat (pp_va b)) cs"
  proof (rule sorted_wrt_mono_rel [OF _ apart], intro ballI)
    fix x y a b
    assume "x \<in> set cs" "y \<in> set cs" and xy: "last_page x < first_page y"
      and "a \<in> set (Checked_pages x)" "b \<in> set (Checked_pages y)"
    then obtain m n where "unat (pp_va a) = m * 4096" "m \<le> last_page x" "unat (pp_va b) = n * 4096" "first_page y \<le> n"
      using pages_in_segment ok by metis
    with xy show "unat (pp_va a) < unat (pp_va b)" by simp
  qed
qed (use ok in \<open>auto intro: Checked_pages_sorted\<close>)

lemma parse_user_segments:
  assumes "parse_user_elf32 prefix flen urange = Ok img"
  obtains cs where "ui_segments img = map user_segment cs" and "\<forall>c\<in>set cs. checked_ok flen urange c"
    and "sorted_wrt (\<lambda>p q. unat (pp_va p) < unat (pp_va q)) (concat (map Checked_pages cs))"
    and "\<forall>c\<in>set cs. \<forall>p\<in>set (Checked_pages c).
      unat (pp_va p) mod 4096 = 0 \<and> unat (fst urange) \<le> unat (pp_va p) \<and> unat (pp_va p) + 4096 \<le> unat (snd urange)"
    and "unat (ui_entry img) mod 4 = 0" and "\<exists>c\<in>set cs. runs_entry (ui_entry img) c"
proof -
  from assms obtain hdr found where found:
    "try_filter_map (check_segment prefix flen urange hdr) (u16_range (hdr_phnum hdr)) = Ok found"
    "windows_check page_check (sort_key ck_vaddr found) = Ok ()"
    "unat (hdr_entry hdr) mod 4 = 0" "\<exists>s\<in>set found. runs_entry (hdr_entry hdr) s"
    and img: "img = \<lparr>ui_entry = hdr_entry hdr, ui_segments = map user_segment (sort_key ck_vaddr found)\<rparr>"
    by (rule parse_user_Ok)
  have ok: "checked_ok flen urange c" if "c \<in> set (sort_key ck_vaddr found)" for c
    using that try_filter_map_set [OF found(1), of c] by (auto elim: check_segment_Some)
  have aligned: "unat (fst urange) mod 4096 = 0" "unat (snd urange) mod 4096 = 0"
    using assms by (auto simp: parse_user_elf32_def Let_def USER_PAGE_SIZE_def split: if_splits)
  show thesis
    by (rule that [of "sort_key ck_vaddr found"])
      (use found(3,4) img ok page_check_sorted [OF found(2) ok] checked_pages_in_range [OF ok _ aligned] in simp_all)
qed

text \<open>
  An accepted executable can be mapped: over all its segments the planned pages are in strictly
  ascending order, so that no two segments share a page, every page is aligned and inside the user
  range, no permission set is empty or writable without being readable, and the entry point is
  aligned and inside an executable segment.
\<close>

theorem user_image_mappable:
  assumes "parse_user_elf32 prefix flen urange = Ok img"
  shows "sorted_wrt (\<lambda>p q. unat (pp_va p) < unat (pp_va q)) (concat (map us_pages (ui_segments img)))
    \<and> (\<forall>s\<in>set (ui_segments img). us_pages s \<noteq> []
         \<and> (perm_read (us_perms s) \<or> perm_execute (us_perms s)) \<and> (perm_write (us_perms s) \<longrightarrow> perm_read (us_perms s))
         \<and> (\<forall>p\<in>set (us_pages s). unat (pp_va p) mod 4096 = 0
              \<and> unat (fst urange) \<le> unat (pp_va p) \<and> unat (pp_va p) + 4096 \<le> unat (snd urange)))
    \<and> unat (ui_entry img) mod 4 = 0
    \<and> (\<exists>s\<in>set (ui_segments img). perm_execute (us_perms s) \<and> unat (us_vaddr s) \<le> unat (ui_entry img)
         \<and> unat (ui_entry img) < unat (us_vaddr s) + unat (us_memsz s))"
proof -
  from assms obtain cs where segs: "ui_segments img = map user_segment cs" and ok: "\<forall>c\<in>set cs. checked_ok flen urange c"
    and "sorted_wrt (\<lambda>p q. unat (pp_va p) < unat (pp_va q)) (concat (map Checked_pages cs))"
    "\<forall>c\<in>set cs. \<forall>p\<in>set (Checked_pages c).
      unat (pp_va p) mod 4096 = 0 \<and> unat (fst urange) \<le> unat (pp_va p) \<and> unat (pp_va p) + 4096 \<le> unat (snd urange)"
    "unat (ui_entry img) mod 4 = 0" "\<exists>c\<in>set cs. runs_entry (ui_entry img) c"
    by (rule parse_user_segments)
  then show ?thesis using ok checked_pages_nonempty
    by (auto simp: segs user_segment_def o_def checked_ok_def runs_entry_def Checked_end_def)
qed

subsection \<open>A prefix is enough\<close>

text \<open>The header check in terms of the raw fields: only the end of the table depends on the prefix length.\<close>

lemma checked_header_eq:
  assumes "length p \<le> unat flen" and "52 \<le> length p"
  shows "checked_header p flen =
    (case ident_error p of
       Some e \<Rightarrow> Err (HeaderError e)
     | None \<Rightarrow>
         if table_bad p then Err (HeaderError MalformedProgramHeaders)
         else if raw16 p 44 > MAX_PHDRS then Err (PhdrCountExceeded (raw16 p 44))
         else if table_end p \<le> length p then Ok (raw_header p)
         else if table_end p \<le> unat flen then Err (PrefixTooShort (narrow (table_end p)))
         else Err (HeaderError MalformedProgramHeaders))"
proof -
  have fields: "map_option u16_from_le_bytes (slice_get p 42 44) = Some (raw16 p 42)"
    "map_option u16_from_le_bytes (slice_get p 44 46) = Some (raw16 p 44)"
    "slice_get p 28 32 = Some (take 4 (drop 28 p))" "u32_from_le_bytes (take 4 (drop 28 p)) = raw32 p 28"
    using assms by (simp_all add: slice_get_def raw16_def raw32_def)
  have end_eq: "unat (raw32 p 28) + unat (raw16 p 44) * unat PHDR_SIZE = table_end p"
    by (simp add: table_end_def PHDR_SIZE_def)
  have bad: "raw16 p 44 = PN_XNUM \<or> (raw16 p 44 \<noteq> 0 \<and> raw16 p 42 \<noteq> PHDR_SIZE) \<longleftrightarrow> table_bad p"
    by (simp add: table_bad_def PN_XNUM_def PHDR_SIZE_def)
  have fit: "(length p > unat flen) = False" "(length p < EHDR_SIZE) = False"
    using assms by (simp_all add: EHDR_SIZE_def)
  show ?thesis
  proof (cases "ident_error p")
    case None
    then have hdr: "header p = (if table_bad p \<or> length p < table_end p then Err MalformedProgramHeaders
        else Ok (raw_header p))"
      by (simp add: header_steps [OF assms(2)])
    have num: "hdr_phnum (raw_header p) = raw16 p 44" by (simp add: raw_header_def)
    consider "table_bad p" | "\<not> table_bad p" "length p < table_end p" | "\<not> table_bad p" "\<not> length p < table_end p"
      by blast
    then show ?thesis
      by cases (simp_all add: checked_header_def Let_def fit hdr None num fields end_eq bad)
  next
    case (Some e)
    then have "e \<noteq> MalformedProgramHeaders" using ident_error_table by blast
    with Some show ?thesis
      using assms by (simp add: checked_header_def Let_def header_steps EHDR_SIZE_def split: ElfError.split)
  qed
qed

lemma checked_header_take:
  assumes "length f = unat flen" and "\<And>m. checked_header (take n f) flen \<noteq> Err (PrefixTooShort m)"
  shows "checked_header f flen = checked_header (take n f) flen"
proof (cases "52 \<le> length f")
  case True
  have "52 \<le> n"
  proof (rule ccontr)
    assume "\<not> 52 \<le> n"
    then have "checked_header (take n f) flen = Err (PrefixTooShort 52)"
      using True assms(1) by (simp add: checked_header_def Let_def EHDR_SIZE_def)
    with assms(2) show False by blast
  qed
  moreover from this have "raw16 (take n f) 44 = raw16 f 44" by (simp add: raw_take)
  ultimately show ?thesis
    using True assms(1) assms(2) [of "narrow (table_end f)"]
    by (auto simp: checked_header_eq header_parts_take split: option.splits if_splits)
next
  case False
  then have "length (take n f) < EHDR_SIZE" "length f < EHDR_SIZE" "unat flen < EHDR_SIZE"
    "\<not> unat flen < length (take n f)" "\<not> unat flen < length f"
    using assms(1) by (simp_all add: EHDR_SIZE_def)
  then show ?thesis unfolding checked_header_def Let_def by presburger
qed

lemma checked_header_Ok:
  assumes "checked_header p flen = Ok h"
  shows "h = raw_header p" and "table_end p \<le> length p"
proof -
  have "52 \<le> length p" "length p \<le> unat flen"
    using assms by (auto simp: checked_header_def Let_def EHDR_SIZE_def split: if_splits)
  with assms show "h = raw_header p" "table_end p \<le> length p"
    by (auto simp: checked_header_eq split: option.splits if_splits)
qed

lemma check_segment_take:
  assumes "table_end f \<le> n" and "i < hdr_phnum (raw_header f)"
  shows "check_segment (take n f) flen urange (raw_header f) i = check_segment f flen urange (raw_header f) i"
proof -
  have "unat i < unat (raw16 f 44)" using assms(2) by (simp add: raw_header_def word_less_nat_alt)
  then have at: "unat (hdr_phoff (raw_header f)) + 32 * (unat i + 1) \<le> n"
    using assms(1) by (simp add: table_end_def raw_header_def)
  then have flags: "p_flags (take n f) (hdr_phoff (raw_header f)) i = p_flags f (hdr_phoff (raw_header f)) i"
    by (simp add: p_flags_def Let_def PHDR_SIZE_def P_FLAGS_def slice_get_def drop_take min_def)
  show ?thesis unfolding check_segment_def program_header_take [OF at] flags ..
qed

lemma parse_prefix:
  assumes len: "length f = unat flen" and "\<And>m. checked_header (take n f) flen \<noteq> Err (PrefixTooShort m)"
  shows "parse_user_elf32 f flen urange = parse_user_elf32 (take n f) flen urange"
proof (cases "checked_header (take n f) flen")
  case (Inl e)
  then show ?thesis using checked_header_take [OF assms] by (simp add: parse_user_elf32_def)
next
  case (Inr h)
  have hdr: "checked_header f flen = Ok h" using checked_header_take [OF assms] Inr by simp
  have h: "h = raw_header f" using checked_header_Ok(1) [OF hdr] .
  have "52 \<le> length (take n f)"
    using Inr by (auto simp: checked_header_def Let_def EHDR_SIZE_def split: if_splits)
  then have "table_end f \<le> n"
    using checked_header_Ok(2) [OF Inr] header_parts_take(4) [of n f] by simp
  then have "try_filter_map (check_segment (take n f) flen urange h) (u16_range (hdr_phnum h))
      = try_filter_map (check_segment f flen urange h) (u16_range (hdr_phnum h))"
    unfolding h by (intro try_filter_map_cong refl check_segment_take) (simp_all add: set_u16_range)
  then show ?thesis using hdr Inr by (simp add: parse_user_elf32_def)
qed

lemma parse_short_header:
  assumes "parse_user_elf32 p flen urange = Err (PrefixTooShort m)"
  shows "checked_header p flen = Err (PrefixTooShort m)"
proof -
  have "check_segment p flen urange h i \<noteq> Err (PrefixTooShort m)" for h i
    by (auto simp: check_segment_def result_bind_eq_Err header_error_def p_flags_def Let_def ok_or_def
        split: if_splits sum.splits option.splits)
  then have "try_filter_map (check_segment p flen urange h) is \<noteq> Err (PrefixTooShort m)" for h "is"
    by (induction "is") (auto simp: result_bind_eq_Err)
  moreover have "windows_check page_check cs \<noteq> Err (PrefixTooShort m)" for cs
    by (induction cs rule: induct_list012) (auto simp: page_check_def Let_def split: option.splits if_splits)
  ultimately show ?thesis
    using assms by (auto simp: parse_user_elf32_def Let_def result_bind_eq_Err split: if_splits)
qed

text \<open>
  Two reads are enough: if a prefix of at least the ELF header is rejected as too short, then the
  length the error asks for is within the file and longer than the prefix, and the prefix of that
  length is accepted or rejected exactly as the whole file.
\<close>

theorem user_prefix_retry:
  assumes "length file = unat flen" and "52 \<le> n"
    and "parse_user_elf32 (take n file) flen urange = Err (PrefixTooShort m)"
  shows "n < unat m \<and> unat m \<le> length file
    \<and> parse_user_elf32 (take (unat m) file) flen urange = parse_user_elf32 file flen urange"
proof -
  have short: "checked_header (take n file) flen = Err (PrefixTooShort m)"
    by (rule parse_short_header [OF assms(3)])
  have long: "52 \<le> length file"
    using short assms(1,2) by (auto simp: checked_header_def Let_def EHDR_SIZE_def split: if_splits)
  have fields: "raw16 (take n file) 44 = raw16 file 44" using assms(2) by (simp add: raw_take)
  have "n < table_end file" "table_end file \<le> unat flen" "m = narrow (table_end file)"
    using short assms(1,2) long
    by (auto simp: checked_header_eq header_parts_take fields ident_error_table
        split: option.splits if_splits)
  moreover have "table_end file < 2 ^ 32" using calculation(2) le_less_trans [OF _ unat_less_2p32 [of flen]] by simp
  ultimately have m: "unat m = table_end file" "n < table_end file" "table_end file \<le> length file"
    using assms(1) by simp_all
  have "checked_header (take (unat m) file) flen \<noteq> Err (PrefixTooShort k)" for k
    using m assms(1,2) long
    by (auto simp: checked_header_eq header_parts_take split: option.splits if_splits)
  from parse_prefix [OF assms(1) this] show ?thesis using m by simp
qed

text \<open>
  What is decided from a prefix is right: unless it is rejected as too short, a prefix gives the
  same image or the same error as the whole file.
\<close>

theorem user_prefix_agrees:
  assumes "length file = unat flen" and "parse_user_elf32 (take n file) flen urange \<notin> range (\<lambda>m. Err (PrefixTooShort m))"
  shows "parse_user_elf32 (take n file) flen urange = parse_user_elf32 file flen urange"
proof (cases "\<exists>m. checked_header (take n file) flen = Err (PrefixTooShort m)")
  case True
  then have "parse_user_elf32 (take n file) flen urange = Err InvalidUserRange"
    using assms(2) by (auto simp: parse_user_elf32_def Let_def)
  then have "parse_user_elf32 f flen urange = Err InvalidUserRange" for f
    using True by (auto simp: parse_user_elf32_def Let_def split: if_splits)
  with \<open>parse_user_elf32 (take n file) flen urange = Err InvalidUserRange\<close> show ?thesis by simp
next
  case False
  then show ?thesis using parse_prefix [OF assms(1), of n urange] by simp
qed

subsection \<open>A small user executable\<close>

text \<open>One readable and executable segment of four file bytes and four zeros at \<^verbatim>\<open>0x10000\<close>.\<close>

definition tiny_user :: "u8 list" where
  "tiny_user =
     [0x7f, 0x45, 0x4c, 0x46, 1, 1, 1, 0, 0, 0, 0, 0, 0, 0, 0, 0,
      2, 0, 243, 0, 1, 0, 0, 0, 0, 0, 1, 0, 52, 0, 0, 0,
      0, 0, 0, 0, 0, 0, 0, 0, 52, 0, 32, 0, 1, 0, 0, 0, 0, 0, 0, 0,
      1, 0, 0, 0, 84, 0, 0, 0, 0, 0, 1, 0, 0, 0, 1, 0,
      4, 0, 0, 0, 8, 0, 0, 0, 5, 0, 0, 0, 4, 0, 0, 0,
      0x13, 0, 0, 0]"

definition tiny_segment :: UserSegment where
  "tiny_segment = user_segment \<lparr>ck_index = 0, ck_offset = 84, ck_vaddr = 0x10000, ck_filesz = 4, ck_memsz = 8,
     ck_perms = \<lparr>perm_read = True, perm_write = False, perm_execute = True\<rparr>\<rparr>"

lemma tiny_user_fields:
  "length tiny_user = 88" "ident_error tiny_user = None" "\<not> table_bad tiny_user" "table_end tiny_user = 84"
  "raw16 tiny_user 44 = 1" "raw_header tiny_user = \<lparr>hdr_entry = 0x10000, hdr_phoff = 52, hdr_phnum = 1\<rparr>"
  by (simp_all add: ident_error_def table_bad_def table_end_def raw_header_def raw16_def raw32_def tiny_user_def
      u16_from_le_bytes_def u32_from_le_bytes_def)

lemma tiny_user_segment:
  "check_segment tiny_user 88 (0x10000, 0x20000) \<lparr>hdr_entry = 0x10000, hdr_phoff = 52, hdr_phnum = 1\<rparr> 0 =
     Ok (Some \<lparr>ck_index = 0, ck_offset = 84, ck_vaddr = 0x10000, ck_filesz = 4, ck_memsz = 8,
       ck_perms = \<lparr>perm_read = True, perm_write = False, perm_execute = True\<rparr>\<rparr>)"
  by (simp add: check_segment_def header_error_def program_header_def p_flags_def user_consts slice_get_def
      Checked_end_def tiny_user_def u32_from_le_bytes_def)

lemma tiny_user_parses:
  "parse_user_elf32 tiny_user 88 (0x10000, 0x20000) = Ok \<lparr>ui_entry = 0x10000, ui_segments = [tiny_segment]\<rparr>"
  by (simp add: parse_user_elf32_def checked_header_eq tiny_user_fields tiny_user_segment u16_range_def
      user_consts runs_entry_def Checked_end_def tiny_segment_def)

lemma tiny_user_prefix:
  "parse_user_elf32 (take 52 tiny_user) 88 (0x10000, 0x20000) = Err (PrefixTooShort 84)"
  by (simp add: parse_user_elf32_def checked_header_eq tiny_user_fields header_parts_take raw_take user_consts
      narrow_def)

theorem user_plan_is_segment_memory_witness:
  "\<exists>ph. ph_type ph = PT_LOAD \<and> us_vaddr tiny_segment = ph_vaddr ph \<and>
     (\<forall>p\<in>set (us_pages tiny_segment).
        \<forall>k<4096. plan_byte tiny_user p k = segment_byte tiny_user ph (unat (pp_va p) + k))"
  using user_plan_is_segment_memory [OF tiny_user_parses, of tiny_segment tiny_user] by auto

theorem user_image_mappable_witness:
  "list_all (\<lambda>p. unat (pp_va p) mod 4096 = 0 \<and> 0x10000 \<le> unat (pp_va p)) (us_pages tiny_segment)"
  using user_image_mappable [OF tiny_user_parses] by (simp add: list_all_iff)

theorem user_prefix_retry_witness:
  "parse_user_elf32 (take 84 tiny_user) 88 (0x10000, 0x20000) = Ok \<lparr>ui_entry = 0x10000, ui_segments = [tiny_segment]\<rparr>"
  using user_prefix_retry [OF _ _ tiny_user_prefix] by (simp add: tiny_user_fields tiny_user_parses)

theorem user_prefix_agrees_witness:
  "parse_user_elf32 (take 88 tiny_user) 88 (0x10000, 0x20000) = parse_user_elf32 tiny_user 88 (0x10000, 0x20000)
    \<and> parse_user_elf32 tiny_user 88 (0x10000, 0x20000) \<in> range Ok"
  using user_prefix_agrees [of tiny_user 88 88 "(0x10000, 0x20000)"]
  by (auto simp: tiny_user_fields tiny_user_parses)

end
