(* ===== verification/Elf_ExecTable.thy ===== *)
theory Elf_ExecTable
  imports Rust_Iter
begin

section \<open>The boot execution table\<close>

text \<open>
  Models \<^verbatim>\<open>elf/src/exec_table.rs\<close>: block 0 of the boot disk, parsed and validated by the kernel and
  encoded for fixtures. A block is a list of 512 bytes; all its fields are little-endian words at
  multiples of four, so the proofs look at it as 128 words.
\<close>

definition BLOCK_SIZE :: usize where "BLOCK_SIZE = 512"
definition MAGIC :: u32 where "MAGIC = 0x30585353"
definition VERSION :: u32 where "VERSION = 0"
definition MAX_ENTRIES :: usize where "MAX_ENTRIES = 8"
definition HEADER_SIZE :: usize where "HEADER_SIZE = 0x10"
definition ENTRY_SIZE :: usize where "ENTRY_SIZE = 16"
definition TABLE_END :: usize where "TABLE_END = HEADER_SIZE + MAX_ENTRIES * ENTRY_SIZE"

lemmas table_consts = BLOCK_SIZE_def MAGIC_def VERSION_def MAX_ENTRIES_def HEADER_SIZE_def ENTRY_SIZE_def
  TABLE_END_def

record ExecEntry =
  start_lba :: u32
  byte_len :: u32

definition entry_blocks :: "ExecEntry \<Rightarrow> u32" where
  "entry_blocks e = of_nat ((unat (byte_len e) + (BLOCK_SIZE - 1)) div BLOCK_SIZE)"

definition end_lba :: "ExecEntry \<Rightarrow> u64" where
  "end_lba e = unat (start_lba e) + unat (entry_blocks e)"

type_synonym ExecTable = "ExecEntry list"

datatype ExecTableError =
    BadMagic u32
  | BadVersion u32
  | BadCount u32
  | NonZeroReserved usize
  | NonZeroUnusedEntry usize
  | LbaZero usize
  | EmptyFile usize
  | TooLarge usize
  | OutsideDisk usize
  | Overlap usize usize

definition block_word :: "u8 list \<Rightarrow> usize \<Rightarrow> u32" where
  "block_word block at = u32_from_le_bytes (take 4 (drop at block))"

definition block_put :: "u8 list \<Rightarrow> usize \<Rightarrow> u32 \<Rightarrow> u8 list" where
  "block_put block at v = slice_put block at (u32_to_le_bytes v)"

definition range_check :: "u32 \<Rightarrow> u32 \<Rightarrow> usize \<times> ExecEntry \<Rightarrow> ExecTableError option" where
  "range_check capacity_blocks staging_size ie =
     (case ie of (i, e) \<Rightarrow>
        if start_lba e = 0 then Some (LbaZero i)
        else if byte_len e = 0 then Some (EmptyFile i)
        else if byte_len e > staging_size then Some (TooLarge i)
        else if end_lba e > unat capacity_blocks then Some (OutsideDisk i)
        else None)"

definition pair_check :: "(usize \<times> ExecEntry) \<times> (usize \<times> ExecEntry) \<Rightarrow> ExecTableError option" where
  "pair_check ab =
     (case ab of ((i, a), (j, b)) \<Rightarrow>
        if unat (start_lba a) < end_lba b \<and> unat (start_lba b) < end_lba a then Some (Overlap i j) else None)"

definition earlier_pairs :: "ExecEntry list \<Rightarrow> ((usize \<times> ExecEntry) \<times> (usize \<times> ExecEntry)) list" where
  "earlier_pairs es = concat (map (\<lambda>j. map (\<lambda>i. ((i, es ! i), (j, es ! j))) [0..<j]) [0..<length es])"

definition check_entries :: "ExecEntry list \<Rightarrow> u32 \<Rightarrow> u32 \<Rightarrow> (unit, ExecTableError) result" where
  "check_entries entries capacity_blocks staging_size =
     result_bind (try_for_each (range_check capacity_blocks staging_size) (enumerate 0 entries)) (\<lambda>_.
       try_for_each pair_check (earlier_pairs entries))"

definition slot :: "usize \<Rightarrow> usize" where
  "slot i = HEADER_SIZE + i * ENTRY_SIZE"

definition all_zero :: "u8 list \<Rightarrow> bool" where
  "all_zero bs \<longleftrightarrow> list_all (\<lambda>b. b = 0) bs"

definition parse_exec_table :: "u8 list \<Rightarrow> u32 \<Rightarrow> u32 \<Rightarrow> (ExecTable, ExecTableError) result" where
  "parse_exec_table block capacity_blocks staging_size =
     (let magic = block_word block 0 in
      if magic \<noteq> MAGIC then Err (BadMagic magic)
      else
        (let version = block_word block 4 in
         if version \<noteq> VERSION then Err (BadVersion version)
         else
           (let count = block_word block 8; used = unat count in
            if \<not> (1 \<le> used \<and> used \<le> MAX_ENTRIES) then Err (BadCount count)
            else if block_word block 12 \<noteq> 0 then Err (NonZeroReserved 12)
            else
              result_bind (try_for_each
                (\<lambda>offset. if block_word block offset \<noteq> 0 then Some (NonZeroReserved offset) else None)
                (concat (map (\<lambda>i. [slot i + 8, slot i + 12]) [0..<used]))) (\<lambda>_.
              result_bind (try_for_each
                (\<lambda>i. if \<not> all_zero (take ENTRY_SIZE (drop (slot i) block)) then Some (NonZeroUnusedEntry i) else None)
                [used..<MAX_ENTRIES]) (\<lambda>_.
              if \<not> all_zero (drop TABLE_END block) then Err (NonZeroUnusedEntry MAX_ENTRIES)
              else
                (let entries = map (\<lambda>i. \<lparr>start_lba = block_word block (slot i),
                                         byte_len = block_word block (slot i + 4)\<rparr>) [0..<used]
                 in result_bind (check_entries entries capacity_blocks staging_size) (\<lambda>_. Ok entries)))))))"

definition put_entry :: "usize \<times> ExecEntry \<Rightarrow> u8 list \<Rightarrow> u8 list" where
  "put_entry ie block =
     (case ie of (i, e) \<Rightarrow> block_put (block_put block (slot i) (start_lba e)) (slot i + 4) (byte_len e))"

definition encode_table :: "ExecTable \<Rightarrow> (u8 list, ExecTableError) result" where
  "encode_table entries =
     (let count = length entries in
      if \<not> (1 \<le> count \<and> count \<le> MAX_ENTRIES)
      then Err (BadCount (if count < 2 ^ 32 then of_nat count else - 1))
      else
        (let block = replicate BLOCK_SIZE 0;
             block = block_put block 0 MAGIC;
             block = block_put block 4 VERSION;
             block = block_put block 8 (of_nat count)
         in Ok (fold put_entry (enumerate 0 entries) block)))"

subsection \<open>A block as words\<close>

text \<open>The contract of a store of words: what a read gives after a write.\<close>

locale word_store =
  fixes wf :: "'b \<Rightarrow> bool"
    and get :: "'b \<Rightarrow> nat \<Rightarrow> 'v"
    and put :: "'b \<Rightarrow> nat \<Rightarrow> 'v \<Rightarrow> 'b"
    and size :: nat
  assumes put_wf: "wf b \<Longrightarrow> i < size \<Longrightarrow> wf (put b i v)"
    and get_put: "wf b \<Longrightarrow> i < size \<Longrightarrow> j < size \<Longrightarrow> get (put b i v) j = (if j = i then v else get b j)"
    and extensional: "wf b \<Longrightarrow> wf c \<Longrightarrow> (\<And>i. i < size \<Longrightarrow> get b i = get c i) \<Longrightarrow> b = c"
begin

lemma put_same: "wf b \<Longrightarrow> i < size \<Longrightarrow> put b i (get b i) = b"
  by (rule extensional) (simp_all add: put_wf get_put)

lemma put_put: "wf b \<Longrightarrow> i < size \<Longrightarrow> put (put b i v) i w = put b i w"
  by (rule extensional) (simp_all add: put_wf get_put)

lemma put_commute: "wf b \<Longrightarrow> i < size \<Longrightarrow> j < size \<Longrightarrow> i \<noteq> j \<Longrightarrow> put (put b i v) j w = put (put b j w) i v"
  by (rule extensional) (simp_all add: put_wf get_put)

end

definition is_block :: "u8 list \<Rightarrow> bool" where
  "is_block b \<longleftrightarrow> length b = 512"

definition block_get :: "u8 list \<Rightarrow> nat \<Rightarrow> u32" where
  "block_get b i = block_word b (4 * i)"

definition block_set :: "u8 list \<Rightarrow> nat \<Rightarrow> u32 \<Rightarrow> u8 list" where
  "block_set b i v = block_put b (4 * i) v"

lemma block_bytes: "is_block b \<Longrightarrow> i < 128 \<Longrightarrow> u32_to_le_bytes (block_get b i) = take 4 (drop (4 * i) b)"
  by (simp add: is_block_def block_get_def block_word_def u32_le_enc_dec)

interpretation blk: word_store is_block block_get block_set 128
proof
  show "is_block (block_set b i v)" if "is_block b" "i < 128" for b i v
    using that by (simp add: is_block_def block_set_def block_put_def)
  show "block_get (block_set b i v) j = (if j = i then v else block_get b j)"
    if "is_block b" "i < 128" "j < 128" for b i j v
  proof (cases "j = i")
    case True
    then show ?thesis
      using that slice_put_same [of "4 * i" "u32_to_le_bytes v" b]
      by (simp add: is_block_def block_get_def block_set_def block_word_def block_put_def u32_le_dec_enc)
  next
    case False
    then have "4 * j + 4 \<le> 4 * i \<or> 4 * i + 4 \<le> 4 * j" by linarith
    then show ?thesis
      using that False slice_put_other [of "4 * i" "u32_to_le_bytes v" b "4 * j" 4]
      by (simp add: is_block_def block_get_def block_set_def block_word_def block_put_def)
  qed
  show "b = c" if "is_block b" "is_block c" "\<And>i. i < 128 \<Longrightarrow> block_get b i = block_get c i" for b c
  proof (rule nth_equalityI)
    show "length b = length c" using that by (simp add: is_block_def)
    fix k assume "k < length b"
    then have i: "k div 4 < 128" using that by (simp add: is_block_def div_less_iff_less_mult)
    then have "take 4 (drop (4 * (k div 4)) b) ! (k mod 4) = take 4 (drop (4 * (k div 4)) c) ! (k mod 4)"
      using block_bytes [OF that(1) i] block_bytes [OF that(2) i] that(3) [OF i] by metis
    moreover have "4 * (k div 4) + k mod 4 = k" by simp
    ultimately show "b ! k = c ! k"
      using \<open>k < length b\<close> that(1,2) by (simp add: is_block_def)
  qed
qed

lemma word_zero_bytes:
  assumes "length bs = 4"
  shows "u32_from_le_bytes bs = 0 \<longleftrightarrow> list_all (\<lambda>b. b = 0) bs"
proof -
  have "u32_to_le_bytes 0 = [0, 0, 0, 0]" by (simp add: u32_to_le_bytes_def)
  moreover have "u32_from_le_bytes bs = 0 \<longleftrightarrow> bs = u32_to_le_bytes 0"
    by (metis assms u32_le_enc_dec u32_le_dec_enc)
  ultimately show ?thesis using assms by (auto simp: length_Suc_conv eval_nat_numeral)
qed

lemma all_zero_words:
  assumes "is_block b" and "i + n \<le> 128"
  shows "all_zero (take (4 * n) (drop (4 * i) b)) \<longleftrightarrow> (\<forall>j\<in>{i..<i + n}. block_get b j = 0)"
  using assms(2)
proof (induction n arbitrary: i)
  case (Suc n)
  have split: "take (4 * Suc n) (drop (4 * i) b) = take 4 (drop (4 * i) b) @ take (4 * n) (drop (4 * Suc i) b)"
    by (simp add: take_add algebra_simps)
  have "block_get b i = 0 \<longleftrightarrow> all_zero (take 4 (drop (4 * i) b))"
    using assms(1) Suc.prems
    by (simp add: block_get_def block_word_def word_zero_bytes all_zero_def is_block_def)
  moreover have "{i..<i + Suc n} = insert i {Suc i..<Suc i + n}" by auto
  moreover have "all_zero (take 4 (drop (4 * i) b) @ take (4 * n) (drop (4 * Suc i) b)) \<longleftrightarrow>
      all_zero (take 4 (drop (4 * i) b)) \<and> all_zero (take (4 * n) (drop (4 * Suc i) b))"
    by (simp add: all_zero_def)
  moreover have "all_zero (take (4 * n) (drop (4 * Suc i) b)) \<longleftrightarrow> (\<forall>j\<in>{Suc i..<Suc i + n}. block_get b j = 0)"
    by (rule Suc.IH) (use Suc.prems in simp)
  ultimately show ?case unfolding split by simp
qed (simp add: all_zero_def)

subsection \<open>The words of an encoded table\<close>

lemma slot_words: "slot i = 4 * (4 + 4 * i)" "slot i + 4 = 4 * (5 + 4 * i)" "slot i + 8 = 4 * (6 + 4 * i)"
  "slot i + 12 = 4 * (7 + 4 * i)"
  by (simp_all add: slot_def HEADER_SIZE_def ENTRY_SIZE_def)

definition entry_words :: "ExecEntry list \<Rightarrow> nat \<Rightarrow> u32" where
  "entry_words es j =
     (if j div 4 < length es then
        (if j mod 4 = 0 then start_lba (es ! (j div 4)) else if j mod 4 = 1 then byte_len (es ! (j div 4)) else 0)
      else 0)"

lemma entry_words_at:
  assumes "r < 4"
  shows "entry_words es (4 * i + r) =
    (if i < length es then if r = 0 then start_lba (es ! i) else if r = 1 then byte_len (es ! i) else 0 else 0)"
proof -
  have dm: "(4 * i + r) div 4 = i" "(4 * i + r) mod 4 = r" using assms by simp_all
  show ?thesis unfolding entry_words_def dm ..
qed

lemma entry_words_Cons: "entry_words (e # es) (4 + m) = entry_words es m"
proof -
  have "(4 + m) div 4 = Suc (m div 4)" by (simp add: div_add_self1)
  then show ?thesis by (simp add: entry_words_def)
qed

lemma entry_words_beyond: "4 * length es \<le> j \<Longrightarrow> entry_words es j = 0"
  by (auto simp: entry_words_def div_less_iff_less_mult)

definition table_words :: "ExecEntry list \<Rightarrow> nat \<Rightarrow> u32" where
  "table_words es j =
     (if j = 0 then MAGIC else if j = 1 then VERSION else if j = 2 then of_nat (length es)
      else if j = 3 then 0 else entry_words es (j - 4))"

lemma put_entry_words:
  assumes "is_block b" and "k < 8"
  shows "is_block (put_entry (k, e) b)"
    and "j < 128 \<Longrightarrow> block_get (put_entry (k, e) b) j =
      (if j = 4 + 4 * k then start_lba e else if j = 5 + 4 * k then byte_len e else block_get b j)"
proof -
  have put: "put_entry (k, e) b = block_set (block_set b (4 + 4 * k) (start_lba e)) (5 + 4 * k) (byte_len e)"
    by (simp add: put_entry_def block_set_def slot_words)
  show "is_block (put_entry (k, e) b)" using assms by (simp add: put blk.put_wf)
  show "block_get (put_entry (k, e) b) j =
      (if j = 4 + 4 * k then start_lba e else if j = 5 + 4 * k then byte_len e else block_get b j)" if "j < 128"
    using assms that by (simp add: put blk.get_put blk.put_wf)
qed

lemma put_entries_wf: "is_block b \<Longrightarrow> k + length es \<le> 8 \<Longrightarrow> is_block (fold put_entry (enumerate k es) b)"
  by (induction es arbitrary: k b) (simp_all add: put_entry_words(1))

lemma put_entries_words:
  assumes "is_block b" and "k + length es \<le> 8" and "j < 128"
  shows "block_get (fold put_entry (enumerate k es) b) j =
      (if 4 + 4 * k \<le> j \<and> j < 4 + 4 * (k + length es) \<and> j mod 4 < 2
       then entry_words es (j - (4 + 4 * k)) else block_get b j)"
  using assms
proof (induction es arbitrary: k b)
  case Nil
  then show ?case by auto
next
  case (Cons e es)
  have k: "k < 8" "Suc k + length es \<le> 8" using Cons.prems by simp_all
  have IH: "block_get (fold put_entry (enumerate k (e # es)) b) j =
      (if 8 + 4 * k \<le> j \<and> j < 8 + 4 * (k + length es) \<and> j mod 4 < 2 then entry_words es (j - (8 + 4 * k))
       else if j = 4 + 4 * k then start_lba e else if j = 5 + 4 * k then byte_len e else block_get b j)"
    using Cons.IH [OF put_entry_words(1) k(2) \<open>j < 128\<close>] put_entry_words Cons.prems k by simp
  consider "j = 4 + 4 * k" | "j = 5 + 4 * k" | "j = 6 + 4 * k" | "j = 7 + 4 * k" | "j < 4 + 4 * k" | "8 + 4 * k \<le> j"
    by linarith
  moreover have ends: "entry_words (e # es) 0 = start_lba e" "entry_words (e # es) (Suc 0) = byte_len e"
    by (simp_all add: entry_words_def)
  ultimately show ?case
  proof cases
    case 6
    then obtain m where m: "j = 8 + 4 * k + m" by (metis le_add_diff_inverse)
    then show ?thesis unfolding IH by (simp add: entry_words_Cons)
  qed (unfold IH, simp_all add: ends)
qed

lemma encode_words:
  assumes "1 \<le> length es" "length es \<le> 8"
  shows "\<exists>b. encode_table es = Ok b \<and> is_block b \<and> (\<forall>j<128. block_get b j = table_words es j)"
proof -
  let ?z = "replicate 512 (0 :: u8)"
  let ?b = "block_set (block_set (block_set ?z 0 MAGIC) 1 VERSION) 2 (of_nat (length es))"
  have z: "is_block ?z" by (simp add: is_block_def)
  have zero: "block_get ?z j = 0" if "j < 128" for j
    using that by (simp add: block_get_def block_word_def word_zero_bytes list_all_iff min_def)
  have wf: "is_block ?b" using z by (simp add: blk.put_wf)
  have base: "block_get ?b j = (if j = 0 then MAGIC else if j = 1 then VERSION else if j = 2 then of_nat (length es) else 0)"
    if "j < 128" for j
    using that by (simp add: blk.get_put blk.put_wf z zero)
  let ?r = "fold put_entry (enumerate 0 es) ?b"
  have "encode_table es = Ok ?r"
    using assms by (simp add: encode_table_def table_consts block_set_def)
  moreover have "is_block ?r" using put_entries_wf [OF wf, of 0 es] assms by simp
  moreover have "block_get ?r j = table_words es j" if j: "j < 128" for j
  proof (cases "j < 4")
    case True
    then have "j = 0 \<or> j = 1 \<or> j = 2 \<or> j = 3" by linarith
    then show ?thesis using put_entries_words [OF wf, of 0 es j] assms base [OF j] j
      by (auto simp: table_words_def)
  next
    case False
    then obtain m where m: "j = 4 + m" by (metis le_add_diff_inverse not_less)
    then have "j mod 4 = m mod 4" by simp
    then show ?thesis
      using put_entries_words [OF wf, of 0 es j] assms base [OF j] j False m
      by (auto simp: table_words_def entry_words_def div_less_iff_less_mult)
  qed
  ultimately show ?thesis by blast
qed

lemma word_block_get: "block_word b 0 = block_get b 0" "block_word b 4 = block_get b 1" "block_word b 8 = block_get b 2"
  "block_word b 12 = block_get b 3" "block_word b (slot i) = block_get b (4 + 4 * i)"
  "block_word b (slot i + 4) = block_get b (5 + 4 * i)" "block_word b (slot i + 8) = block_get b (6 + 4 * i)"
  "block_word b (slot i + 12) = block_get b (7 + 4 * i)"
  by (simp_all add: block_get_def slot_words)

lemma slot_zero:
  "is_block b \<Longrightarrow> i < 8 \<Longrightarrow> all_zero (take ENTRY_SIZE (drop (slot i) b)) \<longleftrightarrow> (\<forall>j\<in>{4 + 4 * i..<8 + 4 * i}. block_get b j = 0)"
  using all_zero_words [of b "4 + 4 * i" 4] by (simp add: ENTRY_SIZE_def slot_words)

lemma tail_zero: "is_block b \<Longrightarrow> all_zero (drop TABLE_END b) \<longleftrightarrow> (\<forall>j\<in>{36..<128}. block_get b j = 0)"
  using all_zero_words [of b 36 92] by (simp add: table_consts is_block_def)

lemma parse_words:
  assumes b: "is_block b" and len: "1 \<le> length es" "length es \<le> 8"
    and words: "\<And>j. j < 128 \<Longrightarrow> block_get b j = table_words es j"
  shows "parse_exec_table b cap st = result_bind (check_entries es cap st) (\<lambda>_. Ok es)"
proof -
  have count: "unat (of_nat (length es) :: u32) = length es" using len by (simp add: unat_of_nat)
  have hdr: "block_get b 0 = MAGIC" "block_get b 1 = VERSION" "block_get b 2 = of_nat (length es)" "block_get b 3 = 0"
    by (simp_all add: words table_words_def)
  have entry: "block_get b (4 + 4 * i) = start_lba (es ! i)" "block_get b (5 + 4 * i) = byte_len (es ! i)"
    "block_get b (6 + 4 * i) = 0" "block_get b (7 + 4 * i) = 0" if "i < length es" for i
    using that len entry_words_at [of 0 es i] entry_words_at [of 1 es i] entry_words_at [of 2 es i]
      entry_words_at [of 3 es i]
    by (simp_all add: words table_words_def add.commute [of 3])
  have zero: "block_get b j = 0" if "4 + 4 * length es \<le> j" "j < 128" for j
    using that len by (simp add: words table_words_def entry_words_beyond)
  have entries: "map (\<lambda>i. \<lparr>start_lba = block_get b (4 + 4 * i), byte_len = block_get b (5 + 4 * i)\<rparr>) [0..<length es] = es"
    by (rule nth_equalityI) (simp_all add: entry)
  have unused: "\<forall>i\<in>set [length es..<8]. all_zero (take ENTRY_SIZE (drop (slot i) b))" and
    rest: "all_zero (drop TABLE_END b)"
    using zero len by (simp_all add: slot_zero [OF b] tail_zero [OF b])
  have each: "try_for_each f xs = Ok ()" if "\<forall>x\<in>set xs. f x = None" for f :: "nat \<Rightarrow> ExecTableError option" and xs
    using that by simp
  show ?thesis
    using len unused rest
    by (simp add: parse_exec_table_def Let_def word_block_get hdr hdr(2) [unfolded One_nat_def] count entries each
        MAX_ENTRIES_def entry)
qed

lemma parse_Ok_words:
  assumes b: "is_block b" and ok: "parse_exec_table b cap st = Ok es"
  shows "1 \<le> length es \<and> length es \<le> 8 \<and> (\<forall>j<128. block_get b j = table_words es j) \<and> check_entries es cap st = Ok ()"
proof -
  define n where "n = unat (block_get b 2)"
  have hdr: "block_get b 0 = MAGIC" "block_get b 1 = VERSION" "block_get b 3 = 0" "1 \<le> n" "n \<le> 8"
    and reserved: "\<forall>i<n. block_get b (6 + 4 * i) = 0 \<and> block_get b (7 + 4 * i) = 0"
    and unused: "\<forall>i\<in>{n..<8}. all_zero (take ENTRY_SIZE (drop (slot i) b))" and rest: "all_zero (drop TABLE_END b)"
    and es: "es = map (\<lambda>i. \<lparr>start_lba = block_get b (4 + 4 * i), byte_len = block_get b (5 + 4 * i)\<rparr>) [0..<n]"
    and chk: "check_entries es cap st = Ok ()"
    using ok by (auto simp: parse_exec_table_def Let_def word_block_get n_def MAX_ENTRIES_def split: if_splits)
  have len: "length es = n" by (simp add: es)
  have count: "block_get b 2 = of_nat n" by (simp add: n_def)
  have "block_get b j = table_words es j" if j: "j < 128" for j
  proof -
    consider "j < 4" | i r where "j = 4 + 4 * i + r" "i < n" "r < 4" | "4 + 4 * n \<le> j" "j < 36" | "36 \<le> j"
    proof -
      assume *: "j < 4 \<Longrightarrow> thesis" "\<And>i r. j = 4 + 4 * i + r \<Longrightarrow> i < n \<Longrightarrow> r < 4 \<Longrightarrow> thesis"
        "4 + 4 * n \<le> j \<Longrightarrow> j < 36 \<Longrightarrow> thesis" "36 \<le> j \<Longrightarrow> thesis"
      show thesis
      proof (cases "4 \<le> j \<and> j < 4 + 4 * n")
        case True
        then have "(j - 4) div 4 < n" by (intro less_mult_imp_div_less) linarith
        then show thesis using *(2) [of "(j - 4) div 4" "(j - 4) mod 4"] True by simp
      next
        case False
        then show thesis using *(1,3,4) by linarith
      qed
    qed
    then show ?thesis
    proof cases
      case 1
      then have "j = 0 \<or> j = 1 \<or> j = 2 \<or> j = 3" by linarith
      then show ?thesis using hdr count by (auto simp: table_words_def len)
    next
      case (2 i r)
      then have "r = 0 \<or> r = 1 \<or> r = 2 \<or> r = 3" by linarith
      with 2 show ?thesis
        using reserved entry_words_at [of r es i] by (auto simp: table_words_def es add.assoc)
    next
      case 3
      then have "(j - 4) div 4 \<in> {n..<8}" "j \<in> {4 + 4 * ((j - 4) div 4)..<8 + 4 * ((j - 4) div 4)}"
        by (auto simp: less_eq_div_iff_mult_less_eq div_less_iff_less_mult)
      then have "block_get b j = 0" using unused slot_zero [OF b, of "(j - 4) div 4"] by simp
      then show ?thesis using 3 hdr(4) by (simp add: table_words_def entry_words_beyond len)
    next
      case 4
      then have "block_get b j = 0" using rest tail_zero [OF b] j by simp
      then show ?thesis using 4 hdr(5) by (simp add: table_words_def entry_words_beyond len)
    qed
  qed
  with hdr chk len show ?thesis by blast
qed

subsection \<open>Properties\<close>

lemma range_check_None:
  "range_check cap st (i, e) = None \<longleftrightarrow> 0 < unat (start_lba e) \<and> 0 < unat (byte_len e)
     \<and> unat (byte_len e) \<le> unat st \<and> end_lba e \<le> unat cap"
  by (auto simp: range_check_def unat_gt_0 word_less_nat_alt not_less)

lemma pair_check_None:
  "pair_check ((i, a), (j, b)) = None \<longleftrightarrow> end_lba a \<le> unat (start_lba b) \<or> end_lba b \<le> unat (start_lba a)"
  by (auto simp: pair_check_def)

text \<open>
  C37. Encoding and parsing: an encoded table parses back to itself exactly when its entries pass the
  range and overlap checks, with the error of the first check that fails otherwise; and encoding
  fails only on the number of entries.
\<close>

theorem exec_table_round_trip:
  "case encode_table es of
     Ok block \<Rightarrow> parse_exec_table block cap st = result_bind (check_entries es cap st) (\<lambda>_. Ok es)
   | Err e \<Rightarrow> e \<in> range BadCount \<and> (es = [] \<or> 8 < length es)"
proof (cases "1 \<le> length es \<and> length es \<le> 8")
  case True
  with encode_words [of es] parse_words [of _ es cap st] show ?thesis by fastforce
next
  case False
  then have "es = [] \<or> 8 < length es" by (cases es) auto
  with False show ?thesis by (auto simp: encode_table_def MAX_ENTRIES_def Let_def)
qed

text \<open>
  The format is canonical: a block that is accepted is the encoding of the table it gives, so every
  reserved and unused byte was zero.
\<close>

theorem exec_table_canonical:
  assumes "length block = 512" and "parse_exec_table block cap st = Ok es"
  shows "encode_table es = Ok block"
proof -
  have b: "is_block block" using assms(1) by (simp add: is_block_def)
  note words = parse_Ok_words [OF b assms(2)]
  with encode_words [of es] obtain c where c: "encode_table es = Ok c" "is_block c"
    "\<forall>j<128. block_get c j = table_words es j" by blast
  have "c = block" by (rule blk.extensional [OF c(2) b]) (use c(3) words in simp)
  with c(1) show ?thesis by simp
qed

text \<open>
  The table of an accepted block is safe to read from: one to eight entries, none empty or larger than
  the staging area, all inside the disk after block 0, and no two sharing a block.
\<close>

theorem exec_table_safe:
  assumes "parse_exec_table block cap st = Ok es"
  shows "1 \<le> length es \<and> length es \<le> 8
    \<and> (\<forall>e\<in>set es. 0 < unat (start_lba e) \<and> 0 < unat (byte_len e) \<and> unat (byte_len e) \<le> unat st
         \<and> unat (byte_len e) \<le> 512 * (end_lba e - unat (start_lba e)) \<and> end_lba e \<le> unat cap)
    \<and> sorted_wrt (\<lambda>a b. end_lba a \<le> unat (start_lba b) \<or> end_lba b \<le> unat (start_lba a)) es"
proof -
  have len: "1 \<le> length es \<and> length es \<le> 8" and chk: "check_entries es cap st = Ok ()"
    using assms by (auto simp: parse_exec_table_def Let_def MAX_ENTRIES_def split: if_splits)
  have ranges: "range_check cap st (i, es ! i) = None" if "i < length es" for i
    using chk that by (auto simp: check_entries_def in_set_enumerate_eq)
  have pairs: "pair_check ((i, es ! i), (j, es ! j)) = None" if "i < j" "j < length es" for i j
    using chk that by (force simp: check_entries_def earlier_pairs_def)
  have blocks: "unat (entry_blocks e) = (unat (byte_len e) + 511) div 512" for e
  proof -
    have "(2 :: nat) ^ 32 * 512 = 2199023255552" by simp
    then have "unat (byte_len e) + 511 < 2 ^ 32 * 512" using unat_less_2p32 [of "byte_len e"] by linarith
    then have "(unat (byte_len e) + 511) div 512 < 2 ^ 32" by (rule less_mult_imp_div_less)
    then show ?thesis unfolding entry_blocks_def BLOCK_SIZE_def by (simp add: unat_of_nat_exact)
  qed
  have size: "unat (byte_len e) \<le> 512 * (end_lba e - unat (start_lba e))" for e
    using div_mult_mod_eq [of "unat (byte_len e) + 511" 512] mod_less_divisor [of 512 "unat (byte_len e) + 511"]
    by (simp add: end_lba_def blocks)
  have "\<forall>e\<in>set es. 0 < unat (start_lba e) \<and> 0 < unat (byte_len e) \<and> unat (byte_len e) \<le> unat st
         \<and> end_lba e \<le> unat cap"
    using ranges by (auto simp: in_set_conv_nth range_check_None)
  moreover have "sorted_wrt (\<lambda>a b. end_lba a \<le> unat (start_lba b) \<or> end_lba b \<le> unat (start_lba a)) es"
    unfolding sorted_wrt_iff_nth_less using pairs by (simp add: pair_check_None)
  ultimately show ?thesis using len size by blast
qed

subsection \<open>A small table\<close>

definition tiny_table :: ExecTable where
  "tiny_table = [\<lparr>start_lba = 1, byte_len = 600\<rparr>, \<lparr>start_lba = 3, byte_len = 512\<rparr>]"

lemma tiny_table_checks: "check_entries tiny_table 8 4096 = Ok ()"
  by (simp add: check_entries_def tiny_table_def range_check_def pair_check_def earlier_pairs_def end_lba_def
      entry_blocks_def BLOCK_SIZE_def upt_rec [of 0])

lemma tiny_table_parses:
  "\<exists>block. length block = 512 \<and> parse_exec_table block 8 4096 = Ok tiny_table"
proof -
  have "1 \<le> length tiny_table" "length tiny_table \<le> 8" by (simp_all add: tiny_table_def)
  from encode_words [OF this] parse_words [OF _ this, of _ 8 4096] show ?thesis
    by (auto simp: tiny_table_checks is_block_def)
qed

theorem exec_table_canonical_witness:
  "\<exists>block. parse_exec_table block 8 4096 = Ok tiny_table \<and> encode_table tiny_table = Ok block"
  using tiny_table_parses exec_table_canonical by blast

theorem exec_table_safe_witness:
  "sorted_wrt (\<lambda>a b. end_lba a \<le> unat (start_lba b) \<or> end_lba b \<le> unat (start_lba a)) tiny_table"
  using tiny_table_parses exec_table_safe by blast

end
