(* ===== verification/Btree.thy ===== *)
theory Btree
  imports Snapshot
begin

section \<open>Ordered maps\<close>

text \<open>
  The standard library's \<^verbatim>\<open>BTreeMap\<close>, as the association list its iterator yields: keys strictly
  ascending. The contract of a map (\<open>ordered_map\<close>: lookup after insert and remove, the invariant, and
  that the iterator is determined by the lookups) is a locale, interpreted on the list operations. The
  loop the components' \<^verbatim>\<open>restore\<close> functions share, reading entries with strictly ascending keys, is
  \<open>r_ascending\<close>, with its round trip.
\<close>

type_synonym ('k, 'v) btree = "('k \<times> 'v) list"

abbreviation bt_get :: "('k, 'v) btree \<Rightarrow> 'k \<Rightarrow> 'v option" where
  "bt_get \<equiv> map_of"

fun bt_insert :: "'k::linorder \<Rightarrow> 'v \<Rightarrow> ('k, 'v) btree \<Rightarrow> ('k, 'v) btree" where
  "bt_insert k v [] = [(k, v)]"
| "bt_insert k v ((k', v') # m) =
     (if k < k' then (k, v) # (k', v') # m
      else if k = k' then (k, v) # m
      else (k', v') # bt_insert k v m)"

definition bt_remove :: "'k \<Rightarrow> ('k, 'v) btree \<Rightarrow> ('k, 'v) btree" where
  "bt_remove k m = filter (\<lambda>e. fst e \<noteq> k) m"

definition bt_ok :: "('k::linorder, 'v) btree \<Rightarrow> bool" where
  "bt_ok m \<longleftrightarrow> sorted_wrt (<) (map fst m)"

locale ordered_map =
  fixes emp :: "'m" and get :: "'m \<Rightarrow> 'k::linorder \<Rightarrow> 'v option" and ins :: "'k \<Rightarrow> 'v \<Rightarrow> 'm \<Rightarrow> 'm"
    and del :: "'k \<Rightarrow> 'm \<Rightarrow> 'm" and ok :: "'m \<Rightarrow> bool" and entries :: "'m \<Rightarrow> ('k \<times> 'v) list"
  assumes emp: "ok emp" "get emp = Map.empty"
    and get_ins: "get (ins k v m) = (get m)(k \<mapsto> v)"
    and get_del: "get (del k m) = (get m)(k := None)"
    and ok_ins: "ok m \<Longrightarrow> ok (ins k v m)"
    and ok_del: "ok m \<Longrightarrow> ok (del k m)"
    and entries_sorted: "ok m \<Longrightarrow> sorted_wrt (<) (map fst (entries m))"
    and entries_get: "ok m \<Longrightarrow> (k, v) \<in> set (entries m) \<longleftrightarrow> get m k = Some v"
    and entries_inject: "entries m = entries m' \<Longrightarrow> m = m'"
begin

lemma map_ext:
  assumes "ok m" "ok m'" and "get m = get m'"
  shows "m = m'"
proof -
  have same: "set (entries m) = set (entries m')"
    using assms entries_get by auto
  have dist: "distinct (map fst (entries m))" "distinct (map fst (entries m'))"
    using entries_sorted assms(1,2) strict_sorted_iff by auto
  have keys: "map fst (entries m) = map fst (entries m')"
    using entries_sorted assms(1,2) same by (intro strict_sorted_equal) auto
  have "entries m ! i = entries m' ! i" if "i < length (entries m)" for i
  proof -
    have i': "i < length (entries m')" using that keys by (metis length_map)
    obtain k v where e: "entries m ! i = (k, v)" by fastforce
    obtain k' v' where e': "entries m' ! i = (k', v')" by fastforce
    have "k = k'" using keys e e' that i' by (metis fst_conv nth_map)
    moreover have "get m k = Some v" using entries_get [OF assms(1)] nth_mem [OF that] e by metis
    moreover have "get m' k' = Some v'" using entries_get [OF assms(2)] nth_mem [OF i'] e' by metis
    ultimately show ?thesis using e e' assms(3) by simp
  qed
  moreover have "length (entries m) = length (entries m')" using keys by (metis length_map)
  ultimately show ?thesis using entries_inject nth_equalityI by blast
qed

lemma del_ins: "ok m \<Longrightarrow> get m k = None \<Longrightarrow> del k (ins k v m) = m"
  by (rule map_ext) (simp_all add: ok_ins ok_del get_ins get_del fun_upd_idem)

end

lemma bt_get_insert [simp]: "bt_get (bt_insert k v m) = (bt_get m)(k \<mapsto> v)"
  by (induction k v m rule: bt_insert.induct) (auto simp: fun_eq_iff)

lemma bt_get_remove [simp]: "bt_get (bt_remove k m) = (bt_get m)(k := None)"
  by (induction m) (auto simp: bt_remove_def fun_eq_iff)

lemma fst_bt_insert [simp]: "fst ` set (bt_insert k v m) = insert k (fst ` set m)"
  by (induction k v m rule: bt_insert.induct) auto

lemma bt_ok_insert: "bt_ok m \<Longrightarrow> bt_ok (bt_insert k v m)"
proof (induction k v m rule: bt_insert.induct)
  case (2 k v k' v' m)
  have "\<forall>y\<in>fst ` set (bt_insert k v m). k' < y" if "\<not> k < k'" "k \<noteq> k'"
    using 2 that by (auto simp: bt_ok_def)
  with 2 show ?case by (auto simp: bt_ok_def simp flip: set_map)
qed (simp add: bt_ok_def)

lemma bt_ok_remove: "bt_ok m \<Longrightarrow> bt_ok (bt_remove k m)"
  by (induction m) (auto simp: bt_ok_def bt_remove_def)

lemma bt_ok_Nil [simp]: "bt_ok []"
  by (simp add: bt_ok_def)

lemma bt_distinct: "bt_ok m \<Longrightarrow> distinct (map fst m)"
  by (simp add: bt_ok_def strict_sorted_iff)

lemma bt_entries: "bt_ok m \<Longrightarrow> (k, v) \<in> set m \<longleftrightarrow> bt_get m k = Some v"
  by (simp add: bt_distinct)

interpretation bt: ordered_map "[]" bt_get bt_insert bt_remove bt_ok "\<lambda>m. m"
  by unfold_locales (auto simp: bt_ok_insert bt_ok_remove bt_entries simp flip: bt_ok_def)

lemma bt_insert_last:
  "\<forall>x\<in>fst ` set m. x < k \<Longrightarrow> bt_insert k v m = m @ [(k, v)]"
  by (induction k v m rule: bt_insert.induct) auto

subsection \<open>Reading entries with ascending keys\<close>

fun r_ascending :: "nat \<Rightarrow> string \<Rightarrow> ('k::linorder) reader \<Rightarrow> ('k \<Rightarrow> 'v reader) \<Rightarrow> 'k option \<Rightarrow> ('k, 'v) btree
    \<Rightarrow> ('k, 'v) btree reader" where
  "r_ascending 0 why rk rv prev m = rd_return m"
| "r_ascending (Suc n) why rk rv prev m =
     rd_bind rk (\<lambda>k.
       if (case prev of None \<Rightarrow> False | Some p \<Rightarrow> k \<le> p) then invalid why
       else rd_bind (rv k) (\<lambda>v. r_ascending n why rk rv (Some k) (bt_insert k v m)))"

lemma r_ascending_enc:
  assumes "\<And>k v r. (k, v) \<in> set es \<Longrightarrow> rk (wk k @ r) = Ok (k, r)"
    and "\<And>k v r. (k, v) \<in> set es \<Longrightarrow> rv k (wv v @ r) = Ok (v, r)"
    and "bt_ok (m @ es)" and "prev = (if m = [] then None else Some (fst (last m)))"
  shows "r_ascending (length es) why rk rv prev m (concat (map (\<lambda>(k, v). wk k @ wv v) es) @ rest) = Ok (m @ es, rest)"
  using assms
proof (induction es arbitrary: m prev)
  case (Cons e es)
  obtain k v where e: "e = (k, v)" by fastforce
  have below: "\<forall>x\<in>fst ` set m. x < k" and ok: "bt_ok ((m @ [(k, v)]) @ es)"
    using Cons.prems(3) by (auto simp: bt_ok_def sorted_wrt_append e)
  have guard: "\<not> (case prev of None \<Rightarrow> False | Some p \<Rightarrow> k \<le> p)"
  proof (cases "m = []")
    case False
    then have "fst (last m) < k" using below by simp
    then show ?thesis using Cons.prems(4) False by (simp add: leD)
  qed (use Cons.prems(4) in simp)
  have IH: "r_ascending (length es) why rk rv (Some k) (m @ [(k, v)]) (concat (map (\<lambda>(k, v). wk k @ wv v) es) @ rest)
      = Ok ((m @ [(k, v)]) @ es, rest)"
    by (rule Cons.IH) (use Cons.prems(1,2) ok in \<open>auto simp: e\<close>)
  have head: "rk (wk k @ r) = Ok (k, r)" "rv k (wv v @ r) = Ok (v, r)" for r
    using Cons.prems(1) [of k v] Cons.prems(2) [of k v] e by simp_all
  show ?case using IH guard by (simp add: e head bt_insert_last [OF below])
qed simp

end
