(* ===== verification/Plat_Ram.thy ===== *)
theory Plat_Ram
  imports Snapshot "HOL-Library.Product_Lexorder"
begin

section \<open>The RAM\<close>

text \<open>
  Models \<^verbatim>\<open>components/platform/src/ram.rs\<close>: a sparse memory of 4096-byte pages that serves \<^verbatim>\<open>mem.v1\<close> requests.
  The page map is a partial function from page index to the page's bytes; the snapshot walks it in
  ascending index order, over the indices the size allows. The abstraction is the byte at an offset
  (\<open>ram_byte\<close>): loads read it, stores update it, and a canonical map (no all-zero page, nothing
  outside the size) is determined by it, so equal contents have equal snapshots.
\<close>

definition RAM_PORT :: PortId where "RAM_PORT = 0"
definition RAM_PAGE_SIZE :: usize where "RAM_PAGE_SIZE = 4096"
definition MAX_SIZE :: u64 where "MAX_SIZE = 2 ^ 32"
definition RAM_PAGE :: u64 where "RAM_PAGE = RAM_PAGE_SIZE"

record RamConfig =
  ram_size :: u64
  ram_latency :: LinkLatency

record RamSegment =
  rs_offset :: u64
  rs_bytes :: "u8 list"

record RamImage =
  ri_hash :: "u8 list"
  ri_segments :: "RamSegment list"

datatype RamConfigError = RamZeroSize | RamTooLarge u64 | SegmentOutOfRange usize | SegmentsOverlap usize usize

type_synonym page_map = "nat \<Rightarrow> u8 list option"

record Ram =
  ram_config :: RamConfig
  ram_image_hash :: "u8 list"
  ram_pages :: page_map

definition page_index :: "u64 \<Rightarrow> nat" where
  "page_index offset = offset div RAM_PAGE"

function load_pages :: "page_map \<Rightarrow> u64 \<Rightarrow> usize \<Rightarrow> u8 list" where
  "load_pages pages at len =
     (if len = 0 then []
      else
        (let start = at mod RAM_PAGE;
             n = min (RAM_PAGE_SIZE - start) len;
             chunk = (case pages (page_index at) of
                Some page \<Rightarrow> take n (drop start page)
              | None \<Rightarrow> replicate n 0)
         in chunk @ load_pages pages (at + n) (len - n)))"
  by pat_completeness auto

termination
  by (relation "measure (\<lambda>(_, _, len). len)") (auto simp: RAM_PAGE_def RAM_PAGE_SIZE_def)

declare load_pages.simps [simp del]

definition ram_load :: "Ram \<Rightarrow> u64 \<Rightarrow> usize \<Rightarrow> u8 list" where
  "ram_load ram offset len = load_pages (ram_pages ram) offset len"

definition store_chunk :: "page_map \<Rightarrow> u64 \<Rightarrow> u8 list \<Rightarrow> page_map" where
  "store_chunk pages at chunk =
     (let start = at mod RAM_PAGE; i = page_index at in
      case pages i of
        Some page \<Rightarrow>
          (let page = slice_put page start chunk in
           if list_all (\<lambda>b. b = 0) page then pages(i := None) else pages(i \<mapsto> page))
      | None \<Rightarrow>
          if list_ex (\<lambda>b. b \<noteq> 0) chunk
          then pages(i \<mapsto> slice_put (replicate RAM_PAGE_SIZE 0) start chunk)
          else pages)"

function store_pages :: "page_map \<Rightarrow> u64 \<Rightarrow> u8 list \<Rightarrow> page_map" where
  "store_pages pages at data =
     (if data = [] then pages
      else
        (let n = min (RAM_PAGE_SIZE - at mod RAM_PAGE) (length data)
         in store_pages (store_chunk pages at (take n data)) (at + n) (drop n data)))"
  by pat_completeness auto

termination
  by (relation "measure (\<lambda>(_, _, data). length data)") (auto simp: RAM_PAGE_def RAM_PAGE_SIZE_def)

declare store_pages.simps [simp del]

definition ram_store :: "Ram \<Rightarrow> u64 \<Rightarrow> u8 list \<Rightarrow> Ram" where
  "ram_store ram offset data = ram\<lparr>ram_pages := store_pages (ram_pages ram) offset data\<rparr>"

definition segment_span :: "u64 \<Rightarrow> usize \<times> RamSegment \<Rightarrow> ((u64 \<times> u64 \<times> usize) option, RamConfigError) result" where
  "segment_span sz ie =
     (case ie of (i, segment) \<Rightarrow>
        (let finish = rs_offset segment + length (rs_bytes segment) in
         if \<not> (finish \<le> u64_max \<and> finish \<le> sz) then Err (SegmentOutOfRange i)
         else Ok (if finish > rs_offset segment then Some (rs_offset segment, finish, i) else None)))"

definition span_check :: "u64 \<times> u64 \<times> usize \<Rightarrow> u64 \<times> u64 \<times> usize \<Rightarrow> RamConfigError option" where
  "span_check x y =
     (case x of (_, finish, a) \<Rightarrow> case y of (start, _, b) \<Rightarrow>
        if start < finish then Some (SegmentsOverlap (min a b) (max a b)) else None)"

definition Ram_new :: "RamConfig \<Rightarrow> RamImage \<Rightarrow> (Ram, RamConfigError) result" where
  "Ram_new config img =
     (if ram_size config = 0 then Err RamZeroSize
      else if ram_size config > MAX_SIZE then Err (RamTooLarge (ram_size config))
      else
        result_bind (try_filter_map (segment_span (ram_size config)) (enumerate 0 (ri_segments img))) (\<lambda>spans.
        result_bind (windows_check span_check (sort spans)) (\<lambda>_.
          Ok (fold (\<lambda>segment ram. ram_store ram (rs_offset segment) (rs_bytes segment)) (ri_segments img)
               \<lparr>ram_config = config, ram_image_hash = ri_hash img, ram_pages = (\<lambda>_. None)\<rparr>))))"

subsection \<open>Events\<close>

fun ram_respond :: "Ram \<Rightarrow> bool \<Rightarrow> MemMsg \<Rightarrow> (Ram \<times> MemMsg, Abort) result" where
  "ram_respond ram in_range (ReadReq txn addr len) =
     Ok (ram, ReadResp txn (if in_range then ReadData (ram_load ram addr (unat len)) else ReadFault AccessFault))"
| "ram_respond ram in_range (WriteReq txn addr data) =
     (if in_range then Ok (ram_store ram addr data, WriteResp txn WriteDone)
      else Ok (ram, WriteResp txn (WriteFault AccessFault)))"
| "ram_respond ram in_range _ = component_fault ''ram: response on the target port''"

definition ram_handle_event :: "Ram \<Rightarrow> Delivered \<Rightarrow> SimContext \<Rightarrow> Ram handled" where
  "ram_handle_event ram ev ctx =
     (case ev of
        DMessage _ (MsgMemV1 msg) \<Rightarrow>
          result_bind
            (case mem_access msg of
               None \<Rightarrow> component_fault ''ram: response on the target port''
             | Some AccEmpty \<Rightarrow> component_fault ''ram: zero-length request''
             | Some AccOutOfRange \<Rightarrow> Ok False
             | Some (AccBytes _ last_byte) \<Rightarrow> Ok (last_byte < ram_size (ram_config ram))) (\<lambda>in_range.
          result_bind (ram_respond ram in_range msg) (\<lambda>(ram', resp).
          result_bind (ctx_send RAM_PORT (MsgMemV1 resp) (latency_when (ram_latency (ram_config ram))) PhComplete ctx)
            (\<lambda>ctx'. Ok (ram', ctx'))))
      | _ \<Rightarrow> component_fault ''ram: unexpected delivery'')"

definition ram_init :: "Ram \<Rightarrow> (Ram, Abort) result" where
  "ram_init ram = Ok ram"

subsection \<open>Snapshots\<close>

definition ram_page_indices :: "Ram \<Rightarrow> nat list" where
  "ram_page_indices ram =
     filter (\<lambda>i. ram_pages ram i \<noteq> None) [0..<(ram_size (ram_config ram) + (RAM_PAGE - 1)) div RAM_PAGE]"

definition ram_write_config :: "Ram \<Rightarrow> u8 list" where
  "ram_write_config ram = w_u64 (ram_size (ram_config ram)) @ ram_image_hash ram @ w_latency (ram_latency (ram_config ram))"

definition ram_write_page :: "Ram \<Rightarrow> nat \<Rightarrow> u8 list" where
  "ram_write_page ram i = w_u32 (of_nat i) @ w_bytes (case ram_pages ram i of Some page \<Rightarrow> page | None \<Rightarrow> [])"

definition ram_snapshot :: "Ram \<Rightarrow> u8 list" where
  "ram_snapshot ram = ram_write_config ram @ w_len (length (ram_page_indices ram))
     @ concat (map (ram_write_page ram) (ram_page_indices ram))"

definition ram_restore_page :: "u64 \<Rightarrow> nat option \<times> page_map \<Rightarrow> (nat option \<times> page_map) reader" where
  "ram_restore_page sz st =
     (case st of (previous, pages) \<Rightarrow>
        rd_bind r_u32 (\<lambda>index_word.
          let index = unat index_word; start = index * RAM_PAGE in
          if (case previous of None \<Rightarrow> False | Some p \<Rightarrow> index \<le> p) then invalid ''ram: pages out of order or duplicated''
          else if start \<ge> sz then invalid ''ram: page past the end''
          else
            rd_bind r_bytes (\<lambda>bytes.
              if length bytes \<noteq> RAM_PAGE_SIZE then invalid ''ram: page is not 4096 bytes''
              else if list_all (\<lambda>b. b = 0) bytes then invalid ''ram: all-zero page''
              else if list_ex (\<lambda>b. b \<noteq> 0) (drop (min (sz - start) RAM_PAGE) bytes)
                then invalid ''ram: non-zero bytes past the end''
              else rd_return (Some index, pages(index \<mapsto> bytes)))))"

fun ram_restore_pages :: "nat \<Rightarrow> u64 \<Rightarrow> nat option \<times> page_map \<Rightarrow> (nat option \<times> page_map) reader" where
  "ram_restore_pages 0 sz st = rd_return st"
| "ram_restore_pages (Suc n) sz st = rd_bind (ram_restore_page sz st) (ram_restore_pages n sz)"

definition ram_restore :: "Ram \<Rightarrow> Ram reader" where
  "ram_restore ram =
     rd_bind r_u64 (\<lambda>sz.
     if sz \<noteq> ram_size (ram_config ram) then invalid ''ram: snapshot has a different size'' else
     rd_bind (r_raw 32) (\<lambda>hash.
     if hash \<noteq> ram_image_hash ram then invalid ''ram: snapshot has a different image hash'' else
     (let latency = w_latency (ram_latency (ram_config ram)) in
      rd_bind (r_raw (length latency)) (\<lambda>bytes.
      if bytes \<noteq> latency then invalid ''ram: snapshot has a different latency'' else
      rd_bind r_len (\<lambda>n.
      rd_bind (ram_restore_pages n (ram_size (ram_config ram)) (None, \<lambda>_. None)) (\<lambda>(_, pages).
      rd_return (ram\<lparr>ram_pages := pages\<rparr>)))))))"

lemmas ram_consts = RAM_PORT_def RAM_PAGE_SIZE_def RAM_PAGE_def MAX_SIZE_def

subsection \<open>The byte at an offset\<close>

definition page_byte :: "page_map \<Rightarrow> u64 \<Rightarrow> u8" where
  "page_byte pages a = (case pages (a div 4096) of None \<Rightarrow> 0 | Some p \<Rightarrow> p ! (a mod 4096))"

definition ram_byte :: "Ram \<Rightarrow> u64 \<Rightarrow> u8" where
  "ram_byte ram a = page_byte (ram_pages ram) a"

text \<open>A page of the map: whole, not all zero, inside the size, and zero past it.\<close>

definition page_ok :: "u64 \<Rightarrow> nat \<Rightarrow> u8 list \<Rightarrow> bool" where
  "page_ok sz i p \<longleftrightarrow> length p = 4096 \<and> (\<exists>b\<in>set p. b \<noteq> 0) \<and> i * 4096 < sz
     \<and> (\<forall>k<4096. sz \<le> i * 4096 + k \<longrightarrow> p ! k = 0)"

definition pages_ok :: "u64 \<Rightarrow> page_map \<Rightarrow> bool" where
  "pages_ok sz pages \<longleftrightarrow> (\<forall>i p. pages i = Some p \<longrightarrow> page_ok sz i p)"

definition ram_inv :: "Ram \<Rightarrow> bool" where
  "ram_inv ram \<longleftrightarrow> 0 < ram_size (ram_config ram) \<and> ram_size (ram_config ram) \<le> 2 ^ 32
     \<and> pages_ok (ram_size (ram_config ram)) (ram_pages ram)"

lemma window_in_page:
  assumes "at mod 4096 + n \<le> (4096 :: nat)" "at \<le> a" "a < at + n"
  shows "a div 4096 = at div 4096" and "a mod 4096 = at mod 4096 + (a - at)"
proof -
  have a: "a = 4096 * (at div 4096) + (at mod 4096 + (a - at))" using assms(2) by simp
  have small: "at mod 4096 + (a - at) < 4096" using assms by linarith
  have "4096 * (at div 4096) \<le> a" "a < 4096 * (at div 4096) + 4096" using a small by linarith+
  then show d: "a div 4096 = at div 4096" by (intro div_nat_eqI) simp_all
  show "a mod 4096 = at mod 4096 + (a - at)"
    using a d div_mult_mod_eq [of a 4096] by linarith
qed

lemma page_in_window:
  assumes "a div 4096 = at div (4096 :: nat)" "at mod 4096 \<le> a mod 4096" "a mod 4096 < at mod 4096 + n"
  shows "at \<le> a" and "a < at + n"
  using assms div_mult_mod_eq [of a 4096] div_mult_mod_eq [of at 4096] by linarith+

lemma load_pages_bytes:
  assumes "\<And>i p. pages i = Some p \<Longrightarrow> length p = 4096"
  shows "load_pages pages at len = map (\<lambda>k. page_byte pages (at + k)) [0..<len]"
  using assms
proof (induction pages at len rule: load_pages.induct)
  case (1 pages at len)
  show ?case
  proof (cases "len = 0")
    case False
    define start where "start = at mod 4096"
    define n where "n = min (4096 - start) len"
    define chunk where "chunk = (case pages (at div 4096) of Some page \<Rightarrow> take n (drop start page) | None \<Rightarrow> replicate n 0)"
    have fits: "at mod 4096 + n \<le> 4096" and nl: "n \<le> len" by (simp_all add: start_def n_def)
    have chunk: "chunk = map (\<lambda>k. page_byte pages (at + k)) [0..<n]"
    proof (rule nth_equalityI)
      show len: "length chunk = length (map (\<lambda>k. page_byte pages (at + k)) [0..<n])"
        using "1.prems" fits by (auto simp: chunk_def start_def split: option.splits)
      fix k assume "k < length chunk"
      then have k: "k < n" using len by simp
      have "(at + k) div 4096 = at div 4096" "(at + k) mod 4096 = start + k"
        using window_in_page [OF fits, of "at + k"] k by (simp_all add: start_def)
      then show "chunk ! k = map (\<lambda>k. page_byte pages (at + k)) [0..<n] ! k"
        using k "1.prems" fits by (auto simp: chunk_def page_byte_def start_def split: option.splits)
    qed
    have rest: "load_pages pages (at + n) (len - n) = map (\<lambda>k. page_byte pages (at + n + k)) [0..<len - n]"
      using "1.IH" [OF False, of start n] "1.prems" by (simp add: start_def n_def ram_consts)
    have split: "[0..<len] = [0..<n] @ map (\<lambda>k. k + n) [0..<len - n]"
      using upt_add_eq_append [of 0 n "len - n"] nl by (simp add: map_add_upt)
    have unfold: "load_pages pages at len = chunk @ load_pages pages (at + n) (len - n)"
      using False by (subst load_pages.simps) (simp add: Let_def ram_consts page_index_def chunk_def start_def n_def split: option.split)
    show ?thesis unfolding unfold chunk rest split by (simp add: o_def algebra_simps)
  qed (simp add: load_pages.simps)
qed

lemma store_chunk_byte:
  assumes lens: "\<And>i p. pages i = Some p \<Longrightarrow> length p = 4096" and fits: "at mod 4096 + length chunk \<le> 4096"
  shows "page_byte (store_chunk pages at chunk) a =
    (if at \<le> a \<and> a < at + length chunk then chunk ! (a - at) else page_byte pages a)"
proof -
  let ?i = "at div 4096" and ?s = "at mod 4096"
  have window: "at \<le> a \<and> a < at + length chunk \<longleftrightarrow>
      a div 4096 = ?i \<and> ?s \<le> a mod 4096 \<and> a mod 4096 < ?s + length chunk"
  proof
    assume l: "at \<le> a \<and> a < at + length chunk"
    note w = window_in_page [OF fits conjunct1 [OF l] conjunct2 [OF l]]
    show "a div 4096 = ?i \<and> ?s \<le> a mod 4096 \<and> a mod 4096 < ?s + length chunk"
      unfolding w using l by linarith
  qed (use page_in_window [of a at "length chunk"] in blast)
  have inner: "slice_put p ?s chunk ! (a mod 4096) =
      (if ?s \<le> a mod 4096 \<and> a mod 4096 < ?s + length chunk then chunk ! (a mod 4096 - ?s) else p ! (a mod 4096))"
    if "length p = 4096" for p
    using that fits nth_slice_put [of ?s chunk p "a mod 4096"] by simp
  have offset: "a mod 4096 - ?s = a - at" if "at \<le> a \<and> a < at + length chunk"
    using window_in_page [OF fits] that by simp
  show ?thesis
  proof (cases "a div 4096 = ?i")
    case False
    then have "store_chunk pages at chunk (a div 4096) = pages (a div 4096)"
      by (auto simp: store_chunk_def Let_def page_index_def ram_consts split: option.splits)
    then show ?thesis using False window by (auto simp: page_byte_def)
  next
    case True
    show ?thesis
    proof (cases "pages ?i")
      case None
      have "list_ex (\<lambda>b. b \<noteq> 0) chunk \<or> chunk ! (a - at) = 0" if "at \<le> a \<and> a < at + length chunk"
        using that by (auto simp: list_ex_iff)
      then show ?thesis
        using None True inner [of "replicate 4096 0"] window offset
        by (auto simp: store_chunk_def Let_def page_index_def ram_consts page_byte_def)
    next
      case (Some p)
      have zero: "list_all (\<lambda>b. b = 0) (slice_put p ?s chunk) \<Longrightarrow> slice_put p ?s chunk ! (a mod 4096) = 0"
        using lens [OF Some] fits by (simp add: list_all_length)
      show ?thesis
        using Some True inner [OF lens [OF Some]] window offset zero
        by (auto simp: store_chunk_def Let_def page_index_def ram_consts page_byte_def split: if_splits)
    qed
  qed
qed

lemma store_chunk_ok:
  assumes ok: "pages_ok sz pages" and fits: "at mod 4096 + length chunk \<le> 4096" "at + length chunk \<le> sz" "chunk \<noteq> []"
  shows "pages_ok sz (store_chunk pages at chunk)"
proof -
  let ?i = "at div 4096" and ?s = "at mod 4096"
  have base: "?i * 4096 < sz" using fits(2,3) div_mult_mod_eq [of at 4096] by (cases chunk) auto
  have page: "page_ok sz ?i (slice_put p ?s chunk)"
    if "length p = 4096" "\<exists>b\<in>set (slice_put p ?s chunk). b \<noteq> 0" "\<forall>k<4096. sz \<le> ?i * 4096 + k \<longrightarrow> p ! k = 0" for p
  proof -
    have "slice_put p ?s chunk ! k = 0" if "k < 4096" "sz \<le> ?i * 4096 + k" for k
    proof -
      have "?s + length chunk \<le> k" using that fits(2) div_mult_mod_eq [of at 4096] by linarith
      then show ?thesis using that \<open>length p = 4096\<close> fits(1) \<open>\<forall>k<4096. sz \<le> ?i * 4096 + k \<longrightarrow> p ! k = 0\<close>
        by (subst nth_slice_put) auto
    qed
    then show ?thesis using that(1,2) fits(1) base by (simp add: page_ok_def)
  qed
  show ?thesis
  proof (cases "pages ?i")
    case None
    have "\<exists>b\<in>set (slice_put (replicate 4096 0) ?s chunk). b \<noteq> 0" if "list_ex (\<lambda>b. b \<noteq> 0) chunk"
      using that by (auto simp: list_ex_iff slice_put_def)
    with ok None page [of "replicate 4096 0"] show ?thesis
      by (auto simp: store_chunk_def Let_def page_index_def ram_consts pages_ok_def)
  next
    case (Some p)
    then have p: "page_ok sz ?i p" using ok by (simp add: pages_ok_def)
    have "page_ok sz ?i (slice_put p ?s chunk)" if "\<not> list_all (\<lambda>b. b = 0) (slice_put p ?s chunk)"
      using page [of p] p that by (auto simp: page_ok_def list_all_iff)
    with ok Some show ?thesis
      by (auto simp: store_chunk_def Let_def page_index_def ram_consts pages_ok_def)
  qed
qed

lemma pages_ok_length: "pages_ok sz pages \<Longrightarrow> pages i = Some p \<Longrightarrow> length p = 4096"
  by (simp add: pages_ok_def page_ok_def)

lemma store_pages_spec:
  assumes "pages_ok sz pages" and "at + length data \<le> sz"
  shows "pages_ok sz (store_pages pages at data) \<and>
    page_byte (store_pages pages at data) a = (if at \<le> a \<and> a < at + length data then data ! (a - at) else page_byte pages a)"
  using assms
proof (induction pages at data rule: store_pages.induct)
  case (1 pages at data)
  show ?case
  proof (cases "data = []")
    case False
    define n where "n = min (4096 - at mod 4096) (length data)"
    have n: "at mod 4096 + n \<le> 4096" "n \<le> length data" "0 < n" using False by (auto simp: n_def)
    have ok: "pages_ok sz (store_chunk pages at (take n data))"
      using "1.prems" n False by (intro store_chunk_ok) (auto simp: min_def)
    have unfold: "store_pages pages at data = store_pages (store_chunk pages at (take n data)) (at + n) (drop n data)"
      using False by (subst store_pages.simps) (simp add: Let_def n_def ram_consts)
    have IH: "pages_ok sz (store_pages pages at data) \<and> page_byte (store_pages pages at data) a =
        (if at + n \<le> a \<and> a < at + length data then data ! (a - at)
         else page_byte (store_chunk pages at (take n data)) a)"
      using "1.IH" [OF False, of n] ok "1.prems"(2) n unfolding unfold
      by (auto simp: n_def ram_consts algebra_simps)
    have "page_byte (store_chunk pages at (take n data)) a =
        (if at \<le> a \<and> a < at + n then data ! (a - at) else page_byte pages a)"
      using store_chunk_byte [of pages at "take n data" a] pages_ok_length [OF "1.prems"(1)] n by (auto simp: min_def)
    with IH n(2) show ?thesis by auto
  next
    case True
    with "1.prems" show ?thesis by (auto simp: store_pages.simps)
  qed
qed


subsection \<open>Serving requests\<close>

text \<open>The specification: a byte array of the configured size.\<close>

fun mem_spec :: "u64 \<Rightarrow> (u64 \<Rightarrow> u8) \<Rightarrow> MemMsg \<Rightarrow> ((u64 \<Rightarrow> u8) \<times> MemMsg) option" where
  "mem_spec sz f (ReadReq txn addr len) =
     (if len = 0 then None
      else Some (f, ReadResp txn (if addr + unat len \<le> sz then ReadData (map f [addr..<addr + unat len])
                                  else ReadFault AccessFault)))"
| "mem_spec sz f (WriteReq txn addr data) =
     (if data = [] then None
      else if addr + length data \<le> sz
      then Some (\<lambda>a. if addr \<le> a \<and> a < addr + length data then data ! (a - addr) else f a, WriteResp txn WriteDone)
      else Some (f, WriteResp txn (WriteFault AccessFault)))"
| "mem_spec sz f _ = None"

lemma ram_load_bytes:
  assumes "ram_inv ram"
  shows "ram_load ram addr n = map (ram_byte ram) [addr..<addr + n]"
proof -
  have "ram_load ram addr n = map (\<lambda>k. ram_byte ram (addr + k)) [0..<n]"
    unfolding ram_load_def ram_byte_def
    by (rule load_pages_bytes) (use assms pages_ok_length in \<open>auto simp: ram_inv_def\<close>)
  also have "\<dots> = map (ram_byte ram) [addr..<addr + n]"
    unfolding map_add_upt [of addr n, symmetric, simplified add.commute] by (simp add: add.commute)
  finally show ?thesis .
qed

lemma ram_store_spec:
  assumes "ram_inv ram" and "at + length data \<le> ram_size (ram_config ram)"
  shows "ram_inv (ram_store ram at data)"
    and "ram_byte (ram_store ram at data) = (\<lambda>a. if at \<le> a \<and> a < at + length data then data ! (a - at) else ram_byte ram a)"
    and "ram_config (ram_store ram at data) = ram_config ram" "ram_image_hash (ram_store ram at data) = ram_image_hash ram"
  using assms store_pages_spec [of "ram_size (ram_config ram)" "ram_pages ram" at data]
  by (auto simp: ram_inv_def ram_store_def ram_byte_def)

lemma ram_in_range:
  assumes "sz \<le> 2 ^ 32" and "0 < n"
  shows "(case byte_access addr n of AccEmpty \<Rightarrow> component_fault w | AccOutOfRange \<Rightarrow> Ok False
    | AccBytes f l \<Rightarrow> Ok (l < sz)) = Ok (addr + n \<le> sz)"
  using assms by (auto simp: byte_access_def u64_max_def)

lemma ram_serves:
  assumes "ram_inv ram" and "accepts_all ctx"
  shows "case mem_spec (ram_size (ram_config ram)) (ram_byte ram) msg of
      None \<Rightarrow> \<exists>why. ram_handle_event ram (DMessage port (MsgMemV1 msg)) ctx = component_fault why
    | Some (f, resp) \<Rightarrow> \<exists>ram'. ram_handle_event ram (DMessage port (MsgMemV1 msg)) ctx =
          Ok (ram', ctx\<lparr>ctx_out := ctx_out ctx @ [EffSend 0 (MsgMemV1 resp) (latency_when (ram_latency (ram_config ram))) PhComplete]\<rparr>)
        \<and> ram_inv ram' \<and> ram_byte ram' = f \<and> ram_config ram' = ram_config ram \<and> ram_image_hash ram' = ram_image_hash ram"
proof -
  have sz: "ram_size (ram_config ram) \<le> 2 ^ 32" using assms(1) by (simp add: ram_inv_def)
  note sends = ram_handle_event_def ctx_send_def ctx_effect_accepted [OF assms(2)] RAM_PORT_def
  show ?thesis
  proof (cases msg)
    case (ReadReq txn addr len)
    show ?thesis
    proof (cases "len = 0")
      case False
      then have pos: "0 < unat len" by (simp add: unat_gt_0)
      show ?thesis
        using False by (simp add: ReadReq sends ram_in_range [OF sz pos] ram_load_bytes [OF assms(1)] assms(1))
    qed (auto simp: ReadReq ram_handle_event_def byte_access_def)
  next
    case (WriteReq txn addr data)
    show ?thesis
    proof (cases "data = []")
      case False
      then have pos: "0 < length data" by simp
      show ?thesis
        using False ram_store_spec [OF assms(1), of addr data]
        by (simp add: WriteReq sends ram_in_range [OF sz pos] assms(1))
    qed (auto simp: WriteReq ram_handle_event_def byte_access_def)
  qed (auto simp: ram_handle_event_def)
qed

text \<open>
  C23. The RAM refines a byte array of its size: every request is answered as the array answers it, in
  range or not, across pages, with the response sent after the configured latency in \<^verbatim>\<open>Complete\<close>; the
  contents afterwards are the array's, and the storage stays canonical. Empty requests and responses
  fault the session.
\<close>

theorem ram_refines_bytes:
  assumes "ram_inv ram" and "accepts_all ctx"
  shows "case mem_spec (ram_size (ram_config ram)) (ram_byte ram) msg of
      None \<Rightarrow> \<exists>why. ram_handle_event ram (DMessage port (MsgMemV1 msg)) ctx = component_fault why
    | Some (f, resp) \<Rightarrow> \<exists>ram'. ram_handle_event ram (DMessage port (MsgMemV1 msg)) ctx =
          Ok (ram', ctx\<lparr>ctx_out := ctx_out ctx @ [EffSend 0 (MsgMemV1 resp) (latency_when (ram_latency (ram_config ram))) PhComplete]\<rparr>)
        \<and> ram_inv ram' \<and> ram_byte ram' = f \<and> ram_config ram' = ram_config ram \<and> ram_image_hash ram' = ram_image_hash ram"
  by (rule ram_serves [OF assms])

subsection \<open>Canonical storage\<close>

lemma pages_ext:
  assumes "pages_ok sz p" "pages_ok sz q" and "\<And>a. page_byte p a = page_byte q a"
  shows "p = q"
proof
  fix i
  have byte: "(case p i of None \<Rightarrow> 0 | Some x \<Rightarrow> x ! k) = (case q i of None \<Rightarrow> 0 | Some x \<Rightarrow> x ! k)" if "k < 4096" for k
  proof -
    have "(k + 4096 * i) div 4096 = i" "(k + 4096 * i) mod 4096 = k"
      using that by (simp, simp only: mod_mult_self2 mod_less)
    then show ?thesis using assms(3) [of "k + 4096 * i"] unfolding page_byte_def by (simp only:)
  qed
  have nonzero: "\<exists>k<4096. x ! k \<noteq> 0" if "page_ok sz i x" for x
    using that by (auto simp: page_ok_def in_set_conv_nth)
  show "p i = q i"
  proof (cases "p i"; cases "q i")
    fix x assume "p i = None" "q i = Some x"
    then show ?thesis using nonzero [of x] assms(2) byte by (force simp: pages_ok_def)
  next
    fix x assume "p i = Some x" "q i = None"
    then show ?thesis using nonzero [of x] assms(1) byte by (force simp: pages_ok_def)
  next
    fix x y assume "p i = Some x" "q i = Some y"
    moreover from this have "length x = 4096" "length y = 4096" using assms pages_ok_length by blast+
    ultimately show ?thesis using byte by (auto intro: nth_equalityI)
  qed simp
qed

text \<open>
  The storage is canonical: two RAMs with the same configuration and the same bytes are the same, page
  by page, whatever writes produced them, and so are their snapshots.
\<close>

theorem ram_canonical:
  assumes "ram_inv ram" "ram_inv ram'" and "ram_config ram = ram_config ram'" "ram_image_hash ram = ram_image_hash ram'"
    and "ram_byte ram = ram_byte ram'"
  shows "ram = ram' \<and> ram_snapshot ram = ram_snapshot ram'"
proof -
  have "ram_pages ram = ram_pages ram'"
    using assms by (intro pages_ext [of "ram_size (ram_config ram)"]) (auto simp: ram_inv_def ram_byte_def fun_eq_iff)
  with assms have "ram = ram'" by (cases ram; cases ram') simp
  then show ?thesis by simp
qed

subsection \<open>Restoring a snapshot\<close>

lemma restore_page_written:
  assumes "ram_pages ram i = Some p" "page_ok sz i p" and "sz \<le> 2 ^ 32" and "case prev of None \<Rightarrow> True | Some j \<Rightarrow> j < i"
  shows "ram_restore_page sz (prev, m) (ram_write_page ram i @ rest) = Ok ((Some i, m(i \<mapsto> p)), rest)"
proof -
  have p: "length p = 4096" "i * 4096 < sz" "\<not> list_all (\<lambda>b. b = 0) p"
    using assms(2) by (auto simp: page_ok_def list_all_iff)
  have idx: "unat (of_nat i :: u32) = i" using p(2) assms(3) by (simp add: unat_of_nat)
  have tail: "\<not> list_ex (\<lambda>b. b \<noteq> 0) (drop (min (sz - i * 4096) 4096) p)"
    using assms(2) p by (auto simp: page_ok_def list_ex_length)
  show ?thesis
    using p idx tail assms(1,4)
    by (auto simp: ram_restore_page_def ram_write_page_def snap_bind Let_def ram_consts split: option.splits)
qed

lemma restore_pages_written:
  assumes "sorted_wrt (<) is" and "\<forall>i\<in>set is. \<exists>p. ram_pages ram i = Some p \<and> page_ok sz i p"
    and "sz \<le> 2 ^ 32" and "\<forall>i\<in>set is. case prev of None \<Rightarrow> True | Some j \<Rightarrow> j < i"
  shows "\<exists>l. ram_restore_pages (length is) sz (prev, m) (concat (map (ram_write_page ram) is) @ rest) =
    Ok ((l, \<lambda>j. if j \<in> set is then ram_pages ram j else m j), rest)"
  using assms
proof (induction "is" arbitrary: prev m)
  case (Cons i "is")
  then obtain p where p: "ram_pages ram i = Some p" "page_ok sz i p" by auto
  have "\<exists>l. ram_restore_pages (length is) sz (Some i, m(i \<mapsto> p)) (concat (map (ram_write_page ram) is) @ rest) =
      Ok ((l, \<lambda>j. if j \<in> set is then ram_pages ram j else (m(i \<mapsto> p)) j), rest)"
    by (rule Cons.IH) (use Cons.prems in simp_all)
  moreover have "(\<lambda>j. if j \<in> set is then ram_pages ram j else (m(i \<mapsto> p)) j) =
      (\<lambda>j. if j \<in> set (i # is) then ram_pages ram j else m j)"
    using p(1) by auto
  ultimately show ?case
    using restore_page_written [OF p Cons.prems(3), of prev m] Cons.prems(4) by simp
qed simp

lemma page_indices_iff:
  assumes "ram_inv ram"
  shows "i \<in> set (ram_page_indices ram) \<longleftrightarrow> ram_pages ram i \<noteq> None"
proof -
  have "i < (ram_size (ram_config ram) + 4095) div 4096" if "ram_pages ram i = Some p" for p
  proof -
    have "i * 4096 < ram_size (ram_config ram)"
      using that assms by (auto simp: ram_inv_def pages_ok_def page_ok_def)
    then have "Suc i \<le> (ram_size (ram_config ram) + 4095) div 4096" by (subst less_eq_div_iff_mult_less_eq) simp_all
    then show ?thesis by simp
  qed
  then show ?thesis by (auto simp: ram_page_indices_def ram_consts)
qed

lemma page_indices_few: "ram_inv ram \<Longrightarrow> length (ram_page_indices ram) < 256 ^ 4"
proof -
  assume "ram_inv ram"
  then have "(ram_size (ram_config ram) + 4095) div 4096 \<le> (2 ^ 32 + 4095) div 4096"
    by (intro div_le_mono) (simp add: ram_inv_def)
  moreover have "length (ram_page_indices ram) \<le> (ram_size (ram_config ram) + 4095) div 4096"
    using length_filter_le [of "\<lambda>i. ram_pages ram i \<noteq> None" "[0..<(ram_size (ram_config ram) + 4095) div 4096]"]
    by (simp add: ram_page_indices_def ram_consts)
  ultimately show ?thesis by simp
qed

text \<open>
  A snapshot of a RAM restores it: a RAM built with the same configuration and image, in any state,
  reads the snapshot back to the same pages and consumes exactly its bytes.
\<close>

theorem ram_restore_snapshot:
  assumes "ram_inv ram" and "length (ram_image_hash ram) = 32"
    and "ram_config ram\<^sub>0 = ram_config ram" "ram_image_hash ram\<^sub>0 = ram_image_hash ram"
  shows "ram_restore ram\<^sub>0 (ram_snapshot ram @ rest) = Ok (ram, rest)"
proof -
  have sz: "ram_size (ram_config ram) \<le> 2 ^ 32" "ram_size (ram_config ram) < 256 ^ 8"
    using assms(1) by (simp_all add: ram_inv_def)
  have "sorted_wrt (<) (ram_page_indices ram)" by (simp add: ram_page_indices_def sorted_wrt_filter)
  then have "\<exists>l. ram_restore_pages (length (ram_page_indices ram)) (ram_size (ram_config ram)) (None, \<lambda>_. None)
      (concat (map (ram_write_page ram) (ram_page_indices ram)) @ rest) =
      Ok ((l, \<lambda>j. if j \<in> set (ram_page_indices ram) then ram_pages ram j else None), rest)"
    by (rule restore_pages_written)
      (use assms(1) in \<open>auto simp: page_indices_iff [OF assms(1)] ram_inv_def pages_ok_def\<close>)
  then obtain l where "ram_restore_pages (length (ram_page_indices ram)) (ram_size (ram_config ram)) (None, \<lambda>_. None)
      (concat (map (ram_write_page ram) (ram_page_indices ram)) @ rest) =
      Ok ((l, \<lambda>j. if j \<in> set (ram_page_indices ram) then ram_pages ram j else None), rest)" ..
  moreover have "(\<lambda>j. if j \<in> set (ram_page_indices ram) then ram_pages ram j else None) = ram_pages ram"
    by (auto simp: page_indices_iff [OF assms(1)])
  moreover have "ram\<^sub>0\<lparr>ram_pages := ram_pages ram\<rparr> = ram" using assms(3,4) by (cases ram; cases ram\<^sub>0) simp
  moreover have "r_raw 32 (ram_image_hash ram @ r) = Ok (ram_image_hash ram, r)" for r
    using r_raw_app [of "ram_image_hash ram" r] assms(2) by simp
  ultimately show ?thesis
    using sz(2) page_indices_few [OF assms(1)] assms(3,4)
    by (simp add: ram_restore_def ram_snapshot_def ram_write_config_def snap_bind Let_def)
qed

subsection \<open>Building a RAM from an image\<close>

definition seg_covers :: "RamSegment \<Rightarrow> u64 \<Rightarrow> bool" where
  "seg_covers s a \<longleftrightarrow> rs_offset s \<le> a \<and> a < rs_offset s + length (rs_bytes s)"

definition seg_disjoint :: "RamSegment \<Rightarrow> RamSegment \<Rightarrow> bool" where
  "seg_disjoint s t \<longleftrightarrow> (\<forall>a. \<not> (seg_covers s a \<and> seg_covers t a))"

lemma sorted_wrt_distinct_cases:
  "sorted_wrt R xs \<Longrightarrow> x \<in> set xs \<Longrightarrow> y \<in> set xs \<Longrightarrow> x \<noteq> y \<Longrightarrow> R x y \<or> R y x"
  by (induction xs) auto

lemma spans_disjoint:
  assumes "try_filter_map (segment_span sz) (enumerate 0 segs) = Ok spans"
    and "windows_check span_check (sort spans) = Ok u"
  shows "sorted_wrt seg_disjoint segs" and "\<forall>s\<in>set segs. rs_offset s + length (rs_bytes s) \<le> sz"
proof -
  define R where "R x y \<longleftrightarrow> fst (snd x) \<le> fst y" for x y :: "u64 \<times> u64 \<times> usize"
  have span: "(\<exists>r. segment_span sz (i, s) = Ok r)" if "(i, s) \<in> set (enumerate 0 segs)" for i s
    using try_filter_map_all [OF assms(1) that] .
  have nonempty: "fst x < fst (snd x)" if "x \<in> set spans" for x
    using that unfolding try_filter_map_set [OF assms(1)] by (auto simp: segment_span_def Let_def split: if_splits)
  have sorted: "sorted_wrt R (sort spans)"
  proof (rule windows_check_Ok [OF assms(2)])
    show "R x y" if "span_check x y = None" for x y
      using that by (auto simp: R_def span_check_def split: prod.splits if_splits)
    show "R x z" if "x \<in> set (sort spans)" "y \<in> set (sort spans)" "z \<in> set (sort spans)" "R x y" "R y z" for x y z
      using that nonempty [of y] by (auto simp: R_def)
  qed
  show "\<forall>s\<in>set segs. rs_offset s + length (rs_bytes s) \<le> sz"
  proof
    fix s assume "s \<in> set segs"
    then obtain i where "i < length segs" "segs ! i = s" unfolding in_set_conv_nth by blast
    then have "(i, s) \<in> set (enumerate 0 segs)" by (simp add: in_set_enumerate_eq)
    from span [OF this] show "rs_offset s + length (rs_bytes s) \<le> sz"
      by (auto simp: segment_span_def Let_def split: if_splits)
  qed
  show "sorted_wrt seg_disjoint segs"
    unfolding sorted_wrt_iff_nth_less seg_disjoint_def
  proof (intro allI impI notI)
    fix i j a assume ij: "i < j" "j < length segs" and covers: "seg_covers (segs ! i) a \<and> seg_covers (segs ! j) a"
    let ?span = "\<lambda>k. (rs_offset (segs ! k), rs_offset (segs ! k) + length (rs_bytes (segs ! k)), k)"
    have mem: "?span k \<in> set (sort spans)" if "k < length segs" "seg_covers (segs ! k) a" for k
    proof -
      have in_enum: "(k, segs ! k) \<in> set (enumerate 0 segs)" using that(1) by (simp add: in_set_enumerate_eq)
      moreover have "segment_span sz (k, segs ! k) = Ok (Some (?span k))"
        using span [OF in_enum] that(2) by (auto simp: segment_span_def Let_def seg_covers_def split: if_splits)
      ultimately show ?thesis by (auto simp: try_filter_map_set [OF assms(1)])
    qed
    have "R (?span i) (?span j) \<or> R (?span j) (?span i)"
      using sorted_wrt_distinct_cases [OF sorted mem mem] ij covers by simp
    then show False using covers by (auto simp: R_def seg_covers_def)
  qed
qed

definition store_segments :: "RamSegment list \<Rightarrow> Ram \<Rightarrow> Ram" where
  "store_segments segs ram = fold (\<lambda>segment ram. ram_store ram (rs_offset segment) (rs_bytes segment)) segs ram"

lemma store_segments_spec:
  assumes "ram_inv ram" and "\<forall>s\<in>set segs. rs_offset s + length (rs_bytes s) \<le> ram_size (ram_config ram)"
    and "sorted_wrt seg_disjoint segs"
  shows "ram_inv (store_segments segs ram) \<and> ram_config (store_segments segs ram) = ram_config ram
    \<and> ram_image_hash (store_segments segs ram) = ram_image_hash ram
    \<and> (\<forall>s\<in>set segs. seg_covers s a \<longrightarrow> ram_byte (store_segments segs ram) a = rs_bytes s ! (a - rs_offset s))
    \<and> ((\<forall>s\<in>set segs. \<not> seg_covers s a) \<longrightarrow> ram_byte (store_segments segs ram) a = ram_byte ram a)"
  using assms(2,3)
proof (induction segs rule: rev_induct)
  case Nil
  then show ?case using assms(1) by (simp add: store_segments_def)
next
  case (snoc s segs)
  let ?ram = "store_segments segs ram"
  have step: "store_segments (segs @ [s]) ram = ram_store ?ram (rs_offset s) (rs_bytes s)"
    by (simp add: store_segments_def)
  have IH: "ram_inv ?ram" "ram_config ?ram = ram_config ram" "ram_image_hash ?ram = ram_image_hash ram"
    "\<forall>s\<in>set segs. seg_covers s a \<longrightarrow> ram_byte ?ram a = rs_bytes s ! (a - rs_offset s)"
    "(\<forall>s\<in>set segs. \<not> seg_covers s a) \<longrightarrow> ram_byte ?ram a = ram_byte ram a"
    using snoc by (auto simp: sorted_wrt_append)
  have fits: "rs_offset s + length (rs_bytes s) \<le> ram_size (ram_config ?ram)" using snoc.prems(1) IH(2) by simp
  note st = ram_store_spec [OF IH(1) fits]
  have apart: "\<not> seg_covers t a" if "t \<in> set segs" "seg_covers s a" for t
    using snoc.prems(2) that by (auto simp: sorted_wrt_append seg_disjoint_def)
  show ?case
    unfolding step st(2) using st(1,3,4) IH apart by (auto simp: seg_covers_def)
qed

text \<open>
  A RAM that \<^verbatim>\<open>Ram::new\<close> builds is well formed and holds exactly its image: every byte of every segment
  at its offset, whatever the order of the segments, and zero at every other offset.
\<close>

theorem Ram_new_contents:
  assumes "Ram_new config img = Ok ram"
  shows "ram_inv ram \<and> ram_config ram = config \<and> ram_image_hash ram = ri_hash img
    \<and> (\<forall>s\<in>set (ri_segments img). \<forall>k<length (rs_bytes s). ram_byte ram (rs_offset s + k) = rs_bytes s ! k)
    \<and> (\<forall>a. (\<forall>s\<in>set (ri_segments img). \<not> seg_covers s a) \<longrightarrow> ram_byte ram a = 0)"
proof -
  let ?empty = "\<lparr>ram_config = config, ram_image_hash = ri_hash img, ram_pages = (\<lambda>_. None)\<rparr> :: Ram"
  from assms obtain spans where "ram_size config \<noteq> 0" "ram_size config \<le> 2 ^ 32"
    "try_filter_map (segment_span (ram_size config)) (enumerate 0 (ri_segments img)) = Ok spans"
    "windows_check span_check (sort spans) = Ok ()" and ram: "ram = store_segments (ri_segments img) ?empty"
    by (auto simp: Ram_new_def store_segments_def MAX_SIZE_def split: if_splits)
  note segs = spans_disjoint [OF this(3,4)] and sz = this(1,2)
  have inv: "ram_inv ?empty" using sz by (simp add: ram_inv_def pages_ok_def)
  note S = store_segments_spec [OF inv _ segs(1), folded ram]
  have "ram_byte ram (rs_offset s + k) = rs_bytes s ! k" if "s \<in> set (ri_segments img)" "k < length (rs_bytes s)" for s k
    using S [of "rs_offset s + k"] segs(2) that by (simp add: seg_covers_def)
  moreover have "ram_byte ram a = 0" if "\<forall>s\<in>set (ri_segments img). \<not> seg_covers s a" for a
    using S [of a] segs(2) that by (simp add: ram_byte_def page_byte_def)
  ultimately show ?thesis using S [of 0] segs(2) by simp
qed

subsection \<open>A small RAM\<close>

text \<open>Two pages and a tail: a segment across the first page boundary and one in the last bytes.\<close>

definition tiny_ram_config :: RamConfig where
  "tiny_ram_config = \<lparr>ram_size = 8200, ram_latency = LatAfter 3\<rparr>"

definition tiny_ram_image :: RamImage where
  "tiny_ram_image = \<lparr>ri_hash = replicate 32 7, ri_segments =
     [\<lparr>rs_offset = 8198, rs_bytes = [5, 6]\<rparr>, \<lparr>rs_offset = 4095, rs_bytes = [1, 2]\<rparr>]\<rparr>"

definition tiny_ram :: Ram where
  "tiny_ram = store_segments (ri_segments tiny_ram_image)
     \<lparr>ram_config = tiny_ram_config, ram_image_hash = replicate 32 7, ram_pages = (\<lambda>_. None)\<rparr>"

lemma tiny_ram_new: "Ram_new tiny_ram_config tiny_ram_image = Ok tiny_ram"
  by (simp add: Ram_new_def tiny_ram_def store_segments_def tiny_ram_config_def tiny_ram_image_def MAX_SIZE_def
      segment_span_def span_check_def enumerate_eq_zip u64_max_def)

lemma tiny_ram_fields: "ram_config tiny_ram = tiny_ram_config" "ram_image_hash tiny_ram = replicate 32 7"
  by (simp_all add: tiny_ram_def store_segments_def tiny_ram_image_def ram_store_def)

lemma tiny_ram_stored: "ram_inv tiny_ram" "ram_byte tiny_ram 0 = 0"
proof -
  let ?empty = "\<lparr>ram_config = tiny_ram_config, ram_image_hash = replicate 32 7, ram_pages = (\<lambda>_. None)\<rparr> :: Ram"
  have "ram_inv ?empty" by (simp add: ram_inv_def pages_ok_def tiny_ram_config_def)
  moreover have "\<forall>s\<in>set (ri_segments tiny_ram_image). rs_offset s + length (rs_bytes s) \<le> ram_size (ram_config ?empty)"
    by (simp add: tiny_ram_image_def tiny_ram_config_def)
  moreover have "sorted_wrt seg_disjoint (ri_segments tiny_ram_image)"
    by (auto simp: tiny_ram_image_def seg_disjoint_def seg_covers_def)
  ultimately have S: "ram_inv tiny_ram \<and> ((\<forall>s\<in>set (ri_segments tiny_ram_image). \<not> seg_covers s 0) \<longrightarrow>
      ram_byte tiny_ram 0 = ram_byte ?empty 0)"
    unfolding tiny_ram_def using store_segments_spec [of ?empty "ri_segments tiny_ram_image" 0] by blast
  moreover have "ram_byte ?empty 0 = 0" by (simp add: ram_byte_def page_byte_def)
  moreover have "\<forall>s\<in>set (ri_segments tiny_ram_image). \<not> seg_covers s 0" by (simp add: tiny_ram_image_def seg_covers_def)
  ultimately show "ram_inv tiny_ram" "ram_byte tiny_ram 0 = 0" by simp_all
qed

theorem Ram_new_contents_witness:
  "Ram_new tiny_ram_config tiny_ram_image = Ok tiny_ram \<and> ram_byte tiny_ram 4096 = 2 \<and> ram_byte tiny_ram 4097 = 0"
  using Ram_new_contents [OF tiny_ram_new] tiny_ram_new
  by (auto simp: tiny_ram_image_def seg_covers_def dest: spec [of _ "1 :: nat"])

theorem ram_refines_bytes_witness:
  "\<exists>ram'. ram_handle_event tiny_ram (DMessage 0 (MsgMemV1 (WriteReq 1 4094 [9, 8, 7]))) quiet_ctx =
      Ok (ram', quiet_ctx\<lparr>ctx_out := [EffSend 0 (MsgMemV1 (WriteResp 1 WriteDone)) (WhenAfter 3) PhComplete]\<rparr>)
    \<and> ram_byte ram' 4095 = 8"
  using ram_refines_bytes [OF tiny_ram_stored(1), of quiet_ctx 0 "WriteReq 1 4094 [9, 8, 7]"]
  by (auto simp: quiet_ctx_def accepts_all_def tiny_ram_fields tiny_ram_config_def)

theorem ram_canonical_witness:
  "ram_store (ram_store tiny_ram 0 [1]) 0 [0] = tiny_ram"
proof -
  have fits: "0 + length [1 :: u8] \<le> ram_size (ram_config tiny_ram)" "0 + length [0 :: u8] \<le> ram_size (ram_config tiny_ram)"
    by (simp_all add: tiny_ram_fields tiny_ram_config_def)
  note s1 = ram_store_spec [OF tiny_ram_stored(1) fits(1)]
  note s2 = ram_store_spec [OF s1(1) fits(2) [folded s1(3)]]
  have "ram_byte (ram_store (ram_store tiny_ram 0 [1]) 0 [0]) = ram_byte tiny_ram"
    using tiny_ram_stored(2) by (auto simp: s1(2) s2(2))
  then show ?thesis
    using ram_canonical [OF s2(1) tiny_ram_stored(1)] s1(3,4) s2(3,4) by simp
qed

theorem ram_restore_snapshot_witness:
  "ram_restore tiny_ram (ram_snapshot tiny_ram @ [1]) = Ok (tiny_ram, [1])"
  by (rule ram_restore_snapshot [OF tiny_ram_stored(1)]) (simp_all add: tiny_ram_fields)

end
