(* ===== verification/Plat_Bus.thy ===== *)
theory Plat_Bus
  imports Btree "HOL-Library.Multiset"
begin

section \<open>The address bus\<close>

text \<open>
  Models \<^verbatim>\<open>components/platform/src/bus.rs\<close>: routing \<^verbatim>\<open>mem.v1\<close> requests of one initiator to memory-mapped
  regions and relaying the responses. The outstanding transactions are an ordered map by \<^verbatim>\<open>TxnId\<close>. The
  lemmas show that routing finds the one region that contains an access, that a request comes back as
  exactly one response on the port it came from, and that the snapshot restores.
\<close>

definition CPU_PORT :: PortId where "CPU_PORT = 0"
definition FAULT_KIND :: string where "FAULT_KIND = ''platform.bus.fault''"

definition region_port :: "nat \<Rightarrow> PortId" where
  "region_port index = index + 1"

record Region =
  rg_name :: string
  rg_base :: u64
  rg_size :: u64

definition region_last :: "Region \<Rightarrow> u64" where
  "region_last r = rg_base r + (rg_size r - 1)"

datatype BusConfigError =
    BusZeroSize string
  | BusWraps string
  | BusOverlap string string
  | BusDuplicateName string
  | BusReservedName string
  | TooManyRegions

record Outstanding =
  og_region :: nat
  og_write :: bool

record AddressBus =
  ab_regions :: "Region list"
  ab_outstanding :: "(TxnId, Outstanding) btree"

fun request_txn :: "MemMsg \<Rightarrow> (TxnId \<times> bool) option" where
  "request_txn (ReadReq txn _ _) = Some (txn, False)"
| "request_txn (WriteReq txn _ _) = Some (txn, True)"
| "request_txn _ = None"

fun at_offset :: "MemMsg \<Rightarrow> u64 \<Rightarrow> MemMsg" where
  "at_offset (ReadReq txn _ len) off = ReadReq txn off len"
| "at_offset (WriteReq txn _ data) off = WriteReq txn off data"
| "at_offset resp _ = resp"

definition earlier_check :: "Region \<Rightarrow> Region \<Rightarrow> BusConfigError option" where
  "earlier_check region earlier =
     (if rg_name earlier = rg_name region then Some (BusDuplicateName (rg_name region))
      else if rg_base earlier \<le> region_last region \<and> rg_base region \<le> region_last earlier
      then Some (BusOverlap (rg_name earlier) (rg_name region))
      else None)"

definition region_check :: "Region list \<Rightarrow> usize \<times> Region \<Rightarrow> BusConfigError option" where
  "region_check regions ir =
     (case ir of (i, region) \<Rightarrow>
        if rg_size region = 0 then Some (BusZeroSize (rg_name region))
        else if rg_base region + (rg_size region - 1) > u64_max then Some (BusWraps (rg_name region))
        else if rg_name region = ''cpu'' then Some (BusReservedName (rg_name region))
        else (case try_for_each (earlier_check region) (take i regions) of Err e \<Rightarrow> Some e | Ok _ \<Rightarrow> None))"

definition AddressBus_new :: "Region list \<Rightarrow> (AddressBus, BusConfigError) result" where
  "AddressBus_new regions =
     (if length regions \<ge> 65535 then Err TooManyRegions
      else result_bind (try_for_each (region_check regions) (enumerate 0 regions))
        (\<lambda>_. Ok \<lparr>ab_regions = regions, ab_outstanding = []\<rparr>))"

definition route :: "AddressBus \<Rightarrow> u64 \<Rightarrow> u64 \<Rightarrow> (nat option, Abort) result" where
  "route bus first last_byte =
     (case list_position (\<lambda>r. rg_base r \<le> first \<and> first \<le> region_last r) (ab_regions bus) of
        None \<Rightarrow> Ok None
      | Some index \<Rightarrow>
          if index > 65535 then Err Panic
          else Ok (if last_byte \<le> region_last (ab_regions bus ! index) then Some index else None))"

fun fault_answer :: "MemMsg \<Rightarrow> (TxnId \<times> u64 \<times> u64 \<times> MemMsg, Abort) result" where
  "fault_answer (ReadReq txn addr len) = Ok (txn, addr, unat len, ReadResp txn (ReadFault AccessFault))"
| "fault_answer (WriteReq txn addr data) = Ok (txn, addr, length data, WriteResp txn (WriteFault AccessFault))"
| "fault_answer _ = component_fault ''address bus: response on the cpu port''"

definition bus_fault :: "MemMsg \<Rightarrow> SimContext \<Rightarrow> (SimContext, Abort) result" where
  "bus_fault msg ctx =
     result_bind (fault_answer msg) (\<lambda>(txn, addr, len, resp).
     result_bind (ctx_send CPU_PORT (MsgMemV1 resp) WhenNow PhComplete ctx) (\<lambda>ctx.
     Ok (ctx_trace FAULT_KIND [(''txn'', VU64 txn), (''addr'', VU64 addr), (''len'', VU64 len)] ctx)))"

definition bus_request :: "AddressBus \<Rightarrow> MemMsg \<Rightarrow> SimContext \<Rightarrow> AddressBus handled" where
  "bus_request bus msg ctx =
     (case (request_txn msg, mem_access msg) of
        (Some (txn, write), Some access) \<Rightarrow>
          if ctx_phase ctx \<noteq> PhRequest then component_fault ''address bus: request arrived after REQUEST''
          else if bt_get (ab_outstanding bus) txn \<noteq> None
            then component_fault ''address bus: request reuses an outstanding txn''
          else
            result_bind
              (case access of
                 AccEmpty \<Rightarrow> component_fault ''address bus: zero-length request''
               | AccOutOfRange \<Rightarrow> Ok None
               | AccBytes first last_byte \<Rightarrow>
                   result_bind (route bus first last_byte) (\<lambda>i. Ok (map_option (\<lambda>i. (i, first)) i)))
              (\<lambda>routed. case routed of
                 Some (region, first) \<Rightarrow>
                   (let offset = first - rg_base (ab_regions bus ! region);
                        bus' = bus\<lparr>ab_outstanding :=
                          bt_insert txn \<lparr>og_region = region, og_write = write\<rparr> (ab_outstanding bus)\<rparr>
                    in result_bind (ctx_send (region_port region) (MsgMemV1 (at_offset msg offset)) WhenNow PhTransfer ctx)
                         (\<lambda>ctx'. Ok (bus', ctx')))
               | None \<Rightarrow> result_bind (bus_fault msg ctx) (\<lambda>ctx'. Ok (bus, ctx')))
      | _ \<Rightarrow> component_fault ''address bus: response on the cpu port'')"

fun response_key :: "MemMsg \<Rightarrow> (TxnId \<times> bool) option" where
  "response_key (ReadResp txn _) = Some (txn, False)"
| "response_key (WriteResp txn _) = Some (txn, True)"
| "response_key _ = None"

definition bus_response :: "AddressBus \<Rightarrow> PortId \<Rightarrow> MemMsg \<Rightarrow> SimContext \<Rightarrow> AddressBus handled" where
  "bus_response bus port msg ctx =
     (case response_key msg of
        None \<Rightarrow> component_fault ''address bus: request on a region port''
      | Some (txn, write) \<Rightarrow>
          if port = 0 \<or> \<not> port - 1 < length (ab_regions bus) then component_fault ''address bus: unknown port''
          else (case bt_get (ab_outstanding bus) txn of
              None \<Rightarrow> component_fault ''address bus: response for unknown txn''
            | Some expected \<Rightarrow>
                if og_region expected \<noteq> port - 1 then component_fault ''address bus: response on the wrong region port''
                else if og_write expected \<noteq> write then component_fault ''address bus: response kind mismatch''
                else result_bind (ctx_send CPU_PORT (MsgMemV1 msg) WhenNow (ctx_phase ctx) ctx)
                  (\<lambda>ctx'. Ok (bus\<lparr>ab_outstanding := bt_remove txn (ab_outstanding bus)\<rparr>, ctx'))))"

fun bus_handle_event :: "AddressBus \<Rightarrow> Delivered \<Rightarrow> SimContext \<Rightarrow> AddressBus handled" where
  "bus_handle_event bus (DMessage port (MsgMemV1 msg)) ctx =
     (if port = CPU_PORT then bus_request bus msg ctx else bus_response bus port msg ctx)"
| "bus_handle_event bus (DMessage port (MsgMem _)) ctx = component_fault ''address bus: mem.v0 message''"
| "bus_handle_event bus (DMessage port (MsgIrq _)) ctx = component_fault ''address bus: non-mem message''"
| "bus_handle_event bus (DMessage port (MsgBlock _)) ctx = component_fault ''address bus: non-mem message''"
| "bus_handle_event bus (DWake _) ctx = component_fault ''address bus: unexpected wake''"

definition bus_init :: "AddressBus \<Rightarrow> (AddressBus, Abort) result" where
  "bus_init bus = Ok bus"

subsection \<open>Snapshots\<close>

definition write_region :: "Region \<Rightarrow> u8 list" where
  "write_region r = w_str (rg_name r) @ w_u64 (rg_base r) @ w_u64 (rg_size r)"

definition bus_write_config :: "AddressBus \<Rightarrow> u8 list" where
  "bus_write_config bus = w_len (length (ab_regions bus)) @ concat (map write_region (ab_regions bus))"

definition write_outstanding :: "Outstanding \<Rightarrow> u8 list" where
  "write_outstanding e = w_u16 (of_nat (og_region e)) @ w_bool (og_write e)"

definition bus_snapshot :: "AddressBus \<Rightarrow> u8 list" where
  "bus_snapshot bus = bus_write_config bus @ w_len (length (ab_outstanding bus))
     @ concat (map (\<lambda>(txn, e). w_u64 txn @ write_outstanding e) (ab_outstanding bus))"

definition different_map :: "'a reader" where
  "different_map = invalid ''address bus: snapshot was taken with a different memory map''"

fun read_regions :: "Region list \<Rightarrow> unit reader" where
  "read_regions [] = rd_return ()"
| "read_regions (r # rs) =
     rd_bind r_str (\<lambda>name. if name \<noteq> rg_name r then different_map else
     rd_bind r_u64 (\<lambda>base. if base \<noteq> rg_base r then different_map else
     rd_bind r_u64 (\<lambda>sz. if sz \<noteq> rg_size r then different_map else read_regions rs)))"

definition read_outstanding :: "AddressBus \<Rightarrow> TxnId \<Rightarrow> Outstanding reader" where
  "read_outstanding bus txn =
     rd_bind r_u16 (\<lambda>region.
     if \<not> unat region < length (ab_regions bus) then invalid ''address bus: outstanding txn on an unknown region'' else
     rd_bind r_bool (\<lambda>write. rd_return \<lparr>og_region = unat region, og_write = write\<rparr>))"

definition bus_restore :: "AddressBus \<Rightarrow> AddressBus reader" where
  "bus_restore bus =
     rd_bind r_len (\<lambda>n. if n \<noteq> length (ab_regions bus) then different_map else
     rd_bind (read_regions (ab_regions bus)) (\<lambda>_.
     rd_bind r_len (\<lambda>n.
     rd_bind (r_ascending n ''address bus: outstanding txns out of order or duplicated'' r_u64 (read_outstanding bus) None [])
       (\<lambda>outstanding. rd_return (bus\<lparr>ab_outstanding := outstanding\<rparr>)))))"

subsection \<open>The memory map\<close>

definition region_holds :: "Region \<Rightarrow> u64 \<Rightarrow> bool" where
  "region_holds r a \<longleftrightarrow> rg_base r \<le> a \<and> a \<le> region_last r"

definition regions_apart :: "Region \<Rightarrow> Region \<Rightarrow> bool" where
  "regions_apart a b \<longleftrightarrow> rg_name a \<noteq> rg_name b \<and> \<not> (\<exists>x. region_holds a x \<and> region_holds b x)"

definition region_ok :: "Region \<Rightarrow> bool" where
  "region_ok r \<longleftrightarrow> 0 < rg_size r \<and> region_last r \<le> u64_max \<and> rg_name r \<noteq> ''cpu''"

definition regions_ok :: "Region list \<Rightarrow> bool" where
  "regions_ok rs \<longleftrightarrow> length rs < 65535 \<and> list_all region_ok rs \<and> sorted_wrt regions_apart rs"

definition bus_inv :: "AddressBus \<Rightarrow> bool" where
  "bus_inv bus \<longleftrightarrow> regions_ok (ab_regions bus) \<and> bt_ok (ab_outstanding bus)
     \<and> (\<forall>txn e. bt_get (ab_outstanding bus) txn = Some e \<longrightarrow> og_region e < length (ab_regions bus))"

lemma overlap_iff:
  assumes "0 < rg_size a" "0 < rg_size b"
  shows "rg_base a \<le> region_last b \<and> rg_base b \<le> region_last a \<longleftrightarrow> (\<exists>x. region_holds a x \<and> region_holds b x)"
proof
  assume "rg_base a \<le> region_last b \<and> rg_base b \<le> region_last a"
  then have "region_holds a (max (rg_base a) (rg_base b)) \<and> region_holds b (max (rg_base a) (rg_base b))"
    by (auto simp: region_holds_def region_last_def)
  then show "\<exists>x. region_holds a x \<and> region_holds b x" ..
qed (auto simp: region_holds_def)

lemma first_error_None:
  "(case try_for_each f xs of Err e \<Rightarrow> Some e | Ok _ \<Rightarrow> None) = None \<longleftrightarrow> (\<forall>x\<in>set xs. f x = None)"
  by (induction xs) (auto split: option.splits)

lemma region_check_None:
  "region_check rs (i, r) = None \<longleftrightarrow> region_ok r \<and> (\<forall>e\<in>set (take i rs). earlier_check r e = None)"
  by (auto simp: region_check_def region_ok_def region_last_def first_error_None)

lemma region_checks:
  "(\<forall>x\<in>set (enumerate 0 rs). region_check rs x = None) \<longleftrightarrow> list_all region_ok rs \<and> sorted_wrt regions_apart rs"
proof -
  have earlier: "earlier_check r e = None \<longleftrightarrow> regions_apart e r" if "region_ok r" "region_ok e" for r e
    using overlap_iff [of e r] that by (auto simp: earlier_check_def regions_apart_def region_ok_def)
  have prefix: "(\<forall>e\<in>set (take i rs). Q e) \<longleftrightarrow> (\<forall>j<i. Q (rs ! j))" if "i < length rs" for i Q
    using that by (simp add: all_set_conv_all_nth)
  have "(\<forall>x\<in>set (enumerate 0 rs). region_check rs x = None) \<longleftrightarrow>
      (\<forall>i<length rs. region_ok (rs ! i) \<and> (\<forall>j<i. earlier_check (rs ! i) (rs ! j) = None))"
    by (simp add: all_set_conv_all_nth [of "enumerate 0 rs"] nth_enumerate_eq region_check_None prefix cong: conj_cong)
  also have "\<dots> \<longleftrightarrow> (\<forall>i<length rs. region_ok (rs ! i)) \<and> (\<forall>i<length rs. \<forall>j<i. regions_apart (rs ! j) (rs ! i))"
    using earlier by (meson less_trans)
  finally show ?thesis by (auto simp: list_all_length sorted_wrt_iff_nth_less)
qed

lemma AddressBus_new_iff:
  "AddressBus_new rs = Ok bus \<longleftrightarrow> regions_ok rs \<and> bus = \<lparr>ab_regions = rs, ab_outstanding = []\<rparr>"
  using region_checks [of rs] by (auto simp: AddressBus_new_def regions_ok_def)

text \<open>Routing finds the one region that holds every byte of an access, and never panics.\<close>

lemma position_unique:
  assumes "regions_ok rs" "i < length rs" "region_holds (rs ! i) a"
  shows "list_position (\<lambda>r. rg_base r \<le> a \<and> a \<le> region_last r) rs = Some i"
proof -
  have "\<not> region_holds (rs ! j) a" if "j < i" for j
    using assms that by (auto simp: regions_ok_def sorted_wrt_iff_nth_less regions_apart_def)
  then show ?thesis using assms(2,3) by (auto simp: list_position_Some region_holds_def)
qed

lemma route_iff:
  assumes "regions_ok (ab_regions bus)" and "first \<le> last_byte"
  shows "\<exists>r. route bus first last_byte = Ok r"
    and "route bus first last_byte = Ok (Some i) \<longleftrightarrow>
      i < length (ab_regions bus) \<and> rg_base (ab_regions bus ! i) \<le> first \<and> last_byte \<le> region_last (ab_regions bus ! i)"
proof -
  have few: "length (ab_regions bus) < 65535" using assms(1) by (simp add: regions_ok_def)
  then show "\<exists>r. route bus first last_byte = Ok r"
    by (auto simp: route_def list_position_Some split: option.split)
  show "route bus first last_byte = Ok (Some i) \<longleftrightarrow>
      i < length (ab_regions bus) \<and> rg_base (ab_regions bus ! i) \<le> first \<and> last_byte \<le> region_last (ab_regions bus ! i)"
    (is "?l \<longleftrightarrow> ?r")
  proof
    assume ?l
    then show ?r by (auto simp: route_def list_position_Some split: option.splits if_splits)
  next
    assume r: ?r
    then have "list_position (\<lambda>r. rg_base r \<le> first \<and> first \<le> region_last r) (ab_regions bus) = Some i"
      using assms by (intro position_unique) (auto simp: region_holds_def)
    with r few show ?l by (simp add: route_def)
  qed
qed

lemma route_at:
  assumes "bus_inv bus" "i < length (ab_regions bus)" "rg_base (ab_regions bus ! i) \<le> first" "first \<le> last_byte"
    "last_byte \<le> region_last (ab_regions bus ! i)"
  shows "route bus first last_byte = Ok (Some i)"
  using assms route_iff(2) [of bus first last_byte i] by (simp add: bus_inv_def)

lemma bus_inv_insert:
  "bus_inv bus \<Longrightarrow> i < length (ab_regions bus) \<Longrightarrow>
     bus_inv (bus\<lparr>ab_outstanding := bt_insert txn \<lparr>og_region = i, og_write = w\<rparr> (ab_outstanding bus)\<rparr>)"
  by (auto simp: bus_inv_def bt_ok_insert)

lemma bus_inv_remove:
  "bus_inv bus \<Longrightarrow> bus_inv (bus\<lparr>ab_outstanding := bt_remove txn (ab_outstanding bus)\<rparr>)"
  by (auto simp: bus_inv_def bt_ok_remove)

lemma request_access: "request_txn msg = Some k \<longleftrightarrow> mem_access msg \<noteq> None \<and> request_txn msg = Some k"
  by (cases msg) auto

lemma byte_access_order: "byte_access a n = AccBytes f l \<Longrightarrow> f = a \<and> f \<le> l \<and> l = a + (n - 1) \<and> 0 < n"
  by (auto simp: byte_access_def split: if_splits)

lemma mem_access_order: "mem_access msg = Some (AccBytes f l) \<Longrightarrow> f \<le> l"
  by (cases msg) (auto dest: byte_access_order)

lemma bus_forward:
  assumes "bus_inv bus" and "accepts_all ctx" "ctx_phase ctx = PhRequest" and "request_txn req = Some (txn, w)"
    "bt_get (ab_outstanding bus) txn = None" and "mem_access req = Some (AccBytes first last_byte)"
    and "i < length (ab_regions bus)" "rg_base (ab_regions bus ! i) \<le> first" "last_byte \<le> region_last (ab_regions bus ! i)"
  shows "bus_handle_event bus (DMessage CPU_PORT (MsgMemV1 req)) ctx =
    Ok (bus\<lparr>ab_outstanding := bt_insert txn \<lparr>og_region = i, og_write = w\<rparr> (ab_outstanding bus)\<rparr>,
        ctx\<lparr>ctx_out := ctx_out ctx @ [EffSend (region_port i)
          (MsgMemV1 (at_offset req (first - rg_base (ab_regions bus ! i)))) WhenNow PhTransfer]\<rparr>)"
proof -
  have "route bus first last_byte = Ok (Some i)"
    using assms mem_access_order [OF assms(6)] by (intro route_at)
  then show ?thesis
    using assms by (simp add: bus_request_def ctx_send_def ctx_effect_accepted Let_def)
qed

lemma bus_relay:
  assumes "bus_inv bus" "bt_get (ab_outstanding bus) txn = None" and "i < length (ab_regions bus)"
    and "response_key resp = Some (txn, w)" "accepts_all ctx"
  shows "bus_handle_event (bus\<lparr>ab_outstanding := bt_insert txn \<lparr>og_region = i, og_write = w\<rparr> (ab_outstanding bus)\<rparr>)
      (DMessage (region_port i) (MsgMemV1 resp)) ctx =
    Ok (bus, ctx\<lparr>ctx_out := ctx_out ctx @ [EffSend CPU_PORT (MsgMemV1 resp) WhenNow (ctx_phase ctx)]\<rparr>)"
  using assms by (simp add: bus_response_def region_port_def CPU_PORT_def ctx_send_def ctx_effect_accepted bt.del_ins bus_inv_def)

text \<open>
  A request inside one region reaches that region's port, with the offset from its base as its
  address and everything else unchanged, and a response of its kind on that port is relayed unchanged
  to the initiator in the phase it arrived in, after which the bus is as it was before the request.
\<close>

theorem bus_transaction:
  assumes "bus_inv bus" and "accepts_all ctx" "ctx_phase ctx = PhRequest" and "request_txn req = Some (txn, w)"
    "bt_get (ab_outstanding bus) txn = None" and "mem_access req = Some (AccBytes first last_byte)"
    and "i < length (ab_regions bus)" "rg_base (ab_regions bus ! i) \<le> first" "last_byte \<le> region_last (ab_regions bus ! i)"
    and "response_key resp = Some (txn, w)" "accepts_all ctx'"
  shows "\<exists>bus'. bus_handle_event bus (DMessage CPU_PORT (MsgMemV1 req)) ctx =
        Ok (bus', ctx\<lparr>ctx_out := ctx_out ctx @ [EffSend (region_port i)
          (MsgMemV1 (at_offset req (first - rg_base (ab_regions bus ! i)))) WhenNow PhTransfer]\<rparr>)
      \<and> bus_inv bus'
      \<and> bus_handle_event bus' (DMessage (region_port i) (MsgMemV1 resp)) ctx' =
        Ok (bus, ctx'\<lparr>ctx_out := ctx_out ctx' @ [EffSend CPU_PORT (MsgMemV1 resp) WhenNow (ctx_phase ctx')]\<rparr>)"
  using bus_forward [OF assms(1-9)] bus_relay [OF assms(1,5,7,10,11)] bus_inv_insert [OF assms(1,7)] by blast

text \<open>
  A request whose bytes no single region holds, an unmapped address, a run past the end of a region
  even into the next one, or past the last address, is answered by the bus with an access fault in
  \<^verbatim>\<open>Complete\<close>, traced, and forwarded nowhere.
\<close>

theorem bus_unmapped_faults:
  assumes "bus_inv bus" and "accepts_all ctx" "ctx_phase ctx = PhRequest" and "request_txn req = Some (txn, w)"
    "bt_get (ab_outstanding bus) txn = None" and "mem_access req = Some acc" "acc \<noteq> AccEmpty"
    and "\<forall>i first last_byte. acc = AccBytes first last_byte \<and> i < length (ab_regions bus)
      \<and> rg_base (ab_regions bus ! i) \<le> first \<longrightarrow> \<not> last_byte \<le> region_last (ab_regions bus ! i)"
  shows "\<exists>resp fs. response_key resp = Some (txn, w)
      \<and> resp \<in> {ReadResp txn (ReadFault AccessFault), WriteResp txn (WriteFault AccessFault)}
      \<and> bus_handle_event bus (DMessage CPU_PORT (MsgMemV1 req)) ctx =
        Ok (bus, ctx\<lparr>ctx_out := ctx_out ctx @ [EffSend CPU_PORT (MsgMemV1 resp) WhenNow PhComplete, EffTrace FAULT_KIND fs]\<rparr>)"
proof -
  have unrouted: "route bus first last_byte = Ok None" if "acc = AccBytes first last_byte" for first last_byte
  proof -
    have le: "first \<le> last_byte" using that assms(6) mem_access_order by auto
    have ok: "regions_ok (ab_regions bus)" using assms(1) by (simp add: bus_inv_def)
    obtain r where r: "route bus first last_byte = Ok r" using route_iff(1) [OF ok le] by blast
    moreover have "r = None" using route_iff(2) [OF ok le] assms(8) that r by (cases r) auto
    ultimately show ?thesis by simp
  qed
  note handler = bus_request_def bus_fault_def ctx_send_def ctx_effect_accepted [OF assms(2)] ctx_trace_def
  show ?thesis
  proof (cases req)
    case (ReadReq t a n)
    show ?thesis
      by (rule exI [of _ "ReadResp txn (ReadFault AccessFault)"], cases acc)
        (use assms(3-7) unrouted ReadReq in \<open>auto simp: handler\<close>)
  next
    case (WriteReq t a data)
    show ?thesis
      by (rule exI [of _ "WriteResp txn (WriteFault AccessFault)"], cases acc)
        (use assms(3-7) unrouted WriteReq in \<open>auto simp: handler\<close>)
  qed (use assms(4) in simp_all)
qed

subsection \<open>Histories\<close>

text \<open>
  A history is the log of the deliveries to a bus, each with the effects the bus made for it. What is
  requested and what the regions responded is read off the deliveries; what is forwarded to the
  regions, relayed and answered to the initiator is read off the sends of the bus.
\<close>

type_synonym bus_log = "(Delivered \<times> CtxEffect list) list"

fun requested :: "Delivered \<Rightarrow> (TxnId \<times> bool) list" where
  "requested (DMessage port (MsgMemV1 msg)) =
     (if port = CPU_PORT then (case request_txn msg of Some k \<Rightarrow> [k] | None \<Rightarrow> []) else [])"
| "requested _ = []"

fun responded :: "Delivered \<Rightarrow> MemMsg list" where
  "responded (DMessage port (MsgMemV1 msg)) = (if port = CPU_PORT then [] else [msg])"
| "responded _ = []"

fun forwarded :: "CtxEffect \<Rightarrow> (TxnId \<times> Outstanding) list" where
  "forwarded (EffSend port (MsgMemV1 msg) _ _) =
     (if port = CPU_PORT then [] else
        (case request_txn msg of Some (txn, write) \<Rightarrow> [(txn, \<lparr>og_region = port - 1, og_write = write\<rparr>)] | None \<Rightarrow> []))"
| "forwarded _ = []"

fun sent_to_cpu :: "CtxEffect \<Rightarrow> MemMsg list" where
  "sent_to_cpu (EffSend port (MsgMemV1 msg) _ _) = (if port = CPU_PORT then [msg] else [])"
| "sent_to_cpu _ = []"

definition all_forwarded :: "bus_log \<Rightarrow> (TxnId \<times> Outstanding) list" where
  "all_forwarded h = concat (map (\<lambda>(ev, effs). concat (map forwarded effs)) h)"

definition all_requested :: "bus_log \<Rightarrow> (TxnId \<times> bool) list" where
  "all_requested h = concat (map (\<lambda>(ev, effs). requested ev) h)"

definition answers_sent :: "CtxEffect list \<Rightarrow> (TxnId \<times> bool) list" where
  "answers_sent effs = List.map_filter response_key (concat (map sent_to_cpu effs))"

definition all_answered :: "bus_log \<Rightarrow> (TxnId \<times> bool) list" where
  "all_answered h = concat (map (\<lambda>(ev, effs). answers_sent effs) h)"

fun relayed :: "Delivered \<times> CtxEffect list \<Rightarrow> (TxnId \<times> Outstanding) list" where
  "relayed (DMessage port msg, effs) =
     (if port = CPU_PORT then []
      else map (\<lambda>(txn, write). (txn, \<lparr>og_region = port - 1, og_write = write\<rparr>)) (answers_sent effs))"
| "relayed _ = []"

definition all_relayed :: "bus_log \<Rightarrow> (TxnId \<times> Outstanding) list" where
  "all_relayed h = concat (map relayed h)"

inductive bus_hist :: "Region list \<Rightarrow> AddressBus \<Rightarrow> bus_log \<Rightarrow> bool" for rs where
  start: "AddressBus_new rs = Ok bus \<Longrightarrow> bus_hist rs bus []"
| event: "bus_hist rs bus h \<Longrightarrow> ctx_out ctx = [] \<Longrightarrow> bus_handle_event bus ev ctx = Ok (bus', ctx') \<Longrightarrow>
    bus_hist rs bus' (h @ [(ev, ctx_out ctx')])"

lemma log_simps [simp]:
  "all_forwarded [] = []" "all_requested [] = []" "all_answered [] = []" "all_relayed [] = []"
  "all_forwarded (h @ [(ev, effs)]) = all_forwarded h @ concat (map forwarded effs)"
  "all_requested (h @ [(ev, effs)]) = all_requested h @ requested ev"
  "all_answered (h @ [(ev, effs)]) = all_answered h @ answers_sent effs"
  "all_relayed (h @ [(ev, effs)]) = all_relayed h @ relayed (ev, effs)"
  by (simp_all add: all_forwarded_def all_requested_def all_answered_def all_relayed_def)

lemma mset_bt_insert: "bt_get m k = None \<Longrightarrow> mset (bt_insert k v m) = add_mset (k, v) (mset m)"
  by (induction k v m rule: bt_insert.induct) (auto split: if_splits)

lemma mset_bt_remove:
  assumes "bt_ok m" and "bt_get m k = Some v"
  shows "mset m = add_mset (k, v) (mset (bt_remove k m))"
proof -
  have "bt_insert k v (bt_remove k m) = m"
    by (rule bt.map_ext) (use assms in \<open>auto simp: bt_ok_insert bt_ok_remove\<close>)
  then show ?thesis using mset_bt_insert [of "bt_remove k m" k v] by simp
qed

lemma request_response_disjoint: "request_txn msg = Some k \<Longrightarrow> response_key msg = None"
  by (cases msg) auto

lemma request_at_offset [simp]: "request_txn (at_offset msg off) = request_txn msg"
  by (cases msg) auto

lemma route_bound: "route bus f l = Ok (Some i) \<Longrightarrow> i < length (ab_regions bus)"
  by (auto simp: route_def list_position_Some split: option.splits if_splits)

text \<open>A successful delivery forwards one request, answers it with a fault, or relays one response.\<close>

lemma fault_answer_Ok:
  "fault_answer msg = Ok (t, a, n, resp) \<Longrightarrow> request_txn resp = None \<and> response_key resp = request_txn msg"
  by (cases msg) auto

lemma bus_request_Ok:
  assumes "bus_request bus msg ctx = Ok (bus', ctx')"
  shows "response_key msg = None \<and>
    (bus' = bus \<and> (\<exists>resp fs k. request_txn resp = None \<and> response_key resp = Some k \<and> request_txn msg = Some k
       \<and> ctx_out ctx' = ctx_out ctx @ [EffSend CPU_PORT (MsgMemV1 resp) WhenNow PhComplete, EffTrace FAULT_KIND fs])
     \<or> (\<exists>txn w i off f l. request_txn msg = Some (txn, w) \<and> bt_get (ab_outstanding bus) txn = None \<and> route bus f l = Ok (Some i)
       \<and> bus' = bus\<lparr>ab_outstanding := bt_insert txn \<lparr>og_region = i, og_write = w\<rparr> (ab_outstanding bus)\<rparr>
       \<and> ctx_out ctx' = ctx_out ctx @ [EffSend (region_port i) (MsgMemV1 (at_offset msg off)) WhenNow PhTransfer]))"
proof -
  obtain txn w access where msg: "request_txn msg = Some (txn, w)" "mem_access msg = Some access"
    and new: "bt_get (ab_outstanding bus) txn = None"
    using assms by (auto simp: bus_request_def split: option.splits if_splits prod.splits)
  have fault: "\<exists>resp fs. request_txn resp = None \<and> response_key resp = Some (txn, w) \<and>
      c = ctx\<lparr>ctx_out := ctx_out ctx @ [EffSend CPU_PORT (MsgMemV1 resp) WhenNow PhComplete, EffTrace FAULT_KIND fs]\<rparr>"
    if "bus_fault msg ctx = Ok c" for c
    using that msg(1) by (auto simp: bus_fault_def ctx_send_def ctx_trace_def dest!: fault_answer_Ok)
  define choice where "choice = (case access of AccEmpty \<Rightarrow> component_fault ''address bus: zero-length request''
      | AccOutOfRange \<Rightarrow> Ok None
      | AccBytes first last_byte \<Rightarrow> result_bind (route bus first last_byte) (\<lambda>i. Ok (map_option (\<lambda>i. (i, first)) i)))"
  have chosen: "\<exists>l. route bus off l = Ok (Some i)" if "choice = Ok (Some (i, off))" for i off
    using that by (auto simp: choice_def split: ByteAccess.splits)
  have "ctx_phase ctx = PhRequest"
    using assms msg new by (auto simp: bus_request_def split: if_splits)
  with assms msg new obtain routed where routed: "choice = Ok routed"
    and step: "(case routed of
        Some (region, first) \<Rightarrow> result_bind (ctx_send (region_port region)
            (MsgMemV1 (at_offset msg (first - rg_base (ab_regions bus ! region)))) WhenNow PhTransfer ctx)
          (\<lambda>ctx'. Ok (bus\<lparr>ab_outstanding := bt_insert txn \<lparr>og_region = region, og_write = w\<rparr> (ab_outstanding bus)\<rparr>, ctx'))
      | None \<Rightarrow> result_bind (bus_fault msg ctx) (\<lambda>ctx'. Ok (bus, ctx'))) = Ok (bus', ctx')"
    by (auto simp: bus_request_def Let_def choice_def [symmetric])
  show ?thesis
  proof (cases routed)
    case None
    with step show ?thesis
      using request_response_disjoint [OF msg(1)] msg(1) by (auto dest: fault)
  next
    case (Some io)
    obtain i off where io: "io = (i, off)" by fastforce
    from chosen [of i off] routed Some io obtain l where "route bus off l = Ok (Some i)" by auto
    moreover have "bus' = bus\<lparr>ab_outstanding := bt_insert txn \<lparr>og_region = i, og_write = w\<rparr> (ab_outstanding bus)\<rparr>"
      "ctx_out ctx' = ctx_out ctx @ [EffSend (region_port i)
        (MsgMemV1 (at_offset msg (off - rg_base (ab_regions bus ! i)))) WhenNow PhTransfer]"
      using step Some io by (auto simp: ctx_send_def)
    ultimately show ?thesis using msg(1) new request_response_disjoint [OF msg(1)] by blast
  qed
qed

lemma bus_response_Ok:
  assumes "bus_response bus port msg ctx = Ok (bus', ctx')"
  shows "\<exists>txn w. response_key msg = Some (txn, w) \<and> bt_get (ab_outstanding bus) txn = Some \<lparr>og_region = port - 1, og_write = w\<rparr>
    \<and> bus' = bus\<lparr>ab_outstanding := bt_remove txn (ab_outstanding bus)\<rparr>
    \<and> ctx_out ctx' = ctx_out ctx @ [EffSend CPU_PORT (MsgMemV1 msg) WhenNow (ctx_phase ctx)]"
  using assms by (auto simp: bus_response_def ctx_send_def split: option.splits if_splits)

lemma response_not_request: "response_key msg = Some k \<Longrightarrow> request_txn msg = None"
  by (cases msg) auto

text \<open>
  C24. In every history of the bus, of any deliveries in any order: the requests it forwarded to its
  regions are exactly the responses it relayed to the initiator together with the transactions
  outstanding, so every relayed response answers a forwarded request of its kind from its region,
  none is answered twice and none is forgotten; the requests it accepted are exactly the answers it
  sent to the initiator, relayed or faults, together with the outstanding ones; and what a region
  responds is sent on to the initiator unchanged.
\<close>

theorem bus_conservation:
  assumes "bus_hist rs bus h"
  shows "bus_inv bus \<and> ab_regions bus = rs
    \<and> mset (all_forwarded h) = mset (all_relayed h) + mset (ab_outstanding bus)
    \<and> mset (all_requested h) = mset (all_answered h) + mset (map (\<lambda>(txn, e). (txn, og_write e)) (ab_outstanding bus))
    \<and> (\<forall>(ev, effs)\<in>set h. responded ev \<noteq> [] \<longrightarrow> concat (map sent_to_cpu effs) = responded ev)"
  using assms
proof induction
  case (start bus)
  then show ?case by (auto simp: AddressBus_new_iff bus_inv_def)
next
  case (event bus h ctx ev bus' ctx')
  note log = answers_sent_def map_filter_simps
  obtain port msg where ev: "ev = DMessage port (MsgMemV1 msg)"
    using event.hyps(3) by (cases "(bus, ev, ctx)" rule: bus_handle_event.cases) auto
  show ?case
  proof (cases "port = CPU_PORT")
    case True
    with event.hyps(3) ev have "bus_request bus msg ctx = Ok (bus', ctx')" by simp
    from bus_request_Ok [OF this] event.IH event.hyps(2) ev True show ?thesis
      by (auto simp: log mset_bt_insert region_port_def CPU_PORT_def intro!: bus_inv_insert dest: route_bound)
  next
    case False
    have ok: "bt_ok (ab_outstanding bus)" using event.IH by (simp add: bus_inv_def)
    from False event.hyps(3) ev have "bus_response bus port msg ctx = Ok (bus', ctx')" by simp
    from bus_response_Ok [OF this] event.IH event.hyps(2) ev False show ?thesis
      by (auto simp: log response_not_request intro: bus_inv_remove dest!: mset_bt_remove [OF ok])
  qed
qed

subsection \<open>Restoring a snapshot\<close>

definition region_fits :: "Region \<Rightarrow> bool" where
  "region_fits r \<longleftrightarrow> str_fits (rg_name r) \<and> rg_base r \<le> u64_max \<and> rg_size r \<le> u64_max"

lemma read_regions_written:
  "list_all region_fits rs \<Longrightarrow> read_regions rs (concat (map write_region rs) @ rest) = Ok ((), rest)"
  by (induction rs) (simp_all add: write_region_def region_fits_def snap_bind u64_max_def)

lemma read_outstanding_written:
  assumes "og_region e < length (ab_regions bus)" "length (ab_regions bus) < 65535"
  shows "read_outstanding bus txn (write_outstanding e @ rest) = Ok (e, rest)"
  using assms by (simp add: read_outstanding_def write_outstanding_def snap_bind unat_of_nat)

text \<open>
  A snapshot of the bus restores it: a bus over the same regions, with whatever is outstanding on it,
  reads the snapshot back to the same outstanding transactions and consumes exactly its bytes.
\<close>

theorem bus_restore_snapshot:
  assumes "bus_inv bus" and "list_all region_fits (ab_regions bus)"
    and "\<forall>(txn, e)\<in>set (ab_outstanding bus). txn \<le> u64_max" "length (ab_outstanding bus) < 2 ^ 32"
    and "ab_regions bus\<^sub>0 = ab_regions bus"
  shows "bus_restore bus\<^sub>0 (bus_snapshot bus @ rest) = Ok (bus, rest)"
proof -
  have few: "length (ab_regions bus) < 65535" and ok: "bt_ok (ab_outstanding bus)"
    using assms(1) by (simp_all add: bus_inv_def regions_ok_def)
  have region: "og_region e < length (ab_regions bus)" if "(txn, e) \<in> set (ab_outstanding bus)" for txn e
    using assms(1) that bt_entries [OF ok] by (auto simp: bus_inv_def)
  have "r_ascending (length (ab_outstanding bus)) ''address bus: outstanding txns out of order or duplicated'' r_u64
      (read_outstanding bus\<^sub>0) None [] (concat (map (\<lambda>(txn, e). w_u64 txn @ write_outstanding e) (ab_outstanding bus)) @ rest)
      = Ok ([] @ ab_outstanding bus, rest)"
  proof (rule r_ascending_enc)
    show "r_u64 (w_u64 k @ r) = Ok (k, r)" if "(k, v) \<in> set (ab_outstanding bus)" for k v r
      using that assms(3) by (intro sc64.dec_enc) (auto simp: u64_max_def)
    show "read_outstanding bus\<^sub>0 k (write_outstanding v @ r) = Ok (v, r)" if "(k, v) \<in> set (ab_outstanding bus)" for k v r
      using read_outstanding_written [of v bus\<^sub>0] region [OF that] few assms(5) by simp
  qed (simp_all add: ok)
  moreover have "bus\<^sub>0\<lparr>ab_outstanding := ab_outstanding bus\<rparr> = bus" using assms(5) by (cases bus; cases bus\<^sub>0) simp
  ultimately show ?thesis
    using few assms(2,4,5) read_regions_written [OF assms(2)]
    by (simp add: bus_restore_def bus_snapshot_def bus_write_config_def snap_bind)
qed

subsection \<open>A small bus\<close>

definition tiny_regions :: "Region list" where
  "tiny_regions = [\<lparr>rg_name = ''ram'', rg_base = 0x80000000, rg_size = 0x1000\<rparr>, \<lparr>rg_name = ''uart'', rg_base = 0x10000000, rg_size = 8\<rparr>]"

definition tiny_bus :: AddressBus where
  "tiny_bus = \<lparr>ab_regions = tiny_regions, ab_outstanding = [(4, \<lparr>og_region = 0, og_write = True\<rparr>)]\<rparr>"

lemma tiny_regions_ok: "regions_ok tiny_regions" "list_all region_fits tiny_regions"
proof -
  show "regions_ok tiny_regions"
    by (auto simp: tiny_regions_def regions_ok_def region_ok_def region_last_def u64_max_def regions_apart_def region_holds_def)
  have "str_fits ''ram''" "str_fits ''uart''" by (rule ascii_str_fits, simp, simp)+
  then show "list_all region_fits tiny_regions" by (simp add: tiny_regions_def region_fits_def u64_max_def)
qed

lemma tiny_bus_inv: "bus_inv tiny_bus"
  using tiny_regions_ok by (auto simp: tiny_bus_def bus_inv_def bt_ok_def tiny_regions_def split: if_splits)

definition request_ctx :: SimContext where
  "request_ctx = quiet_ctx\<lparr>ctx_phase := PhRequest\<rparr>"

theorem bus_transaction_witness:
  "\<exists>bus'. bus_handle_event tiny_bus (DMessage CPU_PORT (MsgMemV1 (WriteReq 7 0x10000000 [65]))) request_ctx =
        Ok (bus', request_ctx\<lparr>ctx_out := ctx_out request_ctx @ [EffSend (region_port 1)
          (MsgMemV1 (at_offset (WriteReq 7 0x10000000 [65]) (0x10000000 - rg_base (ab_regions tiny_bus ! 1)))) WhenNow PhTransfer]\<rparr>)
      \<and> bus_inv bus'
      \<and> bus_handle_event bus' (DMessage (region_port 1) (MsgMemV1 (WriteResp 7 WriteDone))) quiet_ctx =
        Ok (tiny_bus, quiet_ctx\<lparr>ctx_out := ctx_out quiet_ctx
          @ [EffSend CPU_PORT (MsgMemV1 (WriteResp 7 WriteDone)) WhenNow (ctx_phase quiet_ctx)]\<rparr>)"
  by (rule bus_transaction [OF tiny_bus_inv, where txn = 7 and w = True and last_byte = "0x10000000"])
    (simp_all add: request_ctx_def quiet_ctx_def accepts_all_def tiny_bus_def tiny_regions_def byte_access_def
      u64_max_def region_last_def)

theorem bus_unmapped_faults_witness:
  "\<exists>resp fs. response_key resp = Some (7, False)
      \<and> bus_handle_event tiny_bus (DMessage CPU_PORT (MsgMemV1 (ReadReq 7 0x80000FFE 4))) (quiet_ctx\<lparr>ctx_phase := PhRequest\<rparr>) =
        Ok (tiny_bus, quiet_ctx\<lparr>ctx_phase := PhRequest,
          ctx_out := [EffSend CPU_PORT (MsgMemV1 resp) WhenNow PhComplete, EffTrace FAULT_KIND fs]\<rparr>)"
proof -
  have "\<forall>i f l. AccBytes 0x80000FFE 0x80001001 = AccBytes f l \<and> i < length (ab_regions tiny_bus)
      \<and> rg_base (ab_regions tiny_bus ! i) \<le> f \<longrightarrow> \<not> l \<le> region_last (ab_regions tiny_bus ! i)"
    by (auto simp: tiny_bus_def tiny_regions_def region_last_def less_Suc_eq)
  with bus_unmapped_faults [OF tiny_bus_inv, of "quiet_ctx\<lparr>ctx_phase := PhRequest\<rparr>" "ReadReq 7 0x80000FFE 4" 7 False
      "AccBytes 0x80000FFE 0x80001001"]
  show ?thesis
    by (auto simp: quiet_ctx_def accepts_all_def tiny_bus_def byte_access_def u64_max_def)
qed

theorem bus_restore_snapshot_witness:
  "bus_restore \<lparr>ab_regions = tiny_regions, ab_outstanding = []\<rparr> (bus_snapshot tiny_bus @ [9]) = Ok (tiny_bus, [9])"
  by (rule bus_restore_snapshot [OF tiny_bus_inv]) (simp_all add: tiny_bus_def tiny_regions_ok u64_max_def)

definition idle_bus :: AddressBus where
  "idle_bus = \<lparr>ab_regions = tiny_regions, ab_outstanding = []\<rparr>"

definition busy_bus :: AddressBus where
  "busy_bus = \<lparr>ab_regions = tiny_regions, ab_outstanding = [(7, \<lparr>og_region = 1, og_write = True\<rparr>)]\<rparr>"

definition tiny_log :: bus_log where
  "tiny_log =
     [(DMessage CPU_PORT (MsgMemV1 (WriteReq 7 0x10000000 [65])),
       [EffSend (region_port 1) (MsgMemV1 (WriteReq 7 0 [65])) WhenNow PhTransfer]),
      (DMessage (region_port 1) (MsgMemV1 (WriteResp 7 WriteDone)),
       [EffSend CPU_PORT (MsgMemV1 (WriteResp 7 WriteDone)) WhenNow PhTransfer])]"

theorem bus_conservation_witness:
  "bus_hist tiny_regions idle_bus tiny_log \<and> all_forwarded tiny_log = [(7, \<lparr>og_region = 1, og_write = True\<rparr>)]
    \<and> mset (all_forwarded tiny_log) = mset (all_relayed tiny_log)
    \<and> mset (all_requested tiny_log) = mset (all_answered tiny_log)"
proof -
  note handler = bus_request_def bus_response_def ctx_send_def ctx_effect_def request_ctx_def quiet_ctx_def route_def
    byte_access_def region_last_def region_port_def CPU_PORT_def u64_max_def Let_def
  have sent: "bus_handle_event idle_bus (DMessage CPU_PORT (MsgMemV1 (WriteReq 7 0x10000000 [65]))) request_ctx =
      Ok (busy_bus, request_ctx\<lparr>ctx_out := [EffSend (region_port 1) (MsgMemV1 (WriteReq 7 0 [65])) WhenNow PhTransfer]\<rparr>)"
    by (simp add: idle_bus_def busy_bus_def tiny_regions_def handler)
  have relay: "bus_handle_event busy_bus (DMessage (region_port 1) (MsgMemV1 (WriteResp 7 WriteDone))) quiet_ctx =
      Ok (idle_bus, quiet_ctx\<lparr>ctx_out := [EffSend CPU_PORT (MsgMemV1 (WriteResp 7 WriteDone)) WhenNow PhTransfer]\<rparr>)"
    by (simp add: idle_bus_def busy_bus_def tiny_regions_def bt_remove_def handler)
  have "bus_hist tiny_regions idle_bus []"
    by (rule bus_hist.start) (simp add: AddressBus_new_iff tiny_regions_ok idle_bus_def)
  from bus_hist.event [OF bus_hist.event [OF this _ sent] _ relay]
  have hist: "bus_hist tiny_regions idle_bus tiny_log"
    by (simp add: tiny_log_def request_ctx_def quiet_ctx_def)
  moreover have "all_forwarded tiny_log = [(7, \<lparr>og_region = 1, og_write = True\<rparr>)]"
    by (simp add: all_forwarded_def tiny_log_def region_port_def CPU_PORT_def)
  ultimately show ?thesis using bus_conservation [OF hist] by (simp add: idle_bus_def)
qed

end
