(* ===== verification/Plat_Target.thy ===== *)
theory Plat_Target
  imports Plat_Bus Plat_Ram
begin

section \<open>Memory targets: the UART, the interrupt controller and the RAM behind the bus\<close>

text \<open>
  Models \<^verbatim>\<open>components/platform/src/uart.rs\<close> and \<^verbatim>\<open>irqc.rs\<close>. These two and the RAM serve the same protocol, and
  what the bus and the CPU rely on is the contract \<open>mem_target\<close>: every nonempty request is answered with
  exactly one response of its transaction and kind, of the length asked for, in \<^verbatim>\<open>Complete\<close>, and nothing
  else is accepted on the port. The contract is interpreted on the three devices, and a device that
  meets it serves through the bus like a device at the region's base.
\<close>

subsection \<open>The UART\<close>

definition UART_PORT :: PortId where "UART_PORT = 0"
definition TX :: u64 where "TX = 0"
definition STATUS :: u64 where "STATUS = 4"
definition STATUS_VALUE :: u32 where "STATUS_VALUE = 1"
definition TX_KIND :: string where "TX_KIND = ''platform.uart.tx''"
definition INSPECT_TAIL :: usize where "INSPECT_TAIL = 64"

record SimpleUart =
  uart_latency :: LinkLatency
  uart_output :: "u8 list"

definition SimpleUart_new :: "LinkLatency \<Rightarrow> SimpleUart" where
  "SimpleUart_new config = \<lparr>uart_latency = config, uart_output = []\<rparr>"

definition status_read :: "u64 \<Rightarrow> usize \<Rightarrow> u8 list option" where
  "status_read first len =
     (if first = STATUS \<and> (len = 1 \<or> len = 2 \<or> len = 4) then Some (take len (u32_to_le_bytes STATUS_VALUE)) else None)"

text \<open>The first byte of a request, \<^verbatim>\<open>None\<close> past the last address; both devices compute it.\<close>

definition request_first :: "string \<Rightarrow> string \<Rightarrow> MemMsg \<Rightarrow> (u64 option, Abort) result" where
  "request_first not_request zero_length msg =
     (case mem_access msg of
        None \<Rightarrow> component_fault not_request
      | Some AccEmpty \<Rightarrow> component_fault zero_length
      | Some AccOutOfRange \<Rightarrow> Ok None
      | Some (AccBytes first _) \<Rightarrow> Ok (Some first))"

fun uart_respond :: "SimpleUart \<Rightarrow> u64 option \<Rightarrow> MemMsg \<Rightarrow> SimContext \<Rightarrow> (SimpleUart \<times> MemMsg \<times> SimContext, Abort) result" where
  "uart_respond uart first (ReadReq txn _ len) ctx =
     Ok (uart, ReadResp txn (case Option.bind first (\<lambda>first. status_read first (unat len)) of
        Some data \<Rightarrow> ReadData data | None \<Rightarrow> ReadFault AccessFault), ctx)"
| "uart_respond uart first (WriteReq txn _ data) ctx =
     (case (first, data) of
        (Some at, [byte]) \<Rightarrow>
          if at = TX
          then Ok (uart\<lparr>uart_output := uart_output uart @ [byte]\<rparr>, WriteResp txn WriteDone,
                   ctx_trace TX_KIND [(''byte'', VU64 (unat byte))] ctx)
          else Ok (uart, WriteResp txn (WriteFault AccessFault), ctx)
      | _ \<Rightarrow> Ok (uart, WriteResp txn (WriteFault AccessFault), ctx))"
| "uart_respond uart first _ ctx = component_fault ''uart: response on the target port''"

definition uart_handle_event :: "SimpleUart \<Rightarrow> Delivered \<Rightarrow> SimContext \<Rightarrow> SimpleUart handled" where
  "uart_handle_event uart ev ctx =
     (case ev of
        DMessage _ (MsgMemV1 msg) \<Rightarrow>
          result_bind (request_first ''uart: response on the target port'' ''uart: zero-length request'' msg) (\<lambda>first.
          result_bind (uart_respond uart first msg ctx) (\<lambda>(uart', resp, ctx').
          result_bind (ctx_send UART_PORT (MsgMemV1 resp) (latency_when (uart_latency uart)) PhComplete ctx')
            (\<lambda>ctx''. Ok (uart', ctx''))))
      | _ \<Rightarrow> component_fault ''uart: unexpected delivery'')"

definition uart_inspect :: "SimpleUart \<Rightarrow> TraceFields" where
  "uart_inspect uart = [(''tx_len'', VU64 (length (uart_output uart))),
     (''tx_tail'', VBytes (drop (length (uart_output uart) - INSPECT_TAIL) (uart_output uart)))]"

definition uart_snapshot :: "SimpleUart \<Rightarrow> u8 list" where
  "uart_snapshot uart = w_latency (uart_latency uart) @ w_bytes (uart_output uart)"

definition uart_restore :: "SimpleUart \<Rightarrow> SimpleUart reader" where
  "uart_restore uart =
     (let latency = w_latency (uart_latency uart) in
      rd_bind (r_raw (length latency)) (\<lambda>bytes.
      if bytes \<noteq> latency then invalid ''uart: snapshot has a different latency'' else
      rd_bind r_bytes (\<lambda>output. rd_return (uart\<lparr>uart_output := output\<rparr>))))"

subsection \<open>The interrupt controller\<close>

definition PENDING :: u64 where "PENDING = 0"
definition ENABLE :: u64 where "ENABLE = 4"
definition MAX_SOURCES :: u8 where "MAX_SOURCES = 32"
definition LEVEL_KIND :: string where "LEVEL_KIND = ''platform.irq.level''"
definition MEIP_KIND :: string where "MEIP_KIND = ''platform.irq.meip''"

definition valid_mask :: "u8 \<Rightarrow> u32" where
  "valid_mask sources = (if sources = 32 then - 1 else push_bit (unat sources) 1 - 1)"

record IrqControllerConfig =
  ic_sources :: u8
  ic_latency :: LinkLatency

datatype IrqControllerConfigError = NoSources | TooManySources u8

record SimpleIrqController =
  irqc_config :: IrqControllerConfig
  irqc_valid_mask :: u32
  irqc_pending :: u32
  irqc_enable :: u32
  irqc_line :: bool

definition SimpleIrqController_new :: "IrqControllerConfig \<Rightarrow> (SimpleIrqController, IrqControllerConfigError) result" where
  "SimpleIrqController_new config =
     (if ic_sources config = 0 then Err NoSources
      else if ic_sources config > MAX_SOURCES then Err (TooManySources (ic_sources config))
      else Ok \<lparr>irqc_config = config, irqc_valid_mask = valid_mask (ic_sources config), irqc_pending = 0,
               irqc_enable = 0, irqc_line = False\<rparr>)"

definition irqc_sources :: "SimpleIrqController \<Rightarrow> nat" where
  "irqc_sources c = unat (ic_sources (irqc_config c))"

definition src_port :: "SimpleIrqController \<Rightarrow> u8 \<Rightarrow> (PortId, Abort) result" where
  "src_port c index = (if index < ic_sources (irqc_config c) then Ok (unat index) else Err Panic)"

definition irqc_cpu_port :: "SimpleIrqController \<Rightarrow> PortId" where
  "irqc_cpu_port c = irqc_sources c"

definition irqc_mem_port :: "SimpleIrqController \<Rightarrow> PortId" where
  "irqc_mem_port c = irqc_sources c + 1"

definition update_output :: "SimpleIrqController \<Rightarrow> SimContext \<Rightarrow> SimpleIrqController handled" where
  "update_output c ctx =
     (let meip = (irqc_pending c AND irqc_enable c) \<noteq> 0 in
      if meip = irqc_line c then Ok (c, ctx)
      else
        result_bind (ctx_send (irqc_cpu_port c) (MsgIrq (IrqLevel meip)) WhenNow PhComplete
            (ctx_trace MEIP_KIND [(''asserted'', VBool meip)] ctx))
          (\<lambda>ctx'. Ok (c\<lparr>irqc_line := meip\<rparr>, ctx')))"

fun irqc_level :: "SimpleIrqController \<Rightarrow> nat \<Rightarrow> IrqMsg \<Rightarrow> SimContext \<Rightarrow> SimpleIrqController handled" where
  "irqc_level c index (IrqLevel asserted) ctx =
     (if ctx_phase ctx \<noteq> PhComplete then component_fault ''irq controller: irq.v0 level arrived outside COMPLETE''
      else
        (let line = push_bit index 1;
             pending = (if asserted then irqc_pending c OR line else irqc_pending c AND NOT line)
         in if pending = irqc_pending c then Ok (c, ctx)
            else update_output (c\<lparr>irqc_pending := pending\<rparr>)
              (ctx_trace LEVEL_KIND [(''source'', VU64 index), (''asserted'', VBool asserted)] ctx)))"

fun irqc_respond :: "SimpleIrqController \<Rightarrow> u64 option \<Rightarrow> MemMsg \<Rightarrow> SimContext
    \<Rightarrow> (SimpleIrqController \<times> MemMsg \<times> SimContext, Abort) result" where
  "irqc_respond c first (ReadReq txn _ len) ctx =
     Ok (c, ReadResp txn
       (if first = Some PENDING \<and> len = 4 then ReadData (u32_to_le_bytes (irqc_pending c AND irqc_valid_mask c))
        else if first = Some ENABLE \<and> len = 4 then ReadData (u32_to_le_bytes (irqc_enable c))
        else ReadFault AccessFault), ctx)"
| "irqc_respond c first (WriteReq txn _ data) ctx =
     (if first = Some ENABLE \<and> length data = 4
      then result_bind (update_output (c\<lparr>irqc_enable := u32_from_le_bytes data AND irqc_valid_mask c\<rparr>) ctx)
             (\<lambda>(c', ctx'). Ok (c', WriteResp txn WriteDone, ctx'))
      else Ok (c, WriteResp txn (WriteFault AccessFault), ctx))"
| "irqc_respond c first _ ctx = component_fault ''irq controller: response on the target port''"

definition irqc_request :: "SimpleIrqController \<Rightarrow> MemMsg \<Rightarrow> SimContext \<Rightarrow> SimpleIrqController handled" where
  "irqc_request c msg ctx =
     result_bind (request_first ''irq controller: response on the target port'' ''irq controller: zero-length request'' msg)
       (\<lambda>first.
     result_bind (irqc_respond c first msg ctx) (\<lambda>(c', resp, ctx').
     result_bind (ctx_send (irqc_mem_port c') (MsgMemV1 resp) (latency_when (ic_latency (irqc_config c'))) PhComplete ctx')
       (\<lambda>ctx''. Ok (c', ctx''))))"

definition irqc_handle_event :: "SimpleIrqController \<Rightarrow> Delivered \<Rightarrow> SimContext \<Rightarrow> SimpleIrqController handled" where
  "irqc_handle_event c ev ctx =
     (case ev of
        DWake _ \<Rightarrow> component_fault ''irq controller: unexpected wake''
      | DMessage i msg \<Rightarrow>
          if i < irqc_sources c then
            (case msg of
               MsgIrq m \<Rightarrow> irqc_level c i m ctx
             | _ \<Rightarrow> component_fault ''irq controller: message on a source is not irq.v0'')
          else if i = irqc_sources c then component_fault ''irq controller: message on the cpu port''
          else if i = irqc_sources c + 1 then
            (case msg of
               MsgMemV1 m \<Rightarrow> irqc_request c m ctx
             | _ \<Rightarrow> component_fault ''irq controller: message on mem is not mem.v1'')
          else component_fault ''irq controller: message on an unknown port'')"

definition irqc_write_config :: "SimpleIrqController \<Rightarrow> u8 list" where
  "irqc_write_config c = w_u8 (ic_sources (irqc_config c)) @ w_latency (ic_latency (irqc_config c))"

definition irqc_snapshot :: "SimpleIrqController \<Rightarrow> u8 list" where
  "irqc_snapshot c = irqc_write_config c @ w_u32 (irqc_pending c) @ w_u32 (irqc_enable c) @ w_bool (irqc_line c)"

definition irqc_restore :: "SimpleIrqController \<Rightarrow> SimpleIrqController reader" where
  "irqc_restore c =
     rd_bind r_u8 (\<lambda>sources.
     if sources \<noteq> ic_sources (irqc_config c) then invalid ''irq controller: snapshot has a different source count'' else
     (let latency = drop 1 (irqc_write_config c) in
     rd_bind (r_raw (length latency)) (\<lambda>bytes.
     if bytes \<noteq> latency then invalid ''irq controller: snapshot has a different latency'' else
     rd_bind r_u32 (\<lambda>pending.
     rd_bind r_u32 (\<lambda>enable.
     rd_bind r_bool (\<lambda>line.
     if pending AND NOT (irqc_valid_mask c) \<noteq> 0 then invalid ''irq controller: pending bit outside the sources''
     else if enable AND NOT (irqc_valid_mask c) \<noteq> 0 then invalid ''irq controller: enable bit outside the sources''
     else if line \<noteq> (pending AND enable \<noteq> 0) then invalid ''irq controller: out is not (pending & enable) != 0''
     else rd_return (c\<lparr>irqc_pending := pending, irqc_enable := enable, irqc_line := line\<rparr>)))))))"

subsection \<open>The contract of a memory target\<close>

fun answers :: "MemMsg \<Rightarrow> MemMsg \<Rightarrow> bool" where
  "answers (ReadReq txn _ len) (ReadResp t outcome) \<longleftrightarrow>
     t = txn \<and> (case outcome of ReadData data \<Rightarrow> length data = unat len | ReadFault _ \<Rightarrow> True)"
| "answers (WriteReq txn _ _) (WriteResp t _) \<longleftrightarrow> t = txn"
| "answers _ _ \<longleftrightarrow> False"

fun sends_on :: "PortId \<Rightarrow> CtxEffect \<Rightarrow> bool" where
  "sends_on port (EffSend p _ _ _) \<longleftrightarrow> p = port"
| "sends_on _ _ \<longleftrightarrow> False"

lemma answers_key: "answers req resp \<Longrightarrow> response_key resp = request_txn req"
  by (cases req; cases resp) auto

lemma answers_at_offset [simp]: "answers (at_offset req off) resp = answers req resp"
  by (cases req; cases resp) auto

lemma access_at_offset:
  "mem_access req = Some (AccBytes first last_byte) \<Longrightarrow> base \<le> first \<Longrightarrow>
     mem_access (at_offset req (first - base)) = Some (AccBytes (first - base) (last_byte - base))"
  by (cases req) (auto simp: byte_access_def split: if_splits)

text \<open>
  One request through the bus to the target at region \<open>i\<close>: the bus handles it in \<^verbatim>\<open>Request\<close>, the target
  what the bus sent, and the bus the target's response in \<^verbatim>\<open>Complete\<close>; the result is what comes out on
  the initiator's port.
\<close>

fun last_send :: "SimContext \<Rightarrow> (PortId \<times> MemMsg) option" where
  "last_send ctx = (case rev (ctx_out ctx) of EffSend p (MsgMemV1 m) _ _ # _ \<Rightarrow> Some (p, m) | _ \<Rightarrow> None)"

definition complete_ctx :: SimContext where
  "complete_ctx = quiet_ctx\<lparr>ctx_phase := PhComplete\<rparr>"

definition through_bus :: "('s \<Rightarrow> Delivered \<Rightarrow> SimContext \<Rightarrow> 's handled) \<Rightarrow> PortId \<Rightarrow> AddressBus \<Rightarrow> 's \<Rightarrow> nat \<Rightarrow> MemMsg
    \<Rightarrow> (AddressBus \<times> 's \<times> PortId \<times> MemMsg) option" where
  "through_bus handle port bus s i req =
     (case bus_handle_event bus (DMessage CPU_PORT (MsgMemV1 req)) request_ctx of
        Ok (bus\<^sub>1, ctx\<^sub>1) \<Rightarrow>
          (case last_send ctx\<^sub>1 of
             Some (p\<^sub>1, m\<^sub>1) \<Rightarrow>
               if p\<^sub>1 = region_port i then
                 (case handle s (DMessage port (MsgMemV1 m\<^sub>1)) quiet_ctx of
                    Ok (s', ctx\<^sub>2) \<Rightarrow>
                      (case last_send ctx\<^sub>2 of
                         Some (p\<^sub>2, m\<^sub>2) \<Rightarrow>
                           if p\<^sub>2 = port then
                             (case bus_handle_event bus\<^sub>1 (DMessage (region_port i) (MsgMemV1 m\<^sub>2)) complete_ctx of
                                Ok (bus\<^sub>2, ctx\<^sub>3) \<Rightarrow> map_option (\<lambda>(p\<^sub>3, m\<^sub>3). (bus\<^sub>2, s', p\<^sub>3, m\<^sub>3)) (last_send ctx\<^sub>3)
                              | Err _ \<Rightarrow> None)
                           else None
                       | None \<Rightarrow> None)
                  | Err _ \<Rightarrow> None)
               else None
           | None \<Rightarrow> None)
      | Err _ \<Rightarrow> None)"

locale mem_target =
  fixes handle :: "'s \<Rightarrow> Delivered \<Rightarrow> SimContext \<Rightarrow> 's handled" and inv :: "'s \<Rightarrow> bool" and port :: "'s \<Rightarrow> PortId"
  assumes serves: "inv s \<Longrightarrow> accepts_all ctx \<Longrightarrow> mem_access req = Some a \<Longrightarrow> a \<noteq> AccEmpty \<Longrightarrow>
      \<exists>s' extra resp w. handle s (DMessage (port s) (MsgMemV1 req)) ctx =
          Ok (s', ctx\<lparr>ctx_out := ctx_out ctx @ extra @ [EffSend (port s) (MsgMemV1 resp) w PhComplete]\<rparr>)
        \<and> inv s' \<and> port s' = port s \<and> answers req resp \<and> (\<forall>e\<in>set extra. \<not> sends_on (port s) e)"
    and refuses: "inv s \<Longrightarrow> mem_access req \<in> {None, Some AccEmpty} \<Longrightarrow>
      \<exists>why. handle s (DMessage (port s) (MsgMemV1 req)) ctx = component_fault why"
begin

text \<open>Behind the bus: the target sees the offset, and its response reaches the initiator.\<close>

lemma behind_bus:
  assumes "inv s" "bus_inv bus" and "request_txn req = Some (txn, w)" "bt_get (ab_outstanding bus) txn = None"
    and "mem_access req = Some (AccBytes first last_byte)" and "i < length (ab_regions bus)"
    and "rg_base (ab_regions bus ! i) \<le> first" "last_byte \<le> region_last (ab_regions bus ! i)"
  shows "\<exists>s' extra resp w. handle s (DMessage (port s) (MsgMemV1 (at_offset req (first - rg_base (ab_regions bus ! i))))) quiet_ctx =
        Ok (s', quiet_ctx\<lparr>ctx_out := extra @ [EffSend (port s) (MsgMemV1 resp) w PhComplete]\<rparr>)
      \<and> inv s' \<and> answers req resp \<and> through_bus handle (port s) bus s i req = Some (bus, s', CPU_PORT, resp)"
proof -
  let ?m = "at_offset req (first - rg_base (ab_regions bus ! i))"
  have acc: "mem_access ?m = Some (AccBytes (first - rg_base (ab_regions bus ! i)) (last_byte - rg_base (ab_regions bus ! i)))"
    using access_at_offset assms(5,7) .
  obtain s' extra resp w' where served: "handle s (DMessage (port s) (MsgMemV1 ?m)) quiet_ctx =
      Ok (s', quiet_ctx\<lparr>ctx_out := extra @ [EffSend (port s) (MsgMemV1 resp) w' PhComplete]\<rparr>)"
    and s': "inv s'" "answers req resp"
    using serves [OF assms(1) quiet_ctx_accepts(1) acc] by auto
  have key: "response_key resp = Some (txn, w)" using answers_key [OF s'(2)] assms(3) by simp
  have rc: "accepts_all request_ctx" "ctx_phase request_ctx = PhRequest" "ctx_out request_ctx = []"
    by (simp_all add: request_ctx_def quiet_ctx_def accepts_all_def)
  have cc: "accepts_all complete_ctx" "ctx_out complete_ctx = []"
    by (simp_all add: complete_ctx_def quiet_ctx_def accepts_all_def)
  have "through_bus handle (port s) bus s i req = Some (bus, s', CPU_PORT, resp)"
    unfolding through_bus_def bus_forward [OF assms(2) rc(1,2) assms(3-8)]
    using bus_relay [OF assms(2,4,6) key cc(1)] by (simp add: served rc cc del: bus_handle_event.simps)
  with served s' show ?thesis by blast
qed

end

subsection \<open>The devices meet the contract\<close>

lemma ram_target:
  assumes "ram_inv s" "accepts_all ctx" "mem_access req = Some a" "a \<noteq> AccEmpty"
  shows "\<exists>s' resp w. ram_handle_event s (DMessage RAM_PORT (MsgMemV1 req)) ctx =
      Ok (s', ctx\<lparr>ctx_out := ctx_out ctx @ [EffSend RAM_PORT (MsgMemV1 resp) w PhComplete]\<rparr>)
    \<and> ram_inv s' \<and> answers req resp"
proof -
  have "\<exists>f resp. mem_spec (ram_size (ram_config s)) (ram_byte s) req = Some (f, resp) \<and> answers req resp"
    using assms(3,4) by (cases req) (auto simp: byte_access_def unat_eq_zero split: if_splits)
  then show ?thesis
    using ram_serves [OF assms(1,2), of RAM_PORT req] by (fastforce simp: RAM_PORT_def)
qed

interpretation ram_t: mem_target ram_handle_event ram_inv "\<lambda>_. RAM_PORT"
proof
  fix s ctx req a assume "ram_inv s" "accepts_all ctx" "mem_access req = Some a" "a \<noteq> AccEmpty"
  from ram_target [OF this] show "\<exists>s' extra resp w. ram_handle_event s (DMessage RAM_PORT (MsgMemV1 req)) ctx =
      Ok (s', ctx\<lparr>ctx_out := ctx_out ctx @ extra @ [EffSend RAM_PORT (MsgMemV1 resp) w PhComplete]\<rparr>)
    \<and> ram_inv s' \<and> RAM_PORT = RAM_PORT \<and> answers req resp \<and> (\<forall>e\<in>set extra. \<not> sends_on RAM_PORT e)"
    by (metis append_Nil empty_iff empty_set)
next
  fix s :: Ram and req ctx assume "mem_access req \<in> {None, Some AccEmpty}"
  then show "\<exists>why. ram_handle_event s (DMessage RAM_PORT (MsgMemV1 req)) ctx = component_fault why"
    by (auto simp: ram_handle_event_def)
qed

lemma length_u32_bytes [simp]: "length (u32_to_le_bytes w) = 4"
  by (simp add: u32_to_le_bytes_def)

lemma uart_respond_answers:
  assumes "mem_access req \<noteq> None"
  shows "\<exists>s' resp extra. uart_respond s first req ctx = Ok (s', resp, ctx\<lparr>ctx_out := ctx_out ctx @ extra\<rparr>)
    \<and> answers req resp \<and> (\<forall>e\<in>set extra. \<not> sends_on UART_PORT e)"
proof (cases req)
  case (ReadReq txn addr len)
  have "answers req (ReadResp txn (case Option.bind first (\<lambda>first. status_read first (unat len)) of
      Some data \<Rightarrow> ReadData data | None \<Rightarrow> ReadFault AccessFault))"
    by (auto simp: ReadReq status_read_def split: option.split bind_splits)
  then show ?thesis using ReadReq by (auto intro!: exI [of _ "[]"])
next
  case (WriteReq txn addr data)
  show ?thesis
  proof (cases "\<exists>byte. data = [byte] \<and> first = Some TX")
    case True
    then show ?thesis using WriteReq
      by (auto simp: ctx_trace_def intro!: exI [of _ "[EffTrace _ _]"])
  next
    case False
    then have "uart_respond s first req ctx = Ok (s, WriteResp txn (WriteFault AccessFault), ctx)"
      using WriteReq by (auto split: option.splits list.splits)
    then show ?thesis using WriteReq by (auto intro!: exI [of _ "[]"])
  qed
qed (use assms in simp_all)

interpretation uart_t: mem_target uart_handle_event "\<lambda>_. True" "\<lambda>_. UART_PORT"
proof
  fix s :: SimpleUart and ctx req a assume acc: "accepts_all ctx" "mem_access req = Some a" "a \<noteq> AccEmpty"
  have first: "\<exists>first. request_first n z req = Ok first" for n z
    using acc(2,3) by (cases a) (auto simp: request_first_def)
  obtain first where f: "request_first ''uart: response on the target port'' ''uart: zero-length request'' req = Ok first"
    using first by blast
  have "\<exists>s' resp extra. uart_respond s first req ctx = Ok (s', resp, ctx\<lparr>ctx_out := ctx_out ctx @ extra\<rparr>)
      \<and> answers req resp \<and> (\<forall>e\<in>set extra. \<not> sends_on UART_PORT e)"
    using acc(2) by (intro uart_respond_answers) auto
  then show "\<exists>s' extra resp w. uart_handle_event s (DMessage UART_PORT (MsgMemV1 req)) ctx =
      Ok (s', ctx\<lparr>ctx_out := ctx_out ctx @ extra @ [EffSend UART_PORT (MsgMemV1 resp) w PhComplete]\<rparr>)
    \<and> True \<and> UART_PORT = UART_PORT \<and> answers req resp \<and> (\<forall>e\<in>set extra. \<not> sends_on UART_PORT e)"
    using f acc(1) by (fastforce simp: uart_handle_event_def ctx_send_def ctx_effect_accepted)
next
  fix s :: SimpleUart and req ctx assume "mem_access req \<in> {None, Some AccEmpty}"
  then show "\<exists>why. uart_handle_event s (DMessage UART_PORT (MsgMemV1 req)) ctx = component_fault why"
    by (auto simp: uart_handle_event_def request_first_def)
qed

subsection \<open>The interrupt line\<close>

definition irqc_meip :: "SimpleIrqController \<Rightarrow> bool" where
  "irqc_meip c \<longleftrightarrow> irqc_pending c AND irqc_enable c \<noteq> 0"

definition irqc_inv :: "SimpleIrqController \<Rightarrow> bool" where
  "irqc_inv c \<longleftrightarrow> 0 < irqc_sources c \<and> irqc_sources c \<le> 32 \<and> irqc_valid_mask c = valid_mask (ic_sources (irqc_config c))
     \<and> (\<forall>n. bit (irqc_pending c) n \<longrightarrow> n < irqc_sources c) \<and> (\<forall>n. bit (irqc_enable c) n \<longrightarrow> n < irqc_sources c)
     \<and> irqc_line c = irqc_meip c"

lemma bit_valid_mask: "unat sources \<le> 32 \<Longrightarrow> bit (valid_mask sources) n \<longleftrightarrow> n < unat sources"
proof (cases "sources = 32")
  case False
  assume "unat sources \<le> 32"
  moreover have "push_bit (unat sources) 1 - 1 = (mask (unat sources) :: u32)"
    by (simp add: mask_eq_exp_minus_1 push_bit_eq_mult)
  ultimately show ?thesis using False by (auto simp: valid_mask_def bit_mask_iff)
qed (simp add: valid_mask_def)

lemma irqc_sources_update [simp]:
  "irqc_sources (c\<lparr>irqc_pending := p\<rparr>) = irqc_sources c" "irqc_sources (c\<lparr>irqc_enable := e\<rparr>) = irqc_sources c"
  "irqc_sources (c\<lparr>irqc_line := l\<rparr>) = irqc_sources c"
  by (simp_all add: irqc_sources_def)

text \<open>The level changes sent on the output, in order.\<close>

fun level_sent :: "PortId \<Rightarrow> CtxEffect \<Rightarrow> bool list" where
  "level_sent port (EffSend p (MsgIrq (IrqLevel b)) _ _) = (if p = port then [b] else [])"
| "level_sent port _ = []"

definition levels_sent :: "PortId \<Rightarrow> CtxEffect list \<Rightarrow> bool list" where
  "levels_sent port es = concat (map (level_sent port) es)"

lemma levels_sent_simps [simp]:
  "levels_sent port [] = []" "levels_sent port (es @ fs) = levels_sent port es @ levels_sent port fs"
  "levels_sent port (e # es) = level_sent port e @ levels_sent port es"
  by (simp_all add: levels_sent_def)

lemma update_output_Ok:
  assumes "update_output c ctx = Ok (c', ctx')"
  shows "c' = c\<lparr>irqc_line := irqc_meip c\<rparr>"
    and "\<exists>extra. ctx_out ctx' = ctx_out ctx @ extra \<and> (\<forall>e\<in>set extra. \<forall>p. p \<noteq> irqc_cpu_port c \<longrightarrow> \<not> sends_on p e)
      \<and> levels_sent (irqc_cpu_port c) extra = (if irqc_meip c = irqc_line c then [] else [irqc_meip c])"
    and "ctx_refuse ctx' = ctx_refuse ctx \<and> ctx_phase ctx' = ctx_phase ctx"
  using assms by (auto simp: update_output_def Let_def ctx_send_def ctx_trace_def irqc_meip_def split: if_splits)

lemma update_output_inv:
  "update_output c ctx = Ok (c', ctx') \<Longrightarrow> irqc_inv (c\<lparr>irqc_line := irqc_meip c\<rparr>) \<Longrightarrow> irqc_inv c'"
  using update_output_Ok(1) by blast

lemma update_output_accepted: "accepts_all ctx \<Longrightarrow> \<exists>r. update_output c ctx = Ok r"
  by (auto simp: update_output_def Let_def ctx_send_def ctx_effect_def accepts_all_def ctx_trace_def)

lemma enable_inv:
  assumes "irqc_inv c"
  shows "irqc_inv (c\<lparr>irqc_enable := v AND irqc_valid_mask c, irqc_line := irqc_meip (c\<lparr>irqc_enable := v AND irqc_valid_mask c\<rparr>)\<rparr>)"
  using assms bit_valid_mask [of "ic_sources (irqc_config c)"]
  by (auto simp: irqc_inv_def irqc_meip_def bit_and_iff irqc_sources_def)

lemma bit_line: "bit (push_bit i 1 :: u32) n \<longleftrightarrow> n = i \<and> i < 32"
  by (auto simp: bit_exp_iff)

lemma pending_inv:
  assumes "irqc_inv c" "i < irqc_sources c"
    and "p = irqc_pending c OR push_bit i 1 \<or> p = irqc_pending c AND NOT (push_bit i 1)"
  shows "irqc_inv (c\<lparr>irqc_pending := p, irqc_line := irqc_meip (c\<lparr>irqc_pending := p\<rparr>)\<rparr>)"
  using assms by (auto simp: irqc_inv_def irqc_meip_def bit_simps)

text \<open>What a delivery does to the controller: the level of one source, or the enable mask, or nothing.\<close>

definition level_bit :: "Delivered \<Rightarrow> nat \<Rightarrow> bool \<Rightarrow> bool" where
  "level_bit ev n old = (case ev of DMessage p (MsgIrq (IrqLevel b)) \<Rightarrow> if p = n then b else old | _ \<Rightarrow> old)"

definition irqc_step_ok :: "SimpleIrqController \<Rightarrow> Delivered \<Rightarrow> SimpleIrqController \<Rightarrow> CtxEffect list \<Rightarrow> bool" where
  "irqc_step_ok c ev c' extra \<longleftrightarrow> irqc_inv c' \<and> irqc_config c' = irqc_config c
     \<and> (\<forall>n<irqc_sources c. bit (irqc_pending c') n = level_bit ev n (bit (irqc_pending c) n))
     \<and> levels_sent (irqc_cpu_port c) extra = (if irqc_line c' = irqc_line c then [] else [irqc_line c'])"

lemma irqc_level_step:
  assumes "irqc_level c i m ctx = Ok (c', ctx')" "irqc_inv c" "i < irqc_sources c"
  shows "\<exists>extra. ctx_out ctx' = ctx_out ctx @ extra \<and> irqc_step_ok c (DMessage i (MsgIrq m)) c' extra"
proof -
  obtain b where m: "m = IrqLevel b" by (cases m)
  define p where "p = (if b then irqc_pending c OR push_bit i 1 else irqc_pending c AND NOT (push_bit i 1))"
  have bits: "bit p n = level_bit (DMessage i (MsgIrq m)) n (bit (irqc_pending c) n)" if "n < irqc_sources c" for n
    using assms(2,3) that by (auto simp: p_def m level_bit_def irqc_inv_def bit_simps)
  show ?thesis
  proof (cases "p = irqc_pending c")
    case True
    then have "c' = c" "ctx' = ctx" using assms(1) by (auto simp: m p_def Let_def split: if_splits)
    with assms(2) bits True show ?thesis by (auto simp: irqc_step_ok_def)
  next
    case False
    then have upd: "update_output (c\<lparr>irqc_pending := p\<rparr>)
        (ctx_trace LEVEL_KIND [(''source'', VU64 i), (''asserted'', VBool b)] ctx) = Ok (c', ctx')"
      using assms(1) by (auto simp: m p_def Let_def split: if_splits)
    have "irqc_inv (c\<lparr>irqc_pending := p, irqc_line := irqc_meip (c\<lparr>irqc_pending := p\<rparr>)\<rparr>)"
      using pending_inv [OF assms(2,3)] by (simp add: p_def)
    with update_output_Ok [OF upd] bits show ?thesis
      by (auto simp: irqc_step_ok_def ctx_trace_def irqc_cpu_port_def irqc_sources_def)
  qed
qed

lemma irqc_request_step:
  assumes "irqc_request c msg ctx = Ok (c', ctx')" "irqc_inv c"
  shows "\<exists>extra. ctx_out ctx' = ctx_out ctx @ extra \<and> irqc_step_ok c (DMessage p (MsgMemV1 msg)) c' extra"
proof -
  from assms(1) obtain first resp ctx\<^sub>1 where resp: "irqc_respond c first msg ctx = Ok (c', resp, ctx\<^sub>1)"
    and out: "ctx_out ctx' = ctx_out ctx\<^sub>1 @ [EffSend (irqc_mem_port c') (MsgMemV1 resp) (latency_when (ic_latency (irqc_config c'))) PhComplete]"
    by (auto simp: irqc_request_def ctx_send_def)
  show ?thesis
  proof (cases "c' = c \<and> ctx\<^sub>1 = ctx")
    case True
    then show ?thesis using out assms(2) by (auto simp: irqc_step_ok_def level_bit_def)
  next
    case False
    obtain data where upd: "update_output (c\<lparr>irqc_enable := u32_from_le_bytes data AND irqc_valid_mask c\<rparr>) ctx = Ok (c', ctx\<^sub>1)"
      using resp False by (cases "(c, first, msg, ctx)" rule: irqc_respond.cases) (auto split: if_splits)
    from update_output_Ok [OF upd] enable_inv [OF assms(2)] out show ?thesis
      by (auto simp: irqc_step_ok_def level_bit_def irqc_cpu_port_def irqc_sources_def)
  qed
qed

lemma irqc_event_step:
  assumes "irqc_handle_event c ev ctx = Ok (c', ctx')" "irqc_inv c"
  shows "\<exists>extra. ctx_out ctx' = ctx_out ctx @ extra \<and> irqc_step_ok c ev c' extra"
  using assms irqc_level_step irqc_request_step
  by (auto simp: irqc_handle_event_def split: Delivered.splits Message.splits if_splits)

inductive irqc_hist :: "IrqControllerConfig \<Rightarrow> SimpleIrqController \<Rightarrow> Delivered list \<Rightarrow> bool list \<Rightarrow> bool" for cfg where
  start: "SimpleIrqController_new cfg = Ok c \<Longrightarrow> irqc_hist cfg c [] []"
| event: "irqc_hist cfg c evs levels \<Longrightarrow> ctx_out ctx = [] \<Longrightarrow> irqc_handle_event c ev ctx = Ok (c', ctx') \<Longrightarrow>
    irqc_hist cfg c' (evs @ [ev]) (levels @ levels_sent (irqc_cpu_port c) (ctx_out ctx'))"

text \<open>
  C25. In every history of the interrupt controller the pending bit of a source is the last level received on
  it, the line to the CPU is asserted exactly when an enabled source is pending, and the levels sent to
  the CPU are its changes, alternating from the first assertion on, so the CPU's view is never stale.
\<close>

theorem irqc_tracks_sources:
  assumes "irqc_hist cfg c evs levels"
  shows "irqc_inv c \<and> irqc_config c = cfg
    \<and> (\<forall>n<irqc_sources c. bit (irqc_pending c) n = fold (\<lambda>ev. level_bit ev n) evs False)
    \<and> irqc_line c = (irqc_pending c AND irqc_enable c \<noteq> 0)
    \<and> levels = map even [0..<length levels] \<and> irqc_line c = odd (length levels)"
  using assms
proof induction
  case (start c)
  then show ?case
    by (auto simp: SimpleIrqController_new_def irqc_inv_def irqc_meip_def irqc_sources_def MAX_SOURCES_def
        unat_gt_0 word_less_nat_alt split: if_splits)
next
  case (event c evs levels ctx ev c' ctx')
  then obtain extra where "ctx_out ctx' = extra" and step: "irqc_step_ok c ev c' extra"
    using irqc_event_step by fastforce
  then have sent: "levels_sent (irqc_cpu_port c) (ctx_out ctx') = (if irqc_line c' = irqc_line c then [] else [irqc_line c'])"
    and inv: "irqc_inv c'" and cfg: "irqc_config c' = irqc_config c"
    and bits: "\<forall>n<irqc_sources c. bit (irqc_pending c') n = level_bit ev n (bit (irqc_pending c) n)"
    by (simp_all add: irqc_step_ok_def)
  have same: "irqc_sources c' = irqc_sources c" using cfg by (simp add: irqc_sources_def)
  have line: "irqc_line c' = (irqc_pending c' AND irqc_enable c' \<noteq> 0)" using inv by (simp add: irqc_inv_def irqc_meip_def)
  have IH: "irqc_line c = odd (length levels)" "levels = map even [0..<length levels]" using event.IH by blast+
  let ?levels = "levels @ levels_sent (irqc_cpu_port c) (ctx_out ctx')"
  have "?levels = map even [0..<length ?levels] \<and> irqc_line c' = odd (length ?levels)"
  proof (cases "irqc_line c' = irqc_line c")
    case False
    then have "irqc_line c' = even (length levels)" using IH(1) by blast
    then show ?thesis using IH(2) False sent by simp
  qed (use IH sent in simp)
  moreover have "\<forall>n<irqc_sources c'. bit (irqc_pending c') n = fold (\<lambda>ev. level_bit ev n) (evs @ [ev]) False"
    using bits event.IH same by simp
  ultimately show ?case using inv cfg line event.IH by blast
qed

lemma irqc_respond_answers:
  assumes "mem_access req \<noteq> None" and "accepts_all ctx"
  shows "\<exists>c' resp ctx' extra. irqc_respond c first req ctx = Ok (c', resp, ctx') \<and> ctx' = ctx\<lparr>ctx_out := ctx_out ctx @ extra\<rparr>
    \<and> answers req resp \<and> (\<forall>e\<in>set extra. \<not> sends_on (irqc_mem_port c) e) \<and> irqc_config c' = irqc_config c"
proof (cases req)
  case (ReadReq txn addr len)
  then show ?thesis by (auto intro!: exI [of _ "[]"])
next
  case (WriteReq txn addr data)
  show ?thesis
  proof (cases "first = Some ENABLE \<and> length data = 4")
    case True
    let ?c = "c\<lparr>irqc_enable := u32_from_le_bytes data AND irqc_valid_mask c\<rparr>"
    obtain c' ctx' where upd: "update_output ?c ctx = Ok (c', ctx')" using update_output_accepted [OF assms(2)] by fastforce
    from update_output_Ok [OF this] obtain extra where
      "ctx_out ctx' = ctx_out ctx @ extra" "\<forall>e\<in>set extra. \<not> sends_on (irqc_mem_port c) e"
      by (auto simp: irqc_cpu_port_def irqc_mem_port_def)
    moreover have "ctx' = ctx\<lparr>ctx_out := ctx_out ctx'\<rparr>" using update_output_Ok(3) [OF upd] by (cases ctx; cases ctx') auto
    moreover have "irqc_config c' = irqc_config c" using update_output_Ok(1) [OF upd] by simp
    ultimately show ?thesis using True upd WriteReq by auto
  qed (use WriteReq in \<open>auto intro!: exI [of _ "[]"]\<close>)
qed (use assms in simp_all)

interpretation irqc_t: mem_target irqc_handle_event irqc_inv irqc_mem_port
proof
  fix c ctx req a assume inv: "irqc_inv c" and acc: "accepts_all ctx" "mem_access req = Some a" "a \<noteq> AccEmpty"
  obtain first where first: "request_first ''irq controller: response on the target port''
      ''irq controller: zero-length request'' req = Ok first"
    using acc(2,3) by (cases a) (auto simp: request_first_def)
  obtain c' resp ctx' extra where resp: "irqc_respond c first req ctx = Ok (c', resp, ctx')"
    "ctx' = ctx\<lparr>ctx_out := ctx_out ctx @ extra\<rparr>" "answers req resp"
    "\<forall>e\<in>set extra. \<not> sends_on (irqc_mem_port c) e" "irqc_config c' = irqc_config c"
    using irqc_respond_answers [of req ctx c first] acc by auto
  have port: "irqc_mem_port c' = irqc_mem_port c" using resp(5) by (simp add: irqc_mem_port_def irqc_sources_def)
  have handled: "irqc_handle_event c (DMessage (irqc_mem_port c) (MsgMemV1 req)) ctx =
      Ok (c', ctx\<lparr>ctx_out := ctx_out ctx @ extra @ [EffSend (irqc_mem_port c) (MsgMemV1 resp)
        (latency_when (ic_latency (irqc_config c))) PhComplete]\<rparr>)"
    using first resp acc(1) port
    by (simp add: irqc_handle_event_def irqc_mem_port_def irqc_request_def ctx_send_def ctx_effect_accepted)
  with irqc_event_step [OF handled inv] resp port show
    "\<exists>s' extra resp w. irqc_handle_event c (DMessage (irqc_mem_port c) (MsgMemV1 req)) ctx =
      Ok (s', ctx\<lparr>ctx_out := ctx_out ctx @ extra @ [EffSend (irqc_mem_port c) (MsgMemV1 resp) w PhComplete]\<rparr>)
    \<and> irqc_inv s' \<and> irqc_mem_port s' = irqc_mem_port c \<and> answers req resp \<and> (\<forall>e\<in>set extra. \<not> sends_on (irqc_mem_port c) e)"
    by (auto simp: irqc_step_ok_def)
next
  fix c req ctx assume "mem_access req \<in> {None, Some AccEmpty}"
  then show "\<exists>why. irqc_handle_event c (DMessage (irqc_mem_port c) (MsgMemV1 req)) ctx = component_fault why"
    by (auto simp: irqc_handle_event_def irqc_mem_port_def irqc_request_def request_first_def)
qed

subsection \<open>Devices behind the bus\<close>

lemma mem_spec_in_range:
  assumes "mem_access m = Some (AccBytes f l)" "l < sz"
  shows "\<exists>g resp. mem_spec sz h m = Some (g, resp)
    \<and> resp \<notin> {ReadResp txn (ReadFault AccessFault), WriteResp txn (WriteFault AccessFault)}"
proof (cases m)
  case (ReadReq t a n)
  with assms byte_access_order [of a "unat n" f l] have "0 < unat n" "a + unat n \<le> sz" by auto
  then show ?thesis using ReadReq by (auto simp: unat_gt_0)
next
  case (WriteReq t a d)
  with assms byte_access_order [of a "length d" f l] have "d \<noteq> []" "a + length d \<le> sz" by auto
  then show ?thesis using WriteReq by auto
qed (use assms in simp_all)

text \<open>
  C22. A RAM in a region of its size is a byte array at the region's base: a request of the initiator inside
  the region comes back through the bus as the array's answer at the offset, never a fault, the RAM
  holds the array's new bytes, and the bus is as before.
\<close>

theorem bus_serves_ram:
  assumes "ram_inv ram" "bus_inv bus" and "request_txn req = Some (txn, w)" "bt_get (ab_outstanding bus) txn = None"
    and "mem_access req = Some (AccBytes first last_byte)" and "i < length (ab_regions bus)"
    and "rg_base (ab_regions bus ! i) \<le> first" "last_byte \<le> region_last (ab_regions bus ! i)"
    and "rg_size (ab_regions bus ! i) = ram_size (ram_config ram)"
  shows "\<exists>ram' resp. through_bus ram_handle_event RAM_PORT bus ram i req = Some (bus, ram', CPU_PORT, resp)
    \<and> ram_inv ram'
    \<and> mem_spec (ram_size (ram_config ram)) (ram_byte ram) (at_offset req (first - rg_base (ab_regions bus ! i))) = Some (ram_byte ram', resp)
    \<and> resp \<notin> {ReadResp txn (ReadFault AccessFault), WriteResp txn (WriteFault AccessFault)}"
proof -
  let ?m = "at_offset req (first - rg_base (ab_regions bus ! i))"
  have acc: "mem_access ?m = Some (AccBytes (first - rg_base (ab_regions bus ! i)) (last_byte - rg_base (ab_regions bus ! i)))"
    using access_at_offset assms(5,7) .
  have "last_byte - rg_base (ab_regions bus ! i) < ram_size (ram_config ram)"
    using assms(1,7,8,9) mem_access_order [OF assms(5)] by (auto simp: region_last_def ram_inv_def)
  with acc obtain f resp where spec: "mem_spec (ram_size (ram_config ram)) (ram_byte ram) ?m = Some (f, resp)"
    and ok: "resp \<notin> {ReadResp txn (ReadFault AccessFault), WriteResp txn (WriteFault AccessFault)}"
    using mem_spec_in_range by blast
  from ram_serves [OF assms(1) quiet_ctx_accepts(1), of RAM_PORT ?m] spec obtain ram'
    where served: "ram_handle_event ram (DMessage RAM_PORT (MsgMemV1 ?m)) quiet_ctx = Ok (ram', quiet_ctx\<lparr>ctx_out :=
        [EffSend 0 (MsgMemV1 resp) (latency_when (ram_latency (ram_config ram))) PhComplete]\<rparr>)"
      and f: "ram_byte ram' = f" by auto
  from ram_t.behind_bus [OF assms(1-8)] obtain s' extra resp' w'
    where "ram_handle_event ram (DMessage RAM_PORT (MsgMemV1 ?m)) quiet_ctx =
        Ok (s', quiet_ctx\<lparr>ctx_out := extra @ [EffSend RAM_PORT (MsgMemV1 resp') w' PhComplete]\<rparr>)"
      and through: "ram_inv s'" "through_bus ram_handle_event RAM_PORT bus ram i req = Some (bus, s', CPU_PORT, resp')" by blast
  with served have "s' = ram'" "resp' = resp" by (auto simp: quiet_ctx_def)
  with through spec f ok show ?thesis by blast
qed

subsection \<open>The serial output\<close>

fun tx_bytes :: "MemMsg \<Rightarrow> u8 list" where
  "tx_bytes (WriteReq _ addr data) = (if addr = 0 \<and> length data = 1 then data else [])"
| "tx_bytes _ = []"

fun uart_answer :: "MemMsg \<Rightarrow> MemMsg" where
  "uart_answer (ReadReq txn addr len) = ReadResp txn
     (if addr = 4 \<and> len \<in> {1, 2, 4} then ReadData (take (unat len) [1, 0, 0, 0]) else ReadFault AccessFault)"
| "uart_answer (WriteReq txn addr data) = WriteResp txn
     (if addr = 0 \<and> length data = 1 then WriteDone else WriteFault AccessFault)"
| "uart_answer msg = msg"

text \<open>
  The UART's output is exactly the bytes written to TX one at a time, each appended and traced once in
  the order it was accepted; STATUS reads as ready in the three allowed widths, and every other
  request is answered with an access fault and changes nothing.
\<close>

theorem uart_serves:
  assumes "accepts_all ctx" and "mem_access req = Some a" "a \<noteq> AccEmpty"
  shows "uart_handle_event uart (DMessage port (MsgMemV1 req)) ctx =
    Ok (uart\<lparr>uart_output := uart_output uart @ tx_bytes req\<rparr>,
        ctx\<lparr>ctx_out := ctx_out ctx @ map (\<lambda>b. EffTrace TX_KIND [(''byte'', VU64 (unat b))]) (tx_bytes req)
          @ [EffSend UART_PORT (MsgMemV1 (uart_answer req)) (latency_when (uart_latency uart)) PhComplete]\<rparr>)"
proof (cases req)
  case (ReadReq txn addr len)
  have "len = 1 \<longleftrightarrow> unat len = 1" "len = 2 \<longleftrightarrow> unat len = 2" "len = 4 \<longleftrightarrow> unat len = 4"
    by (simp_all add: word_unat_eq_iff)
  with ReadReq show ?thesis
    using assms by (cases a) (auto simp: uart_handle_event_def request_first_def ctx_send_def ctx_effect_accepted status_read_def
        STATUS_def STATUS_VALUE_def u32_to_le_bytes_def byte_access_def u64_max_def split: if_splits)
next
  case (WriteReq txn addr data)
  then show ?thesis
    using assms by (cases a) (auto simp: uart_handle_event_def request_first_def ctx_send_def ctx_effect_def accepts_all_def TX_def
        byte_access_def ctx_trace_def length_Suc_conv u64_max_def split: if_splits list.splits)
qed (use assms in simp_all)

subsection \<open>Restoring device snapshots\<close>

lemma irqc_bits_masked:
  assumes "irqc_inv c"
  shows "irqc_pending c AND NOT (irqc_valid_mask c) = 0" "irqc_enable c AND NOT (irqc_valid_mask c) = 0"
  using assms bit_valid_mask [of "ic_sources (irqc_config c)"]
  by (auto simp: irqc_inv_def irqc_sources_def intro!: bit_eqI simp: bit_and_iff bit_not_iff)

lemma uart_restore_snapshot:
  "uart_latency uart\<^sub>0 = uart_latency uart \<Longrightarrow> length (uart_output uart) < 2 ^ 32 \<Longrightarrow>
     uart_restore uart\<^sub>0 (uart_snapshot uart @ rest) = Ok (uart, rest)"
  by (cases uart; cases uart\<^sub>0) (simp add: uart_restore_def uart_snapshot_def snap_bind Let_def)

lemma masked_bits:
  assumes "irqc_inv c" "bit x n" "x AND NOT (irqc_valid_mask c) = 0"
  shows "n < irqc_sources c"
proof -
  have "\<not> bit (x AND NOT (irqc_valid_mask c)) n" by (simp add: assms(3))
  with assms(2) have "bit (irqc_valid_mask c) n" by (auto simp: bit_and_iff bit_not_iff dest: bit_imp_le_length)
  then show ?thesis using assms(1) bit_valid_mask by (simp add: irqc_inv_def irqc_sources_def)
qed

lemma irqc_restore_inv:
  assumes "irqc_inv c\<^sub>0" "irqc_restore c\<^sub>0 bytes = Ok (c', rest')"
  shows "irqc_inv c'"
proof -
  obtain p e where c': "c' = c\<^sub>0\<lparr>irqc_pending := p, irqc_enable := e, irqc_line := (p AND e \<noteq> 0)\<rparr>"
    and pe: "p AND NOT (irqc_valid_mask c\<^sub>0) = 0" "e AND NOT (irqc_valid_mask c\<^sub>0) = 0"
    using assms(2) by (auto simp: irqc_restore_def Let_def rd_bind_Ok_iff split: if_splits)
  then show ?thesis
    using assms(1) masked_bits [OF assms(1)] by (auto simp: irqc_inv_def irqc_meip_def irqc_sources_def)
qed

text \<open>
  A snapshot of the interrupt controller restores it, in a controller of the same configuration and in any
  state, consuming exactly its bytes; and whatever bytes a controller accepts leave it in a state that
  satisfies its invariant, the line in agreement with the pending and enabled sources.
\<close>

theorem irqc_restore_snapshot:
  assumes "irqc_inv c" "irqc_inv c\<^sub>0" "irqc_config c\<^sub>0 = irqc_config c"
  shows "irqc_restore c\<^sub>0 (irqc_snapshot c @ rest) = Ok (c, rest)
    \<and> (\<forall>bytes c' rest'. irqc_restore c\<^sub>0 bytes = Ok (c', rest') \<longrightarrow> irqc_inv c')"
proof -
  have mask: "irqc_valid_mask c\<^sub>0 = irqc_valid_mask c" using assms by (simp add: irqc_inv_def)
  have "irqc_line c = (irqc_pending c AND irqc_enable c \<noteq> 0)" using assms(1) by (simp add: irqc_inv_def irqc_meip_def)
  moreover have "c\<^sub>0\<lparr>irqc_pending := irqc_pending c, irqc_enable := irqc_enable c, irqc_line := irqc_line c\<rparr> = c"
    using assms(3) mask by (cases c; cases c\<^sub>0) simp
  moreover have "drop 1 (irqc_write_config c\<^sub>0) = w_latency (ic_latency (irqc_config c))"
    using assms(3) by (simp add: irqc_write_config_def w_u8_def)
  ultimately have "irqc_restore c\<^sub>0 (irqc_snapshot c @ rest) = Ok (c, rest)"
    using irqc_bits_masked [OF assms(1)]
    by (simp add: irqc_restore_def irqc_snapshot_def irqc_write_config_def snap_bind Let_def assms(3) mask)
  then show ?thesis using irqc_restore_inv [OF assms(2)] by blast
qed

subsection \<open>Concrete devices\<close>

definition two_sources :: IrqControllerConfig where
  "two_sources = \<lparr>ic_sources = 2, ic_latency = LatAfter 1\<rparr>"

definition fresh_irqc :: SimpleIrqController where
  "fresh_irqc = \<lparr>irqc_config = two_sources, irqc_valid_mask = 3, irqc_pending = 0, irqc_enable = 0, irqc_line = False\<rparr>"

lemma fresh_irqc_new: "SimpleIrqController_new two_sources = Ok fresh_irqc"
  by (simp add: SimpleIrqController_new_def two_sources_def fresh_irqc_def MAX_SOURCES_def valid_mask_def push_bit_eq_mult)

lemma fresh_irqc_inv: "irqc_inv fresh_irqc"
  by (auto simp: irqc_inv_def fresh_irqc_def two_sources_def irqc_sources_def irqc_meip_def valid_mask_def push_bit_eq_mult)

text \<open>Source 1 rises while enabled, so the line rises; it falls with the source.\<close>

definition raised_irqc :: SimpleIrqController where
  "raised_irqc = fresh_irqc\<lparr>irqc_enable := 2, irqc_pending := 2, irqc_line := True\<rparr>"

lemma raised_hist:
  "irqc_hist two_sources raised_irqc
    [DMessage 3 (MsgMemV1 (WriteReq 1 4 [6, 0, 0, 0])), DMessage 1 (MsgIrq (IrqLevel True))] [True]"
proof -
  let ?ev1 = "DMessage 3 (MsgMemV1 (WriteReq 1 4 [6, 0, 0, 0]))" and ?c1 = "fresh_irqc\<lparr>irqc_enable := 2\<rparr>"
  have six: "u32_from_le_bytes [6, 0, 0, 0] = 6" by (simp add: u32_from_le_bytes_def)
  have e1: "irqc_handle_event fresh_irqc ?ev1 complete_ctx = Ok (?c1, complete_ctx\<lparr>ctx_out :=
      [EffSend 3 (MsgMemV1 (WriteResp 1 WriteDone)) (WhenAfter 1) PhComplete]\<rparr>)"
    by (simp add: irqc_handle_event_def irqc_request_def request_first_def byte_access_def u64_max_def six ENABLE_def
        update_output_def irqc_mem_port_def irqc_sources_def ctx_send_def ctx_effect_def complete_ctx_def quiet_ctx_def
        fresh_irqc_def two_sources_def)
  have h1: "irqc_hist two_sources ?c1 ([] @ [?ev1]) ([] @ levels_sent (irqc_cpu_port fresh_irqc)
      (ctx_out (complete_ctx\<lparr>ctx_out := [EffSend 3 (MsgMemV1 (WriteResp 1 WriteDone)) (WhenAfter 1) PhComplete]\<rparr>)))"
    by (rule irqc_hist.event [OF irqc_hist.start [OF fresh_irqc_new] _ e1]) (simp add: complete_ctx_def)
  have e2: "irqc_handle_event ?c1 (DMessage 1 (MsgIrq (IrqLevel True))) complete_ctx = Ok (raised_irqc, complete_ctx\<lparr>ctx_out :=
      [EffTrace LEVEL_KIND [(''source'', VU64 1), (''asserted'', VBool True)], EffTrace MEIP_KIND [(''asserted'', VBool True)],
       EffSend 2 (MsgIrq (IrqLevel True)) WhenNow PhComplete]\<rparr>)"
    by (simp add: irqc_handle_event_def update_output_def irqc_cpu_port_def irqc_sources_def ctx_send_def ctx_effect_def
        complete_ctx_def quiet_ctx_def fresh_irqc_def two_sources_def raised_irqc_def ctx_trace_def push_bit_eq_mult)
  show ?thesis
    using irqc_hist.event [OF h1 _ e2] by (simp add: complete_ctx_def irqc_cpu_port_def irqc_sources_def fresh_irqc_def two_sources_def)
qed

theorem irqc_tracks_sources_witness: "irqc_inv raised_irqc \<and> irqc_line raised_irqc"
  using irqc_tracks_sources [OF raised_hist] by fastforce

theorem irqc_restore_snapshot_witness:
  "irqc_restore raised_irqc (irqc_snapshot fresh_irqc @ []) = Ok (fresh_irqc, [])"
proof -
  have "irqc_inv (fresh_irqc\<lparr>irqc_enable := 2\<rparr>)"
    using enable_inv [OF fresh_irqc_inv, of 2] by (simp add: fresh_irqc_def irqc_meip_def)
  from pending_inv [OF this, of 1 2] have "irqc_inv raised_irqc"
    by (simp add: raised_irqc_def fresh_irqc_def irqc_meip_def irqc_sources_def two_sources_def)
  from irqc_restore_snapshot [OF fresh_irqc_inv this, of "[]"] show ?thesis by (simp add: raised_irqc_def)
qed

theorem uart_serves_witness:
  "uart_handle_event (SimpleUart_new (LatAfter 2)) (DMessage 0 (MsgMemV1 (WriteReq 9 0 [65]))) quiet_ctx =
    Ok (\<lparr>uart_latency = LatAfter 2, uart_output = [65]\<rparr>, quiet_ctx\<lparr>ctx_out :=
      [EffTrace TX_KIND [(''byte'', VU64 65)], EffSend UART_PORT (MsgMemV1 (WriteResp 9 WriteDone)) (WhenAfter 2) PhComplete]\<rparr>)"
  using uart_serves [OF quiet_ctx_accepts(1), of "WriteReq 9 0 [65]" "AccBytes 0 0" "SimpleUart_new (LatAfter 2)" 0]
  by (simp add: byte_access_def u64_max_def SimpleUart_new_def)

theorem bus_serves_ram_witness:
  "\<exists>ram' resp. through_bus ram_handle_event RAM_PORT
      \<lparr>ab_regions = [\<lparr>rg_name = ''ram'', rg_base = 0x80000000, rg_size = 8200\<rparr>], ab_outstanding = []\<rparr> tiny_ram 0
      (ReadReq 3 0x80000FFF 2) =
        Some (\<lparr>ab_regions = [\<lparr>rg_name = ''ram'', rg_base = 0x80000000, rg_size = 8200\<rparr>], ab_outstanding = []\<rparr>, ram', CPU_PORT, resp)
    \<and> ram_inv ram'"
proof -
  let ?bus = "\<lparr>ab_regions = [\<lparr>rg_name = ''ram'', rg_base = 0x80000000, rg_size = 8200\<rparr>], ab_outstanding = []\<rparr> :: AddressBus"
  have bus: "bus_inv ?bus" by (simp add: bus_inv_def regions_ok_def region_ok_def region_last_def u64_max_def)
  from bus_serves_ram [OF tiny_ram_stored(1) bus, of "ReadReq 3 0x80000FFF 2" 3 False "0x80000FFF" "0x80001000" 0]
  show ?thesis
    by (auto simp: byte_access_def u64_max_def region_last_def tiny_ram_fields tiny_ram_config_def)
qed

end
