(* ===== verification/Plat_MmBus.thy ===== *)
theory Plat_MmBus
  imports Plat_Bus Mem_Codec Rust_Fmt
begin

section \<open>The multi-master bus\<close>

text \<open>
  Models \<^verbatim>\<open>components/platform/src/mmbus.rs\<close>: several initiators, one queue per master in every region, at
  most one transaction active per region, granted round-robin under a fresh downstream \<^verbatim>\<open>TxnId\<close>. The
  helpers \<^verbatim>\<open>request_txn\<close> and \<^verbatim>\<open>at_offset\<close> of this file are those of \<^verbatim>\<open>bus.rs\<close> and taken from there. Indices of
  masters and regions are natural numbers, with the conversions to \<^verbatim>\<open>u16\<close> that may panic written out.
\<close>

definition GRANT_KIND :: string where "GRANT_KIND = ''platform.bus.grant''"
definition ARBITRATE :: u64 where "ARBITRATE = 0"

record MultiMasterBusConfig =
  mc_masters :: "string list"
  mc_regions :: "Region list"
  mc_clock :: u32

datatype MultiMasterBusConfigError =
    NoMasters
  | MmZeroSize string
  | MmWraps string
  | MmOverlap string string
  | MmDuplicateName string
  | TooManyPorts

fun MmConfigError_display :: "MultiMasterBusConfigError \<Rightarrow> string" where
  "MmConfigError_display NoMasters = ''the bus has no masters''"
| "MmConfigError_display (MmZeroSize r) = ''region '' @ r @ '' has size 0''"
| "MmConfigError_display (MmWraps r) = ''region '' @ r @ '' runs past the end of u64''"
| "MmConfigError_display (MmOverlap a b) = ''regions '' @ a @ '' and '' @ b @ '' overlap''"
| "MmConfigError_display (MmDuplicateName n) = ''two ports are named '' @ n"
| "MmConfigError_display TooManyPorts = ''too many masters and regions''"

record ActiveTxn =
  ac_master :: nat
  ac_original :: TxnId
  ac_downstream :: TxnId
  ac_write :: bool

record RegionState =
  rs_active :: "ActiveTxn option"
  rs_queues :: "MemMsg list list"
  rs_cursor :: nat

record MultiMasterBus =
  mb_config :: MultiMasterBusConfig
  mb_regions :: "RegionState list"
  mb_next :: u64

definition RegionState_idle :: "usize \<Rightarrow> RegionState" where
  "RegionState_idle masters = \<lparr>rs_active = None, rs_queues = replicate masters [], rs_cursor = 0\<rparr>"

text \<open>\<^verbatim>\<open>u16::try_from(..).expect(..)\<close>.\<close>

definition expect_u16 :: "nat \<Rightarrow> (nat, Abort) result" where
  "expect_u16 n = (if n > 65535 then Err Panic else Ok n)"

definition select_master :: "RegionState \<Rightarrow> (nat option, Abort) result" where
  "select_master s =
     (let masters = length (rs_queues s)
      in case find (\<lambda>m. rs_queues s ! m \<noteq> []) (map (\<lambda>k. (rs_cursor s + k) mod masters) [0..<masters]) of
           None \<Rightarrow> Ok None
         | Some m \<Rightarrow> result_bind (expect_u16 m) (\<lambda>m. Ok (Some m)))"

definition has_queued :: "RegionState \<Rightarrow> bool" where
  "has_queued s \<longleftrightarrow> list_ex (\<lambda>q. q \<noteq> []) (rs_queues s)"

fun with_txn :: "MemMsg \<Rightarrow> TxnId \<Rightarrow> MemMsg" where
  "with_txn (ReadReq _ addr len) txn = ReadReq txn addr len"
| "with_txn (WriteReq _ addr data) txn = WriteReq txn addr data"
| "with_txn (ReadResp _ outcome) txn = ReadResp txn outcome"
| "with_txn (WriteResp _ outcome) txn = WriteResp txn outcome"

subsection \<open>Construction\<close>

text \<open>The first name that was seen before.\<close>

fun duplicate_name :: "string set \<Rightarrow> string list \<Rightarrow> string option" where
  "duplicate_name seen [] = None"
| "duplicate_name seen (n # ns) = (if n \<in> seen then Some n else duplicate_name (insert n seen) ns)"

definition mm_overlap :: "Region \<Rightarrow> Region \<Rightarrow> MultiMasterBusConfigError option" where
  "mm_overlap region earlier =
     (if rg_base earlier \<le> region_last region \<and> rg_base region \<le> region_last earlier
      then Some (MmOverlap (rg_name earlier) (rg_name region)) else None)"

definition mm_region_check :: "Region list \<Rightarrow> usize \<times> Region \<Rightarrow> MultiMasterBusConfigError option" where
  "mm_region_check regions ir =
     (case ir of (i, region) \<Rightarrow>
        if rg_size region = 0 then Some (MmZeroSize (rg_name region))
        else if rg_base region + (rg_size region - 1) > u64_max then Some (MmWraps (rg_name region))
        else (case try_for_each (mm_overlap region) (take i regions) of Err e \<Rightarrow> Some e | Ok _ \<Rightarrow> None))"

definition MultiMasterBus_new :: "MultiMasterBusConfig \<Rightarrow> (MultiMasterBus, MultiMasterBusConfigError) result" where
  "MultiMasterBus_new config =
     (if mc_masters config = [] then Err NoMasters
      else if length (mc_masters config) + length (mc_regions config) \<ge> 65535 then Err TooManyPorts
      else case duplicate_name {} (mc_masters config @ map rg_name (mc_regions config)) of
        Some name \<Rightarrow> Err (MmDuplicateName name)
      | None \<Rightarrow>
          result_bind (try_for_each (mm_region_check (mc_regions config)) (enumerate 0 (mc_regions config)))
            (\<lambda>_. Ok \<lparr>mb_config = config,
                mb_regions = replicate (length (mc_regions config)) (RegionState_idle (length (mc_masters config))),
                mb_next = 0\<rparr>))"

definition master_port :: "MultiMasterBus \<Rightarrow> nat \<Rightarrow> (PortId, Abort) result" where
  "master_port bus index = (if index < length (mc_masters (mb_config bus)) then Ok index else Err Panic)"

definition master_count :: "MultiMasterBus \<Rightarrow> (nat, Abort) result" where
  "master_count bus = expect_u16 (length (mc_masters (mb_config bus)))"

text \<open>The sum is an addition of \<^verbatim>\<open>u16\<close>, which panics on overflow.\<close>

definition mm_region_port :: "MultiMasterBus \<Rightarrow> nat \<Rightarrow> (PortId, Abort) result" where
  "mm_region_port bus index =
     (if \<not> index < length (mc_regions (mb_config bus)) then Err Panic
      else result_bind (master_count bus) (\<lambda>masters. expect_u16 (masters + index)))"

text \<open>Indexing, which panics out of range.\<close>

definition index_at :: "'a list \<Rightarrow> nat \<Rightarrow> ('a, Abort) result" where
  "index_at xs i = (if i < length xs then Ok (xs ! i) else Err Panic)"

definition active_master :: "MultiMasterBus \<Rightarrow> nat \<Rightarrow> (nat option, Abort) result" where
  "active_master bus region = result_bind (index_at (mb_regions bus) region) (\<lambda>s. Ok (map_option ac_master (rs_active s)))"

definition mm_queued :: "MultiMasterBus \<Rightarrow> nat \<Rightarrow> nat \<Rightarrow> (usize, Abort) result" where
  "mm_queued bus region master =
     result_bind (index_at (mb_regions bus) region) (\<lambda>s.
     result_bind (index_at (rs_queues s) master) (\<lambda>q. Ok (length q)))"

definition mm_rr_cursor :: "MultiMasterBus \<Rightarrow> nat \<Rightarrow> (nat, Abort) result" where
  "mm_rr_cursor bus region = result_bind (index_at (mb_regions bus) region) (\<lambda>s. Ok (rs_cursor s))"

subsection \<open>Requests\<close>

definition mm_route :: "MultiMasterBus \<Rightarrow> u64 \<Rightarrow> u64 \<Rightarrow> (nat option, Abort) result" where
  "mm_route bus first last_byte =
     (let regions = mc_regions (mb_config bus)
      in case list_position (\<lambda>r. rg_base r \<le> first \<and> first - rg_base r < rg_size r) regions of
           None \<Rightarrow> Ok None
         | Some index \<Rightarrow> result_bind (expect_u16 index) (\<lambda>index.
             Ok (if last_byte - rg_base (regions ! index) < rg_size (regions ! index) then Some index else None)))"

definition active_is :: "RegionState \<Rightarrow> nat \<Rightarrow> TxnId \<Rightarrow> bool" where
  "active_is s master txn =
     (case rs_active s of None \<Rightarrow> False | Some a \<Rightarrow> ac_master a = master \<and> ac_original a = txn)"

definition queued_txn :: "TxnId \<Rightarrow> MemMsg \<Rightarrow> bool" where
  "queued_txn txn q = (case request_txn q of None \<Rightarrow> False | Some (t, _) \<Rightarrow> t = txn)"

fun any_live :: "RegionState list \<Rightarrow> nat \<Rightarrow> TxnId \<Rightarrow> (bool, Abort) result" where
  "any_live [] master txn = Ok False"
| "any_live (s # ss) master txn =
     (if active_is s master txn then Ok True
      else result_bind (index_at (rs_queues s) master) (\<lambda>q.
        if list_ex (queued_txn txn) q then Ok True else any_live ss master txn))"

definition is_live :: "MultiMasterBus \<Rightarrow> nat \<Rightarrow> TxnId \<Rightarrow> (bool, Abort) result" where
  "is_live bus master txn = any_live (mb_regions bus) master txn"

fun mm_fault_answer :: "MemMsg \<Rightarrow> (TxnId \<times> u64 \<times> u64 \<times> MemMsg, Abort) result" where
  "mm_fault_answer (ReadReq txn addr len) = Ok (txn, addr, unat len, ReadResp txn (ReadFault AccessFault))"
| "mm_fault_answer (WriteReq txn addr data) = Ok (txn, addr, length data, WriteResp txn (WriteFault AccessFault))"
| "mm_fault_answer _ = component_fault ''multi-master bus: response on a master port''"

definition mm_fault :: "MultiMasterBus \<Rightarrow> nat \<Rightarrow> MemMsg \<Rightarrow> SimContext \<Rightarrow> (SimContext, Abort) result" where
  "mm_fault bus master msg ctx =
     result_bind (mm_fault_answer msg) (\<lambda>(txn, addr, len, resp).
     result_bind (master_port bus master) (\<lambda>port.
     result_bind (ctx_send port (MsgMemV1 resp) WhenNow PhComplete ctx) (\<lambda>ctx.
     Ok (ctx_trace FAULT_KIND [(''txn'', VU64 txn), (''addr'', VU64 addr), (''len'', VU64 len), (''master'', VU64 master)] ctx))))"

definition push_queue :: "RegionState \<Rightarrow> nat \<Rightarrow> MemMsg \<Rightarrow> (RegionState, Abort) result" where
  "push_queue s master msg =
     result_bind (index_at (rs_queues s) master) (\<lambda>q. Ok (s\<lparr>rs_queues := (rs_queues s)[master := q @ [msg]]\<rparr>))"

definition mm_routed :: "MultiMasterBus \<Rightarrow> ByteAccess \<Rightarrow> ((nat \<times> u64) option, Abort) result" where
  "mm_routed bus access =
     (case access of
        AccEmpty \<Rightarrow> component_fault ''multi-master bus: zero-length request''
      | AccOutOfRange \<Rightarrow> Ok None
      | AccBytes first last_byte \<Rightarrow>
          result_bind (mm_route bus first last_byte) (\<lambda>i. Ok (map_option (\<lambda>i. (i, first)) i)))"

definition mm_enqueue :: "MultiMasterBus \<Rightarrow> nat \<Rightarrow> MemMsg \<Rightarrow> nat \<Rightarrow> u64 \<Rightarrow> (MultiMasterBus, Abort) result" where
  "mm_enqueue bus master msg region first =
     result_bind (index_at (mc_regions (mb_config bus)) region) (\<lambda>rg.
     result_bind (index_at (mb_regions bus) region) (\<lambda>s.
     result_bind (push_queue s master (at_offset msg (first - rg_base rg))) (\<lambda>s'.
     Ok (bus\<lparr>mb_regions := (mb_regions bus)[region := s']\<rparr>))))"

definition mm_request :: "MultiMasterBus \<Rightarrow> nat \<Rightarrow> MemMsg \<Rightarrow> SimContext \<Rightarrow> MultiMasterBus handled" where
  "mm_request bus master msg ctx =
     (case (request_txn msg, mem_access msg) of
        (Some (txn, _), Some access) \<Rightarrow>
          if ctx_phase ctx \<noteq> PhRequest then component_fault ''multi-master bus: request arrived outside REQUEST''
          else result_bind (is_live bus master txn) (\<lambda>live.
            if live then component_fault ''multi-master bus: master reuses a queued or active txn''
            else result_bind (mm_routed bus access) (\<lambda>routed. case routed of
                Some (region, first) \<Rightarrow>
                  result_bind (mm_enqueue bus master msg region first) (\<lambda>bus'.
                  result_bind (ctx_wake_self WhenNow PhTransfer ARBITRATE ctx) (\<lambda>ctx'. Ok (bus', ctx')))
              | None \<Rightarrow> result_bind (mm_fault bus master msg ctx) (\<lambda>ctx'. Ok (bus, ctx'))))
      | _ \<Rightarrow> component_fault ''multi-master bus: response on a master port'')"

subsection \<open>Arbitration\<close>

text \<open>A grant: the region's state after it, and what is sent downstream.\<close>

definition granted_state :: "RegionState \<Rightarrow> nat \<Rightarrow> nat \<Rightarrow> TxnId \<Rightarrow> bool \<Rightarrow> TxnId \<Rightarrow> MemMsg list \<Rightarrow> RegionState" where
  "granted_state s masters master original write downstream rest =
     s\<lparr>rs_queues := (rs_queues s)[master := rest],
       rs_active := Some \<lparr>ac_master = master, ac_original = original, ac_downstream = downstream, ac_write = write\<rparr>,
       rs_cursor := (master + 1) mod masters\<rparr>"

definition grant_trace :: "nat \<Rightarrow> nat \<Rightarrow> TxnId \<Rightarrow> TxnId \<Rightarrow> TraceFields" where
  "grant_trace region master original downstream =
     [(''region'', VU64 region), (''master'', VU64 master), (''txn'', VU64 original), (''downstream_txn'', VU64 downstream)]"

definition mm_grant :: "MultiMasterBus \<Rightarrow> nat \<Rightarrow> nat \<Rightarrow> SimContext \<Rightarrow> MultiMasterBus handled" where
  "mm_grant bus region master ctx =
     (let s = mb_regions bus ! region; downstream = mb_next bus
      in if downstream + 1 > u64_max then component_fault ''multi-master bus: downstream TxnId space exhausted''
         else result_bind (index_at (rs_queues s) master) (\<lambda>q.
           case q of
             [] \<Rightarrow> Err Panic
           | request # rest \<Rightarrow>
               (case request_txn request of
                  None \<Rightarrow> Err Panic
                | Some (original, write) \<Rightarrow>
                    result_bind (mm_region_port bus region) (\<lambda>port.
                    result_bind (ctx_send port (MsgMemV1 (with_txn request downstream)) WhenNow PhTransfer ctx) (\<lambda>ctx.
                    result_bind (master_count bus) (\<lambda>masters.
                    result_bind (expect_u16 (master + 1)) (\<lambda>_.
                    if masters = 0 then Err Panic
                    else Ok (bus\<lparr>mb_next := downstream + 1,
                          mb_regions := (mb_regions bus)[region := granted_state s masters master original write downstream rest]\<rparr>,
                        ctx_trace GRANT_KIND (grant_trace region master original downstream) ctx))))))))"

definition arbitrate_region :: "MultiMasterBus \<Rightarrow> nat \<Rightarrow> SimContext \<Rightarrow> MultiMasterBus handled" where
  "arbitrate_region bus index ctx =
     result_bind (expect_u16 index) (\<lambda>region.
     if rs_active (mb_regions bus ! index) \<noteq> None then Ok (bus, ctx)
     else result_bind (select_master (mb_regions bus ! index)) (\<lambda>sel. case sel of
         None \<Rightarrow> Ok (bus, ctx)
       | Some master \<Rightarrow> mm_grant bus region master ctx))"

fun arbitrate_from :: "nat list \<Rightarrow> MultiMasterBus \<Rightarrow> SimContext \<Rightarrow> MultiMasterBus handled" where
  "arbitrate_from [] bus ctx = Ok (bus, ctx)"
| "arbitrate_from (i # is) bus ctx = result_bind (arbitrate_region bus i ctx) (\<lambda>(bus, ctx). arbitrate_from is bus ctx)"

definition arbitrate :: "MultiMasterBus \<Rightarrow> SimContext \<Rightarrow> MultiMasterBus handled" where
  "arbitrate bus ctx =
     (if ctx_phase ctx \<noteq> PhTransfer then component_fault ''multi-master bus: arbitration outside TRANSFER''
      else arbitrate_from [0..<length (mb_regions bus)] bus ctx)"

subsection \<open>Responses\<close>

definition mm_response :: "MultiMasterBus \<Rightarrow> nat \<Rightarrow> MemMsg \<Rightarrow> SimContext \<Rightarrow> MultiMasterBus handled" where
  "mm_response bus region msg ctx =
     (case response_key msg of
        None \<Rightarrow> component_fault ''multi-master bus: request on a region port''
      | Some (txn, write) \<Rightarrow>
          if ctx_phase ctx \<noteq> PhComplete then component_fault ''multi-master bus: response arrived outside COMPLETE''
          else result_bind (index_at (mb_regions bus) region) (\<lambda>s.
            case rs_active s of
              None \<Rightarrow> component_fault ''multi-master bus: response does not match the region's active txn''
            | Some active \<Rightarrow>
                if ac_downstream active \<noteq> txn
                  then component_fault ''multi-master bus: response does not match the region's active txn''
                else if ac_write active \<noteq> write then component_fault ''multi-master bus: response kind mismatch''
                else
                  result_bind (master_port bus (ac_master active)) (\<lambda>port.
                  result_bind (ctx_send port (MsgMemV1 (with_txn msg (ac_original active))) WhenNow PhComplete ctx) (\<lambda>ctx.
                  let bus' = bus\<lparr>mb_regions := (mb_regions bus)[region := s\<lparr>rs_active := None\<rparr>]\<rparr>
                  in if has_queued s
                     then result_bind (ctx_wake_self (WhenCycles (unat (mc_clock (mb_config bus))) 1) PhTransfer ARBITRATE ctx)
                            (\<lambda>ctx. Ok (bus', ctx))
                     else Ok (bus', ctx)))))"

fun mm_handle_event :: "MultiMasterBus \<Rightarrow> Delivered \<Rightarrow> SimContext \<Rightarrow> MultiMasterBus handled" where
  "mm_handle_event bus (DMessage port (MsgMemV1 msg)) ctx =
     result_bind (master_count bus) (\<lambda>masters.
     if port < masters then mm_request bus port msg ctx
     else if port - masters < length (mb_regions bus) then mm_response bus (port - masters) msg ctx
     else component_fault ''multi-master bus: unknown port'')"
| "mm_handle_event bus (DMessage port (MsgMem _)) ctx =
     result_bind (master_count bus) (\<lambda>_. component_fault ''multi-master bus: mem.v0 message'')"
| "mm_handle_event bus (DMessage port (MsgIrq _)) ctx =
     result_bind (master_count bus) (\<lambda>_. component_fault ''multi-master bus: non-mem message'')"
| "mm_handle_event bus (DMessage port (MsgBlock _)) ctx =
     result_bind (master_count bus) (\<lambda>_. component_fault ''multi-master bus: non-mem message'')"
| "mm_handle_event bus (DWake token) ctx =
     result_bind (master_count bus) (\<lambda>_.
     if token = ARBITRATE then arbitrate bus ctx else component_fault ''multi-master bus: unexpected wake'')"

definition mm_init :: "MultiMasterBus \<Rightarrow> (MultiMasterBus, Abort) result" where
  "mm_init bus = Ok bus"

definition region_text :: "RegionState \<Rightarrow> string" where
  "region_text s = ''active='' @ (case rs_active s of None \<Rightarrow> ''none'' | Some a \<Rightarrow> fmt_dec (ac_master a))
     @ '' rr_cursor='' @ fmt_dec (rs_cursor s) @ '' queued='' @ join '','' (map (\<lambda>q. fmt_dec (length q)) (rs_queues s))"

definition mm_inspect :: "MultiMasterBus \<Rightarrow> TraceFields" where
  "mm_inspect bus =
     [(''masters'', VU64 (length (mc_masters (mb_config bus)))), (''regions'', VU64 (length (mc_regions (mb_config bus)))),
      (''next_downstream_txn'', VU64 (mb_next bus))]
     @ map (\<lambda>(r, s). (rg_name r, VStr (region_text s))) (zip (mc_regions (mb_config bus)) (mb_regions bus))"

subsection \<open>Snapshots\<close>

definition mm_write_config :: "MultiMasterBusConfig \<Rightarrow> u8 list" where
  "mm_write_config cfg = w_len (length (mc_regions cfg)) @ concat (map write_region (mc_regions cfg))
     @ w_len (length (mc_masters cfg)) @ concat (map w_str (mc_masters cfg)) @ w_u32 (mc_clock cfg)"

definition mm_write_active :: "ActiveTxn option \<Rightarrow> u8 list" where
  "mm_write_active active = (case active of
      None \<Rightarrow> w_u8 0
    | Some a \<Rightarrow> w_u8 1 @ w_u16 (of_nat (ac_master a)) @ w_u64 (ac_original a) @ w_u64 (ac_downstream a) @ w_bool (ac_write a))"

definition mm_write_queue :: "MemMsg list \<Rightarrow> u8 list" where
  "mm_write_queue q = w_len (length q) @ concat (map w_mem q)"

definition mm_write_region :: "RegionState \<Rightarrow> u8 list" where
  "mm_write_region s = mm_write_active (rs_active s) @ w_u16 (of_nat (rs_cursor s)) @ concat (map mm_write_queue (rs_queues s))"

definition mm_snapshot :: "MultiMasterBus \<Rightarrow> u8 list" where
  "mm_snapshot bus = mm_write_config (mb_config bus) @ w_u64 (mb_next bus) @ concat (map mm_write_region (mb_regions bus))"

definition mm_different :: "'a reader" where
  "mm_different = invalid ''multi-master bus: snapshot was taken with a different configuration''"

fun mm_read_regions :: "Region list \<Rightarrow> unit reader" where
  "mm_read_regions [] = rd_return ()"
| "mm_read_regions (r # rs) =
     rd_bind r_str (\<lambda>name. if name \<noteq> rg_name r then mm_different else
     rd_bind r_u64 (\<lambda>base. if base \<noteq> rg_base r then mm_different else
     rd_bind r_u64 (\<lambda>sz. if sz \<noteq> rg_size r then mm_different else mm_read_regions rs)))"

fun mm_read_masters :: "string list \<Rightarrow> unit reader" where
  "mm_read_masters [] = rd_return ()"
| "mm_read_masters (m # ms) = rd_bind r_str (\<lambda>name. if name \<noteq> m then mm_different else mm_read_masters ms)"

definition mm_read_config :: "MultiMasterBusConfig \<Rightarrow> unit reader" where
  "mm_read_config cfg =
     rd_bind r_len (\<lambda>n. if n \<noteq> length (mc_regions cfg) then mm_different else
     rd_bind (mm_read_regions (mc_regions cfg)) (\<lambda>_.
     rd_bind r_len (\<lambda>n. if n \<noteq> length (mc_masters cfg) then mm_different else
     rd_bind (mm_read_masters (mc_masters cfg)) (\<lambda>_.
     rd_bind r_u32 (\<lambda>clock. if clock \<noteq> mc_clock cfg then mm_different else rd_return ())))))"

definition mm_read_active :: "nat \<Rightarrow> u64 \<Rightarrow> ActiveTxn option reader" where
  "mm_read_active masters nxt =
     rd_bind r_u8 (\<lambda>tag.
     if tag = 0 then rd_return None
     else if tag = 1 then
       rd_bind r_u16 (\<lambda>master. rd_bind r_u64 (\<lambda>original. rd_bind r_u64 (\<lambda>downstream. rd_bind r_bool (\<lambda>write.
       if unat master \<ge> masters then invalid ''multi-master bus: active txn of an unknown master''
       else if downstream \<ge> nxt then invalid ''multi-master bus: active downstream txn not yet allocated''
       else rd_return (Some \<lparr>ac_master = unat master, ac_original = original, ac_downstream = downstream, ac_write = write\<rparr>)))))
     else mem_bad_tag ''multi-master bus active txn'')"

definition mm_read_queued :: "u64 \<Rightarrow> MemMsg reader" where
  "mm_read_queued sz =
     rd_bind r_mem (\<lambda>msg. case mem_access msg of
       None \<Rightarrow> invalid ''multi-master bus: queued message is a response''
     | Some AccEmpty \<Rightarrow> invalid ''multi-master bus: queued request is zero-length''
     | Some (AccBytes first last_byte) \<Rightarrow>
         if last_byte < sz then rd_return msg else invalid ''multi-master bus: queued request outside its region''
     | Some AccOutOfRange \<Rightarrow> invalid ''multi-master bus: queued request outside its region'')"

definition mm_read_region :: "nat \<Rightarrow> u64 \<Rightarrow> Region \<Rightarrow> RegionState reader" where
  "mm_read_region masters nxt region =
     rd_bind (mm_read_active masters nxt) (\<lambda>active.
     rd_bind r_u16 (\<lambda>cursor.
     if unat cursor \<ge> masters then invalid ''multi-master bus: cursor past the last master'' else
     rd_bind (r_many masters (rd_bind r_len (\<lambda>n. r_many n (mm_read_queued (rg_size region))))) (\<lambda>queues.
     rd_return \<lparr>rs_active = active, rs_queues = queues, rs_cursor = unat cursor\<rparr>)))"

fun mm_read_all :: "nat \<Rightarrow> u64 \<Rightarrow> Region list \<Rightarrow> RegionState list reader" where
  "mm_read_all masters nxt [] = rd_return []"
| "mm_read_all masters nxt (r # rs) =
     rd_bind (mm_read_region masters nxt r) (\<lambda>s. rd_bind (mm_read_all masters nxt rs) (\<lambda>ss. rd_return (s # ss)))"

definition live_twice :: RestoreError where
  "live_twice = InvalidState ''multi-master bus: a (master, txn) is live twice''"

text \<open>The two sets restore fills: the live transactions and the downstream ones.\<close>

fun insert_queue :: "nat \<Rightarrow> MemMsg list \<Rightarrow> (nat \<times> TxnId) set \<Rightarrow> ((nat \<times> TxnId) set, RestoreError) result" where
  "insert_queue master [] seen = Ok seen"
| "insert_queue master (req # reqs) seen =
     (case request_txn req of
        None \<Rightarrow> Err RestorePanic
      | Some (txn, _) \<Rightarrow> if (master, txn) \<in> seen then Err live_twice else insert_queue master reqs (insert (master, txn) seen))"

fun insert_queues :: "(nat \<times> MemMsg list) list \<Rightarrow> (nat \<times> TxnId) set \<Rightarrow> ((nat \<times> TxnId) set, RestoreError) result" where
  "insert_queues [] seen = Ok seen"
| "insert_queues ((master, q) # qs) seen =
     (if master > 65535 then Err RestorePanic
      else result_bind (insert_queue master q seen) (insert_queues qs))"

definition insert_active :: "ActiveTxn option \<Rightarrow> (nat \<times> TxnId) set \<Rightarrow> TxnId set \<Rightarrow> ((nat \<times> TxnId) set \<times> TxnId set, RestoreError) result" where
  "insert_active active seen down = (case active of
      None \<Rightarrow> Ok (seen, down)
    | Some a \<Rightarrow>
        if (ac_master a, ac_original a) \<in> seen then Err live_twice
        else if ac_downstream a \<in> down then Err (InvalidState ''multi-master bus: two regions share a downstream txn'')
        else Ok (insert (ac_master a, ac_original a) seen, insert (ac_downstream a) down))"

fun check_live :: "RegionState list \<Rightarrow> (nat \<times> TxnId) set \<Rightarrow> TxnId set \<Rightarrow> (unit, RestoreError) result" where
  "check_live [] seen down = Ok ()"
| "check_live (s # ss) seen down =
     result_bind (insert_active (rs_active s) seen down) (\<lambda>(seen, down).
     result_bind (insert_queues (enumerate 0 (rs_queues s)) seen) (\<lambda>seen. check_live ss seen down))"

definition mm_restore :: "MultiMasterBus \<Rightarrow> MultiMasterBus reader" where
  "mm_restore bus =
     rd_bind (mm_read_config (mb_config bus)) (\<lambda>_.
     rd_bind r_u64 (\<lambda>nxt.
     rd_bind (mm_read_all (length (mc_masters (mb_config bus))) nxt (mc_regions (mb_config bus))) (\<lambda>regions.
     case check_live regions {} {} of
       Err e \<Rightarrow> rd_fail e
     | Ok _ \<Rightarrow> rd_return (bus\<lparr>mb_regions := regions, mb_next := nxt\<rparr>))))"

end
