(* ===== verification/Plat_MmBusInv.thy ===== *)
theory Plat_MmBusInv
  imports Plat_MmBus
begin

section \<open>What the multi-master bus guarantees\<close>

text \<open>
  The invariant of the bus and its preservation, its histories (every request answered once, queues
  served in order), the fairness of the arbitration, the independence of the order of deliveries, and
  the restore of a snapshot.
\<close>

subsection \<open>The invariant\<close>

text \<open>
  The transactions the bus holds, as (master, \<^verbatim>\<open>txn\<close>, write): those queued and the active one of each
  region. The invariant keeps them apart, keeps every queued request inside its region, and bounds
  every index, so that no conversion and no index of the code can panic.
\<close>

definition live_key :: "nat \<Rightarrow> MemMsg \<Rightarrow> (nat \<times> TxnId \<times> bool) list" where
  "live_key m q = (case request_txn q of None \<Rightarrow> [] | Some (t, w) \<Rightarrow> [(m, t, w)])"

definition queue_live :: "MemMsg list list \<Rightarrow> (nat \<times> TxnId \<times> bool) list" where
  "queue_live qs = concat (map (\<lambda>(m, q). concat (map (live_key m) q)) (enumerate 0 qs))"

definition active_live :: "RegionState \<Rightarrow> (nat \<times> TxnId \<times> bool) list" where
  "active_live s = (case rs_active s of None \<Rightarrow> [] | Some a \<Rightarrow> [(ac_master a, ac_original a, ac_write a)])"

definition region_live :: "RegionState \<Rightarrow> (nat \<times> TxnId \<times> bool) list" where
  "region_live s = active_live s @ queue_live (rs_queues s)"

definition live :: "MultiMasterBus \<Rightarrow> (nat \<times> TxnId \<times> bool) list" where
  "live bus = concat (map region_live (mb_regions bus))"

definition txn_key :: "nat \<times> TxnId \<times> bool \<Rightarrow> nat \<times> TxnId" where
  "txn_key k = (fst k, fst (snd k))"

definition active_downstream :: "RegionState \<Rightarrow> TxnId list" where
  "active_downstream s = (case rs_active s of None \<Rightarrow> [] | Some a \<Rightarrow> [ac_downstream a])"

definition downstreams :: "MultiMasterBus \<Rightarrow> TxnId list" where
  "downstreams bus = concat (map active_downstream (mb_regions bus))"

definition bytes_apart :: "Region \<Rightarrow> Region \<Rightarrow> bool" where
  "bytes_apart a b \<longleftrightarrow> \<not> (\<exists>x. region_holds a x \<and> region_holds b x)"

definition mm_region_ok :: "Region \<Rightarrow> bool" where
  "mm_region_ok r \<longleftrightarrow> 0 < rg_size r \<and> region_last r \<le> u64_max"

definition mm_config_ok :: "MultiMasterBusConfig \<Rightarrow> bool" where
  "mm_config_ok cfg \<longleftrightarrow> mc_masters cfg \<noteq> [] \<and> length (mc_masters cfg) + length (mc_regions cfg) < 65535
     \<and> distinct (mc_masters cfg @ map rg_name (mc_regions cfg))
     \<and> list_all mm_region_ok (mc_regions cfg) \<and> sorted_wrt bytes_apart (mc_regions cfg)"

definition queued_ok :: "u64 \<Rightarrow> MemMsg \<Rightarrow> bool" where
  "queued_ok sz msg = (case mem_access msg of Some (AccBytes _ l) \<Rightarrow> l < sz | _ \<Rightarrow> False)"

definition active_ok :: "nat \<Rightarrow> u64 \<Rightarrow> RegionState \<Rightarrow> bool" where
  "active_ok masters nxt s = (case rs_active s of None \<Rightarrow> True | Some a \<Rightarrow> ac_master a < masters \<and> ac_downstream a < nxt)"

definition region_inv :: "nat \<Rightarrow> u64 \<Rightarrow> Region \<Rightarrow> RegionState \<Rightarrow> bool" where
  "region_inv masters nxt rg s \<longleftrightarrow> length (rs_queues s) = masters \<and> rs_cursor s < masters \<and> active_ok masters nxt s
     \<and> list_all (list_all (queued_ok (rg_size rg))) (rs_queues s)"

definition mm_inv :: "MultiMasterBus \<Rightarrow> bool" where
  "mm_inv bus \<longleftrightarrow> mm_config_ok (mb_config bus)
     \<and> list_all2 (region_inv (length (mc_masters (mb_config bus))) (mb_next bus)) (mc_regions (mb_config bus)) (mb_regions bus)
     \<and> mb_next bus \<le> u64_max \<and> distinct (map txn_key (live bus)) \<and> distinct (downstreams bus)"

subsection \<open>Lists updated at one place\<close>

lemma mset_concat_update:
  assumes "i < length xs"
  shows "mset (concat (map f (xs[i := v]))) + mset (f (xs ! i)) = mset (concat (map f xs)) + mset (f v)"
proof -
  have "mset (concat (map f xs)) = mset (concat (map f (take i xs @ xs ! i # drop (Suc i) xs)))"
    using assms by (simp add: id_take_nth_drop [symmetric])
  then show ?thesis using assms by (simp add: upd_conv_take_nth_drop)
qed

lemma mset_concat_enumerate_update:
  assumes "i < length xs"
  shows "mset (concat (map f (enumerate 0 (xs[i := v])))) + mset (f (i, xs ! i)) =
    mset (concat (map f (enumerate 0 xs))) + mset (f (i, v))"
proof -
  have "enumerate 0 (xs[i := v]) = (enumerate 0 xs)[i := (i, v)]"
    using assms by (intro nth_equalityI) (auto simp: nth_enumerate_eq nth_list_update)
  then show ?thesis
    using mset_concat_update [of i "enumerate 0 xs" f "(i, v)"] assms by (simp add: nth_enumerate_eq)
qed

lemma list_all2_update:
  "list_all2 P xs ys \<Longrightarrow> i < length ys \<Longrightarrow> P (xs ! i) y \<Longrightarrow> list_all2 P xs (ys[i := y])"
  by (auto simp: list_all2_conv_all_nth nth_list_update)

subsection \<open>Construction and routing\<close>

lemma duplicate_name_None: "duplicate_name seen ns = None \<longleftrightarrow> distinct ns \<and> set ns \<inter> seen = {}"
  by (induction ns arbitrary: seen) auto

lemma mm_region_check_None:
  "mm_region_check rs (i, r) = None \<longleftrightarrow> mm_region_ok r \<and> (\<forall>e\<in>set (take i rs). mm_overlap r e = None)"
  by (auto simp: mm_region_check_def mm_region_ok_def region_last_def first_error_None)

lemma mm_region_checks:
  "(\<forall>x\<in>set (enumerate 0 rs). mm_region_check rs x = None) \<longleftrightarrow> list_all mm_region_ok rs \<and> sorted_wrt bytes_apart rs"
proof -
  have earlier: "mm_overlap r e = None \<longleftrightarrow> bytes_apart e r" if "mm_region_ok r" "mm_region_ok e" for r e
    using overlap_iff [of e r] that by (auto simp: mm_overlap_def bytes_apart_def mm_region_ok_def)
  have prefix: "(\<forall>e\<in>set (take i rs). Q e) \<longleftrightarrow> (\<forall>j<i. Q (rs ! j))" if "i < length rs" for i Q
    using that by (simp add: all_set_conv_all_nth)
  have "(\<forall>x\<in>set (enumerate 0 rs). mm_region_check rs x = None) \<longleftrightarrow>
      (\<forall>i<length rs. mm_region_ok (rs ! i) \<and> (\<forall>j<i. mm_overlap (rs ! i) (rs ! j) = None))"
    by (simp add: all_set_conv_all_nth [of "enumerate 0 rs"] nth_enumerate_eq mm_region_check_None prefix cong: conj_cong)
  also have "\<dots> \<longleftrightarrow> (\<forall>i<length rs. mm_region_ok (rs ! i)) \<and> (\<forall>i<length rs. \<forall>j<i. bytes_apart (rs ! j) (rs ! i))"
    using earlier by (meson less_trans)
  finally show ?thesis by (auto simp: list_all_length sorted_wrt_iff_nth_less)
qed

lemma MultiMasterBus_new_iff:
  "MultiMasterBus_new cfg = Ok bus \<longleftrightarrow> mm_config_ok cfg \<and>
     bus = \<lparr>mb_config = cfg, mb_regions = replicate (length (mc_regions cfg)) (RegionState_idle (length (mc_masters cfg))), mb_next = 0\<rparr>"
  using mm_region_checks [of "mc_regions cfg"] duplicate_name_None [of "{}" "mc_masters cfg @ map rg_name (mc_regions cfg)"]
  by (cases "duplicate_name {} (mc_masters cfg @ map rg_name (mc_regions cfg))")
    (auto simp: MultiMasterBus_new_def mm_config_ok_def not_le)

lemma idle_live [simp]: "region_live (RegionState_idle n) = []" "active_downstream (RegionState_idle n) = []"
  by (auto simp: region_live_def active_live_def active_downstream_def RegionState_idle_def queue_live_def
      in_set_enumerate_eq)

lemma idle_inv: "0 < n \<Longrightarrow> region_inv n nxt rg (RegionState_idle n)"
  by (simp add: region_inv_def active_ok_def RegionState_idle_def list_all_iff)

lemma concat_replicate_Nil: "f x = [] \<Longrightarrow> concat (map f (replicate n x)) = []"
  by (induction n) simp_all

lemma mm_inv_new: "MultiMasterBus_new cfg = Ok bus \<Longrightarrow> mm_inv bus"
  by (auto simp: MultiMasterBus_new_iff mm_inv_def live_def downstreams_def list_all2_conv_all_nth mm_config_ok_def
      concat_replicate_Nil simp del: map_replicate intro!: idle_inv)

text \<open>Routing finds the region that holds every byte of the access, if one does.\<close>

definition region_of :: "MultiMasterBusConfig \<Rightarrow> u64 \<Rightarrow> u64 \<Rightarrow> nat option" where
  "region_of cfg f l = list_position (\<lambda>r. rg_base r \<le> f \<and> l \<le> region_last r) (mc_regions cfg)"

lemma mm_position:
  assumes "mm_config_ok cfg" "i < length (mc_regions cfg)" "j < length (mc_regions cfg)"
    and "region_holds (mc_regions cfg ! i) a" "region_holds (mc_regions cfg ! j) a"
  shows "i = j"
proof (rule ccontr)
  assume "i \<noteq> j"
  then consider "i < j" | "j < i" by linarith
  then show False
    using assms by cases (auto simp: mm_config_ok_def sorted_wrt_iff_nth_less bytes_apart_def)
qed

lemma mm_route_is:
  assumes ok: "mm_config_ok (mb_config bus)" and le: "f \<le> l"
  shows "mm_route bus f l = Ok (region_of (mb_config bus) f l)"
proof -
  define rs where "rs = mc_regions (mb_config bus)"
  have few: "length rs < 65535" using ok by (simp add: mm_config_ok_def rs_def)
  have size: "0 < rg_size (rs ! i)" if "i < length rs" for i
    using ok that by (simp add: mm_config_ok_def list_all_length mm_region_ok_def rs_def)
  have in_iff: "f - rg_base (rs ! i) < rg_size (rs ! i) \<longleftrightarrow> f \<le> region_last (rs ! i)"
    "l - rg_base (rs ! i) < rg_size (rs ! i) \<longleftrightarrow> l \<le> region_last (rs ! i)"
    if "i < length rs" "rg_base (rs ! i) \<le> f" for i
    using size [OF that(1)] that(2) le by (auto simp: region_last_def)
  show ?thesis
  proof (cases "list_position (\<lambda>r. rg_base r \<le> f \<and> f - rg_base r < rg_size r) rs")
    case None
    then have "\<not> (rg_base (rs ! i) \<le> f \<and> l \<le> region_last (rs ! i))" if "i < length rs" for i
      using that in_iff [of i] le by (auto simp: list_position_None all_set_conv_all_nth)
    then have "region_of (mb_config bus) f l = None"
      by (auto simp: region_of_def rs_def [symmetric] list_position_None all_set_conv_all_nth)
    with None show ?thesis by (simp add: mm_route_def rs_def Let_def)
  next
    case (Some i)
    then have i: "i < length rs" "rg_base (rs ! i) \<le> f" "f \<le> region_last (rs ! i)"
      using in_iff by (auto simp: list_position_Some)
    have only: "j = i" if "j < length rs" "rg_base (rs ! j) \<le> f" "l \<le> region_last (rs ! j)" for j
      using mm_position [OF ok, of j i f] that i le by (auto simp: region_holds_def rs_def)
    have "region_of (mb_config bus) f l = (if l \<le> region_last (rs ! i) then Some i else None)"
    proof (cases "l \<le> region_last (rs ! i)")
      case True
      have "\<not> (rg_base (rs ! j) \<le> f \<and> l \<le> region_last (rs ! j))" if "j < i" for j
        using only [of j] that i(1) by auto
      with True i have "region_of (mb_config bus) f l = Some i"
        by (simp add: region_of_def rs_def [symmetric] list_position_Some)
      with True show ?thesis by simp
    next
      case False
      then have "\<not> (rg_base (rs ! j) \<le> f \<and> l \<le> region_last (rs ! j))" if "j < length rs" for j
        using only [OF that] by auto
      with False show ?thesis
        by (auto simp: region_of_def rs_def [symmetric] list_position_None all_set_conv_all_nth)
    qed
    with Some i few in_iff(2) [OF i(1,2)] show ?thesis
      by (simp add: mm_route_def rs_def [symmetric] Let_def expect_u16_def)
  qed
qed

subsection \<open>What each handler does\<close>

lemma expect_u16_Ok [simp]: "expect_u16 n = Ok m \<longleftrightarrow> n \<le> 65535 \<and> m = n"
  by (auto simp: expect_u16_def)

lemma index_at_Ok [simp]: "index_at xs i = Ok x \<longleftrightarrow> i < length xs \<and> x = xs ! i"
  by (auto simp: index_at_def)

lemma mm_inv_regions:
  assumes "mm_inv bus"
  shows "length (mb_regions bus) = length (mc_regions (mb_config bus))"
    and "i < length (mb_regions bus) \<Longrightarrow>
      region_inv (length (mc_masters (mb_config bus))) (mb_next bus) (mc_regions (mb_config bus) ! i) (mb_regions bus ! i)"
    and "length (mc_masters (mb_config bus)) \<le> 65535" "0 < length (mc_masters (mb_config bus))"
    and "length (mc_masters (mb_config bus)) + length (mc_regions (mb_config bus)) < 65535"
  using assms by (auto simp: mm_inv_def mm_config_ok_def list_all2_conv_all_nth)

lemma mm_inv_queues:
  "mm_inv bus \<Longrightarrow> s \<in> set (mb_regions bus) \<Longrightarrow> length (rs_queues s) = length (mc_masters (mb_config bus))"
  using mm_inv_regions(2) by (fastforce simp: in_set_conv_nth region_inv_def)

lemma queued_request:
  assumes "queued_ok sz msg" shows "\<exists>t w. request_txn msg = Some (t, w)"
  using assms by (cases msg) (auto simp: queued_ok_def)

lemma queue_live_iff:
  "(m, t, w) \<in> set (queue_live qs) \<longleftrightarrow> m < length qs \<and> (\<exists>q\<in>set (qs ! m). request_txn q = Some (t, w))"
proof -
  have "(m, t, w) \<in> set (live_key m' q) \<longleftrightarrow> m' = m \<and> request_txn q = Some (t, w)" for m' q
    by (auto simp: live_key_def split: option.splits prod.splits)
  then show ?thesis
    by (auto simp: queue_live_def in_set_enumerate_eq intro!: bexI [of _ "(m, qs ! m)"])
qed

lemma queued_txn_iff: "queued_txn txn q \<longleftrightarrow> (\<exists>w. request_txn q = Some (txn, w))"
  by (auto simp: queued_txn_def split: option.splits)

lemma any_live_is:
  "\<forall>s\<in>set ss. master < length (rs_queues s) \<Longrightarrow>
     any_live ss master txn = Ok (\<exists>w. (master, txn, w) \<in> set (concat (map region_live ss)))"
proof (induction ss)
  case (Cons s ss)
  have "active_is s master txn \<longleftrightarrow> (\<exists>w. (master, txn, w) \<in> set (active_live s))"
    by (auto simp: active_is_def active_live_def split: option.splits)
  moreover have "list_ex (queued_txn txn) (rs_queues s ! master) \<longleftrightarrow> (\<exists>w. (master, txn, w) \<in> set (queue_live (rs_queues s)))"
    using Cons.prems by (auto simp: list_ex_iff queued_txn_iff queue_live_iff)
  ultimately show ?case using Cons by (auto simp: region_live_def index_at_def)
qed simp

lemma is_live_is:
  assumes "mm_inv bus" "master < length (mc_masters (mb_config bus))"
  shows "is_live bus master txn = Ok ((master, txn) \<in> txn_key ` set (live bus))"
proof -
  have "is_live bus master txn = Ok (\<exists>w. (master, txn, w) \<in> set (live bus))"
    unfolding is_live_def live_def using assms mm_inv_queues by (intro any_live_is) auto
  moreover have "(\<exists>w. (master, txn, w) \<in> set (live bus)) \<longleftrightarrow> (master, txn) \<in> txn_key ` set (live bus)"
    by (force simp: txn_key_def)
  ultimately show ?thesis by simp
qed

text \<open>The routing of a request, as a function of the configuration.\<close>

definition target_of :: "MultiMasterBusConfig \<Rightarrow> MemMsg \<Rightarrow> (nat \<times> u64) option" where
  "target_of cfg msg = (case mem_access msg of
      Some (AccBytes f l) \<Rightarrow> map_option (\<lambda>i. (i, f)) (region_of cfg f l) | _ \<Rightarrow> None)"

lemma mm_routed_is:
  assumes "mm_config_ok (mb_config bus)" "mem_access msg = Some acc" "acc \<noteq> AccEmpty"
  shows "mm_routed bus acc = Ok (target_of (mb_config bus) msg)"
proof (cases acc)
  case (AccBytes f l)
  then show ?thesis
    using assms mem_access_order [of msg f l] by (simp add: mm_routed_def target_of_def mm_route_is)
qed (use assms in \<open>simp_all add: mm_routed_def target_of_def\<close>)

lemma target_in_region:
  assumes "mm_config_ok cfg" "target_of cfg msg = Some (i, f)"
  shows "i < length (mc_regions cfg)" "queued_ok (rg_size (mc_regions cfg ! i)) (at_offset msg (f - rg_base (mc_regions cfg ! i)))"
proof -
  obtain l where l: "mem_access msg = Some (AccBytes f l)" "region_of cfg f l = Some i"
    using assms(2) by (auto simp: target_of_def split: option.splits ByteAccess.splits)
  then have i: "i < length (mc_regions cfg)" "rg_base (mc_regions cfg ! i) \<le> f" "l \<le> region_last (mc_regions cfg ! i)"
    by (auto simp: region_of_def list_position_Some)
  then show "i < length (mc_regions cfg)" by simp
  have "0 < rg_size (mc_regions cfg ! i)"
    using assms(1) i(1) by (simp add: mm_config_ok_def list_all_length mm_region_ok_def)
  with l i show "queued_ok (rg_size (mc_regions cfg ! i)) (at_offset msg (f - rg_base (mc_regions cfg ! i)))"
    by (cases msg) (auto simp: queued_ok_def byte_access_def region_last_def u64_max_def split: if_splits)
qed

definition enqueued :: "MultiMasterBus \<Rightarrow> nat \<Rightarrow> nat \<Rightarrow> MemMsg \<Rightarrow> MultiMasterBus" where
  "enqueued bus r m msg = bus\<lparr>mb_regions := (mb_regions bus)[r :=
     (mb_regions bus ! r)\<lparr>rs_queues := (rs_queues (mb_regions bus ! r))[m := rs_queues (mb_regions bus ! r) ! m @ [msg]]\<rparr>]\<rparr>"

text \<open>A request is refused with a fault of the session, answered with an access fault, or queued.\<close>

lemma mm_request_cases:
  assumes inv: "mm_inv bus" and m: "m < length (mc_masters (mb_config bus))"
  shows "mm_request bus m msg ctx =
    (case request_txn msg of
       None \<Rightarrow> component_fault ''multi-master bus: response on a master port''
     | Some (t, w) \<Rightarrow>
         if ctx_phase ctx \<noteq> PhRequest then component_fault ''multi-master bus: request arrived outside REQUEST''
         else if (m, t) \<in> txn_key ` set (live bus) then component_fault ''multi-master bus: master reuses a queued or active txn''
         else if mem_access msg = Some AccEmpty then component_fault ''multi-master bus: zero-length request''
         else (case target_of (mb_config bus) msg of
             Some (r, f) \<Rightarrow> result_bind (ctx_wake_self WhenNow PhTransfer ARBITRATE ctx)
               (\<lambda>ctx'. Ok (enqueued bus r m (at_offset msg (f - rg_base (mc_regions (mb_config bus) ! r))), ctx'))
           | None \<Rightarrow> result_bind (mm_fault bus m msg ctx) (\<lambda>ctx'. Ok (bus, ctx'))))"
proof (cases "request_txn msg")
  case None
  then show ?thesis by (simp add: mm_request_def)
next
  case (Some tw)
  obtain t w where tw: "tw = (t, w)" by fastforce
  obtain acc where acc: "mem_access msg = Some acc" using Some by (cases msg) auto
  have ok: "mm_config_ok (mb_config bus)" using inv by (simp add: mm_inv_def)
  show ?thesis
  proof (cases "acc = AccEmpty")
    case True
    with Some tw acc show ?thesis
      by (simp add: mm_request_def is_live_is [OF inv m] mm_routed_def)
  next
    case False
    have enq: "mm_enqueue bus m msg r f = Ok (enqueued bus r m (at_offset msg (f - rg_base (mc_regions (mb_config bus) ! r))))"
      if "target_of (mb_config bus) msg = Some (r, f)" for r f
    proof -
      have r: "r < length (mb_regions bus)" using target_in_region(1) [OF ok that] mm_inv_regions(1) [OF inv] by simp
      then have "m < length (rs_queues (mb_regions bus ! r))" using mm_inv_queues [OF inv nth_mem] m by simp
      with r show ?thesis
        using mm_inv_regions(1) [OF inv] by (simp add: mm_enqueue_def index_at_def push_queue_def enqueued_def)
    qed
    from Some tw acc False show ?thesis
      by (auto simp: mm_request_def is_live_is [OF inv m] mm_routed_is [OF ok acc] enq split: option.split)
  qed
qed

subsection \<open>Round robin\<close>

text \<open>How many masters the scan passes from cursor \<open>c\<close> before it reaches \<open>m\<close>.\<close>

definition rr_distance :: "nat \<Rightarrow> nat \<Rightarrow> nat \<Rightarrow> nat" where
  "rr_distance n c m = (m + n - c) mod n"

lemma rr_distance_at: "c < n \<Longrightarrow> k < n \<Longrightarrow> rr_distance n c ((c + k) mod n) = k"
  by (cases "c + k < n") (auto simp: rr_distance_def mod_if)

lemma rr_distance_less: "0 < n \<Longrightarrow> rr_distance n c m < n"
  by (simp add: rr_distance_def)

lemma at_rr_distance: "c < n \<Longrightarrow> m < n \<Longrightarrow> (c + rr_distance n c m) mod n = m"
  by (cases "c \<le> m") (auto simp: rr_distance_def mod_if)

lemma rr_distance_next:
  assumes "c < n" "m < n" "k < rr_distance n c m"
  shows "rr_distance n (((c + k) mod n + 1) mod n) m + k + 1 = rr_distance n c m"
proof -
  define d where "d = rr_distance n c m"
  have d: "d < n" "m = (c + d) mod n" using assms rr_distance_less [of n c m] at_rr_distance [of c n m] by (auto simp: d_def)
  have c': "((c + k) mod n + 1) mod n = (c + k + 1) mod n" by (simp add: mod_simps)
  have "((c + k + 1) mod n + (d - k - 1)) mod n = (c + k + 1 + (d - k - 1)) mod n" by (rule mod_add_left_eq)
  also have "c + k + 1 + (d - k - 1) = c + d" using assms(3) by (simp add: d_def)
  also have "(c + d) mod n = m" using d(2) by simp
  finally have "rr_distance n ((c + k + 1) mod n) m = d - k - 1"
    using rr_distance_at [of "(c + k + 1) mod n" n "d - k - 1"] d(1) by simp
  with c' assms(3) show ?thesis by (simp add: d_def)
qed

lemma select_master_is:
  assumes "length (rs_queues s) = n" "rs_cursor s < n" "n \<le> 65535"
  shows "select_master s = Ok None \<and> \<not> has_queued s \<or>
    (\<exists>m. select_master s = Ok (Some m) \<and> m < n \<and> rs_queues s ! m \<noteq> []
       \<and> (\<forall>k<rr_distance n (rs_cursor s) m. rs_queues s ! ((rs_cursor s + k) mod n) = []))"
proof (cases "find (\<lambda>m. rs_queues s ! m \<noteq> []) (map (\<lambda>k. (rs_cursor s + k) mod n) [0..<n])")
  case None
  then have empty: "rs_queues s ! ((rs_cursor s + k) mod n) = []" if "k < n" for k
    using that by (auto simp: find_None_iff)
  have "rs_queues s ! m = []" if "m < n" for m
    using empty [OF rr_distance_less [of n "rs_cursor s" m]] that at_rr_distance [OF assms(2) that] by simp
  then have "\<not> has_queued s" using assms(1) by (auto simp: has_queued_def list_ex_length)
  with None assms(1) show ?thesis by (simp add: select_master_def Let_def)
next
  case (Some m)
  then obtain k where k: "k < n" "rs_queues s ! m \<noteq> []" "m = (rs_cursor s + k) mod n"
    "\<forall>j<k. rs_queues s ! ((rs_cursor s + j) mod n) = []"
    by (auto simp: find_Some_iff)
  have "rr_distance n (rs_cursor s) m = k" using rr_distance_at [OF assms(2) k(1)] k(3) by simp
  moreover have "m < n" using assms(2) k(3) by simp
  moreover have "select_master s = Ok (Some m)"
    using Some \<open>m < n\<close> assms(1,3) by (simp add: select_master_def Let_def expect_u16_def)
  ultimately show ?thesis using k by blast
qed

subsection \<open>Grants and responses\<close>

lemma mset_live_update:
  "r < length (mb_regions bus) \<Longrightarrow>
     mset (live (bus\<lparr>mb_regions := (mb_regions bus)[r := s]\<rparr>)) + mset (region_live (mb_regions bus ! r)) =
     mset (live bus) + mset (region_live s)"
  by (simp add: live_def mset_concat_update)

lemma mset_queue_update:
  "m < length qs \<Longrightarrow> mset (queue_live (qs[m := q])) + mset (concat (map (live_key m) (qs ! m))) =
     mset (queue_live qs) + mset (concat (map (live_key m) q))"
  using mset_concat_enumerate_update [of m qs "\<lambda>(m, q). concat (map (live_key m) q)" q] by (simp add: queue_live_def)

lemma live_next [simp]: "live (bus\<lparr>mb_next := n\<rparr>) = live bus" "downstreams (bus\<lparr>mb_next := n\<rparr>) = downstreams bus"
  by (simp_all add: live_def downstreams_def)

lemma live_enqueued:
  assumes "r < length (mb_regions bus)" "m < length (rs_queues (mb_regions bus ! r))" "request_txn msg = Some (t, w)"
  shows "mset (live (enqueued bus r m msg)) = add_mset (m, t, w) (mset (live bus))"
    "downstreams (enqueued bus r m msg) = downstreams bus"
proof -
  let ?s = "mb_regions bus ! r"
  have "mset (queue_live ((rs_queues ?s)[m := rs_queues ?s ! m @ [msg]])) = add_mset (m, t, w) (mset (queue_live (rs_queues ?s)))"
    using mset_queue_update [OF assms(2), of "rs_queues ?s ! m @ [msg]"] assms(3) by (simp add: live_key_def)
  then show "mset (live (enqueued bus r m msg)) = add_mset (m, t, w) (mset (live bus))"
    using mset_live_update [OF assms(1), of "?s\<lparr>rs_queues := (rs_queues ?s)[m := rs_queues ?s ! m @ [msg]]\<rparr>"]
    by (simp add: enqueued_def region_live_def active_live_def)
  have "map active_downstream ((mb_regions bus)[r := ?s\<lparr>rs_queues := qs\<rparr>]) = map active_downstream (mb_regions bus)" for qs
    using assms(1) by (intro nth_equalityI) (auto simp: nth_list_update active_downstream_def)
  then show "downstreams (enqueued bus r m msg) = downstreams bus"
    by (simp add: downstreams_def enqueued_def)
qed

definition granted_bus :: "MultiMasterBus \<Rightarrow> nat \<Rightarrow> nat \<Rightarrow> MemMsg \<Rightarrow> MemMsg list \<Rightarrow> MultiMasterBus" where
  "granted_bus bus r m req rest =
     (case request_txn req of
        Some (t, w) \<Rightarrow> bus\<lparr>mb_next := mb_next bus + 1, mb_regions := (mb_regions bus)[r :=
          granted_state (mb_regions bus ! r) (length (mc_masters (mb_config bus))) m t w (mb_next bus) rest]\<rparr>
      | None \<Rightarrow> bus)"

lemma mm_grant_is:
  assumes inv: "mm_inv bus" and r: "r < length (mb_regions bus)" and m: "m < length (mc_masters (mb_config bus))"
    and q: "rs_queues (mb_regions bus ! r) ! m = req # rest" and t: "request_txn req = Some (t, w)"
  shows "mm_grant bus r m ctx =
    (if mb_next bus + 1 > u64_max then component_fault ''multi-master bus: downstream TxnId space exhausted''
     else result_bind (ctx_send (length (mc_masters (mb_config bus)) + r) (MsgMemV1 (with_txn req (mb_next bus))) WhenNow PhTransfer ctx)
       (\<lambda>ctx. Ok (granted_bus bus r m req rest, ctx_trace GRANT_KIND (grant_trace r m t (mb_next bus)) ctx)))"
proof -
  have M: "m < length (rs_queues (mb_regions bus ! r))" using mm_inv_queues [OF inv nth_mem [OF r]] m by simp
  have *: "master_count bus = Ok (length (mc_masters (mb_config bus)))"
    "mm_region_port bus r = Ok (length (mc_masters (mb_config bus)) + r)" "expect_u16 (m + 1) = Ok (m + 1)"
    using mm_inv_regions [OF inv] r m by (simp_all add: master_count_def mm_region_port_def)
  show ?thesis
    using M q t m mm_inv_regions(4) [OF inv]
    by (simp only: mm_grant_def Let_def index_at_def * if_True result_bind_simps list.case option.case prod.case granted_bus_def)
      simp
qed

lemma live_granted:
  assumes r: "r < length (mb_regions bus)" "rs_active (mb_regions bus ! r) = None" and m: "m < length (rs_queues (mb_regions bus ! r))"
    and q: "rs_queues (mb_regions bus ! r) ! m = req # rest" and t: "request_txn req = Some (t, w)"
  shows "mset (live (granted_bus bus r m req rest)) = mset (live bus)"
    "mset (downstreams (granted_bus bus r m req rest)) = add_mset (mb_next bus) (mset (downstreams bus))"
proof -
  let ?s = "mb_regions bus ! r"
  let ?s' = "granted_state ?s (length (mc_masters (mb_config bus))) m t w (mb_next bus) rest"
  have "mset (queue_live (rs_queues ?s)) = add_mset (m, t, w) (mset (queue_live ((rs_queues ?s)[m := rest])))"
    using mset_queue_update [OF m, of rest] q t by (simp add: live_key_def)
  then have "mset (region_live ?s') = mset (region_live ?s)"
    using r(2) by (simp add: region_live_def active_live_def granted_state_def)
  then show "mset (live (granted_bus bus r m req rest)) = mset (live bus)"
    using mset_live_update [of r "bus\<lparr>mb_next := mb_next bus + 1\<rparr>" ?s'] r(1) t by (simp add: granted_bus_def)
  show "mset (downstreams (granted_bus bus r m req rest)) = add_mset (mb_next bus) (mset (downstreams bus))"
    using mset_concat_update [OF r(1), of active_downstream ?s'] r(2) t
    by (simp add: downstreams_def granted_bus_def active_downstream_def granted_state_def)
qed

definition freed_bus :: "MultiMasterBus \<Rightarrow> nat \<Rightarrow> MultiMasterBus" where
  "freed_bus bus r = bus\<lparr>mb_regions := (mb_regions bus)[r := (mb_regions bus ! r)\<lparr>rs_active := None\<rparr>]\<rparr>"

lemma live_freed:
  assumes "r < length (mb_regions bus)" "rs_active (mb_regions bus ! r) = Some a"
  shows "mset (live bus) = add_mset (ac_master a, ac_original a, ac_write a) (mset (live (freed_bus bus r)))"
    "mset (downstreams bus) = add_mset (ac_downstream a) (mset (downstreams (freed_bus bus r)))"
proof -
  let ?s' = "(mb_regions bus ! r)\<lparr>rs_active := None\<rparr>"
  show "mset (live bus) = add_mset (ac_master a, ac_original a, ac_write a) (mset (live (freed_bus bus r)))"
    using mset_live_update [OF assms(1), of ?s'] assms(2) by (simp add: freed_bus_def region_live_def active_live_def)
  show "mset (downstreams bus) = add_mset (ac_downstream a) (mset (downstreams (freed_bus bus r)))"
    using mset_concat_update [OF assms(1), of active_downstream ?s'] assms(2)
    by (simp add: downstreams_def freed_bus_def active_downstream_def)
qed

subsection \<open>The invariant is kept\<close>

lemma region_inv_mono: "region_inv n d rg s \<Longrightarrow> d \<le> d' \<Longrightarrow> region_inv n d' rg s"
  by (auto simp: region_inv_def active_ok_def split: option.splits)

lemma distinct_keys_mset:
  "mset xs = mset ys \<Longrightarrow> distinct (map f xs) \<longleftrightarrow> distinct (map f ys)"
  by (rule mset_eq_imp_distinct_iff) simp

lemma queue_ok: "region_inv n d rg s \<Longrightarrow> m < n \<Longrightarrow> list_all (queued_ok (rg_size rg)) (rs_queues s ! m)"
  by (auto simp: region_inv_def list_all_iff)

lemma mm_inv_enqueued:
  assumes inv: "mm_inv bus" and r: "r < length (mb_regions bus)" and m: "m < length (mc_masters (mb_config bus))"
    and t: "request_txn msg = Some (t, w)" "(m, t) \<notin> txn_key ` set (live bus)"
    and q: "queued_ok (rg_size (mc_regions (mb_config bus) ! r)) msg"
  shows "mm_inv (enqueued bus r m msg)"
proof -
  let ?s = "mb_regions bus ! r"
  note reg = mm_inv_regions(2) [OF inv r]
  have mq: "m < length (rs_queues ?s)" using reg m by (simp add: region_inv_def)
  have "list_all (queued_ok (rg_size (mc_regions (mb_config bus) ! r))) (rs_queues ?s ! m @ [msg])"
    using queue_ok [OF reg m] q by simp
  then have "region_inv (length (mc_masters (mb_config bus))) (mb_next bus) (mc_regions (mb_config bus) ! r)
      (?s\<lparr>rs_queues := (rs_queues ?s)[m := rs_queues ?s ! m @ [msg]]\<rparr>)"
    using reg by (auto simp: region_inv_def active_ok_def list_all_iff dest!: subsetD [OF set_update_subset_insert])
  with inv r have "list_all2 (region_inv (length (mc_masters (mb_config bus))) (mb_next bus)) (mc_regions (mb_config bus))
      (mb_regions (enqueued bus r m msg))"
    by (simp add: mm_inv_def enqueued_def list_all2_update)
  moreover have "distinct (map txn_key (live (enqueued bus r m msg)))"
    using distinct_keys_mset [of "live (enqueued bus r m msg)" "(m, t, w) # live bus" txn_key] live_enqueued(1) [OF r mq t(1)]
      t(2) inv by (simp add: txn_key_def mm_inv_def)
  moreover have "mb_config (enqueued bus r m msg) = mb_config bus" "mb_next (enqueued bus r m msg) = mb_next bus"
    by (simp_all add: enqueued_def)
  ultimately show ?thesis
    using inv live_enqueued(2) [OF r mq t(1)] by (simp add: mm_inv_def)
qed

lemma downstream_below: "mm_inv bus \<Longrightarrow> d \<in> set (downstreams bus) \<Longrightarrow> d < mb_next bus"
  using mm_inv_regions(2) by (fastforce simp: downstreams_def in_set_conv_nth active_downstream_def region_inv_def active_ok_def
      split: option.splits)

lemma granted_bus_frame [simp]:
  "mb_config (granted_bus bus r m req rest) = mb_config bus" "length (mb_regions (granted_bus bus r m req rest)) = length (mb_regions bus)"
  by (auto simp: granted_bus_def split: option.split)

lemma mm_inv_granted:
  assumes inv: "mm_inv bus" and r: "r < length (mb_regions bus)" "rs_active (mb_regions bus ! r) = None"
    and m: "m < length (mc_masters (mb_config bus))"
    and q: "rs_queues (mb_regions bus ! r) ! m = req # rest" and t: "request_txn req = Some (t, w)"
    and room: "mb_next bus + 1 \<le> u64_max"
  shows "mm_inv (granted_bus bus r m req rest)"
proof -
  let ?s = "mb_regions bus ! r" and ?M = "length (mc_masters (mb_config bus))" and ?b = "granted_bus bus r m req rest"
  note reg = mm_inv_regions(2) [OF inv r(1)]
  have mq: "m < length (rs_queues ?s)" using reg m by (simp add: region_inv_def)
  have "list_all (queued_ok (rg_size (mc_regions (mb_config bus) ! r))) rest"
    using queue_ok [OF reg m] q by simp
  then have "region_inv ?M (mb_next bus + 1) (mc_regions (mb_config bus) ! r) (granted_state ?s ?M m t w (mb_next bus) rest)"
    using reg m mm_inv_regions(4) [OF inv]
    by (auto simp: region_inv_def active_ok_def granted_state_def list_all_iff dest!: subsetD [OF set_update_subset_insert])
  moreover have "list_all2 (region_inv ?M (mb_next bus + 1)) (mc_regions (mb_config bus)) (mb_regions bus)"
    using inv by (auto simp: mm_inv_def elim!: list_all2_mono intro: region_inv_mono)
  ultimately have "list_all2 (region_inv ?M (mb_next bus + 1)) (mc_regions (mb_config bus)) (mb_regions ?b)"
    using r(1) t by (simp add: granted_bus_def list_all2_update)
  moreover have "distinct (map txn_key (live ?b))"
    using distinct_keys_mset [OF live_granted(1) [OF r mq q t], of txn_key] inv by (simp add: mm_inv_def)
  moreover have "distinct (downstreams ?b)"
    using mset_eq_imp_distinct_iff [of "downstreams ?b" "mb_next bus # downstreams bus"] live_granted(2) [OF r mq q t]
      downstream_below [OF inv] inv by (auto simp: mm_inv_def)
  moreover have "mb_next ?b = mb_next bus + 1" using t by (simp add: granted_bus_def)
  ultimately show ?thesis using inv room by (simp add: mm_inv_def)
qed

lemma mm_inv_freed:
  assumes inv: "mm_inv bus" and r: "r < length (mb_regions bus)" "rs_active (mb_regions bus ! r) = Some a"
  shows "mm_inv (freed_bus bus r)"
proof -
  have "list_all2 (region_inv (length (mc_masters (mb_config bus))) (mb_next bus)) (mc_regions (mb_config bus)) (mb_regions (freed_bus bus r))"
    using inv r(1) mm_inv_regions(2) [OF inv r(1)]
    by (auto simp: mm_inv_def freed_bus_def region_inv_def active_ok_def intro!: list_all2_update)
  moreover have "distinct (map txn_key (live (freed_bus bus r)))"
    using distinct_keys_mset [of "live bus" "(ac_master a, ac_original a, ac_write a) # live (freed_bus bus r)" txn_key]
      live_freed(1) [OF r] inv by (simp add: mm_inv_def)
  moreover have "distinct (downstreams (freed_bus bus r))"
    using mset_eq_imp_distinct_iff [of "downstreams bus" "ac_downstream a # downstreams (freed_bus bus r)"] live_freed(2) [OF r] inv
    by (simp add: mm_inv_def)
  ultimately show ?thesis using inv by (simp add: mm_inv_def freed_bus_def)
qed

text \<open>One region's turn in an arbitration pass.\<close>

lemma arbitrate_region_cases:
  assumes inv: "mm_inv bus" and i: "i < length (mb_regions bus)"
  obtains (busy) "rs_active (mb_regions bus ! i) \<noteq> None \<or> \<not> has_queued (mb_regions bus ! i)" "arbitrate_region bus i ctx = Ok (bus, ctx)"
  | (grant) m req rest t w where "rs_active (mb_regions bus ! i) = None" "m < length (mc_masters (mb_config bus))"
      "rs_queues (mb_regions bus ! i) ! m = req # rest" "request_txn req = Some (t, w)"
      "\<forall>k<rr_distance (length (mc_masters (mb_config bus))) (rs_cursor (mb_regions bus ! i)) m.
        rs_queues (mb_regions bus ! i) ! ((rs_cursor (mb_regions bus ! i) + k) mod length (mc_masters (mb_config bus))) = []"
      "arbitrate_region bus i ctx = mm_grant bus i m ctx"
proof -
  let ?s = "mb_regions bus ! i" and ?M = "length (mc_masters (mb_config bus))"
  note reg = mm_inv_regions(2) [OF inv i]
  have i16: "expect_u16 i = Ok i" using mm_inv_regions(1,5) [OF inv] i by simp
  show thesis
  proof (cases "rs_active ?s")
    case (Some a)
    then show thesis using busy i16 by (simp add: arbitrate_region_def)
  next
    case None
    have "select_master ?s = Ok None \<and> \<not> has_queued ?s \<or> (\<exists>m. select_master ?s = Ok (Some m) \<and> m < ?M \<and> rs_queues ?s ! m \<noteq> []
        \<and> (\<forall>k<rr_distance ?M (rs_cursor ?s) m. rs_queues ?s ! ((rs_cursor ?s + k) mod ?M) = []))"
      using reg mm_inv_regions(3) [OF inv] by (intro select_master_is) (simp_all add: region_inv_def)
    then show thesis
    proof (elim disjE exE conjE)
      assume "select_master ?s = Ok None" "\<not> has_queued ?s"
      then show thesis using busy None i16 by (simp add: arbitrate_region_def)
    next
      fix m assume m: "select_master ?s = Ok (Some m)" "m < ?M" "rs_queues ?s ! m \<noteq> []"
        and scan: "\<forall>k<rr_distance ?M (rs_cursor ?s) m. rs_queues ?s ! ((rs_cursor ?s + k) mod ?M) = []"
      obtain req rest where q: "rs_queues ?s ! m = req # rest" using m(3) by (cases "rs_queues ?s ! m") auto
      obtain t w where "request_txn req = Some (t, w)"
        using queue_ok [OF reg m(2)] q queued_request [of "rg_size (mc_regions (mb_config bus) ! i)" req] by auto
      then show thesis using grant [OF None m(2) q _ scan] m(1) None i16 by (simp add: arbitrate_region_def)
    qed
  qed
qed

lemma mm_response_cases:
  assumes inv: "mm_inv bus" and r: "r < length (mb_regions bus)"
  shows "mm_response bus r msg ctx =
    (case response_key msg of
       None \<Rightarrow> component_fault ''multi-master bus: request on a region port''
     | Some (d, w) \<Rightarrow>
         if ctx_phase ctx \<noteq> PhComplete then component_fault ''multi-master bus: response arrived outside COMPLETE''
         else (case rs_active (mb_regions bus ! r) of
             None \<Rightarrow> component_fault ''multi-master bus: response does not match the region's active txn''
           | Some a \<Rightarrow>
               if ac_downstream a \<noteq> d then component_fault ''multi-master bus: response does not match the region's active txn''
               else if ac_write a \<noteq> w then component_fault ''multi-master bus: response kind mismatch''
               else result_bind (ctx_send (ac_master a) (MsgMemV1 (with_txn msg (ac_original a))) WhenNow PhComplete ctx) (\<lambda>ctx.
                 if has_queued (mb_regions bus ! r)
                 then result_bind (ctx_wake_self (WhenCycles (unat (mc_clock (mb_config bus))) 1) PhTransfer ARBITRATE ctx)
                        (\<lambda>ctx. Ok (freed_bus bus r, ctx))
                 else Ok (freed_bus bus r, ctx))))"
proof -
  have port: "master_port bus (ac_master a) = Ok (ac_master a)" if "rs_active (mb_regions bus ! r) = Some a" for a
    using mm_inv_regions(2) [OF inv r] that by (simp add: region_inv_def active_ok_def master_port_def)
  show ?thesis
    unfolding mm_response_def freed_bus_def Let_def
    using r by (auto simp: index_at_def port split: option.split)
qed

subsection \<open>Histories\<close>

text \<open>
  What happened is read off the deliveries and the effects alone: the requests that came in on the
  master ports, those of them that lie in one region (the specification's routing), the responses
  that came in on the region ports, the answers sent on the master ports, and the grants traced.
\<close>

fun request_in :: "MultiMasterBusConfig \<Rightarrow> Delivered \<Rightarrow> (nat \<times> TxnId \<times> bool) list" where
  "request_in cfg (DMessage port (MsgMemV1 msg)) = (if port < length (mc_masters cfg) then live_key port msg else [])"
| "request_in cfg _ = []"

fun accepted_in :: "MultiMasterBusConfig \<Rightarrow> Delivered \<Rightarrow> (nat \<times> nat \<times> TxnId) list" where
  "accepted_in cfg (DMessage port (MsgMemV1 msg)) =
     (if port < length (mc_masters cfg)
      then (case (target_of cfg msg, request_txn msg) of (Some (r, _), Some (t, _)) \<Rightarrow> [(r, port, t)] | _ \<Rightarrow> []) else [])"
| "accepted_in cfg _ = []"

fun response_in :: "MultiMasterBusConfig \<Rightarrow> Delivered \<Rightarrow> (nat \<times> TxnId) list" where
  "response_in cfg (DMessage port (MsgMemV1 msg)) =
     (case response_key msg of Some (d, _) \<Rightarrow> [(port - length (mc_masters cfg), d)] | None \<Rightarrow> [])"
| "response_in cfg _ = []"

fun answer_out :: "CtxEffect \<Rightarrow> (nat \<times> TxnId \<times> bool) list" where
  "answer_out (EffSend port (MsgMemV1 msg) _ _) = (case response_key msg of Some (t, w) \<Rightarrow> [(port, t, w)] | None \<Rightarrow> [])"
| "answer_out _ = []"

fun grant_out :: "CtxEffect \<Rightarrow> (nat \<times> nat \<times> TxnId \<times> TxnId) list" where
  "grant_out (EffTrace kind [(_, VU64 r), (_, VU64 m), (_, VU64 t), (_, VU64 d)]) = (if kind = GRANT_KIND then [(r, m, t, d)] else [])"
| "grant_out _ = []"

definition collect :: "('a \<Rightarrow> 'b list) \<Rightarrow> 'a list \<Rightarrow> 'b list" where
  "collect f xs = concat (map f xs)"

lemma collect_simps [simp]:
  "collect f [] = []" "collect f (x # xs) = f x @ collect f xs" "collect f (xs @ ys) = collect f xs @ collect f ys"
  by (simp_all add: collect_def)

inductive mm_hist :: "MultiMasterBusConfig \<Rightarrow> MultiMasterBus \<Rightarrow> Delivered list \<Rightarrow> CtxEffect list \<Rightarrow> bool" for cfg where
  start: "MultiMasterBus_new cfg = Ok bus \<Longrightarrow> mm_hist cfg bus [] []"
| event: "mm_hist cfg bus evs effs \<Longrightarrow> ctx_out ctx = [] \<Longrightarrow> mm_handle_event bus ev ctx = Ok (bus', ctx') \<Longrightarrow>
    mm_hist cfg bus' (evs @ [ev]) (effs @ ctx_out ctx')"

text \<open>The queue of a master for a region, by transaction, and the three accounts a history keeps.\<close>

definition queue_txns :: "MultiMasterBus \<Rightarrow> nat \<Rightarrow> nat \<Rightarrow> TxnId list" where
  "queue_txns bus r m = collect (\<lambda>q. map fst (case request_txn q of None \<Rightarrow> [] | Some k \<Rightarrow> [k])) (rs_queues (mb_regions bus ! r) ! m)"

definition accounts :: "MultiMasterBus \<Rightarrow> (nat \<times> TxnId \<times> bool) list \<Rightarrow> (nat \<times> TxnId \<times> bool) list \<Rightarrow> bool" where
  "accounts bus ins outs \<longleftrightarrow> mset ins = mset outs + mset (live bus)"

definition fifo_order :: "MultiMasterBus \<Rightarrow> (nat \<times> nat \<times> TxnId) list \<Rightarrow> (nat \<times> nat \<times> TxnId \<times> TxnId) list \<Rightarrow> bool" where
  "fifo_order bus acc gr \<longleftrightarrow> (\<forall>r<length (mb_regions bus). \<forall>m<length (mc_masters (mb_config bus)).
     [t. (r', m', t) \<leftarrow> acc, r' = r \<and> m' = m] = [t. (r', m', t, d) \<leftarrow> gr, r' = r \<and> m' = m] @ queue_txns bus r m)"

definition one_at_a_time :: "MultiMasterBus \<Rightarrow> (nat \<times> nat \<times> TxnId \<times> TxnId) list \<Rightarrow> (nat \<times> TxnId) list \<Rightarrow> bool" where
  "one_at_a_time bus gr resp \<longleftrightarrow> map (\<lambda>(r, m, t, d). d) gr = [0..<mb_next bus]
     \<and> (\<forall>r<length (mb_regions bus).
          [d. (r', m, t, d) \<leftarrow> gr, r' = r] = [d. (r', d) \<leftarrow> resp, r' = r] @ active_downstream (mb_regions bus ! r))"

definition mm_good :: "MultiMasterBusConfig \<Rightarrow> MultiMasterBus \<Rightarrow> Delivered list \<Rightarrow> CtxEffect list \<Rightarrow> bool" where
  "mm_good cfg bus evs effs \<longleftrightarrow> mm_inv bus \<and> mb_config bus = cfg
     \<and> accounts bus (collect (request_in cfg) evs) (collect answer_out effs)
     \<and> fifo_order bus (collect (accepted_in cfg) evs) (collect grant_out effs)
     \<and> one_at_a_time bus (collect grant_out effs) (collect (response_in cfg) evs)"

lemma with_txn_keys [simp]:
  "request_txn (with_txn msg d) = map_option (\<lambda>(_, w). (d, w)) (request_txn msg)"
  "response_key (with_txn msg d) = map_option (\<lambda>(_, w). (d, w)) (response_key msg)"
  by (cases msg; simp)+

lemma keys_apart: "request_txn msg = Some k \<Longrightarrow> response_key msg = None" "response_key msg = Some k' \<Longrightarrow> request_txn msg = None"
  by (cases msg; simp)+

text \<open>Queueing a request.\<close>

lemma good_enqueued:
  assumes g: "mm_good cfg bus evs effs" and m: "m < length (mc_masters cfg)" and t: "request_txn msg = Some (t, w)"
    "(m, t) \<notin> txn_key ` set (live bus)" and tg: "target_of cfg msg = Some (r, f)"
  shows "mm_good cfg (enqueued bus r m (at_offset msg (f - rg_base (mc_regions cfg ! r)))) (evs @ [DMessage m (MsgMemV1 msg)])
    (effs @ [EffWake wh ph tk])"
proof -
  let ?msg = "at_offset msg (f - rg_base (mc_regions cfg ! r))"
  have inv: "mm_inv bus" and cfg: "mb_config bus = cfg" using g by (auto simp: mm_good_def)
  have ok: "mm_config_ok cfg" using inv cfg by (simp add: mm_inv_def)
  have r: "r < length (mb_regions bus)" using target_in_region(1) [OF ok tg] mm_inv_regions(1) [OF inv] cfg by simp
  have mq: "m < length (rs_queues (mb_regions bus ! r))" using mm_inv_queues [OF inv nth_mem [OF r]] m cfg by simp
  have t': "request_txn ?msg = Some (t, w)" using t(1) by simp
  have "mm_inv (enqueued bus r m ?msg)"
    using mm_inv_enqueued [OF inv r _ t' t(2)] target_in_region(2) [OF ok tg] m cfg by simp
  moreover have "accounts (enqueued bus r m ?msg) (collect (request_in cfg) evs @ [(m, t, w)]) (collect answer_out effs)"
    using g live_enqueued(1) [OF r mq t'] by (simp add: mm_good_def accounts_def)
  moreover have "queue_txns (enqueued bus r m ?msg) r' m' = queue_txns bus r' m' @ (if r' = r \<and> m' = m then [t] else [])"
    if "r' < length (mb_regions bus)" "m' < length (mc_masters cfg)" for r' m'
    using that r mq t' by (auto simp: queue_txns_def enqueued_def nth_list_update)
  then have "fifo_order (enqueued bus r m ?msg) (collect (accepted_in cfg) evs @ [(r, m, t)]) (collect grant_out effs)"
    using g by (auto simp: mm_good_def fifo_order_def enqueued_def)
  moreover have "active_downstream (mb_regions (enqueued bus r m ?msg) ! r') = active_downstream (mb_regions bus ! r')"
    if "r' < length (mb_regions bus)" for r'
    using that r by (auto simp: enqueued_def nth_list_update active_downstream_def)
  then have "one_at_a_time (enqueued bus r m ?msg) (collect grant_out effs) (collect (response_in cfg) evs)"
    using g by (auto simp: mm_good_def one_at_a_time_def enqueued_def)
  moreover have "request_in cfg (DMessage m (MsgMemV1 msg)) = [(m, t, w)]" "accepted_in cfg (DMessage m (MsgMemV1 msg)) = [(r, m, t)]"
    "response_in cfg (DMessage m (MsgMemV1 msg)) = []"
    using m t(1) tg keys_apart(1) [OF t(1)] by (simp_all add: live_key_def)
  ultimately show ?thesis using cfg by (simp add: mm_good_def enqueued_def)
qed

text \<open>A grant moves the head of a queue to the region's active transaction.\<close>

lemma good_granted:
  assumes g: "mm_good cfg bus evs effs" and r: "r < length (mb_regions bus)" "rs_active (mb_regions bus ! r) = None"
    and m: "m < length (mc_masters cfg)" and q: "rs_queues (mb_regions bus ! r) ! m = req # rest"
    and t: "request_txn req = Some (t, w)" and room: "mb_next bus + 1 \<le> u64_max"
  shows "mm_good cfg (granted_bus bus r m req rest) evs (effs @ [EffSend p (MsgMemV1 (with_txn req (mb_next bus))) WhenNow PhTransfer,
    EffTrace GRANT_KIND (grant_trace r m t (mb_next bus))])"
proof -
  let ?b = "granted_bus bus r m req rest" and ?s = "mb_regions bus ! r"
  have inv: "mm_inv bus" and cfg: "mb_config bus = cfg" using g by (auto simp: mm_good_def)
  have mq: "m < length (rs_queues ?s)" using mm_inv_queues [OF inv nth_mem [OF r(1)]] m cfg by simp
  have b: "?b = bus\<lparr>mb_next := mb_next bus + 1, mb_regions := (mb_regions bus)[r :=
      granted_state ?s (length (mc_masters cfg)) m t w (mb_next bus) rest]\<rparr>"
    using t cfg by (simp add: granted_bus_def)
  have "mm_inv ?b" using mm_inv_granted [OF inv r _ q t room] m cfg by simp
  moreover have "accounts ?b (collect (request_in cfg) evs) (collect answer_out effs)"
    using g live_granted(1) [OF r mq q t] by (simp add: mm_good_def accounts_def)
  moreover have "queue_txns bus r' m' = (if r' = r \<and> m' = m then [t] else []) @ queue_txns ?b r' m'"
    if "r' < length (mb_regions bus)" "m' < length (mc_masters cfg)" for r' m'
    using that r mq t q by (auto simp: queue_txns_def b granted_state_def nth_list_update)
  then have "fifo_order ?b (collect (accepted_in cfg) evs) (collect grant_out effs @ [(r, m, t, mb_next bus)])"
    using g cfg by (auto simp: mm_good_def fifo_order_def)
  moreover have "active_downstream (mb_regions ?b ! r') = active_downstream (mb_regions bus ! r') @ (if r' = r then [mb_next bus] else [])"
    if "r' < length (mb_regions bus)" for r'
    using that r by (auto simp: b granted_state_def nth_list_update active_downstream_def)
  then have "one_at_a_time ?b (collect grant_out effs @ [(r, m, t, mb_next bus)]) (collect (response_in cfg) evs)"
    using g by (auto simp: mm_good_def one_at_a_time_def b)
  ultimately show ?thesis
    using cfg keys_apart(1) [OF t] by (simp add: mm_good_def grant_trace_def)
qed

text \<open>A response frees its region and is relayed under the transaction of the master.\<close>

lemma good_freed:
  assumes g: "mm_good cfg bus evs effs" and r: "r < length (mb_regions bus)" "rs_active (mb_regions bus ! r) = Some a"
    and k: "response_key msg = Some (ac_downstream a, ac_write a)"
  shows "mm_good cfg (freed_bus bus r) (evs @ [DMessage (length (mc_masters cfg) + r) (MsgMemV1 msg)])
    (effs @ [EffSend (ac_master a) (MsgMemV1 (with_txn msg (ac_original a))) wh ph])"
proof -
  let ?b = "freed_bus bus r"
  have inv: "mm_inv bus" and cfg: "mb_config bus = cfg" using g by (auto simp: mm_good_def)
  have "mm_inv ?b" by (rule mm_inv_freed [OF inv r])
  moreover have "accounts ?b (collect (request_in cfg) evs) (collect answer_out effs @ [(ac_master a, ac_original a, ac_write a)])"
    using g live_freed(1) [OF r] by (simp add: mm_good_def accounts_def)
  moreover have "queue_txns ?b r' m' = queue_txns bus r' m'" if "r' < length (mb_regions bus)" for r' m'
    using that r by (auto simp: queue_txns_def freed_bus_def nth_list_update)
  then have "fifo_order ?b (collect (accepted_in cfg) evs) (collect grant_out effs)"
    using g by (auto simp: mm_good_def fifo_order_def freed_bus_def)
  moreover have "active_downstream (mb_regions bus ! r') = (if r' = r then [ac_downstream a] else []) @ active_downstream (mb_regions ?b ! r')"
    if "r' < length (mb_regions bus)" for r'
    using that r by (auto simp: freed_bus_def nth_list_update active_downstream_def)
  then have "one_at_a_time ?b (collect grant_out effs) (collect (response_in cfg) evs @ [(r, ac_downstream a)])"
    using g by (auto simp: mm_good_def one_at_a_time_def freed_bus_def)
  ultimately show ?thesis
    using cfg k keys_apart(2) [OF k] by (simp add: mm_good_def freed_bus_def)
qed

lemma good_fault:
  assumes g: "mm_good cfg bus evs effs" and m: "m < length (mc_masters cfg)" and t: "request_txn msg = Some (t, w)"
    and tg: "target_of cfg msg = None" and f: "mm_fault bus m msg ctx = Ok ctx'" "ctx_out ctx = []"
  shows "mm_good cfg bus (evs @ [DMessage m (MsgMemV1 msg)]) (effs @ ctx_out ctx')"
proof -
  have kinds: "FAULT_KIND \<noteq> GRANT_KIND" by (simp add: FAULT_KIND_def GRANT_KIND_def)
  have "\<exists>resp fs. response_key resp = Some (t, w) \<and> ctx_out ctx' = [EffSend m (MsgMemV1 resp) WhenNow PhComplete, EffTrace FAULT_KIND fs]"
    using f t by (cases msg) (auto simp: mm_fault_def master_port_def ctx_send_def ctx_trace_def split: if_splits)
  then obtain resp fs where resp: "response_key resp = Some (t, w)"
    "ctx_out ctx' = [EffSend m (MsgMemV1 resp) WhenNow PhComplete, EffTrace FAULT_KIND fs]" by blast
  have "grant_out (EffTrace FAULT_KIND fs) = []"
    using kinds by (cases "EffTrace FAULT_KIND fs" rule: grant_out.cases) auto
  moreover have "accounts bus (ins @ [(m, t, w)]) (outs @ [(m, t, w)]) \<longleftrightarrow> accounts bus ins outs" for ins outs
    by (simp add: accounts_def)
  ultimately show ?thesis
    using g m t tg resp keys_apart(1) [OF t] by (auto simp: mm_good_def live_key_def)
qed

lemma good_silent:
  "mm_good cfg bus evs effs \<Longrightarrow> mm_good cfg bus (evs @ [DWake k]) effs"
  "mm_good cfg bus evs effs \<Longrightarrow> mm_good cfg bus evs (effs @ [EffWake wh ph tk])"
  by (simp_all add: mm_good_def)

lemma good_arbitrate_region:
  assumes g: "mm_good cfg bus evs (effs @ ctx_out ctx)" and i: "i < length (mb_regions bus)"
    and ok: "arbitrate_region bus i ctx = Ok (bus', ctx')"
  shows "mm_good cfg bus' evs (effs @ ctx_out ctx') \<and> length (mb_regions bus') = length (mb_regions bus)"
proof -
  have inv: "mm_inv bus" and cfg: "mb_config bus = cfg" using g by (auto simp: mm_good_def)
  from inv i show ?thesis
  proof (cases rule: arbitrate_region_cases [where ctx = ctx])
    case busy
    then show ?thesis using g ok by simp
  next
    case (grant m req rest t w)
    have run: "mm_grant bus i m ctx = Ok (bus', ctx')" using grant(6) ok by simp
    have "mb_next bus + 1 \<le> u64_max" and bus': "bus' = granted_bus bus i m req rest"
      and out: "ctx_out ctx' = ctx_out ctx @ [EffSend (length (mc_masters (mb_config bus)) + i) (MsgMemV1 (with_txn req (mb_next bus)))
        WhenNow PhTransfer, EffTrace GRANT_KIND (grant_trace i m t (mb_next bus))]"
      using run [unfolded mm_grant_is [OF inv i grant(2,3,4)]] by (auto simp: ctx_send_def ctx_trace_def split: if_splits)
    then show ?thesis
      using good_granted [OF g i grant(1) _ grant(3,4), of "length (mc_masters (mb_config bus)) + i"] grant(2) cfg by simp
  qed
qed

lemma good_arbitrate_from:
  "mm_good cfg bus evs (effs @ ctx_out ctx) \<Longrightarrow> list_all (\<lambda>i. i < length (mb_regions bus)) is \<Longrightarrow>
     arbitrate_from is bus ctx = Ok (bus', ctx') \<Longrightarrow> mm_good cfg bus' evs (effs @ ctx_out ctx')"
proof (induction "is" arbitrary: bus ctx)
  case (Cons i "is")
  then obtain b c where step: "arbitrate_region bus i ctx = Ok (b, c)" "arbitrate_from is b c = Ok (bus', ctx')" by auto
  with good_arbitrate_region [OF Cons.prems(1) _ step(1)] Cons show ?case by auto
qed simp

lemma good_request:
  assumes g: "mm_good cfg bus evs effs" and m: "m < length (mc_masters cfg)" and out: "ctx_out ctx = []"
    and ok: "mm_request bus m msg ctx = Ok (bus', ctx')"
  shows "mm_good cfg bus' (evs @ [DMessage m (MsgMemV1 msg)]) (effs @ ctx_out ctx')"
proof -
  have inv: "mm_inv bus" and cfg: "mb_config bus = cfg" using g by (auto simp: mm_good_def)
  have m': "m < length (mc_masters (mb_config bus))" using m cfg by simp
  note ok = ok [unfolded mm_request_cases [OF inv m']]
  obtain t w where t: "request_txn msg = Some (t, w)" and new: "(m, t) \<notin> txn_key ` set (live bus)"
    using ok by (auto split: option.splits if_splits prod.splits)
  show ?thesis
  proof (cases "target_of cfg msg")
    case None
    then have "mm_fault bus m msg ctx = Ok ctx' \<and> bus' = bus" using ok t new cfg by (auto split: if_splits)
    then show ?thesis using good_fault [OF g m t None _ out] by blast
  next
    case (Some rf)
    obtain r f where rf: "rf = (r, f)" by fastforce
    then have "bus' = enqueued bus r m (at_offset msg (f - rg_base (mc_regions cfg ! r))) \<and> ctx_out ctx' = [EffWake WhenNow PhTransfer ARBITRATE]"
      using ok t new cfg Some out by (auto simp: ctx_wake_self_def split: if_splits)
    then show ?thesis using good_enqueued [OF g m t new] Some rf by simp
  qed
qed

lemma good_response:
  assumes g: "mm_good cfg bus evs effs" and r: "r < length (mb_regions bus)" and out: "ctx_out ctx = []"
    and ok: "mm_response bus r msg ctx = Ok (bus', ctx')"
  shows "mm_good cfg bus' (evs @ [DMessage (length (mc_masters cfg) + r) (MsgMemV1 msg)]) (effs @ ctx_out ctx')"
proof -
  have inv: "mm_inv bus" using g by (simp add: mm_good_def)
  note ok = ok [unfolded mm_response_cases [OF inv r]]
  obtain a where a: "rs_active (mb_regions bus ! r) = Some a" "response_key msg = Some (ac_downstream a, ac_write a)"
    using ok by (auto split: option.splits if_splits prod.splits)
  define send where "send = EffSend (ac_master a) (MsgMemV1 (with_txn msg (ac_original a))) WhenNow PhComplete"
  have "bus' = freed_bus bus r \<and> (ctx_out ctx' = [send] \<or>
      ctx_out ctx' = [send] @ [EffWake (WhenCycles (unat (mc_clock (mb_config bus))) 1) PhTransfer ARBITRATE])"
    using ok a out by (auto simp: ctx_send_def ctx_wake_self_def send_def split: if_splits)
  moreover note good_freed [OF g r a, of WhenNow PhComplete, folded send_def]
  ultimately show ?thesis using good_silent(2) by (metis append_assoc)
qed

lemma good_event:
  assumes g: "mm_good cfg bus evs effs" and out: "ctx_out ctx = []" and ok: "mm_handle_event bus ev ctx = Ok (bus', ctx')"
  shows "mm_good cfg bus' (evs @ [ev]) (effs @ ctx_out ctx')"
proof -
  have inv: "mm_inv bus" and cfg: "mb_config bus = cfg" using g by (auto simp: mm_good_def)
  have count: "master_count bus = Ok (length (mc_masters cfg))"
    using mm_inv_regions(3) [OF inv] cfg by (simp add: master_count_def)
  consider (message) port msg where "ev = DMessage port (MsgMemV1 msg)" | (wake) "ev = DWake ARBITRATE"
    using ok by (cases "(bus, ev, ctx)" rule: mm_handle_event.cases) (auto split: if_splits)
  then show ?thesis
  proof cases
    case message
    show ?thesis
    proof (cases "port < length (mc_masters cfg)")
      case True
      then show ?thesis using good_request [OF g True out] ok message count by simp
    next
      case False
      then show ?thesis
        using good_response [OF g _ out, of "port - length (mc_masters cfg)"] ok message count by (simp split: if_splits)
    qed
  next
    case wake
    then have "arbitrate_from [0..<length (mb_regions bus)] bus ctx = Ok (bus', ctx')"
      using ok count by (simp add: arbitrate_def split: if_splits)
    from good_arbitrate_from [OF _ _ this, of cfg evs effs] g out have "mm_good cfg bus' evs (effs @ ctx_out ctx')"
      by (simp add: list_all_iff)
    then show ?thesis using good_silent(1) wake by blast
  qed
qed

lemma mm_hist_good: "mm_hist cfg bus evs effs \<Longrightarrow> mm_good cfg bus evs effs"
proof (induction rule: mm_hist.induct)
  case (start bus)
  then have "bus = \<lparr>mb_config = cfg, mb_regions = replicate (length (mc_regions cfg)) (RegionState_idle (length (mc_masters cfg))), mb_next = 0\<rparr>"
    by (simp add: MultiMasterBus_new_iff)
  with mm_inv_new [OF start] show ?case
    by (auto simp: mm_good_def accounts_def fifo_order_def one_at_a_time_def queue_txns_def live_def concat_replicate_Nil
        simp del: map_replicate) (simp add: RegionState_idle_def)
qed (rule good_event)

subsection \<open>No delivery panics\<close>

lemma grant_no_panic:
  assumes "mm_inv bus" "i < length (mb_regions bus)"
  shows "arbitrate_region bus i ctx \<noteq> Err Panic"
    and "arbitrate_region bus i ctx = Ok (bus', ctx') \<Longrightarrow> mm_inv bus' \<and> length (mb_regions bus') = length (mb_regions bus)"
proof -
  from assms have "arbitrate_region bus i ctx \<noteq> Err Panic \<and> (arbitrate_region bus i ctx = Ok (bus', ctx') \<longrightarrow>
      mm_inv bus' \<and> length (mb_regions bus') = length (mb_regions bus))"
  proof (cases rule: arbitrate_region_cases [where ctx = ctx])
    case busy
    then show ?thesis using assms(1) by auto
  next
    case (grant m req rest t w)
    then show ?thesis
      using mm_inv_granted [OF assms grant(1-4)]
      by (auto simp: grant(6) mm_grant_is [OF assms grant(2-4)] result_bind_eq_Err ctx_send_def)
  qed
  then show "arbitrate_region bus i ctx \<noteq> Err Panic"
    and "arbitrate_region bus i ctx = Ok (bus', ctx') \<Longrightarrow> mm_inv bus' \<and> length (mb_regions bus') = length (mb_regions bus)"
    by auto
qed

lemma arbitrate_from_no_panic:
  "mm_inv bus \<Longrightarrow> list_all (\<lambda>i. i < length (mb_regions bus)) is \<Longrightarrow> arbitrate_from is bus ctx \<noteq> Err Panic"
proof (induction "is" arbitrary: bus ctx)
  case (Cons i "is")
  then have i: "i < length (mb_regions bus)" by simp
  show ?case
    using Cons grant_no_panic(1) [OF Cons.prems(1) i] grant_no_panic(2) [OF Cons.prems(1) i]
    by (auto simp: result_bind_eq_Err)
qed simp

lemma mm_no_panic:
  assumes inv: "mm_inv bus"
  shows "mm_handle_event bus ev ctx \<noteq> Err Panic"
proof -
  let ?M = "length (mc_masters (mb_config bus))"
  have count: "master_count bus = Ok ?M" using mm_inv_regions(3) [OF inv] by (simp add: master_count_def)
  have fault: "mm_fault bus m msg ctx \<noteq> Err Panic" if "m < ?M" for m msg
    using that by (cases msg) (auto simp: mm_fault_def master_port_def result_bind_eq_Err ctx_send_def)
  have request: "mm_request bus m msg ctx \<noteq> Err Panic" if "m < ?M" for m msg
    using fault [OF that] by (auto simp: mm_request_cases [OF inv that] result_bind_eq_Err ctx_wake_self_def split: option.split)
  have response: "mm_response bus r msg ctx \<noteq> Err Panic" if "r < length (mb_regions bus)" for r msg
    by (auto simp: mm_response_cases [OF inv that] result_bind_eq_Err ctx_send_def ctx_wake_self_def split: option.split)
  have "arbitrate bus ctx \<noteq> Err Panic"
    using arbitrate_from_no_panic [OF inv] by (auto simp: arbitrate_def list_all_iff)
  with request response show ?thesis
    by (cases "(bus, ev, ctx)" rule: mm_handle_event.cases) (auto simp: count)
qed

text \<open>
  C11. In every history of the multi-master bus, of any deliveries in any order, the requests that came in
  on the master ports are exactly the answers sent back on the port they came from, under their own
  transaction and of their own kind, together with the transactions the bus still holds; no two of
  those share a master and a transaction. Nothing is lost, answered twice or answered to another
  master, and no further delivery can make the bus panic.
\<close>

theorem mm_conservation:
  assumes "mm_hist cfg bus evs effs"
  shows "mset (collect (request_in cfg) evs) = mset (collect answer_out effs) + mset (live bus)
    \<and> distinct (map txn_key (live bus)) \<and> mm_handle_event bus ev ctx \<noteq> Err Panic"
proof -
  have "mm_good cfg bus evs effs" by (rule mm_hist_good [OF assms])
  then have "mm_inv bus" "accounts bus (collect (request_in cfg) evs) (collect answer_out effs)" by (auto simp: mm_good_def)
  then show ?thesis using mm_no_panic by (simp add: accounts_def mm_inv_def)
qed

text \<open>
  C13. In every history the grants of a master on a region are, in order, the requests of that master that
  lie in that region, followed by its queue: requests are served first in, first out. The downstream
  transactions of the grants are 0, 1, 2 and so on without gaps, and the responses of a region answer
  its grants in order, one at a time: only the last grant may still be unanswered.
\<close>

theorem mm_grants_in_order:
  assumes "mm_hist cfg bus evs effs"
  shows "fifo_order bus (collect (accepted_in cfg) evs) (collect grant_out effs)
    \<and> one_at_a_time bus (collect grant_out effs) (collect (response_in cfg) evs)"
  using mm_hist_good [OF assms] by (simp add: mm_good_def)

subsection \<open>Fairness\<close>

inductive mm_run :: "MultiMasterBus \<Rightarrow> CtxEffect list \<Rightarrow> MultiMasterBus \<Rightarrow> bool" for bus where
  stop: "mm_run bus [] bus"
| step: "mm_run bus effs b \<Longrightarrow> ctx_out ctx = [] \<Longrightarrow> mm_handle_event b ev ctx = Ok (b', ctx') \<Longrightarrow> mm_run bus (effs @ ctx_out ctx') b'"

definition grants_on :: "nat \<Rightarrow> CtxEffect list \<Rightarrow> nat list" where
  "grants_on r effs = [m. (r', m, t, d) \<leftarrow> collect grant_out effs, r' = r]"

lemma grants_on_simps [simp]:
  "grants_on r [] = []" "grants_on r (xs @ ys) = grants_on r xs @ grants_on r ys"
  "grants_on r [EffWake wh ph tk] = []" "grants_on r [EffSend p msg wh ph] = []"
  "grants_on r (EffSend p msg wh ph # effs) = grants_on r effs"
  by (simp_all add: grants_on_def)

lemma grants_on_grant [simp]: "grants_on r [EffTrace GRANT_KIND (grant_trace r' m t d)] = (if r' = r then [m] else [])"
  by (simp add: grants_on_def grant_trace_def)

lemma grants_on_fault [simp]: "grants_on r [EffTrace FAULT_KIND fs] = []"
proof -
  have "FAULT_KIND \<noteq> GRANT_KIND" by (simp add: FAULT_KIND_def GRANT_KIND_def)
  then have "grant_out (EffTrace FAULT_KIND fs) = []" by (cases "EffTrace FAULT_KIND fs" rule: grant_out.cases) auto
  then show ?thesis by (simp add: grants_on_def)
qed

text \<open>Master \<open>m\<close> waits at region \<open>r\<close>, and the grants given to others since are paid for by the cursor's advance.\<close>

definition waiting :: "nat \<Rightarrow> nat \<Rightarrow> nat \<Rightarrow> nat \<Rightarrow> CtxEffect list \<Rightarrow> MultiMasterBus \<Rightarrow> bool" where
  "waiting n r m budget effs b \<longleftrightarrow> mm_inv b \<and> length (mc_masters (mb_config b)) = n \<and> r < length (mb_regions b) \<and> m < n
     \<and> rs_queues (mb_regions b ! r) ! m \<noteq> []
     \<and> length (grants_on r effs) + rr_distance n (rs_cursor (mb_regions b ! r)) m \<le> budget"

lemma waiting_grant:
  assumes w: "waiting n r m budget effs b" and i: "i < length (mb_regions b)" and idle: "rs_active (mb_regions b ! i) = None"
    and m': "m' < n" and q: "rs_queues (mb_regions b ! i) ! m' = req # rest" and t: "request_txn req = Some (t, wr)"
    and scan: "\<forall>k<rr_distance n (rs_cursor (mb_regions b ! i)) m'. rs_queues (mb_regions b ! i) ! ((rs_cursor (mb_regions b ! i) + k) mod n) = []"
    and room: "mb_next b + 1 \<le> u64_max" and other: "m \<notin> set (grants_on r effs')"
    and effs': "grants_on r effs' = (if i = r then [m'] else [])"
  shows "waiting n r m budget (effs @ effs') (granted_bus b i m' req rest)"
proof -
  let ?b = "granted_bus b i m' req rest" and ?c = "rs_cursor (mb_regions b ! r)"
  have inv: "mm_inv b" and n: "length (mc_masters (mb_config b)) = n" and r: "r < length (mb_regions b)" and m: "m < n"
    using w by (auto simp: waiting_def)
  have c: "?c < n" using mm_inv_regions(2) [OF inv r] n by (simp add: region_inv_def)
  have inv': "mm_inv ?b" using mm_inv_granted [OF inv i idle _ q t room] m' n by simp
  show ?thesis
  proof (cases "i = r")
    case False
    then have "mb_regions ?b ! r = mb_regions b ! r" using t by (simp add: granted_bus_def)
    with w inv' False effs' show ?thesis by (simp add: waiting_def)
  next
    case True
    then have ne: "m' \<noteq> m" using effs' other by auto
    have reg: "mb_regions ?b ! r = granted_state (mb_regions b ! r) n m' t wr (mb_next b) rest"
      using True t r n by (simp add: granted_bus_def)
    let ?k = "rr_distance n ?c m'"
    have "?k < rr_distance n ?c m"
    proof (rule ccontr)
      assume "\<not> ?k < rr_distance n ?c m"
      moreover have "rr_distance n ?c m \<noteq> ?k" using at_rr_distance [OF c m] at_rr_distance [OF c m'] ne by metis
      ultimately have "rs_queues (mb_regions b ! r) ! ((?c + rr_distance n ?c m) mod n) = []" using scan True by simp
      then show False using w at_rr_distance [OF c m] by (simp add: waiting_def)
    qed
    then have "rr_distance n ((m' + 1) mod n) m + ?k + 1 = rr_distance n ?c m"
      using rr_distance_next [OF c m, of ?k] at_rr_distance [OF c m'] by simp
    then show ?thesis
      using w inv' True effs' ne reg m' by (simp add: waiting_def granted_state_def)
  qed
qed

lemma mm_grant_extends: "mm_grant b i m ctx = Ok (b', ctx') \<Longrightarrow> \<exists>more. ctx_out ctx' = ctx_out ctx @ more"
  by (cases "rs_queues (mb_regions b ! i) ! m"; cases "request_txn (hd (rs_queues (mb_regions b ! i) ! m))")
    (auto simp: mm_grant_def Let_def ctx_send_def ctx_trace_def split: if_splits)

lemma arbitrate_region_extends:
  "arbitrate_region b i ctx = Ok (b', ctx') \<Longrightarrow> \<exists>more. ctx_out ctx' = ctx_out ctx @ more"
  by (cases "select_master (mb_regions b ! i)")
    (auto simp: arbitrate_region_def dest: mm_grant_extends split: if_splits option.splits)

lemma arbitrate_from_extends: "arbitrate_from is b ctx = Ok (b', ctx') \<Longrightarrow> \<exists>more. ctx_out ctx' = ctx_out ctx @ more"
proof (induction "is" arbitrary: b ctx)
  case (Cons i "is")
  then obtain b1 c1 where "arbitrate_region b i ctx = Ok (b1, c1)" "arbitrate_from is b1 c1 = Ok (b', ctx')" by auto
  then show ?case using Cons.IH arbitrate_region_extends by fastforce
qed simp

lemma waiting_quiet:
  assumes "waiting n r m budget effs b" "mm_inv b'" "mb_config b' = mb_config b" "length (mb_regions b') = length (mb_regions b)"
    and "rs_cursor (mb_regions b' ! r) = rs_cursor (mb_regions b ! r)" "rs_queues (mb_regions b' ! r) ! m \<noteq> []" "grants_on r effs' = []"
  shows "waiting n r m budget (effs @ effs') b'"
  using assms by (simp add: waiting_def)

lemma waiting_arbitrate_from:
  "waiting n r m budget (effs @ ctx_out ctx) b \<Longrightarrow> list_all (\<lambda>i. i < length (mb_regions b)) is \<Longrightarrow>
     arbitrate_from is b ctx = Ok (b', ctx') \<Longrightarrow> m \<notin> set (grants_on r (ctx_out ctx')) \<Longrightarrow>
     waiting n r m budget (effs @ ctx_out ctx') b'"
proof (induction "is" arbitrary: b ctx)
  case (Cons i "is")
  obtain b1 c1 where run: "arbitrate_region b i ctx = Ok (b1, c1)" "arbitrate_from is b1 c1 = Ok (b', ctx')" using Cons.prems(3) by auto
  have inv: "mm_inv b" and n: "length (mc_masters (mb_config b)) = n" using Cons.prems(1) by (auto simp: waiting_def)
  have i: "i < length (mb_regions b)" using Cons.prems(2) by simp
  have len: "length (mb_regions b1) = length (mb_regions b)" using grant_no_panic(2) [OF inv i run(1)] by blast
  have rest: "list_all (\<lambda>i. i < length (mb_regions b1)) is" using Cons.prems(2) len by simp
  from inv i show ?case
  proof (cases rule: arbitrate_region_cases [where ctx = ctx])
    case busy
    then show ?thesis using run Cons.IH [OF Cons.prems(1) _ _ Cons.prems(4)] Cons.prems(2) by simp
  next
    case (grant m' req rest' t wr)
    define delta where "delta = [EffSend (n + i) (MsgMemV1 (with_txn req (mb_next b))) WhenNow PhTransfer,
      EffTrace GRANT_KIND (grant_trace i m' t (mb_next b))]"
    have run': "mm_grant b i m' ctx = Ok (b1, c1)" using grant(6) run(1) by simp
    have room: "mb_next b + 1 \<le> u64_max" and b1: "b1 = granted_bus b i m' req rest'" and c1: "ctx_out c1 = ctx_out ctx @ delta"
      using run' [unfolded mm_grant_is [OF inv i grant(2,3,4)]] n
      by (auto simp: ctx_send_def ctx_trace_def delta_def split: if_splits)
    have effs: "grants_on r delta = (if i = r then [m'] else [])" by (simp add: delta_def)
    have "\<exists>more. ctx_out ctx' = ctx_out c1 @ more" using arbitrate_from_extends [OF run(2)] .
    then obtain more where more: "ctx_out ctx' = ctx_out c1 @ more" ..
    have other: "m \<notin> set (grants_on r delta)" using Cons.prems(4) more c1 by auto
    have "waiting n r m budget ((effs @ ctx_out ctx) @ delta) b1"
      unfolding b1 using grant(2,5) n by (intro waiting_grant [OF Cons.prems(1) i grant(1) _ grant(3,4) _ room other effs]) simp_all
    then have "waiting n r m budget (effs @ ctx_out c1) b1" using c1 by simp
    from Cons.IH [OF this rest run(2) Cons.prems(4)] show ?thesis .
  qed
qed auto

lemma request_frame:
  assumes inv: "mm_inv b" and m: "m < length (mc_masters (mb_config b))" and ok: "mm_request b m msg ctx = Ok (b', ctx')" "ctx_out ctx = []"
  shows "grants_on r (ctx_out ctx') = [] \<and> (b' = b \<or> (\<exists>i q. i < length (mb_regions b) \<and> b' = enqueued b i m q \<and> mm_inv b'))"
proof -
  note run = ok(1) [unfolded mm_request_cases [OF inv m]]
  obtain t w where t: "request_txn msg = Some (t, w)" and new: "(m, t) \<notin> txn_key ` set (live b)"
    using run by (auto split: option.splits if_splits prod.splits)
  show ?thesis
  proof (cases "target_of (mb_config b) msg")
    case None
    then have "mm_fault b m msg ctx = Ok ctx' \<and> b' = b" using run t new by (auto split: if_splits)
    moreover from this have "grants_on r (ctx_out ctx') = []"
      using ok(2) t by (cases msg) (auto simp: mm_fault_def ctx_send_def ctx_trace_def)
    ultimately show ?thesis by simp
  next
    case (Some rf)
    obtain i f where rf: "rf = (i, f)" by fastforce
    let ?q = "at_offset msg (f - rg_base (mc_regions (mb_config b) ! i))"
    have cfg: "mm_config_ok (mb_config b)" using inv by (simp add: mm_inv_def)
    have i: "i < length (mb_regions b)" and q: "queued_ok (rg_size (mc_regions (mb_config b) ! i)) ?q"
      using target_in_region [OF cfg] Some rf mm_inv_regions(1) [OF inv] by auto
    have "mm_inv (enqueued b i m ?q)" using mm_inv_enqueued [OF inv i m _ new q] t by simp
    moreover have "b' = enqueued b i m ?q \<and> grants_on r (ctx_out ctx') = []"
      using run t new Some rf ok(2) by (auto simp: ctx_wake_self_def split: if_splits)
    ultimately show ?thesis using i by blast
  qed
qed

lemma waiting_event:
  assumes w: "waiting n r m budget effs b" and out: "ctx_out ctx = []" and ok: "mm_handle_event b ev ctx = Ok (b', ctx')"
    and other: "m \<notin> set (grants_on r (ctx_out ctx'))"
  shows "waiting n r m budget (effs @ ctx_out ctx') b'"
proof -
  have inv: "mm_inv b" and r: "r < length (mb_regions b)" and m: "m < n" and n: "length (mc_masters (mb_config b)) = n"
    and q: "rs_queues (mb_regions b ! r) ! m \<noteq> []" using w by (auto simp: waiting_def)
  have count: "master_count b = Ok n" using mm_inv_regions(3) [OF inv] n by (simp add: master_count_def)
  have len: "length (rs_queues (mb_regions b ! r)) = n" using mm_inv_queues [OF inv nth_mem [OF r]] n by simp
  consider (request) port msg where "port < n" "mm_request b port msg ctx = Ok (b', ctx')"
    | (response) i msg where "i < length (mb_regions b)" "mm_response b i msg ctx = Ok (b', ctx')"
    | (wake) "arbitrate_from [0..<length (mb_regions b)] b ctx = Ok (b', ctx')"
    using ok by (cases "(b, ev, ctx)" rule: mm_handle_event.cases) (auto simp: count arbitrate_def split: if_splits)
  then show ?thesis
  proof cases
    case request
    from request_frame [OF inv _ request(2) out, of r] request(1) n
    have quiet: "grants_on r (ctx_out ctx') = []" and
      b': "b' = b \<or> (\<exists>i q. i < length (mb_regions b) \<and> b' = enqueued b i port q \<and> mm_inv b')" by auto
    from b' show ?thesis
    proof (elim disjE exE conjE)
      assume "b' = b" then show ?thesis using w quiet inv q by (intro waiting_quiet [OF w]) simp_all
    next
      fix i x assume i: "i < length (mb_regions b)" "b' = enqueued b i port x" "mm_inv b'"
      then show ?thesis
        using q quiet m len r request(1) by (intro waiting_quiet [OF w]) (auto simp: enqueued_def nth_list_update)
    qed
  next
    case response
    note run = response(2) [unfolded mm_response_cases [OF inv response(1)]]
    obtain a where a: "rs_active (mb_regions b ! i) = Some a" using run by (auto split: option.splits if_splits)
    have "b' = freed_bus b i \<and> grants_on r (ctx_out ctx') = []"
      using run a out by (auto simp: ctx_send_def ctx_wake_self_def split: option.splits if_splits)
    then show ?thesis
      using q mm_inv_freed [OF inv response(1) a] response(1) r
      by (intro waiting_quiet [OF w]) (auto simp: freed_bus_def nth_list_update)
  next
    case wake
    show ?thesis by (rule waiting_arbitrate_from [OF _ _ wake other]) (use w out in \<open>simp_all add: list_all_iff\<close>)
  qed
qed

text \<open>
  C12. Arbitration is fair: while a master waits at a region, from any reachable state and over any further
  deliveries, the region is granted to others at most as many times as there are masters between the
  cursor and the waiting one, so fewer times than there are masters.
\<close>

theorem mm_bounded_bypass:
  assumes "mm_hist cfg bus evs effs" and "mm_run bus effs' bus'"
    and "r < length (mb_regions bus)" "m < length (mc_masters cfg)" "rs_queues (mb_regions bus ! r) ! m \<noteq> []"
    and "m \<notin> set (grants_on r effs')"
  shows "length (grants_on r effs') \<le> rr_distance (length (mc_masters cfg)) (rs_cursor (mb_regions bus ! r)) m
    \<and> length (grants_on r effs') < length (mc_masters cfg) \<and> rs_queues (mb_regions bus' ! r) ! m \<noteq> []"
proof -
  let ?n = "length (mc_masters cfg)"
  have good: "mm_inv bus" "mb_config bus = cfg" using mm_hist_good [OF assms(1)] by (auto simp: mm_good_def)
  have start: "waiting ?n r m (rr_distance ?n (rs_cursor (mb_regions bus ! r)) m) [] bus"
    using good assms(3-5) by (simp add: waiting_def)
  from assms(2,6) have "waiting ?n r m (rr_distance ?n (rs_cursor (mb_regions bus ! r)) m) effs' bus'"
  proof induction
    case stop
    show ?case by (rule start)
  next
    case (step effs b ctx ev b' ctx')
    then show ?case by (intro waiting_event) auto
  qed
  moreover have "rr_distance ?n (rs_cursor (mb_regions bus ! r)) m < ?n" using assms(4) by (intro rr_distance_less) linarith
  ultimately show ?thesis by (auto simp: waiting_def)
qed

subsection \<open>The order of one phase\<close>

definition accept :: "MultiMasterBus \<Rightarrow> nat \<Rightarrow> MemMsg \<Rightarrow> MultiMasterBus" where
  "accept b m msg = (case target_of (mb_config b) msg of
      Some (r, f) \<Rightarrow> enqueued b r m (at_offset msg (f - rg_base (mc_regions (mb_config b) ! r))) | None \<Rightarrow> b)"

definition accept_effects :: "MultiMasterBus \<Rightarrow> nat \<Rightarrow> MemMsg \<Rightarrow> SimContext \<Rightarrow> (SimContext, Abort) result" where
  "accept_effects b m msg ctx = (case target_of (mb_config b) msg of
      Some _ \<Rightarrow> ctx_wake_self WhenNow PhTransfer ARBITRATE ctx | None \<Rightarrow> mm_fault b m msg ctx)"

definition acceptable :: "MultiMasterBus \<Rightarrow> nat \<Rightarrow> MemMsg \<Rightarrow> SimContext \<Rightarrow> bool" where
  "acceptable b m msg ctx \<longleftrightarrow> ctx_phase ctx = PhRequest \<and> mem_access msg \<noteq> Some AccEmpty
     \<and> (\<exists>t w. request_txn msg = Some (t, w) \<and> (m, t) \<notin> txn_key ` set (live b))"

lemma mm_request_Ok_iff:
  assumes "mm_inv b" "m < length (mc_masters (mb_config b))"
  shows "mm_request b m msg ctx = Ok (b', ctx') \<longleftrightarrow>
    acceptable b m msg ctx \<and> b' = accept b m msg \<and> accept_effects b m msg ctx = Ok ctx'"
  by (auto simp: mm_request_cases [OF assms] acceptable_def accept_def accept_effects_def split: option.splits if_splits)

lemma request_event_iff:
  assumes "mm_inv b" "m < length (mc_masters (mb_config b))"
  shows "mm_handle_event b (DMessage m (MsgMemV1 msg)) ctx = Ok (b', ctx') \<longleftrightarrow>
    acceptable b m msg ctx \<and> b' = accept b m msg \<and> accept_effects b m msg ctx = Ok ctx'"
  using assms mm_inv_regions(3) [OF assms(1)] mm_request_Ok_iff [OF assms, of msg ctx b' ctx']
  by (simp add: master_count_def expect_u16_def)

lemma enqueued_commute:
  assumes "m \<noteq> m'" "r < length (mb_regions b)" "r' < length (mb_regions b)"
  shows "enqueued (enqueued b r m q) r' m' q' = enqueued (enqueued b r' m' q') r m q"
  using assms by (cases "r = r'") (auto simp: enqueued_def list_update_swap nth_list_update)

lemma accept_facts:
  assumes inv: "mm_inv b" and m: "m < length (mc_masters (mb_config b))" and ok: "acceptable b m msg ctx"
  shows "mm_inv (accept b m msg)" "mb_config (accept b m msg) = mb_config b"
    "m' \<noteq> m \<Longrightarrow> acceptable (accept b m msg) m' msg' ctx' \<longleftrightarrow> acceptable b m' msg' ctx'"
    "accept_effects (accept b m msg) m' msg' ctx' = accept_effects b m' msg' ctx'"
proof -
  obtain t w where t: "request_txn msg = Some (t, w)" "(m, t) \<notin> txn_key ` set (live b)" using ok by (auto simp: acceptable_def)
  have cfg: "mm_config_ok (mb_config b)" using inv by (simp add: mm_inv_def)
  show same: "mb_config (accept b m msg) = mb_config b" by (auto simp: accept_def enqueued_def split: option.split)
  then show "accept_effects (accept b m msg) m' msg' ctx' = accept_effects b m' msg' ctx'"
    unfolding accept_effects_def mm_fault_def master_port_def by simp
  have "mm_inv (accept b m msg) \<and> (mset (live (accept b m msg)) = mset (live b) \<or> mset (live (accept b m msg)) = add_mset (m, t, w) (mset (live b)))"
  proof (cases "target_of (mb_config b) msg")
    case (Some rf)
    obtain r f where rf: "rf = (r, f)" by fastforce
    have r: "r < length (mb_regions b)" using target_in_region(1) [OF cfg] Some rf mm_inv_regions(1) [OF inv] by simp
    have "m < length (rs_queues (mb_regions b ! r))" using mm_inv_queues [OF inv nth_mem [OF r]] m by simp
    then show ?thesis
      using mm_inv_enqueued [OF inv r m] live_enqueued(1) [OF r] target_in_region(2) [OF cfg] Some rf t by (simp add: accept_def)
  qed (simp add: accept_def inv)
  then have inv': "mm_inv (accept b m msg)" and live: "set (live (accept b m msg)) = set (live b)
      \<or> set (live (accept b m msg)) = insert (m, t, w) (set (live b))" by (auto dest: mset_eq_setD [of _ "(m, t, w) # live b", simplified] mset_eq_setD)
  then show "mm_inv (accept b m msg)" by blast
  assume "m' \<noteq> m"
  with live have "(m', t') \<in> txn_key ` set (live (accept b m msg)) \<longleftrightarrow> (m', t') \<in> txn_key ` set (live b)" for t'
    by (auto simp: txn_key_def)
  then show "acceptable (accept b m msg) m' msg' ctx' \<longleftrightarrow> acceptable b m' msg' ctx'" by (simp add: acceptable_def)
qed

lemma accept_commute:
  assumes inv: "mm_inv b" and "m \<noteq> m'"
  shows "accept (accept b m msg) m' msg' = accept (accept b m' msg') m msg"
proof -
  have cfg: "mm_config_ok (mb_config b)" using inv by (simp add: mm_inv_def)
  have len: "r < length (mb_regions b)" if "target_of (mb_config b) x = Some (r, f)" for x r f
    using target_in_region(1) [OF cfg that] mm_inv_regions(1) [OF inv] by simp
  have [simp]: "mb_config (enqueued c r k q) = mb_config c" for c r k q by (simp add: enqueued_def)
  show ?thesis
    using enqueued_commute [OF assms(2)] len by (auto simp: accept_def split: option.split)
qed

text \<open>
  C14. The order in which the requests of different masters are delivered within a phase does not matter:
  swapped, both are taken with the same effects and leave the bus in the same state, so arbitration,
  which reads only that state, grants the same.
\<close>

theorem mm_order_independent:
  assumes "mm_hist cfg bus evs effs" and "m \<noteq> m'" "m < length (mc_masters cfg)" "m' < length (mc_masters cfg)"
    and "mm_handle_event bus (DMessage m (MsgMemV1 msg)) ctx = Ok (b1, ctx1)"
    and "mm_handle_event b1 (DMessage m' (MsgMemV1 msg')) ctx' = Ok (b2, ctx2)"
  shows "\<exists>b. mm_handle_event bus (DMessage m' (MsgMemV1 msg')) ctx' = Ok (b, ctx2)
    \<and> mm_handle_event b (DMessage m (MsgMemV1 msg)) ctx = Ok (b2, ctx1)"
proof -
  have inv: "mm_inv bus" and cfg: "mb_config bus = cfg" using mm_hist_good [OF assms(1)] by (auto simp: mm_good_def)
  have first: "acceptable bus m msg ctx" "b1 = accept bus m msg" "accept_effects bus m msg ctx = Ok ctx1"
    using assms(3,5) cfg by (simp_all only: request_event_iff [OF inv])
  note f1 = accept_facts [OF inv _ first(1)]
  have b1: "mm_inv b1" "mb_config b1 = cfg" using f1(1,2) assms(3) cfg first(2) by auto
  have second: "acceptable b1 m' msg' ctx'" "b2 = accept b1 m' msg'" "accept_effects b1 m' msg' ctx' = Ok ctx2"
    using assms(4,6) b1(2) by (simp_all only: request_event_iff [OF b1(1)])
  have other: "acceptable bus m' msg' ctx'" "accept_effects bus m' msg' ctx' = Ok ctx2"
    using f1(3,4) second(1,3) first(2) assms(2,3) cfg by auto
  let ?b = "accept bus m' msg'"
  note f2 = accept_facts [OF inv _ other(1)]
  have b: "mm_inv ?b" "mb_config ?b = cfg" using f2(1,2) assms(4) cfg by auto
  have "mm_handle_event bus (DMessage m' (MsgMemV1 msg')) ctx' = Ok (?b, ctx2)"
    using assms(4) cfg other by (simp only: request_event_iff [OF inv])
  moreover have "acceptable ?b m msg ctx" "accept_effects ?b m msg ctx = Ok ctx1"
    using f2(3,4) first assms(2,4) cfg by auto
  then have "mm_handle_event ?b (DMessage m (MsgMemV1 msg)) ctx = Ok (b2, ctx1)"
    using assms(3) b(2) second(2) first(2) accept_commute [OF inv assms(2)] by (simp only: request_event_iff [OF b(1)])
  ultimately show ?thesis by blast
qed

subsection \<open>Restoring a snapshot\<close>

lemma insert_queue_is:
  "list_all (\<lambda>q. request_txn q \<noteq> None) q \<Longrightarrow> insert_queue m q seen =
     (if distinct (map txn_key (concat (map (live_key m) q))) \<and> txn_key ` set (concat (map (live_key m) q)) \<inter> seen = {}
      then Ok (seen \<union> txn_key ` set (concat (map (live_key m) q))) else Err live_twice)"
proof (induction q arbitrary: seen)
  case (Cons x q)
  obtain t w where t: "request_txn x = Some (t, w)" using Cons.prems by auto
  show ?case using Cons.IH [of "insert (m, t) seen"] Cons.prems t by (auto simp: live_key_def txn_key_def)
qed simp

lemma insert_queues_is:
  "list_all (\<lambda>(m, q). m \<le> 65535 \<and> list_all (\<lambda>q. request_txn q \<noteq> None) q) qs \<Longrightarrow> insert_queues qs seen =
     (let ks = concat (map (\<lambda>(m, q). concat (map (live_key m) q)) qs)
      in if distinct (map txn_key ks) \<and> txn_key ` set ks \<inter> seen = {} then Ok (seen \<union> txn_key ` set ks) else Err live_twice)"
proof (induction qs arbitrary: seen)
  case (Cons mq qs)
  obtain m q where mq: "mq = (m, q)" by fastforce
  have q: "list_all (\<lambda>q. request_txn q \<noteq> None) q" "m \<le> 65535" using Cons.prems mq by auto
  define ks where "ks = concat (map (live_key m) q)"
  define ks' where "ks' = concat (map (\<lambda>(m, q). concat (map (live_key m) q)) qs)"
  have all: "concat (map (\<lambda>(m, q). concat (map (live_key m) q)) (mq # qs)) = ks @ ks'" by (simp add: mq ks_def ks'_def)
  have IH: "insert_queues qs seen' = (if distinct (map txn_key ks') \<and> txn_key ` set ks' \<inter> seen' = {}
      then Ok (seen' \<union> txn_key ` set ks') else Err live_twice)" for seen'
    using Cons by (simp add: ks'_def Let_def)
  have head: "insert_queue m q seen = (if distinct (map txn_key ks) \<and> txn_key ` set ks \<inter> seen = {}
      then Ok (seen \<union> txn_key ` set ks) else Err live_twice)"
    unfolding ks_def by (rule insert_queue_is [OF q(1)])
  show ?case
    unfolding all using q(2)
    by (simp add: mq IH head Let_def image_Un Int_Un_distrib Int_Un_distrib2) (simp add: Un_assoc Int_commute conj_ac)
qed (simp add: Let_def)

lemma txn_key_of: "txn_key (m, t, w) = (m, t)"
  by (simp add: txn_key_def)

definition region_requests :: "RegionState \<Rightarrow> bool" where
  "region_requests s \<longleftrightarrow> length (rs_queues s) \<le> 65535 \<and> list_all (list_all (\<lambda>q. request_txn q \<noteq> None)) (rs_queues s)"

lemma check_live_Ok:
  "list_all region_requests ss \<Longrightarrow> check_live ss seen down = Ok u \<longleftrightarrow>
     distinct (map txn_key (concat (map region_live ss))) \<and> txn_key ` set (concat (map region_live ss)) \<inter> seen = {}
     \<and> distinct (concat (map active_downstream ss)) \<and> set (concat (map active_downstream ss)) \<inter> down = {}"
proof (induction ss arbitrary: seen down)
  case (Cons s ss)
  have "list_all (\<lambda>(m, q). m \<le> 65535 \<and> list_all (\<lambda>q. request_txn q \<noteq> None) q) (enumerate 0 (rs_queues s))"
    using Cons.prems by (force simp: region_requests_def list_all_iff in_set_enumerate_eq)
  note queues = insert_queues_is [OF this, folded queue_live_def]
  have IH: "check_live ss seen' down' = Ok u \<longleftrightarrow> distinct (map txn_key (concat (map region_live ss)))
      \<and> txn_key ` set (concat (map region_live ss)) \<inter> seen' = {}
      \<and> distinct (concat (map active_downstream ss)) \<and> set (concat (map active_downstream ss)) \<inter> down' = {}" for seen' down'
    using Cons by simp
  define rest where "rest = concat (map region_live ss)"
  define drest where "drest = concat (map active_downstream ss)"
  define qs where "qs = queue_live (rs_queues s)"
  have shape: "concat (map region_live (s # ss)) = active_live s @ qs @ rest"
    "concat (map active_downstream (s # ss)) = active_downstream s @ drest"
    by (simp_all add: region_live_def rest_def drest_def qs_def)
  show ?case
    unfolding shape using IH [folded rest_def drest_def] queues [folded qs_def]
    by (cases "rs_active s")
      (auto simp: insert_active_def active_live_def active_downstream_def Let_def txn_key_of image_Un Int_Un_distrib
        Int_Un_distrib2 Int_commute split: if_splits)
qed simp

text \<open>Reading the parts back.\<close>

lemma mm_read_regions_written:
  "list_all region_fits rs \<Longrightarrow> mm_read_regions rs (concat (map write_region rs) @ rest) = Ok ((), rest)"
  by (induction rs) (simp_all add: write_region_def region_fits_def snap_bind u64_max_def)

lemma mm_read_masters_written: "list_all str_fits ms \<Longrightarrow> mm_read_masters ms (concat (map w_str ms) @ rest) = Ok ((), rest)"
  by (induction ms) (simp_all add: snap_bind)

definition mm_config_fits :: "MultiMasterBusConfig \<Rightarrow> bool" where
  "mm_config_fits cfg \<longleftrightarrow> list_all region_fits (mc_regions cfg) \<and> list_all str_fits (mc_masters cfg)"

lemma mm_read_config_written:
  assumes "mm_config_ok cfg" "mm_config_fits cfg"
  shows "mm_read_config cfg (mm_write_config cfg @ rest) = Ok ((), rest)"
  using assms mm_read_regions_written mm_read_masters_written
  by (simp add: mm_read_config_def mm_write_config_def mm_config_ok_def mm_config_fits_def snap_bind)

definition active_fits :: "ActiveTxn option \<Rightarrow> bool" where
  "active_fits active = (case active of None \<Rightarrow> True | Some a \<Rightarrow> ac_original a \<le> u64_max \<and> ac_downstream a \<le> u64_max)"

lemma mm_read_active_written:
  assumes "active_ok masters nxt s" "masters \<le> 65535" "active_fits (rs_active s)"
  shows "mm_read_active masters nxt (mm_write_active (rs_active s) @ rest) = Ok (rs_active s, rest)"
  using assms by (cases "rs_active s")
    (auto simp: mm_read_active_def mm_write_active_def active_ok_def active_fits_def snap_bind u64_width unat_of_nat)

lemma mm_read_queue_written:
  assumes "list_all (queued_ok sz) q" "list_all mem_fits q" "length q < 256 ^ 4"
  shows "rd_bind r_len (\<lambda>n. r_many n (mm_read_queued sz)) (mm_write_queue q @ rest) = Ok (q, rest)"
proof -
  have "mm_read_queued sz (w_mem m @ r) = Ok (m, r)" if "queued_ok sz m" "mem_fits m" for m r
    using that by (auto simp: mm_read_queued_def queued_ok_def scmem.bind_enc split: option.splits ByteAccess.splits)
  then have "r_many (length q) (mm_read_queued sz) (concat (map w_mem q) @ rest) = Ok (q, rest)"
    using assms(1,2) by (induction q arbitrary: rest) simp_all
  then show ?thesis using assms(3) by (simp add: mm_write_queue_def sclen.bind_enc)
qed

definition region_state_fits :: "RegionState \<Rightarrow> bool" where
  "region_state_fits s \<longleftrightarrow> active_fits (rs_active s) \<and> list_all (\<lambda>q. length q < 256 ^ 4 \<and> list_all mem_fits q) (rs_queues s)"

lemma mm_read_region_written:
  assumes inv: "region_inv masters nxt rg s" and m: "masters \<le> 65535" and fits: "region_state_fits s"
  shows "mm_read_region masters nxt rg (mm_write_region s @ rest) = Ok (s, rest)"
proof -
  have queues: "r_many (length qs) (rd_bind r_len (\<lambda>n. r_many n (mm_read_queued (rg_size rg)))) (concat (map mm_write_queue qs) @ rest) = Ok (qs, rest)"
    if "list_all (list_all (queued_ok (rg_size rg))) qs" "list_all (\<lambda>q. length q < 256 ^ 4 \<and> list_all mem_fits q) qs" for qs rest
    using that mm_read_queue_written by (induction qs arbitrary: rest) simp_all
  have "unat (of_nat (rs_cursor s) :: u16) = rs_cursor s" using inv m by (simp add: region_inv_def unat_of_nat)
  then show ?thesis
    using inv m fits queues [of "rs_queues s" rest]
    by (simp add: mm_read_region_def mm_write_region_def region_inv_def region_state_fits_def mm_read_active_written sc16.bind_enc)
qed

lemma mm_read_all_written:
  assumes "masters \<le> 65535"
  shows "list_all2 (region_inv masters nxt) rgs ss \<Longrightarrow> list_all region_state_fits ss \<Longrightarrow>
     mm_read_all masters nxt rgs (concat (map mm_write_region ss) @ rest) = Ok (ss, rest)"
  by (induction rgs ss arbitrary: rest rule: list_all2_induct) (simp_all add: mm_read_region_written [OF _ assms])

lemma region_inv_requests: "region_inv masters nxt rg s \<Longrightarrow> masters \<le> 65535 \<Longrightarrow> region_requests s"
  by (fastforce simp: region_inv_def region_requests_def list_all_iff dest: queued_request)

lemma mm_restore_written:
  assumes "mm_inv bus" and "mm_config_fits (mb_config bus)" "list_all region_state_fits (mb_regions bus)"
    and "mb_config bus\<^sub>0 = mb_config bus"
  shows "mm_restore bus\<^sub>0 (mm_snapshot bus @ rest) = Ok (bus, rest)"
proof -
  let ?cfg = "mb_config bus"
  have cfg: "mm_config_ok ?cfg" and inv: "list_all2 (region_inv (length (mc_masters ?cfg)) (mb_next bus)) (mc_regions ?cfg) (mb_regions bus)"
    using assms(1) by (simp_all add: mm_inv_def)
  have m: "length (mc_masters ?cfg) \<le> 65535" using mm_inv_regions(3) [OF assms(1)] .
  have "list_all region_requests (mb_regions bus)"
    using inv m by (auto simp: list_all_length list_all2_conv_all_nth intro: region_inv_requests)
  from check_live_Ok [OF this, of "{}" "{}" "()"] have "check_live (mb_regions bus) {} {} = Ok ()"
    using assms(1) by (simp add: mm_inv_def live_def downstreams_def)
  moreover have "bus\<^sub>0\<lparr>mb_regions := mb_regions bus, mb_next := mb_next bus\<rparr> = bus" using assms(4) by (cases bus; cases bus\<^sub>0) simp
  moreover have "mb_next bus \<le> u64_max" using assms(1) by (simp add: mm_inv_def)
  ultimately show ?thesis
    using mm_read_config_written [OF cfg assms(2)] mm_read_all_written [OF m inv assms(3)] assms(4)
    by (simp add: mm_restore_def mm_snapshot_def sc64.bind_enc u64_width)
qed

text \<open>
  The snapshot of a bus in any state that satisfies the invariant restores to exactly that state, in
  any bus of the same configuration, and the reader consumes exactly its bytes.
\<close>

theorem mm_restore_snapshot:
  assumes "mm_inv bus" and "mm_config_fits (mb_config bus)" "list_all region_state_fits (mb_regions bus)"
    and "mb_config bus\<^sub>0 = mb_config bus"
  shows "mm_restore bus\<^sub>0 (mm_snapshot bus @ rest) = Ok (bus, rest)"
  using assms by (rule mm_restore_written)

lemma r_many_Ok:
  assumes "\<And>bs x rest. rd bs = Ok (x, rest) \<Longrightarrow> P x"
  shows "r_many n rd bs = Ok (xs, rest) \<Longrightarrow> length xs = n \<and> list_all P xs"
  by (induction n arbitrary: bs xs rest) (fastforce simp: rd_bind_Ok_iff dest: assms)+

lemma mm_read_region_sound:
  assumes "mm_read_region masters nxt rg bs = Ok (s, rest)"
  shows "region_inv masters nxt rg s"
proof -
  have queued: "queued_ok sz m" if "mm_read_queued sz bs = Ok (m, r)" for sz bs m r
    using that by (cases "r_mem bs")
      (auto simp: mm_read_queued_def queued_ok_def rd_bind_def split: option.splits ByteAccess.splits if_splits)
  have queue: "list_all (queued_ok (rg_size rg)) q"
    if "rd_bind r_len (\<lambda>n. r_many n (mm_read_queued (rg_size rg))) bs = Ok (q, r)" for bs q r
    using that r_many_Ok [where P = "queued_ok (rg_size rg)", OF queued] by (auto simp: rd_bind_Ok_iff)
  obtain active cursor qs bs1 bs2 where parts: "mm_read_active masters nxt bs = Ok (active, bs1)" "unat (cursor :: u16) < masters"
    "r_many masters (rd_bind r_len (\<lambda>n. r_many n (mm_read_queued (rg_size rg)))) bs2 = Ok (qs, rest)"
    "s = \<lparr>rs_active = active, rs_queues = qs, rs_cursor = unat cursor\<rparr>"
    using assms by (auto simp: mm_read_region_def rd_bind_Ok_iff not_le split: if_splits)
  have "active_ok masters nxt s"
    using parts(1,4) by (auto simp: mm_read_active_def active_ok_def mem_bad_tag_def rd_bind_Ok_iff split: if_splits)
  with parts r_many_Ok [where P = "list_all (queued_ok (rg_size rg))", OF queue parts(3)] show ?thesis by (simp add: region_inv_def)
qed

lemma mm_read_all_sound: "mm_read_all masters nxt rgs bs = Ok (ss, rest) \<Longrightarrow> list_all2 (region_inv masters nxt) rgs ss"
  by (induction rgs arbitrary: bs ss rest) (auto simp: rd_bind_Ok_iff dest: mm_read_region_sound)

text \<open>
  Whatever bytes a restore accepts, the bus has its own configuration and satisfies the invariant:
  every index, cursor and queued request is in range, no (master, transaction) is live twice and no
  two regions share a downstream transaction, so no delivery makes the restored bus panic.
\<close>

theorem mm_restore_sound:
  assumes "MultiMasterBus_new cfg = Ok bus\<^sub>0" and "mm_restore bus\<^sub>0 bytes = Ok (bus, rest)"
  shows "mb_config bus = cfg \<and> mm_inv bus \<and> mm_handle_event bus ev ctx \<noteq> Err Panic"
proof -
  have cfg: "mm_config_ok cfg" "mb_config bus\<^sub>0 = cfg" using assms(1) by (auto simp: MultiMasterBus_new_iff)
  let ?M = "length (mc_masters cfg)"
  have m: "?M \<le> 65535" using cfg(1) by (simp add: mm_config_ok_def)
  have done_iff: "(case c of Err e \<Rightarrow> rd_fail e | Ok u \<Rightarrow> rd_return x) bs = Ok (y, r) \<longleftrightarrow> c = Ok () \<and> y = x \<and> r = bs"
    for c :: "(unit, RestoreError) result" and x y :: MultiMasterBus and bs r by (cases c) auto
  obtain nxt regions bs1 bs2 where parts: "r_u64 bs1 = Ok (nxt, bs2)" "mm_read_all ?M nxt (mc_regions cfg) bs2 = Ok (regions, rest)"
    "check_live regions {} {} = Ok ()" "bus = bus\<^sub>0\<lparr>mb_regions := regions, mb_next := nxt\<rparr>"
    using assms(2) cfg(2) by (auto simp: mm_restore_def rd_bind_Ok_iff done_iff)
  have inv: "list_all2 (region_inv ?M nxt) (mc_regions cfg) regions" by (rule mm_read_all_sound [OF parts(2)])
  then have "list_all region_requests regions"
    using m by (auto simp: list_all_length list_all2_conv_all_nth intro: region_inv_requests)
  from check_live_Ok [OF this, of "{}" "{}" "()"] parts(3) have
    "distinct (map txn_key (concat (map region_live regions)))" "distinct (concat (map active_downstream regions))" by auto
  with inv cfg r_u64_bound [OF parts(1)] parts(4) have "mb_config bus = cfg" "mm_inv bus"
    by (simp_all add: mm_inv_def live_def downstreams_def)
  then show ?thesis using mm_no_panic by blast
qed

subsection \<open>A small bus\<close>

definition tiny_mm_config :: MultiMasterBusConfig where
  "tiny_mm_config = \<lparr>mc_masters = [''cpu'', ''dma''], mc_regions = tiny_regions, mc_clock = 1\<rparr>"

definition idle_pair :: RegionState where
  "idle_pair = \<lparr>rs_active = None, rs_queues = [[], []], rs_cursor = 0\<rparr>"

definition tiny_mm_bus :: MultiMasterBus where
  "tiny_mm_bus = \<lparr>mb_config = tiny_mm_config, mb_regions = [idle_pair, idle_pair], mb_next = 0\<rparr>"

definition cpu_write :: MemMsg where "cpu_write = WriteReq 7 0x80000010 [1, 2]"
definition dma_read :: MemMsg where "dma_read = ReadReq 7 0x80000020 8"

lemma tiny_mm_new: "MultiMasterBus_new tiny_mm_config = Ok tiny_mm_bus"
  by (simp add: MultiMasterBus_new_def tiny_mm_config_def tiny_regions_def tiny_mm_bus_def mm_region_check_def mm_overlap_def
      region_last_def u64_max_def RegionState_idle_def idle_pair_def)

lemma tiny_mm_hist: "mm_hist tiny_mm_config tiny_mm_bus [] []"
  by (rule mm_hist.start [OF tiny_mm_new])

definition queued_bus :: MultiMasterBus where
  "queued_bus = tiny_mm_bus\<lparr>mb_regions := [\<lparr>rs_active = None, rs_queues = [[WriteReq 7 16 [1, 2]], [ReadReq 7 32 8]], rs_cursor = 0\<rparr>,
     idle_pair]\<rparr>"

lemmas tiny_mm_eval = mm_request_def is_live_def mm_routed_def mm_route_def mm_enqueue_def push_queue_def index_at_def expect_u16_def
  master_count_def ctx_wake_self_def ctx_effect_def request_ctx_def quiet_ctx_def tiny_mm_bus_def tiny_mm_config_def tiny_regions_def
  byte_access_def u64_max_def active_is_def queued_txn_def idle_pair_def cpu_write_def dma_read_def

definition cpu_bus :: MultiMasterBus where
  "cpu_bus = tiny_mm_bus\<lparr>mb_regions := [\<lparr>rs_active = None, rs_queues = [[WriteReq 7 16 [1, 2]], []], rs_cursor = 0\<rparr>, idle_pair]\<rparr>"

definition woken_ctx :: SimContext where
  "woken_ctx = request_ctx\<lparr>ctx_out := [EffWake WhenNow PhTransfer ARBITRATE]\<rparr>"

lemma cpu_queued: "mm_handle_event tiny_mm_bus (DMessage 0 (MsgMemV1 cpu_write)) request_ctx = Ok (cpu_bus, woken_ctx)"
  by (simp add: tiny_mm_eval cpu_bus_def woken_ctx_def)

lemma dma_queued: "mm_handle_event cpu_bus (DMessage 1 (MsgMemV1 dma_read)) request_ctx = Ok (queued_bus, woken_ctx)"
  by (simp add: tiny_mm_eval cpu_bus_def queued_bus_def woken_ctx_def)

lemma queued_hist:
  "mm_hist tiny_mm_config queued_bus [DMessage 0 (MsgMemV1 cpu_write), DMessage 1 (MsgMemV1 dma_read)]
     [EffWake WhenNow PhTransfer ARBITRATE, EffWake WhenNow PhTransfer ARBITRATE]"
proof -
  have out: "ctx_out request_ctx = []" "ctx_out woken_ctx = [EffWake WhenNow PhTransfer ARBITRATE]"
    by (simp_all add: request_ctx_def woken_ctx_def)
  show ?thesis
    using mm_hist.event [OF mm_hist.event [OF tiny_mm_hist out(1) cpu_queued] out(1) dma_queued] out(2) by simp
qed

text \<open>The requests of the processor and the controller, queued, then granted in two passes.\<close>

theorem mm_conservation_witness:
  "mset (collect (request_in tiny_mm_config) [DMessage 0 (MsgMemV1 cpu_write), DMessage 1 (MsgMemV1 dma_read)]) = mset (live queued_bus)
    \<and> mm_handle_event queued_bus (DWake ARBITRATE) quiet_ctx \<noteq> Err Panic"
  using mm_conservation [OF queued_hist, of "DWake ARBITRATE" quiet_ctx] by simp

theorem mm_grants_in_order_witness:
  "fifo_order queued_bus [(0, 0, 7), (0, 1, 7)] []"
proof -
  have "collect (accepted_in tiny_mm_config) [DMessage 0 (MsgMemV1 cpu_write), DMessage 1 (MsgMemV1 dma_read)] = [(0, 0, 7), (0, 1, 7)]"
    by (simp add: tiny_mm_config_def tiny_regions_def cpu_write_def dma_read_def target_of_def region_of_def byte_access_def u64_max_def
        region_last_def)
  with mm_grants_in_order [OF queued_hist] show ?thesis by simp
qed

lemma queued_run:
  "\<exists>effs b. mm_run queued_bus effs b \<and> grants_on 0 effs = [0]"
proof -
  have "\<exists>b c. mm_handle_event queued_bus (DWake ARBITRATE) quiet_ctx = Ok (b, c) \<and> grants_on 0 (ctx_out c) = [0]"
    by (simp add: queued_bus_def tiny_mm_bus_def tiny_mm_config_def idle_pair_def quiet_ctx_def master_count_def expect_u16_def ARBITRATE_def
        arbitrate_def arbitrate_region_def select_master_def mm_grant_def index_at_def u64_max_def mm_region_port_def tiny_regions_def
        ctx_send_def ctx_effect_def ctx_trace_def upt_rec)
  then obtain b c where run: "mm_handle_event queued_bus (DWake ARBITRATE) quiet_ctx = Ok (b, c)" "grants_on 0 (ctx_out c) = [0]" by blast
  have "mm_run queued_bus ([] @ ctx_out c) b" by (rule mm_run.step [OF mm_run.stop _ run(1)]) simp
  with run(2) show ?thesis by auto
qed

theorem mm_bounded_bypass_witness:
  "\<exists>effs b. mm_run queued_bus effs b \<and> grants_on 0 effs = [0] \<and> rs_queues (mb_regions b ! 0) ! 1 \<noteq> []"
proof -
  obtain effs b where run: "mm_run queued_bus effs b" "grants_on 0 effs = [0]" using queued_run by blast
  have "rs_queues (mb_regions b ! 0) ! 1 \<noteq> []"
    using mm_bounded_bypass [OF queued_hist run(1), of 0 1] run(2)
    by (simp add: queued_bus_def tiny_mm_bus_def tiny_mm_config_def)
  with run show ?thesis by blast
qed

theorem mm_order_independent_witness:
  "\<exists>b. mm_handle_event tiny_mm_bus (DMessage 1 (MsgMemV1 dma_read)) request_ctx = Ok (b, woken_ctx)
    \<and> mm_handle_event b (DMessage 0 (MsgMemV1 cpu_write)) request_ctx = Ok (queued_bus, woken_ctx)"
  by (rule mm_order_independent [OF tiny_mm_hist _ _ _ cpu_queued dma_queued]) (simp_all add: tiny_mm_config_def)

lemma tiny_mm_fits: "mm_config_fits tiny_mm_config" "list_all region_state_fits (mb_regions queued_bus)"
proof -
  have "str_fits ''cpu''" "str_fits ''dma''" by (rule ascii_str_fits, simp, simp)+
  then show "mm_config_fits tiny_mm_config" using tiny_regions_ok(2) by (simp add: mm_config_fits_def tiny_mm_config_def)
  show "list_all region_state_fits (mb_regions queued_bus)"
    by (simp add: queued_bus_def idle_pair_def region_state_fits_def active_fits_def u64_max_def)
qed

theorem mm_restore_snapshot_witness:
  "mm_restore tiny_mm_bus (mm_snapshot queued_bus @ [9]) = Ok (queued_bus, [9])"
proof -
  have "mm_inv queued_bus" using mm_hist_good [OF queued_hist] by (simp add: mm_good_def)
  then show ?thesis
    by (rule mm_restore_snapshot) (simp_all add: tiny_mm_fits, simp_all add: queued_bus_def tiny_mm_bus_def tiny_mm_fits)
qed

theorem mm_restore_sound_witness:
  "\<exists>bytes bus rest. mm_restore tiny_mm_bus bytes = Ok (bus, rest) \<and> mm_inv bus"
proof -
  have "mm_inv queued_bus" using mm_hist_good [OF queued_hist] by (simp add: mm_good_def)
  moreover have "mb_config queued_bus = tiny_mm_config" "mb_config tiny_mm_bus = tiny_mm_config" by (simp_all add: queued_bus_def tiny_mm_bus_def)
  ultimately have run: "mm_restore tiny_mm_bus (mm_snapshot queued_bus @ []) = Ok (queued_bus, [])"
    using tiny_mm_fits by (intro mm_restore_written) simp_all
  show ?thesis using mm_restore_sound [OF tiny_mm_new run] run by blast
qed

end
