(* ===== verification/Plat_Media.thy ===== *)
theory Plat_Media
  imports Btree Mem_Codec Rust_Fmt
begin

section \<open>The block media\<close>

text \<open>
  Models \<^verbatim>\<open>components/platform/src/media.rs\<close>: a disk of 512-byte blocks kept in an ordered map that never
  holds an all-zero block. The lemmas show that the media answers every request as an array of blocks
  does, that its storage is canonical, and that its snapshot restores. The set of bad blocks, a
  \<^verbatim>\<open>BTreeSet\<close>, is the ascending list its iterator yields.
\<close>

definition DISK_BLOCK :: usize where "DISK_BLOCK = 512"
definition MEDIA_PORT :: PortId where "MEDIA_PORT = 0"
definition DISK_READ_KIND :: string where "DISK_READ_KIND = ''platform.disk.read''"
definition DISK_WRITE_KIND :: string where "DISK_WRITE_KIND = ''platform.disk.write''"

record BlockMediaConfig =
  bm_capacity :: u64
  bm_latency :: LinkLatency
  bm_bad :: "u64 list"

record MediaImage =
  mi_hash :: "u8 list"
  mi_bytes :: "u8 list"

datatype BlockMediaConfigError = ZeroCapacity | PartialBlock usize | ImageTooLarge u64

fun BlockMediaConfigError_display :: "BlockMediaConfigError \<Rightarrow> string" where
  "BlockMediaConfigError_display ZeroCapacity = ''media capacity is 0 blocks''"
| "BlockMediaConfigError_display (PartialBlock len) = ''media image of '' @ fmt_dec len @ '' bytes is not a whole number of blocks''"
| "BlockMediaConfigError_display (ImageTooLarge blocks) = ''media image of '' @ fmt_dec blocks @ '' blocks is larger than the media''"

record SimpleBlockMedia =
  md_config :: BlockMediaConfig
  md_hash :: "u8 list"
  md_blocks :: "(u64, u8 list) btree"

definition media_check :: "SimpleBlockMedia \<Rightarrow> u64 \<Rightarrow> MediaError option" where
  "media_check m lba =
     (if lba \<ge> bm_capacity (md_config m) then Some MediaOutOfRange
      else if lba \<in> set (bm_bad (md_config m)) then Some MediaBadBlock
      else None)"

definition media_load :: "SimpleBlockMedia \<Rightarrow> u64 \<Rightarrow> u8 list" where
  "media_load m lba = (case bt_get (md_blocks m) lba of Some block \<Rightarrow> block | None \<Rightarrow> replicate DISK_BLOCK 0)"

definition media_store :: "SimpleBlockMedia \<Rightarrow> u64 \<Rightarrow> u8 list \<Rightarrow> SimpleBlockMedia" where
  "media_store m lba data =
     (if list_all (\<lambda>b. b = 0) data then m\<lparr>md_blocks := bt_remove lba (md_blocks m)\<rparr>
      else m\<lparr>md_blocks := bt_insert lba data (md_blocks m)\<rparr>)"

text \<open>\<^verbatim>\<open>as_chunks\<close>: the whole blocks of the image, in order.\<close>

fun block_chunks :: "usize \<Rightarrow> u8 list \<Rightarrow> u8 list list" where
  "block_chunks 0 bs = []"
| "block_chunks (Suc n) bs = take DISK_BLOCK bs # block_chunks n (drop DISK_BLOCK bs)"

fun store_chunks :: "SimpleBlockMedia \<Rightarrow> u64 \<Rightarrow> u8 list list \<Rightarrow> SimpleBlockMedia" where
  "store_chunks m lba [] = m"
| "store_chunks m lba (c # cs) = store_chunks (media_store m lba c) (lba + 1) cs"

definition SimpleBlockMedia_new :: "BlockMediaConfig \<Rightarrow> MediaImage \<Rightarrow> (SimpleBlockMedia, BlockMediaConfigError) result" where
  "SimpleBlockMedia_new config img =
     (if bm_capacity config = 0 then Err ZeroCapacity
      else if \<not> DISK_BLOCK dvd length (mi_bytes img) then Err (PartialBlock (length (mi_bytes img)))
      else let image_blocks = length (mi_bytes img) div DISK_BLOCK in
        if image_blocks > bm_capacity config then Err (ImageTooLarge image_blocks)
        else Ok (store_chunks \<lparr>md_config = config, md_hash = mi_hash img, md_blocks = []\<rparr> 0
          (block_chunks image_blocks (mi_bytes img))))"

fun outcome_name :: "MediaError option \<Rightarrow> TraceValue" where
  "outcome_name None = VStr ''ok''"
| "outcome_name (Some MediaOutOfRange) = VStr ''out_of_range''"
| "outcome_name (Some MediaBadBlock) = VStr ''bad_block''"

definition media_reply :: "SimpleBlockMedia \<Rightarrow> string \<Rightarrow> u64 \<Rightarrow> MediaError option \<Rightarrow> BlockMsg \<Rightarrow> SimContext \<Rightarrow> SimpleBlockMedia handled" where
  "media_reply m kind lba error result ctx =
     result_bind (ctx_send MEDIA_PORT (MsgBlock result) (latency_when (bm_latency (md_config m))) PhComplete
         (ctx_trace kind [(''lba'', VU64 lba), (''outcome'', outcome_name error)] ctx))
       (\<lambda>ctx. Ok (m, ctx))"

fun media_request :: "SimpleBlockMedia \<Rightarrow> BlockMsg \<Rightarrow> SimContext \<Rightarrow> SimpleBlockMedia handled" where
  "media_request m (ReadBlock txn lba) ctx =
     (let error = media_check m lba;
          outcome = (case error of None \<Rightarrow> BlockData (media_load m lba) | Some e \<Rightarrow> BlockReadError e)
      in media_reply m DISK_READ_KIND lba error (ReadResult txn outcome) ctx)"
| "media_request m (WriteBlock txn lba data) ctx =
     (if length data \<noteq> DISK_BLOCK then component_fault ''disk: write data is not 512 bytes''
      else case media_check m lba of
        None \<Rightarrow> media_reply (media_store m lba data) DISK_WRITE_KIND lba None (WriteResult txn BlockDone) ctx
      | Some e \<Rightarrow> media_reply m DISK_WRITE_KIND lba (Some e) (WriteResult txn (BlockWriteError e)) ctx)"
| "media_request m _ ctx = Err Panic"

fun is_result :: "BlockMsg \<Rightarrow> bool" where
  "is_result (ReadResult _ _) = True"
| "is_result (WriteResult _ _) = True"
| "is_result _ = False"

fun media_handle_event :: "SimpleBlockMedia \<Rightarrow> Delivered \<Rightarrow> SimContext \<Rightarrow> SimpleBlockMedia handled" where
  "media_handle_event m (DMessage port (MsgBlock msg)) ctx =
     (if port \<noteq> MEDIA_PORT then component_fault ''disk: unexpected delivery''
      else if is_result msg then component_fault ''disk: result on the target port''
      else if ctx_phase ctx \<noteq> PhRequest then component_fault ''disk: request outside the Request phase''
      else media_request m msg ctx)"
| "media_handle_event m _ ctx = component_fault ''disk: unexpected delivery''"

definition media_inspect :: "SimpleBlockMedia \<Rightarrow> TraceFields" where
  "media_inspect m = [(''capacity_blocks'', VU64 (bm_capacity (md_config m))), (''image_hash'', VBytes (md_hash m)),
     (''stored_blocks'', VU64 (length (md_blocks m)))]"

subsection \<open>Snapshots\<close>

definition media_write_config :: "SimpleBlockMedia \<Rightarrow> u8 list" where
  "media_write_config m = w_u64 (bm_capacity (md_config m)) @ w_latency (bm_latency (md_config m))
     @ w_len (length (bm_bad (md_config m))) @ concat (map w_u64 (bm_bad (md_config m))) @ md_hash m"

definition media_snapshot :: "SimpleBlockMedia \<Rightarrow> u8 list" where
  "media_snapshot m = media_write_config m @ w_len (length (md_blocks m))
     @ concat (map (\<lambda>(lba, block). w_u64 lba @ w_bytes block) (md_blocks m))"

definition media_read_block :: "SimpleBlockMedia \<Rightarrow> u64 \<Rightarrow> u8 list reader" where
  "media_read_block m lba =
     (if lba \<ge> bm_capacity (md_config m) then invalid ''disk: block past the end''
      else rd_bind r_bytes (\<lambda>bytes.
        if length bytes \<noteq> DISK_BLOCK then invalid ''disk: block is not 512 bytes''
        else if list_all (\<lambda>b. b = 0) bytes then invalid ''disk: all-zero block''
        else rd_return bytes))"

definition media_restore :: "SimpleBlockMedia \<Rightarrow> SimpleBlockMedia reader" where
  "media_restore m =
     rd_bind r_u64 (\<lambda>capacity. if capacity \<noteq> bm_capacity (md_config m) then invalid ''disk: snapshot has a different capacity'' else
     rd_bind (r_raw (length (w_latency (bm_latency (md_config m))))) (\<lambda>latency.
     if latency \<noteq> w_latency (bm_latency (md_config m)) then invalid ''disk: snapshot has a different latency'' else
     rd_bind r_len (\<lambda>count.
     rd_bind (r_many (min count (length (bm_bad (md_config m)) + 1)) r_u64) (\<lambda>bad.
     if count \<noteq> length (bm_bad (md_config m)) \<or> bad \<noteq> bm_bad (md_config m) then invalid ''disk: snapshot has different bad blocks'' else
     rd_bind (r_raw 32) (\<lambda>hash. if hash \<noteq> md_hash m then invalid ''disk: snapshot has a different image hash'' else
     rd_bind r_len (\<lambda>n.
     rd_bind (r_ascending n ''disk: blocks out of order or duplicated'' r_u64 (media_read_block m) None [])
       (\<lambda>blocks. rd_return (m\<lparr>md_blocks := blocks\<rparr>))))))))"

subsection \<open>The media is an array of blocks\<close>

definition block_stored :: "u64 \<Rightarrow> u64 \<times> u8 list \<Rightarrow> bool" where
  "block_stored capacity e \<longleftrightarrow> fst e < capacity \<and> length (snd e) = DISK_BLOCK \<and> \<not> list_all (\<lambda>b. b = 0) (snd e)"

definition media_inv :: "SimpleBlockMedia \<Rightarrow> bool" where
  "media_inv m \<longleftrightarrow> bt_ok (md_blocks m) \<and> list_all (block_stored (bm_capacity (md_config m))) (md_blocks m)"

text \<open>The specification: a disk of blocks whose accesses may fail, one block per request.\<close>

fun disk_serve :: "(u64 \<Rightarrow> MediaError option) \<Rightarrow> (u64 \<Rightarrow> u8 list) \<Rightarrow> BlockMsg \<Rightarrow> BlockMsg \<times> (u64 \<Rightarrow> u8 list)" where
  "disk_serve err disk (ReadBlock txn lba) =
     (ReadResult txn (case err lba of None \<Rightarrow> BlockData (disk lba) | Some e \<Rightarrow> BlockReadError e), disk)"
| "disk_serve err disk (WriteBlock txn lba data) =
     (case err lba of None \<Rightarrow> (WriteResult txn BlockDone, disk(lba := data)) | Some e \<Rightarrow> (WriteResult txn (BlockWriteError e), disk))"
| "disk_serve err disk msg = (msg, disk)"

lemma zeros_iff: "list_all (\<lambda>b. b = (0 :: u8)) bs \<longleftrightarrow> bs = replicate (length bs) 0"
  by (induction bs) auto

lemma media_stored: "media_inv m \<Longrightarrow> bt_get (md_blocks m) k = Some b \<Longrightarrow> block_stored (bm_capacity (md_config m)) (k, b)"
  using map_of_SomeD [of "md_blocks m" k b] by (simp add: media_inv_def list_all_iff)

lemma media_load_length: "media_inv m \<Longrightarrow> length (media_load m lba) = DISK_BLOCK"
  using media_stored [of m lba] by (simp add: media_load_def block_stored_def split: option.splits)

lemma set_bt_insert: "set (bt_insert k v m) \<subseteq> insert (k, v) (set m)"
  by (induction k v m rule: bt_insert.induct) auto

lemma list_all_bt_insert: "P (k, v) \<Longrightarrow> list_all P m \<Longrightarrow> list_all P (bt_insert k v m)"
  using set_bt_insert [of k v m] by (auto simp: list_all_iff)

lemma media_store_spec:
  assumes "media_inv m" "lba < bm_capacity (md_config m)" "length data = DISK_BLOCK"
  shows "media_inv (media_store m lba data)" "media_load (media_store m lba data) = (media_load m)(lba := data)"
    "md_config (media_store m lba data) = md_config m" "md_hash (media_store m lba data) = md_hash m"
proof -
  show "media_inv (media_store m lba data)"
    using assms by (auto simp: media_store_def media_inv_def bt_ok_insert bt_ok_remove block_stored_def intro!: list_all_bt_insert)
      (simp_all add: list_all_iff bt_remove_def)
  show "media_load (media_store m lba data) = (media_load m)(lba := data)"
    using assms(3) zeros_iff [of data] by (auto simp: media_store_def media_load_def fun_eq_iff)
qed (auto simp: media_store_def)

lemma store_chunks_spec:
  assumes "media_inv m" "lba + length cs \<le> bm_capacity (md_config m)" "list_all (\<lambda>c. length c = DISK_BLOCK) cs"
  shows "media_inv (store_chunks m lba cs) \<and> md_config (store_chunks m lba cs) = md_config m \<and> md_hash (store_chunks m lba cs) = md_hash m
    \<and> media_load (store_chunks m lba cs) = (\<lambda>a. if lba \<le> a \<and> a < lba + length cs then cs ! (a - lba) else media_load m a)"
  using assms
proof (induction cs arbitrary: m lba)
  case (Cons c cs)
  have "lba < bm_capacity (md_config m)" "length c = DISK_BLOCK" using Cons.prems by auto
  note st = media_store_spec [OF Cons.prems(1) this]
  have "media_inv (store_chunks (media_store m lba c) (lba + 1) cs)
      \<and> md_config (store_chunks (media_store m lba c) (lba + 1) cs) = md_config (media_store m lba c)
      \<and> md_hash (store_chunks (media_store m lba c) (lba + 1) cs) = md_hash (media_store m lba c)
      \<and> media_load (store_chunks (media_store m lba c) (lba + 1) cs) =
        (\<lambda>a. if lba + 1 \<le> a \<and> a < lba + 1 + length cs then cs ! (a - (lba + 1)) else media_load (media_store m lba c) a)"
    using Cons.prems(2,3) st by (intro Cons.IH) auto
  then show ?case using st by (auto simp: fun_eq_iff nth_Cons' Suc_le_eq)
qed (auto simp: fun_eq_iff)

lemma block_chunks_nth:
  "length (block_chunks n bs) = n \<and> (\<forall>i<n. block_chunks n bs ! i = take DISK_BLOCK (drop (i * DISK_BLOCK) bs))"
proof (induction n arbitrary: bs)
  case (Suc n)
  have "block_chunks (Suc n) bs ! i = take DISK_BLOCK (drop (i * DISK_BLOCK) bs)" if "i < Suc n" for i
    using that Suc [of "drop DISK_BLOCK bs"] by (cases i) (auto simp: drop_drop add.commute)
  with Suc [of "drop DISK_BLOCK bs"] show ?case by simp
qed simp
text \<open>
  A new media holds the image from block 0 on and zeros behind it, and its storage is canonical.
\<close>

theorem media_new_contents:
  assumes "SimpleBlockMedia_new cfg img = Ok m"
  shows "media_inv m \<and> md_config m = cfg
    \<and> media_load m lba = (if (lba + 1) * DISK_BLOCK \<le> length (mi_bytes img)
        then take DISK_BLOCK (drop (lba * DISK_BLOCK) (mi_bytes img)) else replicate DISK_BLOCK 0)"
proof -
  let ?n = "length (mi_bytes img) div DISK_BLOCK" and ?cs = "block_chunks (length (mi_bytes img) div DISK_BLOCK) (mi_bytes img)"
  have n: "?n * DISK_BLOCK = length (mi_bytes img)" "?n \<le> bm_capacity cfg"
    and m: "m = store_chunks \<lparr>md_config = cfg, md_hash = mi_hash img, md_blocks = []\<rparr> 0 ?cs"
    using assms by (auto simp: SimpleBlockMedia_new_def Let_def split: if_splits)
  note cs = block_chunks_nth [of ?n "mi_bytes img"]
  have inside: "lba < ?n \<longleftrightarrow> (lba + 1) * DISK_BLOCK \<le> length (mi_bytes img)" for lba
    using n(1) by (simp add: DISK_BLOCK_def) linarith
  have "list_all (\<lambda>c. length c = DISK_BLOCK) ?cs"
    using cs inside by (auto simp: list_all_length DISK_BLOCK_def)
  moreover have "media_inv \<lparr>md_config = cfg, md_hash = mi_hash img, md_blocks = []\<rparr>" by (simp add: media_inv_def)
  ultimately show ?thesis
    using store_chunks_spec [of "\<lparr>md_config = cfg, md_hash = mi_hash img, md_blocks = []\<rparr>" 0 ?cs] cs n(2) inside [of lba] m
    by (auto simp: media_load_def)
qed

text \<open>
  The media serves every request in \<^verbatim>\<open>Request\<close> as the disk of the specification does: its one answer,
  after the configured latency in \<^verbatim>\<open>Complete\<close>, is the disk's, a read samples and a write changes exactly
  its block at acceptance, a refused access changes nothing, and the storage stays canonical.
\<close>

lemma media_serves:
  assumes inv: "media_inv m" and ctx: "accepts_all ctx" "ctx_phase ctx = PhRequest"
    and req: "\<not> is_result msg" "\<forall>txn lba data. msg = WriteBlock txn lba data \<longrightarrow> length data = DISK_BLOCK"
  shows "\<exists>m' kind fs. media_handle_event m (DMessage MEDIA_PORT (MsgBlock msg)) ctx =
      Ok (m', ctx\<lparr>ctx_out := ctx_out ctx @ [EffTrace kind fs,
        EffSend MEDIA_PORT (MsgBlock (fst (disk_serve (media_check m) (media_load m) msg))) (latency_when (bm_latency (md_config m))) PhComplete]\<rparr>)
    \<and> media_load m' = snd (disk_serve (media_check m) (media_load m) msg)
    \<and> media_inv m' \<and> md_config m' = md_config m \<and> md_hash m' = md_hash m"
proof (cases msg)
  case (ReadBlock txn lba)
  then show ?thesis
    using inv ctx by (auto simp: media_reply_def ctx_send_def ctx_trace_def ctx_effect_accepted Let_def)
next
  case (WriteBlock txn lba data)
  show ?thesis
  proof (cases "media_check m lba")
    case None
    then have "lba < bm_capacity (md_config m)" by (auto simp: media_check_def split: if_splits)
    note st = media_store_spec [OF inv this, of data]
    show ?thesis
      using st WriteBlock None ctx req(2) by (auto simp: media_reply_def ctx_send_def ctx_trace_def ctx_effect_accepted)
  next
    case (Some e)
    then show ?thesis
      using inv WriteBlock ctx req(2) by (auto simp: media_reply_def ctx_send_def ctx_trace_def ctx_effect_accepted)
  qed
qed (use req in auto)

text \<open>The storage is canonical: two media with the same configuration and the same blocks are the same.\<close>

lemma media_canonical:
  assumes "media_inv m" "media_inv m'" "md_config m = md_config m'" "md_hash m = md_hash m'" "media_load m = media_load m'"
  shows "m = m'"
proof -
  have stored: "length b = DISK_BLOCK \<and> b \<noteq> replicate DISK_BLOCK 0" if "media_inv x" "bt_get (md_blocks x) k = Some b" for x k b
    using media_stored [OF that] zeros_iff [of b] by (auto simp: block_stored_def)
  have "bt_get (md_blocks m) k = bt_get (md_blocks m') k" for k
    using fun_cong [OF assms(5), of k] stored [OF assms(1), of k] stored [OF assms(2), of k]
    by (auto simp: media_load_def split: option.splits)
  then have "md_blocks m = md_blocks m'"
    using assms(1,2) by (intro bt.map_ext) (auto simp: media_inv_def)
  then show ?thesis using assms(3,4) by (cases m; cases m') simp
qed

definition media_fits :: "SimpleBlockMedia \<Rightarrow> bool" where
  "media_fits m \<longleftrightarrow> bm_capacity (md_config m) \<le> u64_max \<and> length (bm_bad (md_config m)) < 256 ^ 4
     \<and> list_all (\<lambda>b. b \<le> u64_max) (bm_bad (md_config m)) \<and> length (md_hash m) = 32 \<and> length (md_blocks m) < 256 ^ 4"

lemma media_restore_written:
  assumes inv: "media_inv m" and fits: "media_fits m" and same: "md_config m\<^sub>0 = md_config m" "md_hash m\<^sub>0 = md_hash m"
  shows "media_restore m\<^sub>0 (media_snapshot m @ rest) = Ok (m, rest)"
proof -
  let ?c = "md_config m"
  have bad: "r_many (length (bm_bad ?c)) r_u64 (concat (map w_u64 (bm_bad ?c)) @ r) = Ok (bm_bad ?c, r)" for r
    using fits by (intro sc64.r_many_enc) (simp add: media_fits_def u64_width)
  have hash: "r_raw 32 (md_hash m @ r) = Ok (md_hash m, r)" for r
    using fits by (simp add: media_fits_def r_raw_def)
  have "r_ascending (length (md_blocks m)) ''disk: blocks out of order or duplicated'' r_u64 (media_read_block m\<^sub>0) None []
      (concat (map (\<lambda>(lba, block). w_u64 lba @ w_bytes block) (md_blocks m)) @ rest) = Ok ([] @ md_blocks m, rest)"
  proof (rule r_ascending_enc)
    fix k v r assume kv: "(k, v) \<in> set (md_blocks m)"
    then have "block_stored (bm_capacity ?c) (k, v)" using inv unfolding media_inv_def list_all_iff by blast
    then have st: "k < bm_capacity ?c" "length v = 512" "\<not> list_all (\<lambda>b. b = 0) v"
      by (simp_all add: block_stored_def DISK_BLOCK_def)
    show "r_u64 (w_u64 k @ r) = Ok (k, r)" using st(1) fits by (intro sc64.dec_enc) (simp add: media_fits_def u64_max_def)
    show "media_read_block m\<^sub>0 k (w_bytes v @ r) = Ok (v, r)"
      using st same by (simp add: media_read_block_def scbytes.bind_enc DISK_BLOCK_def)
  qed (use inv in \<open>simp_all add: media_inv_def\<close>)
  moreover have "m\<^sub>0\<lparr>md_blocks := md_blocks m\<rparr> = m" using same by (cases m; cases m\<^sub>0) simp
  ultimately show ?thesis
    using fits same bad hash
    by (simp add: media_restore_def media_snapshot_def media_write_config_def media_fits_def sc64.bind_enc u64_width sclen.bind_enc)
qed

lemma r_ascending_sound:
  assumes "\<And>k bs v rest. rv k bs = Ok (v, rest) \<Longrightarrow> P (k, v)"
  shows "r_ascending n why rk rv prev m bs = Ok (es, rest) \<Longrightarrow> bt_ok m \<Longrightarrow> list_all P m \<Longrightarrow> bt_ok es \<and> list_all P es"
proof (induction n arbitrary: prev m bs)
  case (Suc n)
  then obtain k v bs' bs'' where "rv k bs' = Ok (v, bs'')" "r_ascending n why rk rv (Some k) (bt_insert k v m) bs'' = Ok (es, rest)"
    by (auto simp: rd_bind_Ok_iff split: if_splits)
  then show ?case
    using Suc.IH [of "Some k" "bt_insert k v m" bs''] Suc.prems(2,3) assms by (auto simp: bt_ok_insert list_all_bt_insert)
qed auto

lemma media_restore_sound:
  assumes "media_restore m\<^sub>0 bs = Ok (m, rest)"
  shows "media_inv m \<and> md_config m = md_config m\<^sub>0 \<and> md_hash m = md_hash m\<^sub>0"
proof -
  obtain n bs' blocks where run: "r_ascending n ''disk: blocks out of order or duplicated'' r_u64 (media_read_block m\<^sub>0) None [] bs' = Ok (blocks, rest)"
    and m: "m = m\<^sub>0\<lparr>md_blocks := blocks\<rparr>"
    using assms by (auto simp: media_restore_def rd_bind_Ok_iff split: if_splits)
  have "block_stored (bm_capacity (md_config m\<^sub>0)) (k, v)" if "media_read_block m\<^sub>0 k b = Ok (v, r)" for k b v r
    using that by (auto simp: media_read_block_def block_stored_def rd_bind_Ok_iff split: if_splits)
  from r_ascending_sound [where P = "block_stored (bm_capacity (md_config m\<^sub>0))", OF this run] m show ?thesis by (simp add: media_inv_def)
qed

subsection \<open>Histories\<close>

inductive media_hist :: "BlockMediaConfig \<Rightarrow> MediaImage \<Rightarrow> SimpleBlockMedia \<Rightarrow> BlockMsg list \<Rightarrow> bool" for cfg img where
  start: "SimpleBlockMedia_new cfg img = Ok m \<Longrightarrow> media_hist cfg img m []"
| event: "media_hist cfg img m msgs \<Longrightarrow> media_handle_event m (DMessage port (MsgBlock msg)) ctx = Ok (m', ctx') \<Longrightarrow>
    media_hist cfg img m' (msgs @ [msg])"

definition disk_after :: "(u64 \<Rightarrow> MediaError option) \<Rightarrow> (u64 \<Rightarrow> u8 list) \<Rightarrow> BlockMsg list \<Rightarrow> u64 \<Rightarrow> u8 list" where
  "disk_after err disk msgs = fold (\<lambda>msg d. snd (disk_serve err d msg)) msgs disk"

definition image_disk :: "MediaImage \<Rightarrow> u64 \<Rightarrow> u8 list" where
  "image_disk img lba = (if (lba + 1) * DISK_BLOCK \<le> length (mi_bytes img)
     then take DISK_BLOCK (drop (lba * DISK_BLOCK) (mi_bytes img)) else replicate DISK_BLOCK 0)"

definition media_err :: "BlockMediaConfig \<Rightarrow> u64 \<Rightarrow> MediaError option" where
  "media_err cfg lba = (if lba \<ge> bm_capacity cfg then Some MediaOutOfRange else if lba \<in> set (bm_bad cfg) then Some MediaBadBlock else None)"

lemma media_check_err: "md_config m = cfg \<Longrightarrow> media_check m = media_err cfg"
  by (auto simp: fun_eq_iff media_check_def media_err_def)

lemma media_event_Ok:
  assumes inv: "media_inv m" and ok: "media_handle_event m (DMessage port (MsgBlock msg)) ctx = Ok (m', ctx')"
  shows "media_load m' = snd (disk_serve (media_check m) (media_load m) msg) \<and> media_inv m' \<and> md_config m' = md_config m"
proof (cases msg)
  case (WriteBlock txn lba data)
  then have len: "length data = DISK_BLOCK" using ok by (auto split: if_splits)
  show ?thesis
  proof (cases "media_check m lba")
    case None
    then have "lba < bm_capacity (md_config m)" by (auto simp: media_check_def split: if_splits)
    note st = media_store_spec [OF inv this len]
    have "m' = media_store m lba data" using ok WriteBlock len None by (auto simp: media_reply_def split: if_splits)
    then show ?thesis using st WriteBlock None by simp
  next
    case (Some e)
    then have "m' = m" using ok WriteBlock len by (auto simp: media_reply_def split: if_splits)
    then show ?thesis using inv WriteBlock Some by simp
  qed
qed (use ok inv in \<open>auto simp: media_reply_def Let_def split: if_splits\<close>)

lemma media_hist_disk:
  "media_hist cfg img m msgs \<Longrightarrow> media_load m = disk_after (media_err cfg) (image_disk img) msgs \<and> media_inv m \<and> md_config m = cfg"
proof (induction rule: media_hist.induct)
  case (start m)
  then show ?case using media_new_contents [OF start] by (auto simp: disk_after_def image_disk_def)
next
  case (event m msgs port msg ctx m' ctx')
  then show ?case
    using media_event_Ok [of m port msg ctx m' ctx'] media_check_err [of m cfg] by (simp add: disk_after_def)
qed

text \<open>
  C15. After any history of requests the media is the disk of the specification: its next answer is the
  answer of a disk that started with the image and took the same requests, so a read of a good block
  returns the data of the last accepted write to it, or the image's if there was none, and bad or
  out-of-range blocks answer with their error and change nothing.
\<close>

theorem media_refines_disk:
  assumes "media_hist cfg img m msgs" and "accepts_all ctx" "ctx_phase ctx = PhRequest"
    and "\<not> is_result msg" "case msg of WriteBlock txn lba data \<Rightarrow> length data = DISK_BLOCK | _ \<Rightarrow> True"
  shows "\<exists>m' kind fs. media_handle_event m (DMessage MEDIA_PORT (MsgBlock msg)) ctx =
      Ok (m', ctx\<lparr>ctx_out := ctx_out ctx @ [EffTrace kind fs,
        EffSend MEDIA_PORT (MsgBlock (fst (disk_serve (media_err cfg) (disk_after (media_err cfg) (image_disk img) msgs) msg)))
          (latency_when (bm_latency cfg)) PhComplete]\<rparr>)
    \<and> media_load m' = disk_after (media_err cfg) (image_disk img) (msgs @ [msg])"
proof -
  have h: "media_load m = disk_after (media_err cfg) (image_disk img) msgs" "media_inv m" "md_config m = cfg"
    using media_hist_disk [OF assms(1)] by auto
  have len: "\<forall>txn lba data. msg = WriteBlock txn lba data \<longrightarrow> length data = DISK_BLOCK" using assms(5) by auto
  have step: "disk_after (media_err cfg) (image_disk img) (msgs @ [msg]) =
      snd (disk_serve (media_err cfg) (disk_after (media_err cfg) (image_disk img) msgs) msg)" by (simp add: disk_after_def)
  show ?thesis
    using media_serves [OF h(2) assms(2,3,4) len, unfolded media_check_err [OF h(3)] h(1,3)] unfolding step by blast
qed

text \<open>
  The snapshot of a media after any history restores to exactly that media in any media of the same
  configuration and image hash; whatever bytes a restore accepts, the storage is canonical, so no two
  snapshots describe the same blocks.
\<close>

theorem media_restore_exact:
  assumes "media_hist cfg img m msgs" "media_fits m" "md_config m\<^sub>0 = cfg" "md_hash m\<^sub>0 = md_hash m"
  shows "media_restore m\<^sub>0 (media_snapshot m @ rest) = Ok (m, rest)
    \<and> (\<forall>bytes m' r. media_restore m\<^sub>0 bytes = Ok (m', r) \<and> media_load m' = media_load m \<longrightarrow> m' = m)"
proof -
  have h: "media_inv m" "md_config m = cfg" using media_hist_disk [OF assms(1)] by auto
  have "m' = m" if "media_restore m\<^sub>0 bytes = Ok (m', r)" "media_load m' = media_load m" for bytes m' r
    using media_restore_sound [OF that(1)] that(2) h assms(3,4) by (intro media_canonical) auto
  then show ?thesis using media_restore_written [OF h(1) assms(2)] h(2) assms(3,4) by auto
qed

definition tiny_media_config :: BlockMediaConfig where
  "tiny_media_config = \<lparr>bm_capacity = 4, bm_latency = LatAfter 5, bm_bad = [2]\<rparr>"

definition blank_image :: MediaImage where
  "blank_image = \<lparr>mi_hash = replicate 32 7, mi_bytes = []\<rparr>"

definition blank_media :: SimpleBlockMedia where
  "blank_media = \<lparr>md_config = tiny_media_config, md_hash = replicate 32 7, md_blocks = []\<rparr>"

lemma blank_hist: "media_hist tiny_media_config blank_image blank_media []"
  by (rule media_hist.start) (simp add: SimpleBlockMedia_new_def tiny_media_config_def blank_image_def blank_media_def)

theorem media_refines_disk_witness:
  "\<exists>m kind fs. media_handle_event blank_media (DMessage MEDIA_PORT (MsgBlock (WriteBlock 3 1 (replicate 512 9)))) (quiet_ctx\<lparr>ctx_phase := PhRequest\<rparr>) =
      Ok (m, quiet_ctx\<lparr>ctx_phase := PhRequest, ctx_out := [EffTrace kind fs, EffSend 0 (MsgBlock (WriteResult 3 BlockDone)) (WhenAfter 5) PhComplete]\<rparr>)
    \<and> media_load m 1 = replicate 512 9"
proof -
  have "accepts_all (quiet_ctx\<lparr>ctx_phase := PhRequest\<rparr>)" by (simp add: quiet_ctx_def accepts_all_def)
  from media_refines_disk [OF blank_hist this, of "WriteBlock 3 1 (replicate 512 9)"] show ?thesis
    by (auto simp: DISK_BLOCK_def MEDIA_PORT_def media_err_def tiny_media_config_def disk_after_def quiet_ctx_def)
qed

theorem media_restore_exact_witness:
  "media_restore blank_media (media_snapshot blank_media @ [1]) = Ok (blank_media, [1])"
  using media_restore_exact [OF blank_hist, of blank_media "[1]"]
  by (simp add: blank_media_def media_fits_def tiny_media_config_def u64_max_def)

end
