(* ===== verification/Plat_Dma.thy ===== *)
theory Plat_Dma
  imports Plat_Media
begin

section \<open>The block DMA controller\<close>

text \<open>
  Models \<^verbatim>\<open>components/platform/src/dma.rs\<close>: the register file, the command lifecycle, the engine that moves
  blocks between the media and memory one 16-byte beat at a time, and the interrupt line. Registers are
  32-bit words; the block and beat indices are natural numbers with the overflow checks of the code
  written out.
\<close>

definition DMA_COMMAND :: u64 where "DMA_COMMAND = 0x00"
definition DMA_STATUS :: u64 where "DMA_STATUS = 0x04"
definition DMA_LBA :: u64 where "DMA_LBA = 0x08"
definition DMA_MEM_ADDR :: u64 where "DMA_MEM_ADDR = 0x0C"
definition DMA_BLOCK_COUNT :: u64 where "DMA_BLOCK_COUNT = 0x10"
definition DMA_IRQ_ENABLE :: u64 where "DMA_IRQ_ENABLE = 0x14"
definition DMA_IRQ_STATUS :: u64 where "DMA_IRQ_STATUS = 0x18"
definition DMA_ACK :: u64 where "DMA_ACK = 0x18"
definition DMA_SIZE :: u64 where "DMA_SIZE = 0x20"
definition DMA_OP_READ :: u32 where "DMA_OP_READ = 1"
definition DMA_OP_WRITE :: u32 where "DMA_OP_WRITE = 2"
definition DMA_STATUS_BUSY :: u32 where "DMA_STATUS_BUSY = push_bit 0 1"
definition DMA_STATUS_DONE :: u32 where "DMA_STATUS_DONE = push_bit 1 1"
definition DMA_STATUS_REJECTED :: u32 where "DMA_STATUS_REJECTED = push_bit 2 1"
definition DMA_STATUS_ERROR_SHIFT :: nat where "DMA_STATUS_ERROR_SHIFT = 8"
definition BAD_COMMAND :: u8 where "BAD_COMMAND = 1"
definition BAD_COUNT :: u8 where "BAD_COUNT = 2"
definition LBA_RANGE :: u8 where "LBA_RANGE = 3"
definition DMA_ALIGN :: u8 where "DMA_ALIGN = 4"
definition DMA_RANGE :: u8 where "DMA_RANGE = 5"
definition DMA_FAULT :: u8 where "DMA_FAULT = 6"
definition MEDIA_ERROR :: u8 where "MEDIA_ERROR = 7"
definition MAX_CAPACITY_BLOCKS :: u64 where "MAX_CAPACITY_BLOCKS = 2 ^ 32"
definition ADDRESS_LIMIT :: u64 where "ADDRESS_LIMIT = 2 ^ 32"
definition BEAT_SIZE :: u64 where "BEAT_SIZE = 16"
definition BEATS_PER_BLOCK :: nat where "BEATS_PER_BLOCK = 32"
definition DMA_ISSUE :: u64 where "DMA_ISSUE = 0"
definition BLK_COMMAND_KIND :: string where "BLK_COMMAND_KIND = ''platform.blk.command''"
definition BLK_DONE_KIND :: string where "BLK_DONE_KIND = ''platform.blk.done''"
definition BLK_REJECTED_KIND :: string where "BLK_REJECTED_KIND = ''platform.blk.rejected''"
definition MEM_PORT :: PortId where "MEM_PORT = 0"
definition DMA_PORT :: PortId where "DMA_PORT = 1"
definition BLK_PORT :: PortId where "BLK_PORT = 2"
definition DMA_IRQ_PORT :: PortId where "DMA_IRQ_PORT = 3"

record DmaConfig =
  dc_clock :: u32
  dc_latency :: LinkLatency
  dc_capacity :: u64
  dc_base :: u64
  dc_size :: u64

datatype DmaConfigError = DmaCapacity u64 | EmptyAperture | ApertureOutOfRange

fun DmaConfigError_display :: "DmaConfigError \<Rightarrow> string" where
  "DmaConfigError_display (DmaCapacity n) = ''controller capacity '' @ fmt_dec n @ '' is not in 1..=2^32 blocks''"
| "DmaConfigError_display EmptyAperture = ''DMA aperture is empty''"
| "DmaConfigError_display ApertureOutOfRange = ''DMA aperture reaches past 0x1_0000_0000''"

datatype DmaOperation = OpRead | OpWrite

fun DmaOperation_code :: "DmaOperation \<Rightarrow> u8" where
  "DmaOperation_code OpRead = 1"
| "DmaOperation_code OpWrite = 2"

record Latched =
  la_op :: DmaOperation
  la_lba :: u32
  la_addr :: u32
  la_count :: u32

datatype Engine = EngIdle | EngIssue | WaitMedia TxnId | WaitBeat TxnId

record DmaBlockController =
  dm_config :: DmaConfig
  dm_lba :: u32
  dm_addr :: u32
  dm_count :: u32
  dm_irq_enable :: u32
  dm_busy :: bool
  dm_done :: bool
  dm_rejected :: bool
  dm_error :: u8
  dm_latched :: "Latched option"
  dm_engine :: Engine
  dm_block :: nat
  dm_beat :: nat
  dm_buffer :: "u8 list"
  dm_dma_txn :: TxnId
  dm_blk_txn :: TxnId
  dm_irq_level :: bool

text \<open>\<^verbatim>\<open>u64::checked_add\<close> and \<^verbatim>\<open>checked_mul\<close>.\<close>

definition checked_u64 :: "nat \<Rightarrow> u64 option" where
  "checked_u64 n = (if n \<le> u64_max then Some n else None)"

definition DmaBlockController_new :: "DmaConfig \<Rightarrow> (DmaBlockController, DmaConfigError) result" where
  "DmaBlockController_new config =
     (if dc_capacity config = 0 \<or> dc_capacity config > MAX_CAPACITY_BLOCKS then Err (DmaCapacity (dc_capacity config))
      else if dc_size config = 0 then Err EmptyAperture
      else case checked_u64 (dc_base config + dc_size config) of
        None \<Rightarrow> Err ApertureOutOfRange
      | Some end_addr \<Rightarrow>
          if end_addr > ADDRESS_LIMIT then Err ApertureOutOfRange
          else Ok \<lparr>dm_config = config, dm_lba = 0, dm_addr = 0, dm_count = 0, dm_irq_enable = 0, dm_busy = False, dm_done = False,
            dm_rejected = False, dm_error = 0, dm_latched = None, dm_engine = EngIdle, dm_block = 0, dm_beat = 0, dm_buffer = [],
            dm_dma_txn = 0, dm_blk_txn = 0, dm_irq_level = False\<rparr>)"

definition dma_status :: "DmaBlockController \<Rightarrow> u32" where
  "dma_status d =
     (let status = push_bit DMA_STATUS_ERROR_SHIFT (ucast (dm_error d));
          status = (if dm_busy d then status OR DMA_STATUS_BUSY else status);
          status = (if dm_done d then status OR DMA_STATUS_DONE else status)
      in if dm_rejected d then status OR DMA_STATUS_REJECTED else status)"

definition validate :: "DmaConfig \<Rightarrow> u32 \<Rightarrow> u32 \<Rightarrow> u32 \<Rightarrow> u32 \<Rightarrow> (DmaOperation, u8) result" where
  "validate config command lba addr count =
     result_bind (if command = DMA_OP_READ then Ok OpRead else if command = DMA_OP_WRITE then Ok OpWrite else Err BAD_COMMAND) (\<lambda>op.
     if count = 0 then Err BAD_COUNT
     else if (case checked_u64 (unat lba + unat count) of None \<Rightarrow> True | Some e \<Rightarrow> e > dc_capacity config) then Err LBA_RANGE
     else if unat addr mod BEAT_SIZE \<noteq> 0 then Err DMA_ALIGN
     else
       let start = unat addr; aperture_end = dc_base config + dc_size config
       in case Option.bind (checked_u64 (unat count * DISK_BLOCK)) (\<lambda>total. checked_u64 (start + total)) of
            None \<Rightarrow> Err DMA_RANGE
          | Some e \<Rightarrow> if start \<ge> dc_base config \<and> e \<le> aperture_end then Ok op else Err DMA_RANGE)"

definition dma_line :: "DmaBlockController \<Rightarrow> bool" where
  "dma_line d \<longleftrightarrow> dm_done d \<and> dm_irq_enable d AND 1 \<noteq> 0"

definition update_irq :: "DmaBlockController \<Rightarrow> SimContext \<Rightarrow> DmaBlockController handled" where
  "update_irq d ctx =
     (let level = dma_line d
      in if level = dm_irq_level d then Ok (d, ctx)
         else result_bind (ctx_send DMA_IRQ_PORT (MsgIrq (IrqLevel level)) WhenNow PhComplete ctx)
           (\<lambda>ctx. Ok (d\<lparr>dm_irq_level := level\<rparr>, ctx)))"

definition dma_wake :: "DmaBlockController \<Rightarrow> SimContext \<Rightarrow> DmaBlockController handled" where
  "dma_wake d ctx =
     result_bind (ctx_wake_self (WhenCycles (unat (dc_clock (dm_config d))) 1) PhRequest DMA_ISSUE ctx) (\<lambda>ctx. Ok (d, ctx))"

definition dma_complete :: "DmaBlockController \<Rightarrow> u8 \<Rightarrow> SimContext \<Rightarrow> DmaBlockController handled" where
  "dma_complete d code ctx =
     update_irq (d\<lparr>dm_busy := False, dm_done := True, dm_error := code, dm_latched := None, dm_engine := EngIdle,
         dm_block := 0, dm_beat := 0, dm_buffer := []\<rparr>)
       (ctx_trace BLK_DONE_KIND [(''error'', VU64 (unat code))] ctx)"

definition dma_command :: "DmaBlockController \<Rightarrow> u32 \<Rightarrow> SimContext \<Rightarrow> DmaBlockController handled" where
  "dma_command d v ctx =
     (if dm_busy d \<or> dm_done d then Ok (d\<lparr>dm_rejected := True\<rparr>, ctx_trace BLK_REJECTED_KIND [] ctx)
      else
        let res = validate (dm_config d) v (dm_lba d) (dm_addr d) (dm_count d);
            ctx = ctx_trace BLK_COMMAND_KIND [(''op'', VU64 (unat v)), (''lba'', VU64 (unat (dm_lba d))),
              (''addr'', VU64 (unat (dm_addr d))), (''count'', VU64 (unat (dm_count d))), (''accepted'', VBool (\<not> isl res))] ctx
        in case res of
             Ok op \<Rightarrow> dma_wake (d\<lparr>dm_busy := True, dm_latched := Some \<lparr>la_op = op, la_lba = dm_lba d, la_addr = dm_addr d,
               la_count = dm_count d\<rparr>, dm_engine := EngIssue\<rparr>) ctx
           | Err code \<Rightarrow> dma_complete d code ctx)"

definition dma_next_txn :: "TxnId \<Rightarrow> (u64, Abort) result" where
  "dma_next_txn counter =
     (if counter + 1 > u64_max then component_fault ''dma controller: TxnId space exhausted'' else Ok (counter + 1))"

definition block_lba :: "DmaBlockController \<Rightarrow> Latched \<Rightarrow> (u64, Abort) result" where
  "block_lba d l = (case checked_u64 (unat (la_lba l) + dm_block d) of
      None \<Rightarrow> component_fault ''dma controller: engine index overflow'' | Some x \<Rightarrow> Ok x)"

definition beat_addr :: "DmaBlockController \<Rightarrow> Latched \<Rightarrow> (u64, Abort) result" where
  "beat_addr d l =
     (let off = dm_beat d * BEAT_SIZE
      in case Option.bind (Option.bind (checked_u64 (dm_block d * DISK_BLOCK)) (\<lambda>block. checked_u64 (block + off)))
            (\<lambda>delta. checked_u64 (unat (la_addr l) + delta)) of
        None \<Rightarrow> component_fault ''dma controller: engine index overflow'' | Some x \<Rightarrow> Ok x)"

definition send_block :: "DmaBlockController \<Rightarrow> BlockMsg \<Rightarrow> SimContext \<Rightarrow> DmaBlockController handled" where
  "send_block d msg ctx =
     result_bind (dma_next_txn (dm_blk_txn d)) (\<lambda>nxt.
     result_bind (ctx_send BLK_PORT (MsgBlock msg) WhenNow PhRequest ctx) (\<lambda>ctx.
     Ok (d\<lparr>dm_blk_txn := nxt, dm_engine := WaitMedia (dm_blk_txn d)\<rparr>, ctx)))"

definition send_beat :: "DmaBlockController \<Rightarrow> MemMsg \<Rightarrow> SimContext \<Rightarrow> DmaBlockController handled" where
  "send_beat d msg ctx =
     result_bind (dma_next_txn (dm_dma_txn d)) (\<lambda>nxt.
     result_bind (ctx_send DMA_PORT (MsgMemV1 msg) WhenNow PhRequest ctx) (\<lambda>ctx.
     Ok (d\<lparr>dm_dma_txn := nxt, dm_engine := WaitBeat (dm_dma_txn d)\<rparr>, ctx)))"

definition dma_issue :: "DmaBlockController \<Rightarrow> SimContext \<Rightarrow> DmaBlockController handled" where
  "dma_issue d ctx =
     (case (dm_engine d, dm_latched d) of
        (EngIssue, Some l) \<Rightarrow>
          (case la_op l of
             OpRead \<Rightarrow>
               if dm_buffer d = [] then
                 result_bind (block_lba d l) (\<lambda>lba. send_block d (ReadBlock (dm_blk_txn d) lba) ctx)
               else
                 result_bind (beat_addr d l) (\<lambda>addr.
                   let start = dm_beat d * BEAT_SIZE
                   in if start + BEAT_SIZE > length (dm_buffer d) then Err Panic
                      else send_beat d (WriteReq (dm_dma_txn d) addr (take BEAT_SIZE (drop start (dm_buffer d)))) ctx)
           | OpWrite \<Rightarrow>
               if dm_beat d = BEATS_PER_BLOCK then
                 result_bind (block_lba d l) (\<lambda>lba.
                 result_bind (send_block d (WriteBlock (dm_blk_txn d) lba (dm_buffer d)) ctx) (\<lambda>(d, ctx).
                 Ok (d\<lparr>dm_buffer := []\<rparr>, ctx)))
               else
                 result_bind (beat_addr d l) (\<lambda>addr. send_beat d (ReadReq (dm_dma_txn d) addr (of_nat BEAT_SIZE)) ctx))
      | _ \<Rightarrow> component_fault ''dma controller: ISSUE wake with nothing to issue'')"

definition check_result :: "TxnId \<Rightarrow> TxnId \<Rightarrow> SimContext \<Rightarrow> (unit, Abort) result" where
  "check_result txn expected ctx =
     (if txn \<noteq> expected then component_fault ''dma controller: result for a txn that is not outstanding''
      else if ctx_phase ctx \<noteq> PhComplete then component_fault ''dma controller: result arrived outside COMPLETE''
      else Ok ())"

definition next_block :: "DmaBlockController \<Rightarrow> Latched \<Rightarrow> SimContext \<Rightarrow> DmaBlockController handled" where
  "next_block d l ctx =
     (if dm_block d + 1 > u32_max then component_fault ''dma controller: engine index overflow''
      else
        let d = d\<lparr>dm_beat := 0, dm_buffer := [], dm_block := dm_block d + 1\<rparr>
        in if dm_block d = unat (la_count l) then dma_complete d 0 ctx
           else dma_wake (d\<lparr>dm_engine := EngIssue\<rparr>) ctx)"

definition media_result :: "DmaBlockController \<Rightarrow> BlockMsg \<Rightarrow> SimContext \<Rightarrow> DmaBlockController handled" where
  "media_result d msg ctx =
     (case (dm_engine d, dm_latched d) of
        (WaitMedia expected, Some l) \<Rightarrow>
          (case (la_op l, msg) of
             (OpRead, ReadResult txn outcome) \<Rightarrow>
               result_bind (check_result txn expected ctx) (\<lambda>_.
               case outcome of
                 BlockData data \<Rightarrow>
                   if length data \<noteq> DISK_BLOCK then component_fault ''dma controller: block data is not 512 bytes''
                   else dma_wake (d\<lparr>dm_buffer := data, dm_engine := EngIssue\<rparr>) ctx
               | BlockReadError _ \<Rightarrow> dma_complete d MEDIA_ERROR ctx)
           | (OpWrite, WriteResult txn outcome) \<Rightarrow>
               result_bind (check_result txn expected ctx) (\<lambda>_.
               case outcome of
                 BlockDone \<Rightarrow> next_block d l ctx
               | BlockWriteError _ \<Rightarrow> dma_complete d MEDIA_ERROR ctx)
           | _ \<Rightarrow> component_fault ''dma controller: block.v0 message is not the outstanding request's result'')
      | _ \<Rightarrow> component_fault ''dma controller: block.v0 message with no request outstanding'')"

text \<open>The beat index is a \<^verbatim>\<open>u8\<close> and \<^verbatim>\<open>+= 1\<close> panics on overflow.\<close>

definition beat_result :: "DmaBlockController \<Rightarrow> MemMsg \<Rightarrow> SimContext \<Rightarrow> DmaBlockController handled" where
  "beat_result d msg ctx =
     (case (dm_engine d, dm_latched d) of
        (WaitBeat expected, Some l) \<Rightarrow>
          (case (la_op l, msg) of
             (OpRead, WriteResp txn outcome) \<Rightarrow>
               result_bind (check_result txn expected ctx) (\<lambda>_.
               case outcome of
                 WriteFault _ \<Rightarrow> dma_complete d DMA_FAULT ctx
               | WriteDone \<Rightarrow>
                   if dm_beat d + 1 > 255 then Err Panic
                   else
                     let d = d\<lparr>dm_beat := dm_beat d + 1\<rparr>
                     in if dm_beat d = BEATS_PER_BLOCK then next_block d l ctx
                        else dma_wake (d\<lparr>dm_engine := EngIssue\<rparr>) ctx)
           | (OpWrite, ReadResp txn outcome) \<Rightarrow>
               result_bind (check_result txn expected ctx) (\<lambda>_.
               case outcome of
                 ReadFault _ \<Rightarrow> dma_complete d DMA_FAULT ctx
               | ReadData data \<Rightarrow>
                   if length data \<noteq> BEAT_SIZE then component_fault ''dma controller: beat data is not 16 bytes''
                   else if dm_beat d + 1 > 255 then Err Panic
                   else dma_wake (d\<lparr>dm_buffer := dm_buffer d @ data, dm_beat := dm_beat d + 1, dm_engine := EngIssue\<rparr>) ctx)
           | _ \<Rightarrow> component_fault ''dma controller: mem.v1 message is not the outstanding beat's response'')
      | _ \<Rightarrow> component_fault ''dma controller: mem.v1 message with no beat outstanding'')"

subsection \<open>The registers\<close>

definition read_register :: "DmaBlockController \<Rightarrow> u64 \<Rightarrow> u32 option" where
  "read_register d off =
     (if off = DMA_STATUS then Some (dma_status d)
      else if off = DMA_LBA then Some (dm_lba d)
      else if off = DMA_MEM_ADDR then Some (dm_addr d)
      else if off = DMA_BLOCK_COUNT then Some (dm_count d)
      else if off = DMA_IRQ_ENABLE then Some (dm_irq_enable d)
      else if off = DMA_IRQ_STATUS then Some (of_bool (dm_done d))
      else None)"

definition write_register :: "DmaBlockController \<Rightarrow> u64 \<Rightarrow> u32 \<Rightarrow> SimContext \<Rightarrow> (bool \<times> DmaBlockController \<times> SimContext, Abort) result" where
  "write_register d off v ctx =
     (let written = (\<lambda>r. result_bind r (\<lambda>(d, ctx). Ok (True, d, ctx)))
      in if off = DMA_COMMAND then written (dma_command d v ctx)
         else if off = DMA_STATUS then written (Ok (if v AND DMA_STATUS_REJECTED \<noteq> 0 then d\<lparr>dm_rejected := False\<rparr> else d, ctx))
         else if off = DMA_LBA then written (Ok (d\<lparr>dm_lba := v\<rparr>, ctx))
         else if off = DMA_MEM_ADDR then written (Ok (d\<lparr>dm_addr := v\<rparr>, ctx))
         else if off = DMA_BLOCK_COUNT then written (Ok (d\<lparr>dm_count := v\<rparr>, ctx))
         else if off = DMA_IRQ_ENABLE then written (update_irq (d\<lparr>dm_irq_enable := v AND 1\<rparr>) ctx)
         else if off = DMA_ACK then
           written (if v AND 1 \<noteq> 0 \<and> dm_done d then update_irq (d\<lparr>dm_done := False, dm_error := 0\<rparr>) ctx else Ok (d, ctx))
         else Ok (False, d, ctx))"

definition register_word :: "ByteAccess \<Rightarrow> (u64 option, Abort) result" where
  "register_word access =
     (case access of
        AccEmpty \<Rightarrow> component_fault ''dma controller: zero-length request''
      | AccOutOfRange \<Rightarrow> Ok None
      | AccBytes first last_byte \<Rightarrow>
          Ok (if last_byte - first = 3 \<and> first mod 4 = 0 \<and> first < DMA_SIZE then Some first else None))"

definition dma_respond :: "DmaBlockController \<Rightarrow> MemMsg \<Rightarrow> SimContext \<Rightarrow> DmaBlockController handled" where
  "dma_respond d resp ctx =
     result_bind (ctx_send MEM_PORT (MsgMemV1 resp) (latency_when (dc_latency (dm_config d))) PhComplete ctx) (\<lambda>ctx. Ok (d, ctx))"

definition dma_request :: "DmaBlockController \<Rightarrow> MemMsg \<Rightarrow> SimContext \<Rightarrow> DmaBlockController handled" where
  "dma_request d msg ctx =
     (case mem_access msg of
        None \<Rightarrow> component_fault ''dma controller: response on the mem port''
      | Some access \<Rightarrow>
          result_bind (register_word access) (\<lambda>word.
          case msg of
            ReadReq txn _ _ \<Rightarrow>
              dma_respond d (ReadResp txn (case Option.bind word (read_register d) of
                  Some v \<Rightarrow> ReadData (u32_to_le_bytes v) | None \<Rightarrow> ReadFault AccessFault)) ctx
          | WriteReq txn _ data \<Rightarrow>
              result_bind
                (case word of
                   Some off \<Rightarrow> if length data = 4 then write_register d off (u32_from_le_bytes data) ctx else Ok (False, d, ctx)
                 | None \<Rightarrow> Ok (False, d, ctx))
                (\<lambda>(written, d, ctx). dma_respond d (WriteResp txn (if written then WriteDone else WriteFault AccessFault)) ctx)
          | _ \<Rightarrow> component_fault ''dma controller: response on the mem port''))"

fun dma_handle_event :: "DmaBlockController \<Rightarrow> Delivered \<Rightarrow> SimContext \<Rightarrow> DmaBlockController handled" where
  "dma_handle_event d (DMessage port (MsgMemV1 msg)) ctx =
     (if port = MEM_PORT then dma_request d msg ctx
      else if port = DMA_PORT then beat_result d msg ctx
      else component_fault ''dma controller: unexpected delivery'')"
| "dma_handle_event d (DMessage port (MsgBlock msg)) ctx =
     (if port = BLK_PORT then media_result d msg ctx else component_fault ''dma controller: unexpected delivery'')"
| "dma_handle_event d (DWake token) ctx =
     (if token = DMA_ISSUE then dma_issue d ctx else component_fault ''dma controller: unexpected delivery'')"
| "dma_handle_event d _ ctx = component_fault ''dma controller: unexpected delivery''"
fun engine_name :: "Engine \<Rightarrow> string" where
  "engine_name EngIdle = ''idle''"
| "engine_name EngIssue = ''issue''"
| "engine_name (WaitMedia _) = ''wait_media''"
| "engine_name (WaitBeat _) = ''wait_beat''"

definition command_text :: "Latched option \<Rightarrow> string" where
  "command_text latched = (case latched of
      None \<Rightarrow> ''none''
    | Some l \<Rightarrow> (case la_op l of OpRead \<Rightarrow> ''read'' | OpWrite \<Rightarrow> ''write'') @ '' lba='' @ fmt_hex (unat (la_lba l))
        @ '' addr='' @ fmt_hex (unat (la_addr l)) @ '' count='' @ fmt_dec (unat (la_count l)))"

definition dma_inspect :: "DmaBlockController \<Rightarrow> TraceFields" where
  "dma_inspect d =
     [(''lba'', VU64 (unat (dm_lba d))), (''mem_addr'', VU64 (unat (dm_addr d))), (''block_count'', VU64 (unat (dm_count d))),
      (''irq_enable'', VU64 (unat (dm_irq_enable d))), (''status'', VU64 (unat (dma_status d))),
      (''state'', VStr (if dm_busy d then ''busy'' else if dm_done d then ''done'' else ''idle'')),
      (''error'', VU64 (unat (dm_error d))), (''rejected'', VBool (dm_rejected d)), (''command'', VStr (command_text (dm_latched d))),
      (''engine'', VStr (engine_name (dm_engine d))), (''block'', VU64 (dm_block d)), (''beat'', VU64 (dm_beat d)),
      (''irq'', VBool (dm_irq_level d))]"

subsection \<open>Snapshots\<close>

definition dma_write_config :: "DmaConfig \<Rightarrow> u8 list" where
  "dma_write_config c = w_u32 (dc_clock c) @ w_latency (dc_latency c) @ w_u64 (dc_capacity c) @ w_u64 (dc_base c) @ w_u64 (dc_size c)"

fun w_engine :: "Engine \<Rightarrow> u8 list" where
  "w_engine EngIdle = w_u8 0"
| "w_engine EngIssue = w_u8 1"
| "w_engine (WaitMedia txn) = w_u8 2 @ w_u64 txn"
| "w_engine (WaitBeat txn) = w_u8 3 @ w_u64 txn"

definition w_latched :: "Latched option \<Rightarrow> u8 list" where
  "w_latched latched = (case latched of None \<Rightarrow> []
     | Some l \<Rightarrow> w_u8 (DmaOperation_code (la_op l)) @ w_u32 (la_lba l) @ w_u32 (la_addr l) @ w_u32 (la_count l))"

definition dma_snapshot :: "DmaBlockController \<Rightarrow> u8 list" where
  "dma_snapshot d = dma_write_config (dm_config d)
     @ w_u32 (dm_lba d) @ w_u32 (dm_addr d) @ w_u32 (dm_count d) @ w_u32 (dm_irq_enable d)
     @ w_bool (dm_busy d) @ w_bool (dm_done d) @ w_bool (dm_rejected d) @ w_u8 (dm_error d)
     @ w_latched (dm_latched d) @ w_engine (dm_engine d) @ w_u32 (of_nat (dm_block d)) @ w_u8 (of_nat (dm_beat d))
     @ w_bytes (dm_buffer d) @ w_u64 (dm_dma_txn d) @ w_u64 (dm_blk_txn d) @ w_bool (dm_irq_level d)"

definition error_ok :: "bool \<Rightarrow> u8 \<Rightarrow> bool" where
  "error_ok finished error = (if finished then error \<le> MEDIA_ERROR else error = 0)"

definition r_latched :: "DmaConfig \<Rightarrow> bool \<Rightarrow> Latched option reader" where
  "r_latched c busy =
     (if \<not> busy then rd_return None
      else rd_bind r_u8 (\<lambda>op. rd_bind r_u32 (\<lambda>lba. rd_bind r_u32 (\<lambda>addr. rd_bind r_u32 (\<lambda>count.
        case validate c (ucast op) lba addr count of
          Err _ \<Rightarrow> invalid ''dma controller: latched command fails validation''
        | Ok op \<Rightarrow> rd_return (Some \<lparr>la_op = op, la_lba = lba, la_addr = addr, la_count = count\<rparr>))))))"

definition r_engine :: "Engine reader" where
  "r_engine = rd_bind r_u8 (\<lambda>t.
     if t = 0 then rd_return EngIdle
     else if t = 1 then rd_return EngIssue
     else if t = 2 then rd_bind r_u64 (\<lambda>txn. rd_return (WaitMedia txn))
     else if t = 3 then rd_bind r_u64 (\<lambda>txn. rd_return (WaitBeat txn))
     else invalid ''dma controller: unknown engine state'')"

definition latest :: "u64 \<Rightarrow> TxnId \<Rightarrow> bool" where
  "latest nxt txn \<longleftrightarrow> 1 \<le> nxt \<and> nxt - 1 = txn"

definition engine_ok :: "Latched option \<Rightarrow> Engine \<Rightarrow> nat \<Rightarrow> nat \<Rightarrow> u8 list \<Rightarrow> u64 \<Rightarrow> u64 \<Rightarrow> bool" where
  "engine_ok latched engine block beat buffer dma_txn blk_txn =
     (let full = (length buffer = DISK_BLOCK); read_so_far = (length buffer = beat * BEAT_SIZE)
      in case latched of
           None \<Rightarrow> engine = EngIdle \<and> block = 0 \<and> beat = 0 \<and> buffer = []
         | Some l \<Rightarrow>
             (case la_op l of
                OpWrite \<Rightarrow> block < unat (la_count l) \<and> beat \<le> BEATS_PER_BLOCK
                  \<and> (case engine of
                       EngIdle \<Rightarrow> False
                     | EngIssue \<Rightarrow> read_so_far
                     | WaitBeat txn \<Rightarrow> beat < BEATS_PER_BLOCK \<and> read_so_far \<and> latest dma_txn txn
                     | WaitMedia txn \<Rightarrow> beat = BEATS_PER_BLOCK \<and> buffer = [] \<and> latest blk_txn txn)
              | OpRead \<Rightarrow> block < unat (la_count l) \<and> beat < BEATS_PER_BLOCK
                  \<and> (case engine of
                       EngIdle \<Rightarrow> False
                     | EngIssue \<Rightarrow> full \<or> buffer = [] \<and> beat = 0
                     | WaitMedia txn \<Rightarrow> buffer = [] \<and> beat = 0 \<and> latest blk_txn txn
                     | WaitBeat txn \<Rightarrow> full \<and> latest dma_txn txn)))"

definition dma_restore :: "DmaBlockController \<Rightarrow> DmaBlockController reader" where
  "dma_restore d =
     rd_bind (r_raw (length (dma_write_config (dm_config d)))) (\<lambda>config.
     if config \<noteq> dma_write_config (dm_config d) then invalid ''dma controller: snapshot has a different config'' else
     rd_bind r_u32 (\<lambda>lba. rd_bind r_u32 (\<lambda>mem_addr. rd_bind r_u32 (\<lambda>block_count. rd_bind r_u32 (\<lambda>irq_enable.
     if irq_enable AND NOT 1 \<noteq> 0 then invalid ''dma controller: IRQ_ENABLE has unused bits'' else
     rd_bind r_bool (\<lambda>busy. rd_bind r_bool (\<lambda>finished. rd_bind r_bool (\<lambda>rejected. rd_bind r_u8 (\<lambda>error.
     if busy \<and> finished then invalid ''dma controller: BUSY and DONE together''
     else if \<not> error_ok finished error then invalid ''dma controller: ERROR does not match the state'' else
     rd_bind (r_latched (dm_config d) busy) (\<lambda>latched. rd_bind r_engine (\<lambda>engine. rd_bind r_u32 (\<lambda>block. rd_bind r_u8 (\<lambda>beat.
     rd_bind r_bytes (\<lambda>buffer. rd_bind r_u64 (\<lambda>dma_txn. rd_bind r_u64 (\<lambda>blk_txn. rd_bind r_bool (\<lambda>irq_level.
     if \<not> engine_ok latched engine (unat block) (unat beat) buffer dma_txn blk_txn
       then invalid ''dma controller: engine position not reachable for the command''
     else if irq_level \<noteq> (finished \<and> irq_enable AND 1 \<noteq> 0) then invalid ''dma controller: IRQ level is not DONE && IRQ_ENABLE''
     else rd_return (d\<lparr>dm_lba := lba, dm_addr := mem_addr, dm_count := block_count, dm_irq_enable := irq_enable, dm_busy := busy,
       dm_done := finished, dm_rejected := rejected, dm_error := error, dm_latched := latched, dm_engine := engine,
       dm_block := unat block, dm_beat := unat beat, dm_buffer := buffer, dm_dma_txn := dma_txn, dm_blk_txn := blk_txn,
       dm_irq_level := irq_level\<rparr>))))))))))))))))))"

end
