(* ===== verification/Plat_DmaInv.thy ===== *)
theory Plat_DmaInv
  imports Plat_Dma
begin

section \<open>What the DMA controller guarantees\<close>

text \<open>
  The invariant of the controller, which is exactly what its restore checks; that every request of the
  engine stays inside the aperture and the capacity; and that a command, served by a memory and a disk
  that may fail, is the copy the registers describe.
\<close>

lemmas dma_consts = DMA_COMMAND_def DMA_STATUS_def DMA_LBA_def DMA_MEM_ADDR_def DMA_BLOCK_COUNT_def DMA_IRQ_ENABLE_def
  DMA_IRQ_STATUS_def DMA_ACK_def DMA_SIZE_def DMA_OP_READ_def DMA_OP_WRITE_def BEAT_SIZE_def BEATS_PER_BLOCK_def DISK_BLOCK_def

definition latched_ok :: "DmaConfig \<Rightarrow> Latched option \<Rightarrow> bool" where
  "latched_ok c latched = (case latched of None \<Rightarrow> True
     | Some l \<Rightarrow> validate c (ucast (DmaOperation_code (la_op l))) (la_lba l) (la_addr l) (la_count l) = Ok (la_op l))"

lemma latched_ok_None [simp]: "latched_ok c None"
  by (simp add: latched_ok_def)

definition dma_core :: "DmaBlockController \<Rightarrow> bool" where
  "dma_core d \<longleftrightarrow> dm_irq_enable d AND NOT 1 = 0 \<and> \<not> (dm_busy d \<and> dm_done d) \<and> error_ok (dm_done d) (dm_error d)
     \<and> (dm_busy d \<longleftrightarrow> dm_latched d \<noteq> None)
     \<and> latched_ok (dm_config d) (dm_latched d)
     \<and> engine_ok (dm_latched d) (dm_engine d) (dm_block d) (dm_beat d) (dm_buffer d) (dm_dma_txn d) (dm_blk_txn d)
     \<and> dm_dma_txn d \<le> u64_max \<and> dm_blk_txn d \<le> u64_max"

definition dma_inv :: "DmaBlockController \<Rightarrow> bool" where
  "dma_inv d \<longleftrightarrow> dma_core d \<and> dm_irq_level d = dma_line d"

definition dma_config_ok :: "DmaConfig \<Rightarrow> bool" where
  "dma_config_ok c \<longleftrightarrow> 0 < dc_capacity c \<and> dc_capacity c \<le> 2 ^ 32 \<and> 0 < dc_size c \<and> dc_base c + dc_size c \<le> 2 ^ 32"

lemma dma_new:
  assumes "DmaBlockController_new c = Ok d"
  shows "dma_inv d" "dm_config d = c" "dma_config_ok c"
  using assms
  by (auto simp: DmaBlockController_new_def dma_inv_def dma_core_def dma_config_ok_def checked_u64_def MAX_CAPACITY_BLOCKS_def ADDRESS_LIMIT_def
      error_ok_def engine_ok_def dma_line_def split: if_splits)

lemma u64_max_num: "u64_max = 18446744073709551615"
  by (simp add: u64_max_def)

text \<open>What a validated command describes.\<close>

lemma validate_Ok:
  "validate c v lba addr count = Ok op \<longleftrightarrow>
     (v = 1 \<and> op = OpRead \<or> v = 2 \<and> op = OpWrite) \<and> count \<noteq> 0 \<and> unat lba + unat count \<le> dc_capacity c
     \<and> unat addr mod 16 = 0 \<and> dc_base c \<le> unat addr \<and> unat addr + unat count * 512 \<le> dc_base c + dc_size c"
proof -
  have "unat lba + unat count \<le> u64_max" "unat count * 512 \<le> u64_max" "unat addr + unat count * 512 \<le> u64_max"
    using unat_less_2p32 [of lba] unat_less_2p32 [of addr] unat_less_2p32 [of count] u64_max_num by linarith+
  then show ?thesis
    by (auto simp: validate_def checked_u64_def dma_consts Let_def)
qed

lemma engine_position:
  assumes "dma_inv d" "dm_latched d = Some l"
  shows "dm_block d < unat (la_count l)" "dm_beat d \<le> 32" "la_op l = OpRead \<Longrightarrow> dm_beat d < 32"
    "unat (la_lba l) + unat (la_count l) \<le> dc_capacity (dm_config d)" "unat (la_addr l) mod 16 = 0"
    "dc_base (dm_config d) \<le> unat (la_addr l)"
    "unat (la_addr l) + unat (la_count l) * 512 \<le> dc_base (dm_config d) + dc_size (dm_config d)"
  using assms by (auto simp: dma_inv_def dma_core_def latched_ok_def engine_ok_def validate_Ok dma_consts Let_def split: DmaOperation.splits)

lemma latched_bounds: "unat (la_lba l) < 4294967296" "unat (la_addr l) < 4294967296" "unat (la_count l) < 4294967296"
  by simp_all

lemma block_lba_is:
  assumes "dma_inv d" "dm_latched d = Some l"
  shows "block_lba d l = Ok (unat (la_lba l) + dm_block d)"
proof -
  have "unat (la_lba l) + dm_block d \<le> u64_max"
    using engine_position(1) [OF assms] latched_bounds [of l] u64_max_num by linarith
  then show ?thesis by (simp add: block_lba_def checked_u64_def)
qed

lemma beat_addr_is:
  assumes "dma_inv d" "dm_latched d = Some l"
  shows "beat_addr d l = Ok (unat (la_addr l) + dm_block d * 512 + dm_beat d * 16)"
proof -
  have "dm_block d * 512 \<le> u64_max" "dm_block d * 512 + dm_beat d * 16 \<le> u64_max"
    "unat (la_addr l) + (dm_block d * 512 + dm_beat d * 16) \<le> u64_max"
    using latched_bounds [of l] engine_position(1,2) [OF assms] u64_max_num by linarith+
  then show ?thesis by (simp add: beat_addr_def checked_u64_def dma_consts Let_def add.assoc)
qed
subsection \<open>Every delivery keeps the invariant\<close>

text \<open>The engine's requests: whole beats inside the aperture, whole blocks below the capacity.\<close>

definition beat_in :: "DmaConfig \<Rightarrow> u64 \<Rightarrow> bool" where
  "beat_in c a \<longleftrightarrow> a mod 16 = 0 \<and> dc_base c \<le> a \<and> a + 16 \<le> dc_base c + dc_size c"

fun effect_ok :: "DmaConfig \<Rightarrow> CtxEffect \<Rightarrow> bool" where
  "effect_ok c (EffSend port (MsgMemV1 (WriteReq _ a data)) _ _) \<longleftrightarrow> port = DMA_PORT \<and> beat_in c a \<and> length data = 16"
| "effect_ok c (EffSend port (MsgMemV1 (ReadReq _ a len)) _ _) \<longleftrightarrow> port = DMA_PORT \<and> beat_in c a \<and> len = 16"
| "effect_ok c (EffSend port (MsgMemV1 _) _ _) \<longleftrightarrow> port = MEM_PORT"
| "effect_ok c (EffSend port (MsgBlock (ReadBlock _ lba)) _ _) \<longleftrightarrow> port = BLK_PORT \<and> lba < dc_capacity c"
| "effect_ok c (EffSend port (MsgBlock (WriteBlock _ lba data)) _ _) \<longleftrightarrow> port = BLK_PORT \<and> lba < dc_capacity c \<and> length data = 512"
| "effect_ok c (EffSend port (MsgIrq _) _ _) \<longleftrightarrow> port = DMA_IRQ_PORT"
| "effect_ok c (EffSend port _ _ _) \<longleftrightarrow> False"
| "effect_ok c _ \<longleftrightarrow> True"

definition out_ok :: "DmaConfig \<Rightarrow> SimContext \<Rightarrow> SimContext \<Rightarrow> bool" where
  "out_ok c ctx ctx' \<longleftrightarrow> (\<exists>more. ctx_out ctx' = ctx_out ctx @ more \<and> list_all (effect_ok c) more)"

definition outcome_inv :: "DmaConfig \<Rightarrow> SimContext \<Rightarrow> (DmaBlockController \<times> SimContext, Abort) result \<Rightarrow> bool" where
  "outcome_inv c ctx r = (case r of Err a \<Rightarrow> a \<noteq> Panic | Ok (d, ctx') \<Rightarrow> dma_inv d \<and> dm_config d = c \<and> out_ok c ctx ctx')"

lemma out_ok_refl [simp]: "out_ok c ctx ctx"
  by (simp add: out_ok_def)

lemma out_ok_effect: "ctx_effect e ctx = Ok ctx' \<Longrightarrow> effect_ok c e \<Longrightarrow> out_ok c ctx ctx'"
  by (auto simp: out_ok_def)

lemma out_ok_trans: "out_ok c ctx ctx' \<Longrightarrow> out_ok c ctx' ctx'' \<Longrightarrow> out_ok c ctx ctx''"
  by (auto simp: out_ok_def)

lemma out_ok_trace [simp]: "out_ok c ctx (ctx_trace k fs ctx)"
  by (auto simp: out_ok_def ctx_trace_def)

lemma outcome_after: "outcome_inv c ctx' r \<Longrightarrow> out_ok c ctx ctx' \<Longrightarrow> outcome_inv c ctx r"
  by (auto simp: outcome_inv_def intro: out_ok_trans split: sum.splits)

lemma outcome_fault [simp]: "outcome_inv c ctx (component_fault w)"
  by (simp add: outcome_inv_def component_fault_def)

lemma outcome_Ok: "outcome_inv c ctx (Ok (d, ctx')) \<longleftrightarrow> dma_inv d \<and> dm_config d = c \<and> out_ok c ctx ctx'"
  by (simp add: outcome_inv_def)

lemma outcome_bind:
  assumes "r \<noteq> Err Panic" and "\<And>x. r = Ok x \<Longrightarrow> outcome_inv c ctx (f x)"
  shows "outcome_inv c ctx (result_bind r f)"
  using assms by (cases r) (auto simp: outcome_inv_def)

lemma outcome_send:
  assumes "effect_ok c (EffSend p m w ph)" and "\<And>ctx'. ctx_send p m w ph ctx = Ok ctx' \<Longrightarrow> dma_inv (d ctx') \<and> dm_config (d ctx') = c"
  shows "outcome_inv c ctx (result_bind (ctx_send p m w ph ctx) (\<lambda>ctx'. Ok (d ctx', ctx')))"
  using assms by (intro outcome_bind) (auto simp: outcome_Ok ctx_send_def intro: out_ok_effect)

lemma update_irq_inv:
  assumes "dma_core d" "dm_config d = c"
  shows "outcome_inv c ctx (update_irq d ctx)"
proof (cases "dma_line d = dm_irq_level d")
  case True
  then show ?thesis using assms by (simp add: update_irq_def Let_def outcome_Ok dma_inv_def)
next
  case False
  have "dma_inv (d\<lparr>dm_irq_level := dma_line d\<rparr>)"
    using assms(1) by (auto simp: dma_inv_def dma_core_def dma_line_def)
  then show ?thesis
    using False assms(2) by (auto simp: update_irq_def Let_def intro!: outcome_send)
qed

lemma dma_complete_inv:
  assumes "dma_core d" "dm_config d = c" "code \<le> 7"
  shows "outcome_inv c ctx (dma_complete d code ctx)"
  unfolding dma_complete_def
  by (rule outcome_after [OF update_irq_inv])
    (use assms in \<open>auto simp: dma_core_def error_ok_def MEDIA_ERROR_def engine_ok_def\<close>)

lemma dma_wake_inv: "dma_inv d \<Longrightarrow> dm_config d = c \<Longrightarrow> outcome_inv c ctx (dma_wake d ctx)"
  unfolding dma_wake_def
  by (intro outcome_bind) (auto simp: outcome_Ok ctx_wake_self_def intro: out_ok_effect)

lemma dma_command_inv:
  assumes inv: "dma_inv d" and c: "dm_config d = c"
  shows "outcome_inv c ctx (dma_command d v ctx)"
proof (cases "dm_busy d \<or> dm_done d")
  case True
  then show ?thesis using inv c by (auto simp: dma_command_def outcome_Ok dma_inv_def dma_core_def dma_line_def)
next
  case False
  then have idle: "dm_latched d = None" "dm_engine d = EngIdle" "dm_block d = 0" "dm_beat d = 0" "dm_buffer d = []"
    using inv by (auto simp: dma_inv_def dma_core_def engine_ok_def Let_def)
  show ?thesis
  proof (cases "validate (dm_config d) v (dm_lba d) (dm_addr d) (dm_count d)")
    case (Inr op)
    then have v: "v = ucast (DmaOperation_code op)" "dm_count d \<noteq> 0" by (auto simp: validate_Ok)
    then have "0 < unat (dm_count d)" by (simp add: unat_gt_0)
    with Inr False idle inv v have "dma_inv (d\<lparr>dm_busy := True, dm_latched := Some \<lparr>la_op = op, la_lba = dm_lba d, la_addr = dm_addr d,
        la_count = dm_count d\<rparr>, dm_engine := EngIssue\<rparr>)"
      by (auto simp: dma_inv_def dma_core_def dma_line_def latched_ok_def engine_ok_def dma_consts split: DmaOperation.splits)
    then show ?thesis
      using Inr False c by (auto simp: dma_command_def Let_def intro!: outcome_after [OF dma_wake_inv])
  next
    case (Inl code)
    then have "code \<le> 7"
      by (auto simp: validate_def BAD_COMMAND_def BAD_COUNT_def LBA_RANGE_def DMA_ALIGN_def DMA_RANGE_def Let_def
          result_bind_eq_Err split: if_splits option.splits)
    moreover have "dma_core d" using inv by (simp add: dma_inv_def)
    ultimately show ?thesis
      using Inl False c by (auto simp: dma_command_def Let_def intro!: outcome_after [OF dma_complete_inv])
  qed
qed

lemma beat_inside:
  assumes "dma_inv d" "dm_latched d = Some l" "dm_beat d < 32"
  shows "beat_in (dm_config d) (unat (la_addr l) + dm_block d * 512 + dm_beat d * 16)"
proof -
  have "dm_block d * 512 + 512 \<le> unat (la_count l) * 512" using engine_position(1) [OF assms(1,2)] by simp
  moreover have "(unat (la_addr l) + dm_block d * 512 + dm_beat d * 16) mod 16 = 0"
    using engine_position(5) [OF assms(1,2)] by presburger
  ultimately show ?thesis
    using engine_position(6,7) [OF assms(1,2)] assms(3) by (simp add: beat_in_def)
qed

lemma dma_next_txn_Ok [simp]: "dma_next_txn n = Ok m \<longleftrightarrow> n + 1 \<le> u64_max \<and> m = n + 1"
  by (auto simp: dma_next_txn_def)

lemma send_block_inv:
  assumes "effect_ok c (EffSend BLK_PORT (MsgBlock msg) WhenNow PhRequest)"
    and "dm_blk_txn d + 1 \<le> u64_max \<Longrightarrow>
      dma_inv (f (d\<lparr>dm_blk_txn := dm_blk_txn d + 1, dm_engine := WaitMedia (dm_blk_txn d)\<rparr>))
      \<and> dm_config (f (d\<lparr>dm_blk_txn := dm_blk_txn d + 1, dm_engine := WaitMedia (dm_blk_txn d)\<rparr>)) = c"
  shows "outcome_inv c ctx (result_bind (send_block d msg ctx) (\<lambda>(d, ctx). Ok (f d, ctx)))"
proof -
  have "send_block d msg ctx \<noteq> Err Panic"
    by (auto simp: send_block_def dma_next_txn_def result_bind_eq_Err ctx_send_def)
  then show ?thesis
    by (rule outcome_bind) (use assms in \<open>auto simp: send_block_def outcome_Ok ctx_send_def intro: out_ok_effect\<close>)
qed

lemma send_beat_inv:
  assumes "effect_ok c (EffSend DMA_PORT (MsgMemV1 msg) WhenNow PhRequest)"
    and "dm_dma_txn d + 1 \<le> u64_max \<Longrightarrow>
      dma_inv (d\<lparr>dm_dma_txn := dm_dma_txn d + 1, dm_engine := WaitBeat (dm_dma_txn d)\<rparr>)" and "dm_config d = c"
  shows "outcome_inv c ctx (send_beat d msg ctx)"
  unfolding send_beat_def
  by (intro outcome_bind) (use assms in \<open>auto simp: dma_next_txn_def outcome_Ok ctx_send_def intro: out_ok_effect split: if_splits\<close>)

lemma dma_issue_inv:
  assumes inv: "dma_inv d" and c: "dm_config d = c"
  shows "outcome_inv c ctx (dma_issue d ctx)"
proof (cases "dm_engine d = EngIssue \<and> dm_latched d \<noteq> None")
  case False
  then show ?thesis by (auto simp: dma_issue_def split: Engine.splits option.splits)
next
  case True
  then obtain l where l: "dm_latched d = Some l" and eng: "dm_engine d = EngIssue" by auto
  note pos = engine_position [OF inv l]
  have core: "dma_core d" "dm_irq_level d = dma_line d" using inv by (auto simp: dma_inv_def)
  have lba: "unat (la_lba l) + dm_block d < dc_capacity c" using pos(1,4) [unfolded c] by linarith
  note eval = dma_issue_def l eng block_lba_is [OF inv l] beat_addr_is [OF inv l]
  show ?thesis
  proof (cases "la_op l")
    case OpRead
    then have eok: "length (dm_buffer d) = 512 \<or> dm_buffer d = [] \<and> dm_beat d = 0" "dm_beat d < 32"
      using core l eng by (auto simp: dma_core_def engine_ok_def dma_consts Let_def)
    have reader: "dma_inv (d\<lparr>dm_blk_txn := dm_blk_txn d + 1, dm_engine := WaitMedia (dm_blk_txn d)\<rparr>)"
      if "dm_buffer d = []" "dm_blk_txn d + 1 \<le> u64_max"
      using that core l OpRead eok pos(1) by (auto simp: dma_inv_def dma_core_def dma_line_def engine_ok_def latest_def dma_consts Let_def)
    have beater: "dma_inv (d\<lparr>dm_dma_txn := dm_dma_txn d + 1, dm_engine := WaitBeat (dm_dma_txn d)\<rparr>)"
      if "dm_buffer d \<noteq> []" "dm_dma_txn d + 1 \<le> u64_max"
      using that core l OpRead eok pos(1) by (auto simp: dma_inv_def dma_core_def dma_line_def engine_ok_def latest_def dma_consts Let_def)
    show ?thesis
    proof (cases "dm_buffer d = []")
      case True
      then show ?thesis
        using send_block_inv [of c "ReadBlock (dm_blk_txn d) (unat (la_lba l) + dm_block d)" d "\<lambda>d. d" ctx] reader lba c OpRead
        by (simp add: eval case_prod_eta) (cases "send_block d (ReadBlock (dm_blk_txn d) (unat (la_lba l) + dm_block d)) ctx"; auto)
    next
      case False
      have "length (take 16 (drop (dm_beat d * 16) (dm_buffer d))) = 16" using eok False by auto
      moreover have "\<not> length (dm_buffer d) < dm_beat d * 16 + 16" using eok False by auto
      ultimately show ?thesis
        using send_beat_inv beater [OF False] beat_inside [OF inv l eok(2)] c OpRead False
        by (simp add: eval BEAT_SIZE_def)
    qed
  next
    case OpWrite
    then have eok: "length (dm_buffer d) = dm_beat d * 16" "dm_beat d \<le> 32"
      using core l eng by (auto simp: dma_core_def engine_ok_def dma_consts Let_def)
    have writer: "dma_inv (d\<lparr>dm_blk_txn := dm_blk_txn d + 1, dm_engine := WaitMedia (dm_blk_txn d), dm_buffer := []\<rparr>)"
      if "dm_beat d = 32" "dm_blk_txn d + 1 \<le> u64_max"
      using that core l OpWrite eok pos(1) by (auto simp: dma_inv_def dma_core_def dma_line_def engine_ok_def latest_def dma_consts Let_def)
    have beater: "dma_inv (d\<lparr>dm_dma_txn := dm_dma_txn d + 1, dm_engine := WaitBeat (dm_dma_txn d)\<rparr>)"
      if "dm_beat d \<noteq> 32" "dm_dma_txn d + 1 \<le> u64_max"
      using that core l OpWrite eok pos(1) by (auto simp: dma_inv_def dma_core_def dma_line_def engine_ok_def latest_def dma_consts Let_def)
    show ?thesis
    proof (cases "dm_beat d = 32")
      case True
      then show ?thesis
        using send_block_inv [of c "WriteBlock (dm_blk_txn d) (unat (la_lba l) + dm_block d) (dm_buffer d)" d "\<lambda>d. d\<lparr>dm_buffer := []\<rparr>" ctx]
          writer lba c OpWrite eok by (simp add: eval BEATS_PER_BLOCK_def)
    next
      case False
      then show ?thesis
        using send_beat_inv beater [OF False] beat_inside [OF inv l] c OpWrite eok
        by (simp add: eval BEATS_PER_BLOCK_def BEAT_SIZE_def)
    qed
  qed
qed

lemma next_block_inv:
  assumes core: "dma_core (d\<lparr>dm_engine := EngIssue, dm_beat := 0, dm_buffer := []\<rparr>)" and irq: "dm_irq_level d = dma_line d"
    and l: "dm_latched d = Some l" and c: "dm_config d = c"
  shows "outcome_inv c ctx (next_block d l ctx)"
proof -
  define d' where "d' = d\<lparr>dm_beat := 0, dm_buffer := [], dm_block := dm_block d + 1\<rparr>"
  have lt: "dm_block d < unat (la_count l)" using core l by (auto simp: dma_core_def engine_ok_def Let_def split: DmaOperation.splits)
  have done_case: "outcome_inv c ctx (dma_complete d' 0 ctx)"
  proof -
    have "dma_complete d' 0 ctx = dma_complete (d\<lparr>dm_engine := EngIssue, dm_beat := 0, dm_buffer := []\<rparr>) 0 ctx"
      by (simp add: dma_complete_def d'_def)
    then show ?thesis using dma_complete_inv [OF core, of c 0 ctx] c by simp
  qed
  have more: "outcome_inv c ctx (dma_wake (d'\<lparr>dm_engine := EngIssue\<rparr>) ctx)" if "dm_block d + 1 \<noteq> unat (la_count l)"
    using core irq l lt that c
    by (intro dma_wake_inv) (auto simp: d'_def dma_inv_def dma_core_def dma_line_def engine_ok_def dma_consts Let_def split: DmaOperation.splits)
  show ?thesis
    using done_case more by (auto simp: next_block_def Let_def d'_def)
qed

lemma media_result_inv:
  assumes inv: "dma_inv d" and c: "dm_config d = c"
  shows "outcome_inv c ctx (media_result d msg ctx)"
proof (cases "\<exists>t l. dm_engine d = WaitMedia t \<and> dm_latched d = Some l")
  case False
  then show ?thesis by (auto simp: media_result_def split: Engine.splits option.splits)
next
  case True
  then obtain t l where l: "dm_latched d = Some l" and eng: "dm_engine d = WaitMedia t" by auto
  have core: "dma_core d" and irq: "dm_irq_level d = dma_line d" using inv by (auto simp: dma_inv_def)
  have err: "outcome_inv c ctx (dma_complete d MEDIA_ERROR ctx)"
    using dma_complete_inv [OF core c] by (simp add: MEDIA_ERROR_def)
  have check: "check_result x y ctx \<noteq> Err Panic" for x y by (simp add: check_result_def)
  show ?thesis
  proof (cases "la_op l")
    case OpRead
    have "dma_inv (d\<lparr>dm_buffer := data, dm_engine := EngIssue\<rparr>)" if "length data = DISK_BLOCK" for data
      using that core irq l eng OpRead by (auto simp: dma_inv_def dma_core_def dma_line_def engine_ok_def dma_consts Let_def)
    then have "outcome_inv c ctx (dma_wake (d\<lparr>dm_buffer := data, dm_engine := EngIssue\<rparr>) ctx)" if "length data = DISK_BLOCK" for data
      using that c by (intro dma_wake_inv) auto
    with err OpRead l eng check show ?thesis
      by (cases msg) (auto simp: media_result_def intro!: outcome_bind split: BlockReadOutcome.split)
  next
    case OpWrite
    have "dma_core (d\<lparr>dm_engine := EngIssue, dm_beat := 0, dm_buffer := []\<rparr>)"
      using core l eng OpWrite by (auto simp: dma_core_def engine_ok_def dma_consts Let_def)
    from next_block_inv [OF this irq l c] err OpWrite l eng check show ?thesis
      by (cases msg) (auto simp: media_result_def intro!: outcome_bind split: BlockWriteOutcome.split)
  qed
qed

lemma beat_result_inv:
  assumes inv: "dma_inv d" and c: "dm_config d = c"
  shows "outcome_inv c ctx (beat_result d msg ctx)"
proof (cases "\<exists>t l. dm_engine d = WaitBeat t \<and> dm_latched d = Some l")
  case False
  then show ?thesis by (auto simp: beat_result_def split: Engine.splits option.splits)
next
  case True
  then obtain t l where l: "dm_latched d = Some l" and eng: "dm_engine d = WaitBeat t" by auto
  have core: "dma_core d" and irq: "dm_irq_level d = dma_line d" using inv by (auto simp: dma_inv_def)
  have err: "outcome_inv c ctx (dma_complete d DMA_FAULT ctx)"
    using dma_complete_inv [OF core c] by (simp add: DMA_FAULT_def)
  have check: "check_result x y ctx \<noteq> Err Panic" for x y by (simp add: check_result_def)
  have small: "dm_beat d \<le> 32" using engine_position(2) [OF inv l] .
  show ?thesis
  proof (cases "la_op l")
    case OpRead
    let ?d = "d\<lparr>dm_beat := dm_beat d + 1\<rparr>"
    have "dma_core (?d\<lparr>dm_engine := EngIssue, dm_beat := 0, dm_buffer := []\<rparr>)"
      using core l eng OpRead by (auto simp: dma_core_def engine_ok_def dma_consts Let_def)
    from next_block_inv [OF this, of l c ctx] have last_beat: "outcome_inv c ctx (next_block ?d l ctx)"
      using irq l c by (simp add: dma_line_def)
    have "dma_inv (?d\<lparr>dm_engine := EngIssue\<rparr>)" if "dm_beat d + 1 \<noteq> BEATS_PER_BLOCK"
      using that core irq l eng OpRead by (auto simp: dma_inv_def dma_core_def dma_line_def engine_ok_def dma_consts Let_def)
    then have more: "outcome_inv c ctx (dma_wake (?d\<lparr>dm_engine := EngIssue\<rparr>) ctx)" if "dm_beat d + 1 \<noteq> BEATS_PER_BLOCK"
      using that c by (intro dma_wake_inv) auto
    from last_beat more err OpRead l eng check small show ?thesis
      by (cases msg) (auto simp: beat_result_def Let_def intro!: outcome_bind split: WriteOutcome.split)
  next
    case OpWrite
    have "dma_inv (d\<lparr>dm_buffer := dm_buffer d @ data, dm_beat := dm_beat d + 1, dm_engine := EngIssue\<rparr>)" if "length data = BEAT_SIZE" for data
      using that core irq l eng OpWrite by (auto simp: dma_inv_def dma_core_def dma_line_def engine_ok_def dma_consts Let_def)
    then have "outcome_inv c ctx (dma_wake (d\<lparr>dm_buffer := dm_buffer d @ data, dm_beat := dm_beat d + 1, dm_engine := EngIssue\<rparr>) ctx)"
      if "length data = BEAT_SIZE" for data using that c by (intro dma_wake_inv) auto
    with err OpWrite l eng check small show ?thesis
      by (cases msg) (auto simp: beat_result_def intro!: outcome_bind split: ReadOutcome.split)
  qed
qed

lemma write_register_inv:
  assumes inv: "dma_inv d" and c: "dm_config d = c"
  shows "write_register d off v ctx \<noteq> Err Panic"
    and "write_register d off v ctx = Ok (w, d', ctx') \<Longrightarrow> dma_inv d' \<and> dm_config d' = c \<and> out_ok c ctx ctx'"
proof -
  have core: "dma_core d" using inv by (simp add: dma_inv_def)
  have enable: "outcome_inv c ctx (update_irq (d\<lparr>dm_irq_enable := v AND 1\<rparr>) ctx)"
    using core c by (intro update_irq_inv) (auto simp: dma_core_def and.assoc)
  have ack: "outcome_inv c ctx (update_irq (d\<lparr>dm_done := False, dm_error := 0\<rparr>) ctx)"
    using core c by (intro update_irq_inv) (auto simp: dma_core_def error_ok_def)
  have plain: "outcome_inv c ctx (Ok (d\<lparr>dm_rejected := False\<rparr>, ctx))" "outcome_inv c ctx (Ok (d\<lparr>dm_lba := x\<rparr>, ctx))"
    "outcome_inv c ctx (Ok (d\<lparr>dm_addr := x\<rparr>, ctx))" "outcome_inv c ctx (Ok (d\<lparr>dm_count := x\<rparr>, ctx))" "outcome_inv c ctx (Ok (d, ctx))" for x
    using inv c by (auto simp: outcome_Ok dma_inv_def dma_core_def dma_line_def)
  define Q where "Q r \<longleftrightarrow> r \<noteq> Err Panic \<and> (r = Ok (w, d', ctx') \<longrightarrow> dma_inv d' \<and> dm_config d' = c \<and> out_ok c ctx ctx')" for r
  have lift: "Q (result_bind r (\<lambda>(d, ctx). Ok (True, d, ctx)))" if "outcome_inv c ctx r" for r
    using that by (cases r) (auto simp: outcome_inv_def Q_def)
  have Q_if: "Q (if b then x else y)" if "Q x" "Q y" for b x y using that by simp
  have "outcome_inv c ctx (Ok (if v AND DMA_STATUS_REJECTED \<noteq> 0 then d\<lparr>dm_rejected := False\<rparr> else d, ctx))"
    "outcome_inv c ctx (if v AND 1 \<noteq> 0 \<and> dm_done d then update_irq (d\<lparr>dm_done := False, dm_error := 0\<rparr>) ctx else Ok (d, ctx))"
    using plain ack by simp_all
  moreover have "Q (Ok (False, d, ctx))" using inv c by (auto simp: Q_def)
  ultimately have "Q (write_register d off v ctx)"
    unfolding write_register_def Let_def by (intro Q_if lift dma_command_inv [OF inv c] enable plain) simp_all
  then show "write_register d off v ctx \<noteq> Err Panic"
    and "write_register d off v ctx = Ok (w, d', ctx') \<Longrightarrow> dma_inv d' \<and> dm_config d' = c \<and> out_ok c ctx ctx'"
    by (simp_all add: Q_def)
qed

lemma dma_respond_inv: "dma_inv d \<Longrightarrow> dm_config d = c \<Longrightarrow> mem_access resp = None \<Longrightarrow> outcome_inv c ctx (dma_respond d resp ctx)"
  unfolding dma_respond_def by (intro outcome_send) (cases resp; auto)+

lemma dma_request_inv:
  assumes inv: "dma_inv d" and c: "dm_config d = c"
  shows "outcome_inv c ctx (dma_request d msg ctx)"
proof (cases "mem_access msg")
  case None
  then show ?thesis by (simp add: dma_request_def)
next
  case (Some access)
  have word: "register_word access \<noteq> Err Panic" by (simp add: register_word_def split: ByteAccess.split)
  note respond = dma_respond_inv [OF inv c]
  have writes: "outcome_inv c ctx (result_bind
      (case word of Some off \<Rightarrow> if length data = 4 then write_register d off (u32_from_le_bytes data) ctx else Ok (False, d, ctx)
       | None \<Rightarrow> Ok (False, d, ctx))
      (\<lambda>(written, d, ctx). dma_respond d (WriteResp txn (if written then WriteDone else WriteFault AccessFault)) ctx))"
    for word :: "u64 option" and data txn
  proof (rule outcome_bind)
    let ?r = "case word of Some off \<Rightarrow> if length data = 4 then write_register d off (u32_from_le_bytes data) ctx else Ok (False, d, ctx)
       | None \<Rightarrow> Ok (False, d, ctx)"
    show "?r \<noteq> Err Panic" using write_register_inv(1) [OF inv c] by (auto split: option.split)
    fix x assume r: "?r = Ok x"
    obtain w d' ctx' where x: "x = (w, d', ctx')" by (cases x)
    have "dma_inv d' \<and> dm_config d' = c \<and> out_ok c ctx ctx'"
      using r write_register_inv(2) [OF inv c] inv c by (auto simp: x split: option.splits if_splits)
    then show "outcome_inv c ctx (case x of (written, d, ctx) \<Rightarrow>
        dma_respond d (WriteResp txn (if written then WriteDone else WriteFault AccessFault)) ctx)"
      by (auto simp: x intro!: outcome_after [OF dma_respond_inv])
  qed
  show ?thesis
    unfolding dma_request_def Some option.case
    by (rule outcome_bind [OF word], cases msg) (use Some respond writes in auto)
qed

lemma dma_event_inv:
  assumes "dma_inv d" "dm_config d = c"
  shows "outcome_inv c ctx (dma_handle_event d ev ctx)"
  using dma_request_inv [OF assms] beat_result_inv [OF assms] media_result_inv [OF assms] dma_issue_inv [OF assms]
  by (cases "(d, ev, ctx)" rule: dma_handle_event.cases) auto

inductive dma_reach :: "DmaConfig \<Rightarrow> DmaBlockController \<Rightarrow> bool" for c where
  start: "DmaBlockController_new c = Ok d \<Longrightarrow> dma_reach c d"
| event: "dma_reach c d \<Longrightarrow> dma_handle_event d ev ctx = Ok (d', ctx') \<Longrightarrow> dma_reach c d'"

lemma dma_reach_inv: "dma_reach c d \<Longrightarrow> dma_inv d \<and> dm_config d = c"
proof (induction rule: dma_reach.induct)
  case (event d ev ctx d' ctx')
  then show ?case using dma_event_inv [of d c ctx ev] by (simp add: outcome_Ok)
qed (use dma_new in auto)

text \<open>
  C10. In every state the controller reaches, by any deliveries, the lifecycle and the engine are consistent
  (exactly what restore checks), the interrupt line is asserted exactly when a command is done and the
  interrupt enabled, no delivery panics, and whatever a delivery sends is well-formed: beats of 16
  bytes, aligned and inside the DMA aperture, blocks of 512 bytes below the capacity.
\<close>

theorem dma_reachable_safe:
  assumes "dma_reach c d"
  shows "dma_inv d \<and> dma_handle_event d ev ctx \<noteq> Err Panic
    \<and> (ctx_out ctx = [] \<and> dma_handle_event d ev ctx = Ok (d', ctx') \<longrightarrow> list_all (effect_ok c) (ctx_out ctx'))"
  using dma_reach_inv [OF assms] dma_event_inv [of d c ctx ev] by (auto simp: outcome_inv_def out_ok_def)

subsection \<open>A command is a copy\<close>

text \<open>
  The controller's two neighbours, as the specification sees them: a byte memory that may refuse a
  beat, and the disk of the media's specification. A round is one wake of the engine, the one request
  it sends, served, and the delivery of the answer; \<open>dma_run\<close> makes rounds while the engine has a
  request to issue.
\<close>

record Neighbours =
  nb_mem :: "u64 \<Rightarrow> u8"
  nb_fault :: "u64 \<Rightarrow> bool"
  nb_disk :: "u64 \<Rightarrow> u8 list"
  nb_err :: "u64 \<Rightarrow> MediaError option"

definition bytes_put :: "(u64 \<Rightarrow> u8) \<Rightarrow> u64 \<Rightarrow> u8 list \<Rightarrow> u64 \<Rightarrow> u8" where
  "bytes_put f a bs = (\<lambda>x. if a \<le> x \<and> x < a + length bs then bs ! (x - a) else f x)"

definition bytes_get :: "(u64 \<Rightarrow> u8) \<Rightarrow> u64 \<Rightarrow> nat \<Rightarrow> u8 list" where
  "bytes_get f a n = map f [a..<a + n]"

fun neighbour_serve :: "Message \<Rightarrow> Neighbours \<Rightarrow> (Delivered \<times> Neighbours) option" where
  "neighbour_serve (MsgMemV1 (WriteReq t a data)) nb =
     (if nb_fault nb a then Some (DMessage DMA_PORT (MsgMemV1 (WriteResp t (WriteFault AccessFault))), nb)
      else Some (DMessage DMA_PORT (MsgMemV1 (WriteResp t WriteDone)), nb\<lparr>nb_mem := bytes_put (nb_mem nb) a data\<rparr>))"
| "neighbour_serve (MsgMemV1 (ReadReq t a len)) nb =
     (if nb_fault nb a then Some (DMessage DMA_PORT (MsgMemV1 (ReadResp t (ReadFault AccessFault))), nb)
      else Some (DMessage DMA_PORT (MsgMemV1 (ReadResp t (ReadData (bytes_get (nb_mem nb) a (unat len))))), nb))"
| "neighbour_serve (MsgBlock msg) nb =
     (case disk_serve (nb_err nb) (nb_disk nb) msg of (reply, disk) \<Rightarrow>
        Some (DMessage BLK_PORT (MsgBlock reply), nb\<lparr>nb_disk := disk\<rparr>))"
| "neighbour_serve _ nb = None"

definition round_ctx :: "Phase \<Rightarrow> SimContext" where
  "round_ctx ph = \<lparr>ctx_phase = ph, ctx_refuse = (\<lambda>_. None), ctx_out = []\<rparr>"

definition dma_round :: "DmaBlockController \<times> Neighbours \<Rightarrow> (DmaBlockController \<times> Neighbours) option" where
  "dma_round s =
     (case s of (d, nb) \<Rightarrow>
        case dma_handle_event d (DWake DMA_ISSUE) (round_ctx PhRequest) of
          Err _ \<Rightarrow> None
        | Ok (d, ctx) \<Rightarrow>
            (case ctx_out ctx of
               [EffSend _ msg _ _] \<Rightarrow>
                 (case neighbour_serve msg nb of
                    None \<Rightarrow> None
                  | Some (reply, nb) \<Rightarrow>
                      (case dma_handle_event d reply (round_ctx PhComplete) of Err _ \<Rightarrow> None | Ok (d, _) \<Rightarrow> Some (d, nb)))
             | _ \<Rightarrow> None))"

fun dma_run :: "nat \<Rightarrow> DmaBlockController \<times> Neighbours \<Rightarrow> (DmaBlockController \<times> Neighbours) option" where
  "dma_run 0 s = Some s"
| "dma_run (Suc n) s = (if dm_engine (fst s) = EngIssue then Option.bind (dma_round s) (dma_run n) else Some s)"

text \<open>The copies the registers describe: until the first failure, block by block and beat by beat.\<close>

fun copy_in :: "nat \<Rightarrow> u64 \<Rightarrow> u8 list \<Rightarrow> Neighbours \<Rightarrow> Neighbours \<times> u8" where
  "copy_in 0 a data nb = (nb, 0)"
| "copy_in (Suc n) a data nb =
     (if nb_fault nb a then (nb, DMA_FAULT)
      else copy_in n (a + 16) (drop 16 data) (nb\<lparr>nb_mem := bytes_put (nb_mem nb) a (take 16 data)\<rparr>))"

fun read_blocks :: "nat \<Rightarrow> u64 \<Rightarrow> u64 \<Rightarrow> Neighbours \<Rightarrow> Neighbours \<times> u8" where
  "read_blocks 0 lba a nb = (nb, 0)"
| "read_blocks (Suc n) lba a nb =
     (case nb_err nb lba of
        Some _ \<Rightarrow> (nb, MEDIA_ERROR)
      | None \<Rightarrow> (case copy_in 32 a (nb_disk nb lba) nb of (nb, e) \<Rightarrow> if e \<noteq> 0 then (nb, e) else read_blocks n (lba + 1) (a + 512) nb))"

fun copy_out :: "nat \<Rightarrow> u64 \<Rightarrow> Neighbours \<Rightarrow> u8 list option" where
  "copy_out 0 a nb = Some []"
| "copy_out (Suc n) a nb =
     (if nb_fault nb a then None else map_option (\<lambda>bs. bytes_get (nb_mem nb) a 16 @ bs) (copy_out n (a + 16) nb))"

fun write_blocks :: "nat \<Rightarrow> u64 \<Rightarrow> u64 \<Rightarrow> Neighbours \<Rightarrow> Neighbours \<times> u8" where
  "write_blocks 0 lba a nb = (nb, 0)"
| "write_blocks (Suc n) lba a nb =
     (case copy_out 32 a nb of
        None \<Rightarrow> (nb, DMA_FAULT)
      | Some data \<Rightarrow> (case nb_err nb lba of
            Some _ \<Rightarrow> (nb, MEDIA_ERROR)
          | None \<Rightarrow> write_blocks n (lba + 1) (a + 512) (nb\<lparr>nb_disk := (nb_disk nb)(lba := data)\<rparr>)))"

lemma dma_round_inv:
  assumes "dma_inv d" "dma_round (d, nb) = Some (d', nb')"
  shows "dma_inv d' \<and> dm_config d' = dm_config d"
proof -
  have "\<exists>d1 c1 reply c2. dma_handle_event d (DWake DMA_ISSUE) (round_ctx PhRequest) = Ok (d1, c1)
      \<and> dma_handle_event d1 reply (round_ctx PhComplete) = Ok (d', c2)"
    using assms(2) by (auto simp: dma_round_def split: sum.splits list.splits CtxEffect.splits option.splits) blast
  then show ?thesis using dma_event_inv assms(1) by (metis outcome_Ok)
qed

text \<open>A command that has ended with a code: the registers are as they were and the line follows.\<close>

definition settled :: "DmaBlockController \<Rightarrow> u8 \<Rightarrow> DmaBlockController \<Rightarrow> bool" where
  "settled d e d' \<longleftrightarrow> dm_done d' \<and> \<not> dm_busy d' \<and> dm_engine d' = EngIdle \<and> dm_error d' = e \<and> dm_latched d' = None
     \<and> dm_config d' = dm_config d \<and> dm_lba d' = dm_lba d \<and> dm_addr d' = dm_addr d \<and> dm_count d' = dm_count d
     \<and> dm_irq_enable d' = dm_irq_enable d \<and> dm_rejected d' = dm_rejected d \<and> dm_irq_level d' = (dm_irq_enable d AND 1 \<noteq> 0)"

lemma complete_settles: "\<exists>d' ctx'. dma_complete d e (round_ctx ph) = Ok (d', ctx') \<and> settled d e d'"
  by (auto simp: dma_complete_def update_irq_def Let_def dma_line_def settled_def ctx_send_def ctx_effect_def ctx_trace_def round_ctx_def)

lemma run_settled: "settled d e d' \<Longrightarrow> dma_run n (d', nb) = Some (d', nb)"
  by (cases n) (simp_all add: settled_def)

lemma round_ctx_simps [simp]: "ctx_refuse (round_ctx ph) e = None" "ctx_out (round_ctx ph) = []" "ctx_phase (round_ctx ph) = ph"
  by (simp_all add: round_ctx_def)

lemmas round_eval = dma_round_def dma_issue_def send_block_def send_beat_def media_result_def beat_result_def check_result_def
  dma_wake_def ctx_send_def ctx_wake_self_def ctx_effect_def dma_next_txn_def MEM_PORT_def DMA_PORT_def BLK_PORT_def

lemma u32_max_num: "u32_max = 4294967295"
  by (simp add: u32_max_def)

lemma round_fetch:
  assumes inv: "dma_inv d" and l: "dm_latched d = Some l" "la_op l = OpRead" and eng: "dm_engine d = EngIssue" "dm_buffer d = []"
    and room: "dm_blk_txn d < u64_max"
  shows "nb_err nb (unat (la_lba l) + dm_block d) = Some x \<Longrightarrow> \<exists>d'. dma_round (d, nb) = Some (d', nb) \<and> settled d MEDIA_ERROR d'"
    and "nb_err nb (unat (la_lba l) + dm_block d) = None \<Longrightarrow> length (nb_disk nb (unat (la_lba l) + dm_block d)) = 512 \<Longrightarrow>
      dma_round (d, nb) = Some (d\<lparr>dm_blk_txn := dm_blk_txn d + 1, dm_buffer := nb_disk nb (unat (la_lba l) + dm_block d)\<rparr>, nb)"
proof -
  note ev = round_eval l eng block_lba_is [OF inv l(1)]
  assume "nb_err nb (unat (la_lba l) + dm_block d) = Some x"
  then show "\<exists>d'. dma_round (d, nb) = Some (d', nb) \<and> settled d MEDIA_ERROR d'"
    using room complete_settles [of "d\<lparr>dm_blk_txn := dm_blk_txn d + 1, dm_engine := WaitMedia (dm_blk_txn d)\<rparr>" MEDIA_ERROR PhComplete]
    by (auto simp: ev settled_def)
next
  note ev = round_eval l eng block_lba_is [OF inv l(1)]
  assume "nb_err nb (unat (la_lba l) + dm_block d) = None" "length (nb_disk nb (unat (la_lba l) + dm_block d)) = 512"
  then show "dma_round (d, nb) = Some (d\<lparr>dm_blk_txn := dm_blk_txn d + 1, dm_buffer := nb_disk nb (unat (la_lba l) + dm_block d)\<rparr>, nb)"
    using room eng by (simp add: ev DISK_BLOCK_def)
qed

lemma round_store:
  assumes inv: "dma_inv d" and l: "dm_latched d = Some l" "la_op l = OpRead" and eng: "dm_engine d = EngIssue" "length (dm_buffer d) = 512"
    and room: "dm_dma_txn d < u64_max" and a: "a = unat (la_addr l) + dm_block d * 512 + dm_beat d * 16"
  shows "nb_fault nb a \<Longrightarrow> \<exists>d'. dma_round (d, nb) = Some (d', nb) \<and> settled d DMA_FAULT d'"
    and "\<not> nb_fault nb a \<Longrightarrow> dm_beat d < 31 \<Longrightarrow> dma_round (d, nb) =
      Some (d\<lparr>dm_dma_txn := dm_dma_txn d + 1, dm_beat := dm_beat d + 1\<rparr>, nb\<lparr>nb_mem := bytes_put (nb_mem nb) a (take 16 (drop (dm_beat d * 16) (dm_buffer d)))\<rparr>)"
    and "\<not> nb_fault nb a \<Longrightarrow> dm_beat d = 31 \<Longrightarrow> dm_block d + 1 < unat (la_count l) \<Longrightarrow> dma_round (d, nb) =
      Some (d\<lparr>dm_dma_txn := dm_dma_txn d + 1, dm_beat := 0, dm_buffer := [], dm_block := dm_block d + 1\<rparr>,
        nb\<lparr>nb_mem := bytes_put (nb_mem nb) a (take 16 (drop (dm_beat d * 16) (dm_buffer d)))\<rparr>)"
    and "\<not> nb_fault nb a \<Longrightarrow> dm_beat d = 31 \<Longrightarrow> dm_block d + 1 = unat (la_count l) \<Longrightarrow> \<exists>d'. dma_round (d, nb) =
      Some (d', nb\<lparr>nb_mem := bytes_put (nb_mem nb) a (take 16 (drop (dm_beat d * 16) (dm_buffer d)))\<rparr>) \<and> settled d 0 d'"
proof -
  have beat: "dm_beat d < 32" using engine_position(3) [OF inv l] .
  have ne: "dm_buffer d \<noteq> []" using eng(2) by auto
  have lim: "dm_block d < u32_max" using engine_position(1) [OF inv l(1)] latched_bounds(3) [of l] u32_max_num by linarith
  note ev = round_eval l eng beat_addr_is [OF inv l(1), folded a] ne BEAT_SIZE_def BEATS_PER_BLOCK_def next_block_def
  let ?d = "d\<lparr>dm_dma_txn := dm_dma_txn d + 1, dm_engine := WaitBeat (dm_dma_txn d)\<rparr>"
  show "nb_fault nb a \<Longrightarrow> \<exists>d'. dma_round (d, nb) = Some (d', nb) \<and> settled d DMA_FAULT d'"
    using room beat complete_settles [of ?d DMA_FAULT PhComplete] by (auto simp: ev settled_def)
  show "\<not> nb_fault nb a \<Longrightarrow> dm_beat d < 31 \<Longrightarrow> dma_round (d, nb) =
      Some (d\<lparr>dm_dma_txn := dm_dma_txn d + 1, dm_beat := dm_beat d + 1\<rparr>, nb\<lparr>nb_mem := bytes_put (nb_mem nb) a (take 16 (drop (dm_beat d * 16) (dm_buffer d)))\<rparr>)"
    using room beat by (simp add: ev)
  show "\<not> nb_fault nb a \<Longrightarrow> dm_beat d = 31 \<Longrightarrow> dm_block d + 1 < unat (la_count l) \<Longrightarrow> dma_round (d, nb) =
      Some (d\<lparr>dm_dma_txn := dm_dma_txn d + 1, dm_beat := 0, dm_buffer := [], dm_block := dm_block d + 1\<rparr>,
        nb\<lparr>nb_mem := bytes_put (nb_mem nb) a (take 16 (drop (dm_beat d * 16) (dm_buffer d)))\<rparr>)"
    using room beat lim by (simp add: ev)
  show "\<not> nb_fault nb a \<Longrightarrow> dm_beat d = 31 \<Longrightarrow> dm_block d + 1 = unat (la_count l) \<Longrightarrow> \<exists>d'. dma_round (d, nb) =
      Some (d', nb\<lparr>nb_mem := bytes_put (nb_mem nb) a (take 16 (drop (dm_beat d * 16) (dm_buffer d)))\<rparr>) \<and> settled d 0 d'"
    using room beat lim complete_settles [of "?d\<lparr>dm_beat := 0, dm_buffer := [], dm_block := dm_block d + 1\<rparr>" 0 PhComplete]
    by (auto simp: ev settled_def)
qed

lemma length_bytes_get [simp]: "length (bytes_get f a n) = n"
  by (simp add: bytes_get_def)

lemma round_load:
  assumes inv: "dma_inv d" and l: "dm_latched d = Some l" "la_op l = OpWrite" and eng: "dm_engine d = EngIssue" "dm_beat d < 32"
    and room: "dm_dma_txn d < u64_max" and a: "a = unat (la_addr l) + dm_block d * 512 + dm_beat d * 16"
  shows "nb_fault nb a \<Longrightarrow> \<exists>d'. dma_round (d, nb) = Some (d', nb) \<and> settled d DMA_FAULT d'"
    and "\<not> nb_fault nb a \<Longrightarrow> dma_round (d, nb) =
      Some (d\<lparr>dm_dma_txn := dm_dma_txn d + 1, dm_beat := dm_beat d + 1, dm_buffer := dm_buffer d @ bytes_get (nb_mem nb) a 16\<rparr>, nb)"
proof -
  have ne: "dm_beat d \<noteq> 32" "\<not> 254 < dm_beat d" using eng(2) by simp_all
  note ev = round_eval l eng ne beat_addr_is [OF inv l(1), folded a] BEAT_SIZE_def BEATS_PER_BLOCK_def
  let ?d = "d\<lparr>dm_dma_txn := dm_dma_txn d + 1, dm_engine := WaitBeat (dm_dma_txn d)\<rparr>"
  show "nb_fault nb a \<Longrightarrow> \<exists>d'. dma_round (d, nb) = Some (d', nb) \<and> settled d DMA_FAULT d'"
    using room eng(2) complete_settles [of ?d DMA_FAULT PhComplete] by (auto simp: ev settled_def)
  show "\<not> nb_fault nb a \<Longrightarrow> dma_round (d, nb) =
      Some (d\<lparr>dm_dma_txn := dm_dma_txn d + 1, dm_beat := dm_beat d + 1, dm_buffer := dm_buffer d @ bytes_get (nb_mem nb) a 16\<rparr>, nb)"
    using room eng(2) by (simp add: ev)
qed

lemma round_commit:
  assumes inv: "dma_inv d" and l: "dm_latched d = Some l" "la_op l = OpWrite" and eng: "dm_engine d = EngIssue" "dm_beat d = 32"
    and room: "dm_blk_txn d < u64_max" and b: "b = unat (la_lba l) + dm_block d"
  shows "nb_err nb b = Some x \<Longrightarrow> \<exists>d'. dma_round (d, nb) = Some (d', nb) \<and> settled d MEDIA_ERROR d'"
    and "nb_err nb b = None \<Longrightarrow> dm_block d + 1 < unat (la_count l) \<Longrightarrow> dma_round (d, nb) =
      Some (d\<lparr>dm_blk_txn := dm_blk_txn d + 1, dm_beat := 0, dm_buffer := [], dm_block := dm_block d + 1\<rparr>,
        nb\<lparr>nb_disk := (nb_disk nb)(b := dm_buffer d)\<rparr>)"
    and "nb_err nb b = None \<Longrightarrow> dm_block d + 1 = unat (la_count l) \<Longrightarrow> \<exists>d'. dma_round (d, nb) =
      Some (d', nb\<lparr>nb_disk := (nb_disk nb)(b := dm_buffer d)\<rparr>) \<and> settled d 0 d'"
proof -
  have lim: "dm_block d < u32_max" using engine_position(1) [OF inv l(1)] latched_bounds(3) [of l] u32_max_num by linarith
  note ev = round_eval l eng block_lba_is [OF inv l(1), folded b] BEATS_PER_BLOCK_def next_block_def
  let ?d = "d\<lparr>dm_blk_txn := dm_blk_txn d + 1, dm_engine := WaitMedia (dm_blk_txn d), dm_buffer := []\<rparr>"
  show "nb_err nb b = Some x \<Longrightarrow> \<exists>d'. dma_round (d, nb) = Some (d', nb) \<and> settled d MEDIA_ERROR d'"
    using room complete_settles [of ?d MEDIA_ERROR PhComplete] by (auto simp: ev settled_def)
  show "nb_err nb b = None \<Longrightarrow> dm_block d + 1 < unat (la_count l) \<Longrightarrow> dma_round (d, nb) =
      Some (d\<lparr>dm_blk_txn := dm_blk_txn d + 1, dm_beat := 0, dm_buffer := [], dm_block := dm_block d + 1\<rparr>,
        nb\<lparr>nb_disk := (nb_disk nb)(b := dm_buffer d)\<rparr>)"
    using room lim by (simp add: ev)
  show "nb_err nb b = None \<Longrightarrow> dm_block d + 1 = unat (la_count l) \<Longrightarrow> \<exists>d'. dma_round (d, nb) =
      Some (d', nb\<lparr>nb_disk := (nb_disk nb)(b := dm_buffer d)\<rparr>) \<and> settled d 0 d'"
    using room lim complete_settles [of "d\<lparr>dm_blk_txn := dm_blk_txn d + 1, dm_engine := WaitMedia (dm_blk_txn d),
      dm_beat := 0, dm_buffer := [], dm_block := dm_block d + 1\<rparr>" 0 PhComplete] by (auto simp: ev settled_def)
qed

text \<open>A run that ends settled: within \<open>n\<close> rounds, and more rounds change nothing.\<close>

definition ends :: "nat \<Rightarrow> DmaBlockController \<times> Neighbours \<Rightarrow> DmaBlockController \<Rightarrow> Neighbours \<times> u8 \<Rightarrow> bool" where
  "ends n s d out \<longleftrightarrow> (\<exists>d'. settled d (snd out) d' \<and> (\<forall>m\<ge>n. dma_run m s = Some (d', fst out)))"

lemma ends_settled:
  assumes "dm_engine d = EngIssue" "\<exists>d'. dma_round (d, nb) = Some (d', nb') \<and> settled d\<^sub>0 e d'"
  shows "ends (Suc n) (d, nb) d\<^sub>0 (nb', e)"
proof -
  obtain d' where d': "dma_round (d, nb) = Some (d', nb')" "settled d\<^sub>0 e d'" using assms(2) by blast
  have "dma_run m (d, nb) = Some (d', nb')" if "Suc n \<le> m" for m
    using that d' run_settled [OF d'(2)] assms(1) by (cases m) auto
  then show ?thesis using d'(2) by (auto simp: ends_def)
qed

lemma ends_step:
  assumes "dm_engine d = EngIssue" "dma_round (d, nb) = Some s" "ends n s d\<^sub>0 out"
  shows "ends (Suc n) (d, nb) d\<^sub>0 out"
proof -
  obtain d' where d': "settled d\<^sub>0 (snd out) d'" "\<forall>m\<ge>n. dma_run m s = Some (d', fst out)" using assms(3) by (auto simp: ends_def)
  have "dma_run m (d, nb) = Some (d', fst out)" if "Suc n \<le> m" for m
    using that d' assms(1,2) by (cases m) auto
  then show ?thesis using d'(1) by (auto simp: ends_def)
qed

lemma ends_mono: "ends n s d out \<Longrightarrow> n \<le> m \<Longrightarrow> ends m s d out"
  by (auto simp: ends_def)

lemma settled_updates [simp]:
  "settled (d\<lparr>dm_dma_txn := x\<rparr>) = settled d" "settled (d\<lparr>dm_blk_txn := y\<rparr>) = settled d" "settled (d\<lparr>dm_beat := j\<rparr>) = settled d"
  "settled (d\<lparr>dm_block := i\<rparr>) = settled d" "settled (d\<lparr>dm_buffer := b\<rparr>) = settled d"
  by (simp_all add: settled_def fun_eq_iff)

lemma ends_base: "settled d = settled d' \<Longrightarrow> ends n s d out = ends n s d' out"
  by (simp add: ends_def)

lemma copy_in_keeps: "copy_in n a data nb = (nb', e) \<Longrightarrow> nb_disk nb' = nb_disk nb \<and> nb_err nb' = nb_err nb \<and> nb_fault nb' = nb_fault nb"
  by (induction n a data nb rule: copy_in.induct) (auto split: if_splits)

lemma codes_nonzero [simp]: "DMA_FAULT \<noteq> 0" "MEDIA_ERROR \<noteq> 0"
  by (simp_all add: DMA_FAULT_def MEDIA_ERROR_def)

text \<open>The remaining beats of a block of a READ.\<close>

lemma read_beats:
  assumes "dma_inv d" "dm_latched d = Some l" "la_op l = OpRead" "dm_engine d = EngIssue" "length (dm_buffer d) = 512"
    and "dm_beat d + Suc k = 32" "dm_dma_txn d + Suc k \<le> u64_max"
    and "copy_in (Suc k) (unat (la_addr l) + dm_block d * 512 + dm_beat d * 16) (drop (dm_beat d * 16) (dm_buffer d)) nb = (nb', e)"
    and next_block: "e = 0 \<Longrightarrow> dm_block d + 1 < unat (la_count l) \<Longrightarrow>
      dma_inv (d\<lparr>dm_dma_txn := dm_dma_txn d + Suc k, dm_beat := 0, dm_buffer := [], dm_block := dm_block d + 1\<rparr>) \<Longrightarrow>
      ends n (d\<lparr>dm_dma_txn := dm_dma_txn d + Suc k, dm_beat := 0, dm_buffer := [], dm_block := dm_block d + 1\<rparr>, nb') d out"
    and stops: "e \<noteq> 0 \<or> dm_block d + 1 = unat (la_count l) \<Longrightarrow> out = (nb', e)"
  shows "ends (Suc k + n) (d, nb) d out"
  using assms
proof (induction k arbitrary: d nb)
  case 0
  let ?a = "unat (la_addr l) + dm_block d * 512 + dm_beat d * 16"
  note st = round_store [OF 0(1,2,3,4,5) _ refl, of nb]
  have beat: "dm_beat d = 31" and room: "dm_dma_txn d < u64_max" using 0(6,7) by auto
  have blk: "dm_block d + 1 < unat (la_count l) \<or> dm_block d + 1 = unat (la_count l)" using engine_position(1) [OF 0(1,2)] by linarith
  show ?case
  proof (cases "nb_fault nb ?a")
    case True
    then have "out = (nb, DMA_FAULT)" using 0(8,10) by auto
    then show ?thesis using ends_settled [OF 0(4) st(1) [OF room True]] by simp
  next
    case False
    have out: "nb' = nb\<lparr>nb_mem := bytes_put (nb_mem nb) ?a (take 16 (drop (dm_beat d * 16) (dm_buffer d)))\<rparr>" "e = 0"
      using 0(8) False by auto
    from blk show ?thesis
    proof
      assume lt: "dm_block d + 1 < unat (la_count l)"
      note r = st(3) [OF room False beat lt, folded out(1)]
      have "ends n (d\<lparr>dm_dma_txn := dm_dma_txn d + 1, dm_beat := 0, dm_buffer := [], dm_block := dm_block d + 1\<rparr>, nb') d out"
        using 0(9) [OF out(2) lt] dma_round_inv [OF 0(1) r] by simp
      from ends_step [OF 0(4) r this] show ?thesis by simp
    next
      assume eq: "dm_block d + 1 = unat (la_count l)"
      then show ?thesis using ends_settled [OF 0(4) st(4) [OF room False beat eq], of n] 0(10) out by simp
    qed
  qed
next
  case (Suc k)
  let ?a = "unat (la_addr l) + dm_block d * 512 + dm_beat d * 16"
  note st = round_store [OF Suc.prems(1-5) _ refl, of nb]
  have beat: "dm_beat d < 31" and room: "dm_dma_txn d < u64_max" using Suc.prems(6,7) by auto
  show ?case
  proof (cases "nb_fault nb ?a")
    case True
    then have "out = (nb, DMA_FAULT)" using Suc.prems(8,10) by auto
    then show ?thesis using ends_settled [OF Suc.prems(4) st(1) [OF room True], of "Suc k + n"] by simp
  next
    case False
    let ?nb = "nb\<lparr>nb_mem := bytes_put (nb_mem nb) ?a (take 16 (drop (dm_beat d * 16) (dm_buffer d)))\<rparr>"
    let ?d = "d\<lparr>dm_dma_txn := dm_dma_txn d + 1, dm_beat := dm_beat d + 1\<rparr>"
    note r = st(2) [OF room False beat]
    have inv: "dma_inv ?d" using dma_round_inv [OF Suc.prems(1) r] by simp
    have copy: "copy_in (Suc k) (unat (la_addr l) + dm_block ?d * 512 + dm_beat ?d * 16) (drop (dm_beat ?d * 16) (dm_buffer ?d)) ?nb = (nb', e)"
      using Suc.prems(8) False by (simp add: add.commute add.left_commute)
    have "ends (Suc k + n) (?d, ?nb) ?d out"
    proof (rule Suc.IH [OF inv _ _ _ _ _ _ copy])
      assume "e = 0" "dm_block ?d + 1 < unat (la_count l)"
        "dma_inv (?d\<lparr>dm_dma_txn := dm_dma_txn ?d + Suc k, dm_beat := 0, dm_buffer := [], dm_block := dm_block ?d + 1\<rparr>)"
      then show "ends n (?d\<lparr>dm_dma_txn := dm_dma_txn ?d + Suc k, dm_beat := 0, dm_buffer := [], dm_block := dm_block ?d + 1\<rparr>, nb') ?d out"
        using Suc.prems(9) ends_base [of ?d d] by simp
    qed (use Suc.prems in simp_all)
    then have "ends (Suc k + n) (?d, ?nb) d out" using ends_base [of ?d d] by simp
    from ends_step [OF Suc.prems(4) r this] show ?thesis by simp
  qed
qed

lemma read_command:
  assumes "dma_inv d" "dm_latched d = Some l" "la_op l = OpRead" "dm_engine d = EngIssue" "dm_buffer d = []" "dm_beat d = 0"
    and "dm_block d + Suc n = unat (la_count l)" "dm_blk_txn d + Suc n \<le> u64_max" "dm_dma_txn d + 32 * Suc n \<le> u64_max"
    and "\<forall>b. length (nb_disk nb b) = 512"
  shows "ends (33 * Suc n) (d, nb) d (read_blocks (Suc n) (unat (la_lba l) + dm_block d) (unat (la_addr l) + dm_block d * 512) nb)"
  using assms
proof (induction n arbitrary: d nb)
  case 0
  let ?b = "unat (la_lba l) + dm_block d" and ?d = "d\<lparr>dm_blk_txn := dm_blk_txn d + 1, dm_buffer := nb_disk nb (unat (la_lba l) + dm_block d)\<rparr>"
  have room: "dm_blk_txn d < u64_max" using 0(8) by simp
  note st = round_fetch [OF 0(1-5) room, of nb]
  show ?case
  proof (cases "nb_err nb ?b")
    case (Some x)
    then show ?thesis using ends_settled [OF 0(4) st(1) [OF Some], of 32] by simp
  next
    case None
    have r: "dma_round (d, nb) = Some (?d, nb)" using st(2) [OF None] 0(10) by simp
    have inv: "dma_inv ?d" using dma_round_inv [OF 0(1) r] by simp
    obtain nb' e where copy: "copy_in 32 (unat (la_addr l) + dm_block d * 512) (nb_disk nb ?b) nb = (nb', e)" by fastforce
    have "ends (Suc 31 + 0) (?d, nb) ?d (nb', e)"
      by (rule read_beats [OF inv, where l = l and nb' = nb' and e = e]) (use 0 copy in auto)
    then have "ends 32 (?d, nb) d (nb', e)" using ends_base [of ?d d] by simp
    from ends_step [OF 0(4) r this] None copy show ?thesis by auto
  qed
next
  case (Suc n)
  let ?b = "unat (la_lba l) + dm_block d" and ?d = "d\<lparr>dm_blk_txn := dm_blk_txn d + 1, dm_buffer := nb_disk nb (unat (la_lba l) + dm_block d)\<rparr>"
  have room: "dm_blk_txn d < u64_max" using Suc.prems(8) by simp
  note st = round_fetch [OF Suc.prems(1-5) room, of nb]
  show ?case
  proof (cases "nb_err nb ?b")
    case (Some x)
    then show ?thesis using ends_mono [OF ends_settled [OF Suc.prems(4) st(1) [OF Some], of 0]] by simp
  next
    case None
    have r: "dma_round (d, nb) = Some (?d, nb)" using st(2) [OF None] Suc.prems(10) by simp
    have inv: "dma_inv ?d" using dma_round_inv [OF Suc.prems(1) r] by simp
    obtain nb' e where copy: "copy_in 32 (unat (la_addr l) + dm_block d * 512) (nb_disk nb ?b) nb = (nb', e)" by fastforce
    define out where "out = (if e \<noteq> 0 then (nb', e) else read_blocks (Suc n) (?b + 1) (unat (la_addr l) + dm_block d * 512 + 512) nb')"
    have "ends (Suc 31 + 33 * Suc n) (?d, nb) ?d out"
    proof (rule read_beats [OF inv, where l = l and nb' = nb' and e = e])
      let ?d' = "?d\<lparr>dm_dma_txn := dm_dma_txn ?d + Suc 31, dm_beat := 0, dm_buffer := [], dm_block := dm_block ?d + 1\<rparr>"
      assume "e = 0" "dm_block ?d + 1 < unat (la_count l)" "dma_inv ?d'"
      then have "ends (33 * Suc n) (?d', nb') ?d' (read_blocks (Suc n) (unat (la_lba l) + dm_block ?d') (unat (la_addr l) + dm_block ?d' * 512) nb')"
        using Suc.prems copy_in_keeps [OF copy] by (intro Suc.IH) simp_all
      then show "ends (33 * Suc n) (?d', nb') ?d out"
        using \<open>e = 0\<close> ends_base [of ?d' ?d] by (simp add: out_def add.commute add.left_commute)
    qed (use Suc.prems copy in \<open>auto simp: out_def\<close>)
    then have "ends (Suc 31 + 33 * Suc n) (?d, nb) d out" using ends_base [of ?d d] by simp
    from ends_step [OF Suc.prems(4) r this] None copy show ?thesis by (simp add: out_def)
  qed
qed

text \<open>The remaining beats of a block of a WRITE, then the block itself.\<close>

lemma write_beats:
  assumes "dma_inv d" "dm_latched d = Some l" "la_op l = OpWrite" "dm_engine d = EngIssue"
    and "dm_beat d + k = 32" "dm_dma_txn d + k \<le> u64_max"
    and gone: "copy_out k (unat (la_addr l) + dm_block d * 512 + dm_beat d * 16) nb = None \<Longrightarrow> out = (nb, DMA_FAULT)"
    and read: "\<And>bs. copy_out k (unat (la_addr l) + dm_block d * 512 + dm_beat d * 16) nb = Some bs \<Longrightarrow>
      dma_inv (d\<lparr>dm_dma_txn := dm_dma_txn d + k, dm_beat := 32, dm_buffer := dm_buffer d @ bs\<rparr>) \<Longrightarrow>
      ends n (d\<lparr>dm_dma_txn := dm_dma_txn d + k, dm_beat := 32, dm_buffer := dm_buffer d @ bs\<rparr>, nb) d out"
  shows "ends (k + n) (d, nb) d out"
  using assms
proof (induction k arbitrary: d)
  case 0
  have "d\<lparr>dm_dma_txn := dm_dma_txn d + 0, dm_beat := 32, dm_buffer := dm_buffer d @ []\<rparr> = d" using 0(5) by simp
  then show ?case using 0(1) 0(8) [of "[]"] by simp
next
  case (Suc k)
  let ?a = "unat (la_addr l) + dm_block d * 512 + dm_beat d * 16"
  have beat: "dm_beat d < 32" and room: "dm_dma_txn d < u64_max" using Suc.prems(5,6) by auto
  note st = round_load [OF Suc.prems(1-4) beat room refl, of nb]
  show ?case
  proof (cases "nb_fault nb ?a")
    case True
    then show ?thesis using ends_settled [OF Suc.prems(4) st(1) [OF True], of "k + n"] Suc.prems(7) by simp
  next
    case False
    let ?d = "d\<lparr>dm_dma_txn := dm_dma_txn d + 1, dm_beat := dm_beat d + 1, dm_buffer := dm_buffer d @ bytes_get (nb_mem nb) ?a 16\<rparr>"
    note r = st(2) [OF False]
    have inv: "dma_inv ?d" using dma_round_inv [OF Suc.prems(1) r] by simp
    have a: "unat (la_addr l) + dm_block ?d * 512 + dm_beat ?d * 16 = ?a + 16" by simp
    have "ends (k + n) (?d, nb) ?d out"
    proof (rule Suc.IH [OF inv], goal_cases)
      case 6
      then have "copy_out k (?a + 16) nb = None" unfolding a .
      then show ?case using Suc.prems(7) False by simp
    next
      case (7 bs)
      then have "copy_out k (?a + 16) nb = Some bs" unfolding a by blast
      then show ?case using Suc.prems(8) [of "bytes_get (nb_mem nb) ?a 16 @ bs"] 7(2) False ends_base [of ?d d] by simp
    qed (use Suc.prems in simp_all)
    then have "ends (k + n) (?d, nb) d out" using ends_base [of ?d d] by simp
    from ends_step [OF Suc.prems(4) r this] show ?thesis by simp
  qed
qed

lemma write_command:
  assumes "dma_inv d" "dm_latched d = Some l" "la_op l = OpWrite" "dm_engine d = EngIssue" "dm_buffer d = []" "dm_beat d = 0"
    and "dm_block d + Suc n = unat (la_count l)" "dm_blk_txn d + Suc n \<le> u64_max" "dm_dma_txn d + 32 * Suc n \<le> u64_max"
  shows "ends (33 * Suc n) (d, nb) d (write_blocks (Suc n) (unat (la_lba l) + dm_block d) (unat (la_addr l) + dm_block d * 512) nb)"
  using assms
proof (induction n arbitrary: d nb)
  case 0
  let ?b = "unat (la_lba l) + dm_block d"
  have "ends (32 + 1) (d, nb) d (write_blocks (Suc 0) ?b (unat (la_addr l) + dm_block d * 512) nb)"
  proof (rule write_beats [OF 0(1-4)], goal_cases)
    case (4 bs)
    let ?d = "d\<lparr>dm_dma_txn := dm_dma_txn d + 32, dm_beat := 32, dm_buffer := dm_buffer d @ bs\<rparr>"
    note st = round_commit [OF 4(2), of l ?b nb]
    have "ends (Suc 0) (?d, nb) ?d (write_blocks (Suc 0) ?b (unat (la_addr l) + dm_block d * 512) nb)"
    proof (cases "nb_err nb ?b")
      case (Some x)
      have "\<exists>d'. dma_round (?d, nb) = Some (d', nb) \<and> settled ?d MEDIA_ERROR d'"
        by (rule st(1) [OF _ _ _ _ _ _ Some]) (use 0 in simp_all)
      from ends_settled [OF _ this, of 0] 0(4,6) 4(1) Some show ?thesis by simp
    next
      case None
      have "\<exists>d'. dma_round (?d, nb) = Some (d', nb\<lparr>nb_disk := (nb_disk nb)(?b := dm_buffer ?d)\<rparr>) \<and> settled ?d 0 d'"
        by (rule st(3) [OF _ _ _ _ _ _ None]) (use 0 in simp_all)
      from ends_settled [OF _ this, of 0] 0(4,5,6) 4(1) None show ?thesis by simp
    qed
    then show ?case using ends_base [of ?d d] by simp
  qed (use 0 in auto)
  then show ?case by simp
next
  case (Suc n)
  let ?b = "unat (la_lba l) + dm_block d"
  let ?out = "write_blocks (Suc (Suc n)) ?b (unat (la_addr l) + dm_block d * 512) nb"
  have "ends (32 + (1 + 33 * Suc n)) (d, nb) d ?out"
  proof (rule write_beats [OF Suc.prems(1-4)], goal_cases)
    case (4 bs)
    let ?d = "d\<lparr>dm_dma_txn := dm_dma_txn d + 32, dm_beat := 32, dm_buffer := dm_buffer d @ bs\<rparr>"
    note st = round_commit [OF 4(2), of l ?b nb]
    have "ends (Suc (33 * Suc n)) (?d, nb) ?d ?out"
    proof (cases "nb_err nb ?b")
      case (Some x)
      have "\<exists>d'. dma_round (?d, nb) = Some (d', nb) \<and> settled ?d MEDIA_ERROR d'"
        by (rule st(1) [OF _ _ _ _ _ _ Some]) (use Suc.prems in simp_all)
      from ends_settled [OF _ this, of "33 * Suc n"] Suc.prems(4,6) 4(1) Some show ?thesis by simp
    next
      case None
      let ?d' = "?d\<lparr>dm_blk_txn := dm_blk_txn ?d + 1, dm_beat := 0, dm_buffer := [], dm_block := dm_block ?d + 1\<rparr>"
        and ?nb = "nb\<lparr>nb_disk := (nb_disk nb)(?b := dm_buffer ?d)\<rparr>"
      have r: "dma_round (?d, nb) = Some (?d', ?nb)" using st(2) [OF _ _ _ _ _ _ None] Suc.prems by simp
      have "dma_inv ?d'" using dma_round_inv [OF 4(2) r] by simp
      then have "ends (33 * Suc n) (?d', ?nb) ?d' (write_blocks (Suc n) (unat (la_lba l) + dm_block ?d') (unat (la_addr l) + dm_block ?d' * 512) ?nb)"
        using Suc.prems by (intro Suc.IH) simp_all
      then have "ends (33 * Suc n) (?d', ?nb) ?d ?out"
        using ends_base [of ?d' ?d] None 4(1) Suc.prems(5,6) by (simp add: add.commute add.left_commute)
      from ends_step [OF _ r this] Suc.prems(4) show ?thesis by simp
    qed
    then show ?case using ends_base [of ?d d] by simp
  qed (use Suc.prems in auto)
  then show ?case by simp
qed

subsection \<open>From the register write to the end of the command\<close>

definition copy_of :: "DmaOperation \<Rightarrow> u32 \<Rightarrow> u32 \<Rightarrow> u32 \<Rightarrow> Neighbours \<Rightarrow> Neighbours \<times> u8" where
  "copy_of op lba addr count nb = (case op of
      OpRead \<Rightarrow> read_blocks (unat count) (unat lba) (unat addr) nb
    | OpWrite \<Rightarrow> write_blocks (unat count) (unat lba) (unat addr) nb)"

definition command_write :: "TxnId \<Rightarrow> u32 \<Rightarrow> Delivered" where
  "command_write txn v = DMessage MEM_PORT (MsgMemV1 (WriteReq txn DMA_COMMAND (u32_to_le_bytes v)))"

lemma command_accepted:
  assumes "accepts_all ctx" "\<not> dm_busy d" "\<not> dm_done d" "validate (dm_config d) v (dm_lba d) (dm_addr d) (dm_count d) = Ok op"
  shows "\<exists>ctx'. dma_handle_event d (command_write txn v) ctx = Ok (d\<lparr>dm_busy := True, dm_latched := Some \<lparr>la_op = op, la_lba = dm_lba d,
    la_addr = dm_addr d, la_count = dm_count d\<rparr>, dm_engine := EngIssue\<rparr>, ctx')"
  using assms
  by (simp add: command_write_def dma_request_def byte_access_def DMA_COMMAND_def u64_max_def register_word_def DMA_SIZE_def
      write_register_def Let_def dma_command_def dma_wake_def dma_respond_def ctx_wake_self_def ctx_send_def ctx_effect_accepted ctx_trace_def
      u32_le_dec_enc)

lemma command_runs:
  assumes inv: "dma_inv d" and idle: "\<not> dm_busy d" "\<not> dm_done d"
    and v: "validate (dm_config d) v (dm_lba d) (dm_addr d) (dm_count d) = Ok op"
    and room: "dm_blk_txn d + unat (dm_count d) \<le> u64_max" "dm_dma_txn d + 32 * unat (dm_count d) \<le> u64_max"
    and disk: "\<forall>b. length (nb_disk nb b) = 512"
    and d1: "dma_handle_event d (command_write txn v) ctx = Ok (d1, ctx1)" "accepts_all ctx"
  shows "ends (33 * unat (dm_count d)) (d1, nb) d (copy_of op (dm_lba d) (dm_addr d) (dm_count d) nb)"
proof -
  let ?l = "\<lparr>la_op = op, la_lba = dm_lba d, la_addr = dm_addr d, la_count = dm_count d\<rparr>"
  have d1_is: "d1 = d\<lparr>dm_busy := True, dm_latched := Some ?l, dm_engine := EngIssue\<rparr>"
    using command_accepted [OF d1(2) idle v, of txn] d1(1) by auto
  have inv1: "dma_inv d1" using dma_event_inv [OF inv refl, of ctx "command_write txn v"] d1(1) by (simp add: outcome_Ok)
  have start: "dm_block d = 0" "dm_beat d = 0" "dm_buffer d = []"
    using inv idle by (auto simp: dma_inv_def dma_core_def engine_ok_def Let_def)
  obtain n where n: "unat (dm_count d) = Suc n" using v by (cases "unat (dm_count d)") (auto simp: validate_Ok unat_eq_zero)
  have base: "settled d1 = settled d" by (simp add: d1_is settled_def fun_eq_iff)
  have "ends (33 * Suc n) (d1, nb) d1 (copy_of op (dm_lba d) (dm_addr d) (dm_count d) nb)"
  proof (cases op)
    case OpRead
    have "ends (33 * Suc n) (d1, nb) d1 (read_blocks (Suc n) (unat (la_lba ?l) + dm_block d1) (unat (la_addr ?l) + dm_block d1 * 512) nb)"
      by (rule read_command [OF inv1]) (use OpRead start n room disk in \<open>simp_all add: d1_is\<close>)
    then show ?thesis using OpRead start n by (simp add: copy_of_def d1_is)
  next
    case OpWrite
    have "ends (33 * Suc n) (d1, nb) d1 (write_blocks (Suc n) (unat (la_lba ?l) + dm_block d1) (unat (la_addr ?l) + dm_block d1 * 512) nb)"
      by (rule write_command [OF inv1]) (use OpWrite start n room in \<open>simp_all add: d1_is\<close>)
    then show ?thesis using OpWrite start n by (simp add: copy_of_def d1_is)
  qed
  then show ?thesis using n ends_base [OF base] by simp
qed

text \<open>
  C9. A command accepted in any reachable idle state, its requests served one by one by a memory and a disk
  that may refuse any of them, ends within 33 rounds per block as the copy its registers describe: the
  memory, the disk and the error code are those of the reference program, which copies block by block
  and beat by beat until the first failure; the registers are unchanged, \<^verbatim>\<open>DONE\<close> is set, and the interrupt
  line is asserted exactly when enabled.
\<close>

theorem dma_refines_copy:
  assumes "dma_reach c d" "\<not> dm_busy d" "\<not> dm_done d"
    and "validate c v (dm_lba d) (dm_addr d) (dm_count d) = Ok op"
    and "dm_blk_txn d + unat (dm_count d) \<le> u64_max" "dm_dma_txn d + 32 * unat (dm_count d) \<le> u64_max"
    and "\<forall>b. length (nb_disk nb b) = 512" and "accepts_all ctx"
  shows "\<exists>d1 ctx1 d'. dma_handle_event d (command_write txn v) ctx = Ok (d1, ctx1)
    \<and> dma_run (33 * unat (dm_count d)) (d1, nb) = Some (d', fst (copy_of op (dm_lba d) (dm_addr d) (dm_count d) nb))
    \<and> settled d (snd (copy_of op (dm_lba d) (dm_addr d) (dm_count d) nb)) d'"
proof -
  have inv: "dma_inv d" "dm_config d = c" using dma_reach_inv [OF assms(1)] by auto
  have v: "validate (dm_config d) v (dm_lba d) (dm_addr d) (dm_count d) = Ok op" using assms(4) inv(2) by simp
  obtain d1 ctx1 where d1: "dma_handle_event d (command_write txn v) ctx = Ok (d1, ctx1)"
    using command_accepted [OF assms(8,2,3) v, of txn] by blast
  show ?thesis
    using command_runs [OF inv(1) assms(2,3) v assms(5-7) d1 assms(8)] d1 by (auto simp: ends_def)
qed

subsection \<open>What the copies do\<close>

lemma bytes_put_Nil [simp]: "bytes_put f a [] = f"
  by (auto simp: bytes_put_def fun_eq_iff)

lemma bytes_put_split:
  assumes "n \<le> length bs"
  shows "bytes_put (bytes_put f a (take n bs)) (a + n) (drop n bs) = bytes_put f a bs"
proof
  fix x show "bytes_put (bytes_put f a (take n bs)) (a + n) (drop n bs) x = bytes_put f a bs x"
    using assms by (cases "x < a + n") (auto simp: bytes_put_def)
qed

lemma bytes_put_append: "bytes_put (bytes_put f a xs) (a + length xs) ys = bytes_put f a (xs @ ys)"
  using bytes_put_split [of "length xs" "xs @ ys" f a] by simp

lemma beats_Suc:
  assumes "\<forall>j<Suc n. \<not> P (a + 16 * j)"
  shows "\<not> P (a :: nat)" "\<forall>j<n. \<not> P (a + 16 + 16 * j)"
proof -
  show "\<not> P a" using assms [rule_format, of 0] by simp
  show "\<forall>j<n. \<not> P (a + 16 + 16 * j)"
  proof (intro allI impI)
    fix j assume "j < n"
    then show "\<not> P (a + 16 + 16 * j)" using assms [rule_format, of "Suc j"] by (simp add: add.assoc)
  qed
qed

lemma copy_in_is:
  "length data = 16 * n \<Longrightarrow> \<forall>j<n. \<not> nb_fault nb (a + 16 * j) \<Longrightarrow> copy_in n a data nb = (nb\<lparr>nb_mem := bytes_put (nb_mem nb) a data\<rparr>, 0)"
proof (induction n arbitrary: a data nb)
  case 0
  then show ?case by simp
next
  case (Suc n)
  show ?case
    using beats_Suc [OF Suc.prems(2)] Suc.IH [of "drop 16 data" "nb\<lparr>nb_mem := bytes_put (nb_mem nb) a (take 16 data)\<rparr>" "a + 16"] Suc.prems(1)
      bytes_put_split [of 16 data "nb_mem nb" a] by simp
qed

text \<open>The beats of a transfer of \<open>n\<close> blocks at \<open>a\<close> are all accepted, its blocks all good.\<close>

definition beats_clear :: "Neighbours \<Rightarrow> u64 \<Rightarrow> nat \<Rightarrow> bool" where
  "beats_clear nb a n \<longleftrightarrow> (\<forall>j<32 * n. \<not> nb_fault nb (a + 16 * j))"

definition blocks_clear :: "Neighbours \<Rightarrow> u64 \<Rightarrow> nat \<Rightarrow> bool" where
  "blocks_clear nb lba n \<longleftrightarrow> (\<forall>i<n. nb_err nb (lba + i) = None)"

lemma clear_Suc:
  assumes "beats_clear nb a (Suc n)" "blocks_clear nb lba (Suc n)"
  shows "\<forall>j<32. \<not> nb_fault nb (a + 16 * j)" "beats_clear nb (a + 512) n" "nb_err nb lba = None" "blocks_clear nb (lba + 1) n"
proof -
  show "\<forall>j<32. \<not> nb_fault nb (a + 16 * j)" using assms(1) by (simp add: beats_clear_def)
  have "\<not> nb_fault nb (a + 512 + 16 * j)" if "j < 32 * n" for j
    using assms(1) that spec [of "\<lambda>j. j < 32 * Suc n \<longrightarrow> \<not> nb_fault nb (a + 16 * j)" "j + 32"]
    by (simp add: beats_clear_def algebra_simps)
  then show "beats_clear nb (a + 512) n" by (simp add: beats_clear_def)
  show "nb_err nb lba = None" using assms(2) by (force simp: blocks_clear_def)
  show "blocks_clear nb (lba + 1) n"
    using assms(2) by (auto simp: blocks_clear_def)
qed

lemma clear_keeps:
  "beats_clear (nb\<lparr>nb_mem := m\<rparr>) = beats_clear nb" "blocks_clear (nb\<lparr>nb_mem := m\<rparr>) = blocks_clear nb"
  "beats_clear (nb\<lparr>nb_disk := k\<rparr>) = beats_clear nb" "blocks_clear (nb\<lparr>nb_disk := k\<rparr>) = blocks_clear nb"
  by (simp_all add: beats_clear_def blocks_clear_def fun_eq_iff)

lemma read_blocks_is:
  "beats_clear nb a n \<Longrightarrow> blocks_clear nb lba n \<Longrightarrow> \<forall>b. length (nb_disk nb b) = 512 \<Longrightarrow>
     read_blocks n lba a nb = (nb\<lparr>nb_mem := bytes_put (nb_mem nb) a (concat (map (nb_disk nb) [lba..<lba + n]))\<rparr>, 0)"
proof (induction n arbitrary: lba a nb)
  case (Suc n)
  note cl = clear_Suc [OF Suc.prems(1,2)]
  let ?nb = "nb\<lparr>nb_mem := bytes_put (nb_mem nb) a (nb_disk nb lba)\<rparr>"
  have first: "copy_in 32 a (nb_disk nb lba) nb = (?nb, 0)" using cl(1) Suc.prems(3) by (intro copy_in_is) simp_all
  have rest: "read_blocks n (lba + 1) (a + 512) ?nb =
      (?nb\<lparr>nb_mem := bytes_put (nb_mem ?nb) (a + 512) (concat (map (nb_disk ?nb) [lba + 1..<lba + 1 + n]))\<rparr>, 0)"
    using cl(2,4) Suc.prems(3) by (intro Suc.IH) (simp_all add: clear_keeps)
  have upt: "[lba..<Suc (lba + n)] = lba # [Suc lba..<Suc (lba + n)]" by (simp add: upt_conv_Cons del: upt_Suc)
  show ?case
    using cl(3) first rest bytes_put_append [of "nb_mem nb" a "nb_disk nb lba"] Suc.prems(3) by (simp add: upt del: upt_Suc)
qed simp

lemma copy_out_is: "\<forall>j<n. \<not> nb_fault nb (a + 16 * j) \<Longrightarrow> copy_out n a nb = Some (bytes_get (nb_mem nb) a (16 * n))"
proof (induction n arbitrary: a)
  case (Suc n)
  note beats = beats_Suc [OF Suc.prems]
  have "[a..<a + 16 * Suc n] = [a..<a + 16] @ [a + 16..<a + 16 + 16 * n]" 
    using upt_add_eq_append [of a "a + 16" "16 * n"] by (simp add: add.assoc)
  then show ?case using beats(1) Suc.IH [OF beats(2)] by (simp add: bytes_get_def)
qed (simp add: bytes_get_def)

lemma write_blocks_is:
  "beats_clear nb a n \<Longrightarrow> blocks_clear nb lba n \<Longrightarrow> write_blocks n lba a nb =
     (nb\<lparr>nb_disk := (\<lambda>b. if lba \<le> b \<and> b < lba + n then bytes_get (nb_mem nb) (a + 512 * (b - lba)) 512 else nb_disk nb b)\<rparr>, 0)"
proof (induction n arbitrary: lba a nb)
  case 0
  have "(\<lambda>b. if lba \<le> b \<and> b < lba then bytes_get (nb_mem nb) (a + 512 * (b - lba)) 512 else nb_disk nb b) = nb_disk nb"
    by (auto simp: fun_eq_iff)
  then show ?case by simp
next
  case (Suc n)
  note cl = clear_Suc [OF Suc.prems]
  let ?nb = "nb\<lparr>nb_disk := (nb_disk nb)(lba := bytes_get (nb_mem nb) a 512)\<rparr>"
  have first: "copy_out 32 a nb = Some (bytes_get (nb_mem nb) a 512)" using copy_out_is [OF cl(1)] by simp
  have rest: "write_blocks n (lba + 1) (a + 512) ?nb = (?nb\<lparr>nb_disk := (\<lambda>b. if lba + 1 \<le> b \<and> b < lba + 1 + n
      then bytes_get (nb_mem ?nb) (a + 512 + 512 * (b - (lba + 1))) 512 else nb_disk ?nb b)\<rparr>, 0)"
    using cl(2,4) by (intro Suc.IH) (simp_all add: clear_keeps)
  have "(\<lambda>b. if lba + 1 \<le> b \<and> b < lba + 1 + n then bytes_get (nb_mem nb) (a + 512 + 512 * (b - (lba + 1))) 512
      else ((nb_disk nb)(lba := bytes_get (nb_mem nb) a 512)) b) =
    (\<lambda>b. if lba \<le> b \<and> b < lba + Suc n then bytes_get (nb_mem nb) (a + 512 * (b - lba)) 512 else nb_disk nb b)"
  proof
    fix b
    have "a + 512 + 512 * (b - (lba + 1)) = a + 512 * (b - lba)" if "lba + 1 \<le> b" using that by (simp add: algebra_simps)
    then have "bytes_get (nb_mem nb) (a + 512 + 512 * (b - Suc lba)) 512 = bytes_get (nb_mem nb) (a + 512 * (b - lba)) 512"
      if "Suc lba \<le> b" using that by (metis Suc_eq_plus1)
    then show "(if lba + 1 \<le> b \<and> b < lba + 1 + n then bytes_get (nb_mem nb) (a + 512 + 512 * (b - (lba + 1))) 512
        else ((nb_disk nb)(lba := bytes_get (nb_mem nb) a 512)) b) =
      (if lba \<le> b \<and> b < lba + Suc n then bytes_get (nb_mem nb) (a + 512 * (b - lba)) 512 else nb_disk nb b)"
      by (cases "b = lba") auto
  qed
  with cl(3) first rest show ?case by (simp cong: if_cong)
qed

text \<open>
  When nothing fails, a READ leaves in memory at the address, byte for byte, the blocks from the LBA
  on and changes no other byte and no block; a WRITE leaves in each block of the range the 512 bytes of
  its part of the memory and changes no other block and no byte. Both report no error.
\<close>

theorem dma_transfers:
  assumes "beats_clear nb (unat addr) (unat count)" "blocks_clear nb (unat lba) (unat count)" and "\<forall>b. length (nb_disk nb b) = 512"
  shows "copy_of OpRead lba addr count nb =
      (nb\<lparr>nb_mem := bytes_put (nb_mem nb) (unat addr) (concat (map (nb_disk nb) [unat lba..<unat lba + unat count]))\<rparr>, 0)
    \<and> copy_of OpWrite lba addr count nb =
      (nb\<lparr>nb_disk := (\<lambda>b. if unat lba \<le> b \<and> b < unat lba + unat count
         then bytes_get (nb_mem nb) (unat addr + 512 * (b - unat lba)) 512 else nb_disk nb b)\<rparr>, 0)"
  using read_blocks_is [OF assms] write_blocks_is [OF assms(1,2)] by (simp add: copy_of_def)

subsection \<open>Restoring a snapshot\<close>

definition dma_fits :: "DmaBlockController \<Rightarrow> bool" where
  "dma_fits d \<longleftrightarrow> length (dm_buffer d) < 256 ^ 4"

lemma engine_fits:
  assumes "dma_inv d"
  shows "dm_block d < 4294967296" "dm_beat d < 256" "length (dm_buffer d) \<le> 512"
    "case dm_engine d of WaitMedia t \<Rightarrow> t \<le> u64_max | WaitBeat t \<Rightarrow> t \<le> u64_max | _ \<Rightarrow> True"
proof -
  have core: "dma_core d" using assms by (simp add: dma_inv_def)
  have "dm_block d < 4294967296 \<and> dm_beat d < 256 \<and> length (dm_buffer d) \<le> 512
    \<and> (case dm_engine d of WaitMedia t \<Rightarrow> t \<le> u64_max | WaitBeat t \<Rightarrow> t \<le> u64_max | _ \<Rightarrow> True)"
  proof (cases "dm_latched d")
    case None
    with core show ?thesis by (simp add: dma_core_def engine_ok_def Let_def)
  next
    case (Some l)
    note pos = engine_position [OF assms Some]
    have "dm_block d < 4294967296" using pos(1) latched_bounds(3) [of l] by linarith
    moreover have "length (dm_buffer d) \<le> 512" using core Some pos(2)
      by (auto simp: dma_core_def engine_ok_def dma_consts Let_def split: DmaOperation.splits Engine.splits)
    moreover have "case dm_engine d of WaitMedia t \<Rightarrow> t \<le> u64_max | WaitBeat t \<Rightarrow> t \<le> u64_max | _ \<Rightarrow> True" using core Some
      by (auto simp: dma_core_def engine_ok_def latest_def Let_def split: DmaOperation.splits Engine.splits)
    ultimately show ?thesis using pos(2) by simp
  qed
  then show "dm_block d < 4294967296" "dm_beat d < 256" "length (dm_buffer d) \<le> 512"
    "case dm_engine d of WaitMedia t \<Rightarrow> t \<le> u64_max | WaitBeat t \<Rightarrow> t \<le> u64_max | _ \<Rightarrow> True" by blast+
qed

lemma r_latched_written:
  assumes "dma_core d"
  shows "r_latched (dm_config d) (dm_busy d) (w_latched (dm_latched d) @ rest) = Ok (dm_latched d, rest)"
proof (cases "dm_latched d")
  case None
  then show ?thesis using assms by (simp add: dma_core_def r_latched_def w_latched_def)
next
  case (Some l)
  then have "validate (dm_config d) (ucast (DmaOperation_code (la_op l))) (la_lba l) (la_addr l) (la_count l) = Ok (la_op l)" "dm_busy d"
    using assms by (auto simp: dma_core_def latched_ok_def)
  then show ?thesis using Some by (simp add: r_latched_def w_latched_def sc8.bind_enc sc32.bind_enc)
qed

lemma r_engine_written:
  "(case e of WaitMedia t \<Rightarrow> t \<le> u64_max | WaitBeat t \<Rightarrow> t \<le> u64_max | _ \<Rightarrow> True) \<Longrightarrow> r_engine (w_engine e @ rest) = Ok (e, rest)"
  by (cases e) (simp_all add: r_engine_def sc8.bind_enc sc64.bind_enc u64_width)

lemma dma_restore_written:
  assumes "dma_reach c d" and "dm_config d\<^sub>0 = c"
  shows "dma_restore d\<^sub>0 (dma_snapshot d @ rest) = Ok (d, rest)"
proof -
  have inv: "dma_inv d" and c: "dm_config d = c" using dma_reach_inv [OF assms(1)] by auto
  have core: "dma_core d" and irq: "dm_irq_level d = (dm_done d \<and> dm_irq_enable d AND 1 \<noteq> 0)"
    using inv by (auto simp: dma_inv_def dma_line_def)
  note fits = engine_fits [OF inv]
  have nums: "unat (of_nat (dm_block d) :: u32) = dm_block d" "unat (of_nat (dm_beat d) :: u8) = dm_beat d"
    using fits(1,2) by (simp_all add: unat_of_nat)
  have buf: "length (dm_buffer d) < 4294967296" using fits(3) by simp
  have txns: "dm_dma_txn d < 18446744073709551616" "dm_blk_txn d < 18446744073709551616"
    using core by (simp_all add: dma_core_def u64_max_num)
  have checks: "dm_irq_enable d AND - 2 = 0" "\<not> (dm_busy d \<and> dm_done d)" "error_ok (dm_done d) (dm_error d)"
    "engine_ok (dm_latched d) (dm_engine d) (dm_block d) (dm_beat d) (dm_buffer d) (dm_dma_txn d) (dm_blk_txn d)"
    using core by (auto simp: dma_core_def)
  have same: "d\<^sub>0\<lparr>dm_lba := dm_lba d, dm_addr := dm_addr d, dm_count := dm_count d, dm_irq_enable := dm_irq_enable d, dm_busy := dm_busy d,
      dm_done := dm_done d, dm_rejected := dm_rejected d, dm_error := dm_error d, dm_latched := dm_latched d, dm_engine := dm_engine d,
      dm_block := dm_block d, dm_beat := dm_beat d, dm_buffer := dm_buffer d, dm_dma_txn := dm_dma_txn d, dm_blk_txn := dm_blk_txn d,
      dm_irq_level := dm_irq_level d\<rparr> = d"
    using assms(2) c by (cases d; cases d\<^sub>0) simp
  have steps: "rd_bind (r_latched c (dm_busy d)) f (w_latched (dm_latched d) @ r) = f (dm_latched d) r"
    "rd_bind r_engine g (w_engine (dm_engine d) @ r) = g (dm_engine d) r" for f g r
    using r_latched_written [OF core, of r] r_engine_written [OF fits(4), of r] assms(2) c by (simp_all add: rd_bind_def)
  show ?thesis
    unfolding dma_restore_def dma_snapshot_def
    by (simp add: snap_bind steps nums buf txns checks irq [symmetric] same assms(2) c)
qed

text \<open>
  The snapshot of a controller in any reachable state restores to exactly that state in a controller of
  the same configuration, whatever state that is in.
\<close>

theorem dma_restore_snapshot:
  assumes "dma_reach c d" and "dm_config d\<^sub>0 = c"
  shows "dma_restore d\<^sub>0 (dma_snapshot d @ rest) = Ok (d, rest)"
  using assms by (rule dma_restore_written)

lemma r_latched_sound:
  assumes "r_latched c busy bs = Ok (latched, rest)"
  shows "latched_ok c latched \<and> (busy \<longleftrightarrow> latched \<noteq> None)"
proof (cases busy)
  case True
  have code: "validate c (ucast (DmaOperation_code op)) lba addr count = Ok op" if "validate c v lba addr count = Ok op" for v lba addr count op
    using that by (auto simp: validate_Ok)
  from assms True obtain v :: u8 and lba addr count bs' where
    "(case validate c (ucast v) lba addr count of Err _ \<Rightarrow> invalid ''dma controller: latched command fails validation''
      | Ok op \<Rightarrow> rd_return (Some \<lparr>la_op = op, la_lba = lba, la_addr = addr, la_count = count\<rparr>)) bs' = Ok (latched, rest)"
    by (auto simp: r_latched_def rd_bind_Ok_iff)
  then show ?thesis
    using True by (cases "validate c (ucast v) lba addr count") (auto simp: latched_ok_def dest: code)
qed (use assms in \<open>simp add: r_latched_def\<close>)

lemma dma_restore_core:
  assumes "dma_restore d\<^sub>0 bs = Ok (d, rest)"
  shows "dma_inv d \<and> dm_config d = dm_config d\<^sub>0"
proof -
  have guard: "(if b then invalid w else m) bs = Ok r \<longleftrightarrow> \<not> b \<and> m bs = Ok r"
    for b w bs and m :: "DmaBlockController reader" and r by simp
  show ?thesis
    using assms unfolding dma_restore_def rd_bind_Ok_iff guard rd_simps
    by (elim exE conjE) (auto simp: dma_inv_def dma_core_def dma_line_def dest!: r_latched_sound r_u64_bound)
qed

text \<open>
  Whatever bytes a restore accepts, the controller has its own configuration and is in a state that
  satisfies the invariant of reachable states: the lifecycle, the latched command, the engine position
  and the interrupt line are consistent, and no delivery makes it panic or leave the aperture.
\<close>

theorem dma_restore_sound:
  assumes "dma_restore d\<^sub>0 bytes = Ok (d, rest)" and "ctx_out ctx = []"
  shows "dm_config d = dm_config d\<^sub>0 \<and> dma_inv d \<and> dma_handle_event d ev ctx \<noteq> Err Panic
    \<and> (case dma_handle_event d ev ctx of Ok (d', ctx') \<Rightarrow> list_all (effect_ok (dm_config d)) (ctx_out ctx') | Err _ \<Rightarrow> True)"
  using dma_restore_core [OF assms(1)] dma_event_inv [of d "dm_config d" ctx ev] assms(2)
  by (auto simp: outcome_inv_def out_ok_def split: sum.splits)

subsection \<open>A small controller\<close>

definition tiny_dma_config :: DmaConfig where
  "tiny_dma_config = \<lparr>dc_clock = 1, dc_latency = LatAfter 2, dc_capacity = 8, dc_base = 0x1000, dc_size = 0x2000\<rparr>"

definition fresh_dma :: DmaBlockController where
  "fresh_dma = \<lparr>dm_config = tiny_dma_config, dm_lba = 0, dm_addr = 0, dm_count = 0, dm_irq_enable = 0, dm_busy = False, dm_done = False,
     dm_rejected = False, dm_error = 0, dm_latched = None, dm_engine = EngIdle, dm_block = 0, dm_beat = 0, dm_buffer = [],
     dm_dma_txn = 0, dm_blk_txn = 0, dm_irq_level = False\<rparr>"

lemma fresh_dma_reach: "dma_reach tiny_dma_config fresh_dma"
  by (rule dma_reach.start) (simp add: DmaBlockController_new_def tiny_dma_config_def fresh_dma_def MAX_CAPACITY_BLOCKS_def
      ADDRESS_LIMIT_def checked_u64_def u64_max_def)

lemma register_reach:
  assumes "dma_reach c d" "off = DMA_LBA \<and> f = (\<lambda>d. d\<lparr>dm_lba := v\<rparr>) \<or> off = DMA_MEM_ADDR \<and> f = (\<lambda>d. d\<lparr>dm_addr := v\<rparr>)
    \<or> off = DMA_BLOCK_COUNT \<and> f = (\<lambda>d. d\<lparr>dm_count := v\<rparr>)"
  shows "dma_reach c (f d)"
proof (rule dma_reach.event [OF assms(1), of "DMessage MEM_PORT (MsgMemV1 (WriteReq 0 off (u32_to_le_bytes v)))" quiet_ctx])
  show "dma_handle_event d (DMessage MEM_PORT (MsgMemV1 (WriteReq 0 off (u32_to_le_bytes v)))) quiet_ctx =
    Ok (f d, quiet_ctx\<lparr>ctx_out := [EffSend MEM_PORT (MsgMemV1 (WriteResp 0 WriteDone)) (latency_when (dc_latency (dm_config d))) PhComplete]\<rparr>)"
    using assms(2)
    by (elim disjE) (simp_all add: dma_consts dma_request_def byte_access_def u64_max_def register_word_def write_register_def Let_def
        dma_respond_def ctx_send_def ctx_effect_def quiet_ctx_def u32_le_dec_enc)
qed

definition armed_dma :: DmaBlockController where
  "armed_dma = fresh_dma\<lparr>dm_lba := 2, dm_addr := 0x1200, dm_count := 1\<rparr>"

lemma armed_dma_reach: "dma_reach tiny_dma_config armed_dma"
proof -
  from register_reach [OF fresh_dma_reach, of DMA_LBA "\<lambda>d. d\<lparr>dm_lba := 2\<rparr>" 2]
  have "dma_reach tiny_dma_config (fresh_dma\<lparr>dm_lba := 2\<rparr>)" by simp
  from register_reach [OF this, of DMA_MEM_ADDR "\<lambda>d. d\<lparr>dm_addr := 0x1200\<rparr>" "0x1200"]
  have "dma_reach tiny_dma_config (fresh_dma\<lparr>dm_lba := 2, dm_addr := 0x1200\<rparr>)" by simp
  from register_reach [OF this, of DMA_BLOCK_COUNT "\<lambda>d. d\<lparr>dm_count := 1\<rparr>" 1] show ?thesis by (simp add: armed_dma_def)
qed

definition calm :: Neighbours where
  "calm = \<lparr>nb_mem = (\<lambda>_. 0), nb_fault = (\<lambda>_. False), nb_disk = (\<lambda>b. replicate 512 (of_nat b)), nb_err = (\<lambda>_. None)\<rparr>"

theorem dma_reachable_safe_witness:
  "dma_inv armed_dma \<and> dma_handle_event armed_dma (DWake DMA_ISSUE) quiet_ctx \<noteq> Err Panic"
  using dma_reachable_safe [OF armed_dma_reach, of "DWake DMA_ISSUE" quiet_ctx] by blast

theorem dma_refines_copy_witness:
  "\<exists>d1 ctx1 d'. dma_handle_event armed_dma (command_write 5 1) quiet_ctx = Ok (d1, ctx1)
    \<and> dma_run 33 (d1, calm) = Some (d', fst (read_blocks 1 2 0x1200 calm)) \<and> dm_done d'"
proof -
  have "validate tiny_dma_config 1 (dm_lba armed_dma) (dm_addr armed_dma) (dm_count armed_dma) = Ok OpRead"
    by (simp add: validate_Ok armed_dma_def tiny_dma_config_def)
  from dma_refines_copy [OF armed_dma_reach _ _ this, of calm quiet_ctx 5] show ?thesis
    by (auto simp: armed_dma_def fresh_dma_def calm_def u64_max_def copy_of_def settled_def)
qed

theorem dma_transfers_witness:
  "nb_mem (fst (copy_of OpRead 2 0x1200 1 calm)) 0x1201 = 2 \<and> nb_mem (fst (copy_of OpRead 2 0x1200 1 calm)) 0x1400 = 0"
  using dma_transfers [of calm "0x1200" 1 2] by (simp add: calm_def beats_clear_def blocks_clear_def bytes_put_def)

theorem dma_restore_snapshot_witness:
  "dma_restore fresh_dma (dma_snapshot armed_dma @ [3]) = Ok (armed_dma, [3])"
  by (rule dma_restore_snapshot [OF armed_dma_reach]) (simp add: fresh_dma_def)

theorem dma_restore_sound_witness:
  "\<exists>bytes d rest. dma_restore fresh_dma bytes = Ok (d, rest) \<and> dma_inv d"
proof -
  have run: "dma_restore fresh_dma (dma_snapshot armed_dma @ []) = Ok (armed_dma, [])"
    by (rule dma_restore_written [OF armed_dma_reach]) (simp add: fresh_dma_def)
  from dma_restore_sound [OF this, of quiet_ctx] run show ?thesis by auto
qed

end
