(* ===== verification/Os_Frames.thy ===== *)
theory Os_Frames
  imports Rust_Iter
begin

section \<open>The frame allocator\<close>

text \<open>
  Models \<^verbatim>\<open>components/os/src/frames.rs\<close>: the pool of physical frames and the process that owns each one.
  What the process table relies on is the interface \<open>frame_owners\<close>: reserving gives free frames to one
  process and touches nothing else, releasing gives back exactly the frames named or fails. A pool
  with more frames than physical page numbers cannot be built from a valid configuration
  (\<open>frames_wf\<close>), so \<^verbatim>\<open>base + i\<close> never wraps.
\<close>

definition PAGE :: u64 where "PAGE = 4096"

text \<open>A failed \<^verbatim>\<open>assert\<close>.\<close>

datatype Assertion = AssertionFailed

datatype FrameError = OutsidePool u32 | NotOwned u32

record Frames =
  fr_base :: u32
  fr_owners :: "u32 list"

definition Frames_new :: "u64 \<Rightarrow> u64 \<Rightarrow> Frames" where
  "Frames_new base len = \<lparr>fr_base = of_nat (base div PAGE), fr_owners = replicate (len div PAGE) 0\<rparr>"

definition frames_count :: "Frames \<Rightarrow> usize" where
  "frames_count fr = length (fr_owners fr)"

definition free_count :: "Frames \<Rightarrow> usize" where
  "free_count fr = length (filter (\<lambda>w. w = 0) (fr_owners fr))"

definition frame_index :: "Frames \<Rightarrow> u32 \<Rightarrow> usize option" where
  "frame_index fr ppn =
     (if fr_base fr \<le> ppn then
        (let i = unat (ppn - fr_base fr) in if i < length (fr_owners fr) then Some i else None)
      else None)"

definition frame_owner :: "Frames \<Rightarrow> u32 \<Rightarrow> u32 option" where
  "frame_owner fr ppn = map_option (\<lambda>i. fr_owners fr ! i) (frame_index fr ppn)"

definition owned_by :: "Frames \<Rightarrow> u32 \<Rightarrow> u32 list" where
  "owned_by fr pid =
     map fst (filter (\<lambda>(ppn, w). w = pid)
       (map (\<lambda>(i, w). (fr_base fr + of_nat i, w)) (enumerate 0 (fr_owners fr))))"

text \<open>The indices of the free frames, lowest first.\<close>

definition free_indices :: "u32 list \<Rightarrow> usize list" where
  "free_indices owners = map fst (filter (\<lambda>(i, w). w = 0) (enumerate 0 owners))"

definition set_owners :: "u32 \<Rightarrow> usize list \<Rightarrow> u32 list \<Rightarrow> u32 list" where
  "set_owners pid idx owners = fold (\<lambda>i ws. ws[i := pid]) idx owners"

definition reserve :: "Frames \<Rightarrow> u32 \<Rightarrow> usize \<Rightarrow> (u32 list option, Assertion) result \<times> Frames" where
  "reserve fr pid n =
     (if pid = 0 then (Err AssertionFailed, fr)
      else
        (let free = take n (free_indices (fr_owners fr)) in
         if length free < n then (Ok None, fr)
         else (Ok (Some (map (\<lambda>i. fr_base fr + of_nat i) free)),
               fr\<lparr>fr_owners := set_owners pid free (fr_owners fr)\<rparr>)))"

definition release_check :: "Frames \<Rightarrow> u32 \<Rightarrow> u32 \<Rightarrow> FrameError option" where
  "release_check fr pid ppn =
     (case frame_owner fr ppn of
        None \<Rightarrow> Some (OutsidePool ppn)
      | Some w \<Rightarrow> if w \<noteq> pid \<or> pid = 0 then Some (NotOwned ppn) else None)"

definition release :: "Frames \<Rightarrow> u32 \<Rightarrow> u32 list \<Rightarrow> (unit, FrameError) result \<times> Frames" where
  "release fr pid ppns =
     (case try_for_each (release_check fr pid) ppns of
        Err e \<Rightarrow> (Err e, fr)
      | Ok _ \<Rightarrow> (Ok (), fr\<lparr>fr_owners := set_owners 0 (List.map_filter (frame_index fr) ppns) (fr_owners fr)\<rparr>))"

definition bitmap :: "Frames \<Rightarrow> u8 list" where
  "bitmap fr =
     fold (\<lambda>(i, w) bits. if w \<noteq> 0 then bits[i div 8 := (bits ! (i div 8)) OR push_bit (i mod 8) 1] else bits)
       (enumerate 0 (fr_owners fr)) (replicate ((frames_count fr + 7) div 8) 0)"

definition frame_bit :: "u8 list \<Rightarrow> usize \<Rightarrow> bool" where
  "frame_bit bm i = (i div 8 < length bm \<and> drop_bit (i mod 8) (bm ! (i div 8)) AND 1 = 1)"

definition Frames_from_owners :: "u32 \<Rightarrow> u32 list \<Rightarrow> Frames" where
  "Frames_from_owners base owners = \<lparr>fr_base = base, fr_owners = owners\<rparr>"

definition frames_wf :: "Frames \<Rightarrow> bool" where
  "frames_wf fr \<longleftrightarrow> unat (fr_base fr) + length (fr_owners fr) \<le> 2 ^ 32"

subsection \<open>The interface\<close>

locale frame_owners =
  fixes wf :: "'f \<Rightarrow> bool"
    and owner :: "'f \<Rightarrow> u32 \<Rightarrow> u32 option"
    and reserve :: "'f \<Rightarrow> u32 \<Rightarrow> usize \<Rightarrow> (u32 list option, Assertion) result \<times> 'f"
    and release :: "'f \<Rightarrow> u32 \<Rightarrow> u32 list \<Rightarrow> (unit, FrameError) result \<times> 'f"
  assumes reserve_wf: "wf f \<Longrightarrow> reserve f pid n = (r, f') \<Longrightarrow> wf f'"
    and release_wf: "wf f \<Longrightarrow> release f pid ps = (r', f') \<Longrightarrow> wf f'"
    and reserve_pid: "reserve f pid n = (Ok (Some ps), f') \<Longrightarrow> pid \<noteq> 0"
    and reserve_free: "wf f \<Longrightarrow> reserve f pid n = (Ok (Some ps), f') \<Longrightarrow> p \<in> set ps \<Longrightarrow> owner f p = Some 0"
    and reserve_owner: "wf f \<Longrightarrow> reserve f pid n = (Ok (Some ps), f') \<Longrightarrow>
      owner f' p = (if p \<in> set ps then Some pid else owner f p)"
    and reserve_none: "reserve f pid n = (Ok None, f') \<Longrightarrow> f' = f"
    and release_Ok_iff: "fst (release f pid ps) = Ok () \<longleftrightarrow> (\<forall>p\<in>set ps. owner f p = Some pid \<and> pid \<noteq> 0)"
    and release_owner: "wf f \<Longrightarrow> release f pid ps = (Ok (), f') \<Longrightarrow>
      owner f' p = (if p \<in> set ps then Some 0 else owner f p)"
    and release_error: "release f pid ps = (Err e, f') \<Longrightarrow> f' = f"
begin

text \<open>What a process does not own is not changed by what another does.\<close>

lemma reserve_others:
  "wf f \<Longrightarrow> reserve f pid n = (Ok (Some ps), f') \<Longrightarrow> owner f p = Some q \<Longrightarrow> q \<noteq> 0 \<Longrightarrow> owner f' p = Some q"
  using reserve_free reserve_owner by fastforce

lemma release_others:
  assumes "wf f" "release f pid ps = (Ok (), f')" "owner f p = Some q" "q \<noteq> pid"
  shows "owner f' p = Some q"
proof -
  have "p \<notin> set ps" using release_Ok_iff [of f pid ps] assms by auto
  with assms show ?thesis by (simp add: release_owner)
qed

lemma release_reserved:
  assumes "wf f" "reserve f pid n = (Ok (Some ps), f')"
  shows "\<exists>f''. release f' pid ps = (Ok (), f'') \<and> owner f'' = owner f"
proof -
  have "fst (release f' pid ps) = Ok ()"
    using assms reserve_pid by (auto simp: release_Ok_iff reserve_owner)
  then obtain f'' where r: "release f' pid ps = (Ok (), f'')" by (metis prod.collapse)
  moreover have "owner f'' p = owner f p" for p
    using reserve_free [OF assms] reserve_owner [OF assms] release_owner [OF reserve_wf [OF assms] r] by simp
  ultimately show ?thesis by blast
qed

end

subsection \<open>The pool meets it\<close>

lemma length_set_owners [simp]: "length (set_owners pid idx ws) = length ws"
  unfolding set_owners_def by (induction idx arbitrary: ws) simp_all

lemma nth_set_owners:
  "i < length ws \<Longrightarrow> set_owners pid idx ws ! i = (if i \<in> set idx then pid else ws ! i)"
  unfolding set_owners_def
proof (induction idx arbitrary: ws)
  case (Cons k idx)
  then show ?case by (cases "i = k") auto
qed simp

lemma set_free_indices: "i \<in> set (free_indices ws) \<longleftrightarrow> i < length ws \<and> ws ! i = 0"
  by (force simp: free_indices_def in_set_enumerate_eq image_iff)

lemma free_indices_sorted: "sorted_wrt (<) (free_indices ws)"
proof -
  have "sorted_wrt (<) (map fst (enumerate 0 ws))" by simp
  then have "sorted_wrt (\<lambda>a b. fst a < fst b) (enumerate 0 ws)" by (simp only: sorted_wrt_map)
  then show ?thesis unfolding free_indices_def sorted_wrt_map by (rule sorted_wrt_filter)
qed

lemma length_free_indices: "length (free_indices ws) = length (filter (\<lambda>w. w = 0) ws)"
proof -
  have "filter (\<lambda>w. w = 0) (map snd (enumerate 0 ws)) = map snd (filter (\<lambda>(i, w). w = 0) (enumerate 0 ws))"
    unfolding filter_map by (simp add: o_def case_prod_unfold)
  then show ?thesis unfolding free_indices_def map_snd_enumerate by (metis length_map)
qed

lemma ppn_nowrap:
  assumes "frames_wf fr" and "i < length (fr_owners fr)"
  shows "i < 2 ^ 32" and "unat (fr_base fr + of_nat i) = unat (fr_base fr) + i"
proof -
  have bound: "unat (fr_base fr) + i < 2 ^ 32" using assms by (simp add: frames_wf_def)
  then show "i < 2 ^ 32" by linarith
  then show "unat (fr_base fr + of_nat i) = unat (fr_base fr) + i"
    using bound by (simp add: unat_add_exact unat_of_nat_exact)
qed

lemma frame_index_iff:
  assumes "frames_wf fr"
  shows "frame_index fr p = Some i \<longleftrightarrow> i < length (fr_owners fr) \<and> p = fr_base fr + of_nat i"
proof -
  show ?thesis
  proof
    assume "frame_index fr p = Some i"
    then have "i = unat (p - fr_base fr)" "i < length (fr_owners fr)"
      by (auto simp: frame_index_def Let_def split: if_splits)
    then show "i < length (fr_owners fr) \<and> p = fr_base fr + of_nat i" by simp
  next
    assume i: "i < length (fr_owners fr) \<and> p = fr_base fr + of_nat i"
    then have "fr_base fr \<le> p" using ppn_nowrap [OF assms] by (simp add: word_le_nat_alt)
    moreover have "i < 2 ^ 32" using i ppn_nowrap [OF assms] by blast
    then have "unat (p - fr_base fr) = i" using i by (simp add: unat_of_nat_exact)
    ultimately show "frame_index fr p = Some i" using i by (simp add: frame_index_def Let_def)
  qed
qed

lemma frame_owner_iff:
  assumes "frames_wf fr"
  shows "frame_owner fr p = Some w \<longleftrightarrow> (\<exists>i<length (fr_owners fr). p = fr_base fr + of_nat i \<and> fr_owners fr ! i = w)"
  by (auto simp: frame_owner_def frame_index_iff [OF assms])

lemma frame_index_update [simp]: "length ws = length (fr_owners fr) \<Longrightarrow> frame_index (fr\<lparr>fr_owners := ws\<rparr>) p = frame_index fr p"
  by (simp add: frame_index_def)

lemma frame_owner_update:
  "frame_owner (fr\<lparr>fr_owners := set_owners pid idx (fr_owners fr)\<rparr>) p =
     map_option (\<lambda>i. if i \<in> set idx then pid else fr_owners fr ! i) (frame_index fr p)"
proof (cases "frame_index fr p")
  case (Some i)
  then have "i < length (fr_owners fr)" by (auto simp: frame_index_def Let_def split: if_splits)
  with Some show ?thesis by (simp add: frame_owner_def nth_set_owners)
qed (simp add: frame_owner_def)

lemma reserve_Some:
  assumes "reserve fr pid n = (Ok (Some ps), fr')"
  shows "pid \<noteq> 0" and "n \<le> length (free_indices (fr_owners fr))"
    and "ps = map (\<lambda>i. fr_base fr + of_nat i) (take n (free_indices (fr_owners fr)))"
    and "fr' = fr\<lparr>fr_owners := set_owners pid (take n (free_indices (fr_owners fr))) (fr_owners fr)\<rparr>"
  using assms by (auto simp: reserve_def Let_def split: if_splits)

lemma release_Ok:
  assumes "release fr pid ps = (Ok (), fr')"
  shows "fr' = fr\<lparr>fr_owners := set_owners 0 (List.map_filter (frame_index fr) ps) (fr_owners fr)\<rparr>"
  using assms by (auto simp: release_def split: sum.splits)

interpretation pool: frame_owners frames_wf frame_owner reserve release
proof
  fix fr fr' :: Frames and pid p :: u32 and n and ps and e :: FrameError
  show "frames_wf fr'" if "frames_wf fr" "reserve fr pid n = (r, fr')" for r
    using that by (auto simp: reserve_def Let_def frames_wf_def split: if_splits)
  show "frames_wf fr'" if "frames_wf fr" "release fr pid ps = (r', fr')" for r'
    using that by (auto simp: release_def frames_wf_def split: sum.splits)
  show "pid \<noteq> 0" if "reserve fr pid n = (Ok (Some ps), fr')" by (rule reserve_Some(1) [OF that])
  show free: "frame_owner fr p = Some 0" if "frames_wf fr" "reserve fr pid n = (Ok (Some ps), fr')" "p \<in> set ps"
    using that(3) reserve_Some(3) [OF that(2)] set_free_indices
    by (auto simp: frame_owner_iff [OF that(1)] dest!: in_set_takeD)
  show "frame_owner fr' p = (if p \<in> set ps then Some pid else frame_owner fr p)"
    if "frames_wf fr" "reserve fr pid n = (Ok (Some ps), fr')"
  proof -
    have "p \<in> set ps \<longleftrightarrow> (\<exists>i\<in>set (take n (free_indices (fr_owners fr))). frame_index fr p = Some i)"
      using set_free_indices [of _ "fr_owners fr"]
      by (auto simp: reserve_Some(3) [OF that(2)] frame_index_iff [OF that(1)] dest: in_set_takeD)
    then show ?thesis
      unfolding reserve_Some(4) [OF that(2)] frame_owner_update
      by (cases "frame_index fr p") (auto simp: frame_owner_def)
  qed
  show "fr' = fr" if "reserve fr pid n = (Ok None, fr')"
    using that by (auto simp: reserve_def Let_def split: if_splits)
  show iff: "(fst (release fr pid ps) = Ok ()) = (\<forall>p\<in>set ps. frame_owner fr p = Some pid \<and> pid \<noteq> 0)"
  proof -
    have "release_check fr pid q = None \<longleftrightarrow> frame_owner fr q = Some pid \<and> pid \<noteq> 0" for q
      by (auto simp: release_check_def split: option.splits)
    moreover have "fst (release fr pid ps) = Ok () \<longleftrightarrow> try_for_each (release_check fr pid) ps = Ok ()"
      by (cases "try_for_each (release_check fr pid) ps") (simp_all add: release_def del: try_for_each_Ok_iff)
    ultimately show ?thesis by simp
  qed
  show "frame_owner fr' p = (if p \<in> set ps then Some 0 else frame_owner fr p)"
    if "frames_wf fr" "release fr pid ps = (Ok (), fr')"
  proof (cases "frame_index fr p")
    case None
    have "\<forall>q\<in>set ps. frame_owner fr q = Some pid" using iff that(2) by simp
    then have "p \<notin> set ps" using None by (auto simp: frame_owner_def)
    then show ?thesis unfolding release_Ok [OF that(2)] frame_owner_update using None by (simp add: frame_owner_def)
  next
    case (Some i)
    have "i \<in> set (List.map_filter (frame_index fr) ps) \<longleftrightarrow> (\<exists>q\<in>set ps. frame_index fr q = Some i)"
      by (force simp: List.map_filter_def image_iff)
    moreover have "frame_index fr q = Some i \<longleftrightarrow> q = p" for q
      using Some by (auto simp: frame_index_iff [OF that(1)])
    ultimately have "i \<in> set (List.map_filter (frame_index fr) ps) \<longleftrightarrow> p \<in> set ps" by simp
    then show ?thesis
      unfolding release_Ok [OF that(2)] frame_owner_update using Some by (simp add: frame_owner_def)
  qed
  show "fr' = fr" if "release fr pid ps = (Err e, fr')"
    using that by (auto simp: release_def split: sum.splits)
qed

subsection \<open>Properties\<close>

text \<open>
  Reserving is all or nothing and lowest first: it succeeds exactly when enough frames are free, gives
  the lowest free frames in ascending order to the process and nothing else changes; otherwise the
  pool is unchanged.
\<close>

theorem reserve_lowest_free:
  assumes "frames_wf fr" and "pid \<noteq> 0"
  shows "if n \<le> free_count fr then
      \<exists>ps fr'. reserve fr pid n = (Ok (Some ps), fr') \<and> length ps = n
        \<and> sorted_wrt (\<lambda>a b. unat a < unat b) ps
        \<and> (\<forall>p\<in>set ps. frame_owner fr p = Some 0)
        \<and> (\<forall>p q. p \<in> set ps \<and> frame_owner fr q = Some 0 \<and> q \<notin> set ps \<longrightarrow> unat p < unat q)
        \<and> (\<forall>p. frame_owner fr' p = (if p \<in> set ps then Some pid else frame_owner fr p))
    else reserve fr pid n = (Ok None, fr)"
proof (cases "n \<le> free_count fr")
  case True
  let ?free = "free_indices (fr_owners fr)"
  let ?ppn = "\<lambda>i. fr_base fr + of_nat i :: u32"
  have n: "n \<le> length ?free" using True by (simp add: free_count_def length_free_indices)
  have "\<not> length (take n ?free) < n" using n by simp
  then have "reserve fr pid n = (Ok (Some (map ?ppn (take n ?free))),
      fr\<lparr>fr_owners := set_owners pid (take n ?free) (fr_owners fr)\<rparr>)"
    using assms(2) by (simp only: reserve_def Let_def if_False)
  then obtain ps fr' where r: "reserve fr pid n = (Ok (Some ps), fr')" by blast
  note ps = reserve_Some(3) [OF r]
  have ppn: "unat (?ppn i) = unat (fr_base fr) + i" if "i < length (fr_owners fr)" for i
    by (rule ppn_nowrap(2) [OF assms(1) that])
  have below: "i < length (fr_owners fr)" if "i \<in> set ?free" for i using that by (simp add: set_free_indices)
  have taken: "sorted_wrt (<) (take n ?free)" using free_indices_sorted [of "fr_owners fr"] by (rule sorted_wrt_take)
  have "sorted_wrt (\<lambda>a b. unat a < unat b) ps"
    unfolding ps sorted_wrt_map
  proof (rule sorted_wrt_mono_rel [OF _ taken])
    fix x y assume "x \<in> set (take n ?free)" "y \<in> set (take n ?free)" and "x < y"
    then have "x < length (fr_owners fr)" "y < length (fr_owners fr)" using below by (auto dest: in_set_takeD)
    then show "unat (?ppn x) < unat (?ppn y)" using \<open>x < y\<close> by (simp add: ppn)
  qed
  moreover have "unat p < unat q" if pq: "p \<in> set ps" "frame_owner fr q = Some 0" "q \<notin> set ps" for p q
  proof -
    obtain i where i: "i \<in> set (take n ?free)" "p = ?ppn i" using pq(1) by (auto simp: ps)
    obtain j where j: "j \<in> set ?free" "q = ?ppn j"
      using pq(2) by (auto simp: frame_owner_iff [OF assms(1)] set_free_indices)
    have "j \<in> set (drop n ?free)"
      using j pq(3) by (metis (no_types, lifting) Un_iff append_take_drop_id image_eqI list.set_map ps set_append)
    moreover have "sorted_wrt (<) (take n ?free @ drop n ?free)" using free_indices_sorted by simp
    ultimately have "i < j" using i(1) by (auto simp only: sorted_wrt_append)
    moreover have "i < length (fr_owners fr)" "j < length (fr_owners fr)"
      using i j below by (auto dest: in_set_takeD)
    ultimately show ?thesis using i j by (simp add: ppn)
  qed
  moreover have "length ps = n" using n by (simp add: ps)
  ultimately show ?thesis
    using True r pool.reserve_free [OF assms(1) r] pool.reserve_owner [OF assms(1) r] by auto
next
  case False
  then show ?thesis using assms(2) by (simp add: reserve_def Let_def free_count_def length_free_indices)
qed

text \<open>
  Releasing what was reserved restores the pool exactly, frame by frame.
\<close>

theorem reserve_release:
  assumes "frames_wf fr" and "reserve fr pid n = (Ok (Some ps), fr')"
  shows "release fr' pid ps = (Ok (), fr)"
proof -
  obtain fr'' where r: "release fr' pid ps = (Ok (), fr'')" and same: "frame_owner fr'' = frame_owner fr"
    using pool.release_reserved [OF assms] by blast
  have parts: "fr_base fr'' = fr_base fr" "length (fr_owners fr'') = length (fr_owners fr)"
    using release_Ok [OF r] reserve_Some(4) [OF assms(2)] by simp_all
  then have wf: "frames_wf fr''" using assms(1) by (simp add: frames_wf_def)
  have "fr_owners fr'' ! i = fr_owners fr ! i" if "i < length (fr_owners fr)" for i
    using fun_cong [OF same, of "fr_base fr + of_nat i"] that parts
      frame_index_iff [OF assms(1), of "fr_base fr + of_nat i" i] frame_index_iff [OF wf, of "fr_base fr + of_nat i" i]
    by (simp add: frame_owner_def)
  then have "fr_owners fr'' = fr_owners fr" using parts(2) by (intro nth_equalityI) simp_all
  with parts(1) r show ?thesis by simp
qed

subsection \<open>The bitmap\<close>

lemma bitmap_fold:
  assumes "length bits = m" and "k + length ws \<le> 8 * m" and "i < 8 * m"
  shows "frame_bit (fold (\<lambda>(i, w) bits. if w \<noteq> 0 then bits[i div 8 := (bits ! (i div 8)) OR push_bit (i mod 8) 1] else bits)
      (enumerate k ws) bits) i \<longleftrightarrow> frame_bit bits i \<or> (k \<le> i \<and> i < k + length ws \<and> ws ! (i - k) \<noteq> 0)"
  using assms
proof (induction ws arbitrary: k bits)
  case (Cons w ws)
  let ?bits = "if w \<noteq> 0 then bits[k div 8 := (bits ! (k div 8)) OR push_bit (k mod 8) 1] else bits"
  have len: "length ?bits = m" using Cons.prems(1) by simp
  have bit_eq: "drop_bit n (x :: u8) AND 1 = 1 \<longleftrightarrow> bit x n" for x n
    by (simp add: bit_iff_odd_drop_bit and_one_eq odd_iff_mod_2_eq_one)
  have k: "k div 8 < m" using Cons.prems(2) by (simp add: less_mult_imp_div_less mult.commute)
  have same: "i div 8 = k div 8 \<and> i mod 8 = k mod 8 \<longleftrightarrow> i = k" by (metis div_mult_mod_eq)
  have step: "frame_bit ?bits i \<longleftrightarrow> frame_bit bits i \<or> (i = k \<and> w \<noteq> 0)"
    using Cons.prems(1) k same
    by (auto simp: frame_bit_def bit_eq nth_list_update bit_simps)
  show ?case using Cons.IH [OF len] Cons.prems step by (auto simp: nth_Cons' Suc_le_eq)
qed auto

text \<open>
  The bitmap of a snapshot tells exactly which frames are allocated, and has no bit beyond the pool.
\<close>

theorem bitmap_is_allocation:
  "frame_bit (bitmap fr) i \<longleftrightarrow> i < frames_count fr \<and> fr_owners fr ! i \<noteq> 0"
proof (cases "i < 8 * ((frames_count fr + 7) div 8)")
  case True
  have zero: "\<not> frame_bit (replicate m 0) i" for m by (auto simp: frame_bit_def)
  have room: "frames_count fr \<le> 8 * ((frames_count fr + 7) div 8)" by presburger
  show ?thesis
    unfolding bitmap_def
    by (subst bitmap_fold [of _ "(frames_count fr + 7) div 8"])
      (use True room zero in \<open>simp_all add: frames_count_def\<close>)
next
  case False
  have "length (fold (\<lambda>(i, w) bits. if w \<noteq> 0 then bits[i div 8 := (bits ! (i div 8)) OR push_bit (i mod 8) 1] else bits)
      xs bits) = length (bits :: u8 list)" for xs :: "(nat \<times> u32) list" and bits
    by (induction xs arbitrary: bits) (auto simp: case_prod_unfold)
  then have "length (bitmap fr) = (frames_count fr + 7) div 8" by (simp add: bitmap_def)
  moreover have "\<not> i div 8 < (frames_count fr + 7) div 8" using False by (simp add: div_less_iff_less_mult mult.commute)
  ultimately have "\<not> frame_bit (bitmap fr) i" by (simp add: frame_bit_def)
  moreover have "frames_count fr \<le> 8 * ((frames_count fr + 7) div 8)" by presburger
  then have "\<not> i < frames_count fr" using False by linarith
  ultimately show ?thesis by blast
qed

subsection \<open>A small pool\<close>

lemma tiny_pool_wf: "frames_wf (Frames_new 0x80400000 0x3000)"
  by (simp add: frames_wf_def Frames_new_def PAGE_def)

lemma tiny_pool_reserve:
  "reserve (Frames_new 0x80400000 0x3000) 1 2 =
     (Ok (Some [0x80400, 0x80401]), \<lparr>fr_base = 0x80400, fr_owners = [1, 1, 0]\<rparr>)"
proof -
  have "replicate 3 (0 :: u32) = [0, 0, 0]" by (simp add: numeral_eq_Suc)
  then have "Frames_new 0x80400000 0x3000 = \<lparr>fr_base = 0x80400, fr_owners = [0, 0, 0]\<rparr>"
    by (simp add: Frames_new_def PAGE_def)
  then show ?thesis by (simp add: reserve_def free_indices_def set_owners_def take_Cons' Let_def)
qed

theorem reserve_release_witness:
  "release \<lparr>fr_base = 0x80400, fr_owners = [1, 1, 0]\<rparr> 1 [0x80400, 0x80401] = (Ok (), Frames_new 0x80400000 0x3000)"
  by (rule reserve_release [OF tiny_pool_wf tiny_pool_reserve])

theorem reserve_lowest_free_witness:
  "reserve (Frames_new 0x80400000 0x3000) 1 9 = (Ok None, Frames_new 0x80400000 0x3000)"
  using reserve_lowest_free [OF tiny_pool_wf, of 1 9] by (simp add: free_count_def Frames_new_def PAGE_def)

end
