(* ===== verification/Os_Pte.thy ===== *)
theory Os_Pte
  imports Rv32_Sv32 Os_Frames Elf_User
begin

section \<open>Page-table entries and the user-copy walk\<close>

text \<open>
  Models \<^verbatim>\<open>components/os/src/pte.rs\<close> (the entries the kernel writes), the permission bits of
  \<^verbatim>\<open>components/os/src/image.rs\<close> and \<^verbatim>\<open>components/os/src/process.rs\<close>, and the walk of
  \<^verbatim>\<open>components/os/src/syscall.rs\<close> by which the kernel reads a user buffer. The kernel never uses the CPU's
  walker: that the two agree is proved here.
\<close>

subsection \<open>Entries\<close>

definition KPTE_V :: u32 where "KPTE_V = push_bit 0 1"
definition KPTE_R :: u32 where "KPTE_R = push_bit 1 1"
definition KPTE_W :: u32 where "KPTE_W = push_bit 2 1"
definition KPTE_X :: u32 where "KPTE_X = push_bit 3 1"
definition KPTE_U :: u32 where "KPTE_U = push_bit 4 1"
definition KPTE_G :: u32 where "KPTE_G = push_bit 5 1"
definition KPTE_A :: u32 where "KPTE_A = push_bit 6 1"
definition KPTE_D :: u32 where "KPTE_D = push_bit 7 1"
definition SATP_SV32 :: u32 where "SATP_SV32 = push_bit 31 1"

lemmas KPTE_defs = KPTE_V_def KPTE_R_def KPTE_W_def KPTE_X_def KPTE_U_def KPTE_G_def KPTE_A_def KPTE_D_def

definition perm_bits :: "Perms \<Rightarrow> u8" where
  "perm_bits p = push_bit 1 (of_bool (perm_read p)) OR push_bit 2 (of_bool (perm_write p))
     OR push_bit 3 (of_bool (perm_execute p))"

definition perms_from_bits :: "u8 \<Rightarrow> Perms option" where
  "perms_from_bits bits =
     (if bits AND NOT 14 = 0
      then Some \<lparr>perm_read = bits AND 2 \<noteq> 0, perm_write = bits AND 4 \<noteq> 0, perm_execute = bits AND 8 \<noteq> 0\<rparr>
      else None)"

definition valid_perms :: "Perms \<Rightarrow> bool" where
  "valid_perms p \<longleftrightarrow> (perm_read p \<or> perm_execute p) \<and> (perm_read p \<or> \<not> perm_write p)"

definition pte_entry :: "u32 \<Rightarrow> u32 \<Rightarrow> u32" where
  "pte_entry ppn flags = push_bit 10 (ppn AND 0x3FFFFF) OR flags"

definition user_leaf :: "u32 \<Rightarrow> Perms \<Rightarrow> u32" where
  "user_leaf ppn perms =
     (let dirty = (if perm_write perms then KPTE_D else 0)
      in pte_entry ppn (KPTE_V OR ucast (perm_bits perms) OR KPTE_U OR KPTE_A OR dirty))"

definition pte_to_table :: "u32 \<Rightarrow> u32" where
  "pte_to_table ppn = pte_entry ppn KPTE_V"

definition kernel_megapage_pte :: "u32 \<Rightarrow> u32" where
  "kernel_megapage_pte ppn = pte_entry ppn (KPTE_V OR KPTE_R OR KPTE_W OR KPTE_X OR KPTE_G OR KPTE_A OR KPTE_D)"

definition mmio_megapage_pte :: "u32 \<Rightarrow> u32" where
  "mmio_megapage_pte ppn = pte_entry ppn (KPTE_V OR KPTE_R OR KPTE_W OR KPTE_G OR KPTE_A OR KPTE_D)"

definition satp_of :: "u32 \<Rightarrow> u32" where
  "satp_of root = SATP_SV32 OR (root AND 0x3FFFFF)"

subsection \<open>The walk\<close>

datatype UserWalk = UserNext u32 | UserPage u32 | UserFault

definition user_pte_address :: "u32 \<Rightarrow> u32 \<Rightarrow> nat \<Rightarrow> u64" where
  "user_pte_address table va level =
     (let v = (if level = 1 then drop_bit 22 va else drop_bit 12 va AND 0x3FF)
      in unat table * PAGE + 4 * unat v)"

definition user_walk_step :: "u32 \<Rightarrow> nat \<Rightarrow> u32 \<Rightarrow> UserWalk" where
  "user_walk_step pte level va =
     (if pte AND KPTE_V = 0 \<or> (pte AND KPTE_R = 0 \<and> pte AND KPTE_W \<noteq> 0) then UserFault
      else
        (let ppn = drop_bit 10 pte in
         if pte AND (KPTE_R OR KPTE_X) = 0 then
           (if level = 1 \<and> pte AND (KPTE_D OR KPTE_A OR KPTE_U) = 0 then UserNext ppn else UserFault)
         else if pte AND KPTE_U = 0 \<or> pte AND KPTE_R = 0 \<or> pte AND KPTE_A = 0 then UserFault
         else if level = 1 then
           (if ppn AND 0x3FF \<noteq> 0 then UserFault else UserPage (ppn OR (drop_bit 12 va AND 0x3FF)))
         else UserPage ppn))"

fun user_translate_loop :: "nat list \<Rightarrow> u32 \<Rightarrow> u32 \<Rightarrow> (u64 \<Rightarrow> u32) \<Rightarrow> u64 option" where
  "user_translate_loop [] table va read_pte = None"
| "user_translate_loop (level # levels) table va read_pte =
     (case user_walk_step (read_pte (user_pte_address table va level)) level va of
        UserNext next \<Rightarrow> user_translate_loop levels next va read_pte
      | UserPage ppn \<Rightarrow> Some (unat ppn * PAGE + unat (va AND 0xFFF))
      | UserFault \<Rightarrow> None)"

definition user_translate :: "u32 \<Rightarrow> u32 \<Rightarrow> (u64 \<Rightarrow> u32) \<Rightarrow> u64 option" where
  "user_translate root va read_pte = user_translate_loop [1, 0] root va read_pte"

subsection \<open>The kernel's walk is the CPU's\<close>

definition user_load :: Context where
  "user_load = \<lparr>ctx_privilege = User, ctx_sum = False, ctx_mxr = False, ctx_access = AccLoad\<rparr>"

lemma has_kbits:
  "pte AND KPTE_V = 0 \<longleftrightarrow> \<not> bit pte 0" "pte AND KPTE_R = 0 \<longleftrightarrow> \<not> bit pte 1"
  "pte AND KPTE_W = 0 \<longleftrightarrow> \<not> bit pte 2" "pte AND KPTE_U = 0 \<longleftrightarrow> \<not> bit pte 4" "pte AND KPTE_A = 0 \<longleftrightarrow> \<not> bit pte 6"
  "pte AND (KPTE_R OR KPTE_X) = 0 \<longleftrightarrow> \<not> bit pte 1 \<and> \<not> bit pte 3"
  "pte AND (KPTE_D OR KPTE_A OR KPTE_U) = 0 \<longleftrightarrow> \<not> bit pte 4 \<and> \<not> bit pte 6 \<and> \<not> bit pte 7"
  unfolding KPTE_defs bit.conj_disj_distrib or_eq_0_iff using bit_and_pow2 by blast+

lemma user_pte_address_eq: "level \<le> 1 \<Longrightarrow> user_pte_address table va level = pte_address table va level"
proof (cases "level = 1")
  case True
  have "unat va div 4194304 < 1024" by (rule less_mult_imp_div_less) simp
  with True show ?thesis
    by (simp add: user_pte_address_def pte_address_def PAGE_def PAGE_SIZE_def vpn_def low_bits unat_drop_bit)
next
  case False
  assume "level \<le> 1"
  with False have "level = 0" by simp
  then show ?thesis
    by (simp add: user_pte_address_def pte_address_def PAGE_def PAGE_SIZE_def vpn_def)
qed

lemma megapage_page_address:
  assumes "megapage_aligned pte"
  shows "unat (drop_bit 10 pte OR (drop_bit 12 va AND 0x3FF)) * 4096 + unat va mod 4096
    = unat pte div 1048576 * 4194304 + unat (va :: u32) mod 4194304"
proof -
  have high: "unat (drop_bit 10 pte) = push_bit 10 (unat pte div 1048576)"
    using assms div_mult_mod_eq [of "unat pte div 1024" 1024] div_mult2_eq [of "unat pte" 1024 1024]
    by (simp add: megapage_aligned_def unat_drop_bit push_bit_eq_mult)
  have "unat (drop_bit 10 pte OR (drop_bit 12 va AND 0x3FF)) =
      push_bit 10 (unat pte div 1048576) OR (unat va div 4096 mod 1024)"
    unfolding unsigned_or_eq high by (simp add: low_bits unat_drop_bit)
  also have "\<dots> = unat pte div 1048576 * 1024 + unat va div 4096 mod 1024"
    by (subst nat_or_disjoint) simp_all
  finally have "unat (drop_bit 10 pte OR (drop_bit 12 va AND 0x3FF)) * 4096 + unat va mod 4096
      = unat pte div 1048576 * 4194304 + (unat va div 4096 mod 1024 * 4096 + unat va mod 4096)" by simp
  also have "unat va div 4096 mod 1024 * 4096 + unat va mod 4096 = unat va mod 4194304"
    using mod_mult2_eq [of "unat va" 4096 1024] by simp
  finally show ?thesis .
qed

lemma user_walk_step_eq:
  assumes "level \<le> 1"
  shows "sv32_step user_load va level pte =
    (case user_walk_step pte level va of
       UserNext t \<Rightarrow> WalkNext t
     | UserPage ppn \<Rightarrow> WalkLeaf (unat ppn * 4096 + unat va mod 4096)
     | UserFault \<Rightarrow> WalkPageFault)"
proof (cases "sv32_step user_load va level pte")
  case (WalkNext t)
  then have "level = 1" "pte_pointer pte" "t = drop_bit 10 pte" using assms unfolding sv32_step_next_iff by auto
  then have "user_walk_step pte level va = UserNext t"
    unfolding pte_pointer_def user_walk_step_def Let_def has_kbits by simp
  with WalkNext show ?thesis by simp
next
  case (WalkLeaf pa)
  then have leaf: "bit pte 0" "bit pte 6" "bit pte 4" "bit pte 1" "level = 1 \<longrightarrow> megapage_aligned pte"
    and pa: "pa = (if level = 1 then unat pte div 1048576 * 4194304 + unat va mod 4194304
             else unat pte div 1024 * 4096 + unat va mod 4096)"
    unfolding sv32_step_leaf_iff pte_leaf_permits_def user_load_def by auto
  show ?thesis
  proof (cases "level = 1")
    case True
    then have "user_walk_step pte level va = UserPage (drop_bit 10 pte OR (drop_bit 12 va AND 0x3FF))"
      using leaf ppn_low_zero [of pte] unfolding user_walk_step_def Let_def has_kbits by simp
    then show ?thesis using True pa leaf(5) megapage_page_address [of pte va] WalkLeaf by simp
  next
    case False
    then have "user_walk_step pte level va = UserPage (drop_bit 10 pte)"
      using leaf unfolding user_walk_step_def Let_def has_kbits by simp
    then show ?thesis using False pa WalkLeaf by (simp add: unat_drop_bit)
  qed
next
  case WalkPageFault
  have "user_walk_step pte level va = UserFault"
  proof (cases "user_walk_step pte level va")
    case (UserNext t)
    then have "sv32_step user_load va level pte = WalkNext t"
      unfolding sv32_step_next_iff pte_pointer_def user_walk_step_def Let_def has_kbits
      by (auto split: if_splits)
    with WalkPageFault show ?thesis by simp
  next
    case (UserPage ppn)
    then have "\<exists>pa. sv32_step user_load va level pte = WalkLeaf pa"
      unfolding sv32_step_leaf_iff pte_leaf_permits_def user_load_def user_walk_step_def Let_def has_kbits
      using ppn_low_zero [of pte] by (auto split: if_splits)
    with WalkPageFault show ?thesis by simp
  qed
  with WalkPageFault show ?thesis by simp
qed

lemma user_translate_walk:
  "user_translate root va rd = (case sv32_walk (\<lambda>a. Some (rd a)) user_load va 1 root of Ok pa \<Rightarrow> Some pa | Err _ \<Rightarrow> None)"
proof -
  have page: "unat (va AND 0xFFF) = unat va mod 4096" by (simp add: low_bits)
  have level0: "user_translate_loop [0] t va rd =
      (case sv32_walk (\<lambda>a. Some (rd a)) user_load va 0 t of Ok pa \<Rightarrow> Some pa | Err _ \<Rightarrow> None)" for t
  proof -
    have step: "sv32_step user_load va 0 pte = (case user_walk_step pte 0 va of UserNext t \<Rightarrow> WalkNext t
        | UserPage ppn \<Rightarrow> WalkLeaf (unat ppn * 4096 + unat va mod 4096) | UserFault \<Rightarrow> WalkPageFault)" for pte
      by (rule user_walk_step_eq) simp
    have "user_walk_step pte 0 va \<noteq> UserNext n" for pte n by (simp add: user_walk_step_def Let_def)
    then show ?thesis
      by (subst sv32_walk.simps)
        (cases "user_walk_step (rd (pte_address t va 0)) 0 va";
          simp add: user_pte_address_eq PAGE_def page step)
  qed
  have step: "sv32_step user_load va 1 pte = (case user_walk_step pte 1 va of UserNext t \<Rightarrow> WalkNext t
      | UserPage ppn \<Rightarrow> WalkLeaf (unat ppn * 4096 + unat va mod 4096) | UserFault \<Rightarrow> WalkPageFault)" for pte
    by (rule user_walk_step_eq) simp
  have "user_translate root va rd =
      (case user_walk_step (rd (pte_address root va 1)) 1 va of
         UserNext t \<Rightarrow> user_translate_loop [0] t va rd
       | UserPage ppn \<Rightarrow> Some (unat ppn * 4096 + unat va mod 4096)
       | UserFault \<Rightarrow> None)"
    unfolding user_translate_def user_translate_loop.simps(2) [of 1] PAGE_def page
    by (simp only: user_pte_address_eq order_refl)
  also have "\<dots> = (case sv32_walk (\<lambda>a. Some (rd a)) user_load va 1 root of Ok pa \<Rightarrow> Some pa | Err _ \<Rightarrow> None)"
    unfolding level0 sv32_walk.simps [of _ _ _ 1]
    by (cases "user_walk_step (rd (pte_address root va 1)) 1 va") (simp_all only: step option.case UserWalk.case WalkStep.case sum.case, simp)
  finally show ?thesis .
qed

text \<open>
  C26. The kernel's walk of a user buffer is the CPU's translation: for every page table in memory, every
  virtual address and every root that is a page number of the 34-bit physical space, below \<open>2 ^ 22\<close>, the kernel's walk gives the physical address that a user-mode load
  under the \<^verbatim>\<open>satp\<close> the kernel writes would use, and refuses the address exactly when that load would fault.
\<close>

theorem kernel_walk_is_cpu_translation:
  assumes "unat root < 2 ^ 22"
  shows "user_translate root va rd =
    (case sv32_translate (satp_of root) User False False AccLoad va (\<lambda>a. Some (rd a)) of
       Ok pa \<Rightarrow> Some pa | Err _ \<Rightarrow> None)"
proof -
  have root: "root AND 0x3FFFFF = root"
    using assms by (simp add: word_unat_eq_iff low_bits)
  have mode: "satp_of root AND SATP_MODE \<noteq> 0"
  proof
    assume "satp_of root AND SATP_MODE = 0"
    then have "\<not> bit (satp_of root AND SATP_MODE) 31" by simp
    then show False by (simp add: satp_of_def SATP_SV32_def SATP_MODE_def bit_simps)
  qed
  have ppn: "satp_of root AND SATP_PPN = root"
  proof -
    have "satp_of root AND SATP_PPN = root AND 0x3FFFFF"
      unfolding satp_of_def SATP_PPN_def bit.conj_disj_distrib2 by (simp add: SATP_SV32_def and.assoc)
    with root show ?thesis by simp
  qed
  show ?thesis
    unfolding user_translate_walk sv32_translate_def using mode ppn by (simp add: user_load_def)
qed

text \<open>An identity map of one 4 KiB page through one pointer.\<close>

theorem kernel_walk_is_cpu_translation_witness:
  "user_translate 0x80000 0x1234 (\<lambda>a. if a = 0x80000000 then 0x20000401 else 0x20000853) = Some 0x80002234"
proof -
  let ?rd = "\<lambda>a. if a = 0x80000000 then 0x20000401 else (0x20000853 :: u32)"
  have "sv32_translate (satp_of 0x80000) User False False AccLoad 0x1234 (\<lambda>a. Some (?rd a)) = Ok 0x80002234"
    by (simp add: sv32_translate_def sv32_walk.simps [of _ _ _ "Suc 0"] sv32_walk.simps [of _ _ _ 0] satp_of_def
        SATP_SV32_def SATP_MODE_def SATP_PPN_def pte_address_def PAGE_SIZE_def vpn_def sv32_step_def PTE_bit_defs Let_def)
  then show ?thesis using kernel_walk_is_cpu_translation [of "0x80000" "0x1234" ?rd] by simp
qed

subsection \<open>What the kernel's entries mean to the CPU\<close>

lemma pte_entry_bits:
  assumes "\<And>n. bit flags n \<Longrightarrow> n < 10" and "unat ppn < 2 ^ 22"
  shows "n < 10 \<Longrightarrow> bit (pte_entry ppn flags) n = bit flags n"
    and "drop_bit 10 (pte_entry ppn flags) = ppn"
    and "unat (pte_entry ppn flags) div 1024 = unat ppn"
proof -
  have ppn: "ppn AND 0x3FFFFF = ppn" using assms(2) by (simp add: word_unat_eq_iff low_bits)
  show "bit (pte_entry ppn flags) n = bit flags n" if "n < 10"
    using that unfolding pte_entry_def ppn by (simp add: bit_simps)
  have "drop_bit 10 flags = 0" by (rule bit_word_eqI) (use assms(1) in \<open>force simp: bit_simps\<close>)
  moreover have "drop_bit 10 (push_bit 10 ppn) = ppn"
    by (rule bit_word_eqI) (use bit_of_unat_less [OF assms(2)] in \<open>force simp: bit_simps\<close>)
  ultimately show drop: "drop_bit 10 (pte_entry ppn flags) = ppn"
    unfolding pte_entry_def ppn by (simp add: drop_bit_or)
  show "unat (pte_entry ppn flags) div 1024 = unat ppn"
    using arg_cong [OF drop, of unat] by (simp add: unat_drop_bit)
qed

lemma table_pointer:
  assumes "unat ppn < 2 ^ 22"
  shows "pte_pointer (pte_to_table ppn)" and "drop_bit 10 (pte_to_table ppn) = ppn"
proof -
  have small: "\<And>n. bit KPTE_V n \<Longrightarrow> n < 10" by (simp add: KPTE_V_def bit_simps)
  show "pte_pointer (pte_to_table ppn)"
    unfolding pte_pointer_def pte_to_table_def
    by (simp add: pte_entry_bits(1) [OF small assms]) (simp add: KPTE_V_def bit_simps)
  show "drop_bit 10 (pte_to_table ppn) = ppn"
    unfolding pte_to_table_def by (rule pte_entry_bits(2) [OF small assms])
qed

definition leaf_flags :: "Perms \<Rightarrow> u32" where
  "leaf_flags p = KPTE_V OR ucast (perm_bits p) OR KPTE_U OR KPTE_A OR (if perm_write p then KPTE_D else 0)"

lemma bit_leaf_flags:
  "bit (leaf_flags p) n \<longleftrightarrow> n = 0 \<or> n = 4 \<or> n = 6 \<or> (n = 1 \<and> perm_read p) \<or> (n = 2 \<and> perm_write p)
     \<or> (n = 3 \<and> perm_execute p) \<or> (n = 7 \<and> perm_write p)"
proof -
  have one: "bit (push_bit k (1 :: u32)) n \<longleftrightarrow> n = k" if "k < 32" for k
    using that by (auto simp: bit_exp_iff)
  have ones: "bit KPTE_V n \<longleftrightarrow> n = 0" "bit KPTE_U n \<longleftrightarrow> n = 4" "bit KPTE_A n \<longleftrightarrow> n = 6" "bit KPTE_D n \<longleftrightarrow> n = 7"
    unfolding KPTE_defs by (rule one, simp)+
  have flag: "bit (push_bit k (of_bool b :: u8)) n \<longleftrightarrow> n = k \<and> b" if "k < 8" for k b
    using that by (cases b) (auto simp: bit_exp_iff)
  have flags: "bit (push_bit 1 (of_bool b :: u8)) n \<longleftrightarrow> n = 1 \<and> b" "bit (push_bit 2 (of_bool b :: u8)) n \<longleftrightarrow> n = 2 \<and> b"
    "bit (push_bit 3 (of_bool b :: u8)) n \<longleftrightarrow> n = 3 \<and> b" for b
    by (rule flag, simp)+
  have perms: "bit (ucast (perm_bits p) :: u32) n \<longleftrightarrow>
      (n = 1 \<and> perm_read p) \<or> (n = 2 \<and> perm_write p) \<or> (n = 3 \<and> perm_execute p)"
    unfolding bit_ucast_iff perm_bits_def bit_or_iff flags by auto
  show ?thesis
    unfolding leaf_flags_def bit_or_iff perms ones if_distrib [of "\<lambda>w. bit w n"] by auto
qed

lemma user_leaf_bits:
  assumes "unat ppn < 2 ^ 22"
  shows "n < 10 \<Longrightarrow> bit (user_leaf ppn p) n = bit (leaf_flags p) n" and "unat (user_leaf ppn p) div 1024 = unat ppn"
proof -
  have leaf: "user_leaf ppn p = pte_entry ppn (leaf_flags p)" by (simp add: user_leaf_def leaf_flags_def Let_def)
  have small: "\<And>n. bit (leaf_flags p) n \<Longrightarrow> n < 10" by (auto simp: bit_leaf_flags)
  show "n < 10 \<Longrightarrow> bit (user_leaf ppn p) n = bit (leaf_flags p) n" "unat (user_leaf ppn p) div 1024 = unat ppn"
    unfolding leaf using pte_entry_bits [OF small assms] by blast+
qed

fun perms_allow :: "Perms \<Rightarrow> Access \<Rightarrow> bool" where
  "perms_allow p AccFetch = perm_execute p"
| "perms_allow p AccLoad = perm_read p"
| "perms_allow p AccStore = perm_write p"

lemma user_leaf_permits:
  assumes "unat ppn < 2 ^ 22" and "valid_perms p"
  shows "pte_leaf_permits \<lparr>ctx_privilege = User, ctx_sum = sm, ctx_mxr = False, ctx_access = a\<rparr> (user_leaf ppn p)
    \<longleftrightarrow> perms_allow p a"
  using assms(2) by (cases a) (auto simp: pte_leaf_permits_def user_leaf_bits [OF assms(1)] bit_leaf_flags valid_perms_def)

text \<open>
  C31. The permissions of a segment are the permissions the CPU enforces: at the level-0 entry the kernel
  writes for a page, a user-mode access succeeds exactly when the segment allows it, and then reaches
  the page's frame at the offset of the virtual address; supervisor code can reach it only with \<^verbatim>\<open>SUM\<close>.
\<close>

theorem user_leaf_enforces_perms:
  assumes "unat ppn < 2 ^ 22" and "valid_perms p"
  shows "sv32_step \<lparr>ctx_privilege = User, ctx_sum = sm, ctx_mxr = False, ctx_access = a\<rparr> va 0 (user_leaf ppn p) =
      (if perms_allow p a then WalkLeaf (unat ppn * 4096 + unat va mod 4096) else WalkPageFault)
    \<and> sv32_step \<lparr>ctx_privilege = Supervisor, ctx_sum = False, ctx_mxr = mxr, ctx_access = a\<rparr> va 0 (user_leaf ppn p)
      = WalkPageFault"
proof
  let ?ctx = "\<lparr>ctx_privilege = User, ctx_sum = sm, ctx_mxr = False, ctx_access = a\<rparr>"
  have next_free: "sv32_step c va 0 (user_leaf ppn p) \<noteq> WalkNext t" for c t by (rule sv32_step_level0)
  have kind: "bit (user_leaf ppn p) 1 \<or> bit (user_leaf ppn p) 3"
    using assms by (auto simp: user_leaf_bits bit_leaf_flags valid_perms_def)
  show "sv32_step ?ctx va 0 (user_leaf ppn p) =
      (if perms_allow p a then WalkLeaf (unat ppn * 4096 + unat va mod 4096) else WalkPageFault)"
  proof (cases "perms_allow p a")
    case True
    then show ?thesis using kind by (simp add: sv32_step_leaf_iff user_leaf_permits [OF assms] user_leaf_bits(2) [OF assms(1)])
  next
    case False
    then show ?thesis
      using next_free [of ?ctx] sv32_step_leaf_iff [of ?ctx va 0 "user_leaf ppn p"] user_leaf_permits [OF assms, of sm a]
      by (cases "sv32_step ?ctx va 0 (user_leaf ppn p)") auto
  qed
  let ?sup = "\<lparr>ctx_privilege = Supervisor, ctx_sum = False, ctx_mxr = mxr, ctx_access = a\<rparr>"
  have "\<not> pte_leaf_permits ?sup (user_leaf ppn p)"
    by (simp add: pte_leaf_permits_def user_leaf_bits [OF assms(1)] bit_leaf_flags)
  then show "sv32_step ?sup va 0 (user_leaf ppn p) = WalkPageFault"
    using next_free [of ?sup] sv32_step_leaf_iff [of ?sup va 0 "user_leaf ppn p"]
    by (cases "sv32_step ?sup va 0 (user_leaf ppn p)") auto
qed

theorem user_leaf_enforces_perms_witness:
  "sv32_step \<lparr>ctx_privilege = User, ctx_sum = False, ctx_mxr = False, ctx_access = AccStore\<rparr> 0x1234 0
     (user_leaf 0x80400 \<lparr>perm_read = True, perm_write = False, perm_execute = True\<rparr>) = WalkPageFault"
  using user_leaf_enforces_perms [where ppn = "0x80400" and p = "\<lparr>perm_read = True, perm_write = False, perm_execute = True\<rparr>"]
  by (simp add: valid_perms_def)

text \<open>The permission bits of a snapshot read back.\<close>

lemma perms_bits_round_trip: "perms_from_bits (perm_bits p) = Some p"
  by (cases p; cases "perm_read p"; cases "perm_write p"; cases "perm_execute p") (simp_all add: perms_from_bits_def perm_bits_def)

end
