(* ===== verification/Elf_Display.thy ===== *)
theory Elf_Display
  imports Elf_User Elf_ExecTable Elf_Load Rust_Fmt
begin

section \<open>The text of the loader's errors\<close>

text \<open>
  Models the \<^verbatim>\<open>Display\<close> implementations of \<^verbatim>\<open>elf/src/error.rs\<close>, \<^verbatim>\<open>user.rs\<close> and \<^verbatim>\<open>exec_table.rs\<close>, which the kernel
  puts into its trace records, over the decimal and hexadecimal formats of the language.
\<close>

fun SegmentError_display :: "SegmentError \<Rightarrow> string" where
  "SegmentError_display FileSizeExceedsMemSize = ''p_filesz is larger than p_memsz''"
| "SegmentError_display SegFileRangeOutsideFile = ''its file range is outside the file''"
| "SegmentError_display AddressMismatch = ''p_vaddr and p_paddr differ''"
| "SegmentError_display AddressOverflow = ''it reaches past the 32-bit address space''"

fun ElfError_display :: "ElfError \<Rightarrow> string" where
  "ElfError_display MalformedHeader = ''malformed ELF header''"
| "ElfError_display InvalidMagic = ''not an ELF file''"
| "ElfError_display (UnsupportedClass c) = ''ELF class '' @ fmt_dec (unat c) @ '' is not ELFCLASS32''"
| "ElfError_display (UnsupportedEndian d) = ''ELF data encoding '' @ fmt_dec (unat d) @ '' is not little-endian''"
| "ElfError_display (UnsupportedVersion v) = ''ELF version '' @ fmt_dec (unat v) @ '' is not EV_CURRENT''"
| "ElfError_display (UnsupportedType t) = ''ELF type '' @ fmt_dec (unat t) @ '' is not ET_EXEC''"
| "ElfError_display (UnsupportedMachine m) = ''ELF machine '' @ fmt_dec (unat m) @ '' is not EM_RISCV''"
| "ElfError_display MalformedProgramHeaders = ''malformed program-header table''"
| "ElfError_display (InvalidSegment index reason) =
     ''PT_LOAD segment '' @ fmt_dec (unat index) @ '' is invalid: '' @ SegmentError_display reason"
| "ElfError_display InvalidRamRegion = ''the RAM region is empty or too large''"
| "ElfError_display (SegmentOutsideRam index) = ''PT_LOAD segment '' @ fmt_dec (unat index) @ '' is outside the RAM region''"
| "ElfError_display (OverlappingSegments a b) =
     ''PT_LOAD segments '' @ fmt_dec (unat a) @ '' and '' @ fmt_dec (unat b) @ '' overlap''"
| "ElfError_display (ElfMisalignedEntry e) = ''entry point '' @ fmt_hex10 (unat e) @ '' is misaligned''"
| "ElfError_display (EntryOutsideSegments e) = ''entry point '' @ fmt_hex10 (unat e) @ '' is not in a loaded segment''"

fun UserElfError_display :: "UserElfError \<Rightarrow> string" where
  "UserElfError_display (HeaderError e) = ElfError_display e"
| "UserElfError_display PrefixLongerThanFile = ''the ELF prefix is longer than the file''"
| "UserElfError_display (PrefixTooShort needed) =
     ''the ELF prefix must hold the first '' @ fmt_dec (unat needed) @ '' bytes of the file''"
| "UserElfError_display InvalidUserRange = ''the user range is empty or not page-aligned''"
| "UserElfError_display (PhdrCountExceeded n) =
     fmt_dec (unat n) @ '' program headers exceed the limit of '' @ fmt_dec (unat MAX_PHDRS)"
| "UserElfError_display (InvalidSegmentSize index) =
     ''PT_LOAD segment '' @ fmt_dec (unat index) @ '' has p_filesz larger than p_memsz''"
| "UserElfError_display (FileRangeOutsideFile index) =
     ''PT_LOAD segment '' @ fmt_dec (unat index) @ '' has a file range outside the file''"
| "UserElfError_display (NoPermission index) = ''PT_LOAD segment '' @ fmt_dec (unat index) @ '' has no permission''"
| "UserElfError_display (WriteWithoutRead index) =
     ''PT_LOAD segment '' @ fmt_dec (unat index) @ '' is writable but not readable''"
| "UserElfError_display (SegmentOutsideUserRange index) =
     ''PT_LOAD segment '' @ fmt_dec (unat index) @ '' is outside the user range''"
| "UserElfError_display (SegmentOverlap a b) =
     ''PT_LOAD segments '' @ fmt_dec (unat a) @ '' and '' @ fmt_dec (unat b) @ '' overlap''"
| "UserElfError_display (SharedPage a b) =
     ''PT_LOAD segments '' @ fmt_dec (unat a) @ '' and '' @ fmt_dec (unat b) @ '' share a page''"
| "UserElfError_display (MisalignedEntry e) = ''entry point '' @ fmt_hex10 (unat e) @ '' is misaligned''"
| "UserElfError_display (EntryNotExecutable e) = ''entry point '' @ fmt_hex10 (unat e) @ '' is not in an executable segment''"

fun ExecTableError_display :: "ExecTableError \<Rightarrow> string" where
  "ExecTableError_display (BadMagic m) = ''bad execution table magic '' @ fmt_hex10 (unat m)"
| "ExecTableError_display (BadVersion v) = ''unsupported execution table version '' @ fmt_dec (unat v)"
| "ExecTableError_display (BadCount n) =
     ''execution table count '' @ fmt_dec (unat n) @ '' is not in 1..='' @ fmt_dec MAX_ENTRIES"
| "ExecTableError_display (NonZeroReserved offset) = ''reserved execution table word at '' @ fmt_hex offset @ '' is not zero''"
| "ExecTableError_display (NonZeroUnusedEntry sl) = ''unused execution table slot '' @ fmt_dec sl @ '' is not zero''"
| "ExecTableError_display (LbaZero entry) = ''execution table entry '' @ fmt_dec entry @ '' starts at block 0''"
| "ExecTableError_display (EmptyFile entry) = ''execution table entry '' @ fmt_dec entry @ '' is empty''"
| "ExecTableError_display (TooLarge entry) =
     ''execution table entry '' @ fmt_dec entry @ '' is larger than the staging area''"
| "ExecTableError_display (OutsideDisk entry) =
     ''execution table entry '' @ fmt_dec entry @ '' goes past the end of the disk''"
| "ExecTableError_display (Overlap a b) = ''execution table entries '' @ fmt_dec a @ '' and '' @ fmt_dec b @ '' overlap''"

end
