(* ===== verification/Os_Config.thy ===== *)
theory Os_Config
  imports Os_Frames Snapshot
begin

section \<open>The kernel's configuration, its whitelist, and the scripted operation\<close>

text \<open>
  Models \<^verbatim>\<open>components/os/src/config.rs\<close> and \<^verbatim>\<open>core.rs\<close>: the physical ranges the kernel may touch, the check
  of a configuration, the splitting of a range into bus accesses, and the two prototype operations
  as state machines that name the access due and take its completion. The lemmas show what a checked
  configuration guarantees, that splitting partitions a range into accesses that cross no page, and
  what a whole operation does to memory when every access is served.
\<close>

definition FRAME_BYTES :: u64 where "FRAME_BYTES = 0x98"
definition FRAME_SEPC :: u64 where "FRAME_SEPC = 0x7C"
definition FRAME_ACTION :: u64 where "FRAME_ACTION = 0x90"
definition FRAME_REASON :: u64 where "FRAME_REASON = 0x94"

record Window =
  win_base :: u64
  win_size :: u64

definition win_contains :: "Window \<Rightarrow> u64 \<Rightarrow> u64 \<Rightarrow> bool" where
  "win_contains w addr len \<longleftrightarrow>
     len \<noteq> 0 \<and> addr \<ge> win_base w \<and> addr + len \<le> u64_max \<and> addr + len - win_base w \<le> win_size w"

text \<open>\<^verbatim>\<open>u64::saturating_add\<close>.\<close>

definition sat_add :: "u64 \<Rightarrow> u64 \<Rightarrow> u64" where
  "sat_add a b = min (a + b) u64_max"

definition win_overlaps :: "Window \<Rightarrow> u64 \<Rightarrow> u64 \<Rightarrow> bool" where
  "win_overlaps w addr len \<longleftrightarrow>
     len \<noteq> 0 \<and> win_size w \<noteq> 0 \<and> addr < sat_add (win_base w) (win_size w) \<and> win_base w < sat_add addr len"

record KernelConfig =
  kc_clock :: ClockDomainId
  kc_latency :: LinkLatency
  kc_ram :: Window
  kc_gate :: Window
  kc_trap_frame :: u32
  kc_staging :: Window
  kc_frame_pool :: Window
  kc_blk :: Window
  kc_uart_tx :: u64

datatype KernelConfigError =
    KcEmpty string
  | KcWraps string
  | KcOutsideRam string
  | KcOverlap string string
  | KcMisalignedFrame u32

definition kc_frame :: "KernelConfig \<Rightarrow> Window" where
  "kc_frame cfg = \<lparr>win_base = unat (kc_trap_frame cfg), win_size = FRAME_BYTES\<rparr>"

definition grants :: "KernelConfig \<Rightarrow> Window list" where
  "grants cfg = [kc_frame cfg, kc_staging cfg, kc_frame_pool cfg, kc_blk cfg, \<lparr>win_base = kc_uart_tx cfg, win_size = 1\<rparr>]"

definition permits :: "KernelConfig \<Rightarrow> u64 \<Rightarrow> u64 \<Rightarrow> bool" where
  "permits cfg addr len \<longleftrightarrow> \<not> win_overlaps (kc_gate cfg) addr len \<and> list_ex (\<lambda>g. win_contains g addr len) (grants cfg)"

definition window_check :: "string \<times> Window \<Rightarrow> KernelConfigError option" where
  "window_check nw =
     (case nw of (name, w) \<Rightarrow>
        if win_size w = 0 then Some (KcEmpty name)
        else if win_base w + win_size w > u64_max then Some (KcWraps name)
        else None)"

definition in_ram_check :: "KernelConfig \<Rightarrow> (string \<times> Window) list \<Rightarrow> usize \<times> string \<times> Window \<Rightarrow> KernelConfigError option" where
  "in_ram_check cfg in_ram x =
     (case x of (i, name, w) \<Rightarrow>
        if \<not> win_contains (kc_ram cfg) (win_base w) (win_size w) then Some (KcOutsideRam name)
        else (case try_for_each (\<lambda>(other, p). if win_overlaps p (win_base w) (win_size w) then Some (KcOverlap other name) else None)
                (take i in_ram) of Err e \<Rightarrow> Some e | Ok _ \<Rightarrow> None))"

definition config_validate :: "KernelConfig \<Rightarrow> (unit, KernelConfigError) result" where
  "config_validate cfg =
     (let named = [(''the RAM'', kc_ram cfg), (''kgate'', kc_gate cfg), (''the trap frame'', kc_frame cfg),
            (''staging'', kc_staging cfg), (''the frame pool'', kc_frame_pool cfg), (''the block controller'', kc_blk cfg)];
          in_ram = [(''the trap frame'', kc_frame cfg), (''staging'', kc_staging cfg), (''the frame pool'', kc_frame_pool cfg)]
      in result_bind (try_for_each window_check named) (\<lambda>_.
         if \<not> 4 dvd unat (kc_trap_frame cfg) then Err (KcMisalignedFrame (kc_trap_frame cfg))
         else try_for_each (in_ram_check cfg in_ram) (enumerate 0 in_ram)))"

definition w_window :: "Window \<Rightarrow> u8 list" where
  "w_window w = w_u64 (win_base w) @ w_u64 (win_size w)"

definition config_encode :: "KernelConfig \<Rightarrow> u8 list" where
  "config_encode cfg =
     w_u32 (of_nat (kc_clock cfg)) @ w_latency (kc_latency cfg) @ w_window (kc_ram cfg) @ w_window (kc_gate cfg)
     @ w_u32 (kc_trap_frame cfg) @ w_window (kc_staging cfg) @ w_window (kc_frame_pool cfg) @ w_window (kc_blk cfg)
     @ w_u64 (kc_uart_tx cfg)"

subsection \<open>Accesses\<close>

definition MAX_ACCESS :: u64 where "MAX_ACCESS = 16"
definition SCRIPT_BYTE :: u8 where "SCRIPT_BYTE = 0x6B"
definition SHUTDOWN_REASON :: u32 where "SHUTDOWN_REASON = 1"

datatype Op = OpScript | OpShutdown

fun Op_name :: "Op \<Rightarrow> string" where
  "Op_name OpScript = ''script''"
| "Op_name OpShutdown = ''shutdown''"

datatype KAccess = KRead u64 u32 | KWrite u64 "u8 list"

fun kaddr :: "KAccess \<Rightarrow> u64" where
  "kaddr (KRead addr _) = addr"
| "kaddr (KWrite addr _) = addr"

fun klen :: "KAccess \<Rightarrow> u64" where
  "klen (KRead _ len) = unat len"
| "klen (KWrite _ data) = length data"

datatype Completion = CompData "u8 list" | CompWritten

datatype CoreError = CoreFinished | CoreWrongKind | CoreDataLength

lemma following_advances:
  "addr < finish \<Longrightarrow> addr < min (min finish ((addr div PAGE + 1) * PAGE)) (addr + MAX_ACCESS)"
  by (simp add: PAGE_def MAX_ACCESS_def dividend_less_times_div)

text \<open>
  \<^verbatim>\<open>chunks\<close> adds and multiplies on \<^verbatim>\<open>u64\<close> without a check, so a range that ends in the last page of the address
  space is a panic, also when its own end is representable: the end of that page is not. The loop
  runs over the splitting of the range as natural numbers have it.
\<close>

function chunks_loop :: "u64 \<Rightarrow> u64 \<Rightarrow> ((u64 \<times> u64) list, Abort) result" where
  "chunks_loop addr finish =
     (if addr < finish then
        (let page_end = (addr div PAGE + 1) * PAGE in
         if page_end > u64_max \<or> addr + MAX_ACCESS > u64_max then Err Panic
         else
           (let following = min (min finish page_end) (addr + MAX_ACCESS)
            in result_bind (chunks_loop following finish) (\<lambda>out. Ok ((addr, following - addr) # out))))
      else Ok [])"
  by pat_completeness auto

termination
  by (relation "measure (\<lambda>(addr, finish). finish - addr)") (use following_advances in \<open>fastforce+\<close>)

declare chunks_loop.simps [simp del]

definition chunks :: "u64 \<Rightarrow> u64 \<Rightarrow> ((u64 \<times> u64) list, Abort) result" where
  "chunks base len = (if base + len > u64_max then Err Panic else chunks_loop base (base + len))"

text \<open>The splitting itself, of any range of natural numbers.\<close>

function split_loop :: "nat \<Rightarrow> nat \<Rightarrow> (nat \<times> nat) list" where
  "split_loop addr finish =
     (if addr < finish then
        (let following = min (min finish ((addr div PAGE + 1) * PAGE)) (addr + MAX_ACCESS)
         in (addr, following - addr) # split_loop following finish)
      else [])"
  by pat_completeness auto

termination
  by (relation "measure (\<lambda>(addr, finish). finish - addr)") (use following_advances in \<open>fastforce+\<close>)

declare split_loop.simps [simp del]

definition split_range :: "nat \<Rightarrow> nat \<Rightarrow> (nat \<times> nat) list" where
  "split_range base len = split_loop base (base + len)"

text \<open>The last page of the 64-bit address space.\<close>

definition LAST_PAGE :: u64 where
  "LAST_PAGE = u64_max + 1 - PAGE"

lemma chunks_loop_split:
  assumes "finish \<le> LAST_PAGE"
  shows "chunks_loop addr finish = Ok (split_loop addr finish)"
  using assms
proof (induction addr finish rule: split_loop.induct)
  case (1 addr finish)
  show ?case
  proof (cases "addr < finish")
    case True
    then have "(addr div 4096 + 1) * 4096 \<le> 18446744073709551615" "addr + 16 \<le> 18446744073709551615"
      using "1.prems" by (simp_all add: LAST_PAGE_def u64_max_def PAGE_def)
    then show ?thesis using True "1.IH" [OF True refl] "1.prems"
      by (simp add: chunks_loop.simps [of addr] split_loop.simps [of addr] Let_def PAGE_def MAX_ACCESS_def u64_max_def)
  qed (simp add: chunks_loop.simps split_loop.simps)
qed

lemma chunks_loop_panics:
  assumes "addr < finish" "LAST_PAGE < finish" "finish \<le> u64_max"
  shows "chunks_loop addr finish = Err Panic"
  using assms
proof (induction addr finish rule: chunks_loop.induct)
  case (1 addr finish)
  define following where "following = min (min finish ((addr div PAGE + 1) * PAGE)) (addr + MAX_ACCESS)"
  show ?case
  proof (cases "(addr div PAGE + 1) * PAGE > u64_max \<or> addr + MAX_ACCESS > u64_max")
    case False
    then have "(addr div PAGE + 1) * PAGE \<le> LAST_PAGE"
      by (simp add: LAST_PAGE_def u64_max_def PAGE_def)
    then have "following < finish" using "1.prems" by (simp add: following_def min_less_iff_disj)
    then show ?thesis
      using "1.IH" [OF "1.prems"(1) refl False following_def] "1.prems" False
      by (simp add: chunks_loop.simps [of addr] Let_def following_def)
  qed (use "1.prems" in \<open>simp add: chunks_loop.simps [of addr]\<close>)
qed

lemma chunks_split: "base + len \<le> LAST_PAGE \<Longrightarrow> chunks base len = Ok (split_range base len)"
  using chunks_loop_split [of "base + len" base] by (simp add: chunks_def split_range_def LAST_PAGE_def u64_max_def PAGE_def)

lemma chunks_trap_frame:
  "off + len \<le> 4096 \<Longrightarrow> chunks (unat (tf :: u32) + off) len = Ok (split_range (unat tf + off) len)"
proof (rule chunks_split)
  assume "off + len \<le> 4096"
  moreover have "unat tf < 4294967296" by (rule unat_less_2p32)
  moreover have "LAST_PAGE = 18446744073709547520" by (simp add: LAST_PAGE_def u64_max_def PAGE_def)
  ultimately show "unat tf + off + len \<le> LAST_PAGE" by linarith
qed

subsection \<open>Operations\<close>

record Operation =
  op_kind :: Op
  op_step :: nat
  op_data :: "u8 list"

definition op_start :: "KernelConfig \<Rightarrow> u32 \<Rightarrow> Operation" where
  "op_start cfg v = \<lparr>op_kind = (if v = kc_trap_frame cfg then OpScript else OpShutdown), op_step = 0, op_data = []\<rparr>"

text \<open>
  The ranges in the trap frame start at a 32-bit address, so splitting them does not overflow
  (\<open>frame_chunks_Ok\<close>, \<open>shutdown_chunks_Ok\<close>): the accesses are what \<open>chunks\<close> returns.
\<close>

definition frame_chunks :: "KernelConfig \<Rightarrow> (u64 \<times> u64) list" where
  "frame_chunks cfg = projr (chunks (unat (kc_trap_frame cfg)) FRAME_BYTES)"

definition shutdown_chunks :: "KernelConfig \<Rightarrow> (u64 \<times> u64) list" where
  "shutdown_chunks cfg = projr (chunks (unat (kc_trap_frame cfg) + FRAME_ACTION) 8)"

lemma frame_chunks_Ok:
  "chunks (unat (kc_trap_frame cfg)) FRAME_BYTES = Ok (frame_chunks cfg)"
  "frame_chunks cfg = split_range (unat (kc_trap_frame cfg)) FRAME_BYTES"
  using chunks_trap_frame [of 0 FRAME_BYTES "kc_trap_frame cfg"] by (simp_all add: frame_chunks_def FRAME_BYTES_def)

lemma shutdown_chunks_Ok:
  "chunks (unat (kc_trap_frame cfg) + FRAME_ACTION) 8 = Ok (shutdown_chunks cfg)"
  "shutdown_chunks cfg = split_range (unat (kc_trap_frame cfg) + FRAME_ACTION) 8"
  using chunks_trap_frame [of FRAME_ACTION 8 "kc_trap_frame cfg"] by (simp_all add: shutdown_chunks_def FRAME_ACTION_def)

definition op_steps :: "KernelConfig \<Rightarrow> Operation \<Rightarrow> nat" where
  "op_steps cfg p =
     (case op_kind p of OpScript \<Rightarrow> 2 * length (frame_chunks cfg) + 1 | OpShutdown \<Rightarrow> length (shutdown_chunks cfg))"

definition op_data_len :: "KernelConfig \<Rightarrow> Operation \<Rightarrow> u64" where
  "op_data_len cfg p =
     (let cs = frame_chunks cfg; step = op_step p in
      case op_kind p of
        OpScript \<Rightarrow> if step < length cs then sum_list (map snd (take step cs)) else if step < 2 * length cs then FRAME_BYTES else 0
      | OpShutdown \<Rightarrow> 0)"

definition op_from_parts :: "KernelConfig \<Rightarrow> Op \<Rightarrow> nat \<Rightarrow> u8 list \<Rightarrow> Operation option" where
  "op_from_parts cfg kind step data =
     (let p = \<lparr>op_kind = kind, op_step = step, op_data = data\<rparr> in
      if step < op_steps cfg p \<and> length (op_data p) = op_data_len cfg p then Some p else None)"

text \<open>The word at \<^verbatim>\<open>sepc\<close> of the frame advanced by four, and a slice of a buffer; both index within the data.\<close>

definition advance_sepc :: "u8 list \<Rightarrow> (u8 list, Abort) result" where
  "advance_sepc fr =
     (case slice_get fr FRAME_SEPC (FRAME_SEPC + 4) of
        None \<Rightarrow> Err Panic
      | Some bytes \<Rightarrow> Ok (slice_put fr FRAME_SEPC (u32_to_le_bytes (u32_from_le_bytes bytes + 4))))"

definition write_slice :: "u64 \<Rightarrow> u8 list \<Rightarrow> u64 \<Rightarrow> u64 \<Rightarrow> (KAccess option, Abort) result" where
  "write_slice base data addr len =
     (case slice_get data (addr - base) (addr - base + len) of
        None \<Rightarrow> Err Panic
      | Some bytes \<Rightarrow> Ok (Some (KWrite addr bytes)))"

definition op_access :: "KernelConfig \<Rightarrow> Operation \<Rightarrow> (KAccess option, Abort) result" where
  "op_access cfg p =
     (let step = op_step p in
      case op_kind p of
        OpScript \<Rightarrow>
          (let cs = frame_chunks cfg; n = length cs in
           if step < n then (case cs ! step of (addr, len) \<Rightarrow> Ok (Some (KRead addr (of_nat len))))
           else if step < 2 * n then
             (case cs ! (step - n) of (addr, len) \<Rightarrow>
                result_bind (advance_sepc (op_data p)) (\<lambda>fr. write_slice (unat (kc_trap_frame cfg)) fr addr len))
           else if step = 2 * n then Ok (Some (KWrite (kc_uart_tx cfg) [SCRIPT_BYTE]))
           else Ok None)
      | OpShutdown \<Rightarrow>
          (let cs = shutdown_chunks cfg in
           if step < length cs then
             (case cs ! step of (addr, len) \<Rightarrow>
                write_slice (unat (kc_trap_frame cfg) + FRAME_ACTION) (u32_to_le_bytes 1 @ u32_to_le_bytes SHUTDOWN_REASON) addr len)
           else Ok None))"

definition op_advance :: "KernelConfig \<Rightarrow> Operation \<Rightarrow> u8 list \<Rightarrow> Operation" where
  "op_advance cfg p data =
     (let p = p\<lparr>op_data := op_data p @ data, op_step := op_step p + 1\<rparr> in
      if length (op_data p) \<noteq> op_data_len cfg p then p\<lparr>op_data := []\<rparr> else p)"

definition op_complete :: "KernelConfig \<Rightarrow> Operation \<Rightarrow> Completion \<Rightarrow> ((Operation, CoreError) result, Abort) result" where
  "op_complete cfg p completion =
     result_bind (op_access cfg p) (\<lambda>access.
       Ok (case (access, completion) of
             (None, _) \<Rightarrow> Err CoreFinished
           | (Some (KRead _ len), CompData data) \<Rightarrow>
               if length data \<noteq> unat len then Err CoreDataLength else Ok (op_advance cfg p data)
           | (Some (KWrite _ _), CompWritten) \<Rightarrow> Ok (op_advance cfg p [])
           | _ \<Rightarrow> Err CoreWrongKind))"

definition op_is_finished :: "KernelConfig \<Rightarrow> Operation \<Rightarrow> bool" where
  "op_is_finished cfg p \<longleftrightarrow> op_step p \<ge> op_steps cfg p"

subsection \<open>What splitting and checking guarantee\<close>

definition same_page :: "u64 \<Rightarrow> u64 \<Rightarrow> bool" where
  "same_page addr len \<longleftrightarrow> addr div 4096 = (addr + len - 1) div 4096"

lemma chunk_next:
  assumes "addr < finish" "following = min (min finish ((addr div PAGE + 1) * PAGE)) (addr + MAX_ACCESS)"
  shows "addr < following" "following \<le> finish" "following - addr \<le> 16" "same_page addr (following - addr)"
proof -
  have page: "addr < (addr div 4096 + 1) * (4096 :: nat)" by (simp add: dividend_less_times_div)
  then show lt: "addr < following" using assms by (simp add: PAGE_def MAX_ACCESS_def)
  show "following \<le> finish" "following - addr \<le> 16" using assms by (simp_all add: MAX_ACCESS_def)
  have "following \<le> (addr div 4096 + 1) * 4096" using assms by (simp add: PAGE_def)
  then have "addr div 4096 * 4096 \<le> following - 1" "following - 1 < (addr div 4096 + 1) * 4096"
    using lt div_times_less_eq_dividend [of addr 4096] by linarith+
  then have "(following - 1) div 4096 = addr div 4096" by (intro div_nat_eqI) (simp_all add: mult.commute)
  then show "same_page addr (following - addr)" using lt by (simp add: same_page_def)
qed

lemma split_loop_covers:
  "concat (map (\<lambda>(a, n). [a..<a + n]) (split_loop addr finish)) = [addr..<finish]
    \<and> (\<forall>(a, n)\<in>set (split_loop addr finish). addr \<le> a \<and> 0 < n \<and> n \<le> 16 \<and> same_page a n \<and> a + n \<le> finish)"
proof (induction addr finish rule: split_loop.induct)
  case (1 addr finish)
  show ?case
  proof (cases "addr < finish")
    case True
    define following where "following = min (min finish ((addr div PAGE + 1) * PAGE)) (addr + MAX_ACCESS)"
    note nx = chunk_next [OF True following_def]
    have unfold: "split_loop addr finish = (addr, following - addr) # split_loop following finish"
      using True by (subst split_loop.simps) (simp add: Let_def following_def)
    have IH: "concat (map (\<lambda>(a, n). [a..<a + n]) (split_loop following finish)) = [following..<finish]"
      "\<forall>(a, n)\<in>set (split_loop following finish). following \<le> a \<and> 0 < n \<and> n \<le> 16 \<and> same_page a n \<and> a + n \<le> finish"
      using "1.IH" [OF True following_def] by blast+
    have "[addr..<finish] = [addr..<following] @ [following..<finish]"
      using upt_add_eq_append [of addr following "finish - following"] nx by simp
    with IH nx show ?thesis unfolding unfold by auto
  qed (simp add: split_loop.simps)
qed

text \<open>
  C29. Splitting a range into accesses covers it, or panics. When it returns, the accesses are adjacent, in
  address order, and together are exactly the range's bytes; each has 1 to 16 bytes and crosses no
  page. It returns exactly when the range is empty or ends before the last page of the 64-bit address
  space (and its end is representable); otherwise the unchecked \<^verbatim>\<open>u64\<close> arithmetic overflows and it panics.
\<close>

theorem chunks_partition:
  "case chunks base len of
     Ok cs \<Rightarrow> concat (map (\<lambda>(a, n). [a..<a + n]) cs) = [base..<base + len]
       \<and> list_all (\<lambda>(a, n). 0 < n \<and> n \<le> 16 \<and> a div 4096 = (a + n - 1) div 4096) cs
       \<and> base + len < 2 ^ 64 \<and> (len = 0 \<or> base + len \<le> 2 ^ 64 - 4096)
   | Err e \<Rightarrow> e = Panic \<and> \<not> (base + len < 2 ^ 64 \<and> (len = 0 \<or> base + len \<le> 2 ^ 64 - 4096))"
proof -
  have lp: "LAST_PAGE = 2 ^ 64 - 4096" by (simp add: LAST_PAGE_def u64_max_def PAGE_def)
  consider "base + len \<le> LAST_PAGE" | "len = 0" "LAST_PAGE < base" "base \<le> u64_max"
    | "0 < len" "LAST_PAGE < base + len" "base + len \<le> u64_max" | "u64_max < base + len" by force
  then show ?thesis
  proof cases
    case 1
    then show ?thesis using split_loop_covers [of base "base + len"]
      by (auto simp: chunks_split split_range_def list_all_iff same_page_def lp)
  next
    case 2
    then show ?thesis by (simp add: chunks_def chunks_loop.simps u64_max_def)
  next
    case 3
    then have "chunks base len = Err Panic" by (simp add: chunks_def chunks_loop_panics)
    then show ?thesis using 3 by (simp add: lp)
  qed (simp add: chunks_def u64_max_def)
qed

definition win_bytes :: "Window \<Rightarrow> u64 set" where
  "win_bytes w = {win_base w..<win_base w + win_size w}"

lemma contains_bytes: "win_contains w addr len \<Longrightarrow> {addr..<addr + len} \<subseteq> win_bytes w"
  by (auto simp: win_contains_def win_bytes_def)

lemma overlaps_bytes:
  assumes "addr + len \<le> u64_max" "win_base w + win_size w \<le> u64_max"
  shows "win_overlaps w addr len \<longleftrightarrow> {addr..<addr + len} \<inter> win_bytes w \<noteq> {}"
proof
  assume "win_overlaps w addr len"
  then have "max addr (win_base w) \<in> {addr..<addr + len} \<inter> win_bytes w"
    using assms by (auto simp: win_overlaps_def sat_add_def win_bytes_def)
  then show "{addr..<addr + len} \<inter> win_bytes w \<noteq> {}" by blast
qed (use assms in \<open>auto simp: win_overlaps_def sat_add_def win_bytes_def\<close>)

lemma config_validate_windows:
  assumes "config_validate cfg = Ok u"
    and "w \<in> {kc_ram cfg, kc_gate cfg, kc_frame cfg, kc_staging cfg, kc_frame_pool cfg, kc_blk cfg}"
  shows "0 < win_size w \<and> win_base w + win_size w \<le> u64_max"
  using assms by (auto simp: config_validate_def Let_def window_check_def split: if_splits)

lemma config_validate_ram:
  assumes "config_validate cfg = Ok u"
  shows "4 dvd unat (kc_trap_frame cfg)"
    and "win_contains (kc_ram cfg) (win_base (kc_frame cfg)) (win_size (kc_frame cfg))"
      "win_contains (kc_ram cfg) (win_base (kc_staging cfg)) (win_size (kc_staging cfg))"
      "win_contains (kc_ram cfg) (win_base (kc_frame_pool cfg)) (win_size (kc_frame_pool cfg))"
    and "\<not> win_overlaps (kc_frame cfg) (win_base (kc_staging cfg)) (win_size (kc_staging cfg))"
      "\<not> win_overlaps (kc_frame cfg) (win_base (kc_frame_pool cfg)) (win_size (kc_frame_pool cfg))"
      "\<not> win_overlaps (kc_staging cfg) (win_base (kc_frame_pool cfg)) (win_size (kc_frame_pool cfg))"
  using assms by (auto simp: config_validate_def Let_def in_ram_check_def split: if_splits option.splits)

text \<open>
  C28. In a checked configuration the trap frame, staging and the frame pool are disjoint parts of the RAM,
  and an access the whitelist permits lies wholly inside one granted range and touches no byte of the
  kernel's own gate window.
\<close>

theorem whitelist_safe:
  assumes "config_validate cfg = Ok u"
  shows "win_bytes (kc_frame cfg) \<union> win_bytes (kc_staging cfg) \<union> win_bytes (kc_frame_pool cfg) \<subseteq> win_bytes (kc_ram cfg)
    \<and> win_bytes (kc_frame cfg) \<inter> win_bytes (kc_staging cfg) = {} \<and> win_bytes (kc_frame cfg) \<inter> win_bytes (kc_frame_pool cfg) = {}
    \<and> win_bytes (kc_staging cfg) \<inter> win_bytes (kc_frame_pool cfg) = {}
    \<and> (\<forall>addr len. permits cfg addr len \<longrightarrow> 0 < len \<and> {addr..<addr + len} \<inter> win_bytes (kc_gate cfg) = {}
         \<and> (\<exists>g\<in>set (grants cfg). {addr..<addr + len} \<subseteq> win_bytes g))"
proof -
  note W = config_validate_windows [OF assms] and R = config_validate_ram [OF assms]
  have range: "{win_base w..<win_base w + win_size w} = win_bytes w" for w by (simp add: win_bytes_def)
  have sub: "win_bytes (kc_frame cfg) \<union> win_bytes (kc_staging cfg) \<union> win_bytes (kc_frame_pool cfg) \<subseteq> win_bytes (kc_ram cfg)"
    using contains_bytes [OF R(2)] contains_bytes [OF R(3)] contains_bytes [OF R(4)] by (simp add: range)
  have disj: "win_bytes a \<inter> win_bytes b = {}"
    if "\<not> win_overlaps a (win_base b) (win_size b)" "win_base a + win_size a \<le> u64_max" "win_base b + win_size b \<le> u64_max" for a b
    using overlaps_bytes [of "win_base b" "win_size b" a] that by (auto simp: range)
  have perm: "0 < len \<and> {addr..<addr + len} \<inter> win_bytes (kc_gate cfg) = {} \<and> (\<exists>g\<in>set (grants cfg). {addr..<addr + len} \<subseteq> win_bytes g)"
    if p: "permits cfg addr len" for addr len
  proof -
    obtain g where g: "g \<in> set (grants cfg)" "win_contains g addr len" and gate: "\<not> win_overlaps (kc_gate cfg) addr len"
      using p by (auto simp: permits_def list_ex_iff)
    have "addr + len \<le> u64_max" "0 < len" using g(2) by (simp_all add: win_contains_def)
    then show ?thesis using g contains_bytes [OF g(2)] gate overlaps_bytes [of addr len "kc_gate cfg"] W [of "kc_gate cfg"] by auto
  qed
  show ?thesis
    using sub disj [OF R(5)] disj [OF R(6)] disj [OF R(7)] perm
      W [of "kc_frame cfg"] W [of "kc_staging cfg"] W [of "kc_frame_pool cfg"] by blast
qed

subsection \<open>Running an operation against a memory\<close>

definition mem_put :: "(u64 \<Rightarrow> u8) \<Rightarrow> u64 \<Rightarrow> u8 list \<Rightarrow> u64 \<Rightarrow> u8" where
  "mem_put f addr data = (\<lambda>a. if addr \<le> a \<and> a < addr + length data then data ! (a - addr) else f a)"

definition mem_get :: "(u64 \<Rightarrow> u8) \<Rightarrow> u64 \<Rightarrow> nat \<Rightarrow> u8 list" where
  "mem_get f addr n = map f [addr..<addr + n]"

fun serve :: "(u64 \<Rightarrow> u8) \<Rightarrow> KAccess \<Rightarrow> (u64 \<Rightarrow> u8) \<times> Completion" where
  "serve f (KRead addr len) = (f, CompData (mem_get f addr (unat len)))"
| "serve f (KWrite addr data) = (mem_put f addr data, CompWritten)"

fun op_run :: "nat \<Rightarrow> KernelConfig \<Rightarrow> Operation \<Rightarrow> (u64 \<Rightarrow> u8) \<Rightarrow> (Operation \<times> (u64 \<Rightarrow> u8) \<times> KAccess list) option" where
  "op_run 0 cfg p f = Some (p, f, [])"
| "op_run (Suc n) cfg p f =
     (case op_access cfg p of
        Ok (Some acc) \<Rightarrow>
          (case serve f acc of (f', c) \<Rightarrow>
             (case op_complete cfg p c of
                Ok (Ok p') \<Rightarrow> map_option (\<lambda>(q, g, accs). (q, g, acc # accs)) (op_run n cfg p' f')
              | _ \<Rightarrow> None))
      | _ \<Rightarrow> None)"

lemma op_run_add:
  "op_run m cfg p f = Some (q, g, as) \<Longrightarrow> op_run n cfg q g = Some (q', g', bs) \<Longrightarrow>
     op_run (m + n) cfg p f = Some (q', g', as @ bs)"
  by (induction m arbitrary: p f as) (auto split: sum.splits option.splits prod.splits)

lemma length_mem_get [simp]: "length (mem_get f a n) = n"
  by (simp add: mem_get_def)

lemma mem_put_append: "mem_put (mem_put f a xs) (a + length xs) ys = mem_put f a (xs @ ys)"
  by (auto simp: mem_put_def fun_eq_iff nth_append)

lemma mem_put_Nil [simp]: "mem_put f a [] = f"
  by (auto simp: mem_put_def fun_eq_iff)

lemma mem_get_append: "mem_get f a m @ mem_get f (a + m) n = mem_get f a (m + n)"
proof -
  have "[a..<a + (m + n)] = [a..<a + m] @ [a + m..<a + m + n]"
    using upt_add_eq_append [of a "a + m" n] by (simp only: le_add1 add.assoc)
  then show ?thesis by (simp only: mem_get_def map_append)
qed

lemma mem_get_put_same: "mem_get (mem_put f a xs) a (length xs) = xs"
  unfolding mem_get_def mem_put_def by (rule nth_equalityI) simp_all

text \<open>The accesses of a range are consecutive: the \<open>k\<close>-th starts where the first \<open>k\<close> end.\<close>

lemma split_loop_consecutive:
  "k < length (split_loop addr finish) \<Longrightarrow>
     fst (split_loop addr finish ! k) = addr + sum_list (map snd (take k (split_loop addr finish)))"
proof (induction addr finish arbitrary: k rule: split_loop.induct)
  case (1 addr finish)
  have lt: "addr < finish"
  proof (rule ccontr)
    assume "\<not> addr < finish"
    then have "split_loop addr finish = []" by (subst split_loop.simps) simp
    with "1.prems" show False by simp
  qed
  define following where "following = min (min finish ((addr div PAGE + 1) * PAGE)) (addr + MAX_ACCESS)"
  have unfold: "split_loop addr finish = (addr, following - addr) # split_loop following finish"
    using lt by (subst split_loop.simps) (simp add: Let_def following_def)
  show ?case
    using "1.IH" [OF lt following_def] "1.prems" chunk_next [OF lt following_def] unfolding unfold by (cases k) auto
qed

lemma split_total: "addr \<le> finish \<Longrightarrow> sum_list (map snd (split_loop addr finish)) = finish - addr"
proof -
  assume "addr \<le> finish"
  have "length (concat (map (\<lambda>(a, n). [a..<a + n]) (split_loop addr finish))) = finish - addr"
    using split_loop_covers [of addr finish] by simp
  then show ?thesis by (simp add: length_concat o_def case_prod_beta)
qed

definition frame_sum :: "KernelConfig \<Rightarrow> nat \<Rightarrow> nat" where
  "frame_sum cfg k = sum_list (map snd (take k (frame_chunks cfg)))"

lemma frame_sum_Suc: "k < length (frame_chunks cfg) \<Longrightarrow> frame_sum cfg (Suc k) = frame_sum cfg k + snd (frame_chunks cfg ! k)"
  by (simp add: frame_sum_def take_Suc_conv_app_nth)

lemma frame_sum_all: "frame_sum cfg (length (frame_chunks cfg)) = 152"
  using split_total [of "unat (kc_trap_frame cfg)" "unat (kc_trap_frame cfg) + 152"]
  by (simp add: frame_sum_def frame_chunks_Ok(2) split_range_def FRAME_BYTES_def)

lemma frame_chunk:
  assumes "k < length (frame_chunks cfg)"
  obtains l where "frame_chunks cfg ! k = (unat (kc_trap_frame cfg) + frame_sum cfg k, l)" "0 < l" "l \<le> 16"
    "frame_sum cfg k + l \<le> 152" "frame_sum cfg (Suc k) = frame_sum cfg k + l"
proof -
  let ?tf = "unat (kc_trap_frame cfg)"
  obtain a l where al: "frame_chunks cfg ! k = (a, l)" by fastforce
  have a: "a = ?tf + frame_sum cfg k"
    using split_loop_consecutive [of k ?tf "?tf + FRAME_BYTES"] assms al by (simp add: frame_sum_def frame_chunks_Ok(2) split_range_def)
  have "(a, l) \<in> set (split_loop ?tf (?tf + 152))"
    using nth_mem [OF assms] al by (simp add: frame_chunks_Ok(2) split_range_def FRAME_BYTES_def)
  with split_loop_covers [of ?tf "?tf + 152"] have "0 < l" "l \<le> 16" "a + l \<le> ?tf + 152" by blast+
  then show ?thesis using that [of l] al a frame_sum_Suc [OF assms] by simp
qed

lemma frame_chunks_nonempty: "0 < length (frame_chunks cfg)"
  using frame_sum_all [of cfg] by (auto simp: frame_sum_def)

lemma op_run_1:
  "op_access cfg p = Ok (Some acc) \<Longrightarrow> serve f acc = (f', c) \<Longrightarrow> op_complete cfg p c = Ok (Ok p') \<Longrightarrow>
     op_run 1 cfg p f = Some (p', f', [acc])"
  by simp

definition in_frame :: "KernelConfig \<Rightarrow> KAccess \<Rightarrow> bool" where
  "in_frame cfg a \<longleftrightarrow> win_contains (kc_frame cfg) (kaddr a) (klen a)"

lemma in_frame_contains:
  assumes "0 < klen a" "kaddr a = unat (kc_trap_frame cfg) + i" "i + klen a \<le> 152"
  shows "in_frame cfg a"
proof -
  have "unat (kc_trap_frame cfg) < 2 ^ 32" using unat_less_2p32 [of "kc_trap_frame cfg"] by simp
  then have "kaddr a + klen a \<le> 2 ^ 32 + 152" using assms by linarith
  then show ?thesis using assms by (simp add: in_frame_def win_contains_def kc_frame_def FRAME_BYTES_def u64_max_def)
qed

lemma script_reads:
  assumes "k \<le> length (frame_chunks cfg)"
  shows "\<exists>as. op_run k cfg \<lparr>op_kind = OpScript, op_step = 0, op_data = []\<rparr> f =
      Some (\<lparr>op_kind = OpScript, op_step = k, op_data = mem_get f (unat (kc_trap_frame cfg)) (frame_sum cfg k)\<rparr>, f, as)
    \<and> length as = k \<and> list_all (in_frame cfg) as"
  using assms
proof (induction k)
  case 0
  then show ?case by (simp add: frame_sum_def mem_get_def)
next
  case (Suc k)
  let ?tf = "unat (kc_trap_frame cfg)" and ?n = "length (frame_chunks cfg)" 
  let ?p = "\<lparr>op_kind = OpScript, op_step = k, op_data = mem_get f ?tf (frame_sum cfg k)\<rparr>"
  from Suc obtain as where as: "op_run k cfg \<lparr>op_kind = OpScript, op_step = 0, op_data = []\<rparr> f = Some (?p, f, as)"
    "length as = k" "list_all (in_frame cfg) as" by auto
  have k: "k < ?n" using Suc.prems by simp
  obtain l where ch: "frame_chunks cfg ! k = (?tf + frame_sum cfg k, l)" "0 < l" "l \<le> 16"
    "frame_sum cfg k + l \<le> 152" "frame_sum cfg (Suc k) = frame_sum cfg k + l" using frame_chunk [OF k] .
  let ?acc = "KRead (?tf + frame_sum cfg k) (of_nat l)"
  have len: "unat (of_nat l :: u32) = l" using ch(3) by (simp add: unat_of_nat)
  have acc: "op_access cfg ?p = Ok (Some ?acc)" using k by (simp add: op_access_def Let_def ch(1))
  have sum: "op_data_len cfg (?p\<lparr>op_step := Suc k, op_data := d\<rparr>) = frame_sum cfg (Suc k)" for d
    using Suc.prems frame_sum_all [of cfg] frame_chunks_nonempty [of cfg]
    by (cases "Suc k = ?n") (auto simp: op_data_len_def frame_sum_def [symmetric] FRAME_BYTES_def)
  have "op_complete cfg ?p (CompData (mem_get f (?tf + frame_sum cfg k) l)) = Ok (Ok (?p\<lparr>op_step := Suc k,
      op_data := mem_get f ?tf (frame_sum cfg (Suc k))\<rparr>))"
    using sum by (simp add: op_complete_def acc len op_advance_def Let_def mem_get_append ch(5))
  with acc have "op_run 1 cfg ?p f = Some (?p\<lparr>op_step := Suc k, op_data := mem_get f ?tf (frame_sum cfg (Suc k))\<rparr>, f, [?acc])"
    by (intro op_run_1) (simp_all add: len)
  from op_run_add [OF as(1) this] as(2,3) ch(2,4) show ?case
    by (simp add: in_frame_contains len)
qed

lemma mem_put_take:
  "i + l \<le> length xs \<Longrightarrow> mem_put (mem_put f a (take i xs)) (a + i) (take l (drop i xs)) = mem_put f a (take (i + l) xs)"
  using mem_put_append [of f a "take i xs" "take l (drop i xs)"] by (simp add: take_add min_absorb2)

lemma script_writes:
  assumes "k \<le> length (frame_chunks cfg)" and "length d = 152" and "advance_sepc d = Ok fr" "length fr = 152"
  shows "\<exists>as. op_run k cfg \<lparr>op_kind = OpScript, op_step = length (frame_chunks cfg), op_data = d\<rparr> f =
      Some (\<lparr>op_kind = OpScript, op_step = length (frame_chunks cfg) + k,
          op_data = (if k < length (frame_chunks cfg) then d else [])\<rparr>,
        mem_put f (unat (kc_trap_frame cfg)) (take (frame_sum cfg k) fr), as)
    \<and> length as = k \<and> list_all (in_frame cfg) as"
  using assms(1)
proof (induction k)
  case 0
  then show ?case using frame_chunks_nonempty by (simp add: frame_sum_def)
next
  case (Suc k)
  let ?tf = "unat (kc_trap_frame cfg)" and ?n = "length (frame_chunks cfg)"
  let ?p = "\<lparr>op_kind = OpScript, op_step = ?n + k, op_data = d\<rparr>" and ?f = "mem_put f ?tf (take (frame_sum cfg k) fr)"
  have k: "k < ?n" using Suc.prems by simp
  from Suc obtain as where as: "op_run k cfg \<lparr>op_kind = OpScript, op_step = ?n, op_data = d\<rparr> f = Some (?p, ?f, as)"
    "length as = k" "list_all (in_frame cfg) as" by auto
  obtain l where ch: "frame_chunks cfg ! k = (?tf + frame_sum cfg k, l)" "0 < l" "l \<le> 16"
    "frame_sum cfg k + l \<le> 152" "frame_sum cfg (Suc k) = frame_sum cfg k + l" using frame_chunk [OF k] .
  let ?acc = "KWrite (?tf + frame_sum cfg k) (take l (drop (frame_sum cfg k) fr))"
  have acc: "op_access cfg ?p = Ok (Some ?acc)"
    using k ch(4) assms(3,4) by (simp add: op_access_def Let_def ch(1) write_slice_def slice_get_def)
  let ?q = "\<lparr>op_kind = OpScript, op_step = ?n + Suc k, op_data = if Suc k < ?n then d else []\<rparr>"
  have "op_data_len cfg (?p\<lparr>op_step := ?n + Suc k\<rparr>) = (if Suc k < ?n then 152 else 0)"
    using k by (auto simp: op_data_len_def FRAME_BYTES_def)
  then have "op_complete cfg ?p CompWritten = Ok (Ok ?q)"
    using assms(2) by (auto simp: op_complete_def acc op_advance_def Let_def)
  moreover have "serve ?f ?acc = (mem_put f ?tf (take (frame_sum cfg (Suc k)) fr), CompWritten)"
    using mem_put_take [of "frame_sum cfg k" l fr] ch(4,5) assms(4) by simp
  ultimately have "op_run 1 cfg ?p ?f = Some (?q, mem_put f ?tf (take (frame_sum cfg (Suc k)) fr), [?acc])"
    using acc by (intro op_run_1)
  moreover have "in_frame cfg ?acc"
    by (rule in_frame_contains [of _ _ "frame_sum cfg k"]) (use ch(2,4) assms(4) in simp_all)
  ultimately show ?case using op_run_add [OF as(1)] as(2,3) by fastforce
qed

lemma mem_put_get_slice:
  assumes "i + length ys \<le> n"
  shows "mem_put f a (slice_put (mem_get f a n) i ys) = mem_put f (a + i) ys"
proof
  fix x
  have len: "length (slice_put (mem_get f a n) i ys) = n" using assms by simp
  show "mem_put f a (slice_put (mem_get f a n) i ys) x = mem_put f (a + i) ys x"
  proof (cases "a \<le> x \<and> x < a + n")
    case True
    then have "slice_put (mem_get f a n) i ys ! (x - a) =
        (if i \<le> x - a \<and> x - a < i + length ys then ys ! (x - a - i) else mem_get f a n ! (x - a))"
      using assms by (intro nth_slice_put) auto
    then show ?thesis using True len by (auto simp: mem_put_def mem_get_def algebra_simps)
  qed (use len assms in \<open>auto simp: mem_put_def\<close>)
qed

text \<open>
  C27. The scripted operation, whose accesses are served one by one by a memory, ends after exactly the number of
  accesses it announces: the saved \<^verbatim>\<open>sepc\<close> has advanced by four, every other byte of the trap frame is
  as before, the script byte was written to the UART, no working data is left, and every access but
  the last is inside the trap frame.
\<close>

theorem script_operation:
  fixes cfg f
  defines "tf \<equiv> unat (kc_trap_frame cfg)" and "p \<equiv> op_start cfg (kc_trap_frame cfg)"
  shows "\<exists>q as. op_run (op_steps cfg p) cfg p f =
      Some (q, mem_put (mem_put f (tf + 0x7C) (u32_to_le_bytes (u32_from_le_bytes (mem_get f (tf + 0x7C) 4) + 4)))
        (kc_uart_tx cfg) [SCRIPT_BYTE], as @ [KWrite (kc_uart_tx cfg) [SCRIPT_BYTE]])
    \<and> op_is_finished cfg q \<and> op_data q = [] \<and> list_all (in_frame cfg) as"
proof -
  let ?n = "length (frame_chunks cfg)" and ?d = "mem_get f tf 152"
  define fr where "fr = slice_put ?d 0x7C (u32_to_le_bytes (u32_from_le_bytes (mem_get f (tf + 0x7C) 4) + 4))"
  have start: "p = \<lparr>op_kind = OpScript, op_step = 0, op_data = []\<rparr>" by (simp add: p_def op_start_def)
  have four: "length (u32_to_le_bytes w) = 4" for w by (simp add: u32_to_le_bytes_def)
  have "take 4 (drop 0x7C ?d) = mem_get f (tf + 0x7C) 4"
    by (rule nth_equalityI) (simp_all add: mem_get_def add.assoc)
  then have adv: "advance_sepc ?d = Ok fr" by (simp add: advance_sepc_def slice_get_def FRAME_SEPC_def fr_def)
  have fr: "length fr = 152" by (simp add: fr_def four)
  obtain as where as: "op_run ?n cfg p f = Some (\<lparr>op_kind = OpScript, op_step = ?n, op_data = ?d\<rparr>, f, as)"
    "list_all (in_frame cfg) as"
    using script_reads [of ?n cfg f] by (auto simp: start frame_sum_all tf_def)
  obtain bs where bs: "op_run ?n cfg \<lparr>op_kind = OpScript, op_step = ?n, op_data = ?d\<rparr> f =
      Some (\<lparr>op_kind = OpScript, op_step = ?n + ?n, op_data = []\<rparr>, mem_put f tf fr, bs)" "list_all (in_frame cfg) bs"
    using script_writes [of ?n cfg ?d fr f] adv fr by (auto simp: frame_sum_all tf_def)
  let ?p = "\<lparr>op_kind = OpScript, op_step = ?n + ?n, op_data = []\<rparr>"
  have "op_run 1 cfg ?p g = Some (?p\<lparr>op_step := Suc (?n + ?n)\<rparr>, mem_put g (kc_uart_tx cfg) [SCRIPT_BYTE],
      [KWrite (kc_uart_tx cfg) [SCRIPT_BYTE]])" for g
    using frame_chunks_nonempty [of cfg]
    by (simp add: op_access_def op_complete_def Let_def op_advance_def op_data_len_def)
  from op_run_add [OF op_run_add [OF as(1) bs(1)] this] have
    "op_run (op_steps cfg p) cfg p f = Some (?p\<lparr>op_step := Suc (?n + ?n)\<rparr>, mem_put (mem_put f tf fr) (kc_uart_tx cfg) [SCRIPT_BYTE],
      (as @ bs) @ [KWrite (kc_uart_tx cfg) [SCRIPT_BYTE]])"
    by (simp add: op_steps_def start mult_2)
  moreover have "mem_put f tf fr = mem_put f (tf + 0x7C) (u32_to_le_bytes (u32_from_le_bytes (mem_get f (tf + 0x7C) 4) + 4))"
    unfolding fr_def by (rule mem_put_get_slice) (simp add: four)
  moreover have "op_is_finished cfg (?p\<lparr>op_step := Suc (?n + ?n)\<rparr>)" by (simp add: op_is_finished_def op_steps_def)
  ultimately show ?thesis using as(2) bs(2) by (intro exI [of _ "?p\<lparr>op_step := Suc (?n + ?n)\<rparr>"] exI [of _ "as @ bs"]) simp
qed

subsection \<open>A small configuration\<close>

definition tiny_config :: KernelConfig where
  "tiny_config = \<lparr>kc_clock = 0, kc_latency = LatAfter 1, kc_ram = \<lparr>win_base = 0x80000000, win_size = 0x1000000\<rparr>,
     kc_gate = \<lparr>win_base = 0x10002000, win_size = 4\<rparr>, kc_trap_frame = 0x80001000,
     kc_staging = \<lparr>win_base = 0x80100000, win_size = 0x100000\<rparr>, kc_frame_pool = \<lparr>win_base = 0x80400000, win_size = 0x400000\<rparr>,
     kc_blk = \<lparr>win_base = 0x10001000, win_size = 0x1C\<rparr>, kc_uart_tx = 0x10000000\<rparr>"

lemma tiny_config_valid: "config_validate tiny_config = Ok ()"
  by (simp add: config_validate_def tiny_config_def window_check_def in_ram_check_def kc_frame_def FRAME_BYTES_def
      u64_max_def win_contains_def win_overlaps_def sat_add_def enumerate_eq_zip Let_def)

theorem whitelist_safe_witness:
  "config_validate tiny_config = Ok () \<and> permits tiny_config 0x80400010 16 \<and> \<not> permits tiny_config 0x10002000 4
    \<and> win_bytes (kc_staging tiny_config) \<inter> win_bytes (kc_frame_pool tiny_config) = {}"
  using whitelist_safe [OF tiny_config_valid] tiny_config_valid
  by (auto simp: permits_def grants_def tiny_config_def win_contains_def win_overlaps_def sat_add_def u64_max_def kc_frame_def
      FRAME_BYTES_def)

end
