(* ===== verification/Os_Image.thy ===== *)
theory Os_Image
  imports Os_Config Os_Pte Elf_ExecTable
begin

section \<open>Boot images and their checks\<close>

text \<open>
  Models \<^verbatim>\<open>components/os/src/image.rs\<close>: the user layout, the plan of already staged images, the disk boot, the
  rules both are checked against, and their snapshot encodings. Level-1 indices are natural numbers
  below 1024. The main result connects the two crates: what \<^verbatim>\<open>parse_user_elf32\<close> accepts for the layout's
  image range passes the kernel's own check, and keeps every copy inside its page, which the check does not.
\<close>

definition MAX_PROCESSES :: usize where "MAX_PROCESSES = 8"
definition MEGAPAGE :: u64 where "MEGAPAGE = 4 * 2 ^ 20"
definition MMIO_MEGAPAGE :: u64 where "MMIO_MEGAPAGE = 0x10000000"
definition PHYS_LIMIT :: u64 where "PHYS_LIMIT = 2 ^ 34"
definition PLAN_MARKER :: u8 where "PLAN_MARKER = 0xA5"
definition DISK_MARKER :: u8 where "DISK_MARKER = 0xD5"
definition BLK_REGISTERS :: u64 where "BLK_REGISTERS = 0x1C"

record UserLayout =
  ul_user_base :: u32
  ul_stack_top :: u32
  ul_stack_pages :: u32

definition layout_M3 :: UserLayout where
  "layout_M3 = \<lparr>ul_user_base = 0x00010000, ul_stack_top = 0x7FFFF000, ul_stack_pages = 4\<rparr>"

definition stack_base :: "UserLayout \<Rightarrow> u32 option" where
  "stack_base l =
     (let sz = unat (ul_stack_pages l) * PAGE in
      if sz \<le> u32_max \<and> sz \<le> unat (ul_stack_top l) then Some (of_nat (unat (ul_stack_top l) - sz)) else None)"

definition image_range :: "UserLayout \<Rightarrow> u32 \<times> u32" where
  "image_range l = (ul_user_base l, case stack_base l of Some b \<Rightarrow> b | None \<Rightarrow> 0)"

definition stack_vas :: "UserLayout \<Rightarrow> u32 list" where
  "stack_vas l =
     (let base = (case stack_base l of Some b \<Rightarrow> b | None \<Rightarrow> 0)
      in map (\<lambda>i. base + of_nat (i * PAGE)) [0..<unat (ul_stack_pages l)])"

record BootImage =
  bi_staged :: u32
  bi_file_len :: u32
  bi_image :: UserImage

record ProcessPlan =
  pl_layout :: UserLayout
  pl_images :: "BootImage list"

datatype PlanError =
    PlanConfig KernelConfigError
  | PlanLayout string
  | PlanDisk string
  | ImageCount usize
  | PlanImage usize string

definition kernel_megapage :: "KernelConfig \<Rightarrow> u64" where
  "kernel_megapage cfg = win_base (kc_ram cfg)"

definition vpn1 :: "u64 \<Rightarrow> nat" where
  "vpn1 addr = addr div 2 ^ 22 mod 1024"

definition validate_layout :: "KernelConfig \<Rightarrow> UserLayout \<Rightarrow> (unit, PlanError) result" where
  "validate_layout cfg l =
     (case config_validate cfg of
        Err e \<Rightarrow> Err (PlanConfig e)
      | Ok _ \<Rightarrow>
          (let kernel = kernel_megapage cfg; mega = \<lparr>win_base = kernel, win_size = MEGAPAGE\<rparr>;
               fr = kc_frame cfg; pool = kc_frame_pool cfg
           in if \<not> MEGAPAGE dvd kernel \<or> kernel + MEGAPAGE > PHYS_LIMIT
                then Err (PlanLayout ''the RAM base is not a 4 MiB aligned Sv32 address'')
              else if \<not> win_contains mega (win_base fr) (win_size fr)
                then Err (PlanLayout ''the trap frame is outside the kernel megapage'')
              else if \<not> win_contains mega (win_base (kc_staging cfg)) (win_size (kc_staging cfg))
                then Err (PlanLayout ''staging is outside the kernel megapage'')
              else if \<not> PAGE dvd win_base pool \<or> \<not> PAGE dvd win_size pool
                then Err (PlanLayout ''the frame pool is not page-aligned'')
              else if win_base pool + win_size pool > PHYS_LIMIT \<or> win_size pool div PAGE > u32_max
                then Err (PlanLayout ''the frame pool is not reachable by Sv32'')
              else if win_overlaps mega (win_base pool) (win_size pool)
                then Err (PlanLayout ''the frame pool overlaps the kernel megapage'')
              else if \<not> PAGE dvd unat (ul_user_base l) \<or> \<not> PAGE dvd unat (ul_stack_top l)
                then Err (PlanLayout ''USER_BASE or STACK_TOP is not page-aligned'')
              else if ul_stack_pages l = 0 then Err (PlanLayout ''there is no stack page'')
              else (case stack_base l of
                  None \<Rightarrow> Err (PlanLayout ''the stack runs below address 0'')
                | Some base \<Rightarrow>
                    if ul_user_base l \<ge> base then Err (PlanLayout ''USER_BASE is not below the stack'')
                    else if list_ex (\<lambda>va. vpn1 (unat va) \<in> {vpn1 kernel, vpn1 MMIO_MEGAPAGE}) (stack_vas l)
                      then Err (PlanLayout ''a stack page is in a megapage slot'')
                    else Ok ())))"

text \<open>
  The check of a copy compares options: \<^verbatim>\<open>checked_add\<close> of the offset and the length in the page is \<^verbatim>\<open>None\<close> when it
  overflows, and \<^verbatim>\<open>None\<close> is below every \<^verbatim>\<open>Some\<close>, so a sum of \<open>2 ^ 32\<close> or more passes the rule of the page. The
  rule of the file asks for \<^verbatim>\<open>Some\<close>.
\<close>

definition checked_add_u32 :: "u32 \<Rightarrow> u32 \<Rightarrow> u32 option" where
  "checked_add_u32 a b = (if unat a + unat b \<le> u32_max then Some (a + b) else None)"

fun option_le :: "u32 option \<Rightarrow> u32 option \<Rightarrow> bool" where
  "option_le None _ = True"
| "option_le (Some _) None = False"
| "option_le (Some a) (Some b) = (a \<le> b)"

fun check_pages :: "u32 \<Rightarrow> u32 \<times> u32 \<Rightarrow> Perms \<Rightarrow> u32 option \<Rightarrow> PagePlan list \<Rightarrow> (u32 option, string) result" where
  "check_pages flen urange perms prev [] = Ok prev"
| "check_pages flen urange perms prev (p # ps) =
     (if \<not> PAGE dvd unat (pp_va p) \<or> pp_va p < fst urange \<or> pp_va p \<ge> snd urange \<or> pp_perms p \<noteq> perms
         \<or> (case prev of None \<Rightarrow> False | Some l \<Rightarrow> pp_va p \<le> l)
      then Err ''a page is misplaced, out of order, or shared''
      else
        (case pp_copy p of
           Some c \<Rightarrow>
             if \<not> (fc_len c \<noteq> 0 \<and> option_le (checked_add_u32 (fc_page_offset c) (fc_len c)) (Some (of_nat PAGE)))
                \<or> \<not> (case checked_add_u32 (fc_file_offset c) (fc_len c) of None \<Rightarrow> False | Some finish \<Rightarrow> finish \<le> flen)
             then Err ''a copy leaves its page or the file''
             else check_pages flen urange perms (Some (pp_va p)) ps
         | None \<Rightarrow> check_pages flen urange perms (Some (pp_va p)) ps))"

fun check_segments :: "u32 \<Rightarrow> u32 \<times> u32 \<Rightarrow> u32 option \<Rightarrow> UserSegment list \<Rightarrow> (u32 option, string) result" where
  "check_segments flen urange prev [] = Ok prev"
| "check_segments flen urange prev (s # ss) =
     (if \<not> valid_perms (us_perms s) \<or> us_pages s = [] then Err ''a segment has no pages or invalid permissions''
      else result_bind (check_pages flen urange (us_perms s) prev (us_pages s))
        (\<lambda>prev. check_segments flen urange prev ss))"

definition boot_check :: "KernelConfig \<Rightarrow> UserLayout \<Rightarrow> BootImage \<Rightarrow> (unit, string) result" where
  "boot_check cfg l b =
     (let urange = image_range l; entry = ui_entry (bi_image b) in
      if bi_file_len b = 0 then Err ''the file is empty''
      else if \<not> win_contains (kc_staging cfg) (unat (bi_staged b)) (unat (bi_file_len b))
        then Err ''the file is not inside staging''
      else if \<not> 4 dvd unat entry \<or> \<not> (fst urange \<le> entry \<and> entry < snd urange)
        then Err ''the entry is misaligned or outside the image range''
      else if ui_segments (bi_image b) = [] then Err ''there is no segment''
      else result_bind (check_segments (bi_file_len b) urange None (ui_segments (bi_image b))) (\<lambda>_. Ok ()))"

definition plan_image_check :: "KernelConfig \<Rightarrow> UserLayout \<Rightarrow> usize \<times> BootImage \<Rightarrow> PlanError option" where
  "plan_image_check cfg l ib =
     (case ib of (index, img) \<Rightarrow>
        (case boot_check cfg l img of Err rule \<Rightarrow> Some (PlanImage index rule) | Ok _ \<Rightarrow> None))"

definition plan_validate :: "KernelConfig \<Rightarrow> ProcessPlan \<Rightarrow> (unit, PlanError) result" where
  "plan_validate cfg plan =
     result_bind (validate_layout cfg (pl_layout plan)) (\<lambda>_.
       if pl_images plan = [] \<or> length (pl_images plan) > MAX_PROCESSES then Err (ImageCount (length (pl_images plan)))
       else try_for_each (plan_image_check cfg (pl_layout plan)) (enumerate 0 (pl_images plan)))"

definition w_layout :: "UserLayout \<Rightarrow> u8 list" where
  "w_layout l = w_u32 (ul_user_base l) @ w_u32 (ul_stack_top l) @ w_u32 (ul_stack_pages l)"

definition w_page_plan :: "PagePlan \<Rightarrow> u8 list" where
  "w_page_plan p = w_u32 (pp_va p) @ w_u8 (perm_bits (pp_perms p))
     @ (case pp_copy p of
          None \<Rightarrow> w_u8 0
        | Some c \<Rightarrow> w_u8 1 @ w_u32 (fc_file_offset c) @ w_u32 (fc_page_offset c) @ w_u32 (fc_len c))"

definition w_segment :: "UserSegment \<Rightarrow> u8 list" where
  "w_segment s = w_u16 (us_index s) @ w_u32 (us_vaddr s) @ w_u32 (us_memsz s) @ w_u8 (perm_bits (us_perms s))
     @ w_len (length (us_pages s)) @ concat (map w_page_plan (us_pages s))"

definition w_boot_image :: "BootImage \<Rightarrow> u8 list" where
  "w_boot_image b = w_u32 (bi_staged b) @ w_u32 (bi_file_len b) @ w_u32 (ui_entry (bi_image b))
     @ w_len (length (ui_segments (bi_image b))) @ concat (map w_segment (ui_segments (bi_image b)))"

definition plan_encode :: "ProcessPlan \<Rightarrow> u8 list" where
  "plan_encode plan = w_u8 PLAN_MARKER @ w_layout (pl_layout plan) @ w_len (length (pl_images plan))
     @ concat (map w_boot_image (pl_images plan))"

record DiskBoot =
  db_layout :: UserLayout
  db_capacity_blocks :: u32

definition disk_validate :: "KernelConfig \<Rightarrow> DiskBoot \<Rightarrow> (unit, PlanError) result" where
  "disk_validate cfg d =
     result_bind (validate_layout cfg (db_layout d)) (\<lambda>_.
       (let staging = kc_staging cfg in
        if db_capacity_blocks d = 0 then Err (PlanDisk ''the disk has no block'')
        else if \<not> 16 dvd win_base staging then Err (PlanDisk ''staging is not 16-byte aligned'')
        else if win_size staging < BLOCK_SIZE then Err (PlanDisk ''staging cannot hold block 0'')
        else if win_base staging + win_size staging > 2 ^ 32 then Err (PlanDisk ''staging is not below 4 GiB'')
        else if win_size (kc_blk cfg) < BLK_REGISTERS
          then Err (PlanDisk ''the block controller window does not hold its registers'')
        else Ok ()))"

definition disk_staging_size :: "KernelConfig \<Rightarrow> u32" where
  "disk_staging_size cfg = (if win_size (kc_staging cfg) \<le> u32_max then of_nat (win_size (kc_staging cfg)) else - 1)"

definition disk_encode :: "DiskBoot \<Rightarrow> u8 list" where
  "disk_encode d = w_u8 DISK_MARKER @ w_layout (db_layout d) @ w_u32 (db_capacity_blocks d)"

definition perm_str :: "Perms \<Rightarrow> string" where
  "perm_str p = map (\<lambda>(present, c). if present then c else CHR ''-'')
     [(perm_read p, CHR ''r''), (perm_write p, CHR ''w''), (perm_execute p, CHR ''x'')]"

subsection \<open>What the check of an image means\<close>

definition copy_ok :: "u32 \<Rightarrow> FileCopy \<Rightarrow> bool" where
  "copy_ok flen c \<longleftrightarrow> 0 < unat (fc_len c)
     \<and> (unat (fc_page_offset c) + unat (fc_len c) \<le> 4096 \<or> 2 ^ 32 \<le> unat (fc_page_offset c) + unat (fc_len c))
     \<and> unat (fc_file_offset c) + unat (fc_len c) \<le> unat flen"

text \<open>
  The rule the documentation of \<^verbatim>\<open>ProcessPlan::validate\<close> states, every copy inside its page. The check does not
  give it; the loader's images have it.
\<close>

definition copy_in_page :: "FileCopy \<Rightarrow> bool" where
  "copy_in_page c \<longleftrightarrow> unat (fc_page_offset c) + unat (fc_len c) \<le> 4096"

definition image_in_pages :: "UserImage \<Rightarrow> bool" where
  "image_in_pages img \<longleftrightarrow> list_all (\<lambda>s. list_all (\<lambda>p. pred_option copy_in_page (pp_copy p)) (us_pages s)) (ui_segments img)"

definition plan_in_pages :: "ProcessPlan \<Rightarrow> bool" where
  "plan_in_pages plan \<longleftrightarrow> list_all (\<lambda>b. image_in_pages (bi_image b)) (pl_images plan)"

definition page_ok :: "u32 \<Rightarrow> u32 \<times> u32 \<Rightarrow> Perms \<Rightarrow> PagePlan \<Rightarrow> bool" where
  "page_ok flen urange perms p \<longleftrightarrow> 4096 dvd unat (pp_va p) \<and> fst urange \<le> pp_va p \<and> pp_va p < snd urange
     \<and> pp_perms p = perms \<and> pred_option (copy_ok flen) (pp_copy p)"

definition segment_ok :: "u32 \<Rightarrow> u32 \<times> u32 \<Rightarrow> UserSegment \<Rightarrow> bool" where
  "segment_ok flen urange s \<longleftrightarrow> valid_perms (us_perms s) \<and> us_pages s \<noteq> []
     \<and> (\<forall>p\<in>set (us_pages s). page_ok flen urange (us_perms s) p)"

definition after :: "u32 option \<Rightarrow> u32 list \<Rightarrow> bool" where
  "after prev vas \<longleftrightarrow> (case prev of None \<Rightarrow> True | Some l \<Rightarrow> \<forall>v\<in>set vas. l < v)"

definition last_va :: "u32 option \<Rightarrow> u32 list \<Rightarrow> u32 option" where
  "last_va prev vas = (if vas = [] then prev else Some (List.last vas))"

lemma checked_add_u32_le:
  "option_le (checked_add_u32 a b) (Some c) \<longleftrightarrow> unat a + unat b \<le> unat c \<or> 2 ^ 32 \<le> unat a + unat b"
  "(case checked_add_u32 a b of None \<Rightarrow> False | Some s \<Rightarrow> s \<le> c) \<longleftrightarrow> unat a + unat b \<le> unat c"
proof -
  have "unat c < 4294967296" by (rule unat_less_2p32)
  then have c: "unat a + unat b \<le> 4294967295" if "unat a + unat b \<le> unat c" using that by linarith
  show "option_le (checked_add_u32 a b) (Some c) \<longleftrightarrow> unat a + unat b \<le> unat c \<or> 2 ^ 32 \<le> unat a + unat b"
    "(case checked_add_u32 a b of None \<Rightarrow> False | Some s \<Rightarrow> s \<le> c) \<longleftrightarrow> unat a + unat b \<le> unat c"
    using c by (auto simp: checked_add_u32_def u32_max_def word_le_nat_alt unat_add_exact)
qed

lemma check_pages_Cons:
  "check_pages flen urange perms prev (p # ps) = Ok r \<longleftrightarrow>
     page_ok flen urange perms p \<and> (case prev of None \<Rightarrow> True | Some l \<Rightarrow> l < pp_va p)
     \<and> check_pages flen urange perms (Some (pp_va p)) ps = Ok r"
  by (auto simp: page_ok_def copy_ok_def checked_add_u32_le PAGE_def unat_gt_0 not_less not_le split: option.splits)

lemma check_pages_Ok:
  "check_pages flen urange perms prev ps = Ok r \<longleftrightarrow>
     (\<forall>p\<in>set ps. page_ok flen urange perms p) \<and> sorted_wrt (<) (map pp_va ps)
     \<and> after prev (map pp_va ps) \<and> r = last_va prev (map pp_va ps)"
proof (induction ps arbitrary: prev)
  case (Cons p ps)
  then show ?case unfolding check_pages_Cons
    by (auto simp: after_def last_va_def split: option.splits)
qed (auto simp: after_def last_va_def split: option.splits)

lemma after_append: "after prev (xs @ ys) \<longleftrightarrow> after prev xs \<and> after prev ys"
  by (auto simp: after_def split: option.splits)

lemma after_last:
  assumes "sorted_wrt (<) xs" "xs \<noteq> []"
  shows "after (last_va prev xs) ys \<longleftrightarrow> (\<forall>x\<in>set xs. \<forall>y\<in>set ys. x < y)"
proof -
  have "x \<le> List.last xs" if "x \<in> set xs" for x
    using that assms by (induction xs) (auto simp: less_imp_le)
  with assms show ?thesis by (fastforce simp: after_def last_va_def)
qed

lemma ascending_append:
  assumes "xs \<noteq> []"
  shows "sorted_wrt (<) xs \<and> after prev xs \<and> sorted_wrt (<) ys \<and> after (last_va prev xs) ys \<and> r = last_va (last_va prev xs) ys \<longleftrightarrow>
    sorted_wrt (<) (xs @ ys) \<and> after prev (xs @ ys) \<and> r = last_va prev (xs @ ys)"
proof -
  have "after prev ys" if "after prev xs" "\<forall>x\<in>set xs. \<forall>y\<in>set ys. x < y"
    using that assms by (cases xs) (auto simp: after_def split: option.splits intro: less_trans)
  moreover have "last_va (last_va prev xs) ys = last_va prev (xs @ ys)" by (simp add: last_va_def)
  ultimately show ?thesis using after_last [OF _ assms, of prev ys]
    by (auto simp: sorted_wrt_append after_append)
qed

lemma check_segments_Ok:
  "check_segments flen urange prev ss = Ok r \<longleftrightarrow>
     (\<forall>s\<in>set ss. segment_ok flen urange s) \<and> sorted_wrt (<) (map pp_va (concat (map us_pages ss)))
     \<and> after prev (map pp_va (concat (map us_pages ss))) \<and> r = last_va prev (map pp_va (concat (map us_pages ss)))"
proof (induction ss arbitrary: prev)
  case (Cons s ss)
  let ?vs = "map pp_va (us_pages s)" and ?ws = "map pp_va (concat (map us_pages ss))"
  have "check_segments flen urange prev (s # ss) = Ok r \<longleftrightarrow> segment_ok flen urange s \<and> sorted_wrt (<) ?vs \<and> after prev ?vs
      \<and> (\<forall>s\<in>set ss. segment_ok flen urange s) \<and> sorted_wrt (<) ?ws \<and> after (last_va prev ?vs) ?ws \<and> r = last_va (last_va prev ?vs) ?ws"
    by (auto simp: Cons.IH check_pages_Ok segment_ok_def)
  also have "\<dots> \<longleftrightarrow> segment_ok flen urange s \<and> (\<forall>s\<in>set ss. segment_ok flen urange s) \<and> sorted_wrt (<) (?vs @ ?ws)
      \<and> after prev (?vs @ ?ws) \<and> r = last_va prev (?vs @ ?ws)"
    using ascending_append [of ?vs prev ?ws r] by (auto simp only: segment_ok_def map_is_Nil_conv)
  finally show ?case by simp
qed (auto simp: after_def last_va_def split: option.splits)

lemma boot_check_Ok:
  "boot_check cfg l b = Ok u \<longleftrightarrow> bi_file_len b \<noteq> 0
     \<and> win_contains (kc_staging cfg) (unat (bi_staged b)) (unat (bi_file_len b))
     \<and> 4 dvd unat (ui_entry (bi_image b)) \<and> fst (image_range l) \<le> ui_entry (bi_image b)
     \<and> ui_entry (bi_image b) < snd (image_range l) \<and> ui_segments (bi_image b) \<noteq> []
     \<and> (\<forall>s\<in>set (ui_segments (bi_image b)). segment_ok (bi_file_len b) (image_range l) s)
     \<and> sorted_wrt (<) (map pp_va (concat (map us_pages (ui_segments (bi_image b)))))"
  by (auto simp: boot_check_def Let_def check_segments_Ok after_def)

subsection \<open>The loader's images pass the kernel's check\<close>

lemma page_plan_copy_ok:
  assumes ok: "checked_ok flen urange c" and n: "n \<le> last_page c"
  shows "pred_option (copy_ok flen) (pp_copy (page_plan c n)) \<and> pred_option copy_in_page (pp_copy (page_plan c n))"
proof -
  define fs where "fs = unat (ck_vaddr c)"
  define lo hi where "lo = max fs (n * 4096)" and "hi = min (fs + unat (ck_filesz c)) (n * 4096 + 4096)"
  have copy: "pp_copy (page_plan c n) = (if lo < hi then Some \<lparr>fc_file_offset = narrow (unat (ck_offset c) + (lo - fs)),
      fc_page_offset = narrow (lo - n * 4096), fc_len = narrow (hi - lo)\<rparr> else None)"
    by (simp add: page_plan_def Let_def USER_PAGE_SIZE_def fs_def lo_def hi_def)
  have b: "fs \<le> lo" "n * 4096 \<le> lo" "hi \<le> n * 4096 + 4096" "hi \<le> fs + unat (ck_filesz c)"
    by (simp_all add: lo_def hi_def)
  have small: "fs + unat (ck_filesz c) < 4294967296" "unat (ck_offset c) + unat (ck_filesz c) < 4294967296"
    "unat (ck_offset c) + unat (ck_filesz c) \<le> unat flen"
    using checked_small [OF ok] ok by (simp_all add: checked_ok_def fs_def)
  have "copy_ok flen x \<and> copy_in_page x" if lt: "lo < hi" and x: "x = \<lparr>fc_file_offset = narrow (unat (ck_offset c) + (lo - fs)),
      fc_page_offset = narrow (lo - n * 4096), fc_len = narrow (hi - lo)\<rparr>" for x
  proof -
    have "unat (narrow (hi - lo)) = hi - lo" "unat (narrow (lo - n * 4096)) = lo - n * 4096"
      "unat (narrow (unat (ck_offset c) + (lo - fs))) = unat (ck_offset c) + (lo - fs)"
      using lt b small by (simp_all add: unat_narrow)
    then show ?thesis unfolding copy_ok_def copy_in_page_def x FileCopy.select_convs using lt b small by linarith
  qed
  then show ?thesis by (simp add: copy)
qed

lemma checked_segment_ok:
  assumes ok: "checked_ok flen urange c"
    and pages: "\<And>p. p \<in> set (Checked_pages c) \<Longrightarrow> unat (pp_va p) mod 4096 = 0 \<and> unat (fst urange) \<le> unat (pp_va p)
      \<and> unat (pp_va p) + 4096 \<le> unat (snd urange)"
  shows "segment_ok flen urange (user_segment c)" "\<forall>p\<in>set (Checked_pages c). pred_option copy_in_page (pp_copy p)"
proof -
  show "\<forall>p\<in>set (Checked_pages c). pred_option copy_in_page (pp_copy p)"
    using page_plan_copy_ok [OF ok] by (auto simp: Checked_pages_def)
  have "page_ok flen urange (ck_perms c) p" if p: "p \<in> set (Checked_pages c)" for p
  proof -
    from p obtain n where n: "p = page_plan c n" "n \<le> last_page c" by (auto simp: Checked_pages_def)
    then have "pp_perms p = ck_perms c" "pred_option (copy_ok flen) (pp_copy p)"
      using page_plan_copy_ok [OF ok n(2)] by (auto simp: page_plan_def Let_def)
    then show ?thesis using pages [OF p]
      by (simp add: page_ok_def word_le_nat_alt word_less_nat_alt dvd_eq_mod_eq_0)
  qed
  then show "segment_ok flen urange (user_segment c)" using ok checked_pages_nonempty [OF ok]
    by (auto simp: segment_ok_def user_segment_def valid_perms_def checked_ok_def)
qed

lemma parsed_image_in_pages:
  assumes "parse_user_elf32 prefix flen (image_range l) = Ok img"
  shows "\<forall>s\<in>set (ui_segments img). segment_ok flen (image_range l) s" and "image_in_pages img"
proof -
  from assms obtain cs where segs: "ui_segments img = map user_segment cs"
    and ok: "\<forall>c\<in>set cs. checked_ok flen (image_range l) c"
    and "sorted_wrt (\<lambda>p q. unat (pp_va p) < unat (pp_va q)) (concat (map Checked_pages cs))"
    and pages: "\<forall>c\<in>set cs. \<forall>p\<in>set (Checked_pages c). unat (pp_va p) mod 4096 = 0
      \<and> unat (fst (image_range l)) \<le> unat (pp_va p) \<and> unat (pp_va p) + 4096 \<le> unat (snd (image_range l))"
    and "unat (ui_entry img) mod 4 = 0" "\<exists>c\<in>set cs. runs_entry (ui_entry img) c"
    by (rule parse_user_segments)
  show "\<forall>s\<in>set (ui_segments img). segment_ok flen (image_range l) s"
    using ok pages by (auto simp: segs intro: checked_segment_ok(1))
  show "image_in_pages img"
    unfolding image_in_pages_def list_all_iff segs
  proof (intro ballI)
    fix s p assume "s \<in> set (map user_segment cs)" "p \<in> set (us_pages s)"
    then obtain c where c: "c \<in> set cs" "p \<in> set (Checked_pages c)" by (auto simp: user_segment_def)
    then show "pred_option copy_in_page (pp_copy p)"
      using checked_segment_ok(2) [of flen "image_range l" c] ok pages by blast
  qed
qed

lemma loader_accepts:
  assumes "parse_user_elf32 prefix flen (image_range l) = Ok img" and "flen \<noteq> 0"
    and "win_contains (kc_staging cfg) (unat staged) (unat flen)"
  shows "boot_check cfg l \<lparr>bi_staged = staged, bi_file_len = flen, bi_image = img\<rparr> = Ok () \<and> image_in_pages img"
proof -
  from assms(1) obtain cs where segs: "ui_segments img = map user_segment cs"
    and ok: "\<forall>c\<in>set cs. checked_ok flen (image_range l) c"
    and sorted: "sorted_wrt (\<lambda>p q. unat (pp_va p) < unat (pp_va q)) (concat (map Checked_pages cs))"
    and "\<forall>c\<in>set cs. \<forall>p\<in>set (Checked_pages c). unat (pp_va p) mod 4096 = 0
      \<and> unat (fst (image_range l)) \<le> unat (pp_va p) \<and> unat (pp_va p) + 4096 \<le> unat (snd (image_range l))"
    and entry: "unat (ui_entry img) mod 4 = 0" "\<exists>c\<in>set cs. runs_entry (ui_entry img) c"
    by (rule parse_user_segments)
  have "sorted_wrt (<) (map pp_va (concat (map us_pages (ui_segments img))))"
    using sorted by (simp add: segs user_segment_def o_def sorted_wrt_map word_less_nat_alt)
  moreover have "ui_segments img \<noteq> []" using entry(2) by (auto simp: segs)
  moreover have "fst (image_range l) \<le> ui_entry img" "ui_entry img < snd (image_range l)"
    using entry(2) ok by (auto simp: runs_entry_def checked_ok_def word_le_nat_alt word_less_nat_alt)
  ultimately show ?thesis
    using assms(2,3) entry parsed_image_in_pages [OF assms(1)] by (auto simp: boot_check_Ok dvd_eq_mod_eq_0)
qed

text \<open>
  C30. What the ELF loader accepts, the kernel accepts: a non-empty executable staged inside the staging
  area whose headers \<^verbatim>\<open>parse_user_elf32\<close> accepts for the layout's image range passes every rule of the
  kernel's own image check, and has every copy inside its page, which that check does not enforce.
\<close>

theorem loader_image_passes_check:
  assumes "parse_user_elf32 prefix flen (image_range l) = Ok img" and "flen \<noteq> 0"
    and "win_contains (kc_staging cfg) (unat staged) (unat flen)"
  shows "boot_check cfg l \<lparr>bi_staged = staged, bi_file_len = flen, bi_image = img\<rparr> = Ok () \<and> image_in_pages img"
  by (rule loader_accepts [OF assms])

definition tiny_layout :: UserLayout where
  "tiny_layout = \<lparr>ul_user_base = 0x10000, ul_stack_top = 0x21000, ul_stack_pages = 1\<rparr>"

lemma tiny_image_range: "image_range tiny_layout = (0x10000, 0x20000)"
  by (simp add: image_range_def tiny_layout_def stack_base_def PAGE_def u32_max_def)

lemma tiny_layout_valid: "validate_layout tiny_config tiny_layout = Ok ()"
  unfolding validate_layout_def tiny_config_valid
  by (simp add: tiny_config_def tiny_layout_def kernel_megapage_def MEGAPAGE_def PHYS_LIMIT_def win_contains_def win_overlaps_def
      sat_add_def u64_max_def u32_max_def kc_frame_def FRAME_BYTES_def PAGE_def stack_base_def stack_vas_def vpn1_def MMIO_MEGAPAGE_def
      upt_conv_Cons Let_def)

definition tiny_plan :: ProcessPlan where
  "tiny_plan = \<lparr>pl_layout = tiny_layout, pl_images =
     [\<lparr>bi_staged = 0x80100000, bi_file_len = 88, bi_image = \<lparr>ui_entry = 0x10000, ui_segments = [tiny_segment]\<rparr>\<rparr>]\<rparr>"

lemma tiny_boot_accepted:
  "boot_check tiny_config tiny_layout
     \<lparr>bi_staged = 0x80100000, bi_file_len = 88, bi_image = \<lparr>ui_entry = 0x10000, ui_segments = [tiny_segment]\<rparr>\<rparr> = Ok ()
   \<and> image_in_pages \<lparr>ui_entry = 0x10000, ui_segments = [tiny_segment]\<rparr>"
  by (rule loader_accepts [of tiny_user])
    (simp_all add: tiny_image_range tiny_user_parses tiny_config_def win_contains_def u64_max_def)

lemma tiny_plan_ok: "plan_validate tiny_config tiny_plan = Ok ()" "plan_in_pages tiny_plan"
  using tiny_boot_accepted tiny_layout_valid
  by (simp_all add: plan_validate_def plan_in_pages_def tiny_plan_def MAX_PROCESSES_def plan_image_check_def)

theorem loader_image_passes_check_witness:
  "boot_check tiny_config tiny_layout
     \<lparr>bi_staged = 0x80100000, bi_file_len = 88, bi_image = \<lparr>ui_entry = 0x10000, ui_segments = [tiny_segment]\<rparr>\<rparr> = Ok ()
   \<and> image_in_pages \<lparr>ui_entry = 0x10000, ui_segments = [tiny_segment]\<rparr>"
  by (rule loader_image_passes_check [of tiny_user])
    (simp_all add: tiny_image_range tiny_user_parses tiny_config_def win_contains_def u64_max_def)

end
