(* ===== verification/Os_Space.thy ===== *)
theory Os_Space
  imports Os_Image "HOL-Library.Multiset"
begin

section \<open>The address-space builder\<close>

text \<open>
  Models \<^verbatim>\<open>components/os/src/space.rs\<close>: which frames a new process needs, what goes in each, and the
  kernel accesses that put it there. The closure \<^verbatim>\<open>take\<close> of \<^verbatim>\<open>Space::build\<close> draws from the reserved frames;
  running out is the panic of its \<^verbatim>\<open>expect\<close>. The lemmas show that the builder uses exactly the frames
  it asked for, each once, and that a copy the image check lets through by an overflow leaves its frame.
\<close>

definition STACK_PERMS :: Perms where
  "STACK_PERMS = \<lparr>perm_read = True, perm_write = True, perm_execute = False\<rparr>"

record OsRegion =
  or_va :: u32
  or_perms :: Perms
  or_frames :: "u32 list"

record Page =
  pg_va :: u32
  pg_perms :: Perms
  pg_copy :: "(u32 \<times> u32 \<times> u32) option"

definition segment_page :: "PagePlan \<Rightarrow> Page" where
  "segment_page p = \<lparr>pg_va = pp_va p, pg_perms = pp_perms p,
     pg_copy = map_option (\<lambda>c. (fc_file_offset c, fc_page_offset c, fc_len c)) (pp_copy p)\<rparr>"

definition pages :: "UserImage \<Rightarrow> UserLayout \<Rightarrow> Page list" where
  "pages img layout =
     concat (map (\<lambda>s. map segment_page (us_pages s)) (ui_segments img))
     @ map (\<lambda>va. \<lparr>pg_va = va, pg_perms = STACK_PERMS, pg_copy = None\<rparr>) (stack_vas layout)"

definition frames_needed :: "UserImage \<Rightarrow> UserLayout \<Rightarrow> usize" where
  "frames_needed img layout =
     (let ps = pages img layout; slots = remdups_adj (sort (map (\<lambda>p. vpn1 (unat (pg_va p))) ps))
      in 1 + length slots + length ps)"

definition megapage_conflict :: "UserImage \<Rightarrow> KernelConfig \<Rightarrow> bool" where
  "megapage_conflict img cfg =
     (let slots = [vpn1 (kernel_megapage cfg), vpn1 MMIO_MEGAPAGE] in
      list_ex (\<lambda>p. vpn1 (unat (pp_va p)) \<in> set slots) (concat (map us_pages (ui_segments img))))"

fun region_pages :: "u32 \<times> u32 \<Rightarrow> OsRegion \<Rightarrow> u32 option \<Rightarrow> nat list \<Rightarrow> (PagePlan list \<times> u32 option) option" where
  "region_pages urange r prev [] = Some ([], prev)"
| "region_pages urange r prev (k # ks) =
     (if \<not> unat (or_va r) + k * PAGE \<le> u32_max then None
      else
        (let va = of_nat (unat (or_va r) + k * PAGE) :: u32 in
         if \<not> PAGE dvd unat va \<or> \<not> (fst urange \<le> va \<and> va < snd urange)
            \<or> (case prev of None \<Rightarrow> False | Some l \<Rightarrow> va \<le> l)
         then None
         else
           (case region_pages urange r (Some va) ks of
              None \<Rightarrow> None
            | Some (ps, prev) \<Rightarrow> Some (\<lparr>pp_va = va, pp_perms = or_perms r, pp_copy = None\<rparr> # ps, prev))))"

fun region_segments :: "u32 \<times> u32 \<Rightarrow> nat \<Rightarrow> u32 option \<Rightarrow> OsRegion list \<Rightarrow> UserSegment list option" where
  "region_segments urange i prev [] = Some []"
| "region_segments urange i prev (r # rs) =
     (if or_frames r = [] \<or> \<not> valid_perms (or_perms r) then None
      else
        (case region_pages urange r prev [0..<length (or_frames r)] of
           None \<Rightarrow> None
         | Some (ps, prev) \<Rightarrow>
             if i > 65535 \<or> length ps * PAGE > u32_max then None
             else map_option (Cons \<lparr>us_index = of_nat i, us_vaddr = or_va r, us_memsz = of_nat (length ps * PAGE),
                    us_perms = or_perms r, us_pages = ps\<rparr>)
                  (region_segments urange (i + 1) prev rs)))"

definition region_image :: "OsRegion list \<Rightarrow> UserLayout \<Rightarrow> UserImage option" where
  "region_image regions layout =
     (if regions = [] then None
      else
        (case butlast regions of
           [] \<Rightarrow> None
         | first # rest \<Rightarrow>
             map_option (\<lambda>out. \<lparr>ui_entry = or_va first, ui_segments = out\<rparr>)
               (region_segments (image_range layout) 0 None (first # rest))))"

subsection \<open>Building\<close>

record Space =
  spc_root :: u32
  spc_tables :: "u32 list"
  spc_regions :: "OsRegion list"
  spc_frames :: "u32 list"
  spc_slots :: "(nat \<times> u32) list"
  spc_copies :: "(u64 \<times> u64 \<times> u32) list"
  spc_ptes :: "(u64 \<times> u32) list"

function split_copy :: "u64 \<Rightarrow> u64 \<Rightarrow> u64 \<Rightarrow> (u64 \<times> u64 \<times> u32) list" where
  "split_copy src dst finish =
     (if src < finish then
        (let n = min (min (min (finish - src) MAX_ACCESS) (PAGE - src mod PAGE)) (PAGE - dst mod PAGE)
         in (src, dst, of_nat n) # split_copy (src + n) (dst + n) finish)
      else [])"
  by pat_completeness simp

termination
proof (relation "measure (\<lambda>(src, dst, finish). finish - src)", goal_cases)
  case (2 src dst finish n)
  have "src mod PAGE < PAGE" "dst mod PAGE < PAGE" by (simp_all add: PAGE_def)
  with 2 have "0 < n" by (simp add: MAX_ACCESS_def)
  then show ?case using 2(1) by (simp add: diff_less_mono2)
qed simp

declare split_copy.simps [simp del]

text \<open>The locals of \<^verbatim>\<open>Space::build\<close>; \<open>bs_next\<close> is what the iterator still holds.\<close>

record Build =
  bs_next :: "u32 list"
  bs_tables :: "u32 list"
  bs_slots :: "(nat \<times> u32) list"
  bs_order :: "u32 list"
  bs_leaves :: "(u64 \<times> u32) list"
  bs_copies :: "(u64 \<times> u64 \<times> u32) list"
  bs_placed :: "(u32 \<times> Perms \<times> u32) list"

definition take_frame :: "Build \<Rightarrow> (u32 \<times> Build, Abort) result" where
  "take_frame b = (case bs_next b of [] \<Rightarrow> Err Panic | f # fs \<Rightarrow> Ok (f, b\<lparr>bs_next := fs\<rparr>))"

definition build_table :: "nat \<Rightarrow> Build \<Rightarrow> (u32 \<times> Build, Abort) result" where
  "build_table sl b =
     (case find (\<lambda>s. fst s = sl) (bs_slots b) of
        Some (_, t) \<Rightarrow> Ok (t, b)
      | None \<Rightarrow>
          result_bind (take_frame b) (\<lambda>(t, b).
            Ok (t, b\<lparr>bs_slots := bs_slots b @ [(sl, t)], bs_tables := bs_tables b @ [t], bs_order := bs_order b @ [t]\<rparr>)))"

definition build_page :: "u32 \<Rightarrow> Page \<Rightarrow> Build \<Rightarrow> (Build, Abort) result" where
  "build_page staged p b =
     result_bind (build_table (vpn1 (unat (pg_va p))) b) (\<lambda>(table, b).
     result_bind (take_frame b) (\<lambda>(frame, b).
       let v0 = unat (drop_bit 12 (pg_va p) AND 0x3FF);
           copies = (case pg_copy p of
               None \<Rightarrow> []
             | Some (file_offset, page_offset, len) \<Rightarrow>
                 (let src = unat staged + unat file_offset; dst = unat frame * PAGE + unat page_offset
                  in split_copy src dst (src + unat len)))
       in Ok (b\<lparr>bs_order := bs_order b @ [frame],
            bs_leaves := bs_leaves b @ [(unat table * PAGE + 4 * v0, user_leaf frame (pg_perms p))],
            bs_copies := bs_copies b @ copies, bs_placed := bs_placed b @ [(pg_va p, pg_perms p, frame)]\<rparr>)))"

fun build_pages :: "u32 \<Rightarrow> Page list \<Rightarrow> Build \<Rightarrow> (Build, Abort) result" where
  "build_pages staged [] b = Ok b"
| "build_pages staged (p # ps) b = result_bind (build_page staged p b) (build_pages staged ps)"

fun segment_regions :: "UserSegment list \<Rightarrow> (u32 \<times> Perms \<times> u32) list \<Rightarrow> (OsRegion list \<times> (u32 \<times> Perms \<times> u32) list, Abort) result" where
  "segment_regions [] at = Ok ([], at)"
| "segment_regions (s # ss) at =
     (case us_pages s of
        [] \<Rightarrow> Err Panic
      | p # _ \<Rightarrow>
          (let n = length (us_pages s);
               r = \<lparr>or_va = pp_va p, or_perms = us_perms s, or_frames = map (snd \<circ> snd) (take n at)\<rparr>
           in result_bind (segment_regions ss (drop n at)) (\<lambda>(rs, at). Ok (r # rs, at))))"

definition space_regions :: "UserImage \<Rightarrow> UserLayout \<Rightarrow> (u32 \<times> Perms \<times> u32) list \<Rightarrow> (OsRegion list, Abort) result" where
  "space_regions img layout placed =
     result_bind (segment_regions (ui_segments img) placed) (\<lambda>(out, at).
       (case stack_base layout of
          None \<Rightarrow> Err Panic
        | Some base \<Rightarrow> Ok (out @ [\<lparr>or_va = base, or_perms = STACK_PERMS, or_frames = map (snd \<circ> snd) at\<rparr>])))"

definition level1_entries :: "KernelConfig \<Rightarrow> (nat \<times> u32) list \<Rightarrow> (nat \<times> u32) list" where
  "level1_entries cfg slots =
     (let kernel = kernel_megapage cfg in
      sort_key fst (map (\<lambda>(slot, t). (slot, pte_to_table t)) slots
        @ [(vpn1 kernel, kernel_megapage_pte (of_nat (kernel div PAGE))),
           (vpn1 MMIO_MEGAPAGE, mmio_megapage_pte (of_nat (MMIO_MEGAPAGE div PAGE)))]))"

definition Space_build :: "KernelConfig \<Rightarrow> UserLayout \<Rightarrow> BootImage \<Rightarrow> u32 list \<Rightarrow> (Space, Abort) result" where
  "Space_build cfg layout boot frames =
     (case frames of
        [] \<Rightarrow> Err Panic
      | root # rest \<Rightarrow>
          result_bind (build_pages (bi_staged boot) (pages (bi_image boot) layout)
            \<lparr>bs_next = rest, bs_tables = [root], bs_slots = [], bs_order = [root], bs_leaves = [], bs_copies = [], bs_placed = []\<rparr>)
          (\<lambda>b. result_bind (space_regions (bi_image boot) layout (bs_placed b)) (\<lambda>regions.
            Ok \<lparr>spc_root = root, spc_tables = bs_tables b, spc_regions = regions, spc_frames = bs_order b,
                spc_slots = bs_slots b, spc_copies = bs_copies b,
                spc_ptes = bs_leaves b @ map (\<lambda>(slot, v). (unat root * PAGE + 4 * slot, v)) (level1_entries cfg (bs_slots b))\<rparr>)))"

definition table_for :: "Space \<Rightarrow> u32 \<Rightarrow> u32 option" where
  "table_for s va = map_option snd (find (\<lambda>e. fst e = vpn1 (unat va)) (spc_slots s))"

subsection \<open>The accesses of a creation\<close>

definition zero_steps :: "Space \<Rightarrow> usize" where
  "zero_steps s = length (spc_frames s) * (PAGE div MAX_ACCESS)"

definition space_steps :: "Space \<Rightarrow> (u32, Abort) result" where
  "space_steps s =
     (let n = zero_steps s + 2 * length (spc_copies s) + length (spc_ptes s)
      in if n \<le> u32_max then Ok (of_nat n) else Err Panic)"

definition wrapping_sub_usize :: "usize \<Rightarrow> usize \<Rightarrow> usize" where
  "wrapping_sub_usize a b = (a + 2 ^ 64 - b mod 2 ^ 64) mod 2 ^ 64"

definition space_data_len :: "Space \<Rightarrow> u32 \<Rightarrow> usize" where
  "space_data_len s step =
     (let k = wrapping_sub_usize (unat step) (zero_steps s) in
      if k div 2 < length (spc_copies s) \<and> k mod 2 = 1 then unat (snd (snd (spc_copies s ! (k div 2)))) else 0)"

definition space_access :: "Space \<Rightarrow> u32 \<Rightarrow> u8 list \<Rightarrow> KAccess option" where
  "space_access s step data =
     (let step = unat step; per_frame = PAGE div MAX_ACCESS; zero = zero_steps s in
      if step < zero then
        (let frame = unat (spc_frames s ! (step div per_frame)); addr = frame * PAGE + step mod per_frame * MAX_ACCESS
         in Some (KWrite addr (replicate MAX_ACCESS 0)))
      else
        (let k = step - zero in
         if k div 2 < length (spc_copies s) then
           (case spc_copies s ! (k div 2) of (src, dst, len) \<Rightarrow>
              Some (if k mod 2 = 0 then KRead src len else KWrite dst data))
         else if k - 2 * length (spc_copies s) < length (spc_ptes s) then
           (case spc_ptes s ! (k - 2 * length (spc_copies s)) of (addr, v) \<Rightarrow> Some (KWrite addr (u32_to_le_bytes v)))
         else None))"

subsection \<open>The builder uses the frames it asked for\<close>

abbreviation page_slot :: "Page \<Rightarrow> nat" where
  "page_slot p \<equiv> vpn1 (unat (pg_va p))"

definition va_index :: "Page \<Rightarrow> nat" where
  "va_index p = unat (drop_bit 12 (pg_va p) AND 0x3FF)"

definition page_copies :: "u32 \<Rightarrow> Page \<times> u32 \<Rightarrow> (u64 \<times> u64 \<times> u32) list" where
  "page_copies staged pf =
     (case pg_copy (fst pf) of
        None \<Rightarrow> []
      | Some (fo, po, len) \<Rightarrow>
          split_copy (unat staged + unat fo) (unat (snd pf) * 4096 + unat po) (unat staged + unat fo + unat len))"

definition slot_table :: "(nat \<times> u32) list \<Rightarrow> nat \<Rightarrow> u32" where
  "slot_table slots sl = the (map_of slots sl)"

definition leaf_pte :: "(nat \<times> u32) list \<Rightarrow> Page \<times> u32 \<Rightarrow> u64 \<times> u32" where
  "leaf_pte slots pf =
     (unat (slot_table slots (page_slot (fst pf))) * 4096 + 4 * va_index (fst pf), user_leaf (snd pf) (pg_perms (fst pf)))"

text \<open>What the pages \<open>ps\<close>, put in frames \<open>fs\<close>, add to the builder's locals.\<close>

definition built :: "u32 \<Rightarrow> Page list \<Rightarrow> u32 list \<Rightarrow> Build \<Rightarrow> Build \<Rightarrow> bool" where
  "built staged ps fs b b' \<longleftrightarrow> length fs = length ps
     \<and> (\<exists>new. bs_slots b' = bs_slots b @ new \<and> bs_tables b' = bs_tables b @ map snd new
          \<and> mset (bs_order b') = mset (bs_order b) + mset (map snd new) + mset fs)
     \<and> bs_order b' @ bs_next b' = bs_order b @ bs_next b
     \<and> fst ` set (bs_slots b') = fst ` set (bs_slots b) \<union> page_slot ` set ps
     \<and> (distinct (map fst (bs_slots b)) \<longrightarrow> distinct (map fst (bs_slots b')))
     \<and> bs_leaves b' = bs_leaves b @ map (leaf_pte (bs_slots b')) (zip ps fs)
     \<and> bs_copies b' = bs_copies b @ concat (map (page_copies staged) (zip ps fs))
     \<and> bs_placed b' = bs_placed b @ map (\<lambda>(p, f). (pg_va p, pg_perms p, f)) (zip ps fs)"

definition slots_left :: "Build \<Rightarrow> Page list \<Rightarrow> nat" where
  "slots_left b ps = card (page_slot ` set ps - fst ` set (bs_slots b))"

lemma find_slot: "find (\<lambda>s. fst s = k) xs = map_option (Pair k) (map_of xs k)"
  by (induction xs) auto

lemma build_table_Ok:
  assumes "slots_left b (p # ps) \<le> length (bs_next b)"
  obtains t b' new where "build_table (page_slot p) b = Ok (t, b')" "bs_slots b' = bs_slots b @ new"
    "bs_tables b' = bs_tables b @ map snd new" "bs_order b' = bs_order b @ map snd new" "bs_next b = map snd new @ bs_next b'"
    "slots_left b (p # ps) = length new + slots_left b' ps" "map_of (bs_slots b') (page_slot p) = Some t"
    "fst ` set (bs_slots b') = insert (page_slot p) (fst ` set (bs_slots b))"
    "distinct (map fst (bs_slots b)) \<longrightarrow> distinct (map fst (bs_slots b'))"
    "bs_leaves b' = bs_leaves b" "bs_copies b' = bs_copies b" "bs_placed b' = bs_placed b"
proof (cases "map_of (bs_slots b) (page_slot p)")
  case None
  then have fresh: "page_slot p \<notin> fst ` set (bs_slots b)" by (simp add: map_of_eq_None_iff)
  let ?A = "page_slot ` set ps - insert (page_slot p) (fst ` set (bs_slots b))"
  have "page_slot ` set (p # ps) - fst ` set (bs_slots b) = insert (page_slot p) ?A" using fresh by auto
  then have left: "card (insert (page_slot p) (page_slot ` set ps) - fst ` set (bs_slots b)) = Suc (card ?A)" by simp
  with assms obtain f fs where fs: "bs_next b = f # fs" by (cases "bs_next b") (auto simp: slots_left_def)
  show thesis
    by (rule that [of f "b\<lparr>bs_next := fs, bs_slots := bs_slots b @ [(page_slot p, f)], bs_tables := bs_tables b @ [f],
        bs_order := bs_order b @ [f]\<rparr>" "[(page_slot p, f)]"])
      (use fresh None in \<open>auto simp: build_table_def find_slot take_frame_def fs left slots_left_def map_add_def\<close>)
next
  case (Some t)
  then have old: "page_slot p \<in> fst ` set (bs_slots b)" using weak_map_of_SomeI map_of_SomeD by force
  then have "slots_left b (p # ps) = slots_left b ps" by (simp add: slots_left_def insert_absorb)
  then show thesis
    by (intro that [of t b "[]"]) (use Some old in \<open>auto simp: build_table_def find_slot\<close>)
qed

lemma slot_table_mono:
  "distinct (map fst (xs @ ys)) \<Longrightarrow> k \<in> fst ` set xs \<Longrightarrow> slot_table (xs @ ys) k = slot_table xs k"
  by (auto simp: slot_table_def map_add_def map_of_eq_None_iff split: option.split)

lemma build_pages_Ok:
  assumes "slots_left b ps + length ps \<le> length (bs_next b)" "distinct (map fst (bs_slots b))"
  shows "\<exists>b' fs. build_pages staged ps b = Ok b' \<and> built staged ps fs b b'
    \<and> length (bs_next b) = slots_left b ps + length ps + length (bs_next b')"
  using assms
proof (induction ps arbitrary: b)
  case Nil
  then show ?case by (auto simp: built_def slots_left_def)
next
  case (Cons p ps)
  from Cons.prems have "slots_left b (p # ps) \<le> length (bs_next b)" by simp
  then obtain t b1 new where b1: "build_table (page_slot p) b = Ok (t, b1)" "bs_slots b1 = bs_slots b @ new"
    "bs_tables b1 = bs_tables b @ map snd new" "bs_order b1 = bs_order b @ map snd new" "bs_next b = map snd new @ bs_next b1"
    "slots_left b (p # ps) = length new + slots_left b1 ps" "map_of (bs_slots b1) (page_slot p) = Some t"
    "fst ` set (bs_slots b1) = insert (page_slot p) (fst ` set (bs_slots b))"
    "distinct (map fst (bs_slots b)) \<longrightarrow> distinct (map fst (bs_slots b1))"
    "bs_leaves b1 = bs_leaves b" "bs_copies b1 = bs_copies b" "bs_placed b1 = bs_placed b"
    by (rule build_table_Ok)
  from Cons.prems b1(5,6) have room: "slots_left b1 ps + Suc (length ps) \<le> length (bs_next b1)" by simp
  then obtain f rest where f: "bs_next b1 = f # rest" by (cases "bs_next b1") auto
  define b2 where "b2 = b1\<lparr>bs_next := rest, bs_order := bs_order b1 @ [f],
    bs_leaves := bs_leaves b1 @ [(unat t * 4096 + 4 * va_index p, user_leaf f (pg_perms p))],
    bs_copies := bs_copies b1 @ page_copies staged (p, f), bs_placed := bs_placed b1 @ [(pg_va p, pg_perms p, f)]\<rparr>"
  have page: "build_page staged p b = Ok b2"
    by (cases "pg_copy p")
      (auto simp: build_page_def b1(1) take_frame_def f b2_def page_copies_def va_index_def PAGE_def Let_def)
  have "slots_left b2 ps = slots_left b1 ps" "bs_slots b2 = bs_slots b1" by (simp_all add: slots_left_def b2_def)
  moreover have dist: "distinct (map fst (bs_slots b1))" using b1(9) Cons.prems(2) by simp
  ultimately obtain b3 fs where b3: "build_pages staged ps b2 = Ok b3" "built staged ps fs b2 b3"
    "length (bs_next b2) = slots_left b1 ps + length ps + length (bs_next b3)"
    using Cons.IH [of b2] room f by (auto simp: b2_def)
  from b3(2) obtain new' where new': "bs_slots b3 = bs_slots b1 @ new'" "bs_tables b3 = bs_tables b1 @ map snd new'"
    "mset (bs_order b3) = mset (bs_order b2) + mset (map snd new') + mset fs" by (auto simp: built_def b2_def)
  have dist3: "distinct (map fst (bs_slots b3))" using b3(2) dist by (simp add: built_def b2_def)
  have "slot_table (bs_slots b3) (page_slot p) = t"
    using slot_table_mono [of "bs_slots b1" new' "page_slot p"] dist3 b1(7,8) by (simp add: new'(1) slot_table_def)
  then have leaf: "leaf_pte (bs_slots b3) (p, f) = (unat t * 4096 + 4 * va_index p, user_leaf f (pg_perms p))"
    by (simp add: leaf_pte_def)
  have "built staged (p # ps) (f # fs) b b3"
    unfolding built_def
  proof (intro conjI)
    show "\<exists>n. bs_slots b3 = bs_slots b @ n \<and> bs_tables b3 = bs_tables b @ map snd n
        \<and> mset (bs_order b3) = mset (bs_order b) + mset (map snd n) + mset (f # fs)"
      by (rule exI [of _ "new @ new'"]) (simp add: new' b1(2-4) b2_def)
    show "bs_leaves b3 = bs_leaves b @ map (leaf_pte (bs_slots b3)) (zip (p # ps) (f # fs))"
      using b3(2) by (simp add: built_def leaf b2_def b1)
  qed (use b3(2) b1 f dist3 in \<open>auto simp: built_def b2_def\<close>)
  then show ?case using b3 room f Cons.prems b1(5,6) by (auto simp: page b2_def)
qed

lemma length_remdups_adj_sort: "length (remdups_adj (sort xs)) = card (set xs)" for xs :: "nat list"
proof -
  have "distinct (remdups_adj ys)" if "sorted ys" for ys :: "nat list"
    using that by (induction ys rule: remdups_adj.induct) (auto simp: less_le)
  from distinct_card [OF this [OF sorted_sort]] show ?thesis by simp
qed

lemma segment_regions_Ok:
  assumes "\<forall>s\<in>set ss. us_pages s \<noteq> []"
  shows "\<exists>rs. segment_regions ss at = Ok (rs, drop (length (concat (map us_pages ss))) at) \<and> length rs = length ss
    \<and> concat (map or_frames rs) = map (snd \<circ> snd) (take (length (concat (map us_pages ss))) at)"
  using assms
proof (induction ss arbitrary: at)
  case (Cons s ss)
  then obtain p ps where p: "us_pages s = p # ps" by (cases "us_pages s") auto
  let ?n = "length (us_pages s)" and ?m = "length (concat (map us_pages ss))"
  obtain rs where rs: "segment_regions ss (drop ?n at) = Ok (rs, drop ?m (drop ?n at))" "length rs = length ss"
    "concat (map or_frames rs) = map (snd \<circ> snd) (take ?m (drop ?n at))"
    using Cons by (metis list.set_intros(2))
  then show ?case
    unfolding segment_regions.simps p list.case Let_def
    by (simp add: p [symmetric] add.commute take_add)
qed simp

text \<open>The address space of \<open>boot\<close> in \<open>frames\<close>, with page \<open>i\<close> of the image and the stack in the \<open>i\<close>-th frame of \<open>fs\<close>.\<close>

definition space_of :: "KernelConfig \<Rightarrow> UserLayout \<Rightarrow> BootImage \<Rightarrow> u32 list \<Rightarrow> u32 list \<Rightarrow> Space \<Rightarrow> bool" where
  "space_of cfg layout boot frames fs s \<longleftrightarrow>
     (let ps = pages (bi_image boot) layout; root = spc_root s; slots = spc_slots s in
      length fs = length ps \<and> spc_frames s = frames \<and> spc_tables s = root # map snd slots
      \<and> mset frames = add_mset root (mset (map snd slots) + mset fs)
      \<and> distinct (map fst slots) \<and> fst ` set slots = page_slot ` set ps
      \<and> spc_copies s = concat (map (page_copies (bi_staged boot)) (zip ps fs))
      \<and> spc_ptes s = map (leaf_pte slots) (zip ps fs) @ map (\<lambda>(sl, v). (unat root * 4096 + 4 * sl, v)) (level1_entries cfg slots)
      \<and> concat (map or_frames (spc_regions s)) = fs \<and> spc_regions s \<noteq> [])"

lemma length_pages: "length (pages img layout) = length (concat (map us_pages (ui_segments img))) + unat (ul_stack_pages layout)"
  by (simp add: pages_def length_concat o_def stack_vas_def)

lemma Space_build_Ok:
  assumes need: "length frames = frames_needed (bi_image boot) layout"
    and segs: "\<forall>s\<in>set (ui_segments (bi_image boot)). us_pages s \<noteq> []" and base: "stack_base layout = Some base"
  obtains s fs where "Space_build cfg layout boot frames = Ok s" "space_of cfg layout boot frames fs s"
proof -
  let ?ps = "pages (bi_image boot) layout"
  from need obtain root rest where frames: "frames = root # rest" by (cases frames) (auto simp: frames_needed_def Let_def)
  define b0 where "b0 = \<lparr>bs_next = rest, bs_tables = [root], bs_slots = [], bs_order = [root], bs_leaves = [], bs_copies = [],
    bs_placed = []\<rparr>"
  have room: "length (bs_next b0) = slots_left b0 ?ps + length ?ps"
    using need length_remdups_adj_sort [of "map page_slot ?ps"]
    by (simp add: frames_needed_def frames b0_def slots_left_def Let_def)
  then obtain b fs where b: "build_pages (bi_staged boot) ?ps b0 = Ok b" "built (bi_staged boot) ?ps fs b0 b" "bs_next b = []"
    using build_pages_Ok [of b0 ?ps "bi_staged boot"] by (auto simp: b0_def)
  let ?m = "length (concat (map us_pages (ui_segments (bi_image boot))))"
  have placed: "map (snd \<circ> snd) (bs_placed b) = fs"
    using b(2) by (auto simp: built_def b0_def o_def case_prod_beta' map_snd_zip)
  obtain rs where rs: "segment_regions (ui_segments (bi_image boot)) (bs_placed b) = Ok (rs, drop ?m (bs_placed b))"
    "concat (map or_frames rs) = map (snd \<circ> snd) (take ?m (bs_placed b))"
    using segment_regions_Ok [OF segs, of "bs_placed b"] by blast
  let ?regions = "rs @ [\<lparr>or_va = base, or_perms = STACK_PERMS, or_frames = map (snd \<circ> snd) (drop ?m (bs_placed b))\<rparr>]"
  have regions: "space_regions (bi_image boot) layout (bs_placed b) = Ok ?regions" by (simp add: space_regions_def rs(1) base)
  have whole: "concat (map or_frames ?regions) = fs"
    using map_append [of "snd \<circ> snd" "take ?m (bs_placed b)" "drop ?m (bs_placed b)"]
    by (simp only: append_take_drop_id placed) (simp add: rs(2))
  define s where "s = \<lparr>spc_root = root, spc_tables = bs_tables b, spc_regions = ?regions, spc_frames = bs_order b,
    spc_slots = bs_slots b, spc_copies = bs_copies b,
    spc_ptes = bs_leaves b @ map (\<lambda>(sl, v). (unat root * PAGE + 4 * sl, v)) (level1_entries cfg (bs_slots b))\<rparr>"
  have "Space_build cfg layout boot frames = Ok s"
    by (simp add: Space_build_def frames b0_def [symmetric] b(1) regions s_def)
  moreover have "space_of cfg layout boot frames fs s"
    using b(2,3) whole by (auto simp: space_of_def Let_def s_def built_def b0_def frames PAGE_def)
  ultimately show thesis by (rule that)
qed

lemma space_frames_mset:
  assumes "space_of cfg layout boot frames fs s"
  shows "mset (spc_tables s @ concat (map or_frames (spc_regions s))) = mset frames"
  using assms by (simp add: space_of_def Let_def)

subsection \<open>A copy the check lets out of its page\<close>

definition wild_image :: BootImage where
  "wild_image = \<lparr>bi_staged = 0x80100000, bi_file_len = 88, bi_image = \<lparr>ui_entry = 0x10000, ui_segments =
     [\<lparr>us_index = 0, us_vaddr = 0x10000, us_memsz = 16, us_perms = \<lparr>perm_read = True, perm_write = False, perm_execute = True\<rparr>,
       us_pages = [\<lparr>pp_va = 0x10000, pp_perms = \<lparr>perm_read = True, perm_write = False, perm_execute = True\<rparr>,
         pp_copy = Some \<lparr>fc_file_offset = 0, fc_page_offset = 0xFFFFFFF0, fc_len = 16\<rparr>\<rparr>]\<rparr>]\<rparr>\<rparr>"

definition wild_plan :: ProcessPlan where
  "wild_plan = \<lparr>pl_layout = tiny_layout, pl_images = [wild_image]\<rparr>"

lemma wild_plan_valid: "plan_validate tiny_config wild_plan = Ok ()"
proof -
  have "boot_check tiny_config tiny_layout wild_image = Ok ()"
    by (simp add: boot_check_Ok wild_image_def tiny_image_range segment_ok_def page_ok_def copy_ok_def valid_perms_def
        tiny_config_def win_contains_def u64_max_def)
  then show ?thesis
    using tiny_layout_valid by (simp add: plan_validate_def wild_plan_def MAX_PROCESSES_def plan_image_check_def)
qed

text \<open>
  C40. The image check accepts a copy that leaves its page: where the offset in the page and the length overflow
  \<^verbatim>\<open>u32\<close>, the comparison of options takes the missing sum for a small one. The plan below passes validation, and
  the address space built for it writes 16 bytes of the file four gigabytes beyond the frame of the page,
  outside everything the kernel is granted.
\<close>

theorem plan_check_accepts_overflow:
  "plan_validate tiny_config wild_plan = Ok () \<and> \<not> plan_in_pages wild_plan
    \<and> (\<exists>s. Space_build tiny_config tiny_layout wild_image [0x80400, 0x80401, 0x80402, 0x80403] = Ok s
         \<and> spc_copies s = [(0x80100000, 0x80402 * 4096 + 0xFFFFFFF0, 16)]
         \<and> \<not> permits tiny_config (0x80402 * 4096 + 0xFFFFFFF0) 16)"
proof (intro conjI)
  show "plan_validate tiny_config wild_plan = Ok ()" by (rule wild_plan_valid)
  show "\<not> plan_in_pages wild_plan"
    by (simp add: plan_in_pages_def wild_plan_def image_in_pages_def wild_image_def copy_in_page_def)
  show "\<exists>s. Space_build tiny_config tiny_layout wild_image [0x80400, 0x80401, 0x80402, 0x80403] = Ok s
      \<and> spc_copies s = [(0x80100000, 0x80402 * 4096 + 0xFFFFFFF0, 16)]
      \<and> \<not> permits tiny_config (0x80402 * 4096 + 0xFFFFFFF0) 16"
    by (simp add: Space_build_def build_page_def build_table_def take_frame_def pages_def segment_page_def wild_image_def
        stack_vas_def stack_base_def tiny_layout_def vpn1_def space_regions_def split_copy.simps PAGE_def MAX_ACCESS_def u32_max_def
        permits_def grants_def win_contains_def win_overlaps_def sat_add_def tiny_config_def kc_frame_def FRAME_BYTES_def u64_max_def Let_def)
qed

end
