(* ===== verification/Os_Process.thy ===== *)
theory Os_Process
  imports Os_Space
begin

section \<open>Processes\<close>

text \<open>
  Models \<^verbatim>\<open>components/os/src/process.rs\<close>: saved contexts, process control blocks, the run queue, the
  transitions between lifecycle states, and the check of every invariant of the table. A violation is
  a kernel bug that faults the session, so the state after one is not modelled. The lemmas show that the check
  means what its messages say, that every transition preserves it, and that none of them is refused
  in a checked table that allows it.
\<close>

datatype ProcState = Ready | Running | Exited int | Faulted u32 u32 u32

fun is_terminal :: "ProcState \<Rightarrow> bool" where
  "is_terminal (Exited _) = True"
| "is_terminal (Faulted _ _ _) = True"
| "is_terminal _ = False"

fun ProcState_name :: "ProcState \<Rightarrow> string" where
  "ProcState_name Ready = ''ready''"
| "ProcState_name Running = ''running''"
| "ProcState_name (Exited _) = ''exited''"
| "ProcState_name (Faulted _ _ _) = ''faulted''"

text \<open>\<^verbatim>\<open>process::Context\<close>; \<open>uc_regs\<close> holds the 31 registers \<^verbatim>\<open>x1\<close> to \<^verbatim>\<open>x31\<close>.\<close>

record UserContext =
  uc_regs :: "u32 list"
  uc_pc :: u32
  uc_sstatus :: u32

definition CONTEXT_BYTES :: usize where "CONTEXT_BYTES = 0x84"
definition SP :: usize where "SP = 1"

definition context_initial :: "u32 \<Rightarrow> u32 \<Rightarrow> UserContext" where
  "context_initial entry stack_top = \<lparr>uc_regs = (replicate 31 0)[SP := stack_top], uc_pc = entry, uc_sstatus = 0\<rparr>"

definition context_to_frame :: "UserContext \<Rightarrow> u8 list" where
  "context_to_frame c = concat (map u32_to_le_bytes (uc_regs c @ [uc_pc c, uc_sstatus c]))"

definition frame_word :: "u8 list \<Rightarrow> nat \<Rightarrow> u32" where
  "frame_word fr i = u32_from_le_bytes (take 4 (drop (4 * i) fr))"

definition context_from_frame :: "u8 list \<Rightarrow> (UserContext, Abort) result" where
  "context_from_frame fr =
     (if length fr < CONTEXT_BYTES then Err Panic
      else Ok \<lparr>uc_regs = map (frame_word fr) [0..<31], uc_pc = frame_word fr 31, uc_sstatus = frame_word fr 32\<rparr>)"

record Pcb =
  pcb_pid :: u32
  pcb_state :: ProcState
  pcb_context :: "UserContext option"
  pcb_root :: u32
  pcb_tables :: "u32 list"
  pcb_regions :: "OsRegion list"

definition Pcb_new :: "u32 \<Rightarrow> Space \<Rightarrow> UserContext \<Rightarrow> Pcb" where
  "Pcb_new pid s c = \<lparr>pcb_pid = pid, pcb_state = Ready, pcb_context = Some c, pcb_root = spc_root s,
     pcb_tables = spc_tables s, pcb_regions = spc_regions s\<rparr>"

definition pcb_frames :: "Pcb \<Rightarrow> u32 list" where
  "pcb_frames p = pcb_tables p @ concat (map or_frames (pcb_regions p))"

datatype Violation = Violation string

record Processes =
  ps_pcbs :: "Pcb list"
  ps_queue :: "u32 list"
  ps_current :: "u32 option"
  ps_frames :: Frames

definition Processes_new :: "Frames \<Rightarrow> Processes" where
  "Processes_new fr = \<lparr>ps_pcbs = [], ps_queue = [], ps_current = None, ps_frames = fr\<rparr>"

definition pcb_of :: "Processes \<Rightarrow> u32 \<Rightarrow> Pcb option" where
  "pcb_of ps pid = find (\<lambda>p. pcb_pid p = pid) (ps_pcbs ps)"

text \<open>\<^verbatim>\<open>pcb_mut\<close>: the first PCB with the PID is replaced.\<close>

fun pcb_update :: "u32 \<Rightarrow> (Pcb \<Rightarrow> Pcb) \<Rightarrow> Pcb list \<Rightarrow> Pcb list" where
  "pcb_update pid f [] = []"
| "pcb_update pid f (p # ps) = (if pcb_pid p = pid then f p # ps else p # pcb_update pid f ps)"

definition admit :: "Processes \<Rightarrow> Pcb \<Rightarrow> (Processes, Violation) result" where
  "admit ps p =
     (if ps_pcbs ps \<noteq> [] \<and> pcb_pid p \<le> pcb_pid (List.last (ps_pcbs ps)) then Err (Violation ''admitted PID is not above every PID'')
      else if pcb_state p \<noteq> Ready \<or> pcb_context p = None then Err (Violation ''admitted process is not Ready with a context'')
      else if sort (pcb_frames p) \<noteq> owned_by (ps_frames ps) (pcb_pid p)
        then Err (Violation ''admitted process's frames are not reserved for it'')
      else Ok (ps\<lparr>ps_queue := ps_queue ps @ [pcb_pid p], ps_pcbs := ps_pcbs ps @ [p]\<rparr>))"

definition yield_current :: "Processes \<Rightarrow> UserContext \<Rightarrow> (u32 \<times> Processes, Violation) result" where
  "yield_current ps c =
     (case ps_current ps of
        None \<Rightarrow> Err (Violation ''yield with no running process'')
      | Some pid \<Rightarrow>
          (case pcb_of ps pid of
             None \<Rightarrow> Err (Violation ''running PID has no PCB'')
           | Some _ \<Rightarrow>
               Ok (pid, ps\<lparr>ps_pcbs := pcb_update pid (\<lambda>p. p\<lparr>pcb_state := Ready, pcb_context := Some c\<rparr>) (ps_pcbs ps),
                    ps_queue := ps_queue ps @ [pid], ps_current := None\<rparr>)))"

definition end_current :: "Processes \<Rightarrow> ProcState \<Rightarrow> (u32 \<times> Processes, Violation) result" where
  "end_current ps st =
     (if \<not> is_terminal st then Err (Violation ''a process can only end in a terminal state'')
      else
        (case ps_current ps of
           None \<Rightarrow> Err (Violation ''no running process to end'')
         | Some pid \<Rightarrow>
             (case pcb_of ps pid of
                None \<Rightarrow> Err (Violation ''running PID has no PCB'')
              | Some p \<Rightarrow>
                  (case release (ps_frames ps) pid (pcb_frames p) of
                     (Err _, _) \<Rightarrow> Err (Violation ''a process frame is not owned by it'')
                   | (Ok _, fr) \<Rightarrow>
                       Ok (pid, ps\<lparr>ps_pcbs := pcb_update pid
                              (\<lambda>p. p\<lparr>pcb_state := st, pcb_context := None, pcb_tables := [], pcb_regions := []\<rparr>) (ps_pcbs ps),
                            ps_current := None, ps_frames := fr\<rparr>)))))"

definition schedule_next :: "Processes \<Rightarrow> ((u32 \<times> UserContext) option \<times> Processes, Violation) result" where
  "schedule_next ps =
     (if ps_current ps \<noteq> None then Err (Violation ''scheduling while a process runs'')
      else
        (case ps_queue ps of
           [] \<Rightarrow> Ok (None, ps)
         | pid # rest \<Rightarrow>
             (case pcb_of ps pid of
                None \<Rightarrow> Err (Violation ''queued PID has no PCB'')
              | Some p \<Rightarrow>
                  (case pcb_context p of
                     None \<Rightarrow> Err (Violation ''queued process has no context'')
                   | Some c \<Rightarrow>
                       if pcb_state p \<noteq> Ready then Err (Violation ''queued process is not Ready'')
                       else Ok (Some (pid, c), ps\<lparr>ps_pcbs := pcb_update pid (\<lambda>p. p\<lparr>pcb_context := None, pcb_state := Running\<rparr>) (ps_pcbs ps),
                              ps_queue := rest, ps_current := Some pid\<rparr>)))))"

subsection \<open>The check\<close>

fun check_pcbs :: "usize \<Rightarrow> u32 \<Rightarrow> Pcb list \<Rightarrow> (unit, Violation) result" where
  "check_pcbs images prev [] = Ok ()"
| "check_pcbs images prev (p # ps) =
     (if pcb_pid p \<le> prev \<or> unat (pcb_pid p) > images then Err (Violation ''PIDs not ascending, or outside 1..=images'')
      else if (pcb_state p = Ready) \<noteq> (pcb_context p \<noteq> None)
        then Err (Violation ''a context on a process that is not Ready, or none on a Ready one'')
      else if is_terminal (pcb_state p) \<noteq> (pcb_tables p = []) \<or> is_terminal (pcb_state p) \<noteq> (pcb_regions p = [])
        then Err (Violation ''a terminal process with frames, or a live one without tables'')
      else if \<not> is_terminal (pcb_state p) \<and> pcb_tables p ! 0 \<noteq> pcb_root p
        then Err (Violation ''a live process whose root is not its first table'')
      else check_pcbs images (pcb_pid p) ps)"

fun check_queue :: "Processes \<Rightarrow> u32 list \<Rightarrow> u32 list \<Rightarrow> (unit, Violation) result" where
  "check_queue ps seen [] = Ok ()"
| "check_queue ps seen (pid # q) =
     (if pid \<in> set seen then Err (Violation ''a PID queued twice'')
      else if map_option pcb_state (pcb_of ps pid) \<noteq> Some Ready then Err (Violation ''a queue entry that is not a Ready process'')
      else check_queue ps (seen @ [pid]) q)"

fun claim_frames :: "u32 \<Rightarrow> u32 \<Rightarrow> u32 list \<Rightarrow> u32 list \<Rightarrow> (u32 list, Violation) result" where
  "claim_frames base pid [] expected = Ok expected"
| "claim_frames base pid (ppn # ppns) expected =
     (if base \<le> ppn \<and> unat (ppn - base) < length expected then
        (if expected ! unat (ppn - base) = 0 then claim_frames base pid ppns (expected[unat (ppn - base) := pid])
         else Err (Violation ''a frame owned twice''))
      else Err (Violation ''a process frame outside the pool''))"

fun claim_all :: "u32 \<Rightarrow> (u32 \<times> u32 list) list \<Rightarrow> u32 list \<Rightarrow> (u32 list, Violation) result" where
  "claim_all base [] expected = Ok expected"
| "claim_all base ((pid, fs) # cs) expected = result_bind (claim_frames base pid fs expected) (claim_all base cs)"

definition claims :: "Processes \<Rightarrow> (u32 \<times> u32 list) option \<Rightarrow> (u32 \<times> u32 list) list" where
  "claims ps creating = map (\<lambda>p. (pcb_pid p, pcb_frames p)) (ps_pcbs ps) @ (case creating of None \<Rightarrow> [] | Some c \<Rightarrow> [c])"

definition procs_check :: "Processes \<Rightarrow> usize \<Rightarrow> (u32 \<times> u32 list) option \<Rightarrow> (unit, Violation) result" where
  "procs_check ps images creating =
     result_bind (check_pcbs images 0 (ps_pcbs ps)) (\<lambda>_.
       (let running = map pcb_pid (filter (\<lambda>p. pcb_state p = Running) (ps_pcbs ps)) in
        if length running > 1 then Err (Violation ''two Running processes'')
        else if (case running of [] \<Rightarrow> None | r # _ \<Rightarrow> Some r) \<noteq> ps_current ps
          then Err (Violation ''the current PID is not the Running process'')
        else result_bind (check_queue ps [] (ps_queue ps)) (\<lambda>_.
          if list_ex (\<lambda>p. pcb_state p = Ready \<and> pcb_pid p \<notin> set (ps_queue ps)) (ps_pcbs ps)
            then Err (Violation ''a Ready process missing from the queue'')
          else if (case creating of None \<Rightarrow> False | Some (pid, _) \<Rightarrow> pid = 0 \<or> pcb_of ps pid \<noteq> None \<or> unat pid > images)
            then Err (Violation ''the creation in flight has a used or invalid PID'')
          else
            (let base = fr_base (ps_frames ps) in
             result_bind (claim_all base (claims ps creating) (replicate (frames_count (ps_frames ps)) 0)) (\<lambda>expected.
               if list_ex (\<lambda>(i, w). frame_owner (ps_frames ps) (base + of_nat i) \<noteq> Some w) (enumerate 0 expected)
                 then Err (Violation ''an allocated frame no live process owns, or the reverse'')
               else Ok ())))))"

subsection \<open>What the check means\<close>

definition pcb_ok :: "usize \<Rightarrow> Pcb \<Rightarrow> bool" where
  "pcb_ok images p \<longleftrightarrow> 0 < pcb_pid p \<and> unat (pcb_pid p) \<le> images \<and> (pcb_state p = Ready \<longleftrightarrow> pcb_context p \<noteq> None)
     \<and> (is_terminal (pcb_state p) \<longleftrightarrow> pcb_tables p = []) \<and> (is_terminal (pcb_state p) \<longleftrightarrow> pcb_regions p = [])
     \<and> (is_terminal (pcb_state p) \<or> pcb_tables p ! 0 = pcb_root p)"

lemma check_pcbs_Cons:
  "check_pcbs images prev (p # ps) = Ok () \<longleftrightarrow>
     pcb_ok images p \<and> prev < pcb_pid p \<and> check_pcbs images (pcb_pid p) ps = Ok ()"
proof -
  have "prev < pcb_pid p \<Longrightarrow> 0 < pcb_pid p" using word_not_simps(1) by (metis word_neq_0_conv)
  then show ?thesis by (auto simp: pcb_ok_def)
qed

lemma check_pcbs_Ok:
  "check_pcbs images prev ps = Ok () \<longleftrightarrow>
     (\<forall>p\<in>set ps. pcb_ok images p \<and> prev < pcb_pid p) \<and> sorted_wrt (<) (map pcb_pid ps)"
proof (induction ps arbitrary: prev)
  case (Cons p ps)
  then show ?case unfolding check_pcbs_Cons by (auto intro: less_trans)
qed simp

definition with_owners :: "u32 \<Rightarrow> u32 list \<Rightarrow> u32 \<Rightarrow> u32 option" where
  "with_owners base ws = frame_owner \<lparr>fr_base = base, fr_owners = ws\<rparr>"

text \<open>The frames \<open>cs\<close> claims are distinct and free in \<open>ws\<close>, and \<open>ws'\<close> gives each to its claimant and changes no other.\<close>

definition claimed :: "u32 \<Rightarrow> (u32 \<times> u32 list) list \<Rightarrow> u32 list \<Rightarrow> u32 list \<Rightarrow> bool" where
  "claimed base cs ws ws' \<longleftrightarrow> length ws' = length ws \<and> distinct (concat (map snd cs))
     \<and> (\<forall>q\<in>set (concat (map snd cs)). with_owners base ws q = Some 0)
     \<and> (\<forall>(pid, fs)\<in>set cs. \<forall>q\<in>set fs. with_owners base ws' q = Some pid)
     \<and> (\<forall>q. q \<notin> set (concat (map snd cs)) \<longrightarrow> with_owners base ws' q = with_owners base ws q)"

lemma with_owners_Some:
  "with_owners base ws q = Some w \<longleftrightarrow> base \<le> q \<and> unat (q - base) < length ws \<and> ws ! unat (q - base) = w"
  by (auto simp: with_owners_def frame_owner_def frame_index_def Let_def)

lemma with_owners_update:
  assumes "with_owners base ws p = Some v"
  shows "with_owners base (ws[unat (p - base) := w]) q = (if q = p then Some w else with_owners base ws q)"
proof -
  have bounds: "base \<le> p" "unat (p - base) < length ws" using assms by (auto simp: with_owners_Some)
  show ?thesis
  proof (cases "q = p")
    case False
    then have "q - base \<noteq> p - base" by simp
    then have "unat (p - base) \<noteq> unat (q - base)" by (simp add: word_unat_eq_iff [symmetric])
    with False show ?thesis by (simp add: with_owners_def frame_owner_def frame_index_def Let_def)
  qed (use bounds in \<open>simp add: with_owners_Some\<close>)
qed

lemma claim_frames_Ok:
  assumes "pid \<noteq> 0"
  shows "claim_frames base pid fs ws = Ok ws' \<Longrightarrow> claimed base [(pid, fs)] ws ws'"
    and "distinct fs \<Longrightarrow> \<forall>q\<in>set fs. with_owners base ws q = Some 0 \<Longrightarrow> \<exists>ws'. claim_frames base pid fs ws = Ok ws'"
proof (induction fs arbitrary: ws)
  case (Cons p fs)
  {
    case 1
    let ?ws = "ws[unat (p - base) := pid]"
    from 1 have p: "with_owners base ws p = Some 0" and rest: "claim_frames base pid fs ?ws = Ok ws'"
      by (auto simp: with_owners_Some split: if_splits)
    note IH = Cons.IH(1) [OF rest] and upd = with_owners_update [OF p]
    show ?case using IH upd [of pid] p assms
      by (auto simp: claimed_def split: if_splits)
  next
    case 2
    then have p: "with_owners base ws p = Some 0" by simp
    with 2 have "\<forall>q\<in>set fs. with_owners base (ws[unat (p - base) := pid]) q = Some 0"
      by (auto simp: with_owners_update [OF p])
    with 2 obtain ws' where "claim_frames base pid fs (ws[unat (p - base) := pid]) = Ok ws'"
      using Cons.IH(2) [of "ws[unat (p - base) := pid]"] by auto
    with p show ?case by (auto simp: with_owners_Some)
  }
qed (auto simp: claimed_def)

lemma claim_all_Ok:
  assumes "0 \<notin> fst ` set cs"
  shows "claim_all base cs ws = Ok ws' \<Longrightarrow> claimed base cs ws ws'"
    and "distinct (concat (map snd cs)) \<Longrightarrow> \<forall>q\<in>set (concat (map snd cs)). with_owners base ws q = Some 0 \<Longrightarrow>
      \<exists>ws'. claim_all base cs ws = Ok ws'"
  using assms
proof (induction cs arbitrary: ws)
  case (Cons c cs)
  obtain pid fs where c: "c = (pid, fs)" by fastforce
  {
    case 1
    then obtain w1 where w1: "claim_frames base pid fs ws = Ok w1" "claim_all base cs w1 = Ok ws'" by (auto simp: c)
    have a: "claimed base [(pid, fs)] ws w1" by (rule claim_frames_Ok(1)) (use w1 1(2) c in force)+
    have b: "claimed base cs w1 ws'" by (rule Cons.IH(1)) (use w1 1(2) in auto)
    have disj: "set fs \<inter> set (concat (map snd cs)) = {}"
    proof (rule equals0I)
      fix q assume "q \<in> set fs \<inter> set (concat (map snd cs))"
      then have "with_owners base w1 q = Some pid" "with_owners base w1 q = Some 0"
        using a b by (auto simp: claimed_def)
      then show False using 1(2) c by auto
    qed
    show ?case using a b disj unfolding claimed_def c by (auto simp: disjoint_iff)
  next
    case 2
    from 2 obtain w1 where w1: "claim_frames base pid fs ws = Ok w1"
      using claim_frames_Ok(2) [of pid fs base ws] by (auto simp: c)
    have a: "claimed base [(pid, fs)] ws w1" by (rule claim_frames_Ok(1)) (use w1 2(3) c in force)+
    have "\<forall>q\<in>set (concat (map snd cs)). with_owners base w1 q = Some 0"
      using a 2(1,2) by (fastforce simp: claimed_def c)
    with Cons.IH(2) [of w1] 2 w1 show ?case by (auto simp: c)
  }
qed (auto simp: claimed_def)

definition owners_inv :: "Frames \<Rightarrow> (u32 \<times> u32 list) list \<Rightarrow> bool" where
  "owners_inv fr cs \<longleftrightarrow> distinct (concat (map snd cs)) \<and> (\<forall>(pid, fs)\<in>set cs. \<forall>q\<in>set fs. frame_owner fr q = Some pid)
     \<and> (\<forall>q w. frame_owner fr q = Some w \<longrightarrow> w = 0 \<or> q \<in> set (concat (map snd cs)))"

lemma owners_same:
  assumes wf: "frames_wf fr" and len: "length ws = length (fr_owners fr)"
  shows "\<not> list_ex (\<lambda>(i, w). frame_owner fr (fr_base fr + of_nat i) \<noteq> Some w) (enumerate 0 ws) \<longleftrightarrow> ws = fr_owners fr"
proof -
  have nth: "frame_owner fr (fr_base fr + of_nat i) = Some (fr_owners fr ! i)" if "i < length ws" for i
    using that len by (auto simp: frame_owner_iff [OF wf])
  have "list_ex (\<lambda>(i, w). frame_owner fr (fr_base fr + of_nat i) \<noteq> Some w) (enumerate 0 ws) \<longleftrightarrow>
      (\<exists>i<length ws. frame_owner fr (fr_base fr + of_nat i) \<noteq> Some (ws ! i))"
    by (auto simp: list_ex_iff in_set_enumerate_eq case_prod_beta intro: bexI [of _ "(i, ws ! i)" for i])
  then show ?thesis using len nth by (auto simp: list_eq_iff_nth_eq)
qed

lemma claim_all_owners:
  assumes wf: "frames_wf fr" and pids: "0 \<notin> fst ` set cs"
  shows "claim_all (fr_base fr) cs (replicate (frames_count fr) 0) = Ok (fr_owners fr) \<longleftrightarrow> owners_inv fr cs"
proof -
  let ?z = "replicate (frames_count fr) (0 :: u32)" and ?base = "fr_base fr"
  have own: "with_owners ?base (fr_owners fr) = frame_owner fr" by (cases fr) (simp add: with_owners_def)
  have zero: "with_owners ?base ?z q = (case frame_owner fr q of None \<Rightarrow> None | Some _ \<Rightarrow> Some 0)" for q
    by (auto simp: with_owners_def frame_owner_def frame_index_def Let_def frames_count_def)
  show ?thesis
  proof
    assume "claim_all ?base cs ?z = Ok (fr_owners fr)"
    from claim_all_Ok(1) [OF pids this] have claimed: "claimed ?base cs ?z (fr_owners fr)" .
    have "w = 0" if w: "frame_owner fr q = Some w" "q \<notin> set (concat (map snd cs))" for q w
    proof -
      have "frame_owner fr q = with_owners ?base ?z q" using claimed w(2) unfolding claimed_def own by blast
      then show ?thesis by (simp add: zero w(1))
    qed
    with claimed show "owners_inv fr cs" unfolding claimed_def owners_inv_def own by blast
  next
    assume inv: "owners_inv fr cs"
    then have "\<forall>q\<in>set (concat (map snd cs)). with_owners ?base ?z q = Some 0"
      by (fastforce simp: owners_inv_def zero)
    with inv obtain ws where ws: "claim_all ?base cs ?z = Ok ws"
      using claim_all_Ok(2) [OF pids, of ?base ?z] unfolding owners_inv_def by blast
    from claim_all_Ok(1) [OF pids this] have claimed: "claimed ?base cs ?z ws" .
    then have len: "length ws = length (fr_owners fr)" by (simp add: claimed_def frames_count_def)
    have "ws ! i = fr_owners fr ! i" if i: "i < length ws" for i
    proof -
      let ?q = "?base + of_nat i :: u32"
      have at: "frame_owner fr ?q = Some (fr_owners fr ! i)" using i len by (auto simp: frame_owner_iff [OF wf])
      have "frames_wf \<lparr>fr_base = ?base, fr_owners = ws\<rparr>" using wf len by (simp add: frames_wf_def)
      then have "with_owners ?base ws ?q = Some (ws ! i)" using i unfolding with_owners_def by (auto simp: frame_owner_iff)
      with claimed inv at show ?thesis
        by (cases "?q \<in> set (concat (map snd cs))") (fastforce simp: claimed_def owners_inv_def zero)+
    qed
    then have "ws = fr_owners fr" using len by (simp add: list_eq_iff_nth_eq)
    with ws show "claim_all ?base cs ?z = Ok (fr_owners fr)" by simp
  qed
qed

text \<open>
  The invariant of the table, with \<open>creating\<close> the PID and frames of a creation in flight: PIDs ascend within the
  number of images, the current PID is the one running process, the queue holds exactly the ready
  ones, each once, and the allocated frames are exactly those of the live processes and the creation.
\<close>

definition procs_inv :: "Processes \<Rightarrow> usize \<Rightarrow> (u32 \<times> u32 list) option \<Rightarrow> bool" where
  "procs_inv ps images creating \<longleftrightarrow>
     (\<forall>p\<in>set (ps_pcbs ps). pcb_ok images p) \<and> sorted_wrt (<) (map pcb_pid (ps_pcbs ps))
     \<and> (\<forall>p\<in>set (ps_pcbs ps). pcb_state p = Running \<longleftrightarrow> ps_current ps = Some (pcb_pid p))
     \<and> pred_option (\<lambda>pid. pid \<in> pcb_pid ` set (ps_pcbs ps)) (ps_current ps)
     \<and> distinct (ps_queue ps) \<and> set (ps_queue ps) = pcb_pid ` {p \<in> set (ps_pcbs ps). pcb_state p = Ready}
     \<and> pred_option (\<lambda>(pid, _). 0 < pid \<and> unat pid \<le> images \<and> pid \<notin> pcb_pid ` set (ps_pcbs ps)) creating
     \<and> owners_inv (ps_frames ps) (claims ps creating)"

lemma sorted_pids_distinct: "sorted_wrt (<) (map pcb_pid ps) \<Longrightarrow> distinct (map pcb_pid ps)"
  by (induction ps) auto

lemma pcb_of_Some:
  assumes "distinct (map pcb_pid (ps_pcbs ps))"
  shows "pcb_of ps pid = Some p \<longleftrightarrow> p \<in> set (ps_pcbs ps) \<and> pcb_pid p = pid"
proof -
  have "find (\<lambda>p. pcb_pid p = pid) xs = Some p \<longleftrightarrow> p \<in> set xs \<and> pcb_pid p = pid" if "distinct (map pcb_pid xs)" for xs
    using that by (induction xs) auto
  with assms show ?thesis by (simp add: pcb_of_def)
qed

lemma pcb_of_None: "pcb_of ps pid = None \<longleftrightarrow> pid \<notin> pcb_pid ` set (ps_pcbs ps)"
  by (auto simp: pcb_of_def find_None_iff)

lemma check_queue_Ok:
  "check_queue ps seen q = Ok () \<longleftrightarrow> distinct q \<and> set q \<inter> set seen = {} \<and>
     (\<forall>pid\<in>set q. map_option pcb_state (pcb_of ps pid) = Some Ready)"
  by (induction q arbitrary: seen) auto

lemma running_current:
  assumes "distinct (map pcb_pid pcbs)"
  defines "running \<equiv> map pcb_pid (filter (\<lambda>p. pcb_state p = Running) pcbs)"
  shows "\<not> 1 < length running \<and> (case running of [] \<Rightarrow> None | r # _ \<Rightarrow> Some r) = cur \<longleftrightarrow>
    (\<forall>p\<in>set pcbs. pcb_state p = Running \<longleftrightarrow> cur = Some (pcb_pid p)) \<and> pred_option (\<lambda>pid. pid \<in> pcb_pid ` set pcbs) cur"
proof (cases "filter (\<lambda>p. pcb_state p = Running) pcbs")
  case Nil
  then have "\<forall>p\<in>set pcbs. pcb_state p \<noteq> Running" by (simp add: filter_empty_conv)
  then show ?thesis by (cases cur) (auto simp: running_def Nil)
next
  case (Cons r rs)
  have r: "set (r # rs) = {p \<in> set pcbs. pcb_state p = Running}" by (simp flip: Cons)
  have dist: "distinct (map pcb_pid (r # rs))" unfolding Cons [symmetric] by (rule distinct_map_filter [OF assms(1)])
  have inj: "p = q" if "p \<in> set pcbs" "q \<in> set pcbs" "pcb_pid p = pcb_pid q" for p q
    using that assms(1) by (auto simp: distinct_map dest: inj_onD)
  show ?thesis
  proof (cases rs)
    case Nil
    then have mem: "r \<in> set pcbs" "pcb_state p = Running \<longleftrightarrow> p = r" if "p \<in> set pcbs" for p using r that by auto
    then have "pcb_state p = Running \<longleftrightarrow> pcb_pid p = pcb_pid r" if "p \<in> set pcbs" for p using inj [of p r] that by metis
    moreover have "r \<in> set pcbs" using r by auto
    ultimately show ?thesis using Nil by (cases cur) (auto simp: running_def Cons)
  next
    case (Cons r' rs')
    then have "r \<noteq> r'" "r \<in> set pcbs" "r' \<in> set pcbs" "pcb_state r = Running" "pcb_state r' = Running" "pcb_pid r \<noteq> pcb_pid r'"
      using r dist by auto
    moreover have "1 < length running" using \<open>filter _ pcbs = r # rs\<close> Cons by (simp add: running_def)
    ultimately show ?thesis by (metis option.inject)
  qed
qed

lemma procs_check_iff:
  assumes "frames_wf (ps_frames ps)"
  shows "procs_check ps images creating = Ok () \<longleftrightarrow> procs_inv ps images creating"
proof (cases "check_pcbs images 0 (ps_pcbs ps) = Ok ()")
  case True
  then have pcbs: "\<forall>p\<in>set (ps_pcbs ps). pcb_ok images p" "sorted_wrt (<) (map pcb_pid (ps_pcbs ps))"
    by (auto simp: check_pcbs_Ok)
  note dist = sorted_pids_distinct [OF pcbs(2)]
  let ?run = "map pcb_pid (filter (\<lambda>p. pcb_state p = Running) (ps_pcbs ps))"
  have queue: "check_queue ps [] (ps_queue ps) = Ok () \<and>
      \<not> list_ex (\<lambda>p. pcb_state p = Ready \<and> pcb_pid p \<notin> set (ps_queue ps)) (ps_pcbs ps) \<longleftrightarrow>
      distinct (ps_queue ps) \<and> set (ps_queue ps) = pcb_pid ` {p \<in> set (ps_pcbs ps). pcb_state p = Ready}"
    by (auto simp: check_queue_Ok list_ex_iff pcb_of_Some [OF dist])
  have creating: "\<not> (case creating of None \<Rightarrow> False | Some (pid, _) \<Rightarrow> pid = 0 \<or> pcb_of ps pid \<noteq> None \<or> images < unat pid) \<longleftrightarrow>
      pred_option (\<lambda>(pid, _). 0 < pid \<and> unat pid \<le> images \<and> pid \<notin> pcb_pid ` set (ps_pcbs ps)) creating"
    using pcb_of_None [of ps] by (auto simp: not_less word_neq_0_conv split: option.splits)
  let ?C = "claims ps creating" and ?z = "replicate (frames_count (ps_frames ps)) (0 :: u32)" and ?fr = "ps_frames ps"
  have own: "(\<exists>ws. claim_all (fr_base ?fr) ?C ?z = Ok ws \<and>
      \<not> list_ex (\<lambda>(i, w). frame_owner ?fr (fr_base ?fr + of_nat i) \<noteq> Some w) (enumerate 0 ws)) \<longleftrightarrow> owners_inv ?fr ?C"
    if "pred_option (\<lambda>(pid, _). 0 < pid \<and> unat pid \<le> images \<and> pid \<notin> pcb_pid ` set (ps_pcbs ps)) creating"
  proof -
    have pids: "0 \<notin> fst ` set ?C" using pcbs(1) that by (auto simp: claims_def pcb_ok_def split: option.splits)
    have "claim_all (fr_base ?fr) ?C ?z = Ok ws \<Longrightarrow> length ws = length (fr_owners ?fr)" for ws
      using claim_all_Ok(1) [OF pids] by (auto simp: claimed_def frames_count_def)
    then show ?thesis
      unfolding claim_all_owners [OF assms pids, symmetric] using owners_same [OF assms] by blast
  qed
  have Err_if: "(if c then Err e else r) = Ok () \<longleftrightarrow> \<not> c \<and> r = Ok ()" for c e and r :: "(unit, Violation) result" by simp
  have bind_unit: "result_bind r f = Ok () \<longleftrightarrow> r = Ok () \<and> f () = Ok ()" for r and f :: "unit \<Rightarrow> (unit, Violation) result"
    by simp
  have "procs_check ps images creating = Ok () \<longleftrightarrow>
      (\<not> 1 < length ?run \<and> (case ?run of [] \<Rightarrow> None | r # _ \<Rightarrow> Some r) = ps_current ps)
      \<and> (check_queue ps [] (ps_queue ps) = Ok ()
        \<and> \<not> list_ex (\<lambda>p. pcb_state p = Ready \<and> pcb_pid p \<notin> set (ps_queue ps)) (ps_pcbs ps))
      \<and> \<not> (case creating of None \<Rightarrow> False | Some (pid, _) \<Rightarrow> pid = 0 \<or> pcb_of ps pid \<noteq> None \<or> images < unat pid)
      \<and> (\<exists>ws. claim_all (fr_base ?fr) ?C ?z = Ok ws \<and>
        \<not> list_ex (\<lambda>(i, w). frame_owner ?fr (fr_base ?fr + of_nat i) \<noteq> Some w) (enumerate 0 ws))"
    unfolding procs_check_def Let_def True result_bind_simps Err_if bind_unit
    unfolding result_bind_eq_Ok Err_if by (simp only: conj_assoc simp_thms)
  also have "\<dots> \<longleftrightarrow> procs_inv ps images creating"
    unfolding running_current [OF dist] queue creating procs_inv_def using pcbs own by blast
  finally show ?thesis .
next
  case False
  have "procs_inv ps images creating \<Longrightarrow> check_pcbs images 0 (ps_pcbs ps) = Ok ()"
    by (auto simp: procs_inv_def check_pcbs_Ok pcb_ok_def)
  with False show ?thesis by (auto simp: procs_check_def)
qed

subsection \<open>Every transition preserves the invariant\<close>

lemma pcb_update_map:
  assumes "distinct (map pcb_pid ps)"
  shows "pcb_update pid f ps = map (\<lambda>p. if pcb_pid p = pid then f p else p) ps"
  using assms by (induction ps) (auto intro!: map_idI [symmetric] simp: image_iff)

lemma inv_distinct: "procs_inv ps images creating \<Longrightarrow> distinct (map pcb_pid (ps_pcbs ps))"
  by (auto simp: procs_inv_def intro: sorted_pids_distinct)

lemma inv_pcb_unique:
  "procs_inv ps images creating \<Longrightarrow> p \<in> set (ps_pcbs ps) \<Longrightarrow> q \<in> set (ps_pcbs ps) \<Longrightarrow> pcb_pid p = pcb_pid q \<Longrightarrow> p = q"
  using inv_distinct by (auto simp: distinct_map dest: inj_onD)

text \<open>A change of one PCB, with the queue, the current PID and the pool following it.\<close>

lemma inv_change_pcb:
  assumes inv: "procs_inv ps images creating" and p: "p \<in> set (ps_pcbs ps)" "pcb_pid p = pid"
    and f: "\<And>q. pcb_pid (f q) = pcb_pid q" "pcb_ok images (f p)"
    and cur: "\<And>q. q \<in> set (ps_pcbs ps) \<Longrightarrow> pcb_pid q \<noteq> pid \<Longrightarrow> pcb_state q = Running \<longleftrightarrow> cur = Some (pcb_pid q)"
      "pcb_state (f p) = Running \<longleftrightarrow> cur = Some pid" "pred_option (\<lambda>c. c \<in> pcb_pid ` set (ps_pcbs ps)) cur"
    and queue: "distinct queue" "set queue = (if pcb_state (f p) = Ready then insert pid else (\<lambda>A. A)) (set (ps_queue ps) - {pid})"
    and own: "owners_inv fr (claims (ps\<lparr>ps_pcbs := pcb_update pid f (ps_pcbs ps)\<rparr>) creating)"
  shows "procs_inv (ps\<lparr>ps_pcbs := pcb_update pid f (ps_pcbs ps), ps_queue := queue, ps_current := cur, ps_frames := fr\<rparr>) images creating"
proof -
  let ?g = "\<lambda>q. if pcb_pid q = pid then f q else q"
  define L where "L = map ?g (ps_pcbs ps)"
  have upd: "pcb_update pid f (ps_pcbs ps) = L" unfolding L_def by (rule pcb_update_map [OF inv_distinct [OF inv]])
  have only: "q = p" if "q \<in> set (ps_pcbs ps)" "pcb_pid q = pid" for q using inv_pcb_unique [OF inv] p that by blast
  have pids: "pcb_pid (?g q) = pcb_pid q" for q using f(1) by simp
  have "map pcb_pid L = map pcb_pid (ps_pcbs ps)" by (simp add: L_def pids)
  moreover have "owners_inv fr (claims (ps\<lparr>ps_pcbs := L, ps_queue := queue, ps_current := cur, ps_frames := fr\<rparr>) creating)"
    using own unfolding upd by (simp add: claims_def)
  moreover have "pcb_pid ` {q \<in> set L. pcb_state q = Ready} = set queue"
  proof -
    let ?S = "set (ps_pcbs ps)"
    have "?g ` (?S - {p}) = (\<lambda>q. q) ` (?S - {p})" by (rule image_cong [OF refl]) (use only in force)
    then have img: "?g ` ?S = insert (f p) (?S - {p})" using p image_insert [of ?g p "?S - {p}"] by (simp add: insert_absorb)
    have others: "pcb_pid ` {q \<in> ?S - {p}. pcb_state q = Ready} = pcb_pid ` {q \<in> ?S. pcb_state q = Ready} - {pid}"
      using only p(2) by blast
    have "pcb_pid ` {q \<in> ?g ` ?S. pcb_state q = Ready} =
        (if pcb_state (f p) = Ready then insert pid else (\<lambda>A. A)) (pcb_pid ` {q \<in> ?S - {p}. pcb_state q = Ready})"
      unfolding img using p(2) f(1) [of p] by (auto intro: rev_image_eqI [of "f p"])
    moreover have "set (ps_queue ps) = pcb_pid ` {q \<in> ?S. pcb_state q = Ready}" using inv by (simp only: procs_inv_def)
    ultimately show ?thesis unfolding L_def set_map queue(2) by (simp only: others)
  qed
  moreover have "pcb_pid ` set L = pcb_pid ` set (ps_pcbs ps)"
    by (simp only: L_def set_map image_image pids)
  moreover have "(\<forall>q\<in>set L. pcb_ok images q) \<and>
      (\<forall>q\<in>set L. pcb_state q = Running \<longleftrightarrow> cur = Some (pcb_pid q))"
  proof -
    have "pcb_ok images (?g q) \<and> (pcb_state (?g q) = Running \<longleftrightarrow> cur = Some (pcb_pid (?g q)))" if q: "q \<in> set (ps_pcbs ps)" for q
    proof (cases "pcb_pid q = pid")
      case True
      then have "q = p" using only q by blast
      then show ?thesis using f(1) [of p] f(2) cur(2) p(2) by simp
    next
      case False
      then show ?thesis using inv q cur(1) by (simp add: procs_inv_def)
    qed
    then show ?thesis by (simp only: L_def set_map ball_simps) blast
  qed
  ultimately show ?thesis
    using inv cur(3) queue(1) unfolding upd procs_inv_def by simp
qed

lemma inv_change_state:
  assumes inv: "procs_inv ps images creating" and p: "p \<in> set (ps_pcbs ps)" "pcb_pid p = pid"
    and f: "\<And>q. pcb_pid (f q) = pcb_pid q" "\<And>q. pcb_frames (f q) = pcb_frames q" "pcb_ok images (f p)"
    and cur: "\<And>q. q \<in> set (ps_pcbs ps) \<Longrightarrow> pcb_pid q \<noteq> pid \<Longrightarrow> pcb_state q = Running \<longleftrightarrow> cur = Some (pcb_pid q)"
      "pcb_state (f p) = Running \<longleftrightarrow> cur = Some pid" "pred_option (\<lambda>c. c \<in> pcb_pid ` set (ps_pcbs ps)) cur"
    and queue: "distinct queue" "set queue = (if pcb_state (f p) = Ready then insert pid else (\<lambda>A. A)) (set (ps_queue ps) - {pid})"
  shows "procs_inv (ps\<lparr>ps_pcbs := pcb_update pid f (ps_pcbs ps), ps_queue := queue, ps_current := cur\<rparr>) images creating"
proof -
  have "claims (ps\<lparr>ps_pcbs := pcb_update pid f (ps_pcbs ps)\<rparr>) creating = claims ps creating"
    using f(1,2) by (simp add: claims_def pcb_update_map [OF inv_distinct [OF inv]])
  then have "owners_inv (ps_frames ps) (claims (ps\<lparr>ps_pcbs := pcb_update pid f (ps_pcbs ps)\<rparr>) creating)"
    using inv by (simp only: procs_inv_def)
  from inv_change_pcb [OF inv p f(1,3) cur queue this] show ?thesis by simp
qed

lemma inv_pcb_of:
  "procs_inv ps images creating \<Longrightarrow> pcb_of ps pid = Some p \<longleftrightarrow> p \<in> set (ps_pcbs ps) \<and> pcb_pid p = pid"
  by (rule pcb_of_Some [OF inv_distinct])

lemma inv_current:
  assumes "procs_inv ps images creating" "ps_current ps = Some pid"
  obtains p where "p \<in> set (ps_pcbs ps)" "pcb_pid p = pid" "pcb_state p = Running" "pcb_of ps pid = Some p" "pid \<notin> set (ps_queue ps)"
proof -
  from assms obtain p where p: "p \<in> set (ps_pcbs ps)" "pcb_pid p = pid" by (auto simp: procs_inv_def)
  moreover from assms p have run: "pcb_state p = Running" by (simp add: procs_inv_def)
  moreover have "pid \<notin> set (ps_queue ps)"
  proof
    assume "pid \<in> set (ps_queue ps)"
    then obtain q where "q \<in> set (ps_pcbs ps)" "pcb_pid q = pid" "pcb_state q = Ready"
      using assms(1) by (auto simp: procs_inv_def)
    then show False using inv_pcb_unique [OF assms(1) p(1), of q] p run by simp
  qed
  ultimately show thesis using that inv_pcb_of [OF assms(1)] by blast
qed

lemma pcb_ok_live: "pcb_ok images p \<Longrightarrow> \<not> is_terminal (pcb_state p) \<Longrightarrow> \<not> is_terminal st \<Longrightarrow> (st = Ready \<longleftrightarrow> c \<noteq> None) \<Longrightarrow>
  pcb_ok images (p\<lparr>pcb_state := st, pcb_context := c\<rparr>)"
  by (simp add: pcb_ok_def)

lemma yield_current_Ok:
  assumes inv: "procs_inv ps images creating" and cur: "ps_current ps = Some pid"
  obtains ps' where "yield_current ps c = Ok (pid, ps')" "procs_inv ps' images creating" "ps_current ps' = None"
    "ps_queue ps' = ps_queue ps @ [pid]" "ps_frames ps' = ps_frames ps" "map pcb_pid (ps_pcbs ps') = map pcb_pid (ps_pcbs ps)"
proof -
  from inv cur obtain p where p: "p \<in> set (ps_pcbs ps)" "pcb_pid p = pid" "pcb_state p = Running" "pcb_of ps pid = Some p"
    "pid \<notin> set (ps_queue ps)" by (rule inv_current)
  let ?f = "\<lambda>p. p\<lparr>pcb_state := Ready, pcb_context := Some c\<rparr>"
  let ?ps = "ps\<lparr>ps_pcbs := pcb_update pid ?f (ps_pcbs ps), ps_queue := ps_queue ps @ [pid], ps_current := None\<rparr>"
  have ok: "pcb_ok images p" and dq: "distinct (ps_queue ps)" using inv p(1) by (auto simp: procs_inv_def)
  have "procs_inv ?ps images creating"
  proof (rule inv_change_state [OF inv p(1,2)])
    show "pcb_ok images (?f p)" by (rule pcb_ok_live [OF ok]) (simp_all add: p(3))
    show "\<And>q. q \<in> set (ps_pcbs ps) \<Longrightarrow> pcb_pid q \<noteq> pid \<Longrightarrow> pcb_state q = Running \<longleftrightarrow> None = Some (pcb_pid q)"
      using inv cur by (simp add: procs_inv_def)
  qed (use p(5) dq in \<open>auto simp: pcb_frames_def\<close>)
  moreover have "yield_current ps c = Ok (pid, ?ps)" by (simp add: yield_current_def cur p(4))
  ultimately show thesis
    by (intro that [of ?ps]) (simp_all add: pcb_update_map [OF inv_distinct [OF inv]])
qed

lemma schedule_next_Ok:
  assumes inv: "procs_inv ps images creating" and cur: "ps_current ps = None" and q: "ps_queue ps = pid # rest"
  obtains c ps' p where "schedule_next ps = Ok (Some (pid, c), ps')" "procs_inv ps' images creating" "ps_current ps' = Some pid"
    "ps_queue ps' = rest" "ps_frames ps' = ps_frames ps" "map pcb_pid (ps_pcbs ps') = map pcb_pid (ps_pcbs ps)"
    "pcb_of ps pid = Some p" "pcb_context p = Some c" "pcb_of ps' pid \<noteq> None"
proof -
  have "pid \<in> pcb_pid ` {p \<in> set (ps_pcbs ps). pcb_state p = Ready}" using inv q by (auto simp: procs_inv_def)
  then obtain p where p: "p \<in> set (ps_pcbs ps)" "pcb_pid p = pid" "pcb_state p = Ready" by auto
  then have of: "pcb_of ps pid = Some p" using inv_pcb_of [OF inv] by blast
  have ok: "pcb_ok images p" and dq: "distinct (pid # rest)" using inv p(1) q by (auto simp: procs_inv_def)
  then obtain c where c: "pcb_context p = Some c" using p(3) by (auto simp: pcb_ok_def)
  let ?f = "\<lambda>p. p\<lparr>pcb_context := None, pcb_state := Running\<rparr>"
  let ?ps = "ps\<lparr>ps_pcbs := pcb_update pid ?f (ps_pcbs ps), ps_queue := rest, ps_current := Some pid\<rparr>"
  have inv': "procs_inv ?ps images creating"
  proof (rule inv_change_state [OF inv p(1,2)])
    show "pcb_ok images (?f p)" using ok p(3) by (simp add: pcb_ok_def)
    show "\<And>q. q \<in> set (ps_pcbs ps) \<Longrightarrow> pcb_pid q \<noteq> pid \<Longrightarrow> pcb_state q = Running \<longleftrightarrow> Some pid = Some (pcb_pid q)"
      using inv cur by (auto simp: procs_inv_def)
  qed (use dq p q in \<open>auto simp: pcb_frames_def\<close>)
  moreover have "schedule_next ps = Ok (Some (pid, c), ?ps)" by (simp add: schedule_next_def cur q of c p(3))
  moreover have "pid \<in> pcb_pid ` set (ps_pcbs ?ps)" using inv' by (simp add: procs_inv_def)
  ultimately show thesis using of c
    by (intro that [of c ?ps p]) (simp_all add: pcb_update_map [OF inv_distinct [OF inv]] pcb_of_None)
qed

text \<open>With distinct claimants, the frames of each are exactly those the pool says it owns.\<close>

definition owned_exactly :: "Frames \<Rightarrow> (u32 \<times> u32 list) list \<Rightarrow> bool" where
  "owned_exactly fr cs \<longleftrightarrow> (\<forall>(pid, fs)\<in>set cs. distinct fs \<and> set fs = {q. frame_owner fr q = Some pid})
     \<and> (\<forall>q w. frame_owner fr q = Some w \<longrightarrow> w = 0 \<or> w \<in> fst ` set cs)"

lemma distinct_claims:
  assumes "distinct (map fst cs)" "\<forall>(pid, fs)\<in>set cs. distinct fs \<and> (\<forall>q\<in>set fs. frame_owner fr q = Some pid)"
  shows "distinct (concat (map snd cs))"
  using assms
proof (induction cs)
  case (Cons c cs)
  have "set (snd c) \<inter> set (concat (map snd cs)) = {}"
  proof (rule equals0I)
    fix q assume "q \<in> set (snd c) \<inter> set (concat (map snd cs))"
    then obtain d where "d \<in> set cs" "q \<in> set (snd d)" "q \<in> set (snd c)" by auto
    then have "fst d = fst c" using Cons.prems(2) by (fastforce simp: case_prod_beta)
    then show False using Cons.prems(1) \<open>d \<in> set cs\<close> by (metis distinct.simps(2) list.simps(9) imageI set_map)
  qed
  then show ?case using Cons by (auto simp: case_prod_beta)
qed simp

lemma owners_inv_iff:
  assumes "distinct (map fst cs)" "0 \<notin> fst ` set cs"
  shows "owners_inv fr cs \<longleftrightarrow> owned_exactly fr cs"
proof
  assume inv: "owners_inv fr cs"
  have uniq: "gs = fs" if "(pid, gs) \<in> set cs" "(pid, fs) \<in> set cs" for pid gs fs
    using that assms(1) by (meson eq_key_imp_eq_value)
  have claimed: "\<exists>fs. (w, fs) \<in> set cs \<and> q \<in> set fs" if q: "frame_owner fr q = Some w" "w \<noteq> 0" for q w
  proof -
    from inv q have "q \<in> set (concat (map snd cs))" unfolding owners_inv_def by blast
    then obtain c where c: "c \<in> set cs" "q \<in> set (snd c)" by auto
    with inv q have "fst c = w" by (fastforce simp: owners_inv_def)
    with c show ?thesis by (metis prod.collapse)
  qed
  have "distinct fs \<and> set fs = {q. frame_owner fr q = Some pid}" if c: "(pid, fs) \<in> set cs" for pid fs
  proof -
    have "pid \<noteq> 0" using assms(2) c by force
    have "distinct fs" using inv c by (force simp: owners_inv_def distinct_concat_iff)
    moreover have "q \<in> set fs \<longleftrightarrow> frame_owner fr q = Some pid" for q
      using inv c claimed [of q pid] uniq [OF _ c] \<open>pid \<noteq> 0\<close> unfolding owners_inv_def by blast
    ultimately show ?thesis by auto
  qed
  moreover have "w = 0 \<or> w \<in> fst ` set cs" if "frame_owner fr q = Some w" for q w using claimed [OF that] by force
  ultimately show "owned_exactly fr cs" by (auto simp: owned_exactly_def)
next
  assume ex: "owned_exactly fr cs"
  then have "\<forall>(pid, fs)\<in>set cs. distinct fs \<and> (\<forall>q\<in>set fs. frame_owner fr q = Some pid)" by (auto simp: owned_exactly_def)
  moreover have "q \<in> set (concat (map snd cs))" if q: "frame_owner fr q = Some w" "w \<noteq> 0" for q w
  proof -
    from ex q have "w \<in> fst ` set cs" unfolding owned_exactly_def by blast
    then obtain fs where fs: "(w, fs) \<in> set cs" by auto
    with ex q have "q \<in> set fs" by (fastforce simp: owned_exactly_def)
    with fs show ?thesis by force
  qed
  ultimately show "owners_inv fr cs"
    using distinct_claims [OF assms(1)] unfolding owners_inv_def by blast
qed

lemma claims_pids:
  assumes "procs_inv ps images creating"
  shows "distinct (map fst (claims ps creating))" "0 \<notin> fst ` set (claims ps creating)"
  using assms inv_distinct [OF assms] by (auto simp: claims_def procs_inv_def pcb_ok_def o_def split: option.splits)

lemma inv_owned:
  assumes "procs_inv ps images creating"
  shows "owned_exactly (ps_frames ps) (claims ps creating)"
proof -
  have "owners_inv (ps_frames ps) (claims ps creating)" using assms by (simp only: procs_inv_def)
  then show ?thesis using owners_inv_iff [OF claims_pids [OF assms]] by blast
qed

lemma end_current_Ok:
  assumes inv: "procs_inv ps images creating" and wf: "frames_wf (ps_frames ps)" and cur: "ps_current ps = Some pid" and st: "is_terminal st"
  obtains ps' where "end_current ps st = Ok (pid, ps')" "procs_inv ps' images creating" "ps_current ps' = None"
    "ps_queue ps' = ps_queue ps" "frames_wf (ps_frames ps')" "map pcb_pid (ps_pcbs ps') = map pcb_pid (ps_pcbs ps)"
    "\<forall>q. frame_owner (ps_frames ps') q = (if frame_owner (ps_frames ps) q = Some pid then Some 0 else frame_owner (ps_frames ps) q)"
proof -
  from inv cur obtain p where p: "p \<in> set (ps_pcbs ps)" "pcb_pid p = pid" "pcb_state p = Running" "pcb_of ps pid = Some p"
    "pid \<notin> set (ps_queue ps)" by (rule inv_current)
  have "(pid, pcb_frames p) \<in> set (claims ps creating)" using p(1,2) by (auto simp: claims_def)
  then have own: "set (pcb_frames p) = {q. frame_owner (ps_frames ps) q = Some pid}" and "pid \<noteq> 0"
    using inv_owned [OF inv] claims_pids(2) [OF inv] by (auto simp: owned_exactly_def image_iff)
  then have "fst (release (ps_frames ps) pid (pcb_frames p)) = Ok ()" by (subst pool.release_Ok_iff) auto
  then obtain fr where fr: "release (ps_frames ps) pid (pcb_frames p) = (Ok (), fr)" by (metis prod.collapse)
  have owner: "frame_owner fr q = (if frame_owner (ps_frames ps) q = Some pid then Some 0 else frame_owner (ps_frames ps) q)" for q
    using pool.release_owner [OF wf fr, of q] own by auto
  let ?f = "\<lambda>p. p\<lparr>pcb_state := st, pcb_context := None, pcb_tables := [], pcb_regions := []\<rparr>"
  have cls: "claims (ps\<lparr>ps_pcbs := pcb_update pid ?f (ps_pcbs ps)\<rparr>) creating =
      map (\<lambda>(k, fs). (k, if k = pid then [] else fs)) (claims ps creating)"
  proof -
    have "pid \<notin> fst ` set_option creating" using inv p(1,2) by (auto simp: procs_inv_def)
    then show ?thesis
      by (cases creating) (auto simp: claims_def pcb_frames_def pcb_update_map [OF inv_distinct [OF inv]])
  qed
  have "owned_exactly fr (map (\<lambda>(k, fs). (k, if k = pid then [] else fs)) (claims ps creating))"
    using inv_owned [OF inv] \<open>pid \<noteq> 0\<close> claims_pids(2) [OF inv] unfolding owned_exactly_def
    by (auto simp: owner image_iff case_prod_beta split: if_splits)
  then have owners: "owners_inv fr (claims (ps\<lparr>ps_pcbs := pcb_update pid ?f (ps_pcbs ps)\<rparr>) creating)"
    using claims_pids [OF inv] unfolding cls by (subst owners_inv_iff) (simp_all add: o_def case_prod_beta image_image)
  let ?ps = "ps\<lparr>ps_pcbs := pcb_update pid ?f (ps_pcbs ps), ps_queue := ps_queue ps, ps_current := None, ps_frames := fr\<rparr>"
  have "procs_inv ?ps images creating"
  proof (rule inv_change_pcb [OF inv p(1,2) _ _ _ _ _ _ _ owners])
    show "pcb_ok images (?f p)" using inv p(1) st by (auto simp: procs_inv_def pcb_ok_def)
    show "\<And>q. q \<in> set (ps_pcbs ps) \<Longrightarrow> pcb_pid q \<noteq> pid \<Longrightarrow> pcb_state q = Running \<longleftrightarrow> None = Some (pcb_pid q)"
      using inv cur by (simp add: procs_inv_def)
    show "distinct (ps_queue ps)" using inv by (simp add: procs_inv_def)
  qed (use p(5) st in auto)
  moreover have "end_current ps st = Ok (pid, ?ps)" by (simp add: end_current_def st cur p(4) fr)
  ultimately show thesis
    using pool.release_wf [OF wf fr] owner
    by (intro that [of ?ps]) (simp_all add: pcb_update_map [OF inv_distinct [OF inv]])
qed

lemma owned_by_sorted:
  assumes "frames_wf fr"
  shows "sorted_wrt (<) (owned_by fr pid)" "set (owned_by fr pid) = {q. frame_owner fr q = Some pid}"
proof -
  let ?idx = "filter (\<lambda>i. fr_owners fr ! i = pid) [0..<length (fr_owners fr)]"
  have "enumerate 0 (fr_owners fr) = map (\<lambda>i. (i, fr_owners fr ! i)) [0..<length (fr_owners fr)]"
    by (rule nth_equalityI) (simp_all add: nth_enumerate_eq)
  then have eq: "owned_by fr pid = map (\<lambda>i. fr_base fr + of_nat i) ?idx"
    by (simp add: owned_by_def filter_map o_def)
  show "set (owned_by fr pid) = {q. frame_owner fr q = Some pid}"
    by (auto simp: eq frame_owner_iff [OF assms])
  have "sorted_wrt (<) ?idx" by (intro sorted_wrt_filter) simp
  then show "sorted_wrt (<) (owned_by fr pid)"
    unfolding eq sorted_wrt_map
    by (rule sorted_wrt_mono_rel [rotated]) (use ppn_nowrap(2) [OF assms] in \<open>auto simp: word_less_nat_alt\<close>)
qed

lemma admit_Ok:
  assumes inv: "procs_inv ps images (Some (pid, fs))" and wf: "frames_wf (ps_frames ps)" and above: "\<forall>p\<in>set (ps_pcbs ps). pcb_pid p < pid"
    and p: "pcb_pid p = pid" "pcb_state p = Ready" "pcb_context p \<noteq> None" "mset (pcb_frames p) = mset fs"
      "pcb_tables p \<noteq> []" "pcb_tables p ! 0 = pcb_root p" "pcb_regions p \<noteq> []"
  shows "admit ps p = Ok (ps\<lparr>ps_queue := ps_queue ps @ [pid], ps_pcbs := ps_pcbs ps @ [p]\<rparr>)"
    and "procs_inv (ps\<lparr>ps_queue := ps_queue ps @ [pid], ps_pcbs := ps_pcbs ps @ [p]\<rparr>) images None"
proof -
  let ?ps = "ps\<lparr>ps_queue := ps_queue ps @ [pid], ps_pcbs := ps_pcbs ps @ [p]\<rparr>"
  have "(pid, fs) \<in> set (claims ps (Some (pid, fs)))" by (simp add: claims_def)
  then have fs: "distinct fs" "set fs = {q. frame_owner (ps_frames ps) q = Some pid}"
    using inv_owned [OF inv] by (auto simp: owned_exactly_def)
  have same: "set (pcb_frames p) = set fs" "distinct (pcb_frames p)"
    using p(4) fs(1) by (metis set_mset_mset, metis mset_eq_imp_distinct_iff)
  note own = owned_by_sorted [OF wf, of pid]
  have "sort (pcb_frames p) = owned_by (ps_frames ps) pid"
    by (rule sorted_distinct_set_unique)
      (use own same fs in \<open>auto simp: strict_sorted_iff\<close>)
  moreover have "pcb_pid (List.last (ps_pcbs ps)) < pid" if "ps_pcbs ps \<noteq> []"
    using above last_in_set [OF that] by blast
  ultimately show "admit ps p = Ok ?ps" using p(1-3) by (auto simp: admit_def not_le)
  have "owned_exactly (ps_frames ps) (claims ?ps None)"
    using inv_owned [OF inv] same fs p(1) by (auto simp: owned_exactly_def claims_def)
  moreover have cl: "map fst (claims ?ps None) = map fst (claims ps (Some (pid, fs)))" by (simp add: claims_def p(1))
  then have "fst ` set (claims ?ps None) = fst ` set (claims ps (Some (pid, fs)))" by (metis set_map)
  ultimately have "owners_inv (ps_frames ps) (claims ?ps None)"
    using claims_pids [OF inv] cl by (subst owners_inv_iff) simp_all
  moreover have ok: "pcb_ok images p" using inv p by (auto simp: pcb_ok_def procs_inv_def)
  moreover have "pid \<notin> set (ps_queue ps)" using inv above by (auto simp: procs_inv_def)
  moreover have "ps_current ps \<noteq> Some pid" using inv above by (auto simp: procs_inv_def)
  ultimately show "procs_inv ?ps images None"
    using inv above p unfolding procs_inv_def by (cases "ps_current ps") (auto simp: sorted_wrt_append)
qed

lemma reserve_inv:
  assumes inv: "procs_inv ps images None" and wf: "frames_wf (ps_frames ps)" and r: "reserve (ps_frames ps) pid n = (Ok (Some fs), fr)"
    and pid: "unat pid \<le> images" "pid \<notin> pcb_pid ` set (ps_pcbs ps)"
  shows "procs_inv (ps\<lparr>ps_frames := fr\<rparr>) images (Some (pid, fs))" "frames_wf fr" "distinct fs" "length fs = n"
    and "\<forall>q\<in>set fs. frame_owner (ps_frames ps) q = Some 0"
proof -
  let ?fr = "ps_frames ps"
  have "pid \<noteq> 0" by (rule pool.reserve_pid [OF r])
  show wf': "frames_wf fr" by (rule pool.reserve_wf [OF wf r])
  have fs_eq: "fs = map (\<lambda>i. fr_base ?fr + of_nat i) (take n (free_indices (fr_owners ?fr)))" and n: "n \<le> length (free_indices (fr_owners ?fr))"
    using reserve_Some [OF r] by auto
  show "length fs = n" using fs_eq n by simp
  have "inj_on (\<lambda>i. fr_base ?fr + of_nat i) (set (free_indices (fr_owners ?fr)))"
    using ppn_nowrap(2) [OF wf] by (auto simp: inj_on_def set_free_indices) (metis add_left_cancel)
  moreover have "distinct (free_indices (fr_owners ?fr))" using free_indices_sorted strict_sorted_iff by blast
  ultimately show dist: "distinct fs"
    unfolding fs_eq by (auto simp: distinct_map intro: inj_on_subset dest: in_set_takeD)
  show free: "\<forall>q\<in>set fs. frame_owner ?fr q = Some 0" using pool.reserve_free [OF wf r] by blast
  have owner: "frame_owner fr q = (if q \<in> set fs then Some pid else frame_owner ?fr q)" for q by (rule pool.reserve_owner [OF wf r])
  have unowned: "frame_owner ?fr q \<noteq> Some pid" for q
    using inv_owned [OF inv] \<open>pid \<noteq> 0\<close> pid(2) unfolding owned_exactly_def claims_def by force
  have "owned_exactly fr (claims ps (Some (pid, fs)))"
    unfolding owned_exactly_def
  proof (intro conjI ballI allI impI; clarify)
    fix k gs assume c: "(k, gs) \<in> set (claims ps (Some (pid, fs)))"
    show "distinct gs \<and> set gs = {q. frame_owner fr q = Some k}"
    proof (cases "(k, gs) = (pid, fs)")
      case True
      then show ?thesis using dist unowned by (auto simp: owner)
    next
      case False
      then have c': "(k, gs) \<in> set (claims ps None)" using c by (auto simp: claims_def)
      then have "k \<noteq> pid" "k \<noteq> 0" using pid(2) claims_pids(2) [OF inv] by (force simp: claims_def)+
      then show ?thesis using inv_owned [OF inv] c' free by (force simp: owned_exactly_def owner)
    qed
  next
    fix q w assume "frame_owner fr q = Some w" "w \<notin> fst ` set (claims ps (Some (pid, fs)))"
    then show "w = 0" using inv_owned [OF inv] by (fastforce simp: owner owned_exactly_def claims_def split: if_splits)
  qed
  moreover have "distinct (map fst (claims ps (Some (pid, fs))))" "0 \<notin> fst ` set (claims ps (Some (pid, fs)))"
    using claims_pids [OF inv] pid(2) \<open>pid \<noteq> 0\<close> by (auto simp: claims_def o_def)
  ultimately have "owners_inv fr (claims (ps\<lparr>ps_frames := fr\<rparr>) (Some (pid, fs)))"
    by (simp add: owners_inv_iff claims_def)
  then show "procs_inv (ps\<lparr>ps_frames := fr\<rparr>) images (Some (pid, fs))"
    using inv pid \<open>pid \<noteq> 0\<close> by (simp add: procs_inv_def word_neq_0_conv)
qed

end
