(* ===== verification/Os_Syscall.thy ===== *)
theory Os_Syscall
  imports Os_Config Elf_ExecTable
begin

section \<open>System calls, write buffers, and the boot disk\<close>

text \<open>
  Models the ABI and the \<^verbatim>\<open>write\<close> buffer of \<^verbatim>\<open>components/os/src/syscall.rs\<close> (its page-table walk is in
  \<^verbatim>\<open>Os_Pte\<close>) and the registers and cursor of \<^verbatim>\<open>components/os/src/boot.rs\<close>. The lemmas show that the chunks of
  a buffer partition it.
\<close>

definition SYS_WRITE :: u32 where "SYS_WRITE = 64"
definition SYS_EXIT :: u32 where "SYS_EXIT = 93"
definition SYS_EXIT_GROUP :: u32 where "SYS_EXIT_GROUP = 94"
definition SYS_SCHED_YIELD :: u32 where "SYS_SCHED_YIELD = 124"
definition SYS_GETPID :: u32 where "SYS_GETPID = 172"
definition EBADF :: u32 where "EBADF = 9"
definition EFAULT :: u32 where "EFAULT = 14"
definition ENOSYS :: u32 where "ENOSYS = 38"
definition WRITE_MAX :: u32 where "WRITE_MAX = 4096"
definition FRAME_A0 :: u64 where "FRAME_A0 = 0x24"
definition FRAME_A1 :: u64 where "FRAME_A1 = 0x28"
definition FRAME_A2 :: u64 where "FRAME_A2 = 0x2C"
definition FRAME_A7 :: u64 where "FRAME_A7 = 0x40"
definition A0 :: usize where "A0 = 9"

datatype Syscall = SysWrite | SysExit | SysExitGroup | SysSchedYield | SysGetPid | SysUnsupported u32

definition syscall_decode :: "u32 \<Rightarrow> Syscall" where
  "syscall_decode nr =
     (if nr = SYS_WRITE then SysWrite else if nr = SYS_EXIT then SysExit else if nr = SYS_EXIT_GROUP then SysExitGroup
      else if nr = SYS_SCHED_YIELD then SysSchedYield else if nr = SYS_GETPID then SysGetPid else SysUnsupported nr)"

definition neg :: "u32 \<Rightarrow> u32" where
  "neg errno = - errno"

record Buffer =
  bf_sepc :: u32
  bf_buf :: u32
  bf_n :: u32

definition Buffer_new :: "u32 \<Rightarrow> u32 \<Rightarrow> u32 \<Rightarrow> Buffer option" where
  "Buffer_new sepc buf n =
     (if 1 \<le> n \<and> n \<le> WRITE_MAX \<and> unat buf + unat n \<le> 2 ^ 32 then Some \<lparr>bf_sepc = sepc, bf_buf = buf, bf_n = n\<rparr> else None)"

definition buffer_pages :: "Buffer \<Rightarrow> usize" where
  "buffer_pages b =
     (let first = unat (bf_buf b) div PAGE; final = (unat (bf_buf b) + unat (bf_n b) - 1) div PAGE in final - first + 1)"

text \<open>
  The sums and products of \<^verbatim>\<open>page_va\<close> and \<^verbatim>\<open>chunk\<close> are unchecked \<^verbatim>\<open>u32\<close> arithmetic, a panic where they overflow or
  go below zero; \<open>page_addr\<close> and \<open>chunk_at\<close> are their values otherwise.
\<close>

definition page_addr :: "Buffer \<Rightarrow> usize \<Rightarrow> u32" where
  "page_addr b i = (bf_buf b AND NOT 0xFFF) + of_nat i * of_nat PAGE"

definition buffer_page_va :: "Buffer \<Rightarrow> usize \<Rightarrow> (u32, Abort) result" where
  "buffer_page_va b i =
     (let i32 = unat (of_nat i :: u32) in
      if i32 * PAGE > u32_max \<or> unat (bf_buf b AND NOT 0xFFF) + i32 * PAGE > u32_max then Err Panic else Ok (page_addr b i))"

definition chunk_at :: "Buffer \<Rightarrow> u32 \<Rightarrow> u32 \<times> u32" where
  "chunk_at b don =
     (let va = bf_buf b + don; len = min (min (bf_n b - don) 16) (of_nat PAGE - va mod of_nat PAGE) in (va, len))"

definition buffer_chunk :: "Buffer \<Rightarrow> u32 \<Rightarrow> (u32 \<times> u32, Abort) result" where
  "buffer_chunk b don = (if unat (bf_buf b) + unat don > u32_max \<or> bf_n b < don then Err Panic else Ok (chunk_at b don))"

text \<open>The length of a chunk that starts inside the buffer, over natural numbers.\<close>

lemma chunk_at_len:
  assumes "don < bf_n b"
  shows "unat (snd (chunk_at b don)) =
      min (min (unat (bf_n b) - unat don) 16) (4096 - unat (bf_buf b + don) mod 4096)"
    and "0 < unat (snd (chunk_at b don))" and "unat don + unat (snd (chunk_at b don)) \<le> unat (bf_n b)"
proof -
  have d: "unat don < unat (bf_n b)" using assms by (simp add: word_less_nat_alt)
  have m: "unat ((bf_buf b + don) mod 4096) = unat (bf_buf b + don) mod 4096" by (simp add: unat_mod)
  have "unat (bf_buf b + don) mod 4096 < 4096" by simp
  then have "(bf_buf b + don) mod 4096 \<le> 4096" using m by (simp add: word_le_nat_alt)
  then have p: "unat (4096 - (bf_buf b + don) mod 4096) = 4096 - unat (bf_buf b + don) mod 4096"
    using m by (simp add: unat_sub)
  have n: "unat (bf_n b - don) = unat (bf_n b) - unat don" using assms by (simp add: unat_sub less_imp_le)
  have min_unat: "unat (min x y) = min (unat x) (unat y)" for x y :: u32 by (simp add: min_def word_le_nat_alt)
  show len: "unat (snd (chunk_at b don)) =
      min (min (unat (bf_n b) - unat don) 16) (4096 - unat (bf_buf b + don) mod 4096)"
    by (simp add: chunk_at_def Let_def min_unat PAGE_def p n)
  show "0 < unat (snd (chunk_at b don))" "unat don + unat (snd (chunk_at b don)) \<le> unat (bf_n b)"
    unfolding len using d \<open>unat (bf_buf b + don) mod 4096 < 4096\<close> by simp_all
qed

lemma chunk_at_step:
  assumes "don < bf_n b"
  shows "unat (don + snd (chunk_at b don)) = unat don + unat (snd (chunk_at b don))"
proof (rule unat_add_exact)
  have "unat don + unat (snd (chunk_at b don)) < 4294967296"
    by (rule le_less_trans [OF chunk_at_len(3) [OF assms] unat_less_2p32])
  then show "unat don + unat (snd (chunk_at b don)) < 2 ^ 32" by simp
qed

text \<open>A buffer as \<^verbatim>\<open>Buffer::new\<close> makes it: inside its pages and at its chunks nothing overflows.\<close>

definition buffer_ok :: "Buffer \<Rightarrow> bool" where
  "buffer_ok b \<longleftrightarrow> 0 < unat (bf_n b) \<and> unat (bf_n b) \<le> 4096 \<and> unat (bf_buf b) + unat (bf_n b) \<le> 2 ^ 32"

lemma buffer_chunk_Ok:
  assumes "buffer_ok b" "don < bf_n b"
  shows "buffer_chunk b don = Ok (chunk_at b don)"
  using assms by (auto simp: buffer_chunk_def buffer_ok_def u32_max_def word_less_nat_alt)

lemma page_base: "unat (w AND NOT 0xFFF) = unat w div 4096 * 4096" for w :: u32
proof -
  have mask: "w AND 0xFFF = w AND mask 12" by (simp add: mask_eq_exp_minus_1)
  have "(w AND NOT m) + (w AND m) = w" for m :: u32
  proof -
    have "(w AND NOT m) AND (w AND m) = 0" "(w AND NOT m) OR (w AND m) = w" by (auto intro!: bit_eqI simp: bit_simps)
    then show ?thesis using word_plus_and_or [of "w AND NOT m" "w AND m"] by simp
  qed
  from this [of "0xFFF"] have "(w AND NOT 0xFFF) + (w AND 0xFFF) = w" .
  then have "w - (w AND NOT 0xFFF) = w AND 0xFFF" by (simp add: algebra_simps)
  moreover have "unat (w - (w AND NOT 0xFFF)) = unat w - unat (w AND NOT 0xFFF)" by (intro unat_sub word_and_le2)
  moreover have "unat (w AND NOT 0xFFF) \<le> unat w" using word_and_le2 by (simp only: word_le_nat_alt [symmetric])
  moreover have "unat (w AND 0xFFF) = unat w mod 4096" unfolding mask unat_and_mask by simp
  ultimately have "unat (w AND NOT 0xFFF) = unat w - unat w mod 4096" by (metis diff_diff_cancel)
  then show ?thesis by (simp add: minus_mod_eq_div_mult)
qed

lemma buffer_page_va_Ok:
  assumes "buffer_ok b" "i < buffer_pages b"
  shows "buffer_page_va b i = Ok (page_addr b i)"
proof -
  let ?b = "unat (bf_buf b)"
  have fits: "?b + unat (bf_n b) - 1 < 4294967296" "1 \<le> unat (bf_n b)" using assms(1) by (auto simp: buffer_ok_def)
  have i: "i \<le> (?b + unat (bf_n b) - 1) div 4096 - ?b div 4096" using assms(2) by (simp add: buffer_pages_def PAGE_def Let_def)
  have mono: "?b div 4096 \<le> (?b + unat (bf_n b) - 1) div 4096" using fits by (intro div_le_mono) simp
  have top: "(?b + unat (bf_n b) - 1) div 4096 < 1048576" using fits(1) by simp
  then have "unat (of_nat i :: u32) = i" using i by (intro unat_of_nat_exact) simp
  moreover have "?b div 4096 * 4096 + i * 4096 \<le> 4294967295" "i * 4096 \<le> 4294967295" using i mono top by linarith+
  ultimately show ?thesis unfolding buffer_page_va_def page_base by (simp add: PAGE_def u32_max_def)
qed

function is_chunk_start_from :: "Buffer \<Rightarrow> u32 \<Rightarrow> u32 \<Rightarrow> (bool, Abort) result" where
  "is_chunk_start_from b don at =
     (if at < bf_n b then
        (if at = don then Ok True
         else (case buffer_chunk b at of Err e \<Rightarrow> Err e | Ok (va, len) \<Rightarrow> is_chunk_start_from b don (at + len)))
      else Ok False)"
  by pat_completeness auto

termination
proof (relation "measure (\<lambda>(b, don, at). unat (bf_n b) - unat at)", goal_cases)
  case (2 b don at x va len)
  then have "len = snd (chunk_at b at)" by (auto simp: buffer_chunk_def split: if_splits)
  then show ?case
    using chunk_at_len(2,3) [OF 2(1)] chunk_at_step [OF 2(1)] 2(1) by (simp add: word_less_nat_alt)
qed simp

declare is_chunk_start_from.simps [simp del]

definition is_chunk_start :: "Buffer \<Rightarrow> u32 \<Rightarrow> (bool, Abort) result" where
  "is_chunk_start b don = is_chunk_start_from b don 0"

subsection \<open>Booting from disk\<close>

definition BLK_COMMAND :: u64 where "BLK_COMMAND = 0x00"
definition BLK_STATUS :: u64 where "BLK_STATUS = 0x04"
definition BLK_LBA :: u64 where "BLK_LBA = 0x08"
definition BLK_MEM_ADDR :: u64 where "BLK_MEM_ADDR = 0x0C"
definition BLK_BLOCK_COUNT :: u64 where "BLK_BLOCK_COUNT = 0x10"
definition BLK_ACK :: u64 where "BLK_ACK = 0x18"
definition OP_READ :: u32 where "OP_READ = 1"
definition STATUS_DONE :: u32 where "STATUS_DONE = push_bit 1 1"
definition STATUS_ERROR_SHIFT :: nat where "STATUS_ERROR_SHIFT = 8"
definition ACK_DONE :: u32 where "ACK_DONE = 1"
definition ELF_HEADER_BYTES :: u32 where "ELF_HEADER_BYTES = 52"

record Cursor =
  cu_table :: "ExecTable option"
  cu_index :: usize

definition cursor_table :: Cursor where
  "cursor_table = \<lparr>cu_table = None, cu_index = 0\<rparr>"

definition cursor_entry :: "Cursor \<Rightarrow> (ExecEntry option, Abort) result" where
  "cursor_entry c =
     (case cu_table c of
        None \<Rightarrow> Ok None
      | Some t \<Rightarrow> if cu_index c < length t then Ok (Some (t ! cu_index c)) else Err Panic)"

definition cursor_pid :: "Cursor \<Rightarrow> u32" where
  "cursor_pid c = of_nat (cu_index c) + 1"

definition cursor_transfer :: "Cursor \<Rightarrow> (u32 \<times> u32, Abort) result" where
  "cursor_transfer c =
     result_bind (cursor_entry c) (\<lambda>e. Ok (case e of None \<Rightarrow> (0, 1) | Some e \<Rightarrow> (start_lba e, entry_blocks e)))"

definition cursor_first_read :: "Cursor \<Rightarrow> (u32, Abort) result" where
  "cursor_first_read c =
     result_bind (cursor_entry c) (\<lambda>e. Ok (case e of None \<Rightarrow> of_nat BLOCK_SIZE | Some e \<Rightarrow> min (byte_len e) ELF_HEADER_BYTES))"

end
