(* ===== verification/Os_ProcOp.thy ===== *)
theory Os_ProcOp
  imports Os_Process Os_Syscall Elf_Display
begin

section \<open>The kernel's operations\<close>

text \<open>
  Models \<^verbatim>\<open>components/os/src/procop.rs\<close>: the stages of an operation with the accesses of each, and the
  decisions the kernel takes when a stage ends. A stage names the access due; a completion advances
  it; \<open>advance\<close> moves to the next stage. A slice, an index or an \<^verbatim>\<open>expect\<close> that fails is a panic, and a
  \<^verbatim>\<open>Violation\<close> faults the session: both end the operation, so the metadata after them is not kept.
\<close>

definition FRAME_SSTATUS :: u64 where "FRAME_SSTATUS = 0x80"
definition FRAME_SCAUSE :: u64 where "FRAME_SCAUSE = 0x84"
definition FRAME_STVAL :: u64 where "FRAME_STVAL = 0x88"
definition FRAME_SATP :: u64 where "FRAME_SATP = 0x8C"
definition SSTATUS_SPP :: u32 where "SSTATUS_SPP = push_bit 8 1"
definition ECALL_FROM_U :: u32 where "ECALL_FROM_U = 8"

datatype Life = AwaitBoot | Up | Down

record Note =
  note_kind :: string
  note_fields :: TraceFields

datatype Stage =
    StCreate u32 Space
  | StReadFrame
  | StDispatch u32 UserContext u32
  | StShutdown u32
  | StWalk Buffer "u32 list" u32 nat
  | StOutput Buffer "u32 list" u32
  | StReturn u32 u32
  | StCommand Cursor
  | StPoll Cursor
  | StAck Cursor u8
  | StStaged Cursor u32
  | StLoad Cursor "u8 list" UserImage Space

fun Stage_name :: "Stage \<Rightarrow> string" where
  "Stage_name (StCreate _ _) = ''create''"
| "Stage_name StReadFrame = ''read_frame''"
| "Stage_name (StDispatch _ _ _) = ''dispatch''"
| "Stage_name (StShutdown _) = ''shutdown''"
| "Stage_name (StWalk _ _ _ _) = ''walk''"
| "Stage_name (StOutput _ _ _) = ''output''"
| "Stage_name (StReturn _ _) = ''return''"
| "Stage_name (StCommand _) = ''blk_command''"
| "Stage_name (StPoll _) = ''blk_poll''"
| "Stage_name (StAck _ _) = ''blk_ack''"
| "Stage_name (StStaged _ _) = ''read_staging''"
| "Stage_name (StLoad _ _ _ _) = ''load''"

record ProcOp =
  po_stage :: Stage
  po_step :: u32
  po_data :: "u8 list"

definition dispatch_chunks :: "KernelConfig \<Rightarrow> (u64 \<times> u64) list" where
  "dispatch_chunks cfg =
     (let base = unat (kc_trap_frame cfg) in projr (chunks base CONTEXT_BYTES) @ projr (chunks (base + FRAME_SATP) 8))"

lemma dispatch_chunks_Ok:
  "result_bind (chunks (unat (kc_trap_frame cfg)) CONTEXT_BYTES) (\<lambda>out.
     result_bind (chunks (unat (kc_trap_frame cfg) + FRAME_SATP) 8) (\<lambda>more. Ok (out @ more))) = Ok (dispatch_chunks cfg)"
  "dispatch_chunks cfg = split_range (unat (kc_trap_frame cfg)) CONTEXT_BYTES @ split_range (unat (kc_trap_frame cfg) + FRAME_SATP) 8"
  using chunks_trap_frame [of 0 CONTEXT_BYTES "kc_trap_frame cfg"] chunks_trap_frame [of FRAME_SATP 8 "kc_trap_frame cfg"]
  by (simp_all add: dispatch_chunks_def CONTEXT_BYTES_def FRAME_SATP_def Let_def)

definition staged_chunks :: "KernelConfig \<Rightarrow> u32 \<Rightarrow> ((u64 \<times> u64) list, Abort) result" where
  "staged_chunks cfg len = chunks (win_base (kc_staging cfg)) (unat len)"

definition read_len :: "(u64 \<times> u64) list \<Rightarrow> u32 \<Rightarrow> (usize, Abort) result" where
  "read_len cs step = (if unat step \<le> length cs then Ok (sum_list (map snd (take (unat step) cs))) else Err Panic)"

definition buffer_physical :: "Buffer \<Rightarrow> u32 list \<Rightarrow> u32 \<Rightarrow> (u64, Abort) result" where
  "buffer_physical b pgs va =
     (let page = unat (drop_bit 12 va - drop_bit 12 (bf_buf b)) in
      if page < length pgs then Ok (unat (pgs ! page) * PAGE + unat (va AND 0xFFF)) else Err Panic)"

definition data_word :: "u8 list \<Rightarrow> u64 \<Rightarrow> (u32, Abort) result" where
  "data_word fr offset = ok_or (map_option u32_from_le_bytes (slice_get fr offset (offset + 4))) Panic"

definition scause_name :: "u32 \<Rightarrow> string" where
  "scause_name scause =
     (if scause = 0 then ''InstructionAddressMisaligned'' else if scause = 1 then ''InstructionAccessFault''
      else if scause = 2 then ''IllegalInstruction'' else if scause = 3 then ''Breakpoint''
      else if scause = 4 then ''LoadAddressMisaligned'' else if scause = 5 then ''LoadAccessFault''
      else if scause = 6 then ''StoreAddressMisaligned'' else if scause = 7 then ''StoreAccessFault''
      else if scause = 8 then ''EnvironmentCallFromU'' else if scause = 9 then ''EnvironmentCallFromS''
      else if scause = 12 then ''InstructionPageFault'' else if scause = 13 then ''LoadPageFault''
      else if scause = 15 then ''StorePageFault'' else ''scause '' @ fmt_hex (unat scause))"

definition ProcOp_new :: "Stage \<Rightarrow> ProcOp" where
  "ProcOp_new stage = \<lparr>po_stage = stage, po_step = 0, po_data = []\<rparr>"

definition bounded :: "nat \<Rightarrow> (u32, Abort) result" where
  "bounded n = (if n \<le> u32_max then Ok (of_nat n) else Err Panic)"

fun stage_steps :: "KernelConfig \<Rightarrow> Stage \<Rightarrow> (u32, Abort) result" where
  "stage_steps cfg (StCreate _ s) = space_steps s"
| "stage_steps cfg (StLoad _ _ _ s) = space_steps s"
| "stage_steps cfg StReadFrame = bounded (length (frame_chunks cfg))"
| "stage_steps cfg (StDispatch _ _ _) = bounded (length (dispatch_chunks cfg))"
| "stage_steps cfg (StShutdown _) = bounded (length (shutdown_chunks cfg))"
| "stage_steps cfg (StWalk _ _ _ _) = bounded 1"
| "stage_steps cfg (StOutput b _ don) = result_bind (buffer_chunk b don) (\<lambda>chunk. bounded (1 + unat (snd chunk)))"
| "stage_steps cfg (StReturn _ _) = bounded 2"
| "stage_steps cfg (StCommand _) = bounded 4"
| "stage_steps cfg (StPoll _) = bounded 1"
| "stage_steps cfg (StAck _ _) = bounded 1"
| "stage_steps cfg (StStaged _ len) = result_bind (staged_chunks cfg len) (\<lambda>cs. bounded (length cs))"

fun stage_data_len :: "KernelConfig \<Rightarrow> Stage \<Rightarrow> u32 \<Rightarrow> (usize, Abort) result" where
  "stage_data_len cfg (StCreate _ s) step = Ok (space_data_len s step)"
| "stage_data_len cfg (StLoad _ _ _ s) step = Ok (space_data_len s step)"
| "stage_data_len cfg StReadFrame step = read_len (frame_chunks cfg) step"
| "stage_data_len cfg (StStaged _ len) step = result_bind (staged_chunks cfg len) (\<lambda>cs. read_len cs step)"
| "stage_data_len cfg (StOutput b _ don) step =
     (if step > 0 then result_bind (buffer_chunk b don) (\<lambda>chunk. Ok (unat (snd chunk))) else Ok 0)"
| "stage_data_len cfg _ step = Ok 0"

definition procop_from_parts :: "KernelConfig \<Rightarrow> Stage \<Rightarrow> u32 \<Rightarrow> u8 list \<Rightarrow> (ProcOp option, Abort) result" where
  "procop_from_parts cfg stage step data =
     result_bind (stage_steps cfg stage) (\<lambda>n.
       if step < n then
         result_bind (stage_data_len cfg stage step) (\<lambda>len.
           Ok (if length data = len then Some \<lparr>po_stage = stage, po_step = step, po_data = data\<rparr> else None))
       else Ok None)"

definition written :: "nat \<Rightarrow> (u64 \<times> u64) list \<Rightarrow> u64 \<Rightarrow> u8 list \<Rightarrow> (KAccess option, Abort) result" where
  "written step cs base bytes =
     (if step < length cs then (case cs ! step of (addr, len) \<Rightarrow> write_slice base bytes addr len) else Ok None)"

definition read_chunk :: "nat \<Rightarrow> (u64 \<times> u64) list \<Rightarrow> KAccess option" where
  "read_chunk step cs = (if step < length cs then (case cs ! step of (addr, len) \<Rightarrow> Some (KRead addr (of_nat len))) else None)"

definition dispatch_bytes :: "UserContext \<Rightarrow> u32 \<Rightarrow> u8 list" where
  "dispatch_bytes c satp =
     slice_put (slice_put (replicate FRAME_BYTES 0) 0 (context_to_frame c)) FRAME_SATP (u32_to_le_bytes satp)"

definition command_regs :: "KernelConfig \<Rightarrow> u32 \<times> u32 \<Rightarrow> (u64 \<times> u32) list" where
  "command_regs cfg transfer =
     [(BLK_LBA, fst transfer), (BLK_MEM_ADDR, of_nat (win_base (kc_staging cfg))), (BLK_BLOCK_COUNT, snd transfer), (BLK_COMMAND, OP_READ)]"

fun stage_access :: "KernelConfig \<Rightarrow> Stage \<Rightarrow> u32 \<Rightarrow> u8 list \<Rightarrow> (KAccess option, Abort) result" where
  "stage_access cfg (StCreate _ s) step data = Ok (space_access s step data)"
| "stage_access cfg (StLoad _ _ _ s) step data = Ok (space_access s step data)"
| "stage_access cfg StReadFrame step data = Ok (read_chunk (unat step) (frame_chunks cfg))"
| "stage_access cfg (StDispatch _ c satp) step data =
     written (unat step) (dispatch_chunks cfg) (unat (kc_trap_frame cfg)) (dispatch_bytes c satp)"
| "stage_access cfg (StShutdown reason) step data =
     written (unat step) (shutdown_chunks cfg) (unat (kc_trap_frame cfg) + FRAME_ACTION)
       (u32_to_le_bytes 1 @ u32_to_le_bytes reason)"
| "stage_access cfg (StWalk b pgs table level) step data =
     (if step = 0 then
        result_bind (buffer_page_va b (length pgs)) (\<lambda>va. Ok (Some (KRead (user_pte_address table va level) 4)))
      else Ok None)"
| "stage_access cfg (StOutput b pgs don) step data =
     result_bind (buffer_chunk b don) (\<lambda>(va, len).
        if step = 0 then result_bind (buffer_physical b pgs va) (\<lambda>addr. Ok (Some (KRead addr len)))
        else if unat step \<le> unat len then
          (if unat step - 1 < length data then Ok (Some (KWrite (kc_uart_tx cfg) [data ! (unat step - 1)])) else Err Panic)
        else Ok None)"
| "stage_access cfg (StReturn sepc v) step data =
     Ok (if step = 0 then Some (KWrite (unat (kc_trap_frame cfg) + FRAME_A0) (u32_to_le_bytes v))
         else if step = 1 then Some (KWrite (unat (kc_trap_frame cfg) + FRAME_SEPC) (u32_to_le_bytes (sepc + 4)))
         else None)"
| "stage_access cfg (StCommand c) step data =
     result_bind (cursor_transfer c) (\<lambda>transfer.
       (let regs = command_regs cfg transfer in
        Ok (if unat step < length regs
            then (case regs ! unat step of (offset, v) \<Rightarrow> Some (KWrite (win_base (kc_blk cfg) + offset) (u32_to_le_bytes v)))
            else None)))"
| "stage_access cfg (StPoll _) step data = Ok (if step = 0 then Some (KRead (win_base (kc_blk cfg) + BLK_STATUS) 4) else None)"
| "stage_access cfg (StAck _ _) step data =
     Ok (if step = 0 then Some (KWrite (win_base (kc_blk cfg) + BLK_ACK) (u32_to_le_bytes ACK_DONE)) else None)"
| "stage_access cfg (StStaged _ len) step data =
     result_bind (staged_chunks cfg len) (\<lambda>cs. Ok (read_chunk (unat step) cs))"

definition procop_access :: "KernelConfig \<Rightarrow> ProcOp \<Rightarrow> (KAccess option, Abort) result" where
  "procop_access cfg p = stage_access cfg (po_stage p) (po_step p) (po_data p)"

definition procop_advance :: "KernelConfig \<Rightarrow> ProcOp \<Rightarrow> u8 list \<Rightarrow> (ProcOp, Abort) result" where
  "procop_advance cfg p data =
     (let p = p\<lparr>po_data := po_data p @ data, po_step := po_step p + 1\<rparr> in
      result_bind (stage_steps cfg (po_stage p)) (\<lambda>n.
        if po_step p < n then
          result_bind (stage_data_len cfg (po_stage p) (po_step p)) (\<lambda>len.
            Ok (if length (po_data p) \<noteq> len then p\<lparr>po_data := []\<rparr> else p))
        else Ok p))"

definition procop_complete :: "KernelConfig \<Rightarrow> ProcOp \<Rightarrow> Completion \<Rightarrow> ((ProcOp, CoreError) result, Abort) result" where
  "procop_complete cfg p completion =
     result_bind (procop_access cfg p) (\<lambda>access.
       (case (access, completion) of
          (None, _) \<Rightarrow> Ok (Err CoreFinished)
        | (Some (KRead _ len), CompData data) \<Rightarrow>
            if length data \<noteq> unat len then Ok (Err CoreDataLength)
            else result_bind (procop_advance cfg p data) (\<lambda>p. Ok (Ok p))
        | (Some (KWrite _ _), CompWritten) \<Rightarrow> result_bind (procop_advance cfg p []) (\<lambda>p. Ok (Ok p))
        | _ \<Rightarrow> Ok (Err CoreWrongKind)))"

definition procop_is_finished :: "KernelConfig \<Rightarrow> ProcOp \<Rightarrow> (bool, Abort) result" where
  "procop_is_finished cfg p = result_bind (stage_steps cfg (po_stage p)) (\<lambda>n. Ok (po_step p \<ge> n))"

end
