(* ===== verification/Os_Model.thy ===== *)
theory Os_Model
  imports Os_ProcOp
begin

section \<open>The kernel's decisions\<close>

text \<open>
  Models \<^verbatim>\<open>Source\<close> and \<^verbatim>\<open>Model\<close> of \<^verbatim>\<open>components/os/src/procop.rs\<close>: what an \<^verbatim>\<open>ENTER\<close> starts, and what follows a
  finished stage. The trace records an operation asks for are the list \<open>notes\<close>, in order. The main result
  is that a kernel built from a checked configuration never breaks its own rules: whatever the bytes
  its accesses return, no operation ends in a violation or a panic, and after every decision the
  process table passes its check.
\<close>

datatype Source = Plan ProcessPlan | Disk DiskBoot

fun source_layout :: "Source \<Rightarrow> UserLayout" where
  "source_layout (Plan p) = pl_layout p"
| "source_layout (Disk d) = db_layout d"

record Model =
  md_source :: Source
  md_entries :: usize
  md_procs :: Processes
  md_life :: Life

datatype ModelError = ModelViolation Violation | ModelPanic

type_synonym 'a model_result = "('a \<times> Model \<times> Note list, ModelError) result"

definition violation :: "('a, Violation) result \<Rightarrow> ('a, ModelError) result" where
  "violation r = (case r of Ok x \<Rightarrow> Ok x | Err v \<Rightarrow> Err (ModelViolation v))"

definition panic :: "('a, Abort) result \<Rightarrow> ('a, ModelError) result" where
  "panic r = (case r of Ok x \<Rightarrow> Ok x | Err _ \<Rightarrow> Err ModelPanic)"

definition VNat :: "u32 \<Rightarrow> TraceValue" where
  "VNat w = VU64 (unat w)"

definition shutdown_note :: "u32 \<Rightarrow> string \<Rightarrow> Note" where
  "shutdown_note reason detail = \<lparr>note_kind = ''os.shutdown'', note_fields = [(''reason'', VNat reason), (''detail'', VStr detail)]\<rparr>"

definition exit_note :: "u32 \<Rightarrow> u32 \<Rightarrow> u32 \<Rightarrow> Note" where
  "exit_note pid nr ret = \<lparr>note_kind = ''os.syscall.exit'', note_fields = [(''pid'', VNat pid), (''nr'', VNat nr), (''ret'', VNat ret)]\<rparr>"

definition create_error :: "u32 \<Rightarrow> u32 \<Rightarrow> string \<Rightarrow> Note" where
  "create_error pid entry error = \<lparr>note_kind = ''os.process.create'',
     note_fields = [(''pid'', VNat pid), (''entry'', VNat entry), (''root'', VU64 0), (''error'', VStr error)]\<rparr>"

definition boot_note :: "usize \<Rightarrow> Note" where
  "boot_note entries = \<lparr>note_kind = ''os.boot'', note_fields = [(''entries'', VU64 entries)]\<rparr>"

definition Model_new :: "Source \<Rightarrow> Processes \<Rightarrow> Model" where
  "Model_new source procs =
     \<lparr>md_source = source, md_entries = (case source of Plan p \<Rightarrow> length (pl_images p) | Disk _ \<Rightarrow> 0),
      md_procs = procs, md_life = AwaitBoot\<rparr>"

definition model_op_name :: "KernelConfig \<Rightarrow> Model \<Rightarrow> u32 \<Rightarrow> string" where
  "model_op_name cfg m v =
     (if v \<noteq> kc_trap_frame cfg then ''shutdown'' else if md_life m = AwaitBoot then ''boot'' else ''trap'')"

definition empty_queue_reason :: "Model \<Rightarrow> u32" where
  "empty_queue_reason m =
     (let pcbs = ps_pcbs (md_procs m);
          clean = (length pcbs = md_entries m \<and> list_all (\<lambda>p. pcb_state p = Exited 0) pcbs)
      in of_bool (\<not> clean))"

definition dispatch_next :: "Model \<Rightarrow> u32 \<Rightarrow> Note list \<Rightarrow> ProcOp model_result" where
  "dispatch_next m from_pid notes =
     result_bind (violation (schedule_next (md_procs m))) (\<lambda>(r, ps).
       (case r of
          Some (pid, c) \<Rightarrow>
            (case pcb_of ps pid of
               None \<Rightarrow> Err ModelPanic
             | Some p \<Rightarrow>
                 Ok (ProcOp_new (StDispatch pid c (satp_of (pcb_root p))), m\<lparr>md_procs := ps\<rparr>,
                     notes @ [\<lparr>note_kind = ''os.process.switch'', note_fields = [(''from'', VNat from_pid), (''to'', VNat pid)]\<rparr>]))
        | None \<Rightarrow>
            (let m = m\<lparr>md_procs := ps\<rparr>; reason = empty_queue_reason m in
             Ok (ProcOp_new (StShutdown reason), m\<lparr>md_life := Down\<rparr>, notes @ [shutdown_note reason ''the run queue is empty'']))))"

definition running_root :: "Model \<Rightarrow> (u32, Violation) result" where
  "running_root m =
     (case ps_current (md_procs m) of
        None \<Rightarrow> Err (Violation ''a syscall with no process running'')
      | Some pid \<Rightarrow>
          (case pcb_of (md_procs m) pid of
             None \<Rightarrow> Err (Violation ''running PID has no PCB'')
           | Some p \<Rightarrow> Ok (pcb_root p)))"

definition model_ret :: "Model \<Rightarrow> u32 \<Rightarrow> u32 \<Rightarrow> u32 \<Rightarrow> Note list \<Rightarrow> ProcOp model_result" where
  "model_ret m nr sepc v notes =
     (case ps_current (md_procs m) of
        None \<Rightarrow> Err (ModelViolation (Violation ''a syscall with no process running''))
      | Some pid \<Rightarrow> Ok (ProcOp_new (StReturn sepc v), m, notes @ [exit_note pid nr v]))"

definition enter_note :: "u32 \<Rightarrow> u32 \<Rightarrow> u32 \<Rightarrow> u32 \<Rightarrow> u32 \<Rightarrow> Note" where
  "enter_note pid nr a0 a1 a2 = \<lparr>note_kind = ''os.syscall.enter'',
     note_fields = [(''pid'', VNat pid), (''nr'', VNat nr), (''a0'', VNat a0), (''a1'', VNat a1), (''a2'', VNat a2)]\<rparr>"

definition syscall_write :: "Model \<Rightarrow> u32 \<Rightarrow> u32 \<Rightarrow> u32 \<Rightarrow> u32 \<Rightarrow> u32 \<Rightarrow> Note list \<Rightarrow> ProcOp model_result" where
  "syscall_write m nr sepc a0 a1 a2 notes =
     (if a0 \<noteq> 1 \<and> a0 \<noteq> 2 then model_ret m nr sepc (neg EBADF) notes
      else
        (let n = min a2 WRITE_MAX in
         if n = 0 then model_ret m nr sepc 0 notes
         else
           (case Buffer_new sepc a1 n of
              None \<Rightarrow> model_ret m nr sepc (neg EFAULT) notes
            | Some b \<Rightarrow>
                result_bind (violation (running_root m)) (\<lambda>root. Ok (ProcOp_new (StWalk b [] root 1), m, notes)))))"

definition model_syscall :: "Model \<Rightarrow> u8 list \<Rightarrow> Note list \<Rightarrow> ProcOp model_result" where
  "model_syscall m fr notes =
     (case ps_current (md_procs m) of
        None \<Rightarrow> Err (ModelViolation (Violation ''a syscall with no process running''))
      | Some pid \<Rightarrow>
          result_bind (panic (data_word fr FRAME_SEPC)) (\<lambda>sepc.
          result_bind (panic (data_word fr FRAME_A7)) (\<lambda>nr.
          result_bind (panic (data_word fr FRAME_A0)) (\<lambda>a0.
          result_bind (panic (data_word fr FRAME_A1)) (\<lambda>a1.
          result_bind (panic (data_word fr FRAME_A2)) (\<lambda>a2.
            (let notes = notes @ [enter_note pid nr a0 a1 a2] in
             case syscall_decode nr of
               SysGetPid \<Rightarrow> model_ret m nr sepc pid notes
             | SysUnsupported _ \<Rightarrow> model_ret m nr sepc (neg ENOSYS) notes
             | SysWrite \<Rightarrow> syscall_write m nr sepc a0 a1 a2 notes
             | SysSchedYield \<Rightarrow>
                 result_bind (panic (context_from_frame fr)) (\<lambda>c.
                   (let c = c\<lparr>uc_regs := (uc_regs c)[A0 := 0], uc_pc := sepc + 4\<rparr>;
                        notes = notes @ [exit_note pid nr 0]
                    in result_bind (violation (yield_current (md_procs m) c)) (\<lambda>(_, ps).
                         dispatch_next (m\<lparr>md_procs := ps\<rparr>) pid notes)))
             | _ \<Rightarrow>
                 (let status = sint a0 in
                  result_bind (violation (end_current (md_procs m) (Exited status))) (\<lambda>(_, ps).
                    dispatch_next (m\<lparr>md_procs := ps\<rparr>) pid
                      (notes @ [\<lparr>note_kind = ''os.process.exit'',
                         note_fields = [(''pid'', VNat pid), (''status'', VI64 status)]\<rparr>]))))))))))"

fun create_from :: "KernelConfig \<Rightarrow> UserLayout \<Rightarrow> (usize \<times> BootImage) list \<Rightarrow> Model \<Rightarrow> Note list \<Rightarrow> ProcOp model_result" where
  "create_from cfg layout [] m notes = dispatch_next m 0 notes"
| "create_from cfg layout ((index, boot) # rest) m notes =
     (let pid = of_nat index + 1 in
      if megapage_conflict (bi_image boot) cfg then
        create_from cfg layout rest m
          (notes @ [create_error pid (ui_entry (bi_image boot)) ''a segment is in a megapage slot''])
      else
        (case reserve (ps_frames (md_procs m)) pid (frames_needed (bi_image boot) layout) of
           (Err _, _) \<Rightarrow> Err ModelPanic
         | (Ok None, _) \<Rightarrow>
             create_from cfg layout rest m (notes @ [create_error pid (ui_entry (bi_image boot)) ''frame pool exhausted''])
         | (Ok (Some frames), fr) \<Rightarrow>
             result_bind (panic (Space_build cfg layout boot frames)) (\<lambda>s.
               Ok (ProcOp_new (StCreate pid s), m\<lparr>md_procs := (md_procs m)\<lparr>ps_frames := fr\<rparr>\<rparr>, notes))))"

definition next_creation :: "KernelConfig \<Rightarrow> Model \<Rightarrow> usize \<Rightarrow> Note list \<Rightarrow> ProcOp model_result" where
  "next_creation cfg m start notes =
     (case md_source m of
        Disk _ \<Rightarrow> Err (ModelViolation (Violation ''a plan creation without a plan''))
      | Plan plan \<Rightarrow> create_from cfg (pl_layout plan) (drop start (enumerate 0 (pl_images plan))) m notes)"

definition segment_note :: "u32 \<Rightarrow> UserSegment \<Rightarrow> Note" where
  "segment_note pid s = \<lparr>note_kind = ''os.load.segment'', note_fields =
     [(''pid'', VNat pid), (''va'', VNat (us_vaddr s)), (''memsz'', VNat (us_memsz s)), (''perms'', VStr (perm_str (us_perms s)))]\<rparr>"

definition model_admit :: "Model \<Rightarrow> u32 \<Rightarrow> UserImage \<Rightarrow> Space \<Rightarrow> Note list \<Rightarrow> (Model \<times> Note list, ModelError) result" where
  "model_admit m pid img s notes =
     (let c = context_initial (ui_entry img) (ul_stack_top (source_layout (md_source m))) in
      result_bind (violation (admit (md_procs m) (Pcb_new pid s c))) (\<lambda>ps.
        Ok (m\<lparr>md_procs := ps\<rparr>, notes @ map (segment_note pid) (ui_segments img)
          @ [\<lparr>note_kind = ''os.process.create'', note_fields =
               [(''pid'', VNat pid), (''entry'', VNat (ui_entry img)), (''root'', VNat (spc_root s)), (''error'', VStr [])]\<rparr>])))"

definition model_fail :: "Model \<Rightarrow> string \<Rightarrow> Note list \<Rightarrow> ProcOp \<times> Model \<times> Note list" where
  "model_fail m detail notes = (ProcOp_new (StShutdown 1), m\<lparr>md_life := Down\<rparr>, notes @ [shutdown_note 1 detail])"

definition next_load :: "Model \<Rightarrow> ExecTable option \<Rightarrow> usize \<Rightarrow> Note list \<Rightarrow> ProcOp model_result" where
  "next_load m table index notes =
     (case table of
        Some t \<Rightarrow>
          if index < length t then Ok (ProcOp_new (StCommand \<lparr>cu_table = Some t, cu_index = index\<rparr>), m, notes)
          else dispatch_next m 0 notes
      | None \<Rightarrow> dispatch_next m 0 notes)"

definition model_acked :: "Model \<Rightarrow> Cursor \<Rightarrow> u8 \<Rightarrow> Note list \<Rightarrow> ProcOp model_result" where
  "model_acked m c error notes =
     (if error = 0 then
        result_bind (panic (cursor_first_read c)) (\<lambda>len. Ok (ProcOp_new (StStaged c len), m, notes))
      else if cu_table c = None then
        Ok (model_fail m (''block controller error '' @ fmt_dec (unat error) @ '' reading the executable table'') notes)
      else next_load m (cu_table c) (cu_index c + 1)
             (notes @ [create_error (cursor_pid c) 0 (''block controller error '' @ fmt_dec (unat error))]))"

definition staged_table :: "KernelConfig \<Rightarrow> DiskBoot \<Rightarrow> Model \<Rightarrow> u8 list \<Rightarrow> Note list \<Rightarrow> ProcOp model_result" where
  "staged_table cfg disk m data notes =
     (if length data \<noteq> BLOCK_SIZE then Err (ModelViolation (Violation ''block 0 read is not one block''))
      else
        (case parse_exec_table data (db_capacity_blocks disk) (disk_staging_size cfg) of
           Err e \<Rightarrow> Ok (model_fail m (''invalid executable table: '' @ ExecTableError_display e) notes)
         | Ok table \<Rightarrow> next_load (m\<lparr>md_entries := length table\<rparr>) (Some table) 0 (notes @ [boot_note (length table)])))"

definition staged_image :: "KernelConfig \<Rightarrow> DiskBoot \<Rightarrow> Model \<Rightarrow> Cursor \<Rightarrow> ExecEntry \<Rightarrow> u8 list \<Rightarrow> UserImage \<Rightarrow> Note list \<Rightarrow> ProcOp model_result" where
  "staged_image cfg disk m c entry data img notes =
     (let pid = cursor_pid c in
      if megapage_conflict img cfg then
        next_load m (cu_table c) (cu_index c + 1) (notes @ [create_error pid (ui_entry img) ''a segment is in a megapage slot''])
      else
        (case reserve (ps_frames (md_procs m)) pid (frames_needed img (db_layout disk)) of
           (Err _, _) \<Rightarrow> Err ModelPanic
         | (Ok None, _) \<Rightarrow> next_load m (cu_table c) (cu_index c + 1) (notes @ [create_error pid (ui_entry img) ''frame pool exhausted''])
         | (Ok (Some frames), fr) \<Rightarrow>
             (let boot = \<lparr>bi_staged = of_nat (win_base (kc_staging cfg)), bi_file_len = byte_len entry, bi_image = img\<rparr> in
              result_bind (panic (Space_build cfg (db_layout disk) boot frames)) (\<lambda>s.
                Ok (ProcOp_new (StLoad c data img s), m\<lparr>md_procs := (md_procs m)\<lparr>ps_frames := fr\<rparr>\<rparr>, notes)))))"

definition model_staged :: "KernelConfig \<Rightarrow> Model \<Rightarrow> Cursor \<Rightarrow> u32 \<Rightarrow> u8 list \<Rightarrow> Note list \<Rightarrow> ProcOp model_result" where
  "model_staged cfg m c len data notes =
     (case md_source m of
        Plan _ \<Rightarrow> Err (ModelViolation (Violation ''a disk read without a disk''))
      | Disk disk \<Rightarrow>
          result_bind (panic (cursor_entry c)) (\<lambda>entry.
            (case entry of
               None \<Rightarrow> staged_table cfg disk m data notes
             | Some entry \<Rightarrow>
                 (case parse_user_elf32 data (byte_len entry) (image_range (db_layout disk)) of
                    Ok img \<Rightarrow> staged_image cfg disk m c entry data img notes
                  | Err e \<Rightarrow>
                      (case e of
                         PrefixTooShort needed \<Rightarrow>
                           if needed > len then Ok (ProcOp_new (StStaged c needed), m, notes)
                           else next_load m (cu_table c) (cu_index c + 1)
                                  (notes @ [create_error (cursor_pid c) 0 (UserElfError_display e)])
                       | _ \<Rightarrow> next_load m (cu_table c) (cu_index c + 1)
                                (notes @ [create_error (cursor_pid c) 0 (UserElfError_display e)]))))))"

definition model_decide :: "Model \<Rightarrow> u8 list \<Rightarrow> Note list \<Rightarrow> ProcOp model_result" where
  "model_decide m fr notes =
     result_bind (panic (data_word fr FRAME_SSTATUS)) (\<lambda>sstatus.
     result_bind (panic (data_word fr FRAME_SCAUSE)) (\<lambda>scause.
     result_bind (panic (data_word fr FRAME_SEPC)) (\<lambda>sepc.
     result_bind (panic (data_word fr FRAME_STVAL)) (\<lambda>stval.
       if sstatus AND SSTATUS_SPP \<noteq> 0 then Ok (model_fail m (''trap from S-mode: '' @ scause_name scause) notes)
       else if scause = ECALL_FROM_U then model_syscall m fr notes
       else
         result_bind (violation (end_current (md_procs m) (Faulted scause sepc stval))) (\<lambda>(pid, ps).
           dispatch_next (m\<lparr>md_procs := ps\<rparr>) pid
             (notes @ [\<lparr>note_kind = ''os.process.fault'', note_fields =
                [(''pid'', VNat pid), (''cause'', VStr (scause_name scause)), (''epc'', VNat sepc), (''tval'', VNat stval)]\<rparr>]))))))"

definition model_start :: "KernelConfig \<Rightarrow> Model \<Rightarrow> u32 \<Rightarrow> Note list \<Rightarrow> ProcOp model_result" where
  "model_start cfg m v notes =
     (if v \<noteq> kc_trap_frame cfg then
        (if md_life m = Down then Err (ModelViolation (Violation ''ENTER after the shutdown''))
         else Ok (model_fail m ''ENTER value is not the trap frame'' notes))
      else
        (case md_life m of
           AwaitBoot \<Rightarrow>
             (let m = m\<lparr>md_life := Up\<rparr> in
              case md_source m of
                Disk _ \<Rightarrow> Ok (ProcOp_new (StCommand cursor_table), m, notes)
              | Plan _ \<Rightarrow> next_creation cfg m 0 (notes @ [boot_note (md_entries m)]))
         | Up \<Rightarrow>
             (if ps_current (md_procs m) \<noteq> None then Ok (ProcOp_new StReadFrame, m, notes)
              else Err (ModelViolation (Violation ''ENTER with no process running'')))
         | Down \<Rightarrow> Err (ModelViolation (Violation ''ENTER after the shutdown''))))"

definition walk_next :: "Model \<Rightarrow> Buffer \<Rightarrow> u32 list \<Rightarrow> nat \<Rightarrow> u8 list \<Rightarrow> Note list \<Rightarrow> ProcOp model_result" where
  "walk_next m b pgs level data notes =
     result_bind (panic (data_word data 0)) (\<lambda>pte.
     result_bind (panic (buffer_page_va b (length pgs))) (\<lambda>va.
       (case user_walk_step pte level va of
          UserNext table \<Rightarrow> Ok (ProcOp_new (StWalk b pgs table 0), m, notes)
        | UserPage ppn \<Rightarrow>
            (let pgs = pgs @ [ppn] in
             if length pgs = buffer_pages b then Ok (ProcOp_new (StOutput b pgs 0), m, notes)
             else result_bind (violation (running_root m)) (\<lambda>root. Ok (ProcOp_new (StWalk b pgs root 1), m, notes)))
        | UserFault \<Rightarrow> model_ret m SYS_WRITE (bf_sepc b) (neg EFAULT) notes)))"

definition poll_next :: "Cursor \<Rightarrow> u32 \<Rightarrow> Stage" where
  "poll_next c status =
     (if status AND STATUS_DONE \<noteq> 0 then StAck c (ucast (drop_bit STATUS_ERROR_SHIFT status)) else StPoll c)"

definition some_op :: "ProcOp model_result \<Rightarrow> ProcOp option model_result" where
  "some_op r = result_bind r (\<lambda>(p, m, notes). Ok (Some p, m, notes))"

definition model_advance :: "KernelConfig \<Rightarrow> Model \<Rightarrow> ProcOp \<Rightarrow> Note list \<Rightarrow> ProcOp option model_result" where
  "model_advance cfg m p notes =
     (case po_stage p of
        StCreate pid s \<Rightarrow>
          (case md_source m of
             Disk _ \<Rightarrow> Err (ModelViolation (Violation ''a plan creation without a plan''))
           | Plan plan \<Rightarrow>
               if unat pid - 1 < length (pl_images plan) \<and> pid \<noteq> 0 then
                 result_bind (model_admit m pid (bi_image (pl_images plan ! (unat pid - 1))) s notes) (\<lambda>(m, notes).
                   some_op (next_creation cfg m (unat pid) notes))
               else Err ModelPanic)
      | StLoad c _ img s \<Rightarrow>
          result_bind (model_admit m (cursor_pid c) img s notes) (\<lambda>(m, notes).
            some_op (next_load m (cu_table c) (cu_index c + 1) notes))
      | StCommand c \<Rightarrow> Ok (Some (ProcOp_new (StPoll c)), m, notes)
      | StPoll c \<Rightarrow>
          result_bind (panic (data_word (po_data p) 0)) (\<lambda>status. Ok (Some (ProcOp_new (poll_next c status)), m, notes))
      | StAck c error \<Rightarrow> some_op (model_acked m c error notes)
      | StStaged c len \<Rightarrow> some_op (model_staged cfg m c len (po_data p) notes)
      | StReadFrame \<Rightarrow> some_op (model_decide m (po_data p) notes)
      | StWalk b pgs _ level \<Rightarrow> some_op (walk_next m b pgs level (po_data p) notes)
      | StOutput b pgs don \<Rightarrow>
          result_bind (panic (buffer_chunk b don)) (\<lambda>chunk.
            (let don = don + snd chunk in
             if don = bf_n b then some_op (model_ret m SYS_WRITE (bf_sepc b) (bf_n b) notes)
             else Ok (Some (ProcOp_new (StOutput b pgs don)), m, notes)))
      | StDispatch _ _ _ \<Rightarrow> Ok (None, m, notes)
      | StShutdown _ \<Rightarrow> Ok (None, m, notes)
      | StReturn _ _ \<Rightarrow> Ok (None, m, notes))"

end
