(* ===== verification/Os_OpInv.thy ===== *)
theory Os_OpInv
  imports Os_ProcOp
begin

section \<open>Stages run to their end\<close>

text \<open>
  The step and the working data of an operation in a stage: what they are at every step a run reaches,
  that the access due always exists and needs no byte the operation does not hold, and that a
  fitting completion always advances it. The rules are those \<^verbatim>\<open>ProcOp::from_parts\<close> checks on a restore.
\<close>

lemma split_range_length: "length (split_range base len) \<le> len" "0 < len \<Longrightarrow> split_range base len \<noteq> []"
proof -
  have total: "sum_list (map snd (split_range base len)) = len" using split_total [of base "base + len"] by (simp add: split_range_def)
  have pos: "1 \<le> n" if "(a, n) \<in> set (split_range base len)" for a n
    using that split_loop_covers [of base "base + len"] by (auto simp: split_range_def Suc_le_eq)
  have sum: "length cs \<le> sum_list (map snd cs)" if "\<forall>(a, n)\<in>set cs. 1 \<le> n" for cs :: "(u64 \<times> u64) list"
    using that by (induction cs) (auto simp: Suc_le_eq)
  have "length (split_range base len) \<le> sum_list (map snd (split_range base len))" by (rule sum) (use pos in auto)
  with total show "length (split_range base len) \<le> len" by simp
  show "0 < len \<Longrightarrow> split_range base len \<noteq> []" using total by auto
qed

lemma split_range_nth:
  assumes "i < length (split_range base len)"
  obtains n where "split_range base len ! i = (base + sum_list (map snd (take i (split_range base len))), n)" "0 < n" "n \<le> 16"
    "sum_list (map snd (take i (split_range base len))) + n \<le> len"
    "sum_list (map snd (take (Suc i) (split_range base len))) = sum_list (map snd (take i (split_range base len))) + n"
proof -
  obtain a n where an: "split_range base len ! i = (a, n)" by fastforce
  have a: "a = base + sum_list (map snd (take i (split_range base len)))"
    using split_loop_consecutive [of i base "base + len"] assms an by (simp add: split_range_def)
  have "(a, n) \<in> set (split_range base len)" using nth_mem [OF assms] an by simp
  then have "0 < n" "n \<le> 16" "a + n \<le> base + len" using split_loop_covers [of base "base + len"] by (auto simp: split_range_def)
  with a an that show thesis by (simp add: take_Suc_conv_app_nth [OF assms])
qed

text \<open>The bytes a finished stage holds, where the kernel reads them.\<close>

fun final_data :: "Stage \<Rightarrow> nat \<Rightarrow> bool" where
  "final_data StReadFrame n \<longleftrightarrow> n = 152"
| "final_data (StStaged _ len) n \<longleftrightarrow> n = unat len"
| "final_data (StWalk _ _ _ _) n \<longleftrightarrow> n = 4"
| "final_data (StPoll _) n \<longleftrightarrow> n = 4"
| "final_data _ n \<longleftrightarrow> True"

definition op_inv :: "KernelConfig \<Rightarrow> ProcOp \<Rightarrow> bool" where
  "op_inv cfg p \<longleftrightarrow> (\<exists>n. stage_steps cfg (po_stage p) = Ok n \<and> po_step p \<le> n
     \<and> (po_step p < n \<longrightarrow> stage_data_len cfg (po_stage p) (po_step p) = Ok (length (po_data p)))
     \<and> (po_step p = n \<longrightarrow> final_data (po_stage p) (length (po_data p))))"

text \<open>What a stage needs of its own fields for its accesses to exist.\<close>

fun stage_wf :: "KernelConfig \<Rightarrow> Stage \<Rightarrow> bool" where
  "stage_wf cfg (StDispatch _ c _) \<longleftrightarrow> length (uc_regs c) = 31"
| "stage_wf cfg (StOutput b pgs don) \<longleftrightarrow> buffer_ok b \<and> length pgs = buffer_pages b \<and> don < bf_n b"
| "stage_wf cfg (StWalk b pgs _ level) \<longleftrightarrow> buffer_ok b \<and> length pgs < buffer_pages b \<and> level \<le> 1"
| "stage_wf cfg (StCommand c) \<longleftrightarrow> cursor_entry c \<noteq> Err Panic"
| "stage_wf cfg (StPoll c) \<longleftrightarrow> cursor_entry c \<noteq> Err Panic"
| "stage_wf cfg (StAck c _) \<longleftrightarrow> cursor_entry c \<noteq> Err Panic"
| "stage_wf cfg (StStaged c len) \<longleftrightarrow> cursor_entry c \<noteq> Err Panic \<and> 0 < len \<and> win_base (kc_staging cfg) \<le> 2 ^ 32"
| "stage_wf cfg (StLoad c _ _ s) \<longleftrightarrow> cursor_entry c \<noteq> Err Panic \<and> (\<exists>n. space_steps s = Ok n \<and> 0 < n)"
| "stage_wf cfg (StCreate _ s) \<longleftrightarrow> (\<exists>n. space_steps s = Ok n \<and> 0 < n)"
| "stage_wf cfg _ \<longleftrightarrow> True"

lemma staged_chunks_Ok:
  assumes "win_base (kc_staging cfg) \<le> 2 ^ 32"
  shows "staged_chunks cfg len = Ok (split_range (win_base (kc_staging cfg)) (unat len))"
  unfolding staged_chunks_def
proof (rule chunks_split)
  have "unat len < 4294967296" by (rule unat_less_2p32)
  moreover have "LAST_PAGE = 18446744073709547520" by (simp add: LAST_PAGE_def u64_max_def PAGE_def)
  moreover have "win_base (kc_staging cfg) \<le> 4294967296" using assms by simp
  ultimately show "win_base (kc_staging cfg) + unat len \<le> LAST_PAGE" by linarith
qed

lemma bounded_Ok: "0 < n \<Longrightarrow> n < 2 ^ 32 \<Longrightarrow> \<exists>w. bounded n = Ok w \<and> 0 < w"
  by (auto simp: bounded_def u32_max_def word_less_nat_alt unat_of_nat_exact)

lemma stage_steps_Ok:
  assumes "stage_wf cfg st"
  shows "\<exists>n. stage_steps cfg st = Ok n \<and> 0 < n"
proof -
  have chunk: "\<exists>w. bounded (length (split_range base len)) = Ok w \<and> 0 < w" if "0 < len" "len < 2 ^ 32" for base len
    using split_range_length [where base = base and len = len] that by (intro bounded_Ok) auto
  have disp: "0 < length (dispatch_chunks cfg)" "length (dispatch_chunks cfg) < 2 ^ 32"
    using split_range_length(1) [of "unat (kc_trap_frame cfg)" CONTEXT_BYTES] split_range_length(1) [of "unat (kc_trap_frame cfg) + FRAME_SATP" 8]
      split_range_length(2) [of 8 "unat (kc_trap_frame cfg) + FRAME_SATP"]
    by (auto simp: dispatch_chunks_Ok(2) CONTEXT_BYTES_def)
  show ?thesis
  proof (cases st)
    case (StOutput b pgs don)
    have "unat (snd (chunk_at b don)) < 4294967296" by (rule unat_less_2p32)
    moreover have "unat (snd (chunk_at b don)) \<le> 16"
      using assms StOutput chunk_at_len(1) [of don b] by (auto simp: min_le_iff_disj)
    ultimately show ?thesis using StOutput assms by (auto simp: buffer_chunk_Ok intro!: bounded_Ok)
  next
    case (StStaged c len)
    have "unat len < 2 ^ 32" using unat_less_2p32 [of len] by simp
    then show ?thesis using assms StStaged chunk [of "unat len"] by (simp add: staged_chunks_Ok word_less_nat_alt)
  qed (use assms chunk [of 152] chunk [of 8] disp in
    \<open>auto simp: frame_chunks_Ok(2) shutdown_chunks_Ok(2) FRAME_BYTES_def intro!: bounded_Ok\<close>)
qed

lemma space_sizes:
  assumes "space_steps s = Ok n"
  shows "unat n = zero_steps s + 2 * length (spc_copies s) + length (spc_ptes s)" and "unat n < 2 ^ 32"
proof -
  define k where "k = zero_steps s + 2 * length (spc_copies s) + length (spc_ptes s)"
  have "k \<le> u32_max" "n = of_nat k"
    using assms unfolding space_steps_def Let_def k_def [symmetric] by (simp_all split: if_splits)
  then show "unat n = zero_steps s + 2 * length (spc_copies s) + length (spc_ptes s)" "unat n < 2 ^ 32"
    unfolding k_def [symmetric] by (simp_all add: u32_max_def unat_of_nat_exact)
qed

lemma space_data_len_eq:
  assumes "space_steps s = Ok n"
  shows "space_data_len s step =
    (if zero_steps s \<le> unat step \<and> (unat step - zero_steps s) div 2 < length (spc_copies s) \<and> (unat step - zero_steps s) mod 2 = 1
     then unat (snd (snd (spc_copies s ! ((unat step - zero_steps s) div 2)))) else 0)"
proof -
  let ?z = "zero_steps s" and ?k = "wrapping_sub_usize (unat step) (zero_steps s)"
  have sizes: "?z < 2 ^ 32" "length (spc_copies s) < 2 ^ 32" using space_sizes [OF assms] by simp_all
  have st: "unat step < 2 ^ 32" using unat_less_2p32 [of step] by simp
  show ?thesis
  proof (cases "?z \<le> unat step")
    case True
    then have "unat step + 2 ^ 64 - ?z mod 2 ^ 64 = unat step - ?z + 2 ^ 64" using sizes by simp
    then have "?k = (unat step - ?z) mod 2 ^ 64" unfolding wrapping_sub_usize_def by (simp only: mod_add_self2)
    moreover have "unat step - ?z < 2 ^ 64" by (rule le_less_trans [OF diff_le_self less_trans [OF st]]) simp
    ultimately have "?k = unat step - ?z" by (simp only: mod_less)
    with True show ?thesis by (simp add: space_data_len_def Let_def)
  next
    case False
    then have "?k = 2 ^ 64 - (?z - unat step)" using sizes st by (simp add: wrapping_sub_usize_def)
    then have "\<not> ?k div 2 < length (spc_copies s)" using sizes False by (simp add: not_less)
    with False show ?thesis by (simp add: space_data_len_def Let_def)
  qed
qed

lemma op_inv_new:
  assumes "stage_wf cfg st"
  shows "op_inv cfg (ProcOp_new st)"
proof -
  obtain n where n: "stage_steps cfg st = Ok n" "0 < n" using stage_steps_Ok [OF assms] by blast
  have "space_data_len s 0 = 0" if "space_steps s = Ok n" for s by (simp add: space_data_len_eq [OF that])
  then have "stage_data_len cfg st 0 = Ok 0" using n(1) by (cases st) (auto simp: read_len_def)
  with n show ?thesis by (auto simp: op_inv_def ProcOp_new_def)
qed
subsection \<open>The access due exists\<close>

lemma write_slice_Ok:
  "base \<le> addr \<Longrightarrow> addr - base + n \<le> length data \<Longrightarrow> \<exists>d. write_slice base data addr n = Ok (Some (KWrite addr d)) \<and> length d = n"
  by (auto simp: write_slice_def slice_get_def)

lemma written_Ok:
  assumes "step < length cs" "\<And>a n. (a, n) \<in> set cs \<Longrightarrow> base \<le> a \<and> a - base + n \<le> length bytes"
  shows "\<exists>a d. written step cs base bytes = Ok (Some (KWrite a d))"
proof -
  obtain a n where an: "cs ! step = (a, n)" by fastforce
  with assms(1) have "(a, n) \<in> set cs" by (metis nth_mem)
  from write_slice_Ok [of base a n bytes] assms(2) [OF this] show ?thesis by (auto simp: written_def assms(1) an)
qed

lemma split_range_set: "(a, n) \<in> set (split_range base len) \<Longrightarrow> base \<le> a \<and> a + n \<le> base + len \<and> 0 < n \<and> n \<le> 16"
  using split_loop_covers [of base "base + len"] by (auto simp: split_range_def)

lemma length_context_frame: "length (uc_regs c) = 31 \<Longrightarrow> length (context_to_frame c) = 132"
  by (simp add: context_to_frame_def length_concat o_def sum_list_triv)

lemma length_dispatch_bytes: "length (uc_regs c) = 31 \<Longrightarrow> length (dispatch_bytes c satp) = 152"
  by (simp add: dispatch_bytes_def FRAME_BYTES_def FRAME_SATP_def length_context_frame)

lemma buffer_page_index:
  assumes "buffer_ok b" "don < bf_n b"
  shows "unat (drop_bit 12 (bf_buf b + don) - drop_bit 12 (bf_buf b)) < buffer_pages b"
proof -
  have d: "unat don < unat (bf_n b)" using assms(2) by (simp add: word_less_nat_alt)
  have va: "unat (bf_buf b + don) = unat (bf_buf b) + unat don"
    using assms(1) d by (intro unat_add_exact) (auto simp: buffer_ok_def)
  have "drop_bit 12 (bf_buf b) \<le> drop_bit 12 (bf_buf b + don)"
    unfolding word_le_nat_alt unat_drop_bit va by (rule div_le_mono) simp
  then have "unat (drop_bit 12 (bf_buf b + don) - drop_bit 12 (bf_buf b)) = (unat (bf_buf b) + unat don) div 4096 - unat (bf_buf b) div 4096"
    by (simp add: unat_sub unat_drop_bit va)
  moreover have "(unat (bf_buf b) + unat don) div 4096 \<le> (unat (bf_buf b) + unat (bf_n b) - 1) div 4096"
    using d by (intro div_le_mono) simp
  ultimately show ?thesis by (simp add: buffer_pages_def PAGE_def Let_def less_Suc_eq_le diff_le_mono)
qed

lemma space_access_Some:
  assumes "space_steps s = Ok n" "step < n"
  shows "\<exists>a. space_access s step data = Some a"
  using space_sizes [OF assms(1)] assms(2)
  by (auto simp: space_access_def Let_def word_less_nat_alt split: prod.splits)

lemma stage_access_Some:
  assumes wf: "stage_wf cfg (po_stage p)" and inv: "op_inv cfg p" and n: "stage_steps cfg (po_stage p) = Ok n" "po_step p < n"
  shows "\<exists>a. procop_access cfg p = Ok (Some a)"
proof -
  let ?st = "po_stage p" and ?step = "unat (po_step p)"
  have step: "?step < unat n" using n(2) by (simp add: word_less_nat_alt)
  have data: "stage_data_len cfg ?st (po_step p) = Ok (length (po_data p))" using inv n by (auto simp: op_inv_def)
  have unb: "bounded k = Ok n \<Longrightarrow> ?step < k" for k
    using step by (auto simp: bounded_def u32_max_def unat_of_nat_exact split: if_splits)
  show ?thesis
  proof (cases ?st)
    case (StDispatch pid c satp)
    have "\<exists>a d. written ?step (dispatch_chunks cfg) (unat (kc_trap_frame cfg)) (dispatch_bytes c satp) = Ok (Some (KWrite a d))"
    proof (rule written_Ok)
      show "?step < length (dispatch_chunks cfg)" using n(1) StDispatch unb by simp
      show "unat (kc_trap_frame cfg) \<le> a \<and> a - unat (kc_trap_frame cfg) + k \<le> length (dispatch_bytes c satp)"
        if "(a, k) \<in> set (dispatch_chunks cfg)" for a k
        using that wf StDispatch
        by (auto simp: dispatch_chunks_Ok(2) length_dispatch_bytes CONTEXT_BYTES_def FRAME_SATP_def dest!: split_range_set)
    qed
    then show ?thesis using StDispatch by (auto simp: procop_access_def)
  next
    case (StShutdown r)
    have "\<exists>a d. written ?step (shutdown_chunks cfg) (unat (kc_trap_frame cfg) + FRAME_ACTION)
        (u32_to_le_bytes 1 @ u32_to_le_bytes r) = Ok (Some (KWrite a d))"
      by (rule written_Ok) (use n(1) StShutdown unb in \<open>auto simp: shutdown_chunks_Ok(2) dest!: split_range_set\<close>)
    then show ?thesis using StShutdown by (auto simp: procop_access_def)
  next
    case (StOutput b pgs don)
    have len: "?step \<le> unat (snd (chunk_at b don))" using n(1) StOutput wf unb by (fastforce simp: buffer_chunk_Ok)
    show ?thesis
    proof (cases "po_step p = 0")
      case True
      then show ?thesis using StOutput wf buffer_page_index [of b don]
        by (auto simp: procop_access_def buffer_physical_def Let_def buffer_chunk_Ok chunk_at_def)
    next
      case False
      then have pos: "0 < ?step" by (simp add: unat_gt_0)
      then have "length (po_data p) = unat (snd (chunk_at b don))"
        using data StOutput wf False by (simp add: buffer_chunk_Ok word_neq_0_conv)
      then have "?step - 1 < length (po_data p)" using len pos by linarith
      then show ?thesis using StOutput wf False len by (auto simp: procop_access_def buffer_chunk_Ok split: prod.splits)
    qed
  next
    case (StReturn sepc v)
    then have "po_step p = 0 \<or> po_step p = 1" using n(1) unb [of 2] by (auto simp: word_unat_eq_iff less_2_cases_iff)
    then show ?thesis using StReturn by (auto simp: procop_access_def)
  next
    case (StCommand c)
    then obtain e where "cursor_entry c = Ok e" using wf by (cases "cursor_entry c") (auto simp: cursor_entry_def split: option.splits if_splits)
    then show ?thesis using StCommand n(1) unb [of 4]
      by (auto simp: procop_access_def cursor_transfer_def command_regs_def Let_def split: prod.splits)
  next
    case (StStaged c len)
    then show ?thesis using n(1) unb wf by (auto simp: procop_access_def read_chunk_def staged_chunks_Ok split: prod.splits)
  next
    case (StWalk b pgs t level)
    then show ?thesis using n wf unb [of 1] by (auto simp: procop_access_def buffer_page_va_Ok word_unat_eq_iff)
  next
    case StReadFrame
    then show ?thesis using n(1) unb by (auto simp: procop_access_def read_chunk_def split: prod.splits)
  qed (use n wf unb [of 1] space_access_Some in \<open>auto simp: procop_access_def word_unat_eq_iff\<close>)
qed

subsection \<open>A fitting completion advances the operation\<close>

fun completion_fits :: "KAccess \<Rightarrow> Completion \<Rightarrow> bool" where
  "completion_fits (KRead _ len) (CompData d) \<longleftrightarrow> length d = unat len"
| "completion_fits (KWrite _ _) CompWritten \<longleftrightarrow> True"
| "completion_fits _ _ \<longleftrightarrow> False"

fun completion_data :: "Completion \<Rightarrow> u8 list" where
  "completion_data (CompData d) = d"
| "completion_data CompWritten = []"

text \<open>The bytes held after the access at a step: those the next step requires, or none of them.\<close>

definition data_follows :: "KernelConfig \<Rightarrow> ProcOp \<Rightarrow> u32 \<Rightarrow> nat \<Rightarrow> bool" where
  "data_follows cfg p n l \<longleftrightarrow>
     (po_step p + 1 < n \<longrightarrow> (\<exists>k. stage_data_len cfg (po_stage p) (po_step p + 1) = Ok k \<and> (k = l \<or> k = 0)))
     \<and> (po_step p + 1 = n \<longrightarrow> final_data (po_stage p) l)"

lemma step_Suc: "step < n \<Longrightarrow> unat (step + 1) = Suc (unat step)" for step n :: u32
  using unat_add_exact [of step 1] unat_less_2p32 [of n] by (simp add: word_less_nat_alt)

lemma read_data_follows:
  assumes stage: "\<And>step. stage_data_len cfg (po_stage p) step = read_len (split_range base len) step"
    and n: "stage_steps cfg (po_stage p) = Ok n" "stage_steps cfg (po_stage p) = bounded (length (split_range base len))" "po_step p < n"
    and data: "stage_data_len cfg (po_stage p) (po_step p) = Ok (length (po_data p))"
    and acc: "procop_access cfg p = Ok (read_chunk (unat (po_step p)) (split_range base len))" "procop_access cfg p = Ok (Some a)"
    and fits: "completion_fits a c" and fin: "\<And>l. final_data (po_stage p) l \<longleftrightarrow> l = len"
  shows "data_follows cfg p n (length (po_data p) + length (completion_data c))"
proof -
  let ?cs = "split_range base len" and ?i = "unat (po_step p)"
  have cs: "length ?cs = unat n" using n(1,2) by (auto simp: bounded_def u32_max_def unat_of_nat_exact split: if_splits)
  then have i: "?i < length ?cs" using n(3) by (simp add: word_less_nat_alt)
  obtain k where k: "?cs ! ?i = (base + sum_list (map snd (take ?i ?cs)), k)" "0 < k" "k \<le> 16"
    "sum_list (map snd (take ?i ?cs)) + k \<le> len" "sum_list (map snd (take (Suc ?i) ?cs)) = sum_list (map snd (take ?i ?cs)) + k"
    using split_range_nth [OF i] .
  have "a = KRead (base + sum_list (map snd (take ?i ?cs))) (of_nat k)" using acc i k(1) by (simp add: read_chunk_def)
  then have "length (completion_data c) = k" using fits k(3) by (cases c) (auto simp: unat_of_nat)
  then have total: "length (po_data p) + length (completion_data c) = sum_list (map snd (take (Suc ?i) ?cs))"
    using data i k(5) by (simp add: stage read_len_def)
  have "sum_list (map snd ?cs) = len" using split_total [of base "base + len"] by (simp add: split_range_def)
  then show ?thesis
    unfolding data_follows_def total using step_Suc [OF n(3)] i cs
    by (auto simp: stage read_len_def fin dest!: arg_cong [of "po_step p + 1" n unat])
qed

lemma create_data_follows:
  assumes stage: "\<And>step. stage_data_len cfg (po_stage p) step = Ok (space_data_len s step)"
    and n: "space_steps s = Ok n" "po_step p < n" and data: "length (po_data p) = space_data_len s (po_step p)"
    and acc: "space_access s (po_step p) (po_data p) = Some a" and fits: "completion_fits a c" and fin: "\<And>l. final_data (po_stage p) l"
  shows "data_follows cfg p n (length (po_data p) + length (completion_data c))"
proof -
  let ?z = "zero_steps s" and ?i = "unat (po_step p)"
  have "space_data_len s (po_step p + 1) = length (po_data p) + length (completion_data c)"
    if ne: "space_data_len s (po_step p + 1) \<noteq> 0"
  proof -
    let ?k = "Suc ?i - ?z"
    from ne have k: "?z \<le> Suc ?i" "?k div 2 < length (spc_copies s)" "?k mod 2 = 1"
      and len: "space_data_len s (po_step p + 1) = unat (snd (snd (spc_copies s ! (?k div 2))))"
      by (auto simp: space_data_len_eq [OF n(1)] step_Suc [OF n(2)] split: if_splits)
    have z: "?z \<le> ?i" using k(1,3) by (cases "?z = Suc ?i") simp_all
    then have "?k = Suc (?i - ?z)" by simp
    then have k': "(?i - ?z) mod 2 = 0" "(?i - ?z) div 2 = ?k div 2" using k(3) by presburger+
    have "length (po_data p) = 0" using data k' by (simp add: space_data_len_eq [OF n(1)])
    moreover have "\<exists>src. a = KRead src (snd (snd (spc_copies s ! (?k div 2))))"
      using acc z k(2) k' by (auto simp: space_access_def Let_def split: prod.splits)
    then have "length (completion_data c) = unat (snd (snd (spc_copies s ! (?k div 2))))" using fits by (cases c) auto
    ultimately show ?thesis using len by simp
  qed
  then show ?thesis unfolding data_follows_def by (auto simp: stage fin)
qed

lemma stage_data_follows:
  assumes wf: "stage_wf cfg (po_stage p)" and inv: "op_inv cfg p" and n: "stage_steps cfg (po_stage p) = Ok n" "po_step p < n"
    and acc: "procop_access cfg p = Ok (Some a)" and fits: "completion_fits a c"
  shows "data_follows cfg p n (length (po_data p) + length (completion_data c))"
proof -
  have data: "stage_data_len cfg (po_stage p) (po_step p) = Ok (length (po_data p))" using inv n by (auto simp: op_inv_def)
  have one: "po_step p = 0" if "bounded 1 = Ok n"
    using that n(2) by (auto simp: bounded_def u32_max_def word_less_nat_alt word_unat_eq_iff split: if_splits)
  show ?thesis
  proof (cases "po_stage p")
    case StReadFrame
    show ?thesis
      by (rule read_data_follows [where base = "unat (kc_trap_frame cfg)" and len = 152, OF _ n(1) _ n(2) data _ acc fits])
        (use StReadFrame in \<open>simp_all add: frame_chunks_Ok(2) FRAME_BYTES_def procop_access_def\<close>)
  next
    case (StStaged cu len)
    show ?thesis
      by (rule read_data_follows [where base = "win_base (kc_staging cfg)" and len = "unat len", OF _ n(1) _ n(2) data _ acc fits])
        (use StStaged wf in \<open>simp_all add: staged_chunks_Ok procop_access_def\<close>)
  next
    case (StCreate pid s)
    show ?thesis
      by (rule create_data_follows [where s = s, OF _ _ n(2) _ _ fits]) (use StCreate n acc data in \<open>simp_all add: procop_access_def\<close>)
  next
    case (StLoad cu d img s)
    show ?thesis
      by (rule create_data_follows [where s = s, OF _ _ n(2) _ _ fits]) (use StLoad n acc data in \<open>simp_all add: procop_access_def\<close>)
  next
    case (StOutput b pgs don)
    have "length (po_data p) + length (completion_data c) = unat (snd (chunk_at b don))"
    proof (cases "po_step p = 0")
      case True
      then have "\<exists>addr. a = KRead addr (snd (chunk_at b don))" "po_data p = []"
        using acc data StOutput wf by (auto simp: procop_access_def buffer_chunk_Ok split: prod.splits)
      then show ?thesis using fits by (cases c) auto
    next
      case False
      then have "\<exists>addr d. a = KWrite addr d" "length (po_data p) = unat (snd (chunk_at b don))"
        using acc data StOutput wf by (auto simp: procop_access_def buffer_chunk_Ok word_neq_0_conv split: prod.splits if_splits)
      then show ?thesis using fits by (cases c) auto
    qed
    then show ?thesis using StOutput wf by (simp add: data_follows_def buffer_chunk_Ok)
  next
    case (StWalk b pgs t level)
    then have "a = KRead (user_pte_address t (page_addr b (length pgs)) level) 4" "po_data p = []" "po_step p + 1 = n"
      using acc data one n wf by (auto simp: procop_access_def buffer_page_va_Ok bounded_def u32_max_def)
    then show ?thesis using fits StWalk by (cases c) (auto simp: data_follows_def)
  next
    case (StPoll cu)
    then have "a = KRead (win_base (kc_blk cfg) + BLK_STATUS) 4" "po_data p = []" "po_step p + 1 = n"
      using acc data one n by (auto simp: procop_access_def bounded_def u32_max_def)
    then show ?thesis using fits StPoll by (cases c) (auto simp: data_follows_def)
  qed (simp_all add: data_follows_def)
qed

lemma procop_complete_Ok:
  assumes wf: "stage_wf cfg (po_stage p)" and inv: "op_inv cfg p" and n: "stage_steps cfg (po_stage p) = Ok n" "po_step p < n"
    and acc: "procop_access cfg p = Ok (Some a)" and fits: "completion_fits a c"
  shows "\<exists>p'. procop_complete cfg p c = Ok (Ok p') \<and> op_inv cfg p' \<and> po_stage p' = po_stage p \<and> po_step p' = po_step p + 1"
proof -
  let ?l = "length (po_data p) + length (completion_data c)"
  have follows: "data_follows cfg p n ?l" by (rule stage_data_follows [OF assms])
  have le: "po_step p + 1 \<le> n" using n(2) by (simp add: inc_le)
  let ?p = "p\<lparr>po_data := po_data p @ completion_data c, po_step := po_step p + 1\<rparr>"
  have "\<exists>p'. procop_advance cfg p (completion_data c) = Ok p' \<and> op_inv cfg p' \<and> po_stage p' = po_stage p \<and> po_step p' = po_step p + 1"
  proof (cases "po_step p + 1 < n")
    case True
    with follows obtain k where "stage_data_len cfg (po_stage p) (po_step p + 1) = Ok k" "k = ?l \<or> k = 0"
      by (auto simp: data_follows_def)
    then show ?thesis
      by (intro exI [of _ "if ?l \<noteq> k then ?p\<lparr>po_data := []\<rparr> else ?p"])
        (use True n(1) in \<open>auto simp: procop_advance_def Let_def op_inv_def\<close>)
  next
    case False
    then have "po_step p + 1 = n" using le by simp
    then show ?thesis
      by (intro exI [of _ ?p]) (use n(1) follows in \<open>auto simp: procop_advance_def Let_def op_inv_def data_follows_def\<close>)
  qed
  moreover have "procop_complete cfg p c = result_bind (procop_advance cfg p (completion_data c)) (\<lambda>p. Ok (Ok p))"
    using fits by (cases a; cases c) (auto simp: procop_complete_def acc)
  ultimately show ?thesis by auto
qed

lemma finished_no_access:
  assumes wf: "stage_wf cfg (po_stage p)" and n: "stage_steps cfg (po_stage p) = Ok n" "po_step p = n"
  shows "procop_access cfg p = Ok None"
proof -
  have unb: "unat (po_step p) = k" if "bounded k = Ok n" for k
  proof -
    have "n = of_nat k" "k < 2 ^ 32" using that by (auto simp: bounded_def u32_max_def split: if_splits)
    then show ?thesis using n(2) by (simp add: unat_of_nat_exact)
  qed
  have one: "bounded (Suc 0) = Ok n \<Longrightarrow> po_step p \<noteq> 0" using unb [of "Suc 0"] by auto
  have sp: "space_access s (po_step p) d = None" if "space_steps s = Ok n" for s d
    using space_sizes(1) [OF that] n(2) by (simp add: space_access_def Let_def)
  show ?thesis
  proof (cases "po_stage p")
    case (StCommand c)
    then obtain e where "cursor_entry c = Ok e"
      using wf by (cases "cursor_entry c") (auto simp: cursor_entry_def split: option.splits if_splits)
    then show ?thesis using StCommand n(1) unb [of 4]
      by (simp add: procop_access_def cursor_transfer_def command_regs_def Let_def)
  next
    case (StOutput b pgs don)
    have "unat (po_step p) = Suc (unat (snd (chunk_at b don)))"
      using unb [of "Suc (unat (snd (chunk_at b don)))"] n(1) StOutput wf by (auto simp: buffer_chunk_Ok)
    moreover from this have "po_step p \<noteq> 0" by (metis unat_0 nat.distinct(1))
    ultimately show ?thesis using StOutput wf by (auto simp: procop_access_def buffer_chunk_Ok split: prod.splits)
  next
    case (StReturn sepc v)
    then have "unat (po_step p) = 2" using n(1) unb by simp
    then have "po_step p \<noteq> 0" "po_step p \<noteq> 1" by auto
    then show ?thesis using StReturn by (simp add: procop_access_def)
  qed (use n(1) wf one unb sp in \<open>auto simp: procop_access_def written_def read_chunk_def staged_chunks_Ok\<close>)
qed

lemma procop_complete_fits:
  assumes "procop_complete cfg p c = Ok (Ok p')"
  obtains a where "procop_access cfg p = Ok (Some a)" "completion_fits a c"
proof -
  from assms obtain x where x: "procop_access cfg p = Ok x" by (auto simp: procop_complete_def)
  show thesis
  proof (cases x)
    case None
    then show thesis using assms x by (simp add: procop_complete_def)
  next
    case (Some a)
    then show thesis using assms x that by (cases a; cases c) (auto simp: procop_complete_def split: if_splits)
  qed
qed

end
