(* ===== verification/Os_ModelInv.thy ===== *)
theory Os_ModelInv
  imports Os_Model Os_OpInv
begin

section \<open>The kernel keeps its own rules\<close>

text \<open>
  The invariant of the metadata and the operation in progress of a kernel built from a checked
  configuration, and its preservation by every start, access and decision.
\<close>

subsection \<open>A creation has a bounded number of accesses\<close>

lemma split_copy_length:
  "dst mod 4096 + (finish - src) \<le> 4096 \<Longrightarrow>
     length (split_copy src dst finish) \<le> (finish - src + 15) div 16 + of_bool (4096 < src mod 4096 + (finish - src))"
proof (induction src dst finish rule: split_copy.induct)
  case (1 src dst finish)
  show ?case
  proof (cases "src < finish")
    case True
    define len n where "len = finish - src" and "n = min (min (min (finish - src) MAX_ACCESS) (PAGE - src mod PAGE)) (PAGE - dst mod PAGE)"
    have unfold: "split_copy src dst finish = (src, dst, of_nat n) # split_copy (src + n) (dst + n) finish"
      using True by (subst split_copy.simps) (simp add: Let_def n_def)
    have len: "0 < len" "dst mod 4096 + len \<le> 4096" using True "1.prems" by (simp_all add: len_def)
    have n: "n = min (min len 16) (4096 - src mod 4096)"
      using len(2) by (simp add: n_def len_def MAX_ACCESS_def PAGE_def)
    have pos: "0 < n" "n \<le> len" using n len(1) by simp_all
    have mods: "(dst + n) mod 4096 + (len - n) \<le> 4096"
    proof (cases "n = len")
      case False
      then have "dst mod 4096 + n < 4096" using pos len by linarith
      then have "(dst + n) mod 4096 = dst mod 4096 + n" by (metis mod_add_left_eq mod_less)
      then show ?thesis using len pos by simp
    qed (simp add: less_imp_le)
    have IH: "length (split_copy (src + n) (dst + n) finish) \<le> (len - n + 15) div 16 + of_bool (4096 < (src + n) mod 4096 + (len - n))"
      using "1.IH" [OF True n_def] mods by (simp add: len_def)
    have "Suc ((len - n + 15) div 16 + of_bool (4096 < (src + n) mod 4096 + (len - n))) \<le>
        (len + 15) div 16 + of_bool (4096 < src mod 4096 + len)"
    proof (cases "src mod 4096 + n = 4096")
      case True
      then have "(src + n) mod 4096 = 0" by (metis mod_add_left_eq mod_self)
      then have "\<not> 4096 < (src + n) mod 4096 + (len - n)" using len(2) by simp
      moreover have "Suc ((len - n + 15) div 16) \<le> (len + 15) div 16 + of_bool (4096 < src mod 4096 + len)"
      proof (cases "n = len")
        case False
        then have "4096 < src mod 4096 + len" using True pos by linarith
        moreover have "(len - n + 15) div 16 \<le> (len + 15) div 16" by (rule div_le_mono) simp
        ultimately show ?thesis by simp
      qed (use pos in simp)
      ultimately show ?thesis by simp
    next
      case False
      have "src mod 4096 < 4096" by simp
      then have "src mod 4096 + n < 4096" using False n by linarith
      then have "(src + n) mod 4096 = src mod 4096 + n" by (metis mod_add_left_eq mod_less)
      moreover have "n = len \<or> n = 16 \<and> 16 < len" using False n \<open>src mod 4096 < 4096\<close> by (auto simp: min_def split: if_splits)
      ultimately show ?thesis
      proof (elim disjE)
        assume "n = len"
        then show ?thesis using pos \<open>(src + n) mod 4096 = _\<close> \<open>src mod 4096 + n < 4096\<close> by simp
      next
        assume "n = 16 \<and> 16 < len"
        then have "len - n + 15 = len - 1" "(len + 15) div 16 = Suc ((len - 1) div 16)" by auto
        then show ?thesis using \<open>n = 16 \<and> 16 < len\<close> \<open>(src + n) mod 4096 = _\<close> by simp
      qed
    qed
    then show ?thesis using IH unfolding unfold by (simp add: len_def)
  qed (simp add: split_copy.simps)
qed

definition page_copy_ok :: "Page \<Rightarrow> bool" where
  "page_copy_ok p \<longleftrightarrow> pred_option (\<lambda>(fo, po, len). unat po + unat len \<le> 4096) (pg_copy p)"

lemma page_copies_length:
  assumes "page_copy_ok (fst pf)"
  shows "length (page_copies staged pf) \<le> 257"
proof (cases "pg_copy (fst pf)")
  case (Some c)
  obtain fo po len where c: "c = (fo, po, len)" by (cases c)
  have fit: "unat po + unat len \<le> 4096" using assms Some c by (simp add: page_copy_ok_def)
  let ?src = "unat staged + unat fo" and ?dst = "unat (snd pf) * 4096 + unat po"
  have "?dst mod 4096 + unat len \<le> 4096"
    using fit by (cases "unat po = 4096") (simp_all add: mod_mult_self3)
  then have "length (split_copy ?src ?dst (?src + unat len)) \<le>
      (unat len + 15) div 16 + of_bool (4096 < ?src mod 4096 + unat len)"
    using split_copy_length [of ?dst "?src + unat len" ?src] by simp
  also have "\<dots> \<le> (unat len + 15) div 16 + 1" by (simp add: of_bool_def)
  also have "\<dots> \<le> 257" using fit by simp
  finally show ?thesis using Some c by (simp add: page_copies_def)
qed (simp add: page_copies_def)

lemma length_level1: "length (level1_entries cfg slots) = length slots + 2"
  by (simp add: level1_entries_def Let_def)

lemma space_steps_bounded:
  assumes s: "space_of cfg layout boot frames fs s" and "length frames \<le> 2 ^ 22"
    and copies: "\<forall>p\<in>set (pages (bi_image boot) layout). page_copy_ok p"
  shows "\<exists>n. space_steps s = Ok n \<and> 0 < n"
proof -
  let ?ps = "pages (bi_image boot) layout" and ?F = "length frames"
  from s have facts: "length fs = length ?ps" "spc_frames s = frames" "mset frames = add_mset (spc_root s) (mset (map snd (spc_slots s)) + mset fs)"
    "spc_copies s = concat (map (page_copies (bi_staged boot)) (zip ?ps fs))"
    "length (spc_ptes s) = length fs + length (spc_slots s) + 2"
    by (auto simp: space_of_def Let_def length_level1)
  have F: "?F = 1 + length (spc_slots s) + length fs" using arg_cong [OF facts(3), of size] by simp
  have zs: "length (concat (map (page_copies (bi_staged boot)) zs)) \<le> 257 * length zs" if "\<forall>z\<in>set zs. page_copy_ok (fst z)" for zs
    using that by (induction zs) (auto dest!: page_copies_length [of _ "bi_staged boot"])
  have c: "length (spc_copies s) \<le> 257 * length fs"
  proof -
    have "\<forall>z\<in>set (zip ?ps fs). page_copy_ok (fst z)" using copies by (auto dest: set_zip_leftD)
    from zs [OF this] show ?thesis by (simp add: facts(1,4))
  qed
  let ?n = "zero_steps s + 2 * length (spc_copies s) + length (spc_ptes s)"
  have "?n \<le> 771 * ?F + 1" using c F facts(5) by (simp add: zero_steps_def facts(2) PAGE_def MAX_ACCESS_def)
  then have "?n < 2 ^ 32" using assms(2) by simp
  moreover have "0 < ?n" using facts(5) by simp
  ultimately show ?thesis unfolding space_steps_def Let_def
    by (auto simp: u32_max_def word_less_nat_alt unat_of_nat_exact simp del: of_nat_add)
qed
subsection \<open>The invariant\<close>

text \<open>
  The source a kernel is built from passes its check, and a plan keeps the documented rule the check misses:
  every copy is inside its page. A disk has no plan; its images come from the loader, which keeps the rule.
\<close>

definition source_valid :: "KernelConfig \<Rightarrow> Source \<Rightarrow> bool" where
  "source_valid cfg src = (case src of Plan p \<Rightarrow> plan_validate cfg p = Ok () | Disk d \<Rightarrow> disk_validate cfg d = Ok ())"

definition source_in_pages :: "Source \<Rightarrow> bool" where
  "source_in_pages src = (case src of Plan p \<Rightarrow> plan_in_pages p | Disk d \<Rightarrow> True)"

definition source_ok :: "KernelConfig \<Rightarrow> Source \<Rightarrow> bool" where
  "source_ok cfg src \<longleftrightarrow> source_valid cfg src \<and> source_in_pages src"

lemma source_ok_simps [simp]:
  "source_ok cfg (Plan p) \<longleftrightarrow> plan_validate cfg p = Ok () \<and> plan_in_pages p"
  "source_ok cfg (Disk d) \<longleftrightarrow> disk_validate cfg d = Ok ()"
  by (simp_all add: source_ok_def source_valid_def source_in_pages_def)

lemma disk_staging_low: "disk_validate cfg d = Ok () \<Longrightarrow> win_base (kc_staging cfg) \<le> 2 ^ 32"
  by (auto simp: disk_validate_def Let_def split: if_splits)

definition pool_ok :: "Frames \<Rightarrow> bool" where
  "pool_ok fr \<longleftrightarrow> unat (fr_base fr) + length (fr_owners fr) \<le> 2 ^ 22"

definition contexts_ok :: "Processes \<Rightarrow> bool" where
  "contexts_ok ps \<longleftrightarrow> (\<forall>p\<in>set (ps_pcbs ps). pred_option (\<lambda>c. length (uc_regs c) = 31) (pcb_context p))"

definition model_ok :: "KernelConfig \<Rightarrow> Model \<Rightarrow> (u32 \<times> u32 list) option \<Rightarrow> bool" where
  "model_ok cfg m creating \<longleftrightarrow> source_ok cfg (md_source m) \<and> pool_ok (ps_frames (md_procs m)) \<and> contexts_ok (md_procs m)
     \<and> procs_inv (md_procs m) (md_entries m) creating \<and> md_entries m \<le> 8
     \<and> (\<forall>plan. md_source m = Plan plan \<longrightarrow> md_entries m = length (pl_images plan))"

text \<open>The PID and frames of the creation a stage makes.\<close>

fun stage_creating :: "Stage \<Rightarrow> (u32 \<times> u32 list) option" where
  "stage_creating (StCreate pid s) = Some (pid, spc_frames s)"
| "stage_creating (StLoad c _ _ s) = Some (cursor_pid c, spc_frames s)"
| "stage_creating _ = None"

definition booting :: "Model \<Rightarrow> Cursor \<Rightarrow> bool" where
  "booting m c \<longleftrightarrow> md_life m = Up \<and> ps_current (md_procs m) = None \<and> (\<exists>d. md_source m = Disk d)
     \<and> (case cu_table c of
          None \<Rightarrow> ps_pcbs (md_procs m) = [] \<and> cu_index c = 0
        | Some t \<Rightarrow> cu_index c < length t \<and> length t = md_entries m \<and> (\<forall>e\<in>set t. byte_len e \<noteq> 0)
            \<and> (\<forall>p\<in>set (ps_pcbs (md_procs m)). unat (pcb_pid p) \<le> cu_index c))"

fun stage_at :: "KernelConfig \<Rightarrow> Model \<Rightarrow> Stage \<Rightarrow> bool" where
  "stage_at cfg m (StCreate pid s) \<longleftrightarrow> md_life m = Up \<and> ps_current (md_procs m) = None
     \<and> (\<exists>plan fs. md_source m = Plan plan \<and> 0 < pid \<and> unat pid \<le> length (pl_images plan)
          \<and> (\<forall>p\<in>set (ps_pcbs (md_procs m)). pcb_pid p < pid)
          \<and> space_of cfg (pl_layout plan) (pl_images plan ! (unat pid - 1)) (spc_frames s) fs s)"
| "stage_at cfg m (StLoad c _ img s) \<longleftrightarrow> booting m c \<and> cu_table c \<noteq> None
     \<and> (\<exists>d boot fs. md_source m = Disk d \<and> bi_image boot = img \<and> space_of cfg (db_layout d) boot (spc_frames s) fs s)"
| "stage_at cfg m (StCommand c) \<longleftrightarrow> booting m c"
| "stage_at cfg m (StPoll c) \<longleftrightarrow> booting m c"
| "stage_at cfg m (StAck c _) \<longleftrightarrow> booting m c"
| "stage_at cfg m (StStaged c len) \<longleftrightarrow> booting m c \<and> (cu_table c = None \<longrightarrow> len = 512)"
| "stage_at cfg m (StShutdown _) \<longleftrightarrow> md_life m = Down"
| "stage_at cfg m (StDispatch pid _ _) \<longleftrightarrow> md_life m = Up \<and> ps_current (md_procs m) = Some pid"
| "stage_at cfg m _ \<longleftrightarrow> md_life m = Up \<and> ps_current (md_procs m) \<noteq> None"

definition op_ok :: "KernelConfig \<Rightarrow> Model \<Rightarrow> ProcOp \<Rightarrow> bool" where
  "op_ok cfg m p \<longleftrightarrow> model_ok cfg m (stage_creating (po_stage p)) \<and> stage_at cfg m (po_stage p) \<and> stage_wf cfg (po_stage p) \<and> op_inv cfg p"

definition idle_ok :: "Model \<Rightarrow> bool" where
  "idle_ok m \<longleftrightarrow> (case md_life m of
     AwaitBoot \<Rightarrow> ps_pcbs (md_procs m) = [] \<and> ps_current (md_procs m) = None
   | Up \<Rightarrow> ps_current (md_procs m) \<noteq> None
   | Down \<Rightarrow> True)"

fun state_ok :: "KernelConfig \<Rightarrow> Model \<Rightarrow> ProcOp option \<Rightarrow> bool" where
  "state_ok cfg m None \<longleftrightarrow> model_ok cfg m None \<and> idle_ok m"
| "state_ok cfg m (Some p) \<longleftrightarrow> op_ok cfg m p"

text \<open>A decision succeeds, keeps the invariant, and what it starts is at its first access.\<close>

definition runs :: "KernelConfig \<Rightarrow> ProcOp model_result \<Rightarrow> bool" where
  "runs cfg r \<longleftrightarrow> (\<exists>p m notes. r = Ok (p, m, notes) \<and> op_ok cfg m p \<and> po_step p = 0)"

definition decides :: "KernelConfig \<Rightarrow> ProcOp option model_result \<Rightarrow> bool" where
  "decides cfg r \<longleftrightarrow> (\<exists>p m notes. r = Ok (p, m, notes) \<and> state_ok cfg m p \<and> pred_option (\<lambda>p. po_step p = 0) p)"

lemma runs_new:
  "model_ok cfg m (stage_creating st) \<Longrightarrow> stage_at cfg m st \<Longrightarrow> stage_wf cfg st \<Longrightarrow> runs cfg (Ok (ProcOp_new st, m, notes))"
  by (auto simp: runs_def op_ok_def op_inv_new) (simp_all add: ProcOp_new_def)

lemma decides_some: "runs cfg r \<Longrightarrow> decides cfg (some_op r)"
  by (auto simp: runs_def decides_def some_op_def)

lemma pool_wf: "pool_ok fr \<Longrightarrow> frames_wf fr"
  by (simp add: pool_ok_def frames_wf_def)

lemma model_okD:
  assumes "model_ok cfg m cr"
  shows "procs_inv (md_procs m) (md_entries m) cr" "frames_wf (ps_frames (md_procs m))"
  using assms pool_wf by (auto simp: model_ok_def)

lemma set_pcb_update: "q \<in> set (pcb_update pid f ps) \<Longrightarrow> q \<in> set ps \<or> (\<exists>p\<in>set ps. q = f p)"
  by (induction ps) (auto split: if_splits)

lemma contexts_ok_update:
  "contexts_ok ps \<Longrightarrow> (\<And>p. pred_option (\<lambda>c. length (uc_regs c) = 31) (pcb_context (f p))) \<Longrightarrow>
     ps_pcbs ps' = pcb_update pid f (ps_pcbs ps) \<Longrightarrow> contexts_ok ps'"
  by (auto simp: contexts_ok_def dest!: set_pcb_update)

lemma dispatch_runs:
  assumes ok: "model_ok cfg m None" and life: "md_life m = Up" and cur: "ps_current (md_procs m) = None"
  shows "runs cfg (dispatch_next m from_pid notes)"
proof (cases "ps_queue (md_procs m)")
  case Nil
  then have "schedule_next (md_procs m) = Ok (None, md_procs m)" by (simp add: schedule_next_def cur)
  then show ?thesis
    unfolding dispatch_next_def using ok
    by (auto simp: violation_def Let_def model_ok_def intro!: runs_new)
next
  case (Cons pid rest)
  note inv = model_okD [OF ok]
  obtain c ps' p where r: "schedule_next (md_procs m) = Ok (Some (pid, c), ps')" "procs_inv ps' (md_entries m) None"
    "ps_current ps' = Some pid" and frames: "ps_queue ps' = rest" "ps_frames ps' = ps_frames (md_procs m)"
    "map pcb_pid (ps_pcbs ps') = map pcb_pid (ps_pcbs (md_procs m))"
    and p: "pcb_of (md_procs m) pid = Some p" "pcb_context p = Some c" "pcb_of ps' pid \<noteq> None"
    by (rule schedule_next_Ok [OF inv(1) cur Cons])
  then obtain p' where p': "pcb_of ps' pid = Some p'" by auto
  have "p \<in> set (ps_pcbs (md_procs m))" using p(1) inv_pcb_of [OF inv(1)] by blast
  then have regs: "length (uc_regs c) = 31" using ok p(2) by (auto simp: model_ok_def contexts_ok_def)
  have upd: "ps_pcbs ps' = pcb_update pid (\<lambda>p. p\<lparr>pcb_context := None, pcb_state := Running\<rparr>) (ps_pcbs (md_procs m))"
    using r(1) by (auto simp: schedule_next_def cur Cons p split: if_splits)
  have "contexts_ok ps'" by (rule contexts_ok_update [OF _ _ upd]) (use ok in \<open>simp_all add: model_ok_def\<close>)
  with ok r frames have "model_ok cfg (m\<lparr>md_procs := ps'\<rparr>) None" by (simp add: model_ok_def)
  then show ?thesis
    unfolding dispatch_next_def r(1) using p' life r(3) regs by (auto simp: violation_def intro!: runs_new)
qed

subsection \<open>Decisions after a trap\<close>

lemma data_word_Ok: "offset + 4 \<le> length fr \<Longrightarrow> \<exists>w. data_word fr offset = Ok w"
  by (auto simp: data_word_def slice_get_def)

lemma fail_runs: "model_ok cfg m None \<Longrightarrow> runs cfg (Ok (model_fail m detail notes))"
  unfolding model_fail_def by (rule runs_new) (simp_all add: model_ok_def)

definition trapped :: "KernelConfig \<Rightarrow> Model \<Rightarrow> u32 \<Rightarrow> bool" where
  "trapped cfg m pid \<longleftrightarrow> model_ok cfg m None \<and> md_life m = Up \<and> ps_current (md_procs m) = Some pid"

lemma ret_runs: "trapped cfg m pid \<Longrightarrow> runs cfg (model_ret m nr sepc v notes)"
  by (auto simp: model_ret_def trapped_def intro!: runs_new)

lemma running_root_Ok:
  assumes "trapped cfg m pid"
  shows "\<exists>root. running_root m = Ok root"
proof -
  have "procs_inv (md_procs m) (md_entries m) None" "ps_current (md_procs m) = Some pid"
    using assms model_okD by (auto simp: trapped_def)
  then obtain p where "pcb_of (md_procs m) pid = Some p" by (rule inv_current)
  then show ?thesis using assms by (simp add: running_root_def trapped_def)
qed

lemma walk_runs:
  assumes "trapped cfg m pid" "buffer_ok b" "length pgs < buffer_pages b"
  shows "runs cfg (result_bind (violation (running_root m)) (\<lambda>root. Ok (ProcOp_new (StWalk b pgs root 1), m, notes)))"
proof -
  obtain root where "running_root m = Ok root" using running_root_Ok [OF assms(1)] by blast
  then show ?thesis using assms by (auto simp: violation_def trapped_def intro!: runs_new)
qed

lemma Buffer_new_ok: "Buffer_new sepc buf n = Some b \<Longrightarrow> buffer_ok b \<and> 0 < buffer_pages b"
  by (auto simp: Buffer_new_def buffer_ok_def buffer_pages_def WRITE_MAX_def word_le_nat_alt Let_def split: if_splits)

lemma write_runs:
  assumes "trapped cfg m pid"
  shows "runs cfg (syscall_write m nr sepc a0 a1 a2 notes)"
  unfolding syscall_write_def Let_def
  by (auto split: option.split intro!: ret_runs [OF assms] walk_runs [OF assms, unfolded One_nat_def] dest!: Buffer_new_ok)

lemma yield_runs:
  assumes t: "trapped cfg m pid" and c: "length (uc_regs c) = 31"
  shows "\<exists>ps. yield_current (md_procs m) c = Ok (pid, ps) \<and> runs cfg (dispatch_next (m\<lparr>md_procs := ps\<rparr>) pid notes)"
proof -
  have inv: "procs_inv (md_procs m) (md_entries m) None" and cur: "ps_current (md_procs m) = Some pid"
    using t model_okD by (auto simp: trapped_def)
  obtain ps where ps: "yield_current (md_procs m) c = Ok (pid, ps)" "procs_inv ps (md_entries m) None" "ps_current ps = None"
    and "ps_queue ps = ps_queue (md_procs m) @ [pid]" and frames: "ps_frames ps = ps_frames (md_procs m)"
    and "map pcb_pid (ps_pcbs ps) = map pcb_pid (ps_pcbs (md_procs m))"
    by (rule yield_current_Ok [OF inv cur])
  have upd: "ps_pcbs ps = pcb_update pid (\<lambda>p. p\<lparr>pcb_state := Ready, pcb_context := Some c\<rparr>) (ps_pcbs (md_procs m))"
    using ps(1) cur by (auto simp: yield_current_def split: option.splits)
  have "contexts_ok ps"
    by (rule contexts_ok_update [OF _ _ upd]) (use t c in \<open>simp_all add: trapped_def model_ok_def\<close>)
  then have "runs cfg (dispatch_next (m\<lparr>md_procs := ps\<rparr>) pid notes)"
    by (intro dispatch_runs) (use t ps frames in \<open>simp_all add: trapped_def model_ok_def\<close>)
  with ps(1) show ?thesis by blast
qed

lemma end_runs:
  assumes t: "trapped cfg m pid" and st: "is_terminal st"
  shows "\<exists>ps. end_current (md_procs m) st = Ok (pid, ps) \<and> (\<forall>notes. runs cfg (dispatch_next (m\<lparr>md_procs := ps\<rparr>) pid notes))"
proof -
  have inv: "procs_inv (md_procs m) (md_entries m) None" "frames_wf (ps_frames (md_procs m))" and cur: "ps_current (md_procs m) = Some pid"
    using t model_okD by (auto simp: trapped_def)
  obtain ps where ps: "end_current (md_procs m) st = Ok (pid, ps)" "procs_inv ps (md_entries m) None" "ps_current ps = None"
    and "ps_queue ps = ps_queue (md_procs m)" "frames_wf (ps_frames ps)"
      "map pcb_pid (ps_pcbs ps) = map pcb_pid (ps_pcbs (md_procs m))"
      "\<forall>q. frame_owner (ps_frames ps) q =
        (if frame_owner (ps_frames (md_procs m)) q = Some pid then Some 0 else frame_owner (ps_frames (md_procs m)) q)"
    by (rule end_current_Ok [OF inv cur st])
  obtain p fr where fr: "release (ps_frames (md_procs m)) pid (pcb_frames p) = (Ok (), fr)" "ps_frames ps = fr"
    and upd: "ps_pcbs ps = pcb_update pid (\<lambda>p. p\<lparr>pcb_state := st, pcb_context := None, pcb_tables := [], pcb_regions := []\<rparr>)
      (ps_pcbs (md_procs m))"
    using ps(1) cur st by (auto simp: end_current_def split: option.splits prod.splits sum.splits)
  have "contexts_ok ps"
    by (rule contexts_ok_update [OF _ _ upd]) (use t in \<open>simp_all add: trapped_def model_ok_def\<close>)
  moreover have "pool_ok (ps_frames ps)"
    using t fr release_Ok [OF fr(1)] by (simp add: trapped_def model_ok_def pool_ok_def)
  ultimately have "runs cfg (dispatch_next (m\<lparr>md_procs := ps\<rparr>) pid ns)" for ns
    by (intro dispatch_runs) (use t ps in \<open>simp_all add: trapped_def model_ok_def\<close>)
  with ps(1) show ?thesis by blast
qed

lemma syscall_runs:
  assumes t: "trapped cfg m pid" and len: "length fr = 152"
  shows "runs cfg (model_syscall m fr notes)"
proof -
  obtain sepc nr a0 a1 a2 where w: "data_word fr FRAME_SEPC = Ok sepc" "data_word fr FRAME_A7 = Ok nr" "data_word fr FRAME_A0 = Ok a0"
    "data_word fr FRAME_A1 = Ok a1" "data_word fr FRAME_A2 = Ok a2"
    using data_word_Ok [of FRAME_SEPC fr] data_word_Ok [of FRAME_A7 fr] data_word_Ok [of FRAME_A0 fr]
      data_word_Ok [of FRAME_A1 fr] data_word_Ok [of FRAME_A2 fr] len
    by (auto simp: FRAME_SEPC_def FRAME_A7_def FRAME_A0_def FRAME_A1_def FRAME_A2_def)
  obtain c where c: "context_from_frame fr = Ok c" "length (uc_regs c) = 31"
    using len by (auto simp: context_from_frame_def CONTEXT_BYTES_def)
  let ?c = "c\<lparr>uc_regs := (uc_regs c)[A0 := 0], uc_pc := sepc + 4\<rparr>"
  have y: "runs cfg (result_bind (violation (yield_current (md_procs m) ?c)) (\<lambda>(_, ps). dispatch_next (m\<lparr>md_procs := ps\<rparr>) pid ns))" for ns
    using yield_runs [OF t, of ?c ns] c(2) by (auto simp: violation_def)
  have e: "runs cfg (result_bind (violation (end_current (md_procs m) (Exited st))) (\<lambda>(_, ps). dispatch_next (m\<lparr>md_procs := ps\<rparr>) pid ns))"
    for st ns using end_runs [OF t, of "Exited st"] by (auto simp: violation_def)
  have cur: "ps_current (md_procs m) = Some pid" using t by (simp add: trapped_def)
  show ?thesis
    unfolding model_syscall_def
    by (cases "syscall_decode nr")
      (simp_all add: cur w panic_def Let_def c(1) y e ret_runs [OF t] write_runs [OF t])
qed

lemma decide_runs:
  assumes t: "trapped cfg m pid" and len: "length fr = 152"
  shows "runs cfg (model_decide m fr notes)"
proof -
  obtain sstatus scause sepc stval where w: "data_word fr FRAME_SSTATUS = Ok sstatus" "data_word fr FRAME_SCAUSE = Ok scause"
    "data_word fr FRAME_SEPC = Ok sepc" "data_word fr FRAME_STVAL = Ok stval"
    using data_word_Ok [of FRAME_SSTATUS fr] data_word_Ok [of FRAME_SCAUSE fr] data_word_Ok [of FRAME_SEPC fr] data_word_Ok [of FRAME_STVAL fr] len
    by (auto simp: FRAME_SSTATUS_def FRAME_SCAUSE_def FRAME_SEPC_def FRAME_STVAL_def)
  obtain ps where ps: "end_current (md_procs m) (Faulted scause sepc stval) = Ok (pid, ps)"
    "\<And>notes. runs cfg (dispatch_next (m\<lparr>md_procs := ps\<rparr>) pid notes)"
    using end_runs [OF t, of "Faulted scause sepc stval"] by auto
  have "runs cfg (Ok (model_fail m d notes))" for d using t fail_runs by (simp add: trapped_def)
  then show ?thesis
    unfolding model_decide_def by (simp add: w panic_def syscall_runs [OF t len] ps violation_def)
qed

subsection \<open>Creations\<close>

definition image_ok :: "UserLayout \<Rightarrow> UserImage \<Rightarrow> bool" where
  "image_ok layout img \<longleftrightarrow> (\<forall>s\<in>set (ui_segments img). us_pages s \<noteq> []) \<and> (\<forall>p\<in>set (pages img layout). page_copy_ok p)
     \<and> (\<exists>b. stack_base layout = Some b)"

lemma segments_image_ok:
  assumes "\<forall>s\<in>set (ui_segments img). segment_ok flen urange s" "stack_base layout = Some b" "image_in_pages img"
  shows "image_ok layout img"
proof -
  have "page_copy_ok (segment_page p)" if "s \<in> set (ui_segments img)" "p \<in> set (us_pages s)" for s p
  proof -
    have "pred_option copy_in_page (pp_copy p)" using that assms(3) by (simp add: image_in_pages_def list_all_iff)
    then show ?thesis by (cases "pp_copy p") (simp_all add: page_copy_ok_def segment_page_def copy_in_page_def)
  qed
  then show ?thesis
    using assms by (auto simp: image_ok_def pages_def segment_ok_def page_copy_ok_def)
qed

lemma validate_layout_Ok:
  assumes "validate_layout cfg l = Ok u"
  shows "\<exists>b. stack_base l = Some b" "config_validate cfg = Ok ()"
    "win_base (kc_frame_pool cfg) + win_size (kc_frame_pool cfg) \<le> 2 ^ 34"
  using assms
  by (auto simp: validate_layout_def Let_def PHYS_LIMIT_def not_less split: sum.splits if_splits option.splits)

lemma reserve_build:
  assumes ok: "model_ok cfg m None" and pid: "unat pid \<le> md_entries m" "\<forall>p\<in>set (ps_pcbs (md_procs m)). pcb_pid p < pid"
    and r: "reserve (ps_frames (md_procs m)) pid (frames_needed img layout) = (Ok (Some frames), fr)"
    and img: "image_ok layout img" and boot: "bi_image boot = img"
  obtains s fs where "Space_build cfg layout boot frames = Ok s" "space_of cfg layout boot (spc_frames s) fs s"
    "model_ok cfg (m\<lparr>md_procs := (md_procs m)\<lparr>ps_frames := fr\<rparr>\<rparr>) (Some (pid, spc_frames s))" "\<exists>n. space_steps s = Ok n \<and> 0 < n"
proof -
  note inv = model_okD [OF ok]
  from img obtain b where b: "stack_base layout = Some b" by (auto simp: image_ok_def)
  have res: "procs_inv ((md_procs m)\<lparr>ps_frames := fr\<rparr>) (md_entries m) (Some (pid, frames))" "frames_wf fr"
    "length frames = frames_needed img layout"
    using reserve_inv [OF inv r pid(1)] pid(2) by auto
  obtain s fs where s: "Space_build cfg layout boot frames = Ok s" "space_of cfg layout boot frames fs s"
    by (rule Space_build_Ok [of frames boot layout b cfg]) (use res(3) boot img b in \<open>auto simp: image_ok_def\<close>)
  have frames: "spc_frames s = frames" using s(2) by (simp add: space_of_def Let_def)
  have owners: "length (fr_owners fr) = length (fr_owners (ps_frames (md_procs m)))" "fr_base fr = fr_base (ps_frames (md_procs m))"
    "length frames \<le> length (free_indices (fr_owners (ps_frames (md_procs m))))"
    using reserve_Some [OF r] by simp_all
  have "length (free_indices (fr_owners (ps_frames (md_procs m)))) \<le> length (fr_owners (ps_frames (md_procs m)))"
    by (simp add: length_free_indices)
  then have "length frames \<le> 2 ^ 22" using owners(3) ok by (simp add: model_ok_def pool_ok_def)
  then have "\<exists>n. space_steps s = Ok n \<and> 0 < n" using space_steps_bounded [OF s(2)] img boot by (auto simp: image_ok_def)
  moreover have "model_ok cfg (m\<lparr>md_procs := (md_procs m)\<lparr>ps_frames := fr\<rparr>\<rparr>) (Some (pid, spc_frames s))"
    using ok res owners frames by (simp add: model_ok_def pool_ok_def contexts_ok_def)
  ultimately show thesis using that s frames by simp
qed

lemma reserve_cases:
  assumes "pid \<noteq> 0"
  obtains "reserve fr pid n = (Ok None, fr)" | frames fr' where "reserve fr pid n = (Ok (Some frames), fr')"
proof (cases "length (take n (free_indices (fr_owners fr))) < n")
  case True
  then show thesis using that(1) assms by (simp add: reserve_def Let_def)
next
  case False
  then show thesis using that(2) assms by (simp add: reserve_def Let_def)
qed

definition settled :: "KernelConfig \<Rightarrow> Model \<Rightarrow> nat \<Rightarrow> bool" where
  "settled cfg m k \<longleftrightarrow> model_ok cfg m None \<and> md_life m = Up \<and> ps_current (md_procs m) = None
     \<and> (\<forall>p\<in>set (ps_pcbs (md_procs m)). unat (pcb_pid p) \<le> k)"

lemma settled_pid:
  assumes "settled cfg m k" "k < md_entries m"
  shows "unat (of_nat k + 1 :: u32) = Suc k" "of_nat k + 1 \<noteq> (0 :: u32)" "\<forall>p\<in>set (ps_pcbs (md_procs m)). pcb_pid p < of_nat k + 1"
proof -
  have "k < 8" using assms by (simp add: settled_def model_ok_def)
  then show u: "unat (of_nat k + 1 :: u32) = Suc k" by (simp add: unat_word_ariths unat_of_nat)
  then show "of_nat k + 1 \<noteq> (0 :: u32)" by (metis unat_0 nat.distinct(1))
  show "\<forall>p\<in>set (ps_pcbs (md_procs m)). pcb_pid p < of_nat k + 1"
    using assms(1) by (auto simp: settled_def word_less_nat_alt u less_Suc_eq_le)
qed

lemma settled_mono: "settled cfg m k \<Longrightarrow> k \<le> k' \<Longrightarrow> settled cfg m k'"
  by (auto simp: settled_def)

lemma plan_images_ok:
  assumes "source_ok cfg (Plan plan)" "boot \<in> set (pl_images plan)"
  shows "image_ok (pl_layout plan) (bi_image boot)" "length (pl_images plan) \<le> 8"
proof -
  have v: "validate_layout cfg (pl_layout plan) = Ok ()" "length (pl_images plan) \<le> 8"
    and each: "try_for_each (plan_image_check cfg (pl_layout plan)) (enumerate 0 (pl_images plan)) = Ok ()"
    using assms by (auto simp: plan_validate_def MAX_PROCESSES_def split: if_splits)
  show "length (pl_images plan) \<le> 8" by (rule v(2))
  from assms(2) obtain i where "i < length (pl_images plan)" "boot = pl_images plan ! i" by (auto simp: in_set_conv_nth)
  then have "(i, boot) \<in> set (enumerate 0 (pl_images plan))" by (simp add: in_set_enumerate_eq)
  with each have "boot_check cfg (pl_layout plan) boot = Ok ()"
    by (force simp: plan_image_check_def split: sum.splits)
  moreover have "image_in_pages (bi_image boot)" using assms by (auto simp: plan_in_pages_def list_all_iff)
  ultimately show "image_ok (pl_layout plan) (bi_image boot)"
    using validate_layout_Ok(1) [OF v(1)] segments_image_ok [of "bi_image boot" _ "image_range (pl_layout plan)"]
    by (auto simp: boot_check_Ok)
qed

lemma create_from_runs:
  assumes "settled cfg m k" "md_source m = Plan plan"
    and "\<forall>(i, boot)\<in>set todo. k \<le> i \<and> i < length (pl_images plan) \<and> boot = pl_images plan ! i"
  shows "runs cfg (create_from cfg (pl_layout plan) todo m ns)"
  using assms(3)
proof (induction todo arbitrary: ns)
  case Nil
  then show ?case using dispatch_runs assms(1) by (simp add: settled_def)
next
  case (Cons t rest)
  obtain i boot where t: "t = (i, boot)" by fastforce
  have i: "k \<le> i" "i < length (pl_images plan)" and boot: "boot = pl_images plan ! i" using Cons.prems t by auto
  have IH: "runs cfg (create_from cfg (pl_layout plan) rest m ns)" for ns using Cons by simp
  have ok: "model_ok cfg m None" and src: "source_ok cfg (Plan plan)" and ent: "md_entries m = length (pl_images plan)"
    using assms(1,2) by (auto simp: settled_def model_ok_def)
  note pid = settled_pid [OF settled_mono [OF assms(1) i(1)]]
  have img: "image_ok (pl_layout plan) (bi_image boot)" using plan_images_ok(1) [OF src] boot i(2) by simp
  show ?case
  proof (cases "megapage_conflict (bi_image boot) cfg")
    case False
    show ?thesis
    proof (rule reserve_cases [of "of_nat i + 1" "ps_frames (md_procs m)" "frames_needed (bi_image boot) (pl_layout plan)"])
      show "of_nat i + 1 \<noteq> (0 :: u32)" using pid ent i by simp
    next
      assume "reserve (ps_frames (md_procs m)) (of_nat i + 1) (frames_needed (bi_image boot) (pl_layout plan)) = (Ok None, ps_frames (md_procs m))"
      then show ?thesis using False IH by (simp add: t Let_def)
    next
      fix frames fr assume r: "reserve (ps_frames (md_procs m)) (of_nat i + 1) (frames_needed (bi_image boot) (pl_layout plan)) = (Ok (Some frames), fr)"
      obtain s fs where s: "Space_build cfg (pl_layout plan) boot frames = Ok s" "space_of cfg (pl_layout plan) boot (spc_frames s) fs s"
        "model_ok cfg (m\<lparr>md_procs := (md_procs m)\<lparr>ps_frames := fr\<rparr>\<rparr>) (Some (of_nat i + 1, spc_frames s))" "\<exists>n. space_steps s = Ok n \<and> 0 < n"
        by (rule reserve_build [OF ok _ _ r img refl]) (use pid ent i in auto)
      have "runs cfg (Ok (ProcOp_new (StCreate (of_nat i + 1) s), m\<lparr>md_procs := (md_procs m)\<lparr>ps_frames := fr\<rparr>\<rparr>, ns))"
        by (rule runs_new) (use s pid ent i boot assms in \<open>auto simp: settled_def word_neq_0_conv\<close>)
      then show ?thesis using False r s(1) by (simp add: t Let_def panic_def)
    qed
  qed (simp add: t Let_def IH)
qed

lemma next_creation_runs:
  assumes "settled cfg m k" "md_source m = Plan plan"
  shows "runs cfg (next_creation cfg m k notes)"
proof -
  have "k \<le> i \<and> i < length (pl_images plan) \<and> boot = pl_images plan ! i" if "(i, boot) \<in> set (drop k (enumerate 0 (pl_images plan)))" for i boot
    using that by (auto simp: in_set_conv_nth nth_enumerate_eq)
  then show ?thesis unfolding next_creation_def assms(2) by (auto intro!: create_from_runs [OF assms])
qed

lemma admit_settles:
  assumes ok: "model_ok cfg m (Some (pid, spc_frames s))" and life: "md_life m = Up" and cur: "ps_current (md_procs m) = None"
    and above: "\<forall>p\<in>set (ps_pcbs (md_procs m)). pcb_pid p < pid" and s: "space_of cfg layout boot (spc_frames s) fs s"
  shows "\<exists>m' notes'. model_admit m pid img s notes = Ok (m', notes') \<and> settled cfg m' (unat pid)
    \<and> md_source m' = md_source m \<and> md_entries m' = md_entries m"
proof -
  let ?c = "context_initial (ui_entry img) (ul_stack_top (source_layout (md_source m)))"
  let ?p = "Pcb_new pid s ?c"
  let ?ps = "(md_procs m)\<lparr>ps_queue := ps_queue (md_procs m) @ [pid], ps_pcbs := ps_pcbs (md_procs m) @ [?p]\<rparr>"
  have frames: "mset (pcb_frames ?p) = mset (spc_frames s)"
    using space_frames_mset [OF s] by (simp add: pcb_frames_def Pcb_new_def)
  have tabs: "pcb_tables ?p \<noteq> []" "pcb_tables ?p ! 0 = pcb_root ?p" "pcb_regions ?p \<noteq> []"
    using s by (auto simp: Pcb_new_def space_of_def Let_def)
  note ad = admit_Ok [OF model_okD [OF ok] above _ _ _ frames tabs]
  have "admit (md_procs m) ?p = Ok ?ps" "procs_inv ?ps (md_entries m) None" by (rule ad; simp add: Pcb_new_def)+
  moreover have "contexts_ok ?ps"
    using ok by (auto simp: model_ok_def contexts_ok_def Pcb_new_def context_initial_def)
  ultimately have "model_admit m pid img s notes = Ok (m\<lparr>md_procs := ?ps\<rparr>, notes @ map (segment_note pid) (ui_segments img)
      @ [\<lparr>note_kind = ''os.process.create'', note_fields =
           [(''pid'', VNat pid), (''entry'', VNat (ui_entry img)), (''root'', VNat (spc_root s)), (''error'', VStr [])]\<rparr>])"
    and "model_ok cfg (m\<lparr>md_procs := ?ps\<rparr>) None"
    using ok by (simp_all add: model_admit_def Let_def violation_def model_ok_def)
  then show ?thesis using life cur above
    by (auto simp: settled_def Pcb_new_def word_less_nat_alt less_imp_le)
qed

subsection \<open>Booting from disk\<close>

lemma exec_table_entries:
  assumes "parse_exec_table block cap st = Ok t"
  shows "length t \<le> 8" "\<forall>e\<in>set t. byte_len e \<noteq> 0"
proof -
  show "length t \<le> 8" using assms by (auto simp: parse_exec_table_def Let_def MAX_ENTRIES_def split: if_splits)
  have chk: "check_entries t cap st = Ok ()" using assms by (auto simp: parse_exec_table_def Let_def split: if_splits)
  have "byte_len (t ! i) \<noteq> 0" if i: "i < length t" for i
  proof -
    have "range_check cap st (i, t ! i) = None" using chk i by (auto simp: check_entries_def in_set_enumerate_eq)
    then show ?thesis by (auto simp: range_check_def split: if_splits)
  qed
  then show "\<forall>e\<in>set t. byte_len e \<noteq> 0" by (auto simp: in_set_conv_nth)
qed

lemma settled_empty:
  "procs_inv ps images None \<Longrightarrow> ps_pcbs ps = [] \<Longrightarrow> procs_inv ps images' None"
  by (auto simp: procs_inv_def)

lemma next_load_runs:
  assumes "settled cfg m index" "md_source m = Disk d"
    and "pred_option (\<lambda>t. length t = md_entries m \<and> (\<forall>e\<in>set t. byte_len e \<noteq> 0)) table"
  shows "runs cfg (next_load m table index ns)"
proof -
  have disp: "runs cfg (dispatch_next m 0 ns)" using dispatch_runs assms(1) by (simp add: settled_def)
  have "runs cfg (Ok (ProcOp_new (StCommand \<lparr>cu_table = Some t, cu_index = index\<rparr>), m, ns))" if "table = Some t" "index < length t" for t
    by (rule runs_new) (use assms that in \<open>auto simp: settled_def booting_def cursor_entry_def\<close>)
  then show ?thesis unfolding next_load_def using disp by (auto split: option.split)
qed

lemma booting_settled:
  assumes "booting m c" "model_ok cfg m None"
  shows "settled cfg m (cu_index c)"
  using assms by (auto simp: booting_def settled_def split: option.splits)

lemma booting_entry:
  assumes "booting m c"
  obtains "cu_table c = None" "cursor_entry c = Ok None"
    | t e where "cu_table c = Some t" "cu_index c < length t" "e = t ! cu_index c" "cursor_entry c = Ok (Some e)" "byte_len e \<noteq> 0"
      "length t = md_entries m" "\<forall>e\<in>set t. byte_len e \<noteq> 0"
  using assms by (cases "cu_table c") (auto simp: booting_def cursor_entry_def)

lemma booting_next:
  assumes "booting m c" "model_ok cfg m None" "cu_table c \<noteq> None"
  shows "runs cfg (next_load m (cu_table c) (Suc (cu_index c)) ns)"
proof -
  obtain d where d: "md_source m = Disk d" using assms(1) by (auto simp: booting_def)
  show ?thesis
    by (rule next_load_runs [OF settled_mono [OF booting_settled [OF assms(1,2)]] d])
      (use assms in \<open>auto simp: booting_def split: option.splits\<close>)
qed

lemma booting_staging: "booting m c \<Longrightarrow> model_ok cfg m cr \<Longrightarrow> win_base (kc_staging cfg) \<le> 2 ^ 32"
  using disk_staging_low by (auto simp: booting_def model_ok_def)

lemma acked_runs:
  assumes b: "booting m c" and ok: "model_ok cfg m None"
  shows "runs cfg (model_acked m c error ns)"
proof (cases "error = 0")
  case True
  from b show ?thesis
  proof (cases rule: booting_entry)
    case 1
    have "runs cfg (Ok (ProcOp_new (StStaged c 512), m, ns))"
      by (rule runs_new) (use b ok 1 booting_staging [OF b ok] in \<open>simp_all add: word_less_nat_alt\<close>)
    then show ?thesis using True 1 by (simp add: model_acked_def panic_def cursor_first_read_def BLOCK_SIZE_def)
  next
    case (2 t e)
    have "runs cfg (Ok (ProcOp_new (StStaged c (min (byte_len e) ELF_HEADER_BYTES)), m, ns))"
      by (rule runs_new) (use b ok 2 booting_staging [OF b ok] in \<open>auto simp: min_def ELF_HEADER_BYTES_def word_neq_0_conv\<close>)
    then show ?thesis using True 2 by (simp add: model_acked_def panic_def cursor_first_read_def)
  qed
next
  case False
  then show ?thesis using booting_next [OF b ok]
    by (cases "cu_table c") (simp_all add: model_acked_def fail_runs [OF ok])
qed

lemma staged_table_runs:
  assumes b: "booting m c" and ok: "model_ok cfg m None" and t: "cu_table c = None" and len: "length data = 512"
  shows "runs cfg (staged_table cfg d m data ns)"
proof (cases "parse_exec_table data (db_capacity_blocks d) (disk_staging_size cfg)")
  case (Inl e)
  then show ?thesis using len fail_runs [OF ok] by (simp add: staged_table_def BLOCK_SIZE_def)
next
  case (Inr t)
  obtain d' where d': "md_source m = Disk d'" and no: "ps_pcbs (md_procs m) = []" "md_life m = Up" "ps_current (md_procs m) = None"
    using b assms(3) by (auto simp: booting_def)
  have "procs_inv (md_procs m) (length t) None" using settled_empty model_okD(1) [OF ok] no(1) by blast
  then have "model_ok cfg (m\<lparr>md_entries := length t\<rparr>) None"
    using ok exec_table_entries(1) [OF Inr] d' by (simp add: model_ok_def)
  then have "runs cfg (next_load (m\<lparr>md_entries := length t\<rparr>) (Some t) 0 ns)" for ns
    by (intro next_load_runs [where d = d']) (use no d' exec_table_entries(2) [OF Inr] in \<open>auto simp: settled_def\<close>)
  then show ?thesis using len Inr by (simp add: staged_table_def BLOCK_SIZE_def)
qed

lemma parsed_image_ok:
  assumes "parse_user_elf32 data flen (image_range l) = Ok img" "stack_base l = Some b"
  shows "image_ok l img"
  using parsed_image_in_pages [OF assms(1)] segments_image_ok [where flen = flen, OF _ assms(2)] by blast

lemma staged_image_runs:
  assumes b: "booting m c" and ok: "model_ok cfg m None" and d: "md_source m = Disk d" and e: "cursor_entry c = Ok (Some e)"
    and img: "image_ok (db_layout d) img"
  shows "runs cfg (staged_image cfg d m c e data img ns)"
proof -
  have t: "cu_table c \<noteq> None" and entry: "cursor_entry c \<noteq> Err Panic"
    using e by (auto simp: cursor_entry_def split: option.splits)
  have k: "cu_index c < md_entries m" using b t by (auto simp: booting_def)
  note pid = settled_pid [OF booting_settled [OF b ok] k]
  note nxt = booting_next [OF b ok t]
  let ?boot = "\<lparr>bi_staged = of_nat (win_base (kc_staging cfg)), bi_file_len = byte_len e, bi_image = img\<rparr>"
  show ?thesis
  proof (cases "megapage_conflict img cfg")
    case False
    show ?thesis
    proof (rule reserve_cases [of "cursor_pid c" "ps_frames (md_procs m)" "frames_needed img (db_layout d)"])
      show "cursor_pid c \<noteq> 0" using pid(2) by (simp add: cursor_pid_def)
    next
      assume "reserve (ps_frames (md_procs m)) (cursor_pid c) (frames_needed img (db_layout d)) = (Ok None, ps_frames (md_procs m))"
      then show ?thesis using False nxt by (simp add: staged_image_def Let_def)
    next
      fix frames fr assume r: "reserve (ps_frames (md_procs m)) (cursor_pid c) (frames_needed img (db_layout d)) = (Ok (Some frames), fr)"
      obtain s fs where s: "Space_build cfg (db_layout d) ?boot frames = Ok s" "space_of cfg (db_layout d) ?boot (spc_frames s) fs s"
        "model_ok cfg (m\<lparr>md_procs := (md_procs m)\<lparr>ps_frames := fr\<rparr>\<rparr>) (Some (cursor_pid c, spc_frames s))" "\<exists>n. space_steps s = Ok n \<and> 0 < n"
        by (rule reserve_build [OF ok _ _ r img, of ?boot]) (use pid k in \<open>auto simp: cursor_pid_def\<close>)
      have "\<exists>boot fs. bi_image boot = img \<and> space_of cfg (db_layout d) boot (spc_frames s) fs s"
        by (rule exI [of _ ?boot]) (use s(2) in auto)
      moreover have "booting (m\<lparr>md_procs := (md_procs m)\<lparr>ps_frames := fr\<rparr>\<rparr>) c" using b by (cases "cu_table c") (simp_all add: booting_def)
      ultimately have "runs cfg (Ok (ProcOp_new (StLoad c data img s), m\<lparr>md_procs := (md_procs m)\<lparr>ps_frames := fr\<rparr>\<rparr>, ns))"
        by (intro runs_new) (use s(3,4) t entry d in simp_all)
      then show ?thesis using False r s(1) by (simp add: staged_image_def Let_def panic_def)
    qed
  qed (simp add: staged_image_def Let_def nxt)
qed

lemma staged_runs:
  assumes b: "booting m c" and ok: "model_ok cfg m None" and len: "cu_table c = None \<longrightarrow> length data = 512"
  shows "runs cfg (model_staged cfg m c n data ns)"
proof -
  obtain d where d: "md_source m = Disk d" using b by (auto simp: booting_def)
  have "validate_layout cfg (db_layout d) = Ok ()"
    using ok d by (auto simp: model_ok_def disk_validate_def)
  then obtain base where base: "stack_base (db_layout d) = Some base" using validate_layout_Ok(1) by blast
  from b show ?thesis
  proof (cases rule: booting_entry)
    case 1
    then show ?thesis using d staged_table_runs [OF b ok] len by (simp add: model_staged_def panic_def)
  next
    case (2 t e)
    note nxt = booting_next [OF b ok]
    have more: "runs cfg (Ok (ProcOp_new (StStaged c needed), m, ns))" if "needed > n" for needed
    proof -
      have "0 < needed" using that by (metis word_not_simps(1) word_neq_0_conv)
      then show ?thesis
        by (intro runs_new) (use b ok 2 booting_staging [OF b ok] in simp_all)
    qed
    show ?thesis
    proof (cases "parse_user_elf32 data (byte_len e) (image_range (db_layout d))")
      case (Inr img)
      then show ?thesis using d 2 staged_image_runs [OF b ok d _ parsed_image_ok [OF Inr base]]
        by (simp add: model_staged_def panic_def)
    next
      case (Inl err)
      then show ?thesis using d 2 nxt more
        by (cases err) (auto simp: model_staged_def panic_def)
    qed
  qed
qed

subsection \<open>Every stage boundary\<close>

lemma walk_next_runs:
  assumes t: "trapped cfg m pid" and wf: "buffer_ok b" "length pgs < buffer_pages b" "level \<le> 1" and len: "length data = 4"
  shows "runs cfg (walk_next m b pgs level data ns)"
proof -
  obtain pte where pte: "data_word data 0 = Ok pte" using data_word_Ok [of 0 data] len by auto
  have ok: "model_ok cfg m None" "md_life m = Up" "ps_current (md_procs m) = Some pid" using t by (simp_all add: trapped_def)
  have out: "runs cfg (Ok (ProcOp_new (StOutput b pgs' 0), m, ns))" if "length pgs' = buffer_pages b" for pgs'
    by (rule runs_new) (use ok wf that in \<open>auto simp: buffer_ok_def word_less_nat_alt\<close>)
  have nxt: "runs cfg (Ok (ProcOp_new (StWalk b pgs table 0), m, ns))" for table
    by (rule runs_new) (use ok wf in auto)
  show ?thesis
  proof (cases "user_walk_step pte level (page_addr b (length pgs))")
    case (UserPage ppn)
    then show ?thesis
      using out [of "pgs @ [ppn]"] walk_runs [OF t wf(1), of "pgs @ [ppn]"] wf(2)
      by (simp add: walk_next_def pte buffer_page_va_Ok [OF wf(1,2)] panic_def Let_def)
  qed (simp_all add: walk_next_def pte buffer_page_va_Ok [OF wf(1,2)] panic_def nxt ret_runs [OF t])
qed

lemma output_runs:
  assumes t: "trapped cfg m pid" and wf: "buffer_ok b" "length pgs = buffer_pages b" "don < bf_n b"
  defines "don' \<equiv> don + snd (chunk_at b don)"
  shows "runs cfg (if don' = bf_n b then model_ret m SYS_WRITE (bf_sepc b) (bf_n b) ns else Ok (ProcOp_new (StOutput b pgs don'), m, ns))"
proof (cases "don' = bf_n b")
  case False
  have "unat don' \<le> unat (bf_n b)" unfolding don'_def chunk_at_step [OF wf(3)] by (rule chunk_at_len(3) [OF wf(3)])
  then have "don' < bf_n b" using False by (simp add: word_less_nat_alt word_unat_eq_iff)
  then have "runs cfg (Ok (ProcOp_new (StOutput b pgs don'), m, ns))"
    by (intro runs_new) (use t wf in \<open>auto simp: trapped_def\<close>)
  with False show ?thesis by simp
qed (simp add: ret_runs [OF t])

lemma advance_decides:
  assumes ok: "op_ok cfg m p" and fin: "stage_steps cfg (po_stage p) = Ok n" "po_step p = n"
  shows "decides cfg (model_advance cfg m p ns)"
proof -
  have mok: "model_ok cfg m (stage_creating (po_stage p))" and at: "stage_at cfg m (po_stage p)" and wf: "stage_wf cfg (po_stage p)"
    and final: "final_data (po_stage p) (length (po_data p))"
    using ok fin by (auto simp: op_ok_def op_inv_def)
  have idle: "decides cfg (Ok (None, m, ns))" if "model_ok cfg m None" "idle_ok m" using that by (auto simp: decides_def)
  show ?thesis
  proof (cases "po_stage p")
    case (StCreate pid s)
    from at obtain plan fs where plan: "md_source m = Plan plan" "0 < pid" "unat pid \<le> length (pl_images plan)"
      "\<forall>p\<in>set (ps_pcbs (md_procs m)). pcb_pid p < pid" "md_life m = Up" "ps_current (md_procs m) = None"
      "space_of cfg (pl_layout plan) (pl_images plan ! (unat pid - 1)) (spc_frames s) fs s" by (auto simp: StCreate)
    obtain m' ns' where m': "model_admit m pid (bi_image (pl_images plan ! (unat pid - 1))) s ns = Ok (m', ns')" "settled cfg m' (unat pid)"
      "md_source m' = Plan plan"
      using admit_settles [OF _ plan(5,6,4,7), of "bi_image (pl_images plan ! (unat pid - 1))" ns] mok plan(1) by (auto simp: StCreate)
    have "0 < unat pid" using plan(2) by (simp add: unat_gt_0)
    then show ?thesis
      using decides_some [OF next_creation_runs [OF m'(2,3)]] plan(1-3) m'(1) by (auto simp: model_advance_def StCreate)
  next
    case (StLoad c d img s)
    from at obtain disk boot fs where b: "booting m c" "cu_table c \<noteq> None" "md_source m = Disk disk"
      "space_of cfg (db_layout disk) boot (spc_frames s) fs s" by (auto simp: StLoad)
    have k: "cu_index c < 8" "\<forall>p\<in>set (ps_pcbs (md_procs m)). unat (pcb_pid p) \<le> cu_index c"
      using b(1,2) mok by (auto simp: booting_def model_ok_def)
    then have u: "unat (cursor_pid c) = Suc (cu_index c)" by (simp add: cursor_pid_def unat_word_ariths unat_of_nat)
    have "\<forall>p\<in>set (ps_pcbs (md_procs m)). pcb_pid p < cursor_pid c" using k(2) by (auto simp: word_less_nat_alt u less_Suc_eq_le)
    then obtain m' ns' where m': "model_admit m (cursor_pid c) img s ns = Ok (m', ns')" "settled cfg m' (Suc (cu_index c))"
      "md_source m' = Disk disk" "md_entries m' = md_entries m"
      using admit_settles [OF _ _ _ _ b(4), of m "cursor_pid c" img ns] mok b(1,3) u by (auto simp: StLoad booting_def)
    have "runs cfg (next_load m' (cu_table c) (Suc (cu_index c)) ns')"
      by (rule next_load_runs [OF m'(2,3)]) (use b(1,2) m'(4) in \<open>auto simp: booting_def split: option.splits\<close>)
    then show ?thesis using m'(1) by (simp add: model_advance_def StLoad decides_some)
  next
    case (StReadFrame)
    then obtain pid where "trapped cfg m pid" using mok at by (auto simp: trapped_def)
    then show ?thesis using decides_some [OF decide_runs] final StReadFrame by (simp add: model_advance_def)
  next
    case (StWalk b pgs table level)
    then obtain pid where "trapped cfg m pid" using mok at by (auto simp: trapped_def)
    then show ?thesis using decides_some [OF walk_next_runs] wf final StWalk by (simp add: model_advance_def)
  next
    case (StOutput b pgs don)
    then obtain pid where t: "trapped cfg m pid" using mok at by (auto simp: trapped_def)
    have "decides cfg (some_op (if don + snd (chunk_at b don) = bf_n b then model_ret m SYS_WRITE (bf_sepc b) (bf_n b) ns
        else Ok (ProcOp_new (StOutput b pgs (don + snd (chunk_at b don))), m, ns)))"
      by (rule decides_some [OF output_runs [OF t]]) (use wf StOutput in simp_all)
    moreover have "buffer_chunk b don = Ok (chunk_at b don)" using wf StOutput by (simp add: buffer_chunk_Ok)
    ultimately show ?thesis by (auto simp: model_advance_def StOutput Let_def some_op_def panic_def split: if_splits)
  next
    case (StCommand c)
    have "runs cfg (Ok (ProcOp_new (StPoll c), m, ns))" by (rule runs_new) (use mok at wf StCommand in simp_all)
    then show ?thesis using decides_some [of cfg "Ok (ProcOp_new (StPoll c), m, ns)"] by (simp add: model_advance_def StCommand some_op_def)
  next
    case (StPoll c)
    obtain w where w: "data_word (po_data p) 0 = Ok w" using data_word_Ok [of 0 "po_data p"] final StPoll by auto
    have "runs cfg (Ok (ProcOp_new (poll_next c w), m, ns))"
      by (rule runs_new) (use mok at wf StPoll in \<open>auto simp: poll_next_def\<close>)
    then show ?thesis using decides_some [of cfg "Ok (ProcOp_new (poll_next c w), m, ns)"] w
      by (simp add: model_advance_def StPoll some_op_def panic_def)
  next
    case (StAck c e)
    then show ?thesis using decides_some [OF acked_runs] mok at by (simp add: model_advance_def)
  next
    case (StStaged c len)
    then show ?thesis using decides_some [OF staged_runs] mok at final by (simp add: model_advance_def)
  next
    case (StShutdown r)
    then show ?thesis using idle mok at by (simp add: model_advance_def idle_ok_def)
  next
    case (StDispatch pid c satp)
    then show ?thesis using idle mok at by (simp add: model_advance_def idle_ok_def)
  next
    case (StReturn sepc v)
    then show ?thesis using idle mok at by (simp add: model_advance_def idle_ok_def)
  qed
qed

lemma start_runs:
  assumes ok: "model_ok cfg m None" and idle: "idle_ok m" and up: "md_life m \<noteq> Down"
  shows "runs cfg (model_start cfg m v ns)"
proof (cases "v = kc_trap_frame cfg")
  case True
  show ?thesis
  proof (cases "md_life m")
    case AwaitBoot
    let ?m = "m\<lparr>md_life := Up\<rparr>"
    have empty: "ps_pcbs (md_procs m) = []" "ps_current (md_procs m) = None" using idle AwaitBoot by (simp_all add: idle_ok_def)
    have ok': "model_ok cfg ?m None" using ok by (simp add: model_ok_def)
    show ?thesis
    proof (cases "md_source m")
      case (Plan plan)
      have "settled cfg ?m 0" using ok' empty by (simp add: settled_def)
      then show ?thesis using True AwaitBoot Plan next_creation_runs by (simp add: model_start_def)
    next
      case (Disk d)
      have "runs cfg (Ok (ProcOp_new (StCommand cursor_table), ?m, ns))"
        by (rule runs_new) (use ok' empty Disk in \<open>simp_all add: booting_def cursor_table_def cursor_entry_def\<close>)
      then show ?thesis using True AwaitBoot Disk by (simp add: model_start_def)
    qed
  next
    case Up
    then have "ps_current (md_procs m) \<noteq> None" using idle by (simp add: idle_ok_def)
    then have "runs cfg (Ok (ProcOp_new StReadFrame, m, ns))" by (intro runs_new) (use ok Up in simp_all)
    then show ?thesis using True Up \<open>ps_current (md_procs m) \<noteq> None\<close> by (simp add: model_start_def)
  qed (use up in simp)
qed (use up fail_runs [OF ok] in \<open>simp add: model_start_def\<close>)

subsection \<open>Reachable kernels\<close>

text \<open>
  What can happen to the kernel: it starts as built, an \<^verbatim>\<open>ENTER\<close> with any value starts an operation, the
  access due completes in any way its kind allows, and a finished stage is advanced.
\<close>

inductive kernel_reach :: "KernelConfig \<Rightarrow> Source \<Rightarrow> Model \<Rightarrow> ProcOp option \<Rightarrow> bool" for cfg src where
  boot: "kernel_reach cfg src (Model_new src (Processes_new (Frames_new (win_base (kc_frame_pool cfg)) (win_size (kc_frame_pool cfg))))) None"
| enter: "kernel_reach cfg src m None \<Longrightarrow> model_start cfg m v ns = Ok (p, m', ns') \<Longrightarrow> kernel_reach cfg src m' (Some p)"
| access: "kernel_reach cfg src m (Some p) \<Longrightarrow> procop_complete cfg p c = Ok (Ok p') \<Longrightarrow> kernel_reach cfg src m (Some p')"
| stage: "kernel_reach cfg src m (Some p) \<Longrightarrow> procop_is_finished cfg p = Ok True \<Longrightarrow>
    model_advance cfg m p ns = Ok (op, m', ns') \<Longrightarrow> kernel_reach cfg src m' op"

fun op_creating :: "ProcOp option \<Rightarrow> (u32 \<times> u32 list) option" where
  "op_creating None = None"
| "op_creating (Some p) = stage_creating (po_stage p)"

lemma boot_ok:
  assumes "source_ok cfg src"
  shows "state_ok cfg (Model_new src (Processes_new (Frames_new (win_base (kc_frame_pool cfg)) (win_size (kc_frame_pool cfg))))) None"
proof -
  let ?fr = "Frames_new (win_base (kc_frame_pool cfg)) (win_size (kc_frame_pool cfg))"
  have "\<exists>l. validate_layout cfg l = Ok ()"
    using assms by (cases src) (auto simp: plan_validate_def disk_validate_def)
  then have "win_base (kc_frame_pool cfg) + win_size (kc_frame_pool cfg) \<le> 2 ^ 34" using validate_layout_Ok(3) by blast
  then have b: "win_base (kc_frame_pool cfg) div 4096 + win_size (kc_frame_pool cfg) div 4096 \<le> 4194304" by simp
  then have "pool_ok ?fr" by (simp add: pool_ok_def Frames_new_def PAGE_def unat_of_nat_exact)
  moreover have "owners_inv ?fr []"
    using pool_wf [OF calculation] by (auto simp: owners_inv_def frame_owner_iff Frames_new_def)
  moreover have "length (pl_images plan) \<le> 8" if "src = Plan plan" for plan
    using assms that by (auto simp: plan_validate_def MAX_PROCESSES_def split: if_splits)
  ultimately show ?thesis
    using assms by (auto simp: Model_new_def Processes_new_def model_ok_def contexts_ok_def procs_inv_def claims_def idle_ok_def
        split: Source.splits)
qed

lemma reach_ok:
  assumes "kernel_reach cfg src m op" and "source_ok cfg src"
  shows "state_ok cfg m op"
  using assms(1)
proof induction
  case boot
  show ?case by (rule boot_ok [OF assms(2)])
next
  case (enter m v ns p m' ns')
  have "md_life m \<noteq> Down" using enter.hyps(2) by (auto simp: model_start_def split: if_splits)
  then have "runs cfg (model_start cfg m v ns)" using enter.IH by (intro start_runs) simp_all
  then show ?case using enter.hyps(2) by (simp add: runs_def)
next
  case (access m p c p')
  then have ok: "op_ok cfg m p" by simp
  then obtain n where n: "stage_steps cfg (po_stage p) = Ok n" "po_step p \<le> n" by (auto simp: op_ok_def op_inv_def)
  from access.hyps(2) obtain a where a: "procop_access cfg p = Ok (Some a)" "completion_fits a c" by (rule procop_complete_fits)
  show ?case
  proof (cases "po_step p < n")
    case True
    from procop_complete_Ok [OF _ _ n(1) True a] ok access.hyps(2) show ?thesis by (auto simp: op_ok_def)
  next
    case False
    then have "po_step p = n" using n(2) by simp
    then show ?thesis using a(1) ok n(1) finished_no_access by (metis op_ok_def option.distinct(1) sum.inject(2))
  qed
next
  case (stage m p ns op m' ns')
  then have "op_ok cfg m p" by simp
  moreover from stage.hyps(2) obtain n where "stage_steps cfg (po_stage p) = Ok n" "n \<le> po_step p" by (auto simp: procop_is_finished_def)
  ultimately have "decides cfg (model_advance cfg m p ns)" by (intro advance_decides) (auto simp: op_ok_def op_inv_def)
  then show ?case using stage.hyps(3) by (simp add: decides_def)
qed



definition tiny_disk :: Source where
  "tiny_disk = Disk \<lparr>db_layout = tiny_layout, db_capacity_blocks = 8\<rparr>"

lemma tiny_disk_ok: "source_valid tiny_config tiny_disk" "source_in_pages tiny_disk"
  using tiny_layout_valid by (simp_all add: source_valid_def source_in_pages_def tiny_disk_def disk_validate_def) (simp add: tiny_config_def BLOCK_SIZE_def BLK_REGISTERS_def Let_def)

abbreviation (input) tiny_boot :: Model where
  "tiny_boot \<equiv> Model_new tiny_disk (Processes_new (Frames_new (win_base (kc_frame_pool tiny_config)) (win_size (kc_frame_pool tiny_config))))"

lemma tiny_boot_command:
  "kernel_reach tiny_config tiny_disk (tiny_boot\<lparr>md_life := Up\<rparr>) (Some (ProcOp_new (StCommand cursor_table)))"
  by (rule kernel_reach.enter [OF kernel_reach.boot, where v = "0x80001000" and ns = "[]" and ns' = "[]"])
    (simp add: model_start_def tiny_config_def Model_new_def tiny_disk_def)

lemma tiny_command:
  "procop_is_finished tiny_config (ProcOp_new (StCommand cursor_table)) = Ok False"
  "procop_access tiny_config (ProcOp_new (StCommand cursor_table)) = Ok (Some (KWrite 0x10001008 (u32_to_le_bytes 0)))"
  "po_stage (ProcOp_new (StCommand cursor_table)) = StCommand cursor_table"
  by (simp_all add: procop_is_finished_def procop_access_def ProcOp_new_def bounded_def u32_max_def cursor_transfer_def cursor_entry_def
      cursor_table_def command_regs_def tiny_config_def BLK_LBA_def)

abbreviation (input) tiny_plan_boot :: Model where
  "tiny_plan_boot \<equiv> Model_new (Plan tiny_plan) (Processes_new (Frames_new (win_base (kc_frame_pool tiny_config)) (win_size (kc_frame_pool tiny_config))))"


end
