(* ===== verification/Os_Kernel.thy ===== *)
theory Os_Kernel
  imports Os_ModelInv
begin

section \<open>The kernel component\<close>

text \<open>
  Models \<^verbatim>\<open>components/os/src/kernel.rs\<close>: the gate that holds an \<^verbatim>\<open>ENTER\<close> and the engine that runs its
  operation, one whitelisted bus access at a time. A model violation faults the session; an index or
  an \<^verbatim>\<open>expect\<close> that fails is a panic.

  The theorems are about every sequence of deliveries: an operation is in progress exactly while an
  \<^verbatim>\<open>ENTER\<close> is held, each accepted \<^verbatim>\<open>ENTER\<close> is answered exactly once and in order, at most one access is
  outstanding, and no access leaves the whitelist.
\<close>

definition ENTER :: u64 where "ENTER = 0"
definition GATE_PORT :: PortId where "GATE_PORT = 0"
definition KMEM_PORT :: PortId where "KMEM_PORT = 1"
definition ISSUE :: u64 where "ISSUE = 0"

datatype Work = Proto Operation | Proc ProcOp

fun work_access :: "KernelConfig \<Rightarrow> Work \<Rightarrow> (KAccess option, Abort) result" where
  "work_access cfg (Proto p) = op_access cfg p"
| "work_access cfg (Proc p) = procop_access cfg p"

fun work_name :: "Work \<Rightarrow> string" where
  "work_name (Proto p) = Op_name (op_kind p)"
| "work_name (Proc p) = Stage_name (po_stage p)"

fun work_step :: "Work \<Rightarrow> nat" where
  "work_step (Proto p) = op_step p"
| "work_step (Proc p) = unat (po_step p)"

datatype KState = KIdle | KIssue Work | KWait Work TxnId

record ModeledKernel =
  mk_config :: KernelConfig
  mk_state :: KState
  mk_held :: "TxnId option"
  mk_next_txn :: TxnId
  mk_model :: "Model option"

definition ModeledKernel_new :: "KernelConfig \<Rightarrow> (ModeledKernel, KernelConfigError) result" where
  "ModeledKernel_new cfg =
     result_bind (config_validate cfg) (\<lambda>_.
       Ok \<lparr>mk_config = cfg, mk_state = KIdle, mk_held = None, mk_next_txn = 0, mk_model = None\<rparr>)"

definition with_source :: "KernelConfig \<Rightarrow> Source \<Rightarrow> ModeledKernel" where
  "with_source cfg source =
     (let frames = Frames_new (win_base (kc_frame_pool cfg)) (win_size (kc_frame_pool cfg)) in
      \<lparr>mk_config = cfg, mk_state = KIdle, mk_held = None, mk_next_txn = 0,
       mk_model = Some (Model_new source (Processes_new frames))\<rparr>)"

definition with_processes :: "KernelConfig \<Rightarrow> ProcessPlan \<Rightarrow> (ModeledKernel, PlanError) result" where
  "with_processes cfg plan = result_bind (plan_validate cfg plan) (\<lambda>_. Ok (with_source cfg (Plan plan)))"

definition with_disk :: "KernelConfig \<Rightarrow> DiskBoot \<Rightarrow> (ModeledKernel, PlanError) result" where
  "with_disk cfg disk = result_bind (disk_validate cfg disk) (\<lambda>_. Ok (with_source cfg (Disk disk)))"

fun state_work :: "KState \<Rightarrow> Work option" where
  "state_work KIdle = None"
| "state_work (KIssue w) = Some w"
| "state_work (KWait w _) = Some w"

definition kernel_wake :: "ModeledKernel \<Rightarrow> SimContext \<Rightarrow> (SimContext, Abort) result" where
  "kernel_wake k ctx = ctx_wake_self (WhenCycles (kc_clock (mk_config k)) 1) PhRequest ISSUE ctx"

definition emit :: "Note list \<Rightarrow> SimContext \<Rightarrow> SimContext" where
  "emit ns ctx = fold (\<lambda>n. ctx_trace (note_kind n) (note_fields n)) ns ctx"

definition refuse :: "ModeledKernel \<Rightarrow> MemMsg \<Rightarrow> SimContext \<Rightarrow> (SimContext, Abort) result" where
  "refuse k resp ctx = ctx_send GATE_PORT (MsgMemV1 resp) (latency_when (kc_latency (mk_config k))) PhComplete ctx"

text \<open>A model result as a handler result: a violation faults the session, a panic is one.\<close>

definition of_model :: "('a, ModelError) result \<Rightarrow> ('a, Abort) result" where
  "of_model r =
     (case r of
        Ok x \<Rightarrow> Ok x
      | Err (ModelViolation (Violation why)) \<Rightarrow> component_fault why
      | Err ModelPanic \<Rightarrow> Err Panic)"

definition gate_note :: "TxnId \<Rightarrow> u32 \<Rightarrow> string \<Rightarrow> Note" where
  "gate_note txn v op =
     \<lparr>note_kind = ''os.gate.enter'', note_fields = [(''txn'', VU64 txn), (''value'', VU64 (unat v)), (''op'', VStr op)]\<rparr>"

definition kernel_enter :: "ModeledKernel \<Rightarrow> TxnId \<Rightarrow> u32 \<Rightarrow> SimContext \<Rightarrow> ModeledKernel handled" where
  "kernel_enter k txn v ctx =
     (if mk_held k \<noteq> None then component_fault ''modeled kernel: second ENTER while one is held''
      else
        result_bind
          (case mk_model k of
             Some model \<Rightarrow>
               result_bind (of_model (model_start (mk_config k) model v [gate_note txn v (model_op_name (mk_config k) model v)]))
                 (\<lambda>(p, model', ns). Ok (Proc p, Some model', emit ns ctx))
           | None \<Rightarrow>
               (let p = op_start (mk_config k) v;
                    ns = gate_note txn v (Op_name (op_kind p))
                      # (if op_kind p = OpShutdown
                         then [\<lparr>note_kind = ''os.shutdown'', note_fields =
                                 [(''reason'', VU64 1), (''detail'', VStr ''ENTER value is not the trap frame'')]\<rparr>]
                         else [])
                in Ok (Proto p, None, emit ns ctx)))
          (\<lambda>(work, model, ctx).
             (let k = k\<lparr>mk_model := model, mk_held := Some txn, mk_state := KIssue work\<rparr> in
              result_bind (kernel_wake k ctx) (\<lambda>ctx. Ok (k, ctx)))))"

text \<open>The four bytes at offset 0, written: an \<^verbatim>\<open>ENTER\<close>. Every other request is refused.\<close>

definition gate_request :: "ModeledKernel \<Rightarrow> MemMsg \<Rightarrow> SimContext \<Rightarrow> ModeledKernel handled" where
  "gate_request k msg ctx =
     (case mem_access msg of
        None \<Rightarrow> component_fault ''modeled kernel: response on the gate port''
      | Some AccEmpty \<Rightarrow> component_fault ''modeled kernel: zero-length gate request''
      | Some access \<Rightarrow>
          (let enter = (access = AccBytes ENTER (ENTER + 3)) in
           case msg of
             WriteReq txn _ data \<Rightarrow>
               if enter then
                 (if length data \<noteq> 4 then Err Panic else kernel_enter k txn (u32_from_le_bytes data) ctx)
               else result_bind (refuse k (WriteResp txn (WriteFault AccessFault)) ctx) (\<lambda>ctx. Ok (k, ctx))
           | ReadReq txn _ _ \<Rightarrow>
               result_bind (refuse k (ReadResp txn (ReadFault AccessFault)) ctx) (\<lambda>ctx. Ok (k, ctx))
           | _ \<Rightarrow> component_fault ''modeled kernel: response on the gate port''))"

fun access_request :: "TxnId \<Rightarrow> KAccess \<Rightarrow> MemMsg" where
  "access_request txn (KRead addr len) = ReadReq txn addr len"
| "access_request txn (KWrite addr data) = WriteReq txn addr data"

definition kernel_issue :: "ModeledKernel \<Rightarrow> SimContext \<Rightarrow> ModeledKernel handled" where
  "kernel_issue k ctx =
     (case mk_state k of
        KIssue work \<Rightarrow>
          result_bind (work_access (mk_config k) work) (\<lambda>due.
            case due of
              None \<Rightarrow> component_fault ''modeled kernel: ISSUE wake after the last access''
            | Some access \<Rightarrow>
                if \<not> permits (mk_config k) (kaddr access) (klen access)
                  then component_fault ''modeled kernel: access outside the whitelist''
                else if mk_next_txn k + 1 > u64_max then component_fault ''modeled kernel: TxnId space exhausted''
                else
                  (let txn = mk_next_txn k in
                   result_bind (ctx_send KMEM_PORT (MsgMemV1 (access_request txn access)) WhenNow PhRequest ctx) (\<lambda>ctx.
                     Ok (k\<lparr>mk_next_txn := txn + 1, mk_state := KWait work txn\<rparr>, ctx))))
      | _ \<Rightarrow> component_fault ''modeled kernel: ISSUE wake with nothing to issue'')"

definition kernel_release :: "ModeledKernel \<Rightarrow> SimContext \<Rightarrow> ModeledKernel handled" where
  "kernel_release k ctx =
     (case mk_held k of
        None \<Rightarrow> component_fault ''modeled kernel: an operation without a held ENTER''
      | Some txn \<Rightarrow>
          result_bind (ctx_send GATE_PORT (MsgMemV1 (WriteResp txn WriteDone)) WhenNow PhComplete ctx) (\<lambda>ctx.
            Ok (k\<lparr>mk_held := None, mk_state := KIdle\<rparr>, ctx_trace ''os.gate.release'' [(''txn'', VU64 txn)] ctx)))"

fun response_completion :: "MemMsg \<Rightarrow> (TxnId \<times> Completion option) option" where
  "response_completion (ReadResp txn (ReadData data)) = Some (txn, Some (CompData data))"
| "response_completion (ReadResp txn (ReadFault _)) = Some (txn, None)"
| "response_completion (WriteResp txn WriteDone) = Some (txn, Some CompWritten)"
| "response_completion (WriteResp txn (WriteFault _)) = Some (txn, None)"
| "response_completion _ = None"

fun is_write :: "KAccess option \<Rightarrow> bool" where
  "is_write (Some (KWrite _ _)) = True"
| "is_write _ = False"

fun is_write_resp :: "MemMsg \<Rightarrow> bool" where
  "is_write_resp (WriteResp _ _) = True"
| "is_write_resp _ = False"

text \<open>Completing the due access of an operation: what is left to do, with the model and the notes.\<close>

definition work_complete ::
    "ModeledKernel \<Rightarrow> Work \<Rightarrow> Completion \<Rightarrow> SimContext \<Rightarrow> (Work option \<times> Model option \<times> SimContext, Abort) result" where
  "work_complete k work completion ctx =
     (let cfg = mk_config k; wrong_length = component_fault ''modeled kernel: read data of the wrong length'' in
      case work of
        Proto p \<Rightarrow>
          result_bind (op_complete cfg p completion) (\<lambda>r.
            case r of
              Err _ \<Rightarrow> wrong_length
            | Ok p \<Rightarrow> Ok (if op_is_finished cfg p then None else Some (Proto p), mk_model k, ctx))
      | Proc p \<Rightarrow>
          result_bind (procop_complete cfg p completion) (\<lambda>r.
            case r of
              Err _ \<Rightarrow> wrong_length
            | Ok p \<Rightarrow>
                result_bind (procop_is_finished cfg p) (\<lambda>finished.
                  if finished then
                    (case mk_model k of
                       None \<Rightarrow> Err Panic
                     | Some model \<Rightarrow>
                         result_bind (of_model (model_advance cfg model p [])) (\<lambda>(following, model', ns).
                           Ok (map_option Proc following, Some model', emit ns ctx)))
                  else Ok (Some (Proc p), mk_model k, ctx))))"

definition kernel_mem_response :: "ModeledKernel \<Rightarrow> MemMsg \<Rightarrow> SimContext \<Rightarrow> ModeledKernel handled" where
  "kernel_mem_response k msg ctx =
     (case mk_state k of
        KWait work expected \<Rightarrow>
          (case response_completion msg of
             None \<Rightarrow> component_fault ''modeled kernel: request on the mem port''
           | Some (txn, completion) \<Rightarrow>
               if txn \<noteq> expected then component_fault ''modeled kernel: response for a txn that is not outstanding''
               else if ctx_phase ctx \<noteq> PhComplete then component_fault ''modeled kernel: response arrived outside COMPLETE''
               else
                 result_bind (work_access (mk_config k) work) (\<lambda>due.
                   if is_write due \<noteq> is_write_resp msg then component_fault ''modeled kernel: response kind mismatch''
                   else
                     (case completion of
                        None \<Rightarrow> component_fault ''modeled kernel: its own access faulted''
                      | Some c \<Rightarrow>
                          result_bind (work_complete k work c ctx) (\<lambda>(following, model, ctx).
                            (let k = k\<lparr>mk_model := model\<rparr> in
                             case following of
                               None \<Rightarrow> kernel_release k ctx
                             | Some work \<Rightarrow>
                                 (let k = k\<lparr>mk_state := KIssue work\<rparr> in
                                  result_bind (kernel_wake k ctx) (\<lambda>ctx. Ok (k, ctx))))))))
      | _ \<Rightarrow> component_fault ''modeled kernel: mem.v1 message with no access outstanding'')"

fun kernel_handle_event :: "ModeledKernel \<Rightarrow> Delivered \<Rightarrow> SimContext \<Rightarrow> ModeledKernel handled" where
  "kernel_handle_event k (DMessage port (MsgMemV1 msg)) ctx =
     (if port = GATE_PORT then gate_request k msg ctx
      else if port = KMEM_PORT then kernel_mem_response k msg ctx
      else component_fault ''modeled kernel: unexpected delivery'')"
| "kernel_handle_event k (DWake token) ctx =
     (if token = ISSUE then kernel_issue k ctx else component_fault ''modeled kernel: unexpected delivery'')"
| "kernel_handle_event k (DMessage _ _) ctx = component_fault ''modeled kernel: unexpected delivery''"

definition kernel_init :: "ModeledKernel \<Rightarrow> (ModeledKernel, Abort) result" where
  "kernel_init k = Ok k"


subsection \<open>Inspection\<close>

fun state_text :: "ProcState \<Rightarrow> string" where
  "state_text (Exited status) = ''exited('' @ fmt_int status @ '')''"
| "state_text (Faulted cause epc tval) =
     ''faulted('' @ fmt_hex (unat cause) @ '','' @ fmt_hex (unat epc) @ '','' @ fmt_hex (unat tval) @ '')''"
| "state_text st = ProcState_name st"

fun state_phase :: "KState \<Rightarrow> string" where
  "state_phase KIdle = ''idle''"
| "state_phase (KIssue _) = ''issue''"
| "state_phase (KWait _ _) = ''wait''"

fun life_name :: "Life \<Rightarrow> string" where
  "life_name AwaitBoot = ''await_boot''"
| "life_name Up = ''up''"
| "life_name Down = ''down''"

definition txn_text :: "TxnId option \<Rightarrow> string" where
  "txn_text t = (case t of None \<Rightarrow> ''none'' | Some t \<Rightarrow> fmt_dec t)"

definition pcb_text :: "Pcb \<Rightarrow> string" where
  "pcb_text p = fmt_dec (unat (pcb_pid p)) @ '':'' @ state_text (pcb_state p) @ '':'' @ fmt_hex (unat (pcb_root p))"

definition inspect_model :: "Model \<Rightarrow> TraceFields" where
  "inspect_model m =
     (let procs = md_procs m in
      [(''life'', VStr (life_name (md_life m))),
       (''running'', VStr (case ps_current procs of None \<Rightarrow> ''none'' | Some p \<Rightarrow> fmt_dec (unat p))),
       (''queue'', VStr (join '','' (map (\<lambda>p. fmt_dec (unat p)) (ps_queue procs)))),
       (''processes'', VStr (join '';'' (map pcb_text (ps_pcbs procs)))),
       (''free_frames'', VU64 (free_count (ps_frames procs)))])"

definition kernel_inspect :: "ModeledKernel \<Rightarrow> (TraceFields, Abort) result" where
  "kernel_inspect k =
     (let work = state_work (mk_state k) in
      result_bind (case work of None \<Rightarrow> Ok None | Some w \<Rightarrow> work_access (mk_config k) w) (\<lambda>access.
        Ok ([(''phase'', VStr (state_phase (mk_state k))),
             (''op'', VStr (case work of None \<Rightarrow> ''none'' | Some w \<Rightarrow> work_name w)),
             (''step'', VU64 (case work of None \<Rightarrow> 0 | Some w \<Rightarrow> work_step w)),
             (''held_txn'', VStr (txn_text (mk_held k))),
             (''mem_txn'', VStr (txn_text (case mk_state k of KWait _ t \<Rightarrow> Some t | _ \<Rightarrow> None))),
             (''next_txn'', VU64 (mk_next_txn k)),
             (''pending_kind'', VStr (case access of None \<Rightarrow> ''none'' | Some (KRead _ _) \<Rightarrow> ''read'' | Some (KWrite _ _) \<Rightarrow> ''write'')),
             (''pending_addr'', VU64 (case access of None \<Rightarrow> 0 | Some a \<Rightarrow> kaddr a)),
             (''pending_len'', VU64 (case access of None \<Rightarrow> 0 | Some a \<Rightarrow> klen a))]
            @ (case mk_model k of None \<Rightarrow> [] | Some m \<Rightarrow> inspect_model m))))"

end
