(* ===== verification/Os_KernelInv.thy ===== *)
theory Os_KernelInv
  imports Os_Kernel
begin

section \<open>The kernel component keeps its promises\<close>

text \<open>
  Both kinds of operation offer the engine the same interface, the locale \<open>access_machine\<close>: an
  unfinished operation has an access due, takes exactly the completions that fit it, and never
  panics. The engine's lemmas rest on it, and the theorems are about every sequence of deliveries to a
  kernel built by one of its constructors.
\<close>

locale access_machine =
  fixes unfinished :: "'p \<Rightarrow> bool"
    and access :: "'p \<Rightarrow> (KAccess option, Abort) result"
    and complete :: "'p \<Rightarrow> Completion \<Rightarrow> (('p, CoreError) result, Abort) result"
  assumes access_due: "unfinished p \<Longrightarrow> \<exists>a. access p = Ok (Some a)"
    and complete_fits: "unfinished p \<Longrightarrow> access p = Ok (Some a) \<Longrightarrow> completion_fits a c \<Longrightarrow> \<exists>p'. complete p c = Ok (Ok p')"
    and complete_misfit: "unfinished p \<Longrightarrow> access p = Ok (Some a) \<Longrightarrow> \<not> completion_fits a c \<Longrightarrow> \<exists>e. complete p c = Ok (Err e)"
begin

lemma complete_total: "unfinished p \<Longrightarrow> \<exists>r. complete p c = Ok r"
  using access_due complete_fits complete_misfit by metis

lemma complete_iff:
  assumes "unfinished p" "access p = Ok (Some a)"
  shows "(\<exists>p'. complete p c = Ok (Ok p')) \<longleftrightarrow> completion_fits a c"
  using complete_fits [OF assms] complete_misfit [OF assms] by (metis Inl_Inr_False Inr_inject)

end

subsection \<open>The operations of the prototype\<close>

definition proto_ok :: "KernelConfig \<Rightarrow> Operation \<Rightarrow> bool" where
  "proto_ok cfg p \<longleftrightarrow> op_step p < op_steps cfg p \<and> length (op_data p) = op_data_len cfg p"

definition in_grant :: "KernelConfig \<Rightarrow> KAccess \<Rightarrow> bool" where
  "in_grant cfg a \<longleftrightarrow> in_frame cfg a \<or> kaddr a = kc_uart_tx cfg \<and> klen a = 1"

lemma proto_access:
  assumes "proto_ok cfg p"
  shows "\<exists>a. op_access cfg p = Ok (Some a) \<and> in_grant cfg a"
proof -
  let ?n = "length (frame_chunks cfg)" and ?i = "op_step p"
  show ?thesis
  proof (cases "op_kind p")
    case OpScript
    consider "?i < ?n" | "?n \<le> ?i" "?i < 2 * ?n" | "?i = 2 * ?n"
      using assms OpScript by (fastforce simp: proto_ok_def op_steps_def)
    then show ?thesis
    proof cases
      case 1
      obtain l where "frame_chunks cfg ! ?i = (unat (kc_trap_frame cfg) + frame_sum cfg ?i, l)" "0 < l" "l \<le> 16"
        "frame_sum cfg ?i + l \<le> 152" using frame_chunk [OF 1] .
      then show ?thesis using 1 OpScript
        by (auto simp: op_access_def Let_def in_grant_def unat_of_nat intro!: in_frame_contains)
    next
      case 2
      then have j: "?i - ?n < ?n" by simp
      obtain l where l: "frame_chunks cfg ! (?i - ?n) = (unat (kc_trap_frame cfg) + frame_sum cfg (?i - ?n), l)" "0 < l"
        "frame_sum cfg (?i - ?n) + l \<le> 152" using frame_chunk [OF j] .
      have "length (op_data p) = 152" using assms OpScript 2 by (simp add: proto_ok_def op_data_len_def Let_def FRAME_BYTES_def)
      then obtain fr where fr: "advance_sepc (op_data p) = Ok fr" "length fr = 152"
        by (auto simp: advance_sepc_def slice_get_def FRAME_SEPC_def slice_put_def u32_to_le_bytes_def)
      obtain d where "write_slice (unat (kc_trap_frame cfg)) fr (unat (kc_trap_frame cfg) + frame_sum cfg (?i - ?n)) l
          = Ok (Some (KWrite (unat (kc_trap_frame cfg) + frame_sum cfg (?i - ?n)) d))" "length d = l"
        using write_slice_Ok [of "unat (kc_trap_frame cfg)" "unat (kc_trap_frame cfg) + frame_sum cfg (?i - ?n)" l fr] l fr(2) by auto
      then show ?thesis using 2 OpScript l fr(1)
        by (auto simp: op_access_def Let_def in_grant_def intro!: in_frame_contains)
    next
      case 3
      then show ?thesis using OpScript frame_chunks_nonempty [of cfg]
        by (simp add: op_access_def Let_def in_grant_def)
    qed
  next
    case OpShutdown
    let ?cs = "shutdown_chunks cfg"
    have i: "?i < length ?cs" using assms OpShutdown by (simp add: proto_ok_def op_steps_def)
    obtain a l where al: "?cs ! ?i = (a, l)" by fastforce
    with i have "(a, l) \<in> set ?cs" by (metis nth_mem)
    then have b: "unat (kc_trap_frame cfg) + 0x90 \<le> a" "a + l \<le> unat (kc_trap_frame cfg) + 0x98" "0 < l"
      using split_range_set [of a l] by (force simp: shutdown_chunks_Ok(2) FRAME_ACTION_def)+
    have "a - (unat (kc_trap_frame cfg) + 0x90) + l \<le> length (u32_to_le_bytes 1 @ u32_to_le_bytes SHUTDOWN_REASON)"
      using b by (simp add: u32_to_le_bytes_def)
    from write_slice_Ok [OF b(1) this] obtain d where
      "write_slice (unat (kc_trap_frame cfg) + 0x90) (u32_to_le_bytes 1 @ u32_to_le_bytes SHUTDOWN_REASON) a l = Ok (Some (KWrite a d))"
      "length d = l" by blast
    then show ?thesis using OpShutdown i b al in_frame_contains [of "KWrite a d" cfg "a - unat (kc_trap_frame cfg)"]
      by (auto simp: op_access_def Let_def in_grant_def FRAME_ACTION_def)
  qed
qed

lemma op_complete_fits:
  assumes "op_access cfg p = Ok (Some a)"
  shows "op_complete cfg p c = (if completion_fits a c then Ok (Ok (op_advance cfg p (completion_data c)))
    else Ok (Err (case (a, c) of (KRead _ _, CompData _) \<Rightarrow> CoreDataLength | _ \<Rightarrow> CoreWrongKind)))"
  using assms by (cases a; cases c) (simp_all add: op_complete_def)

lemma proto_advance:
  assumes ok: "proto_ok cfg p" and acc: "op_access cfg p = Ok (Some a)" and fits: "completion_fits a c"
  shows "op_is_finished cfg (op_advance cfg p (completion_data c)) \<or> proto_ok cfg (op_advance cfg p (completion_data c))"
proof -
  let ?n = "length (frame_chunks cfg)" and ?i = "op_step p" and ?l = "length (op_data p) + length (completion_data c)"
  let ?q = "p\<lparr>op_data := op_data p @ completion_data c, op_step := ?i + 1\<rparr>"
  have "?l = op_data_len cfg ?q \<or> op_data_len cfg ?q = 0"
  proof (cases "op_kind p = OpScript \<and> ?i + 1 < 2 * ?n")
    case script: True
    show ?thesis
    proof (cases "?i < ?n")
      case True
      obtain l where l: "frame_chunks cfg ! ?i = (unat (kc_trap_frame cfg) + frame_sum cfg ?i, l)" "l \<le> 16"
        "frame_sum cfg (Suc ?i) = frame_sum cfg ?i + l" using frame_chunk [OF True] .
      then have "a = KRead (unat (kc_trap_frame cfg) + frame_sum cfg ?i) (of_nat l)"
        using acc script True by (simp add: op_access_def Let_def)
      then have "length (completion_data c) = l" using fits l(2) by (cases c) (auto simp: unat_of_nat)
      moreover have "length (op_data p) = frame_sum cfg ?i"
        using ok script True by (simp add: proto_ok_def op_data_len_def Let_def frame_sum_def)
      ultimately have "?l = frame_sum cfg (Suc ?i)" using l(3) by simp
      moreover have "op_data_len cfg ?q = frame_sum cfg (Suc ?i)"
        using script True frame_sum_all [of cfg]
        by (cases "Suc ?i = ?n") (auto simp: op_data_len_def Let_def frame_sum_def [symmetric] FRAME_BYTES_def)
      ultimately show ?thesis by simp
    next
      case False
      then have "\<exists>x d. a = KWrite x d"
        using acc script by (auto simp: op_access_def Let_def write_slice_def split: prod.splits option.splits)
      then have "completion_data c = []" using fits by (cases c) auto
      then show ?thesis using False script ok by (simp add: proto_ok_def op_data_len_def Let_def)
    qed
  next
    case False
    then show ?thesis by (cases "op_kind p") (auto simp: op_data_len_def Let_def)
  qed
  moreover have "op_data_len cfg (?q\<lparr>op_data := d\<rparr>) = op_data_len cfg ?q" for d by (simp add: op_data_len_def)
  moreover have "op_steps cfg (q\<lparr>op_data := d\<rparr>) = op_steps cfg q" for q d by (simp add: op_steps_def)
  ultimately show ?thesis
    by (auto simp: op_advance_def Let_def proto_ok_def op_is_finished_def not_le)
qed

interpretation proto: access_machine "proto_ok cfg" "op_access cfg" "op_complete cfg" for cfg
  using proto_access by unfold_locales (fastforce simp: op_complete_fits)+


subsection \<open>The operations of the process kernel\<close>

definition proc_due :: "KernelConfig \<Rightarrow> ProcOp \<Rightarrow> bool" where
  "proc_due cfg p \<longleftrightarrow> stage_wf cfg (po_stage p) \<and> op_inv cfg p \<and> procop_is_finished cfg p = Ok False"

lemma proc_due_steps:
  assumes "proc_due cfg p"
  obtains n where "stage_wf cfg (po_stage p)" "op_inv cfg p" "stage_steps cfg (po_stage p) = Ok n" "po_step p < n"
  using assms that by (auto simp: proc_due_def procop_is_finished_def not_le)

lemma procop_complete_misfit:
  assumes "procop_access cfg p = Ok (Some a)" "\<not> completion_fits a c"
  shows "\<exists>e. procop_complete cfg p c = Ok (Err e)"
  using assms by (cases a; cases c) (auto simp: procop_complete_def)

interpretation process: access_machine "proc_due cfg" "procop_access cfg" "procop_complete cfg" for cfg
proof unfold_locales
  fix p a c
  show "\<exists>a. procop_access cfg p = Ok (Some a)" if "proc_due cfg p"
    using that by (elim proc_due_steps) (rule stage_access_Some)
  show "\<exists>p'. procop_complete cfg p c = Ok (Ok p')" if "proc_due cfg p" "procop_access cfg p = Ok (Some a)" "completion_fits a c"
    using that by (elim proc_due_steps) (blast dest: procop_complete_Ok)
  show "\<exists>e. procop_complete cfg p c = Ok (Err e)" if "procop_access cfg p = Ok (Some a)" "\<not> completion_fits a c"
    using that by (rule procop_complete_misfit)
qed

lemma fresh_due:
  assumes "stage_wf cfg (po_stage p)" "op_inv cfg p" "po_step p = 0"
  shows "proc_due cfg p"
  using stage_steps_Ok [OF assms(1)] assms by (auto simp: proc_due_def procop_is_finished_def not_le)

subsection \<open>The invariant of the component\<close>

fun work_due :: "KernelConfig \<Rightarrow> Work \<Rightarrow> bool" where
  "work_due cfg (Proto p) = proto_ok cfg p"
| "work_due cfg (Proc p) = proc_due cfg p"

lemma work_access_due:
  assumes "work_due cfg w"
  obtains a where "work_access cfg w = Ok (Some a)"
  using assms proto.access_due process.access_due by (cases w) fastforce+

text \<open>The operation belongs to the kernel's mode, and with processes the model's invariant holds with it.\<close>

definition works_on :: "ModeledKernel \<Rightarrow> Work option \<Rightarrow> bool" where
  "works_on k w \<longleftrightarrow>
     (case mk_model k of
        None \<Rightarrow> pred_option (\<lambda>w. \<exists>p. w = Proto p) w
      | Some m \<Rightarrow> (\<exists>p. w = map_option Proc p \<and> state_ok (mk_config k) m p))"

lemma works_on_update [simp]:
  "works_on (k\<lparr>mk_state := st\<rparr>) w = works_on k w" "works_on (k\<lparr>mk_held := h\<rparr>) w = works_on k w"
  "works_on (k\<lparr>mk_next_txn := n\<rparr>) w = works_on k w"
  by (simp_all add: works_on_def cong: option.case_cong)

definition kernel_inv :: "ModeledKernel \<Rightarrow> bool" where
  "kernel_inv k \<longleftrightarrow>
     (mk_held k = None \<longleftrightarrow> mk_state k = KIdle) \<and> works_on k (state_work (mk_state k))
     \<and> pred_option (work_due (mk_config k)) (state_work (mk_state k)) \<and> mk_next_txn k \<le> u64_max
     \<and> (\<forall>w t. mk_state k = KWait w t \<longrightarrow> mk_next_txn k = t + 1
          \<and> (\<exists>a. work_access (mk_config k) w = Ok (Some a) \<and> permits (mk_config k) (kaddr a) (klen a)))"

text \<open>A kernel as one of its constructors builds it, and what it becomes under any deliveries it accepts.\<close>

definition kernel_built :: "ModeledKernel \<Rightarrow> bool" where
  "kernel_built k \<longleftrightarrow> (\<exists>cfg. ModeledKernel_new cfg = Ok k) \<or> (\<exists>cfg plan. with_processes cfg plan = Ok k) \<or> (\<exists>cfg d. with_disk cfg d = Ok k)"

inductive kernel_runs :: "ModeledKernel \<Rightarrow> ModeledKernel \<Rightarrow> bool" for k0 where
  built: "kernel_built k0 \<Longrightarrow> kernel_runs k0 k0"
| event: "kernel_runs k0 k \<Longrightarrow> kernel_handle_event k ev ctx = Ok (k', ctx') \<Longrightarrow> kernel_runs k0 k'"

text \<open>The copies of a kernel's plan are inside their pages, as for every kernel without a plan.\<close>

definition kernel_in_pages :: "ModeledKernel \<Rightarrow> bool" where
  "kernel_in_pages k = (case mk_model k of None \<Rightarrow> True | Some m \<Rightarrow> source_in_pages (md_source m))"

lemma some_proc: "Some w = map_option Proc p \<longleftrightarrow> (\<exists>q. p = Some q \<and> w = Proc q)"
  by (cases p) auto

lemma with_source_inv:
  assumes "source_ok cfg src"
  shows "kernel_inv (with_source cfg src)"
  using boot_ok [OF assms] by (auto simp: kernel_inv_def with_source_def works_on_def)

subsection \<open>The steps\<close>

lemma model_start_inv:
  assumes "state_ok cfg m None"
  shows "(\<exists>p m' ns'. model_start cfg m v ns = Ok (p, m', ns') \<and> op_ok cfg m' p \<and> proc_due cfg p)
    \<or> (\<exists>e. model_start cfg m v ns = Err (ModelViolation e))"
proof (cases "md_life m = Down")
  case True
  then show ?thesis by (auto simp: model_start_def)
next
  case False
  then have "runs cfg (model_start cfg m v ns)" using assms by (intro start_runs) simp_all
  then show ?thesis by (auto simp: runs_def op_ok_def intro: fresh_due)
qed

lemma emit_simps [simp]:
  "scheduled (emit ns ctx) = scheduled ctx" "ctx_refuse (emit ns ctx) = ctx_refuse ctx" "ctx_phase (emit ns ctx) = ctx_phase ctx"
proof -
  have "scheduled (emit ns ctx) = scheduled ctx \<and> ctx_refuse (emit ns ctx) = ctx_refuse ctx \<and> ctx_phase (emit ns ctx) = ctx_phase ctx"
    by (induction ns arbitrary: ctx) (simp_all add: emit_def ctx_trace_def scheduled_def)
  then show "scheduled (emit ns ctx) = scheduled ctx" "ctx_refuse (emit ns ctx) = ctx_refuse ctx" "ctx_phase (emit ns ctx) = ctx_phase ctx"
    by simp_all
qed

lemma accepts_emit [simp]: "accepts_all (emit ns ctx) = accepts_all ctx"
  by (simp add: accepts_all_def)

text \<open>Completing the due access: what follows is due in the same mode, or nothing does.\<close>

lemma work_complete_spec:
  assumes inv: "works_on k (Some w)" "work_due (mk_config k) w" and acc: "work_access (mk_config k) w = Ok (Some a)"
  shows "if completion_fits a c
    then (\<exists>w' m' ns. work_complete k w c ctx = Ok (w', m', emit ns ctx) \<and> works_on (k\<lparr>mk_model := m'\<rparr>) w'
           \<and> pred_option (work_due (mk_config k)) w')
    else work_complete k w c ctx = component_fault ''modeled kernel: read data of the wrong length''"
proof (cases w)
  case (Proto p)
  then have mode: "mk_model k = None" using inv(1) by (auto simp: works_on_def some_proc split: option.splits)
  show ?thesis
  proof (cases "completion_fits a c")
    case True
    let ?q = "op_advance (mk_config k) p (completion_data c)"
    have "work_complete k w c ctx = Ok (if op_is_finished (mk_config k) ?q then None else Some (Proto ?q), None, emit [] ctx)"
      using Proto acc mode True by (simp add: work_complete_def op_complete_fits emit_def)
    moreover have "op_is_finished (mk_config k) ?q \<or> proto_ok (mk_config k) ?q"
      using Proto inv(2) acc True by (intro proto_advance) simp_all
    ultimately show ?thesis using True by (auto simp: works_on_def)
  next
    case False
    then show ?thesis using Proto acc by (simp add: work_complete_def op_complete_fits)
  qed
next
  case (Proc p)
  then obtain m where m: "mk_model k = Some m" "op_ok (mk_config k) m p"
    using inv(1) by (auto simp: works_on_def some_proc split: option.splits)
  have due: "proc_due (mk_config k) p" and acc': "procop_access (mk_config k) p = Ok (Some a)" using Proc inv(2) acc by simp_all
  show ?thesis
  proof (cases "completion_fits a c")
    case fits: True
    from due obtain n where n: "stage_wf (mk_config k) (po_stage p)" "op_inv (mk_config k) p" "stage_steps (mk_config k) (po_stage p) = Ok n" "po_step p < n"
      by (rule proc_due_steps)
    obtain p' where p': "procop_complete (mk_config k) p c = Ok (Ok p')" "op_inv (mk_config k) p'" "po_stage p' = po_stage p" "po_step p' = po_step p + 1"
      using procop_complete_Ok [OF n acc' fits] by blast
    have ok': "op_ok (mk_config k) m p'" using m(2) p'(2,3) by (simp add: op_ok_def)
    show ?thesis
    proof (cases "po_step p' < n")
      case True
      then have "procop_is_finished (mk_config k) p' = Ok False" using n(3) p'(3) by (simp add: procop_is_finished_def not_le)
      then have "proc_due (mk_config k) p'" "work_complete k w c ctx = Ok (Some (Proc p'), mk_model k, emit [] ctx)"
        using Proc p' n(1) by (simp_all add: work_complete_def proc_due_def emit_def)
      then show ?thesis using fits m ok' by (auto simp: works_on_def some_proc)
    next
      case False
      then have fin: "po_step p' = n" using p'(4) n(4) by (metis inc_le order_less_le)
      then have finished: "procop_is_finished (mk_config k) p' = Ok True" using n(3) p'(3) by (simp add: procop_is_finished_def)
      have "decides (mk_config k) (model_advance (mk_config k) m p' [])"
        using advance_decides [OF ok' _ fin] n(3) p'(3) by simp
      then obtain q m' ns where q: "model_advance (mk_config k) m p' [] = Ok (q, m', ns)" "state_ok (mk_config k) m' q"
        "pred_option (\<lambda>p. po_step p = 0) q" by (auto simp: decides_def)
      then have "pred_option (proc_due (mk_config k)) q" by (cases q) (auto simp: op_ok_def intro: fresh_due)
      moreover have "work_complete k w c ctx = Ok (map_option Proc q, Some m', emit ns ctx)"
        using Proc p'(1) finished m(1) q(1) by (simp add: work_complete_def of_model_def)
      ultimately show ?thesis using fits q(2) by (cases q) (auto simp: works_on_def some_proc)
    qed
  next
    case False
    then show ?thesis using Proc process.complete_misfit [OF due acc' False] by (auto simp: work_complete_def)
  qed
qed


lemma kernel_enter_spec:
  assumes inv: "kernel_inv k"
  shows "(\<exists>k' ctx'. kernel_enter k txn v ctx = Ok (k', ctx') \<and> kernel_inv k' \<and> mk_held k = None \<and> mk_held k' = Some txn
      \<and> scheduled ctx' = scheduled ctx @ [EffWake (WhenCycles (kc_clock (mk_config k)) 1) PhRequest ISSUE])
    \<or> (\<exists>e. kernel_enter k txn v ctx = Err (Fault_session e))"
proof (cases "mk_held k")
  case None
  then have idle: "mk_state k = KIdle" and on: "works_on k None" and txn: "mk_next_txn k \<le> u64_max"
    using inv by (auto simp: kernel_inv_def)
  let ?wake = "\<lambda>k ctx. result_bind (kernel_wake k ctx) (\<lambda>ctx. Ok (k, ctx))"
  have wake: "(\<exists>ctx'. ?wake k' ctx1 = Ok (k', ctx') \<and> scheduled ctx' = scheduled ctx1 @ [EffWake (WhenCycles (kc_clock (mk_config k)) 1) PhRequest ISSUE])
      \<or> (\<exists>e. ?wake k' ctx1 = Err (Fault_session e))" if "mk_config k' = mk_config k" for k' ctx1
    using that scheduled_wake [of "WhenCycles (kc_clock (mk_config k)) 1" PhRequest ISSUE ctx1]
    by (cases "ctx_refuse ctx1 (EffWake (WhenCycles (kc_clock (mk_config k)) 1) PhRequest ISSUE)")
      (auto simp: kernel_wake_def ctx_wake_self_def ctx_effect_def)
  have held: "kernel_inv (k\<lparr>mk_model := m, mk_held := Some txn, mk_state := KIssue w\<rparr>)"
    if "works_on (k\<lparr>mk_model := m\<rparr>) (Some w)" "work_due (mk_config k) w" for m w
    using that txn by (simp add: kernel_inv_def)
  show ?thesis
  proof (cases "mk_model k")
    case proto: None
    let ?k' = "k\<lparr>mk_model := None, mk_held := Some txn, mk_state := KIssue (Proto (op_start (mk_config k) v))\<rparr>"
    have "proto_ok (mk_config k) (op_start (mk_config k) v)"
      using frame_chunks_nonempty [of "mk_config k"] split_range_length(2) [of 8]
      by (auto simp: proto_ok_def op_start_def op_steps_def op_data_len_def shutdown_chunks_Ok(2) Let_def)
    then have "kernel_inv ?k'" by (intro held) (auto simp: works_on_def)
    moreover obtain ns where "kernel_enter k txn v ctx = ?wake ?k' (emit ns ctx)"
      using None proto by (auto simp: kernel_enter_def Let_def)
    ultimately show ?thesis using wake [of ?k' "emit ns ctx"] None by auto
  next
    case (Some m)
    then have ok: "state_ok (mk_config k) m None" using on by (auto simp: works_on_def)
    let ?ns = "[gate_note txn v (model_op_name (mk_config k) m v)]"
    from model_start_inv [OF ok, of v ?ns] show ?thesis
    proof (elim disjE exE conjE)
      fix p m' ns' assume st: "model_start (mk_config k) m v ?ns = Ok (p, m', ns')" "op_ok (mk_config k) m' p" "proc_due (mk_config k) p"
      let ?k' = "k\<lparr>mk_model := Some m', mk_held := Some txn, mk_state := KIssue (Proc p)\<rparr>"
      have "kernel_inv ?k'" using st by (intro held) (auto simp: works_on_def some_proc)
      moreover have "kernel_enter k txn v ctx = ?wake ?k' (emit ns' ctx)"
        using None Some st(1) by (simp add: kernel_enter_def of_model_def Let_def)
      ultimately show ?thesis using wake [of ?k' "emit ns' ctx"] None by auto
    next
      fix e assume "model_start (mk_config k) m v ?ns = Err (ModelViolation e)"
      then show ?thesis using None Some
        by (cases e) (auto simp: kernel_enter_def of_model_def component_fault_def)
    qed
  qed
qed (simp add: kernel_enter_def component_fault_def)

text \<open>An issued access: the due one, permitted, under the next transaction.\<close>

lemma kernel_issue_spec:
  assumes inv: "kernel_inv k" and st: "mk_state k = KIssue w" and acc: "work_access (mk_config k) w = Ok (Some a)"
  shows "kernel_issue k ctx =
    (if \<not> permits (mk_config k) (kaddr a) (klen a) then component_fault ''modeled kernel: access outside the whitelist''
     else if mk_next_txn k = u64_max then component_fault ''modeled kernel: TxnId space exhausted''
     else result_bind (ctx_send KMEM_PORT (MsgMemV1 (access_request (mk_next_txn k) a)) WhenNow PhRequest ctx) (\<lambda>ctx.
       Ok (k\<lparr>mk_next_txn := mk_next_txn k + 1, mk_state := KWait w (mk_next_txn k)\<rparr>, ctx)))"
  using inv st acc by (auto simp: kernel_issue_def kernel_inv_def Let_def)

lemma kernel_issue_inv:
  assumes inv: "kernel_inv k" and ok: "kernel_issue k ctx = Ok (k', ctx')"
  shows "kernel_inv k' \<and> mk_held k' = mk_held k"
proof -
  obtain w where st: "mk_state k = KIssue w" using ok by (auto simp: kernel_issue_def split: KState.splits)
  have due: "work_due (mk_config k) w" using inv st by (simp add: kernel_inv_def)
  obtain a where acc: "work_access (mk_config k) w = Ok (Some a)" using due by (rule work_access_due)
  show ?thesis using ok inv st acc due
    by (auto simp: kernel_issue_spec [OF inv st acc] kernel_inv_def ctx_send_def split: if_splits)
qed


text \<open>
  What a completed access leads to: the held \<^verbatim>\<open>ENTER\<close> is answered and the kernel idle, or the next
  access is due at the next cycle.
\<close>

definition goes_on :: "ModeledKernel \<Rightarrow> ModeledKernel \<Rightarrow> CtxEffect \<Rightarrow> bool" where
  "goes_on k k' eff \<longleftrightarrow>
     (case mk_state k' of
        KIdle \<Rightarrow> mk_held k' = None \<and> (\<exists>t. mk_held k = Some t \<and> eff = EffSend GATE_PORT (MsgMemV1 (WriteResp t WriteDone)) WhenNow PhComplete)
      | KIssue w \<Rightarrow> mk_held k' = mk_held k \<and> eff = EffWake (WhenCycles (kc_clock (mk_config k)) 1) PhRequest ISSUE
      | KWait _ _ \<Rightarrow> False)"

lemma mem_response_effect:
  assumes inv: "kernel_inv k" and st: "mk_state k = KWait w t" and acc: "work_access (mk_config k) w = Ok (Some a)"
    and msg: "response_completion msg = Some (t, Some c)" and fits: "completion_fits a c" and ph: "ctx_phase ctx = PhComplete"
  shows "\<exists>k' eff ns ts. kernel_mem_response k msg ctx =
      result_bind (ctx_effect eff (emit ns ctx)) (\<lambda>ctx. Ok (k', emit ts ctx)) \<and> kernel_inv k' \<and> goes_on k k' eff"
proof -
  have due: "works_on k (Some w)" "work_due (mk_config k) w" and n: "mk_next_txn k \<le> u64_max" and held: "mk_held k \<noteq> None"
    using inv st by (auto simp: kernel_inv_def)
  have kind: "is_write (Some a) = is_write_resp msg"
    using msg fits by (cases msg; cases a; cases c) (auto elim: response_completion.elims)
  from work_complete_spec [OF due acc, of c ctx] fits obtain w' m' ns where
    w': "work_complete k w c ctx = Ok (w', m', emit ns ctx)" "works_on (k\<lparr>mk_model := m'\<rparr>) w'" "pred_option (work_due (mk_config k)) w'"
    by auto
  show ?thesis
  proof (cases w')
    case None
    from held obtain h where h: "mk_held k = Some h" by auto
    let ?k' = "k\<lparr>mk_model := m', mk_held := None, mk_state := KIdle\<rparr>"
    have "kernel_mem_response k msg ctx = result_bind (ctx_effect (EffSend GATE_PORT (MsgMemV1 (WriteResp h WriteDone)) WhenNow PhComplete) (emit ns ctx))
        (\<lambda>ctx. Ok (?k', emit [\<lparr>note_kind = ''os.gate.release'', note_fields = [(''txn'', VU64 h)]\<rparr>] ctx))"
      using st msg ph acc kind w'(1) None h by (simp add: kernel_mem_response_def kernel_release_def ctx_send_def emit_def Let_def)
    moreover have "kernel_inv ?k'" using w' None n by (simp add: kernel_inv_def)
    ultimately show ?thesis using h by (intro exI [of _ ?k'] exI conjI) (auto simp: goes_on_def)
  next
    case (Some v)
    let ?k' = "k\<lparr>mk_model := m', mk_state := KIssue v\<rparr>"
    have "kernel_mem_response k msg ctx = result_bind (ctx_effect (EffWake (WhenCycles (kc_clock (mk_config k)) 1) PhRequest ISSUE) (emit ns ctx))
        (\<lambda>ctx. Ok (?k', emit [] ctx))"
      using st msg ph acc kind w'(1) Some by (simp add: kernel_mem_response_def kernel_wake_def ctx_wake_self_def emit_def Let_def)
    moreover have "kernel_inv ?k'" using w' Some n held by (simp add: kernel_inv_def)
    ultimately show ?thesis by (intro exI [of _ ?k'] exI conjI) (auto simp: goes_on_def)
  qed
qed

lemma mem_response_spec:
  assumes inv: "kernel_inv k"
  shows "(\<exists>k' ctx' eff. kernel_mem_response k msg ctx = Ok (k', ctx') \<and> kernel_inv k' \<and> goes_on k k' eff \<and> scheduled ctx' = scheduled ctx @ [eff])
    \<or> (\<exists>e. kernel_mem_response k msg ctx = Err (Fault_session e))"
proof (cases "\<exists>w t c. mk_state k = KWait w t \<and> response_completion msg = Some (t, Some c) \<and> ctx_phase ctx = PhComplete")
  case True
  then obtain w t c where st: "mk_state k = KWait w t" and msg: "response_completion msg = Some (t, Some c)" and ph: "ctx_phase ctx = PhComplete"
    by blast
  have due: "works_on k (Some w)" "work_due (mk_config k) w" using inv st by (auto simp: kernel_inv_def)
  obtain a where acc: "work_access (mk_config k) w = Ok (Some a)" using due(2) by (rule work_access_due)
  show ?thesis
  proof (cases "completion_fits a c")
    case True
    from mem_response_effect [OF inv st acc msg True ph] obtain k' eff ns ts where
      r: "kernel_mem_response k msg ctx = result_bind (ctx_effect eff (emit ns ctx)) (\<lambda>ctx. Ok (k', emit ts ctx))"
        "kernel_inv k'" "goes_on k k' eff" by blast
    have "is_scheduled eff" using r(3) by (auto simp: goes_on_def split: KState.splits)
    then have "scheduled (emit ts (emit ns ctx\<lparr>ctx_out := ctx_out (emit ns ctx) @ [eff]\<rparr>)) = scheduled ctx @ [eff]"
      by (cases eff) simp_all
    then show ?thesis using r by (cases "ctx_refuse ctx eff") (auto simp: ctx_effect_def)
  next
    case False
    then show ?thesis using work_complete_spec [OF due acc, of c ctx] st msg ph acc
      by (auto simp: kernel_mem_response_def component_fault_def)
  qed
next
  case False
  have "\<exists>a. work_access (mk_config k) w = Ok (Some a)" if "mk_state k = KWait w t" for w t
    using inv that by (auto simp: kernel_inv_def)
  then have "\<exists>e. kernel_mem_response k msg ctx = Err (Fault_session e)"
    using False by (cases "mk_state k"; cases "response_completion msg")
      (force simp: kernel_mem_response_def component_fault_def split: option.splits)+
  then show ?thesis by blast
qed


text \<open>The accepted \<^verbatim>\<open>ENTER\<close> writes among the deliveries, and the answers among the effects.\<close>

fun entered :: "Delivered \<Rightarrow> TxnId list" where
  "entered (DMessage port (MsgMemV1 (WriteReq txn addr data))) = (if port = GATE_PORT \<and> addr = ENTER \<and> length data = 4 then [txn] else [])"
| "entered _ = []"

fun answered :: "CtxEffect \<Rightarrow> TxnId list" where
  "answered (EffSend port (MsgMemV1 (WriteResp txn WriteDone)) _ _) = (if port = GATE_PORT then [txn] else [])"
| "answered _ = []"

lemma enter_bytes: "byte_access addr n = AccBytes ENTER (ENTER + 3) \<longleftrightarrow> addr = ENTER \<and> n = 4"
  by (auto simp: byte_access_def ENTER_def u64_max_def)

lemma gate_request_spec:
  assumes inv: "kernel_inv k"
  shows "(\<exists>k' ctx'. gate_request k msg ctx = Ok (k', ctx') \<and> kernel_inv k'
        \<and> (k' = k \<and> entered (DMessage GATE_PORT (MsgMemV1 msg)) = [] \<and> (\<exists>r. scheduled ctx' = scheduled ctx @ [EffSend GATE_PORT (MsgMemV1 r) (latency_when (kc_latency (mk_config k))) PhComplete]
               \<and> r \<in> {ReadResp t (ReadFault AccessFault) |t. True} \<union> {WriteResp t (WriteFault AccessFault) |t. True})
           \<or> (\<exists>txn. entered (DMessage GATE_PORT (MsgMemV1 msg)) = [txn] \<and> mk_held k = None \<and> mk_held k' = Some txn
               \<and> scheduled ctx' = scheduled ctx @ [EffWake (WhenCycles (kc_clock (mk_config k)) 1) PhRequest ISSUE])))
    \<or> (\<exists>e. gate_request k msg ctx = Err (Fault_session e))"
proof -
  have fault: "(\<exists>ctx'. result_bind (refuse k r ctx) (\<lambda>ctx. Ok (k, ctx)) = Ok (k, ctx')
      \<and> scheduled ctx' = scheduled ctx @ [EffSend GATE_PORT (MsgMemV1 r) (latency_when (kc_latency (mk_config k))) PhComplete])
    \<or> (\<exists>e. result_bind (refuse k r ctx) (\<lambda>ctx. Ok (k, ctx)) = Err (Fault_session e))" for r
    by (cases "ctx_refuse ctx (EffSend GATE_PORT (MsgMemV1 r) (latency_when (kc_latency (mk_config k))) PhComplete)")
      (auto simp: refuse_def ctx_send_def ctx_effect_def scheduled_def)
  show ?thesis
  proof (cases msg)
    case (WriteReq txn addr data)
    show ?thesis
    proof (cases "byte_access addr (length data) = AccBytes ENTER (ENTER + 3)")
      case True
      then have "addr = ENTER" "length data = 4" by (simp_all add: enter_bytes)
      moreover from this have "gate_request k msg ctx = kernel_enter k txn (u32_from_le_bytes data) ctx"
        using True WriteReq by (simp add: gate_request_def)
      ultimately show ?thesis
        using kernel_enter_spec [OF inv, of txn "u32_from_le_bytes data" ctx] WriteReq by auto
    next
      case False
      then show ?thesis using WriteReq inv enter_bytes [of addr "length data"] fault [of "WriteResp txn (WriteFault AccessFault)"]
        by (cases "byte_access addr (length data)") (auto simp: gate_request_def component_fault_def Let_def)
    qed
  next
    case (ReadReq txn addr len)
    then show ?thesis using inv fault [of "ReadResp txn (ReadFault AccessFault)"]
      by (cases "byte_access addr (unat len)") (auto simp: gate_request_def component_fault_def Let_def)
  qed (simp_all add: gate_request_def component_fault_def)
qed

lemma kernel_issue_no_panic:
  assumes inv: "kernel_inv k"
  shows "kernel_issue k ctx \<noteq> Err Panic"
proof (cases "mk_state k")
  case (KIssue w)
  have due: "work_due (mk_config k) w" using inv KIssue by (simp add: kernel_inv_def)
  obtain a where acc: "work_access (mk_config k) w = Ok (Some a)" using due by (rule work_access_due)
  show ?thesis
    by (cases "ctx_refuse ctx (EffSend KMEM_PORT (MsgMemV1 (access_request (mk_next_txn k) a)) WhenNow PhRequest)")
      (auto simp: kernel_issue_spec [OF inv KIssue acc] ctx_send_def ctx_effect_def component_fault_def)
qed (simp_all add: kernel_issue_def)

lemma kernel_handle_inv:
  assumes inv: "kernel_inv k"
  shows "kernel_handle_event k ev ctx \<noteq> Err Panic \<and> (\<forall>k' ctx'. kernel_handle_event k ev ctx = Ok (k', ctx') \<longrightarrow> kernel_inv k')"
proof (cases "(k, ev, ctx)" rule: kernel_handle_event.cases)
  case (1 k port msg ctx)
  then show ?thesis using gate_request_spec [OF inv, of msg ctx] mem_response_spec [OF inv, of msg ctx] by auto
next
  case (2 k token ctx)
  then show ?thesis using kernel_issue_no_panic [OF inv] kernel_issue_inv [OF inv] by auto
qed auto

lemma kernel_built_inv:
  assumes "kernel_built k" "kernel_in_pages k"
  shows "kernel_inv k"
  using assms(1) unfolding kernel_built_def
proof (elim disjE exE)
  fix cfg assume "ModeledKernel_new cfg = Ok k"
  then show ?thesis by (auto simp: ModeledKernel_new_def kernel_inv_def works_on_def)
next
  fix cfg plan assume "with_processes cfg plan = Ok k"
  then have k: "plan_validate cfg plan = Ok ()" "k = with_source cfg (Plan plan)" by (auto simp: with_processes_def)
  then have "plan_in_pages plan" using assms(2) by (simp add: kernel_in_pages_def source_in_pages_def with_source_def Model_new_def)
  then show ?thesis using k with_source_inv by simp
next
  fix cfg d assume "with_disk cfg d = Ok k"
  then have "disk_validate cfg d = Ok ()" "k = with_source cfg (Disk d)" by (auto simp: with_disk_def)
  then show ?thesis by (simp add: with_source_inv)
qed

lemma kernel_runs_inv:
  assumes "kernel_runs k0 k" "kernel_in_pages k0"
  shows "kernel_inv k"
  using assms(1) by induction (use kernel_built_inv assms(2) kernel_handle_inv in blast)+

subsection \<open>What holds of every plan\<close>

text \<open>
  The engine's own rules need nothing of the operations it runs: whatever a decision or a completion
  returns, the handlers keep the held \<^verbatim>\<open>ENTER\<close> with the operation and check every access they send.
\<close>

definition engine_inv :: "ModeledKernel \<Rightarrow> bool" where
  "engine_inv k \<longleftrightarrow> (mk_held k = None \<longleftrightarrow> mk_state k = KIdle)
     \<and> (\<forall>w t. mk_state k = KWait w t \<longrightarrow> mk_next_txn k = t + 1
          \<and> (\<exists>a. work_access (mk_config k) w = Ok (Some a) \<and> permits (mk_config k) (kaddr a) (klen a)))"

lemma kernel_wake_Ok:
  assumes "kernel_wake k ctx = Ok ctx'"
  shows "scheduled ctx' = scheduled ctx @ [EffWake (WhenCycles (kc_clock (mk_config k)) 1) PhRequest ISSUE]"
  using assms by (auto simp: kernel_wake_def ctx_wake_self_def scheduled_def)

lemma kernel_enter_Ok:
  assumes "kernel_enter k txn v ctx = Ok (k', ctx')"
  shows "mk_held k = None \<and> mk_held k' = Some txn \<and> (\<exists>w. mk_state k' = KIssue w) \<and> mk_config k' = mk_config k
    \<and> (mk_model k' = None) = (mk_model k = None)
    \<and> scheduled ctx' = scheduled ctx @ [EffWake (WhenCycles (kc_clock (mk_config k)) 1) PhRequest ISSUE]"
  using assms by (auto simp: kernel_enter_def Let_def dest!: kernel_wake_Ok split: option.splits if_splits)

lemma work_complete_emits:
  assumes "work_complete k w c ctx = Ok (w', m', ctx')"
  shows "scheduled ctx' = scheduled ctx \<and> (m' = None) = (mk_model k = None)"
proof (cases w)
  case (Proto p)
  with assms obtain r where "op_complete (mk_config k) p c = Ok r" by (auto simp: work_complete_def Let_def)
  then show ?thesis using assms Proto by (cases r) (auto simp: work_complete_def Let_def component_fault_def)
next
  case (Proc p)
  with assms obtain r where r: "procop_complete (mk_config k) p c = Ok r" by (auto simp: work_complete_def Let_def)
  then show ?thesis using assms Proc
    by (cases r; cases "mk_model k") (auto simp: work_complete_def Let_def component_fault_def split: if_splits)
qed

lemma mem_response_Ok:
  assumes "kernel_mem_response k msg ctx = Ok (k', ctx')"
  shows "\<exists>eff. goes_on k k' eff \<and> scheduled ctx' = scheduled ctx @ [eff] \<and> mk_config k' = mk_config k
    \<and> (mk_model k' = None) = (mk_model k = None)"
proof -
  from assms obtain w t c where st: "mk_state k = KWait w t" and c: "response_completion msg = Some (t, Some c)"
    by (auto simp: kernel_mem_response_def split: KState.splits option.splits if_splits)
  with assms obtain w' m' ctx1 where comp: "work_complete k w c ctx = Ok (w', m', ctx1)"
    and rest: "(let k = k\<lparr>mk_model := m'\<rparr> in case w' of None \<Rightarrow> kernel_release k ctx1
      | Some v \<Rightarrow> (let k = k\<lparr>mk_state := KIssue v\<rparr> in result_bind (kernel_wake k ctx1) (\<lambda>ctx. Ok (k, ctx))))
      = Ok (k', ctx')"
    by (auto simp: kernel_mem_response_def split: if_splits)
  note em = work_complete_emits [OF comp]
  show ?thesis
  proof (cases w')
    case None
    then show ?thesis using rest em
      by (auto simp: kernel_release_def ctx_send_def ctx_trace_def scheduled_def goes_on_def Let_def split: option.splits)
  next
    case (Some v)
    then show ?thesis using rest em by (auto simp: goes_on_def Let_def dest!: kernel_wake_Ok)
  qed
qed

lemma kernel_issue_Ok:
  assumes "kernel_issue k ctx = Ok (k', ctx')"
  shows "\<exists>w a. mk_state k = KIssue w \<and> work_access (mk_config k) w = Ok (Some a) \<and> permits (mk_config k) (kaddr a) (klen a)
    \<and> k' = k\<lparr>mk_next_txn := mk_next_txn k + 1, mk_state := KWait w (mk_next_txn k)\<rparr>
    \<and> ctx_out ctx' = ctx_out ctx @ [EffSend KMEM_PORT (MsgMemV1 (access_request (mk_next_txn k) a)) WhenNow PhRequest]"
  using assms by (auto simp: kernel_issue_def Let_def ctx_send_def split: KState.splits option.splits if_splits)

lemma gate_request_Ok:
  assumes "gate_request k msg ctx = Ok (k', ctx')"
  shows "(k' = k \<and> entered (DMessage GATE_PORT (MsgMemV1 msg)) = [] \<and> concat (map answered (scheduled ctx')) = concat (map answered (scheduled ctx)))
    \<or> (\<exists>txn v. entered (DMessage GATE_PORT (MsgMemV1 msg)) = [txn] \<and> kernel_enter k txn v ctx = Ok (k', ctx'))"
proof (cases msg)
  case (WriteReq txn addr data)
  show ?thesis
  proof (cases "byte_access addr (length data) = AccBytes ENTER (ENTER + 3)")
    case True
    then have "addr = ENTER" "length data = 4" by (simp_all add: enter_bytes)
    then show ?thesis using assms True WriteReq by (auto simp: gate_request_def)
  next
    case False
    then show ?thesis using assms WriteReq enter_bytes [of addr "length data"]
      by (cases "byte_access addr (length data)") (auto simp: gate_request_def refuse_def ctx_send_def scheduled_def Let_def)
  qed
next
  case (ReadReq txn addr len)
  then show ?thesis using assms
    by (cases "byte_access addr (unat len)") (auto simp: gate_request_def refuse_def ctx_send_def scheduled_def Let_def)
qed (use assms in \<open>simp_all add: gate_request_def\<close>)

lemma answered_scheduled: "concat (map answered (ctx_out ctx)) = concat (map answered (scheduled ctx))"
proof -
  have "concat (map answered es) = concat (map answered (filter is_scheduled es))" for es
  proof (induction es)
    case (Cons e es)
    then show ?case by (cases e) simp_all
  qed simp
  then show ?thesis by (simp add: scheduled_def)
qed

definition held_list :: "ModeledKernel \<Rightarrow> TxnId list" where
  "held_list k = (case mk_held k of None \<Rightarrow> [] | Some t \<Rightarrow> [t])"

text \<open>One delivery: the rules are kept, and what is held and entered is what is answered and held.\<close>

lemma engine_step:
  assumes inv: "engine_inv k" and ok: "kernel_handle_event k ev ctx = Ok (k', ctx')"
  shows "engine_inv k' \<and> (mk_model k' = None) = (mk_model k = None)
    \<and> (ctx_out ctx = [] \<longrightarrow> held_list k @ entered ev = concat (map answered (ctx_out ctx')) @ held_list k')"
proof (cases "(k, ev, ctx)" rule: kernel_handle_event.cases)
  case (1 k1 port msg ctx1)
  have none: "ctx_out ctx = [] \<Longrightarrow> scheduled ctx = []" by (simp add: scheduled_def)
  consider (gate) "port = GATE_PORT" "gate_request k msg ctx = Ok (k', ctx')"
    | (mem) "port = KMEM_PORT" "kernel_mem_response k msg ctx = Ok (k', ctx')" using 1 ok by (auto split: if_splits)
  then show ?thesis
  proof cases
    case gate
    from gate_request_Ok [OF gate(2)] show ?thesis
    proof (elim disjE exE conjE)
      fix txn v assume "entered (DMessage GATE_PORT (MsgMemV1 msg)) = [txn]" and e: "kernel_enter k txn v ctx = Ok (k', ctx')"
      then show ?thesis using kernel_enter_Ok [OF e] 1 gate(1) none
        by (auto simp: engine_inv_def answered_scheduled held_list_def)
    qed (use 1 gate(1) inv none in \<open>auto simp: answered_scheduled\<close>)
  next
    case mem
    then obtain eff where g: "goes_on k k' eff" "scheduled ctx' = scheduled ctx @ [eff]" "(mk_model k' = None) = (mk_model k = None)"
      using mem_response_Ok by blast
    have "entered ev = []" using 1 mem(1) by (cases msg) (simp_all add: KMEM_PORT_def GATE_PORT_def)
    moreover have "mk_held k \<noteq> None"
      using mem(2) inv by (auto simp: kernel_mem_response_def engine_inv_def split: KState.splits)
    ultimately show ?thesis using g none
      by (cases "mk_state k'") (auto simp: goes_on_def engine_inv_def answered_scheduled held_list_def)
  qed
next
  case (2 k1 token ctx1)
  then have "kernel_issue k ctx = Ok (k', ctx')" using ok by (auto split: if_splits)
  from kernel_issue_Ok [OF this] obtain w a where
    "mk_state k = KIssue w" "work_access (mk_config k) w = Ok (Some a)" "permits (mk_config k) (kaddr a) (klen a)"
    "k' = k\<lparr>mk_next_txn := mk_next_txn k + 1, mk_state := KWait w (mk_next_txn k)\<rparr>"
    "ctx_out ctx' = ctx_out ctx @ [EffSend KMEM_PORT (MsgMemV1 (access_request (mk_next_txn k) a)) WhenNow PhRequest]" by blast
  then show ?thesis using 2 inv by (cases a) (auto simp: engine_inv_def held_list_def KMEM_PORT_def GATE_PORT_def)
qed (use ok in auto)

lemma kernel_built_idle: "kernel_built k \<Longrightarrow> engine_inv k \<and> mk_held k = None"
  by (auto simp: kernel_built_def ModeledKernel_new_def with_processes_def with_disk_def with_source_def engine_inv_def)

lemma kernel_runs_engine: "kernel_runs k0 k \<Longrightarrow> engine_inv k \<and> (mk_model k = None) = (mk_model k0 = None)"
proof (induction rule: kernel_runs.induct)
  case built
  then show ?case using kernel_built_idle by simp
next
  case (event k ev ctx k' ctx')
  then show ?case using engine_step [of k ev ctx k' ctx'] by simp
qed

text \<open>
  C6. The kernel component is safe against every delivery. In every state reached from its construction, in
  any of its three modes and by any sequence of deliveries, an operation is in progress exactly while
  an \<^verbatim>\<open>ENTER\<close> is held, and an outstanding access is the due one, passed the whitelist, and carries the
  latest transaction number. No delivery makes a handler panic, whatever the message, the phase or the
  bytes, provided the copies of a kernel's plan stay inside their pages, the documented rule that the
  plan check does not enforce (a kernel without a plan meets it).
\<close>

theorem kernel_component_safe:
  assumes "kernel_runs k0 k"
  shows "(mk_held k = None \<longleftrightarrow> mk_state k = KIdle)
    \<and> (\<forall>w t. mk_state k = KWait w t \<longrightarrow> mk_next_txn k = t + 1
         \<and> (\<exists>a. work_access (mk_config k) w = Ok (Some a) \<and> permits (mk_config k) (kaddr a) (klen a)))
    \<and> (kernel_in_pages k0 \<longrightarrow> (\<forall>ev ctx. kernel_handle_event k ev ctx \<noteq> Err Panic))"
proof -
  have "\<forall>ev ctx. kernel_handle_event k ev ctx \<noteq> Err Panic" if "kernel_in_pages k0"
    using kernel_handle_inv [OF kernel_runs_inv [OF assms that]] by blast
  then show ?thesis using kernel_runs_engine [OF assms] unfolding engine_inv_def by blast
qed

text \<open>The response that carries a completion.\<close>

fun completion_msg :: "TxnId \<Rightarrow> Completion \<Rightarrow> MemMsg" where
  "completion_msg t (CompData d) = ReadResp t (ReadData d)"
| "completion_msg t CompWritten = WriteResp t WriteDone"

lemma response_completion_msg [simp]: "response_completion (completion_msg t c) = Some (t, Some c)"
  by (cases c) simp_all

text \<open>
  C7. An entered kernel runs to its answer. In every state reached by any deliveries from a kernel whose plan,
  if it has one, keeps its copies inside their pages, there is an access due; a due access the
  whitelist permits is sent under the next transaction number, and the response that fits an
  outstanding access is always taken: either the held \<^verbatim>\<open>ENTER\<close> is answered, and the kernel is
  idle, or exactly one wake makes the next access due. Nothing else is scheduled.
\<close>

theorem kernel_engine_progress:
  assumes "kernel_runs k0 k" and "kernel_in_pages k0" and "accepts_all ctx"
  shows "case mk_state k of
      KIdle \<Rightarrow> True
    | KIssue w \<Rightarrow> (\<exists>a. work_access (mk_config k) w = Ok (Some a)
        \<and> (permits (mk_config k) (kaddr a) (klen a) \<and> mk_next_txn k < u64_max \<longrightarrow>
             kernel_handle_event k (DWake ISSUE) ctx =
               Ok (k\<lparr>mk_next_txn := mk_next_txn k + 1, mk_state := KWait w (mk_next_txn k)\<rparr>,
                   ctx\<lparr>ctx_out := ctx_out ctx @ [EffSend KMEM_PORT (MsgMemV1 (access_request (mk_next_txn k) a)) WhenNow PhRequest]\<rparr>)))
    | KWait w t \<Rightarrow> (\<exists>a. work_access (mk_config k) w = Ok (Some a)
        \<and> (\<forall>c. completion_fits a c \<and> ctx_phase ctx = PhComplete \<longrightarrow>
             (\<exists>k' ctx' eff. kernel_handle_event k (DMessage KMEM_PORT (MsgMemV1 (completion_msg t c))) ctx = Ok (k', ctx')
                \<and> goes_on k k' eff \<and> scheduled ctx' = scheduled ctx @ [eff])))"
proof (cases "mk_state k")
  case (KIssue w)
  have inv: "kernel_inv k" by (rule kernel_runs_inv [OF assms(1,2)])
  then have due: "work_due (mk_config k) w" using KIssue by (simp add: kernel_inv_def)
  obtain a where acc: "work_access (mk_config k) w = Ok (Some a)" using due by (rule work_access_due)
  then show ?thesis using KIssue kernel_issue_spec [OF inv KIssue acc, of ctx] assms(3)
    by (auto simp: ctx_send_def ctx_effect_accepted)
next
  case (KWait w t)
  have inv: "kernel_inv k" by (rule kernel_runs_inv [OF assms(1,2)])
  then obtain a where acc: "work_access (mk_config k) w = Ok (Some a)" using KWait by (auto simp: kernel_inv_def)
  have "\<exists>k' ctx' eff. kernel_mem_response k (completion_msg t c) ctx = Ok (k', ctx') \<and> goes_on k k' eff
      \<and> scheduled ctx' = scheduled ctx @ [eff]" if "completion_fits a c" "ctx_phase ctx = PhComplete" for c
  proof -
    from mem_response_effect [OF inv KWait acc response_completion_msg that] obtain k' eff ns ts where
      "kernel_mem_response k (completion_msg t c) ctx = result_bind (ctx_effect eff (emit ns ctx)) (\<lambda>ctx. Ok (k', emit ts ctx))" by blast
    then have "\<forall>e. kernel_mem_response k (completion_msg t c) ctx \<noteq> Err (Fault_session e)"
      using assms(3) by (simp add: ctx_effect_accepted)
    then show ?thesis using mem_response_spec [OF inv, of "completion_msg t c" ctx] by blast
  qed
  then show ?thesis using KWait acc by (simp add: GATE_PORT_def KMEM_PORT_def)
qed simp


subsection \<open>Every entry is answered once\<close>

inductive kernel_hist :: "ModeledKernel \<Rightarrow> TxnId list \<Rightarrow> TxnId list \<Rightarrow> bool" where
  built: "kernel_built k \<Longrightarrow> kernel_hist k [] []"
| event: "kernel_hist k es as \<Longrightarrow> ctx_out ctx = [] \<Longrightarrow> kernel_handle_event k ev ctx = Ok (k', ctx') \<Longrightarrow>
    kernel_hist k' (es @ entered ev) (as @ concat (map answered (ctx_out ctx')))"

text \<open>
  C8. Every \<^verbatim>\<open>ENTER\<close> is answered exactly once. In every history of the kernel the accepted \<^verbatim>\<open>ENTER\<close> writes are, in
  order, the answers it sent on the gate followed by the one it holds, if any: none is lost,
  repeated or answered out of order, and no other write is answered as done.
\<close>

theorem gate_answers_once:
  assumes "kernel_hist k es as"
  shows "es = as @ (case mk_held k of None \<Rightarrow> [] | Some t \<Rightarrow> [t])"
proof -
  have "engine_inv k \<and> es = as @ held_list k" using assms
  proof induction
    case (built k)
    then show ?case using kernel_built_idle by (simp add: held_list_def)
  next
    case (event k es as ctx ev k' ctx')
    then show ?case using engine_step [of k ev ctx k' ctx'] by simp
  qed
  then show ?thesis by (simp add: held_list_def)
qed


subsection \<open>A concrete kernel\<close>

definition tiny_kernel :: ModeledKernel where
  "tiny_kernel = \<lparr>mk_config = tiny_config, mk_state = KIdle, mk_held = None, mk_next_txn = 0, mk_model = None\<rparr>"

definition entered_kernel :: ModeledKernel where
  "entered_kernel = tiny_kernel\<lparr>mk_held := Some 7, mk_state := KIssue (Proto \<lparr>op_kind = OpScript, op_step = 0, op_data = []\<rparr>)\<rparr>"

abbreviation (input) tiny_enter :: Delivered where
  "tiny_enter \<equiv> DMessage GATE_PORT (MsgMemV1 (WriteReq 7 0 [0, 0x10, 0, 0x80]))"

lemma tiny_kernel_built: "kernel_built tiny_kernel"
  by (auto simp: kernel_built_def ModeledKernel_new_def tiny_config_valid tiny_kernel_def)

lemma tiny_kernel_enters: "\<exists>ctx'. kernel_handle_event tiny_kernel tiny_enter quiet_ctx = Ok (entered_kernel, ctx') \<and> concat (map answered (ctx_out ctx')) = []"
  by (auto simp: gate_request_def byte_access_def ENTER_def u64_max_def kernel_enter_def tiny_kernel_def entered_kernel_def tiny_config_def
      op_start_def u32_from_le_bytes_def kernel_wake_def ctx_wake_self_def ctx_effect_def quiet_ctx_def emit_def ctx_trace_def Let_def)

lemma entered_kernel_runs: "kernel_runs tiny_kernel entered_kernel" "kernel_hist entered_kernel [7] []"
proof -
  obtain ctx' where e: "kernel_handle_event tiny_kernel tiny_enter quiet_ctx = Ok (entered_kernel, ctx')"
    "concat (map answered (ctx_out ctx')) = []" using tiny_kernel_enters by blast
  show "kernel_runs tiny_kernel entered_kernel" using tiny_kernel_built e(1) by (intro kernel_runs.event [OF kernel_runs.built])
  show "kernel_hist entered_kernel [7] []"
    using kernel_hist.event [OF kernel_hist.built [OF tiny_kernel_built] quiet_ctx_accepts(2) e(1)] e(2) by (simp add: ENTER_def)
qed

lemma tiny_kernel_in_pages: "kernel_in_pages tiny_kernel"
  by (simp add: kernel_in_pages_def tiny_kernel_def)

lemma entered_kernel_access: "op_access tiny_config \<lparr>op_kind = OpScript, op_step = 0, op_data = []\<rparr> = Ok (Some (KRead 0x80001000 16))"
proof -
  have "frame_chunks tiny_config ! 0 = (0x80001000, 16)"
    by (simp add: frame_chunks_Ok(2) split_range_def tiny_config_def FRAME_BYTES_def split_loop.simps PAGE_def MAX_ACCESS_def)
  then show ?thesis using frame_chunks_nonempty [of tiny_config] by (simp add: op_access_def Let_def)
qed

theorem kernel_component_safe_witness:
  "kernel_runs tiny_kernel entered_kernel \<and> mk_held entered_kernel = Some 7 \<and> mk_state entered_kernel \<noteq> KIdle
    \<and> kernel_handle_event entered_kernel tiny_enter quiet_ctx \<noteq> Err Panic"
  using kernel_component_safe [OF entered_kernel_runs(1)] entered_kernel_runs(1) tiny_kernel_in_pages
  by (auto simp: entered_kernel_def simp del: kernel_handle_event.simps)

theorem kernel_engine_progress_witness:
  "kernel_runs tiny_kernel entered_kernel \<and> (\<exists>k' ctx'. kernel_handle_event entered_kernel (DWake ISSUE) quiet_ctx = Ok (k', ctx')
    \<and> ctx_out ctx' = [EffSend KMEM_PORT (MsgMemV1 (ReadReq 0 0x80001000 16)) WhenNow PhRequest])"
  using kernel_engine_progress [OF entered_kernel_runs(1) tiny_kernel_in_pages quiet_ctx_accepts(1)] entered_kernel_runs(1) entered_kernel_access
  by (auto simp: entered_kernel_def tiny_kernel_def tiny_config_def permits_def grants_def win_contains_def win_overlaps_def sat_add_def
      u64_max_def kc_frame_def FRAME_BYTES_def)

theorem gate_answers_once_witness: "kernel_hist entered_kernel [7] [] \<and> [7 :: nat] = [] @ (case mk_held entered_kernel of None \<Rightarrow> [] | Some t \<Rightarrow> [t])"
  using gate_answers_once [OF entered_kernel_runs(2)] entered_kernel_runs(2) by simp

end
