(* ===== verification/Os_KSnap.thy ===== *)
theory Os_KSnap
  imports Os_KernelInv
begin

section \<open>Snapshots of the kernel\<close>

text \<open>
  Models \<^verbatim>\<open>snapshot\<close> and \<^verbatim>\<open>restore\<close> of \<^verbatim>\<open>components/os/src/kernel.rs\<close>: the encoding of the operation, its stage and the
  process table, and the checks a decoded state has to pass. A decoded stage is first a raw one, then
  checked against the decoded model and rebuilt.
\<close>

type_synonym RawCursor = "ExecEntry list option \<times> u32"

datatype RawStage =
    RawCreate u32 "u32 list"
  | RawReadFrame
  | RawDispatch u32 UserContext
  | RawShutdown u32
  | RawWalk "u32 \<times> u32 \<times> u32" "u32 list" u32 u8
  | RawOutput "u32 \<times> u32 \<times> u32" "u32 list" u32
  | RawReturn u32 u32
  | RawCommand RawCursor
  | RawPoll RawCursor
  | RawAck RawCursor u8
  | RawStaged RawCursor u32
  | RawLoad RawCursor "u8 list" "u32 list"

datatype RawOp = RawProto Op u32 "u8 list" | RawProc RawStage u32 "u8 list"

subsection \<open>The encoding\<close>

fun encode_source :: "Source \<Rightarrow> u8 list" where
  "encode_source (Plan p) = plan_encode p"
| "encode_source (Disk d) = disk_encode d"

definition w_entry :: "ExecEntry \<Rightarrow> u8 list" where
  "w_entry e = w_u32 (start_lba e) @ w_u32 (byte_len e)"

definition encode_cursor :: "Cursor \<Rightarrow> u8 list" where
  "encode_cursor c =
     (case cu_table c of
        None \<Rightarrow> w_u8 0
      | Some t \<Rightarrow> w_u8 1 @ w_len (length t) @ concat (map w_entry t)) @ w_u32 (of_nat (cu_index c))"

definition encode_buffer :: "Buffer \<Rightarrow> u8 list" where
  "encode_buffer b = w_u32 (bf_sepc b) @ w_u32 (bf_buf b) @ w_u32 (bf_n b)"

definition encode_context :: "UserContext \<Rightarrow> u8 list" where
  "encode_context c = concat (map w_u32 (uc_regs c @ [uc_pc c, uc_sstatus c]))"

definition encode_ppns :: "u32 list \<Rightarrow> u8 list" where
  "encode_ppns ppns = w_len (length ppns) @ concat (map w_u32 ppns)"

fun encode_stage :: "Stage \<Rightarrow> u8 list" where
  "encode_stage (StCreate pid s) = w_u8 0 @ w_u32 pid @ encode_ppns (spc_frames s)"
| "encode_stage StReadFrame = w_u8 1"
| "encode_stage (StDispatch pid c _) = w_u8 2 @ w_u32 pid @ encode_context c"
| "encode_stage (StShutdown reason) = w_u8 3 @ w_u32 reason"
| "encode_stage (StWalk b pgs table level) = w_u8 4 @ encode_buffer b @ encode_ppns pgs @ w_u32 table @ w_u8 (of_nat level)"
| "encode_stage (StOutput b pgs don) = w_u8 5 @ encode_buffer b @ encode_ppns pgs @ w_u32 don"
| "encode_stage (StReturn sepc v) = w_u8 6 @ w_u32 sepc @ w_u32 v"
| "encode_stage (StCommand c) = w_u8 7 @ encode_cursor c"
| "encode_stage (StPoll c) = w_u8 8 @ encode_cursor c"
| "encode_stage (StAck c err) = w_u8 9 @ encode_cursor c @ w_u8 err"
| "encode_stage (StStaged c len) = w_u8 10 @ encode_cursor c @ w_u32 len"
| "encode_stage (StLoad c headers _ s) = w_u8 11 @ encode_cursor c @ w_bytes headers @ encode_ppns (spc_frames s)"

fun encode_proc_state :: "ProcState \<Rightarrow> u8 list" where
  "encode_proc_state Ready = w_u8 0"
| "encode_proc_state Running = w_u8 1"
| "encode_proc_state (Exited status) = w_u8 2 @ w_u32 (word_of_int status)"
| "encode_proc_state (Faulted cause epc tval) = w_u8 3 @ w_u32 cause @ w_u32 epc @ w_u32 tval"

definition encode_region :: "OsRegion \<Rightarrow> u8 list" where
  "encode_region r = w_u32 (or_va r) @ w_u8 (perm_bits (or_perms r)) @ encode_ppns (or_frames r)"

definition encode_pcb :: "Pcb \<Rightarrow> u8 list" where
  "encode_pcb p =
     w_u32 (pcb_pid p) @ encode_proc_state (pcb_state p)
     @ (case pcb_context p of None \<Rightarrow> w_u8 0 | Some c \<Rightarrow> w_u8 1 @ encode_context c)
     @ w_u32 (pcb_root p) @ encode_ppns (pcb_tables p)
     @ w_len (length (pcb_regions p)) @ concat (map encode_region (pcb_regions p))"

fun life_tag :: "Life \<Rightarrow> u8" where
  "life_tag AwaitBoot = 0"
| "life_tag Up = 1"
| "life_tag Down = 2"

definition encode_model :: "Model \<Rightarrow> u8 list" where
  "encode_model m =
     (let procs = md_procs m in
      w_u8 (life_tag (md_life m))
      @ (case md_source m of Plan _ \<Rightarrow> [] | Disk _ \<Rightarrow> w_u32 (of_nat (md_entries m)))
      @ w_len (length (ps_pcbs procs)) @ concat (map encode_pcb (ps_pcbs procs))
      @ w_len (length (ps_queue procs)) @ concat (map w_u32 (ps_queue procs))
      @ (case ps_current procs of None \<Rightarrow> w_u8 0 | Some pid \<Rightarrow> w_u8 1 @ w_u32 pid)
      @ w_bytes (bitmap (ps_frames procs)))"

definition kernel_write_config :: "ModeledKernel \<Rightarrow> u8 list" where
  "kernel_write_config k =
     config_encode (mk_config k) @ (case mk_model k of None \<Rightarrow> [] | Some m \<Rightarrow> encode_source (md_source m))"

fun encode_work :: "Work \<Rightarrow> u8 list" where
  "encode_work (Proto p) =
     w_u8 (case op_kind p of OpScript \<Rightarrow> 0 | OpShutdown \<Rightarrow> 1) @ w_u32 (of_nat (op_step p)) @ w_bytes (op_data p)"
| "encode_work (Proc p) = w_u8 2 @ encode_stage (po_stage p) @ w_u32 (po_step p) @ w_bytes (po_data p)"

definition kernel_snapshot :: "ModeledKernel \<Rightarrow> u8 list" where
  "kernel_snapshot k =
     kernel_write_config k
     @ (case mk_state k of KIdle \<Rightarrow> w_u8 0 | KIssue _ \<Rightarrow> w_u8 1 | KWait _ txn \<Rightarrow> w_u8 2 @ w_u64 txn)
     @ (case state_work (mk_state k) of None \<Rightarrow> [] | Some w \<Rightarrow> encode_work w)
     @ (case mk_held k of None \<Rightarrow> w_u8 0 | Some txn \<Rightarrow> w_u8 1 @ w_u64 txn)
     @ w_u64 (mk_next_txn k)
     @ (case mk_model k of None \<Rightarrow> [] | Some m \<Rightarrow> encode_model m)"

subsection \<open>Decoding\<close>

definition bad_tag :: "string \<Rightarrow> 'a reader" where
  "bad_tag what = rd_fail (Decode what)"

text \<open>A count of elements at least so many bytes long each, bounded by what remains.\<close>

definition r_count :: "usize \<Rightarrow> usize reader" where
  "r_count min_bytes = rd_bind r_len (\<lambda>n bs. if n * min_bytes > length bs then Err (Decode ''truncated'') else Ok (n, bs))"

definition decode_ppns :: "u32 list reader" where
  "decode_ppns = rd_bind (r_count 4) (\<lambda>n. r_many n r_u32)"

definition r_entry :: "ExecEntry reader" where
  "r_entry = rd_bind r_u32 (\<lambda>lba. rd_bind r_u32 (\<lambda>len. rd_return \<lparr>start_lba = lba, byte_len = len\<rparr>))"

definition decode_cursor :: "RawCursor reader" where
  "decode_cursor =
     rd_bind r_u8 (\<lambda>tag.
     rd_bind (if tag = 0 then rd_return None
              else if tag = 1 then rd_bind (r_count 8) (\<lambda>n. rd_bind (r_many n r_entry) (\<lambda>es. rd_return (Some es)))
              else bad_tag ''modeled kernel boot table'') (\<lambda>table.
     rd_bind r_u32 (\<lambda>index. rd_return (table, index))))"

definition decode_buffer :: "(u32 \<times> u32 \<times> u32) reader" where
  "decode_buffer = rd_bind r_u32 (\<lambda>sepc. rd_bind r_u32 (\<lambda>buf. rd_bind r_u32 (\<lambda>n. rd_return (sepc, buf, n))))"

definition decode_context :: "UserContext reader" where
  "decode_context = rd_bind (r_many 33 r_u32) (\<lambda>ws. rd_return \<lparr>uc_regs = take 31 ws, uc_pc = ws ! 31, uc_sstatus = ws ! 32\<rparr>)"

definition decode_stage :: "RawStage reader" where
  "decode_stage =
     rd_bind r_u8 (\<lambda>tag.
       if tag = 0 then rd_bind r_u32 (\<lambda>pid. rd_bind decode_ppns (\<lambda>frames. rd_return (RawCreate pid frames)))
       else if tag = 1 then rd_return RawReadFrame
       else if tag = 2 then rd_bind r_u32 (\<lambda>pid. rd_bind decode_context (\<lambda>c. rd_return (RawDispatch pid c)))
       else if tag = 3 then rd_bind r_u32 (\<lambda>reason. rd_return (RawShutdown reason))
       else if tag = 4 then
         rd_bind decode_buffer (\<lambda>b. rd_bind decode_ppns (\<lambda>pgs. rd_bind r_u32 (\<lambda>table. rd_bind r_u8 (\<lambda>level.
           rd_return (RawWalk b pgs table level)))))
       else if tag = 5 then
         rd_bind decode_buffer (\<lambda>b. rd_bind decode_ppns (\<lambda>pgs. rd_bind r_u32 (\<lambda>don. rd_return (RawOutput b pgs don))))
       else if tag = 6 then rd_bind r_u32 (\<lambda>sepc. rd_bind r_u32 (\<lambda>v. rd_return (RawReturn sepc v)))
       else if tag = 7 then rd_bind decode_cursor (\<lambda>c. rd_return (RawCommand c))
       else if tag = 8 then rd_bind decode_cursor (\<lambda>c. rd_return (RawPoll c))
       else if tag = 9 then rd_bind decode_cursor (\<lambda>c. rd_bind r_u8 (\<lambda>err. rd_return (RawAck c err)))
       else if tag = 10 then rd_bind decode_cursor (\<lambda>c. rd_bind r_u32 (\<lambda>len. rd_return (RawStaged c len)))
       else if tag = 11 then
         rd_bind decode_cursor (\<lambda>c. rd_bind r_bytes (\<lambda>headers. rd_bind decode_ppns (\<lambda>frames. rd_return (RawLoad c headers frames))))
       else bad_tag ''modeled kernel stage'')"

definition decode_op :: "RawOp reader" where
  "decode_op =
     rd_bind r_u8 (\<lambda>tag.
       if tag = 0 \<or> tag = 1 then
         rd_bind r_u32 (\<lambda>step. rd_bind r_bytes (\<lambda>data. rd_return (RawProto (if tag = 0 then OpScript else OpShutdown) step data)))
       else if tag = 2 then
         rd_bind decode_stage (\<lambda>st. rd_bind r_u32 (\<lambda>step. rd_bind r_bytes (\<lambda>data. rd_return (RawProc st step data))))
       else bad_tag ''modeled kernel operation'')"

definition decode_proc_state :: "ProcState reader" where
  "decode_proc_state =
     rd_bind r_u8 (\<lambda>tag.
       if tag = 0 then rd_return Ready
       else if tag = 1 then rd_return Running
       else if tag = 2 then rd_bind r_u32 (\<lambda>status. rd_return (Exited (sint status)))
       else if tag = 3 then
         rd_bind r_u32 (\<lambda>cause. rd_bind r_u32 (\<lambda>epc. rd_bind r_u32 (\<lambda>tval. rd_return (Faulted cause epc tval))))
       else bad_tag ''modeled kernel process state'')"

definition r_optional :: "string \<Rightarrow> 'a reader \<Rightarrow> 'a option reader" where
  "r_optional what m =
     rd_bind r_u8 (\<lambda>tag.
       if tag = 0 then rd_return None
       else if tag = 1 then rd_bind m (\<lambda>x. rd_return (Some x))
       else bad_tag what)"

definition decode_region :: "OsRegion reader" where
  "decode_region =
     rd_bind r_u32 (\<lambda>va. rd_bind r_u8 (\<lambda>bits.
       case perms_from_bits bits of
         None \<Rightarrow> bad_tag ''modeled kernel perms''
       | Some perms \<Rightarrow> rd_bind decode_ppns (\<lambda>frames. rd_return \<lparr>or_va = va, or_perms = perms, or_frames = frames\<rparr>)))"

definition decode_pcb :: "Pcb reader" where
  "decode_pcb =
     rd_bind r_u32 (\<lambda>pid. rd_bind decode_proc_state (\<lambda>st.
     rd_bind (r_optional ''modeled kernel context'' decode_context) (\<lambda>c.
     rd_bind r_u32 (\<lambda>root. rd_bind decode_ppns (\<lambda>tables. rd_bind (r_count 9) (\<lambda>n. rd_bind (r_many n decode_region) (\<lambda>regions.
       rd_return \<lparr>pcb_pid = pid, pcb_state = st, pcb_context = c, pcb_root = root, pcb_tables = tables, pcb_regions = regions\<rparr>)))))))"

definition decode_life :: "Life reader" where
  "decode_life =
     rd_bind r_u8 (\<lambda>tag.
       if tag = 0 then rd_return AwaitBoot else if tag = 1 then rd_return Up else if tag = 2 then rd_return Down
       else bad_tag ''modeled kernel life'')"


subsection \<open>Checking the decoded model\<close>

definition u32_MAX :: u32 where
  "u32_MAX = - 1"

text \<open>A host panic inside a restore.\<close>

definition restore_panic :: "('a, Abort) result \<Rightarrow> ('a, RestoreError) result" where
  "restore_panic r = (case r of Ok x \<Rightarrow> Ok x | Err _ \<Rightarrow> Err RestorePanic)"

definition marked_owners :: "Frames \<Rightarrow> u8 list \<Rightarrow> u32 list" where
  "marked_owners pool bm = map (\<lambda>i. if frame_bit bm i then u32_MAX else 0) [0..<frames_count pool]"

text \<open>The marked frames a PCB names become its own; others are left to the check of the table.\<close>

definition claim_marked :: "u32 \<Rightarrow> u32 \<Rightarrow> u32 \<Rightarrow> u32 list \<Rightarrow> u32 list" where
  "claim_marked base pid ppn owners =
     (let i = unat (ppn - base) in
      if base \<le> ppn \<and> i < length owners \<and> owners ! i = u32_MAX then owners[i := pid] else owners)"

definition claim_pcb :: "u32 \<Rightarrow> Pcb \<Rightarrow> u32 list \<Rightarrow> u32 list" where
  "claim_pcb base p owners = fold (claim_marked base (pcb_pid p)) (pcb_frames p) owners"

definition disk_space :: "KernelConfig \<Rightarrow> Source \<Rightarrow> Pcb \<Rightarrow> (Space option, Abort) result" where
  "disk_space cfg source p =
     (let layout = source_layout source in
      case region_image (pcb_regions p) layout of
        None \<Rightarrow> Ok None
      | Some img \<Rightarrow>
          (let boot = \<lparr>bi_staged = of_nat (win_base (kc_staging cfg)), bi_file_len = 0, bi_image = img\<rparr>;
               frames = sort (pcb_frames p)
           in if length frames = frames_needed img layout \<and> \<not> megapage_conflict img cfg
              then result_bind (Space_build cfg layout boot frames) (\<lambda>s. Ok (Some s))
              else Ok None))"

definition same_tables :: "Pcb \<Rightarrow> Space \<Rightarrow> bool" where
  "same_tables p s \<longleftrightarrow> spc_root s = pcb_root p \<and> spc_tables s = pcb_tables p \<and> spc_regions s = pcb_regions p"

definition live_check :: "KernelConfig \<Rightarrow> Source \<Rightarrow> Pcb \<Rightarrow> (unit, RestoreError) result" where
  "live_check cfg source p =
     (if is_terminal (pcb_state p) then Ok ()
      else
        (case source of
           Disk _ \<Rightarrow>
             result_bind (restore_panic (disk_space cfg source p)) (\<lambda>s.
               if pred_option (same_tables p) s \<and> s \<noteq> None then Ok ()
               else Err (InvalidState ''modeled kernel: a process's tables or regions are not a creation's''))
         | Plan plan \<Rightarrow>
             if pcb_pid p = 0 \<or> \<not> unat (pcb_pid p) - 1 < length (pl_images plan)
               then Err (InvalidState ''modeled kernel: a PID outside the plan'')
             else
               (let boot = pl_images plan ! (unat (pcb_pid p) - 1); frames = sort (pcb_frames p) in
                if length frames \<noteq> frames_needed (bi_image boot) (pl_layout plan) \<or> megapage_conflict (bi_image boot) cfg
                  then Err (InvalidState ''modeled kernel: a process's frames do not fit its image'')
                else
                  result_bind (restore_panic (Space_build cfg (pl_layout plan) boot frames)) (\<lambda>s.
                    if same_tables p s then Ok ()
                    else Err (InvalidState ''modeled kernel: a process's tables or regions are not its image's'')))))"

definition decode_entries :: "Source \<Rightarrow> Life \<Rightarrow> usize reader" where
  "decode_entries source life =
     (case source of
        Plan plan \<Rightarrow> rd_return (length (pl_images plan))
      | Disk _ \<Rightarrow>
          rd_bind r_u32 (\<lambda>n.
            if unat n > MAX_PROCESSES \<or> life = AwaitBoot \<and> n \<noteq> 0
            then invalid ''modeled kernel: a table count above the limit or before boot''
            else rd_return (unat n)))"

fun each :: "('a \<Rightarrow> (unit, 'e) result) \<Rightarrow> 'a list \<Rightarrow> (unit, 'e) result" where
  "each f [] = Ok ()"
| "each f (x # xs) = result_bind (f x) (\<lambda>_. each f xs)"

definition decode_model :: "KernelConfig \<Rightarrow> Source \<Rightarrow> Model reader" where
  "decode_model cfg source =
     rd_bind decode_life (\<lambda>life.
     rd_bind (decode_entries source life) (\<lambda>entries.
     rd_bind (r_count 4) (\<lambda>n. rd_bind (r_many n decode_pcb) (\<lambda>pcbs.
     rd_bind decode_ppns (\<lambda>queue.
     rd_bind (r_optional ''modeled kernel running PID'' r_u32) (\<lambda>current.
     rd_bind r_bytes (\<lambda>bm.
       (let pool = Frames_new (win_base (kc_frame_pool cfg)) (win_size (kc_frame_pool cfg)) in
        if length bm \<noteq> (frames_count pool + 7) div 8 then invalid ''modeled kernel: frame bitmap of the wrong size''
        else if list_ex (frame_bit bm) [frames_count pool..<length bm * 8] then invalid ''modeled kernel: frame bitmap bit past the pool''
        else
          (let owners = fold (claim_pcb (fr_base pool)) pcbs (marked_owners pool bm) in
           rd_bind (of_reader (each (live_check cfg source) pcbs)) (\<lambda>_.
             rd_return \<lparr>md_source = source, md_entries = entries,
               md_procs = \<lparr>ps_pcbs = pcbs, ps_queue = queue, ps_current = current, ps_frames = Frames_from_owners (fr_base pool) owners\<rparr>,
               md_life = life\<rparr>))))))))))"

subsection \<open>Checking the decoded operation\<close>

definition boot_cursor :: "KernelConfig \<Rightarrow> Model \<Rightarrow> RawCursor \<Rightarrow> (Cursor, RestoreError) result" where
  "boot_cursor cfg m raw =
     (case md_source m of
        Plan _ \<Rightarrow> Err (InvalidState ''modeled kernel: a disk boot stage without a disk'')
      | Disk disk \<Rightarrow>
          if md_life m \<noteq> Up \<or> ps_current (md_procs m) \<noteq> None
            then Err (InvalidState ''modeled kernel: a disk boot stage out of boot'')
          else
            (let index = unat (snd raw) in
             case fst raw of
               None \<Rightarrow>
                 if index \<noteq> 0 \<or> md_entries m \<noteq> 0
                 then Err (InvalidState ''modeled kernel: a block 0 read after the table was counted'')
                 else Ok cursor_table
             | Some table \<Rightarrow>
                 (let valid = (case encode_table table of
                          Err _ \<Rightarrow> None
                        | Ok block \<Rightarrow> (case parse_exec_table block (db_capacity_blocks disk) (disk_staging_size cfg) of
                              Err _ \<Rightarrow> None | Ok t \<Rightarrow> Some t))
                  in if valid \<noteq> Some table \<or> md_entries m \<noteq> length table \<or> index \<ge> length table
                       then Err (InvalidState ''modeled kernel: a disk boot stage with a table no boot validated'')
                     else if list_ex (\<lambda>p. unat (pcb_pid p) > index) (ps_pcbs (md_procs m))
                       then Err (InvalidState ''modeled kernel: a disk boot stage out of boot order'')
                     else Ok \<lparr>cu_table = Some table, cu_index = index\<rparr>)))"

text \<open>The frame a region maps a readable page to, the first region that has one.\<close>

definition region_frame :: "u32 \<Rightarrow> OsRegion \<Rightarrow> u32 option" where
  "region_frame va r =
     (if or_va r \<le> va then
        (let page = unat (va - or_va r) div 4096 in
         if page < length (or_frames r) \<and> perm_read (or_perms r) then Some (or_frames r ! page) else None)
      else None)"

fun find_map :: "('a \<Rightarrow> 'b option) \<Rightarrow> 'a list \<Rightarrow> 'b option" where
  "find_map f [] = None"
| "find_map f (x # xs) = (case f x of Some y \<Rightarrow> Some y | None \<Rightarrow> find_map f xs)"

text \<open>The physical pages of a buffer from the first on, as far as they are mapped readable (\<^verbatim>\<open>map_while\<close>).\<close>

fun mapped_pages :: "Buffer \<Rightarrow> OsRegion list \<Rightarrow> usize list \<Rightarrow> (u32 list, Abort) result" where
  "mapped_pages b regions [] = Ok []"
| "mapped_pages b regions (i # is) =
     result_bind (buffer_page_va b i) (\<lambda>va.
       (case find_map (region_frame va) regions of
          None \<Rightarrow> Ok []
        | Some frame \<Rightarrow> result_bind (mapped_pages b regions is) (\<lambda>pgs. Ok (frame # pgs))))"

definition syscall_space :: "KernelConfig \<Rightarrow> Model \<Rightarrow> u32 \<times> u32 \<times> u32 \<Rightarrow> (Buffer \<times> Space \<times> u32 list, RestoreError) result" where
  "syscall_space cfg m raw =
     (case raw of (sepc, buf, n) \<Rightarrow>
      case (if md_life m = Up then Option.bind (ps_current (md_procs m)) (pcb_of (md_procs m)) else None) of
        None \<Rightarrow> Err (InvalidState ''modeled kernel: a write with no process running'')
      | Some p \<Rightarrow>
          (case Buffer_new sepc buf n of
             None \<Rightarrow> Err (InvalidState ''modeled kernel: a write buffer no write produces'')
           | Some b \<Rightarrow>
               result_bind
                 (case md_source m of
                    Plan plan \<Rightarrow>
                      if pcb_pid p = 0 \<or> \<not> unat (pcb_pid p) - 1 < length (pl_images plan) then Err RestorePanic
                      else restore_panic (Space_build cfg (pl_layout plan) (pl_images plan ! (unat (pcb_pid p) - 1)) (sort (pcb_frames p)))
                  | Disk _ \<Rightarrow>
                      result_bind (restore_panic (disk_space cfg (md_source m) p)) (\<lambda>s.
                        ok_or s (InvalidState ''modeled kernel: a write with no process running'')))
                 (\<lambda>s. result_bind (restore_panic (mapped_pages b (pcb_regions p) [0..<buffer_pages b])) (\<lambda>expected. Ok (b, s, expected)))))"

definition ascending :: "u32 list \<Rightarrow> bool" where
  "ascending xs \<longleftrightarrow> list_all (\<lambda>(a, b). a < b) (zip xs (tl xs))"



definition build_stage :: "KernelConfig \<Rightarrow> UserLayout \<Rightarrow> BootImage \<Rightarrow> u32 list \<Rightarrow> string \<Rightarrow> (Space, RestoreError) result" where
  "build_stage cfg layout boot frames why =
     (if \<not> ascending frames \<or> length frames \<noteq> frames_needed (bi_image boot) layout \<or> megapage_conflict (bi_image boot) cfg
      then Err (InvalidState why)
      else restore_panic (Space_build cfg layout boot frames))"

definition create_stage :: "KernelConfig \<Rightarrow> Model \<Rightarrow> u32 \<Rightarrow> u32 list \<Rightarrow> (Stage, RestoreError) result" where
  "create_stage cfg m pid frames =
     (case md_source m of
        Disk _ \<Rightarrow> Err (InvalidState ''modeled kernel: a plan creation without a plan'')
      | Plan plan \<Rightarrow>
          if pid = 0 \<or> \<not> unat pid - 1 < length (pl_images plan)
            then Err (InvalidState ''modeled kernel: creation of a PID outside the plan'')
          else if md_life m \<noteq> Up \<or> ps_current (md_procs m) \<noteq> None \<or> list_ex (\<lambda>p. pcb_pid p \<ge> pid) (ps_pcbs (md_procs m))
            then Err (InvalidState ''modeled kernel: creation out of boot order'')
          else
            result_bind (build_stage cfg (pl_layout plan) (pl_images plan ! (unat pid - 1)) frames
                ''modeled kernel: creation frames do not fit the image'') (\<lambda>s. Ok (StCreate pid s)))"

definition load_stage :: "KernelConfig \<Rightarrow> Model \<Rightarrow> RawCursor \<Rightarrow> u8 list \<Rightarrow> u32 list \<Rightarrow> (Stage, RestoreError) result" where
  "load_stage cfg m raw headers frames =
     result_bind (boot_cursor cfg m raw) (\<lambda>c.
     result_bind (restore_panic (cursor_entry c)) (\<lambda>entry.
       (case (entry, md_source m) of
          (Some e, Disk disk) \<Rightarrow>
            (case parse_user_elf32 headers (byte_len e) (image_range (db_layout disk)) of
               Err _ \<Rightarrow> Err (InvalidState ''modeled kernel: a load whose headers do not parse'')
             | Ok img \<Rightarrow>
                 (let boot = \<lparr>bi_staged = of_nat (win_base (kc_staging cfg)), bi_file_len = byte_len e, bi_image = img\<rparr> in
                  result_bind (build_stage cfg (db_layout disk) boot frames ''modeled kernel: load frames do not fit the image'') (\<lambda>s.
                    Ok (StLoad c headers img s))))
        | _ \<Rightarrow> Err (InvalidState ''modeled kernel: a load before the table''))))"

definition staged_stage :: "KernelConfig \<Rightarrow> Model \<Rightarrow> RawCursor \<Rightarrow> u32 \<Rightarrow> (Stage, RestoreError) result" where
  "staged_stage cfg m raw len =
     result_bind (boot_cursor cfg m raw) (\<lambda>c.
     result_bind (restore_panic (cursor_entry c)) (\<lambda>entry.
     result_bind (case entry of
          None \<Rightarrow> Ok (len = of_nat BLOCK_SIZE)
        | Some e \<Rightarrow> result_bind (restore_panic (cursor_first_read c)) (\<lambda>first. Ok (first \<le> len \<and> len \<le> byte_len e))) (\<lambda>reachable.
       if reachable then Ok (StStaged c len) else Err (InvalidState ''modeled kernel: a staging read no boot makes''))))"

definition running_up :: "Model \<Rightarrow> bool" where
  "running_up m \<longleftrightarrow> md_life m = Up \<and> ps_current (md_procs m) \<noteq> None"

definition walk_stage :: "KernelConfig \<Rightarrow> Model \<Rightarrow> u32 \<times> u32 \<times> u32 \<Rightarrow> u32 list \<Rightarrow> u32 \<Rightarrow> u8 \<Rightarrow> (Stage, RestoreError) result" where
  "walk_stage cfg m raw pgs table level =
     result_bind (syscall_space cfg m raw) (\<lambda>(b, s, expected).
     result_bind (restore_panic (buffer_page_va b (length pgs))) (\<lambda>va.
       (let table_ok = (if level = 1 then table = spc_root s else if level = 0 then table_for s va = Some table else False)
        in if length pgs \<ge> buffer_pages b \<or> take (length pgs) expected \<noteq> pgs \<or> \<not> table_ok
           then Err (InvalidState ''modeled kernel: a walk that is not the running process's mapping'')
           else Ok (StWalk b pgs table (unat level)))))"

fun raw_stage :: "KernelConfig \<Rightarrow> Model \<Rightarrow> RawStage \<Rightarrow> (Stage, RestoreError) result" where
  "raw_stage cfg m (RawCreate pid frames) = create_stage cfg m pid frames"
| "raw_stage cfg m (RawCommand c) = result_bind (boot_cursor cfg m c) (\<lambda>c. Ok (StCommand c))"
| "raw_stage cfg m (RawPoll c) = result_bind (boot_cursor cfg m c) (\<lambda>c. Ok (StPoll c))"
| "raw_stage cfg m (RawAck c err) = result_bind (boot_cursor cfg m c) (\<lambda>c. Ok (StAck c err))"
| "raw_stage cfg m (RawStaged c len) = staged_stage cfg m c len"
| "raw_stage cfg m (RawLoad c headers frames) = load_stage cfg m c headers frames"
| "raw_stage cfg m RawReadFrame =
     (if running_up m then Ok StReadFrame else Err (InvalidState ''modeled kernel: frame read with no process running''))"
| "raw_stage cfg m (RawDispatch pid c) =
     (if md_life m \<noteq> Up \<or> ps_current (md_procs m) \<noteq> Some pid
      then Err (InvalidState ''modeled kernel: dispatch of a process that is not running'')
      else Ok (StDispatch pid c (satp_of (case pcb_of (md_procs m) pid of Some p \<Rightarrow> pcb_root p | None \<Rightarrow> 0))))"
| "raw_stage cfg m (RawShutdown reason) =
     (if md_life m \<noteq> Down \<or> reason > 1 then Err (InvalidState ''modeled kernel: a shutdown that was not decided'') else Ok (StShutdown reason))"
| "raw_stage cfg m (RawWalk raw pgs table level) = walk_stage cfg m raw pgs table level"
| "raw_stage cfg m (RawOutput raw pgs don) =
     result_bind (syscall_space cfg m raw) (\<lambda>(b, s, expected).
       result_bind (if pgs \<noteq> expected then Ok False else restore_panic (is_chunk_start b don)) (\<lambda>found.
         if \<not> found then Err (InvalidState ''modeled kernel: output that is not the running process's buffer'')
         else Ok (StOutput b pgs don)))"
| "raw_stage cfg m (RawReturn sepc v) =
     (if running_up m then Ok (StReturn sepc v) else Err (InvalidState ''modeled kernel: a syscall return with no process running''))"

definition proc_op :: "KernelConfig \<Rightarrow> Model \<Rightarrow> RawStage \<Rightarrow> u32 \<Rightarrow> u8 list \<Rightarrow> (ProcOp, RestoreError) result" where
  "proc_op cfg m raw step data =
     result_bind (raw_stage cfg m raw) (\<lambda>st.
     result_bind (restore_panic (procop_from_parts cfg st step data)) (\<lambda>p.
       ok_or p (InvalidState ''modeled kernel: operation step or working data not reachable'')))"

subsection \<open>Tying the table to the operation\<close>

fun work_creating :: "Work option \<Rightarrow> (u32 \<times> u32 list) option" where
  "work_creating (Some (Proc p)) = stage_creating (po_stage p)"
| "work_creating _ = None"

text \<open>The frames of a creation in flight get their owner; each has to be marked and unclaimed.\<close>

fun claim_created :: "u32 \<Rightarrow> u32 \<Rightarrow> u32 list \<Rightarrow> u32 list \<Rightarrow> (u32 list, RestoreError) result" where
  "claim_created base pid [] owners = Ok owners"
| "claim_created base pid (ppn # ppns) owners =
     (if base \<le> ppn \<and> unat (ppn - base) < length owners \<and> owners ! unat (ppn - base) = u32_MAX
      then claim_created base pid ppns (owners[unat (ppn - base) := pid])
      else Err (InvalidState ''modeled kernel: a creation frame not marked allocated''))"

definition creation_owners :: "u32 \<Rightarrow> (u32 \<times> u32 list) option \<Rightarrow> u32 list \<Rightarrow> (u32 list, RestoreError) result" where
  "creation_owners base creating owners =
     (case creating of
        None \<Rightarrow> Ok owners
      | Some (pid, frames) \<Rightarrow>
          result_bind (claim_created base pid frames owners) (\<lambda>owners.
            (let final = (if frames = [] then base else List.last frames) in
             if final < base \<or> length owners < unat (final - base) then Err RestorePanic
             else if 0 \<in> set (take (unat (final - base)) owners)
               then Err (InvalidState ''modeled kernel: creation frames are not the lowest free ones'')
             else Ok owners)))"

definition check_life :: "Model \<Rightarrow> Work option \<Rightarrow> (Model, RestoreError) result" where
  "check_life m work =
     (let procs = md_procs m; fr = ps_frames procs; creating = work_creating work;
          owners = map (\<lambda>i. case frame_owner fr (fr_base fr + of_nat i) of Some w \<Rightarrow> w | None \<Rightarrow> 0) [0..<frames_count fr]
      in result_bind (creation_owners (fr_base fr) creating owners) (\<lambda>owners.
         if u32_MAX \<in> set owners then Err (InvalidState ''modeled kernel: an allocated frame no live process owns'')
         else
           (let checked = procs\<lparr>ps_frames := Frames_from_owners (fr_base fr) owners\<rparr> in
            case procs_check checked (md_entries m) creating of
              Err (Violation why) \<Rightarrow> Err (InvalidState why)
            | Ok _ \<Rightarrow>
                if md_life m = AwaitBoot \<and> work \<noteq> None then Err (InvalidState ''modeled kernel: an operation before boot'')
                else if md_life m = AwaitBoot \<and> ps_pcbs procs \<noteq> [] then Err (InvalidState ''modeled kernel: processes before boot'')
                else if md_life m = Up \<and> work = None \<and> ps_current procs = None
                  then Err (InvalidState ''modeled kernel: idle after boot with no process running'')
                else Ok (m\<lparr>md_procs := checked\<rparr>))))"

subsection \<open>Restoring\<close>

definition restore_work :: "ModeledKernel \<Rightarrow> Model option \<Rightarrow> RawOp option \<Rightarrow> (Work option, RestoreError) result" where
  "restore_work k model raw =
     (case (raw, model) of
        (None, _) \<Rightarrow> Ok None
      | (Some (RawProto kind step data), None) \<Rightarrow>
          result_bind (ok_or (op_from_parts (mk_config k) kind (unat step) data)
            (InvalidState ''modeled kernel: operation step or working data not reachable'')) (\<lambda>p. Ok (Some (Proto p)))
      | (Some (RawProc st step data), Some m) \<Rightarrow>
          result_bind (proc_op (mk_config k) m st step data) (\<lambda>p. Ok (Some (Proc p)))
      | _ \<Rightarrow> Err (InvalidState ''modeled kernel: operation of the other mode''))"

definition pending_check :: "KernelConfig \<Rightarrow> Work option \<Rightarrow> (unit, RestoreError) result" where
  "pending_check cfg work =
     (case work of
        None \<Rightarrow> Ok ()
      | Some w \<Rightarrow>
          result_bind (restore_panic (work_access cfg w)) (\<lambda>due.
            case due of
              None \<Rightarrow> Err RestorePanic
            | Some a \<Rightarrow>
                if permits cfg (kaddr a) (klen a) then Ok ()
                else Err (InvalidState ''modeled kernel: pending access outside the whitelist'')))"

definition restore_checked ::
    "ModeledKernel \<Rightarrow> TxnId option \<Rightarrow> RawOp option \<Rightarrow> TxnId option \<Rightarrow> TxnId \<Rightarrow> Model option \<Rightarrow> (ModeledKernel, RestoreError) result" where
  "restore_checked k outstanding raw held next_txn model =
     result_bind (restore_work k model raw) (\<lambda>work.
       if (held = None) \<noteq> (work = None)
         then Err (InvalidState ''modeled kernel: a held ENTER without an operation, or the reverse'')
       else
         result_bind (pending_check (mk_config k) work) (\<lambda>_.
           if (case outstanding of None \<Rightarrow> False | Some txn \<Rightarrow> next_txn \<noteq> txn + 1)
             then Err (InvalidState ''modeled kernel: outstanding txn is not the latest issued'')
           else
             result_bind (case model of None \<Rightarrow> Ok None | Some m \<Rightarrow> result_bind (check_life m work) (\<lambda>m. Ok (Some m))) (\<lambda>model.
               Ok (k\<lparr>mk_state := (case (work, outstanding) of
                        (None, _) \<Rightarrow> KIdle
                      | (Some w, None) \<Rightarrow> KIssue w
                      | (Some w, Some txn) \<Rightarrow> KWait w txn),
                     mk_held := held, mk_next_txn := next_txn,
                     mk_model := (case model of None \<Rightarrow> mk_model k | Some m \<Rightarrow> Some m)\<rparr>))))"

definition kernel_restore :: "ModeledKernel \<Rightarrow> ModeledKernel reader" where
  "kernel_restore k =
     rd_bind (r_raw (length (kernel_write_config k))) (\<lambda>cfg.
       if cfg \<noteq> kernel_write_config k then invalid ''modeled kernel: snapshot has a different config''
       else
         rd_bind r_u8 (\<lambda>tag.
         rd_bind (if tag = 0 \<or> tag = 1 then rd_return None
                  else if tag = 2 then rd_bind r_u64 (\<lambda>t. rd_return (Some t))
                  else bad_tag ''modeled kernel state'') (\<lambda>outstanding.
         rd_bind (if tag = 0 then rd_return None else rd_bind decode_op (\<lambda>p. rd_return (Some p))) (\<lambda>raw.
         rd_bind (r_optional ''modeled kernel held ENTER'' r_u64) (\<lambda>held.
         rd_bind r_u64 (\<lambda>next_txn.
         rd_bind (case mk_model k of
                    None \<Rightarrow> rd_return None
                  | Some m \<Rightarrow> rd_bind (decode_model (mk_config k) (md_source m)) (\<lambda>m. rd_return (Some m))) (\<lambda>model.
           of_reader (restore_checked k outstanding raw held next_txn model))))))))"

end
