(* ===== verification/Os_KRestore.thy ===== *)
theory Os_KRestore
  imports Os_KSnap
begin

section \<open>What restoring a kernel guarantees\<close>

text \<open>
  Every part of the encoding is a codec (an interpretation of \<open>snap_codec\<close>), so a snapshot decodes to what
  was written. On it rest three theorems: a prototype kernel is restored exactly; whatever
  bytes a restore accepts, the state it leaves passes the kernel's checks; and a crafted snapshot makes
  the restore panic instead of being rejected.
\<close>

subsection \<open>The codecs\<close>

lemma length_concat_w_u32 [simp]: "length (concat (map w_u32 xs)) = 4 * length xs"
  by (induction xs) (simp_all add: w_u32_def)

lemma length_w_u32 [simp]: "length (w_u32 v) = 4"
  by (simp add: w_u32_def)

lemma r_count_enc: "n < 256 ^ 4 \<Longrightarrow> n * k \<le> length rest \<Longrightarrow> r_count k (w_len n @ rest) = Ok (n, rest)"
  by (simp add: r_count_def snap_bind)

lemma r_many_u32 [simp]: "r_many (length xs) r_u32 (concat (map w_u32 xs) @ rest) = Ok (xs, rest)"
  by (rule sc32.r_many_enc) (simp add: list_all_iff)

interpretation scppns: snap_codec "\<lambda>xs. length xs < 256 ^ 4" encode_ppns decode_ppns
proof unfold_locales
  fix xs :: "u32 list" and rest
  assume "length xs < 256 ^ 4"
  then show "decode_ppns (encode_ppns xs @ rest) = Ok (xs, rest)"
    by (simp add: encode_ppns_def decode_ppns_def r_count_enc)
qed

interpretation scentry: snap_codec "\<lambda>_. True" w_entry r_entry
  by unfold_locales (simp add: w_entry_def r_entry_def snap_bind)

definition raw_cursor :: "Cursor \<Rightarrow> RawCursor" where
  "raw_cursor c = (cu_table c, of_nat (cu_index c))"

definition cursor_fits :: "Cursor \<Rightarrow> bool" where
  "cursor_fits c \<longleftrightarrow> pred_option (\<lambda>t. length t < 256 ^ 4) (cu_table c)"

lemma length_concat_w_entry [simp]: "length (concat (map w_entry es)) = 8 * length es"
  by (induction es) (simp_all add: w_entry_def)

lemma decode_cursor_enc: "cursor_fits c \<Longrightarrow> decode_cursor (encode_cursor c @ rest) = Ok (raw_cursor c, rest)"
proof (cases "cu_table c")
  case (Some t)
  assume "cursor_fits c"
  then show ?thesis using Some scentry.r_many_enc [of t "w_u32 (of_nat (cu_index c)) @ rest"]
    by (simp add: encode_cursor_def decode_cursor_def raw_cursor_def cursor_fits_def snap_bind r_count_enc list_all_iff)
qed (simp add: encode_cursor_def decode_cursor_def raw_cursor_def snap_bind)

lemma decode_buffer_enc: "decode_buffer (encode_buffer b @ rest) = Ok ((bf_sepc b, bf_buf b, bf_n b), rest)"
  by (simp add: encode_buffer_def decode_buffer_def snap_bind)

interpretation sccontext: snap_codec "\<lambda>c. length (uc_regs c) = 31" encode_context decode_context
proof unfold_locales
  fix c :: UserContext and rest
  assume len: "length (uc_regs c) = 31"
  let ?ws = "uc_regs c @ [uc_pc c, uc_sstatus c]"
  have "r_many 33 r_u32 (concat (map w_u32 ?ws) @ rest) = Ok (?ws, rest)"
    using r_many_u32 [of ?ws rest] len by (simp del: r_many_u32)
  then show "decode_context (encode_context c @ rest) = Ok (c, rest)"
    unfolding decode_context_def encode_context_def using len by (simp add: nth_append)
qed

lemma sint_word_of_int_i32:
  assumes "- (2 ^ 31) \<le> n" "n < 2 ^ 31"
  shows "sint (word_of_int n :: u32) = n"
  using assms by (simp add: sint_uint unsigned_of_int signed_take_bit_take_bit signed_take_bit_int_eq_self)

interpretation scstate: snap_codec "\<lambda>s. \<forall>n. s = Exited n \<longrightarrow> - (2 ^ 31) \<le> n \<and> n < 2 ^ 31" encode_proc_state decode_proc_state
proof unfold_locales
  fix s rest
  assume "\<forall>n. s = Exited n \<longrightarrow> - (2 ^ 31) \<le> n \<and> n < 2 ^ 31"
  then show "decode_proc_state (encode_proc_state s @ rest) = Ok (s, rest)"
    by (cases s) (simp_all add: decode_proc_state_def snap_bind sint_word_of_int_i32)
qed

lemma r_optional_enc:
  assumes "\<And>x rest. y = Some x \<Longrightarrow> m (enc x @ rest) = Ok (x, rest)"
  shows "r_optional what m ((case y of None \<Rightarrow> w_u8 0 | Some x \<Rightarrow> w_u8 1 @ enc x) @ rest) = Ok (y, rest)"
  using assms by (cases y) (simp_all add: r_optional_def snap_bind)

lemma perms_bits_round [simp]: "perms_from_bits (perm_bits p) = Some p"
  by (cases p) (auto simp: perms_from_bits_def perm_bits_def)

definition region_fits32 :: "OsRegion \<Rightarrow> bool" where
  "region_fits32 r \<longleftrightarrow> length (or_frames r) < 256 ^ 4"

interpretation scregion: snap_codec region_fits32 encode_region decode_region
  by unfold_locales (simp add: encode_region_def decode_region_def region_fits32_def snap_bind scppns.bind_enc)

definition pcb_fits :: "Pcb \<Rightarrow> bool" where
  "pcb_fits p \<longleftrightarrow> (\<forall>n. pcb_state p = Exited n \<longrightarrow> - (2 ^ 31) \<le> n \<and> n < 2 ^ 31)
     \<and> pred_option (\<lambda>c. length (uc_regs c) = 31) (pcb_context p) \<and> length (pcb_tables p) < 256 ^ 4
     \<and> length (pcb_regions p) < 256 ^ 4 \<and> list_all region_fits32 (pcb_regions p)"

lemma length_concat_regions: "9 * length rs \<le> length (concat (map encode_region rs))"
  by (induction rs) (simp_all add: encode_region_def encode_ppns_def w_u8_def w_len_def)

interpretation scpcb: snap_codec pcb_fits encode_pcb decode_pcb
proof unfold_locales
  fix p rest
  assume fits: "pcb_fits p"
  have ctx: "decode_context (encode_context c @ rest) = Ok (c, rest)" if "pcb_context p = Some c" for c rest
    using fits that by (intro sccontext.dec_enc) (simp add: pcb_fits_def)
  have regions: "r_many (length (pcb_regions p)) decode_region (concat (map encode_region (pcb_regions p)) @ rest) = Ok (pcb_regions p, rest)"
    using fits by (intro scregion.r_many_enc) (simp add: pcb_fits_def)
  show "decode_pcb (encode_pcb p @ rest) = Ok (p, rest)"
    using fits length_concat_regions [of "pcb_regions p"]
    by (simp add: encode_pcb_def decode_pcb_def snap_bind scstate.bind_enc [unfolded pcb_fits_def] r_optional_enc [OF ctx]
        scppns.bind_enc r_count_enc regions pcb_fits_def mult.commute)
qed


fun raw_of :: "Stage \<Rightarrow> RawStage" where
  "raw_of (StCreate pid s) = RawCreate pid (spc_frames s)"
| "raw_of StReadFrame = RawReadFrame"
| "raw_of (StDispatch pid c _) = RawDispatch pid c"
| "raw_of (StShutdown reason) = RawShutdown reason"
| "raw_of (StWalk b pgs table level) = RawWalk (bf_sepc b, bf_buf b, bf_n b) pgs table (of_nat level)"
| "raw_of (StOutput b pgs don) = RawOutput (bf_sepc b, bf_buf b, bf_n b) pgs don"
| "raw_of (StReturn sepc v) = RawReturn sepc v"
| "raw_of (StCommand c) = RawCommand (raw_cursor c)"
| "raw_of (StPoll c) = RawPoll (raw_cursor c)"
| "raw_of (StAck c err) = RawAck (raw_cursor c) err"
| "raw_of (StStaged c len) = RawStaged (raw_cursor c) len"
| "raw_of (StLoad c headers _ s) = RawLoad (raw_cursor c) headers (spc_frames s)"

fun stage_fits :: "Stage \<Rightarrow> bool" where
  "stage_fits (StCreate _ s) \<longleftrightarrow> length (spc_frames s) < 256 ^ 4"
| "stage_fits (StDispatch _ c _) \<longleftrightarrow> length (uc_regs c) = 31"
| "stage_fits (StWalk _ pgs _ _) \<longleftrightarrow> length pgs < 256 ^ 4"
| "stage_fits (StOutput _ pgs _) \<longleftrightarrow> length pgs < 256 ^ 4"
| "stage_fits (StCommand c) \<longleftrightarrow> cursor_fits c"
| "stage_fits (StPoll c) \<longleftrightarrow> cursor_fits c"
| "stage_fits (StAck c _) \<longleftrightarrow> cursor_fits c"
| "stage_fits (StStaged c _) \<longleftrightarrow> cursor_fits c"
| "stage_fits (StLoad c headers _ s) \<longleftrightarrow> cursor_fits c \<and> length headers < 256 ^ 4 \<and> length (spc_frames s) < 256 ^ 4"
| "stage_fits _ \<longleftrightarrow> True"

lemma decode_stage_enc: "stage_fits st \<Longrightarrow> decode_stage (encode_stage st @ rest) = Ok (raw_of st, rest)"
  by (cases st) (simp_all add: decode_stage_def snap_bind scppns.bind_enc sccontext.bind_enc decode_cursor_enc decode_buffer_enc)

fun raw_work :: "Work \<Rightarrow> RawOp" where
  "raw_work (Proto p) = RawProto (op_kind p) (of_nat (op_step p)) (op_data p)"
| "raw_work (Proc p) = RawProc (raw_of (po_stage p)) (po_step p) (po_data p)"

fun work_fits :: "Work \<Rightarrow> bool" where
  "work_fits (Proto p) \<longleftrightarrow> length (op_data p) < 256 ^ 4"
| "work_fits (Proc p) \<longleftrightarrow> stage_fits (po_stage p) \<and> length (po_data p) < 256 ^ 4"

lemma decode_op_enc: "work_fits w \<Longrightarrow> decode_op (encode_work w @ rest) = Ok (raw_work w, rest)"
  by (cases w) (auto simp: decode_op_def snap_bind decode_stage_enc split: Op.splits)

text \<open>The part of a snapshot before the process table, decoded.\<close>

definition kernel_fits :: "ModeledKernel \<Rightarrow> bool" where
  "kernel_fits k \<longleftrightarrow> pred_option (\<lambda>t. t < 256 ^ 8) (mk_held k) \<and> mk_next_txn k < 256 ^ 8
     \<and> pred_option work_fits (state_work (mk_state k)) \<and> (\<forall>w t. mk_state k = KWait w t \<longrightarrow> t < 256 ^ 8)"

fun outstanding :: "KState \<Rightarrow> TxnId option" where
  "outstanding (KWait _ t) = Some t"
| "outstanding _ = None"

lemma kernel_restore_decodes:
  assumes fits: "kernel_fits k" and cfg: "kernel_write_config k0 = kernel_write_config k"
  shows "kernel_restore k0 (kernel_snapshot k @ rest) =
    rd_bind (case mk_model k0 of None \<Rightarrow> rd_return None | Some m \<Rightarrow> rd_bind (decode_model (mk_config k0) (md_source m)) (\<lambda>m. rd_return (Some m)))
      (\<lambda>model. of_reader (restore_checked k0 (outstanding (mk_state k)) (map_option raw_work (state_work (mk_state k))) (mk_held k) (mk_next_txn k) model))
      ((case mk_model k of None \<Rightarrow> [] | Some m \<Rightarrow> encode_model m) @ rest)"
proof -
  have held: "r_optional ''modeled kernel held ENTER'' r_u64 ((case mk_held k of None \<Rightarrow> w_u8 0 | Some t \<Rightarrow> w_u8 1 @ w_u64 t) @ r) = Ok (mk_held k, r)" for r
    using fits by (intro r_optional_enc) (auto simp: kernel_fits_def sc64.dec_enc)
  have raw: "r_raw (length (kernel_write_config k0)) (kernel_write_config k @ r) = Ok (kernel_write_config k, r)" for r
    by (simp add: cfg)
  show ?thesis using fits
    by (cases "mk_state k")
      (auto simp: kernel_restore_def kernel_snapshot_def cfg raw snap_bind held kernel_fits_def decode_op_enc)
qed


subsection \<open>Restoring a prototype kernel\<close>

lemma proto_from_parts:
  assumes "proto_ok cfg p"
  shows "op_from_parts cfg (op_kind p) (unat (of_nat (op_step p) :: u32)) (op_data p) = Some p" "length (op_data p) < 256 ^ 4"
proof -
  have "length (frame_chunks cfg) \<le> 152" "length (shutdown_chunks cfg) \<le> 8"
    using split_range_length(1) by (auto simp: frame_chunks_Ok(2) shutdown_chunks_Ok(2) FRAME_BYTES_def)
  then have "op_step p < 2 ^ 32" using assms by (auto simp: proto_ok_def op_steps_def split: Op.splits)
  then show "op_from_parts cfg (op_kind p) (unat (of_nat (op_step p) :: u32)) (op_data p) = Some p"
    using assms by (cases p) (simp add: unat_of_nat_exact proto_ok_def op_from_parts_def)
  have "op_data_len cfg p \<le> 152"
  proof (cases "op_kind p = OpScript \<and> op_step p < length (frame_chunks cfg)")
    case True
    then show ?thesis using frame_chunk [of "op_step p" cfg] by (force simp: op_data_len_def Let_def frame_sum_def)
  next
    case False
    then show ?thesis by (cases "op_kind p") (auto simp: op_data_len_def Let_def FRAME_BYTES_def)
  qed
  then show "length (op_data p) < 256 ^ 4" using assms by (simp add: proto_ok_def)
qed

text \<open>A kernel about to send an access its whitelist refuses: the next wake faults the session.\<close>

definition refused_access :: "ModeledKernel \<Rightarrow> bool" where
  "refused_access k \<longleftrightarrow>
     (case mk_state k of
        KIssue w \<Rightarrow>
          (case work_access (mk_config k) w of
             Ok (Some a) \<Rightarrow> \<not> permits (mk_config k) (kaddr a) (klen a)
           | _ \<Rightarrow> False)
      | _ \<Rightarrow> False)"

lemma proto_restores:
  assumes run: "kernel_runs start k" and mode: "mk_model k = None" and txn: "pred_option (\<lambda>t. t \<le> u64_max) (mk_held k)"
    and k0: "mk_config k0 = mk_config k" "mk_model k0 = None"
  shows "kernel_restore k0 (kernel_snapshot k @ rest) =
    (if refused_access k then Err (InvalidState ''modeled kernel: pending access outside the whitelist'') else Ok (k, rest))"
proof -
  have "kernel_in_pages start" using kernel_runs_engine [OF run] mode by (simp add: kernel_in_pages_def)
  then have inv: "kernel_inv k" by (rule kernel_runs_inv [OF run])
  have proto: "\<exists>p. w = Proto p \<and> proto_ok (mk_config k) p" if "state_work (mk_state k) = Some w" for w
    using inv that mode by (auto simp: kernel_inv_def works_on_def)
  have wait: "mk_next_txn k = t + 1" if "mk_state k = KWait w t" for w t using inv that by (auto simp: kernel_inv_def)
  have "kernel_fits k"
    using txn inv proto proto_from_parts(2) wait
    by (auto simp: kernel_fits_def kernel_inv_def u64_max_def option.pred_set)
  moreover have "kernel_write_config k0 = kernel_write_config k" using k0 mode by (simp add: kernel_write_config_def)
  moreover have "restore_checked k0 (outstanding (mk_state k)) (map_option raw_work (state_work (mk_state k))) (mk_held k) (mk_next_txn k) None =
      (if refused_access k then Err (InvalidState ''modeled kernel: pending access outside the whitelist'') else Ok k)"
  proof (cases "state_work (mk_state k)")
    case None
    then have "mk_state k = KIdle" by (cases "mk_state k") simp_all
    then show ?thesis using inv k0 mode
      by (auto simp: restore_checked_def restore_work_def pending_check_def kernel_inv_def refused_access_def)
  next
    case (Some w)
    then obtain p where p: "w = Proto p" "proto_ok (mk_config k) p" using proto by blast
    obtain a where a: "op_access (mk_config k) p = Ok (Some a)" using proto_access [OF p(2)] by blast
    have issued: "permits (mk_config k) (kaddr a) (klen a)" if "mk_state k = KWait w t" for t
      using inv that p(1) a by (auto simp: kernel_inv_def)
    show ?thesis using Some p a inv k0 mode wait issued proto_from_parts(1) [OF p(2)]
      by (cases "mk_state k")
        (auto simp: restore_checked_def restore_work_def pending_check_def restore_panic_def kernel_inv_def refused_access_def)
  qed
  ultimately show ?thesis using mode k0(2) kernel_restore_decodes [of k k0 rest] by (simp add: of_reader_def)
qed

text \<open>
  C17. A prototype kernel restores exactly, or not at all. The snapshot of any reachable one, idle, about to
  send an access or in the middle of one, read into any kernel of the same configuration, gives that state back and
  consumes exactly the snapshot; the one exception is a kernel about to send an access its own
  whitelist refuses, as when the gate overlaps a granted window: its snapshot is rejected.
\<close>

theorem proto_kernel_restore:
  assumes "kernel_runs start k" "mk_model k = None" "pred_option (\<lambda>t. t \<le> u64_max) (mk_held k)"
    and "mk_config k0 = mk_config k" "mk_model k0 = None"
  shows "kernel_restore k0 (kernel_snapshot k @ rest) =
    (if refused_access k then Err (InvalidState ''modeled kernel: pending access outside the whitelist'') else Ok (k, rest))"
  by (rule proto_restores [OF assms])

subsection \<open>Whatever a restore accepts is consistent\<close>

lemma each_Ok: "each f xs = Ok u \<longleftrightarrow> (\<forall>x\<in>set xs. f x = Ok ())"
  by (induction xs) auto

lemma decode_model_Ok:
  assumes "decode_model cfg src bs = Ok (m, rest)"
  shows "md_source m = src \<and> (\<forall>p\<in>set (ps_pcbs (md_procs m)). live_check cfg src p = Ok ())"
  using assms by (auto simp: decode_model_def rd_bind_Ok_iff of_reader_def each_Ok Let_def split: if_splits)

lemma check_life_Ok:
  assumes "check_life m w = Ok m'"
  shows "procs_check (md_procs m') (md_entries m') (work_creating w) = Ok () \<and> md_source m' = md_source m
    \<and> ps_pcbs (md_procs m') = ps_pcbs (md_procs m)"
  using assms by (auto simp: check_life_def Let_def split: if_splits sum.splits Violation.splits)

lemma pending_check_Ok:
  "pending_check cfg (Some w) = Ok u \<Longrightarrow> \<exists>a. work_access cfg w = Ok (Some a) \<and> permits cfg (kaddr a) (klen a)"
  by (auto simp: pending_check_def restore_panic_def split: sum.splits option.splits if_splits)

text \<open>
  C16. A restore only accepts consistent states. Whatever bytes it accepts, the configuration and the process source are
  the kernel's own; an operation is in progress exactly when an \<^verbatim>\<open>ENTER\<close> is held; its due or outstanding
  access exists and is whitelisted, and an outstanding one carries the latest transaction number; the
  process table passes every rule of its check; and every live process has exactly the tables
  and regions its image builds.
\<close>

theorem kernel_restore_sound:
  assumes "kernel_restore k bs = Ok (k', rest)"
  shows "mk_config k' = mk_config k \<and> (mk_held k' = None \<longleftrightarrow> mk_state k' = KIdle)
    \<and> pred_option (\<lambda>w. \<exists>a. work_access (mk_config k) w = Ok (Some a) \<and> permits (mk_config k) (kaddr a) (klen a)) (state_work (mk_state k'))
    \<and> pred_option (\<lambda>t. mk_next_txn k' = t + 1) (outstanding (mk_state k'))
    \<and> rel_option (\<lambda>m m'. md_source m' = md_source m
         \<and> procs_check (md_procs m') (md_entries m') (work_creating (state_work (mk_state k'))) = Ok ()
         \<and> list_all (\<lambda>p. live_check (mk_config k) (md_source m) p = Ok ()) (ps_pcbs (md_procs m')))
       (mk_model k) (mk_model k')"
proof -
  from assms obtain out raw held n model bs' where
    model: "(case mk_model k of None \<Rightarrow> rd_return None | Some m \<Rightarrow> rd_bind (decode_model (mk_config k) (md_source m)) (\<lambda>m. rd_return (Some m))) bs'
      = Ok (model, rest)"
    and chk: "restore_checked k out raw held n model = Ok k'"
    by (auto simp: kernel_restore_def rd_bind_Ok_iff of_reader_def split: if_splits)
  have rel: "rel_option (\<lambda>m m'. md_source m' = md_source m \<and> list_all (\<lambda>p. live_check (mk_config k) (md_source m) p = Ok ()) (ps_pcbs (md_procs m')))
      (mk_model k) model"
    using model by (auto simp: rd_bind_Ok_iff list_all_iff dest!: decode_model_Ok split: option.splits)
  from chk obtain w where work: "restore_work k model raw = Ok w" "(held = None) = (w = None)"
    and pend: "pending_check (mk_config k) w = Ok ()" and txn: "\<forall>t. out = Some t \<longrightarrow> n = t + 1"
    and life: "\<exists>model'. (case model of None \<Rightarrow> Ok None | Some m \<Rightarrow> result_bind (check_life m w) (\<lambda>m. Ok (Some m))) = Ok model'
      \<and> k' = k\<lparr>mk_state := (case (w, out) of (None, _) \<Rightarrow> KIdle | (Some w, None) \<Rightarrow> KIssue w | (Some w, Some txn) \<Rightarrow> KWait w txn),
           mk_held := held, mk_next_txn := n, mk_model := (case model' of None \<Rightarrow> mk_model k | Some m \<Rightarrow> Some m)\<rparr>"
    by (auto simp: restore_checked_def split: if_splits option.splits)
  then obtain model' where model': "(case model of None \<Rightarrow> Ok None | Some m \<Rightarrow> result_bind (check_life m w) (\<lambda>m. Ok (Some m))) = Ok model'"
    and k': "k' = k\<lparr>mk_state := (case (w, out) of (None, _) \<Rightarrow> KIdle | (Some w, None) \<Rightarrow> KIssue w | (Some w, Some txn) \<Rightarrow> KWait w txn),
           mk_held := held, mk_next_txn := n, mk_model := (case model' of None \<Rightarrow> mk_model k | Some m \<Rightarrow> Some m)\<rparr>" by blast
  have st: "state_work (mk_state k') = w" "outstanding (mk_state k') = (case w of None \<Rightarrow> None | Some _ \<Rightarrow> out)"
    "(mk_state k' = KIdle) = (w = None)" using k' by (auto split: option.splits)
  have "pred_option (\<lambda>w. \<exists>a. work_access (mk_config k) w = Ok (Some a) \<and> permits (mk_config k) (kaddr a) (klen a)) w"
    using pend pending_check_Ok by (cases w) auto
  moreover have "rel_option (\<lambda>m m'. md_source m' = md_source m
       \<and> procs_check (md_procs m') (md_entries m') (work_creating w) = Ok ()
       \<and> list_all (\<lambda>p. live_check (mk_config k) (md_source m) p = Ok ()) (ps_pcbs (md_procs m'))) (mk_model k) (mk_model k')"
    using rel model' k' by (cases "mk_model k"; cases model) (auto dest: check_life_Ok)
  ultimately show ?thesis using st work(2) txn k' by (auto simp: option.pred_set split: option.splits)
qed


text \<open>
  A walk of more pages than the buffer has is refused only after the address of its next page is computed,
  and that sum overflows when the pages run past the end of the address space.
\<close>

lemma walk_restore_overflows:
  assumes "syscall_space cfg m raw = Ok (b, s, expected)" and "length pgs < 2 ^ 32"
    and "2 ^ 20 \<le> unat (bf_buf b) div 4096 + length pgs"
  shows "walk_stage cfg m raw pgs table level = Err RestorePanic"
proof -
  have "buffer_page_va b (length pgs) = Err Panic"
    using assms(2,3) unfolding buffer_page_va_def page_base by (simp add: unat_of_nat_exact PAGE_def u32_max_def)
  then show ?thesis using assms(1) by (simp add: walk_stage_def restore_panic_def)
qed

subsection \<open>The process table, decoded\<close>

definition model_fits :: "KernelConfig \<Rightarrow> Model \<Rightarrow> bool" where
  "model_fits cfg m \<longleftrightarrow>
     (let ps = md_procs m; bm = bitmap (ps_frames ps); pool = win_size (kc_frame_pool cfg) div PAGE in
      list_all pcb_fits (ps_pcbs ps) \<and> length (ps_pcbs ps) < 256 ^ 4 \<and> length (ps_queue ps) < 256 ^ 4
      \<and> length bm = (pool + 7) div 8 \<and> length bm < 256 ^ 4 \<and> \<not> list_ex (frame_bit bm) [pool..<length bm * 8]
      \<and> (case md_source m of
           Plan plan \<Rightarrow> md_entries m = length (pl_images plan)
         | Disk _ \<Rightarrow> md_entries m \<le> 8 \<and> (md_life m = AwaitBoot \<longrightarrow> md_entries m = 0)))"

lemma length_concat_pcbs: "4 * length ps \<le> length (concat (map encode_pcb ps))"
  by (induction ps) (simp_all add: encode_pcb_def)

lemma decode_model_enc:
  assumes fits: "model_fits cfg m"
  defines "pool \<equiv> Frames_new (win_base (kc_frame_pool cfg)) (win_size (kc_frame_pool cfg))"
  shows "decode_model cfg (md_source m) (encode_model m @ rest) =
    of_reader (result_bind (each (live_check cfg (md_source m)) (ps_pcbs (md_procs m))) (\<lambda>_.
      Ok (m\<lparr>md_procs := (md_procs m)\<lparr>ps_frames := Frames_from_owners (fr_base pool)
        (fold (claim_pcb (fr_base pool)) (ps_pcbs (md_procs m)) (marked_owners pool (bitmap (ps_frames (md_procs m)))))\<rparr>\<rparr>))) rest"
proof -
  let ?ps = "md_procs m"
  have life: "decode_life (w_u8 (life_tag l) @ r) = Ok (l, r)" for l r by (cases l) (simp_all add: decode_life_def snap_bind)
  have entries: "decode_entries (md_source m) (md_life m) ((case md_source m of Plan _ \<Rightarrow> [] | Disk _ \<Rightarrow> w_u32 (of_nat (md_entries m))) @ r)
      = Ok (md_entries m, r)" for r
    using fits by (auto simp: decode_entries_def model_fits_def Let_def snap_bind MAX_PROCESSES_def unat_of_nat word_unat_eq_iff split: Source.splits)
  have pcbs: "r_many (length (ps_pcbs ?ps)) decode_pcb (concat (map encode_pcb (ps_pcbs ?ps)) @ r) = Ok (ps_pcbs ?ps, r)" for r
    using fits by (intro scpcb.r_many_enc) (simp add: model_fits_def Let_def)
  have cnt: "r_count 4 (w_len (length (ps_pcbs ?ps)) @ concat (map encode_pcb (ps_pcbs ?ps)) @ r)
      = Ok (length (ps_pcbs ?ps), concat (map encode_pcb (ps_pcbs ?ps)) @ r)" for r
    using fits length_concat_pcbs [of "ps_pcbs ?ps"] by (intro r_count_enc) (simp_all add: model_fits_def Let_def)
  have queue: "decode_ppns (w_len (length (ps_queue ?ps)) @ concat (map w_u32 (ps_queue ?ps)) @ r) = Ok (ps_queue ?ps, r)" for r
    using scppns.dec_enc [of "ps_queue ?ps" r] fits by (simp add: encode_ppns_def model_fits_def Let_def)
  have cur: "r_optional what r_u32 ((case ps_current ?ps of None \<Rightarrow> w_u8 0 | Some pid \<Rightarrow> w_u8 1 @ w_u32 pid) @ r) = Ok (ps_current ?ps, r)" for what r
    by (intro r_optional_enc) (simp add: sc32.dec_enc)
  have bm: "r_bytes (w_bytes (bitmap (ps_frames ?ps)) @ rest) = Ok (bitmap (ps_frames ?ps), rest)"
    using fits by (intro scbytes.dec_enc) (simp add: model_fits_def Let_def)
  have size: "length (bitmap (ps_frames ?ps)) = (frames_count pool + 7) div 8"
    "\<not> list_ex (frame_bit (bitmap (ps_frames ?ps))) [frames_count pool..<length (bitmap (ps_frames ?ps)) * 8]"
    using fits unfolding model_fits_def Let_def pool_def by (auto simp: frames_count_def Frames_new_def)
  show ?thesis
    unfolding decode_model_def encode_model_def Let_def append_assoc
    using size by (cases "each (live_check cfg (md_source m)) (ps_pcbs ?ps)")
      (simp_all add: life entries cnt pcbs queue cur bm pool_def [symmetric] rd_bind_def of_reader_def)
qed

subsection \<open>A snapshot that makes the restore panic\<close>

text \<open>
  A state no run reaches: process 1 has exited, yet is named as running, and a \<^verbatim>\<open>write\<close> of one byte is walking
  its page tables. Its frames were released, so its address space cannot be rebuilt.
\<close>

definition ghost_model :: Model where
  "ghost_model = \<lparr>md_source = Plan tiny_plan, md_entries = 1,
     md_procs = \<lparr>ps_pcbs = [\<lparr>pcb_pid = 1, pcb_state = Exited 0, pcb_context = None, pcb_root = 0, pcb_tables = [], pcb_regions = []\<rparr>],
       ps_queue = [], ps_current = Some 1,
       ps_frames = Frames_new (win_base (kc_frame_pool tiny_config)) (win_size (kc_frame_pool tiny_config))\<rparr>,
     md_life = Up\<rparr>"

definition ghost_kernel :: ModeledKernel where
  "ghost_kernel = \<lparr>mk_config = tiny_config,
     mk_state = KIssue (Proc \<lparr>po_stage = StWalk \<lparr>bf_sepc = 0, bf_buf = 0x10000, bf_n = 1\<rparr> [] 0 1, po_step = 0, po_data = []\<rparr>),
     mk_held = Some 0, mk_next_txn = 0, mk_model = Some ghost_model\<rparr>"

lemma frames_new_bitmap:
  "length (bitmap (Frames_new base len)) = (len div PAGE + 7) div 8" "frame_bit (bitmap (Frames_new base len)) i = False"
proof -
  have "length (fold (\<lambda>(i, w) bits. if w \<noteq> 0 then bits[i div 8 := (bits ! (i div 8)) OR push_bit (i mod 8) 1] else bits) xs ys) = length ys"
    for xs :: "(nat \<times> u32) list" and ys :: "u8 list" by (induction xs arbitrary: ys) auto
  then show "length (bitmap (Frames_new base len)) = (len div PAGE + 7) div 8"
    by (simp add: bitmap_def Frames_new_def frames_count_def)
  show "frame_bit (bitmap (Frames_new base len)) i = False"
    unfolding bitmap_is_allocation by (simp add: Frames_new_def frames_count_def)
qed

lemma ghost_decodes:
  obtains fr where "decode_model tiny_config (Plan tiny_plan) (encode_model ghost_model @ rest)
    = Ok (ghost_model\<lparr>md_procs := (md_procs ghost_model)\<lparr>ps_frames := fr\<rparr>\<rparr>, rest)"
proof -
  let ?p = "\<lparr>pcb_pid = 1, pcb_state = Exited 0, pcb_context = None, pcb_root = 0, pcb_tables = [], pcb_regions = []\<rparr>"
  have src: "md_source ghost_model = Plan tiny_plan" by (simp add: ghost_model_def)
  have "model_fits tiny_config ghost_model"
    by (simp add: model_fits_def ghost_model_def pcb_fits_def frames_new_bitmap tiny_config_def PAGE_def tiny_plan_def)
  moreover have "each (live_check tiny_config (Plan tiny_plan)) (ps_pcbs (md_procs ghost_model)) = Ok ()"
    by (simp add: ghost_model_def live_check_def)
  ultimately show thesis using decode_model_enc [of tiny_config ghost_model rest] that unfolding src by (auto simp: of_reader_def)
qed

text \<open>
  C18. A restore can panic. A snapshot that names an exited process as the running one, in the middle of a
  \<^verbatim>\<open>write\<close>, is neither accepted nor rejected: the address space of the process is rebuilt before the process
  table is checked, from frames it no longer has, and the rebuild panics.
\<close>

theorem kernel_restore_can_panic:
  "\<exists>k. with_processes tiny_config tiny_plan = Ok k \<and> kernel_restore k (kernel_snapshot ghost_kernel) = Err RestorePanic"
proof -
  have k: "with_processes tiny_config tiny_plan = Ok (with_source tiny_config (Plan tiny_plan))"
    by (simp add: with_processes_def tiny_plan_ok)
  let ?k = "with_source tiny_config (Plan tiny_plan)"
  have fits: "kernel_fits ghost_kernel" by (simp add: kernel_fits_def ghost_kernel_def)
  have cfg: "kernel_write_config ?k = kernel_write_config ghost_kernel"
    by (simp add: kernel_write_config_def with_source_def Model_new_def ghost_kernel_def ghost_model_def)
  obtain fr where dec: "decode_model tiny_config (Plan tiny_plan) (encode_model ghost_model @ [])
      = Ok (ghost_model\<lparr>md_procs := (md_procs ghost_model)\<lparr>ps_frames := fr\<rparr>\<rparr>, [])" by (rule ghost_decodes)
  have "walk_stage tiny_config (ghost_model\<lparr>md_procs := (md_procs ghost_model)\<lparr>ps_frames := fr\<rparr>\<rparr>) (0, 0x10000, 1) [] 0 1 = Err RestorePanic"
    by (simp add: walk_stage_def syscall_space_def ghost_model_def pcb_of_def Buffer_new_def WRITE_MAX_def tiny_plan_def Space_build_def
        pcb_frames_def restore_panic_def)
  then have "restore_checked ?k None (map_option raw_work (state_work (mk_state ghost_kernel))) (Some 0) 0
      (Some (ghost_model\<lparr>md_procs := (md_procs ghost_model)\<lparr>ps_frames := fr\<rparr>\<rparr>)) = Err RestorePanic"
    by (simp add: restore_checked_def restore_work_def proc_op_def ghost_kernel_def with_source_def)
  then have "kernel_restore ?k (kernel_snapshot ghost_kernel @ []) = Err RestorePanic"
    unfolding kernel_restore_decodes [OF fits cfg] using dec
    by (simp add: with_source_def Model_new_def ghost_kernel_def of_reader_def)
  then show ?thesis using k by simp
qed


lemma entered_kernel_mode:
  "mk_model entered_kernel = None" "pred_option (\<lambda>t. t \<le> u64_max) (mk_held entered_kernel)"
  "mk_config tiny_kernel = mk_config entered_kernel" "mk_model tiny_kernel = None"
  by (simp_all add: entered_kernel_def tiny_kernel_def u64_max_def)

lemma entered_not_refused: "\<not> refused_access entered_kernel"
  by (simp add: refused_access_def entered_kernel_def tiny_kernel_def entered_kernel_access)
    (simp add: tiny_config_def permits_def grants_def win_contains_def win_overlaps_def sat_add_def u64_max_def kc_frame_def FRAME_BYTES_def)

theorem proto_kernel_restore_witness:
  "kernel_runs tiny_kernel entered_kernel
    \<and> kernel_restore tiny_kernel (kernel_snapshot entered_kernel @ [1, 2]) = Ok (entered_kernel, [1, 2])"
  using proto_kernel_restore [OF entered_kernel_runs(1) entered_kernel_mode, of "[1, 2]"] entered_kernel_runs(1) entered_not_refused
  by simp

theorem kernel_restore_sound_witness:
  "kernel_restore tiny_kernel (kernel_snapshot entered_kernel @ []) = Ok (entered_kernel, [])
    \<and> pred_option (\<lambda>w. \<exists>a. work_access tiny_config w = Ok (Some a) \<and> permits tiny_config (kaddr a) (klen a)) (state_work (mk_state entered_kernel))"
proof -
  have r: "kernel_restore tiny_kernel (kernel_snapshot entered_kernel @ []) = Ok (entered_kernel, [])"
    using proto_restores [OF entered_kernel_runs(1) entered_kernel_mode, of "[]"] entered_not_refused by simp
  have "mk_config tiny_kernel = tiny_config" by (simp add: tiny_kernel_def)
  with kernel_restore_sound [OF r] r show ?thesis by simp
qed

end
