(* ===== verification/Spec2Isabelle.thy ===== *)
theory Spec2Isabelle
  imports Prelude Contracts Rv32_Instr Rv32_Encode Rv32_Execute Rv32_Csr Rv32_Sv32 Rv32_Cpu
    Rv32_CpuInv Rv32_CpuAtomic Rv32_CpuSnap Rv32_CpuSnapInv Rt_Scheduler
    Rust_Iter Elf_Parse Elf_Load Elf_User Elf_ExecTable
    Rust_Fmt Snapshot Btree Mem_Codec Plat_Ram Plat_Bus Plat_Target
    Plat_MmBus Plat_MmBusInv Plat_Media Plat_Dma Plat_DmaInv Os_Frames Os_Pte
    Elf_Display Os_Config Os_Image Os_Space Os_Process Os_Syscall Os_ProcOp Os_Model Os_OpInv Os_ModelInv
    Os_Kernel Os_KernelInv Os_KSnap Os_KRestore
begin

text \<open>
  Verification of SystemScope, a deterministic discrete-event simulator of small computer systems: an
  RV32I processor with machine, supervisor and user modes and Sv32 translation, memory-mapped devices
  on two kinds of bus, and a kernel model that runs processes loaded from ELF files on a disk image.

  \<^bold>\<open>Parts and their interaction.\<close> A runtime keeps a queue of events ordered by tick, phase and sequence
  number and delivers each to a component. A component is a state with an event handler; it sends
  messages (\<^verbatim>\<open>mem.v1\<close>, \<^verbatim>\<open>irq.v0\<close>, \<^verbatim>\<open>block.v0\<close>) on its ports, wakes itself, writes trace records, and can be
  snapshotted and restored. The CPU and the kernel are initiators on a bus; RAM, UART, interrupt
  controller and DMA controller are its targets; the DMA controller is a second initiator and talks to
  the media; its interrupt goes through the interrupt controller to the CPU. The contracts crate with
  the message types, the handler context and the snapshot encoding is not part of the repository: its
  documented behaviour is in \<^verbatim>\<open>Contracts\<close>, \<^verbatim>\<open>Snapshot\<close> and \<^verbatim>\<open>Mem_Codec\<close>.

  \<^bold>\<open>How code is modelled.\<close> A struct is a record, an enum a datatype, a handler a function from the state, the
  delivery and the context to the new state and context, to the error that faults the session, or to a
  panic (\<open>Abort\<close>); an early return, a failed index and an overflow that can happen is a branch. \<^verbatim>\<open>u8\<close>, \<^verbatim>\<open>u16\<close> and \<^verbatim>\<open>u32\<close> values
  with bit operations are words; \<^verbatim>\<open>u64\<close> counters and addresses are natural numbers with the overflow
  checks of the code written out, and unchecked arithmetic that can overflow is a panic; sums whose
  operands are bounded by their types or by a checked configuration (a 32-bit address and a constant) are plain; a \<^verbatim>\<open>BTreeMap\<close> is the ascending list its iterator yields (\<^verbatim>\<open>Btree\<close>). The
  context may refuse any effect (a parameter). The BLAKE3 hash is a parameter.

  \<^bold>\<open>Theories and sources\<close> (paths under \<^verbatim>\<open>src/\<close>).
  \<^item> \<^verbatim>\<open>Prelude\<close>, \<^verbatim>\<open>Contracts\<close>, \<^verbatim>\<open>Rust_Iter\<close>, \<^verbatim>\<open>Rust_Fmt\<close>, \<^verbatim>\<open>Btree\<close>, \<^verbatim>\<open>Snapshot\<close>, \<^verbatim>\<open>Mem_Codec\<close>: results, words, iterators, number
    formats, ordered maps, the byte encoding. The locales \<open>snap_codec\<close> (reading gives back what was
    written) and \<open>ordered_map\<close> are interpreted on every primitive and on the maps.
  \<^item> \<^verbatim>\<open>components/rv32i/src\<close>: \<^verbatim>\<open>Rv32_Instr\<close> (instr, immediate, decode, regfile), \<^verbatim>\<open>Rv32_Encode\<close> (the ISA encoding
    as the reference of the decoder), \<^verbatim>\<open>Rv32_Execute\<close> (execute, memory), \<^verbatim>\<open>Rv32_Csr\<close> (csr, privilege), \<^verbatim>\<open>Rv32_Sv32\<close>
    (sv32), \<^verbatim>\<open>Rv32_Cpu\<close> (cpu: the state machine of fetch, walk, memory and commit), \<^verbatim>\<open>Rv32_CpuInv\<close> (its
    invariant), \<^verbatim>\<open>Rv32_CpuAtomic\<close> (its refinement of an atomic instruction), \<^verbatim>\<open>Rv32_CpuSnap\<close> and \<^verbatim>\<open>Rv32_CpuSnapInv\<close>
    (snapshot, restore and inspection of the three profiles).
  \<^item> \<^verbatim>\<open>runtime/src/scheduler.rs\<close>: \<^verbatim>\<open>Rt_Scheduler\<close>.
  \<^item> \<^verbatim>\<open>components/platform/src\<close>: \<^verbatim>\<open>Plat_Ram\<close>, \<^verbatim>\<open>Plat_Bus\<close>, \<^verbatim>\<open>Plat_Target\<close> (uart, irqc and the contract \<open>mem_target\<close> of a
    bus target), \<^verbatim>\<open>Plat_MmBus\<close> and \<^verbatim>\<open>Plat_MmBusInv\<close> (mmbus), \<^verbatim>\<open>Plat_Media\<close> (media), \<^verbatim>\<open>Plat_Dma\<close> and \<^verbatim>\<open>Plat_DmaInv\<close> (dma).
  \<^item> \<^verbatim>\<open>elf/src\<close>: \<^verbatim>\<open>Elf_Parse\<close> (error, parse), \<^verbatim>\<open>Elf_Load\<close> (lib), \<^verbatim>\<open>Elf_User\<close> (user), \<^verbatim>\<open>Elf_ExecTable\<close> (exec-table),
    \<^verbatim>\<open>Elf_Display\<close> (the messages of their errors).
  \<^item> \<^verbatim>\<open>components/os/src\<close>: \<^verbatim>\<open>Os_Config\<close> (config, core), \<^verbatim>\<open>Os_Frames\<close>, \<^verbatim>\<open>Os_Pte\<close> (pte, the walk of syscall), \<^verbatim>\<open>Os_Image\<close>,
    \<^verbatim>\<open>Os_Space\<close>, \<^verbatim>\<open>Os_Process\<close>, \<^verbatim>\<open>Os_Syscall\<close> (syscall, boot), \<^verbatim>\<open>Os_ProcOp\<close> and \<^verbatim>\<open>Os_Model\<close> (procop), \<^verbatim>\<open>Os_OpInv\<close> and
    \<^verbatim>\<open>Os_ModelInv\<close> (their invariants), \<^verbatim>\<open>Os_Kernel\<close> and \<^verbatim>\<open>Os_KernelInv\<close> (kernel: gate and access engine), \<^verbatim>\<open>Os_KSnap\<close>
    and \<^verbatim>\<open>Os_KRestore\<close> (its snapshot and restore).

  \<^bold>\<open>What is shown.\<close>
  \<^item> CPU: the events of an instruction are one atomic step of the architecture; in every reachable state
    the invariant holds, nothing panics and exactly one event is outstanding; decoding inverts encoding;
    translation succeeds exactly on permitted leaves; CSR, trap and return rules; a snapshot of a
    reachable state restores exactly, and whatever restore accepts satisfies the invariant.
  \<^item> Kernel: for a disk boot, a kernel without processes, or a checked plan whose copies stay inside their pages, no
    entered value or answered byte leads to a violation or a panic; the check of a plan accepts a copy whose
    bounds overflow, and such a copy leaves its frame, so the rule is a hypothesis there. For every plan, each
    \<^verbatim>\<open>ENTER\<close> is answered once and in order and accesses stay in the whitelist. The kernel's page walk is the
    CPU's; what the ELF loader accepts passes the kernel's image check and keeps its copies inside their pages;
    whatever restore accepts is consistent, the snapshot of a kernel without processes restores exactly
    unless its next access is refused anyway, and crafted snapshots of a write make restore panic.
  \<^item> Devices: the paged RAM is a byte array, also behind a bus; both buses answer every request they accept
    exactly once; the multi-master bus serves queues in order, is fair and independent of the order of deliveries within a
    phase; the media is an array of blocks; a DMA command is the copy its registers describe and never
    leaves its aperture; the interrupt line follows the enabled sources.
  \<^item> Scheduler: dispatch order, conservation, draining, and exact resumption from a snapshot; restore
    accepts one kind of unreachable snapshot.
  \<^item> ELF: loaded contents and page plans are the memory the program headers describe; round trip of the
    execution table.

  \<^bold>\<open>Bounds and fuel.\<close> Every function terminates by structure or by a measure. The run functions of the
  specifications take a number of rounds, and the theorems state that the number is enough: 13 events
  and 6 requests for an instruction, 33 rounds per block for a DMA command, as many pops as pending
  events for the scheduler. Runs of the CPU are considered while its transaction counter is below its
  maximum.

  \<^bold>\<open>Not modelled.\<close> Of the runtime, the loop that dispatches to components, the topology builder, the
  random numbers, the snapshot container and the trace with its export (\<^verbatim>\<open>runtime/src\<close> apart from
  \<^verbatim>\<open>scheduler.rs\<close>): they rest on the contracts crate's traits and hash, and the trace is host output. The
  toy components (\<^verbatim>\<open>components/toy/src\<close>), the M0 demonstration; the reference sessions (\<^verbatim>\<open>reference/src\<close>),
  which only build topologies; \<^verbatim>\<open>xtask\<close>, a host build tool. Ports and type names of components are static
  tables. Components are proved against any environment; the whole machine, all components
  under one scheduler, is not composed beyond a bus with its target and a DMA controller with its
  memory and disk.
\<close>

end
